(* ===== verification/Prelude.thy ===== *)
theory Prelude
  imports Main "HOL-Library.Word" "HOL-Library.AList" "HOL-Library.Product_Lexorder"
begin

text \<open>
  Shared vocabulary of the development: the machine integer types of the C++ sources, the
  little-endian byte images the sources obtain by \<open>reinterpret_cast\<close>, ordered
  sets as the sources use \<open>std::set\<close>, and the lemmas on words, lists and association
  lists that the component theories share.
\<close>

unbundle bit_operations_syntax

type_synonym u8 = "8 word"
type_synonym u32 = "32 word"
type_synonym u64 = "64 word"

text \<open>\<open>std::string\<close> and \<open>bufferlist\<close> are both read as their byte sequences.\<close>

type_synonym bytes = "u8 list"

text \<open>
  \<open>unat_defs\<close>: unfold a word operation into its value on \<open>nat\<close>;
  \<open>errno_defs\<close>: the numeric error codes of \<open>errno.h\<close>.
\<close>

named_theorems unat_defs
named_theorems errno_defs

definition ENOENT :: int where [errno_defs]: "ENOENT = 2"
definition EIO :: int where [errno_defs]: "EIO = 5"
definition EBADF :: int where [errno_defs]: "EBADF = 9"
definition EINVAL :: int where [errno_defs]: "EINVAL = 22"
definition EBUSY :: int where [errno_defs]: "EBUSY = 16"
definition EEXIST :: int where [errno_defs]: "EEXIST = 17"
definition ENODEV :: int where [errno_defs]: "ENODEV = 19"
definition ENOTEMPTY :: int where [errno_defs]: "ENOTEMPTY = 39"
definition ENOLCK :: int where [errno_defs]: "ENOLCK = 37"
definition ENOSPC :: int where [errno_defs]: "ENOSPC = 28"
definition ERANGE :: int where [errno_defs]: "ERANGE = 34"

section \<open>Words\<close>

lemma unat_add_nowrap [unat_defs]:
  "unat a + unat b < 2 ^ LENGTH('a) \<Longrightarrow> unat (a + b) = unat a + unat b" for a b :: "'a::len word"
  by (simp add: unat_word_ariths)

lemma unat_sub_le [unat_defs]:
  "b \<le> a \<Longrightarrow> unat (a - b) = unat a - unat b" for a b :: "'a::len word"
  by (rule unat_sub)

lemma unat_lt_u32 [simp]: "unat (x::u32) < 4294967296"
  using unsigned_less [of x, where ?'a = nat] by simp

lemma unat_lt_u64 [simp]: "unat (x::u64) < 18446744073709551616"
  using unsigned_less [of x, where ?'a = nat] by simp

lemma unat_ucast_32_64 [simp]: "unat (ucast (x::u32) :: u64) = unat x"
  by (simp add: unsigned_ucast_eq take_bit_nat_eq_self less_trans [OF unat_lt_u32])

lemma unat_ucast_64_32: "unat (ucast (x::u64) :: u32) = unat x mod 2 ^ 32"
  by (simp add: unsigned_ucast_eq take_bit_eq_mod)

lemma ucast_ucast_64_32 [simp]: "ucast (ucast (x::u32) :: u64) = x"
  by (rule bit_word_eqI) (simp add: bit_simps)

section \<open>Little-endian byte images\<close>

text \<open>
  \<open>bl.append(reinterpret_cast<const char *>(&v), sizeof(v))\<close> on the little-endian
  machines the project supports (x86\_64 and AArch64), and the reading back of such an image.
\<close>

definition le_bytes :: "nat \<Rightarrow> 'a::len word \<Rightarrow> bytes" where
  "le_bytes n v = map (\<lambda>i. ucast (drop_bit (8 * i) v)) [0..<n]"

fun le_value :: "bytes \<Rightarrow> 'a::len word" where
  "le_value [] = 0"
| "le_value (b # bs) = ucast b OR push_bit 8 (le_value bs)"

lemma length_le_bytes [simp]: "length (le_bytes n v) = n"
  by (simp add: le_bytes_def)

lemma le_bytes_Suc: "le_bytes (Suc n) v = ucast v # le_bytes n (drop_bit 8 v)"
proof -
  have "[0..<Suc n] = 0 # map Suc [0..<n]"
    by (simp add: map_Suc_upt upt_conv_Cons del: upt_Suc)
  then show ?thesis by (simp add: le_bytes_def add.commute)
qed

lemma le_value_le_bytes: "le_value (le_bytes n (v::'a::len word)) = take_bit (8 * n) v"
proof (induction n arbitrary: v)
  case 0
  then show ?case by (simp add: le_bytes_def)
next
  case (Suc n)
  have "le_value (le_bytes (Suc n) v) = ucast (ucast v :: u8) OR push_bit 8 (take_bit (8 * n) (drop_bit 8 v))"
    by (simp add: le_bytes_Suc Suc.IH)
  also have "\<dots> = take_bit (8 * Suc n) v"
    by (rule bit_word_eqI) (auto simp: bit_simps)
  finally show ?case .
qed

lemma le_value_roundtrip [simp]:
  "LENGTH('a::len) \<le> 8 * n \<Longrightarrow> le_value (le_bytes n (v::'a word)) = v"
  by (simp add: le_value_le_bytes take_bit_word_eq_self)


section \<open>Association lists\<close>

lemma map_of_update_eq [simp]: "map_of (AList.update k v al) = (map_of al)(k \<mapsto> v)"
  by (rule update_conv')

lemma map_of_delete_eq [simp]: "map_of (AList.delete k al) = (map_of al)(k := None)"
  by (rule delete_conv')

section \<open>Ordered maps\<close>

text \<open>
  \<open>std::map\<close> as its entries in key order: \<open>m[k] = v\<close>, \<open>find\<close> and \<open>erase(k)\<close>.
\<close>

fun om_set :: "'k::linorder \<Rightarrow> 'v \<Rightarrow> ('k \<times> 'v) list \<Rightarrow> ('k \<times> 'v) list" where
  "om_set k v [] = [(k, v)]"
| "om_set k v ((k', v') # m) =
     (if k < k' then (k, v) # (k', v') # m
      else if k = k' then (k, v) # m
      else (k', v') # om_set k v m)"

definition om_erase :: "'k \<Rightarrow> ('k \<times> 'v) list \<Rightarrow> ('k \<times> 'v) list" where
  "om_erase k m = filter (\<lambda>p. fst p \<noteq> k) m"

definition om_ok :: "('k::linorder \<times> 'v) list \<Rightarrow> bool" where
  "om_ok m \<longleftrightarrow> sorted_wrt (<) (map fst m)"

lemma set_fst_om_set: "fst ` set (om_set k v m) = insert k (fst ` set m)"
  by (induction k v m rule: om_set.induct) (simp_all add: insert_commute)

lemma om_ok_set: "om_ok m \<Longrightarrow> om_ok (om_set k v m)"
proof (induction m)
  case (Cons p m)
  obtain k' v' where p: "p = (k', v')" by (cases p)
  from Cons.prems p have m: "om_ok m" "\<forall>x \<in> fst ` set m. k' < x" by (auto simp: om_ok_def)
  with Cons.IH have "om_ok (om_set k v m)" by simp
  moreover have "\<forall>x \<in> fst ` set (om_set k v m). k' < x" if "k' < k"
    using m(2) that by (simp add: set_fst_om_set)
  ultimately show ?case using m p by (auto simp: om_ok_def)
qed (simp add: om_ok_def)

lemma map_of_om_set: "map_of (om_set k v m) = (map_of m)(k \<mapsto> v)"
  by (induction m) (auto simp: fun_eq_iff)

lemma om_ok_erase: "om_ok m \<Longrightarrow> om_ok (om_erase k m)"
  by (induction m) (auto simp: om_ok_def om_erase_def)

lemma map_of_om_erase: "map_of (om_erase k m) = (map_of m)(k := None)"
  by (induction m) (auto simp: om_erase_def fun_eq_iff)

text \<open>Appending above all keys.\<close>

lemma om_set_append: "\<forall>x \<in> fst ` set m. x < k \<Longrightarrow> om_set k v (m @ n) = m @ om_set k v n"
  by (induction m) auto

lemma om_set_front: "\<forall>x \<in> fst ` set m. k < x \<Longrightarrow> om_set k v m = (k, v) # m"
  by (cases m) auto

end
