(* ===== verification/Intarith.thy ===== *)
theory Intarith
  imports Prelude
begin

text \<open>
  The rounding and power-of-two helpers of \<open>common/intarith.h\<close>, instantiated at
  \<open>uint64_t\<close>, the type every caller of the storage engine uses.
\<close>

section \<open>Definitions\<close>

text \<open>
  \<open>n % 0\<close> is undefined in C++; \<open>mod\<close> by 0 is the identity here and no lemma below
  speaks about a zero divisor.
\<close>

definition round_down_to :: "u64 \<Rightarrow> u64 \<Rightarrow> u64" where
  "round_down_to n d = n - n mod d"

definition round_up_to :: "u64 \<Rightarrow> u64 \<Rightarrow> u64" where
  "round_up_to n d = (let rem = n mod d in if rem \<noteq> 0 then n + (d - rem) else n)"

definition div_round_up :: "u64 \<Rightarrow> u64 \<Rightarrow> u64" where
  "div_round_up n d = (if n = 0 then 0 else 1 + (n - 1) div d)"

definition isp2 :: "u64 \<Rightarrow> bool" where
  "isp2 x \<longleftrightarrow> x > 0 \<and> x AND (x - 1) = 0"

definition p2align :: "u64 \<Rightarrow> u64 \<Rightarrow> u64" where
  "p2align x align = x AND (- align)"

definition p2phase :: "u64 \<Rightarrow> u64 \<Rightarrow> u64" where
  "p2phase x align = x AND (align - 1)"

definition p2nphase :: "u64 \<Rightarrow> u64 \<Rightarrow> u64" where
  "p2nphase x align = (- x) AND (align - 1)"

definition p2roundup :: "u64 \<Rightarrow> u64 \<Rightarrow> u64" where
  "p2roundup x align = - ((- x) AND (- align))"

text \<open>\<open>std::bit_width\<close>: the position of the highest set bit, plus one.\<close>

function bit_width :: "nat \<Rightarrow> nat" where
  "bit_width n = (if n = 0 then 0 else Suc (bit_width (n div 2)))"
  by pat_completeness auto
termination
  by (relation "measure id") auto

declare bit_width.simps [simp del]

definition cbits :: "u64 \<Rightarrow> nat" where
  "cbits v = (if v = 0 then 0 else bit_width (unat v))"

section \<open>Alignment on the value of a word\<close>

lemma and_minus_exp:
  "(x::u64) AND (- (2 ^ k)) = x - take_bit k x"
proof -
  have "NOT x AND take_bit k x = 0"
    by (rule bit_word_eqI) (simp add: bit_simps)
  then have "x - take_bit k x = x AND NOT (take_bit k x)"
    by (rule disjunctive_diff_eq_and_not)
  also have "\<dots> = x AND NOT (mask k)"
    by (rule bit_word_eqI) (auto simp: bit_simps)
  finally show ?thesis
    by (simp add: minus_exp_eq_not_mask)
qed

lemma take_bit_le_self: "take_bit k (x::u64) \<le> x"
  by (simp add: word_le_nat_alt unsigned_take_bit_eq take_bit_nat_less_eq_self)

lemma unat_p2align [unat_defs]:
  "unat (p2align x (2 ^ k)) = unat x - unat x mod 2 ^ k"
proof -
  have "unat (take_bit k x) = unat x mod 2 ^ k"
    by (simp add: unsigned_take_bit_eq take_bit_eq_mod [of k "unat x"])
  then show ?thesis
    by (simp add: p2align_def and_minus_exp unat_sub_le take_bit_le_self)
qed

lemma unat_minus_u64: "x \<noteq> 0 \<Longrightarrow> unat (- (x::u64)) = 2 ^ 64 - unat x"
  using unat_sub_if' [of 0 x] by (simp add: unat_gt_0)

lemma p2roundup_eq_add: "p2roundup x (2 ^ k) = x + take_bit k (- x)"
  by (simp add: p2roundup_def and_minus_exp)

lemma take_bit_minus_eq_0:
  assumes d: "2 ^ k dvd unat (x::u64)"
  shows "take_bit k (- x) = 0"
proof (cases "x = 0")
  case False
  then have "2 ^ k \<le> unat x"
    using d by (simp add: dvd_imp_le unat_gt_0)
  then have "(2::nat) ^ k < 2 ^ 64"
    by (rule le_less_trans) simp
  then have "k < 64"
    by (rule power_less_imp_less_exp [rotated]) simp
  then have "(2::nat) ^ k dvd 2 ^ 64 - unat x"
    using d by (simp add: dvd_diff_nat le_imp_power_dvd del: power_numeral numeral_power_eq_of_nat_cancel_iff)
  then have "unat (take_bit k (- x)) = 0"
    unfolding unsigned_take_bit_eq unat_minus_u64 [OF False]
    by (simp add: take_bit_eq_mod dvd_imp_mod_0)
  then show ?thesis by (simp add: unat_0_iff)
qed simp

lemma p2roundup_exact: "2 ^ k dvd unat x \<Longrightarrow> p2roundup x (2 ^ k) = x"
  by (simp add: p2roundup_eq_add take_bit_minus_eq_0)

lemma mod_minus_pow2:
  fixes a :: nat
  assumes "a \<le> 2 ^ n" "k \<le> n" "a mod 2 ^ k \<noteq> 0"
  shows "(2 ^ n - a) mod 2 ^ k = 2 ^ k - a mod 2 ^ k"
proof -
  have nz: "int a mod int (2 ^ k) \<noteq> 0"
    using assms(3) by (metis of_nat_0_eq_iff zmod_int)
  have d: "(2::nat) ^ k dvd 2 ^ n" using assms(2) by (rule le_imp_power_dvd)
  have "int ((2 ^ n - a) mod 2 ^ k) = (int (2 ^ n) - int a) mod int (2 ^ k)"
    using assms(1) by (simp add: zmod_int of_nat_diff)
  also have "\<dots> = (- int a) mod int (2 ^ k)"
    using d by (metis add_uminus_conv_diff dvd_imp_mod_0 int_dvd_int_iff mod_add_left_eq add_0)
  also have "\<dots> = int (2 ^ k) - int a mod int (2 ^ k)"
    using nz by (simp add: zmod_zminus1_eq_if)
  also have "\<dots> = int (2 ^ k - a mod 2 ^ k)"
    by (simp add: zmod_int of_nat_diff)
  finally show ?thesis by linarith
qed

lemma unat_take_bit_minus:
  assumes "k \<le> 64" "\<not> 2 ^ k dvd unat (x::u64)"
  shows "unat (take_bit k (- x)) = 2 ^ k - unat x mod 2 ^ k"
proof -
  have x: "x \<noteq> 0" using assms(2) by auto
  have r: "unat x mod 2 ^ k \<noteq> 0"
    using assms(2) by (simp add: dvd_eq_mod_eq_0)
  have le: "unat x \<le> 2 ^ 64"
    by (rule less_imp_le) simp
  have "unat (take_bit k (- x)) = (2 ^ 64 - unat x) mod 2 ^ k"
    unfolding unsigned_take_bit_eq unat_minus_u64 [OF x] by (rule take_bit_eq_mod)
  also have "\<dots> = 2 ^ k - unat x mod 2 ^ k"
    by (rule mod_minus_pow2 [OF le assms(1) r])
  finally show ?thesis .
qed

text \<open>Rounding up to a power of two, when the result fits in 64 bits.\<close>

lemma p2roundup_bounds:
  assumes "k < 64" "unat x + 2 ^ k \<le> 2 ^ 64"
  shows "unat x \<le> unat (p2roundup x (2 ^ k))"
    and "unat (p2roundup x (2 ^ k)) < unat x + 2 ^ k"
    and "2 ^ k dvd unat (p2roundup x (2 ^ k))"
proof -
  consider (al) "2 ^ k dvd unat x" | (un) "\<not> 2 ^ k dvd unat x" by blast
  then have "unat x \<le> unat (p2roundup x (2 ^ k)) \<and> unat (p2roundup x (2 ^ k)) < unat x + 2 ^ k
      \<and> 2 ^ k dvd unat (p2roundup x (2 ^ k))"
  proof cases
    case al
    then show ?thesis by (simp add: p2roundup_exact)
  next
    case un
    let ?r = "unat x mod 2 ^ k"
    have r: "0 < ?r" "?r < 2 ^ k"
      using un by (simp_all add: dvd_eq_mod_eq_0)
    have t: "unat (take_bit k (- x)) = 2 ^ k - ?r"
      using assms(1) un by (simp add: unat_take_bit_minus)
    have v: "unat (p2roundup x (2 ^ k)) = unat x + (2 ^ k - ?r)"
      unfolding p2roundup_eq_add t [symmetric]
    proof (rule unat_add_nowrap)
      show "unat x + unat (take_bit k (- x)) < 2 ^ LENGTH(64)"
        unfolding t using assms(2) r by simp
    qed
    have e: "unat x + (2 ^ k - ?r) = unat x - ?r + 2 ^ k"
      using r mod_less_eq_dividend [of "unat x" "2 ^ k"] by linarith
    have "2 ^ k dvd unat x - ?r" by (rule dvd_minus_mod)
    then have "2 ^ k dvd unat (p2roundup x (2 ^ k))"
      unfolding v e by (rule dvd_add) simp
    then show ?thesis using v r by linarith
  qed
  then show "unat x \<le> unat (p2roundup x (2 ^ k))"
    and "unat (p2roundup x (2 ^ k)) < unat x + 2 ^ k"
    and "2 ^ k dvd unat (p2roundup x (2 ^ k))" by simp_all
qed

lemma sint_small: "unat (a::u64) < 2 ^ 63 \<Longrightarrow> sint a = int (unat a)"
proof -
  assume "unat a < 2 ^ 63"
  then have "int (unat a) < int (2 ^ 63)" by (simp only: of_nat_less_iff)
  then have "uint a < 2 ^ 63" by simp
  moreover have "- (2 ^ 63) \<le> uint a" by (rule order_trans [OF _ uint_ge_0]) simp
  ultimately show ?thesis unfolding sint_uint by (simp add: signed_take_bit_int_eq_self)
qed

section \<open>Powers of two\<close>

lemma isp2_exp: "k < 64 \<Longrightarrow> isp2 (2 ^ k)"
proof -
  assume k: "k < 64"
  have "(2::u64) ^ k AND (2 ^ k - 1) = 2 ^ k AND mask k"
    by (simp add: mask_eq_exp_minus_1)
  also have "\<dots> = 0"
    by (rule bit_word_eqI) (auto simp: bit_simps)
  finally show ?thesis
    using k by (simp add: isp2_def word_neq_0_conv [symmetric] del: word_neq_0_conv)
qed

lemma bit_top: "2 ^ k \<le> unat x \<Longrightarrow> unat x < 2 ^ Suc k \<Longrightarrow> bit (x::u64) k"
proof -
  assume "2 ^ k \<le> unat x" "unat x < 2 ^ Suc k"
  then have "unat x div 2 ^ k = 1"
    by (intro div_nat_eqI) simp_all
  then have "bit (unat x) k" by (simp add: bit_iff_odd)
  then show ?thesis by (simp add: bit_unsigned_iff)
qed

lemma isp2_imp_exp:
  assumes "isp2 x"
  obtains k where "k < 64" "x = 2 ^ k"
proof -
  from assms have x: "0 < unat x" and a: "x AND (x - 1) = 0"
    by (auto simp: isp2_def unat_gt_0)
  obtain k where k: "2 ^ k \<le> unat x" "unat x < 2 ^ Suc k"
    using ex_power_ivl1 [of 2 "unat x"] x by auto
  have "(2::nat) ^ k < 2 ^ 64" using k(1) by (rule le_less_trans) simp
  then have k64: "k < 64" by (rule power_less_imp_less_exp [rotated]) simp
  have "unat x = 2 ^ k"
  proof (rule ccontr)
    assume "unat x \<noteq> 2 ^ k"
    then have "2 ^ k \<le> unat (x - 1)" "unat (x - 1) < 2 ^ Suc k"
      using k x by (simp_all add: unat_minus_one unat_gt_0)
    then have "bit (x AND (x - 1)) k"
      using k by (simp add: bit_and_iff bit_top)
    with a show False by simp
  qed
  then have "x = 2 ^ k"
    by (metis of_nat_power of_nat_numeral of_nat_unat ucast_id)
  with k64 show ?thesis by (rule that)
qed

theorem isp2_iff: "isp2 x \<longleftrightarrow> (\<exists>k<64. x = 2 ^ k)"
  by (auto elim: isp2_imp_exp intro: isp2_exp)

text \<open>The value of \<open>unat (2 ^ k)\<close> for the exponents of 64-bit alignments.\<close>

lemma unat_exp_u64 [simp]: "k < 64 \<Longrightarrow> unat ((2::u64) ^ k) = 2 ^ k"
proof -
  assume "k < 64"
  then have "(2::nat) ^ k < 2 ^ 64" by (rule power_strict_increasing) simp
  moreover have "(2::u64) ^ k = of_nat (2 ^ k)" by simp
  ultimately show ?thesis by (simp only: unat_of_nat) simp
qed

section \<open>Rounding to an arbitrary multiple\<close>

theorem round_up_to_correct:
  assumes "0 < d" "unat n + unat d \<le> 2 ^ 64"
  shows "unat n \<le> unat (round_up_to n d)"
    and "unat (round_up_to n d) < unat n + unat d"
    and "unat d dvd unat (round_up_to n d)"
proof -
  have d: "0 < unat d" using assms(1) by (simp add: unat_gt_0)
  let ?r = "unat n mod unat d"
  have r: "?r < unat d" using d by simp
  have m: "unat (n mod d) = ?r" by (rule unat_mod)
  have v: "unat (round_up_to n d) = (if ?r = 0 then unat n else unat n + (unat d - ?r))"
  proof (cases "?r = 0")
    case True
    then show ?thesis using m by (simp add: round_up_to_def unat_0_iff)
  next
    case False
    have le: "n mod d \<le> d" using m r by (simp add: word_le_nat_alt)
    have "unat (d - n mod d) = unat d - ?r" using unat_sub_le [OF le] m by simp
    moreover have "unat n + (unat d - ?r) < 2 ^ 64" using False assms(2) r by linarith
    ultimately have "unat (n + (d - n mod d)) = unat n + (unat d - ?r)"
      by (subst unat_add_nowrap) simp_all
    moreover have "n mod d \<noteq> 0" using False m by (metis unat_0)
    ultimately show ?thesis using False by (simp add: round_up_to_def Let_def)
  qed
  have e: "?r \<noteq> 0 \<Longrightarrow> unat n + (unat d - ?r) = (unat n - ?r) + unat d"
    using r mod_less_eq_dividend [of "unat n" "unat d"] by linarith
  show "unat n \<le> unat (round_up_to n d)" by (simp add: v)
  show "unat (round_up_to n d) < unat n + unat d" using r d by (auto simp: v)
  show "unat d dvd unat (round_up_to n d)"
  proof (cases "?r = 0")
    case False
    then have "unat (round_up_to n d) = (unat n - ?r) + unat d" using v e by simp
    moreover have "unat d dvd unat n - ?r" by (rule dvd_minus_mod)
    ultimately show ?thesis by (metis dvd_add_triv_right_iff)
  qed (simp add: v dvd_eq_mod_eq_0)
qed

end
