(* ===== verification/Crc32.thy ===== *)
theory Crc32
  imports Prelude
begin

text \<open>
  CRC-32C of \<open>common/crc32.cc\<close>: the table of the constructor \<open>CRC32Table\<close>, the
  table-driven software routine and the entry point \<open>calc_crc32\<close> of a build without
  ISA-L. The journal and the extent headers are protected by it.
\<close>

section \<open>Definitions\<close>

definition POLY_CASTAGNOLI :: u32 where
  "POLY_CASTAGNOLI = 0x82F63B78"

text \<open>One round of the inner loop of \<open>CRC32Table::CRC32Table\<close>.\<close>

definition crc_round :: "u32 \<Rightarrow> u32" where
  "crc_round crc =
     (if crc AND 1 \<noteq> 0 then drop_bit 1 crc XOR POLY_CASTAGNOLI else drop_bit 1 crc)"

definition crc32_table :: "u32 list" where
  "crc32_table = map (\<lambda>i. (crc_round ^^ 8) (of_nat i)) [0..<256]"

text \<open>The body of the loop over the bytes: \<open>index = (crc ^ data[i]) & 0xFF\<close>.\<close>

definition crc_byte :: "u32 \<Rightarrow> u8 \<Rightarrow> u32" where
  "crc_byte crc d =
     (let index = ucast ((crc XOR ucast d) AND 0xFF) :: u8
      in drop_bit 8 crc XOR crc32_table ! unat index)"

definition crc32c_software_fallback :: "bytes \<Rightarrow> u32 \<Rightarrow> u32" where
  "crc32c_software_fallback data previous_crc = NOT (foldl crc_byte (NOT previous_crc) data)"

text \<open>
  \<open>data == nullptr\<close> asks for the CRC of \<open>length\<close> zero bytes; the loop then has no
  data byte to xor in.
\<close>

fun crc_zeros :: "nat \<Rightarrow> u32 \<Rightarrow> u32" where
  "crc_zeros 0 crc = crc"
| "crc_zeros (Suc n) crc =
     crc_zeros n (drop_bit 8 crc XOR crc32_table ! unat (ucast (crc AND 0xFF) :: u8))"

definition calc_crc32 :: "bytes option \<Rightarrow> nat \<Rightarrow> u32 \<Rightarrow> u32" where
  "calc_crc32 data len previous_crc =
     (if len = 0 then previous_crc
      else case data of
        None \<Rightarrow> NOT (crc_zeros len (NOT previous_crc))
      | Some d \<Rightarrow> crc32c_software_fallback (take len d) previous_crc)"

section \<open>The table-driven step is eight rounds of the bitwise CRC\<close>

definition crc_byte_bitwise :: "u32 \<Rightarrow> u8 \<Rightarrow> u32" where
  "crc_byte_bitwise crc d = (crc_round ^^ 8) (crc XOR ucast d)"

lemma crc_round_alt:
  "crc_round x = drop_bit 1 x XOR (if bit x 0 then POLY_CASTAGNOLI else 0)"
  by (simp add: crc_round_def and_one_eq mod_2_eq_odd bit_0)

lemma crc_round_xor: "crc_round (x XOR y) = crc_round x XOR crc_round y"
  by (rule bit_word_eqI) (auto simp: crc_round_alt bit_simps)

lemma crc_rounds_xor: "(crc_round ^^ n) (x XOR y) = (crc_round ^^ n) x XOR (crc_round ^^ n) y"
  by (induction n) (simp_all add: crc_round_xor)

text \<open>While the low bits are zero, a round only shifts.\<close>

lemma crc_rounds_shift: "(\<And>i. i < n \<Longrightarrow> \<not> bit x i) \<Longrightarrow> (crc_round ^^ n) x = drop_bit n x"
proof (induction n)
  case (Suc n)
  then have "(crc_round ^^ n) x = drop_bit n x" by simp
  moreover have "\<not> bit (drop_bit n x) 0"
    using Suc.prems by (simp add: bit_simps)
  ultimately show ?case
    by (simp add: crc_round_alt [of "drop_bit n x"] drop_bit_drop_bit)
qed simp

lemma unat_take_byte: "unat (take_bit 8 (x::u32)) < 256"
  using take_bit_nat_less_exp [of 8 "unat x"] by (simp add: unsigned_take_bit_eq)

lemma unat_low_byte: "unat (ucast (x AND 0xFF) :: u8) = unat (x AND (0xFF::u32))"
proof -
  have "x AND (0xFF::u32) = take_bit 8 x" by (simp add: take_bit_eq_mask mask_eq_exp_minus_1)
  then show ?thesis
    using unat_take_byte [of x] by (simp add: unsigned_ucast_eq take_bit_nat_eq_self)
qed

lemma crc_byte_eq_bitwise: "crc_byte crc d = crc_byte_bitwise crc d"
proof -
  let ?x = "crc XOR ucast d"
  let ?lo = "?x AND 0xFF" and ?hi = "?x AND NOT 0xFF"
  have ff: "(0xFF::u32) = mask 8" by (simp add: mask_eq_exp_minus_1)
  have lo: "?lo = take_bit 8 ?x" by (simp add: take_bit_eq_mask mask_eq_exp_minus_1)
  have lt: "unat ?lo < 256" unfolding lo by (rule unat_take_byte)
  have split: "?x = ?hi XOR ?lo" by (rule bit_word_eqI) (auto simp: bit_simps)
  have "(crc_round ^^ 8) ?hi = drop_bit 8 ?hi"
    by (rule crc_rounds_shift) (simp add: ff bit_simps)
  also have "\<dots> = drop_bit 8 crc"
    by (rule bit_word_eqI) (auto simp: ff bit_simps dest: bit_imp_le_length)
  finally have hi: "(crc_round ^^ 8) ?hi = drop_bit 8 crc" .
  have "crc32_table ! unat (ucast ?lo :: u8) = (crc_round ^^ 8) ?lo"
    using lt by (simp add: unat_low_byte crc32_table_def)
  then show ?thesis
    unfolding crc_byte_def Let_def crc_byte_bitwise_def
    by (subst split, simp only: crc_rounds_xor hi)
qed

section \<open>Composition and zero buffers\<close>

lemma crc32c_append:
  "crc32c_software_fallback (a @ b) c = crc32c_software_fallback b (crc32c_software_fallback a c)"
  by (simp add: crc32c_software_fallback_def)

lemma crc_zeros_eq: "crc_zeros n crc = foldl crc_byte crc (replicate n 0)"
  by (induction n arbitrary: crc) (simp_all add: crc_byte_def)

lemma calc_crc32_Some [simp]:
  "calc_crc32 (Some d) (length d) c = crc32c_software_fallback d c"
  by (simp add: calc_crc32_def crc32c_software_fallback_def)

section \<open>Error detection\<close>

text \<open>The top bit of a round's result is the bit that was shifted out, so a round is injective.\<close>

lemma xor_cancel_right: "(a::u32) XOR c = b XOR c \<Longrightarrow> a = b"
  by (metis xor.assoc xor.right_neutral xor_self_eq)

lemma bit_31_crc_round: "bit (crc_round x) 31 \<longleftrightarrow> bit x 0"
proof -
  have "\<not> bit x 32" using bit_imp_le_length [of x 32] by auto
  then show ?thesis by (simp add: crc_round_alt bit_simps POLY_CASTAGNOLI_def)
qed

lemma inj_crc_round: "crc_round x = crc_round y \<Longrightarrow> x = y"
proof -
  assume eq: "crc_round x = crc_round y"
  then have b0: "bit x 0 \<longleftrightarrow> bit y 0"
    by (metis bit_31_crc_round)
  with eq have d: "drop_bit 1 x = drop_bit 1 y"
    by (auto simp: crc_round_alt split: if_splits dest: xor_cancel_right)
  show "x = y"
  proof (rule bit_word_eqI)
    fix n
    show "bit x n \<longleftrightarrow> bit y n"
    proof (cases n)
      case (Suc m)
      have "bit (drop_bit 1 x) m \<longleftrightarrow> bit (drop_bit 1 y) m" by (simp only: d)
      with Suc show ?thesis by (simp add: bit_simps)
    qed (simp add: b0)
  qed
qed

lemma inj_crc_rounds: "(crc_round ^^ n) x = (crc_round ^^ n) y \<Longrightarrow> x = y"
  by (induction n) (auto dest: inj_crc_round)

lemma crc_byte_inj_crc: "crc_byte a d = crc_byte b d \<Longrightarrow> a = b"
  unfolding crc_byte_eq_bitwise crc_byte_bitwise_def
  by (drule inj_crc_rounds) (rule xor_cancel_right)

lemma ucast_u8_u32_inj: "(ucast (d::u8) :: u32) = ucast e \<Longrightarrow> d = e"
proof (rule bit_word_eqI)
  fix n assume eq: "(ucast d :: u32) = ucast e" and "n < LENGTH(8)"
  have "bit (ucast d :: u32) n \<longleftrightarrow> bit (ucast e :: u32) n" by (simp only: eq)
  then show "bit d n \<longleftrightarrow> bit e n" using \<open>n < LENGTH(8)\<close> by (simp add: bit_simps)
qed

lemma crc_byte_inj_data: "crc_byte a d = crc_byte a e \<Longrightarrow> d = e"
  unfolding crc_byte_eq_bitwise crc_byte_bitwise_def
  by (drule inj_crc_rounds) (metis ucast_u8_u32_inj xor.commute xor_cancel_right)

lemma foldl_crc_byte_inj: "foldl crc_byte a ds = foldl crc_byte b ds \<Longrightarrow> a = b"
  by (induction ds arbitrary: a b) (auto dest: crc_byte_inj_crc)

lemma foldl_split_nth:
  "i < length xs \<Longrightarrow> foldl f a xs = foldl f (f (foldl f a (take i xs)) (xs ! i)) (drop (Suc i) xs)"
  using arg_cong [OF id_take_nth_drop [of i xs], of "foldl f a"] by simp

section \<open>Properties\<close>

text \<open>C20: the table-driven \<open>crc32c_software_fallback\<close> computes the bitwise CRC-32C: eight rounds of the
  reflected Castagnoli polynomial per input byte, between the initial and the final complement.\<close>

theorem crc32c_table_driven_is_bitwise:
  "crc32c_software_fallback data c = NOT (foldl crc_byte_bitwise (NOT c) data)"
proof -
  have "crc_byte = crc_byte_bitwise" by (intro ext crc_byte_eq_bitwise)
  then show ?thesis by (simp add: crc32c_software_fallback_def)
qed

text \<open>\<open>calc_crc32\<close> can be computed piecewise (the journal chains its frame header and
  payload this way), and a null buffer stands for a run of zero bytes.\<close>

theorem calc_crc32_incremental:
  "calc_crc32 (Some (a @ b)) (length a + length b) c =
     calc_crc32 (Some b) (length b) (calc_crc32 (Some a) (length a) c) \<and>
   calc_crc32 None n c = calc_crc32 (Some (replicate n 0)) n c"
  using calc_crc32_Some [of "a @ b" c]
  by (simp add: crc32c_append) (simp add: calc_crc32_def crc32c_software_fallback_def crc_zeros_eq)

text \<open>C21: any change of a single byte within the checked length changes the CRC, whatever the previous
  CRC: a header or journal frame with one damaged byte never passes the check.\<close>

theorem calc_crc32_detects_byte_error:
  assumes "i < n" "n \<le> length data" "b \<noteq> data ! i"
  shows "calc_crc32 (Some (data[i := b])) n c \<noteq> calc_crc32 (Some data) n c"
proof
  let ?xs = "take n data"
  let ?pre = "foldl crc_byte (NOT c) (take i ?xs)" and ?post = "drop (Suc i) ?xs"
  have i: "i < length ?xs" "?xs ! i = data ! i" "take n (data[i := b]) = ?xs[i := b]"
    using assms by (simp_all add: take_update_swap)
  assume "calc_crc32 (Some (data[i := b])) n c = calc_crc32 (Some data) n c"
  then have "foldl crc_byte (NOT c) (?xs[i := b]) = foldl crc_byte (NOT c) ?xs"
    using assms(1) by (simp add: calc_crc32_def crc32c_software_fallback_def i(3))
  then have "foldl crc_byte (crc_byte ?pre b) ?post = foldl crc_byte (crc_byte ?pre (data ! i)) ?post"
    using foldl_split_nth [OF i(1), of crc_byte "NOT c"]
      foldl_split_nth [of i "?xs[i := b]" crc_byte "NOT c"] i(1,2) by simp
  then show False using foldl_crc_byte_inj crc_byte_inj_data assms(3) by blast
qed

theorem calc_crc32_detects_byte_error_witness:
  "calc_crc32 (Some ([1, 2, 3][1 := 7])) 3 0 \<noteq> calc_crc32 (Some [1, 2, 3]) 3 0"
  by (rule calc_crc32_detects_byte_error [of 1 3 "[1, 2, 3]" 7 0]) simp_all

end
