(* ===== verification/Btier_Types.thy ===== *)
theory Btier_Types
  imports Prelude Crc32
begin

text \<open>
  The plain data of the tiering engine, \<open>btier/btier_types.h\<close>: tiers, disk and key
  locations, the packed metrics word of an extent and the on-disk extent header.
\<close>

section \<open>Tiers and locations\<close>

text \<open>\<open>enum class Tier : uint8_t\<close>; \<open>OTHER\<close> stands for the byte values without a name.\<close>

datatype tier = FAST | SLOW | OTHER u8

definition tier_byte :: "tier \<Rightarrow> u8" where
  "tier_byte t = (case t of FAST \<Rightarrow> 0 | SLOW \<Rightarrow> 1 | OTHER b \<Rightarrow> b)"

definition byte_tier :: "u8 \<Rightarrow> tier" where
  "byte_tier b = (if b = 0 then FAST else if b = 1 then SLOW else OTHER b)"

definition named_tier :: "tier \<Rightarrow> bool" where
  "named_tier t \<longleftrightarrow> t = FAST \<or> t = SLOW"

lemma byte_tier_byte: "named_tier t \<Longrightarrow> byte_tier (tier_byte t) = t"
  by (auto simp: named_tier_def tier_byte_def byte_tier_def)

lemma tier_byte_tier [simp]: "tier_byte (byte_tier b) = b"
  by (simp add: tier_byte_def byte_tier_def)

record DiskLocation =
  dl_offset :: u64
  dl_length :: u32
  dl_tier :: tier

record KeyLocation =
  kl_extent_id :: u64
  kl_offset :: u32
  kl_length :: u32

datatype IoOp = READ | WRITE

definition default_DiskLocation :: DiskLocation where
  "default_DiskLocation = \<lparr>dl_offset = 0, dl_length = 0, dl_tier = FAST\<rparr>"

definition default_KeyLocation :: KeyLocation where
  "default_KeyLocation = \<lparr>kl_extent_id = 0, kl_offset = 0, kl_length = 0\<rparr>"

text \<open>\<open>ExtentHeader::HEADER_SIZE\<close>, as a 32-bit and as a 64-bit constant.\<close>

definition HEADER_SIZE :: u32 where "HEADER_SIZE = 4096"

abbreviation HEADER_SIZE64 :: u64 where "HEADER_SIZE64 \<equiv> ucast HEADER_SIZE"

section \<open>The packed metrics word\<close>

text \<open>\<open>enum ExtentState\<close>.\<close>

definition ACTIVE :: u32 where "ACTIVE = 0"
definition MIGRATING :: u32 where "MIGRATING = 1"

definition pack :: "u32 \<Rightarrow> u32 \<Rightarrow> u32 \<Rightarrow> u32 \<Rightarrow> u64 \<Rightarrow> u64" where
  "pack access wr random st gen =
     ucast (access AND 0xFFF)
     OR push_bit 12 (ucast (wr AND 0xFFF))
     OR push_bit 24 (ucast (random AND 0x3F))
     OR push_bit 30 (ucast (st AND 0x3))
     OR push_bit 32 (gen AND 0xFFFFFFFF)"

definition access_count :: "u64 \<Rightarrow> u32" where "access_count v = ucast (v AND 0xFFF)"
definition write_count :: "u64 \<Rightarrow> u32" where "write_count v = ucast (drop_bit 12 v AND 0xFFF)"
definition randomness :: "u64 \<Rightarrow> u32" where "randomness v = ucast (drop_bit 24 v AND 0x3F)"
definition state :: "u64 \<Rightarrow> u32" where "state v = ucast (drop_bit 30 v AND 0x3)"
definition generation :: "u64 \<Rightarrow> u64" where "generation v = drop_bit 32 v"

definition is_migrating :: "u64 \<Rightarrow> bool" where
  "is_migrating v \<longleftrightarrow> state v = MIGRATING"

lemmas metrics_defs = access_count_def write_count_def randomness_def state_def generation_def

text \<open>The masks of the source as bit masks.\<close>

lemma field_masks:
  "(0xFFF::u64) = mask 12" "(0x3F::u64) = mask 6" "(0x3::u64) = mask 2" "(0xFFFFFFFF::u64) = mask 32"
  "(0xFFF::u32) = mask 12" "(0x3F::u32) = mask 6" "(0x3::u32) = mask 2"
  by (simp_all add: mask_eq_exp_minus_1)

lemma access_count_pack: "access_count (pack a w r s g) = a AND 0xFFF"
  unfolding access_count_def pack_def field_masks
  by (rule bit_word_eqI) (auto simp: bit_simps)

lemma write_count_pack: "write_count (pack a w r s g) = w AND 0xFFF"
  unfolding write_count_def pack_def field_masks
  by (rule bit_word_eqI) (auto simp: bit_simps)

lemma randomness_pack: "randomness (pack a w r s g) = r AND 0x3F"
  unfolding randomness_def pack_def field_masks
  by (rule bit_word_eqI) (auto simp: bit_simps)

lemma state_pack: "state (pack a w r s g) = s AND 0x3"
  unfolding state_def pack_def field_masks
  by (rule bit_word_eqI) (auto simp: bit_simps)

lemma generation_pack: "generation (pack a w r s g) = g AND 0xFFFFFFFF"
  unfolding generation_def pack_def field_masks
  by (rule bit_word_eqI) (auto simp: bit_simps)

lemma pack_unpack:
  "pack (access_count v) (write_count v) (randomness v) (state v) (generation v) = v"
  unfolding metrics_defs pack_def field_masks
proof (rule bit_word_eqI)
  fix n :: nat
  assume "n < LENGTH(64)"
  then consider "n < 12" | "12 \<le> n" "n < 24" | "24 \<le> n" "n < 30" | "30 \<le> n" "n < 32"
    | "32 \<le> n" "n < 64" by fastforce
  then show "bit (ucast ((ucast (v AND mask 12) :: u32) AND mask 12)
       OR push_bit 12 (ucast ((ucast (drop_bit 12 v AND mask 12) :: u32) AND mask 12))
       OR push_bit 24 (ucast ((ucast (drop_bit 24 v AND mask 6) :: u32) AND mask 6))
       OR push_bit 30 (ucast ((ucast (drop_bit 30 v AND mask 2) :: u32) AND mask 2))
       OR push_bit 32 (drop_bit 32 v AND mask 32)) n \<longleftrightarrow> bit v n"
    by cases (auto simp: bit_simps less_diff_conv2)
qed

text \<open>A field that fits in its width survives packing.\<close>

lemma and_mask_small: "unat x < 2 ^ n \<Longrightarrow> (x::'a::len word) AND mask n = x"
  by (simp flip: take_bit_eq_mask add: word_unat_eq_iff unsigned_take_bit_eq take_bit_nat_eq_self)

lemma metrics_bounds:
  "unat (access_count v) < 4096" "unat (write_count v) < 4096"
  "unat (randomness v) < 64" "unat (state v) < 4" "unat (generation v) < 2 ^ 32"
proof -
  have m: "unat (ucast (x AND mask n) :: u32) < 2 ^ n" if "n \<le> 32" for x :: u64 and n
  proof -
    have "unat (take_bit n x) < 2 ^ n"
      using take_bit_nat_less_exp [of n "unat x"] by (simp add: unsigned_take_bit_eq)
    then show ?thesis
      using that by (simp flip: take_bit_eq_mask
          add: unsigned_ucast_eq unsigned_take_bit_eq take_bit_take_bit)
  qed
  from m [of 12 v] show "unat (access_count v) < 4096"
    by (simp add: access_count_def field_masks)
  from m [of 12 "drop_bit 12 v"] show "unat (write_count v) < 4096"
    by (simp add: write_count_def field_masks)
  from m [of 6 "drop_bit 24 v"] show "unat (randomness v) < 64"
    by (simp add: randomness_def field_masks)
  from m [of 2 "drop_bit 30 v"] show "unat (state v) < 4"
    by (simp add: state_def field_masks)
  show "unat (generation v) < 2 ^ 32"
    unfolding generation_def unat_drop_bit_eq drop_bit_eq_div [of 32 "unat v"]
    by (rule less_mult_imp_div_less) simp
qed

section \<open>The on-disk extent header\<close>

record ExtentHeader =
  eh_magic :: u64
  eh_extent_id :: u64
  eh_length :: u32
  eh_used_bytes :: u32
  eh_live_bytes :: u32
  eh_reserved :: u32
  eh_generation :: u64
  eh_crc :: u32
  eh_pad :: bytes

definition EXTENT_MAGIC :: u64 where "EXTENT_MAGIC = 0x4254494552535445"

text \<open>The 40 bytes before \<open>crc\<close>, and the whole 4096-byte image.\<close>

definition header_prefix :: "ExtentHeader \<Rightarrow> bytes" where
  "header_prefix h = le_bytes 8 (eh_magic h) @ le_bytes 8 (eh_extent_id h) @
     le_bytes 4 (eh_length h) @ le_bytes 4 (eh_used_bytes h) @ le_bytes 4 (eh_live_bytes h) @
     le_bytes 4 (eh_reserved h) @ le_bytes 8 (eh_generation h)"

definition header_image :: "ExtentHeader \<Rightarrow> bytes" where
  "header_image h = header_prefix h @ le_bytes 4 (eh_crc h) @ eh_pad h"

definition header_crc :: "ExtentHeader \<Rightarrow> u32" where
  "header_crc h = calc_crc32 (Some (header_prefix h)) 40 0"

text \<open>\<open>memset(&hdr, 0, sizeof hdr)\<close>, the field assignments, then the CRC.\<close>

definition make_header :: "u64 \<Rightarrow> u32 \<Rightarrow> u32 \<Rightarrow> u32 \<Rightarrow> u64 \<Rightarrow> ExtentHeader" where
  "make_header eid len used live gen =
     (let h = \<lparr>eh_magic = EXTENT_MAGIC, eh_extent_id = eid, eh_length = len,
               eh_used_bytes = used, eh_live_bytes = live, eh_reserved = 0,
               eh_generation = gen, eh_crc = 0, eh_pad = replicate 4052 0\<rparr>
      in h\<lparr>eh_crc := header_crc h\<rparr>)"

text \<open>\<open>memcpy(&hdr, bytes, sizeof hdr)\<close>.\<close>

definition read_header :: "bytes \<Rightarrow> ExtentHeader" where
  "read_header bs =
     \<lparr>eh_magic = le_value (take 8 bs), eh_extent_id = le_value (take 8 (drop 8 bs)),
      eh_length = le_value (take 4 (drop 16 bs)), eh_used_bytes = le_value (take 4 (drop 20 bs)),
      eh_live_bytes = le_value (take 4 (drop 24 bs)), eh_reserved = le_value (take 4 (drop 28 bs)),
      eh_generation = le_value (take 8 (drop 32 bs)), eh_crc = le_value (take 4 (drop 40 bs)),
      eh_pad = take 4052 (drop 44 bs)\<rparr>"

lemma length_header_prefix [simp]: "length (header_prefix h) = 40"
  by (simp add: header_prefix_def)

lemma length_make_header [simp]: "length (header_image (make_header e l u v g)) = 4096"
  by (simp add: header_image_def make_header_def Let_def)

lemma read_header_image:
  "length (eh_pad h) = 4052 \<Longrightarrow> read_header (header_image h) = h"
  by (simp add: read_header_def header_image_def header_prefix_def)

lemma header_crc_upd [simp]: "header_crc (h\<lparr>eh_crc := c\<rparr>) = header_crc h"
  by (simp add: header_crc_def header_prefix_def)

section \<open>Properties\<close>

text \<open>The packed metrics word is a faithful encoding: packing and unpacking are inverse in both
  directions, up to the truncation of each field to its width.\<close>

theorem metrics_word_roundtrip:
  "pack (access_count v) (write_count v) (randomness v) (state v) (generation v) = v \<and>
   access_count (pack a w r s g) = take_bit 12 a \<and> write_count (pack a w r s g) = take_bit 12 w \<and>
   randomness (pack a w r s g) = take_bit 6 r \<and> state (pack a w r s g) = take_bit 2 s \<and>
   generation (pack a w r s g) = take_bit 32 g"
  by (simp add: pack_unpack access_count_pack write_count_pack randomness_pack state_pack
      generation_pack field_masks take_bit_eq_mask)

text \<open>The extent header that is written is read back unchanged by recovery, and it carries the magic
  and the checksum recovery asks for.\<close>

theorem extent_header_roundtrip:
  "let h = make_header eid len used live gen; d = read_header (header_image h)
   in d = h \<and> length (header_image h) = unat HEADER_SIZE \<and> eh_magic d = EXTENT_MAGIC \<and>
      header_crc d = eh_crc d \<and> eh_extent_id d = eid \<and> eh_length d = len \<and>
      eh_used_bytes d = used \<and> eh_live_bytes d = live \<and> eh_generation d = gen"
proof -
  let ?h = "make_header eid len used live gen"
  have "read_header (header_image ?h) = ?h"
    by (rule read_header_image) (simp add: make_header_def Let_def)
  moreover have "header_crc ?h = eh_crc ?h"
    by (simp add: make_header_def Let_def header_crc_def header_prefix_def)
  ultimately show ?thesis
    by (simp add: Let_def HEADER_SIZE_def) (simp add: make_header_def Let_def)
qed

end
