(* ===== verification/Key_Map.thy ===== *)
theory Key_Map
  imports Btier_Types
begin

text \<open>
  \<open>btier/key_map.cc\<close>: the map from keys to slots, its reverse index from extents to the
  keys they hold, and the per-key stride tracking. Both \<open>unordered_map\<close>s are
  association lists without duplicate keys, an \<open>unordered_set\<close> is a list without
  duplicates; the order of the lists stands for the unspecified iteration order.
\<close>

section \<open>State and operations\<close>

definition kSequentialThreshold :: u64 where "kSequentialThreshold = 64 * 1024"
definition kMaxSeqAward :: u32 where "kMaxSeqAward = 63"

record KeyEntry =
  ke_loc :: KeyLocation
  ke_last_lba :: u64
  ke_consecutive_sequential :: u32

definition default_KeyEntry :: KeyEntry where
  "default_KeyEntry = \<lparr>ke_loc = default_KeyLocation, ke_last_lba = 0, ke_consecutive_sequential = 0\<rparr>"

record KeyMap =
  km_map :: "(bytes \<times> KeyEntry) list"
  km_reverse_index :: "(u64 \<times> bytes list) list"

definition empty_KeyMap :: KeyMap where
  "empty_KeyMap = \<lparr>km_map = [], km_reverse_index = []\<rparr>"

definition km_lookup :: "KeyMap \<Rightarrow> bytes \<Rightarrow> KeyLocation option" where
  "km_lookup km key = map_option ke_loc (map_of (km_map km) key)"

text \<open>
  \<open>it->second.erase(key); if (it->second.empty()) reverse_index_.erase(it)\<close>, guarded by
  the extent's presence: the cleanup that \<open>put\<close>, \<open>erase\<close> and \<open>batch_update\<close> share.
\<close>

definition ri_remove :: "u64 \<Rightarrow> bytes \<Rightarrow> (u64 \<times> bytes list) list \<Rightarrow> (u64 \<times> bytes list) list" where
  "ri_remove eid key ri =
     (case map_of ri eid of
        None \<Rightarrow> ri
      | Some ks \<Rightarrow>
          (let ks' = removeAll key ks
           in if ks' = [] then AList.delete eid ri else AList.update eid ks' ri))"

text \<open>\<open>reverse_index_[eid].insert(key)\<close>, which creates the set when it is missing.\<close>

definition ri_insert :: "u64 \<Rightarrow> bytes \<Rightarrow> (u64 \<times> bytes list) list \<Rightarrow> (u64 \<times> bytes list) list" where
  "ri_insert eid key ri =
     AList.update eid
       (case map_of ri eid of
          None \<Rightarrow> [key]
        | Some ks \<Rightarrow> if key \<in> set ks then ks else ks @ [key]) ri"

definition km_put :: "KeyMap \<Rightarrow> bytes \<Rightarrow> KeyLocation \<Rightarrow> u64 \<Rightarrow> KeyMap" where
  "km_put km key loc lba =
     (let existing = map_of (km_map km) key \<noteq> None;
          entry = (case map_of (km_map km) key of Some e \<Rightarrow> e | None \<Rightarrow> default_KeyEntry);
          ri = (if existing \<and> kl_extent_id (ke_loc entry) \<noteq> kl_extent_id loc
                then ri_remove (kl_extent_id (ke_loc entry)) key (km_reverse_index km)
                else km_reverse_index km);
          prev_lba = ke_last_lba entry;
          delta = (if lba > prev_lba then lba - prev_lba else prev_lba - lba);
          cs = (if delta \<le> kSequentialThreshold
                then (if ke_consecutive_sequential entry < kMaxSeqAward
                      then ke_consecutive_sequential entry + 1
                      else ke_consecutive_sequential entry)
                else 0);
          entry' = \<lparr>ke_loc = loc, ke_last_lba = lba, ke_consecutive_sequential = cs\<rparr>
      in \<lparr>km_map = AList.update key entry' (km_map km),
          km_reverse_index = ri_insert (kl_extent_id loc) key ri\<rparr>)"

definition km_erase :: "KeyMap \<Rightarrow> bytes \<Rightarrow> KeyMap" where
  "km_erase km key =
     (case map_of (km_map km) key of
        None \<Rightarrow> km
      | Some e \<Rightarrow>
          \<lparr>km_map = AList.delete key (km_map km),
           km_reverse_index = ri_remove (kl_extent_id (ke_loc e)) key (km_reverse_index km)\<rparr>)"

definition keys_in_extent :: "KeyMap \<Rightarrow> u64 \<Rightarrow> bytes list" where
  "keys_in_extent km eid =
     (case map_of (km_reverse_index km) eid of None \<Rightarrow> [] | Some ks \<Rightarrow> ks)"

text \<open>The body of the loop of \<open>batch_update\<close>, and the loop.\<close>

definition km_update_one :: "KeyMap \<Rightarrow> bytes \<Rightarrow> KeyLocation \<Rightarrow> KeyMap" where
  "km_update_one km key new_loc =
     (case map_of (km_map km) key of
        Some e \<Rightarrow>
          (let old_extent = kl_extent_id (ke_loc e);
               ri = (if old_extent \<noteq> kl_extent_id new_loc
                     then ri_remove old_extent key (km_reverse_index km)
                     else km_reverse_index km)
           in \<lparr>km_map = AList.update key (e\<lparr>ke_loc := new_loc\<rparr>) (km_map km),
               km_reverse_index = ri_insert (kl_extent_id new_loc) key ri\<rparr>)
      | None \<Rightarrow>
          \<lparr>km_map = AList.update key (default_KeyEntry\<lparr>ke_loc := new_loc\<rparr>) (km_map km),
           km_reverse_index = ri_insert (kl_extent_id new_loc) key (km_reverse_index km)\<rparr>)"

definition batch_update :: "KeyMap \<Rightarrow> (bytes \<times> KeyLocation) list \<Rightarrow> KeyMap" where
  "batch_update km updates = foldl (\<lambda>m (k, l). km_update_one m k l) km updates"

definition get_consecutive_sequential :: "KeyMap \<Rightarrow> bytes \<Rightarrow> u32" where
  "get_consecutive_sequential km key =
     (case map_of (km_map km) key of None \<Rightarrow> 0 | Some e \<Rightarrow> ke_consecutive_sequential e)"

definition km_size :: "KeyMap \<Rightarrow> nat" where
  "km_size km = length (km_map km)"

definition keys_in_extent_count :: "KeyMap \<Rightarrow> u64 \<Rightarrow> nat" where
  "keys_in_extent_count km eid =
     (case map_of (km_reverse_index km) eid of None \<Rightarrow> 0 | Some ks \<Rightarrow> length ks)"

section \<open>Invariant\<close>

text \<open>
  The reverse index holds exactly the keys of each extent, no set in it is empty, and no
  container holds an element twice.
\<close>

definition ri_ok :: "(bytes \<rightharpoonup> u64) \<Rightarrow> (u64 \<times> bytes list) list \<Rightarrow> bool" where
  "ri_ok owner ri \<longleftrightarrow> distinct (map fst ri) \<and>
     (\<forall>eid ks. map_of ri eid = Some ks \<longrightarrow> ks \<noteq> [] \<and> distinct ks) \<and>
     (\<forall>eid key. (\<exists>ks. map_of ri eid = Some ks \<and> key \<in> set ks) \<longleftrightarrow> owner key = Some eid)"

definition km_owner :: "KeyMap \<Rightarrow> bytes \<rightharpoonup> u64" where
  "km_owner km key = map_option kl_extent_id (km_lookup km key)"

definition km_inv :: "KeyMap \<Rightarrow> bool" where
  "km_inv km \<longleftrightarrow> distinct (map fst (km_map km)) \<and> ri_ok (km_owner km) (km_reverse_index km)"

section \<open>The reverse index\<close>

lemma ri_ok_emptyI: "ri_ok (\<lambda>_. None) []"
  by (simp add: ri_ok_def)

lemma distinct_ri_remove: "distinct (map fst ri) \<Longrightarrow> distinct (map fst (ri_remove eid key ri))"
  by (auto simp: ri_remove_def Let_def distinct_delete distinct_update split: option.splits)

lemma distinct_ri_insert: "distinct (map fst ri) \<Longrightarrow> distinct (map fst (ri_insert eid key ri))"
  by (simp add: ri_insert_def distinct_update)

lemma ri_remove_members:
  "(\<exists>ks. map_of (ri_remove eid key ri) e = Some ks \<and> k \<in> set ks) \<longleftrightarrow>
     (\<exists>ks. map_of ri e = Some ks \<and> k \<in> set ks) \<and> \<not> (e = eid \<and> k = key)"
  by (auto simp: ri_remove_def Let_def removeAll_filter_not_eq filter_empty_conv
      split: option.splits if_splits)

lemma ri_insert_members:
  "(\<exists>ks. map_of (ri_insert eid key ri) e = Some ks \<and> k \<in> set ks) \<longleftrightarrow>
     (\<exists>ks. map_of ri e = Some ks \<and> k \<in> set ks) \<or> (e = eid \<and> k = key)"
  by (auto simp: ri_insert_def split: option.splits if_splits)

lemma ri_remove_sets:
  assumes "\<forall>eid ks. map_of ri eid = Some ks \<longrightarrow> ks \<noteq> [] \<and> distinct ks"
  shows "\<forall>e ks. map_of (ri_remove eid key ri) e = Some ks \<longrightarrow> ks \<noteq> [] \<and> distinct ks"
  using assms by (auto simp: ri_remove_def Let_def distinct_removeAll split: option.splits if_splits)

lemma ri_insert_sets:
  assumes "\<forall>eid ks. map_of ri eid = Some ks \<longrightarrow> ks \<noteq> [] \<and> distinct ks"
  shows "\<forall>e ks. map_of (ri_insert eid key ri) e = Some ks \<longrightarrow> ks \<noteq> [] \<and> distinct ks"
  using assms by (auto simp: ri_insert_def split: option.splits if_splits)

lemma ri_ok_members:
  "ri_ok owner ri \<Longrightarrow> (\<exists>ks. map_of ri e = Some ks \<and> k \<in> set ks) \<longleftrightarrow> owner k = Some e"
  unfolding ri_ok_def by blast

lemma ri_remove_ok:
  assumes "ri_ok owner ri" "owner key = Some eid"
  shows "ri_ok (owner(key := None)) (ri_remove eid key ri)"
  unfolding ri_ok_def
proof (intro conjI)
  show "distinct (map fst (ri_remove eid key ri))"
    using assms(1) by (simp add: ri_ok_def distinct_ri_remove)
  show "\<forall>e ks. map_of (ri_remove eid key ri) e = Some ks \<longrightarrow> ks \<noteq> [] \<and> distinct ks"
    using assms(1) by (intro ri_remove_sets) (simp add: ri_ok_def)
  show "\<forall>e k. (\<exists>ks. map_of (ri_remove eid key ri) e = Some ks \<and> k \<in> set ks) \<longleftrightarrow>
      (owner(key := None)) k = Some e"
    unfolding ri_remove_members ri_ok_members [OF assms(1)] using assms(2) by auto
qed

lemma ri_insert_ok:
  assumes "ri_ok owner ri" "owner key = None \<or> owner key = Some eid"
  shows "ri_ok (owner(key \<mapsto> eid)) (ri_insert eid key ri)"
  unfolding ri_ok_def
proof (intro conjI)
  show "distinct (map fst (ri_insert eid key ri))"
    using assms(1) by (simp add: ri_ok_def distinct_ri_insert)
  show "\<forall>e ks. map_of (ri_insert eid key ri) e = Some ks \<longrightarrow> ks \<noteq> [] \<and> distinct ks"
    using assms(1) by (intro ri_insert_sets) (simp add: ri_ok_def)
  show "\<forall>e k. (\<exists>ks. map_of (ri_insert eid key ri) e = Some ks \<and> k \<in> set ks) \<longleftrightarrow>
      (owner(key \<mapsto> eid)) k = Some e"
    unfolding ri_insert_members ri_ok_members [OF assms(1)] using assms(2) by auto
qed

lemma ri_remove_insert_ok:
  assumes "ri_ok owner ri"
  shows "ri_ok (owner(key \<mapsto> eid))
    (ri_insert eid key (if owner key \<noteq> None \<and> the (owner key) \<noteq> eid
                        then ri_remove (the (owner key)) key ri else ri))"
proof (cases "owner key \<noteq> None \<and> the (owner key) \<noteq> eid")
  case True
  then have "ri_ok (owner(key := None)) (ri_remove (the (owner key)) key ri)"
    using assms by (intro ri_remove_ok) auto
  then have "ri_ok ((owner(key := None))(key \<mapsto> eid)) (ri_insert eid key (ri_remove (the (owner key)) key ri))"
    by (rule ri_insert_ok) simp
  with True show ?thesis by simp
next
  case False
  then have "owner key = None \<or> owner key = Some eid" by (cases "owner key") auto
  from ri_insert_ok [OF assms this] show ?thesis by (simp only: if_not_P [OF False])
qed

section \<open>Operations on the abstract map\<close>

lemma km_lookup_put: "km_lookup (km_put km k l lba) = (km_lookup km)(k \<mapsto> l)"
  by (auto simp: km_lookup_def km_put_def Let_def fun_eq_iff)

lemma km_lookup_erase: "km_lookup (km_erase km k) = (km_lookup km)(k := None)"
  by (auto simp: km_lookup_def km_erase_def fun_eq_iff split: option.splits)

lemma km_lookup_update_one: "km_lookup (km_update_one km k l) = (km_lookup km)(k \<mapsto> l)"
  by (auto simp: km_lookup_def km_update_one_def Let_def fun_eq_iff split: option.splits)

lemma km_owner_put: "km_owner (km_put km k l lba) = (km_owner km)(k \<mapsto> kl_extent_id l)"
  by (auto simp: km_owner_def km_lookup_put fun_eq_iff)

lemma km_owner_erase: "km_owner (km_erase km k) = (km_owner km)(k := None)"
  by (auto simp: km_owner_def km_lookup_erase fun_eq_iff)

lemma km_owner_update_one: "km_owner (km_update_one km k l) = (km_owner km)(k \<mapsto> kl_extent_id l)"
  by (auto simp: km_owner_def km_lookup_update_one fun_eq_iff)

lemma km_inv_empty: "km_inv empty_KeyMap"
  by (simp add: km_inv_def empty_KeyMap_def ri_ok_def km_owner_def km_lookup_def)

lemma km_inv_put:
  assumes "km_inv km"
  shows "km_inv (km_put km k l lba)"
proof -
  have "ri_ok ((km_owner km)(k \<mapsto> kl_extent_id l)) (km_reverse_index (km_put km k l lba))"
  proof -
    have "ri_ok (km_owner km) (km_reverse_index km)" using assms by (simp add: km_inv_def)
    note R = ri_remove_insert_ok [OF this, of k "kl_extent_id l"]
    show ?thesis
      using R by (cases "map_of (km_map km) k")
        (simp_all add: km_put_def Let_def km_owner_def km_lookup_def split: if_splits)
  qed
  with assms show ?thesis
    by (simp add: km_inv_def km_owner_put) (simp add: km_put_def Let_def distinct_update)
qed

lemma km_inv_update_one:
  assumes "km_inv km"
  shows "km_inv (km_update_one km k l)"
proof -
  have "ri_ok ((km_owner km)(k \<mapsto> kl_extent_id l)) (km_reverse_index (km_update_one km k l))"
  proof -
    have "ri_ok (km_owner km) (km_reverse_index km)" using assms by (simp add: km_inv_def)
    note R = ri_remove_insert_ok [OF this, of k "kl_extent_id l"]
    show ?thesis
      using R by (cases "map_of (km_map km) k")
        (simp_all add: km_update_one_def Let_def km_owner_def km_lookup_def split: if_splits)
  qed
  with assms show ?thesis
    by (auto simp: km_inv_def km_owner_update_one)
      (auto simp: km_update_one_def Let_def distinct_update split: option.splits)
qed

lemma km_inv_erase:
  assumes "km_inv km"
  shows "km_inv (km_erase km k)"
proof (cases "map_of (km_map km) k")
  case None
  then show ?thesis using assms by (simp add: km_erase_def)
next
  case (Some e)
  then have "km_owner km k = Some (kl_extent_id (ke_loc e))"
    by (simp add: km_owner_def km_lookup_def)
  then have "ri_ok ((km_owner km)(k := None)) (km_reverse_index (km_erase km k))"
    using assms Some by (simp add: km_erase_def km_inv_def ri_remove_ok)
  moreover have "distinct (map fst (km_map (km_erase km k)))"
    using assms Some by (simp add: km_erase_def km_inv_def distinct_delete)
  ultimately show ?thesis by (simp add: km_inv_def km_owner_erase)
qed

lemma keys_in_extent_iff:
  "km_inv km \<Longrightarrow> k \<in> set (keys_in_extent km eid) \<longleftrightarrow> km_owner km k = Some eid"
  unfolding km_inv_def ri_ok_def keys_in_extent_def
  by (fastforce split: option.splits)

lemma distinct_keys_in_extent: "km_inv km \<Longrightarrow> distinct (keys_in_extent km eid)"
  by (auto simp: km_inv_def ri_ok_def keys_in_extent_def split: option.splits)

section \<open>The interface of the index\<close>

text \<open>
  What the engine, the migration engine and recovery rely on: a map from keys to locations
  that \<open>put\<close> and \<open>erase\<close> update point-wise, and a reverse query that agrees with it.
\<close>

locale key_index =
  fixes lookup :: "'m \<Rightarrow> bytes \<Rightarrow> KeyLocation option"
    and put :: "'m \<Rightarrow> bytes \<Rightarrow> KeyLocation \<Rightarrow> 'm"
    and erase :: "'m \<Rightarrow> bytes \<Rightarrow> 'm"
    and keys_of :: "'m \<Rightarrow> u64 \<Rightarrow> bytes list"
    and invar :: "'m \<Rightarrow> bool"
  assumes lookup_put: "lookup (put m k l) = (lookup m)(k \<mapsto> l)"
    and lookup_erase: "lookup (erase m k) = (lookup m)(k := None)"
    and invar_put: "invar m \<Longrightarrow> invar (put m k l)"
    and invar_erase: "invar m \<Longrightarrow> invar (erase m k)"
    and keys_of_iff:
      "invar m \<Longrightarrow> k \<in> set (keys_of m e) \<longleftrightarrow> map_option kl_extent_id (lookup m k) = Some e"
    and distinct_keys_of: "invar m \<Longrightarrow> distinct (keys_of m e)"
begin

lemma lookup_puts: "lookup (foldl (\<lambda>m (k, l). put m k l) m us) = lookup m ++ map_of (rev us)"
proof (induction us arbitrary: m)
  case (Cons u us)
  obtain k l where u: "u = (k, l)" by (cases u)
  show ?case
    by (simp add: u Cons.IH lookup_put fun_eq_iff map_add_def split: option.splits)
qed simp

lemma invar_puts: "invar m \<Longrightarrow> invar (foldl (\<lambda>m (k, l). put m k l) m us)"
  by (induction us arbitrary: m) (auto simp: invar_put)

lemma lookup_erases: "lookup (foldl erase m ks) = (lookup m) |` (- set ks)"
proof (induction ks arbitrary: m)
  case (Cons k ks)
  show ?case
    by (auto simp: Cons.IH lookup_erase restrict_map_def fun_eq_iff)
qed (simp add: restrict_map_def fun_eq_iff)

lemma invar_erases: "invar m \<Longrightarrow> invar (foldl erase m ks)"
  by (induction ks arbitrary: m) (auto simp: invar_erase)

text \<open>Moving every key of extent \<open>e\<close> elsewhere empties \<open>e\<close>.\<close>

lemma keys_of_moved:
  assumes "invar m" "set (keys_of m e) \<subseteq> fst ` set us" "\<And>k l. (k, l) \<in> set us \<Longrightarrow> kl_extent_id l \<noteq> e"
  shows "keys_of (foldl (\<lambda>m (k, l). put m k l) m us) e = []"
proof -
  let ?m = "foldl (\<lambda>m (k, l). put m k l) m us"
  have "k \<notin> set (keys_of ?m e)" for k
  proof
    assume "k \<in> set (keys_of ?m e)"
    then obtain l where l: "lookup ?m k = Some l" "kl_extent_id l = e"
      using keys_of_iff [OF invar_puts [OF assms(1)]] by auto
    show False
    proof (cases "map_of (rev us) k")
      case None
      then have "lookup m k = Some l" using l by (simp add: lookup_puts map_add_def)
      then have "k \<in> set (keys_of m e)" using l keys_of_iff [OF assms(1)] by simp
      then have "k \<in> fst ` set us" using assms(2) by auto
      then show False using None by (auto simp: map_of_eq_None_iff)
    next
      case (Some l')
      then have "(k, l) \<in> set us"
        using l map_of_SomeD [OF Some] by (simp add: lookup_puts map_add_def)
      then show False using assms(3) l by blast
    qed
  qed
  then show ?thesis by (cases "keys_of ?m e") auto
qed

end

interpretation kmu: key_index km_lookup km_update_one km_erase keys_in_extent km_inv
  by unfold_locales
    (auto simp: km_lookup_update_one km_lookup_erase km_inv_update_one km_inv_erase
      keys_in_extent_iff km_owner_def distinct_keys_in_extent)

text \<open>Recovery replays \<open>OP_KEY_PUT\<close> records with \<open>lba = 0\<close>.\<close>

interpretation kmp: key_index km_lookup "\<lambda>m k l. km_put m k l lba" km_erase keys_in_extent km_inv
  for lba
  by unfold_locales
    (auto simp: km_lookup_put km_lookup_erase km_inv_put km_inv_erase
      keys_in_extent_iff km_owner_def distinct_keys_in_extent)

lemma batch_update_lookup: "km_lookup (batch_update km us) = km_lookup km ++ map_of (rev us)"
  unfolding batch_update_def by (rule kmu.lookup_puts)

lemma batch_update_inv: "km_inv km \<Longrightarrow> km_inv (batch_update km us)"
  unfolding batch_update_def by (rule kmu.invar_puts)

section \<open>Properties\<close>

text \<open>The calls that change a key map, and what each means for the abstract map.\<close>

datatype km_op =
    Put bytes KeyLocation u64
  | Erase bytes
  | Batch "(bytes \<times> KeyLocation) list"

fun km_step :: "KeyMap \<Rightarrow> km_op \<Rightarrow> KeyMap" where
  "km_step km (Put k l lba) = km_put km k l lba"
| "km_step km (Erase k) = km_erase km k"
| "km_step km (Batch us) = batch_update km us"

fun abs_step :: "(bytes \<rightharpoonup> KeyLocation) \<Rightarrow> km_op \<Rightarrow> (bytes \<rightharpoonup> KeyLocation)" where
  "abs_step m (Put k l lba) = m(k \<mapsto> l)"
| "abs_step m (Erase k) = m(k := None)"
| "abs_step m (Batch us) = m ++ map_of (rev us)"

lemma km_step_inv: "km_inv km \<Longrightarrow> km_inv (km_step km x)"
  by (cases x) (simp_all add: km_inv_put km_inv_erase batch_update_inv)

lemma km_steps_inv: "km_inv km \<Longrightarrow> km_inv (foldl km_step km xs)"
  by (induction xs arbitrary: km) (simp_all add: km_step_inv)

lemma km_lookup_steps: "km_lookup (foldl km_step km xs) = foldl abs_step (km_lookup km) xs"
proof (induction xs arbitrary: km)
  case (Cons x xs)
  have "km_lookup (km_step km x) = abs_step (km_lookup km) x"
    by (cases x) (simp_all add: km_lookup_put km_lookup_erase batch_update_lookup)
  then show ?case by (simp add: Cons.IH)
qed simp

lemma km_size_card: "km_inv km \<Longrightarrow> km_size km = card (dom (km_lookup km))"
proof -
  assume "km_inv km"
  then have "distinct (map fst (km_map km))" by (simp add: km_inv_def)
  moreover have "dom (km_lookup km) = set (map fst (km_map km))"
    unfolding km_lookup_def dom_map_option_comp [unfolded comp_def] by (simp add: dom_map_of_conv_image_fst)
  ultimately show ?thesis by (metis km_size_def distinct_card length_map)
qed

text \<open>C11: after any sequence of puts, erases and batch updates, the key map agrees with the abstract map,
  its size is the number of its keys, and the reverse index lists exactly the keys of each extent, each once.\<close>

theorem key_map_refines_map:
  "let km = foldl km_step empty_KeyMap xs
   in km_lookup km = foldl abs_step Map.empty xs \<and> km_size km = card (dom (km_lookup km)) \<and>
      (\<forall>eid. distinct (keys_in_extent km eid) \<and>
             keys_in_extent_count km eid = length (keys_in_extent km eid) \<and>
             set (keys_in_extent km eid) =
               {k. map_option kl_extent_id (km_lookup km k) = Some eid})"
proof -
  let ?km = "foldl km_step empty_KeyMap xs"
  have inv: "km_inv ?km" by (intro km_steps_inv km_inv_empty)
  have "km_lookup empty_KeyMap = Map.empty"
    by (simp add: km_lookup_def empty_KeyMap_def fun_eq_iff)
  then have "km_lookup ?km = foldl abs_step Map.empty xs" by (simp add: km_lookup_steps)
  moreover have "set (keys_in_extent ?km eid) = {k. map_option kl_extent_id (km_lookup ?km k) = Some eid}" for eid
    using keys_in_extent_iff [OF inv] by (auto simp: km_owner_def)
  moreover have "keys_in_extent_count ?km eid = length (keys_in_extent ?km eid)" for eid
    by (simp add: keys_in_extent_count_def keys_in_extent_def split: option.splits)
  ultimately show ?thesis
    using km_size_card [OF inv] distinct_keys_in_extent [OF inv] by (simp add: Let_def)
qed

text \<open>Compaction's batch update, which gives every key of an extent a location elsewhere, leaves the extent
  without keys, so that it can be removed.\<close>

theorem batch_update_empties_extent:
  assumes "km_inv km" "set (keys_in_extent km e) \<subseteq> fst ` set us"
    "\<forall>(k, l) \<in> set us. kl_extent_id l \<noteq> e"
  shows "keys_in_extent (batch_update km us) e = []"
  unfolding batch_update_def using assms by (intro kmu.keys_of_moved) auto

theorem batch_update_empties_extent_witness:
  "keys_in_extent (batch_update (km_put empty_KeyMap [7] (default_KeyLocation\<lparr>kl_extent_id := 1\<rparr>) 0)
     [([7], default_KeyLocation\<lparr>kl_extent_id := 2\<rparr>)]) 1 = []"
proof (rule batch_update_empties_extent)
  show "km_inv (km_put empty_KeyMap [7] (default_KeyLocation\<lparr>kl_extent_id := 1\<rparr>) 0)"
    by (intro km_inv_put km_inv_empty)
qed (simp_all add: keys_in_extent_def km_put_def empty_KeyMap_def Let_def ri_insert_def)

end
