(* ===== verification/Allocator_Spec.thy ===== *)
theory Allocator_Spec
  imports Intarith
begin

text \<open>
  The interface of \<open>blk/allocator.h\<close>: the extents an allocator hands out, the byte addresses
  they stand for, and the contract of \<open>allocate\<close> and \<open>release\<close> as a locale. Its client
  lemmas say how the set of regions owned by the callers of an allocator evolves.
\<close>

section \<open>Extents and address sets\<close>

record pextent =
  pe_offset :: u64
  pe_length :: u32

definition extent_space :: "pextent \<Rightarrow> nat set" where
  "extent_space e = {unat (pe_offset e) ..< unat (pe_offset e) + unat (pe_length e)}"

definition range_space :: "u64 \<times> u64 \<Rightarrow> nat set" where
  "range_space p = {unat (fst p) ..< unat (fst p) + unat (snd p)}"

definition as_range :: "pextent \<Rightarrow> u64 \<times> u64" where
  "as_range e = (pe_offset e, ucast (pe_length e))"

lemma range_space_as_range [simp]: "range_space (as_range e) = extent_space e"
  by (simp add: range_space_def as_range_def extent_space_def)

lemma snd_as_range: "snd (as_range e) = 0 \<longleftrightarrow> pe_length e = 0"
  by (metis as_range_def snd_conv unat_0_iff unat_ucast_32_64)

text \<open>\<open>carve F es F'\<close>: the extents are taken out of \<open>F\<close> one after the other, and leave \<open>F'\<close>.\<close>

fun carve :: "nat set \<Rightarrow> pextent list \<Rightarrow> nat set \<Rightarrow> bool" where
  "carve F [] F' \<longleftrightarrow> F' = F"
| "carve F (e # es) F' \<longleftrightarrow> extent_space e \<subseteq> F \<and> carve (F - extent_space e) es F'"

lemma carve_space:
  "carve F es F' \<Longrightarrow> (\<Union>e \<in> set es. extent_space e) \<subseteq> F \<and> F' = F - (\<Union>e \<in> set es. extent_space e)"
  by (induction es arbitrary: F) auto

lemma carve_disjoint: "carve F es F' \<Longrightarrow> sorted_wrt (\<lambda>a b. extent_space a \<inter> extent_space b = {}) es"
proof (induction es arbitrary: F)
  case (Cons e es)
  then show ?case using carve_space [of "F - extent_space e" es F'] by fastforce
qed simp

lemma carve_card:
  "carve F es F' \<Longrightarrow> finite F \<Longrightarrow> card F = card F' + (\<Sum>e \<leftarrow> es. unat (pe_length e))"
proof (induction es arbitrary: F)
  case (Cons e es)
  then have "card (F - extent_space e) = card F' + (\<Sum>e \<leftarrow> es. unat (pe_length e))"
    "extent_space e \<subseteq> F" by auto
  moreover have "card (F - extent_space e) = card F - unat (pe_length e)"
    using calculation(2) Cons.prems(2) by (simp add: card_Diff_subset extent_space_def)
  moreover have "unat (pe_length e) \<le> card F"
    using card_mono [OF Cons.prems(2) calculation(2)] by (simp add: extent_space_def)
  ultimately show ?case by simp
qed simp

section \<open>Regions outside the free space\<close>

text \<open>
  \<open>regions F D R\<close>: non-empty regions inside the device, disjoint from each other and from the
  free space \<open>F\<close>. Regions that are not empty and disjoint are distinct, so the order of the list
  does not matter.
\<close>

definition regions :: "nat set \<Rightarrow> nat \<Rightarrow> (u64 \<times> u64) list \<Rightarrow> bool" where
  "regions F D R \<longleftrightarrow> distinct R \<and>
     (\<forall>p \<in> set R. snd p \<noteq> 0 \<and> unat (fst p) + unat (snd p) \<le> D \<and> range_space p \<inter> F = {}) \<and>
     (\<forall>p \<in> set R. \<forall>q \<in> set R. p \<noteq> q \<longrightarrow> range_space p \<inter> range_space q = {})"

lemma range_space_nonempty: "snd p \<noteq> 0 \<Longrightarrow> range_space p \<noteq> {}"
  by (simp add: range_space_def unat_gt_0)

lemma regions_Nil [simp]: "regions F D []"
  by (simp add: regions_def)

lemma regions_Cons:
  "regions F D (p # R) \<longleftrightarrow> snd p \<noteq> 0 \<and> unat (fst p) + unat (snd p) \<le> D \<and> range_space p \<inter> F = {} \<and>
     (\<forall>q \<in> set R. range_space p \<inter> range_space q = {}) \<and> regions F D R"
proof
  assume r: "regions F D (p # R)"
  then have "p \<notin> set R" by (simp add: regions_def)
  then have "\<forall>q \<in> set R. p \<noteq> q" by metis
  with r show "snd p \<noteq> 0 \<and> unat (fst p) + unat (snd p) \<le> D \<and> range_space p \<inter> F = {} \<and>
     (\<forall>q \<in> set R. range_space p \<inter> range_space q = {}) \<and> regions F D R"
    unfolding regions_def by simp
next
  assume r: "snd p \<noteq> 0 \<and> unat (fst p) + unat (snd p) \<le> D \<and> range_space p \<inter> F = {} \<and>
     (\<forall>q \<in> set R. range_space p \<inter> range_space q = {}) \<and> regions F D R"
  then have "p \<notin> set R" using range_space_nonempty [of p] by (metis Int_absorb)
  moreover have "\<forall>q \<in> set R. range_space q \<inter> range_space p = {}" using r by (simp add: Int_commute)
  ultimately show "regions F D (p # R)" using r unfolding regions_def by simp
qed

lemma regions_perm: "set R = set R' \<Longrightarrow> distinct R' \<Longrightarrow> regions F D R \<Longrightarrow> regions F D R'"
  by (auto simp: regions_def)

lemma regions_Un:
  "regions F D R \<Longrightarrow> (\<forall>p \<in> set R. range_space p \<inter> G = {}) \<Longrightarrow> regions (F \<union> G) D R"
  by (auto simp: regions_def)

lemma regions_mono: "regions F D R \<Longrightarrow> F' \<subseteq> F \<Longrightarrow> regions F' D R"
  by (auto simp: regions_def)

lemma regions_carve:
  assumes "carve F es F'" "F \<subseteq> {..< D}" "\<forall>e \<in> set es. pe_length e \<noteq> 0" "regions F D R"
  shows "regions F' D (map as_range es @ R)"
  using assms
proof (induction es arbitrary: F)
  case (Cons e es)
  let ?s = "extent_space e"
  have sub: "?s \<subseteq> F" "carve (F - ?s) es F'" using Cons.prems(1) by simp_all
  have pos: "0 < unat (pe_length e)" using Cons.prems(3) by (simp add: unat_gt_0)
  then have "unat (pe_offset e) + unat (pe_length e) - 1 \<in> ?s" by (auto simp: extent_space_def)
  then have "unat (pe_offset e) + unat (pe_length e) - 1 < D" using sub(1) Cons.prems(2) by blast
  then have bound: "unat (fst (as_range e)) + unat (snd (as_range e)) \<le> D" by (simp add: as_range_def)
  have "regions (F - ?s) D R" using Cons.prems(4) by (rule regions_mono) blast
  with sub(2) Cons.prems have IH: "regions F' D (map as_range es @ R)"
    by (intro Cons.IH [of "F - ?s"]) auto
  note S = carve_space [OF sub(2)]
  have "?s \<inter> extent_space x = {}" if "x \<in> set es" for x using S that by blast
  moreover have "?s \<inter> range_space q = {}" if "q \<in> set R" for q
    using Cons.prems(4) that sub(1) by (auto simp: regions_def)
  moreover have "?s \<inter> F' = {}" using S by blast
  ultimately have "\<forall>q \<in> set (map as_range es @ R). range_space (as_range e) \<inter> range_space q = {}"
    "range_space (as_range e) \<inter> F' = {}" by (simp_all add: ball_Un)
  then show ?case using IH bound Cons.prems(3) by (simp add: regions_Cons snd_as_range)
qed simp

section \<open>The contract\<close>

locale space_allocator =
  fixes invar :: "'a \<Rightarrow> bool"
    and free :: "'a \<Rightarrow> nat set"
    and capacity :: "'a \<Rightarrow> nat"
    and allocate :: "u64 \<Rightarrow> u64 \<Rightarrow> u64 \<Rightarrow> 'a \<Rightarrow> (int \<times> pextent list \<times> 'a) option"
    and release :: "(u64 \<times> u64) list \<Rightarrow> 'a \<Rightarrow> 'a option"
  assumes free_bound: "invar a \<Longrightarrow> free a \<subseteq> {..< capacity a}"
    and allocate_ok:
      "\<lbrakk> invar a; isp2 unit; want mod unit = 0 \<rbrakk> \<Longrightarrow>
       \<exists>r es a'. allocate want unit mx a = Some (r, es, a') \<and> invar a' \<and> capacity a' = capacity a \<and>
         carve (free a) es (free a') \<and> (\<forall>e \<in> set es. pe_length e \<noteq> 0) \<and>
         (\<Sum>e \<leftarrow> es. unat (pe_length e)) \<le> unat want \<and>
         r = (if es = [] then - ENOSPC else int (\<Sum>e \<leftarrow> es. unat (pe_length e)))"
    and release_ok:
      "\<lbrakk> invar a; regions (free a) (capacity a) rs \<rbrakk> \<Longrightarrow>
       \<exists>a'. release rs a = Some a' \<and> invar a' \<and> capacity a' = capacity a \<and>
         free a' = free a \<union> (\<Union>p \<in> set rs. range_space p)"
begin

text \<open>The callers own the regions \<open>R\<close>.\<close>

definition owns :: "'a \<Rightarrow> (u64 \<times> u64) list \<Rightarrow> bool" where
  "owns a R \<longleftrightarrow> invar a \<and> regions (free a) (capacity a) R"

lemma owns_perm: "owns a R \<Longrightarrow> set R = set R' \<Longrightarrow> distinct R' \<Longrightarrow> owns a R'"
  by (auto simp: owns_def intro: regions_perm)

lemma owns_drop: "owns a (p # R) \<Longrightarrow> owns a R"
  by (simp add: owns_def regions_Cons)

lemma owns_disjoint:
  "owns a R \<Longrightarrow> p \<in> set R \<Longrightarrow> q \<in> set R \<Longrightarrow> p \<noteq> q \<Longrightarrow> range_space p \<inter> range_space q = {}"
  by (auto simp: owns_def regions_def)

lemma allocate_owns:
  assumes "owns a R" "isp2 unit" "want mod unit = 0" "allocate want unit mx a = Some (r, es, a')"
  shows "owns a' (map as_range es @ R)" "capacity a' = capacity a" "free a' \<subseteq> free a"
    "(\<Sum>e \<leftarrow> es. unat (pe_length e)) \<le> unat want"
    "r = (if es = [] then - ENOSPC else int (\<Sum>e \<leftarrow> es. unat (pe_length e)))"
proof -
  have inv: "invar a" using assms(1) by (simp add: owns_def)
  from allocate_ok [OF inv assms(2,3), of mx] assms(4)
  have A: "invar a'" "capacity a' = capacity a" "carve (free a) es (free a')"
    "\<forall>e \<in> set es. pe_length e \<noteq> 0" "(\<Sum>e \<leftarrow> es. unat (pe_length e)) \<le> unat want"
    "r = (if es = [] then - ENOSPC else int (\<Sum>e \<leftarrow> es. unat (pe_length e)))" by auto
  show "owns a' (map as_range es @ R)"
    using regions_carve [OF A(3) free_bound [OF inv] A(4)] assms(1) A(1,2) by (simp add: owns_def)
  show "free a' \<subseteq> free a" using carve_space [OF A(3)] by blast
  show "capacity a' = capacity a" "(\<Sum>e \<leftarrow> es. unat (pe_length e)) \<le> unat want"
    "r = (if es = [] then - ENOSPC else int (\<Sum>e \<leftarrow> es. unat (pe_length e)))" by (rule A)+
qed

lemma release_owns:
  assumes "owns a (p # R)"
  shows "\<exists>a'. release [p] a = Some a' \<and> owns a' R \<and> capacity a' = capacity a \<and> free a' = free a \<union> range_space p"
proof -
  have R: "invar a" "regions (free a) (capacity a) [p]" "regions (free a) (capacity a) R"
    "\<forall>q \<in> set R. range_space q \<inter> range_space p = {}"
    using assms by (auto simp: owns_def regions_Cons)
  from release_ok [OF R(1,2)] regions_Un [OF R(3,4)] show ?thesis by (auto simp: owns_def)
qed

end

end
