(* ===== verification/Interval_Set.thy ===== *)
theory Interval_Set
  imports Allocator_Spec
begin

text \<open>
  \<open>interval_set<uint64_t>\<close> of \<open>blk/extent_types.h\<close>, the argument of every \<open>release\<close>: an ordered map from
  the start of an interval to its length.
\<close>

section \<open>Operations\<close>

type_synonym interval_set = "(u64 \<times> u64) list"

text \<open>The loop that swallows the intervals starting within \<open>[off, off + len]\<close>.\<close>

fun is_absorb :: "u64 \<Rightarrow> u64 \<Rightarrow> interval_set \<Rightarrow> u64 \<times> interval_set" where
  "is_absorb off len [] = (len, [])"
| "is_absorb off len ((s, l) # r) =
     (if s \<le> off + len then is_absorb off (max len (s + l - off)) r else (len, (s, l) # r))"

definition is_insert :: "u64 \<Rightarrow> u64 \<Rightarrow> interval_set \<Rightarrow> interval_set" where
  "is_insert off len m =
     (if len = 0 then m
      else let pre = takeWhile (\<lambda>p. fst p < off) m;
               (len1, post) = is_absorb off len (dropWhile (\<lambda>p. fst p < off) m)
           in if pre \<noteq> [] \<and> fst (last pre) + snd (last pre) \<ge> off
              then let s = fst (last pre); len2 = max len1 (off + len1 - s)
                   in om_set s len2 (butlast pre @ post)
              else om_set off len1 (pre @ post))"

lemma om_set_measure:
  "length (filter (\<lambda>p. fst p < k) (om_set k v m)) = length (filter (\<lambda>p. fst p < k) m)"
  by (induction m) auto

text \<open>The loop of \<open>erase\<close>; a remainder is stored at \<open>end\<close>, where the loop stops.\<close>

function is_erase_loop :: "u64 \<Rightarrow> interval_set \<Rightarrow> interval_set" where
  "is_erase_loop end [] = []"
| "is_erase_loop end ((s, l) # r) =
     (if s < end
      then is_erase_loop end (if s + l > end then om_set end (s + l - end) r else r)
      else (s, l) # r)"
  by pat_completeness auto

termination
  by (relation "measure (\<lambda>(e, m). length (filter (\<lambda>p. fst p < e) m))") (auto simp: om_set_measure)

text \<open>
  \<open>erase\<close>: \<open>pre\<close> holds the entries before the iterator \<open>it\<close>. The entry stored at \<open>off + len\<close>
  lands before or after the iterator, depending on its key.
\<close>

definition is_erase :: "u64 \<Rightarrow> u64 \<Rightarrow> interval_set \<Rightarrow> interval_set" where
  "is_erase off len m =
     (if len = 0 then m
      else let pre = takeWhile (\<lambda>p. fst p < off) m;
               post = dropWhile (\<lambda>p. fst p < off) m;
               s = fst (last pre); l = snd (last pre);
               overlap = pre \<noteq> [] \<and> s + l > off \<and> s < off;
               pre1 = (if overlap then butlast pre @ [(s, off - s)] else pre);
               split = overlap \<and> off + len < s + l;
               k = off + len; v = (s + l) - (off + len);
               before = post = [] \<or> k < fst (hd post);
               pre2 = (if split \<and> before then om_set k v pre1 else pre1);
               post2 = (if split \<and> \<not> before then om_set k v post else post)
           in pre2 @ is_erase_loop (off + len) post2)"

definition is_insert_all :: "interval_set \<Rightarrow> interval_set \<Rightarrow> interval_set" where
  "is_insert_all other m = foldl (\<lambda>m (off, len). is_insert off len m) m other"

definition is_range_start :: "interval_set \<Rightarrow> u64" where
  "is_range_start m = (case m of [] \<Rightarrow> 0 | p # _ \<Rightarrow> fst p)"

definition is_range_end :: "interval_set \<Rightarrow> u64" where
  "is_range_end m = (if m = [] then 0 else fst (last m) + snd (last m))"

section \<open>Well-formed sets\<close>

text \<open>Non-empty intervals that do not wrap, with gaps between them.\<close>

definition is_ok :: "interval_set \<Rightarrow> bool" where
  "is_ok m \<longleftrightarrow> (\<forall>p \<in> set m. snd p \<noteq> 0 \<and> unat (fst p) + unat (snd p) < 2 ^ 64) \<and>
     sorted_wrt (\<lambda>p q. unat (fst p) + unat (snd p) < unat (fst q)) m"

definition is_space :: "interval_set \<Rightarrow> nat set" where
  "is_space m = (\<Union>p \<in> set m. range_space p)"

lemma is_space_simps [simp]:
  "is_space [] = {}" "is_space (p # m) = range_space p \<union> is_space m"
  "is_space (m @ n) = is_space m \<union> is_space n"
  by (auto simp: is_space_def)

lemma is_ok_Nil [simp]: "is_ok []"
  by (simp add: is_ok_def)

lemma is_ok_Cons:
  "is_ok (p # m) \<longleftrightarrow> snd p \<noteq> 0 \<and> unat (fst p) + unat (snd p) < 2 ^ 64 \<and> is_ok m \<and>
     (\<forall>q \<in> set m. unat (fst p) + unat (snd p) < unat (fst q))"
  unfolding is_ok_def list.set ball_simps sorted_wrt.simps by blast

lemma is_ok_append:
  "is_ok (m @ n) \<longleftrightarrow> is_ok m \<and> is_ok n \<and> (\<forall>p \<in> set m. \<forall>q \<in> set n. unat (fst p) + unat (snd p) < unat (fst q))"
  unfolding is_ok_def set_append ball_Un sorted_wrt_append by blast


section \<open>Removing an interval\<close>

lemma is_ok_end: "is_ok m \<Longrightarrow> p \<in> set m \<Longrightarrow> unat (fst p + snd p) = unat (fst p) + unat (snd p)"
  by (rule unat_add_nowrap) (simp add: is_ok_def)

lemma is_erase_loop_ok:
  assumes "is_ok m"
  shows "is_ok (is_erase_loop e m) \<and> is_space (is_erase_loop e m) = is_space m - {..< unat e} \<and>
    (\<forall>q \<in> set (is_erase_loop e m). unat e \<le> unat (fst q))"
  using assms
proof (induction e m rule: is_erase_loop.induct)
  case (1 e)
  then show ?case by simp
next
  case (2 e s l r)
  have o: "l \<noteq> 0" "unat s + unat l < 2 ^ 64" "is_ok r" "\<forall>q \<in> set r. unat s + unat l < unat (fst q)"
    using "2.prems" by (auto simp: is_ok_Cons)
  have sl: "unat (s + l) = unat s + unat l" using o(2) by (intro unat_add_nowrap) simp
  have high: "\<forall>x \<in> is_space r. unat s + unat l < x"
    using o(4) by (force simp: is_space_def range_space_def)
  show ?case
  proof (cases "s < e")
    case False
    then have "\<forall>x \<in> is_space ((s, l) # r). unat e \<le> x"
      using high by (auto simp: range_space_def word_le_nat_alt not_less)
    moreover have "\<forall>q \<in> set ((s, l) # r). unat e \<le> unat (fst q)"
      using o(4) False by (fastforce simp: word_le_nat_alt not_less)
    moreover from calculation(1) have "is_space ((s, l) # r) - {..< unat e} = is_space ((s, l) # r)"
      by (intro Diff_triv) fastforce
    ultimately show ?thesis using False "2.prems" by simp
  next
    case True
    show ?thesis
    proof (cases "s + l > e")
      case False
      then have "range_space (s, l) \<subseteq> {..< unat e}" using sl by (auto simp: range_space_def word_less_nat_alt)
      then show ?thesis using "2.IH" True False o(3) by (auto simp: Diff_Un)
    next
      case gt: True
      have v: "unat (s + l - e) = unat s + unat l - unat e" using gt sl by (subst unat_sub_le) (auto simp: less_imp_le)
      have e: "unat s < unat e" "unat e < unat s + unat l" using True gt sl by (simp_all add: word_less_nat_alt)
      have "om_set e (s + l - e) r = (e, s + l - e) # r"
        using o(4) e by (intro om_set_front) (auto simp: word_less_nat_alt)
      moreover have "is_ok ((e, s + l - e) # r)"
        using o v e by (auto simp: is_ok_Cons word_unat_eq_iff)
      moreover have "is_space ((e, s + l - e) # r) - {..< unat e} = is_space ((s, l) # r) - {..< unat e}"
        using v e by (auto simp: range_space_def)
      ultimately show ?thesis using "2.IH" True gt by simp
    qed
  qed
qed

lemma takeWhile_dropWhile_below:
  fixes off :: u64
  assumes "is_ok m"
  defines "P \<equiv> \<lambda>p. fst p < off"
  shows "\<forall>p \<in> set (takeWhile P m). fst p < off" "\<forall>p \<in> set (dropWhile P m). off \<le> fst p"
proof -
  show "\<forall>p \<in> set (takeWhile P m). fst p < off" by (auto simp: P_def dest: set_takeWhileD)
  show "\<forall>p \<in> set (dropWhile P m). off \<le> fst p"
  proof (cases "dropWhile P m")
    case Nil
    then show ?thesis by (simp only: list.set ball_empty)
  next
    case (Cons a q)
    have "is_ok (takeWhile P m @ a # q)" using assms Cons by (metis takeWhile_dropWhile_id)
    then have "\<forall>b \<in> set q. unat (fst a) + unat (snd a) < unat (fst b)" by (simp add: is_ok_append is_ok_Cons)
    moreover have "off \<le> fst a" using Cons by (metis P_def dropWhile_eq_Cons_conv not_less)
    ultimately show ?thesis unfolding Cons by (fastforce simp: word_le_nat_alt)
  qed
qed


text \<open>The part of \<open>erase\<close> left of the iterator.\<close>

lemma is_erase_left:
  assumes "is_ok (p @ [(s, l)])" "s < off" "off < s + l"
  shows "is_ok (p @ [(s, off - s)])" "is_space (p @ [(s, off - s)]) = is_space (p @ [(s, l)]) - {unat off ..}"
proof -
  have o: "is_ok p" "l \<noteq> 0" "unat s + unat l < 2 ^ 64" "\<forall>q \<in> set p. unat (fst q) + unat (snd q) < unat s"
    using assms(1) by (auto simp: is_ok_append is_ok_Cons)
  have v: "unat (off - s) = unat off - unat s" using assms(2) by (intro unat_sub_le) simp
  have so: "unat s < unat off" "unat off < unat s + unat l"
    using assms(2,3) o(3) unat_add_nowrap [of s l] by (simp_all add: word_less_nat_alt)
  show "is_ok (p @ [(s, off - s)])"
    using o v so by (auto simp: is_ok_append is_ok_Cons word_unat_eq_iff)
  have "is_space p \<inter> {unat off ..} = {}" using o(4) so by (fastforce simp: is_space_def range_space_def)
  then show "is_space (p @ [(s, off - s)]) = is_space (p @ [(s, l)]) - {unat off ..}"
    using v so by (auto simp: range_space_def)
qed

lemma is_space_below: "\<forall>q \<in> set m. unat (fst q) + unat (snd q) \<le> b \<Longrightarrow> is_space m \<subseteq> {..< b}"
  by (fastforce simp: is_space_def range_space_def)

lemma is_space_above: "\<forall>q \<in> set m. b \<le> unat (fst q) \<Longrightarrow> is_space m \<subseteq> {b ..}"
  by (fastforce simp: is_space_def range_space_def)

lemma diff_split:
  "A \<subseteq> {..< e} \<Longrightarrow> B \<subseteq> {b ..} \<Longrightarrow> (A - {b ..}) \<union> (B - {..< e}) = (A \<union> B) - {b ..< e}" for e :: nat
  by fastforce

lemma is_erase_ok:
  assumes ok: "is_ok m" and nw: "unat off + unat len < 2 ^ 64"
  shows "is_ok (is_erase off len m) \<and>
    is_space (is_erase off len m) = is_space m - {unat off ..< unat off + unat len}"
proof (cases "len = 0")
  case True
  then show ?thesis using ok by (simp add: is_erase_def)
next
  case False
  define pre where "pre = takeWhile (\<lambda>p. fst p < off) m"
  define post where "post = dropWhile (\<lambda>p. fst p < off) m"
  let ?e = "off + len"
  have e: "unat ?e = unat off + unat len" using nw by (intro unat_add_nowrap) simp
  have m: "m = pre @ post" by (simp add: pre_def post_def)
  have oks: "is_ok pre" "is_ok post" using ok m by (auto simp: is_ok_append)
  have below: "\<forall>p \<in> set pre. fst p < off" and above: "\<forall>p \<in> set post. off \<le> fst p"
    using takeWhile_dropWhile_below [OF ok, of off] by (simp_all add: pre_def post_def)
  note L = is_erase_loop_ok [OF oks(2), of ?e]
  have id: "is_erase_loop ?e post = post" if "\<forall>q \<in> set post. ?e \<le> fst q"
    using that by (cases post) (auto simp: not_less)
  have lt: "unat off < unat ?e" using False e by (simp add: unat_gt_0)
  have sp: "is_space post \<subseteq> {unat off ..}" using above by (intro is_space_above) (auto simp: word_le_nat_alt)
  consider (plain) "pre = [] \<or> \<not> fst (last pre) + snd (last pre) > off"
    | (cut) p s l where "pre = p @ [(s, l)]" "off < s + l"
    by (cases pre rule: rev_cases) force+
  then show ?thesis
  proof cases
    case plain
    have pe: "\<forall>q \<in> set pre. unat (fst q) + unat (snd q) \<le> unat off"
    proof (cases pre rule: rev_cases)
      case (snoc p x)
      then have "unat (fst x) + unat (snd x) \<le> unat off" "\<forall>q \<in> set p. unat (fst q) + unat (snd q) < unat (fst x)"
        using plain oks(1) is_ok_end [OF oks(1), of x] by (auto simp: is_ok_append word_less_nat_alt not_less)
      then show ?thesis using snoc by fastforce
    qed simp
    have "is_erase off len m = pre @ is_erase_loop ?e post"
      using False plain by (auto simp: is_erase_def Let_def pre_def [symmetric] post_def [symmetric])
    moreover have "is_ok (pre @ is_erase_loop ?e post)"
      using L oks(1) pe lt by (fastforce simp: is_ok_append)
    ultimately show ?thesis using L m e sp is_space_below [OF pe] by auto
  next
    case cut
    have s: "s < off" "unat (s + l) = unat s + unat l" using below cut is_ok_end [OF oks(1), of "(s, l)"] by auto
    note C = is_erase_left [OF oks(1) [unfolded cut(1)] s(1) cut(2)]
    have post: "\<forall>q \<in> set post. unat (s + l) < unat (fst q)" using ok m cut s(2) by (simp add: is_ok_append is_ok_Cons)
    have sz: "unat s < unat off" "unat off < unat s + unat l" "unat s + unat l < 2 ^ 64"
      using s cut oks(1) by (auto simp: word_less_nat_alt is_ok_append is_ok_Cons)
    have sub: "is_space (p @ [(s, l)]) \<subseteq> {..< unat s + unat l}"
      using oks(1) cut(1) by (intro is_space_below) (fastforce simp: is_ok_append is_ok_Cons)
    have sub2: "is_space post \<subseteq> {unat s + unat l ..}"
      using post s(2) by (intro is_space_above) (fastforce simp: less_imp_le)
    show ?thesis
    proof (cases "?e < s + l")
      case True
      let ?v = "(s + l) - ?e"
      have v: "unat ?v = unat s + unat l - unat ?e" "unat ?e < unat s + unat l"
        using True s(2) unat_sub_le [of ?e "s + l"] by (simp_all add: less_imp_le word_less_nat_alt)
      have hd: "post = [] \<or> ?e < fst (hd post)" "\<forall>q \<in> set post. ?e \<le> fst q"
        using post v s(2) by (cases post; auto simp: word_less_nat_alt word_le_nat_alt)+
      have "\<forall>x \<in> fst ` set (p @ [(s, off - s)]). x < ?e"
        using oks(1) cut(1) sz(1) lt by (fastforce simp: word_less_nat_alt is_ok_append)
      then have om: "om_set ?e ?v (p @ [(s, off - s)]) = p @ [(s, off - s), (?e, ?v)]"
        using om_set_append [of "p @ [(s, off - s)]" ?e ?v "[]"] by simp
      have "is_erase off len m = (p @ [(s, off - s), (?e, ?v)]) @ post"
        using False cut s(1) True hd id om
        by (simp add: is_erase_def Let_def pre_def [symmetric] post_def [symmetric]) blast
      moreover have "is_ok ((p @ [(s, off - s), (?e, ?v)]) @ post)"
        using C(1) oks(2) v post s(2) sz lt unat_sub_le [of s off] s(1)
        by (fastforce simp: is_ok_append is_ok_Cons word_unat_eq_iff less_imp_le)
      moreover have "is_space ((p @ [(s, off - s), (?e, ?v)]) @ post) =
          is_space m - {unat off ..< unat off + unat len}"
        using C(2) sub sub2 sz v lt e m cut(1) by (auto simp: range_space_def)
      ultimately show ?thesis by simp
    next
      case ns: False
      have "is_erase off len m = (p @ [(s, off - s)]) @ is_erase_loop ?e post"
        using False cut s(1) ns by (simp add: is_erase_def Let_def pre_def [symmetric] post_def [symmetric])
      moreover have "is_ok ((p @ [(s, off - s)]) @ is_erase_loop ?e post)"
        using C(1) L sz(1) lt unat_sub_le [of s off] s(1) oks(1) cut(1)
        by (fastforce simp: is_ok_append is_ok_Cons less_imp_le)
      moreover have "unat s + unat l \<le> unat ?e" using ns s(2) by (simp add: word_less_nat_alt not_less)
      moreover from this have "is_space (p @ [(s, l)]) \<subseteq> {..< unat ?e}" using sub by fastforce
      moreover have "is_space ((p @ [(s, off - s)]) @ is_erase_loop ?e post) =
          (is_space (p @ [(s, l)]) - {unat off ..}) \<union> (is_space post - {..< unat ?e})"
        using C(2) L by (simp only: is_space_simps(3) [of "p @ [(s, off - s)]"])
      ultimately show ?thesis
        using diff_split [OF _ sp, of "is_space (p @ [(s, l)])" "unat ?e"] e m cut(1)
        by (simp add: Un_assoc)
    qed
  qed
qed


section \<open>Inserting an interval\<close>

text \<open>An interval that overlaps none of the set swallows at most the one it touches on the right.\<close>

lemma is_absorb_disjoint:
  assumes ok: "is_ok post" and above: "\<forall>q \<in> set post. unat off + unat len \<le> unat (fst q)"
    and nw: "unat off + unat len < 2 ^ 64" and len: "len \<noteq> 0"
  shows "\<exists>len1 post1. is_absorb off len post = (len1, post1) \<and> is_ok ((off, len1) # post1) \<and>
    is_space ((off, len1) # post1) = {unat off ..< unat off + unat len} \<union> is_space post"
proof -
  have e: "unat (off + len) = unat off + unat len" using nw by (intro unat_add_nowrap) simp
  show ?thesis
  proof (cases "post \<noteq> [] \<and> fst (hd post) = off + len")
    case False
    have "\<forall>q \<in> set post. unat off + unat len < unat (fst q)"
    proof (cases post)
      case (Cons x r)
      then have "unat off + unat len < unat (fst x)" using False above e by (auto simp: word_unat_eq_iff le_less)
      moreover have "\<forall>q \<in> set r. unat (fst x) + unat (snd x) < unat (fst q)" using ok Cons by (simp add: is_ok_Cons)
      ultimately show ?thesis using Cons by fastforce
    qed simp
    moreover from this have "is_absorb off len post = (len, post)"
      using e by (cases post) (auto simp: word_le_nat_alt)
    ultimately show ?thesis using ok nw len by (simp add: is_ok_Cons range_space_def)
  next
    case True
    then obtain l r where post: "post = (off + len, l) # r" by (cases post) auto
    have o: "l \<noteq> 0" "unat (off + len) + unat l < 2 ^ 64" "is_ok r"
      "\<forall>q \<in> set r. unat (off + len) + unat l < unat (fst q)" using ok post by (auto simp: is_ok_Cons)
    have ll: "unat (len + l) = unat len + unat l" using o(2) e by (intro unat_add_nowrap) simp
    have eq: "off + len + l - off = len + l" by simp
    have mx: "max len (len + l) = len + l" using ll by (simp add: max_def word_le_nat_alt)
    have oll: "unat (off + (len + l)) = unat off + unat len + unat l"
      using o(2) e ll by (subst unat_add_nowrap) simp_all
    have "is_absorb off (len + l) r = (len + l, r)"
      using o(4) oll e by (cases r) (auto simp: word_le_nat_alt)
    then have "is_absorb off len post = (len + l, r)" by (simp add: post eq mx)
    moreover have "is_ok ((off, len + l) # r)" using o e ll len by (auto simp: is_ok_Cons word_unat_eq_iff)
    moreover have "is_space ((off, len + l) # r) = {unat off ..< unat off + unat len} \<union> is_space post"
      using post ll e by (auto simp: range_space_def)
    ultimately show ?thesis by blast
  qed
qed


lemma is_insert_disjoint:
  assumes ok: "is_ok m" and nw: "unat off + unat len < 2 ^ 64"
    and dis: "{unat off ..< unat off + unat len} \<inter> is_space m = {}"
  shows "is_ok (is_insert off len m) \<and>
    is_space (is_insert off len m) = is_space m \<union> {unat off ..< unat off + unat len}"
proof (cases "len = 0")
  case True
  then show ?thesis using ok by (simp add: is_insert_def)
next
  case False
  define pre where "pre = takeWhile (\<lambda>p. fst p < off) m"
  define post where "post = dropWhile (\<lambda>p. fst p < off) m"
  have m: "m = pre @ post" by (simp add: pre_def post_def)
  have oks: "is_ok pre" "is_ok post" using ok m by (auto simp: is_ok_append)
  have below: "\<forall>p \<in> set pre. fst p < off" and above: "\<forall>p \<in> set post. off \<le> fst p"
    using takeWhile_dropWhile_below [OF ok, of off] by (simp_all add: pre_def post_def)
  have pos: "0 < unat len" using False by (simp add: unat_gt_0)
  have out: "unat (fst p) \<notin> {unat off ..< unat off + unat len}" "unat off \<notin> range_space p" if "p \<in> set m" for p
  proof -
    have "0 < unat (snd p)" using ok that by (auto simp: is_ok_def unat_gt_0)
    then have "unat (fst p) \<in> is_space m" using that by (force simp: is_space_def range_space_def)
    then show "unat (fst p) \<notin> {unat off ..< unat off + unat len}" using dis by blast
    have "unat off \<notin> is_space m" using dis pos by (auto simp: disjoint_iff)
    then show "unat off \<notin> range_space p" using that by (auto simp: is_space_def)
  qed
  have ab: "\<forall>q \<in> set post. unat off + unat len \<le> unat (fst q)"
    using above out(1) m by (fastforce simp: word_le_nat_alt)
  have be: "\<forall>q \<in> set pre. unat (fst q) + unat (snd q) \<le> unat off"
    using below out(2) m by (fastforce simp: word_less_nat_alt range_space_def not_less)
  obtain len1 post1 where A: "is_absorb off len post = (len1, post1)" "is_ok ((off, len1) # post1)"
    "is_space ((off, len1) # post1) = {unat off ..< unat off + unat len} \<union> is_space post"
    using is_absorb_disjoint [OF oks(2) ab nw False] by blast
  have o: "is_ok post1" "len1 \<noteq> 0" "unat off + unat len1 < 2 ^ 64" "\<forall>q \<in> set post1. unat off + unat len1 < unat (fst q)"
    using A(2) by (auto simp: is_ok_Cons)
  show ?thesis
  proof (cases "pre \<noteq> [] \<and> fst (last pre) + snd (last pre) \<ge> off")
    case nomerge: False
    have lt: "\<forall>q \<in> set pre. unat (fst q) + unat (snd q) < unat off"
    proof (cases pre rule: rev_cases)
      case (snoc p x)
      then have "unat (fst x) + unat (snd x) < unat off" "\<forall>q \<in> set p. unat (fst q) + unat (snd q) < unat (fst x)"
        using nomerge oks(1) is_ok_end [OF oks(1), of x] by (auto simp: is_ok_append word_le_nat_alt)
      then show ?thesis using snoc by fastforce
    qed simp
    have "om_set off len1 (pre @ post1) = pre @ (off, len1) # post1"
      using lt o(4) by (subst om_set_append) (fastforce simp: word_less_nat_alt intro!: om_set_front)+
    then have "is_insert off len m = pre @ (off, len1) # post1"
      using False nomerge A(1)
      by (simp add: is_insert_def Let_def pre_def [symmetric] post_def [symmetric]) blast
    moreover have "is_ok (pre @ (off, len1) # post1)" using oks(1) A(2) lt o(4) by (fastforce simp: is_ok_append)
    ultimately show ?thesis using A(3) m by auto
  next
    case merge: True
    obtain p s l where pre: "pre = p @ [(s, l)]" using merge by (cases pre rule: rev_cases) auto
    have sl: "unat (s + l) = unat s + unat l" using is_ok_end [OF oks(1), of "(s, l)"] pre by simp
    have e: "unat s + unat l = unat off" using merge be pre sl by (auto simp: word_le_nat_alt intro: antisym)
    have P: "is_ok p" "l \<noteq> 0" "\<forall>q \<in> set p. unat (fst q) + unat (snd q) < unat s"
      using oks(1) pre by (auto simp: is_ok_append is_ok_Cons)
    have "0 < unat l" using P(2) by (simp add: unat_gt_0)
    then have soff: "unat s < unat off" using e by linarith
    have ol: "unat (off + len1) = unat off + unat len1" using o(3) by (intro unat_add_nowrap) simp
    then have v: "unat (off + len1 - s) = unat l + unat len1"
      using e by (subst unat_sub_le) (simp_all add: word_le_nat_alt)
    then have mx: "max len1 (off + len1 - s) = off + len1 - s" by (simp add: max_def word_le_nat_alt)
    have "om_set s (off + len1 - s) (p @ post1) = p @ (s, off + len1 - s) # post1"
      using P(3) o(4) soff by (subst om_set_append) (fastforce simp: word_less_nat_alt intro!: om_set_front)+
    then have "is_insert off len m = p @ (s, off + len1 - s) # post1"
      using False merge A(1) pre mx
      by (simp add: is_insert_def Let_def pre_def [symmetric] post_def [symmetric])
    moreover have "is_ok (p @ (s, off + len1 - s) # post1)"
      using P o v e by (fastforce simp: is_ok_append is_ok_Cons word_unat_eq_iff)
    moreover have "is_space (p @ (s, off + len1 - s) # post1) = is_space (p @ [(s, l)]) \<union> is_space ((off, len1) # post1)"
      using v e by (auto simp: range_space_def)
    ultimately show ?thesis using A(3) m pre by auto
  qed
qed

section \<open>Release sets\<close>

text \<open>\<open>Allocator::release(const PExtentVector &)\<close> builds the set it passes on.\<close>

definition release_set :: "pextent list \<Rightarrow> interval_set" where
  "release_set es = foldl (\<lambda>m e. is_insert (pe_offset e) (ucast (pe_length e)) m) [] es"

lemma is_ok_regions:
  assumes "is_ok m" "is_space m \<subseteq> {..< D}" "is_space m \<inter> F = {}"
  shows "regions F D m"
  using assms
proof (induction m)
  case (Cons p m)
  have p: "snd p \<noteq> 0" "is_ok m" "\<forall>q \<in> set m. unat (fst p) + unat (snd p) < unat (fst q)"
    using Cons.prems(1) by (auto simp: is_ok_Cons)
  have "0 < unat (snd p)" using p(1) by (simp add: unat_gt_0)
  then have "unat (fst p) + unat (snd p) - 1 \<in> range_space p" by (auto simp: range_space_def)
  then have "unat (fst p) + unat (snd p) - 1 < D" using Cons.prems(2) by auto
  then have "unat (fst p) + unat (snd p) \<le> D" by simp
  moreover have "\<forall>q \<in> set m. range_space p \<inter> range_space q = {}" using p(3) by (fastforce simp: range_space_def)
  moreover have "regions F D m" using Cons p(2) by auto
  ultimately show ?case using p(1) Cons.prems(3) by (auto simp: regions_Cons)
qed simp

lemma release_set_carve:
  assumes "carve F es F'" "F \<subseteq> {..< 2 ^ 63}" "is_ok m" "is_space m \<inter> F = {}"
  shows "is_ok (foldl (\<lambda>m e. is_insert (pe_offset e) (ucast (pe_length e)) m) m es) \<and>
    is_space (foldl (\<lambda>m e. is_insert (pe_offset e) (ucast (pe_length e)) m) m es) =
      is_space m \<union> (\<Union>e \<in> set es. extent_space e)"
  using assms
proof (induction es arbitrary: F m)
  case (Cons e es)
  let ?m = "is_insert (pe_offset e) (ucast (pe_length e)) m"
  have sub: "extent_space e \<subseteq> F" "carve (F - extent_space e) es F'" using Cons.prems(1) by simp_all
  have "is_ok ?m \<and> is_space ?m = is_space m \<union> extent_space e"
  proof (cases "pe_length e = 0")
    case True
    then show ?thesis using Cons.prems(3) by (simp add: is_insert_def extent_space_def)
  next
    case False
    then have "unat (pe_offset e) \<in> extent_space e" by (simp add: extent_space_def unat_gt_0)
    then have "unat (pe_offset e) < 2 ^ 63" using sub(1) Cons.prems(2) by blast
    then have nw: "unat (pe_offset e) + unat (ucast (pe_length e) :: u64) < 2 ^ 64"
      using unat_lt_u32 [of "pe_length e"] by (simp del: unat_lt_u32)
    have dis: "{unat (pe_offset e) ..< unat (pe_offset e) + unat (ucast (pe_length e) :: u64)} \<inter> is_space m = {}"
      using sub(1) Cons.prems(4) by (auto simp: extent_space_def)
    show ?thesis using is_insert_disjoint [OF Cons.prems(3) nw dis] by (simp add: extent_space_def)
  qed
  then show ?case
    using Cons.IH [OF sub(2), of ?m] Cons.prems(2,4) by auto
qed simp


section \<open>Properties\<close>

text \<open>\<open>interval_set::erase\<close> removes exactly the given addresses, splitting and trimming intervals as
  needed, and keeps the set well formed.\<close>

theorem interval_set_erase_exact:
  assumes "is_ok m" "unat off + unat len < 2 ^ 64"
  shows "is_ok (is_erase off len m) \<and>
    is_space (is_erase off len m) = is_space m - {unat off ..< unat off + unat len}"
  by (rule is_erase_ok [OF assms])

theorem interval_set_erase_exact_witness:
  "is_ok (is_erase 10 5 [(0, 100)]) \<and> is_space (is_erase 10 5 [(0, 100)]) = {0 ..< 100} - {10 ..< 15}"
proof -
  have "is_ok [(0, 100)]" "unat (10::u64) + unat (5::u64) < 2 ^ 64" by (simp_all add: is_ok_Cons)
  from interval_set_erase_exact [OF this] show ?thesis by (simp add: range_space_def)
qed

text \<open>Inserting an interval that overlaps no interval of the set adds exactly its addresses, merging it with the
  intervals it touches on either side.\<close>

theorem interval_set_insert_disjoint:
  assumes "is_ok m" "unat off + unat len < 2 ^ 64" "{unat off ..< unat off + unat len} \<inter> is_space m = {}"
  shows "is_ok (is_insert off len m) \<and>
    is_space (is_insert off len m) = is_space m \<union> {unat off ..< unat off + unat len}"
  by (rule is_insert_disjoint [OF assms])

theorem interval_set_insert_disjoint_witness:
  "is_ok (is_insert 10 5 [(0, 10), (15, 5)]) \<and>
   is_space (is_insert 10 5 [(0, 10), (15, 5)]) = ({0 ..< 10} \<union> {15 ..< 20}) \<union> {10 ..< 15}"
proof -
  have "is_ok [(0, 10), (15, 5)]" "unat (10::u64) + unat (5::u64) < 2 ^ 64"
    "{unat (10::u64) ..< unat (10::u64) + unat (5::u64)} \<inter> is_space [(0, 10), (15, 5)] = {}"
    by (auto simp: is_ok_Cons range_space_def)
  from interval_set_insert_disjoint [OF this] show ?thesis by (simp add: range_space_def)
qed

text \<open>C24: inserting an interval that lies inside an interval of the set truncates the latter: the addresses behind
  the inserted interval are lost from the set.\<close>

theorem interval_set_insert_truncates:
  assumes "unat s < unat off" "len \<noteq> 0" "unat off + unat len < unat s + unat l" "unat s + unat l < 2 ^ 64"
  shows "is_insert off len [(s, l)] = [(s, off + len - s)] \<and>
    is_space (is_insert off len [(s, l)]) = is_space [(s, l)] - {unat off + unat len ..< unat s + unat l}"
proof -
  have sl: "unat (s + l) = unat s + unat l" "unat (off + len) = unat off + unat len"
    using assms by (simp_all add: unat_add_nowrap)
  have lt: "s < off" "off \<le> s + l" using assms sl by (simp_all add: word_less_nat_alt word_le_nat_alt)
  have v: "unat (off + len - s) = unat off + unat len - unat s"
    using sl assms by (subst unat_sub_le) (simp_all add: word_le_nat_alt)
  then have "len \<le> off + len - s" using assms(1) by (simp add: word_le_nat_alt)
  then have "max len (off + len - s) = off + len - s" by (rule max_absorb2)
  then have "is_insert off len [(s, l)] = [(s, off + len - s)]" using assms(2) lt by (simp add: is_insert_def)
  then show ?thesis using v assms by (auto simp: range_space_def)
qed

theorem interval_set_insert_truncates_witness:
  "is_insert 10 5 [(0, 100)] = [(0, 15)]"
  using interval_set_insert_truncates [of 0 10 5 100] by simp

end
