(* ===== verification/Avl_Allocator.thy ===== *)
theory Avl_Allocator
  imports Allocator_Spec "HOL-Library.Monad_Syntax"
begin

text \<open>
  The free-space allocator of \<open>blk/avl_allocator.cc\<close>, the one \<open>BtierEngine::init\<close> creates for both
  tiers. The intrusive set \<open>range_tree_\<close> is the list of its segments in offset order,
  the multiset \<open>range_size_tree_\<close> the list of the same segments ordered by size and then by
  offset. A failed \<open>cxxlab_assert\<close> ends the process and is the result \<open>None\<close>.
\<close>

section \<open>State\<close>

record range_seg =
  rs_start :: u64
  rs_end :: u64

definition seg :: "u64 \<Rightarrow> u64 \<Rightarrow> range_seg" where
  "seg s e = \<lparr>rs_start = s, rs_end = e\<rparr>"

lemma seg_sel [simp]: "rs_start (seg s e) = s" "rs_end (seg s e) = e"
  by (simp_all add: seg_def)

definition rs_length :: "range_seg \<Rightarrow> u64" where
  "rs_length r = rs_end r - rs_start r"

text \<open>\<open>range_seg_t::before_t\<close> and the order of \<open>range_seg_t::shorter_t\<close> as a sort key.\<close>

definition rs_before :: "range_seg \<Rightarrow> range_seg \<Rightarrow> bool" where
  "rs_before l r \<longleftrightarrow> rs_end l \<le> rs_start r"

definition rs_key :: "range_seg \<Rightarrow> u64 \<times> u64" where
  "rs_key r = (rs_length r, rs_start r)"

text \<open>
  \<open>av_end_start\<close> is what dereferencing \<open>range_tree_.end()\<close> yields: the second loop of
  \<open>_pick_block_after\<close> reads \<open>rs_start->start\<close> also when \<open>rs_start\<close> is the end
  iterator, which is undefined, so the value is left arbitrary.
\<close>

record AvlAllocator =
  av_device_size :: u64
  av_block_size :: u64
  av_range_tree :: "range_seg list"
  av_range_size_tree :: "range_seg list"
  av_num_free :: u64
  av_lbas :: "u64 list"
  av_range_count_cap :: nat
  av_end_start :: u64

definition range_size_alloc_threshold :: u64 where "range_size_alloc_threshold = 128 * 1024"
definition range_size_alloc_free_pct :: int where "range_size_alloc_free_pct = 4"
definition max_search_count :: nat where "max_search_count = 100"
definition max_search_bytes :: u64 where "max_search_bytes = 16 * 1024 * 1024"

text \<open>The constructor; \<open>max_mem / sizeof(range_seg_t)\<close> is passed as the cap.\<close>

definition new_AvlAllocator :: "u64 \<Rightarrow> u64 \<Rightarrow> nat \<Rightarrow> u64 \<Rightarrow> AvlAllocator" where
  "new_AvlAllocator dsize block cap junk =
     \<lparr>av_device_size = dsize, av_block_size = block, av_range_tree = [], av_range_size_tree = [],
      av_num_free = 0, av_lbas = replicate 64 0, av_range_count_cap = cap, av_end_start = junk\<rparr>"

section \<open>Searching\<close>

text \<open>\<open>lower_bound\<close> and \<open>upper_bound\<close> as the suffix of the tree that starts at the iterator.\<close>

definition tree_lower_bound :: "range_seg list \<Rightarrow> range_seg \<Rightarrow> range_seg list" where
  "tree_lower_bound t k = dropWhile (\<lambda>e. rs_before e k) t"

definition tree_upper_bound :: "range_seg list \<Rightarrow> range_seg \<Rightarrow> range_seg list" where
  "tree_upper_bound t k = dropWhile (\<lambda>e. \<not> rs_before k e) t"

datatype pick = Found u64 | Give_up | Exhausted nat u64

text \<open>First loop of \<open>_pick_block_after\<close>, from \<open>rs_start\<close> to the end of the tree.\<close>

fun pick_after_loop1 :: "u64 \<Rightarrow> u64 \<Rightarrow> u64 \<Rightarrow> nat \<Rightarrow> u64 \<Rightarrow> range_seg list \<Rightarrow> pick" where
  "pick_after_loop1 first sz align cnt sb [] = Exhausted cnt sb"
| "pick_after_loop1 first sz align cnt sb (rs # rest) =
     (let offset = p2roundup (rs_start rs) align in
      if offset + sz \<le> rs_end rs then Found offset
      else if cnt + 1 > max_search_count then Give_up
      else let sb' = rs_start rs - first in
           if sb' > max_search_bytes then Give_up
           else pick_after_loop1 first sz align (cnt + 1) sb' rest)"

text \<open>Second loop, from the beginning up to \<open>rs_start\<close>; \<open>search_bytes\<close> is no longer updated.\<close>

fun pick_after_loop2 :: "u64 \<Rightarrow> u64 \<Rightarrow> u64 \<Rightarrow> nat \<Rightarrow> u64 \<Rightarrow> range_seg list \<Rightarrow> pick" where
  "pick_after_loop2 first sz align cnt sb [] = Exhausted cnt sb"
| "pick_after_loop2 first sz align cnt sb (rs # rest) =
     (let offset = p2roundup (rs_start rs) align in
      if offset + sz \<le> rs_end rs then Found offset
      else if cnt + 1 > max_search_count then Give_up
      else if sb + (first - rs_start rs) > max_search_bytes then Give_up
      else pick_after_loop2 first sz align (cnt + 1) sb rest)"

text \<open>
  \<open>_pick_block_after\<close> returns \<open>-1ULL\<close> when it finds nothing, and moves the cursor behind the
  block otherwise: the pair of the result and the new cursor.
\<close>

definition NO_BLOCK :: u64 where "NO_BLOCK = - 1"

definition pick_block_after :: "AvlAllocator \<Rightarrow> u64 \<Rightarrow> u64 \<Rightarrow> u64 \<Rightarrow> u64 \<times> u64" where
  "pick_block_after st cursor sz align =
     (let from = tree_lower_bound (av_range_tree st) (seg cursor sz);
          upto = take (length (av_range_tree st) - length from) (av_range_tree st);
          first = (case from of r # _ \<Rightarrow> rs_start r | [] \<Rightarrow> av_end_start st)
      in case pick_after_loop1 first sz align 0 0 from of
           Found off \<Rightarrow> (off, off + sz)
         | Give_up \<Rightarrow> (NO_BLOCK, cursor)
         | Exhausted cnt sb \<Rightarrow>
             if cursor = 0 then (NO_BLOCK, cursor)
             else (case pick_after_loop2 first sz align cnt sb upto of
                     Found off \<Rightarrow> (off, off + sz)
                   | _ \<Rightarrow> (NO_BLOCK, cursor)))"

fun pick_fits_loop :: "u64 \<Rightarrow> u64 \<Rightarrow> nat \<Rightarrow> range_seg list \<Rightarrow> u64" where
  "pick_fits_loop sz align cnt [] = NO_BLOCK"
| "pick_fits_loop sz align cnt (rs # rest) =
     (if cnt + 1 > max_search_count then NO_BLOCK
      else let offset = p2roundup (rs_start rs) align in
           if offset + sz \<le> rs_end rs then offset
           else pick_fits_loop sz align (cnt + 1) rest)"

definition pick_block_fits :: "AvlAllocator \<Rightarrow> u64 \<Rightarrow> u64 \<Rightarrow> u64" where
  "pick_block_fits st sz align =
     pick_fits_loop sz align 0 (dropWhile (\<lambda>r. rs_key r < (sz, 0)) (av_range_size_tree st))"

section \<open>Updating the trees\<close>

definition lowest_size_available :: "AvlAllocator \<Rightarrow> u64" where
  "lowest_size_available st =
     (case av_range_size_tree st of [] \<Rightarrow> 0 | r # _ \<Rightarrow> rs_length r)"

definition range_size_tree_rm :: "range_seg \<Rightarrow> AvlAllocator \<Rightarrow> AvlAllocator option" where
  "range_size_tree_rm r st =
     (if av_num_free st \<ge> rs_length r
      then Some (st\<lparr>av_num_free := av_num_free st - rs_length r,
                    av_range_size_tree := removeAll r (av_range_size_tree st)\<rparr>)
      else None)"

definition size_tree_insert :: "range_seg \<Rightarrow> AvlAllocator \<Rightarrow> AvlAllocator" where
  "size_tree_insert r st =
     st\<lparr>av_range_size_tree := insort_key rs_key r (av_range_size_tree st),
        av_num_free := av_num_free st + rs_length r\<rparr>"

text \<open>
  \<open>_try_insert_range\<close>: \<open>pos\<close> is the index of the iterator \<open>insert_pos\<close>, absent when the caller
  passes none. \<open>_spillover_range\<close> of this class drops the range.
\<close>

definition try_insert_range ::
  "u64 \<Rightarrow> u64 \<Rightarrow> nat option \<Rightarrow> AvlAllocator \<Rightarrow> (bool \<times> AvlAllocator) option" where
  "try_insert_range start end pos st =
     (let room = av_range_count_cap st = 0 \<or>
                 length (av_range_size_tree st) < av_range_count_cap st;
          remove_lowest = \<not> room \<and> end - start > lowest_size_available st
      in if \<not> room \<and> \<not> remove_lowest then Some (False, st)
         else let st1 = (case pos of
                           None \<Rightarrow> st
                         | Some i \<Rightarrow>
                             size_tree_insert (seg start end)
                               (st\<lparr>av_range_tree := take i (av_range_tree st) @ seg start end #
                                                    drop i (av_range_tree st)\<rparr>))
              in if remove_lowest
                 then (case av_range_size_tree st1 of
                         [] \<Rightarrow> None
                       | r # _ \<Rightarrow> do {
                           st2 \<leftarrow> range_size_tree_rm r st1;
                           Some (True, st2\<lparr>av_range_tree := removeAll r (av_range_tree st2)\<rparr>) })
                 else Some (True, st1))"

definition range_size_tree_try_insert :: "range_seg \<Rightarrow> AvlAllocator \<Rightarrow> AvlAllocator option" where
  "range_size_tree_try_insert r st = do {
     (ok, st1) \<leftarrow> try_insert_range (rs_start r) (rs_end r) None st;
     Some (if ok then size_tree_insert r st1
           else st1\<lparr>av_range_tree := removeAll r (av_range_tree st1)\<rparr>) }"

text \<open>
  \<open>_add_to_tree\<close>: \<open>pre\<close> ends with \<open>rs_before\<close>, \<open>post\<close> starts with \<open>rs_after\<close>.
\<close>

definition add_to_tree :: "u64 \<Rightarrow> u64 \<Rightarrow> AvlAllocator \<Rightarrow> AvlAllocator option" where
  "add_to_tree start sz st =
     (if sz = 0 then None
      else let end = start + sz;
               post = tree_upper_bound (av_range_tree st) (seg start end);
               pre = take (length (av_range_tree st) - length post) (av_range_tree st);
               merge_before = pre \<noteq> [] \<and> rs_end (last pre) = start;
               merge_after = post \<noteq> [] \<and> rs_start (hd post) = end
           in if merge_before \<and> merge_after then do {
                st1 \<leftarrow> range_size_tree_rm (last pre) st;
                st2 \<leftarrow> range_size_tree_rm (hd post) st1;
                let r = seg (rs_start (last pre)) (rs_end (hd post));
                range_size_tree_try_insert r (st2\<lparr>av_range_tree := butlast pre @ r # tl post\<rparr>)
              }
              else if merge_before then do {
                st1 \<leftarrow> range_size_tree_rm (last pre) st;
                let r = seg (rs_start (last pre)) end;
                range_size_tree_try_insert r (st1\<lparr>av_range_tree := butlast pre @ r # post\<rparr>)
              }
              else if merge_after then do {
                st1 \<leftarrow> range_size_tree_rm (hd post) st;
                let r = seg start (rs_end (hd post));
                range_size_tree_try_insert r (st1\<lparr>av_range_tree := pre @ r # tl post\<rparr>)
              }
              else map_option snd (try_insert_range start end (Some (length pre)) st))"

text \<open>\<open>_process_range_removal\<close> on the segment at index \<open>i\<close>.\<close>

definition process_range_removal :: "u64 \<Rightarrow> u64 \<Rightarrow> nat \<Rightarrow> AvlAllocator \<Rightarrow> AvlAllocator option" where
  "process_range_removal start end i st =
     (let rs = av_range_tree st ! i;
          left_over = rs_start rs \<noteq> start;
          right_over = rs_end rs \<noteq> end
      in do {
        st1 \<leftarrow> range_size_tree_rm rs st;
        if left_over \<and> right_over then do {
          let l = seg (rs_start rs) start;
          (_, st2) \<leftarrow> try_insert_range end (rs_end rs) (Some (i + 1))
                        (st1\<lparr>av_range_tree := (av_range_tree st1)[i := l]\<rparr>);
          range_size_tree_try_insert l st2
        }
        else if left_over then do {
          let l = seg (rs_start rs) start;
          range_size_tree_try_insert l (st1\<lparr>av_range_tree := (av_range_tree st1)[i := l]\<rparr>)
        }
        else if right_over then do {
          let r = seg end (rs_end rs);
          range_size_tree_try_insert r (st1\<lparr>av_range_tree := (av_range_tree st1)[i := r]\<rparr>)
        }
        else Some (st1\<lparr>av_range_tree := take i (av_range_tree st1) @ drop (i + 1) (av_range_tree st1)\<rparr>)
      })"

text \<open>
  \<open>_remove_from_tree\<close>: \<open>range_tree_.find\<close> is the lower bound unless the key is before it.
\<close>

definition remove_from_tree :: "u64 \<Rightarrow> u64 \<Rightarrow> AvlAllocator \<Rightarrow> (bool \<times> AvlAllocator) option" where
  "remove_from_tree start sz st =
     (let end = start + sz in
      if sz = 0 then None
      else case tree_lower_bound (av_range_tree st) (seg start end) of
             [] \<Rightarrow> Some (False, st)
           | rs # rest \<Rightarrow>
               if rs_before (seg start end) rs \<or> rs_start rs > start \<or> rs_end rs < end
               then Some (False, st)
               else if sz \<le> av_num_free st
               then map_option (Pair True)
                      (process_range_removal start end
                         (length (av_range_tree st) - length (rs # rest)) st)
               else None)"

section \<open>Allocation\<close>

lemma p2align_half_less: "unit \<noteq> 0 \<Longrightarrow> unit \<le> p2align (drop_bit 1 sz) unit \<Longrightarrow>
  unat (p2align (drop_bit 1 sz) unit) < unat sz"
proof -
  assume u: "unit \<noteq> 0" and le: "unit \<le> p2align (drop_bit 1 sz) unit"
  have half: "unat (drop_bit 1 sz) = unat sz div 2"
    unfolding unat_drop_bit_eq by (simp add: drop_bit_Suc)
  have "p2align (drop_bit 1 sz) unit \<le> drop_bit 1 sz"
    by (simp add: p2align_def word_and_le2)
  then have "unat (p2align (drop_bit 1 sz) unit) \<le> unat sz div 2"
    by (simp only: word_le_nat_alt half)
  moreover have "0 < unat (p2align (drop_bit 1 sz) unit)"
    using u le by (metis unat_gt_0 word_le_0_iff)
  ultimately show ?thesis by linarith
qed

text \<open>
  The \<open>do ... while (size >= unit)\<close> loop of \<open>_allocate_single\<close>: the block found (or
  \<open>-1ULL\<close>) and the size at which the loop stopped. \<open>allocate\<close> has asserted that \<open>unit\<close> is
  a power of two, so the loop is only entered with a positive unit; the guard on
  \<open>unit = 0\<close> makes the function total.
\<close>

function fits_loop :: "AvlAllocator \<Rightarrow> u64 \<Rightarrow> u64 \<Rightarrow> u64 \<times> u64" where
  "fits_loop st sz unit =
     (let start = pick_block_fits st sz unit in
      if start \<noteq> NO_BLOCK then (start, sz)
      else let sz' = p2align (drop_bit 1 sz) unit in
           if sz' \<ge> unit \<and> unit \<noteq> 0 then fits_loop st sz' unit else (NO_BLOCK, sz'))"
  by pat_completeness auto

termination
  by (relation "measure (\<lambda>(st, sz, unit). unat sz)") (auto simp: p2align_half_less [unfolded One_nat_def])

declare fits_loop.simps [simp del]

text \<open>
  \<open>_allocate_single\<close>: \<open>None\<close> in the first component is the return value \<open>-ENOSPC\<close>. The
  source divides by \<open>device_size\<close>, which traps when it is 0.
\<close>

definition allocate_single ::
  "u64 \<Rightarrow> u64 \<Rightarrow> AvlAllocator \<Rightarrow> ((u64 \<times> u64) option \<times> AvlAllocator) option" where
  "allocate_single sz0 unit st =
     (let max_size = (if av_range_size_tree st = [] then 0
                      else rs_length (last (av_range_size_tree st)));
          force = max_size < sz0;
          sz = (if force then p2align max_size unit else sz0)
      in if force \<and> max_size < unit then Some (None, st)
         else if force \<and> \<not> sz > 0 then None
         else if av_device_size st = 0 then None
         else let free_pct = sint (ucast (av_num_free st * 100 div av_device_size st) :: u32);
                  by_size = force \<or> max_size < range_size_alloc_threshold
                            \<or> free_pct < range_size_alloc_free_pct;
                  align = sz AND (- sz);
                  ci = cbits align - 1
         in if \<not> by_size \<and> align = 0 then None
         else let (start0, cursor) = (if by_size then (NO_BLOCK, av_lbas st ! ci)
                                      else pick_block_after st (av_lbas st ! ci) sz unit);
                  st1 = (if by_size then st else st\<lparr>av_lbas := (av_lbas st)[ci := cursor]\<rparr>);
                  (start, sz') = (if start0 = NO_BLOCK then fits_loop st1 sz unit else (start0, sz))
         in if start = NO_BLOCK then Some (None, st1)
            else map_option (\<lambda>(_, st2). (Some (start, sz'), st2)) (remove_from_tree start sz' st1))"

lemma p2align_le: "p2align x a \<le> x"
  by (simp add: p2align_def word_and_le2)

lemma fits_loop_le: "snd (fits_loop st sz unit) \<le> sz"
proof (induction st sz unit rule: fits_loop.induct)
  case (1 st sz unit)
  have half: "p2align (drop_bit 1 sz) unit \<le> sz"
  proof -
    have "drop_bit 1 sz \<le> sz"
      unfolding word_le_nat_alt unat_drop_bit_eq by (simp add: drop_bit_Suc)
    then show ?thesis using p2align_le order_trans by blast
  qed
  show ?case
    using "1.IH" [OF refl _ refl] half
    by (subst fits_loop.simps) (auto simp: Let_def intro: order_trans)
qed

lemma remove_from_tree_pos: "remove_from_tree s sz st = Some r \<Longrightarrow> 0 < sz"
  by (auto simp: remove_from_tree_def word_gt_0 split: if_splits)

lemma allocate_single_len:
  assumes "allocate_single sz unit st = Some (Some (off, len), st')"
  shows "0 < len" "len \<le> sz"
proof -
  let ?m = "if av_range_size_tree st = [] then 0 else rs_length (last (av_range_size_tree st))"
  have m: "?m < sz \<Longrightarrow> p2align ?m unit \<le> sz"
    using p2align_le [of ?m unit] by (meson less_imp_le order_trans)
  have f: "x \<le> sz \<Longrightarrow> snd (fits_loop s x unit) \<le> sz" for x s
    using fits_loop_le order_trans by blast
  show "0 < len" "len \<le> sz"
    using assms f m
    by (auto simp: allocate_single_def Let_def dest!: remove_from_tree_pos
        split: if_splits prod.splits) (metis snd_conv order_refl)+
qed

lemma allocate_round_less:
  assumes "allocated < want" "0 < len" "len \<le> min max_alloc (want - allocated)"
  shows "unat (want - (allocated + len)) < unat (want - allocated)"
proof -
  have le: "len \<le> want - allocated" using assms(3) by simp
  have "want - (allocated + len) = (want - allocated) - len" by (simp add: algebra_simps)
  then have "unat (want - (allocated + len)) = unat (want - allocated) - unat len"
    using unat_sub_le [OF le] by (simp only:)
  moreover have "0 < unat len" using assms(2) by (simp add: unat_gt_0 word_gt_0)
  moreover have "unat len \<le> unat (want - allocated)" using le by (simp add: word_le_nat_alt)
  ultimately show ?thesis by linarith
qed

text \<open>
  The loop of \<open>_allocate\<close>. An extent's length is stored in 32 bits. The loop ends because
  every round allocates at least one byte and at most what is still wanted.
\<close>

function allocate_loop ::
  "u64 \<Rightarrow> u64 \<Rightarrow> u64 \<Rightarrow> u64 \<Rightarrow> pextent list \<Rightarrow> AvlAllocator \<Rightarrow> (u64 \<times> pextent list \<times> AvlAllocator) option"
where
  "allocate_loop want unit max_alloc allocated extents st =
     (if allocated < want
      then (case allocate_single (min max_alloc (want - allocated)) unit st of
              None \<Rightarrow> None
            | Some (None, st') \<Rightarrow> Some (allocated, extents, st')
            | Some (Some (off, len), st') \<Rightarrow>
                allocate_loop want unit max_alloc (allocated + len)
                  (extents @ [\<lparr>pe_offset = off, pe_length = ucast len\<rparr>]) st')
      else Some (allocated, extents, st))"
  by pat_completeness auto

termination
proof (relation "measure (\<lambda>(want, _, _, allocated, _, _). unat (want - allocated))")
  fix want unit max_alloc allocated x2 a b a' off len
  fix st :: AvlAllocator
  assume a: "allocated < want" and s: "allocate_single (min max_alloc (want - allocated)) unit st = Some x2"
    and p: "(a, b) = x2" "a = Some a'" "(off, len) = a'"
  then have "allocate_single (min max_alloc (want - allocated)) unit st = Some (Some (off, len), b)"
    by simp
  note L = allocate_single_len [OF this]
  fix extents :: "pextent list"
  show "((want, unit, max_alloc, allocated + len, extents @ [\<lparr>pe_offset = off, pe_length = ucast len\<rparr>], b),
      (want, unit, max_alloc, allocated, extents, st))
     \<in> measure (\<lambda>(want, _, _, allocated, _, _). unat (want - allocated))"
    using allocate_round_less [OF a L] by simp
qed simp

declare allocate_loop.simps [simp del]

text \<open>
  \<open>_allocate\<close> and \<open>allocate\<close>: the bytes allocated, or \<open>-ENOSPC\<close> when there are none.
\<close>

definition avl_allocate_inner ::
  "u64 \<Rightarrow> u64 \<Rightarrow> u64 \<Rightarrow> AvlAllocator \<Rightarrow> (int \<times> pextent list \<times> AvlAllocator) option" where
  "avl_allocate_inner want unit max_alloc st =
     map_option (\<lambda>(allocated, extents, st').
         (if allocated \<noteq> 0 then sint allocated else - ENOSPC, extents, st'))
       (allocate_loop want unit max_alloc 0 [] st)"

definition avl_allocate ::
  "u64 \<Rightarrow> u64 \<Rightarrow> u64 \<Rightarrow> AvlAllocator \<Rightarrow> (int \<times> pextent list \<times> AvlAllocator) option" where
  "avl_allocate want unit max_alloc_size st =
     (if \<not> isp2 unit \<or> want mod unit \<noteq> 0 then None
      else let m = (if max_alloc_size = 0 then want else max_alloc_size);
               cap = 0xFFFFFFFF;
               m' = (if m \<ge> cap then p2align cap (av_block_size st) else m)
           in avl_allocate_inner want unit m' st)"

text \<open>\<open>_release\<close> over the intervals of the set, in order.\<close>

fun avl_release :: "(u64 \<times> u64) list \<Rightarrow> AvlAllocator \<Rightarrow> AvlAllocator option" where
  "avl_release [] st = Some st"
| "avl_release ((off, len) # rest) st =
     (if off + len \<le> av_device_size st
      then Option.bind (add_to_tree off len st) (avl_release rest)
      else None)"

definition avl_get_free :: "AvlAllocator \<Rightarrow> u64" where
  "avl_get_free st = av_num_free st"

definition avl_foreach :: "AvlAllocator \<Rightarrow> (u64 \<times> u64) list" where
  "avl_foreach st = map (\<lambda>r. (rs_start r, rs_end r - rs_start r)) (av_range_tree st)"

definition avl_init_add_free :: "u64 \<Rightarrow> u64 \<Rightarrow> AvlAllocator \<Rightarrow> AvlAllocator option" where
  "avl_init_add_free off len st =
     (if len = 0 then Some st
      else if off + len \<le> av_device_size st then add_to_tree off len st else None)"

definition avl_init_rm_free :: "u64 \<Rightarrow> u64 \<Rightarrow> AvlAllocator \<Rightarrow> AvlAllocator option" where
  "avl_init_rm_free off len st =
     (if len = 0 then Some st
      else if off + len \<le> av_device_size st then map_option snd (remove_from_tree off len st)
      else None)"

definition avl_shutdown :: "AvlAllocator \<Rightarrow> AvlAllocator" where
  "avl_shutdown st = st\<lparr>av_range_size_tree := [], av_range_tree := [], av_num_free := 0\<rparr>"

end
