(* ===== verification/Avl_Correct.thy ===== *)
theory Avl_Correct
  imports Avl_Allocator Interval_Set
begin

text \<open>
  Correctness of the AVL allocator without a cap on the number of segments, as
  \<open>Allocator::create\<close> makes it for type \<open>avl\<close>: the two trees stay consistent, ranges are
  added and removed exactly, allocation is sound and, on aligned free space, exhaustive, and the
  allocator satisfies the contract of \<open>Allocator_Spec\<close>.
\<close>

section \<open>Well-formed trees and the space they cover\<close>

text \<open>Non-empty segments inside the device, in order, with a gap between neighbours.\<close>

definition tree_ok :: "nat \<Rightarrow> range_seg list \<Rightarrow> bool" where
  "tree_ok D t \<longleftrightarrow> (\<forall>r \<in> set t. rs_start r < rs_end r \<and> unat (rs_end r) \<le> D) \<and>
     sorted_wrt (\<lambda>a b. rs_end a < rs_start b) t"

definition seg_space :: "range_seg \<Rightarrow> nat set" where
  "seg_space r = {unat (rs_start r) ..< unat (rs_end r)}"

definition cover :: "range_seg list \<Rightarrow> nat set" where
  "cover t = (\<Union>r \<in> set t. seg_space r)"

definition seg_len :: "range_seg \<Rightarrow> nat" where
  "seg_len r = unat (rs_end r) - unat (rs_start r)"

lemma cover_simps [simp]:
  "cover [] = {}" "cover (r # t) = seg_space r \<union> cover t" "cover (s @ t) = cover s \<union> cover t"
  by (auto simp: cover_def)

lemma mem_cover: "x \<in> cover t \<longleftrightarrow> (\<exists>r \<in> set t. unat (rs_start r) \<le> x \<and> x < unat (rs_end r))"
  by (auto simp: cover_def seg_space_def)

lemmas word_nat = word_less_nat_alt word_le_nat_alt

lemma tree_ok_Nil [simp]: "tree_ok D []"
  by (simp add: tree_ok_def)

lemma tree_ok_append:
  "tree_ok D (p @ q) \<longleftrightarrow> tree_ok D p \<and> tree_ok D q \<and> (\<forall>a \<in> set p. \<forall>b \<in> set q. rs_end a < rs_start b)"
  by (auto simp: tree_ok_def sorted_wrt_append)

lemma tree_ok_Cons:
  "tree_ok D (r # q) \<longleftrightarrow> rs_start r < rs_end r \<and> unat (rs_end r) \<le> D \<and> tree_ok D q \<and>
     (\<forall>b \<in> set q. rs_end r < rs_start b)"
  by (auto simp: tree_ok_def)

lemma tree_ok_distinct: "tree_ok D t \<Longrightarrow> distinct t"
proof (induction t)
  case (Cons r t)
  then have "\<forall>b \<in> set t. rs_end r < rs_start b" "rs_start r < rs_end r" "distinct t"
    by (auto simp: tree_ok_Cons)
  moreover have "r \<notin> set t"
    using calculation by (meson less_trans less_irrefl)
  ultimately show ?case by simp
qed simp

lemma rs_length_unat: "rs_start r < rs_end r \<Longrightarrow> unat (rs_length r) = seg_len r"
  by (simp add: rs_length_def seg_len_def unat_sub_le)

lemma card_cover: "tree_ok D t \<Longrightarrow> (\<Sum>r \<in> set t. seg_len r) = card (cover t)"
proof (induction t)
  case (Cons r t)
  then have r: "\<forall>b \<in> set t. rs_end r < rs_start b" "tree_ok D t" "r \<notin> set t"
    using tree_ok_distinct by (auto simp: tree_ok_Cons)
  have "seg_space r \<inter> cover t = {}"
    using r(1) by (fastforce simp: seg_space_def cover_def word_nat)
  moreover have "finite (cover t)" by (simp add: cover_def seg_space_def)
  ultimately have "card (cover (r # t)) = card (seg_space r) + card (cover t)"
    by (simp add: card_Un_disjoint seg_space_def)
  then show ?case using Cons.IH [OF r(2)] r(3) by (simp add: seg_len_def seg_space_def)
qed simp

lemma cover_bound: "tree_ok D t \<Longrightarrow> cover t \<subseteq> {..<D}"
  by (fastforce simp: tree_ok_def cover_def seg_space_def)

lemma card_cover_le: "tree_ok D t \<Longrightarrow> card (cover t) \<le> D"
  using card_mono [OF _ cover_bound, of D t] by simp

section \<open>The size tree\<close>

text \<open>What the tree operations leave alone.\<close>

definition avl_frame :: "AvlAllocator \<Rightarrow> AvlAllocator \<Rightarrow> bool" where
  "avl_frame st st' \<longleftrightarrow> av_device_size st' = av_device_size st \<and> av_block_size st' = av_block_size st \<and>
     av_range_count_cap st' = av_range_count_cap st \<and> length (av_lbas st') = length (av_lbas st)"

lemma avl_frame_refl [simp]: "avl_frame st st"
  by (simp add: avl_frame_def)

lemma avl_frame_upds [simp]:
  "avl_frame st (s\<lparr>av_range_tree := t\<rparr>) = avl_frame st s"
  "avl_frame st (size_tree_insert r s) = avl_frame st s"
  "avl_frame (st\<lparr>av_range_tree := t\<rparr>) s = avl_frame st s"
  by (simp_all add: avl_frame_def size_tree_insert_def)

lemma avl_frame_trans: "avl_frame a b \<Longrightarrow> avl_frame b c \<Longrightarrow> avl_frame a c"
  by (simp add: avl_frame_def)

definition size_ok :: "range_seg set \<Rightarrow> AvlAllocator \<Rightarrow> bool" where
  "size_ok S st \<longleftrightarrow> set (av_range_size_tree st) = S \<and> distinct (av_range_size_tree st) \<and>
     sorted (map rs_key (av_range_size_tree st)) \<and> unat (av_num_free st) = (\<Sum>r \<in> S. seg_len r)"

lemma size_ok_tree_upd [simp]: "size_ok S (st\<lparr>av_range_tree := t\<rparr>) = size_ok S st"
  by (simp add: size_ok_def)

lemma size_ok_finite: "size_ok S st \<Longrightarrow> finite S"
  by (auto simp: size_ok_def)

lemma size_tree_rm_ok:
  assumes "size_ok S st" "r \<in> S" "rs_start r < rs_end r"
  obtains st' where "range_size_tree_rm r st = Some st'" "size_ok (S - {r}) st'"
    "av_range_tree st' = av_range_tree st" "avl_frame st st'"
proof -
  let ?st = "st\<lparr>av_num_free := av_num_free st - rs_length r,
                av_range_size_tree := removeAll r (av_range_size_tree st)\<rparr>"
  have sum: "(\<Sum>r \<in> S. seg_len r) = seg_len r + (\<Sum>r \<in> S - {r}. seg_len r)"
    using assms size_ok_finite by (intro sum.remove) auto
  then have le: "rs_length r \<le> av_num_free st"
    using assms by (simp add: size_ok_def word_nat rs_length_unat)
  then have "range_size_tree_rm r st = Some ?st" by (simp add: range_size_tree_rm_def)
  moreover have "size_ok (S - {r}) ?st"
    using assms sum unat_sub_le [OF le]
    by (auto simp: size_ok_def rs_length_unat distinct_removeAll removeAll_filter_not_eq
        intro: sorted_filter)
  ultimately show thesis by (rule that) (simp_all add: avl_frame_def)
qed

lemma size_tree_insert_ok:
  assumes "size_ok S st" "r \<notin> S" "rs_start r < rs_end r" "(\<Sum>x \<in> insert r S. seg_len x) < 2 ^ 64"
  shows "size_ok (insert r S) (size_tree_insert r st)"
proof -
  have "unat (av_num_free st) + seg_len r < 2 ^ 64"
    using assms size_ok_finite [OF assms(1)] by (simp add: size_ok_def)
  then have "unat (av_num_free st + rs_length r) = unat (av_num_free st) + seg_len r"
    using assms(3) by (subst unat_add_nowrap) (simp_all add: rs_length_unat)
  then show ?thesis
    using assms size_ok_finite [OF assms(1)]
    by (simp add: size_ok_def size_tree_insert_def set_insort_key distinct_insort sorted_insort_key)
qed


text \<open>Without a cap on the number of segments every insertion succeeds.\<close>

lemma uncapped_insert:
  assumes "av_range_count_cap st = 0"
  shows "try_insert_range s e (Some i) st = Some (True, size_tree_insert (seg s e)
           (st\<lparr>av_range_tree := take i (av_range_tree st) @ seg s e # drop i (av_range_tree st)\<rparr>))"
    and "range_size_tree_try_insert r st = Some (size_tree_insert r st)"
  using assms by (simp_all add: try_insert_range_def range_size_tree_try_insert_def)

lemma tree_size_tree_insert [simp]: "av_range_tree (size_tree_insert r st) = av_range_tree st"
  by (simp add: size_tree_insert_def)

lemma size_tree_insert_tree_upd [simp]:
  "(size_tree_insert r st)\<lparr>av_range_tree := t\<rparr> = size_tree_insert r (st\<lparr>av_range_tree := t\<rparr>)"
  by (simp add: size_tree_insert_def)

section \<open>The invariant\<close>

definition avl_inv :: "AvlAllocator \<Rightarrow> bool" where
  "avl_inv st \<longleftrightarrow> av_range_count_cap st = 0 \<and> unat (av_device_size st) < 2 ^ 63 \<and>
     length (av_lbas st) = 64 \<and>
     tree_ok (unat (av_device_size st)) (av_range_tree st) \<and> size_ok (set (av_range_tree st)) st"

definition free_space :: "AvlAllocator \<Rightarrow> nat set" where
  "free_space st = cover (av_range_tree st)"

lemma sum_le_u64:
  assumes "tree_ok D t" "D < 2 ^ 63" "S \<subseteq> set t"
  shows "(\<Sum>x \<in> S. seg_len x) < 2 ^ 64"
proof -
  have "(\<Sum>x \<in> S. seg_len x) \<le> (\<Sum>x \<in> set t. seg_len x)"
    using assms(3) by (intro sum_mono2) auto
  also have "\<dots> \<le> D" using card_cover [OF assms(1)] card_cover_le [OF assms(1)] by simp
  finally show ?thesis using assms(2) by simp
qed

text \<open>
  The step all updates share: one segment of the size tree is replaced. \<open>t'\<close> is the tree
  afterwards.
\<close>

lemma tree_ok_notin: "tree_ok D (p @ r # q) \<Longrightarrow> r \<notin> set p \<union> set q"
  by (drule tree_ok_distinct) auto

lemma avl_inv_insert:
  assumes "avl_inv st" "avl_frame st st1" "size_ok (set p \<union> set q) st1"
    "tree_ok (unat (av_device_size st)) (p @ r # q)"
  defines "st' \<equiv> size_tree_insert r (st1\<lparr>av_range_tree := p @ r # q\<rparr>)"
  shows "avl_inv st' \<and> avl_frame st st' \<and> free_space st' = cover (p @ r # q)"
proof -
  have "rs_start r < rs_end r" using assms(4) by (simp add: tree_ok_append tree_ok_Cons)
  moreover have "r \<notin> set p \<union> set q" by (rule tree_ok_notin [OF assms(4)])
  moreover have "(\<Sum>x \<in> insert r (set p \<union> set q). seg_len x) < 2 ^ 64"
    using assms by (intro sum_le_u64 [OF assms(4)]) (auto simp: avl_inv_def)
  ultimately have "size_ok (insert r (set p \<union> set q)) st'"
    using assms by (simp add: size_tree_insert_ok st'_def)
  then have "size_ok (set (p @ r # q)) st'" by simp
  with assms show ?thesis
    by (simp add: avl_inv_def avl_frame_def free_space_def size_tree_insert_def)
qed

lemma avl_inv_get_free: "avl_inv st \<Longrightarrow> unat (avl_get_free st) = card (free_space st)"
  using card_cover by (auto simp: avl_inv_def size_ok_def avl_get_free_def free_space_def)

section \<open>Adding a range\<close>

lemma take_diff_dropWhile: "take (length t - length (dropWhile P t)) t = takeWhile P t"
  by (metis append_eq_conv_conj length_append takeWhile_dropWhile_id add_diff_cancel_right')

lemma drop_length_takeWhile: "drop (length (takeWhile P t)) t = dropWhile P t"
  by (metis append_eq_conv_conj takeWhile_dropWhile_id)

lemma take_length_takeWhile: "take (length (takeWhile P t)) t = takeWhile P t"
  by (metis append_eq_conv_conj takeWhile_dropWhile_id)

text \<open>The segments left and right of a range that is not covered.\<close>

lemma split_around:
  assumes t: "tree_ok D t" and lt: "s < e" and dis: "{unat s ..< unat e} \<inter> cover t = {}"
  defines "P \<equiv> \<lambda>x. \<not> rs_before (seg s e) x"
  shows "\<forall>x \<in> set (takeWhile P t). rs_end x \<le> s" "\<forall>x \<in> set (dropWhile P t). e \<le> rs_start x"
proof -
  show "\<forall>x \<in> set (takeWhile P t). rs_end x \<le> s"
  proof
    fix x assume x: "x \<in> set (takeWhile P t)"
    then have lt': "rs_start x < e" using set_takeWhileD [OF x] by (auto simp: P_def rs_before_def)
    have xt: "x \<in> set t" using set_takeWhileD [OF x] by simp
    have ne: "rs_start x < rs_end x" using t xt by (auto simp: tree_ok_def)
    show "rs_end x \<le> s"
    proof (rule ccontr)
      assume "\<not> rs_end x \<le> s"
      then have "max (unat s) (unat (rs_start x)) \<in> {unat s ..< unat e} \<inter> cover t"
        using xt lt lt' ne by (auto simp: mem_cover word_nat intro!: bexI [of _ x])
      with dis show False by simp
    qed
  qed
  show "\<forall>x \<in> set (dropWhile P t). e \<le> rs_start x"
  proof (cases "dropWhile P t")
    case Nil
    then show ?thesis by (simp only: list.set ball_empty)
  next
    case (Cons a q)
    have "tree_ok D (takeWhile P t @ a # q)" using t Cons by (metis takeWhile_dropWhile_id)
    then have q: "\<forall>b \<in> set q. rs_end a < rs_start b" "rs_start a < rs_end a"
      by (auto simp: tree_ok_append tree_ok_Cons)
    have "\<not> P a" using Cons by (metis dropWhile_eq_Cons_conv)
    then have "e \<le> rs_start a" by (simp add: P_def rs_before_def)
    with q Cons show ?thesis by (auto intro: less_imp_le less_le_trans order_trans)
  qed
qed


lemma seg_space_seg [simp]: "seg_space (seg s e) = {unat s ..< unat e}"
  by (simp add: seg_space_def)

lemma cover_merge:
  "\<lbrakk> rs_start a \<le> rs_end a; rs_end a = rs_start b; rs_start b \<le> rs_end b \<rbrakk> \<Longrightarrow>
   {unat (rs_start a) ..< unat (rs_end b)} = seg_space a \<union> seg_space b"
  by (auto simp: seg_space_def word_nat)

lemma ivl_merge: "a \<le> b \<Longrightarrow> b \<le> (c::nat) \<Longrightarrow> {a ..< b} \<union> {b ..< c} = {a ..< c}"
  by (rule ivl_disj_un_two(3))

text \<open>The four shapes of the tree after an insertion between \<open>p\<close> and \<open>q\<close>.\<close>

lemma tree_merge_both:
  assumes "tree_ok D ((p @ [b]) @ a # q)" "rs_end b < rs_start a"
  shows "tree_ok D (p @ seg (rs_start b) (rs_end a) # q)"
    "cover (p @ seg (rs_start b) (rs_end a) # q) =
       cover ((p @ [b]) @ a # q) \<union> {unat (rs_end b) ..< unat (rs_start a)}"
proof -
  have o: "rs_start b < rs_end b" "rs_start a < rs_end a" using assms by (auto simp: tree_ok_append tree_ok_Cons)
  then show "tree_ok D (p @ seg (rs_start b) (rs_end a) # q)"
    using assms by (auto simp: tree_ok_append tree_ok_Cons)
  show "cover (p @ seg (rs_start b) (rs_end a) # q) =
       cover ((p @ [b]) @ a # q) \<union> {unat (rs_end b) ..< unat (rs_start a)}"
    using o assms(2) by (auto simp: seg_space_def word_nat)
qed

lemma tree_merge_before:
  assumes "tree_ok D ((p @ [b]) @ q)" "rs_end b < e" "unat e \<le> D" "\<forall>x \<in> set q. e < rs_start x"
  shows "tree_ok D (p @ seg (rs_start b) e # q)"
    "cover (p @ seg (rs_start b) e # q) = cover ((p @ [b]) @ q) \<union> {unat (rs_end b) ..< unat e}"
  using assms by (auto simp: tree_ok_append tree_ok_Cons seg_space_def word_nat)

lemma tree_merge_after:
  assumes "tree_ok D (p @ a # q)" "s < rs_start a" "\<forall>x \<in> set p. rs_end x < s"
  shows "tree_ok D (p @ seg s (rs_end a) # q)"
    "cover (p @ seg s (rs_end a) # q) = cover (p @ a # q) \<union> {unat s ..< unat (rs_start a)}"
  using assms by (auto simp: tree_ok_append tree_ok_Cons seg_space_def word_nat)

lemma tree_insert_between:
  assumes "tree_ok D (p @ q)" "s < e" "unat e \<le> D" "\<forall>x \<in> set p. rs_end x < s" "\<forall>x \<in> set q. e < rs_start x"
  shows "tree_ok D (p @ seg s e # q)" "cover (p @ seg s e # q) = cover (p @ q) \<union> {unat s ..< unat e}"
  using assms by (auto simp: tree_ok_append tree_ok_Cons)

text \<open>Where no neighbour touches the range, the neighbours are strictly apart.\<close>

lemma strict_left:
  assumes "tree_ok D (pre @ post)" "\<forall>x \<in> set pre. rs_end x \<le> s" "pre = [] \<or> rs_end (last pre) \<noteq> s"
  shows "\<forall>x \<in> set pre. rs_end x < s"
proof (cases pre rule: rev_cases)
  case (snoc p b)
  then have "rs_end b < s" "\<forall>x \<in> set p. rs_end x < rs_start b" "rs_start b < rs_end b"
    using assms by (auto simp: tree_ok_append tree_ok_Cons)
  with snoc show ?thesis by (auto intro: less_trans)
qed simp

lemma strict_right:
  assumes "tree_ok D (pre @ post)" "\<forall>x \<in> set post. e \<le> rs_start x" "post = [] \<or> rs_start (hd post) \<noteq> e"
  shows "\<forall>x \<in> set post. e < rs_start x"
proof (cases post)
  case (Cons a q)
  then have "e < rs_start a" "\<forall>x \<in> set q. rs_end a < rs_start x" "rs_start a < rs_end a"
    using assms by (auto simp: tree_ok_append tree_ok_Cons)
  with Cons show ?thesis by (auto intro: less_trans)
qed simp

text \<open>\<open>_add_to_tree\<close> once the neighbours are found.\<close>

definition add_between ::
  "u64 \<Rightarrow> u64 \<Rightarrow> range_seg list \<Rightarrow> range_seg list \<Rightarrow> AvlAllocator \<Rightarrow> AvlAllocator option" where
  "add_between s e pre post st =
     (if (pre \<noteq> [] \<and> rs_end (last pre) = s) \<and> post \<noteq> [] \<and> rs_start (hd post) = e then do {
        st1 \<leftarrow> range_size_tree_rm (last pre) st;
        st2 \<leftarrow> range_size_tree_rm (hd post) st1;
        let r = seg (rs_start (last pre)) (rs_end (hd post));
        range_size_tree_try_insert r (st2\<lparr>av_range_tree := butlast pre @ r # tl post\<rparr>)
      }
      else if pre \<noteq> [] \<and> rs_end (last pre) = s then do {
        st1 \<leftarrow> range_size_tree_rm (last pre) st;
        let r = seg (rs_start (last pre)) e;
        range_size_tree_try_insert r (st1\<lparr>av_range_tree := butlast pre @ r # post\<rparr>)
      }
      else if post \<noteq> [] \<and> rs_start (hd post) = e then do {
        st1 \<leftarrow> range_size_tree_rm (hd post) st;
        let r = seg s (rs_end (hd post));
        range_size_tree_try_insert r (st1\<lparr>av_range_tree := pre @ r # tl post\<rparr>)
      }
      else map_option snd (try_insert_range s e (Some (length pre)) st))"

lemma add_between_ok:
  assumes inv: "avl_inv st" and t: "av_range_tree st = pre @ post" and lt: "s < e"
    and D: "unat e \<le> unat (av_device_size st)"
    and sides: "\<forall>x \<in> set pre. rs_end x \<le> s" "\<forall>x \<in> set post. e \<le> rs_start x"
  shows "\<exists>st'. add_between s e pre post st = Some st' \<and> avl_inv st' \<and> avl_frame st st' \<and>
    free_space st' = cover (pre @ post) \<union> {unat s ..< unat e}"
proof -
  let ?D = "unat (av_device_size st)"
  let ?mb = "pre \<noteq> [] \<and> rs_end (last pre) = s" and ?ma = "post \<noteq> [] \<and> rs_start (hd post) = e"
  have ok: "tree_ok ?D (pre @ post)" and sok: "size_ok (set pre \<union> set post) st" and cap: "av_range_count_cap st = 0"
    using inv t by (simp_all add: avl_inv_def)
  have ne: "\<forall>x \<in> set pre \<union> set post. rs_start x < rs_end x" using ok by (auto simp: tree_ok_def)
  have dist: "distinct (pre @ post)" by (rule tree_ok_distinct [OF ok])
  note L = strict_left [OF ok sides(1)] and R = strict_right [OF ok sides(2)]
  show ?thesis
  proof (cases ?mb; cases ?ma)
    assume mb: ?mb and ma: ?ma
    obtain p b where pre: "pre = p @ [b]" "rs_end b = s" using mb by (cases pre rule: rev_cases) auto
    obtain a q where post: "post = a # q" "rs_start a = e" using ma by (cases post) auto
    obtain st1 where st1: "range_size_tree_rm b st = Some st1" "size_ok (set pre \<union> set post - {b}) st1"
      "avl_frame st st1" by (rule size_tree_rm_ok [OF sok, of b]) (use pre ne in auto)
    obtain st2 where st2: "range_size_tree_rm a st1 = Some st2" "size_ok (set pre \<union> set post - {b} - {a}) st2"
      "avl_frame st1 st2" by (rule size_tree_rm_ok [OF st1(2), of a]) (use pre post ne dist in auto)
    have S: "set pre \<union> set post - {b} - {a} = set p \<union> set q" using pre post dist by auto
    have "av_range_count_cap st2 = 0" using st1 st2 cap by (simp add: avl_frame_def)
    then show ?thesis
      using avl_inv_insert [OF inv avl_frame_trans [OF st1(3) st2(3)] st2(2) [unfolded S]]
        tree_merge_both [OF ok [unfolded pre post]] pre post lt st1(1) st2(1)
      by (simp add: add_between_def uncapped_insert Let_def)
  next
    assume mb: ?mb and ma: "\<not> ?ma"
    obtain p b where pre: "pre = p @ [b]" "rs_end b = s" using mb by (cases pre rule: rev_cases) auto
    obtain st1 where st1: "range_size_tree_rm b st = Some st1" "size_ok (set pre \<union> set post - {b}) st1"
      "avl_frame st st1" by (rule size_tree_rm_ok [OF sok, of b]) (use pre ne in auto)
    have S: "set pre \<union> set post - {b} = set p \<union> set post" using pre dist by auto
    have "av_range_count_cap st1 = 0" using st1 cap by (simp add: avl_frame_def)
    then have "add_between s e pre post st =
        Some (size_tree_insert (seg (rs_start b) e) (st1\<lparr>av_range_tree := p @ seg (rs_start b) e # post\<rparr>))"
      using pre st1(1) ma by (auto simp: add_between_def uncapped_insert Let_def)
    moreover have "\<forall>x \<in> set post. e < rs_start x" using R ma by blast
    ultimately show ?thesis
      using avl_inv_insert [OF inv st1(3) st1(2) [unfolded S]]
        tree_merge_before [OF ok [unfolded pre(1)], of e] pre lt D by simp
  next
    assume mb: "\<not> ?mb" and ma: ?ma
    obtain a q where post: "post = a # q" "rs_start a = e" using ma by (cases post) auto
    obtain st1 where st1: "range_size_tree_rm a st = Some st1" "size_ok (set pre \<union> set post - {a}) st1"
      "avl_frame st st1" by (rule size_tree_rm_ok [OF sok, of a]) (use post ne in auto)
    have S: "set pre \<union> set post - {a} = set pre \<union> set q" using post dist by auto
    have "av_range_count_cap st1 = 0" using st1 cap by (simp add: avl_frame_def)
    then have "add_between s e pre post st =
        Some (size_tree_insert (seg s (rs_end a)) (st1\<lparr>av_range_tree := pre @ seg s (rs_end a) # q\<rparr>))"
      using post st1(1) mb by (auto simp: add_between_def uncapped_insert Let_def)
    moreover have "\<forall>x \<in> set pre. rs_end x < s" using L mb by blast
    ultimately show ?thesis
      using avl_inv_insert [OF inv st1(3) st1(2) [unfolded S]]
        tree_merge_after [OF ok [unfolded post(1)], of s] post lt by simp
  next
    assume mb: "\<not> ?mb" and ma: "\<not> ?ma"
    have "add_between s e pre post st =
        Some (size_tree_insert (seg s e) (st\<lparr>av_range_tree := pre @ seg s e # post\<rparr>))"
      using t cap mb ma by (auto simp: add_between_def uncapped_insert)
    moreover have "\<forall>x \<in> set pre. rs_end x < s" "\<forall>x \<in> set post. e < rs_start x" using L R mb ma by blast+
    ultimately show ?thesis
      using avl_inv_insert [OF inv avl_frame_refl sok] tree_insert_between [OF ok lt D] by simp
  qed
qed

text \<open>\<open>_add_to_tree\<close> on a range that is not free yet.\<close>

lemma add_to_tree_ok:
  assumes inv: "avl_inv st" and sz: "sz \<noteq> 0" and fit: "unat off + unat sz \<le> unat (av_device_size st)"
    and dis: "{unat off ..< unat off + unat sz} \<inter> free_space st = {}"
  shows "\<exists>st'. add_to_tree off sz st = Some st' \<and> avl_inv st' \<and> avl_frame st st' \<and>
    free_space st' = free_space st \<union> {unat off ..< unat off + unat sz}"
proof -
  let ?t = "av_range_tree st" and ?D = "unat (av_device_size st)" and ?e = "off + sz"
  define P where "P = (\<lambda>x. \<not> rs_before (seg off ?e) x)"
  define pre where "pre = takeWhile P ?t"
  define post where "post = dropWhile P ?t"
  have t: "?t = pre @ post" by (simp add: pre_def post_def)
  have ok: "tree_ok ?D (pre @ post)" and sok: "size_ok (set pre \<union> set post) st" and cap: "av_range_count_cap st = 0"
    using inv t by (simp_all add: avl_inv_def)
  have e: "unat ?e = unat off + unat sz"
    using fit inv by (intro unat_add_nowrap) (simp add: avl_inv_def)
  have lt: "off < ?e" using sz e by (simp add: word_nat unat_gt_0)
  have sides: "\<forall>x \<in> set pre. rs_end x \<le> off" "\<forall>x \<in> set post. ?e \<le> rs_start x"
    using split_around [of ?D ?t off ?e] inv lt dis e
    by (simp_all add: avl_inv_def free_space_def pre_def post_def P_def)
  have "tree_upper_bound ?t (seg off ?e) = post" "take (length ?t - length post) ?t = pre"
    by (simp_all add: tree_upper_bound_def post_def pre_def P_def take_diff_dropWhile)
  then have unf: "add_to_tree off sz st = add_between off ?e pre post st"
    using sz by (simp only: add_to_tree_def add_between_def Let_def if_False conj_assoc)
  have "\<exists>st'. add_between off ?e pre post st = Some st' \<and> avl_inv st' \<and> avl_frame st st' \<and>
      free_space st' = cover (pre @ post) \<union> {unat off ..< unat ?e}"
    using inv t lt sides e fit by (intro add_between_ok) simp_all
  then show ?thesis using unf e t by (simp add: free_space_def)
qed


section \<open>Removing a range\<close>

text \<open>A range is free iff the segment found by \<open>range_tree_.find\<close> contains it.\<close>

lemma ivl_covered_iff:
  assumes t: "tree_ok D (pre @ post)" and lt: "s < e" and pre: "\<forall>x \<in> set pre. rs_end x \<le> s"
    and hd: "post \<noteq> [] \<Longrightarrow> s < rs_end (hd post)"
  shows "{unat s ..< unat e} \<subseteq> cover (pre @ post) \<longleftrightarrow>
    post \<noteq> [] \<and> rs_start (hd post) \<le> s \<and> e \<le> rs_end (hd post)"
proof (cases post)
  case Nil
  have "unat s \<notin> cover pre" using pre by (auto simp: mem_cover word_nat)
  then show ?thesis using Nil lt by (auto simp: word_nat subset_iff)
next
  case (Cons x q)
  have x: "rs_start x < rs_end x" "\<forall>y \<in> set q. rs_end x < rs_start y" "\<forall>y \<in> set pre. rs_end y < rs_start x"
    using t Cons by (auto simp: tree_ok_append tree_ok_Cons)
  have sx: "rs_start x \<le> s" if mem: "unat s \<in> cover (pre @ post)"
  proof -
    obtain r where r: "r \<in> set pre \<union> set post" "rs_start r \<le> s" "s < rs_end r"
      using mem by (auto simp: mem_cover word_nat simp del: cover_simps)
    moreover have "r \<notin> set pre" using r pre by (auto simp: not_le [symmetric])
    moreover have "r \<notin> set q"
    proof
      assume "r \<in> set q"
      then have "rs_end x < rs_start r" using x by auto
      with r(2) hd Cons show False by (simp add: word_nat)
    qed
    ultimately show ?thesis using Cons by auto
  qed
  have ex: "unat (rs_end x) \<notin> cover (pre @ post)"
  proof
    assume "unat (rs_end x) \<in> cover (pre @ post)"
    then obtain r where r: "r \<in> set pre \<union> set post" "rs_start r \<le> rs_end x" "rs_end x < rs_end r"
      by (auto simp: mem_cover word_nat simp del: cover_simps)
    have "r \<notin> set q" using r(2) x(2) by (meson not_le)
    moreover have "r \<notin> set pre" using r(3) x(1,3) by (meson less_trans less_asym)
    ultimately show False using r Cons by auto
  qed
  show ?thesis
  proof
    assume sub: "{unat s ..< unat e} \<subseteq> cover (pre @ post)"
    then have "unat s \<in> cover (pre @ post)" using lt by (auto simp: word_nat)
    moreover have "\<not> rs_end x < e"
    proof
      assume "rs_end x < e"
      then have "unat (rs_end x) \<in> {unat s ..< unat e}" using hd Cons by (simp add: word_nat)
      with sub ex show False by blast
    qed
    ultimately show "post \<noteq> [] \<and> rs_start (hd post) \<le> s \<and> e \<le> rs_end (hd post)"
      using sx Cons by auto
  next
    assume "post \<noteq> [] \<and> rs_start (hd post) \<le> s \<and> e \<le> rs_end (hd post)"
    then show "{unat s ..< unat e} \<subseteq> cover (pre @ post)"
      using Cons by (auto simp: seg_space_def word_nat)
  qed
qed

text \<open>The shapes of the tree after taking \<open>[s, e)\<close> out of segment \<open>x\<close>.\<close>

lemma tree_cut:
  assumes "tree_ok D (p @ x # q)" "s < e" "rs_start x \<le> s" "e \<le> rs_end x"
  shows "rs_start x < s \<Longrightarrow> e < rs_end x \<Longrightarrow> tree_ok D (p @ seg (rs_start x) s # seg e (rs_end x) # q)"
    "rs_start x < s \<Longrightarrow> tree_ok D (p @ seg (rs_start x) s # q)"
    "e < rs_end x \<Longrightarrow> tree_ok D (p @ seg e (rs_end x) # q)"
    "tree_ok D (p @ q)"
  using assms by (fastforce simp: tree_ok_append tree_ok_Cons word_nat)+

lemma cover_cut:
  assumes "tree_ok D (p @ x # q)" "s < e" "rs_start x \<le> s" "e \<le> rs_end x"
  shows "cover (p @ x # q) - {unat s ..< unat e} =
    cover p \<union> {unat (rs_start x) ..< unat s} \<union> {unat e ..< unat (rs_end x)} \<union> cover q"
proof -
  have "\<forall>y \<in> set q. rs_end x < rs_start y" "\<forall>y \<in> set p. rs_end y < rs_start x" "rs_start x < rs_end x"
    using assms(1) by (auto simp: tree_ok_append tree_ok_Cons)
  then have "cover q \<inter> {unat s ..< unat e} = {}" "cover p \<inter> {unat s ..< unat e} = {}"
    using assms(2-4) by (fastforce simp: mem_cover word_nat)+
  moreover have "seg_space x - {unat s ..< unat e} = {unat (rs_start x) ..< unat s} \<union> {unat e ..< unat (rs_end x)}"
    using assms(2-4) by (auto simp: seg_space_def word_nat)
  ultimately show ?thesis by auto
qed

lemma process_range_removal_ok:
  assumes inv: "avl_inv st" and t: "av_range_tree st = p @ x # q" and lt: "s < e"
    and x: "rs_start x \<le> s" "e \<le> rs_end x"
  shows "\<exists>st'. process_range_removal s e (length p) st = Some st' \<and> avl_inv st' \<and> avl_frame st st' \<and>
    free_space st' = cover (p @ x # q) - {unat s ..< unat e}"
proof -
  let ?D = "unat (av_device_size st)"
  have ok: "tree_ok ?D (p @ x # q)" and sok: "size_ok (set (p @ x # q)) st" and cap: "av_range_count_cap st = 0"
    using inv t by (simp_all add: avl_inv_def)
  have xlt: "rs_start x < rs_end x" using ok by (simp add: tree_ok_append tree_ok_Cons)
  obtain st1 where st1: "range_size_tree_rm x st = Some st1" "size_ok (set (p @ x # q) - {x}) st1"
    "av_range_tree st1 = p @ x # q" "avl_frame st st1"
    using size_tree_rm_ok [OF sok _ xlt] t by auto
  have S: "set (p @ x # q) - {x} = set p \<union> set q" using tree_ok_distinct [OF ok] by auto
  have s1: "size_ok (set p \<union> set q) st1" using st1(2) S by simp
  have cap1: "av_range_count_cap st1 = 0" using st1(4) cap by (simp add: avl_frame_def)
  have nth: "av_range_tree st ! length p = x" using t by simp
  note cut = tree_cut [OF ok lt x] and cc = cover_cut [OF ok lt x]
  let ?l = "seg (rs_start x) s" and ?r = "seg e (rs_end x)"
  show ?thesis
  proof (cases "rs_start x = s"; cases "rs_end x = e")
    assume c: "rs_start x = s" "rs_end x = e"
    let ?st = "st1\<lparr>av_range_tree := p @ q\<rparr>"
    have "process_range_removal s e (length p) st = Some ?st"
      using c st1 nth by (simp add: process_range_removal_def)
    moreover have "avl_inv ?st" using inv st1(4) s1 cut(4) by (simp add: avl_inv_def avl_frame_def)
    ultimately show ?thesis using st1(4) cc c by (simp add: free_space_def)
  next
    assume c: "rs_start x = s" "rs_end x \<noteq> e"
    have "process_range_removal s e (length p) st =
        Some (size_tree_insert ?r (st1\<lparr>av_range_tree := p @ ?r # q\<rparr>))"
      using c st1 nth cap1 by (simp add: process_range_removal_def uncapped_insert Let_def)
    then show ?thesis using avl_inv_insert [OF inv st1(4) s1 cut(3)] cc c x by auto
  next
    assume c: "rs_start x \<noteq> s" "rs_end x = e"
    have "process_range_removal s e (length p) st =
        Some (size_tree_insert ?l (st1\<lparr>av_range_tree := p @ ?l # q\<rparr>))"
      using c st1 nth cap1 by (simp add: process_range_removal_def uncapped_insert Let_def)
    then show ?thesis using avl_inv_insert [OF inv st1(4) s1 cut(2)] cc c x by auto
  next
    assume c: "rs_start x \<noteq> s" "rs_end x \<noteq> e"
    let ?st2 = "size_tree_insert ?r (st1\<lparr>av_range_tree := p @ ?l # ?r # q\<rparr>)"
    have "process_range_removal s e (length p) st = Some (size_tree_insert ?l ?st2)"
      using c st1 nth cap1 by (simp add: process_range_removal_def uncapped_insert Let_def size_tree_insert_def)
    moreover have ok2: "tree_ok ?D (p @ ?l # ?r # q)" using cut(1) c x by auto
    have "size_ok (insert ?r (set p \<union> set q)) ?st2"
    proof (rule size_tree_insert_ok)
      show "?r \<notin> set p \<union> set q" using cut(3) c x tree_ok_notin [of ?D p ?r q] by auto
      show "(\<Sum>y \<in> insert ?r (set p \<union> set q). seg_len y) < 2 ^ 64"
        using inv by (intro sum_le_u64 [OF ok2]) (auto simp: avl_inv_def)
    qed (use s1 c x in auto)
    then have "size_ok (set p \<union> set (?r # q)) ?st2" by simp
    moreover have "avl_frame st ?st2" using st1(4) by simp
    ultimately show ?thesis
      using avl_inv_insert [OF inv, of ?st2 p "?r # q" ?l] ok2 cc by (simp add: Un_assoc)
  qed
qed


lemma num_free_ge:
  assumes "avl_inv st" "x \<in> set (av_range_tree st)"
  shows "seg_len x \<le> unat (av_num_free st)"
  using assms member_le_sum [of x "set (av_range_tree st)" seg_len]
  by (auto simp: avl_inv_def size_ok_def)

lemma remove_from_tree_ok:
  assumes inv: "avl_inv st" and sz: "sz \<noteq> 0" and nw: "unat off + unat sz < 2 ^ 64"
  defines "I \<equiv> {unat off ..< unat off + unat sz}"
  shows "\<exists>b st'. remove_from_tree off sz st = Some (b, st') \<and> (b \<longleftrightarrow> I \<subseteq> free_space st) \<and>
    avl_inv st' \<and> avl_frame st st' \<and> free_space st' = (if b then free_space st - I else free_space st) \<and>
    (\<not> b \<longrightarrow> st' = st)"
proof -
  let ?t = "av_range_tree st" and ?D = "unat (av_device_size st)" and ?e = "off + sz"
  define P where "P = (\<lambda>x. rs_before x (seg off ?e))"
  define pre where "pre = takeWhile P ?t"
  define post where "post = dropWhile P ?t"
  have t: "?t = pre @ post" by (simp add: pre_def post_def)
  have ok: "tree_ok ?D (pre @ post)" using inv t by (simp add: avl_inv_def)
  have e: "unat ?e = unat off + unat sz" using nw by (intro unat_add_nowrap) simp
  then have lt: "off < ?e" and I: "I = {unat off ..< unat ?e}" using sz by (simp_all add: I_def word_nat unat_gt_0)
  have pre: "\<forall>x \<in> set pre. rs_end x \<le> off"
    by (auto simp: pre_def P_def rs_before_def dest: set_takeWhileD)
  have hd: "off < rs_end (hd post)" if "post \<noteq> []"
    using that hd_dropWhile [of P ?t] by (simp add: post_def P_def rs_before_def not_le)
  note iff = ivl_covered_iff [OF ok lt pre hd, folded I t free_space_def]
  have unf: "tree_lower_bound ?t (seg off ?e) = post" by (simp add: tree_lower_bound_def post_def P_def)
  show ?thesis
  proof (cases "I \<subseteq> free_space st")
    case False
    then have "remove_from_tree off sz st = Some (False, st)"
      using sz iff unf by (auto simp: remove_from_tree_def Let_def not_le split: list.splits)
    then show ?thesis using False inv by auto
  next
    case True
    then obtain x q where x: "post = x # q" "rs_start x \<le> off" "?e \<le> rs_end x"
      using iff by (cases post) auto
    have "seg_len x \<le> unat (av_num_free st)" using inv t x(1) by (intro num_free_ge) auto
    then have "sz \<le> av_num_free st" using x e by (simp add: seg_len_def word_nat)
    moreover have "length ?t - length post = length pre" by (simp add: t)
    moreover have "\<not> rs_before (seg off ?e) x" using x lt by (simp add: rs_before_def word_nat)
    moreover have "\<not> off < rs_start x" "\<not> rs_end x < ?e" using x by (simp_all add: not_less)
    ultimately have "remove_from_tree off sz st =
        map_option (Pair True) (process_range_removal off ?e (length pre) st)"
      using sz unf x(1) by (simp add: remove_from_tree_def Let_def)
    then show ?thesis
      using process_range_removal_ok [OF inv t [unfolded x(1)] lt x(2,3)] True x(1) t I
      by (auto simp: free_space_def)
  qed
qed


section \<open>Allocation\<close>

text \<open>A block the searches may return.\<close>

definition block_in :: "AvlAllocator \<Rightarrow> u64 \<Rightarrow> u64 \<Rightarrow> u64 \<Rightarrow> bool" where
  "block_in st sz align off \<longleftrightarrow>
     (\<exists>r \<in> set (av_range_tree st). off = p2roundup (rs_start r) align \<and> off + sz \<le> rs_end r)"

lemma pick_after_loop1_found:
  "pick_after_loop1 first sz align cnt sb rs = Found off \<Longrightarrow>
   \<exists>r \<in> set rs. off = p2roundup (rs_start r) align \<and> off + sz \<le> rs_end r"
  by (induction rs arbitrary: cnt sb) (auto simp: Let_def split: if_splits)

lemma pick_after_loop2_found:
  "pick_after_loop2 first sz align cnt sb rs = Found off \<Longrightarrow>
   \<exists>r \<in> set rs. off = p2roundup (rs_start r) align \<and> off + sz \<le> rs_end r"
  by (induction rs arbitrary: cnt sb) (auto simp: Let_def split: if_splits)

lemma pick_fits_loop_found:
  "pick_fits_loop sz align cnt rs = off \<Longrightarrow> off \<noteq> NO_BLOCK \<Longrightarrow>
   \<exists>r \<in> set rs. off = p2roundup (rs_start r) align \<and> off + sz \<le> rs_end r"
  by (induction rs arbitrary: cnt) (auto simp: Let_def split: if_splits)

lemma pick_block_after_found:
  assumes "fst (pick_block_after st cursor sz align) = off" "off \<noteq> NO_BLOCK"
  shows "block_in st sz align off"
proof -
  have sub: "set (tree_lower_bound (av_range_tree st) k) \<subseteq> set (av_range_tree st)" for k
    by (auto simp: tree_lower_bound_def dest: set_dropWhileD)
  show ?thesis
    using assms sub unfolding pick_block_after_def block_in_def Let_def
    by (auto split: pick.splits if_splits dest!: pick_after_loop1_found pick_after_loop2_found)
      (blast dest: in_set_takeD)+
qed

lemma pick_block_fits_found:
  assumes "avl_inv st" "pick_block_fits st sz align = off" "off \<noteq> NO_BLOCK"
  shows "block_in st sz align off"
  using pick_fits_loop_found [OF assms(2) [unfolded pick_block_fits_def] assms(3)] assms(1)
  by (auto simp: block_in_def avl_inv_def size_ok_def dest!: set_dropWhileD)

lemma block_in_free:
  assumes inv: "avl_inv st" and b: "block_in st sz (2 ^ k) off" and k: "k < 64" and sz: "unat sz < 2 ^ 32"
  shows "{unat off ..< unat off + unat sz} \<subseteq> free_space st" "2 ^ k dvd unat off" "unat off \<le> 2 ^ 63"
proof -
  obtain r where r: "r \<in> set (av_range_tree st)" "off = p2roundup (rs_start r) (2 ^ k)" "off + sz \<le> rs_end r"
    using b by (auto simp: block_in_def)
  have "unat (rs_start r) < 2 ^ 63" using r(1) inv by (auto simp: avl_inv_def tree_ok_def word_nat dest!: bspec)
  moreover have "(2::nat) ^ k \<le> 2 ^ 63" using k by (intro power_increasing) auto
  ultimately have "unat (rs_start r) + 2 ^ k \<le> 2 ^ 64" by simp
  note p = p2roundup_bounds [OF k this, folded r(2)]
  show dvd: "2 ^ k dvd unat off" by (rule p(3))
  show le: "unat off \<le> 2 ^ 63"
  proof (rule ccontr)
    assume gt: "\<not> unat off \<le> 2 ^ 63"
    have "(2::nat) ^ k dvd 2 ^ 63" using k by (intro le_imp_power_dvd) auto
    with dvd have "2 ^ k dvd unat off - 2 ^ 63" using gt by (simp only: dvd_diff_nat)
    then have "2 ^ k \<le> unat off - 2 ^ 63" using gt by (intro dvd_imp_le) auto
    with p(2) \<open>unat (rs_start r) < 2 ^ 63\<close> gt show False by linarith
  qed
  have "unat (off + sz) = unat off + unat sz" using le sz by (intro unat_add_nowrap) simp
  then show "{unat off ..< unat off + unat sz} \<subseteq> free_space st"
    using r p(1) by (auto simp: free_space_def mem_cover word_nat intro!: bexI [of _ r])
qed


lemma p2align_dvd: "2 ^ k dvd unat (p2align x (2 ^ k))"
  unfolding unat_p2align by (rule dvd_minus_mod)

lemma fits_loop_found:
  assumes "fits_loop st sz unit = (off, sz')" "off \<noteq> NO_BLOCK" "sz \<noteq> 0" "unit \<noteq> 0"
  shows "pick_block_fits st sz' unit = off" "sz' \<noteq> 0" "sz' = sz \<or> (\<exists>x. sz' = p2align x unit)"
  using assms
proof (induction st sz unit rule: fits_loop.induct)
  case (1 st sz unit)
  have h: "unit \<noteq> 0 \<Longrightarrow> unit \<le> p2align (drop_bit (Suc 0) sz) unit \<Longrightarrow> p2align (drop_bit (Suc 0) sz) unit \<noteq> 0"
    by auto
  {
    case 1
    then show ?case using "1.IH"(1) [OF refl _ refl] h by (auto simp: fits_loop.simps [of st sz] Let_def split: if_splits)
  next
    case 2
    then show ?case using "1.IH"(2) [OF refl _ refl] h by (auto simp: fits_loop.simps [of st sz] Let_def split: if_splits)
  next
    case 3
    then show ?case using "1.IH"(3) [OF refl _ refl] h by (auto simp: fits_loop.simps [of st sz] Let_def split: if_splits)
  }
qed

lemma avl_inv_lbas [simp]:
  "avl_inv (st\<lparr>av_lbas := (av_lbas st)[i := c]\<rparr>) = avl_inv st"
  "free_space (st\<lparr>av_lbas := l\<rparr>) = free_space st"
  "avl_frame st (st\<lparr>av_lbas := (av_lbas st)[i := c]\<rparr>)"
  by (simp_all add: avl_inv_def free_space_def avl_frame_def size_ok_def)

lemma and_minus_nonzero: "(sz::u64) \<noteq> 0 \<Longrightarrow> sz AND - sz \<noteq> 0"
proof
  assume "sz \<noteq> 0" and "sz AND - sz = 0"
  then have "sz OR - sz = 0" using disjunctive_add_eq_or [of sz "- sz"] by simp
  with \<open>sz \<noteq> 0\<close> show False by (metis or.left_idem or.right_neutral)
qed

text \<open>
  What \<open>_allocate_single\<close> guarantees for its outcome: it never fails an assertion, and the
  block it returns was free, is aligned, and is taken out of the free space.
\<close>

definition single_post :: "u64 \<Rightarrow> u64 \<Rightarrow> AvlAllocator \<Rightarrow> (u64 \<times> u64) option \<Rightarrow> AvlAllocator \<Rightarrow> bool" where
  "single_post sz unit st res st' \<longleftrightarrow> avl_inv st' \<and> avl_frame st st' \<and>
     (case res of
        None \<Rightarrow> free_space st' = free_space st
      | Some (off, len) \<Rightarrow>
          0 < len \<and> len \<le> sz \<and> unat unit dvd unat off \<and>
          (unat unit dvd unat sz \<longrightarrow> unat unit dvd unat len) \<and> unat off \<le> 2 ^ 63 \<and>
          {unat off ..< unat off + unat len} \<subseteq> free_space st \<and>
          free_space st' = free_space st - {unat off ..< unat off + unat len})"

lemma remove_block_ok:
  assumes inv: "avl_inv st" and b: "block_in st len (2 ^ k) off" and k: "k < 64"
    and len: "len \<noteq> 0" "unat len < 2 ^ 32"
  shows "\<exists>b st'. remove_from_tree off len st = Some (b, st') \<and> avl_inv st' \<and> avl_frame st st' \<and>
    free_space st' = free_space st - {unat off ..< unat off + unat len}"
proof -
  note B = block_in_free [OF inv b k len(2)]
  have "unat off + unat len < 2 ^ 64" using B(3) len(2) by simp
  from remove_from_tree_ok [OF inv len(1) this] B(1) show ?thesis by auto
qed

text \<open>The search part of \<open>_allocate_single\<close>: block, length, and the state with the moved cursor.\<close>

definition alloc_search :: "bool \<Rightarrow> u64 \<Rightarrow> u64 \<Rightarrow> AvlAllocator \<Rightarrow> (u64 \<times> u64) \<times> AvlAllocator" where
  "alloc_search by_size sz unit st =
     (let ci = cbits (sz AND (- sz)) - 1;
          (start0, cursor) = (if by_size then (NO_BLOCK, av_lbas st ! ci)
                              else pick_block_after st (av_lbas st ! ci) sz unit);
          st1 = (if by_size then st else st\<lparr>av_lbas := (av_lbas st)[ci := cursor]\<rparr>)
      in (if start0 = NO_BLOCK then fits_loop st1 sz unit else (start0, sz), st1))"

definition max_seg :: "AvlAllocator \<Rightarrow> u64" where
  "max_seg st = (if av_range_size_tree st = [] then 0 else rs_length (last (av_range_size_tree st)))"

lemma allocate_single_alt:
  assumes "avl_inv st" "isp2 unit" "sz0 \<noteq> 0"
  obtains "max_seg st < sz0" "max_seg st < unit" "allocate_single sz0 unit st = Some (None, st)"
  | sz by_size where "sz = (if max_seg st < sz0 then p2align (max_seg st) unit else sz0)"
      "sz \<noteq> 0" "sz \<le> sz0" "sz \<le> max_seg st" "max_seg st < sz0 \<longrightarrow> unit \<le> max_seg st"
      "allocate_single sz0 unit st =
        (case alloc_search by_size sz unit st of ((start, len), st1) \<Rightarrow>
           if start = NO_BLOCK then Some (None, st1)
           else map_option (\<lambda>(_, st2). (Some (start, len), st2)) (remove_from_tree start len st1))"
proof (cases "max_seg st < sz0 \<and> max_seg st < unit")
  case True
  then have "allocate_single sz0 unit st = Some (None, st)"
    by (simp add: allocate_single_def Let_def max_seg_def)
  with True that(1) show ?thesis by blast
next
  case False
  obtain k where k: "k < 64" "unit = 2 ^ k" using assms(2) by (rule isp2_imp_exp)
  define sz where "sz = (if max_seg st < sz0 then p2align (max_seg st) unit else sz0)"
  define by_size where "by_size \<longleftrightarrow> max_seg st < sz0 \<or> max_seg st < range_size_alloc_threshold \<or>
    sint (ucast (av_num_free st * 100 div av_device_size st) :: u32) < range_size_alloc_free_pct"
  have "p2align (max_seg st) unit \<noteq> 0" if "unit \<le> max_seg st"
  proof -
    have "2 ^ k \<le> unat (max_seg st)" using that k by (simp add: word_nat)
    then have "unat (max_seg st) mod 2 ^ k < unat (max_seg st)"
      by (intro less_le_trans [OF mod_less_divisor]) simp_all
    then have "unat (p2align (max_seg st) unit) \<noteq> 0" unfolding k(2) unat_p2align by simp
    then show ?thesis by (auto simp: unat_0_iff)
  qed
  then have sz0: "sz \<noteq> 0" "sz \<le> max_seg st" "sz \<le> sz0"
    using False assms(3) p2align_le [of "max_seg st" unit] by (auto simp: sz_def not_less intro: order_trans)
  have "max_seg st \<noteq> 0" using sz0 by (metis word_le_0_iff)
  then obtain r where "r \<in> set (av_range_tree st)"
    using assms(1) by (auto simp: max_seg_def avl_inv_def size_ok_def split: if_splits) (metis last_in_set)
  then have dev: "av_device_size st \<noteq> 0"
    using assms(1) by (auto simp: avl_inv_def tree_ok_def word_nat dest!: bspec)
  have "allocate_single sz0 unit st =
      (case alloc_search by_size sz unit st of ((start, len), st1) \<Rightarrow>
           if start = NO_BLOCK then Some (None, st1)
           else map_option (\<lambda>(_, st2). (Some (start, len), st2)) (remove_from_tree start len st1))"
    using False dev sz0(1) and_minus_nonzero [OF sz0(1)]
    unfolding allocate_single_def alloc_search_def max_seg_def [symmetric] Let_def sz_def [symmetric]
      by_size_def [symmetric]
    by (auto simp: word_gt_0 split: prod.splits)
  moreover have "max_seg st < sz0 \<longrightarrow> unit \<le> max_seg st" using False by auto
  ultimately show ?thesis using that(2) [OF sz_def sz0(1) sz0(3) sz0(2)] by blast
qed

lemma alloc_search_found:
  assumes "avl_inv st" "isp2 unit" "sz \<noteq> 0" "alloc_search by_size sz unit st = ((start, len), st1)"
  shows "avl_inv st1" "avl_frame st st1" "free_space st1 = free_space st"
    "start \<noteq> NO_BLOCK \<Longrightarrow> block_in st1 len unit start \<and> len \<noteq> 0 \<and> len \<le> sz \<and>
       (len = sz \<or> (\<exists>x. len = p2align x unit))"
proof -
  have u0: "unit \<noteq> 0" using assms(2) by (auto simp: isp2_def)
  show S: "avl_inv st1" "avl_frame st st1" "free_space st1 = free_space st"
    using assms(1,4) by (auto simp: alloc_search_def Let_def split: prod.splits if_splits)
  assume "start \<noteq> NO_BLOCK"
  then consider "fits_loop st1 sz unit = (start, len)"
    | l c where "len = sz" "st1 = st\<lparr>av_lbas := l\<rparr>" "fst (pick_block_after st c sz unit) = start"
    using assms(4)
    by (auto simp: alloc_search_def Let_def split: prod.splits if_splits) (metis fst_conv)
  then show "block_in st1 len unit start \<and> len \<noteq> 0 \<and> len \<le> sz \<and> (len = sz \<or> (\<exists>x. len = p2align x unit))"
  proof cases
    case 1
    then show ?thesis
      using fits_loop_found [OF 1 \<open>start \<noteq> NO_BLOCK\<close> assms(3) u0] fits_loop_le [of st1 sz unit]
        pick_block_fits_found [OF S(1) _ \<open>start \<noteq> NO_BLOCK\<close>] by simp
  next
    case 2
    then show ?thesis
      using pick_block_after_found [OF 2(3) \<open>start \<noteq> NO_BLOCK\<close>] assms(3) by (simp add: block_in_def)
  qed
qed

lemma allocate_single_ok:
  assumes inv: "avl_inv st" and unit: "isp2 unit" and sz: "sz0 \<noteq> 0" "unat sz0 < 2 ^ 32"
  shows "\<exists>res st'. allocate_single sz0 unit st = Some (res, st') \<and> single_post sz0 unit st res st'"
  using inv unit sz(1)
proof (cases rule: allocate_single_alt)
  case 1
  then show ?thesis using inv by (simp add: single_post_def)
next
  case (2 sz by_size)
  obtain k where k: "k < 64" "unit = 2 ^ k" using unit by (rule isp2_imp_exp)
  obtain start len st1 where s: "alloc_search by_size sz unit st = ((start, len), st1)"
    by (metis surj_pair)
  note F = alloc_search_found [OF inv unit 2(2) s]
  show ?thesis
  proof (cases "start = NO_BLOCK")
    case True
    then show ?thesis using 2(6) s F by (simp add: single_post_def)
  next
    case False
    note B = F(4) [OF False]
    have len: "unat len < 2 ^ 32" using B 2(3) sz(2) by (auto simp: word_nat)
    have b: "block_in st1 len (2 ^ k) start" using B k by simp
    obtain b st2 where st2: "remove_from_tree start len st1 = Some (b, st2)" "avl_inv st2" "avl_frame st1 st2"
      "free_space st2 = free_space st1 - {unat start ..< unat start + unat len}"
      using remove_block_ok [OF F(1) b k(1) _ len] B by auto
    have "unat unit dvd unat sz0 \<longrightarrow> unat unit dvd unat len"
      using B 2(1) k by (auto simp: p2align_dvd split: if_splits)
    then have "single_post sz0 unit st (Some (start, len)) st2"
      using st2 B F(2,3) 2(3) block_in_free [OF F(1) b k(1) len] k avl_frame_trans [OF F(2) st2(3)]
      by (auto simp: single_post_def word_gt_0)
    then show ?thesis using 2(6) s False st2(1) by simp
  qed
qed


section \<open>The allocation loop\<close>

lemma unat_add_upto:
  fixes a b c :: u64
  assumes "unat b \<le> unat c - unat a" "unat a \<le> unat c"
  shows "unat (a + b) = unat a + unat b"
proof (rule unat_add_nowrap)
  have "unat a + unat b \<le> unat c" using assms by linarith
  also have "unat c < 2 ^ LENGTH(64)" by simp
  finally show "unat a + unat b < 2 ^ LENGTH(64)" .
qed

lemma finite_free_space [simp]: "finite (free_space st)"
  by (simp add: free_space_def cover_def seg_space_def)

definition extent_ok :: "u64 \<Rightarrow> u64 \<Rightarrow> pextent \<Rightarrow> bool" where
  "extent_ok unit m e \<longleftrightarrow> pe_length e \<noteq> 0 \<and> unat unit dvd unat (pe_offset e) \<and>
     unat (pe_length e) \<le> unat m \<and>
     (unat unit dvd unat m \<longrightarrow> unat unit dvd unat (pe_length e))"

text \<open>The outcome of the loop: what it adds to the extents and the state it ends in.\<close>

definition loop_post :: "u64 \<Rightarrow> u64 \<Rightarrow> u64 \<Rightarrow> u64 \<Rightarrow> AvlAllocator \<Rightarrow> u64 \<Rightarrow> pextent list \<Rightarrow> AvlAllocator \<Rightarrow> bool" where
  "loop_post want unit m a st a' new st' \<longleftrightarrow> avl_inv st' \<and> avl_frame st st' \<and>
     carve (free_space st) new (free_space st') \<and> a' \<le> want \<and>
     unat a' = unat a + (\<Sum>e \<leftarrow> new. unat (pe_length e)) \<and>
     (\<forall>e \<in> set new. extent_ok unit m e)"

lemma allocate_loop_ok:
  assumes "avl_inv st" "isp2 unit" "m \<noteq> 0" "unat m < 2 ^ 32" "a \<le> want"
    "unat unit dvd unat m \<longrightarrow> unat unit dvd unat want - unat a"
  shows "\<exists>a' new st'. allocate_loop want unit m a ex st = Some (a', ex @ new, st') \<and>
    loop_post want unit m a st a' new st'"
  using assms
proof (induction want unit m a ex st rule: allocate_loop.induct)
  case (1 want unit m a ex st)
  show ?case
  proof (cases "a < want")
    case False
    then show ?thesis using 1 by (simp add: allocate_loop.simps [of want] loop_post_def)
  next
    case True
    let ?sz = "min m (want - a)"
    have w: "unat (want - a) = unat want - unat a" using "1.prems"(5) by (rule unat_sub_le)
    have nz: "?sz \<noteq> 0" using True "1.prems"(3) w by (auto simp: min_def word_nat)
    have szle: "unat ?sz \<le> unat m" "unat ?sz \<le> unat want - unat a" using w by (auto simp: min_def word_nat)
    obtain res st1 where s: "allocate_single ?sz unit st = Some (res, st1)" "single_post ?sz unit st res st1"
      using allocate_single_ok [OF "1.prems"(1,2) nz] szle "1.prems"(4) by auto
    show ?thesis
    proof (cases res)
      case None
      then show ?thesis using s True "1.prems" by (simp add: allocate_loop.simps [of want] loop_post_def single_post_def)
    next
      case (Some p)
      obtain off len where p: "p = (off, len)" by (cases p)
      let ?e = "\<lparr>pe_offset = off, pe_length = ucast len\<rparr>"
      have P: "avl_inv st1" "avl_frame st st1" "0 < len" "len \<le> ?sz" "unat unit dvd unat off"
        "unat unit dvd unat ?sz \<longrightarrow> unat unit dvd unat len"
        "{unat off ..< unat off + unat len} \<subseteq> free_space st"
        "free_space st1 = free_space st - {unat off ..< unat off + unat len}"
        using s(2) Some p by (simp_all add: single_post_def)
      have l: "unat len \<le> unat m" "unat len \<le> unat want - unat a" "unat (ucast len :: u32) = unat len"
        using P(4) szle "1.prems"(4) by (simp_all add: word_nat unat_ucast_64_32)
      then have e: "extent_space ?e = {unat off ..< unat off + unat len}" by (simp add: extent_space_def)
      have al: "unat (a + len) = unat a + unat len"
        using l(2) True by (intro unat_add_upto [of _ want]) (auto simp: word_nat)
      then have le: "a + len \<le> want" using l(2) True by (simp add: word_nat)
      have dvd: "unat unit dvd unat m \<longrightarrow> unat unit dvd unat len"
        using P(6) "1.prems"(6) w by (auto simp: min_def)
      have "unat want - unat (a + len) = (unat want - unat a) - unat len" using al by simp
      then have rest: "unat unit dvd unat m \<longrightarrow> unat unit dvd unat want - unat (a + len)"
        using dvd "1.prems"(6) by (metis dvd_diff_nat)
      have "\<exists>a' new st'. allocate_loop want unit m (a + len) (ex @ [?e]) st1 = Some (a', (ex @ [?e]) @ new, st') \<and>
          loop_post want unit m (a + len) st1 a' new st'"
        using "1.IH" [OF True s(1) refl _ p [symmetric]] Some P(1) "1.prems"(2-4) le rest by auto
      then obtain a' new st' where R: "allocate_loop want unit m (a + len) (ex @ [?e]) st1 = Some (a', (ex @ [?e]) @ new, st')"
          "loop_post want unit m (a + len) st1 a' new st'" by blast
      have "extent_ok unit m ?e"
        using P l dvd by (simp add: extent_ok_def) (metis unat_0 unat_0_iff word_gt_0)
      then have "loop_post want unit m a st a' (?e # new) st'"
        using R(2) P e l al avl_frame_trans [OF P(2)] by (auto simp: loop_post_def)
      then show ?thesis
        using R(1) s True Some p by (auto simp: allocate_loop.simps [of want unit m a])
    qed
  qed
qed


section \<open>Allocation is exhaustive on aligned free space\<close>

text \<open>A set of addresses made of whole, aligned blocks of \<open>U\<close> bytes.\<close>

definition aligned_set :: "nat \<Rightarrow> nat set \<Rightarrow> bool" where
  "aligned_set U F \<longleftrightarrow> (\<forall>x \<in> F. {x - x mod U ..< x - x mod U + U} \<subseteq> F)"

lemma aligned_ivl:
  assumes "0 < U" "U dvd a" "U dvd b"
  shows "aligned_set U {a ..< b}"
  unfolding aligned_set_def
proof (intro ballI subsetI)
  fix x y assume x: "x \<in> {a ..< b}" and y: "y \<in> {x - x mod U ..< x - x mod U + U}"
  obtain i j where ij: "a = U * i" "b = U * j" using assms(2,3) by (auto elim!: dvdE)
  have "i \<le> x div U" using x ij assms(1) by (simp add: less_eq_div_iff_mult_less_eq mult.commute)
  moreover have "x div U < j" using x ij assms(1) by (simp add: less_mult_imp_div_less mult.commute)
  moreover have "x - x mod U = U * (x div U)" by (simp add: minus_mod_eq_mult_div)
  ultimately have "a \<le> x - x mod U" "x - x mod U + U \<le> b"
    using ij mult_le_mono2 [of "x div U + 1" j U] by (simp_all add: algebra_simps)
  then show "y \<in> {a ..< b}" using y by auto
qed

lemma aligned_Diff:
  assumes "0 < U" "aligned_set U F" "aligned_set U G"
  shows "aligned_set U (F - G)"
  unfolding aligned_set_def
proof (intro ballI subsetI)
  fix x y assume x: "x \<in> F - G" and y: "y \<in> {x - x mod U ..< x - x mod U + U}"
  have "y - y mod U = x - x mod U"
  proof -
    obtain d where d: "y = U * (x div U) + d" "d < U"
      using y by (auto simp: minus_mod_eq_mult_div dest!: le_Suc_ex)
    then have "y mod U = d" by simp
    with d show ?thesis by (simp add: minus_mod_eq_mult_div)
  qed
  moreover have "x \<in> {x - x mod U ..< x - x mod U + U}"
    using mod_less_divisor [OF assms(1), of x] mod_less_eq_dividend [of x U] by simp
  ultimately show "y \<in> F - G" using x y assms(2,3) unfolding aligned_set_def by (metis DiffD1 DiffD2 DiffI subsetD)
qed


text \<open>The segments of a tree are maximal, so they inherit the alignment.\<close>

lemma aligned_segment:
  assumes t: "tree_ok D t" and al: "aligned_set U (cover t)" and U: "0 < U" and r: "r \<in> set t"
  shows "U dvd unat (rs_start r)" "U dvd unat (rs_end r)"
proof -
  obtain p q where pq: "t = p @ r # q" using r by (meson split_list)
  have o: "\<forall>y \<in> set q. rs_end r < rs_start y" "\<forall>y \<in> set p. rs_end y < rs_start r" "rs_start r < rs_end r"
    using t pq by (auto simp: tree_ok_append tree_ok_Cons)
  have ne: "\<forall>y \<in> set q. rs_start y < rs_end y" "\<forall>y \<in> set p. rs_start y < rs_end y"
    using t pq by (auto simp: tree_ok_def)
  let ?s = "unat (rs_start r)" and ?e = "unat (rs_end r)"
  have out: "?e \<notin> cover t" "0 < ?s \<Longrightarrow> ?s - 1 \<notin> cover t"
    using o ne pq by (fastforce simp: mem_cover word_nat simp del: cover_simps)+
  have "?s \<in> cover t" "?e - 1 \<in> cover t" using o(3) r by (auto simp: mem_cover word_nat intro!: bexI [of _ r])
  then have blk: "{?s - ?s mod U ..< ?s - ?s mod U + U} \<subseteq> cover t"
    "{?e - 1 - (?e - 1) mod U ..< ?e - 1 - (?e - 1) mod U + U} \<subseteq> cover t"
    using al unfolding aligned_set_def by blast+
  show "U dvd ?s"
  proof (rule ccontr)
    assume n: "\<not> U dvd ?s"
    have s0: "0 < ?s" using n by (rule contrapos_np) simp
    have "0 < ?s mod U" using n by (simp add: dvd_eq_mod_eq_0)
    moreover have "?s mod U < U" "?s mod U \<le> ?s" using U by simp_all
    ultimately have "?s - 1 \<in> {?s - ?s mod U ..< ?s - ?s mod U + U}" by auto
    with blk(1) out(2) [OF s0] show False by blast
  qed
  show "U dvd ?e"
  proof (rule ccontr)
    assume n: "\<not> U dvd ?e"
    have e1: "?e = Suc (?e - 1)" using o(3) by (simp add: word_nat)
    have "(?e - 1) mod U + 1 \<noteq> U" using n e1 by (metis Suc_eq_plus1 dvd_eq_mod_eq_0 mod_Suc)
    moreover have "(?e - 1) mod U < U" "(?e - 1) mod U \<le> ?e - 1" using U by simp_all
    ultimately have "?e \<in> {?e - 1 - (?e - 1) mod U ..< ?e - 1 - (?e - 1) mod U + U}" using e1 by auto
    with blk(2) out(1) show False by blast
  qed
qed


lemma last_size_max:
  assumes "avl_inv st" "r \<in> set (av_range_tree st)"
  shows "rs_length r \<le> max_seg st" "\<exists>x \<in> set (av_range_tree st). max_seg st = rs_length x"
proof -
  let ?z = "av_range_size_tree st"
  have z: "set ?z = set (av_range_tree st)" "sorted (map rs_key ?z)" "?z \<noteq> []"
    using assms by (auto simp: avl_inv_def size_ok_def)
  have "rs_key r \<le> rs_key (last ?z)"
  proof -
    obtain ys y where y: "?z = ys @ [y]" using z(3) by (cases ?z rule: rev_cases) auto
    then have "\<forall>x \<in> set ys. rs_key x \<le> rs_key y" using z(2) by (simp add: sorted_append)
    moreover have "r \<in> insert y (set ys)" using assms(2) z(1) y by simp
    ultimately show ?thesis using y by auto
  qed
  then show "rs_length r \<le> max_seg st" using z(3) by (auto simp: max_seg_def rs_key_def)
  show "\<exists>x \<in> set (av_range_tree st). max_seg st = rs_length x"
    using z last_in_set [OF z(3)] by (auto simp: max_seg_def)
qed

text \<open>On aligned free space the best-fit search succeeds with the first candidate.\<close>

lemma pick_block_fits_aligned:
  assumes inv: "avl_inv st" and al: "aligned_set (2 ^ k) (free_space st)"
    and sz: "sz \<le> max_seg st" "sz \<noteq> 0"
  shows "pick_block_fits st sz (2 ^ k) \<noteq> NO_BLOCK"
proof -
  let ?z = "av_range_size_tree st" and ?P = "\<lambda>r. rs_key r < (sz, 0)"
  have m: "max_seg st \<noteq> 0" using sz by (metis word_le_0_iff)
  then have ne: "?z \<noteq> []" "rs_length (last ?z) = max_seg st" by (auto simp: max_seg_def split: if_splits)
  have "\<not> ?P (last ?z)" using ne(2) sz(1) by (auto simp: rs_key_def word_le_0_iff)
  then have "dropWhile ?P ?z \<noteq> []" using last_in_set [OF ne(1)] by (auto simp: dropWhile_eq_Nil_conv)
  then obtain r rest where r: "dropWhile ?P ?z = r # rest" by (cases "dropWhile ?P ?z") auto
  then have "\<not> ?P r" "r \<in> set ?z" by (metis hd_dropWhile list.distinct(1) list.sel(1),
      metis list.set_intros(1) set_dropWhileD)
  then have len: "sz \<le> rs_length r" and rt: "r \<in> set (av_range_tree st)"
    using inv by (auto simp: rs_key_def avl_inv_def size_ok_def not_less)
  have ok: "tree_ok (unat (av_device_size st)) (av_range_tree st)" "rs_start r < rs_end r"
    "unat (rs_end r) < 2 ^ 63" using inv rt by (auto simp: avl_inv_def tree_ok_def dest!: bspec)
  have "p2roundup (rs_start r) (2 ^ k) = rs_start r"
    using aligned_segment [OF ok(1) al [unfolded free_space_def] _ rt] by (intro p2roundup_exact) simp
  moreover have "rs_start r + sz \<le> rs_end r"
  proof -
    have "unat (rs_start r) + unat sz \<le> unat (rs_end r)"
      using len ok(2) rs_length_unat [OF ok(2)] by (simp add: word_nat seg_len_def)
    moreover from this have "unat (rs_start r + sz) = unat (rs_start r) + unat sz"
      using ok(3) by (intro unat_add_nowrap) simp
    ultimately show ?thesis by (simp add: word_nat)
  qed
  moreover have "rs_start r \<noteq> NO_BLOCK" using ok(2) by (simp add: NO_BLOCK_def) (metis word_n1_ge not_less)
  ultimately show ?thesis using r by (simp add: pick_block_fits_def max_search_count_def Let_def)
qed

lemma allocate_single_aligned:
  assumes inv: "avl_inv st" and k: "k < 64" and al: "aligned_set (2 ^ k) (free_space st)"
    and ne: "free_space st \<noteq> {}" and sz: "sz0 \<noteq> 0"
    and a: "allocate_single sz0 (2 ^ k) st = Some (res, st')"
  shows "res \<noteq> None"
proof -
  have unit: "isp2 (2 ^ k)" by (rule isp2_exp [OF k])
  have ok: "tree_ok (unat (av_device_size st)) (av_range_tree st)" using inv by (simp add: avl_inv_def)
  obtain r where r: "r \<in> set (av_range_tree st)" using ne by (auto simp: free_space_def cover_def)
  then have rl: "rs_start r < rs_end r" using ok by (auto simp: tree_ok_def)
  have "2 ^ k dvd seg_len r"
    unfolding seg_len_def using aligned_segment [OF ok al [unfolded free_space_def] _ r] by (intro dvd_diff_nat) simp_all
  then have "2 ^ k \<le> unat (rs_length r)"
    using rl rs_length_unat [OF rl] by (intro dvd_imp_le) (simp_all add: seg_len_def word_nat)
  then have m: "2 ^ k \<le> max_seg st" using last_size_max(1) [OF inv r] k by (simp add: word_nat)
  show ?thesis
    using inv unit sz
  proof (cases rule: allocate_single_alt)
    case 1
    then show ?thesis using m by simp
  next
    case (2 sz by_size)
    obtain start len st1 where s: "alloc_search by_size sz (2 ^ k) st = ((start, len), st1)"
      by (metis surj_pair)
    note F = alloc_search_found [OF inv unit 2(2) s]
    have "start \<noteq> NO_BLOCK"
    proof
      assume "start = NO_BLOCK"
      then have "fits_loop st1 sz (2 ^ k) = (NO_BLOCK, len)"
        using s by (auto simp: alloc_search_def Let_def split: prod.splits if_splits)
      moreover have "max_seg st1 = max_seg st"
        using s by (auto simp: alloc_search_def Let_def max_seg_def split: prod.splits if_splits)
      ultimately show False
        using pick_block_fits_aligned [OF F(1), of k sz] F(3) al 2(2,4)
        by (subst (asm) fits_loop.simps) (simp add: Let_def)
    qed
    then show ?thesis using a 2(6) s by auto
  qed
qed


lemma allocate_loop_aligned:
  assumes "avl_inv st" "k < 64" "m \<noteq> 0" "unat m < 2 ^ 32" "a \<le> want"
    "2 ^ k dvd unat m" "2 ^ k dvd unat want - unat a" "aligned_set (2 ^ k) (free_space st)"
    "allocate_loop want (2 ^ k) m a ex st = Some (a', es, st')"
  shows "a' = want \<or> free_space st' = {}"
  using assms
proof (induction want "2 ^ k :: u64" m a ex st rule: allocate_loop.induct)
  case (1 want m a ex st)
  show ?case
  proof (cases "a < want \<and> free_space st \<noteq> {}")
    case False
    have "\<exists>new. loop_post want (2 ^ k) m a st a' new st'"
      using allocate_loop_ok [OF "1.prems"(1) isp2_exp "1.prems"(3-5), of k ex] "1.prems" by auto
    then have "free_space st' \<subseteq> free_space st" "a' \<le> want" "unat a \<le> unat a'"
      using carve_space by (fastforce simp: loop_post_def)+
    then show ?thesis using False "1.prems"(5) by (auto simp: word_nat word_unat_eq_iff)
  next
    case True
    let ?sz = "min m (want - a)"
    have w: "unat (want - a) = unat want - unat a" using "1.prems"(5) by (rule unat_sub_le)
    have nz: "?sz \<noteq> 0" using True "1.prems"(3) w by (auto simp: min_def word_nat)
    have szle: "unat ?sz \<le> unat m" "unat ?sz \<le> unat want - unat a" using w by (auto simp: min_def word_nat)
    have dvd: "2 ^ k dvd unat ?sz" using "1.prems"(6,7) w by (auto simp: min_def)
    obtain res st1 where s: "allocate_single ?sz (2 ^ k) st = Some (res, st1)" "single_post ?sz (2 ^ k) st res st1"
      using allocate_single_ok [OF "1.prems"(1) isp2_exp [OF "1.prems"(2)] nz] szle(1) "1.prems"(4)
      by (meson le_less_trans)
    then obtain off len where res: "res = Some (off, len)"
      using allocate_single_aligned [OF "1.prems"(1,2,8) _ nz s(1)] True by auto
    have P: "avl_inv st1" "len \<le> ?sz" "2 ^ k dvd unat off" "2 ^ k dvd unat len"
        "free_space st1 = free_space st - {unat off ..< unat off + unat len}"
      using s(2) res dvd "1.prems"(2) by (simp_all add: single_post_def)
    have l: "unat len \<le> unat want - unat a" using P(2) szle by (simp add: word_nat)
    have al: "unat (a + len) = unat a + unat len"
      using l True by (intro unat_add_upto [of _ want]) (auto simp: word_nat)
    have le: "a + len \<le> want" using l True al by (auto simp: word_nat)
    have rest: "2 ^ k dvd unat want - unat (a + len)" using al P(4) "1.prems"(7)
      by (metis diff_diff_left dvd_diff_nat)
    have "aligned_set (2 ^ k) (free_space st1)"
      unfolding P(5) using P(3,4) "1.prems"(8) by (intro aligned_Diff aligned_ivl) simp_all
    moreover have "allocate_loop want (2 ^ k) m (a + len) (ex @ [\<lparr>pe_offset = off, pe_length = ucast len\<rparr>]) st1 = Some (a', es, st')"
      using "1.prems"(9) True s(1) res by (simp add: allocate_loop.simps [of want _ m a])
    ultimately show ?thesis
      using "1.hyps" [OF _ s(1) refl res refl] True P(1) "1.prems"(2-4,6) le rest by simp
  qed
qed


section \<open>The public operations\<close>

text \<open>The limit \<open>allocate\<close> passes down never exceeds what the 32-bit length field holds.\<close>

definition max_alloc_of :: "u64 \<Rightarrow> u64 \<Rightarrow> u64 \<Rightarrow> u64" where
  "max_alloc_of want max_alloc_size block =
     (let m = (if max_alloc_size = 0 then want else max_alloc_size)
      in if m \<ge> 0xFFFFFFFF then p2align 0xFFFFFFFF block else m)"

lemma max_alloc_of_bounds:
  assumes "want \<noteq> 0" "j < 32"
  shows "max_alloc_of want mx (2 ^ j) \<noteq> 0" "unat (max_alloc_of want mx (2 ^ j)) < 2 ^ 32"
    "k \<le> j \<Longrightarrow> 2 ^ k dvd unat want \<Longrightarrow> 2 ^ k dvd unat mx \<Longrightarrow> 2 ^ k dvd unat (max_alloc_of want mx (2 ^ j))"
proof -
  let ?c = "0xFFFFFFFF :: u64"
  have "(2::nat) ^ j \<le> 2 ^ 31" using assms(2) by (intro power_increasing) auto
  then have "unat ?c mod 2 ^ j < unat ?c" by (intro less_le_trans [OF mod_less_divisor]) simp_all
  then have p: "unat (p2align ?c (2 ^ j)) \<noteq> 0" "unat (p2align ?c (2 ^ j)) < 2 ^ 32"
    unfolding unat_p2align by simp_all
  then have p0: "p2align ?c (2 ^ j) \<noteq> 0" by (auto simp: unat_0_iff)
  show "max_alloc_of want mx (2 ^ j) \<noteq> 0" using p0 assms(1) by (simp add: max_alloc_of_def Let_def)
  show "unat (max_alloc_of want mx (2 ^ j)) < 2 ^ 32"
    using p(2) by (auto simp: max_alloc_of_def Let_def word_nat)
  assume "k \<le> j" "2 ^ k dvd unat want" "2 ^ k dvd unat mx"
  moreover have "2 ^ k dvd unat (p2align ?c (2 ^ j))"
    using p2align_dvd [of j ?c] le_imp_power_dvd [OF \<open>k \<le> j\<close>, of 2] dvd_trans by blast
  ultimately show "2 ^ k dvd unat (max_alloc_of want mx (2 ^ j))" by (auto simp: max_alloc_of_def Let_def)
qed

text \<open>The result of \<open>_allocate\<close> in terms of the loop's.\<close>

lemma avl_allocate_alt:
  assumes "isp2 unit" "want mod unit = 0" "av_block_size st = 2 ^ j"
    "allocate_loop want unit (max_alloc_of want mx (2 ^ j)) 0 [] st = Some (a, es, st')"
  shows "avl_allocate want unit mx st = Some (if a \<noteq> 0 then sint a else - ENOSPC, es, st')"
proof -
  have "avl_allocate want unit mx st = avl_allocate_inner want unit (max_alloc_of want mx (2 ^ j)) st"
    using assms(1-3) by (simp add: avl_allocate_def max_alloc_of_def Let_def)
  with assms(4) show ?thesis by (simp add: avl_allocate_inner_def)
qed

lemma avl_allocate_ok:
  assumes inv: "avl_inv st" and unit: "isp2 unit" and want: "want mod unit = 0"
    and blk: "av_block_size st = 2 ^ j" "j < 32"
  obtains a es st' where
    "avl_allocate want unit mx st = Some (if a = 0 then - ENOSPC else int (unat a), es, st')"
    "loop_post want unit (max_alloc_of want mx (2 ^ j)) 0 st a es st'"
    "allocate_loop want unit (max_alloc_of want mx (2 ^ j)) 0 [] st = Some (a, es, st')"
proof -
  let ?m = "max_alloc_of want mx (2 ^ j)"
  have "\<exists>a es st'. allocate_loop want unit ?m 0 [] st = Some (a, es, st') \<and> loop_post want unit ?m 0 st a es st'"
  proof (cases "want = 0")
    case True
    then show ?thesis using inv by (simp add: allocate_loop.simps [of 0] loop_post_def)
  next
    case False
    have "unat unit dvd unat want" using want by (metis unat_mod unat_0 dvd_eq_mod_eq_0)
    then show ?thesis
      using allocate_loop_ok [OF inv unit max_alloc_of_bounds(1,2) [OF False blk(2)], of 0 want mx "[]"]
      by auto
  qed
  then obtain a es st' where L: "allocate_loop want unit ?m 0 [] st = Some (a, es, st')"
    "loop_post want unit ?m 0 st a es st'" by blast
  have "card (free_space st) = card (free_space st') + unat a"
    using L(2) carve_card [of "free_space st" es] by (simp add: loop_post_def)
  moreover have "card (free_space st) < 2 ^ 63"
    using inv card_cover_le by (fastforce simp: avl_inv_def free_space_def)
  ultimately have "sint a = int (unat a)" by (intro sint_small) simp
  then have "avl_allocate want unit mx st = Some (if a = 0 then - ENOSPC else int (unat a), es, st')"
    using avl_allocate_alt [OF unit want blk(1) L(1)] by simp
  then show thesis using L(2,1) by (rule that)
qed

lemma avl_release_ok:
  assumes "avl_inv st" "regions (free_space st) (unat (av_device_size st)) rs"
  shows "\<exists>st'. avl_release rs st = Some st' \<and> avl_inv st' \<and> avl_frame st st' \<and>
    free_space st' = free_space st \<union> (\<Union>p \<in> set rs. range_space p)"
  using assms
proof (induction rs arbitrary: st)
  case Nil
  then show ?case by simp
next
  case (Cons p rs)
  obtain off len where p: "p = (off, len)" by (cases p)
  have P: "len \<noteq> 0" "unat off + unat len \<le> unat (av_device_size st)"
    "{unat off ..< unat off + unat len} \<inter> free_space st = {}"
    using Cons.prems(2) p by (auto simp: regions_Cons range_space_def)
  obtain st1 where st1: "add_to_tree off len st = Some st1" "avl_inv st1" "avl_frame st st1"
    "free_space st1 = free_space st \<union> range_space p"
    using add_to_tree_ok [OF Cons.prems(1) P] p by (auto simp: range_space_def)
  have "regions (free_space st1) (unat (av_device_size st1)) rs"
    using Cons.prems(2) st1(3) regions_Un [of "free_space st" _ rs "range_space p"]
    by (auto simp: regions_Cons avl_frame_def st1(4))
  from Cons.IH [OF st1(2) this] obtain st2 where st2: "avl_release rs st1 = Some st2" "avl_inv st2"
    "avl_frame st1 st2" "free_space st2 = free_space st1 \<union> (\<Union>p \<in> set rs. range_space p)" by blast
  have "off + len \<le> av_device_size st"
  proof -
    have "unat (off + len) = unat off + unat len"
      using P(2) Cons.prems(1) by (intro unat_add_nowrap) (simp add: avl_inv_def)
    with P(2) show ?thesis by (simp add: word_nat)
  qed
  then show ?case using st1 st2 p avl_frame_trans [OF st1(3) st2(3)] by auto
qed

section \<open>The contract of an allocator\<close>

definition avl_ready :: "AvlAllocator \<Rightarrow> bool" where
  "avl_ready st \<longleftrightarrow> avl_inv st \<and> (\<exists>j < 32. av_block_size st = 2 ^ j)"

lemma loop_post_result:
  assumes "loop_post want unit m 0 st a es st'"
  shows "a = 0 \<longleftrightarrow> es = []" "unat a = (\<Sum>e \<leftarrow> es. unat (pe_length e))"
proof -
  have c: "unat a = (\<Sum>e \<leftarrow> es. unat (pe_length e))" "\<forall>e \<in> set es. pe_length e \<noteq> 0"
    using assms by (auto simp: loop_post_def extent_ok_def)
  show "a = 0 \<longleftrightarrow> es = []"
  proof
    assume "a = 0"
    then have "\<forall>e \<in> set es. unat (pe_length e) = 0" using c(1) by (simp add: sum_list_eq_0_iff)
    with c(2) show "es = []" by (cases es) (auto simp: unat_0_iff)
  qed (use c(1) in \<open>simp add: unat_0_iff\<close>)
  show "unat a = (\<Sum>e \<leftarrow> es. unat (pe_length e))" by (rule c(1))
qed

interpretation avl: space_allocator avl_ready free_space "\<lambda>st. unat (av_device_size st)" avl_allocate avl_release
proof
  fix st assume "avl_ready st"
  then show "free_space st \<subseteq> {..< unat (av_device_size st)}"
    using cover_bound by (auto simp: avl_ready_def avl_inv_def free_space_def)
next
  fix st unit want mx
  assume st: "avl_ready st" and u: "isp2 unit" "want mod unit = 0"
  then obtain j where j: "avl_inv st" "av_block_size st = 2 ^ j" "j < 32" by (auto simp: avl_ready_def)
  from j(1) u j(2,3) obtain a es st' where A:
    "avl_allocate want unit mx st = Some (if a = 0 then - ENOSPC else int (unat a), es, st')"
    "loop_post want unit (max_alloc_of want mx (2 ^ j)) 0 st a es st'"
    by (rule avl_allocate_ok)
  then show "\<exists>r es a'. avl_allocate want unit mx st = Some (r, es, a') \<and> avl_ready a' \<and>
      unat (av_device_size a') = unat (av_device_size st) \<and> carve (free_space st) es (free_space a') \<and>
      (\<forall>e \<in> set es. pe_length e \<noteq> 0) \<and> (\<Sum>e \<leftarrow> es. unat (pe_length e)) \<le> unat want \<and>
      r = (if es = [] then - ENOSPC else int (\<Sum>e \<leftarrow> es. unat (pe_length e)))"
    using loop_post_result [OF A(2)] j(2,3)
    by (auto simp: loop_post_def extent_ok_def avl_ready_def avl_frame_def word_nat)
next
  fix st rs assume "avl_ready st" "regions (free_space st) (unat (av_device_size st)) rs"
  then show "\<exists>a'. avl_release rs st = Some a' \<and> avl_ready a' \<and>
      unat (av_device_size a') = unat (av_device_size st) \<and>
      free_space a' = free_space st \<union> (\<Union>p \<in> set rs. range_space p)"
    using avl_release_ok [of st rs] by (auto simp: avl_ready_def avl_frame_def)
qed

section \<open>Properties\<close>

text \<open>A one-megabyte device whose whole space was handed to \<open>init_add_free\<close>.\<close>

definition demo_avl :: AvlAllocator where
  "demo_avl = (new_AvlAllocator 0x100000 4096 0 0)
     \<lparr>av_range_tree := [seg 0 0x100000], av_range_size_tree := [seg 0 0x100000], av_num_free := 0x100000\<rparr>"

lemma demo_avl_init: "avl_init_add_free 0 0x100000 (new_AvlAllocator 0x100000 4096 0 0) = Some demo_avl"
  by (simp add: avl_init_add_free_def add_to_tree_def new_AvlAllocator_def tree_upper_bound_def
      try_insert_range_def size_tree_insert_def demo_avl_def rs_length_def)

lemma demo_avl_facts:
  "avl_inv demo_avl" "free_space demo_avl = {0 ..< 0x100000}" "av_block_size demo_avl = 2 ^ 12"
  by (simp_all add: avl_inv_def demo_avl_def new_AvlAllocator_def tree_ok_def size_ok_def seg_len_def
      free_space_def)

text \<open>C9: \<open>AvlAllocator::allocate\<close> is sound: for a power-of-two unit and a request that is a multiple of it no
  assertion fails; the extents returned are aligned, non-empty, pairwise disjoint and were free; exactly they leave
  the free space; the return value is their total length, at most the request, or \<open>-ENOSPC\<close> when there
  are none.\<close>

theorem avl_allocate_sound:
  assumes "avl_inv st" "isp2 unit" "want mod unit = 0" "av_block_size st = 2 ^ j" "j < 32"
  shows "\<exists>r es st'. avl_allocate want unit mx st = Some (r, es, st') \<and> avl_inv st' \<and>
    sorted_wrt (\<lambda>a b. extent_space a \<inter> extent_space b = {}) es \<and>
    (\<forall>e \<in> set es. unat unit dvd unat (pe_offset e) \<and> pe_length e \<noteq> 0 \<and> extent_space e \<subseteq> free_space st) \<and>
    free_space st' = free_space st - (\<Union>e \<in> set es. extent_space e) \<and>
    (\<Sum>e \<leftarrow> es. unat (pe_length e)) \<le> unat want \<and>
    r = (if es = [] then - ENOSPC else int (\<Sum>e \<leftarrow> es. unat (pe_length e)))"
proof -
  from assms obtain a es st' where A:
    "avl_allocate want unit mx st = Some (if a = 0 then - ENOSPC else int (unat a), es, st')"
    "loop_post want unit (max_alloc_of want mx (2 ^ j)) 0 st a es st'"
    by (rule avl_allocate_ok)
  then have c: "carve (free_space st) es (free_space st')" "avl_inv st'" "a \<le> want"
    "unat a = (\<Sum>e \<leftarrow> es. unat (pe_length e))"
    "\<forall>e \<in> set es. pe_length e \<noteq> 0 \<and> unat unit dvd unat (pe_offset e)"
    by (auto simp: loop_post_def extent_ok_def)
  have "a = 0 \<longleftrightarrow> es = []" by (rule loop_post_result(1) [OF A(2)])
  then show ?thesis
    using A(1) c carve_space [OF c(1)] carve_disjoint [OF c(1)] by (auto simp: word_nat)
qed

theorem avl_allocate_sound_witness:
  "\<exists>r es st'. avl_allocate 0x2000 0x1000 0 demo_avl = Some (r, es, st') \<and> avl_inv st' \<and>
    free_space st' = {0 ..< 0x100000} - (\<Union>e \<in> set es. extent_space e)"
proof -
  have "isp2 0x1000" "(0x2000::u64) mod 0x1000 = 0" by (simp_all add: isp2_def)
  from avl_allocate_sound [OF demo_avl_facts(1) this demo_avl_facts(3), of 0] show ?thesis
    by (auto simp: demo_avl_facts(2))
qed

text \<open>C22: on free space made of whole units, \<open>allocate\<close> is exhaustive: it returns the whole request when that
  much space is free, all free space when there is less, and \<open>-ENOSPC\<close> only when there is none; neither the
  search limits nor fragmentation make it fail.\<close>

theorem avl_allocate_exhaustive:
  assumes "avl_inv st" "av_block_size st = 2 ^ j" "j < 32" "k \<le> j" "2 ^ k dvd unat want" "2 ^ k dvd unat mx"
    "aligned_set (2 ^ k) (free_space st)"
  shows "\<exists>es st'. avl_allocate want (2 ^ k) mx st =
    Some (let n = min (unat want) (card (free_space st)) in if n = 0 then - ENOSPC else int n, es, st')"
proof -
  have k: "k < 64" "isp2 (2 ^ k)" using assms(3,4) isp2_exp by auto
  have want: "want mod 2 ^ k = 0" using assms(5) k(1) by (simp add: word_unat_eq_iff unat_mod dvd_eq_mod_eq_0)
  let ?m = "max_alloc_of want mx (2 ^ j)"
  from assms(1) k(2) want assms(2,3) obtain a es st' where A:
    "avl_allocate want (2 ^ k) mx st = Some (if a = 0 then - ENOSPC else int (unat a), es, st')"
    "loop_post want (2 ^ k) ?m 0 st a es st'"
    "allocate_loop want (2 ^ k) ?m 0 [] st = Some (a, es, st')"
    by (rule avl_allocate_ok)
  have le: "a \<le> want" "card (free_space st) = card (free_space st') + unat a"
    using A(2) carve_card [of "free_space st" es] by (simp_all add: loop_post_def)
  have "a = want \<or> free_space st' = {}"
  proof (cases "want = 0")
    case True
    then show ?thesis using le(1) by simp
  next
    case False
    note m = max_alloc_of_bounds [OF False assms(3)]
    show ?thesis
      using allocate_loop_aligned [OF assms(1) k(1) m(1,2) _ _ _ assms(7) A(3)] m(3) [OF assms(4,5,6)] assms(5)
      by simp
  qed
  then have "unat a = min (unat want) (card (free_space st))" using le by (auto simp: word_nat)
  then show ?thesis using A(1) by (auto simp: Let_def unat_0_iff)
qed

theorem avl_allocate_exhaustive_witness:
  "\<exists>es st'. avl_allocate 0x200000 0x1000 0 demo_avl = Some (0x100000, es, st')"
proof -
  have "aligned_set (2 ^ 12) {0 ..< 0x100000}" by (rule aligned_ivl) simp_all
  with avl_allocate_exhaustive [OF demo_avl_facts(1) demo_avl_facts(3), of 12 "0x200000" 0] show ?thesis
    by (simp add: demo_avl_facts(2))
qed

text \<open>C23: passing the extents an allocation returned to \<open>Allocator::release(const PExtentVector &)\<close>, which
  collects them in an interval set, succeeds and restores the free space.\<close>

theorem avl_allocate_release_roundtrip:
  assumes "avl_inv st" "isp2 unit" "want mod unit = 0" "av_block_size st = 2 ^ j" "j < 32"
    "avl_allocate want unit mx st = Some (r, es, st')"
  shows "\<exists>st''. avl_release (release_set es) st' = Some st'' \<and>
    avl_inv st'' \<and> free_space st'' = free_space st \<and> avl_get_free st'' = avl_get_free st"
proof -
  from assms(1-5) obtain a es1 st1 where A:
    "avl_allocate want unit mx st = Some (if a = 0 then - ENOSPC else int (unat a), es1, st1)"
    "loop_post want unit (max_alloc_of want mx (2 ^ j)) 0 st a es1 st1"
    by (rule avl_allocate_ok)
  then have L: "loop_post want unit (max_alloc_of want mx (2 ^ j)) 0 st a es st'" using assms(6) by simp
  have c: "carve (free_space st) es (free_space st')" and inv': "avl_inv st'" using L by (simp_all add: loop_post_def)
  have D: "free_space st \<subseteq> {..< unat (av_device_size st')}" "free_space st \<subseteq> {..< 2 ^ 63}"
    using assms(1) L cover_bound by (fastforce simp: avl_inv_def free_space_def loop_post_def avl_frame_def)+
  note S = carve_space [OF c]
  have R: "is_ok (release_set es)" "is_space (release_set es) = (\<Union>e \<in> set es. extent_space e)"
    using release_set_carve [OF c D(2), of "[]"] by (simp_all add: release_set_def)
  have reg: "regions (free_space st') (unat (av_device_size st')) (release_set es)"
    using R S D(1) by (intro is_ok_regions) auto
  from avl_release_ok [OF inv' reg] obtain st'' where st'': "avl_release (release_set es) st' = Some st''"
    "avl_inv st''" "free_space st'' = free_space st' \<union> is_space (release_set es)" by (auto simp: is_space_def)
  then have "free_space st'' = free_space st" using R(2) S by blast
  moreover from this have "avl_get_free st'' = avl_get_free st"
    using avl_inv_get_free [OF st''(2)] avl_inv_get_free [OF assms(1)] by (simp add: word_unat_eq_iff)
  ultimately show ?thesis using st'' by blast
qed

theorem avl_allocate_release_roundtrip_witness:
  "\<exists>r es st' st''. avl_allocate 0x2000 0x1000 0 demo_avl = Some (r, es, st') \<and>
    avl_release (release_set es) st' = Some st'' \<and> free_space st'' = {0 ..< 0x100000}"
proof -
  have u: "isp2 0x1000" "(0x2000::u64) mod 0x1000 = 0" by (simp_all add: isp2_def)
  obtain r es st' where "avl_allocate 0x2000 0x1000 0 demo_avl = Some (r, es, st')"
    by (rule avl_allocate_ok [OF demo_avl_facts(1) u demo_avl_facts(3), of 0]) auto
  with avl_allocate_release_roundtrip [OF demo_avl_facts(1) u demo_avl_facts(3) _ this] show ?thesis
    by (auto simp: demo_avl_facts(2))
qed

text \<open>\<open>init_rm_free\<close> takes a range out of the free space exactly when all of it is free, and leaves the
  allocator unchanged otherwise; no assertion fails.\<close>

theorem avl_init_rm_free_exact:
  assumes "avl_inv st" "unat off + unat len \<le> unat (av_device_size st)"
  shows "\<exists>st'. avl_init_rm_free off len st = Some st' \<and> avl_inv st' \<and>
    (let I = {unat off ..< unat off + unat len}
     in if I \<subseteq> free_space st then free_space st' = free_space st - I else st' = st)"
proof (cases "len = 0")
  case True
  then show ?thesis using assms by (simp add: avl_init_rm_free_def)
next
  case False
  have nw: "unat off + unat len < 2 ^ 64" using assms by (simp add: avl_inv_def)
  then have "unat (off + len) = unat off + unat len" by (intro unat_add_nowrap) simp
  then have "off + len \<le> av_device_size st" using assms(2) by (simp add: word_nat)
  with remove_from_tree_ok [OF assms(1) False nw] False show ?thesis
    by (auto simp: avl_init_rm_free_def Let_def split: if_splits)
qed

theorem avl_init_rm_free_exact_witness:
  "\<exists>st'. avl_init_rm_free 0x1000 0x1000 demo_avl = Some st' \<and>
    free_space st' = {0 ..< 0x100000} - {0x1000 ..< 0x2000}"
proof -
  have "unat (0x1000::u64) + unat (0x1000::u64) \<le> unat (av_device_size demo_avl)"
    by (simp add: demo_avl_def new_AvlAllocator_def)
  from avl_init_rm_free_exact [OF demo_avl_facts(1) this] show ?thesis
    by (auto simp: demo_avl_facts(2) Let_def)
qed

text \<open>The states of an allocator under the calls its clients make.\<close>

inductive avl_reach :: "u64 \<Rightarrow> nat \<Rightarrow> AvlAllocator \<Rightarrow> bool" for D :: u64 and j :: nat where
  fresh: "avl_reach D j (new_AvlAllocator D (2 ^ j) 0 junk)"
| add_free: "\<lbrakk> avl_reach D j st; unat off + unat len \<le> unat D;
     {unat off ..< unat off + unat len} \<inter> free_space st = {};
     avl_init_add_free off len st = Some st' \<rbrakk> \<Longrightarrow> avl_reach D j st'"
| rm_free: "\<lbrakk> avl_reach D j st; unat off + unat len \<le> unat D;
     avl_init_rm_free off len st = Some st' \<rbrakk> \<Longrightarrow> avl_reach D j st'"
| alloc: "\<lbrakk> avl_reach D j st; avl_allocate want unit mx st = Some (r, es, st') \<rbrakk> \<Longrightarrow> avl_reach D j st'"
| dealloc: "\<lbrakk> avl_reach D j st; regions (free_space st) (unat D) rs; avl_release rs st = Some st' \<rbrakk> \<Longrightarrow> avl_reach D j st'"
| stop: "avl_reach D j st \<Longrightarrow> avl_reach D j (avl_shutdown st)"

lemma avl_inv_empty:
  assumes "av_range_count_cap st = 0" "unat (av_device_size st) < 2 ^ 63" "length (av_lbas st) = 64"
    "av_range_tree st = []" "av_range_size_tree st = []" "av_num_free st = 0"
  shows "avl_inv st"
  using assms by (simp add: avl_inv_def size_ok_def)

lemma avl_allocate_guards:
  "avl_allocate want unit mx st = Some x \<Longrightarrow> isp2 unit \<and> want mod unit = 0"
  by (auto simp: avl_allocate_def split: if_splits)

lemma avl_reach_inv:
  assumes "avl_reach D j st" "unat D < 2 ^ 63" "j < 32"
  shows "avl_inv st \<and> av_device_size st = D \<and> av_block_size st = 2 ^ j"
  using assms
proof (induction rule: avl_reach.induct)
  case (fresh junk)
  then show ?case by (auto intro!: avl_inv_empty simp: new_AvlAllocator_def)
next
  case (add_free st off len st')
  show ?case
  proof (cases "len = 0")
    case True
    then show ?thesis using add_free by (simp add: avl_init_add_free_def)
  next
    case False
    then show ?thesis
      using add_free add_to_tree_ok [of st len off]
      by (auto simp: avl_init_add_free_def avl_frame_def split: if_splits)
  qed
next
  case (rm_free st off len st')
  show ?case
  proof (cases "len = 0")
    case True
    then show ?thesis using rm_free by (simp add: avl_init_rm_free_def)
  next
    case False
    have "unat off + unat len < 2 ^ 64" using rm_free by simp
    then show ?thesis
      using rm_free False remove_from_tree_ok [of st len off]
      by (auto simp: avl_init_rm_free_def avl_frame_def split: if_splits)
  qed
next
  case (alloc st want unit mx r es st')
  then have "isp2 unit" "want mod unit = 0" using avl_allocate_guards by blast+
  then show ?case
    using alloc avl_allocate_ok [of st unit want j mx] by (auto simp: loop_post_def avl_frame_def)
next
  case (dealloc st rs st')
  then show ?case using avl_release_ok [of st rs] by (auto simp: avl_frame_def)
next
  case (stop st)
  then show ?case by (auto simp: avl_shutdown_def avl_inv_def size_ok_def)
qed

text \<open>C10: in every reachable state \<open>get_free\<close> is the number of free bytes, \<open>foreach\<close> reports the free space as
  disjoint, fully coalesced, non-empty ranges in ascending order, and the two trees hold the same segments, the
  second one sorted by size.\<close>

theorem avl_reachable_consistent:
  assumes "avl_reach D j st" "unat D < 2 ^ 63" "j < 32"
  shows "unat (avl_get_free st) = card (free_space st) \<and> free_space st \<subseteq> {..< unat D} \<and>
    free_space st = (\<Union>p \<in> set (avl_foreach st). {unat (fst p) ..< unat (fst p) + unat (snd p)}) \<and>
    sorted_wrt (\<lambda>p q. unat (fst p) + unat (snd p) < unat (fst q)) (avl_foreach st) \<and>
    (\<forall>p \<in> set (avl_foreach st). snd p \<noteq> 0) \<and>
    set (av_range_size_tree st) = set (av_range_tree st) \<and> sorted (map rs_key (av_range_size_tree st))"
proof -
  have inv: "avl_inv st" and D: "av_device_size st = D" using avl_reach_inv [OF assms] by simp_all
  then have ok: "tree_ok (unat D) (av_range_tree st)" by (simp add: avl_inv_def)
  have end_eq: "unat (rs_start r) + unat (rs_end r - rs_start r) = unat (rs_end r)" "rs_end r - rs_start r \<noteq> 0"
    if "r \<in> set (av_range_tree st)" for r
    using that ok unat_sub_le [of "rs_start r" "rs_end r"] by (auto simp: tree_ok_def word_nat dest!: bspec)
  have "sorted_wrt (\<lambda>p q. unat (fst p) + unat (snd p) < unat (fst q)) (avl_foreach st)"
    unfolding avl_foreach_def sorted_wrt_map
    by (rule sorted_wrt_mono_rel [of _ "\<lambda>a b. rs_end a < rs_start b"])
      (use ok end_eq in \<open>auto simp: tree_ok_def word_nat\<close>)
  moreover have "free_space st = (\<Union>p \<in> set (avl_foreach st). {unat (fst p) ..< unat (fst p) + unat (snd p)})"
    using end_eq by (auto simp: free_space_def cover_def seg_space_def avl_foreach_def)
  moreover have "\<forall>p \<in> set (avl_foreach st). snd p \<noteq> 0" using end_eq by (auto simp: avl_foreach_def)
  ultimately show ?thesis
    using avl_inv_get_free [OF inv] cover_bound [OF ok] inv
    by (simp add: avl_inv_def size_ok_def free_space_def)
qed

theorem avl_reachable_consistent_witness:
  "unat (avl_get_free demo_avl) = card (free_space demo_avl)"
proof -
  have "avl_reach 0x100000 12 (new_AvlAllocator 0x100000 4096 0 0)"
    using avl_reach.fresh [of "0x100000" 12 0] by simp
  then have "avl_reach 0x100000 12 demo_avl"
    by (rule avl_reach.add_free [OF _ _ _ demo_avl_init])
      (simp_all add: new_AvlAllocator_def free_space_def)
  from avl_reachable_consistent [OF this] show ?thesis by simp
qed

end
