(* ===== verification/Block_Device.thy ===== *)
theory Block_Device
  imports Intarith
begin

text \<open>
  The synchronous half of \<open>blk/block_device.cc\<close> and \<open>blk/kernel_device.cc\<close>. The kernel is
  outside the sources: a device carries the bytes of the file and the outcomes of the system
  calls to come. An outcome that is not scripted is complete success, so a device with an empty
  script never fails.
\<close>

section \<open>State\<close>

text \<open>The result of one system call: everything asked for, a short count, or an error number.\<close>

datatype sys = Done | Short nat | Fail nat

text \<open>
  \<open>bd_data\<close> is the file, \<open>bd_len\<close> its length; \<open>bd_junk\<close> is what an uninitialised buffer
  holds.
\<close>

record BlockDevice =
  bd_fd_direct :: bool
  bd_fd_buffered :: bool
  bd_size :: u64
  bd_block_size :: u64
  bd_io_since_flush :: bool
  bd_data :: "nat \<Rightarrow> u8"
  bd_len :: nat
  bd_junk :: "nat \<Rightarrow> u8"
  bd_script :: "sys list"

definition next_sys :: "BlockDevice \<Rightarrow> sys \<times> BlockDevice" where
  "next_sys d = (case bd_script d of [] \<Rightarrow> (Done, d) | s # rest \<Rightarrow> (s, d\<lparr>bd_script := rest\<rparr>))"

text \<open>A \<open>ssize_t\<close> stored in an \<open>int\<close>.\<close>

definition as_int :: "nat \<Rightarrow> int" where
  "as_int n = signed_take_bit 31 (int n)"

lemma as_int_small: "n < 2 ^ 31 \<Longrightarrow> as_int n = int n"
  by (simp add: as_int_def signed_take_bit_int_eq_self)

section \<open>Operations\<close>

definition is_valid_io :: "BlockDevice \<Rightarrow> u64 \<Rightarrow> u64 \<Rightarrow> bool" where
  "is_valid_io d off len \<longleftrightarrow>
     \<not> off + len < off \<and> \<not> off + len > bd_size d \<and>
     off AND (bd_block_size d - 1) = 0 \<and> len AND (bd_block_size d - 1) = 0"

text \<open>\<open>bytes_at d a n\<close>: \<open>n\<close> bytes of the file from address \<open>a\<close>.\<close>

definition bytes_at :: "BlockDevice \<Rightarrow> nat \<Rightarrow> nat \<Rightarrow> bytes" where
  "bytes_at d a n = map (bd_data d) [a ..< a + n]"

definition put_bytes :: "nat \<Rightarrow> bytes \<Rightarrow> BlockDevice \<Rightarrow> BlockDevice" where
  "put_bytes a bs d =
     d\<lparr>bd_data := (\<lambda>i. if a \<le> i \<and> i < a + length bs then bs ! (i - a) else bd_data d i),
       bd_len := (if bs = [] then bd_len d else max (bd_len d) (a + length bs))\<rparr>"

text \<open>
  \<open>read\<close>: the result, the bytes appended to \<open>*pbl\<close>, the device. The buffer is pushed with its full
  length also when \<open>pread\<close> returns less.
\<close>

definition dev_read :: "u64 \<Rightarrow> u64 \<Rightarrow> bool \<Rightarrow> BlockDevice \<Rightarrow> int \<times> bytes \<times> BlockDevice" where
  "dev_read off len buffered d =
     (if \<not> buffered \<and> \<not> is_valid_io d off len then (- EINVAL, [], d)
      else if \<not> (if buffered then bd_fd_buffered d else bd_fd_direct d) then (- EBADF, [], d)
      else case next_sys d of
             (Fail e, d') \<Rightarrow> (- int e, [], d')
           | (s, d') \<Rightarrow>
               let avail = min (unat len) (bd_len d - unat off);
                   n = (case s of Short k \<Rightarrow> min k avail | _ \<Rightarrow> avail)
               in (as_int n, bytes_at d (unat off) n @ map (bd_junk d) [n ..< unat len], d'))"

text \<open>
  The \<open>while (left > 0)\<close> loop of \<open>write\<close>: one \<open>pwritev\<close> per round, which may be short. The round
  after the last scripted outcome writes all that is left, so the loop ends.
\<close>

fun write_loop :: "sys list \<Rightarrow> nat \<Rightarrow> bytes \<Rightarrow> BlockDevice \<Rightarrow> int option \<times> sys list \<times> BlockDevice" where
  "write_loop sc a [] d = (None, sc, d)"
| "write_loop [] a (b # bs) d = (None, [], put_bytes a (b # bs) d)"
| "write_loop (Done # sc) a (b # bs) d = (None, sc, put_bytes a (b # bs) d)"
| "write_loop (Fail e # sc) a (b # bs) d = (Some (- int e), sc, d)"
| "write_loop (Short n # sc) a (b # bs) d =
     write_loop sc (a + n) (drop n (b # bs)) (put_bytes a (take n (b # bs)) d)"

definition dev_write :: "u64 \<Rightarrow> bytes \<Rightarrow> bool \<Rightarrow> BlockDevice \<Rightarrow> int \<times> BlockDevice" where
  "dev_write off bl buffered d =
     (if \<not> buffered \<and> \<not> is_valid_io d off (of_nat (length bl)) then (- EINVAL, d)
      else if \<not> (if buffered then bd_fd_buffered d else bd_fd_direct d) then (- EBADF, d)
      else case write_loop (bd_script d) (unat off) bl d of
             (Some e, sc, d') \<Rightarrow> (e, d'\<lparr>bd_script := sc\<rparr>)
           | (None, sc, d') \<Rightarrow>
               (as_int (length bl), d'\<lparr>bd_script := sc, bd_io_since_flush := True\<rparr>))"

text \<open>\<open>flush\<close>: the flag is cleared before \<open>fdatasync\<close> is tried.\<close>

definition dev_flush :: "BlockDevice \<Rightarrow> int \<times> BlockDevice" where
  "dev_flush d =
     (if \<not> bd_io_since_flush d then (0, d)
      else let d1 = d\<lparr>bd_io_since_flush := False\<rparr>
           in case next_sys d1 of
                (Fail e, d2) \<Rightarrow> (- int e, d2)
              | (_, d2) \<Rightarrow> (0, d2))"

definition dev_close :: "BlockDevice \<Rightarrow> BlockDevice" where
  "dev_close d = d\<lparr>bd_fd_direct := False, bd_fd_buffered := False\<rparr>"

section \<open>Reading back\<close>

lemma length_bytes_at [simp]: "length (bytes_at d a n) = n"
  by (simp add: bytes_at_def)

lemma bytes_at_put_same: "bytes_at (put_bytes a bs d) a (length bs) = bs"
  by (rule nth_equalityI) (simp_all add: bytes_at_def put_bytes_def)

lemma bytes_at_put_other:
  "a + n \<le> b \<or> b + length bs \<le> a \<Longrightarrow> bytes_at (put_bytes b bs d) a n = bytes_at d a n"
  by (auto simp: bytes_at_def put_bytes_def)

lemma bytes_at_append: "bytes_at d a (m + n) = bytes_at d a m @ bytes_at d (a + m) n"
proof -
  have "[a ..< a + (m + n)] = [a ..< a + m] @ [a + m ..< a + m + n]"
    using upt_add_eq_append [of a "a + m" n] by (simp add: add.assoc)
  then show ?thesis by (simp add: bytes_at_def)
qed

lemma put_bytes_sel [simp]:
  "bd_size (put_bytes a bs d) = bd_size d" "bd_block_size (put_bytes a bs d) = bd_block_size d"
  "bd_fd_direct (put_bytes a bs d) = bd_fd_direct d" "bd_fd_buffered (put_bytes a bs d) = bd_fd_buffered d"
  "bd_script (put_bytes a bs d) = bd_script d" "bd_junk (put_bytes a bs d) = bd_junk d"
  by (simp_all add: put_bytes_def)

lemma put_bytes_Nil [simp]: "put_bytes a [] d = d"
  by (rule BlockDevice.equality) (auto simp: put_bytes_def fun_eq_iff)

lemma bytes_at_upd [simp]:
  "bytes_at (d\<lparr>bd_script := sc\<rparr>) a n = bytes_at d a n"
  "bytes_at (d\<lparr>bd_io_since_flush := f\<rparr>) a n = bytes_at d a n"
  by (simp_all add: bytes_at_def)

text \<open>A chunked write is one write.\<close>

lemma put_bytes_split:
  "n \<le> length bs \<Longrightarrow> put_bytes (a + n) (drop n bs) (put_bytes a (take n bs) d) = put_bytes a bs d"
  by (cases "bs = []"; rule BlockDevice.equality) (auto simp: put_bytes_def fun_eq_iff min_def)

definition no_fail :: "sys list \<Rightarrow> bool" where
  "no_fail sc \<longleftrightarrow> (\<forall>e. Fail e \<notin> set sc)"

text \<open>Short writes are made up for: unless a call fails, everything is written.\<close>

lemma write_loop_complete:
  "fst (write_loop sc a bs d) = None \<Longrightarrow> snd (snd (write_loop sc a bs d)) = put_bytes a bs d"
proof (induction sc a bs d rule: write_loop.induct)
  case (5 n sc a b bs d)
  show ?case
  proof (cases "n \<le> length (b # bs)")
    case True
    then show ?thesis using 5 put_bytes_split [OF True, of a d] by simp
  next
    case False
    then show ?thesis using 5 by simp
  qed
qed simp_all

lemma write_loop_no_fail: "no_fail sc \<Longrightarrow> fst (write_loop sc a bs d) = None"
  by (induction sc a bs d rule: write_loop.induct) (auto simp: no_fail_def)


section \<open>Healthy devices\<close>

text \<open>An open device whose system calls succeed and whose file has the size found by \<open>open\<close>.\<close>

definition healthy :: "BlockDevice \<Rightarrow> bool" where
  "healthy d \<longleftrightarrow> bd_fd_direct d \<and> bd_fd_buffered d \<and> bd_script d = [] \<and> bd_len d = unat (bd_size d) \<and>
     (\<exists>k \<le> 12. bd_block_size d = 2 ^ k) \<and> unat (bd_size d) < 2 ^ 63"

text \<open>A device after writing \<open>bs\<close> at \<open>a\<close>, with the flush flag set to \<open>f\<close>.\<close>

definition wrote :: "nat \<Rightarrow> bytes \<Rightarrow> bool \<Rightarrow> BlockDevice \<Rightarrow> BlockDevice" where
  "wrote a bs f d = (put_bytes a bs d)\<lparr>bd_io_since_flush := f\<rparr>"

lemma healthy_wrote:
  "healthy d \<Longrightarrow> a + length bs \<le> unat (bd_size d) \<Longrightarrow> healthy (wrote a bs f d)"
  by (auto simp: healthy_def wrote_def put_bytes_def)

lemma bytes_at_wrote:
  "bytes_at (wrote a bs f d) a (length bs) = bs"
  "b + n \<le> a \<or> a + length bs \<le> b \<Longrightarrow> bytes_at (wrote a bs f d) b n = bytes_at d b n"
  by (simp_all add: wrote_def bytes_at_put_same bytes_at_put_other)

lemma wrote_sel [simp]: "bd_size (wrote a bs f d) = bd_size d"
  by (simp add: wrote_def)

lemma aligned_and:
  assumes "k \<le> 12" "4096 dvd unat x"
  shows "(x::u64) AND (2 ^ k - 1) = 0"
proof -
  have "2 ^ k dvd (2 ^ 12 :: nat)" using assms(1) by (rule le_imp_power_dvd)
  then have "2 ^ k dvd unat x" using assms(2) by (auto intro: dvd_trans)
  then have "unat (take_bit k x) = 0"
    by (simp add: unsigned_take_bit_eq take_bit_eq_mod [of k "unat x"] dvd_eq_mod_eq_0)
  then show ?thesis by (simp add: unat_0_iff flip: mask_eq_exp_minus_1 take_bit_eq_mask)
qed

lemma is_valid_io_page:
  assumes "healthy d" "4096 dvd unat off" "4096 dvd unat len" "unat off + unat len \<le> unat (bd_size d)"
  shows "is_valid_io d off len"
proof -
  have "unat (off + len) = unat off + unat len"
    using assms by (intro unat_add_nowrap) (simp add: healthy_def)
  then show ?thesis
    using assms aligned_and by (auto simp: is_valid_io_def healthy_def word_less_nat_alt)
qed

lemma dev_read_healthy:
  assumes "healthy d" "unat off + unat len \<le> unat (bd_size d)" "unat len < 2 ^ 31"
    "buffered \<or> (4096 dvd unat off \<and> 4096 dvd unat len)"
  shows "dev_read off len buffered d = (int (unat len), bytes_at d (unat off) (unat len), d)"
proof -
  have "buffered \<or> is_valid_io d off len" using assms is_valid_io_page by blast
  moreover have "min (unat len) (bd_len d - unat off) = unat len" using assms(1,2) by (simp add: healthy_def)
  ultimately show ?thesis
    using assms(1,3) by (auto simp: dev_read_def healthy_def next_sys_def as_int_small)
qed

lemma write_loop_nil: "write_loop [] a bs d = (None, [], put_bytes a bs d)"
  by (cases bs) simp_all

lemma dev_write_healthy:
  assumes "healthy d" "unat off + length bl \<le> unat (bd_size d)" "length bl < 2 ^ 31"
    "buffered \<or> (4096 dvd unat off \<and> 4096 dvd length bl)"
  shows "dev_write off bl buffered d = (int (length bl), wrote (unat off) bl True d)"
proof -
  have l: "unat (of_nat (length bl) :: u64) = length bl"
    using assms(3) by (simp add: unat_of_nat)
  have "buffered \<or> is_valid_io d off (of_nat (length bl))" using assms is_valid_io_page l by metis
  then show ?thesis
    using assms(1,3) by (auto simp: dev_write_def healthy_def write_loop_nil as_int_small wrote_def)
qed

lemma dev_flush_healthy: "healthy d \<Longrightarrow> dev_flush d = (0, d\<lparr>bd_io_since_flush := False\<rparr>)"
  by (auto simp: dev_flush_def healthy_def next_sys_def)

lemma wrote_flush [simp]: "(wrote a bs f d)\<lparr>bd_io_since_flush := g\<rparr> = wrote a bs g d"
  by (simp add: wrote_def)

section \<open>Properties\<close>

text \<open>Short writes are resumed: unless a \<open>pwritev\<close> fails, \<open>write\<close> stores the whole buffer at its offset,
  touches no other byte, and returns its length, for every sequence of short counts the kernel returns.\<close>

theorem dev_write_complete:
  assumes "bd_fd_buffered d" "no_fail (bd_script d)" "length bl < 2 ^ 31" "dev_write off bl True d = (r, d')"
  shows "r = int (length bl) \<and> bytes_at d' (unat off) (length bl) = bl \<and>
    (\<forall>a n. a + n \<le> unat off \<or> unat off + length bl \<le> a \<longrightarrow> bytes_at d' a n = bytes_at d a n)"
proof -
  obtain e sc d1 where w: "write_loop (bd_script d) (unat off) bl d = (e, sc, d1)" by (metis surj_pair)
  have "e = None" using write_loop_no_fail [OF assms(2), of "unat off" bl d] w by simp
  moreover from this have "d1 = put_bytes (unat off) bl d"
    using write_loop_complete [of "bd_script d" "unat off" bl d] w by simp
  ultimately have "r = int (length bl)" "d' = (put_bytes (unat off) bl d)\<lparr>bd_script := sc, bd_io_since_flush := True\<rparr>"
    using assms(1,3,4) w by (auto simp: dev_write_def as_int_small)
  then show ?thesis by (simp add: bytes_at_put_same bytes_at_put_other)
qed

definition demo_dev :: "sys list \<Rightarrow> BlockDevice" where
  "demo_dev sc = \<lparr>bd_fd_direct = True, bd_fd_buffered = True, bd_size = 65536, bd_block_size = 4096,
     bd_io_since_flush = False, bd_data = (\<lambda>_. 0), bd_len = 65536, bd_junk = (\<lambda>_. 0xAA), bd_script = sc\<rparr>"

theorem dev_write_complete_witness:
  "\<exists>d'. dev_write 5 [1, 2, 3] True (demo_dev [Short 1, Short 0, Short 1]) = (3, d') \<and> bytes_at d' 5 (length [1, 2, 3 :: u8]) = [1, 2, 3]"
proof -
  let ?d = "demo_dev [Short 1, Short 0, Short 1]"
  obtain r d' where w: "dev_write 5 [1, 2, 3] True ?d = (r, d')" by (metis surj_pair)
  have "bd_fd_buffered ?d" "no_fail (bd_script ?d)" "length [1, 2, 3 :: u8] < 2 ^ 31"
    by (simp_all add: demo_dev_def no_fail_def)
  from dev_write_complete [OF this w] w show ?thesis by auto
qed

text \<open>A failed \<open>fdatasync\<close> is reported only once: \<open>flush\<close> has already cleared \<open>io_since_flush_\<close>, so the next
  \<open>flush\<close> returns success without making the written data durable.\<close>

theorem dev_flush_failure_forgotten:
  assumes "bd_io_since_flush d" "bd_script d = Fail e # sc" "dev_flush d = (r, d')"
  shows "r = - int e \<and> dev_flush d' = (0, d') \<and> bd_script d' = sc"
  using assms by (auto simp: dev_flush_def next_sys_def Let_def)

theorem dev_flush_failure_forgotten_witness:
  "let d = (demo_dev [Fail 5])\<lparr>bd_io_since_flush := True\<rparr>; (r, d') = dev_flush d
   in r = - 5 \<and> fst (dev_flush d') = 0"
proof -
  obtain r d' where f: "dev_flush ((demo_dev [Fail 5])\<lparr>bd_io_since_flush := True\<rparr>) = (r, d')" by (metis surj_pair)
  from dev_flush_failure_forgotten [OF _ _ this, of 5 "[]"] f show ?thesis by (simp add: demo_dev_def)
qed

end
