(* ===== verification/Journal.thy ===== *)
theory Journal
  imports Btier_Types Block_Device "HOL-Library.Monad_Syntax"
begin

text \<open>
  \<open>btier/journal.cc\<close>: record serialisation, the superblock, transactions, checkpoints and
  recovery. The journal lives at the start of a block device, which is passed along explicitly:
  the FAST device, shared with the extents. The lock is held for the whole of every operation.
\<close>

section \<open>Records\<close>

named_theorems op_defs

definition OP_TXN_BEGIN :: u8 where [op_defs]: "OP_TXN_BEGIN = 1"
definition OP_KEY_PUT :: u8 where [op_defs]: "OP_KEY_PUT = 2"
definition OP_KEY_DEL :: u8 where [op_defs]: "OP_KEY_DEL = 3"
definition OP_MARK_DEAD :: u8 where [op_defs]: "OP_MARK_DEAD = 4"
definition OP_EXTENT_NEW :: u8 where [op_defs]: "OP_EXTENT_NEW = 5"
definition OP_EXTENT_FREE :: u8 where [op_defs]: "OP_EXTENT_FREE = 6"
definition OP_TXN_COMMIT :: u8 where [op_defs]: "OP_TXN_COMMIT = 7"
definition OP_CHECKPOINT :: u8 where [op_defs]: "OP_CHECKPOINT = 8"

record JournalRecord =
  jr_op :: u8
  jr_txn_id :: u64
  jr_key :: bytes
  jr_key_loc :: KeyLocation
  jr_extent_id :: u64
  jr_extent_loc :: DiskLocation
  jr_dead_length :: u32
  jr_crc :: u32

text \<open>A record with the default member values; \<open>op\<close> has none and is always assigned.\<close>

definition new_record :: "u8 \<Rightarrow> JournalRecord" where
  "new_record op = \<lparr>jr_op = op, jr_txn_id = 0, jr_key = [], jr_key_loc = default_KeyLocation,
     jr_extent_id = 0, jr_extent_loc = default_DiskLocation, jr_dead_length = 0, jr_crc = 0\<rparr>"

section \<open>Serialisation\<close>

definition put_string :: "bytes \<Rightarrow> bytes" where
  "put_string s = le_bytes 4 (of_nat (length s) :: u32) @ s"

definition put_key_location :: "KeyLocation \<Rightarrow> bytes" where
  "put_key_location kl =
     le_bytes 8 (kl_extent_id kl) @ le_bytes 4 (kl_offset kl) @ le_bytes 4 (kl_length kl)"

definition put_disk_location :: "DiskLocation \<Rightarrow> bytes" where
  "put_disk_location dl = le_bytes 8 (dl_offset dl) @ le_bytes 4 (dl_length dl) @ [tier_byte (dl_tier dl)]"

definition serialize_record :: "JournalRecord \<Rightarrow> bytes" where
  "serialize_record rec =
     [jr_op rec] @ le_bytes 8 (jr_txn_id rec) @
     (if jr_op rec = OP_KEY_PUT then put_string (jr_key rec) @ put_key_location (jr_key_loc rec)
      else if jr_op rec = OP_KEY_DEL then put_string (jr_key rec)
      else if jr_op rec = OP_MARK_DEAD
      then le_bytes 8 (jr_extent_id rec) @ le_bytes 4 (jr_dead_length rec)
      else if jr_op rec = OP_EXTENT_NEW
      then le_bytes 8 (jr_extent_id rec) @ put_disk_location (jr_extent_loc rec)
      else if jr_op rec = OP_EXTENT_FREE then le_bytes 8 (jr_extent_id rec)
      else if jr_op rec = OP_TXN_COMMIT then le_bytes 4 (jr_crc rec)
      else [])"

text \<open>\<open>iterator::copy\<close> throws \<open>end_of_buffer\<close> when the buffer is too short: \<open>None\<close>.\<close>

definition get_bytes :: "nat \<Rightarrow> bytes \<Rightarrow> (bytes \<times> bytes) option" where
  "get_bytes n p = (if n \<le> length p then Some (take n p, drop n p) else None)"

definition get_u8 :: "bytes \<Rightarrow> (u8 \<times> bytes) option" where
  "get_u8 p = do { (b, p) \<leftarrow> get_bytes 1 p; Some (le_value b, p) }"

definition get_u32 :: "bytes \<Rightarrow> (u32 \<times> bytes) option" where
  "get_u32 p = do { (b, p) \<leftarrow> get_bytes 4 p; Some (le_value b, p) }"

definition get_u64 :: "bytes \<Rightarrow> (u64 \<times> bytes) option" where
  "get_u64 p = do { (b, p) \<leftarrow> get_bytes 8 p; Some (le_value b, p) }"

definition get_string :: "bytes \<Rightarrow> (bytes \<times> bytes) option" where
  "get_string p = do { (len, p) \<leftarrow> get_u32 p; get_bytes (unat len) p }"

definition get_key_location :: "bytes \<Rightarrow> (KeyLocation \<times> bytes) option" where
  "get_key_location p = do {
     (e, p) \<leftarrow> get_u64 p;
     (off, p) \<leftarrow> get_u32 p;
     (len, p) \<leftarrow> get_u32 p;
     Some (\<lparr>kl_extent_id = e, kl_offset = off, kl_length = len\<rparr>, p) }"

definition get_disk_location :: "bytes \<Rightarrow> (DiskLocation \<times> bytes) option" where
  "get_disk_location p = do {
     (off, p) \<leftarrow> get_u64 p;
     (len, p) \<leftarrow> get_u32 p;
     (t, p) \<leftarrow> get_u8 p;
     Some (\<lparr>dl_offset = off, dl_length = len, dl_tier = byte_tier t\<rparr>, p) }"

definition deserialize_record :: "bytes \<Rightarrow> (JournalRecord \<times> bytes) option" where
  "deserialize_record p = do {
     (op, p) \<leftarrow> get_u8 p;
     (txn, p) \<leftarrow> get_u64 p;
     let rec = (new_record op)\<lparr>jr_txn_id := txn\<rparr>;
     if op = OP_KEY_PUT then do {
       (k, p) \<leftarrow> get_string p;
       (kl, p) \<leftarrow> get_key_location p;
       Some (rec\<lparr>jr_key := k, jr_key_loc := kl\<rparr>, p) }
     else if op = OP_KEY_DEL then do {
       (k, p) \<leftarrow> get_string p;
       Some (rec\<lparr>jr_key := k\<rparr>, p) }
     else if op = OP_MARK_DEAD then do {
       (e, p) \<leftarrow> get_u64 p;
       (n, p) \<leftarrow> get_u32 p;
       Some (rec\<lparr>jr_extent_id := e, jr_dead_length := n\<rparr>, p) }
     else if op = OP_EXTENT_NEW then do {
       (e, p) \<leftarrow> get_u64 p;
       (dl, p) \<leftarrow> get_disk_location p;
       Some (rec\<lparr>jr_extent_id := e, jr_extent_loc := dl\<rparr>, p) }
     else if op = OP_EXTENT_FREE then do {
       (e, p) \<leftarrow> get_u64 p;
       Some (rec\<lparr>jr_extent_id := e\<rparr>, p) }
     else if op = OP_TXN_COMMIT then do {
       (c, p) \<leftarrow> get_u32 p;
       Some (rec\<lparr>jr_crc := c\<rparr>, p) }
     else Some (rec, p) }"

section \<open>The superblock\<close>

definition kSuperblockSize :: u64 where "kSuperblockSize = 4096"
definition kDataStart :: u64 where "kDataStart = kSuperblockSize"
definition kTxnAlignment :: u64 where "kTxnAlignment = 4096"

record JournalSuperBlock =
  sb_magic :: u64
  sb_checkpoint_offset :: u64
  sb_checkpoint_seqno :: u64
  sb_write_offset :: u64
  sb_pad :: bytes

definition SB_MAGIC :: u64 where "SB_MAGIC = 0x42544A5350423031"

definition sb_image :: "JournalSuperBlock \<Rightarrow> bytes" where
  "sb_image sb = le_bytes 8 (sb_magic sb) @ le_bytes 8 (sb_checkpoint_offset sb) @
     le_bytes 8 (sb_checkpoint_seqno sb) @ le_bytes 8 (sb_write_offset sb) @ sb_pad sb"

definition sb_parse :: "bytes \<Rightarrow> JournalSuperBlock" where
  "sb_parse b = \<lparr>sb_magic = le_value (take 8 b), sb_checkpoint_offset = le_value (take 8 (drop 8 b)),
     sb_checkpoint_seqno = le_value (take 8 (drop 16 b)), sb_write_offset = le_value (take 8 (drop 24 b)),
     sb_pad = take 4064 (drop 32 b)\<rparr>"

definition zero_sb :: JournalSuperBlock where
  "zero_sb = \<lparr>sb_magic = 0, sb_checkpoint_offset = 0, sb_checkpoint_seqno = 0, sb_write_offset = 0,
     sb_pad = replicate 4064 0\<rparr>"

section \<open>State\<close>

record TxnBuffer =
  tb_txn_id :: u64
  tb_records :: "JournalRecord list"
  tb_serialized :: bytes

record Journal =
  j_dev_size :: u64
  j_data_size :: u64
  j_next_txn_id :: u64
  j_active_txns :: "(u64 \<times> TxnBuffer) list"
  j_superblock :: JournalSuperBlock
  j_write_offset :: u64

text \<open>\<open>Journal::Impl\<close>: the padding of the superblock is not initialised.\<close>

definition new_Impl :: "u64 \<Rightarrow> bytes \<Rightarrow> Journal" where
  "new_Impl ds pad = \<lparr>j_dev_size = ds,
     j_data_size = (if ds > kSuperblockSize then ds - kSuperblockSize else 0),
     j_next_txn_id = 1, j_active_txns = [], j_superblock = zero_sb\<lparr>sb_pad := pad\<rparr>, j_write_offset = 0\<rparr>"

type_synonym jdev = "Journal \<times> BlockDevice"

definition write_superblock :: "jdev \<Rightarrow> int \<times> jdev" where
  "write_superblock = (\<lambda>(j, d).
     let (r, d1) = dev_write 0 (sb_image (j_superblock j)) False d
     in if r < 0 then (r, j, d1)
        else let (f, d2) = dev_flush d1 in (f, j, d2))"

definition read_superblock :: "jdev \<Rightarrow> int \<times> jdev" where
  "read_superblock = (\<lambda>(j, d).
     let (r, bl, d1) = dev_read 0 4096 False d
     in if r < 0 then (r, j, d1)
        else if length bl < 4096 then (- EIO, j, d1)
        else let sb = sb_parse bl
             in if sb_magic sb \<noteq> SB_MAGIC
                then write_superblock (j\<lparr>j_superblock := zero_sb\<lparr>sb_magic := SB_MAGIC\<rparr>, j_write_offset := 0\<rparr>, d1)
                else (0, j\<lparr>j_superblock := sb, j_write_offset := sb_write_offset sb\<rparr>, d1))"

definition new_Journal :: "u64 \<Rightarrow> bytes \<Rightarrow> BlockDevice \<Rightarrow> jdev" where
  "new_Journal ds pad d = snd (read_superblock (new_Impl ds pad, d))"

section \<open>Writing\<close>

definition pad_and_write :: "bytes \<Rightarrow> jdev \<Rightarrow> int \<times> jdev" where
  "pad_and_write bl = (\<lambda>(j, d).
     let len = of_nat (length bl) :: u64;
         p0 = round_up_to len kTxnAlignment;
         padded = (if p0 = 0 then kTxnAlignment else p0);
         bl1 = (if padded > len then bl @ replicate (unat (padded - len)) 0 else bl);
         wo = (if j_write_offset j + padded > j_data_size j then 0 else j_write_offset j);
         (r, d1) = dev_write (kDataStart + wo) bl1 False d
     in if r < 0 then (r, j\<lparr>j_write_offset := wo\<rparr>, d1)
        else let wo1 = wo + padded;
                 wo2 = (if wo1 \<ge> j_data_size j then 0 else wo1);
                 (f, d2) = dev_flush d1
             in (f, j\<lparr>j_write_offset := wo2\<rparr>, d2))"

definition begin_txn :: "Journal \<Rightarrow> u64 \<times> Journal" where
  "begin_txn j =
     (let tid = j_next_txn_id j;
          tb = (case map_of (j_active_txns j) tid of
                  Some tb \<Rightarrow> tb\<lparr>tb_txn_id := tid\<rparr>
                | None \<Rightarrow> \<lparr>tb_txn_id = tid, tb_records = [], tb_serialized = []\<rparr>)
      in (tid, j\<lparr>j_next_txn_id := tid + 1, j_active_txns := AList.update tid tb (j_active_txns j)\<rparr>))"

definition append :: "u64 \<Rightarrow> JournalRecord \<Rightarrow> Journal \<Rightarrow> int \<times> Journal" where
  "append txn_id rec j =
     (case map_of (j_active_txns j) txn_id of
        None \<Rightarrow> (- ENOENT, j)
      | Some tb \<Rightarrow>
          let r = rec\<lparr>jr_txn_id := txn_id\<rparr>;
              tb' = tb\<lparr>tb_serialized := tb_serialized tb @ serialize_record r,
                       tb_records := tb_records tb @ [r]\<rparr>
          in (0, j\<lparr>j_active_txns := AList.update txn_id tb' (j_active_txns j)\<rparr>))"

text \<open>\<open>crc\<close> stays 0 when there are no records.\<close>

definition records_crc :: "bytes \<Rightarrow> u32" where
  "records_crc bl = (if bl \<noteq> [] then calc_crc32 (Some bl) (length bl) 0 else 0)"

definition begin_record :: "u64 \<Rightarrow> JournalRecord" where
  "begin_record tid = (new_record OP_TXN_BEGIN)\<lparr>jr_txn_id := tid\<rparr>"

definition commit_record :: "u64 \<Rightarrow> u32 \<Rightarrow> JournalRecord" where
  "commit_record tid crc = (new_record OP_TXN_COMMIT)\<lparr>jr_txn_id := tid, jr_crc := crc\<rparr>"

text \<open>The result of \<open>write_superblock\<close> is not looked at.\<close>

definition commit_txn :: "u64 \<Rightarrow> jdev \<Rightarrow> int \<times> jdev" where
  "commit_txn txn_id = (\<lambda>(j, d).
     case map_of (j_active_txns j) txn_id of
       None \<Rightarrow> (- ENOENT, j, d)
     | Some tb \<Rightarrow>
         let crc = records_crc (tb_serialized tb);
             txn_bl = serialize_record (begin_record txn_id) @ tb_serialized tb @
                      serialize_record (commit_record txn_id crc);
             j1 = j\<lparr>j_active_txns := AList.delete txn_id (j_active_txns j)\<rparr>;
             (r, j2, d2) = pad_and_write txn_bl (j1, d)
         in if r < 0 then (r, j2, d2)
            else let j3 = j2\<lparr>j_superblock := (j_superblock j2)\<lparr>sb_write_offset := j_write_offset j2\<rparr>\<rparr>
                 in (0, snd (write_superblock (j3, d2))))"

text \<open>
  How the engine logs a transaction: \<open>begin_txn\<close>, one \<open>append\<close> per record with its result ignored,
  \<open>commit_txn\<close>.
\<close>

definition run_txn :: "JournalRecord list \<Rightarrow> jdev \<Rightarrow> int \<times> jdev" where
  "run_txn recs = (\<lambda>(j, d).
     let (tid, j1) = begin_txn j;
         j2 = foldl (\<lambda>j rec. snd (append tid rec j)) j1 recs
     in commit_txn tid (j2, d))"

definition journal_checkpoint :: "JournalRecord list \<Rightarrow> jdev \<Rightarrow> int \<times> jdev" where
  "journal_checkpoint full_state = (\<lambda>(j, d).
     let records_bl = concat (map serialize_record full_state);
         crc = records_crc records_bl;
         bl = serialize_record (begin_record 0) @ serialize_record (new_record OP_CHECKPOINT) @
              records_bl @ serialize_record (commit_record 0 crc);
         ckpt_start = j_write_offset j;
         (r, j2, d2) = pad_and_write bl (j, d)
     in if r < 0 then (r, j2, d2)
        else let sb = j_superblock j2;
                 j3 = j2\<lparr>j_superblock := sb\<lparr>sb_checkpoint_offset := ckpt_start,
                        sb_write_offset := j_write_offset j2,
                        sb_checkpoint_seqno := sb_checkpoint_seqno sb + 1\<rparr>\<rparr>
             in (0, snd (write_superblock (j3, d2))))"

definition trim :: "jdev \<Rightarrow> jdev" where
  "trim = (\<lambda>(j, d).
     snd (write_superblock
       (j\<lparr>j_superblock := (j_superblock j)\<lparr>sb_checkpoint_offset := j_write_offset j,
            sb_write_offset := j_write_offset j\<rparr>\<rparr>, d)))"

definition journal_sync :: "jdev \<Rightarrow> jdev" where
  "journal_sync = (\<lambda>(j, d). (j, snd (dev_flush d)))"

definition journal_close :: "jdev \<Rightarrow> jdev" where
  "journal_close = (\<lambda>(j, d). (j, snd (dev_flush d)))"

section \<open>Recovery\<close>

lemma dev_read_nonempty: "dev_read off len b d = (r, chunk, d1) \<Longrightarrow> chunk \<noteq> [] \<Longrightarrow> len \<noteq> 0"
  by (auto simp: dev_read_def bytes_at_def Let_def split: if_splits prod.splits sys.splits)

lemma clip_le:
  fixes pos t ds remaining :: u64
  assumes "pos \<le> ds" "t \<le> remaining"
  shows "(if pos + t > ds then ds - pos else t) \<le> remaining"
proof (cases "pos + t > ds")
  case True
  have "unat (pos + t) \<le> unat pos + unat t" by (simp add: unat_word_ariths)
  moreover have "unat ds < unat (pos + t)" using True by (simp add: word_less_nat_alt)
  moreover have "unat (ds - pos) = unat ds - unat pos" using assms(1) by (rule unat_sub_le)
  ultimately have "unat (ds - pos) \<le> unat t" by linarith
  then show ?thesis using True assms(2) by (simp add: word_le_nat_alt)
qed (simp add: assms)

lemma read_loop_less:
  fixes t remaining :: u64
  assumes "t \<noteq> 0" "t \<le> remaining"
  shows "unat (remaining - t) < unat remaining"
proof -
  have "0 < unat t" "unat t \<le> unat remaining" using assms by (simp_all add: unat_gt_0 word_le_nat_alt)
  then show ?thesis using unat_sub_le [OF assms(2)] by linarith
qed

text \<open>
  The loop that reads the scan range. A superblock whose offset lies behind the data area makes
  \<open>data_size - read_pos\<close> wrap, and the read overruns its buffer: \<open>None\<close>.
\<close>

function read_loop :: "u64 \<Rightarrow> u64 \<Rightarrow> u64 \<Rightarrow> bytes \<Rightarrow> BlockDevice \<Rightarrow> (bytes \<times> BlockDevice) option" where
  "read_loop data_size remaining pos acc d =
     (if remaining = 0 then Some (acc, d)
      else if pos > data_size then None
      else let t0 = min kTxnAlignment remaining;
               to_read = (if pos + t0 > data_size then data_size - pos else t0);
               (r, chunk, d1) = dev_read (kDataStart + pos) to_read True d
           in if r < 0 \<or> chunk = [] then Some (acc, d1)
              else let p = pos + to_read
                   in read_loop data_size (remaining - to_read) (if p \<ge> data_size then 0 else p)
                        (acc @ chunk) d1)"
  by pat_completeness auto

termination
proof (relation "measure (\<lambda>(_, remaining, _). unat remaining)", simp)
  fix ds remaining pos :: u64 and acc d t0 to_read x r y chunk d1 p
  assume a: "remaining \<noteq> 0" "\<not> pos > ds" "t0 = min kTxnAlignment remaining"
    "to_read = (if pos + t0 > ds then ds - pos else t0)" "x = dev_read (kDataStart + pos) to_read True d"
    "(r, y) = x" "(chunk, d1) = y" "\<not> (r < 0 \<or> chunk = [])"
  have "to_read \<le> remaining" unfolding a(4) by (rule clip_le) (use a in auto)
  moreover have "to_read \<noteq> 0" by (rule dev_read_nonempty [of _ _ _ _ r chunk d1]) (use a in auto)
  ultimately show "((ds, remaining - to_read, if p \<ge> ds then 0 else p, acc @ chunk, d1), ds, remaining, pos, acc, d)
    \<in> measure (\<lambda>(_, remaining, _). unat remaining)"
    using read_loop_less [of to_read remaining] by simp
qed

declare read_loop.simps [simp del]


lemma get_bytes_shorter: "get_bytes n p = Some (x, q) \<Longrightarrow> length q \<le> length p - n \<and> n \<le> length p"
  by (auto simp: get_bytes_def split: if_splits)

lemma get_num_shorter:
  "get_u8 p = Some (a, q) \<Longrightarrow> length q < length p" "get_u32 p = Some (b, q) \<Longrightarrow> length q \<le> length p"
  "get_u64 p = Some (c, q) \<Longrightarrow> length q \<le> length p" "get_string p = Some (e, q) \<Longrightarrow> length q \<le> length p"
  by (auto simp: get_u8_def get_u32_def get_u64_def get_string_def bind_eq_Some_conv split: prod.splits
      dest!: get_bytes_shorter)

lemma get_location_shorter:
  "get_key_location p = Some (a, q) \<Longrightarrow> length q \<le> length p"
  "get_disk_location p = Some (b, q) \<Longrightarrow> length q \<le> length p"
  by (auto simp: get_key_location_def get_disk_location_def bind_eq_Some_conv split: prod.splits
      dest!: get_num_shorter)

lemma deserialize_shorter:
  "deserialize_record p = Some (rec, q) \<Longrightarrow> length q < length p"
  by (auto simp: deserialize_record_def bind_eq_Some_conv Let_def split: prod.splits if_splits
      dest!: get_num_shorter get_location_shorter)

text \<open>The loop that parses the buffer; the iterator is the offset \<open>off\<close>.\<close>

function parse_loop ::
  "bytes \<Rightarrow> nat \<Rightarrow> bool \<Rightarrow> u64 \<Rightarrow> JournalRecord list \<Rightarrow> JournalRecord list \<Rightarrow> JournalRecord list option"
where
  "parse_loop full off in_txn cur_id cur result =
     (if length full - off < 9 then Some result
      else case deserialize_record (drop off full) of
             None \<Rightarrow> None
           | Some (rec, rest) \<Rightarrow>
               let off' = length full - length rest in
               if jr_op rec = 0
               then let nb = (off div 4096 + 1) * 4096
                    in if nb \<ge> length full then Some result
                       else parse_loop full nb in_txn cur_id cur result
               else if jr_op rec = OP_TXN_BEGIN
               then parse_loop full off' True (jr_txn_id rec) [] result
               else if jr_op rec = OP_TXN_COMMIT
               then let good = in_txn \<and> jr_txn_id rec = cur_id \<and>
                      records_crc (concat (map serialize_record cur)) = jr_crc rec
                    in parse_loop full off' False cur_id [] (if good then result @ cur else result)
               else if in_txn \<and> jr_op rec \<noteq> OP_CHECKPOINT
               then parse_loop full off' in_txn cur_id (cur @ [rec]) result
               else parse_loop full off' in_txn cur_id cur result)"
  by pat_completeness auto

termination
  by (relation "measure (\<lambda>(full, off, _). length full - off)")
    (auto dest!: deserialize_shorter intro!: diff_less_mono2)

declare parse_loop.simps [simp del]

definition recover_scan :: "jdev \<Rightarrow> (JournalRecord list \<times> jdev) option" where
  "recover_scan = (\<lambda>(j, d).
     let scan_start = sb_checkpoint_offset (j_superblock j);
         scan_end = j_write_offset j;
         scan_len = (if scan_end \<ge> scan_start then scan_end - scan_start
                     else j_data_size j - scan_start + scan_end)
     in do {
       (full, d1) \<leftarrow> read_loop (j_data_size j) scan_len scan_start [] d;
       result \<leftarrow> parse_loop full 0 False 0 [] [];
       Some (result, j, d1) })"

text \<open>\<open>recover\<close>: \<open>None\<close> when an exception leaves it.\<close>

definition journal_recover :: "jdev \<Rightarrow> (JournalRecord list \<times> jdev) option" where
  "journal_recover jd0 =
     (let (r, j, d) = read_superblock jd0
      in if r < 0 then Some ([], j, d)
         else if sb_checkpoint_offset (j_superblock j) = j_write_offset j
         then if j_write_offset j = 0
              then let (r1, first, d1) = dev_read kDataStart kTxnAlignment True d
                   in if r1 < 0 \<or> first = [] then Some ([], j, d1)
                      else if \<forall>b \<in> set first. b = 0 then Some ([], j, d1)
                      else recover_scan (j, d1)
              else Some ([], j, d)
         else recover_scan (j, d))"

section \<open>Space\<close>

definition journal_used_bytes :: "Journal \<Rightarrow> u64" where
  "journal_used_bytes j =
     (let cp = sb_checkpoint_offset (j_superblock j); wp = j_write_offset j
      in if wp \<ge> cp then wp - cp else j_data_size j - cp + wp)"

text \<open>
  \<open>get_usage() >= 0.80\<close> and \<open>>= 0.95\<close> as comparisons of integers: for a data area below \<open>2 ^ 48\<close> bytes the
  double quotient is on the same side of the threshold as the exact one.
\<close>

definition needs_checkpoint :: "Journal \<Rightarrow> bool" where
  "needs_checkpoint j \<longleftrightarrow> j_data_size j = 0 \<or> 80 * unat (j_data_size j) \<le> 100 * unat (journal_used_bytes j)"

definition is_near_full :: "Journal \<Rightarrow> bool" where
  "is_near_full j \<longleftrightarrow> j_data_size j = 0 \<or> 95 * unat (j_data_size j) \<le> 100 * unat (journal_used_bytes j)"

end
