(* ===== verification/Journal_Correct.thy ===== *)
theory Journal_Correct
  imports Journal
begin

text \<open>
  Correctness of the journal. Records are read back as written; a log of transactions is a sequence of frames
  (\<open>frame\<close>), which recovery parses back completely (\<open>parse_frames\<close>); \<open>jlog_ok\<close> relates a journal object and
  its device to the transactions logged since the last checkpoint. On top of that: committed transactions survive a
  restart, failed ones leave no trace, a checkpoint replaces the log, and two cases in which a reported success is lost.
\<close>

section \<open>Record round trip\<close>

text \<open>The fields a record of its kind carries; the others are lost.\<close>

definition view :: "JournalRecord \<Rightarrow> JournalRecord" where
  "view rec = (let v = (new_record (jr_op rec))\<lparr>jr_txn_id := jr_txn_id rec\<rparr> in
     if jr_op rec = OP_KEY_PUT then v\<lparr>jr_key := jr_key rec, jr_key_loc := jr_key_loc rec\<rparr>
     else if jr_op rec = OP_KEY_DEL then v\<lparr>jr_key := jr_key rec\<rparr>
     else if jr_op rec = OP_MARK_DEAD
     then v\<lparr>jr_extent_id := jr_extent_id rec, jr_dead_length := jr_dead_length rec\<rparr>
     else if jr_op rec = OP_EXTENT_NEW
     then v\<lparr>jr_extent_id := jr_extent_id rec, jr_extent_loc := jr_extent_loc rec\<rparr>
     else if jr_op rec = OP_EXTENT_FREE then v\<lparr>jr_extent_id := jr_extent_id rec\<rparr>
     else if jr_op rec = OP_TXN_COMMIT then v\<lparr>jr_crc := jr_crc rec\<rparr>
     else v)"

text \<open>What fits the format: keys below \<open>2 ^ 32\<close> bytes and named tiers.\<close>

definition storable :: "JournalRecord \<Rightarrow> bool" where
  "storable rec \<longleftrightarrow> length (jr_key rec) < 2 ^ 32 \<and> named_tier (dl_tier (jr_extent_loc rec))"

lemma get_bytes_append [simp]: "length b = n \<Longrightarrow> get_bytes n (b @ q) = Some (b, q)"
  by (auto simp: get_bytes_def)

lemma get_u64_put [simp]: "get_u64 (le_bytes 8 v @ q) = Some (v, q)"
  by (simp add: get_u64_def)

lemma get_u32_put [simp]: "get_u32 (le_bytes 4 v @ q) = Some (v, q)"
  by (simp add: get_u32_def)

lemma get_u8_Cons [simp]: "get_u8 (b # q) = Some (b, q)"
  by (simp add: get_u8_def get_bytes_def)

lemma get_string_put [simp]:
  assumes "length s < 2 ^ 32"
  shows "get_string (put_string s @ q) = Some (s, q)"
proof -
  have "unat (of_nat (length s) :: u32) = length s"
    using assms by (simp add: unat_of_nat take_bit_nat_eq_self)
  then show ?thesis by (simp add: get_string_def put_string_def)
qed

lemma get_key_location_put [simp]: "get_key_location (put_key_location kl @ q) = Some (kl, q)"
  by (simp add: get_key_location_def put_key_location_def)

lemma get_disk_location_put [simp]:
  "named_tier (dl_tier dl) \<Longrightarrow> get_disk_location (put_disk_location dl @ q) = Some (dl, q)"
  by (simp add: get_disk_location_def put_disk_location_def byte_tier_byte)

lemma deserialize_serialize:
  assumes "storable rec"
  shows "deserialize_record (serialize_record rec @ q) = Some (view rec, q)"
  using assms unfolding storable_def
  by (simp add: deserialize_record_def serialize_record_def view_def Let_def op_defs)

lemma serialize_view [simp]: "serialize_record (view rec) = serialize_record rec"
  by (simp add: serialize_record_def view_def Let_def new_record_def)

lemma view_view [simp]: "view (view rec) = view rec"
  by (simp add: view_def Let_def new_record_def)

lemma length_serialize: "9 \<le> length (serialize_record rec)"
  by (simp add: serialize_record_def)

lemma view_sel [simp]: "jr_op (view rec) = jr_op rec" "jr_txn_id (view rec) = jr_txn_id rec"
  by (simp_all add: view_def Let_def new_record_def)

lemma view_fields:
  "jr_op rec \<in> {OP_KEY_PUT, OP_KEY_DEL} \<Longrightarrow> jr_key (view rec) = jr_key rec"
  "jr_op rec = OP_KEY_PUT \<Longrightarrow> jr_key_loc (view rec) = jr_key_loc rec"
  "jr_op rec \<in> {OP_MARK_DEAD, OP_EXTENT_NEW, OP_EXTENT_FREE} \<Longrightarrow> jr_extent_id (view rec) = jr_extent_id rec"
  "jr_op rec = OP_MARK_DEAD \<Longrightarrow> jr_dead_length (view rec) = jr_dead_length rec"
  "jr_op rec = OP_EXTENT_NEW \<Longrightarrow> jr_extent_loc (view rec) = jr_extent_loc rec"
  "jr_op rec = OP_TXN_COMMIT \<Longrightarrow> jr_crc (view rec) = jr_crc rec"
  by (auto simp: view_def Let_def op_defs)

section \<open>Parsing transactions\<close>

text \<open>The operations between a \<open>BEGIN\<close> and its \<open>COMMIT\<close>.\<close>

definition data_op :: "JournalRecord \<Rightarrow> bool" where
  "data_op rec \<longleftrightarrow> jr_op rec \<in> {OP_KEY_PUT, OP_KEY_DEL, OP_MARK_DEAD, OP_EXTENT_NEW, OP_EXTENT_FREE}"

text \<open>A logged transaction: its id, its records, and whether it is a checkpoint.\<close>

type_synonym txn = "u64 \<times> JournalRecord list \<times> bool"

definition txn_body :: "JournalRecord list \<Rightarrow> bytes" where
  "txn_body recs = concat (map serialize_record recs)"

definition txn_bytes :: "txn \<Rightarrow> bytes" where
  "txn_bytes t = (case t of (tid, recs, ckpt) \<Rightarrow>
     serialize_record (begin_record tid) @
     (if ckpt then serialize_record (new_record OP_CHECKPOINT) else []) @ txn_body recs @
     serialize_record (commit_record tid (records_crc (txn_body recs))))"

definition pad_len :: "nat \<Rightarrow> nat" where
  "pad_len n = (4096 - n mod 4096) mod 4096"

definition frame :: "txn \<Rightarrow> bytes" where
  "frame t = txn_bytes t @ replicate (pad_len (length (txn_bytes t))) 0"

definition txn_ok :: "txn \<Rightarrow> bool" where
  "txn_ok t \<longleftrightarrow> (\<forall>rec \<in> set (fst (snd t)). storable rec \<and> data_op rec)"

definition replayed :: "txn list \<Rightarrow> JournalRecord list" where
  "replayed log = concat (map (\<lambda>t. map view (fst (snd t))) log)"

lemma pad_len_dvd: "4096 dvd n + pad_len n"
proof -
  have r: "n mod 4096 < 4096" "n mod 4096 \<le> n" by simp_all
  have "(n + pad_len n) mod 4096 = (n + (4096 - n mod 4096)) mod 4096"
    unfolding pad_len_def by (rule mod_add_right_eq)
  also have "n + (4096 - n mod 4096) = (n - n mod 4096) + 4096" using r by linarith
  also have "\<dots> mod 4096 = 0" by (intro dvd_imp_mod_0 dvd_add dvd_minus_mod dvd_refl)
  finally show ?thesis by (rule mod_0_imp_dvd)
qed

lemma pad_len_less: "pad_len n < 4096"
  by (simp add: pad_len_def)

lemma length_frame_dvd: "4096 dvd length (frame t)"
  by (simp add: frame_def pad_len_dvd)

lemma length_txn_bytes: "18 \<le> length (txn_bytes t)"
  using length_serialize [of "begin_record (fst t)"]
    length_serialize [of "commit_record (fst t) (records_crc (txn_body (fst (snd t))))"]
  by (cases t) (simp add: txn_bytes_def)

lemma frame_nonempty: "frame t \<noteq> []"
  using length_txn_bytes [of t] by (auto simp: frame_def)

text \<open>One record at the head of the remaining bytes.\<close>

lemma parse_record:
  assumes "drop off full = serialize_record rec @ q" "storable rec"
  defines "off' \<equiv> off + length (serialize_record rec)"
  shows "\<not> length full - off < 9" "deserialize_record (drop off full) = Some (view rec, q)"
    "length full - length q = off'" "drop off' full = q"
proof -
  have len: "length full - off = length (serialize_record rec) + length q"
    using arg_cong [OF assms(1), of length] by simp
  then show "\<not> length full - off < 9" using length_serialize [of rec] by simp
  show "deserialize_record (drop off full) = Some (view rec, q)"
    using assms(1,2) by (simp add: deserialize_serialize)
  show "length full - length q = off'" using len length_serialize [of rec] by (simp add: off'_def)
  have "drop off' full = drop (length (serialize_record rec)) (drop off full)" by (simp add: off'_def add.commute)
  then show "drop off' full = q" using assms(1) by simp
qed

lemma parse_begin:
  assumes "drop off full = serialize_record (begin_record tid) @ q"
  shows "parse_loop full off b i c res =
    parse_loop full (off + length (serialize_record (begin_record tid))) True tid [] res"
proof -
  have "storable (begin_record tid)"
    by (simp add: storable_def begin_record_def new_record_def default_DiskLocation_def named_tier_def)
  note R = parse_record [OF assms this]
  show ?thesis
    using R(1,3) by (subst parse_loop.simps) (simp add: R(2) begin_record_def new_record_def op_defs)
qed

lemma parse_checkpoint:
  assumes "drop off full = serialize_record (new_record OP_CHECKPOINT) @ q"
  shows "parse_loop full off b i c res =
    parse_loop full (off + length (serialize_record (new_record OP_CHECKPOINT))) b i c res"
proof -
  have "storable (new_record OP_CHECKPOINT)"
    by (simp add: storable_def new_record_def default_DiskLocation_def named_tier_def)
  note R = parse_record [OF assms this]
  show ?thesis
    using R(1,3) by (subst parse_loop.simps) (simp add: R(2) new_record_def op_defs)
qed

lemma parse_body:
  assumes "drop off full = txn_body recs @ q" "\<forall>rec \<in> set recs. storable rec \<and> data_op rec"
  shows "parse_loop full off True tid c res =
    parse_loop full (off + length (txn_body recs)) True tid (c @ map view recs) res"
  using assms
proof (induction recs arbitrary: off c)
  case (Cons rec recs)
  have d: "drop off full = serialize_record rec @ (txn_body recs @ q)" using Cons.prems(1) by (simp add: txn_body_def)
  have s: "storable rec" "data_op rec" using Cons.prems(2) by simp_all
  note R = parse_record [OF d s(1)]
  have "parse_loop full off True tid c res =
      parse_loop full (off + length (serialize_record rec)) True tid (c @ [view rec]) res"
    using R(1,3) s(2) by (subst parse_loop.simps) (auto simp: R(2) data_op_def op_defs)
  then show ?case using Cons.IH [OF R(4)] Cons.prems(2) by (simp add: txn_body_def add.assoc)
qed (simp add: txn_body_def)

lemma parse_commit:
  assumes "drop off full = serialize_record (commit_record tid (records_crc (txn_body recs))) @ q"
  shows "parse_loop full off True tid (map view recs) res =
    parse_loop full (off + length (serialize_record (commit_record tid (records_crc (txn_body recs))))) False tid []
      (res @ map view recs)"
proof -
  let ?c = "commit_record tid (records_crc (txn_body recs))"
  have "storable ?c"
    by (simp add: storable_def commit_record_def new_record_def default_DiskLocation_def named_tier_def)
  note R = parse_record [OF assms this]
  have b: "concat (map serialize_record (map view recs)) = txn_body recs" by (simp add: txn_body_def comp_def)
  have c: "jr_crc (view ?c) = records_crc (txn_body recs)"
    by (simp add: view_def commit_record_def new_record_def op_defs)
  have o: "jr_op ?c = OP_TXN_COMMIT" "jr_txn_id ?c = tid" by (simp_all add: commit_record_def new_record_def)
  have n: "OP_TXN_COMMIT \<noteq> 0" "OP_TXN_COMMIT \<noteq> OP_TXN_BEGIN" by (simp_all add: op_defs)
  show ?thesis
    using R(1,3) n by (subst parse_loop.simps) (simp add: R(2) b c o Let_def del: map_map)
qed


text \<open>Zero padding, up to the next boundary.\<close>

lemma parse_padding:
  assumes z: "drop off full = replicate n 0 @ q" and n: "0 < n" "n < 4096" and b: "4096 dvd off + n"
    and q: "q = [] \<or> 9 \<le> length q"
  shows "parse_loop full off f i c res = parse_loop full (off + n) f i c res"
proof (cases "length full - off < 9")
  case True
  have "length full - off = n + length q" using arg_cong [OF z, of length] by simp
  then have "q = []" "length full - (off + n) < 9" using True q by auto
  then show ?thesis using True by (subst (1 2) parse_loop.simps) simp
next
  case False
  have len: "length full - off = n + length q" using arg_cong [OF z, of length] by simp
  obtain p where p: "drop off full = 0 # p" "8 \<le> length p"
    using z n(1) False len by (cases n) (auto simp: Suc_le_eq)
  have d: "deserialize_record (drop off full) = Some ((new_record 0)\<lparr>jr_txn_id := le_value (take 8 p)\<rparr>, drop 8 p)"
    using p(2) by (simp add: p(1) deserialize_record_def op_defs get_u64_def get_bytes_def)
  obtain k where k: "off + n = 4096 * k" using b by (auto elim: dvdE)
  then have "off = 4096 * (k - 1) + (4096 - n)" using n by (cases k) auto
  then have "off div 4096 = k - 1" using n by simp
  moreover have "0 < k" using k n by (cases k) auto
  ultimately have nb: "(off div 4096 + 1) * 4096 = off + n" using k by simp
  show ?thesis
  proof (cases "off + n \<ge> length full")
    case True
    then have "parse_loop full (off + n) f i c res = Some res" by (subst parse_loop.simps) simp
    then show ?thesis using False True nb by (subst parse_loop.simps) (simp add: d new_record_def Let_def)
  next
    case lt: False
    then show ?thesis using False nb by (subst parse_loop.simps) (simp add: d new_record_def Let_def)
  qed
qed

lemma parse_frame:
  assumes f: "drop off full = frame t @ q" and al: "4096 dvd off" and ok: "txn_ok t"
    and q: "q = [] \<or> 9 \<le> length q"
  shows "\<exists>i'. parse_loop full off f i c res = parse_loop full (off + length (frame t)) False i' [] (res @ map view (fst (snd t)))"
proof -
  obtain tid recs ck where t: "t = (tid, recs, ck)" by (cases t)
  let ?b = "serialize_record (begin_record tid)" and ?k = "if ck then serialize_record (new_record OP_CHECKPOINT) else []"
  let ?m = "txn_body recs" and ?c = "serialize_record (commit_record tid (records_crc (txn_body recs)))"
  let ?n = "pad_len (length (txn_bytes t))"
  have bytes: "txn_bytes t = ?b @ ?k @ ?m @ ?c" by (simp add: txn_bytes_def t)
  have step: "drop (off + length x) full = y" if "drop off full = x @ y" for off x y
    using that by (metis append_eq_conv_conj drop_drop add.commute)
  have d0: "drop off full = ?b @ (?k @ ?m @ ?c @ replicate ?n 0 @ q)" using f by (simp add: frame_def bytes)
  note d1 = step [OF d0]
  note d2 = step [OF d1]
  note d3 = step [OF d2]
  note d4 = step [OF d3]
  let ?o1 = "off + length ?b" and ?o2 = "off + length ?b + length ?k"
  let ?o3 = "off + length ?b + length ?k + length ?m" and ?o4 = "off + length ?b + length ?k + length ?m + length ?c"
  have "parse_loop full off f i c res = parse_loop full ?o1 True tid [] res" by (rule parse_begin [OF d0])
  also have "\<dots> = parse_loop full ?o2 True tid [] res"
    using parse_checkpoint [of ?o1 full] d1 by (cases ck) auto
  also have "\<dots> = parse_loop full ?o3 True tid (map view recs) res"
    using parse_body [OF d2, of tid "[]" res] ok by (simp add: txn_ok_def t)
  also have "\<dots> = parse_loop full ?o4 False tid [] (res @ map view recs)" by (rule parse_commit [OF d3])
  also have "\<dots> = parse_loop full (?o4 + ?n) False tid [] (res @ map view recs)"
  proof (cases "?n = 0")
    case False
    have "?o4 = off + length (txn_bytes t)" by (simp add: bytes)
    then have "4096 dvd ?o4 + ?n" using al pad_len_dvd [of "length (txn_bytes t)"] by (simp add: add.assoc)
    then show ?thesis using parse_padding [OF d4 _ _ _ q] False pad_len_less by blast
  qed simp
  also have "?o4 + ?n = off + length (frame t)"
  proof -
    have "length (frame t) = length (txn_bytes t) + ?n" by (simp add: frame_def)
    moreover have "length (txn_bytes t) = length ?b + length ?k + length ?m + length ?c"
      by (simp only: bytes length_append add.assoc)
    ultimately show ?thesis by linarith
  qed
  finally show ?thesis by (intro exI [of _ tid]) (simp only: t fst_conv snd_conv)
qed

text \<open>A sequence of frames is replayed completely and in order.\<close>

lemma parse_frames:
  assumes "drop off full = concat (map frame log)" "4096 dvd off" "\<forall>t \<in> set log. txn_ok t"
  shows "parse_loop full off f i c res = Some (res @ replayed log)"
  using assms
proof (induction log arbitrary: off f i c res)
  case Nil
  then show ?case by (subst parse_loop.simps) (simp add: replayed_def)
next
  case (Cons t log)
  let ?q = "concat (map frame log)"
  have f: "drop off full = frame t @ ?q" using Cons.prems(1) by simp
  have "?q = [] \<or> 9 \<le> length ?q"
  proof (cases log)
    case (Cons u us)
    then show ?thesis using length_txn_bytes [of u] by (simp add: frame_def)
  qed simp
  from parse_frame [OF f Cons.prems(2) _ this, of f i c res] Cons.prems(3)
  obtain i' where i': "parse_loop full off f i c res =
      parse_loop full (off + length (frame t)) False i' [] (res @ map view (fst (snd t)))" by auto
  have "drop (off + length (frame t)) full = ?q"
    using f by (metis append_eq_conv_conj drop_drop add.commute)
  moreover have "4096 dvd off + length (frame t)" using Cons.prems(2) length_frame_dvd by simp
  ultimately show ?case using Cons.IH Cons.prems(3) i' by (simp add: replayed_def)
qed


section \<open>The log on the device\<close>

lemma sb_parse_image: "length (sb_pad sb) = 4064 \<Longrightarrow> sb_parse (sb_image sb) = sb"
  by (simp add: sb_parse_def sb_image_def)

lemma length_sb_image [simp]: "length (sb_pad sb) = 4064 \<Longrightarrow> length (sb_image sb) = 4096"
  by (simp add: sb_image_def)

text \<open>
  \<open>disk_ok ds sb d log\<close>: the device holds the superblock \<open>sb\<close> and, between its checkpoint and
  write offsets, the frames of the transactions \<open>log\<close>. The journal does not wrap.
\<close>

definition disk_ok :: "u64 \<Rightarrow> JournalSuperBlock \<Rightarrow> BlockDevice \<Rightarrow> txn list \<Rightarrow> bool" where
  "disk_ok ds sb d log \<longleftrightarrow> healthy d \<and> unat ds \<le> unat (bd_size d) \<and> 4096 < unat ds \<and> unat ds < 2 ^ 31 \<and>
     4096 dvd unat ds \<and> sb_magic sb = SB_MAGIC \<and> length (sb_pad sb) = 4064 \<and>
     bytes_at d 0 4096 = sb_image sb \<and>
     4096 dvd unat (sb_checkpoint_offset sb) \<and> 4096 dvd unat (sb_write_offset sb) \<and>
     sb_checkpoint_offset sb \<le> sb_write_offset sb \<and> unat (sb_write_offset sb) + 4096 < unat ds \<and>
     bytes_at d (4096 + unat (sb_checkpoint_offset sb))
       (unat (sb_write_offset sb) - unat (sb_checkpoint_offset sb)) = concat (map frame log) \<and>
     (\<forall>t \<in> set log. txn_ok t)"

definition impl_ok :: "u64 \<Rightarrow> Journal \<Rightarrow> bool" where
  "impl_ok ds j \<longleftrightarrow> j_dev_size j = ds \<and> j_data_size j = ds - 4096"

definition jlog_ok :: "u64 \<Rightarrow> Journal \<Rightarrow> BlockDevice \<Rightarrow> txn list \<Rightarrow> bool" where
  "jlog_ok ds j d log \<longleftrightarrow> impl_ok ds j \<and> disk_ok ds (j_superblock j) d log \<and>
     j_write_offset j = sb_write_offset (j_superblock j)"

definition at_sb :: "JournalSuperBlock \<Rightarrow> Journal \<Rightarrow> Journal" where
  "at_sb sb j = j\<lparr>j_superblock := sb, j_write_offset := sb_write_offset sb\<rparr>"

lemma read_superblock_ok:
  assumes "disk_ok ds sb d log"
  shows "read_superblock (j, d) = (0, at_sb sb j, d)"
proof -
  have d: "healthy d" "bytes_at d 0 4096 = sb_image sb" "length (sb_pad sb) = 4064" "sb_magic sb = SB_MAGIC"
    "4096 \<le> unat (bd_size d)" using assms by (simp_all add: disk_ok_def)
  have "dev_read 0 4096 False d = (4096, sb_image sb, d)"
    using dev_read_healthy [OF d(1), of 0 4096 False] d(2,5) by simp
  then show ?thesis using d(3,4) by (simp add: read_superblock_def sb_parse_image at_sb_def)
qed

lemma read_loop_ok:
  assumes "healthy d" "4096 + unat ds \<le> unat (bd_size d)" "4096 dvd unat pos" "4096 dvd unat rem"
    "unat pos + unat rem \<le> unat ds"
  shows "read_loop ds rem pos acc d = Some (acc @ bytes_at d (4096 + unat pos) (unat rem), d)"
  using assms
proof (induction "unat rem" arbitrary: rem pos acc rule: less_induct)
  case less
  show ?case
  proof (cases "rem = 0")
    case True
    then show ?thesis by (simp add: read_loop.simps bytes_at_def)
  next
    case False
    have sz: "unat (bd_size d) < 2 ^ 63" using less.prems(1) by (simp add: healthy_def)
    have ge: "4096 \<le> unat rem" using less.prems(4) False by (intro dvd_imp_le) (simp_all add: unat_gt_0)
    then have t0: "min kTxnAlignment rem = 4096" by (simp add: kTxnAlignment_def min_def word_le_nat_alt)
    have p: "unat (pos + 4096) = unat pos + 4096" using less.prems(2,5) sz ge by (subst unat_add_nowrap) simp_all
    have k: "unat (kDataStart + pos) = 4096 + unat pos"
      using less.prems(2,5) sz ge by (subst unat_add_nowrap) (simp_all add: kDataStart_def kSuperblockSize_def)
    have nc: "\<not> pos + 4096 > ds" "\<not> pos > ds" using p less.prems(5) ge by (simp_all add: word_less_nat_alt)
    have rd: "dev_read (kDataStart + pos) 4096 True d = (4096, bytes_at d (4096 + unat pos) 4096, d)"
      using dev_read_healthy [OF less.prems(1), of "kDataStart + pos" 4096 True] k less.prems(2,5) ge by simp
    have ne: "bytes_at d (4096 + unat pos) 4096 \<noteq> []" by (simp add: bytes_at_def)
    have r: "unat (rem - 4096) = unat rem - 4096" using ge by (subst unat_sub_le) (simp_all add: word_le_nat_alt)
    let ?p = "if pos + 4096 \<ge> ds then 0 else pos + 4096"
    have unf: "read_loop ds rem pos acc d = read_loop ds (rem - 4096) ?p (acc @ bytes_at d (4096 + unat pos) 4096) d"
      using False nc rd ne by (subst read_loop.simps) (simp add: t0 Let_def)
    show ?thesis
    proof (cases "rem = 4096")
      case True
      then show ?thesis using unf by (simp add: read_loop.simps [of _ 0])
    next
      case neq: False
      then have "unat rem \<noteq> 4096" by (auto simp: word_unat_eq_iff)
      then have gt: "4096 < unat rem" using ge by simp
      then have lt: "\<not> pos + 4096 \<ge> ds" using p less.prems(5) by (simp add: word_le_nat_alt)
      have "read_loop ds (rem - 4096) (pos + 4096) (acc @ bytes_at d (4096 + unat pos) 4096) d =
          Some ((acc @ bytes_at d (4096 + unat pos) 4096) @ bytes_at d (4096 + unat (pos + 4096)) (unat (rem - 4096)), d)"
        using less.prems r p ge by (intro less.hyps) simp_all
      moreover have "bytes_at d (4096 + unat pos) (unat rem) =
          bytes_at d (4096 + unat pos) 4096 @ bytes_at d (4096 + unat pos + 4096) (unat rem - 4096)"
        using bytes_at_append [of d "4096 + unat pos" 4096 "unat rem - 4096"] ge by simp
      ultimately show ?thesis using unf lt r p by (simp add: add.assoc)
    qed
  qed
qed


lemma replayed_Nil: "concat (map frame log) = [] \<Longrightarrow> log = []"
  using frame_nonempty by (cases log) auto

lemma recover_ok:
  assumes ok: "disk_ok ds sb d log" and j: "impl_ok ds j"
  shows "journal_recover (j, d) = Some (replayed log, at_sb sb j, d)"
proof -
  let ?j = "at_sb sb j" and ?c = "sb_checkpoint_offset sb" and ?w = "sb_write_offset sb"
  have D: "healthy d" "unat ds \<le> unat (bd_size d)" "4096 < unat ds" "4096 dvd unat ?c" "4096 dvd unat ?w" "?c \<le> ?w"
    "unat ?w + 4096 < unat ds" "bytes_at d (4096 + unat ?c) (unat ?w - unat ?c) = concat (map frame log)"
    "\<forall>t \<in> set log. txn_ok t" using ok by (auto simp: disk_ok_def)
  have ds: "unat (ds - 4096) = unat ds - 4096" using D(3) by (subst unat_sub_le) (simp_all add: word_le_nat_alt)
  have wc: "unat (?w - ?c) = unat ?w - unat ?c" using D(6) by (rule unat_sub_le)
  have "read_loop (ds - 4096) (?w - ?c) ?c [] d = Some (concat (map frame log), d)"
    using read_loop_ok [of d "ds - 4096" ?c "?w - ?c" "[]"] D ds wc
    by (simp add: dvd_diff_nat word_le_nat_alt)
  moreover have "parse_loop (concat (map frame log)) 0 False 0 [] [] = Some (replayed log)"
    using parse_frames [of 0 "concat (map frame log)" log] D(9) by simp
  ultimately have scan: "recover_scan (?j, d) = Some (replayed log, ?j, d)"
    using D(6) j by (simp add: recover_scan_def at_sb_def impl_ok_def Let_def)
  show ?thesis
  proof (cases "?c = ?w")
    case False
    then show ?thesis using scan read_superblock_ok [OF ok, of j] by (simp add: journal_recover_def at_sb_def)
  next
    case True
    then have "log = []" using D(8) replayed_Nil by (simp add: bytes_at_def)
    then have e: "replayed log = []" by (simp add: replayed_def)
    obtain x where "unat ds = 4096 * x" using ok by (auto simp: disk_ok_def elim: dvdE)
    then have "8192 \<le> unat ds" using D(3) by simp
    then have "dev_read kDataStart kTxnAlignment True d = (4096, bytes_at d 4096 4096, d)"
      using dev_read_healthy [OF D(1), of kDataStart kTxnAlignment True] D(2)
      by (simp add: kDataStart_def kSuperblockSize_def kTxnAlignment_def)
    then show ?thesis
      using True scan e read_superblock_ok [OF ok, of j]
      by (auto simp: journal_recover_def at_sb_def Let_def)
  qed
qed

section \<open>Writing a transaction\<close>

lemma round_up_pad:
  assumes "n < 2 ^ 31"
  shows "unat (round_up_to (of_nat n) kTxnAlignment) = n + pad_len n"
proof -
  have u: "unat (of_nat n :: u64) = n" using assms by (simp add: unat_of_nat take_bit_nat_eq_self)
  have k: "unat kTxnAlignment = 4096" "0 < kTxnAlignment" by (simp_all add: kTxnAlignment_def)
  let ?r = "unat (round_up_to (of_nat n) kTxnAlignment)"
  have b: "n \<le> ?r" "?r < n + 4096" "4096 dvd ?r"
    using round_up_to_correct [OF k(2), of "of_nat n"] u k(1) assms by simp_all
  have p: "n + pad_len n < n + 4096" "4096 dvd n + pad_len n" using pad_len_less pad_len_dvd by simp_all
  obtain x y where xy: "?r = 4096 * x" "n + pad_len n = 4096 * y" using b(3) p(2) by (auto elim!: dvdE)
  then have "x = y" using b(1,2) p(1) by linarith
  then show ?thesis using xy by simp
qed

text \<open>\<open>pad_and_write\<close> without wrap-around.\<close>

lemma pad_and_write_fits:
  assumes j: "impl_ok ds j" and ds: "unat ds < 2 ^ 31" "4096 < unat ds" and bl: "bl \<noteq> []"
    and room: "unat (j_write_offset j) + (length bl + pad_len (length bl)) + 4096 \<le> unat ds"
  defines "n \<equiv> length bl + pad_len (length bl)"
  shows "pad_and_write bl (j, d) =
     (let (r, d1) = dev_write (kDataStart + j_write_offset j) (bl @ replicate (pad_len (length bl)) 0) False d
      in if r < 0 then (r, j, d1)
         else let (f, d2) = dev_flush d1 in (f, j\<lparr>j_write_offset :=
           if unat (j_write_offset j) + n + 4096 = unat ds then 0 else j_write_offset j + of_nat n\<rparr>, d2))"
    "unat (j_write_offset j + of_nat n) = unat (j_write_offset j) + n"
    "unat (kDataStart + j_write_offset j) = 4096 + unat (j_write_offset j)"
proof -
  let ?w = "j_write_offset j"
  have small: "length bl < 2 ^ 31" "n < 2 ^ 31" using room ds by (simp_all add: n_def)
  have un: "unat (of_nat n :: u64) = n" "unat (of_nat (length bl) :: u64) = length bl"
    using small by (simp_all add: unat_of_nat take_bit_nat_eq_self)
  have up: "unat (of_nat (pad_len (length bl)) :: u64) = pad_len (length bl)"
    using small by (simp add: unat_of_nat take_bit_nat_eq_self n_def)
  have r: "round_up_to (of_nat (length bl)) kTxnAlignment = of_nat n"
    using round_up_pad [OF small(1)] un(1) by (simp add: n_def word_unat_eq_iff)
  have n0: "(of_nat n :: u64) \<noteq> 0" using un(1) bl by (auto simp: n_def)
  show wn: "unat (?w + of_nat n) = unat ?w + n" using room ds un by (subst unat_add_nowrap) (simp_all add: n_def)
  have data: "unat (j_data_size j) = unat ds - 4096"
    using j ds(2) unat_sub_le [of 4096 ds] by (simp add: impl_ok_def word_le_nat_alt)
  have fits: "\<not> ?w + of_nat n > j_data_size j" "?w + of_nat n \<ge> j_data_size j \<longleftrightarrow> unat ?w + n + 4096 = unat ds"
    using wn data room ds(2) by (auto simp: word_less_nat_alt word_le_nat_alt n_def)
  show "unat (kDataStart + ?w) = 4096 + unat ?w"
    using room ds by (subst unat_add_nowrap) (simp_all add: kDataStart_def kSuperblockSize_def)
  let ?b = "bl @ replicate (pad_len (length bl)) 0"
  have b: "(if (of_nat n :: u64) > of_nat (length bl)
      then bl @ replicate (unat (of_nat n - of_nat (length bl) :: u64)) 0 else bl) = ?b"
    using un up by (auto simp: word_less_nat_alt unat_sub_le word_le_nat_alt n_def)
  show "pad_and_write bl (j, d) =
     (let (r, d1) = dev_write (kDataStart + ?w) ?b False d
      in if r < 0 then (r, j, d1)
         else let (f, d2) = dev_flush d1 in (f, j\<lparr>j_write_offset :=
           if unat ?w + n + 4096 = unat ds then 0 else ?w + of_nat n\<rparr>, d2))"
    unfolding pad_and_write_def Let_def prod.case r if_not_P [OF n0] b using fits
    by (simp split: prod.split)
qed

lemma pad_and_write_ok:
  assumes d: "healthy d" and j: "impl_ok ds j" and ds: "unat ds \<le> unat (bd_size d)" "unat ds < 2 ^ 31" "4096 < unat ds"
    and wo: "4096 dvd unat (j_write_offset j)" and bl: "bl \<noteq> []"
    and room: "unat (j_write_offset j) + (length bl + pad_len (length bl)) + 4096 < unat ds"
  defines "n \<equiv> length bl + pad_len (length bl)"
  shows "pad_and_write bl (j, d) = (0, j\<lparr>j_write_offset := j_write_offset j + of_nat n\<rparr>,
     wrote (4096 + unat (j_write_offset j)) (bl @ replicate (pad_len (length bl)) 0) False d)"
    "unat (j_write_offset j + of_nat n) = unat (j_write_offset j) + n"
proof -
  note F = pad_and_write_fits [OF j ds(2,3) bl less_imp_le [OF room], folded n_def]
  show "unat (j_write_offset j + of_nat n) = unat (j_write_offset j) + n" by (rule F(2))
  let ?w = "j_write_offset j" and ?b = "bl @ replicate (pad_len (length bl)) 0"
  have w: "dev_write (kDataStart + ?w) ?b False d = (int n, wrote (4096 + unat ?w) ?b True d)"
    using dev_write_healthy [OF d, of "kDataStart + ?w" ?b False] F(3) room ds wo pad_len_dvd [of "length bl"]
    by (simp add: n_def)
  have h: "healthy (wrote (4096 + unat ?w) ?b True d)" using d room ds by (intro healthy_wrote) simp_all
  show "pad_and_write bl (j, d) = (0, j\<lparr>j_write_offset := ?w + of_nat n\<rparr>, wrote (4096 + unat ?w) ?b False d)"
    unfolding F(1) using w dev_flush_healthy [OF h] room by (simp add: n_def)
qed

lemma write_superblock_ok:
  assumes "healthy d" "4096 \<le> unat (bd_size d)" "length (sb_pad (j_superblock j)) = 4064"
  shows "write_superblock (j, d) = (0, j, wrote 0 (sb_image (j_superblock j)) False d)"
proof -
  have w: "dev_write 0 (sb_image (j_superblock j)) False d = (4096, wrote 0 (sb_image (j_superblock j)) True d)"
    using dev_write_healthy [OF assms(1), of 0 "sb_image (j_superblock j)" False] assms by simp
  have "healthy (wrote 0 (sb_image (j_superblock j)) True d)" using assms by (intro healthy_wrote) simp_all
  then show ?thesis using w by (simp add: write_superblock_def dev_flush_healthy)
qed


text \<open>Appending a frame and moving the superblock's write offset behind it.\<close>

lemma disk_ok_extend:
  fixes s :: u64
  assumes ok: "disk_ok ds sb d log" and t: "txn_ok t"
    and room: "unat (sb_write_offset sb) + length (frame t) + 4096 < unat ds"
    and keep: "unat c = unat (sb_checkpoint_offset sb) \<and> log' = log \<or> c = sb_write_offset sb \<and> log' = []"
    and w: "unat w = unat (sb_write_offset sb) + length (frame t)"
  defines "sb' \<equiv> sb\<lparr>sb_checkpoint_offset := c, sb_write_offset := w, sb_checkpoint_seqno := s\<rparr>"
  shows "disk_ok ds sb' (wrote 0 (sb_image sb') False (wrote (4096 + unat (sb_write_offset sb)) (frame t) False d))
    (log' @ [t])"
proof -
  let ?w0 = "sb_write_offset sb" and ?c0 = "sb_checkpoint_offset sb"
  let ?d1 = "wrote (4096 + unat ?w0) (frame t) False d" and ?d2 = "wrote 0 (sb_image sb') False (wrote (4096 + unat ?w0) (frame t) False d)"
  have D: "healthy d" "unat ds \<le> unat (bd_size d)" "length (sb_pad sb) = 4064" "4096 dvd unat ?c0" "4096 dvd unat ?w0"
    "unat ?c0 \<le> unat ?w0" "bytes_at d (4096 + unat ?c0) (unat ?w0 - unat ?c0) = concat (map frame log)"
    "\<forall>t \<in> set log. txn_ok t" using ok by (auto simp: disk_ok_def word_le_nat_alt)
  have p: "length (sb_pad sb') = 4064" "length (sb_image sb') = 4096" using D(3) by (simp_all add: sb'_def)
  have h1: "healthy ?d1" using D(1,2) room by (intro healthy_wrote) simp_all
  have h2: "healthy ?d2" by (rule healthy_wrote [OF h1]) (use D(2) room p in simp)
  have sbi: "bytes_at ?d2 0 4096 = sb_image sb'" using bytes_at_wrote(1) [of 0 "sb_image sb'"] p(2) by simp
  have far: "bytes_at ?d2 (4096 + a) n = bytes_at ?d1 (4096 + a) n" for a n
    using p(2) by (intro bytes_at_wrote(2)) simp
  have new: "bytes_at ?d2 (4096 + unat ?w0) (length (frame t)) = frame t"
    unfolding far by (rule bytes_at_wrote(1))
  have old: "bytes_at ?d2 (4096 + unat ?c0) (unat ?w0 - unat ?c0) = concat (map frame log)"
    unfolding far using D(6,7) by (subst bytes_at_wrote(2)) simp_all
  have body: "bytes_at ?d2 (4096 + unat c) (unat w - unat c) = concat (map frame (log' @ [t]))"
    using keep
  proof
    assume k: "unat c = unat ?c0 \<and> log' = log"
    have "unat w - unat c = (unat ?w0 - unat ?c0) + length (frame t)" using k w D(6) by simp
    then show ?thesis
      using bytes_at_append [of ?d2 "4096 + unat ?c0" "unat ?w0 - unat ?c0" "length (frame t)"] old new k D(6)
      by simp
  next
    assume k: "c = ?w0 \<and> log' = []"
    then show ?thesis using new w by simp
  qed
  have cw: "4096 dvd unat c" "4096 dvd unat w" "c \<le> w" "\<forall>t \<in> set (log' @ [t]). txn_ok t"
    using keep D(4,5,6,8) w length_frame_dvd t by (auto simp: word_le_nat_alt)
  have sel: "sb_checkpoint_offset sb' = c" "sb_write_offset sb' = w" "sb_magic sb' = sb_magic sb"
    by (simp_all add: sb'_def)
  show ?thesis
    using ok h2 p(1) sbi body cw w room unfolding disk_ok_def sel by simp
qed


text \<open>An open transaction whose buffer is the serialisation of its records.\<close>

definition open_txn :: "u64 \<Rightarrow> JournalRecord list \<Rightarrow> Journal \<Rightarrow> bool" where
  "open_txn tid recs j \<longleftrightarrow>
     (\<exists>tb. map_of (j_active_txns j) tid = Some tb \<and> tb_records tb = recs \<and> tb_serialized tb = txn_body recs)"

text \<open>What a transaction of \<open>n\<close> bytes changes besides the log: the write offset, and nothing behind the journal.\<close>

definition txn_effect :: "u64 \<Rightarrow> nat \<Rightarrow> jdev \<Rightarrow> jdev \<Rightarrow> bool" where
  "txn_effect ds n jd jd' \<longleftrightarrow> bd_size (snd jd') = bd_size (snd jd) \<and>
     (\<forall>a m. unat ds \<le> a \<longrightarrow> bytes_at (snd jd') a m = bytes_at (snd jd) a m) \<and>
     unat (j_write_offset (fst jd')) = unat (j_write_offset (fst jd)) + n \<and>
     sb_checkpoint_offset (j_superblock (fst jd')) = sb_checkpoint_offset (j_superblock (fst jd))"

lemma commit_ok:
  assumes ok: "jlog_ok ds j d log" and tx: "open_txn tid recs j" and t: "txn_ok (tid, recs, False)"
    and room: "unat (j_write_offset j) + length (frame (tid, recs, False)) + 4096 < unat ds"
  shows "\<exists>j' d'. commit_txn tid (j, d) = (0, j', d') \<and> jlog_ok ds j' d' (log @ [(tid, recs, False)]) \<and>
    j_active_txns j' = AList.delete tid (j_active_txns j) \<and> j_next_txn_id j' = j_next_txn_id j \<and>
    txn_effect ds (length (frame (tid, recs, False))) (j, d) (j', d')"
proof -
  let ?t = "(tid, recs, False)" and ?sb = "j_superblock j"
  have J: "impl_ok ds j" "disk_ok ds ?sb d log" "j_write_offset j = sb_write_offset ?sb"
    using ok by (simp_all add: jlog_ok_def)
  have D: "healthy d" "unat ds \<le> unat (bd_size d)" "unat ds < 2 ^ 31" "4096 < unat ds" "length (sb_pad ?sb) = 4064"
    "4096 dvd unat (sb_write_offset ?sb)" using J(2) by (auto simp: disk_ok_def)
  obtain tb where tb: "map_of (j_active_txns j) tid = Some tb" "tb_serialized tb = txn_body recs"
    using tx by (auto simp: open_txn_def)
  let ?bl = "txn_bytes ?t" and ?j1 = "j\<lparr>j_active_txns := AList.delete tid (j_active_txns j)\<rparr>"
  let ?n = "length ?bl + pad_len (length ?bl)"
  have fr: "length (frame ?t) = ?n" by (simp add: frame_def)
  have bl: "serialize_record (begin_record tid) @ tb_serialized tb @
      serialize_record (commit_record tid (records_crc (tb_serialized tb))) = ?bl"
    by (simp add: txn_bytes_def tb)
  have ne: "?bl \<noteq> []" using length_txn_bytes [of ?t] by auto
  have i1: "impl_ok ds ?j1" using J(1) by (simp add: impl_ok_def)
  have W: "pad_and_write ?bl (?j1, d) = (0, ?j1\<lparr>j_write_offset := j_write_offset j + of_nat ?n\<rparr>,
      wrote (4096 + unat (j_write_offset j)) (frame ?t) False d)"
    "unat (j_write_offset j + of_nat ?n) = unat (j_write_offset j) + ?n"
    using pad_and_write_ok [OF D(1) i1 D(2-4) _ ne] D(6) J(3) room fr by (simp_all add: frame_def)
  let ?w = "j_write_offset j + of_nat ?n"
  let ?sb' = "?sb\<lparr>sb_write_offset := ?w\<rparr>"
  let ?j3 = "?j1\<lparr>j_write_offset := ?w, j_superblock := ?sb'\<rparr>"
  let ?d2 = "wrote (4096 + unat (j_write_offset j)) (frame ?t) False d"
  have h2: "healthy ?d2" using D(1,2) room by (intro healthy_wrote) simp_all
  have S: "write_superblock (?j3, ?d2) = (0, ?j3, wrote 0 (sb_image ?sb') False ?d2)"
    using write_superblock_ok [OF h2, of ?j3] D(2,4,5) by simp
  have "?sb' = ?sb\<lparr>sb_checkpoint_offset := sb_checkpoint_offset ?sb, sb_write_offset := ?w,
      sb_checkpoint_seqno := sb_checkpoint_seqno ?sb\<rparr>" by simp
  then have "disk_ok ds ?sb' (wrote 0 (sb_image ?sb') False ?d2) (log @ [?t])"
    using disk_ok_extend [OF J(2) t, of "sb_checkpoint_offset ?sb" log ?w "sb_checkpoint_seqno ?sb"] room W(2) fr J(3)
    by simp
  then have "jlog_ok ds ?j3 (wrote 0 (sb_image ?sb') False ?d2) (log @ [?t])"
    using J(1) by (simp add: jlog_ok_def impl_ok_def)
  moreover have "commit_txn tid (j, d) = (0, ?j3, wrote 0 (sb_image ?sb') False ?d2)"
    using tb(1) W(1) S by (simp add: commit_txn_def bl Let_def)
  moreover have "txn_effect ds (length (frame ?t)) (j, d) (?j3, wrote 0 (sb_image ?sb') False ?d2)"
    using W(2) fr room D(4,5) by (auto simp: txn_effect_def bytes_at_wrote(2))
  ultimately show ?thesis by auto
qed

lemma checkpoint_ok:
  assumes ok: "jlog_ok ds j d log" and t: "txn_ok (0, recs, True)"
    and room: "unat (j_write_offset j) + length (frame (0, recs, True)) + 4096 < unat ds"
  shows "\<exists>j' d'. journal_checkpoint recs (j, d) = (0, j', d') \<and> jlog_ok ds j' d' [(0, recs, True)] \<and>
    j_active_txns j' = j_active_txns j \<and> j_next_txn_id j' = j_next_txn_id j \<and> bd_size d' = bd_size d \<and>
    unat (j_write_offset j') = unat (j_write_offset j) + length (frame (0, recs, True)) \<and>
    sb_checkpoint_offset (j_superblock j') = j_write_offset j"
proof -
  let ?t = "(0, recs, True)" and ?sb = "j_superblock j"
  have J: "impl_ok ds j" "disk_ok ds ?sb d log" "j_write_offset j = sb_write_offset ?sb"
    using ok by (simp_all add: jlog_ok_def)
  have D: "healthy d" "unat ds \<le> unat (bd_size d)" "unat ds < 2 ^ 31" "4096 < unat ds" "length (sb_pad ?sb) = 4064"
    "4096 dvd unat (sb_write_offset ?sb)" using J(2) by (auto simp: disk_ok_def)
  let ?bl = "txn_bytes ?t"
  let ?n = "length ?bl + pad_len (length ?bl)"
  have fr: "length (frame ?t) = ?n" by (simp add: frame_def)
  have bl: "serialize_record (begin_record 0) @ serialize_record (new_record OP_CHECKPOINT) @
      concat (map serialize_record recs) @
      serialize_record (commit_record 0 (records_crc (concat (map serialize_record recs)))) = ?bl"
    by (simp add: txn_bytes_def txn_body_def)
  have ne: "?bl \<noteq> []" using length_txn_bytes [of ?t] by auto
  have W: "pad_and_write ?bl (j, d) = (0, j\<lparr>j_write_offset := j_write_offset j + of_nat ?n\<rparr>,
      wrote (4096 + unat (j_write_offset j)) (frame ?t) False d)"
    "unat (j_write_offset j + of_nat ?n) = unat (j_write_offset j) + ?n"
    using pad_and_write_ok [OF D(1) J(1) D(2-4) _ ne] D(6) J(3) room fr by (simp_all add: frame_def)
  let ?w = "j_write_offset j + of_nat ?n"
  let ?sb' = "?sb\<lparr>sb_checkpoint_offset := j_write_offset j, sb_write_offset := ?w,
    sb_checkpoint_seqno := sb_checkpoint_seqno ?sb + 1\<rparr>"
  let ?j3 = "j\<lparr>j_write_offset := ?w, j_superblock := ?sb'\<rparr>"
  let ?d2 = "wrote (4096 + unat (j_write_offset j)) (frame ?t) False d"
  have h2: "healthy ?d2" using D(1,2) room by (intro healthy_wrote) simp_all
  have S: "write_superblock (?j3, ?d2) = (0, ?j3, wrote 0 (sb_image ?sb') False ?d2)"
    using write_superblock_ok [OF h2, of ?j3] D(2,4,5) by simp
  have "disk_ok ds ?sb' (wrote 0 (sb_image ?sb') False ?d2) [?t]"
    using disk_ok_extend [OF J(2) t, of "j_write_offset j" "[]" ?w "sb_checkpoint_seqno ?sb + 1"] room W(2) fr J(3)
    by simp
  then have "jlog_ok ds ?j3 (wrote 0 (sb_image ?sb') False ?d2) [?t]"
    using J(1) by (simp add: jlog_ok_def impl_ok_def)
  moreover have "journal_checkpoint recs (j, d) = (0, ?j3, wrote 0 (sb_image ?sb') False ?d2)"
    using W(1) S by (simp add: journal_checkpoint_def bl Let_def)
  ultimately show ?thesis using W(2) fr by auto
qed

lemma begin_txn_ok:
  assumes "jlog_ok ds j d log" "begin_txn j = (tid, j')" "map_of (j_active_txns j) (j_next_txn_id j) = None"
  shows "jlog_ok ds j' d log" "open_txn tid [] j'"
  using assms by (auto simp: begin_txn_def jlog_ok_def impl_ok_def open_txn_def txn_body_def Let_def)

lemma append_ok:
  assumes "jlog_ok ds j d log" "open_txn tid recs j"
  shows "\<exists>j'. append tid rec j = (0, j') \<and> jlog_ok ds j' d log \<and> open_txn tid (recs @ [rec\<lparr>jr_txn_id := tid\<rparr>]) j' \<and>
    j_write_offset j' = j_write_offset j"
  using assms by (auto simp: append_def open_txn_def jlog_ok_def impl_ok_def txn_body_def Let_def)


lemma appends_ok:
  assumes "jlog_ok ds j d log" "open_txn tid recs j" "j_active_txns j = [(tid, tb)]"
  shows "\<exists>j'. foldl (\<lambda>j rec. snd (append tid rec j)) j new = j' \<and> jlog_ok ds j' d log \<and>
    open_txn tid (recs @ map (\<lambda>r. r\<lparr>jr_txn_id := tid\<rparr>) new) j' \<and> j_write_offset j' = j_write_offset j \<and>
    j_superblock j' = j_superblock j \<and> j_next_txn_id j' = j_next_txn_id j \<and> (\<exists>tb'. j_active_txns j' = [(tid, tb')])"
  using assms
proof (induction new arbitrary: j recs tb)
  case (Cons r new)
  obtain j1 where j1: "append tid r j = (0, j1)" "jlog_ok ds j1 d log" "open_txn tid (recs @ [r\<lparr>jr_txn_id := tid\<rparr>]) j1"
    "j_write_offset j1 = j_write_offset j" using append_ok [OF Cons.prems(1,2), of r] by blast
  moreover have "j_next_txn_id j1 = j_next_txn_id j" "j_superblock j1 = j_superblock j" "\<exists>tb'. j_active_txns j1 = [(tid, tb')]"
    using j1(1) Cons.prems(3) by (auto simp: append_def Let_def split: option.splits)
  ultimately show ?case using Cons.IH [OF j1(2,3)] by fastforce
qed auto

text \<open>The records as \<open>append\<close> stores them.\<close>

definition stamped :: "u64 \<Rightarrow> JournalRecord list \<Rightarrow> JournalRecord list" where
  "stamped tid recs = map (\<lambda>r. r\<lparr>jr_txn_id := tid\<rparr>) recs"

lemma stamped_ok: "\<forall>rec \<in> set recs. storable rec \<and> data_op rec \<Longrightarrow> txn_ok (tid, stamped tid recs, False)"
  by (auto simp: txn_ok_def stamped_def storable_def data_op_def)

lemma run_txn_open:
  assumes "jlog_ok ds j d log" "j_active_txns j = []"
  shows "\<exists>j2 tb. (\<forall>e. run_txn recs (j, e) = commit_txn (j_next_txn_id j) (j2, e)) \<and> jlog_ok ds j2 d log \<and>
    open_txn (j_next_txn_id j) (stamped (j_next_txn_id j) recs) j2 \<and> j_write_offset j2 = j_write_offset j \<and>
    j_superblock j2 = j_superblock j \<and>
    j_next_txn_id j2 = j_next_txn_id j + 1 \<and> j_active_txns j2 = [(j_next_txn_id j, tb)]"
proof -
  let ?tid = "j_next_txn_id j"
  obtain j1 where b: "begin_txn j = (?tid, j1)" by (simp add: begin_txn_def Let_def)
  have B: "jlog_ok ds j1 d log" "open_txn ?tid [] j1" using begin_txn_ok [OF assms(1) b] assms(2) by simp_all
  have a: "\<exists>tb. j_active_txns j1 = [(?tid, tb)]" "j_write_offset j1 = j_write_offset j" "j_next_txn_id j1 = ?tid + 1"
    "j_superblock j1 = j_superblock j"
    using b assms(2) by (auto simp: begin_txn_def Let_def)
  then obtain tb where "j_active_txns j1 = [(?tid, tb)]" by blast
  from appends_ok [OF B this, of recs] show ?thesis using b a by (auto simp: run_txn_def stamped_def)
qed

lemma run_txn_ok:
  assumes ok: "jlog_ok ds j d log" "j_active_txns j = []" and recs: "\<forall>rec \<in> set recs. storable rec \<and> data_op rec"
    and room: "unat (j_write_offset j) + length (frame (j_next_txn_id j, stamped (j_next_txn_id j) recs, False)) + 4096 < unat ds"
  shows "\<exists>j' d'. run_txn recs (j, d) = (0, j', d') \<and>
    jlog_ok ds j' d' (log @ [(j_next_txn_id j, stamped (j_next_txn_id j) recs, False)]) \<and>
    j_active_txns j' = [] \<and> j_next_txn_id j' = j_next_txn_id j + 1 \<and>
    txn_effect ds (length (frame (j_next_txn_id j, stamped (j_next_txn_id j) recs, False))) (j, d) (j', d')"
proof -
  from run_txn_open [OF ok, of recs] obtain j2 tb where R:
    "run_txn recs (j, d) = commit_txn (j_next_txn_id j) (j2, d)" "jlog_ok ds j2 d log"
    "open_txn (j_next_txn_id j) (stamped (j_next_txn_id j) recs) j2" "j_write_offset j2 = j_write_offset j"
    "j_next_txn_id j2 = j_next_txn_id j + 1" "j_active_txns j2 = [(j_next_txn_id j, tb)]"
    "j_superblock j2 = j_superblock j" by blast
  with commit_ok [OF R(2,3) stamped_ok [OF recs]] room show ?thesis by (auto simp: txn_effect_def)
qed

lemma replayed_append: "replayed (log @ [t]) = replayed log @ map view (fst (snd t))"
  by (simp add: replayed_def)

text \<open>Restarting: a new \<open>Journal\<close> object on the device, then \<open>recover\<close>.\<close>

definition restart :: "u64 \<Rightarrow> bytes \<Rightarrow> BlockDevice \<Rightarrow> JournalRecord list option" where
  "restart ds pad d = map_option fst (journal_recover (new_Journal ds pad d))"

lemma restart_ok: "disk_ok ds sb d log \<Longrightarrow> restart ds pad d = Some (replayed log)"
proof -
  assume ok: "disk_ok ds sb d log"
  have "new_Journal ds pad d = (at_sb sb (new_Impl ds pad), d)"
    by (simp add: new_Journal_def read_superblock_ok [OF ok])
  moreover have "impl_ok ds (at_sb sb (new_Impl ds pad))"
    using ok by (auto simp: impl_ok_def at_sb_def new_Impl_def kSuperblockSize_def disk_ok_def word_less_nat_alt)
  ultimately show ?thesis using recover_ok [OF ok] by (simp add: restart_def)
qed

lemma jlog_restart: "jlog_ok ds j d log \<Longrightarrow> restart ds pad d = Some (replayed log)"
  using restart_ok by (auto simp: jlog_ok_def)

section \<open>Failures during a commit\<close>

text \<open>
  \<open>framed a n d d'\<close>: \<open>d'\<close> is \<open>d\<close> up to the \<open>n\<close> bytes from \<open>a\<close>, the flush flag and the outcomes still to come.
\<close>

definition framed :: "nat \<Rightarrow> nat \<Rightarrow> BlockDevice \<Rightarrow> BlockDevice \<Rightarrow> bool" where
  "framed a n d d' \<longleftrightarrow> (\<forall>b m. b + m \<le> a \<or> a + n \<le> b \<longrightarrow> bytes_at d' b m = bytes_at d b m) \<and>
     bd_size d' = bd_size d \<and> bd_block_size d' = bd_block_size d \<and> bd_fd_direct d' = bd_fd_direct d \<and>
     bd_fd_buffered d' = bd_fd_buffered d \<and> bd_len d' = bd_len d"

lemma framed_refl [simp]: "framed a n d d"
  by (simp add: framed_def)

lemma framed_trans: "framed a n d d1 \<Longrightarrow> framed a n d1 d2 \<Longrightarrow> framed a n d d2"
  by (simp add: framed_def)

lemma framed_upd [simp]:
  "framed a n d (d'\<lparr>bd_script := sc\<rparr>) = framed a n d d'"
  "framed a n d (d'\<lparr>bd_io_since_flush := f\<rparr>) = framed a n d d'"
  by (simp_all add: framed_def)

lemma framed_put: "a \<le> b \<Longrightarrow> b + length bs \<le> a + n \<Longrightarrow> a + n \<le> bd_len d \<Longrightarrow> framed a n d (put_bytes b bs d)"
  by (auto simp: framed_def bytes_at_put_other) (auto simp: put_bytes_def)

lemma write_loop_framed:
  assumes "a0 \<le> a" "a + length bs \<le> a0 + n" "a0 + n \<le> bd_len d"
  shows "framed a0 n d (snd (snd (write_loop sc a bs d)))"
  using assms
proof (induction sc a bs d rule: write_loop.induct)
  case (5 k sc a b bs d)
  let ?d1 = "put_bytes a (take k (b # bs)) d"
  have f: "framed a0 n d ?d1" using 5(2-4) by (intro framed_put) simp_all
  then have "bd_len ?d1 = bd_len d" by (simp add: framed_def)
  then have "framed a0 n ?d1 (snd (snd (write_loop sc (a + k) (drop k (b # bs)) ?d1)))"
    using 5 by (cases "k \<le> length (b # bs)") simp_all
  then show ?case using framed_trans [OF f] by simp
qed (auto intro: framed_put)

lemma dev_write_framed:
  assumes "unat off + length bl \<le> bd_len d" "dev_write off bl buffered d = (r, d')"
  shows "framed (unat off) (length bl) d d'"
proof -
  obtain e sc d1 where w: "write_loop (bd_script d) (unat off) bl d = (e, sc, d1)" by (metis surj_pair)
  then have "framed (unat off) (length bl) d d1"
    using write_loop_framed [of "unat off" "unat off" bl "length bl" d "bd_script d"] assms(1) by simp
  then show ?thesis using assms(2) w by (auto simp: dev_write_def split: if_splits option.splits)
qed

lemma dev_flush_framed: "dev_flush d = (r, d') \<Longrightarrow> framed a n d d'"
  by (auto simp: dev_flush_def next_sys_def Let_def split: if_splits list.splits sys.splits)

text \<open>The device once its calls succeed again.\<close>

definition revived :: "BlockDevice \<Rightarrow> BlockDevice" where
  "revived d = d\<lparr>bd_script := []\<rparr>"

lemma disk_ok_framed:
  assumes "disk_ok ds sb (revived d) log" "framed (4096 + unat (sb_write_offset sb)) n d d'"
  shows "disk_ok ds sb (revived d') log"
  using assms unfolding disk_ok_def healthy_def framed_def revived_def
  by (auto simp: word_le_nat_alt)


lemma pad_and_write_framed:
  assumes ok: "disk_ok ds sb (revived d) log" and j: "impl_ok ds j" "j_write_offset j = sb_write_offset sb"
    and bl: "bl \<noteq> []" and room: "unat (j_write_offset j) + (length bl + pad_len (length bl)) + 4096 < unat ds"
    and w: "pad_and_write bl (j, d) = (r, j', d')"
  shows "framed (4096 + unat (sb_write_offset sb)) (length bl + pad_len (length bl)) d d'"
proof -
  have D: "unat ds < 2 ^ 31" "4096 < unat ds" "unat ds \<le> bd_len d"
    using ok by (auto simp: disk_ok_def healthy_def revived_def)
  note F = pad_and_write_fits [OF j(1) D(1,2) bl less_imp_le [OF room]]
  let ?b = "bl @ replicate (pad_len (length bl)) 0"
  obtain r1 d1 where w1: "dev_write (kDataStart + j_write_offset j) ?b False d = (r1, d1)" by (metis surj_pair)
  obtain f d2 where f: "dev_flush d1 = (f, d2)" by (metis surj_pair)
  have "framed (4096 + unat (sb_write_offset sb)) (length bl + pad_len (length bl)) d d1"
    using dev_write_framed [OF _ w1] F(3) room D(3) j(2) by simp
  moreover have "d' = d1 \<or> d' = d2" using w unfolding F(1) by (auto simp: w1 f split: if_splits)
  ultimately show ?thesis using dev_flush_framed [OF f] framed_trans by metis
qed

lemma commit_failed:
  assumes ok: "jlog_ok ds j (revived d) log" and tx: "open_txn tid recs j"
    and room: "unat (j_write_offset j) + length (frame (tid, recs, False)) + 4096 < unat ds"
    and c: "commit_txn tid (j, d) = (r, j', d')" "r < 0"
  shows "disk_ok ds (j_superblock j) (revived d') log"
proof -
  let ?t = "(tid, recs, False)" and ?j1 = "j\<lparr>j_active_txns := AList.delete tid (j_active_txns j)\<rparr>"
  let ?bl = "txn_bytes ?t"
  have J: "impl_ok ds ?j1" "disk_ok ds (j_superblock j) (revived d) log" "j_write_offset ?j1 = sb_write_offset (j_superblock j)"
    using ok by (simp_all add: jlog_ok_def impl_ok_def)
  obtain tb where tb: "map_of (j_active_txns j) tid = Some tb" "tb_serialized tb = txn_body recs"
    using tx by (auto simp: open_txn_def)
  have bl: "serialize_record (begin_record tid) @ tb_serialized tb @
      serialize_record (commit_record tid (records_crc (tb_serialized tb))) = ?bl"
    by (simp add: txn_bytes_def tb)
  have ne: "?bl \<noteq> []" using length_txn_bytes [of ?t] by auto
  obtain r1 j2 d2 where w: "pad_and_write ?bl (?j1, d) = (r1, j2, d2)" by (metis surj_pair)
  have "d' = d2" using c tb(1) w by (auto simp: commit_txn_def bl Let_def split: if_splits)
  moreover have "framed (4096 + unat (sb_write_offset (j_superblock j))) (length ?bl + pad_len (length ?bl)) d d2"
    using pad_and_write_framed [OF J(2,1,3) ne _ w] room by (simp add: frame_def)
  ultimately show ?thesis using disk_ok_framed [OF J(2)] by simp
qed


text \<open>Single outcomes.\<close>

lemma revived_id: "bd_script d = [] \<Longrightarrow> revived d = d"
  by (simp add: revived_def)

lemma revived_size [simp]: "bd_size (revived d) = bd_size d"
  by (simp add: revived_def)

lemma is_valid_io_revived [simp]: "is_valid_io (revived d) = is_valid_io d"
  by (simp add: is_valid_io_def revived_def fun_eq_iff)

lemma revived_upd [simp]: "revived (d\<lparr>bd_script := sc\<rparr>) = revived d"
  by (simp add: revived_def)

lemma dev_write_failing:
  assumes "healthy (revived d)" "bd_script d = Fail e # sc" "4096 dvd unat off" "4096 dvd length bl" "bl \<noteq> []"
    "unat off + length bl \<le> unat (bd_size d)" "length bl < 2 ^ 31"
  shows "dev_write off bl False d = (- int e, d\<lparr>bd_script := sc\<rparr>)"
proof -
  have "unat (of_nat (length bl) :: u64) = length bl" using assms(7) by (simp add: unat_of_nat)
  then have "is_valid_io d off (of_nat (length bl))"
    using is_valid_io_page [OF assms(1), of off "of_nat (length bl)"] assms(3,4,6) by simp
  moreover obtain b bs where "bl = b # bs" using assms(5) by (cases bl) auto
  ultimately show ?thesis using assms(1,2) by (simp add: dev_write_def healthy_def revived_def)
qed

lemma commit_write_failing:
  assumes ok: "jlog_ok ds j (revived d) log" and tx: "open_txn tid recs j"
    and room: "unat (j_write_offset j) + length (frame (tid, recs, False)) + 4096 < unat ds"
    and sc: "bd_script d = Fail e # sc" "0 < e"
  shows "\<exists>j' d'. commit_txn tid (j, d) = (- int e, j', d')"
proof -
  let ?t = "(tid, recs, False)" and ?j1 = "j\<lparr>j_active_txns := AList.delete tid (j_active_txns j)\<rparr>"
  let ?bl = "txn_bytes ?t"
  have J: "impl_ok ds ?j1" "healthy (revived d)" "unat ds < 2 ^ 31" "4096 < unat ds" "unat ds \<le> unat (bd_size d)"
    "4096 dvd unat (j_write_offset j)"
    using ok by (simp_all add: jlog_ok_def impl_ok_def disk_ok_def revived_def)
  obtain tb where tb: "map_of (j_active_txns j) tid = Some tb" "tb_serialized tb = txn_body recs"
    using tx by (auto simp: open_txn_def)
  have bl: "serialize_record (begin_record tid) @ tb_serialized tb @
      serialize_record (commit_record tid (records_crc (tb_serialized tb))) = ?bl"
    by (simp add: txn_bytes_def tb)
  have ne: "?bl \<noteq> []" using length_txn_bytes [of ?t] by auto
  have room': "unat (j_write_offset ?j1) + (length ?bl + pad_len (length ?bl)) + 4096 \<le> unat ds"
    using room by (simp add: frame_def)
  note F = pad_and_write_fits [OF J(1,3,4) ne room']
  have "dev_write (kDataStart + j_write_offset j) (?bl @ replicate (pad_len (length ?bl)) 0) False d =
      (- int e, d\<lparr>bd_script := sc\<rparr>)"
    using dev_write_failing [OF J(2) sc(1)] J room F(3) pad_len_dvd ne by (simp add: frame_def)
  then show ?thesis using F(1) tb(1) sc(2) by (simp add: commit_txn_def bl Let_def)
qed

text \<open>The call succeeds and what is to come is left in the script.\<close>

lemma dev_write_done:
  assumes "healthy (revived d)" "bd_script d = Done # sc" "4096 dvd unat off" "4096 dvd length bl" "bl \<noteq> []"
    "unat off + length bl \<le> unat (bd_size d)" "length bl < 2 ^ 31"
  shows "dev_write off bl False d = (int (length bl), (wrote (unat off) bl True d)\<lparr>bd_script := sc\<rparr>)"
proof -
  have "unat (of_nat (length bl) :: u64) = length bl" using assms(7) by (simp add: unat_of_nat)
  then have "is_valid_io d off (of_nat (length bl))"
    using is_valid_io_page [OF assms(1), of off "of_nat (length bl)"] assms(3,4,6) by simp
  moreover obtain b bs where "bl = b # bs" using assms(5) by (cases bl) auto
  ultimately show ?thesis
    using assms(1,2,7) by (simp add: dev_write_def healthy_def revived_def as_int_small wrote_def)
qed

text \<open>The two calls that store a frame succeed, the write of the superblock behind them fails: the log on the device is as it was.\<close>

lemma superblock_failing:
  assumes j: "impl_ok ds j" "j_write_offset j = sb_write_offset (j_superblock j)" and ok: "disk_ok ds (j_superblock j) (revived d) log"
    and bl: "bl \<noteq> []" and room: "unat (j_write_offset j) + (length bl + pad_len (length bl)) + 4096 < unat ds"
    and sc: "bd_script d = Done # Done # Fail e # sc" "0 < e"
  shows "\<exists>j' d1 d2. pad_and_write bl (j, d) = (0, j', d1) \<and> j_superblock j' = j_superblock j \<and>
    disk_ok ds (j_superblock j) (revived d2) log \<and>
    (\<forall>j3. length (sb_pad (j_superblock j3)) = 4064 \<longrightarrow> write_superblock (j3, d1) = (- int e, j3, d2))"
proof -
  have J: "healthy (revived d)" "unat ds < 2 ^ 31" "4096 < unat ds" "unat ds \<le> unat (bd_size d)" "4096 dvd unat (j_write_offset j)"
    using ok j by (simp_all add: disk_ok_def)
  note F = pad_and_write_fits [OF j(1) J(2,3) bl less_imp_le [OF room]]
  let ?b = "bl @ replicate (pad_len (length bl)) 0"
  let ?d1 = "(wrote (4096 + unat (j_write_offset j)) ?b True d)\<lparr>bd_script := Done # Fail e # sc\<rparr>"
  have w: "dev_write (kDataStart + j_write_offset j) ?b False d = (int (length ?b), ?d1)"
    using dev_write_done [OF J(1) sc(1), of "kDataStart + j_write_offset j" ?b] J room F(3) pad_len_dvd bl by simp
  let ?d2 = "?d1\<lparr>bd_io_since_flush := False, bd_script := Fail e # sc\<rparr>"
  have f: "dev_flush ?d1 = (0, ?d2)" by (simp add: dev_flush_def next_sys_def wrote_def)
  obtain j2 where p: "pad_and_write bl (j, d) = (0, j2, ?d2)" "j_superblock j2 = j_superblock j"
    using F(1) w f by simp
  have k: "disk_ok ds (j_superblock j) (revived ?d2) log"
    using disk_ok_framed [OF ok pad_and_write_framed [OF ok j bl room p(1)]] .
  have h2: "healthy (revived ?d2)" using k unfolding disk_ok_def by blast
  have sz: "bd_size ?d2 = bd_size d" "bd_script ?d2 = Fail e # sc" by simp_all
  have "write_superblock (j3, ?d2) = (- int e, j3, ?d2\<lparr>bd_script := sc\<rparr>)" if "length (sb_pad (j_superblock j3)) = 4064" for j3
  proof -
    have len: "length (sb_image (j_superblock j3)) = 4096" using that by simp
    then have ne: "sb_image (j_superblock j3) \<noteq> []" by force
    have "dev_write 0 (sb_image (j_superblock j3)) False ?d2 = (- int e, ?d2\<lparr>bd_script := sc\<rparr>)"
      by (rule dev_write_failing [OF h2 sz(2) _ _ ne]) (use len J(3,4) sz(1) in \<open>simp_all only: len unat_0\<close>, simp_all)
    then show ?thesis using sc(2) by (simp add: write_superblock_def)
  qed
  moreover have "disk_ok ds (j_superblock j) (revived (?d2\<lparr>bd_script := sc\<rparr>)) log" using k by simp
  ultimately show ?thesis using p by blast
qed

lemma commit_superblock_failing:
  assumes ok: "jlog_ok ds j (revived d) log" and tx: "open_txn tid recs j"
    and room: "unat (j_write_offset j) + length (frame (tid, recs, False)) + 4096 < unat ds"
    and sc: "bd_script d = Done # Done # Fail e # sc" "0 < e"
  shows "\<exists>j' d'. commit_txn tid (j, d) = (0, j', d') \<and> disk_ok ds (j_superblock j) (revived d') log"
proof -
  let ?t = "(tid, recs, False)" and ?j1 = "j\<lparr>j_active_txns := AList.delete tid (j_active_txns j)\<rparr>"
  have J: "impl_ok ds ?j1" "j_write_offset ?j1 = sb_write_offset (j_superblock ?j1)" "disk_ok ds (j_superblock ?j1) (revived d) log"
    "length (sb_pad (j_superblock j)) = 4064"
    using ok by (simp_all add: jlog_ok_def impl_ok_def disk_ok_def)
  obtain tb where tb: "map_of (j_active_txns j) tid = Some tb" "tb_serialized tb = txn_body recs"
    using tx by (auto simp: open_txn_def)
  have bl: "serialize_record (begin_record tid) @ tb_serialized tb @
      serialize_record (commit_record tid (records_crc (tb_serialized tb))) = txn_bytes ?t"
    by (simp add: txn_bytes_def tb)
  have ne: "txn_bytes ?t \<noteq> []" using length_txn_bytes [of ?t] by auto
  from superblock_failing [OF J(1-3) ne _ sc] room obtain j2 d1 d2 where
    S: "pad_and_write (txn_bytes ?t) (?j1, d) = (0, j2, d1)" "j_superblock j2 = j_superblock j" "disk_ok ds (j_superblock j) (revived d2) log"
      "\<And>j3. length (sb_pad (j_superblock j3)) = 4064 \<Longrightarrow> write_superblock (j3, d1) = (- int e, j3, d2)"
    by (auto simp: frame_def)
  then show ?thesis using tb(1) J(4) by (simp add: commit_txn_def bl Let_def)
qed

lemma checkpoint_superblock_failing:
  assumes ok: "jlog_ok ds j (revived d) log"
    and room: "unat (j_write_offset j) + length (frame (0, recs, True)) + 4096 < unat ds"
    and sc: "bd_script d = Done # Done # Fail e # sc" "0 < e"
  shows "\<exists>j' d'. journal_checkpoint recs (j, d) = (0, j', d') \<and> disk_ok ds (j_superblock j) (revived d') log"
proof -
  let ?t = "(0, recs, True)"
  have J: "impl_ok ds j" "j_write_offset j = sb_write_offset (j_superblock j)" "disk_ok ds (j_superblock j) (revived d) log"
    "length (sb_pad (j_superblock j)) = 4064"
    using ok by (simp_all add: jlog_ok_def disk_ok_def)
  have bl: "serialize_record (begin_record 0) @ serialize_record (new_record OP_CHECKPOINT) @
      concat (map serialize_record recs) @
      serialize_record (commit_record 0 (records_crc (concat (map serialize_record recs)))) = txn_bytes ?t"
    by (simp add: txn_bytes_def txn_body_def)
  have ne: "txn_bytes ?t \<noteq> []" using length_txn_bytes [of ?t] by auto
  from superblock_failing [OF J(1-3) ne _ sc] room obtain j2 d1 d2 where
    S: "pad_and_write (txn_bytes ?t) (j, d) = (0, j2, d1)" "j_superblock j2 = j_superblock j" "disk_ok ds (j_superblock j) (revived d2) log"
      "\<And>j3. length (sb_pad (j_superblock j3)) = 4064 \<Longrightarrow> write_superblock (j3, d1) = (- int e, j3, d2)"
    by (auto simp: frame_def)
  then show ?thesis using J(4) by (simp add: journal_checkpoint_def bl Let_def)
qed

text \<open>\<open>pad_and_write\<close> with wrap-around starts again at the beginning.\<close>

lemma pad_and_write_wraps:
  assumes j: "impl_ok ds j" and ds: "unat ds < 2 ^ 31" "4096 < unat ds" and bl: "bl \<noteq> []" "length bl + 4096 < 2 ^ 31"
    and wo: "unat (j_write_offset j) < unat ds" "unat ds < unat (j_write_offset j) + (length bl + pad_len (length bl)) + 4096"
  shows "pad_and_write bl (j, d) = pad_and_write bl (j\<lparr>j_write_offset := 0\<rparr>, d)"
proof -
  let ?n = "length bl + pad_len (length bl)"
  have p: "pad_len (length bl) < 4096" by (rule pad_len_less)
  then have "?n < 2 ^ LENGTH(64)" using bl(2) by simp
  then have un: "unat (of_nat ?n :: u64) = ?n" by (simp only: unat_of_nat mod_less)
  have small: "length bl < 2 ^ 31" using bl(2) by simp
  have r: "round_up_to (of_nat (length bl)) kTxnAlignment = of_nat ?n"
    using round_up_pad [OF small] un by (simp only: word_unat_eq_iff)
  have n0: "(of_nat ?n :: u64) \<noteq> 0"
  proof
    assume "(of_nat ?n :: u64) = 0"
    then have "?n = 0" using un by (simp only: unat_0)
    then show False using bl(1) by simp
  qed
  have "unat (j_data_size j) = unat ds - 4096"
    using j ds(2) unat_sub_le [of 4096 ds] by (simp add: impl_ok_def word_le_nat_alt)
  moreover have "unat (j_write_offset j + of_nat ?n) = unat (j_write_offset j) + ?n"
    using un ds(1) wo(1) bl(2) p by (subst unat_add_nowrap) (simp_all only: un, simp)
  ultimately have w: "j_write_offset j + of_nat ?n > j_data_size j" using ds(2) wo(2) by (simp only: word_less_nat_alt)
  show ?thesis
    unfolding pad_and_write_def Let_def prod.case r if_not_P [OF n0] if_P [OF w]
    by (simp add: split_def)
qed

text \<open>A checkpoint ignores the result of writing the superblock as well: it returns 0 and the old log stays.\<close>

lemma checkpoint_failure_unreported:
  assumes "jlog_ok ds j (revived d) log" "unat (j_write_offset j) + length (frame (0, recs, True)) + 4096 < unat ds"
    "bd_script d = Done # Done # Fail e # sc" "0 < e"
  shows "\<exists>j' d'. journal_checkpoint recs (j, d) = (0, j', d') \<and> restart ds pad (revived d') = Some (replayed log)"
  using checkpoint_superblock_failing [OF assms] restart_ok by blast

section \<open>Properties\<close>

text \<open>A journal record that fits the format is read back as it was written, up to the fields its kind of
  operation does not carry, and what follows it in the buffer is left; the fields read are those written.\<close>

theorem record_round_trip:
  assumes "storable rec"
  shows "\<exists>rec'. deserialize_record (serialize_record rec @ q) = Some (rec', q) \<and>
    serialize_record rec' = serialize_record rec \<and> jr_op rec' = jr_op rec \<and> jr_txn_id rec' = jr_txn_id rec \<and>
    (jr_op rec \<in> {OP_KEY_PUT, OP_KEY_DEL} \<longrightarrow> jr_key rec' = jr_key rec) \<and>
    (jr_op rec = OP_KEY_PUT \<longrightarrow> jr_key_loc rec' = jr_key_loc rec) \<and>
    (jr_op rec \<in> {OP_MARK_DEAD, OP_EXTENT_NEW, OP_EXTENT_FREE} \<longrightarrow> jr_extent_id rec' = jr_extent_id rec) \<and>
    (jr_op rec = OP_MARK_DEAD \<longrightarrow> jr_dead_length rec' = jr_dead_length rec) \<and>
    (jr_op rec = OP_EXTENT_NEW \<longrightarrow> jr_extent_loc rec' = jr_extent_loc rec) \<and>
    (jr_op rec = OP_TXN_COMMIT \<longrightarrow> jr_crc rec' = jr_crc rec)"
  using deserialize_serialize [OF assms, of q]
  by (intro exI [of _ "view rec"]) (simp add: view_fields)

definition demo_put :: JournalRecord where
  "demo_put = (new_record OP_KEY_PUT)\<lparr>jr_key := [107], jr_key_loc := \<lparr>kl_extent_id = 3, kl_offset = 4096, kl_length = 9\<rparr>\<rparr>"

lemma demo_put_ok: "storable demo_put" "data_op demo_put" "view (demo_put\<lparr>jr_txn_id := t\<rparr>) = demo_put\<lparr>jr_txn_id := t\<rparr>"
  by (simp_all add: demo_put_def storable_def data_op_def new_record_def named_tier_def default_DiskLocation_def
      view_def op_defs)

theorem record_round_trip_witness:
  "\<exists>rec'. deserialize_record (serialize_record demo_put @ [7]) = Some (rec', [7]) \<and> jr_key rec' = [107]"
  using record_round_trip [OF demo_put_ok(1), of "[7]"] by (auto simp: demo_put_def new_record_def)

text \<open>C4: durability. On a device whose calls succeed, logging a transaction (begin, appends, commit) that fits before
  the end of the journal returns 0, and a restart from the resulting device replays exactly the records replayed
  before, followed by the records of this transaction in their order.\<close>

theorem commit_durable:
  assumes "jlog_ok ds j d log" "j_active_txns j = []" "\<forall>rec \<in> set recs. storable rec \<and> data_op rec"
    "unat (j_write_offset j) + length (frame (j_next_txn_id j, stamped (j_next_txn_id j) recs, False)) + 4096 < unat ds"
  shows "\<exists>j' d'. run_txn recs (j, d) = (0, j', d') \<and> restart ds pad d = Some (replayed log) \<and>
    restart ds pad d' = Some (replayed log @ map view (stamped (j_next_txn_id j) recs)) \<and>
    jlog_ok ds j' d' (log @ [(j_next_txn_id j, stamped (j_next_txn_id j) recs, False)]) \<and> j_active_txns j' = []"
proof -
  from run_txn_ok [OF assms] obtain j' d' where R: "run_txn recs (j, d) = (0, j', d')"
    "jlog_ok ds j' d' (log @ [(j_next_txn_id j, stamped (j_next_txn_id j) recs, False)])" "j_active_txns j' = []" by blast
  with assms(1) show ?thesis
    using jlog_restart [OF assms(1)] jlog_restart [OF R(2)] by (simp add: replayed_append)
qed

text \<open>A device that was just formatted: the superblock has been written, the log is empty.\<close>

definition demo_jdev :: "u64 \<Rightarrow> sys list \<Rightarrow> jdev" where
  "demo_jdev ds sc = (let (j, d) = new_Journal ds (replicate 4064 0) (demo_dev []) in (j, d\<lparr>bd_script := sc\<rparr>))"

lemma le_value_zeros: "le_value (replicate n 0) = 0"
  by (induction n) simp_all

lemma demo_jdev_ok:
  assumes ds: "4096 < unat ds" "unat ds \<le> 65536" "4096 dvd unat ds"
  shows "\<exists>j d. demo_jdev ds sc = (j, d\<lparr>bd_script := sc\<rparr>) \<and> bd_script d = [] \<and> jlog_ok ds j d [] \<and>
  j_active_txns j = [] \<and> j_next_txn_id j = 1 \<and> j_write_offset j = 0 \<and> bd_io_since_flush d = False \<and>
  sb_checkpoint_offset (j_superblock j) = 0"
proof -
  let ?j = "new_Impl ds (replicate 4064 0)" and ?d = "demo_dev []"
  let ?sb = "zero_sb\<lparr>sb_magic := SB_MAGIC\<rparr>"
  have "(4096 :: u64) = 2 ^ 12" by simp
  then have h: "healthy ?d" by (auto simp: healthy_def demo_dev_def intro: exI [of _ 12])
  have z: "bytes_at ?d 0 n = replicate n 0" for n by (simp add: bytes_at_def demo_dev_def map_replicate_const)
  have rd: "dev_read 0 4096 False ?d = (4096, replicate 4096 0, ?d)"
    using dev_read_healthy [OF h, of 0 4096 False] z by (simp add: demo_dev_def)
  have p: "sb_magic (sb_parse (replicate 4096 0)) = 0" by (simp add: sb_parse_def le_value_zeros)
  have m: "SB_MAGIC \<noteq> 0" by (simp add: SB_MAGIC_def)
  let ?j1 = "?j\<lparr>j_superblock := ?sb, j_write_offset := 0\<rparr>" and ?d1 = "wrote 0 (sb_image ?sb) False ?d"
  have pad: "length (sb_pad ?sb) = 4064" by (simp add: zero_sb_def)
  have w: "write_superblock (?j1, ?d) = (0, ?j1, ?d1)"
    using write_superblock_ok [OF h, of ?j1] pad by (simp add: demo_dev_def)
  have n: "new_Journal ds (replicate 4064 0) ?d = (?j1, ?d1)"
    using m by (simp add: new_Journal_def read_superblock_def rd p w)
  have h1: "healthy ?d1" using pad by (intro healthy_wrote [OF h]) (simp add: demo_dev_def)
  have "bytes_at ?d1 0 4096 = sb_image ?sb" using bytes_at_wrote(1) [of 0 "sb_image ?sb" False ?d] pad by simp
  then have "disk_ok ds ?sb ?d1 []"
    using h1 pad ds by (simp add: disk_ok_def) (simp add: zero_sb_def demo_dev_def bytes_at_def)
  then have "jlog_ok ds ?j1 ?d1 []" 
    using ds(1) by (simp add: jlog_ok_def impl_ok_def new_Impl_def zero_sb_def kSuperblockSize_def word_less_nat_alt)
  moreover have "demo_jdev ds sc = (?j1, ?d1\<lparr>bd_script := sc\<rparr>)" by (simp add: demo_jdev_def n)
  moreover have "bd_script ?d1 = []" "bd_io_since_flush ?d1 = False" by (simp_all add: wrote_def demo_dev_def)
  moreover have "j_active_txns ?j1 = []" "j_next_txn_id ?j1 = 1" "j_write_offset ?j1 = 0"
    "sb_checkpoint_offset (j_superblock ?j1) = 0" by (simp_all add: new_Impl_def zero_sb_def)
  ultimately show ?thesis by blast
qed

lemma demo_frame: "length (frame (1, stamped 1 [demo_put], b)) = 4096"
proof -
  have "length (txn_bytes (1, stamped 1 [demo_put], b)) = (if b then 61 else 52)"
    by (simp add: txn_bytes_def txn_body_def stamped_def serialize_record_def begin_record_def commit_record_def
        demo_put_def new_record_def put_string_def put_key_location_def op_defs)
  then show ?thesis by (simp add: frame_def pad_len_def)
qed

theorem commit_durable_witness:
  "\<exists>j d j' d'. demo_jdev 65536 [] = (j, d) \<and> run_txn [demo_put] (j, d) = (0, j', d') \<and>
     restart 65536 [] d = Some [] \<and> restart 65536 [] d' = Some [demo_put\<lparr>jr_txn_id := 1\<rparr>]"
proof -
  from demo_jdev_ok [of 65536 "[]"] obtain j d where J: "demo_jdev 65536 [] = (j, d\<lparr>bd_script := []\<rparr>)" "bd_script d = []"
    "jlog_ok 65536 j d []" "j_active_txns j = []" "j_next_txn_id j = 1" "j_write_offset j = 0" by auto
  have d: "d\<lparr>bd_script := []\<rparr> = d" using J(2) by simp
  from commit_durable [OF J(3,4), of "[demo_put]" "[]"] J(1,5,6) d demo_put_ok demo_frame [of False]
  show ?thesis by (fastforce simp: replayed_def stamped_def)
qed

text \<open>C8: atomicity. Whatever the device's calls return while a transaction is committed whose frame fits before the
  end of the journal (no wrap-around: for that case see \<open>failed_commit_overwrites_oldest\<close>): when \<open>commit_txn\<close> reports
  an error, a later restart replays exactly what was in the log before: no part of the transaction is seen, and nothing
  older is lost.\<close>

theorem commit_failure_atomic:
  assumes "jlog_ok ds j (revived d) log" "open_txn tid recs j"
    "unat (j_write_offset j) + length (frame (tid, recs, False)) + 4096 < unat ds"
    "commit_txn tid (j, d) = (r, j', d')" "r < 0"
  shows "restart ds pad (revived d') = Some (replayed log)"
  using restart_ok [OF commit_failed [OF assms]] .

text \<open>C13: a checkpoint on a healthy device, with room for its frame before the end of the journal, returns 0 and replaces
  the log: the next restart replays the state handed to it and nothing that was logged before. Both conditions matter: a failed
  write of the superblock is ignored (\<open>checkpoint_failure_unreported\<close>), and with a wrap-around the superblock is given the
  offset where the frame was to start before the wrap.\<close>

theorem checkpoint_replaces_log:
  assumes "jlog_ok ds j d log" "\<forall>rec \<in> set recs. storable rec \<and> data_op rec"
    "unat (j_write_offset j) + length (frame (0, recs, True)) + 4096 < unat ds"
  shows "\<exists>j' d'. journal_checkpoint recs (j, d) = (0, j', d') \<and> jlog_ok ds j' d' [(0, recs, True)] \<and>
    restart ds pad d' = Some (map view recs)"
proof -
  have "txn_ok (0, recs, True)" using assms(2) by (simp add: txn_ok_def)
  from checkpoint_ok [OF assms(1) this assms(3)] obtain j' d' where "journal_checkpoint recs (j, d) = (0, j', d')"
    "jlog_ok ds j' d' [(0, recs, True)]" by blast
  then show ?thesis using jlog_restart [of ds j' d' "[(0, recs, True)]" pad] by (simp add: replayed_def)
qed


theorem commit_failure_atomic_witness:
  "\<exists>j d j' d'. demo_jdev 65536 [Fail 5] = (j, d) \<and> run_txn [demo_put] (j, d) = (- 5, j', d') \<and>
     restart 65536 [] (revived d') = Some []"
proof -
  from demo_jdev_ok [of 65536 "[Fail 5]"] obtain j d where J: "demo_jdev 65536 [Fail 5] = (j, d\<lparr>bd_script := [Fail 5]\<rparr>)"
    "bd_script d = []" "jlog_ok 65536 j d []" "j_active_txns j = []" "j_next_txn_id j = 1" "j_write_offset j = 0" by auto
  from run_txn_open [OF J(3,4), of "[demo_put]"] obtain j2 where
    R: "\<And>e. run_txn [demo_put] (j, e) = commit_txn 1 (j2, e)" "jlog_ok 65536 j2 d []"
      "open_txn 1 (stamped 1 [demo_put]) j2" "j_write_offset j2 = 0" unfolding J(5,6) by blast
  let ?d = "d\<lparr>bd_script := [Fail 5]\<rparr>"
  have ok: "jlog_ok 65536 j2 (revived ?d) []" using R(2) J(2) by (simp add: revived_id)
  have room: "unat (j_write_offset j2) + length (frame (1, stamped 1 [demo_put], False)) + 4096 < unat (65536 :: u64)"
    using R(4) demo_frame by simp
  obtain j' d' where c: "commit_txn 1 (j2, ?d) = (- 5, j', d')" using commit_write_failing [OF ok R(3) room] by auto
  have "restart 65536 [] (revived d') = Some []"
    using commit_failure_atomic [OF ok R(3) room c, of "[]"] by (simp add: replayed_def)
  then show ?thesis using J(1) R(1) c by auto
qed

theorem checkpoint_replaces_log_witness:
  "\<exists>j d j' d'. demo_jdev 65536 [] = (j, d) \<and> journal_checkpoint [demo_put] (j, d) = (0, j', d') \<and>
     restart 65536 [] d' = Some [demo_put]"
proof -
  from demo_jdev_ok [of 65536 "[]"] obtain j d where J: "demo_jdev 65536 [] = (j, d\<lparr>bd_script := []\<rparr>)"
    "bd_script d = []" "jlog_ok 65536 j d []" "j_write_offset j = 0" by auto
  have p: "demo_put\<lparr>jr_txn_id := 0\<rparr> = demo_put" by (simp add: demo_put_def new_record_def)
  have f: "length (frame (0, [demo_put], True)) = 4096"
    by (simp add: frame_def pad_len_def txn_bytes_def txn_body_def serialize_record_def begin_record_def
        commit_record_def demo_put_def new_record_def put_string_def put_key_location_def op_defs)
  have "d\<lparr>bd_script := []\<rparr> = d" using J(2) by simp
  with checkpoint_replaces_log [OF J(3), of "[demo_put]" "[]"] J(1,4) f demo_put_ok(1,2) demo_put_ok(3) [of 0]
  show ?thesis by (auto simp: p)
qed


text \<open>C25: the result of writing the superblock is ignored. When the two calls that store the transaction succeed and
  the write of the superblock fails, \<open>commit_txn\<close> still returns 0, and a restart replays the log without the
  transaction.\<close>

theorem superblock_failure_unreported:
  assumes "jlog_ok ds j (revived d) log" "open_txn tid recs j"
    "unat (j_write_offset j) + length (frame (tid, recs, False)) + 4096 < unat ds"
    "bd_script d = Done # Done # Fail e # sc" "0 < e"
  shows "\<exists>j' d'. commit_txn tid (j, d) = (0, j', d') \<and> restart ds pad (revived d') = Some (replayed log)"
  using commit_superblock_failing [OF assms] restart_ok by blast

theorem superblock_failure_unreported_witness:
  "\<exists>j d j' d'. demo_jdev 65536 [Done, Done, Fail 5] = (j, d) \<and> run_txn [demo_put] (j, d) = (0, j', d') \<and>
     restart 65536 [] (revived d') = Some []"
proof -
  let ?sc = "[Done, Done, Fail 5]"
  from demo_jdev_ok [of 65536 ?sc] obtain j d where J: "demo_jdev 65536 ?sc = (j, d\<lparr>bd_script := ?sc\<rparr>)"
    "bd_script d = []" "jlog_ok 65536 j d []" "j_active_txns j = []" "j_next_txn_id j = 1" "j_write_offset j = 0" by auto
  from run_txn_open [OF J(3,4), of "[demo_put]"] obtain j2 where
    R: "\<And>e. run_txn [demo_put] (j, e) = commit_txn 1 (j2, e)" "jlog_ok 65536 j2 d []"
      "open_txn 1 (stamped 1 [demo_put]) j2" "j_write_offset j2 = 0" unfolding J(5,6) by blast
  let ?d = "d\<lparr>bd_script := ?sc\<rparr>"
  have ok: "jlog_ok 65536 j2 (revived ?d) []" using R(2) J(2) by (simp add: revived_id)
  have room: "unat (j_write_offset j2) + length (frame (1, stamped 1 [demo_put], False)) + 4096 < unat (65536 :: u64)"
    using R(4) demo_frame by simp
  from superblock_failure_unreported [OF ok R(3) room, of 5 "[]" "[]"] show ?thesis
    using J(1) R(1) by (auto simp: replayed_def)
qed


text \<open>A failed commit can replace the oldest transaction. When a frame does not fit before the end of the journal,
  \<open>pad_and_write\<close> starts again at offset 0, where the log begins when no checkpoint was taken, and goes over the frame of
  the oldest transaction (here of the same length). When the flush behind the write fails, \<open>commit_txn\<close> reports the
  error and leaves the superblock as it was; a restart replays the transaction that failed, and the oldest
  committed transaction is lost.\<close>

theorem failed_commit_overwrites_oldest:
  assumes ok: "jlog_ok ds j (revived d) (t0 # log)" and tx: "open_txn tid recs j" "\<forall>rec \<in> set recs. storable rec \<and> data_op rec"
    and c0: "sb_checkpoint_offset (j_superblock j) = 0"
    and fr: "length (frame (tid, recs, False)) = length (frame t0)"
    and wrap: "unat ds < unat (j_write_offset j) + length (frame t0) + 4096"
    and sc: "bd_script d = Done # Fail e # sc" "0 < e"
  shows "\<exists>j' d'. commit_txn tid (j, d) = (- int e, j', d') \<and> restart ds pad (revived d') = Some (map view recs @ replayed log)"
proof -
  let ?t = "(tid, recs, False)" and ?j0 = "j\<lparr>j_active_txns := AList.delete tid (j_active_txns j)\<rparr>" and ?sb = "j_superblock j"
  let ?bl = "txn_bytes ?t" and ?j1 = "?j0\<lparr>j_write_offset := 0\<rparr>"
  let ?b = "?bl @ replicate (pad_len (length ?bl)) 0"
  have J: "impl_ok ds ?j0" "impl_ok ds ?j1" "disk_ok ds ?sb (revived d) (t0 # log)" "j_write_offset j = sb_write_offset ?sb"
    using ok by (simp_all add: jlog_ok_def impl_ok_def)
  have D: "healthy (revived d)" "unat ds \<le> unat (bd_size d)" "unat ds < 2 ^ 31" "4096 < unat ds" "length (sb_pad ?sb) = 4064"
    "unat (sb_write_offset ?sb) + 4096 < unat ds"
    "bytes_at (revived d) 4096 (unat (sb_write_offset ?sb)) = concat (map frame (t0 # log))" "bytes_at (revived d) 0 4096 = sb_image ?sb"
    using J(3) c0 by (simp_all add: disk_ok_def)
  have fb: "frame ?t = ?b" by (simp add: frame_def)
  have len: "length ?bl + pad_len (length ?bl) = length (frame t0)" using fr fb by simp
  have wlen: "unat (sb_write_offset ?sb) = length (frame t0) + length (concat (map frame log))"
    using arg_cong [OF D(7), of length] by simp
  have ne: "?bl \<noteq> []" using length_txn_bytes [of ?t] by auto
  have room: "unat (j_write_offset ?j1) + (length ?bl + pad_len (length ?bl)) + 4096 < unat ds" using len wlen D(6) by simp
  obtain tb where tb: "map_of (j_active_txns j) tid = Some tb" "tb_serialized tb = txn_body recs"
    using tx by (auto simp: open_txn_def)
  have bl: "serialize_record (begin_record tid) @ tb_serialized tb @
      serialize_record (commit_record tid (records_crc (tb_serialized tb))) = ?bl"
    by (simp add: txn_bytes_def tb)
  note F = pad_and_write_fits [OF J(2) D(3,4) ne less_imp_le [OF room]]
  let ?d1 = "(wrote 4096 ?b True d)\<lparr>bd_script := Fail e # sc\<rparr>"
  let ?d2 = "?d1\<lparr>bd_io_since_flush := False, bd_script := sc\<rparr>"
  have w: "dev_write (kDataStart + 0) ?b False d = (int (length ?b), ?d1)"
    using dev_write_done [OF D(1) sc(1), of "kDataStart + 0" ?b] D(2,3) room F(3) pad_len_dvd ne by simp
  have f: "dev_flush ?d1 = (- int e, ?d2)" by (simp add: dev_flush_def next_sys_def wrote_def)
  have "\<not> int (length ?b) < 0" by simp
  then have "\<exists>j2. pad_and_write ?bl (?j1, d) = (- int e, j2, ?d2)" using F(1) w f by simp
  then obtain j2 where p: "pad_and_write ?bl (?j0, d) = (- int e, j2, ?d2)"
    using pad_and_write_wraps [OF J(1) D(3,4) ne] J(4) D(6) len wrap room D(3) by auto
  have c: "commit_txn tid (j, d) = (- int e, j2, ?d2)" using tb(1) p sc(2) by (simp add: commit_txn_def bl Let_def)
  have r2: "revived ?d2 = (wrote 4096 (frame ?t) False (revived d))" using fb by (cases d) (simp add: revived_def wrote_def put_bytes_def cong: if_cong)
  have "disk_ok ds ?sb (revived ?d2) (?t # log)"
  proof -
    have h: "healthy (wrote 4096 (frame ?t) False (revived d))" using D(1,2) room len fr by (intro healthy_wrote) simp_all
    have hd: "bytes_at (wrote 4096 (frame ?t) False (revived d)) 0 4096 = sb_image ?sb" using D(8) by (subst bytes_at_wrote(2)) simp_all
    have "bytes_at (revived d) (4096 + length (frame t0)) (length (concat (map frame log))) = concat (map frame log)"
      using D(7) unfolding wlen bytes_at_append by (simp add: append_eq_append_conv)
    then have rest: "bytes_at (wrote 4096 (frame ?t) False (revived d)) (4096 + length (frame ?t)) (length (concat (map frame log))) = concat (map frame log)"
      unfolding fr by (subst bytes_at_wrote(2)) (simp_all add: fr)
    have "bytes_at (wrote 4096 (frame ?t) False (revived d)) 4096 (unat (sb_write_offset ?sb)) = concat (map frame (?t # log))"
      unfolding wlen fr [symmetric] bytes_at_append rest by (simp add: bytes_at_wrote(1))
    moreover have "txn_ok ?t" using tx(2) by (simp add: txn_ok_def)
    ultimately show ?thesis using J(3) h hd c0 unfolding disk_ok_def r2 by simp
  qed
  from restart_ok [OF this, of pad] c show ?thesis by (auto simp: replayed_def)
qed

definition demo_big :: JournalRecord where
  "demo_big = demo_put\<lparr>jr_key := replicate 5000 107\<rparr>"

lemma demo_big_ok: "storable demo_big" "data_op demo_big" "view (demo_big\<lparr>jr_txn_id := t\<rparr>) = demo_big\<lparr>jr_txn_id := t\<rparr>"
  by (simp_all add: demo_big_def demo_put_def storable_def data_op_def new_record_def named_tier_def default_DiskLocation_def
      view_def op_defs)

lemma demo_big_frame: "length (frame (t, stamped t [demo_big], False)) = 8192"
proof -
  have "length (txn_bytes (t, stamped t [demo_big], False)) = 5051"
    by (simp add: txn_bytes_def txn_body_def stamped_def serialize_record_def begin_record_def commit_record_def
        demo_big_def demo_put_def new_record_def put_string_def put_key_location_def op_defs)
  then show ?thesis by (simp add: frame_def pad_len_def)
qed

theorem failed_commit_overwrites_oldest_witness:
  "\<exists>j d j1 d1 j2 d2. demo_jdev 16384 [] = (j, d) \<and> run_txn [demo_big] (j, d) = (0, j1, d1) \<and>
     restart 16384 [] d1 = Some [demo_big\<lparr>jr_txn_id := 1\<rparr>] \<and>
     run_txn [demo_big] (j1, d1\<lparr>bd_script := [Done, Fail 5]\<rparr>) = (- 5, j2, d2) \<and>
     restart 16384 [] (revived d2) = Some [demo_big\<lparr>jr_txn_id := 2\<rparr>]"
proof -
  from demo_jdev_ok [of 16384 "[]"] obtain j d where J: "demo_jdev 16384 [] = (j, d\<lparr>bd_script := []\<rparr>)" "bd_script d = []"
    "jlog_ok 16384 j d []" "j_active_txns j = []" "j_next_txn_id j = 1" "j_write_offset j = 0" "sb_checkpoint_offset (j_superblock j) = 0"
    by auto
  have rec: "\<forall>rec \<in> set [demo_big]. storable rec \<and> data_op rec" using demo_big_ok by simp
  let ?t1 = "(1 :: u64, stamped 1 [demo_big], False)"
  from run_txn_ok [OF J(3,4) rec] J(5-7) demo_big_frame [of 1] obtain j1 d1 where
    R: "run_txn [demo_big] (j, d) = (0, j1, d1)" "jlog_ok 16384 j1 d1 [?t1]" "j_active_txns j1 = []" "j_next_txn_id j1 = 2"
      "unat (j_write_offset j1) = 8192" "sb_checkpoint_offset (j_superblock j1) = 0" by (auto simp: txn_effect_def)
  from run_txn_open [OF R(2,3), of "[demo_big]"] obtain j2 where
    O: "\<And>e. run_txn [demo_big] (j1, e) = commit_txn 2 (j2, e)" "jlog_ok 16384 j2 d1 [?t1]"
      "open_txn 2 (stamped 2 [demo_big]) j2" "j_write_offset j2 = j_write_offset j1" "j_superblock j2 = j_superblock j1" unfolding R(4) by blast
  let ?d = "d1\<lparr>bd_script := [Done, Fail 5]\<rparr>"
  have "healthy d1" using R(2) by (simp add: jlog_ok_def disk_ok_def)
  then have s1: "bd_script d1 = []" by (simp add: healthy_def)
  have ok: "jlog_ok 16384 j2 (revived ?d) [?t1]" using O(2) s1 by (simp add: revived_id)
  have rec2: "\<forall>rec \<in> set (stamped 2 [demo_big]). storable rec \<and> data_op rec"
    using stamped_ok [OF rec, of 2] by (simp add: txn_ok_def)
  have "\<exists>j' d'. commit_txn 2 (j2, ?d) = (- 5, j', d') \<and> restart 16384 [] (revived d') = Some [demo_big\<lparr>jr_txn_id := 2\<rparr>]"
    using failed_commit_overwrites_oldest [OF ok O(3) rec2, of 5 "[]" "[]"] O(4,5) R(5,6) demo_big_frame
    by (simp add: replayed_def) (simp add: stamped_def demo_big_ok(3))
  moreover have "restart 16384 [] d1 = Some [demo_big\<lparr>jr_txn_id := 1\<rparr>]"
    using jlog_restart [OF R(2)] by (simp add: replayed_def stamped_def demo_big_ok(3))
  moreover have "demo_jdev 16384 [] = (j, d)" using J(1,2) by simp
  ultimately show ?thesis using R(1) O(1) by metis
qed


text \<open>C26: a journal filled to its last byte reads as empty. When the log starts at offset 0 and a transaction ends exactly at
  the end of the data area, \<open>commit_txn\<close> returns 0 and moves the write offset to 0, where it equals the checkpoint
  offset: a restart replays nothing, neither the transaction nor what was committed before it.\<close>

theorem full_journal_lost:
  assumes ok: "jlog_ok ds j d log" and tx: "open_txn tid recs j"
    and full: "unat (j_write_offset j) + length (frame (tid, recs, False)) + 4096 = unat ds"
    and c0: "sb_checkpoint_offset (j_superblock j) = 0"
  shows "\<exists>j' d'. commit_txn tid (j, d) = (0, j', d') \<and> restart ds pad d' = Some []"
proof -
  let ?t = "(tid, recs, False)" and ?j1 = "j\<lparr>j_active_txns := AList.delete tid (j_active_txns j)\<rparr>"
  let ?bl = "txn_bytes ?t" and ?sb = "(j_superblock j)\<lparr>sb_write_offset := 0\<rparr>"
  have J: "impl_ok ds ?j1" "healthy d" "unat ds < 2 ^ 31" "4096 < unat ds" "unat ds \<le> unat (bd_size d)"
    "4096 dvd unat (j_write_offset j)" "length (sb_pad ?sb) = 4064" "4096 dvd unat ds" "sb_magic ?sb = SB_MAGIC"
    using ok by (simp_all add: jlog_ok_def impl_ok_def disk_ok_def)
  obtain tb where tb: "map_of (j_active_txns j) tid = Some tb" "tb_serialized tb = txn_body recs"
    using tx by (auto simp: open_txn_def)
  have bl: "serialize_record (begin_record tid) @ tb_serialized tb @
      serialize_record (commit_record tid (records_crc (tb_serialized tb))) = ?bl"
    by (simp add: txn_bytes_def tb)
  have ne: "?bl \<noteq> []" using length_txn_bytes [of ?t] by auto
  have room: "unat (j_write_offset ?j1) + (length ?bl + pad_len (length ?bl)) + 4096 = unat ds"
    using full by (simp add: frame_def)
  note F = pad_and_write_fits [OF J(1,3,4) ne eq_imp_le [OF room]]
  let ?b = "?bl @ replicate (pad_len (length ?bl)) 0"
  let ?d1 = "wrote (4096 + unat (j_write_offset j)) ?b False d" and ?j2 = "?j1\<lparr>j_write_offset := 0\<rparr>"
  have w: "dev_write (kDataStart + j_write_offset j) ?b False d =
      (int (length ?b), wrote (4096 + unat (j_write_offset j)) ?b True d)"
    using dev_write_healthy [OF J(2), of "kDataStart + j_write_offset j" ?b False] F(3) room J(3,5,6)
      pad_len_dvd [of "length ?bl"] by simp
  have h: "healthy (wrote (4096 + unat (j_write_offset j)) ?b f d)" for f
    using J(2,5) room by (intro healthy_wrote) simp_all
  have p: "pad_and_write ?bl (?j1, d) = (0, ?j2, ?d1)"
    using F(1) w dev_flush_healthy [OF h] room by simp
  let ?j3 = "?j2\<lparr>j_superblock := ?sb\<rparr>" and ?d2 = "wrote 0 (sb_image ?sb) False ?d1"
  have "write_superblock (?j3, ?d1) = (0, ?j3, ?d2)" using write_superblock_ok [OF h, where j = ?j3] J(4,5,7) by simp
  then have c: "commit_txn tid (j, d) = (0, ?j3, ?d2)" using tb(1) p by (simp add: commit_txn_def bl Let_def)
  have h2: "healthy ?d2" using J(4,5,7) by (intro healthy_wrote [OF h]) simp
  have i: "bytes_at ?d2 0 4096 = sb_image ?sb" using bytes_at_wrote(1) [of 0 "sb_image ?sb"] J(7) by simp
  have "disk_ok ds ?sb ?d2 []"
    using h2 i J(3,4,5,7,8,9) c0 unfolding disk_ok_def by (simp add: bytes_at_def)
  then show ?thesis using c restart_ok [of ds ?sb ?d2 "[]" pad] by (auto simp: replayed_def)
qed

theorem full_journal_lost_witness:
  "\<exists>j d j' d'. demo_jdev 8192 [] = (j, d) \<and> run_txn [demo_put] (j, d) = (0, j', d') \<and> restart 8192 [] d' = Some []"
proof -
  from demo_jdev_ok [of 8192 "[]"] obtain j d where J: "demo_jdev 8192 [] = (j, d\<lparr>bd_script := []\<rparr>)"
    "bd_script d = []" "jlog_ok 8192 j d []" "j_active_txns j = []" "j_next_txn_id j = 1" "j_write_offset j = 0"
    "sb_checkpoint_offset (j_superblock j) = 0" by auto
  from run_txn_open [OF J(3,4), of "[demo_put]"] obtain j2 where
    R: "\<And>e. run_txn [demo_put] (j, e) = commit_txn 1 (j2, e)" "jlog_ok 8192 j2 d []"
      "open_txn 1 (stamped 1 [demo_put]) j2" "j_write_offset j2 = 0" "j_superblock j2 = j_superblock j"
    unfolding J(5,6) by blast
  have "d\<lparr>bd_script := []\<rparr> = d" using J(2) by simp
  with full_journal_lost [OF R(2,3), of "[]"] show ?thesis
    using J(1,7) R(1,4,5) demo_frame [of False] by auto
qed

end
