(* ===== verification/Btier_Config.thy ===== *)
theory Btier_Config
  imports Complex_Main Prelude
begin

text \<open>
  The configuration record of \<open>btier/config.h\<close> and the floating-point arithmetic the tiering engine computes
  with. A \<open>float\<close> or \<open>double\<close> is read as the real number it stands for; every arithmetic operation is the exact one
  followed by the rounding of its format. The two roundings are the fields of \<open>fpu\<close>, an argument of the definitions
  that compute with them, so that the theorems hold for every rounding mode.
\<close>

section \<open>Floating point\<close>

record fpu =
  single :: "real \<Rightarrow> real"
  double :: "real \<Rightarrow> real"

text \<open>What IEEE 754 guarantees of a rounding: it is monotone and leaves small integers and halves unchanged.\<close>

definition rounding :: "(real \<Rightarrow> real) \<Rightarrow> bool" where
  "rounding f \<longleftrightarrow> mono f \<and> (\<forall>n \<in> {0 .. 8192}. f (of_nat n) = of_nat n)"

definition fpu_ok :: "fpu \<Rightarrow> bool" where
  "fpu_ok fp \<longleftrightarrow> rounding (single fp) \<and> rounding (double fp)"

text \<open>Arithmetic without rounding.\<close>

definition exact_fpu :: fpu where
  "exact_fpu = \<lparr>single = id, double = id\<rparr>"

lemma exact_fpu_ok: "fpu_ok exact_fpu"
  by (simp add: fpu_ok_def rounding_def exact_fpu_def mono_def)

section \<open>Configuration\<close>

record WeightSet =
  w_recency :: real
  w_frequency :: real
  w_randomness :: real
  w_write_penalty :: real

definition default_WeightSet :: "fpu \<Rightarrow> WeightSet" where
  "default_WeightSet fp = \<lparr>w_recency = single fp 0.35, w_frequency = single fp 0.30,
     w_randomness = single fp 0.25, w_write_penalty = single fp 0.10\<rparr>"

record BtierConfig =
  cfg_fast_dev_path :: bytes
  cfg_slow_dev_path :: bytes
  cfg_extent_size :: u64
  cfg_block_size :: u64
  cfg_large_value_threshold :: u64
  cfg_base_weights :: WeightSet
  cfg_low_watermark :: real
  cfg_high_watermark :: real
  cfg_scan_interval_ms :: u32
  cfg_max_migrations_per_cycle :: u32
  cfg_max_compactions_per_cycle :: u32
  cfg_promote_threshold :: real
  cfg_demote_threshold :: real
  cfg_compaction_dead_ratio :: real
  cfg_compaction_usage_ratio :: real
  cfg_cool_interval_sec :: u32
  cfg_sequential_threshold :: u64
  cfg_journal_size :: u64

definition default_BtierConfig :: "fpu \<Rightarrow> BtierConfig" where
  "default_BtierConfig fp = \<lparr>cfg_fast_dev_path = [], cfg_slow_dev_path = [],
     cfg_extent_size = 4 * 1024 * 1024, cfg_block_size = 4096, cfg_large_value_threshold = 2 * 1024 * 1024,
     cfg_base_weights = default_WeightSet fp,
     cfg_low_watermark = double fp 0.30, cfg_high_watermark = double fp 0.80,
     cfg_scan_interval_ms = 1000, cfg_max_migrations_per_cycle = 16, cfg_max_compactions_per_cycle = 4,
     cfg_promote_threshold = single fp 0.7, cfg_demote_threshold = single fp 0.3,
     cfg_compaction_dead_ratio = double fp 0.50, cfg_compaction_usage_ratio = double fp 0.80,
     cfg_cool_interval_sec = 300, cfg_sequential_threshold = 64 * 1024,
     cfg_journal_size = 64 * 1024 * 1024\<rparr>"

end
