(* ===== verification/Extent_Map.thy ===== *)
theory Extent_Map
  imports Btier_Types Btier_Config Block_Device Avl_Allocator Interval_Set
begin

text \<open>
  \<open>btier/extent_map.cc\<close>: the table of extents, their metrics words, the per-tier lists of free bytes, the
  migration handles, the deferred-free list and the dirty headers. The objects the \<open>allocators\<close> and \<open>devices\<close>
  arrays point to are part of the state, indexed by tier; both arrays have the two slots \<open>FAST\<close> and \<open>SLOW\<close>.
  Each operation runs to its end; the atomic metrics word is read and written once per operation, so a
  \<open>compare_exchange\<close> loop is one update. \<open>None\<close> stands for an assertion of an allocator that fails.
\<close>

section \<open>State\<close>

record ExtentEntry =
  ee_raw :: u64
  ee_last_access_time :: u32
  ee_location :: DiskLocation
  ee_used_bytes :: u32
  ee_live_bytes :: u32
  ee_io_refs :: u32

definition new_ExtentEntry :: "DiskLocation \<Rightarrow> ExtentEntry" where
  "new_ExtentEntry loc = \<lparr>ee_raw = 0, ee_last_access_time = 0, ee_location = loc, ee_used_bytes = 0,
     ee_live_bytes = 0, ee_io_refs = 0\<rparr>"

text \<open>\<open>ExtentFreeEntry\<close> is a pair: free bytes, then extent id, which is also the order of \<open>operator<\<close>.\<close>

type_synonym ExtentFreeEntry = "u32 \<times> u64"

record DeferredFreeEntry =
  df_loc :: DiskLocation
  df_added_at_seqno :: u64

record ExtentMap =
  em_block_size :: u64
  em_extent_size :: u64
  em_entries :: "(u64 \<times> ExtentEntry) list"
  em_next_extent_id :: u64
  em_alloc :: "tier \<Rightarrow> AvlAllocator option"
  em_dev :: "tier \<Rightarrow> BlockDevice option"
  em_free_lists :: "tier \<Rightarrow> ExtentFreeEntry list"
  em_deferred_free :: "DeferredFreeEntry list"
  em_seqno :: u64
  em_dirty_headers :: "u64 list"

definition new_ExtentMap :: "BtierConfig \<Rightarrow> ExtentMap" where
  "new_ExtentMap cfg = \<lparr>em_block_size = cfg_block_size cfg, em_extent_size = cfg_extent_size cfg, em_entries = [],
     em_next_extent_id = 1, em_alloc = (\<lambda>_. None), em_dev = (\<lambda>_. None), em_free_lists = (\<lambda>_. []),
     em_deferred_free = [], em_seqno = 0, em_dirty_headers = []\<rparr>"

section \<open>Helpers\<close>

text \<open>\<open>std::set\<close> as its elements in order.\<close>

definition os_insert :: "'a::linorder \<Rightarrow> 'a list \<Rightarrow> 'a list" where
  "os_insert x xs = (if x \<in> set xs then xs else insort x xs)"

definition os_erase :: "'a \<Rightarrow> 'a list \<Rightarrow> 'a list" where
  "os_erase x xs = removeAll x xs"

definition os_lower_bound :: "'a::linorder \<Rightarrow> 'a list \<Rightarrow> 'a list" where
  "os_lower_bound x xs = dropWhile (\<lambda>y. y < x) xs"

definition mark_dirty :: "u64 \<Rightarrow> ExtentMap \<Rightarrow> ExtentMap" where
  "mark_dirty eid em = em\<lparr>em_dirty_headers := os_insert eid (em_dirty_headers em)\<rparr>"

definition em_lookup :: "ExtentMap \<Rightarrow> u64 \<Rightarrow> ExtentEntry option" where
  "em_lookup em eid = map_of (em_entries em) eid"

text \<open>Writing through the \<open>shared_ptr\<close> of an entry that is in the map.\<close>

definition set_entry :: "u64 \<Rightarrow> ExtentEntry \<Rightarrow> ExtentMap \<Rightarrow> ExtentMap" where
  "set_entry eid e em = em\<lparr>em_entries := AList.update eid e (em_entries em)\<rparr>"

definition bump_generation :: "ExtentEntry \<Rightarrow> ExtentEntry" where
  "bump_generation e =
     (let old = ee_raw e; new_gen = generation old + 1
      in e\<lparr>ee_raw := pack (access_count old) (write_count old) (randomness old) (state old) new_gen\<rparr>)"

definition add_deferred_free :: "DiskLocation \<Rightarrow> ExtentMap \<Rightarrow> ExtentMap" where
  "add_deferred_free loc em =
     em\<lparr>em_deferred_free := em_deferred_free em @ [\<lparr>df_loc = loc, df_added_at_seqno = em_seqno em\<rparr>]\<rparr>"

definition ee_capacity :: "ExtentEntry \<Rightarrow> u32" where
  "ee_capacity e = dl_length (ee_location e) - HEADER_SIZE"

definition free_bytes_of :: "ExtentEntry \<Rightarrow> u32" where
  "free_bytes_of e = dl_length (ee_location e) - HEADER_SIZE - ee_used_bytes e"

definition update_free_list :: "u64 \<Rightarrow> tier \<Rightarrow> u32 \<Rightarrow> u32 \<Rightarrow> ExtentMap \<Rightarrow> ExtentMap" where
  "update_free_list eid t old_free new_free em =
     em\<lparr>em_free_lists := (em_free_lists em)(t :=
          os_insert (new_free, eid) (os_erase (old_free, eid) (em_free_lists em t)))\<rparr>"

text \<open>The result of the write is not looked at.\<close>

definition dev_put :: "tier \<Rightarrow> u64 \<Rightarrow> bytes \<Rightarrow> ExtentMap \<Rightarrow> ExtentMap" where
  "dev_put t off bl em =
     (case em_dev em t of
        None \<Rightarrow> em
      | Some d \<Rightarrow> em\<lparr>em_dev := (em_dev em)(t \<mapsto> snd (dev_write off bl False d))\<rparr>)"

definition write_extent_header :: "u64 \<Rightarrow> DiskLocation \<Rightarrow> ExtentMap \<Rightarrow> ExtentMap" where
  "write_extent_header eid loc em =
     dev_put (dl_tier loc) (dl_offset loc) (header_image (make_header eid (dl_length loc) 0 0 0)) em"

section \<open>Set-up\<close>

definition add_allocator :: "tier \<Rightarrow> AvlAllocator \<Rightarrow> ExtentMap \<Rightarrow> ExtentMap" where
  "add_allocator t a em = em\<lparr>em_alloc := (em_alloc em)(t \<mapsto> a)\<rparr>"

definition add_block_device :: "tier \<Rightarrow> BlockDevice \<Rightarrow> ExtentMap \<Rightarrow> ExtentMap" where
  "add_block_device t d em = em\<lparr>em_dev := (em_dev em)(t \<mapsto> d)\<rparr>"

definition init_free_tier :: "tier \<Rightarrow> ExtentMap \<Rightarrow> ExtentMap option" where
  "init_free_tier t em =
     (case em_alloc em t of
        None \<Rightarrow> Some em
      | Some a \<Rightarrow> map_option (\<lambda>a'. add_allocator t a' em) (avl_init_add_free 0 (av_device_size a) a))"

definition init_free_space :: "ExtentMap \<Rightarrow> ExtentMap option" where
  "init_free_space em = Option.bind (init_free_tier FAST em) (init_free_tier SLOW)"

section \<open>Queries and metrics\<close>

definition get_location :: "ExtentMap \<Rightarrow> u64 \<Rightarrow> DiskLocation option" where
  "get_location em eid = map_option ee_location (em_lookup em eid)"

definition get_raw_metrics :: "ExtentMap \<Rightarrow> u64 \<Rightarrow> u64" where
  "get_raw_metrics em eid = (case em_lookup em eid of None \<Rightarrow> 0 | Some e \<Rightarrow> ee_raw e)"

definition record_io :: "u64 \<Rightarrow> IoOp \<Rightarrow> u32 \<Rightarrow> ExtentMap \<Rightarrow> ExtentMap" where
  "record_io eid io now em =
     (case em_lookup em eid of
        None \<Rightarrow> em
      | Some e \<Rightarrow>
          let old = ee_raw e;
              new_access = min (access_count old + 1) 4095;
              new_write = (if io = WRITE then min (write_count old + 1) 4095 else write_count old)
          in set_entry eid (e\<lparr>ee_last_access_time := now,
               ee_raw := pack new_access new_write (randomness old) (state old) (generation old)\<rparr>) em)"

definition set_randomness :: "u64 \<Rightarrow> u32 \<Rightarrow> ExtentMap \<Rightarrow> ExtentMap" where
  "set_randomness eid rand em =
     (case em_lookup em eid of
        None \<Rightarrow> em
      | Some e \<Rightarrow>
          let old = ee_raw e
          in set_entry eid (e\<lparr>ee_raw := pack (access_count old) (write_count old) (rand AND 0x3F) (state old)
               (generation old)\<rparr>) em)"

text \<open>\<open>UINT64_MAX\<close> and \<open>UINT32_MAX\<close> as the missing results.\<close>

definition NO_EXTENT :: u64 where "NO_EXTENT = 0xFFFFFFFFFFFFFFFF"
definition NO_SLOT :: u32 where "NO_SLOT = 0xFFFFFFFF"

definition extent_active :: "ExtentMap \<Rightarrow> u64 \<Rightarrow> bool" where
  "extent_active em eid = (case em_lookup em eid of None \<Rightarrow> False | Some e \<Rightarrow> state (ee_raw e) = ACTIVE)"

definition find_extent_with_space :: "ExtentMap \<Rightarrow> tier \<Rightarrow> u32 \<Rightarrow> u64" where
  "find_extent_with_space em t needed =
     (case find (\<lambda>p. extent_active em (snd p)) (os_lower_bound (needed, 0) (em_free_lists em t)) of
        None \<Rightarrow> NO_EXTENT
      | Some p \<Rightarrow> snd p)"

section \<open>Slots\<close>

definition append_slot :: "u64 \<Rightarrow> u32 \<Rightarrow> ExtentMap \<Rightarrow> u32 \<times> ExtentMap" where
  "append_slot eid sz em =
     (case em_lookup em eid of
        None \<Rightarrow> (NO_SLOT, em)
      | Some e \<Rightarrow>
          if state (ee_raw e) \<noteq> ACTIVE then (NO_SLOT, em)
          else let capacity = ee_capacity e
               in if ee_used_bytes e + sz > capacity then (NO_SLOT, em)
                  else let old_free = capacity - ee_used_bytes e;
                           offset = ee_used_bytes e;
                           e' = bump_generation (e\<lparr>ee_used_bytes := ee_used_bytes e + sz,
                                                   ee_live_bytes := ee_live_bytes e + sz\<rparr>);
                           new_free = capacity - ee_used_bytes e'
                       in (offset, update_free_list eid (dl_tier (ee_location e)) old_free new_free
                                     (mark_dirty eid (set_entry eid e' em))))"

definition mark_dead_slot :: "u64 \<Rightarrow> u32 \<Rightarrow> ExtentMap \<Rightarrow> ExtentMap" where
  "mark_dead_slot eid len em =
     (case em_lookup em eid of
        None \<Rightarrow> em
      | Some e \<Rightarrow>
          let capacity = ee_capacity e;
              old_free = capacity - ee_used_bytes e;
              e' = bump_generation (e\<lparr>ee_live_bytes :=
                     if ee_live_bytes e \<ge> len then ee_live_bytes e - len else 0\<rparr>);
              new_free = capacity - ee_used_bytes e'
          in update_free_list eid (dl_tier (ee_location e)) old_free new_free
               (mark_dirty eid (set_entry eid e' em)))"

definition get_live_bytes :: "ExtentMap \<Rightarrow> u64 \<Rightarrow> u32" where
  "get_live_bytes em eid = (case em_lookup em eid of None \<Rightarrow> 0 | Some e \<Rightarrow> ee_live_bytes e)"

definition get_used_bytes :: "ExtentMap \<Rightarrow> u64 \<Rightarrow> u32" where
  "get_used_bytes em eid = (case em_lookup em eid of None \<Rightarrow> 0 | Some e \<Rightarrow> ee_used_bytes e)"

section \<open>Allocation\<close>

text \<open>What the call of the allocator yields in \<open>allocate_extent\<close> and \<open>allocate_raw\<close>: there is none, it has too little
  space, or the first of the extents it returned.\<close>

datatype space = No_Allocator | Too_Little | Space DiskLocation

definition alloc_space :: "tier \<Rightarrow> u64 \<Rightarrow> ExtentMap \<Rightarrow> (space \<times> ExtentMap) option" where
  "alloc_space t sz em =
     (let a0 = round_up_to sz (em_block_size em);
          aligned_size = (if a0 = 0 then em_block_size em else a0)
      in case em_alloc em t of
           None \<Rightarrow> Some (No_Allocator, em)
         | Some a \<Rightarrow>
             map_option (\<lambda>(got, extents, a').
               (if got < sint aligned_size \<or> extents = [] then Too_Little
                else Space \<lparr>dl_offset = pe_offset (hd extents), dl_length = pe_length (hd extents), dl_tier = t\<rparr>,
                add_allocator t a' em))
               (avl_allocate aligned_size (em_block_size em) aligned_size a))"

text \<open>\<open>AllocResult\<close> is a pair of an extent id and its location.\<close>

definition register_extent :: "DiskLocation \<Rightarrow> ExtentMap \<Rightarrow> (u64 \<times> DiskLocation) \<times> ExtentMap" where
  "register_extent loc em =
     (let eid = em_next_extent_id em;
          em1 = em\<lparr>em_next_extent_id := eid + 1\<rparr>;
          em2 = set_entry eid (new_ExtentEntry loc) em1;
          em3 = em2\<lparr>em_free_lists := (em_free_lists em2)(dl_tier loc :=
                  os_insert (dl_length loc - HEADER_SIZE, eid) (em_free_lists em2 (dl_tier loc)))\<rparr>
      in ((eid, loc), write_extent_header eid loc em3))"

definition allocate_extent_slow :: "u64 \<Rightarrow> ExtentMap \<Rightarrow> ((u64 \<times> DiskLocation) option \<times> ExtentMap) option" where
  "allocate_extent_slow sz em =
     map_option (\<lambda>(r, em').
       case r of Space loc \<Rightarrow> (let (res, em'') = register_extent loc em' in (Some res, em'')) | _ \<Rightarrow> (None, em'))
       (alloc_space SLOW sz em)"

definition allocate_extent :: "tier \<Rightarrow> u64 \<Rightarrow> ExtentMap \<Rightarrow> ((u64 \<times> DiskLocation) option \<times> ExtentMap) option" where
  "allocate_extent t sz em =
     (case alloc_space t sz em of
        None \<Rightarrow> None
      | Some (Space loc, em') \<Rightarrow> (let (res, em'') = register_extent loc em' in Some (Some res, em''))
      | Some (Too_Little, em') \<Rightarrow> if t = FAST then allocate_extent_slow sz em' else Some (None, em')
      | Some (No_Allocator, em') \<Rightarrow> Some (None, em'))"

definition allocate_raw_slow :: "u64 \<Rightarrow> ExtentMap \<Rightarrow> (DiskLocation option \<times> ExtentMap) option" where
  "allocate_raw_slow sz em =
     map_option (\<lambda>(r, em'). (case r of Space loc \<Rightarrow> Some loc | _ \<Rightarrow> None, em')) (alloc_space SLOW sz em)"

definition allocate_raw :: "tier \<Rightarrow> u64 \<Rightarrow> ExtentMap \<Rightarrow> (DiskLocation option \<times> ExtentMap) option" where
  "allocate_raw t sz em =
     (case alloc_space t sz em of
        None \<Rightarrow> None
      | Some (Space loc, em') \<Rightarrow> Some (Some loc, em')
      | Some (Too_Little, em') \<Rightarrow> if t = FAST then allocate_raw_slow sz em' else Some (None, em')
      | Some (No_Allocator, em') \<Rightarrow> Some (None, em'))"

section \<open>Migration\<close>

record MigrationHandle =
  mh_extent_id :: u64
  mh_src_loc :: DiskLocation
  mh_gen_before :: u64

definition begin_migration :: "u64 \<Rightarrow> ExtentMap \<Rightarrow> MigrationHandle option \<times> ExtentMap" where
  "begin_migration eid em =
     (case em_lookup em eid of
        None \<Rightarrow> (None, em)
      | Some e \<Rightarrow>
          let raw = ee_raw e
          in if state raw \<noteq> ACTIVE then (None, em)
             else let h = \<lparr>mh_extent_id = eid, mh_src_loc = ee_location e, mh_gen_before = generation raw\<rparr>
                  in (Some h, set_entry eid (e\<lparr>ee_raw := pack (access_count raw) (write_count raw) (randomness raw)
                        MIGRATING (mh_gen_before h)\<rparr>) em))"

definition commit_migration :: "MigrationHandle \<Rightarrow> DiskLocation \<Rightarrow> ExtentMap \<Rightarrow> bool \<times> ExtentMap" where
  "commit_migration h new_loc em =
     (case em_lookup em (mh_extent_id h) of
        None \<Rightarrow> (False, em)
      | Some e \<Rightarrow>
          let raw = ee_raw e
          in if generation raw \<noteq> mh_gen_before h then (False, em)
             else let old_loc = ee_location e;
                      e' = e\<lparr>ee_location := new_loc,
                             ee_raw := pack (access_count raw) (write_count raw) (randomness raw) ACTIVE
                                         (mh_gen_before h + 1)\<rparr>
                  in (True, mark_dirty (mh_extent_id h)
                              (add_deferred_free old_loc (set_entry (mh_extent_id h) e' em))))"

definition abort_migration :: "MigrationHandle \<Rightarrow> ExtentMap \<Rightarrow> ExtentMap" where
  "abort_migration h em =
     (case em_lookup em (mh_extent_id h) of
        None \<Rightarrow> em
      | Some e \<Rightarrow>
          let raw = ee_raw e
          in if state raw \<noteq> MIGRATING then em
             else set_entry (mh_extent_id h) (e\<lparr>ee_raw := pack (access_count raw) (write_count raw) (randomness raw)
                    ACTIVE (generation raw)\<rparr>) em)"

definition check_migration :: "MigrationHandle \<Rightarrow> ExtentMap \<Rightarrow> bool" where
  "check_migration h em =
     (case em_lookup em (mh_extent_id h) of None \<Rightarrow> False | Some e \<Rightarrow> generation (ee_raw e) = mh_gen_before h)"

definition release_source :: "DiskLocation \<Rightarrow> ExtentMap \<Rightarrow> ExtentMap" where
  "release_source loc em = add_deferred_free loc em"

section \<open>Lifecycle\<close>

definition em_free :: "u64 \<Rightarrow> ExtentMap \<Rightarrow> ExtentMap" where
  "em_free eid em =
     (case em_lookup em eid of
        None \<Rightarrow> em
      | Some e \<Rightarrow>
          let em1 = em\<lparr>em_entries := AList.delete eid (em_entries em)\<rparr>;
              old_free = ee_capacity e - ee_used_bytes e;
              t = dl_tier (ee_location e);
              em2 = em1\<lparr>em_free_lists := (em_free_lists em1)(t := os_erase (old_free, eid) (em_free_lists em1 t))\<rparr>
          in add_deferred_free (ee_location e) em2)"

text \<open>The loop of \<open>process_deferred_free\<close>: the entries that stay, and the map with the released space.\<close>

definition release_location :: "DiskLocation \<Rightarrow> ExtentMap \<Rightarrow> ExtentMap option" where
  "release_location loc em =
     (case em_alloc em (dl_tier loc) of
        None \<Rightarrow> Some em
      | Some a \<Rightarrow>
          map_option (\<lambda>a'. add_allocator (dl_tier loc) a' em)
            (avl_release (is_insert (dl_offset loc) (ucast (dl_length loc)) []) a))"

fun deferred_loop :: "u64 \<Rightarrow> DeferredFreeEntry list \<Rightarrow> ExtentMap \<Rightarrow> (DeferredFreeEntry list \<times> ExtentMap) option" where
  "deferred_loop cur [] em = Some ([], em)"
| "deferred_loop cur (d # ds) em =
     (if cur - df_added_at_seqno d \<ge> 2
      then Option.bind (release_location (df_loc d) em) (deferred_loop cur ds)
      else map_option (\<lambda>(keep, em'). (d # keep, em')) (deferred_loop cur ds em))"

definition process_deferred_free :: "ExtentMap \<Rightarrow> ExtentMap option" where
  "process_deferred_free em =
     (let cur = em_seqno em
      in map_option (\<lambda>(keep, em'). em'\<lparr>em_deferred_free := keep\<rparr>)
           (deferred_loop cur (em_deferred_free em) (em\<lparr>em_seqno := cur + 1\<rparr>)))"

definition clear_deferred_free :: "ExtentMap \<Rightarrow> ExtentMap" where
  "clear_deferred_free em = em\<lparr>em_deferred_free := []\<rparr>"

section \<open>Introspection\<close>

definition em_size :: "ExtentMap \<Rightarrow> nat" where
  "em_size em = length (em_entries em)"

text \<open>\<open>1.0 - (double)free / capacity\<close>; a \<open>uint64_t\<close> is rounded when it is converted.\<close>

definition fast_watermark :: "fpu \<Rightarrow> ExtentMap \<Rightarrow> real" where
  "fast_watermark fp em =
     (case em_alloc em FAST of
        None \<Rightarrow> 1
      | Some a \<Rightarrow>
          if av_device_size a = 0 then 1
          else double fp (1 - double fp (double fp (real (unat (avl_get_free a))) /
                                         double fp (real (unat (av_device_size a))))))"

record SnapshotEntry =
  se_extent_id :: u64
  se_location :: DiskLocation
  se_raw_metrics :: u64
  se_last_access_time :: u32
  se_used_bytes :: u32
  se_live_bytes :: u32

definition snapshot :: "ExtentMap \<Rightarrow> SnapshotEntry list" where
  "snapshot em = map (\<lambda>(eid, e). \<lparr>se_extent_id = eid, se_location = ee_location e, se_raw_metrics = ee_raw e,
     se_last_access_time = ee_last_access_time e, se_used_bytes = ee_used_bytes e,
     se_live_bytes = ee_live_bytes e\<rparr>) (em_entries em)"

definition io_ref_inc :: "u64 \<Rightarrow> ExtentMap \<Rightarrow> ExtentMap" where
  "io_ref_inc eid em =
     (case em_lookup em eid of None \<Rightarrow> em | Some e \<Rightarrow> set_entry eid (e\<lparr>ee_io_refs := ee_io_refs e + 1\<rparr>) em)"

definition io_ref_dec :: "u64 \<Rightarrow> ExtentMap \<Rightarrow> ExtentMap" where
  "io_ref_dec eid em =
     (case em_lookup em eid of None \<Rightarrow> em | Some e \<Rightarrow> set_entry eid (e\<lparr>ee_io_refs := ee_io_refs e - 1\<rparr>) em)"

section \<open>Recovery and persistence\<close>

definition create_entry_from_journal :: "u64 \<Rightarrow> DiskLocation \<Rightarrow> ExtentMap \<Rightarrow> ExtentMap" where
  "create_entry_from_journal eid loc em =
     (let em1 = set_entry eid (new_ExtentEntry loc) em;
          em2 = (if eid \<ge> em_next_extent_id em1 then em1\<lparr>em_next_extent_id := eid + 1\<rparr> else em1);
          t = dl_tier loc
      in em2\<lparr>em_free_lists := (em_free_lists em2)(t :=
           os_insert (dl_length loc - HEADER_SIZE, eid) (em_free_lists em2 t))\<rparr>)"

definition restore_extent_state :: "u64 \<Rightarrow> u32 \<Rightarrow> u32 \<Rightarrow> ExtentMap \<Rightarrow> ExtentMap" where
  "restore_extent_state eid used live em =
     (case em_lookup em eid of
        None \<Rightarrow> em
      | Some e \<Rightarrow>
          let capacity = ee_capacity e;
              old_free = capacity - ee_used_bytes e;
              e' = e\<lparr>ee_used_bytes := used, ee_live_bytes := live\<rparr>;
              new_free = capacity - ee_used_bytes e'
          in mark_dirty eid (update_free_list eid (dl_tier (ee_location e)) old_free new_free (set_entry eid e' em)))"

text \<open>One round of the loop of \<open>flush_dirty_headers\<close>, and the loop.\<close>

definition flush_header :: "u64 \<Rightarrow> ExtentMap \<Rightarrow> ExtentMap" where
  "flush_header eid em =
     (case em_lookup em eid of
        None \<Rightarrow> em
      | Some e \<Rightarrow>
          dev_put (dl_tier (ee_location e)) (dl_offset (ee_location e))
            (header_image (make_header eid (dl_length (ee_location e)) (ee_used_bytes e) (ee_live_bytes e)
               (generation (ee_raw e)))) em)"

definition flush_dirty_headers :: "ExtentMap \<Rightarrow> ExtentMap" where
  "flush_dirty_headers em = fold flush_header (em_dirty_headers em) (em\<lparr>em_dirty_headers := []\<rparr>)"

end
