(* ===== verification/Extent_Correct.thy ===== *)
theory Extent_Correct
  imports Extent_Map Avl_Correct "HOL-Library.Multiset"
begin

text \<open>
  Correctness of the extent map. \<open>em_inv\<close> says who owns the space of a tier: the extents, the deferred-free list and the
  callers of \<open>allocate_raw\<close>, disjointly, through the interpretation \<open>avl\<close> of the allocator contract. \<open>tracks\<close> says
  that an entry changes its slots or its location only together with its generation. Both are kept by every
  call (\<open>em_step\<close>), which gives the disjointness of extents and the protection of migrations; slots and the
  deferred-free list follow.
\<close>

section \<open>Space held by the map\<close>

definition loc_range :: "DiskLocation \<Rightarrow> u64 \<times> u64" where
  "loc_range l = (dl_offset l, ucast (dl_length l))"

definition ranges :: "tier \<Rightarrow> DiskLocation list \<Rightarrow> (u64 \<times> u64) list" where
  "ranges t ls = map loc_range (filter (\<lambda>l. dl_tier l = t) ls)"

text \<open>The locations of the extents and of the deferred-free list.\<close>

definition em_locs :: "ExtentMap \<Rightarrow> DiskLocation list" where
  "em_locs em = map (ee_location \<circ> snd) (em_entries em)"

definition held :: "ExtentMap \<Rightarrow> DiskLocation list" where
  "held em = em_locs em @ map df_loc (em_deferred_free em)"

text \<open>
  \<open>owns_all em G\<close>: in each tier the space of the extents, of the deferred-free list and of the locations \<open>G\<close>
  that callers of \<open>allocate_raw\<close> hold is disjoint, and none of it is free.
\<close>

definition owns_all :: "ExtentMap \<Rightarrow> DiskLocation list \<Rightarrow> bool" where
  "owns_all em G \<longleftrightarrow> (\<forall>t a. em_alloc em t = Some a \<longrightarrow> avl.owns a (ranges t (held em @ G)))"

definition em_inv :: "ExtentMap \<Rightarrow> DiskLocation list \<Rightarrow> bool" where
  "em_inv em G \<longleftrightarrow> distinct (map fst (em_entries em)) \<and>
     (\<forall>eid \<in> fst ` set (em_entries em). eid < em_next_extent_id em) \<and> isp2 (em_block_size em) \<and> owns_all em G"

lemma owns_mset:
  assumes "avl.owns a R" "mset R = mset R'"
  shows "avl.owns a R'"
proof -
  have "distinct R" using assms(1) by (simp add: avl.owns_def regions_def)
  then have "distinct R'" using assms(2) mset_eq_imp_distinct_iff by blast
  then show ?thesis using assms avl.owns_perm mset_eq_setD by blast
qed

lemma mset_ranges: "mset ls = mset ls' \<Longrightarrow> mset (ranges t ls) = mset (ranges t ls')"
  by (metis ranges_def mset_map mset_filter)

lemma owns_all_mset:
  assumes "owns_all em G" "em_alloc em' = em_alloc em" "mset (held em' @ G') = mset (held em @ G)"
  shows "owns_all em' G'"
  using assms owns_mset mset_ranges unfolding owns_all_def by metis

lemma ranges_append [simp]: "ranges t (xs @ ys) = ranges t xs @ ranges t ys"
  by (simp add: ranges_def)

lemma ranges_Cons: "ranges t (l # ls) = (if dl_tier l = t then [loc_range l] else []) @ ranges t ls"
  by (simp add: ranges_def)

lemma owns_drops: "avl.owns a (xs @ R) \<Longrightarrow> avl.owns a R"
  by (induction xs) (auto dest: avl.owns_drop)

section \<open>Updates of one entry\<close>

lemma em_lookup_set_entry [simp]: "em_lookup (set_entry k e em) = (em_lookup em)(k \<mapsto> e)"
  by (simp add: em_lookup_def set_entry_def fun_eq_iff)

lemma mset_update_locs:
  assumes "map_of al k = Some v"
  shows "add_mset (f v) (mset (map (f \<circ> snd) (AList.update k v' al))) = add_mset (f v') (mset (map (f \<circ> snd) al))"
  using assms by (induction al) (auto split: if_splits simp: add_mset_commute)

lemma mset_delete_locs:
  assumes "map_of al k = Some v" "distinct (map fst al)"
  shows "add_mset (f v) (mset (map (f \<circ> snd) (AList.delete k al))) = mset (map (f \<circ> snd) al)"
  using assms
proof (induction al)
  case (Cons p al)
  obtain k' w where p: "p = (k', w)" by (cases p)
  show ?case
  proof (cases "k' = k")
    case True
    then have "AList.delete k al = al" using Cons.prems(2) p by (simp add: delete_id)
    then show ?thesis using Cons.prems(1) p True by simp
  next
    case False
    then show ?thesis using Cons p by simp
  qed
qed simp

lemma mset_locs_set_entry:
  assumes "em_lookup em k = Some e"
  shows "add_mset (ee_location e) (mset (em_locs (set_entry k e' em))) = add_mset (ee_location e') (mset (em_locs em))"
  using mset_update_locs [of "em_entries em" k e ee_location e'] assms
  by (simp add: em_locs_def set_entry_def em_lookup_def)

lemma mset_locs_same:
  assumes "em_lookup em k = Some e" "ee_location e' = ee_location e"
  shows "mset (em_locs (set_entry k e' em)) = mset (em_locs em)"
  using mset_locs_set_entry [OF assms(1), of e'] assms(2) by simp

lemma update_new: "k \<notin> fst ` set al \<Longrightarrow> AList.update k v al = al @ [(k, v)]"
  by (induction al) auto

lemma mset_locs_new:
  assumes "em_lookup em k = None"
  shows "mset (em_locs (set_entry k e' em)) = add_mset (ee_location e') (mset (em_locs em))"
proof -
  have "AList.update k e' (em_entries em) = em_entries em @ [(k, e')]"
    using assms by (simp add: em_lookup_def map_of_eq_None_iff update_new)
  then show ?thesis by (simp add: em_locs_def set_entry_def)
qed

text \<open>The parts of the state the invariant looks at.\<close>

definition same_frame :: "ExtentMap \<Rightarrow> ExtentMap \<Rightarrow> bool" where
  "same_frame em em' \<longleftrightarrow> fst ` set (em_entries em') = fst ` set (em_entries em) \<and>
     (distinct (map fst (em_entries em)) \<longrightarrow> distinct (map fst (em_entries em'))) \<and>
     em_next_extent_id em' = em_next_extent_id em \<and> em_block_size em' = em_block_size em \<and>
     em_alloc em' = em_alloc em"

lemma same_frame_refl [simp]: "same_frame em em"
  by (simp add: same_frame_def)

lemma same_frame_trans: "same_frame a b \<Longrightarrow> same_frame b c \<Longrightarrow> same_frame a c"
  by (simp add: same_frame_def)

lemma same_frame_upd [simp]:
  "same_frame em (em'\<lparr>em_free_lists := x\<rparr>) = same_frame em em'"
  "same_frame em (em'\<lparr>em_deferred_free := ds\<rparr>) = same_frame em em'"
  "same_frame em (em'\<lparr>em_dirty_headers := dh\<rparr>) = same_frame em em'"
  "same_frame em (em'\<lparr>em_dev := dv\<rparr>) = same_frame em em'"
  "same_frame em (em'\<lparr>em_seqno := q\<rparr>) = same_frame em em'"
  by (simp_all add: same_frame_def)

lemma same_frame_set_entry:
  assumes "em_lookup em k = Some e"
  shows "same_frame em (set_entry k e' em)"
proof -
  have "k \<in> fst ` set (em_entries em)" using assms by (auto simp: em_lookup_def dest: map_of_SomeD intro: rev_image_eqI)
  then show ?thesis
    by (auto simp: same_frame_def set_entry_def distinct_update dom_update [symmetric] simp flip: dom_map_of_conv_image_fst)
qed

lemma em_inv_frame:
  assumes "em_inv em G" "same_frame em em'" "mset (held em' @ G') = mset (held em @ G)"
  shows "em_inv em' G'"
  using assms owns_all_mset [of em G em' G'] by (auto simp: em_inv_def same_frame_def)

text \<open>Operations that change neither the locations nor the deferred-free list.\<close>

definition quiet :: "ExtentMap \<Rightarrow> ExtentMap \<Rightarrow> bool" where
  "quiet em em' \<longleftrightarrow> same_frame em em' \<and> mset (em_locs em') = mset (em_locs em) \<and>
     em_deferred_free em' = em_deferred_free em"

lemma em_inv_quiet: "em_inv em G \<Longrightarrow> quiet em em' \<Longrightarrow> em_inv em' G"
  using em_inv_frame [of em G em' G] by (simp add: quiet_def held_def)

lemma quiet_refl [simp]: "quiet em em"
  by (simp add: quiet_def)

lemma quiet_upd [simp]:
  "quiet em (em'\<lparr>em_free_lists := x\<rparr>) = quiet em em'"
  "quiet em (em'\<lparr>em_dirty_headers := dh\<rparr>) = quiet em em'"
  "quiet em (em'\<lparr>em_dev := dv\<rparr>) = quiet em em'"
  by (simp_all add: quiet_def em_locs_def)

lemma quiet_helpers [simp]:
  "quiet em (mark_dirty k em') = quiet em em'"
  "quiet em (update_free_list k t x y em') = quiet em em'"
  "quiet em (dev_put t off bl em') = quiet em em'"
  by (simp_all add: mark_dirty_def update_free_list_def dev_put_def split: option.split)

lemma quiet_set_entry:
  "em_lookup em k = Some e \<Longrightarrow> ee_location e' = ee_location e \<Longrightarrow> quiet em (set_entry k e' em)"
  by (simp add: quiet_def same_frame_set_entry mset_locs_same) (simp add: set_entry_def)

lemma quiet_trans: "quiet a b \<Longrightarrow> quiet b c \<Longrightarrow> quiet a c"
  by (auto simp: quiet_def intro: same_frame_trans)

lemma bump_location [simp]: "ee_location (bump_generation e) = ee_location e"
  by (simp add: bump_generation_def Let_def)

lemma quiet_ops:
  "quiet em (record_io k io now em)" "quiet em (set_randomness k r em)" "quiet em (mark_dead_slot k n em)"
  "quiet em (io_ref_inc k em)" "quiet em (io_ref_dec k em)" "quiet em (abort_migration h em)"
  "quiet em (restore_extent_state k u l em)" "quiet em (snd (append_slot k n em))" "quiet em (snd (begin_migration k em))"
  "quiet em (flush_header k em)"
  by (auto simp: record_io_def set_randomness_def mark_dead_slot_def io_ref_inc_def io_ref_dec_def abort_migration_def
      restore_extent_state_def append_slot_def begin_migration_def flush_header_def Let_def
      intro!: quiet_set_entry split: option.split)

lemma quiet_flush: "quiet em (flush_dirty_headers em)"
proof -
  have "quiet em1 (fold flush_header ks em1)" for ks em1
    by (induction ks arbitrary: em1) (auto intro: quiet_trans quiet_ops(10))
  then show ?thesis unfolding flush_dirty_headers_def by (rule quiet_trans [rotated]) simp
qed


section \<open>Operations that move space\<close>

lemma held_helpers [simp]:
  "held (mark_dirty k em) = held em" "held (add_deferred_free l em) = held em @ [l]"
  "held (update_free_list k t x y em) = held em" "held (em\<lparr>em_free_lists := f\<rparr>) = held em"
  "held (em\<lparr>em_alloc := al\<rparr>) = held em" "held (em\<lparr>em_seqno := q\<rparr>) = held em" "held (em\<lparr>em_next_extent_id := i\<rparr>) = held em"
  "held (add_allocator t a em) = held em" "held (dev_put t off bl em) = held em"
  by (auto simp: held_def em_locs_def mark_dirty_def add_deferred_free_def update_free_list_def add_allocator_def
      dev_put_def split: option.split)

lemma same_frame_helpers [simp]:
  "same_frame em (mark_dirty k em') = same_frame em em'" "same_frame em (add_deferred_free l em') = same_frame em em'"
  by (simp_all add: mark_dirty_def add_deferred_free_def)

lemma commit_migration_True:
  assumes "commit_migration h l em = (True, em')"
  obtains e where "em_lookup em (mh_extent_id h) = Some e" "generation (ee_raw e) = mh_gen_before h"
    "em' = mark_dirty (mh_extent_id h) (add_deferred_free (ee_location e) (set_entry (mh_extent_id h)
       (e\<lparr>ee_location := l, ee_raw := pack (access_count (ee_raw e)) (write_count (ee_raw e)) (randomness (ee_raw e))
          ACTIVE (mh_gen_before h + 1)\<rparr>) em))"
  using assms by (auto simp: commit_migration_def Let_def split: option.splits if_splits)

lemma commit_migration_False: "commit_migration h l em = (False, em') \<Longrightarrow> em' = em"
  by (auto simp: commit_migration_def Let_def split: option.splits if_splits)

lemma em_inv_commit:
  assumes inv: "em_inv em G" and l: "l \<in> set G" and c: "commit_migration h l em = (b, em')"
  shows "em_inv em' (if b then remove1 l G else G)"
proof (cases b)
  case False
  then show ?thesis using c inv commit_migration_False by auto
next
  case True
  obtain e e' where e: "em_lookup em (mh_extent_id h) = Some e" "ee_location e' = l"
    "em' = mark_dirty (mh_extent_id h) (add_deferred_free (ee_location e) (set_entry (mh_extent_id h) e' em))"
  proof -
    have "commit_migration h l em = (True, em')" using c True by simp
    then show thesis
    proof (rule commit_migration_True)
    fix e assume e: "em_lookup em (mh_extent_id h) = Some e"
      "em' = mark_dirty (mh_extent_id h) (add_deferred_free (ee_location e) (set_entry (mh_extent_id h)
       (e\<lparr>ee_location := l, ee_raw := pack (access_count (ee_raw e)) (write_count (ee_raw e)) (randomness (ee_raw e))
          ACTIVE (mh_gen_before h + 1)\<rparr>) em))"
    show thesis by (rule that [OF e(1) _ e(2)]) simp
    qed
  qed
  have f: "same_frame em em'" using same_frame_set_entry [OF e(1)] e(3) by simp
  have d: "em_deferred_free (set_entry (mh_extent_id h) e' em) = em_deferred_free em" by (simp add: set_entry_def)
  have "held em' = held (set_entry (mh_extent_id h) e' em) @ [ee_location e]" by (simp add: e(3))
  then have "mset (held em') = add_mset (ee_location e) (mset (em_locs (set_entry (mh_extent_id h) e' em))) +
      image_mset df_loc (mset (em_deferred_free em))" using d by (simp add: held_def)
  also have "\<dots> = add_mset l (mset (held em))" using mset_locs_set_entry [OF e(1), of e'] e(2) by (simp add: held_def)
  finally have "mset (held em' @ remove1 l G) = mset (held em) + add_mset l (mset (remove1 l G))" by simp
  also have "add_mset l (mset (remove1 l G)) = mset G" using l by simp
  finally have "mset (held em' @ remove1 l G) = mset (held em @ G)" by simp
  with em_inv_frame [OF inv f] True show ?thesis by simp
qed

lemma em_inv_release_source:
  assumes "em_inv em G" "l \<in> set G"
  shows "em_inv (release_source l em) (remove1 l G)"
  using assms by (intro em_inv_frame [OF assms(1)]) (simp_all add: release_source_def)

lemma em_inv_free:
  assumes "em_inv em G"
  shows "em_inv (em_free k em) G"
proof (cases "em_lookup em k")
  case None
  then show ?thesis using assms by (simp add: em_free_def)
next
  case (Some e)
  let ?em1 = "em\<lparr>em_entries := AList.delete k (em_entries em)\<rparr>"
  have d: "distinct (map fst (em_entries em))" using assms by (simp add: em_inv_def)
  have "add_mset (ee_location e) (mset (em_locs ?em1)) = mset (em_locs em)"
    using mset_delete_locs [of "em_entries em" k e ee_location] Some d by (simp add: em_locs_def em_lookup_def)
  then have "mset (held (em_free k em)) = mset (held em)"
    using Some by (simp add: em_free_def Let_def) (simp add: held_def)
  moreover have "owns_all em G" "em_alloc (em_free k em) = em_alloc em"
    using assms Some by (simp_all add: em_inv_def em_free_def Let_def add_deferred_free_def)
  ultimately have "owns_all (em_free k em) G" using owns_all_mset by simp
  moreover have "\<forall>eid \<in> fst ` set (AList.delete k (em_entries em)). eid < em_next_extent_id em"
    using dom_delete_subset [of k "em_entries em"] assms unfolding em_inv_def by blast
  moreover have "isp2 (em_block_size em)" using assms by (simp add: em_inv_def)
  ultimately show ?thesis
    using d Some unfolding em_inv_def by (simp add: em_free_def Let_def add_deferred_free_def distinct_delete)
qed

lemma round_up_to_mod:
  assumes "isp2 d"
  shows "round_up_to n d mod d = 0"
proof -
  obtain k where k: "k < 64" "d = 2 ^ k" using assms by (auto simp: isp2_iff)
  have "n + (d - n mod d) = n div d * d + d"
  proof -
    have "n + (d - n mod d) = (n - n mod d) + d" by simp
    then show ?thesis by (simp only: minus_mod_eq_div_mult)
  qed
  then have "n + (d - n mod d) = push_bit k (n div d + 1)"
    using k by (simp add: push_bit_eq_mult distrib_right)
  then have "take_bit k (n + (d - n mod d)) = 0" by (simp add: take_bit_push_bit)
  then have "(n + (d - n mod d)) mod d = 0" using k(2) by (simp flip: take_bit_eq_mod)
  then show ?thesis by (auto simp: round_up_to_def Let_def)
qed


text \<open>Allocation: the first extent is handed out, the others are dropped.\<close>

lemma em_inv_alloc_space:
  assumes inv: "em_inv em G" and a: "alloc_space t sz em = Some (r, em')"
  shows "em_inv em' (case r of Space l \<Rightarrow> l # G | _ \<Rightarrow> G)" "r = Space l \<Longrightarrow> dl_tier l = t"
    "em_entries em' = em_entries em" "em_next_extent_id em' = em_next_extent_id em"
proof -
  show "r = Space l \<Longrightarrow> dl_tier l = t" "em_entries em' = em_entries em" "em_next_extent_id em' = em_next_extent_id em"
    using a by (auto simp: alloc_space_def add_allocator_def Let_def split: option.splits if_splits prod.splits)
  let ?u = "em_block_size em" and ?w0 = "round_up_to sz (em_block_size em)"
  let ?w = "if ?w0 = 0 then ?u else ?w0"
  show "em_inv em' (case r of Space l \<Rightarrow> l # G | _ \<Rightarrow> G)"
  proof (cases "em_alloc em t")
    case None
    then show ?thesis using a inv by (auto simp: alloc_space_def Let_def)
  next
    case (Some al)
    obtain got es al' where A: "avl_allocate ?w ?u ?w al = Some (got, es, al')"
      "em' = add_allocator t al' em"
      "r = (if got < sint ?w \<or> es = [] then Too_Little
            else Space \<lparr>dl_offset = pe_offset (hd es), dl_length = pe_length (hd es), dl_tier = t\<rparr>)"
      using a Some by (auto simp: alloc_space_def Let_def)
    have u: "isp2 ?u" "?w mod ?u = 0" using inv round_up_to_mod [of ?u sz] by (simp_all add: em_inv_def)
    have own: "avl.owns al (ranges t (held em @ G))" using inv Some by (simp add: em_inv_def owns_all_def)
    note O = avl.allocate_owns(1) [OF own u A(1)]
    let ?G = "case r of Space l \<Rightarrow> l # G | _ \<Rightarrow> G"
    have "avl.owns al' (ranges t (held em @ ?G))"
    proof (cases "got < sint ?w \<or> es = []")
      case True
      then show ?thesis using A(3) owns_drops [OF O] by simp
    next
      case False
      then obtain e es' where es: "es = e # es'" by (cases es) auto
      have r: "ranges t (held em @ ?G) = ranges t (held em) @ as_range e # ranges t G"
        using A(3) False es by (simp add: ranges_Cons loc_range_def as_range_def)
      have "avl.owns al' ((as_range e # ranges t (held em @ G)))"
      proof -
        have "avl.owns al' (map as_range es' @ as_range e # ranges t (held em @ G))"
          using owns_mset [OF O] es by simp
        then show ?thesis by (rule owns_drops)
      qed
      then show ?thesis using r owns_mset by simp
    qed
    moreover have "avl.owns b (ranges t' (held em @ ?G))" if "t' \<noteq> t" "em_alloc em t' = Some b" for t' b
    proof -
      have "ranges t' (held em @ ?G) = ranges t' (held em @ G)" using A(3) that(1) by (simp add: ranges_Cons)
      then show ?thesis using inv that(2) by (auto simp: em_inv_def owns_all_def)
    qed
    ultimately have "owns_all em' ?G" unfolding owns_all_def A(2) held_helpers by (simp add: add_allocator_def)
    then show ?thesis using inv A(2) unfolding em_inv_def by (simp add: add_allocator_def)
  qed
qed

lemma em_inv_register:
  assumes inv: "em_inv em (l # G)" and nw: "unat (em_next_extent_id em) + 1 < 2 ^ 64"
    and r: "register_extent l em = (res, em')"
  shows "em_inv em' G" "res = (em_next_extent_id em, l)"
proof -
  let ?k = "em_next_extent_id em" and ?em1 = "em\<lparr>em_next_extent_id := em_next_extent_id em + 1\<rparr>"
  have fresh: "?k \<notin> fst ` set (em_entries em)" using inv by (auto simp: em_inv_def)
  then have n: "em_lookup ?em1 ?k = None" by (simp add: em_lookup_def map_of_eq_None_iff)
  let ?em2 = "set_entry ?k (new_ExtentEntry l) ?em1"
  have l1: "mset (em_locs ?em2) = add_mset l (mset (em_locs em))"
    using mset_locs_new [OF n, of "new_ExtentEntry l"] by (simp add: new_ExtentEntry_def em_locs_def)
  have ne: "em_entries ?em2 = em_entries em @ [(?k, new_ExtentEntry l)]"
    using fresh by (simp add: set_entry_def update_new)
  have em': "em_entries em' = em_entries ?em2" "em_next_extent_id em' = ?k + 1" "em_block_size em' = em_block_size em"
    "em_alloc em' = em_alloc em" "held em' = held ?em2" and res: "res = (?k, l)"
    using r by (auto simp: register_extent_def Let_def write_extent_header_def dev_put_def set_entry_def held_def em_locs_def
        split: option.splits)
  show "res = (?k, l)" by (rule res)
  have "mset (held em' @ G) = mset (held em @ l # G)"
    using l1 em'(5) by (simp add: held_def) (simp add: set_entry_def)
  then have "owns_all em' G" using inv em'(4) owns_all_mset [of em "l # G" em' G] by (simp add: em_inv_def)
  moreover have up: "unat (?k + 1) = unat ?k + 1" using nw by (subst unat_add_nowrap) simp_all
  have "\<forall>eid \<in> fst ` set (em_entries em'). eid < ?k + 1"
    using inv ne em'(1) up by (auto simp: em_inv_def word_less_nat_alt)
  ultimately show "em_inv em' G" using inv ne em' fresh by (simp add: em_inv_def)
qed


lemma alloc_space_total: "em_inv em G \<Longrightarrow> \<exists>r em'. alloc_space t sz em = Some (r, em')"
proof (cases "em_alloc em t")
  case None
  then show ?thesis by (simp add: alloc_space_def Let_def)
next
  case (Some a)
  assume inv: "em_inv em G"
  let ?u = "em_block_size em" and ?w0 = "round_up_to sz (em_block_size em)"
  have "avl_ready a" "isp2 ?u" "(if ?w0 = 0 then ?u else ?w0) mod ?u = 0"
    using inv Some round_up_to_mod [of ?u sz] by (auto simp: em_inv_def owns_all_def avl.owns_def)
  from avl.allocate_ok [OF this] Some show ?thesis by (fastforce simp: alloc_space_def Let_def)
qed

lemma em_inv_allocate_extent:
  assumes inv: "em_inv em G" and nw: "unat (em_next_extent_id em) + 1 < 2 ^ 64"
    and a: "allocate_extent t sz em = Some (r, em')"
  shows "em_inv em' G" "r = Some (eid, l) \<Longrightarrow> eid = em_next_extent_id em"
proof -
  obtain s em1 where s: "alloc_space t sz em = Some (s, em1)" using a by (auto simp: allocate_extent_def split: option.splits)
  note I1 = em_inv_alloc_space [OF inv s]
  have "em_inv em' G \<and> (\<forall>eid l. r = Some (eid, l) \<longrightarrow> eid = em_next_extent_id em)"
  proof (cases s)
    case (Space l)
    then obtain res where "register_extent l em1 = (res, em')" "r = Some res"
      using a s by (auto simp: allocate_extent_def Let_def split: prod.splits)
    then show ?thesis using em_inv_register [of em1 l G res em'] I1(1,4) nw Space by auto
  next
    case Too_Little
    then have i1: "em_inv em1 G" using I1(1) by simp
    show ?thesis
    proof (cases "t = FAST")
      case False
      then show ?thesis using a s Too_Little i1 by (simp add: allocate_extent_def)
    next
      case True
      then obtain s2 em2 where s2: "alloc_space SLOW sz em1 = Some (s2, em2)"
        "(r, em') = (case s2 of Space l \<Rightarrow> (let (res, em'') = register_extent l em2 in (Some res, em'')) | _ \<Rightarrow> (None, em2))"
        using a s Too_Little by (auto simp: allocate_extent_def allocate_extent_slow_def)
      note I2 = em_inv_alloc_space [OF i1 s2(1)]
      show ?thesis
      proof (cases s2)
        case (Space l)
        then obtain res where "register_extent l em2 = (res, em')" "r = Some res"
          using s2(2) by (auto simp: Let_def split: prod.splits)
        then show ?thesis using em_inv_register [of em2 l G res em'] I2(1,4) I1(4) nw Space by auto
      qed (use s2(2) I2(1) in auto)
    qed
  next
    case No_Allocator
    then show ?thesis using a s I1(1) by (simp add: allocate_extent_def)
  qed
  then show "em_inv em' G" "r = Some (eid, l) \<Longrightarrow> eid = em_next_extent_id em" by auto
qed

lemma allocate_extent_total:
  assumes "em_inv em G"
  shows "\<exists>r em'. allocate_extent t sz em = Some (r, em')"
proof -
  obtain s em1 where s: "alloc_space t sz em = Some (s, em1)" using alloc_space_total [OF assms] by blast
  show ?thesis
  proof (cases s)
    case (Space l)
    then show ?thesis using s by (simp add: allocate_extent_def Let_def split_beta)
  next
    case Too_Little
    then have "em_inv em1 G" using em_inv_alloc_space(1) [OF assms s] by simp
    then obtain s2 em2 where "alloc_space SLOW sz em1 = Some (s2, em2)" using alloc_space_total by blast
    then show ?thesis
      using s Too_Little by (cases s2) (simp_all add: allocate_extent_def allocate_extent_slow_def Let_def split_beta)
  qed (use s in \<open>simp add: allocate_extent_def\<close>)
qed

lemma em_inv_allocate_raw:
  assumes inv: "em_inv em G" and a: "allocate_raw t sz em = Some (r, em')"
  shows "em_inv em' (case r of None \<Rightarrow> G | Some l \<Rightarrow> l # G)"
proof -
  obtain s em1 where s: "alloc_space t sz em = Some (s, em1)" using a by (auto simp: allocate_raw_def split: option.splits)
  note I1 = em_inv_alloc_space(1) [OF inv s]
  show ?thesis
  proof (cases s)
    case Too_Little
    then have i1: "em_inv em1 G" using I1 by simp
    show ?thesis
    proof (cases "t = FAST")
      case True
      then obtain s2 where s2: "alloc_space SLOW sz em1 = Some (s2, em')" "r = (case s2 of Space l \<Rightarrow> Some l | _ \<Rightarrow> None)"
        using a s Too_Little by (auto simp: allocate_raw_def allocate_raw_slow_def)
      then show ?thesis using em_inv_alloc_space(1) [OF i1 s2(1)] by (cases s2) auto
    qed (use a s Too_Little i1 in \<open>auto simp: allocate_raw_def\<close>)
  qed (use a s I1 in \<open>auto simp: allocate_raw_def\<close>)
qed

text \<open>Reclaiming: what leaves the deferred-free list becomes free.\<close>

lemma is_insert_empty: "n \<noteq> 0 \<Longrightarrow> is_insert off n [] = [(off, n)]"
  by (simp add: is_insert_def Let_def)

lemma alloc_upd_id: "\<exists>al. em = em\<lparr>em_alloc := al\<rparr>"
  by (rule exI [of _ "em_alloc em"]) simp

lemma owns_all_drop: "owns_all em (l # G) \<Longrightarrow> owns_all em G"
  unfolding owns_all_def
proof (intro allI impI)
  fix t a assume o: "\<forall>t a. em_alloc em t = Some a \<longrightarrow> avl.owns a (ranges t (held em @ l # G))" and a: "em_alloc em t = Some a"
  let ?l = "if dl_tier l = t then [loc_range l] else []"
  have "avl.owns a (ranges t (held em) @ ?l @ ranges t G)" using o a by (simp add: ranges_Cons)
  then have "avl.owns a (?l @ ranges t (held em @ G))" by (rule owns_mset) simp
  then show "avl.owns a (ranges t (held em @ G))" by (rule owns_drops)
qed

definition grows :: "ExtentMap \<Rightarrow> ExtentMap \<Rightarrow> bool" where
  "grows em em' \<longleftrightarrow> (\<forall>t a. em_alloc em t = Some a \<longrightarrow> (\<exists>a'. em_alloc em' t = Some a' \<and> free_space a \<subseteq> free_space a'))"

text \<open>The location is free space of its tier.\<close>

definition is_free :: "DiskLocation \<Rightarrow> ExtentMap \<Rightarrow> bool" where
  "is_free l em \<longleftrightarrow> (\<exists>a. em_alloc em (dl_tier l) = Some a \<and> range_space (loc_range l) \<subseteq> free_space a)"

lemma grows_refl [simp]: "grows em em"
  by (simp add: grows_def)

lemma grows_trans: "grows a b \<Longrightarrow> grows b c \<Longrightarrow> grows a c"
  unfolding grows_def by (meson order_trans)

lemma is_free_grows: "is_free l em \<Longrightarrow> grows em em' \<Longrightarrow> is_free l em'"
  unfolding is_free_def grows_def by (meson order_trans)

lemma release_location_ok:
  assumes own: "owns_all em (l # G)"
  shows "\<exists>em'. release_location l em = Some em' \<and> owns_all em' G \<and> held em' = held em \<and>
    (\<exists>al. em' = em\<lparr>em_alloc := al\<rparr>) \<and> grows em em' \<and> (em_alloc em (dl_tier l) \<noteq> None \<longrightarrow> is_free l em')"
proof (cases "em_alloc em (dl_tier l)")
  case None
  then show ?thesis using owns_all_drop [OF own] alloc_upd_id by (auto simp: release_location_def)
next
  case (Some a)
  let ?t = "dl_tier l"
  have "avl.owns a (ranges ?t (held em @ l # G))" using own Some by (simp add: owns_all_def)
  then have o: "avl.owns a (loc_range l # ranges ?t (held em @ G))" using owns_mset by (simp add: ranges_Cons)
  then have nz: "ucast (dl_length l) \<noteq> (0 :: u64)" by (simp add: avl.owns_def regions_Cons loc_range_def)
  from avl.release_owns [OF o] obtain a' where a': "avl_release [loc_range l] a = Some a'"
    "avl.owns a' (ranges ?t (held em @ G))" "free_space a' = free_space a \<union> range_space (loc_range l)" by blast
  then have r: "release_location l em = Some (add_allocator ?t a' em)"
    using Some nz by (simp add: release_location_def is_insert_empty loc_range_def)
  have "owns_all (add_allocator ?t a' em) G"
    unfolding owns_all_def held_helpers
  proof (intro allI impI)
    fix t b assume b: "em_alloc (add_allocator ?t a' em) t = Some b"
    show "avl.owns b (ranges t (held em @ G))"
    proof (cases "t = ?t")
      case False
      then have "avl.owns b (ranges t (held em @ l # G))" using b own by (simp add: owns_all_def add_allocator_def)
      then show ?thesis using False by (simp add: ranges_Cons)
    qed (use b a'(2) in \<open>simp add: add_allocator_def\<close>)
  qed
  moreover have "grows em (add_allocator ?t a' em)" "is_free l (add_allocator ?t a' em)"
    using Some a'(3) by (auto simp: grows_def is_free_def add_allocator_def)
  ultimately show ?thesis using r by (auto simp: add_allocator_def)
qed

text \<open>\<open>em\<close> with an empty deferred-free list, whose entries are counted in \<open>G\<close>.\<close>

lemma deferred_loop_ok:
  assumes "owns_all em (map df_loc ds @ G)"
  shows "\<exists>keep em'. deferred_loop cur ds em = Some (keep, em') \<and> owns_all em' (map df_loc keep @ G) \<and>
    held em' = held em \<and> (\<exists>al. em' = em\<lparr>em_alloc := al\<rparr>) \<and>
    keep = filter (\<lambda>d. \<not> cur - df_added_at_seqno d \<ge> 2) ds \<and> grows em em' \<and>
    (\<forall>d \<in> set ds. cur - df_added_at_seqno d \<ge> 2 \<and> em_alloc em (dl_tier (df_loc d)) \<noteq> None \<longrightarrow> is_free (df_loc d) em')"
  using assms
proof (induction ds arbitrary: em G)
  case Nil
  then show ?case using alloc_upd_id by auto
next
  case (Cons d ds)
  show ?case
  proof (cases "cur - df_added_at_seqno d \<ge> 2")
    case True
    from release_location_ok [of em "df_loc d" "map df_loc ds @ G"] Cons.prems
    obtain em1 al where em1: "release_location (df_loc d) em = Some em1" "owns_all em1 (map df_loc ds @ G)"
      "held em1 = held em" "em1 = em\<lparr>em_alloc := al\<rparr>" "grows em em1"
      "em_alloc em (dl_tier (df_loc d)) \<noteq> None \<longrightarrow> is_free (df_loc d) em1" by auto
    from Cons.IH [OF em1(2)] obtain keep em' al' where L: "deferred_loop cur ds em1 = Some (keep, em')"
      "owns_all em' (map df_loc keep @ G)" "held em' = held em1" "em' = em1\<lparr>em_alloc := al'\<rparr>"
      "keep = filter (\<lambda>d. \<not> cur - df_added_at_seqno d \<ge> 2) ds" "grows em1 em'"
      "\<forall>d \<in> set ds. cur - df_added_at_seqno d \<ge> 2 \<and> em_alloc em1 (dl_tier (df_loc d)) \<noteq> None \<longrightarrow> is_free (df_loc d) em'"
      by blast
    have g: "grows em em'" using em1(5) L(6) by (rule grows_trans)
    have n: "em_alloc em t \<noteq> None \<Longrightarrow> em_alloc em1 t \<noteq> None" for t using em1(5) unfolding grows_def by blast
    have "\<forall>x \<in> set (d # ds). cur - df_added_at_seqno x \<ge> 2 \<and> em_alloc em (dl_tier (df_loc x)) \<noteq> None \<longrightarrow>
        is_free (df_loc x) em'"
      using L(7) n em1(6) is_free_grows [OF _ L(6)] by auto
    moreover have "\<exists>al. em' = em\<lparr>em_alloc := al\<rparr>" using L(4) em1(4) by auto
    ultimately show ?thesis using True L g em1(1,3) by auto
  next
    case False
    have "owns_all em (map df_loc ds @ df_loc d # G)"
      using Cons.prems by (rule owns_all_mset) simp_all
    from Cons.IH [OF this] obtain keep em' al where L: "deferred_loop cur ds em = Some (keep, em')"
      "owns_all em' (map df_loc keep @ df_loc d # G)" "held em' = held em" "em' = em\<lparr>em_alloc := al\<rparr>"
      "keep = filter (\<lambda>d. \<not> cur - df_added_at_seqno d \<ge> 2) ds" "grows em em'"
      "\<forall>d \<in> set ds. cur - df_added_at_seqno d \<ge> 2 \<and> em_alloc em (dl_tier (df_loc d)) \<noteq> None \<longrightarrow> is_free (df_loc d) em'"
      by blast
    have "owns_all em' (map df_loc (d # keep) @ G)" using L(2) by (rule owns_all_mset) simp_all
    then show ?thesis using False L by auto
  qed
qed


lemma release_location_frame:
  "release_location l (e\<lparr>em_deferred_free := x\<rparr>) = map_option (\<lambda>e'. e'\<lparr>em_deferred_free := x\<rparr>) (release_location l e)"
  by (auto simp: release_location_def add_allocator_def map_option_case split: option.splits)

lemma deferred_loop_frame:
  "deferred_loop c ds (e\<lparr>em_deferred_free := x\<rparr>) =
     map_option (\<lambda>(k, e'). (k, e'\<lparr>em_deferred_free := x\<rparr>)) (deferred_loop c ds e)"
proof (induction ds arbitrary: e)
  case (Cons d ds)
  show ?case
    by (cases "release_location (df_loc d) e")
      (auto simp: release_location_frame Cons.IH option.map_comp comp_def split_beta)
qed simp

lemma process_deferred_free_ok:
  assumes inv: "em_inv em G"
  shows "\<exists>em'. process_deferred_free em = Some em' \<and> em_inv em' G \<and> em_seqno em' = em_seqno em + 1 \<and>
    em_entries em' = em_entries em \<and> em_next_extent_id em' = em_next_extent_id em \<and>
    em_deferred_free em' = filter (\<lambda>d. \<not> em_seqno em - df_added_at_seqno d \<ge> 2) (em_deferred_free em) \<and>
    grows em em' \<and> (\<forall>d \<in> set (em_deferred_free em). em_seqno em - df_added_at_seqno d \<ge> 2 \<and>
      em_alloc em (dl_tier (df_loc d)) \<noteq> None \<longrightarrow> is_free (df_loc d) em')"
proof -
  let ?ds = "em_deferred_free em" and ?em0 = "em\<lparr>em_seqno := em_seqno em + 1\<rparr>"
  have "owns_all em G" using inv by (simp add: em_inv_def)
  then have o: "owns_all (?em0\<lparr>em_deferred_free := []\<rparr>) (map df_loc ?ds @ G)"
    by (rule owns_all_mset) (simp_all add: held_def em_locs_def)
  from deferred_loop_ok [OF o, of "em_seqno em"] obtain keep em1 al where L:
    "deferred_loop (em_seqno em) ?ds (?em0\<lparr>em_deferred_free := []\<rparr>) = Some (keep, em1)"
    "owns_all em1 (map df_loc keep @ G)" "em1 = ?em0\<lparr>em_deferred_free := [], em_alloc := al\<rparr>"
    "keep = filter (\<lambda>d. \<not> em_seqno em - df_added_at_seqno d \<ge> 2) ?ds" "grows em em1"
    "\<forall>d \<in> set ?ds. em_seqno em - df_added_at_seqno d \<ge> 2 \<and> em_alloc em (dl_tier (df_loc d)) \<noteq> None \<longrightarrow>
       is_free (df_loc d) em1" by (auto simp: grows_def)
  from L(1) obtain em2 where E:
    "deferred_loop (em_seqno em) ?ds ?em0 = Some (keep, em2)" "em1 = em2\<lparr>em_deferred_free := []\<rparr>"
    by (auto simp: deferred_loop_frame)
  let ?r = "em2\<lparr>em_deferred_free := keep\<rparr>"
  have p: "process_deferred_free em = Some ?r" using E(1) by (simp add: process_deferred_free_def Let_def)
  have r: "?r = ?em0\<lparr>em_deferred_free := keep, em_alloc := al\<rparr>"
  proof -
    have "?r = em1\<lparr>em_deferred_free := keep\<rparr>" by (simp add: E(2))
    then show ?thesis by (simp add: L(3))
  qed
  have "owns_all ?r G" using L(2) unfolding r L(3) by (rule owns_all_mset) (simp_all add: held_def em_locs_def)
  moreover have "grows em ?r" "is_free x em1 \<Longrightarrow> is_free x ?r" for x
    using L(5) unfolding r L(3) by (simp_all add: grows_def is_free_def)
  ultimately show ?thesis using p inv L(4,6) r by (auto simp: em_inv_def)
qed


section \<open>Generations\<close>

text \<open>
  An entry keeps its slots and its location, or its generation is one higher; the id of a freed extent is not used
  again.
\<close>

definition evolves :: "ExtentEntry \<Rightarrow> ExtentEntry \<Rightarrow> bool" where
  "evolves e e' \<longleftrightarrow> ee_used_bytes e' = ee_used_bytes e \<and> ee_live_bytes e' = ee_live_bytes e \<and>
       ee_location e' = ee_location e \<and> generation (ee_raw e') = generation (ee_raw e) \<or>
     generation (ee_raw e') = take_bit 32 (generation (ee_raw e) + 1)"

definition tracks :: "ExtentMap \<Rightarrow> ExtentMap \<Rightarrow> bool" where
  "tracks em em' \<longleftrightarrow> em_next_extent_id em \<le> em_next_extent_id em' \<and>
     (\<forall>k. em_lookup em k = None \<longrightarrow> k < em_next_extent_id em \<longrightarrow> em_lookup em' k = None) \<and>
     (\<forall>k e e'. em_lookup em k = Some e \<longrightarrow> em_lookup em' k = Some e' \<longrightarrow> evolves e e')"

lemma evolves_refl [simp]: "evolves e e"
  by (simp add: evolves_def)

lemma tracks_refl [simp]: "tracks em em"
  by (simp add: tracks_def)

lemma tracks_upd [simp]:
  "tracks em (em'\<lparr>em_free_lists := x\<rparr>) = tracks em em'" "tracks em (em'\<lparr>em_deferred_free := ds\<rparr>) = tracks em em'"
  "tracks em (em'\<lparr>em_dirty_headers := dh\<rparr>) = tracks em em'" "tracks em (em'\<lparr>em_dev := dv\<rparr>) = tracks em em'"
  "tracks em (em'\<lparr>em_alloc := al\<rparr>) = tracks em em'" "tracks em (em'\<lparr>em_seqno := q\<rparr>) = tracks em em'"
  by (simp_all add: tracks_def em_lookup_def)

lemma tracks_helpers [simp]:
  "tracks em (mark_dirty k em') = tracks em em'" "tracks em (add_deferred_free l em') = tracks em em'"
  "tracks em (update_free_list k t x y em') = tracks em em'" "tracks em (dev_put t off bl em') = tracks em em'"
  "tracks em (add_allocator t a em') = tracks em em'"
  by (simp_all add: mark_dirty_def add_deferred_free_def update_free_list_def dev_put_def add_allocator_def
      split: option.split)

lemma set_entry_next [simp]: "em_next_extent_id (set_entry k e em) = em_next_extent_id em"
  by (simp add: set_entry_def)

lemma tracks_set_entry: "em_lookup em k = Some e \<Longrightarrow> evolves e e' \<Longrightarrow> tracks em (set_entry k e' em)"
  by (auto simp: tracks_def)

lemma generation_pack_same: "generation (pack a w r s (generation v)) = generation v"
  using metrics_bounds(5) [of v] by (simp add: generation_pack field_masks and_mask_small)

lemma generation_pack_next: "generation (pack a w r s (g + 1)) = take_bit 32 (g + 1)"
  by (simp add: generation_pack field_masks take_bit_eq_mask)

lemma evolves_bump: "generation (ee_raw e0) = generation (ee_raw e) \<Longrightarrow> evolves e (bump_generation e0)"
  by (simp add: evolves_def bump_generation_def Let_def generation_pack_next)

lemma evolves_meter:
  "evolves e (e\<lparr>ee_last_access_time := n, ee_raw := pack a w r s (generation (ee_raw e))\<rparr>)"
  "evolves e (e\<lparr>ee_raw := pack a w r s (generation (ee_raw e))\<rparr>)" "evolves e (e\<lparr>ee_io_refs := i\<rparr>)"
  by (simp_all add: evolves_def generation_pack_same)

lemma tracks_ops:
  "tracks em (record_io k io now em)" "tracks em (set_randomness k r em)" "tracks em (mark_dead_slot k n em)"
  "tracks em (io_ref_inc k em)" "tracks em (io_ref_dec k em)" "tracks em (abort_migration h em)"
  "tracks em (snd (append_slot k n em))" "tracks em (snd (begin_migration k em))" "tracks em (flush_header k em)"
  "tracks em (snd (commit_migration h l em))"
  by (auto simp: record_io_def set_randomness_def mark_dead_slot_def io_ref_inc_def io_ref_dec_def abort_migration_def
      append_slot_def begin_migration_def flush_header_def commit_migration_def Let_def
      intro!: tracks_set_entry evolves_bump evolves_meter split: option.split)
    (simp add: evolves_def generation_pack_next)


lemma tracks_trans_frame: "tracks a b \<Longrightarrow> em_entries c = em_entries b \<Longrightarrow> em_next_extent_id c = em_next_extent_id b \<Longrightarrow> tracks a c"
  by (simp add: tracks_def em_lookup_def)

lemma tracks_entries: "em_entries c = em_entries a \<Longrightarrow> em_next_extent_id c = em_next_extent_id a \<Longrightarrow> tracks a c"
  using tracks_trans_frame [OF tracks_refl] .

lemma tracks_free: "tracks em (em_free k em)"
  by (auto simp: em_free_def Let_def tracks_def em_lookup_def add_deferred_free_def split: option.split if_splits)

lemma tracks_flush: "tracks em (flush_dirty_headers em)"
proof -
  have "em_entries (fold flush_header ks e) = em_entries e \<and> em_next_extent_id (fold flush_header ks e) = em_next_extent_id e"
    for ks e
    by (induction ks arbitrary: e) (auto simp: flush_header_def dev_put_def split: option.split)
  then show ?thesis by (intro tracks_entries) (simp_all add: flush_dirty_headers_def)
qed

lemma tracks_register:
  assumes "em_inv em G" "unat (em_next_extent_id em) + 1 < 2 ^ 64" "register_extent l em = (res, em')"
  shows "tracks em em'"
proof -
  let ?k = "em_next_extent_id em"
  have up: "unat (?k + 1) = unat ?k + 1" using assms(2) by (subst unat_add_nowrap) simp_all
  have n: "em_lookup em ?k = None"
    using assms(1) unfolding em_inv_def em_lookup_def map_of_eq_None_iff by blast
  have "em_lookup em' = (em_lookup em)(?k \<mapsto> new_ExtentEntry l)" "em_next_extent_id em' = ?k + 1"
    using assms(3) by (auto simp: register_extent_def Let_def write_extent_header_def dev_put_def em_lookup_def set_entry_def
        fun_eq_iff split: option.splits)
  then show ?thesis using n up by (auto simp: tracks_def word_le_nat_alt word_less_nat_alt)
qed

lemma tracks_allocate_extent:
  assumes inv: "em_inv em G" and nw: "unat (em_next_extent_id em) + 1 < 2 ^ 64"
    and a: "allocate_extent t sz em = Some (r, em')"
  shows "tracks em em'"
proof -
  have reg: "tracks em em'" if "alloc_space t' sz em1 = Some (s, em2)" "em_inv em1 G'" "tracks em em1"
    "em_entries em1 = em_entries em" "em_next_extent_id em1 = em_next_extent_id em"
    "em' = em2 \<or> (\<exists>l res. s = Space l \<and> register_extent l em2 = (res, em'))" for t' em1 s em2 G'
  proof -
    note I = em_inv_alloc_space [OF that(2,1)]
    have t2: "tracks em em2" using that(3) I(3,4) by (rule tracks_trans_frame)
    show ?thesis using that(6)
    proof
      assume "\<exists>l res. s = Space l \<and> register_extent l em2 = (res, em')"
      then obtain l res where r: "s = Space l" "register_extent l em2 = (res, em')" by blast
      then have "tracks em2 em'" using tracks_register [of em2 "l # G'"] I(1,4) that(5) nw by simp
      then show ?thesis using that(4,5) I(3,4) by (simp add: tracks_def em_lookup_def)
    qed (use t2 in simp)
  qed
  obtain s em1 where s: "alloc_space t sz em = Some (s, em1)" using a by (auto simp: allocate_extent_def split: option.splits)
  note I1 = em_inv_alloc_space [OF inv s]
  show ?thesis
  proof (cases "s = Too_Little \<and> t = FAST")
    case True
    then have i1: "em_inv em1 G" using I1(1) by simp
    obtain s2 em2 where s2: "alloc_space SLOW sz em1 = Some (s2, em2)"
      "(r, em') = (case s2 of Space l \<Rightarrow> (let (res, em'') = register_extent l em2 in (Some res, em'')) | _ \<Rightarrow> (None, em2))"
      using a s True by (auto simp: allocate_extent_def allocate_extent_slow_def)
    then have "em' = em2 \<or> (\<exists>l res. s2 = Space l \<and> register_extent l em2 = (res, em'))"
      by (cases s2) (auto simp: Let_def split: prod.splits)
    then show ?thesis using reg [OF s2(1) i1] I1(3,4) tracks_entries by blast
  next
    case False
    then have "em' = em1 \<or> (\<exists>l res. s = Space l \<and> register_extent l em1 = (res, em'))"
      using a s by (cases s) (auto simp: allocate_extent_def Let_def split: prod.splits)
    then show ?thesis using reg [OF s inv] by simp
  qed
qed

lemma tracks_allocate_raw: "em_inv em G \<Longrightarrow> allocate_raw t sz em = Some (r, em') \<Longrightarrow> tracks em em'"
proof -
  assume inv: "em_inv em G" and a: "allocate_raw t sz em = Some (r, em')"
  obtain s em1 where s: "alloc_space t sz em = Some (s, em1)" using a by (auto simp: allocate_raw_def split: option.splits)
  note I1 = em_inv_alloc_space [OF inv s]
  show ?thesis
  proof (cases "s = Too_Little \<and> t = FAST")
    case True
    then obtain s2 where s2: "alloc_space SLOW sz em1 = Some (s2, em')" "em_inv em1 G"
      using a s I1(1) by (auto simp: allocate_raw_def allocate_raw_slow_def)
    show ?thesis using em_inv_alloc_space(3,4) [OF s2(2,1)] I1(3,4) by (intro tracks_entries) simp_all
  next
    case False
    then have "em' = em1" using a s by (cases s) (auto simp: allocate_raw_def)
    then show ?thesis using I1(3,4) by (intro tracks_entries) simp_all
  qed
qed

section \<open>Steps\<close>

text \<open>
  The calls the engine and the migration engine make, in any order, each with the locations \<open>G\<close> obtained by
  \<open>allocate_raw\<close> that have not been passed on. Fewer than \<open>2 ^ 64\<close> extents are created.
\<close>

inductive em_step :: "ExtentMap \<times> DiskLocation list \<Rightarrow> ExtentMap \<times> DiskLocation list \<Rightarrow> bool" where
  allocate: "allocate_extent t sz em = Some (r, em') \<Longrightarrow> unat (em_next_extent_id em) + 1 < 2 ^ 64 \<Longrightarrow>
    em_step (em, G) (em', G)"
| raw: "allocate_raw t sz em = Some (r, em') \<Longrightarrow> em_step (em, G) (em', case r of None \<Rightarrow> G | Some l \<Rightarrow> l # G)"
| append: "em_step (em, G) (snd (append_slot k n em), G)"
| dead: "em_step (em, G) (mark_dead_slot k n em, G)"
| meter: "em_step (em, G) (record_io k io now em, G)"
| stride: "em_step (em, G) (set_randomness k rnd em, G)"
| ref_inc: "em_step (em, G) (io_ref_inc k em, G)"
| ref_dec: "em_step (em, G) (io_ref_dec k em, G)"
| claim: "em_step (em, G) (snd (begin_migration k em), G)"
| commit: "commit_migration h l em = (b, em') \<Longrightarrow> l \<in> set G \<Longrightarrow> em_step (em, G) (em', if b then remove1 l G else G)"
| abort: "em_step (em, G) (abort_migration h em, G)"
| give_back: "l \<in> set G \<Longrightarrow> em_step (em, G) (release_source l em, remove1 l G)"
| free: "em_step (em, G) (em_free k em, G)"
| reclaim: "process_deferred_free em = Some em' \<Longrightarrow> em_step (em, G) (em', G)"
| flush: "em_step (em, G) (flush_dirty_headers em, G)"

lemma em_step_ok:
  assumes "em_step s s'" "em_inv (fst s) (snd s)"
  shows "em_inv (fst s') (snd s') \<and> tracks (fst s) (fst s')"
  using assms
proof (induction rule: em_step.induct)
  case (allocate t sz em r em' G)
  then show ?case using em_inv_allocate_extent(1) tracks_allocate_extent by (metis fst_conv snd_conv)
next
  case (raw t sz em r em' G)
  then show ?case using em_inv_allocate_raw tracks_allocate_raw by (metis fst_conv snd_conv)
next
  case (commit h l em b em' G)
  then show ?case using em_inv_commit [of em G l h b em'] tracks_ops(10) [of em h l] by simp
next
  case (give_back l G em)
  then show ?case using em_inv_release_source [of em G l] by (simp add: release_source_def)
next
  case (free em G k)
  then show ?case using em_inv_free tracks_free by simp
next
  case (reclaim em em' G)
  then have "em_inv em' G" "em_entries em' = em_entries em" "em_next_extent_id em' = em_next_extent_id em"
    using process_deferred_free_ok [of em G] by auto
  then show ?case by (auto intro: tracks_entries)
qed (auto intro: em_inv_quiet quiet_ops quiet_flush tracks_ops tracks_flush)


lemma em_steps_ok:
  assumes "em_step\<^sup>*\<^sup>* s s'" "em_inv (fst s) (snd s)"
  shows "em_inv (fst s') (snd s')"
  using assms by (induction rule: rtranclp_induct) (auto dest: em_step_ok)

section \<open>Disjointness\<close>

lemma distinct_positions:
  assumes "distinct (map f (filter P (map g xs)))" "x \<in> set xs" "y \<in> set xs" "x \<noteq> y" "P (g x)" "P (g y)"
  shows "f (g x) \<noteq> f (g y)"
proof -
  have "inj_on (f \<circ> g) (set (filter (P \<circ> g) xs))"
    using assms(1) by (simp add: filter_map distinct_map comp_assoc)
  then show ?thesis using assms(2-6) by (auto simp: inj_on_def)
qed

lemma loc_in_em_locs: "em_lookup em j = Some e \<Longrightarrow> ee_location e \<in> set (em_locs em)"
  unfolding em_lookup_def em_locs_def by (force dest: map_of_SomeD)

lemma in_ranges: "l \<in> set ls \<Longrightarrow> dl_tier l = t \<Longrightarrow> loc_range l \<in> set (ranges t ls)"
  by (simp add: ranges_def)

lemma em_inv_disjoint:
  assumes inv: "em_inv em G" and a: "em_alloc em t = Some a"
    and e: "em_lookup em j = Some e" "dl_tier (ee_location e) = t"
  shows "range_space (loc_range (ee_location e)) \<inter> free_space a = {}"
    "em_lookup em k = Some f \<Longrightarrow> dl_tier (ee_location f) = t \<Longrightarrow> j \<noteq> k \<Longrightarrow>
      range_space (loc_range (ee_location e)) \<inter> range_space (loc_range (ee_location f)) = {}"
    "d \<in> set (em_deferred_free em) \<Longrightarrow> dl_tier (df_loc d) = t \<Longrightarrow>
      range_space (loc_range (ee_location e)) \<inter> range_space (loc_range (df_loc d)) = {}"
proof -
  let ?R = "ranges t (held em @ G)"
  have o: "avl.owns a ?R" using inv a by (simp add: em_inv_def owns_all_def)
  then have dst: "distinct ?R" by (simp add: avl.owns_def regions_def)
  have me: "(j, e) \<in> set (em_entries em)" using e(1) by (simp add: em_lookup_def map_of_SomeD)
  then have re: "loc_range (ee_location e) \<in> set (ranges t (em_locs em))"
    using e loc_in_em_locs in_ranges by blast
  then show "range_space (loc_range (ee_location e)) \<inter> free_space a = {}"
    using o by (auto simp: avl.owns_def regions_def held_def)
  show "range_space (loc_range (ee_location e)) \<inter> range_space (loc_range (ee_location f)) = {}"
    if f: "em_lookup em k = Some f" "dl_tier (ee_location f) = t" "j \<noteq> k"
  proof -
    have mf: "(k, f) \<in> set (em_entries em)" using f(1) by (simp add: em_lookup_def map_of_SomeD)
    then have rf: "loc_range (ee_location f) \<in> set (ranges t (em_locs em))"
      using f loc_in_em_locs in_ranges by blast
    have "distinct (map loc_range (filter (\<lambda>l. dl_tier l = t) (map (ee_location \<circ> snd) (em_entries em))))"
      using dst by (simp add: ranges_def held_def em_locs_def)
    from distinct_positions [OF this me mf] e(2) f(2,3)
    have "loc_range (ee_location e) \<noteq> loc_range (ee_location f)" by auto
    then show ?thesis using avl.owns_disjoint [OF o] re rf by (simp add: held_def)
  qed
  show "range_space (loc_range (ee_location e)) \<inter> range_space (loc_range (df_loc d)) = {}"
    if d: "d \<in> set (em_deferred_free em)" "dl_tier (df_loc d) = t"
  proof -
    have rd: "loc_range (df_loc d) \<in> set (ranges t (map df_loc (em_deferred_free em)))"
      using d by (auto simp: ranges_def)
    have "set (ranges t (em_locs em)) \<inter> set (ranges t (map df_loc (em_deferred_free em))) = {}"
      using dst by (auto simp: held_def)
    then have "loc_range (ee_location e) \<noteq> loc_range (df_loc d)" using re rd by (metis disjoint_iff)
    then show ?thesis using avl.owns_disjoint [OF o] re rd by (simp add: held_def)
  qed
qed

section \<open>Properties\<close>


text \<open>A map with one megabyte of free FAST space.\<close>

definition demo_em :: ExtentMap where
  "demo_em = add_allocator FAST demo_avl (new_ExtentMap (default_BtierConfig exact_fpu))"

lemma demo_em_inv: "em_inv demo_em []"
proof -
  have "avl_ready demo_avl" using demo_avl_facts by (auto simp: avl_ready_def intro: exI [of _ 12])
  moreover have "isp2 4096" by (simp add: isp2_def)
  ultimately show ?thesis
    by (simp add: em_inv_def owns_all_def demo_em_def add_allocator_def new_ExtentMap_def default_BtierConfig_def
        avl.owns_def ranges_def held_def em_locs_def)
qed


text \<open>C7: the generation check protects a migration. When fewer than \<open>2 ^ 32\<close> calls, of any kind and on any extent,
  happen between \<open>begin_migration\<close> and a \<open>commit_migration\<close> that succeeds, then the extent has had the same slots and
  the same location all that time as when it was claimed: a concurrent \<open>append_slot\<close>, \<open>mark_dead_slot\<close> or move makes the
  commit fail.\<close>

theorem migration_commit_detects_changes:
  assumes inv: "em_inv em G" and b: "begin_migration k em = (Some h, em1)"
    and steps: "(em_step ^^ n) (em1, G) (em2, G2)" and n: "n < 2 ^ 32"
    and c: "commit_migration h l em2 = (True, em3)"
  shows "\<exists>e e2. em_lookup em k = Some e \<and> em_lookup em2 k = Some e2 \<and> ee_location e2 = ee_location e \<and>
    ee_used_bytes e2 = ee_used_bytes e \<and> ee_live_bytes e2 = ee_live_bytes e \<and> mh_src_loc h = ee_location e \<and>
    get_location em3 k = Some l"
proof -
  obtain e where e: "em_lookup em k = Some e" "mh_extent_id h = k" "mh_src_loc h = ee_location e"
    "mh_gen_before h = generation (ee_raw e)"
    using b by (auto simp: begin_migration_def Let_def split: option.splits if_splits)
  have i1: "em_inv em1 G" using em_inv_quiet [OF inv quiet_ops(9) [of em k]] b by simp
  obtain e1 where e1: "em_lookup em1 k = Some e1" "ee_used_bytes e1 = ee_used_bytes e" "ee_live_bytes e1 = ee_live_bytes e"
    "ee_location e1 = ee_location e" "generation (ee_raw e1) = generation (ee_raw e)"
    using b e by (auto simp: begin_migration_def Let_def generation_pack_same split: option.splits if_splits)
  have "em_inv em' G' \<and> k < em_next_extent_id em' \<and> (\<forall>e'. em_lookup em' k = Some e' \<longrightarrow> (\<exists>d \<le> m.
      unat (generation (ee_raw e')) = (unat (generation (ee_raw e)) + d) mod 2 ^ 32 \<and>
      (d = 0 \<longrightarrow> ee_used_bytes e' = ee_used_bytes e \<and> ee_live_bytes e' = ee_live_bytes e \<and>
         ee_location e' = ee_location e)))"
    if "(em_step ^^ m) (em1, G) (em', G')" for m em' G'
    using that
  proof (induction m arbitrary: em' G')
    case 0
    have "k \<in> fst ` set (em_entries em1)" using e1(1) unfolding em_lookup_def by (force dest: map_of_SomeD)
    then have "k < em_next_extent_id em1" using i1 by (auto simp: em_inv_def)
    then show ?case
      using 0 i1 e1 metrics_bounds(5) [of "ee_raw e"] by (auto intro!: exI [of _ 0])
  next
    case (Suc m)
    then obtain em0 G0 where s: "(em_step ^^ m) (em1, G) (em0, G0)" "em_step (em0, G0) (em', G')" by auto
    note IH = Suc.IH [OF s(1)]
    have st: "em_inv em' G'" "tracks em0 em'" using em_step_ok [OF s(2)] IH by auto
    have le: "em_next_extent_id em0 \<le> em_next_extent_id em'" using st(2) by (simp add: tracks_def)
    show ?case
    proof (intro conjI allI impI)
      show "em_inv em' G'" by (rule st(1))
      show "k < em_next_extent_id em'" using IH le by auto
      fix e' assume e': "em_lookup em' k = Some e'"
      then obtain e0 where e0: "em_lookup em0 k = Some e0" "evolves e0 e'"
        using st(2) IH unfolding tracks_def by (cases "em_lookup em0 k") auto
      then obtain d where d: "d \<le> m" "unat (generation (ee_raw e0)) = (unat (generation (ee_raw e)) + d) mod 2 ^ 32"
        "d = 0 \<longrightarrow> ee_used_bytes e0 = ee_used_bytes e \<and> ee_live_bytes e0 = ee_live_bytes e \<and> ee_location e0 = ee_location e"
        using IH by blast
      consider (same) "ee_used_bytes e' = ee_used_bytes e0" "ee_live_bytes e' = ee_live_bytes e0"
          "ee_location e' = ee_location e0" "generation (ee_raw e') = generation (ee_raw e0)"
        | (bump) "generation (ee_raw e') = take_bit 32 (generation (ee_raw e0) + 1)"
        using e0(2) by (auto simp: evolves_def)
      then show "\<exists>d \<le> Suc m. unat (generation (ee_raw e')) = (unat (generation (ee_raw e)) + d) mod 2 ^ 32 \<and>
          (d = 0 \<longrightarrow> ee_used_bytes e' = ee_used_bytes e \<and> ee_live_bytes e' = ee_live_bytes e \<and> ee_location e' = ee_location e)"
      proof cases
        case same
        then show ?thesis using d by (intro exI [of _ d]) simp
      next
        case bump
        have "unat (generation (ee_raw e0) + 1) = unat (generation (ee_raw e0)) + 1"
          using metrics_bounds(5) [of "ee_raw e0"] by (subst unat_add_nowrap) simp_all
        then have "unat (generation (ee_raw e')) = (unat (generation (ee_raw e0)) + 1) mod 2 ^ 32"
          by (simp add: bump take_bit_eq_mod unat_mod)
        also have "\<dots> = (unat (generation (ee_raw e)) + Suc d) mod 2 ^ 32" by (simp add: d(2) mod_simps)
        finally show ?thesis using d(1) by (intro exI [of _ "Suc d"]) simp
      qed
    qed
  qed
  note P = this [OF steps]
  from c obtain e2 where e2: "em_lookup em2 k = Some e2" "generation (ee_raw e2) = generation (ee_raw e)"
    "get_location em3 k = Some l"
    using e(2,4) by (elim commit_migration_True) (simp add: get_location_def mark_dirty_def add_deferred_free_def em_lookup_def set_entry_def)
  from P e2(1) obtain d where d: "d \<le> n" "unat (generation (ee_raw e2)) = (unat (generation (ee_raw e)) + d) mod 2 ^ 32"
    "d = 0 \<longrightarrow> ee_used_bytes e2 = ee_used_bytes e \<and> ee_live_bytes e2 = ee_live_bytes e \<and> ee_location e2 = ee_location e" by blast
  have "d = 0"
  proof (rule ccontr)
    assume "d \<noteq> 0"
    then have dd: "0 < d" "d < 2 ^ 32" using d(1) n by simp_all
    have g: "unat (generation (ee_raw e)) < 2 ^ 32" by (rule metrics_bounds(5))
    have eq: "unat (generation (ee_raw e)) = (unat (generation (ee_raw e)) + d) mod 2 ^ 32" using d(2) e2(2) by simp
    show False
    proof (cases "unat (generation (ee_raw e)) + d < 2 ^ 32")
      case True
      then show ?thesis using eq dd by simp
    next
      case False
      then have "(unat (generation (ee_raw e)) + d) mod 2 ^ 32 = unat (generation (ee_raw e)) + d - 2 ^ 32"
        using g dd by (subst mod_if) (simp add: mod_if)
      then show ?thesis using eq dd False by simp
    qed
  qed
  then show ?thesis using e e2 d(3) by auto
qed


text \<open>A map with one extent, and the handle of its migration.\<close>

definition demo_loc :: DiskLocation where
  "demo_loc = \<lparr>dl_offset = 0x10000, dl_length = 0x4000, dl_tier = FAST\<rparr>"

definition demo_em1 :: ExtentMap where
  "demo_em1 = create_entry_from_journal 1 demo_loc (new_ExtentMap (default_BtierConfig exact_fpu))"

lemmas demo_em1_defs = demo_em1_def create_entry_from_journal_def set_entry_def new_ExtentMap_def default_BtierConfig_def
  new_ExtentEntry_def em_lookup_def

lemma demo_em1_inv: "em_inv demo_em1 []"
  by (simp add: em_inv_def owns_all_def isp2_def demo_em1_defs Let_def)

lemma demo_em1_lookup: "em_lookup demo_em1 k = (if k = 1 then Some (new_ExtentEntry demo_loc) else None)"
  by (simp add: demo_em1_defs Let_def)

theorem migration_commit_detects_changes_witness:
  "\<exists>h em1 em2. begin_migration 1 demo_em1 = (Some h, em1) \<and> commit_migration h default_DiskLocation em1 = (True, em2) \<and>
     mh_src_loc h = demo_loc \<and> get_location em2 1 = Some default_DiskLocation"
proof -
  have st: "state 0 = ACTIVE" by (simp add: state_def ACTIVE_def)
  then obtain h em1 where b: "begin_migration 1 demo_em1 = (Some h, em1)"
    by (simp add: begin_migration_def demo_em1_lookup new_ExtentEntry_def Let_def)
  then have h: "mh_extent_id h = 1" "mh_src_loc h = demo_loc" "mh_gen_before h = generation 0"
    "\<exists>e. em_lookup em1 1 = Some e \<and> generation (ee_raw e) = generation 0"
    by (auto simp: begin_migration_def demo_em1_lookup new_ExtentEntry_def Let_def generation_pack_same split: if_splits)
  then obtain em2 where c: "commit_migration h default_DiskLocation em1 = (True, em2)"
    by (auto simp: commit_migration_def Let_def)
  have "(em_step ^^ 0) (em1, []) (em1, [])" by simp
  from migration_commit_detects_changes [OF demo_em1_inv b this _ c] b c h(2) show ?thesis by auto
qed

section \<open>Slots\<close>

text \<open>The bytes of an extent behind its header hold its slots, the live ones among the used.\<close>

definition entry_ok :: "ExtentEntry \<Rightarrow> bool" where
  "entry_ok e \<longleftrightarrow> 4096 \<le> unat (dl_length (ee_location e)) \<and>
     4096 + unat (ee_used_bytes e) \<le> unat (dl_length (ee_location e)) \<and> ee_live_bytes e \<le> ee_used_bytes e"

lemma unat_capacity: "entry_ok e \<Longrightarrow> unat (ee_capacity e) = unat (dl_length (ee_location e)) - 4096"
  unfolding ee_capacity_def HEADER_SIZE_def by (subst unat_sub_le) (simp_all add: entry_ok_def word_le_nat_alt)

text \<open>C27: \<open>append_slot\<close> hands out space inside the extent and only there. On an active extent with room the new slot starts where
  the used bytes end and lies behind the header and before the end of the extent, the used and live bytes grow by
  its size, the generation changes, the header is marked dirty and the entry stays well formed; without room, or while
  the extent migrates, nothing changes. Other extents are not touched.\<close>

theorem append_slot_bounds:
  assumes e: "em_lookup em k = Some e" "entry_ok e" and n: "unat (ee_used_bytes e) + unat n < 2 ^ 32"
    and a: "append_slot k n em = (off, em')"
  shows "if state (ee_raw e) = ACTIVE \<and> 4096 + unat (ee_used_bytes e) + unat n \<le> unat (dl_length (ee_location e))
    then \<exists>e'. off = ee_used_bytes e \<and> em_lookup em' = (em_lookup em)(k \<mapsto> e') \<and> entry_ok e' \<and>
      4096 + unat off + unat n \<le> unat (dl_length (ee_location e')) \<and> ee_location e' = ee_location e \<and>
      unat (ee_used_bytes e') = unat off + unat n \<and> unat (ee_live_bytes e') = unat (ee_live_bytes e) + unat n \<and>
      generation (ee_raw e') \<noteq> generation (ee_raw e) \<and> k \<in> set (em_dirty_headers em')
    else off = NO_SLOT \<and> em' = em"
proof -
  have cap: "unat (ee_capacity e) = unat (dl_length (ee_location e)) - 4096" "4096 \<le> unat (dl_length (ee_location e))"
    using unat_capacity [OF e(2)] e(2) by (simp_all add: entry_ok_def)
  have up: "unat (ee_used_bytes e + n) = unat (ee_used_bytes e) + unat n" using n by (intro unat_add_nowrap) simp
  have lp: "unat (ee_live_bytes e + n) = unat (ee_live_bytes e) + unat n"
    using n e(2) by (intro unat_add_nowrap) (auto simp: entry_ok_def word_le_nat_alt)
  show ?thesis
  proof (cases "state (ee_raw e) = ACTIVE \<and> 4096 + unat (ee_used_bytes e) + unat n \<le> unat (dl_length (ee_location e))")
    case False
    then show ?thesis using a e(1) cap up by (auto simp: append_slot_def Let_def word_less_nat_alt split: if_splits)
  next
    case True
    let ?e = "bump_generation (e\<lparr>ee_used_bytes := ee_used_bytes e + n, ee_live_bytes := ee_live_bytes e + n\<rparr>)"
    have fits: "\<not> ee_used_bytes e + n > ee_capacity e" unfolding word_less_nat_alt up cap(1) using True by arith
    have sel: "ee_used_bytes ?e = ee_used_bytes e + n" "ee_live_bytes ?e = ee_live_bytes e + n"
      "ee_location ?e = ee_location e" "generation (ee_raw ?e) = take_bit 32 (generation (ee_raw e) + 1)"
      by (simp_all add: bump_generation_def Let_def generation_pack_next)
    have g: "generation (ee_raw ?e) \<noteq> generation (ee_raw e)"
    proof
      let ?g = "generation (ee_raw e)"
      assume "generation (ee_raw ?e) = ?g"
      then have "unat ?g = unat (take_bit 32 (?g + 1))" using sel(4) by simp
      also have "\<dots> = (unat ?g + 1) mod 2 ^ 32"
        using metrics_bounds(5) [of "ee_raw e"] by (simp add: take_bit_eq_mod unat_mod unat_word_ariths)
      finally show False using metrics_bounds(5) [of "ee_raw e"] by (cases "unat ?g + 1 = 2 ^ 32") auto
    qed
    have "off = ee_used_bytes e" "em_lookup em' = (em_lookup em)(k \<mapsto> ?e)" "k \<in> set (em_dirty_headers em')"
      using a e(1) True fits
      by (auto simp: append_slot_def Let_def update_free_list_def mark_dirty_def em_lookup_def set_entry_def os_insert_def
          set_insort_key fun_eq_iff)
    moreover have "entry_ok ?e"
      using e(2) True sel up lp by (simp add: entry_ok_def word_le_nat_alt)
    ultimately show ?thesis using True g sel up lp by auto
  qed
qed

theorem append_slot_bounds_witness:
  "\<exists>em'. append_slot 1 100 demo_em1 = (0, em') \<and> append_slot 1 0x4000 demo_em1 = (NO_SLOT, demo_em1)"
proof -
  let ?e = "new_ExtentEntry demo_loc"
  have l: "em_lookup demo_em1 1 = Some ?e" by (simp add: demo_em1_lookup)
  have o: "entry_ok ?e" by (simp add: entry_ok_def new_ExtentEntry_def demo_loc_def)
  have st: "state (ee_raw ?e) = ACTIVE" by (simp add: new_ExtentEntry_def state_def ACTIVE_def)
  obtain off em' where a: "append_slot 1 100 demo_em1 = (off, em')" by (metis surj_pair)
  obtain off2 em2 where b: "append_slot 1 0x4000 demo_em1 = (off2, em2)" by (metis surj_pair)
  from append_slot_bounds [OF l o _ a] append_slot_bounds [OF l o _ b] st
  show ?thesis using a b by (auto simp: new_ExtentEntry_def demo_loc_def)
qed


section \<open>Deferred free\<close>

lemma two_le_one [simp]: "\<not> (2 :: u64) \<le> 1"
  by (simp add: word_le_nat_alt)

text \<open>C28: freed space is reused only after a grace period. After \<open>free\<close> the location of an extent is not free space of its
  tier until \<open>process_deferred_free\<close> has run three times; the third run makes all of it allocatable again. No run trips an
  assertion.\<close>

theorem deferred_free_grace:
  assumes inv: "em_inv em G" and e: "em_lookup em k = Some e" and al: "em_alloc em (dl_tier (ee_location e)) \<noteq> None"
  shows "\<exists>em1 em2 em3. process_deferred_free (em_free k em) = Some em1 \<and> process_deferred_free em1 = Some em2 \<and>
    process_deferred_free em2 = Some em3 \<and> em_lookup em3 k = None \<and>
    (\<forall>x \<in> {em_free k em, em1, em2}. \<exists>a. em_alloc x (dl_tier (ee_location e)) = Some a \<and>
       range_space (loc_range (ee_location e)) \<inter> free_space a = {}) \<and> is_free (ee_location e) em3"
proof -
  let ?l = "ee_location e" and ?em0 = "em_free k em" and ?s = "em_seqno em"
  let ?d = "\<lparr>df_loc = ee_location e, df_added_at_seqno = em_seqno em\<rparr>"
  have i0: "em_inv ?em0 G" using inv by (rule em_inv_free)
  have f0: "?d \<in> set (em_deferred_free ?em0)" "em_seqno ?em0 = ?s" "em_alloc ?em0 = em_alloc em" "em_lookup ?em0 k = None"
    using e by (simp_all add: em_free_def Let_def add_deferred_free_def em_lookup_def)
  obtain em1 where p1: "process_deferred_free ?em0 = Some em1" "em_inv em1 G" "em_seqno em1 = ?s + 1"
    "em_entries em1 = em_entries ?em0" "?d \<in> set (em_deferred_free em1)" "grows ?em0 em1"
    using process_deferred_free_ok [OF i0] f0 by auto
  obtain em2 where p2: "process_deferred_free em1 = Some em2" "em_inv em2 G" "em_seqno em2 = ?s + 1 + 1"
    "em_entries em2 = em_entries em1" "?d \<in> set (em_deferred_free em2)" "grows em1 em2"
    using process_deferred_free_ok [OF p1(2)] p1(3,5) by auto
  obtain em3 where p3: "process_deferred_free em2 = Some em3" "em_entries em3 = em_entries em2"
    "em_alloc em2 (dl_tier ?l) \<noteq> None \<longrightarrow> is_free ?l em3"
    using process_deferred_free_ok [OF p2(2)] p2(3,5) by fastforce
  have used: "\<exists>a. em_alloc x (dl_tier ?l) = Some a \<and> range_space (loc_range ?l) \<inter> free_space a = {}"
    if x: "em_inv x G" "?d \<in> set (em_deferred_free x)" "em_alloc x (dl_tier ?l) \<noteq> None" for x
  proof -
    obtain a where a: "em_alloc x (dl_tier ?l) = Some a" using x(3) by blast
    have "?l \<in> set (held x @ G)" using x(2) by (force simp: held_def)
    then have "loc_range ?l \<in> set (ranges (dl_tier ?l) (held x @ G))" using in_ranges by blast
    then show ?thesis using x(1) a by (auto simp: em_inv_def owns_all_def avl.owns_def regions_def)
  qed
  have n0: "em_alloc ?em0 (dl_tier ?l) \<noteq> None" using al f0(3) by simp
  then have n1: "em_alloc em1 (dl_tier ?l) \<noteq> None" using p1(6) unfolding grows_def by blast
  then have n2: "em_alloc em2 (dl_tier ?l) \<noteq> None" using p2(6) unfolding grows_def by blast
  have "em_lookup em3 k = None" using f0(4) p1(4) p2(4) p3(2) by (simp add: em_lookup_def)
  moreover have "\<forall>x \<in> {?em0, em1, em2}. \<exists>a. em_alloc x (dl_tier ?l) = Some a \<and>
      range_space (loc_range ?l) \<inter> free_space a = {}"
    using used [OF i0 f0(1) n0] used [OF p1(2,5) n1] used [OF p2(2,5) n2] by simp
  ultimately show ?thesis using p1(1) p2(1) p3(1,3) n2 by blast
qed

text \<open>A map with an allocator and an extent.\<close>

definition demo_em2 :: "AvlAllocator \<Rightarrow> ExtentMap" where
  "demo_em2 a = create_entry_from_journal 1 demo_loc (add_allocator FAST a (new_ExtentMap (default_BtierConfig exact_fpu)))"

lemma demo_em2_ok: "\<exists>a. avl_init_rm_free 0x10000 0x4000 demo_avl = Some a \<and> em_inv (demo_em2 a) []"
proof -
  have "{unat (0x10000::u64) ..< unat (0x10000::u64) + unat (0x4000::u64)} \<subseteq> free_space demo_avl"
    by (simp add: demo_avl_facts(2))
  with remove_from_tree_ok [OF demo_avl_facts(1), of "0x4000" "0x10000"]
  obtain a where a: "remove_from_tree 0x10000 0x4000 demo_avl = Some (True, a)" "avl_inv a" "avl_frame demo_avl a"
    "free_space a = free_space demo_avl - {0x10000 ..< 0x14000}" by auto
  have sz: "av_device_size a = 0x100000" "av_block_size a = 2 ^ 12"
    using a(3) demo_avl_facts(3) by (simp_all add: avl_frame_def demo_avl_def new_AvlAllocator_def)
  then have "avl_ready a" using a(2) by (auto simp: avl_ready_def intro: exI [of _ 12])
  then have "avl.owns a [loc_range demo_loc]"
    using a(4) sz(1) by (auto simp: avl.owns_def regions_Cons loc_range_def demo_loc_def range_space_def)
  then have "em_inv (demo_em2 a) []"
    by (auto simp: em_inv_def owns_all_def isp2_def demo_em2_def demo_em1_defs Let_def add_allocator_def ranges_def held_def
        em_locs_def demo_loc_def split: if_splits)
  moreover have "avl_init_rm_free 0x10000 0x4000 demo_avl = Some a"
    using a(1) by (simp add: avl_init_rm_free_def demo_avl_def new_AvlAllocator_def)
  ultimately show ?thesis by blast
qed

theorem deferred_free_grace_witness:
  "\<exists>a em1 em2 em3. avl_init_rm_free 0x10000 0x4000 demo_avl = Some a \<and>
     process_deferred_free (em_free 1 (demo_em2 a)) = Some em1 \<and> process_deferred_free em1 = Some em2 \<and>
     process_deferred_free em2 = Some em3 \<and> is_free demo_loc em3"
proof -
  from demo_em2_ok obtain a where a: "avl_init_rm_free 0x10000 0x4000 demo_avl = Some a" "em_inv (demo_em2 a) []" by blast
  let ?e = "new_ExtentEntry demo_loc"
  have "em_lookup (demo_em2 a) 1 = Some ?e" "em_alloc (demo_em2 a) (dl_tier (ee_location ?e)) \<noteq> None"
    by (simp_all add: demo_em2_def demo_em1_defs Let_def add_allocator_def demo_loc_def)
  from deferred_free_grace [OF a(2) this] a(1) show ?thesis by (auto simp: new_ExtentEntry_def)
qed

end
