(* ===== verification/Scoring_Engine.thy ===== *)
theory Scoring_Engine
  imports Btier_Types Btier_Config
begin

text \<open>
  \<open>btier/scoring_engine.cc\<close>: the score of an extent from its metrics word and the adaptation of the weights to the
  fill level of the FAST tier. The lock guards single reads and writes of the weights. Every operation on floats rounds, as
  written, from left to right; comparisons and \<open>clamp\<close> are exact. \<open>cfg_\<close> is a reference to the configuration of the
  engine, which can change at run time: it is an argument of the operations.
\<close>

record ScoringEngine =
  sc_active_weights :: WeightSet

definition new_ScoringEngine :: "BtierConfig \<Rightarrow> ScoringEngine" where
  "new_ScoringEngine cfg = \<lparr>sc_active_weights = cfg_base_weights cfg\<rparr>"

definition clamp01 :: "real \<Rightarrow> real" where
  "clamp01 v = (if v < 0 then 0 else if 1 < v then 1 else v)"

definition of_u32 :: "fpu \<Rightarrow> u32 \<Rightarrow> real" where
  "of_u32 fp v = single fp (real (unat v))"

definition norm_recency :: "fpu \<Rightarrow> BtierConfig \<Rightarrow> u32 \<Rightarrow> u32 \<Rightarrow> real" where
  "norm_recency fp cfg last_access_time current_time =
     (let cool = cfg_cool_interval_sec cfg
      in if cool > 0
         then let age = current_time - last_access_time
              in clamp01 (single fp (1 - single fp (of_u32 fp age / of_u32 fp cool)))
         else 0)"

definition score :: "fpu \<Rightarrow> BtierConfig \<Rightarrow> ScoringEngine \<Rightarrow> u64 \<Rightarrow> u32 \<Rightarrow> u32 \<Rightarrow> real" where
  "score fp cfg se raw_metrics last_access_time current_time =
     (let w = sc_active_weights se;
          recency = norm_recency fp cfg last_access_time current_time;
          frequency = single fp (of_u32 fp (access_count raw_metrics) / 4095);
          random = single fp (of_u32 fp (randomness raw_metrics) / 63);
          write_penalty = single fp (of_u32 fp (write_count raw_metrics) / 4095);
          raw_score = single fp (single fp (single fp (single fp (w_recency w * recency) +
                        single fp (w_frequency w * frequency)) +
                        single fp (w_randomness w * random)) -
                        single fp (w_write_penalty w * write_penalty))
      in clamp01 raw_score)"

text \<open>The pressure is computed in \<open>double\<close> and cast to \<open>float\<close>.\<close>

definition adapt_weights :: "fpu \<Rightarrow> BtierConfig \<Rightarrow> real \<Rightarrow> ScoringEngine \<Rightarrow> ScoringEngine" where
  "adapt_weights fp cfg fast_watermark se =
     (let w = cfg_base_weights cfg; high = cfg_high_watermark cfg;
          w' = (if fast_watermark > high
                then let pressure = single fp (double fp (double fp (fast_watermark - high) / double fp (1 - high)))
                     in w\<lparr>w_write_penalty := single fp (w_write_penalty w * single fp (1 + single fp (pressure * 2))),
                          w_randomness := single fp (w_randomness w * single fp (1 + single fp (pressure * 1.5))),
                          w_recency := single fp (w_recency w * single fp (1 - single fp (pressure * 0.5)))\<rparr>
                else if fast_watermark < cfg_low_watermark cfg
                then w\<lparr>w_recency := single fp (w_recency w * single fp 1.2),
                       w_frequency := single fp (w_frequency w * single fp 1.1)\<rparr>
                else w)
      in se\<lparr>sc_active_weights := w'\<rparr>)"

definition current_weights :: "ScoringEngine \<Rightarrow> WeightSet" where
  "current_weights se = sc_active_weights se"

end
