(* ===== verification/Migration_Engine.thy ===== *)
theory Migration_Engine
  imports Extent_Map Key_Map Scoring_Engine
begin

text \<open>
  \<open>btier/migration_engine.cc\<close>: tier migration, compaction and the cycle of the background thread. The extent map (with
  the devices), the key map and the scoring engine the source points to are passed along; the
  worker thread is a repetition of \<open>run_cycle_inline\<close>, its sleep and the observer's log lines are left out. \<open>None\<close> stands for a
  failed assertion of an allocator or a missing device. The order in which \<open>std::sort\<close> leaves extents of equal score
  is open; the model keeps their order.
\<close>

section \<open>State\<close>

datatype MigrationResult = COMMITTED | INTERRUPTED | FAILED

datatype task_type = TIER_MIGRATE | COMPACT

record MigrationTask =
  mt_type :: task_type
  mt_extent_id :: u64
  mt_from :: tier
  mt_to :: tier
  mt_score :: real

record MigrationEngine =
  me_running :: bool
  me_queue :: "MigrationTask list"
  me_promotions_committed :: u64
  me_demotions_committed :: u64
  me_compactions_committed :: u64
  me_interruptions :: u64
  me_io_errors :: u64

definition new_MigrationEngine :: MigrationEngine where
  "new_MigrationEngine = \<lparr>me_running = False, me_queue = [], me_promotions_committed = 0, me_demotions_committed = 0,
     me_compactions_committed = 0, me_interruptions = 0, me_io_errors = 0\<rparr>"

definition count_io_error :: "MigrationEngine \<Rightarrow> MigrationEngine" where
  "count_io_error me = me\<lparr>me_io_errors := me_io_errors me + 1\<rparr>"

definition count_interruption :: "MigrationEngine \<Rightarrow> MigrationEngine" where
  "count_interruption me = me\<lparr>me_interruptions := me_interruptions me + 1\<rparr>"

definition count_compaction :: "MigrationEngine \<Rightarrow> MigrationEngine" where
  "count_compaction me = me\<lparr>me_compactions_committed := me_compactions_committed me + 1\<rparr>"

text \<open>\<open>device_for\<close>, and the buffered reads and writes through it.\<close>

definition device_for :: "tier \<Rightarrow> tier" where
  "device_for t = (if t = FAST then FAST else SLOW)"

definition tier_read :: "tier \<Rightarrow> u64 \<Rightarrow> u64 \<Rightarrow> ExtentMap \<Rightarrow> (int \<times> bytes \<times> ExtentMap) option" where
  "tier_read t off len em =
     (case em_dev em (device_for t) of
        None \<Rightarrow> None
      | Some d \<Rightarrow> let (r, bl, d') = dev_read off len True d in Some (r, bl, add_block_device (device_for t) d' em))"

definition tier_write :: "tier \<Rightarrow> u64 \<Rightarrow> bytes \<Rightarrow> ExtentMap \<Rightarrow> (int \<times> ExtentMap) option" where
  "tier_write t off bl em =
     (case em_dev em (device_for t) of
        None \<Rightarrow> None
      | Some d \<Rightarrow> let (r, d') = dev_write off bl True d in Some (r, add_block_device (device_for t) d' em))"

type_synonym mig = "MigrationEngine \<times> ExtentMap"

section \<open>Tier migration\<close>

definition migrate_tier :: "u64 \<Rightarrow> tier \<Rightarrow> tier \<Rightarrow> mig \<Rightarrow> (MigrationResult \<times> mig) option" where
  "migrate_tier eid from to = (\<lambda>(me, em).
     case begin_migration eid em of
       (None, em1) \<Rightarrow> Some (INTERRUPTED, me, em1)
     | (Some h, em1) \<Rightarrow>
         (case tier_read from (dl_offset (mh_src_loc h)) (ucast (dl_length (mh_src_loc h))) em1 of
            None \<Rightarrow> None
          | Some (r, dat, em2) \<Rightarrow>
              if r < 0 then Some (FAILED, count_io_error me, abort_migration h em2)
              else case allocate_raw to (ucast (dl_length (mh_src_loc h))) em2 of
                     None \<Rightarrow> None
                   | Some (None, em3) \<Rightarrow> Some (FAILED, me, abort_migration h em3)
                   | Some (Some dst_loc, em3) \<Rightarrow>
                       (case tier_write to (dl_offset dst_loc) dat em3 of
                          None \<Rightarrow> None
                        | Some (r, em4) \<Rightarrow>
                            if r < 0
                            then Some (FAILED, count_io_error me, release_source dst_loc (abort_migration h em4))
                            else case commit_migration h dst_loc em4 of
                                   (True, em5) \<Rightarrow>
                                     let me1 = (if from = SLOW \<and> to = FAST
                                                then me\<lparr>me_promotions_committed := me_promotions_committed me + 1\<rparr>
                                                else if from = FAST \<and> to = SLOW
                                                then me\<lparr>me_demotions_committed := me_demotions_committed me + 1\<rparr>
                                                else me)
                                     in Some (COMMITTED, me1, em5)
                                 | (False, em5) \<Rightarrow>
                                     Some (INTERRUPTED, count_interruption me,
                                       release_source dst_loc (abort_migration h em5)))))"

section \<open>Compaction\<close>

text \<open>
  The loop over the live keys: \<open>Inl\<close> when it fails, with whether that is an I/O error; \<open>Inr\<close> the updates. A key
  the map does not hold leaves the default location.
\<close>

fun compact_loop :: "MigrationHandle \<Rightarrow> tier \<Rightarrow> u64 \<Rightarrow> DiskLocation \<Rightarrow> KeyMap \<Rightarrow> bytes list \<Rightarrow>
    (bytes \<times> KeyLocation) list \<Rightarrow> ExtentMap \<Rightarrow> ((bool + (bytes \<times> KeyLocation) list) \<times> ExtentMap) option" where
  "compact_loop h t new_id new_loc km [] updates em = Some (Inr updates, em)"
| "compact_loop h t new_id new_loc km (key # keys) updates em =
     (let old_kloc = (case km_lookup km key of None \<Rightarrow> default_KeyLocation | Some l \<Rightarrow> l)
      in case tier_read t (dl_offset (mh_src_loc h) + HEADER_SIZE64 + ucast (kl_offset old_kloc))
                (ucast (kl_length old_kloc)) em of
           None \<Rightarrow> None
         | Some (r, val, em1) \<Rightarrow>
             if r < 0 then Some (Inl True, em1)
             else case append_slot new_id (kl_length old_kloc) em1 of
                    (new_offset, em2) \<Rightarrow>
                      if new_offset = NO_SLOT then Some (Inl False, em2)
                      else (case tier_write t (dl_offset new_loc + HEADER_SIZE64 + ucast new_offset) val em2 of
                              None \<Rightarrow> None
                            | Some (r, em3) \<Rightarrow>
                                if r < 0 then Some (Inl True, em3)
                                else compact_loop h t new_id new_loc km keys
                                       (updates @ [(key, \<lparr>kl_extent_id = new_id, kl_offset = new_offset,
                                                         kl_length = kl_length old_kloc\<rparr>)]) em3))"

definition compact :: "u64 \<Rightarrow> KeyMap \<Rightarrow> mig \<Rightarrow> (MigrationResult \<times> KeyMap \<times> mig) option" where
  "compact eid km = (\<lambda>(me, em).
     case begin_migration eid em of
       (None, em1) \<Rightarrow> Some (INTERRUPTED, km, me, em1)
     | (Some h, em1) \<Rightarrow>
         let keys = keys_in_extent km eid
         in if keys = [] then Some (COMMITTED, km, count_compaction me, em_free eid em1)
            else case allocate_extent (dl_tier (mh_src_loc h)) (ucast (dl_length (mh_src_loc h))) em1 of
                   None \<Rightarrow> None
                 | Some (None, em2) \<Rightarrow> Some (FAILED, km, me, abort_migration h em2)
                 | Some (Some (new_id, new_loc), em2) \<Rightarrow>
                     (case compact_loop h (dl_tier (mh_src_loc h)) new_id new_loc km keys [] em2 of
                        None \<Rightarrow> None
                      | Some (Inl io, em3) \<Rightarrow>
                          Some (FAILED, km, if io then count_io_error me else me, em_free new_id (abort_migration h em3))
                      | Some (Inr updates, em3) \<Rightarrow>
                          if \<not> check_migration h em3
                          then Some (INTERRUPTED, km, count_interruption me, em_free new_id (abort_migration h em3))
                          else Some (COMMITTED, batch_update km updates, count_compaction me, em_free eid em3)))"

section \<open>The cycle\<close>

definition enqueue :: "MigrationTask \<Rightarrow> MigrationEngine \<Rightarrow> MigrationEngine" where
  "enqueue task me = me\<lparr>me_queue := me_queue me @ [task]\<rparr>"

text \<open>The randomness of an extent: 63 as soon as one of its keys is not accessed sequentially.\<close>

definition extent_randomness :: "KeyMap \<Rightarrow> u64 \<Rightarrow> u32" where
  "extent_randomness km eid =
     (if \<exists>key \<in> set (keys_in_extent km eid). get_consecutive_sequential km key = 0 then 63 else 0)"

definition refresh_randomness :: "KeyMap \<Rightarrow> SnapshotEntry list \<Rightarrow> ExtentMap \<Rightarrow> ExtentMap" where
  "refresh_randomness km snaps em =
     fold (\<lambda>snap. set_randomness (se_extent_id snap) (extent_randomness km (se_extent_id snap))) snaps em"

definition score_all :: "fpu \<Rightarrow> BtierConfig \<Rightarrow> ScoringEngine \<Rightarrow> u32 \<Rightarrow> SnapshotEntry list \<Rightarrow> (u64 \<times> real) list" where
  "score_all fp cfg se now snaps =
     sort_key (\<lambda>p. - snd p)
       (map (\<lambda>snap. (se_extent_id snap, score fp cfg se (se_raw_metrics snap) (se_last_access_time snap) now)) snaps)"

fun enqueue_migrations ::
  "BtierConfig \<Rightarrow> ExtentMap \<Rightarrow> (u64 \<times> real) list \<Rightarrow> u32 \<Rightarrow> MigrationEngine \<Rightarrow> MigrationEngine" where
  "enqueue_migrations cfg em [] migrated me = me"
| "enqueue_migrations cfg em ((eid, sc) # rest) migrated me =
     (if migrated \<ge> cfg_max_migrations_per_cycle cfg then me
      else case get_location em eid of
             None \<Rightarrow> enqueue_migrations cfg em rest migrated me
           | Some loc \<Rightarrow>
               if sc > cfg_promote_threshold cfg \<and> dl_tier loc = SLOW
               then enqueue_migrations cfg em rest (migrated + 1)
                      (enqueue \<lparr>mt_type = TIER_MIGRATE, mt_extent_id = eid, mt_from = SLOW, mt_to = FAST, mt_score = sc\<rparr> me)
               else if sc < cfg_demote_threshold cfg \<and> dl_tier loc = FAST
               then enqueue_migrations cfg em rest (migrated + 1)
                      (enqueue \<lparr>mt_type = TIER_MIGRATE, mt_extent_id = eid, mt_from = FAST, mt_to = SLOW, mt_score = sc\<rparr> me)
               else enqueue_migrations cfg em rest migrated me)"

definition wants_compaction :: "fpu \<Rightarrow> BtierConfig \<Rightarrow> SnapshotEntry \<Rightarrow> bool" where
  "wants_compaction fp cfg snap \<longleftrightarrow>
     (let dead_bytes = se_used_bytes snap - se_live_bytes snap;
          capacity = dl_length (se_location snap) - HEADER_SIZE
      in se_used_bytes snap > 0 \<and> capacity > 0 \<and>
         double fp (real (unat dead_bytes) / real (unat (se_used_bytes snap))) > cfg_compaction_dead_ratio cfg \<and>
         double fp (real (unat (se_used_bytes snap)) / real (unat capacity)) > cfg_compaction_usage_ratio cfg)"

fun enqueue_compactions :: "fpu \<Rightarrow> BtierConfig \<Rightarrow> SnapshotEntry list \<Rightarrow> u32 \<Rightarrow> MigrationEngine \<Rightarrow> MigrationEngine" where
  "enqueue_compactions fp cfg [] compacted me = me"
| "enqueue_compactions fp cfg (snap # rest) compacted me =
     (if compacted \<ge> cfg_max_compactions_per_cycle cfg then me
      else if wants_compaction fp cfg snap
      then enqueue_compactions fp cfg rest (compacted + 1)
             (enqueue \<lparr>mt_type = COMPACT, mt_extent_id = se_extent_id snap, mt_from = dl_tier (se_location snap),
                       mt_to = dl_tier (se_location snap), mt_score = 0\<rparr> me)
      else enqueue_compactions fp cfg rest compacted me)"

fun process_tasks :: "MigrationTask list \<Rightarrow> KeyMap \<Rightarrow> mig \<Rightarrow> (KeyMap \<times> mig) option" where
  "process_tasks [] km m = Some (km, m)"
| "process_tasks (task # tasks) km m =
     (if mt_type task = TIER_MIGRATE
      then (case migrate_tier (mt_extent_id task) (mt_from task) (mt_to task) m of
              None \<Rightarrow> None
            | Some (_, m') \<Rightarrow> process_tasks tasks km m')
      else (case compact (mt_extent_id task) km m of
              None \<Rightarrow> None
            | Some (_, km', m') \<Rightarrow> process_tasks tasks km' m'))"

definition process_queue :: "KeyMap \<Rightarrow> mig \<Rightarrow> (KeyMap \<times> mig) option" where
  "process_queue km = (\<lambda>(me, em). process_tasks (me_queue me) km (me\<lparr>me_queue := []\<rparr>, em))"

text \<open>The metrics scored are those of the snapshot taken before the randomness was refreshed.\<close>

definition run_cycle_inline ::
  "fpu \<Rightarrow> BtierConfig \<Rightarrow> u32 \<Rightarrow> ScoringEngine \<Rightarrow> KeyMap \<Rightarrow> mig \<Rightarrow> (ScoringEngine \<times> KeyMap \<times> mig) option" where
  "run_cycle_inline fp cfg now se km = (\<lambda>(me, em).
     case process_deferred_free em of
       None \<Rightarrow> None
     | Some em1 \<Rightarrow>
         let snaps = snapshot em1;
             em2 = refresh_randomness km snaps em1;
             se1 = adapt_weights fp cfg (fast_watermark fp em2) se;
             me1 = enqueue_migrations cfg em2 (score_all fp cfg se1 now snaps) 0 me;
             me2 = enqueue_compactions fp cfg snaps 0 me1
         in map_option (\<lambda>(km', m'). (se1, km', m')) (process_queue km (me2, em2)))"

section \<open>The public interface\<close>

definition me_start :: "MigrationEngine \<Rightarrow> MigrationEngine" where
  "me_start me = me\<lparr>me_running := True\<rparr>"

definition me_stop :: "MigrationEngine \<Rightarrow> MigrationEngine" where
  "me_stop me = me\<lparr>me_running := False\<rparr>"

definition enqueue_migrate :: "u64 \<Rightarrow> tier \<Rightarrow> tier \<Rightarrow> real \<Rightarrow> MigrationEngine \<Rightarrow> MigrationEngine" where
  "enqueue_migrate eid from to sc me =
     enqueue \<lparr>mt_type = TIER_MIGRATE, mt_extent_id = eid, mt_from = from, mt_to = to, mt_score = sc\<rparr> me"

definition enqueue_compact :: "u64 \<Rightarrow> MigrationEngine \<Rightarrow> MigrationEngine" where
  "enqueue_compact eid me =
     enqueue \<lparr>mt_type = COMPACT, mt_extent_id = eid, mt_from = FAST, mt_to = FAST, mt_score = 0\<rparr> me"

definition me_pending :: "MigrationEngine \<Rightarrow> nat" where
  "me_pending me = length (me_queue me)"

text \<open>The body of the worker: a cycle per round while \<open>running\<close> is set.\<close>

fun main_loop ::
  "fpu \<Rightarrow> BtierConfig \<Rightarrow> u32 list \<Rightarrow> ScoringEngine \<Rightarrow> KeyMap \<Rightarrow> mig \<Rightarrow> (ScoringEngine \<times> KeyMap \<times> mig) option" where
  "main_loop fp cfg [] se km m = Some (se, km, m)"
| "main_loop fp cfg (now # clock) se km m =
     (if me_running (fst m)
      then (case run_cycle_inline fp cfg now se km m of
              None \<Rightarrow> None
            | Some (se', km', m') \<Rightarrow> main_loop fp cfg clock se' km' m')
      else Some (se, km, m))"

end
