(* ===== verification/Btier_Engine.thy ===== *)
theory Btier_Engine
  imports Journal Migration_Engine
begin

text \<open>
  \<open>btier/btier.cc\<close>: the key-value engine that ties the tiers together. The state holds the parts the
  source owns through \<open>unique_ptr\<close>; the two devices and the two allocators are those of the extent map, and
  the journal works on the FAST device. A call runs to its end; \<open>None\<close> stands for a failed assertion, an exception or
  a null pointer. The clock is an argument, and so is what the operating system answers to \<open>open\<close>.
\<close>

section \<open>State\<close>

record BtierEngine =
  be_cfg :: BtierConfig
  be_em :: ExtentMap
  be_km :: KeyMap
  be_journal :: "Journal option"
  be_se :: ScoringEngine
  be_me :: "MigrationEngine option"
  be_initialized :: bool

text \<open>A call of the journal, on the FAST device.\<close>

definition on_journal :: "(jdev \<Rightarrow> 'a \<times> jdev) \<Rightarrow> BtierEngine \<Rightarrow> ('a \<times> BtierEngine) option" where
  "on_journal f e =
     (case (be_journal e, em_dev (be_em e) FAST) of
        (Some j, Some d) \<Rightarrow>
          let (r, j', d') = f (j, d)
          in Some (r, e\<lparr>be_journal := Some j', be_em := add_block_device FAST d' (be_em e)\<rparr>)
      | _ \<Rightarrow> None)"

text \<open>A call of the extent map that cannot fail.\<close>

definition on_em :: "(ExtentMap \<Rightarrow> ExtentMap) \<Rightarrow> BtierEngine \<Rightarrow> BtierEngine" where
  "on_em f e = e\<lparr>be_em := f (be_em e)\<rparr>"

section \<open>Checkpoints\<close>

definition extent_record :: "u64 \<Rightarrow> DiskLocation \<Rightarrow> JournalRecord" where
  "extent_record eid loc = (new_record OP_EXTENT_NEW)\<lparr>jr_extent_id := eid, jr_extent_loc := loc\<rparr>"

definition put_record :: "bytes \<Rightarrow> KeyLocation \<Rightarrow> JournalRecord" where
  "put_record key kloc = (new_record OP_KEY_PUT)\<lparr>jr_key := key, jr_key_loc := kloc\<rparr>"

definition dead_record :: "KeyLocation \<Rightarrow> JournalRecord" where
  "dead_record kloc =
     (new_record OP_MARK_DEAD)\<lparr>jr_extent_id := kl_extent_id kloc, jr_dead_length := kl_length kloc\<rparr>"

definition del_record :: "bytes \<Rightarrow> JournalRecord" where
  "del_record key = (new_record OP_KEY_DEL)\<lparr>jr_key := key\<rparr>"

text \<open>\<open>lookup\<close> leaves the default location when the key is missing.\<close>

definition lookup_or_default :: "KeyMap \<Rightarrow> bytes \<Rightarrow> KeyLocation" where
  "lookup_or_default km key = (case km_lookup km key of None \<Rightarrow> default_KeyLocation | Some l \<Rightarrow> l)"

definition build_checkpoint_state :: "BtierEngine \<Rightarrow> JournalRecord list" where
  "build_checkpoint_state e =
     concat (map (\<lambda>snap. extent_record (se_extent_id snap) (se_location snap) #
       map (\<lambda>key. put_record key (lookup_or_default (be_km e) key)) (keys_in_extent (be_km e) (se_extent_id snap)))
       (snapshot (be_em e)))"

definition checkpoint_if :: "(Journal \<Rightarrow> bool) \<Rightarrow> BtierEngine \<Rightarrow> BtierEngine option" where
  "checkpoint_if P e =
     (case be_journal e of
        None \<Rightarrow> Some e
      | Some j \<Rightarrow>
          if P j then map_option snd (on_journal (journal_checkpoint (build_checkpoint_state e)) e) else Some e)"

section \<open>Recovery\<close>

definition replay_extents :: "JournalRecord list \<Rightarrow> ExtentMap \<Rightarrow> ExtentMap" where
  "replay_extents records = fold (\<lambda>rec em. if jr_op rec = OP_EXTENT_NEW
     then create_entry_from_journal (jr_extent_id rec) (jr_extent_loc rec) em else em) records"

definition replay_puts :: "JournalRecord list \<Rightarrow> KeyMap \<Rightarrow> KeyMap" where
  "replay_puts records km = foldl (\<lambda>km rec. if jr_op rec = OP_KEY_PUT then km_put km (jr_key rec) (jr_key_loc rec) 0 else km)
     km records"

definition replay_dels :: "JournalRecord list \<Rightarrow> KeyMap \<Rightarrow> KeyMap" where
  "replay_dels records km = foldl (\<lambda>km rec. if jr_op rec = OP_KEY_DEL then km_erase km (jr_key rec) else km) km records"

definition replay_dead :: "JournalRecord list \<Rightarrow> ExtentMap \<Rightarrow> ExtentMap" where
  "replay_dead records = fold (\<lambda>rec em. if jr_op rec = OP_MARK_DEAD
     then mark_dead_slot (jr_extent_id rec) (jr_dead_length rec) em else em) records"

definition replay_frees :: "JournalRecord list \<Rightarrow> ExtentMap \<Rightarrow> ExtentMap" where
  "replay_frees records = fold (\<lambda>rec em. if jr_op rec = OP_EXTENT_FREE then em_free (jr_extent_id rec) em else em) records"

definition total_live :: "KeyMap \<Rightarrow> u64 \<Rightarrow> u32" where
  "total_live km eid = foldl (\<lambda>n key. n + kl_length (lookup_or_default km key)) 0 (keys_in_extent km eid)"

definition restore_extents :: "KeyMap \<Rightarrow> SnapshotEntry list \<Rightarrow> ExtentMap \<Rightarrow> ExtentMap" where
  "restore_extents km = fold (\<lambda>snap em.
     let n = total_live km (se_extent_id snap)
     in if n = 0 then em_free (se_extent_id snap) em else restore_extent_state (se_extent_id snap) n n em)"

fun mark_allocated :: "SnapshotEntry list \<Rightarrow> ExtentMap \<Rightarrow> ExtentMap option" where
  "mark_allocated [] em = Some em"
| "mark_allocated (snap # snaps) em =
     (let t = (if dl_tier (se_location snap) = FAST then FAST else SLOW)
      in case em_alloc em t of
           None \<Rightarrow> None
         | Some a \<Rightarrow>
             Option.bind (avl_init_rm_free (dl_offset (se_location snap)) (ucast (dl_length (se_location snap))) a)
               (\<lambda>a'. mark_allocated snaps (add_allocator t a' em)))"

text \<open>Checking the header of an extent: an unreadable header or one without the magic is accepted.\<close>

definition verify_header :: "SnapshotEntry \<Rightarrow> KeyMap \<times> ExtentMap \<Rightarrow> KeyMap \<times> ExtentMap" where
  "verify_header snap = (\<lambda>(km, em).
     let t = (if dl_tier (se_location snap) = FAST then FAST else SLOW)
     in case em_dev em t of
          None \<Rightarrow> (km, em)
        | Some d \<Rightarrow>
            let (r, bl, d') = dev_read (dl_offset (se_location snap)) HEADER_SIZE64 True d;
                em1 = add_block_device t d' em
            in if r < 0 \<or> length bl < 4096 then (km, em1)
               else let hdr = read_header bl
                    in if eh_magic hdr \<noteq> EXTENT_MAGIC then (km, em1)
                       else if eh_crc hdr \<noteq> header_crc hdr
                       then (foldl km_erase km (keys_in_extent km (se_extent_id snap)), em_free (se_extent_id snap) em1)
                       else (km, em1))"

definition recover_internal :: "JournalRecord list \<Rightarrow> BtierEngine \<Rightarrow> (int \<times> BtierEngine) option" where
  "recover_internal records e =
     (let em1 = replay_extents records (be_em e);
          km1 = replay_puts records (be_km e);
          km2 = replay_dels records km1;
          em2 = replay_dead records em1;
          em3 = replay_frees records em2;
          em4 = restore_extents km2 (snapshot em3) em3
      in map_option (\<lambda>em5.
           let (km3, em6) = fold verify_header (snapshot em5) (km2, em5)
           in (0, e\<lparr>be_km := km3, be_em := clear_deferred_free em6\<rparr>))
           (mark_allocated (snapshot em4) em4))"

definition be_recover :: "BtierEngine \<Rightarrow> (int \<times> BtierEngine) option" where
  "be_recover e =
     (case (be_journal e, em_dev (be_em e) FAST) of
        (None, _) \<Rightarrow> Some (- EINVAL, e)
      | (Some j, None) \<Rightarrow> None
      | (Some j, Some d) \<Rightarrow>
          (case journal_recover (j, d) of
             None \<Rightarrow> None
           | Some (records, j', d') \<Rightarrow>
               recover_internal records (e\<lparr>be_journal := Some j', be_em := add_block_device FAST d' (be_em e)\<rparr>)))"

section \<open>Start and stop\<close>

text \<open>
  \<open>init\<close>: what \<open>open\<close> returns for each device (an error, or the open device), the uninitialised bytes of the journal's
  superblock, and the contents of the uninitialised memory of the allocators are arguments. A size that does not fit the
  configured journal shrinks the journal.
\<close>

definition journal_region :: "BtierConfig \<Rightarrow> u64 \<Rightarrow> u64" where
  "journal_region cfg fast_dev_size =
     (if cfg_journal_size cfg > fast_dev_size then fast_dev_size div 2 else cfg_journal_size cfg)"

definition be_init ::
  "BtierConfig \<Rightarrow> int + BlockDevice \<Rightarrow> int + BlockDevice \<Rightarrow> bytes \<Rightarrow> u64 \<Rightarrow> BtierEngine \<Rightarrow> (int \<times> BtierEngine) option"
where
  "be_init cfg open_fast open_slow pad junk e =
     (case open_fast of
        Inl r \<Rightarrow> Some (r, e\<lparr>be_cfg := cfg\<rparr>)
      | Inr fast \<Rightarrow>
          case open_slow of
            Inl r \<Rightarrow> Some (r, e\<lparr>be_cfg := cfg\<rparr>)
          | Inr slow \<Rightarrow>
              let journal_size = journal_region cfg (bd_size fast);
                  em0 = add_block_device SLOW slow (add_block_device FAST fast
                          (add_allocator SLOW (new_AvlAllocator (bd_size slow) (cfg_block_size cfg) 0 junk)
                          (add_allocator FAST (new_AvlAllocator (bd_size fast) (cfg_block_size cfg) 0 junk)
                            (new_ExtentMap cfg))))
              in case init_free_space em0 of
                   None \<Rightarrow> None
                 | Some em1 \<Rightarrow>
                     (case em_alloc em1 FAST of
                        None \<Rightarrow> None
                      | Some a \<Rightarrow>
                          (case avl_init_rm_free 0 journal_size a of
                             None \<Rightarrow> None
                           | Some a' \<Rightarrow>
                               let em2 = add_allocator FAST a' em1;
                                   (j, d) = new_Journal journal_size pad fast
                               in case journal_recover (j, d) of
                                    None \<Rightarrow> None
                                  | Some (records, j', d') \<Rightarrow>
                                      let e1 = e\<lparr>be_cfg := cfg, be_em := add_block_device FAST d' em2,
                                                 be_km := empty_KeyMap, be_journal := Some j'\<rparr>
                                      in (case (if records \<noteq> [] then recover_internal records e1
                                                else map_option (\<lambda>(_, e2). (0, e2)) (on_journal (journal_checkpoint []) e1)) of
                                            None \<Rightarrow> None
                                          | Some (r, e2) \<Rightarrow>
                                              if r < 0 then Some (r, e2)
                                              else Some (0, e2\<lparr>be_se := new_ScoringEngine cfg,
                                                     be_me := Some (me_start new_MigrationEngine),
                                                     be_initialized := True\<rparr>)))))"

definition flush_slow :: "ExtentMap \<Rightarrow> ExtentMap" where
  "flush_slow em =
     (case em_dev em SLOW of None \<Rightarrow> em | Some d \<Rightarrow> add_block_device SLOW (snd (dev_flush d)) em)"

definition sync :: "BtierEngine \<Rightarrow> (int \<times> BtierEngine) option" where
  "sync e =
     (if \<not> be_initialized e then Some (- EINVAL, e)
      else let e1 = on_em flush_dirty_headers e
           in case be_journal e1 of
                None \<Rightarrow> Some (0, on_em flush_slow e1)
              | Some _ \<Rightarrow>
                  map_option (\<lambda>(_, e2). (0, on_em flush_slow e2)) (on_journal (\<lambda>jd. ((), journal_sync jd)) e1))"

definition close_journal :: "BtierEngine \<Rightarrow> BtierEngine option" where
  "close_journal e =
     (case be_journal e of
        None \<Rightarrow> Some e
      | Some _ \<Rightarrow> map_option (\<lambda>(_, e'). e'\<lparr>be_journal := None\<rparr>) (on_journal (\<lambda>jd. ((), journal_close jd)) e))"

text \<open>What is left after \<open>shutdown\<close>: the closed devices.\<close>

definition shutdown :: "BtierEngine \<Rightarrow> BtierEngine option" where
  "shutdown e =
     (if \<not> be_initialized e then Some e
      else case sync (e\<lparr>be_me := None\<rparr>) of
             None \<Rightarrow> None
           | Some (_, e1) \<Rightarrow>
               (case Option.bind (checkpoint_if (\<lambda>_. True) e1) close_journal of
                  None \<Rightarrow> None
                | Some e2 \<Rightarrow>
                    map_option (\<lambda>em. e2\<lparr>be_km := empty_KeyMap, be_initialized := False,
                        be_em := em\<lparr>em_entries := [], em_alloc := (\<lambda>_. None),
                                    em_dev := (\<lambda>t. map_option dev_close (em_dev em t))\<rparr>\<rparr>)
                      (process_deferred_free (be_em e2))))"

section \<open>Put\<close>

text \<open>
  \<open>allocate_extent\<close> followed by the pre-transaction that records the new extent, as \<open>put\<close> does it in three places.
\<close>

definition fresh_extent :: "u64 \<Rightarrow> BtierEngine \<Rightarrow> ((int + u64 \<times> DiskLocation) \<times> BtierEngine) option" where
  "fresh_extent sz e =
     (case allocate_extent FAST sz (be_em e) of
        None \<Rightarrow> None
      | Some (None, em) \<Rightarrow> Some (Inl (- ENOSPC), e\<lparr>be_em := em\<rparr>)
      | Some (Some (eid, loc), em) \<Rightarrow>
          (case on_journal (run_txn [extent_record eid loc]) (e\<lparr>be_em := em\<rparr>) of
             None \<Rightarrow> None
           | Some (pr, e1) \<Rightarrow> if pr < 0 then Some (Inl pr, on_em (em_free eid) e1) else Some (Inr (eid, loc), e1)))"

definition reserve :: "u64 \<Rightarrow> u32 \<Rightarrow> BtierEngine \<Rightarrow> u32 \<times> BtierEngine" where
  "reserve eid sz e = (let (off, em) = append_slot eid sz (be_em e) in (off, e\<lparr>be_em := em\<rparr>))"

text \<open>Where a value goes: extent, offset of the slot, location of the extent, and whether the extent is new.\<close>

record placement =
  pl_extent_id :: u64
  pl_offset :: u32
  pl_loc :: DiskLocation
  pl_new :: bool

text \<open>A slot in an extent that was just created, or \<open>-EIO\<close>.\<close>

definition place_fresh :: "u64 \<Rightarrow> u32 \<Rightarrow> BtierEngine \<Rightarrow> ((int + placement) \<times> BtierEngine) option" where
  "place_fresh extent_size sz e =
     (case fresh_extent extent_size e of
        None \<Rightarrow> None
      | Some (Inl r, e1) \<Rightarrow> Some (Inl r, e1)
      | Some (Inr (eid, loc), e1) \<Rightarrow>
          let (off, e2) = reserve eid sz e1
          in if off = NO_SLOT then Some (Inl (- EIO), on_em (em_free eid) e2)
             else Some (Inr \<lparr>pl_extent_id = eid, pl_offset = off, pl_loc = loc, pl_new = True\<rparr>, e2))"

definition place_small :: "u32 \<Rightarrow> BtierEngine \<Rightarrow> ((int + placement) \<times> BtierEngine) option" where
  "place_small sz e =
     (let target = find_extent_with_space (be_em e) FAST sz
      in if target = NO_EXTENT
         then (case fresh_extent (cfg_extent_size (be_cfg e)) e of
                 None \<Rightarrow> None
               | Some (Inl r, e1) \<Rightarrow> Some (Inl r, e1)
               | Some (Inr (eid, loc), e1) \<Rightarrow>
                   let (off, e2) = reserve eid sz e1
                   in if off = NO_SLOT then place_fresh (cfg_extent_size (be_cfg e2)) sz (on_em (em_free eid) e2)
                      else Some (Inr \<lparr>pl_extent_id = eid, pl_offset = off, pl_loc = loc, pl_new = True\<rparr>, e2))
         else case get_location (be_em e) target of
                None \<Rightarrow> Some (Inl (- EIO), e)
              | Some loc \<Rightarrow>
                  let (off, e1) = reserve target sz e
                  in if off = NO_SLOT then place_fresh (cfg_extent_size (be_cfg e1)) sz e1
                     else Some (Inr \<lparr>pl_extent_id = target, pl_offset = off, pl_loc = loc, pl_new = False\<rparr>, e1))"

definition value_size :: "bytes \<Rightarrow> u64" where
  "value_size val = ucast (of_nat (length val) :: u32)"

definition place :: "bytes \<Rightarrow> BtierEngine \<Rightarrow> ((int + placement) \<times> BtierEngine) option" where
  "place val e =
     (let sz = value_size val
      in if sz \<ge> cfg_large_value_threshold (be_cfg e) then place_fresh (sz + HEADER_SIZE64) (ucast sz) e
         else place_small (ucast sz) e)"

text \<open>How a placement is given up.\<close>

definition give_up :: "placement \<Rightarrow> u32 \<Rightarrow> BtierEngine \<Rightarrow> BtierEngine" where
  "give_up p sz e = on_em (if pl_new p then em_free (pl_extent_id p) else mark_dead_slot (pl_extent_id p) sz) e"

definition write_value :: "placement \<Rightarrow> bytes \<Rightarrow> BtierEngine \<Rightarrow> (int \<times> BtierEngine) option" where
  "write_value p val e =
     (case tier_write (dl_tier (pl_loc p)) (dl_offset (pl_loc p) + HEADER_SIZE64 + ucast (pl_offset p)) val (be_em e) of
        None \<Rightarrow> None
      | Some (r, em) \<Rightarrow>
          if r < 0 then Some (r, give_up p (ucast (value_size val)) (e\<lparr>be_em := em\<rparr>)) else Some (0, e\<lparr>be_em := em\<rparr>))"

definition release_dead :: "KeyLocation \<Rightarrow> ExtentMap \<Rightarrow> ExtentMap" where
  "release_dead kloc em =
     (let em1 = mark_dead_slot (kl_extent_id kloc) (kl_length kloc) em
      in if get_live_bytes em1 (kl_extent_id kloc) = 0 then em_free (kl_extent_id kloc) em1 else em1)"

text \<open>Phases 3 to 5: metrics, the main transaction, the checkpoint at 80 percent, and the maps.\<close>

definition finish_put :: "u32 \<Rightarrow> bytes \<Rightarrow> bytes \<Rightarrow> KeyLocation option \<Rightarrow> placement \<Rightarrow> BtierEngine \<Rightarrow> (int \<times> BtierEngine) option"
where
  "finish_put now key val old p e =
     (let sz = ucast (value_size val) :: u32;
          e1 = on_em (record_io (pl_extent_id p) WRITE now) e;
          kloc = \<lparr>kl_extent_id = pl_extent_id p, kl_offset = pl_offset p, kl_length = sz\<rparr>;
          recs = (case old of None \<Rightarrow> [] | Some ol \<Rightarrow> [dead_record ol]) @ [put_record key kloc]
      in case on_journal (run_txn recs) e1 of
           None \<Rightarrow> None
         | Some (r, e2) \<Rightarrow>
             if r < 0 then Some (r, give_up p sz e2)
             else case checkpoint_if needs_checkpoint e2 of
                    None \<Rightarrow> None
                  | Some e3 \<Rightarrow>
                      let lba = dl_offset (pl_loc p) + HEADER_SIZE64 + ucast (pl_offset p);
                          e4 = e3\<lparr>be_km := km_put (be_km e3) key kloc lba\<rparr>
                      in Some (0, case old of None \<Rightarrow> e4 | Some ol \<Rightarrow> on_em (release_dead ol) e4))"

definition put :: "u32 \<Rightarrow> bytes \<Rightarrow> bytes \<Rightarrow> BtierEngine \<Rightarrow> (int \<times> BtierEngine) option" where
  "put now key val e =
     (if \<not> be_initialized e then Some (- EINVAL, e)
      else case checkpoint_if is_near_full e of
             None \<Rightarrow> None
           | Some e0 \<Rightarrow>
               let old = km_lookup (be_km e0) key
               in case place val e0 of
                    None \<Rightarrow> None
                  | Some (Inl r, e1) \<Rightarrow> Some (r, e1)
                  | Some (Inr p, e1) \<Rightarrow>
                      (case write_value p val e1 of
                         None \<Rightarrow> None
                       | Some (r, e2) \<Rightarrow> if r < 0 then Some (r, e2) else finish_put now key val old p e2))"

section \<open>Get and delete\<close>

text \<open>\<open>get\<close>: the result, the bytes appended to \<open>value\<close>, the engine.\<close>

definition get :: "u32 \<Rightarrow> bytes \<Rightarrow> BtierEngine \<Rightarrow> (int \<times> bytes \<times> BtierEngine) option" where
  "get now key e =
     (if \<not> be_initialized e then Some (- EINVAL, [], e)
      else case km_lookup (be_km e) key of
             None \<Rightarrow> Some (- ENOENT, [], e)
           | Some kloc \<Rightarrow>
               (case get_location (be_em e) (kl_extent_id kloc) of
                  None \<Rightarrow> Some (- ENOENT, [], e)
                | Some loc \<Rightarrow>
                    let em1 = io_ref_inc (kl_extent_id kloc) (record_io (kl_extent_id kloc) READ now (be_em e))
                    in case tier_read (dl_tier loc) (dl_offset loc + HEADER_SIZE64 + ucast (kl_offset kloc))
                              (ucast (kl_length kloc)) em1 of
                         None \<Rightarrow> None
                       | Some (r, val, em2) \<Rightarrow>
                           Some (if r < 0 then r else 0, val, e\<lparr>be_em := io_ref_dec (kl_extent_id kloc) em2\<rparr>)))"

definition del :: "bytes \<Rightarrow> BtierEngine \<Rightarrow> (int \<times> BtierEngine) option" where
  "del key e =
     (if \<not> be_initialized e then Some (- EINVAL, e)
      else case km_lookup (be_km e) key of
             None \<Rightarrow> Some (- ENOENT, e)
           | Some kloc \<Rightarrow>
               (case on_journal (run_txn [del_record key, dead_record kloc]) e of
                  None \<Rightarrow> None
                | Some (r, e1) \<Rightarrow>
                    if r < 0 then Some (r, e1)
                    else Some (0, on_em (release_dead kloc) (e1\<lparr>be_km := km_erase (be_km e1) key\<rparr>))))"

section \<open>Statistics, tuning and migration\<close>

record Stats =
  st_num_keys :: nat
  st_num_extents :: nat
  st_fast_extents :: nat
  st_slow_extents :: nat
  st_fast_watermark :: real
  st_journal_bytes :: u64
  st_migrations_pending :: nat

definition zero_Stats :: Stats where
  "zero_Stats = \<lparr>st_num_keys = 0, st_num_extents = 0, st_fast_extents = 0, st_slow_extents = 0, st_fast_watermark = 0,
     st_journal_bytes = 0, st_migrations_pending = 0\<rparr>"

text \<open>The migration counters are those of \<open>be_me\<close>.\<close>

definition get_stats :: "fpu \<Rightarrow> BtierEngine \<Rightarrow> Stats" where
  "get_stats fp e =
     (if \<not> be_initialized e then zero_Stats
      else let snaps = snapshot (be_em e)
           in \<lparr>st_num_keys = km_size (be_km e), st_num_extents = length snaps,
               st_fast_extents = length (filter (\<lambda>s. dl_tier (se_location s) = FAST) snaps),
               st_slow_extents = length (filter (\<lambda>s. dl_tier (se_location s) \<noteq> FAST) snaps),
               st_fast_watermark = fast_watermark fp (be_em e),
               st_journal_bytes = (case be_journal e of None \<Rightarrow> 0 | Some j \<Rightarrow> journal_used_bytes j),
               st_migrations_pending = (case be_me e of None \<Rightarrow> 0 | Some me \<Rightarrow> me_pending me)\<rparr>)"

definition set_weights :: "WeightSet \<Rightarrow> BtierEngine \<Rightarrow> BtierEngine" where
  "set_weights w e = e\<lparr>be_cfg := (be_cfg e)\<lparr>cfg_base_weights := w\<rparr>\<rparr>"

definition set_watermarks :: "real \<Rightarrow> real \<Rightarrow> BtierEngine \<Rightarrow> BtierEngine" where
  "set_watermarks low high e = e\<lparr>be_cfg := (be_cfg e)\<lparr>cfg_low_watermark := low, cfg_high_watermark := high\<rparr>\<rparr>"

definition set_scan_interval :: "u32 \<Rightarrow> BtierEngine \<Rightarrow> BtierEngine" where
  "set_scan_interval ms e = e\<lparr>be_cfg := (be_cfg e)\<lparr>cfg_scan_interval_ms := ms\<rparr>\<rparr>"

definition run_scoring_pass :: "fpu \<Rightarrow> u32 \<Rightarrow> BtierEngine \<Rightarrow> (u64 \<times> real \<times> tier) list \<times> BtierEngine" where
  "run_scoring_pass fp now e =
     (if \<not> be_initialized e then ([], e)
      else let em1 = refresh_randomness (be_km e) (snapshot (be_em e)) (be_em e);
               se1 = adapt_weights fp (be_cfg e) (fast_watermark fp em1) (be_se e);
               result = map (\<lambda>s. (se_extent_id s,
                          score fp (be_cfg e) se1 (se_raw_metrics s) (se_last_access_time s) now,
                          dl_tier (se_location s))) (snapshot em1)
           in (sort_key (\<lambda>p. - fst (snd p)) result, e\<lparr>be_em := em1, be_se := se1\<rparr>))"

definition compact_extent :: "u64 \<Rightarrow> BtierEngine \<Rightarrow> (bool \<times> BtierEngine) option" where
  "compact_extent eid e =
     (case be_me e of
        None \<Rightarrow> Some (False, e)
      | Some me \<Rightarrow>
          if \<not> be_initialized e then Some (False, e)
          else map_option (\<lambda>(r, km, me', em). (r = COMMITTED, e\<lparr>be_km := km, be_me := Some me', be_em := em\<rparr>))
                 (compact eid (be_km e) (me, be_em e)))"

definition run_migration_cycle :: "fpu \<Rightarrow> u32 \<Rightarrow> BtierEngine \<Rightarrow> BtierEngine option" where
  "run_migration_cycle fp now e =
     (case be_me e of
        None \<Rightarrow> Some e
      | Some me \<Rightarrow>
          if \<not> be_initialized e then Some e
          else map_option (\<lambda>(se, km, me', em). e\<lparr>be_se := se, be_km := km, be_me := Some me', be_em := em\<rparr>)
                 (run_cycle_inline fp (be_cfg e) now (be_se e) (be_km e) (me, be_em e)))"

end
