(* ===== verification/Engine_Store.thy ===== *)
theory Engine_Store
  imports Btier_Engine Extent_Correct Journal_Correct
begin

text \<open>
  The invariant behind the engine's key-value behaviour, and what the operations of the extent map do to it. A key
  stands for a slot, a slot for bytes of a device: \<open>contents\<close> is the map from keys to values an engine stores.
  \<open>store_ok\<close> says that slots lie in the used parts of their extents and do not overlap, that the live bytes of an extent are the
  bytes of its keys plus what is pending, and that extents, deferred frees and the journal own disjoint regions;
  \<open>kept\<close> says that an operation leaves the bytes of given slots alone, \<open>jkept\<close> that it leaves the journal alone.
\<close>

section \<open>Slots and contents\<close>

text \<open>The bytes of a slot, and where they are.\<close>

definition slot_addr :: "DiskLocation \<Rightarrow> KeyLocation \<Rightarrow> nat" where
  "slot_addr l kl = unat (dl_offset l) + 4096 + unat (kl_offset kl)"

definition slot_bytes :: "ExtentMap \<Rightarrow> KeyLocation \<Rightarrow> bytes" where
  "slot_bytes em kl =
     (case em_lookup em (kl_extent_id kl) of
        None \<Rightarrow> []
      | Some e \<Rightarrow>
          (case em_dev em (dl_tier (ee_location e)) of
             None \<Rightarrow> []
           | Some d \<Rightarrow> bytes_at d (slot_addr (ee_location e) kl) (unat (kl_length kl))))"

text \<open>A slot lies in the used part of an extent; empty values are left aside.\<close>

definition slot_ok :: "ExtentMap \<Rightarrow> KeyLocation \<Rightarrow> bool" where
  "slot_ok em kl \<longleftrightarrow> kl_length kl \<noteq> 0 \<and> (\<exists>e. em_lookup em (kl_extent_id kl) = Some e \<and>
     unat (kl_offset kl) + unat (kl_length kl) \<le> unat (ee_used_bytes e))"

text \<open>What the engine stores: the abstraction of its state.\<close>

definition contents :: "ExtentMap \<Rightarrow> KeyMap \<Rightarrow> bytes \<rightharpoonup> bytes" where
  "contents em km key = map_option (slot_bytes em) (km_lookup km key)"

text \<open>Slots of the same extent do not overlap.\<close>

definition apart :: "KeyLocation \<Rightarrow> KeyLocation \<Rightarrow> bool" where
  "apart a b \<longleftrightarrow> kl_extent_id a = kl_extent_id b \<longrightarrow>
     unat (kl_offset a) + unat (kl_length a) \<le> unat (kl_offset b) \<or>
     unat (kl_offset b) + unat (kl_length b) \<le> unat (kl_offset a)"

text \<open>The bytes the keys of an extent occupy.\<close>

definition keys_len :: "KeyMap \<Rightarrow> u64 \<Rightarrow> nat" where
  "keys_len km eid = (\<Sum>k \<leftarrow> keys_in_extent km eid. unat (kl_length (lookup_or_default km k)))"

definition keys_ok :: "ExtentMap \<Rightarrow> KeyMap \<Rightarrow> (u64 \<Rightarrow> nat) \<Rightarrow> bool" where
  "keys_ok em km pend \<longleftrightarrow> km_inv km \<and> (\<forall>k kl. km_lookup km k = Some kl \<longrightarrow> slot_ok em kl) \<and>
     (\<forall>j k a b. km_lookup km j = Some a \<longrightarrow> km_lookup km k = Some b \<longrightarrow> j \<noteq> k \<longrightarrow> apart a b) \<and>
     (\<forall>eid e. em_lookup em eid = Some e \<longrightarrow> unat (ee_live_bytes e) = keys_len km eid + pend eid)"

section \<open>Devices and allocators\<close>

text \<open>The region of the journal, at the start of the FAST device.\<close>

definition journal_loc :: "u64 \<Rightarrow> DiskLocation" where
  "journal_loc ds = \<lparr>dl_offset = 0, dl_length = ucast ds, dl_tier = FAST\<rparr>"

definition geom :: "ExtentMap \<Rightarrow> bool" where
  "geom em \<longleftrightarrow> (\<exists>j. em_block_size em = 2 ^ j \<and> 12 \<le> j \<and> j < 32) \<and>
     (\<forall>t. named_tier t \<longrightarrow> (\<exists>a d. em_alloc em t = Some a \<and> em_dev em t = Some d \<and> healthy d \<and>
        av_device_size a = bd_size d \<and> av_block_size a = em_block_size em)) \<and>
     (\<forall>eid e. em_lookup em eid = Some e \<longrightarrow> named_tier (dl_tier (ee_location e)) \<and> entry_ok e \<and>
        unat (dl_length (ee_location e)) < 2 ^ 31)"

definition store_ok :: "u64 \<Rightarrow> ExtentMap \<Rightarrow> KeyMap \<Rightarrow> (u64 \<Rightarrow> nat) \<Rightarrow> bool" where
  "store_ok ds em km pend \<longleftrightarrow> em_inv em [journal_loc ds] \<and> geom em \<and> keys_ok em km pend"

text \<open>The extent of a slot lies inside the device.\<close>

lemma extent_bound:
  assumes "em_inv em G" "em_lookup em eid = Some e" "em_alloc em (dl_tier (ee_location e)) = Some a"
  shows "unat (dl_offset (ee_location e)) + unat (dl_length (ee_location e)) \<le> unat (av_device_size a)"
proof -
  let ?R = "ranges (dl_tier (ee_location e)) (held em @ G)"
  have "loc_range (ee_location e) \<in> set ?R"
    using loc_in_em_locs [OF assms(2)] in_ranges by (simp add: held_def)
  moreover have "avl.owns a ?R" using assms(1,3) unfolding em_inv_def owns_all_def by blast
  then have "\<forall>p \<in> set ?R. unat (fst p) + unat (snd p) \<le> unat (av_device_size a)"
    unfolding avl.owns_def regions_def by blast
  ultimately have "unat (fst (loc_range (ee_location e))) + unat (snd (loc_range (ee_location e))) \<le> unat (av_device_size a)"
    by blast
  then show ?thesis by (simp add: loc_range_def)
qed

text \<open>What a slot of a good state looks like.\<close>

lemma slot_facts:
  assumes inv: "em_inv em G" and g: "geom em" and s: "slot_ok em kl"
  obtains e d where "em_lookup em (kl_extent_id kl) = Some e" "em_dev em (dl_tier (ee_location e)) = Some d" "healthy d"
    "named_tier (dl_tier (ee_location e))" "entry_ok e"
    "unat (kl_offset kl) + unat (kl_length kl) \<le> unat (ee_used_bytes e)"
    "slot_addr (ee_location e) kl + unat (kl_length kl) \<le>
       unat (dl_offset (ee_location e)) + unat (dl_length (ee_location e))"
    "unat (dl_offset (ee_location e)) + unat (dl_length (ee_location e)) \<le> unat (bd_size d)"
    "slot_bytes em kl = bytes_at d (slot_addr (ee_location e) kl) (unat (kl_length kl))"
proof -
  obtain e where e: "em_lookup em (kl_extent_id kl) = Some e"
    "unat (kl_offset kl) + unat (kl_length kl) \<le> unat (ee_used_bytes e)" using s by (auto simp: slot_ok_def)
  have n: "named_tier (dl_tier (ee_location e))" "entry_ok e" using g e(1) by (auto simp: geom_def)
  then obtain a d where ad: "em_alloc em (dl_tier (ee_location e)) = Some a" "em_dev em (dl_tier (ee_location e)) = Some d"
    "healthy d" "av_device_size a = bd_size d" using g by (auto simp: geom_def)
  show thesis
    by (rule that [OF e(1) ad(2,3) n e(2)])
      (use e n(2) ad extent_bound [OF inv e(1) ad(1)] in \<open>auto simp: slot_addr_def entry_ok_def slot_bytes_def\<close>)
qed

section \<open>What an operation keeps\<close>

definition kept :: "KeyLocation set \<Rightarrow> ExtentMap \<Rightarrow> ExtentMap \<Rightarrow> bool" where
  "kept K em em' \<longleftrightarrow> (\<forall>kl \<in> K. slot_ok em' kl \<and> slot_bytes em' kl = slot_bytes em kl)"

lemma kept_trans: "kept K a b \<Longrightarrow> kept K b c \<Longrightarrow> kept K a c"
  by (simp add: kept_def)

lemma kept_same_entries:
  assumes "\<forall>kl \<in> K. slot_ok em kl" "em_dev em' = em_dev em"
    "\<And>kl e. kl \<in> K \<Longrightarrow> em_lookup em (kl_extent_id kl) = Some e \<Longrightarrow> \<exists>e'. em_lookup em' (kl_extent_id kl) = Some e' \<and>
       ee_location e' = ee_location e \<and> unat (ee_used_bytes e) \<le> unat (ee_used_bytes e')"
  shows "kept K em em'"
  unfolding kept_def
proof
  fix kl assume k: "kl \<in> K"
  then obtain e where e: "em_lookup em (kl_extent_id kl) = Some e" "kl_length kl \<noteq> 0"
    "unat (kl_offset kl) + unat (kl_length kl) \<le> unat (ee_used_bytes e)" using assms(1) by (auto simp: slot_ok_def)
  from assms(3) [OF k e(1)] obtain e' where e': "em_lookup em' (kl_extent_id kl) = Some e'"
    "ee_location e' = ee_location e" "unat (ee_used_bytes e) \<le> unat (ee_used_bytes e')" by blast
  show "slot_ok em' kl \<and> slot_bytes em' kl = slot_bytes em kl"
    using e e' assms(2) by (auto simp: slot_ok_def slot_bytes_def split: option.split)
qed

lemma contents_kept:
  assumes "kept (ran (km_lookup km)) em em'"
  shows "contents em' km = contents em km"
proof
  fix k
  show "contents em' km k = contents em km k"
    using assms by (cases "km_lookup km k") (auto simp: contents_def kept_def ran_def)
qed

text \<open>The region of the journal is left alone.\<close>

definition jkept :: "u64 \<Rightarrow> ExtentMap \<Rightarrow> ExtentMap \<Rightarrow> bool" where
  "jkept ds em em' \<longleftrightarrow> (\<forall>d. em_dev em FAST = Some d \<longrightarrow> (\<exists>d'. em_dev em' FAST = Some d' \<and> bd_size d' = bd_size d \<and>
     (healthy d \<longrightarrow> healthy d') \<and> (\<forall>a n. a + n \<le> unat ds \<longrightarrow> bytes_at d' a n = bytes_at d a n)))"

lemma jkept_dev: "em_dev em' = em_dev em \<Longrightarrow> jkept ds em em'"
  by (auto simp: jkept_def)

lemma jkept_trans: "jkept ds a b \<Longrightarrow> jkept ds b c \<Longrightarrow> jkept ds a c"
  unfolding jkept_def by metis

text \<open>A buffered write that stays inside an extent.\<close>

lemma write_kept:
  assumes inv: "em_inv em G" and g: "geom em" and K: "\<forall>kl \<in> K. slot_ok em kl"
    and t: "em_dev em t = Some d" "em_dev em' = (em_dev em)(t \<mapsto> d')" "em_lookup em' = em_lookup em"
    and d': "\<And>b n. b + n \<le> a \<or> a + m \<le> b \<Longrightarrow> bytes_at d' b n = bytes_at d b n"
    and out: "\<And>kl e. kl \<in> K \<Longrightarrow> em_lookup em (kl_extent_id kl) = Some e \<Longrightarrow> dl_tier (ee_location e) = t \<Longrightarrow>
       slot_addr (ee_location e) kl + unat (kl_length kl) \<le> a \<or> a + m \<le> slot_addr (ee_location e) kl"
  shows "kept K em em'"
  unfolding kept_def
proof
  fix kl assume k: "kl \<in> K"
  then have s: "slot_ok em kl" using K by blast
  obtain e d0 where e: "em_lookup em (kl_extent_id kl) = Some e" "em_dev em (dl_tier (ee_location e)) = Some d0"
    "slot_bytes em kl = bytes_at d0 (slot_addr (ee_location e) kl) (unat (kl_length kl))"
    using slot_facts [OF inv g s] by metis
  have "slot_ok em' kl" using s t(3) by (simp add: slot_ok_def)
  moreover have "slot_bytes em' kl = slot_bytes em kl"
  proof (cases "dl_tier (ee_location e) = t")
    case True
    then have "d0 = d" using e(2) t(1) by simp
    then show ?thesis using e True t d' [OF out [OF k e(1) True]] by (simp add: slot_bytes_def)
  next
    case False
    then show ?thesis using e t by (simp add: slot_bytes_def)
  qed
  ultimately show "slot_ok em' kl \<and> slot_bytes em' kl = slot_bytes em kl" by blast
qed


section \<open>Live bytes\<close>

definition share :: "KeyLocation option \<Rightarrow> u64 \<Rightarrow> nat" where
  "share x eid = (case x of None \<Rightarrow> 0 | Some kl \<Rightarrow> if kl_extent_id kl = eid then unat (kl_length kl) else 0)"

lemma keys_len_sum:
  assumes "km_inv km"
  shows "keys_len km eid = (\<Sum>k \<in> dom (km_lookup km). share (km_lookup km k) eid)"
proof -
  let ?K = "set (keys_in_extent km eid)" and ?f = "\<lambda>k. unat (kl_length (lookup_or_default km k))"
  have "keys_len km eid = sum ?f ?K"
    using distinct_keys_in_extent [OF assms] by (simp add: keys_len_def sum_list_distinct_conv_sum_set)
  also have "\<dots> = (\<Sum>k \<in> ?K. share (km_lookup km k) eid)"
    by (rule sum.cong) (auto simp: keys_in_extent_iff [OF assms] km_owner_def share_def lookup_or_default_def)
  also have "\<dots> = (\<Sum>k \<in> dom (km_lookup km). share (km_lookup km k) eid)"
  proof (rule sum.mono_neutral_left)
    show "finite (dom (km_lookup km))" unfolding km_lookup_def
      by (rule finite_subset [OF _ finite_dom_map_of [of "km_map km"]]) auto
    show "?K \<subseteq> dom (km_lookup km)" by (auto simp: keys_in_extent_iff [OF assms] km_owner_def)
    show "\<forall>k \<in> dom (km_lookup km) - ?K. share (km_lookup km k) eid = 0"
      by (auto simp: keys_in_extent_iff [OF assms] km_owner_def share_def split: option.split)
  qed
  finally show ?thesis .
qed

lemma finite_dom_lookup: "finite (dom (km_lookup km))"
  unfolding km_lookup_def by (rule finite_subset [OF _ finite_dom_map_of [of "km_map km"]]) auto

lemma keys_len_put:
  assumes "km_inv km"
  shows "keys_len (km_put km key kl lba) eid + share (km_lookup km key) eid = keys_len km eid + share (Some kl) eid"
proof -
  let ?m = "km_lookup km" and ?s = "\<lambda>m k. share (m k) eid"
  have f: "finite (dom ?m)" by (rule finite_dom_lookup)
  have rest: "(\<Sum>k \<in> dom ?m - {key}. ?s (?m(key \<mapsto> kl)) k) = (\<Sum>k \<in> dom ?m - {key}. ?s ?m k)"
    by (rule sum.cong) auto
  have "keys_len (km_put km key kl lba) eid = (\<Sum>k \<in> insert key (dom ?m). ?s (?m(key \<mapsto> kl)) k)"
    using keys_len_sum [OF km_inv_put [OF assms]] by (simp add: km_lookup_put)
  also have "\<dots> = share (Some kl) eid + (\<Sum>k \<in> dom ?m - {key}. ?s ?m k)"
    using f rest by (simp add: sum.insert_remove)
  finally have new: "keys_len (km_put km key kl lba) eid = share (Some kl) eid + (\<Sum>k \<in> dom ?m - {key}. ?s ?m k)" .
  have "keys_len km eid = share (?m key) eid + (\<Sum>k \<in> dom ?m - {key}. ?s ?m k)"
  proof (cases "key \<in> dom ?m")
    case True
    then show ?thesis using keys_len_sum [OF assms] f by (simp add: sum.remove [of _ key])
  next
    case False
    then have "?m key = None" by (simp add: domIff)
    then show ?thesis using keys_len_sum [OF assms] False by (simp add: share_def)
  qed
  then show ?thesis using new by simp
qed

lemma keys_len_erase:
  assumes "km_inv km"
  shows "keys_len (km_erase km key) eid + share (km_lookup km key) eid = keys_len km eid"
proof -
  let ?m = "km_lookup km" and ?s = "\<lambda>m k. share (m k) eid"
  have f: "finite (dom ?m)" by (rule finite_dom_lookup)
  have "keys_len (km_erase km key) eid = (\<Sum>k \<in> dom ?m - {key}. ?s (?m(key := None)) k)"
    using keys_len_sum [OF km_inv_erase [OF assms]] by (simp add: km_lookup_erase)
  also have "\<dots> = (\<Sum>k \<in> dom ?m - {key}. ?s ?m k)" by (rule sum.cong) auto
  finally have new: "keys_len (km_erase km key) eid = (\<Sum>k \<in> dom ?m - {key}. ?s ?m k)" .
  show ?thesis
  proof (cases "key \<in> dom ?m")
    case True
    then show ?thesis using keys_len_sum [OF assms, of eid] f new by (simp add: sum.remove [of _ key])
  next
    case False
    then have "?m key = None" by (simp add: domIff)
    then show ?thesis using keys_len_sum [OF assms, of eid] False new by (simp add: share_def)
  qed
qed

lemma share_le_keys_len:
  assumes "km_inv km" "km_lookup km key = Some kl"
  shows "unat (kl_length kl) \<le> keys_len km (kl_extent_id kl)"
proof -
  have "share (km_lookup km key) (kl_extent_id kl) \<le> (\<Sum>k \<in> dom (km_lookup km). share (km_lookup km k) (kl_extent_id kl))"
    using assms(2) finite_dom_lookup by (intro member_le_sum) auto
  then show ?thesis using assms keys_len_sum by (simp add: share_def)
qed

section \<open>Operations of the extent map\<close>

lemma frame_sel [simp]:
  "em_dev (set_entry k e em) = em_dev em" "em_alloc (set_entry k e em) = em_alloc em"
  "em_block_size (set_entry k e em) = em_block_size em"
  "em_dev (mark_dirty k em) = em_dev em" "em_alloc (mark_dirty k em) = em_alloc em"
  "em_block_size (mark_dirty k em) = em_block_size em" "em_lookup (mark_dirty k em) = em_lookup em"
  "em_dev (update_free_list k t x y em) = em_dev em" "em_alloc (update_free_list k t x y em) = em_alloc em"
  "em_block_size (update_free_list k t x y em) = em_block_size em" "em_lookup (update_free_list k t x y em) = em_lookup em"
  "em_dev (add_deferred_free l em) = em_dev em" "em_alloc (add_deferred_free l em) = em_alloc em"
  "em_block_size (add_deferred_free l em) = em_block_size em" "em_lookup (add_deferred_free l em) = em_lookup em"
  "em_dev (add_allocator t a em) = em_dev em" "em_alloc (add_allocator t a em) = (em_alloc em)(t \<mapsto> a)"
  "em_block_size (add_allocator t a em) = em_block_size em" "em_lookup (add_allocator t a em) = em_lookup em"
  "em_dev (add_block_device t d em) = (em_dev em)(t \<mapsto> d)" "em_alloc (add_block_device t d em) = em_alloc em"
  "em_block_size (add_block_device t d em) = em_block_size em" "em_lookup (add_block_device t d em) = em_lookup em"
  by (simp_all add: set_entry_def mark_dirty_def update_free_list_def add_deferred_free_def add_allocator_def
      add_block_device_def em_lookup_def fun_eq_iff)

text \<open>Replacing an entry by one with the same location and no fewer used bytes.\<close>

lemma entry_update:
  assumes g: "geom em" and K: "\<forall>kl \<in> K. slot_ok em kl"
    and e: "em_lookup em k = Some e" "ee_location e' = ee_location e" "unat (ee_used_bytes e) \<le> unat (ee_used_bytes e')" "entry_ok e'"
    and em': "em_lookup em' = (em_lookup em)(k \<mapsto> e')" "em_dev em' = em_dev em" "em_alloc em' = em_alloc em"
      "em_block_size em' = em_block_size em"
  shows "geom em'" "kept K em em'"
proof -
  show "geom em'" using g e em' unfolding geom_def by (auto split: if_splits)
  show "kept K em em'" by (rule kept_same_entries [OF K em'(2)]) (use e em'(1) in auto)
qed

lemma live_update:
  assumes "keys_ok em km pend" "em_lookup em k = Some e" "em_lookup em' = (em_lookup em)(k \<mapsto> e')"
    "kept (ran (km_lookup km)) em em'" "unat (ee_live_bytes e') = keys_len km k + p"
  shows "keys_ok em' km (pend(k := p))"
  using assms unfolding keys_ok_def kept_def by (auto simp: ran_def)

lemma keys_ok_live: "keys_ok em km pend \<Longrightarrow> em_lookup em k = Some e \<Longrightarrow> unat (ee_live_bytes e) = keys_len km k + pend k"
  unfolding keys_ok_def by blast

lemma keys_ok_slots: "keys_ok em km pend \<Longrightarrow> \<forall>kl \<in> ran (km_lookup km). slot_ok em kl"
  by (auto simp: keys_ok_def ran_def)

lemma bump_sel [simp]:
  "ee_used_bytes (bump_generation e) = ee_used_bytes e" "ee_live_bytes (bump_generation e) = ee_live_bytes e"
  by (simp_all add: bump_generation_def Let_def)

lemma used_small: "geom em \<Longrightarrow> em_lookup em k = Some e \<Longrightarrow> unat (ee_used_bytes e) < 2 ^ 31"
  unfolding geom_def entry_ok_def by fastforce

lemma append_slot_ok:
  assumes ok: "store_ok ds em km pend" and a: "append_slot k n em = (off, em')" and no: "off \<noteq> NO_SLOT"
    and n: "unat n < 2 ^ 31"
  shows "store_ok ds em' km (pend(k := pend k + unat n))" "kept (ran (km_lookup km)) em em'"
    "\<exists>e e'. em_lookup em k = Some e \<and> off = ee_used_bytes e \<and> em_lookup em' k = Some e' \<and> ee_location e' = ee_location e \<and>
      unat (ee_used_bytes e') = unat off + unat n"
    "em_dev em' = em_dev em"
proof -
  have o: "em_inv em [journal_loc ds]" "geom em" "keys_ok em km pend" using ok by (simp_all add: store_ok_def)
  obtain e where e: "em_lookup em k = Some e" "\<not> ee_used_bytes e + n > ee_capacity e" "off = ee_used_bytes e"
    "em' = update_free_list k (dl_tier (ee_location e)) (ee_capacity e - ee_used_bytes e)
       (ee_capacity e - (ee_used_bytes e + n)) (mark_dirty k (set_entry k
       (bump_generation (e\<lparr>ee_used_bytes := ee_used_bytes e + n, ee_live_bytes := ee_live_bytes e + n\<rparr>)) em))"
    using a no by (auto simp: append_slot_def Let_def split: option.splits if_splits)
  let ?e = "bump_generation (e\<lparr>ee_used_bytes := ee_used_bytes e + n, ee_live_bytes := ee_live_bytes e + n\<rparr>)"
  have ent: "entry_ok e" using o(2) e(1) by (auto simp: geom_def)
  have small: "unat (ee_used_bytes e) < 2 ^ 31" using o(2) e(1) by (rule used_small)
  have up: "unat (ee_used_bytes e + n) = unat (ee_used_bytes e) + unat n"
    using n small by (intro unat_add_nowrap) simp
  have lp: "unat (ee_live_bytes e + n) = unat (ee_live_bytes e) + unat n"
    using n small ent by (intro unat_add_nowrap) (auto simp: entry_ok_def word_le_nat_alt)
  have "unat (ee_used_bytes e) + unat n \<le> unat (dl_length (ee_location e)) - 4096"
    using e(2) up unat_capacity [OF ent] by (simp add: word_less_nat_alt)
  then have ent': "entry_ok ?e" using ent up lp by (auto simp: entry_ok_def word_le_nat_alt)
  have s: "em_lookup em' = (em_lookup em)(k \<mapsto> ?e)" "em_dev em' = em_dev em" "em_alloc em' = em_alloc em"
    "em_block_size em' = em_block_size em" using e(4) by simp_all
  have used: "unat (ee_used_bytes e) \<le> unat (ee_used_bytes ?e)" using up by simp
  note U = entry_update [OF o(2) keys_ok_slots [OF o(3)] e(1) _ used ent' s]
  show kept: "kept (ran (km_lookup km)) em em'" using U(2) by simp
  have "keys_ok em' km (pend(k := pend k + unat n))"
    by (rule live_update [OF o(3) e(1) s(1) kept]) (simp add: lp keys_ok_live [OF o(3) e(1)])
  moreover have "em_inv em' [journal_loc ds]" using em_inv_quiet [OF o(1) quiet_ops(8) [of em k n]] a by simp
  ultimately show "store_ok ds em' km (pend(k := pend k + unat n))" using U(1) by (simp add: store_ok_def)
  show "\<exists>e e'. em_lookup em k = Some e \<and> off = ee_used_bytes e \<and> em_lookup em' k = Some e' \<and> ee_location e' = ee_location e \<and>
      unat (ee_used_bytes e') = unat off + unat n"
    using e(1,3) s(1) up by auto
  show "em_dev em' = em_dev em" by (rule s(2))
qed

lemma append_slot_fails:
  assumes "geom em" "append_slot k n em = (NO_SLOT, em')"
  shows "em' = em"
proof -
  have "ee_used_bytes e \<noteq> NO_SLOT" if "em_lookup em k = Some e" for e
    using used_small [OF assms(1) that] by (auto simp: NO_SLOT_def)
  then show ?thesis using assms(2) by (fastforce simp: append_slot_def Let_def split: option.splits if_splits)
qed

text \<open>Giving back part of the live bytes.\<close>

lemma mark_dead_ok:
  assumes ok: "store_ok ds em km pend" and e: "em_lookup em k = Some e" and n: "unat n \<le> pend k"
  shows "store_ok ds (mark_dead_slot k n em) km (pend(k := pend k - unat n))"
    "kept (ran (km_lookup km)) em (mark_dead_slot k n em)"
    "\<exists>e'. em_lookup (mark_dead_slot k n em) = (em_lookup em)(k \<mapsto> e') \<and> ee_location e' = ee_location e \<and>
      unat (ee_live_bytes e') = keys_len km k + (pend k - unat n)"
proof -
  let ?em = "mark_dead_slot k n em"
  have o: "em_inv em [journal_loc ds]" "geom em" "keys_ok em km pend" using ok by (simp_all add: store_ok_def)
  let ?e = "bump_generation (e\<lparr>ee_live_bytes := if ee_live_bytes e \<ge> n then ee_live_bytes e - n else 0\<rparr>)"
  have live: "unat (ee_live_bytes e) = keys_len km k + pend k" by (rule keys_ok_live [OF o(3) e])
  then have ge: "ee_live_bytes e \<ge> n" using n by (simp add: word_le_nat_alt)
  then have live': "unat (ee_live_bytes ?e) = keys_len km k + (pend k - unat n)" using live n by (simp add: unat_sub_le)
  have ent: "entry_ok e" using o(2) e by (auto simp: geom_def)
  have ent': "entry_ok ?e" using ent ge by (auto simp: entry_ok_def word_le_nat_alt unat_sub_le)
  have s: "em_lookup ?em = (em_lookup em)(k \<mapsto> ?e)" "em_dev ?em = em_dev em" "em_alloc ?em = em_alloc em"
    "em_block_size ?em = em_block_size em" using e by (simp_all add: mark_dead_slot_def Let_def)
  note U = entry_update [OF o(2) keys_ok_slots [OF o(3)] e _ _ ent' s]
  show kept: "kept (ran (km_lookup km)) em ?em" using U(2) by simp
  have "keys_ok ?em km (pend(k := pend k - unat n))" by (rule live_update [OF o(3) e s(1) kept live'])
  moreover have "em_inv ?em [journal_loc ds]" using em_inv_quiet [OF o(1) quiet_ops(3)] .
  ultimately show "store_ok ds ?em km (pend(k := pend k - unat n))" using U(1) by (simp add: store_ok_def)
  show "\<exists>e'. em_lookup ?em = (em_lookup em)(k \<mapsto> e') \<and> ee_location e' = ee_location e \<and>
      unat (ee_live_bytes e') = keys_len km k + (pend k - unat n)"
    using s(1) live' by (intro exI [of _ ?e]) simp
qed

text \<open>Freeing an extent without keys.\<close>

lemma keys_len_0:
  assumes "keys_ok em km pend" "keys_len km k = 0" "kl \<in> ran (km_lookup km)"
  shows "kl_extent_id kl \<noteq> k"
proof
  assume k: "kl_extent_id kl = k"
  obtain key where key: "km_lookup km key = Some kl" using assms(3) by (auto simp: ran_def)
  have "km_inv km" "kl_length kl \<noteq> 0" using assms(1) key by (auto simp: keys_ok_def slot_ok_def)
  then show False using share_le_keys_len [OF _ key] k assms(2) by (simp add: unat_eq_zero)
qed

lemma free_ok:
  assumes ok: "store_ok ds em km pend" and z: "keys_len km k = 0"
  shows "store_ok ds (em_free k em) km (pend(k := p))" "kept (ran (km_lookup km)) em (em_free k em)"
    "em_lookup (em_free k em) = (em_lookup em)(k := None)" "em_dev (em_free k em) = em_dev em"
proof -
  let ?em = "em_free k em"
  have o: "em_inv em [journal_loc ds]" "geom em" "keys_ok em km pend" using ok by (simp_all add: store_ok_def)
  have s: "em_lookup ?em = (em_lookup em)(k := None)" "em_dev ?em = em_dev em" "em_alloc ?em = em_alloc em"
    "em_block_size ?em = em_block_size em"
    by (auto simp: em_free_def Let_def em_lookup_def add_deferred_free_def fun_eq_iff split: option.split)
  show kept: "kept (ran (km_lookup km)) em ?em"
    by (rule kept_same_entries [OF keys_ok_slots [OF o(3)] s(2)]) (use s(1) keys_len_0 [OF o(3) z] in auto)
  have "geom ?em" using o(2) s unfolding geom_def by (auto split: if_splits)
  moreover have "keys_ok ?em km (pend(k := p))"
    using o(3) kept s(1) unfolding keys_ok_def kept_def by (auto simp: ran_def)
  ultimately show "store_ok ds ?em km (pend(k := p))" using em_inv_free [OF o(1)] by (simp add: store_ok_def)
  show "em_lookup ?em = (em_lookup em)(k := None)" "em_dev ?em = em_dev em" by (rule s)+
qed


section \<open>New extents\<close>

lemma member_le_sum_list: "x \<in> set xs \<Longrightarrow> f x \<le> sum_list (map f xs)" for f :: "'a \<Rightarrow> nat"
  by (induction xs) auto

lemma alloc_space_geom:
  assumes inv: "em_inv em G" and g: "geom em" and t: "named_tier t" and sz: "unat sz + unat (em_block_size em) \<le> 2 ^ 31"
    and nz: "0 < unat sz" and al: "alloc_space t sz em = Some (r, em')"
  shows "geom em'" "em_dev em' = em_dev em" "em_lookup em' = em_lookup em" "em_block_size em' = em_block_size em"
    "r = Space l \<Longrightarrow> 4096 \<le> unat (dl_length l) \<and> unat (dl_length l) < 2 ^ 31 \<and> 4096 dvd unat (dl_offset l)"
proof -
  let ?u = "em_block_size em" and ?rnd = "round_up_to sz (em_block_size em)"
  let ?w = "if ?rnd = 0 then ?u else ?rnd"
  obtain j where j: "?u = 2 ^ j" "12 \<le> j" "j < 32" using g by (auto simp: geom_def)
  obtain a d where ad: "em_alloc em t = Some a" "em_dev em t = Some d" "healthy d" "av_device_size a = bd_size d" "av_block_size a = ?u"
    using g t unfolding geom_def by blast
  obtain got es a' where A: "avl_allocate ?w ?u ?w a = Some (got, es, a')" "em' = add_allocator t a' em"
    "r = (if got < sint ?w \<or> es = [] then Too_Little
          else Space \<lparr>dl_offset = pe_offset (hd es), dl_length = pe_length (hd es), dl_tier = t\<rparr>)"
    using al ad(1) by (auto simp: alloc_space_def Let_def)
  have av: "avl_inv a" using inv ad(1) by (auto simp: em_inv_def owns_all_def avl.owns_def avl_ready_def)
  have u: "isp2 ?u" "?w mod ?u = 0" using inv round_up_to_mod [of ?u sz] by (simp_all add: em_inv_def)
  from av u ad(5) [unfolded j(1)] j(3) obtain x es1 a1 where L:
    "avl_allocate ?w ?u ?w a = Some (if x = 0 then - ENOSPC else int (unat x), es1, a1)"
    "loop_post ?w ?u (max_alloc_of ?w ?w (2 ^ j)) 0 a x es1 a1" by (rule avl_allocate_ok)
  then have P: "loop_post ?w ?u (max_alloc_of ?w ?w (2 ^ j)) 0 a x es a'" using A(1) by simp
  have fr: "av_device_size a' = av_device_size a" "av_block_size a' = av_block_size a"
    using P by (simp_all add: loop_post_def avl_frame_def)
  show "em_dev em' = em_dev em" "em_lookup em' = em_lookup em" "em_block_size em' = em_block_size em" using A(2) by simp_all
  show "geom em'" using g ad fr A(2) unfolding geom_def by auto
  assume r: "r = Space l"
  then have es: "es \<noteq> []" "l = \<lparr>dl_offset = pe_offset (hd es), dl_length = pe_length (hd es), dl_tier = t\<rparr>"
    using A(3) by (auto split: if_splits)
  have uu: "unat ?u = 2 ^ j" using j by simp
  have w: "?w \<noteq> 0" using j(1,3) by simp
  have dw: "2 ^ j dvd unat ?w" using u(2) uu by (metis unat_mod unat_0 dvd_eq_mod_eq_0)
  have "2 ^ j dvd unat (max_alloc_of ?w ?w (2 ^ j))" using max_alloc_of_bounds(3) [OF w j(3) _ dw dw] by simp
  then have e: "pe_length (hd es) \<noteq> 0" "2 ^ j dvd unat (pe_offset (hd es))" "2 ^ j dvd unat (pe_length (hd es))"
    using P es(1) uu by (auto simp: loop_post_def extent_ok_def)
  have big: "(4096 :: nat) dvd 2 ^ j" using le_imp_power_dvd [OF j(2), of "2 :: nat"] by simp
  have "4096 dvd unat (pe_length (hd es))" "4096 dvd unat (pe_offset (hd es))" using e(2,3) big dvd_trans by blast+
  moreover have "0 < unat (pe_length (hd es))" using e(1) by (simp add: unat_gt_0)
  moreover have "unat (pe_length (hd es)) < 2 ^ 31"
  proof -
    have "unat (pe_length (hd es)) \<le> (\<Sum>e \<leftarrow> es. unat (pe_length e))" using es(1) by (intro member_le_sum_list) simp
    also have "\<dots> = unat x" using loop_post_result(2) [OF P] by simp
    also have "\<dots> \<le> unat ?w" using P by (simp add: loop_post_def word_le_nat_alt)
    also have "\<dots> < 2 ^ 31"
    proof (cases "?rnd = 0")
      case True
      have "unat ?u < 2 ^ 31" using sz nz by linarith
      then show ?thesis using True by simp
    next
      case False
      have "0 < ?u" using j(1,3) by (simp add: word_neq_0_conv [symmetric] del: word_neq_0_conv)
      then have "unat ?rnd < 2 ^ 31" using sz round_up_to_correct(2) [of ?u sz] by simp
      then show ?thesis using False by (simp only: if_False simp_thms)
    qed
    finally show ?thesis .
  qed
  ultimately show "4096 \<le> unat (dl_length l) \<and> unat (dl_length l) < 2 ^ 31 \<and> 4096 dvd unat (dl_offset l)"
    using es(2) by (auto dest: dvd_imp_le)
qed


text \<open>Sub-intervals of disjoint intervals.\<close>

lemma disjoint_ranges:
  fixes a b c d :: nat
  assumes "{a ..< b} \<inter> {c ..< d} = {}" "c \<le> x" "x + n \<le> d" "0 < n" "a + m \<le> b" "0 < m"
  shows "x + n \<le> a \<or> a + m \<le> x"
proof (rule ccontr)
  assume "\<not> ?thesis"
  then have "max a x \<in> {a ..< b} \<inter> {c ..< d}" using assms by auto
  then show False using assms(1) by blast
qed

text \<open>The header of a new extent is written inside it.\<close>

lemma register_geom:
  assumes inv: "em_inv em (l # G)" and jl: "journal_loc ds \<in> set G" "unat ds < 2 ^ 31" and g: "geom em" and l: "named_tier (dl_tier l)" "4096 \<le> unat (dl_length l)"
      "unat (dl_length l) < 2 ^ 31" "4096 dvd unat (dl_offset l)"
    and nw: "unat (em_next_extent_id em) + 1 < 2 ^ 64" and K: "\<forall>kl \<in> K. slot_ok em kl"
    and r: "register_extent l em = (res, em')"
  shows "geom em'" "kept K em em'" "em_lookup em' = (em_lookup em)(em_next_extent_id em \<mapsto> new_ExtentEntry l)"
    "em_lookup em (em_next_extent_id em) = None" "jkept ds em em'"
proof -
  let ?k = "em_next_extent_id em" and ?t = "dl_tier l"
  let ?h = "header_image (make_header ?k (dl_length l) 0 0 0)"
  obtain a d where ad: "em_alloc em ?t = Some a" "em_dev em ?t = Some d" "healthy d" "av_device_size a = bd_size d"
    using g l(1) unfolding geom_def by blast
  have "avl.owns a (ranges ?t (held em @ l # G))" using inv ad(1) unfolding em_inv_def owns_all_def by blast
  then have own: "avl.owns a (loc_range l # ranges ?t (held em @ G))" by (rule owns_mset) (simp add: ranges_Cons)
  then have b: "unat (dl_offset l) + unat (dl_length l) \<le> unat (bd_size d)"
    using ad(4) by (simp add: avl.owns_def regions_Cons loc_range_def)
  have w: "dev_write (dl_offset l) ?h False d = (4096, wrote (unat (dl_offset l)) ?h True d)"
    using dev_write_healthy [OF ad(3), of "dl_offset l" ?h False] b l(2,4) by simp
  let ?d = "wrote (unat (dl_offset l)) ?h True d"
  have hd: "healthy ?d" using ad(3) b l(2) by (intro healthy_wrote) simp_all
  show fresh: "em_lookup em ?k = None"
    using inv unfolding em_inv_def em_lookup_def map_of_eq_None_iff by blast
  have s: "em_lookup em' = (em_lookup em)(?k \<mapsto> new_ExtentEntry l)" "em_dev em' = (em_dev em)(?t \<mapsto> ?d)"
    "em_alloc em' = em_alloc em" "em_block_size em' = em_block_size em"
    using r w ad(2) by (auto simp: register_extent_def Let_def write_extent_header_def dev_put_def em_lookup_def set_entry_def
        fun_eq_iff)
  show "em_lookup em' = (em_lookup em)(?k \<mapsto> new_ExtentEntry l)" by (rule s(1))
  show "jkept ds em em'"
  proof (cases "?t = FAST")
    case True
    have "range_space (loc_range l) \<inter> range_space (loc_range (journal_loc ds)) = {}"
      using own in_ranges [of "journal_loc ds" "held em @ G" FAST] jl(1) True
      by (auto simp: avl.owns_def regions_Cons journal_loc_def)
    then have "unat ds \<le> unat (dl_offset l)" using l(2) jl(2) by (auto simp: range_space_def loc_range_def journal_loc_def unat_ucast_64_32)
    then show ?thesis using True s(2) ad(2) hd bytes_at_wrote(2) by (auto simp: jkept_def)
  next
    case False
    then show ?thesis using s(2) by (auto simp: jkept_def)
  qed
  have "entry_ok (new_ExtentEntry l)" using l(2) by (simp add: entry_ok_def new_ExtentEntry_def)
  then show "geom em'"
    using g s l(1,3) ad hd unfolding geom_def by (auto simp: new_ExtentEntry_def split: if_splits)
  let ?em1 = "em\<lparr>em_dev := (em_dev em)(?t \<mapsto> ?d)\<rparr>"
  have "kept K em ?em1"
  proof (rule write_kept [OF inv g K ad(2), of _ ?d "unat (dl_offset l)" 4096])
    show "em_dev ?em1 = (em_dev em)(?t \<mapsto> ?d)" "em_lookup ?em1 = em_lookup em" by (simp_all add: em_lookup_def fun_eq_iff)
    show "bytes_at ?d b n = bytes_at d b n" if "b + n \<le> unat (dl_offset l) \<or> unat (dl_offset l) + 4096 \<le> b" for b n
      using that bytes_at_wrote(2) [of b n "unat (dl_offset l)" ?h] by simp
  next
    fix kl e assume k: "kl \<in> K" and e: "em_lookup em (kl_extent_id kl) = Some e" "dl_tier (ee_location e) = ?t"
    have "loc_range (ee_location e) \<in> set (ranges ?t (held em @ G))"
      using loc_in_em_locs [OF e(1)] e(2) in_ranges by (simp add: held_def)
    then have dis: "range_space (loc_range l) \<inter> range_space (loc_range (ee_location e)) = {}"
      using own by (simp add: avl.owns_def regions_Cons)
    from K k have sk: "slot_ok em kl" by blast
    obtain e0 where "em_lookup em (kl_extent_id kl) = Some e0" "slot_addr (ee_location e0) kl + unat (kl_length kl) \<le>
       unat (dl_offset (ee_location e0)) + unat (dl_length (ee_location e0))" using slot_facts [OF inv g sk] by metis
    then have "slot_addr (ee_location e) kl + unat (kl_length kl) \<le> unat (dl_offset (ee_location e)) + unat (dl_length (ee_location e))"
      using e(1) by simp
    moreover have "unat (dl_offset (ee_location e)) \<le> slot_addr (ee_location e) kl" by (simp add: slot_addr_def)
    moreover have "unat (dl_offset l) + 4096 \<le> unat (dl_offset l) + unat (dl_length l)" using l(2) by simp
    moreover have "0 < unat (kl_length kl)" using sk by (simp add: slot_ok_def unat_gt_0)
    ultimately show "slot_addr (ee_location e) kl + unat (kl_length kl) \<le> unat (dl_offset l) \<or>
        unat (dl_offset l) + 4096 \<le> slot_addr (ee_location e) kl"
      using dis by (intro disjoint_ranges) (auto simp: range_space_def loc_range_def)
  qed
  moreover have "kept K ?em1 em'"
  proof (rule kept_same_entries)
    show "\<forall>kl \<in> K. slot_ok ?em1 kl" using K by (simp add: slot_ok_def em_lookup_def)
    show "em_dev em' = em_dev ?em1" using s(2) by simp
    show "\<exists>e'. em_lookup em' (kl_extent_id kl) = Some e' \<and> ee_location e' = ee_location e \<and>
        unat (ee_used_bytes e) \<le> unat (ee_used_bytes e')" if "em_lookup ?em1 (kl_extent_id kl) = Some e" for kl e
      using that s(1) fresh by (auto simp: em_lookup_def)
  qed
  ultimately show "kept K em em'" by (rule kept_trans)
qed


text \<open>A key map without keys in an extent that does not exist.\<close>

lemma no_keys:
  assumes "keys_ok em km pend" "em_lookup em k = None"
  shows "keys_len km k = 0"
proof -
  have inv: "km_inv km" using assms(1) by (simp add: keys_ok_def)
  have "kl_extent_id kl \<noteq> k" if "km_lookup km key = Some kl" for key kl
    using keys_ok_slots [OF assms(1)] assms(2) ranI [of "km_lookup km", OF that] unfolding slot_ok_def by force
  then have "share (km_lookup km key) k = 0" for key by (auto simp: share_def split: option.split)
  then show ?thesis by (simp add: keys_len_sum [OF inv])
qed

lemma alloc_extent_ok:
  assumes ok: "store_ok ds em km (\<lambda>_. 0)" and sz: "unat sz + unat (em_block_size em) \<le> 2 ^ 31" "0 < unat sz"
    and nw: "unat (em_next_extent_id em) + 1 < 2 ^ 64" and dsb: "unat ds < 2 ^ 31"
    and a: "allocate_extent FAST sz em = Some (r, em')"
  shows "store_ok ds em' km (\<lambda>_. 0)" "jkept ds em em'" "kept (ran (km_lookup km)) em em'" "em_block_size em' = em_block_size em"
    "r = Some (eid, l) \<Longrightarrow> em_lookup em' eid = Some (new_ExtentEntry l) \<and> em_lookup em eid = None \<and> keys_len km eid = 0"
proof -
  have o: "em_inv em [journal_loc ds]" "geom em" "keys_ok em km (\<lambda>_. 0)" using ok by (simp_all add: store_ok_def)
  let ?K = "ran (km_lookup km)"
  have K: "\<forall>kl \<in> ?K. slot_ok em kl" by (rule keys_ok_slots [OF o(3)])
  have same: "geom em1 \<and> em_dev em1 = em_dev x \<and> kept ?K em em1 \<and> em_lookup em1 = em_lookup em \<and> em_block_size em1 = em_block_size em"
    if "alloc_space t sz x = Some (s, em1)" "em_inv x [journal_loc ds]" "geom x" "kept ?K em x" "em_lookup x = em_lookup em"
      "em_block_size x = em_block_size em" "named_tier t" for t x s em1
  proof -
    note A = alloc_space_geom [OF that(2,3,7) _ sz(2) that(1)]
    have s6: "unat sz + unat (em_block_size x) \<le> 2 ^ 31" using sz(1) that(6) by simp
    have "kept ?K x em1"
      by (rule kept_same_entries) (use that(4,5) A(2,3) s6 in \<open>auto simp: kept_def\<close>)
    then show ?thesis using A(1-4) s6 that(4,5,6) kept_trans by metis
  qed
  have reg: "geom em' \<and> jkept ds x em' \<and> kept ?K em em' \<and> em_block_size em' = em_block_size em \<and> em_inv em' [journal_loc ds] \<and>
      em_lookup em' = (em_lookup em)(em_next_extent_id em \<mapsto> new_ExtentEntry l) \<and> em_lookup em (em_next_extent_id em) = None \<and>
      res = (em_next_extent_id em, l)"
    if "alloc_space t sz x = Some (Space l, em1)" "em_inv x [journal_loc ds]" "geom x" "kept ?K em x" "em_lookup x = em_lookup em"
      "em_block_size x = em_block_size em" "named_tier t" "em_next_extent_id x = em_next_extent_id em"
      "register_extent l em1 = (res, em')" for t x l em1 res
  proof -
    have s6: "unat sz + unat (em_block_size x) \<le> 2 ^ 31" using sz(1) that(6) by simp
    note S = same [OF that(1-7)]
    note A = alloc_space_geom [OF that(2,3,7) s6 sz(2) that(1)]
    note I = em_inv_alloc_space [OF that(2,1)]
    have i: "em_inv em1 (l # [journal_loc ds])" using I(1) by simp
    have nx: "em_next_extent_id em1 = em_next_extent_id em" using I(4) that(8) by simp
    have l: "named_tier (dl_tier l)" "4096 \<le> unat (dl_length l)" "unat (dl_length l) < 2 ^ 31" "4096 dvd unat (dl_offset l)"
      using A(5) I(2) that(7) by auto
    have nw1: "unat (em_next_extent_id em1) + 1 < 2 ^ 64" using nw nx by simp
    have K1: "\<forall>kl \<in> ?K. slot_ok em1 kl" using S by (simp add: kept_def)
    note R = register_geom [OF i _ dsb A(1) l nw1 K1 that(9)]
    have j: "jkept ds x em'" using R(5) A(2) by (auto simp: jkept_def)
    note Q = em_inv_register [OF i nw1 that(9)]
    have "em_block_size em' = em_block_size em1"
      using that(9) by (auto simp: register_extent_def Let_def write_extent_header_def dev_put_def set_entry_def split: option.splits)
    then show ?thesis using R Q S j nx kept_trans by auto
  qed
  have r0: "kept ?K em em" using K by (simp add: kept_def)
  obtain s em1 where s: "alloc_space FAST sz em = Some (s, em1)" using a by (auto simp: allocate_extent_def split: option.splits)
  note S1 = same [OF s o(1,2) r0 refl refl]
  note I1 = em_inv_alloc_space [OF o(1) s]
  have nt: "named_tier FAST" "named_tier SLOW" by (simp_all add: named_tier_def)
  have main: "geom em' \<and> jkept ds em em' \<and> kept ?K em em' \<and> em_block_size em' = em_block_size em \<and> em_inv em' [journal_loc ds] \<and>
      (em_lookup em' = em_lookup em \<and> r = None \<or>
       (\<exists>l. em_lookup em' = (em_lookup em)(em_next_extent_id em \<mapsto> new_ExtentEntry l) \<and> em_lookup em (em_next_extent_id em) = None \<and>
          r = Some (em_next_extent_id em, l)))"
  proof (cases s)
    case (Space l)
    obtain res where "register_extent l em1 = (res, em')" "r = Some res"
      using a s Space by (auto simp: allocate_extent_def Let_def split: prod.splits)
    then show ?thesis using reg [OF s [unfolded Space] o(1,2) r0 refl refl nt(1) refl] by blast
  next
    case Too_Little
    obtain s2 em2 where s2: "alloc_space SLOW sz em1 = Some (s2, em2)"
      "(r, em') = (case s2 of Space l \<Rightarrow> (let (res, em'') = register_extent l em2 in (Some res, em'')) | _ \<Rightarrow> (None, em2))"
      using a s Too_Little by (auto simp: allocate_extent_def allocate_extent_slow_def)
    have i1: "em_inv em1 [journal_loc ds]" using I1(1) Too_Little by simp
    have S1': "geom em1" "kept ?K em em1" "em_lookup em1 = em_lookup em" "em_block_size em1 = em_block_size em"
      and j1: "jkept ds em em1" using S1 nt(1) by (simp_all add: jkept_dev)
    show ?thesis
    proof (cases s2)
      case (Space l)
      obtain res where "register_extent l em2 = (res, em')" "r = Some res"
        using s2(2) Space by (auto simp: Let_def split: prod.splits)
      then show ?thesis using reg [OF s2(1) [unfolded Space] i1 S1' nt(2) I1(4)] jkept_trans [OF j1] by blast
    qed (use s2 same [OF s2(1) i1 S1' nt(2)] em_inv_alloc_space(1) [OF i1 s2(1)] jkept_trans [OF j1 jkept_dev] in auto)
  next
    case No_Allocator
    then show ?thesis using a s S1 nt(1) I1(1) by (simp add: allocate_extent_def jkept_dev)
  qed
  then show "jkept ds em em'" "kept ?K em em'" "em_block_size em' = em_block_size em" by blast+
  show "r = Some (eid, l) \<Longrightarrow> em_lookup em' eid = Some (new_ExtentEntry l) \<and> em_lookup em eid = None \<and> keys_len km eid = 0"
    using main no_keys [OF o(3)] by auto
  have "keys_ok em' km (\<lambda>_. 0)"
    using o(3) main no_keys [OF o(3)] unfolding keys_ok_def kept_def by (auto simp: ran_def new_ExtentEntry_def split: if_splits)
  then show "store_ok ds em' km (\<lambda>_. 0)" using main by (simp add: store_ok_def)
qed

end
