(* ===== verification/Engine_Correct.thy ===== *)
theory Engine_Correct
  imports Engine_Store
begin

text \<open>
  Put, get and delete of the engine on healthy devices, on top of the invariant of \<open>Engine_Store\<close>. \<open>eng_ok\<close> adds the
  journal: its region of the FAST device holds a log of transactions. The journal has room, so that no
  checkpoint happens on the way (\<open>room\<close>). The lemmas follow the phases of \<open>put\<close>: a transaction (\<open>txn_step\<close>), a new
  extent (\<open>fresh_extent_ok\<close>), the slot (\<open>place_ok\<close>), the value (\<open>write_value_ok\<close>), the maps (\<open>finish_put_ok\<close>).
\<close>

section \<open>The engine\<close>

definition eng_ok :: "u64 \<Rightarrow> (u64 \<Rightarrow> nat) \<Rightarrow> BtierEngine \<Rightarrow> txn list \<Rightarrow> bool" where
  "eng_ok ds pend e L \<longleftrightarrow> be_initialized e \<and> store_ok ds (be_em e) (be_km e) pend \<and>
     (\<exists>j d. be_journal e = Some j \<and> em_dev (be_em e) FAST = Some d \<and> jlog_ok ds j d L \<and> j_active_txns j = [])"

text \<open>Room for \<open>n\<close> more bytes in the journal, below the threshold of a checkpoint.\<close>

definition room :: "u64 \<Rightarrow> nat \<Rightarrow> BtierEngine \<Rightarrow> bool" where
  "room ds n e \<longleftrightarrow> (\<exists>j. be_journal e = Some j \<and> unat (j_write_offset j) + n + 4096 < unat ds \<and>
     100 * (unat (j_write_offset j) - unat (sb_checkpoint_offset (j_superblock j)) + n) < 80 * (unat ds - 4096))"

lemma room_less: "room ds n e \<Longrightarrow> m \<le> n \<Longrightarrow> room ds m e"
  unfolding room_def by fastforce

lemma room_same: "be_journal e' = be_journal e \<Longrightarrow> room ds n e' = room ds n e"
  by (simp add: room_def)

lemma jlog_jkept:
  assumes "jlog_ok ds j d L" "jkept ds em em'" "em_dev em FAST = Some d"
  shows "\<exists>d'. em_dev em' FAST = Some d' \<and> jlog_ok ds j d' L"
proof -
  obtain d' where d': "em_dev em' FAST = Some d'" "bd_size d' = bd_size d" "healthy d \<Longrightarrow> healthy d'"
    "\<And>a n. a + n \<le> unat ds \<Longrightarrow> bytes_at d' a n = bytes_at d a n"
    using assms(2,3) by (auto simp: jkept_def)
  have "disk_ok ds (j_superblock j) d L" using assms(1) by (simp add: jlog_ok_def)
  then have "disk_ok ds (j_superblock j) d' L" using d'(2-4) by (auto simp: disk_ok_def word_le_nat_alt)
  then show ?thesis using assms(1) d'(1) by (auto simp: jlog_ok_def)
qed

lemma eng_em:
  assumes "eng_ok ds pend e L" "jkept ds (be_em e) (be_em e')" "store_ok ds (be_em e') (be_km e') pend'"
    "be_journal e' = be_journal e" "be_initialized e' = be_initialized e"
  shows "eng_ok ds pend' e' L"
  using assms jlog_jkept unfolding eng_ok_def by metis

lemma no_checkpoint:
  assumes "eng_ok ds pend e L" "room ds 0 e"
  shows "checkpoint_if needs_checkpoint e = Some e" "checkpoint_if is_near_full e = Some e"
proof -
  obtain j d where j: "be_journal e = Some j" "jlog_ok ds j d L" using assms(1) by (auto simp: eng_ok_def)
  have r: "100 * (unat (j_write_offset j) - unat (sb_checkpoint_offset (j_superblock j))) < 80 * (unat ds - 4096)"
    using assms(2) j(1) by (simp add: room_def)
  have D: "sb_checkpoint_offset (j_superblock j) \<le> j_write_offset j" "4096 < unat ds" "j_data_size j = ds - 4096"
    using j(2) by (auto simp: jlog_ok_def disk_ok_def impl_ok_def)
  then have s: "unat (j_data_size j) = unat ds - 4096" "j_data_size j \<noteq> 0"
    by (auto simp: unat_sub word_le_nat_alt)
  have u: "unat (journal_used_bytes j) = unat (j_write_offset j) - unat (sb_checkpoint_offset (j_superblock j))"
    using D(1) by (simp add: journal_used_bytes_def Let_def unat_sub)
  have "\<not> needs_checkpoint j" "\<not> is_near_full j" using r s u by (auto simp: needs_checkpoint_def is_near_full_def)
  then show "checkpoint_if needs_checkpoint e = Some e" "checkpoint_if is_near_full e = Some e"
    using j(1) by (simp_all add: checkpoint_if_def)
qed

section \<open>Transactions\<close>

lemma journal_behind:
  assumes inv: "em_inv em [journal_loc ds]" and e: "em_lookup em k = Some x" "dl_tier (ee_location x) = FAST"
    "em_alloc em FAST = Some a" "4096 \<le> unat (dl_length (ee_location x))" and ds: "0 < unat ds" "unat ds < 2 ^ 31"
  shows "unat ds \<le> unat (dl_offset (ee_location x))"
proof -
  have own: "avl.owns a (ranges FAST (held em @ [journal_loc ds]))" using inv e(3) unfolding em_inv_def owns_all_def by blast
  then have "avl.owns a (loc_range (journal_loc ds) # ranges FAST (held em))"
    by (rule owns_mset) (simp add: ranges_Cons journal_loc_def, simp add: ranges_def)
  moreover have "loc_range (ee_location x) \<in> set (ranges FAST (held em))"
    using loc_in_em_locs [OF e(1)] e(2) in_ranges by (simp add: held_def)
  ultimately have "range_space (loc_range (journal_loc ds)) \<inter> range_space (loc_range (ee_location x)) = {}"
    by (simp add: avl.owns_def regions_Cons)
  then have "{0 ..< unat ds} \<inter> {unat (dl_offset (ee_location x)) ..< unat (dl_offset (ee_location x)) + unat (dl_length (ee_location x))} = {}"
    using ds by (simp add: range_space_def loc_range_def journal_loc_def unat_ucast_64_32)
  then show ?thesis using ds(1) e(4) by (cases "unat ds \<le> unat (dl_offset (ee_location x))") auto
qed

text \<open>Replacing a device by one of the same size.\<close>

lemma dev_swap:
  assumes ok: "store_ok ds em km pend" and t: "named_tier t" "em_dev em t = Some d" "healthy d'" "bd_size d' = bd_size d"
  shows "store_ok ds (add_block_device t d' em) km pend"
proof -
  let ?em = "add_block_device t d' em"
  have o: "em_inv em [journal_loc ds]" "geom em" "keys_ok em km pend" using ok by (simp_all add: store_ok_def)
  have "em_inv ?em [journal_loc ds]" using em_inv_quiet [OF o(1), of ?em] by (simp add: add_block_device_def)
  moreover have "geom ?em" using o(2) t unfolding geom_def by auto
  moreover have "keys_ok ?em km pend" using o(3) by (simp add: keys_ok_def slot_ok_def)
  ultimately show ?thesis by (simp add: store_ok_def)
qed

lemma length_serialize_record:
  "length (serialize_record (extent_record k l\<lparr>jr_txn_id := tid\<rparr>)) \<le> 64"
  "length (serialize_record (put_record key kl\<lparr>jr_txn_id := tid\<rparr>)) \<le> 32 + length key"
  "length (serialize_record (del_record key\<lparr>jr_txn_id := tid\<rparr>)) \<le> 32 + length key"
  "length (serialize_record (dead_record kl\<lparr>jr_txn_id := tid\<rparr>)) \<le> 32"
  "length (serialize_record (begin_record tid)) \<le> 32"
  "length (serialize_record (commit_record tid c)) \<le> 32"
  by (simp_all add: serialize_record_def extent_record_def put_record_def del_record_def dead_record_def new_record_def
      begin_record_def commit_record_def put_string_def put_key_location_def put_disk_location_def)

definition txn_cost :: "bytes \<Rightarrow> nat" where
  "txn_cost key = 4096 + 128 + length key"


text \<open>A transaction changes the journal and nothing else; it needs the length of its frame.\<close>

definition engine_same :: "BtierEngine \<Rightarrow> BtierEngine \<Rightarrow> bool" where
  "engine_same e e' \<longleftrightarrow> be_km e' = be_km e \<and> be_cfg e' = be_cfg e \<and> em_block_size (be_em e') = em_block_size (be_em e)"

lemma engine_same_refl [simp]: "engine_same e e"
  by (simp add: engine_same_def)

lemma engine_same_trans: "engine_same a b \<Longrightarrow> engine_same b c \<Longrightarrow> engine_same a c"
  by (simp add: engine_same_def)

lemma txn_step:
  assumes ok: "eng_ok ds pend e L" and recs: "\<forall>rec \<in> set recs. storable rec \<and> data_op rec"
    and len: "\<And>tid. length (frame (tid, stamped tid recs, False)) \<le> m" and room: "room ds (m + n) e"
  shows "\<exists>e' tid. on_journal (run_txn recs) e = Some (0, e') \<and> eng_ok ds pend e' (L @ [(tid, stamped tid recs, False)]) \<and>
    room ds n e' \<and> engine_same e e' \<and> em_lookup (be_em e') = em_lookup (be_em e) \<and>
    em_next_extent_id (be_em e') = em_next_extent_id (be_em e) \<and>
    kept {kl. slot_ok (be_em e) kl} (be_em e) (be_em e')"
proof -
  let ?em = "be_em e"
  obtain j d where j: "be_journal e = Some j" "em_dev ?em FAST = Some d" "jlog_ok ds j d L" "j_active_txns j = []"
    and st: "store_ok ds ?em (be_km e) pend" and ini: "be_initialized e" using ok by (auto simp: eng_ok_def)
  let ?tid = "j_next_txn_id j"
  let ?t = "(?tid, stamped ?tid recs, False)"
  have rm: "unat (j_write_offset j) + (m + n) + 4096 < unat ds"
    "100 * (unat (j_write_offset j) - unat (sb_checkpoint_offset (j_superblock j)) + (m + n)) < 80 * (unat ds - 4096)"
    using room j(1) by (auto simp: room_def)
  have fl: "length (frame ?t) \<le> m" by (rule len)
  from run_txn_ok [OF j(3,4) recs] rm(1) fl obtain j' d' where R: "run_txn recs (j, d) = (0, j', d')"
    "jlog_ok ds j' d' (L @ [?t])" "j_active_txns j' = []" "txn_effect ds (length (frame ?t)) (j, d) (j', d')" by auto
  let ?em' = "add_block_device FAST d' ?em"
  let ?e = "e\<lparr>be_journal := Some j', be_em := ?em'\<rparr>"
  have eff: "bd_size d' = bd_size d" "\<And>a m. unat ds \<le> a \<Longrightarrow> bytes_at d' a m = bytes_at d a m"
    "unat (j_write_offset j') = unat (j_write_offset j) + length (frame ?t)"
    "sb_checkpoint_offset (j_superblock j') = sb_checkpoint_offset (j_superblock j)"
    using R(4) by (auto simp: txn_effect_def)
  have h: "healthy d'" "0 < unat ds" "unat ds < 2 ^ 31" using R(2) by (auto simp: jlog_ok_def disk_ok_def)
  have inv: "em_inv ?em [journal_loc ds]" "geom ?em" using st by (simp_all add: store_ok_def)
  have st': "store_ok ds ?em' (be_km e) pend" by (rule dev_swap [OF st _ j(2) h(1) eff(1)]) (simp add: named_tier_def)
  have "kept {kl. slot_ok ?em kl} ?em ?em'"
  proof (rule write_kept [OF inv _ j(2), of _ _ d' 0 "unat ds"])
    show "bytes_at d' b n = bytes_at d b n" if "b + n \<le> 0 \<or> 0 + unat ds \<le> b" for b n
      using that eff(2) by (cases "n = 0") (auto simp: bytes_at_def)
    fix kl x assume k: "kl \<in> {kl. slot_ok ?em kl}" "em_lookup ?em (kl_extent_id kl) = Some x" "dl_tier (ee_location x) = FAST"
    obtain a where "em_alloc ?em FAST = Some a" using inv(2) unfolding geom_def named_tier_def by blast
    moreover have "4096 \<le> unat (dl_length (ee_location x))" using inv(2) k(2) by (auto simp: geom_def entry_ok_def)
    ultimately have "unat ds \<le> unat (dl_offset (ee_location x))" using journal_behind [OF inv(1) k(2,3)] h by blast
    then show "slot_addr (ee_location x) kl + unat (kl_length kl) \<le> 0 \<or> 0 + unat ds \<le> slot_addr (ee_location x) kl"
      by (simp add: slot_addr_def)
  qed simp_all
  moreover have "on_journal (run_txn recs) e = Some (0, ?e)" using j(1,2) R(1) by (simp add: on_journal_def)
  moreover have "eng_ok ds pend ?e (L @ [?t])" using ini st' R(2,3) by (simp add: eng_ok_def)
  moreover have "room ds n ?e" using rm eff(3,4) fl by (simp add: room_def)
  ultimately show ?thesis
    by (intro exI [of _ ?e] exI [of _ ?tid]) (simp add: engine_same_def add_block_device_def em_lookup_def fun_eq_iff)
qed

lemma length_frame: "length (frame (tid, recs, False)) \<le> 4096 + 64 + (\<Sum>rec \<leftarrow> recs. length (serialize_record rec))"
  using pad_len_less [of "length (txn_bytes (tid, recs, False))"] length_serialize_record(5) [of tid]
    length_serialize_record(6) [of tid "records_crc (txn_body recs)"]
  by (simp add: frame_def txn_bytes_def txn_body_def length_concat comp_def)

lemma txn_costs:
  "length (frame (tid, stamped tid [extent_record k l], False)) \<le> txn_cost key"
  "length (frame (tid, stamped tid [put_record key kl], False)) \<le> txn_cost key"
  "length (frame (tid, stamped tid [dead_record ol, put_record key kl], False)) \<le> txn_cost key"
  "length (frame (tid, stamped tid [del_record key, dead_record ol], False)) \<le> txn_cost key"
  using length_frame [of tid "stamped tid [extent_record k l]"] length_frame [of tid "stamped tid [put_record key kl]"]
    length_frame [of tid "stamped tid [dead_record ol, put_record key kl]"]
    length_frame [of tid "stamped tid [del_record key, dead_record ol]"]
    length_serialize_record(1) [of tid k l] length_serialize_record(2) [of tid key kl]
    length_serialize_record(3) [of tid key] length_serialize_record(4) [of tid ol]
  by (simp_all add: txn_cost_def stamped_def)


section \<open>Placing a value\<close>

definition moved :: "nat \<Rightarrow> BtierEngine \<Rightarrow> BtierEngine \<Rightarrow> bool" where
  "moved k e e' \<longleftrightarrow> engine_same e e' \<and> kept (ran (km_lookup (be_km e))) (be_em e) (be_em e') \<and>
     unat (em_next_extent_id (be_em e')) \<le> unat (em_next_extent_id (be_em e)) + k"

lemma moved_trans: "moved i a b \<Longrightarrow> moved j b c \<Longrightarrow> moved (i + j) a c"
  unfolding moved_def engine_same_def by (auto intro: kept_trans)

lemma eng_slots: "eng_ok ds pend e L \<Longrightarrow> \<forall>kl \<in> ran (km_lookup (be_km e)). slot_ok (be_em e) kl"
  by (auto simp: eng_ok_def store_ok_def intro: keys_ok_slots [THEN bspec])

lemma moved_refl: "eng_ok ds pend e L \<Longrightarrow> moved 0 e e"
  using eng_slots by (auto simp: moved_def kept_def)

lemma kept_mono: "kept K em em' \<Longrightarrow> K' \<subseteq> K \<Longrightarrow> kept K' em em'"
  by (auto simp: kept_def)

definition extents_only :: "txn list \<Rightarrow> bool" where
  "extents_only pre \<longleftrightarrow> (\<forall>t \<in> set pre. \<forall>rec \<in> set (fst (snd t)). jr_op rec = OP_EXTENT_NEW)"

lemma extents_only_append [simp]: "extents_only (a @ b) \<longleftrightarrow> extents_only a \<and> extents_only b"
  by (auto simp: extents_only_def)

lemma allocate_next:
  assumes "allocate_extent FAST sz em = Some (r, em')"
  shows "unat (em_next_extent_id em') \<le> unat (em_next_extent_id em) + 1"
proof -
  have s: "em_next_extent_id em2 = em_next_extent_id em1" if "alloc_space t sz em1 = Some (s, em2)" for t s em1 em2
    using that by (auto simp: alloc_space_def add_allocator_def Let_def split: option.splits if_splits prod.splits)
  have r: "em_next_extent_id (snd (register_extent l em1)) = em_next_extent_id em1 + 1" for l em1
    by (simp add: register_extent_def Let_def write_extent_header_def dev_put_def set_entry_def split: option.split)
  obtain x em1 where x: "alloc_space FAST sz em = Some (x, em1)" using assms by (auto simp: allocate_extent_def split: option.splits)
  note x' = s [OF x]
  have "em_next_extent_id em' = em_next_extent_id em \<or> em_next_extent_id em' = em_next_extent_id em + 1"
  proof (cases x)
    case No_Allocator
    then show ?thesis using assms x x' by (simp add: allocate_extent_def)
  next
    case (Space l)
    then have "em' = snd (register_extent l em1)" using assms x by (auto simp: allocate_extent_def split: prod.splits)
    then show ?thesis using r x' by simp
  next
    case Too_Little
    then have "allocate_extent_slow sz em1 = Some (r, em')" using assms x by (simp add: allocate_extent_def)
    then obtain y em2 where y: "alloc_space SLOW sz em1 = Some (y, em2)"
      "(r, em') = (case y of Space l \<Rightarrow> (let (res, em'') = register_extent l em2 in (Some res, em'')) | _ \<Rightarrow> (None, em2))"
      unfolding allocate_extent_slow_def by force
    then show ?thesis using s [OF y(1)] r x' by (cases y) (simp_all add: split_beta)
  qed
  moreover have "unat (em_next_extent_id em + 1) \<le> unat (em_next_extent_id em) + 1"
    by (simp add: unat_word_ariths)
  ultimately show ?thesis by auto
qed

lemma free_next [simp]: "em_next_extent_id (em_free k em) = em_next_extent_id em"
  by (simp add: em_free_def add_deferred_free_def Let_def split: option.split)

lemma ds_small: "eng_ok ds pend e L \<Longrightarrow> unat ds < 2 ^ 31"
  by (auto simp: eng_ok_def jlog_ok_def disk_ok_def)

lemma fresh_extent_ok:
  assumes ok: "eng_ok ds (\<lambda>_. 0) e L" and room: "room ds (txn_cost key + n) e"
    and sz: "0 < unat sz" "unat sz + unat (em_block_size (be_em e)) \<le> 2 ^ 31"
    and nw: "unat (em_next_extent_id (be_em e)) + 1 < 2 ^ 64"
  shows "\<exists>r e' pre. fresh_extent sz e = Some (r, e') \<and> eng_ok ds (\<lambda>_. 0) e' (L @ pre) \<and> extents_only pre \<and> room ds n e' \<and>
    moved 1 e e' \<and> (r = Inl (- ENOSPC) \<or> (\<exists>eid l. r = Inr (eid, l) \<and> em_lookup (be_em e') eid = Some (new_ExtentEntry l) \<and>
      keys_len (be_km e') eid = 0)) \<and> (\<forall>x em'. allocate_extent FAST sz (be_em e) = Some (Some x, em') \<longrightarrow> r = Inr x)"
proof -
  let ?em = "be_em e"
  have st: "store_ok ds ?em (be_km e) (\<lambda>_. 0)" using ok by (simp add: eng_ok_def)
  have inv: "em_inv ?em [journal_loc ds]" using st by (simp add: store_ok_def)
  obtain r em' where A: "allocate_extent FAST sz ?em = Some (r, em')"
    using allocate_extent_total [OF inv] by blast
  note P = alloc_extent_ok [OF st sz(2,1) nw ds_small [OF ok] A]
  let ?e = "e\<lparr>be_em := em'\<rparr>"
  have ok1: "eng_ok ds (\<lambda>_. 0) ?e L" by (rule eng_em [OF ok]) (simp_all add: P(1,2))
  have mv: "moved 1 e ?e" using P(3,4) allocate_next [OF A] by (simp add: moved_def engine_same_def)
  show ?thesis
  proof (cases r)
    case None
    have "fresh_extent sz e = Some (Inl (- ENOSPC), ?e)" using A None by (simp add: fresh_extent_def)
    moreover have "room ds n ?e" using room_less [OF room, of n] by (simp add: room_same [of ?e e])
    ultimately show ?thesis using ok1 mv A None
      by (intro exI [of _ "Inl (- ENOSPC)"] exI [of _ ?e] exI [of _ "[]"]) (simp add: extents_only_def)
  next
    case (Some x)
    obtain eid l where x: "x = (eid, l)" by force
    have l: "em_lookup em' eid = Some (new_ExtentEntry l)" "keys_len (be_km e) eid = 0" using P(5) Some x by blast+
    have "\<And>x. em_lookup em' eid = Some x \<Longrightarrow> named_tier (dl_tier (ee_location x))" using P(1) by (simp add: store_ok_def geom_def)
    from this [OF l(1)] have "named_tier (dl_tier l)" by (simp add: new_ExtentEntry_def)
    then have rec: "\<forall>rec \<in> set [extent_record eid l]. storable rec \<and> data_op rec"
      by (simp add: storable_def data_op_def extent_record_def new_record_def)
    have rm: "room ds (txn_cost key + n) ?e" using room by (simp add: room_same [of ?e e])
    from txn_step [OF ok1 rec txn_costs(1) rm] obtain e' tid where T: "on_journal (run_txn [extent_record eid l]) ?e = Some (0, e')"
      "eng_ok ds (\<lambda>_. 0) e' (L @ [(tid, stamped tid [extent_record eid l], False)])" "room ds n e'" "engine_same ?e e'"
      "em_lookup (be_em e') = em_lookup em'" "em_next_extent_id (be_em e') = em_next_extent_id em'"
      "kept {kl. slot_ok em' kl} em' (be_em e')" by auto
    have "moved 0 ?e e'" using T(4,6) kept_mono [OF T(7)] eng_slots [OF ok1] by (auto simp: moved_def)
    then have "moved 1 e e'" using moved_trans [OF mv] by fastforce
    moreover have "fresh_extent sz e = Some (Inr (eid, l), e')" using A Some x T(1) by (simp add: fresh_extent_def)
    moreover have "extents_only [(tid, stamped tid [extent_record eid l], False)]"
      by (simp add: extents_only_def stamped_def extent_record_def new_record_def)
    moreover have "be_km e' = be_km e" using T(4) by (simp add: engine_same_def)
    ultimately show ?thesis using T(2,3,5) l A Some x by (intro exI [of _ "Inr (eid, l)"] exI [of _ e'] exI) auto
  qed
qed


text \<open>A reserved slot: at the end of the used part, behind every slot of a key.\<close>

definition placed :: "u32 \<Rightarrow> placement \<Rightarrow> BtierEngine \<Rightarrow> bool" where
  "placed sz p e \<longleftrightarrow> (\<exists>x. em_lookup (be_em e) (pl_extent_id p) = Some x \<and> ee_location x = pl_loc p \<and>
       unat (ee_used_bytes x) = unat (pl_offset p) + unat sz) \<and>
     (\<forall>kl \<in> ran (km_lookup (be_km e)). kl_extent_id kl = pl_extent_id p \<longrightarrow>
       unat (kl_offset kl) + unat (kl_length kl) \<le> unat (pl_offset p)) \<and>
     (pl_new p \<longrightarrow> keys_len (be_km e) (pl_extent_id p) = 0)"

lemma append_next: "em_next_extent_id (snd (append_slot k n em)) = em_next_extent_id em"
  by (simp add: append_slot_def Let_def mark_dirty_def update_free_list_def set_entry_def split: option.split)

lemma append_block: "em_block_size (snd (append_slot k n em)) = em_block_size em"
  by (simp add: append_slot_def Let_def split: option.split)

lemma reserve_ok:
  assumes ok: "eng_ok ds (\<lambda>_. 0) e L" and r: "reserve eid sz e = (off, e')" and no: "off \<noteq> NO_SLOT"
    and sz: "unat sz < 2 ^ 31" and loc: "get_location (be_em e) eid = Some l" and new: "new \<Longrightarrow> keys_len (be_km e) eid = 0"
  shows "eng_ok ds ((\<lambda>_. 0)(eid := unat sz)) e' L" "moved 0 e e'" "be_journal e' = be_journal e"
    "placed sz \<lparr>pl_extent_id = eid, pl_offset = off, pl_loc = l, pl_new = new\<rparr> e'"
proof -
  obtain em' where a: "append_slot eid sz (be_em e) = (off, em')" "e' = e\<lparr>be_em := em'\<rparr>"
    using r by (auto simp: reserve_def split: prod.splits)
  have st: "store_ok ds (be_em e) (be_km e) (\<lambda>_. 0)" using ok by (simp add: eng_ok_def)
  note A = append_slot_ok [OF st a(1) no sz]
  show "be_journal e' = be_journal e" using a(2) by simp
  show "eng_ok ds ((\<lambda>_. 0)(eid := unat sz)) e' L" by (rule eng_em [OF ok]) (use A(1,4) a(2) in \<open>simp_all add: jkept_dev\<close>)
  show "moved 0 e e'"
    using A(2) a append_next [of eid sz "be_em e"] append_block [of eid sz "be_em e"] by (simp add: moved_def engine_same_def)
  obtain x x' where x: "em_lookup (be_em e) eid = Some x" "off = ee_used_bytes x" "em_lookup em' eid = Some x'"
    "ee_location x' = ee_location x" "unat (ee_used_bytes x') = unat off + unat sz" using A(3) by blast
  have "unat (kl_offset kl) + unat (kl_length kl) \<le> unat off"
    if "kl \<in> ran (km_lookup (be_km e))" "kl_extent_id kl = eid" for kl
    using eng_slots [OF ok] that x(1,2) by (auto simp: slot_ok_def)
  then show "placed sz \<lparr>pl_extent_id = eid, pl_offset = off, pl_loc = l, pl_new = new\<rparr> e'"
    using x loc a(2) new by (simp add: placed_def get_location_def)
qed

lemma reserve_fails:
  assumes "eng_ok ds (\<lambda>_. 0) e L" "reserve eid sz e = (NO_SLOT, e')"
  shows "e' = e"
  using assms append_slot_fails [of "be_em e" eid sz] by (auto simp: reserve_def eng_ok_def store_ok_def split: prod.splits)

lemma free_extent_ok:
  assumes ok: "eng_ok ds pend e L" and z: "keys_len (be_km e) eid = 0"
  shows "eng_ok ds (pend(eid := p)) (on_em (em_free eid) e) L" "moved 0 e (on_em (em_free eid) e)"
    "room ds n (on_em (em_free eid) e) = room ds n e"
proof -
  have st: "store_ok ds (be_em e) (be_km e) pend" using ok by (simp add: eng_ok_def)
  note F = free_ok [OF st z]
  show "eng_ok ds (pend(eid := p)) (on_em (em_free eid) e) L"
    by (rule eng_em [OF ok]) (simp_all add: on_em_def jkept_dev F(1,4))
  have "em_block_size (em_free eid (be_em e)) = em_block_size (be_em e)"
    by (simp add: em_free_def Let_def split: option.split)
  then show "moved 0 e (on_em (em_free eid) e)" using F(2) by (simp add: moved_def engine_same_def on_em_def)
  show "room ds n (on_em (em_free eid) e) = room ds n e" by (rule room_same) (simp add: on_em_def)
qed

text \<open>What placing a value yields.\<close>

definition outcome :: "u64 \<Rightarrow> u32 \<Rightarrow> int + placement \<Rightarrow> BtierEngine \<Rightarrow> txn list \<Rightarrow> bool" where
  "outcome ds sz r e L \<longleftrightarrow>
     (case r of
        Inl c \<Rightarrow> c \<in> {- ENOSPC, - EIO} \<and> eng_ok ds (\<lambda>_. 0) e L
      | Inr p \<Rightarrow> eng_ok ds ((\<lambda>_. 0)(pl_extent_id p := unat sz)) e L \<and> placed sz p e)"

lemma place_fresh_ok:
  assumes ok: "eng_ok ds (\<lambda>_. 0) e L" and room: "room ds (txn_cost key + n) e" and sz: "unat sz < 2 ^ 31"
    and xs: "0 < unat xs" "unat xs + unat (em_block_size (be_em e)) \<le> 2 ^ 31"
    and nw: "unat (em_next_extent_id (be_em e)) + 1 < 2 ^ 64"
  shows "\<exists>r e' pre. place_fresh xs sz e = Some (r, e') \<and> outcome ds sz r e' (L @ pre) \<and> extents_only pre \<and> room ds n e' \<and> moved 1 e e'"
proof -
  from fresh_extent_ok [OF ok room xs nw] obtain r e1 pre where F: "fresh_extent xs e = Some (r, e1)"
    "eng_ok ds (\<lambda>_. 0) e1 (L @ pre)" "extents_only pre" "room ds n e1" "moved 1 e e1"
    "r = Inl (- ENOSPC) \<or> (\<exists>eid l. r = Inr (eid, l) \<and> em_lookup (be_em e1) eid = Some (new_ExtentEntry l) \<and> keys_len (be_km e1) eid = 0)"
    by blast
  show ?thesis
  proof (cases r)
    case (Inl c)
    then have "place_fresh xs sz e = Some (Inl c, e1)" "c = - ENOSPC" using F(1,6) by (simp_all add: place_fresh_def)
    then show ?thesis using F(2-5) by (auto simp: outcome_def)
  next
    case (Inr x)
    then obtain eid l where x: "r = Inr (eid, l)" "em_lookup (be_em e1) eid = Some (new_ExtentEntry l)" "keys_len (be_km e1) eid = 0"
      using F(6) by auto
    obtain off e2 where v: "reserve eid sz e1 = (off, e2)" by fastforce
    have loc: "get_location (be_em e1) eid = Some l" using x(2) by (simp add: get_location_def new_ExtentEntry_def)
    show ?thesis
    proof (cases "off = NO_SLOT")
      case True
      then have e2: "e2 = e1" using reserve_fails [OF F(2)] v by simp
      let ?e = "on_em (em_free eid) e1"
      have z: "(\<lambda>_. 0) = ((\<lambda>_. 0 :: nat)(eid := 0))" by auto
      note R = free_extent_ok [OF F(2) x(3)]
      have "place_fresh xs sz e = Some (Inl (- EIO), ?e)" using F(1) x(1) v True e2 by (simp add: place_fresh_def)
      moreover have "outcome ds sz (Inl (- EIO)) ?e (L @ pre)" using R(1) [of 0] z by (simp add: outcome_def)
      moreover have "moved 1 e ?e" using moved_trans [OF F(5) R(2)] by simp
      ultimately show ?thesis using F(3,4) R(3) by blast
    next
      case False
      let ?p = "\<lparr>pl_extent_id = eid, pl_offset = off, pl_loc = l, pl_new = True\<rparr>"
      note R = reserve_ok [OF F(2) v False sz loc x(3)]
      have "place_fresh xs sz e = Some (Inr ?p, e2)" using F(1) x(1) v False by (simp add: place_fresh_def)
      moreover have "outcome ds sz (Inr ?p) e2 (L @ pre)" using R(1) R(4) [of True] by (simp add: outcome_def)
      moreover have "moved 1 e e2" using moved_trans [OF F(5) R(2)] by simp
      moreover have "room ds n e2" using room_same R(3) F(4) by blast
      ultimately show ?thesis using F(3) by blast
    qed
  qed
qed


definition put_fits :: "BtierEngine \<Rightarrow> bytes \<Rightarrow> bool" where
  "put_fits e val \<longleftrightarrow> val \<noteq> [] \<and> length val + 4096 + unat (em_block_size (be_em e)) \<le> 2 ^ 31 \<and>
     0 < unat (cfg_extent_size (be_cfg e)) \<and> unat (cfg_extent_size (be_cfg e)) + unat (em_block_size (be_em e)) \<le> 2 ^ 31 \<and>
     unat (em_next_extent_id (be_em e)) + 2 < 2 ^ 64"

text \<open>Trying once more with another extent.\<close>

lemma place_again:
  assumes mv: "moved i e e1" "i \<le> 1" and P: "\<exists>r e' pre. X = Some (r, e') \<and> outcome ds sz r e' ((L @ p0) @ pre) \<and> extents_only pre \<and> room ds n e' \<and> moved 1 e1 e'"
    and p0: "extents_only p0"
  shows "\<exists>r e' pre. X = Some (r, e') \<and> outcome ds sz r e' (L @ pre) \<and> extents_only pre \<and> room ds n e' \<and> moved 2 e e'"
proof -
  obtain r e' pre where R: "X = Some (r, e')" "outcome ds sz r e' (L @ (p0 @ pre))" "extents_only pre" "room ds n e'" "moved 1 e1 e'"
    using P by auto
  have "moved (i + 1) e e'" by (rule moved_trans [OF mv(1) R(5)])
  then have "moved 2 e e'" using mv(2) by (simp add: moved_def)
  then show ?thesis using R p0 by (intro exI [of _ r] exI [of _ e'] exI [of _ "p0 @ pre"]) simp
qed

lemma moved_mono: "moved i e e' \<Longrightarrow> i \<le> j \<Longrightarrow> moved j e e'"
  by (simp add: moved_def)

lemma place_small_ok:
  assumes ok: "eng_ok ds (\<lambda>_. 0) e L" and room: "room ds (2 * txn_cost key + n) e" and fit: "put_fits e val"
    and sz: "unat sz < 2 ^ 31"
  shows "\<exists>r e' pre. place_small sz e = Some (r, e') \<and> outcome ds sz r e' (L @ pre) \<and> extents_only pre \<and> room ds n e' \<and> moved 2 e e'"
proof -
  let ?xs = "cfg_extent_size (be_cfg e)" and ?t = "find_extent_with_space (be_em e) FAST sz"
  have xs: "0 < unat ?xs" "unat ?xs + unat (em_block_size (be_em e)) \<le> 2 ^ 31" "unat (em_next_extent_id (be_em e)) + 1 < 2 ^ 64"
    using fit by (simp_all add: put_fits_def)
  have rm2: "room ds (txn_cost key + (txn_cost key + n)) e" using room by (simp add: mult_2 add.assoc)
  have rm1: "room ds (txn_cost key + n) e" "room ds n e" using room room_less by simp_all
  show ?thesis
  proof (cases "?t = NO_EXTENT")
    case True
    from fresh_extent_ok [OF ok rm2 xs] obtain r e1 pre where F: "fresh_extent ?xs e = Some (r, e1)"
      "eng_ok ds (\<lambda>_. 0) e1 (L @ pre)" "extents_only pre" "room ds (txn_cost key + n) e1" "moved 1 e e1"
      "r = Inl (- ENOSPC) \<or> (\<exists>eid l. r = Inr (eid, l) \<and> em_lookup (be_em e1) eid = Some (new_ExtentEntry l) \<and> keys_len (be_km e1) eid = 0)"
      by blast
    have rn: "room ds n e1" using F(4) room_less by simp
    show ?thesis
    proof (cases r)
      case (Inl c)
      then have "place_small sz e = Some (Inl c, e1)" "c = - ENOSPC" using F(1,6) True by (simp_all add: place_small_def)
      then show ?thesis using F(2,3) rn moved_mono [OF F(5), of 2] by (auto simp: outcome_def)
    next
      case (Inr x)
      then obtain eid l where x: "r = Inr (eid, l)" "em_lookup (be_em e1) eid = Some (new_ExtentEntry l)" "keys_len (be_km e1) eid = 0"
        using F(6) by auto
      obtain off e2 where v: "reserve eid sz e1 = (off, e2)" by fastforce
      have loc: "get_location (be_em e1) eid = Some l" using x(2) by (simp add: get_location_def new_ExtentEntry_def)
      show ?thesis
      proof (cases "off = NO_SLOT")
        case ns: True
        then have e2: "e2 = e1" using reserve_fails [OF F(2)] v by simp
        let ?e = "on_em (em_free eid) e1"
        note R = free_extent_ok [OF F(2) x(3)]
        have z: "(\<lambda>_. 0) = ((\<lambda>_. 0 :: nat)(eid := 0))" by auto
        have mv: "moved 1 e ?e" using moved_trans [OF F(5) R(2)] by simp
        have same: "be_cfg ?e = be_cfg e" "em_block_size (be_em ?e) = em_block_size (be_em e)" "be_cfg e1 = be_cfg e"
          "unat (em_next_extent_id (be_em ?e)) \<le> unat (em_next_extent_id (be_em e)) + 1"
          using mv F(5) by (simp_all add: moved_def engine_same_def)
        have xs': "0 < unat ?xs" "unat ?xs + unat (em_block_size (be_em ?e)) \<le> 2 ^ 31" "unat (em_next_extent_id (be_em ?e)) + 1 < 2 ^ 64"
          using fit same(2,4) by (simp_all add: put_fits_def)
        have "place_small sz e = place_fresh ?xs sz ?e" using F(1) x(1) v ns e2 True same(3) by (simp add: place_small_def)
        moreover have ok': "eng_ok ds (\<lambda>_. 0) ?e (L @ pre)" using R(1) [of 0] z by simp
        moreover have "room ds (txn_cost key + n) ?e" using F(4) R(3) by simp
        ultimately show ?thesis using place_again [OF mv _ place_fresh_ok [OF ok' _ sz xs'] F(3)] by simp
      next
        case False
        let ?p = "\<lparr>pl_extent_id = eid, pl_offset = off, pl_loc = l, pl_new = True\<rparr>"
        note R = reserve_ok [OF F(2) v False sz loc x(3)]
        have "place_small sz e = Some (Inr ?p, e2)" using F(1) x(1) v False True by (simp add: place_small_def)
        moreover have "outcome ds sz (Inr ?p) e2 (L @ pre)" using R(1) R(4) [of True] by (simp add: outcome_def)
        moreover have "moved 2 e e2" using moved_mono [OF moved_trans [OF F(5) R(2)]] by simp
        moreover have "room ds n e2" using room_same R(3) rn by blast
        ultimately show ?thesis using F(3) by blast
      qed
    qed
  next
    case False
    show ?thesis
    proof (cases "get_location (be_em e) ?t")
      case None
      then have "place_small sz e = Some (Inl (- EIO), e)" using False by (simp add: place_small_def)
      then show ?thesis using ok rm1(2) moved_mono [OF moved_refl [OF ok], of 2]
        by (intro exI [of _ "Inl (- EIO)"] exI [of _ e] exI [of _ "[]"]) (simp add: outcome_def extents_only_def)
    next
      case (Some l)
      obtain off e2 where v: "reserve ?t sz e = (off, e2)" by fastforce
      show ?thesis
      proof (cases "off = NO_SLOT")
        case True
        then have "e2 = e" using reserve_fails [OF ok] v by simp
        then have "place_small sz e = place_fresh ?xs sz e" using Some v True False by (simp add: place_small_def)
        then show ?thesis
          using place_again [OF moved_refl [OF ok] _, of _ ds sz L "[]" n] place_fresh_ok [OF ok rm1(1) sz xs]
          by (simp add: extents_only_def)
      next
        case ns: False
        let ?p = "\<lparr>pl_extent_id = ?t, pl_offset = off, pl_loc = l, pl_new = False\<rparr>"
        note R = reserve_ok [OF ok v ns sz Some, of False]
        have "place_small sz e = Some (Inr ?p, e2)" using Some v ns False by (simp add: place_small_def)
        moreover have "outcome ds sz (Inr ?p) e2 (L @ [])" using R(1,4) by (simp add: outcome_def)
        moreover have "moved 2 e e2" using moved_mono [OF R(2)] by simp
        moreover have "room ds n e2" using room_same R(3) rm1(2) by blast
        moreover have "extents_only []" by (simp add: extents_only_def)
        ultimately show ?thesis by blast
      qed
    qed
  qed
qed

lemma value_len:
  assumes "length val < 2 ^ 31"
  shows "unat (value_size val) = length val" "unat (ucast (value_size val) :: u32) = length val"
  using assms by (simp_all add: value_size_def unat_ucast_64_32 unat_of_nat unsigned_ucast_eq take_bit_nat_eq_self)

lemma place_ok:
  assumes ok: "eng_ok ds (\<lambda>_. 0) e L" and room: "room ds (2 * txn_cost key + n) e" and fit: "put_fits e val"
  shows "\<exists>r e' pre. place val e = Some (r, e') \<and> outcome ds (ucast (value_size val)) r e' (L @ pre) \<and> extents_only pre \<and>
    room ds n e' \<and> moved 2 e e'"
proof (cases "value_size val \<ge> cfg_large_value_threshold (be_cfg e)")
  case True
  have len: "length val < 2 ^ 31" "length val \<noteq> 0" using fit by (simp_all add: put_fits_def)
  have "unat (value_size val + HEADER_SIZE64) = length val + 4096"
    using len by (subst unat_add_nowrap) (simp_all add: value_len HEADER_SIZE_def)
  then have xs: "0 < unat (value_size val + HEADER_SIZE64)"
    "unat (value_size val + HEADER_SIZE64) + unat (em_block_size (be_em e)) \<le> 2 ^ 31"
    "unat (em_next_extent_id (be_em e)) + 1 < 2 ^ 64" using fit by (simp_all add: put_fits_def)
  have "room ds (txn_cost key + n) e" using room room_less by simp
  from place_fresh_ok [OF ok this _ xs, of "ucast (value_size val)"] True len(1) value_len(2) [OF len(1)] moved_mono
  show ?thesis by (fastforce simp: place_def)
next
  case False
  have len: "length val < 2 ^ 31" using fit by (simp add: put_fits_def)
  from place_small_ok [OF ok room fit, of "ucast (value_size val)"] False len value_len(2) [OF len]
  show ?thesis by (simp add: place_def)
qed


section \<open>Writing a value\<close>

definition slot_of :: "placement \<Rightarrow> u32 \<Rightarrow> KeyLocation" where
  "slot_of p sz = \<lparr>kl_extent_id = pl_extent_id p, kl_offset = pl_offset p, kl_length = sz\<rparr>"

lemma slot_of_sel [simp]:
  "kl_extent_id (slot_of p sz) = pl_extent_id p" "kl_offset (slot_of p sz) = pl_offset p" "kl_length (slot_of p sz) = sz"
  by (simp_all add: slot_of_def)

lemma placed_slot: "placed sz p e \<Longrightarrow> sz \<noteq> 0 \<Longrightarrow> slot_ok (be_em e) (slot_of p sz)"
  by (auto simp: placed_def slot_ok_def)

text \<open>Slots that do not overlap as parts of extents do not overlap on a device.\<close>

lemma slots_disjoint:
  assumes inv: "em_inv em G" and g: "geom em" and a: "slot_ok em a" "em_lookup em (kl_extent_id a) = Some x"
    and b: "slot_ok em b" "em_lookup em (kl_extent_id b) = Some y"
    and t: "dl_tier (ee_location x) = dl_tier (ee_location y)" and ap: "apart a b"
  shows "slot_addr (ee_location x) a + unat (kl_length a) \<le> slot_addr (ee_location y) b \<or>
      slot_addr (ee_location y) b + unat (kl_length b) \<le> slot_addr (ee_location x) a"
proof -
  show ?thesis
  proof (cases "kl_extent_id a = kl_extent_id b")
    case True
    then show ?thesis using ap a(2) b(2) by (auto simp: apart_def slot_addr_def)
  next
    case False
    obtain al where al: "em_alloc em (dl_tier (ee_location x)) = Some al" using g a(2) unfolding geom_def by blast
    have dis: "range_space (loc_range (ee_location x)) \<inter> range_space (loc_range (ee_location y)) = {}"
      by (rule em_inv_disjoint(2) [OF inv al a(2) refl b(2) t [symmetric] False])
    have in_ext: "unat (dl_offset (ee_location z)) \<le> slot_addr (ee_location z) kl \<and> 0 < unat (kl_length kl) \<and>
        slot_addr (ee_location z) kl + unat (kl_length kl) \<le> unat (dl_offset (ee_location z)) + unat (dl_length (ee_location z))"
      if "slot_ok em kl" "em_lookup em (kl_extent_id kl) = Some z" for kl z
    proof -
      have s: "slot_ok em kl" by (rule that(1))
      obtain e where "em_lookup em (kl_extent_id kl) = Some e" "slot_addr (ee_location e) kl + unat (kl_length kl) \<le>
         unat (dl_offset (ee_location e)) + unat (dl_length (ee_location e))" using slot_facts [OF inv g s] by metis
      then show ?thesis using that by (auto simp: slot_addr_def slot_ok_def unat_gt_0)
    qed
    show ?thesis
    proof (rule ccontr)
      assume "\<not> ?thesis"
      then have "max (slot_addr (ee_location x) a) (slot_addr (ee_location y) b) \<in>
          range_space (loc_range (ee_location x)) \<inter> range_space (loc_range (ee_location y))"
        using in_ext [OF a] in_ext [OF b] by (auto simp: range_space_def loc_range_def)
      then show False using dis by blast
    qed
  qed
qed

lemma unat_add3:
  "unat (a :: u64) + unat b + unat c < 2 ^ 64 \<Longrightarrow> unat (a + b + c) = unat a + unat b + unat c"
  by (simp add: unat_add_nowrap)

lemma write_value_ok:
  fixes val :: bytes
  defines "sz \<equiv> ucast (value_size val) :: u32"
  assumes ok: "eng_ok ds pend e L" and p: "placed sz p e" and val: "val \<noteq> []" "length val < 2 ^ 31"
  shows "\<exists>e'. write_value p val e = Some (0, e') \<and> eng_ok ds pend e' L \<and> moved 0 e e' \<and> placed sz p e' \<and>
    be_journal e' = be_journal e \<and> slot_bytes (be_em e') (slot_of p sz) = val \<and> em_lookup (be_em e') = em_lookup (be_em e)"
proof -
  let ?em = "be_em e" and ?kl = "slot_of p sz"
  have st: "store_ok ds ?em (be_km e) pend" using ok by (simp add: eng_ok_def)
  then have inv: "em_inv ?em [journal_loc ds]" and g: "geom ?em" by (simp_all add: store_ok_def)
  have sz: "unat sz = length val" using value_len(2) [OF val(2)] by (simp add: sz_def)
  then have nz: "sz \<noteq> 0" using val(1) by auto
  have sl: "slot_ok ?em ?kl" by (rule placed_slot [OF p nz])
  from slot_facts [OF inv g sl] obtain x d where x: "em_lookup ?em (pl_extent_id p) = Some x"
    "em_dev ?em (dl_tier (ee_location x)) = Some d" "healthy d" "named_tier (dl_tier (ee_location x))"
    "slot_addr (ee_location x) ?kl + length val \<le> unat (dl_offset (ee_location x)) + unat (dl_length (ee_location x))"
    "unat (dl_offset (ee_location x)) + unat (dl_length (ee_location x)) \<le> unat (bd_size d)"
    by (metis slot_of_sel(1,3) sz)
  let ?l = "ee_location x" and ?off = "dl_offset (pl_loc p) + HEADER_SIZE64 + ucast (pl_offset p)"
  have l: "pl_loc p = ?l" using p x(1) by (auto simp: placed_def)
  have bs: "unat (bd_size d) < 2 ^ 63" using x(3) by (simp add: healthy_def)
  have adr: "unat ?off = slot_addr ?l ?kl"
    using x(5,6) bs by (subst unat_add3) (simp_all add: l slot_addr_def HEADER_SIZE_def unsigned_ucast_eq take_bit_nat_eq_self)
  have dt: "device_for (dl_tier ?l) = dl_tier ?l" using x(4) by (auto simp: device_for_def named_tier_def)
  let ?d = "wrote (slot_addr ?l ?kl) val True d"
  have w: "dev_write ?off val True d = (int (length val), ?d)"
    using dev_write_healthy [OF x(3), of ?off val True] adr x(5,6) val(2) by simp
  let ?em' = "add_block_device (dl_tier ?l) ?d ?em"
  let ?e = "e\<lparr>be_em := ?em'\<rparr>"
  have W: "write_value p val e = Some (0, ?e)" using x(2) w l dt by (simp add: write_value_def tier_write_def)
  have h: "healthy ?d" using x(3,5,6) by (intro healthy_wrote) simp_all
  have st': "store_ok ds ?em' (be_km e) pend" by (rule dev_swap [OF st x(4,2) h]) simp
  have jk: "jkept ds ?em ?em'"
  proof (cases "dl_tier ?l = FAST")
    case True
    obtain a where "em_alloc ?em FAST = Some a" using g unfolding geom_def named_tier_def by blast
    moreover have "4096 \<le> unat (dl_length ?l)" using g x(1) by (auto simp: geom_def entry_ok_def)
    moreover have "0 < unat ds" "unat ds < 2 ^ 31" using ok by (auto simp: eng_ok_def jlog_ok_def disk_ok_def)
    ultimately have "unat ds \<le> unat (dl_offset ?l)" using journal_behind [OF inv x(1) True] by blast
    then have "unat ds \<le> slot_addr ?l ?kl" by (simp add: slot_addr_def)
    then show ?thesis using True x(2) h bytes_at_wrote(2) by (auto simp: jkept_def)
  next
    case False
    then show ?thesis by (auto simp: jkept_def)
  qed
  have kp: "kept (ran (km_lookup (be_km e))) ?em ?em'"
  proof (rule write_kept [OF inv g eng_slots [OF ok] x(2), of _ ?d "slot_addr ?l ?kl" "length val"])
    show "bytes_at ?d b n = bytes_at d b n" if "b + n \<le> slot_addr ?l ?kl \<or> slot_addr ?l ?kl + length val \<le> b" for b n
      using that by (rule bytes_at_wrote(2))
    fix kl y assume k: "kl \<in> ran (km_lookup (be_km e))" "em_lookup ?em (kl_extent_id kl) = Some y" "dl_tier (ee_location y) = dl_tier ?l"
    have "apart kl ?kl" using p k(1) by (auto simp: placed_def apart_def)
    then show "slot_addr (ee_location y) kl + unat (kl_length kl) \<le> slot_addr ?l ?kl \<or>
        slot_addr ?l ?kl + length val \<le> slot_addr (ee_location y) kl"
      using slots_disjoint [OF inv g _ k(2) sl _ k(3)] eng_slots [OF ok] k(1) x(1) sz by auto
  qed simp_all
  have same: "em_lookup ?em' = em_lookup ?em" by simp
  have "slot_bytes ?em' ?kl = val"
    using x(1) bytes_at_wrote(1) [of "slot_addr ?l ?kl" val True d] sz by (simp add: slot_bytes_def)
  moreover have "eng_ok ds pend ?e L" by (rule eng_em [OF ok]) (simp_all add: jk st')
  moreover have "moved 0 e ?e" using kp by (simp add: moved_def engine_same_def add_block_device_def)
  moreover have "placed sz p ?e" using p same by (simp add: placed_def)
  ultimately show ?thesis using W same by (intro exI [of _ ?e]) simp
qed


section \<open>Keys\<close>

text \<open>What remains of the budgets of an engine.\<close>

definition grown :: "nat \<Rightarrow> BtierEngine \<Rightarrow> BtierEngine \<Rightarrow> bool" where
  "grown k e e' \<longleftrightarrow> be_cfg e' = be_cfg e \<and> em_block_size (be_em e') = em_block_size (be_em e) \<and>
     unat (em_next_extent_id (be_em e')) \<le> unat (em_next_extent_id (be_em e)) + k"

lemma grown_trans: "grown i a b \<Longrightarrow> grown j b c \<Longrightarrow> grown (i + j) a c"
  by (auto simp: grown_def)

lemma moved_grown: "moved k e e' \<Longrightarrow> grown k e e'"
  by (simp add: moved_def grown_def engine_same_def)

lemma frame_next [simp]:
  "em_next_extent_id (mark_dead_slot k n em) = em_next_extent_id em" "em_block_size (mark_dead_slot k n em) = em_block_size em"
  "em_next_extent_id (record_io k io now em) = em_next_extent_id em" "em_block_size (record_io k io now em) = em_block_size em"
  "em_next_extent_id (release_dead kl em) = em_next_extent_id em" "em_block_size (release_dead kl em) = em_block_size em"
proof -
  show m: "em_next_extent_id (mark_dead_slot k n em) = em_next_extent_id em" "em_block_size (mark_dead_slot k n em) = em_block_size em"
    for k n by (simp_all add: mark_dead_slot_def Let_def mark_dirty_def set_entry_def update_free_list_def split: option.split)
  show "em_next_extent_id (record_io k io now em) = em_next_extent_id em" "em_block_size (record_io k io now em) = em_block_size em"
    by (simp_all add: record_io_def Let_def set_entry_def split: option.split)
  have "em_block_size (em_free k em1) = em_block_size em1" for k em1 by (simp add: em_free_def Let_def split: option.split)
  then show "em_next_extent_id (release_dead kl em) = em_next_extent_id em" "em_block_size (release_dead kl em) = em_block_size em"
    using m by (simp_all add: release_dead_def Let_def)
qed

text \<open>Operations that change neither the place nor the counts of an extent.\<close>

definition touched :: "ExtentMap \<Rightarrow> ExtentMap \<Rightarrow> bool" where
  "touched em em' \<longleftrightarrow> em' = em \<or> (\<exists>k x x'. em_lookup em k = Some x \<and> em' = set_entry k x' em \<and> ee_location x' = ee_location x \<and>
     ee_used_bytes x' = ee_used_bytes x \<and> ee_live_bytes x' = ee_live_bytes x)"

lemma touched_ops:
  "touched em (record_io k io now em)" "touched em (io_ref_inc k em)" "touched em (io_ref_dec k em)"
  by (force simp: touched_def record_io_def io_ref_inc_def io_ref_dec_def Let_def split: option.split)+

lemma touched_ok:
  assumes ok: "store_ok ds em km pend" and t: "touched em em'"
  shows "store_ok ds em' km pend" "kept {kl. slot_ok em kl} em em'" "em_dev em' = em_dev em"
proof -
  have o: "em_inv em [journal_loc ds]" "geom em" "keys_ok em km pend" using ok by (simp_all add: store_ok_def)
  have "store_ok ds em' km pend \<and> kept {kl. slot_ok em kl} em em' \<and> em_dev em' = em_dev em"
  proof (cases "em' = em")
    case False
    then obtain k x x' where x: "em_lookup em k = Some x" "em' = set_entry k x' em" "ee_location x' = ee_location x"
      "ee_used_bytes x' = ee_used_bytes x" "ee_live_bytes x' = ee_live_bytes x" using t by (auto simp: touched_def)
    have ent: "entry_ok x'" using o(2) x(1,3-5) by (auto simp: geom_def entry_ok_def)
    have s: "em_lookup em' = (em_lookup em)(k \<mapsto> x')" "em_dev em' = em_dev em" "em_alloc em' = em_alloc em"
      "em_block_size em' = em_block_size em" using x(2) by simp_all
    have U: "geom em'" "kept {kl. slot_ok em kl} em em'" using entry_update [OF o(2) _ x(1,3) _ ent s, of "{kl. slot_ok em kl}"] x(4) by simp_all
    have "kept (ran (km_lookup km)) em em'" using kept_mono [OF U(2)] keys_ok_slots [OF o(3)] by blast
    from live_update [OF o(3) x(1) s(1) this, of "pend k"] have "keys_ok em' km pend"
      using x(5) keys_ok_live [OF o(3) x(1)] by simp
    then show ?thesis using U s em_inv_quiet [OF o(1) quiet_set_entry [OF x(1,3)]] x(2) by (simp add: store_ok_def)
  qed (use ok in \<open>simp add: kept_def\<close>)
  then show "store_ok ds em' km pend" "kept {kl. slot_ok em kl} em em'" "em_dev em' = em_dev em" by blast+
qed

lemma touched_step:
  assumes ok: "eng_ok ds pend e L" and t: "touched (be_em e) (f (be_em e))"
  shows "eng_ok ds pend (on_em f e) L"
  by (rule eng_em [OF ok]) (use touched_ok [OF _ t] ok in \<open>auto simp: on_em_def jkept_dev eng_ok_def\<close>)

lemma key_put_ok:
  assumes ok: "store_ok ds em km ((\<lambda>_. 0)(kl_extent_id kl := unat (kl_length kl)))" and sl: "slot_ok em kl"
    and ap: "\<And>k' kl'. km_lookup km k' = Some kl' \<Longrightarrow> apart kl' kl"
  shows "store_ok ds em (km_put km key kl lba) (share (km_lookup km key))"
proof -
  have o: "em_inv em [journal_loc ds]" "geom em" "keys_ok em km ((\<lambda>_. 0)(kl_extent_id kl := unat (kl_length kl)))"
    using ok by (simp_all add: store_ok_def)
  have inv: "km_inv km" using o(3) by (simp add: keys_ok_def)
  have live: "unat (ee_live_bytes x) = keys_len (km_put km key kl lba) eid + share (km_lookup km key) eid"
    if "em_lookup em eid = Some x" for eid x
    using keys_ok_live [OF o(3) that] keys_len_put [OF inv, of key kl lba eid] by (auto simp: share_def)
  have sym: "apart a b \<Longrightarrow> apart b a" for a b by (auto simp: apart_def)
  have "keys_ok em (km_put km key kl lba) (share (km_lookup km key))"
    using o(3) km_inv_put [OF inv] sl ap sym live unfolding keys_ok_def
    by (simp add: km_lookup_put)
  then show ?thesis using o by (simp add: store_ok_def)
qed

lemma key_erase_ok:
  assumes ok: "store_ok ds em km (\<lambda>_. 0)"
  shows "store_ok ds em (km_erase km key) (share (km_lookup km key))"
proof -
  have o: "em_inv em [journal_loc ds]" "geom em" "keys_ok em km (\<lambda>_. 0)" using ok by (simp_all add: store_ok_def)
  have inv: "km_inv km" using o(3) by (simp add: keys_ok_def)
  have live: "unat (ee_live_bytes x) = keys_len (km_erase km key) eid + share (km_lookup km key) eid"
    if "em_lookup em eid = Some x" for eid x
    using keys_ok_live [OF o(3) that] keys_len_erase [OF inv, of key eid] by simp
  have "keys_ok em (km_erase km key) (share (km_lookup km key))"
    using o(3) km_inv_erase [OF inv] live unfolding keys_ok_def by (simp add: km_lookup_erase)
  then show ?thesis using o by (simp add: store_ok_def)
qed

lemma release_dead_ok:
  assumes ok: "store_ok ds em km (share (Some ol))" and sl: "slot_ok em ol"
  shows "store_ok ds (release_dead ol em) km (\<lambda>_. 0)" "kept (ran (km_lookup km)) em (release_dead ol em)"
    "em_dev (release_dead ol em) = em_dev em"
proof -
  let ?k = "kl_extent_id ol" and ?n = "kl_length ol"
  let ?em = "mark_dead_slot ?k ?n em"
  obtain x where x: "em_lookup em ?k = Some x" using sl by (auto simp: slot_ok_def)
  have n: "unat ?n \<le> share (Some ol) ?k" by (simp add: share_def)
  note M = mark_dead_ok [OF ok x n]
  have z: "(share (Some ol))(?k := share (Some ol) ?k - unat ?n) = (\<lambda>_. 0)" by (auto simp: share_def)
  have ok1: "store_ok ds ?em km (\<lambda>_. 0)" using M(1) z by simp
  have dv: "em_dev ?em = em_dev em" using x by (simp add: mark_dead_slot_def Let_def)
  have "store_ok ds (release_dead ol em) km (\<lambda>_. 0) \<and> kept (ran (km_lookup km)) em (release_dead ol em) \<and>
      em_dev (release_dead ol em) = em_dev em"
  proof (cases "get_live_bytes ?em ?k = 0")
    case True
    obtain x' where "em_lookup ?em ?k = Some x'" "unat (ee_live_bytes x') = keys_len km ?k + (share (Some ol) ?k - unat ?n)"
      using M(3) by auto
    then have "keys_len km ?k = 0" using True by (simp add: get_live_bytes_def)
    note F = free_ok [OF ok1 this]
    have "(\<lambda>_. 0)(?k := 0) = (\<lambda>_. 0 :: nat)" by auto
    then show ?thesis
      using F(1) [of 0] F(2,4) dv kept_trans [OF M(2)] True by (simp add: release_dead_def Let_def)
  next
    case False
    then show ?thesis
      using ok1 M(2) dv by (simp add: release_dead_def Let_def)
  qed
  then show "store_ok ds (release_dead ol em) km (\<lambda>_. 0)" "kept (ran (km_lookup km)) em (release_dead ol em)"
    "em_dev (release_dead ol em) = em_dev em" by blast+
qed

lemma share_None: "share None = (\<lambda>_. 0)"
  by (simp add: share_def fun_eq_iff)

lemma contents_put: "contents em (km_put km key kl lba) = (contents em km)(key \<mapsto> slot_bytes em kl)"
  by (auto simp: contents_def km_lookup_put fun_eq_iff)

lemma contents_erase: "contents em (km_erase km key) = (contents em km)(key := None)"
  by (auto simp: contents_def km_lookup_erase fun_eq_iff)

definition stored :: "BtierEngine \<Rightarrow> bytes \<rightharpoonup> bytes" where
  "stored e = contents (be_em e) (be_km e)"

lemma moved_stored: "moved k e e' \<Longrightarrow> stored e' = stored e"
  using contents_kept by (auto simp: moved_def engine_same_def stored_def)


lemma finish_put_ok:
  fixes val :: bytes
  defines "sz \<equiv> ucast (value_size val) :: u32"
  assumes ok: "eng_ok ds ((\<lambda>_. 0)(pl_extent_id p := unat sz)) e L" and p: "placed sz p e" and nz: "sz \<noteq> 0"
    and key: "length key < 2 ^ 32" and room: "room ds (txn_cost key + n) e" and old: "old = km_lookup (be_km e) key"
  shows "\<exists>e' tid pre. finish_put now key val old p e = Some (0, e') \<and> eng_ok ds (\<lambda>_. 0) e'
      (L @ [(tid, stamped tid (pre @ [put_record key (slot_of p sz)]), False)]) \<and> (\<forall>rec \<in> set pre. jr_op rec = OP_MARK_DEAD) \<and>
    stored e' = (stored e)(key \<mapsto> slot_bytes (be_em e) (slot_of p sz)) \<and> km_lookup (be_km e') key = Some (slot_of p sz) \<and>
    room ds n e' \<and> grown 0 e e'"
proof -
  let ?kl = "slot_of p sz"
  let ?dead = "case old of None \<Rightarrow> [] | Some ol \<Rightarrow> [dead_record ol]"
  let ?recs = "?dead @ [put_record key ?kl]" and ?e1 = "on_em (record_io (pl_extent_id p) WRITE now) e"
  let ?K = "{kl. slot_ok (be_em e) kl}"
  have rec: "\<forall>rec \<in> set ?recs. storable rec \<and> data_op rec"
    using key by (auto simp: storable_def data_op_def put_record_def dead_record_def new_record_def
        default_DiskLocation_def named_tier_def split: option.split)
  have len: "length (frame (tid, stamped tid ?recs, False)) \<le> txn_cost key" for tid
    using txn_costs(2,3) by (simp split: option.split)
  have t1: "eng_ok ds ((\<lambda>_. 0)(pl_extent_id p := unat sz)) ?e1 L" using touched_step [OF ok] touched_ops(1) by blast
  have k1: "kept ?K (be_em e) (be_em ?e1)"
    using touched_ok(2) [OF _ touched_ops(1)] ok by (auto simp: on_em_def eng_ok_def)
  have km1: "be_km ?e1 = be_km e" "be_journal ?e1 = be_journal e" by (simp_all add: on_em_def)
  have rm: "room ds (txn_cost key + n) ?e1" using room by (simp add: room_same [OF km1(2)])
  from txn_step [OF t1 rec len rm] obtain e2 tid where T: "on_journal (run_txn ?recs) ?e1 = Some (0, e2)"
    "eng_ok ds ((\<lambda>_. 0)(pl_extent_id p := unat sz)) e2 (L @ [(tid, stamped tid ?recs, False)])" "room ds n e2" "engine_same ?e1 e2"
    "kept {kl. slot_ok (be_em ?e1) kl} (be_em ?e1) (be_em e2)" "em_next_extent_id (be_em e2) = em_next_extent_id (be_em ?e1)" by auto
  have k2: "kept ?K (be_em e) (be_em e2)" by (rule kept_trans [OF k1 kept_mono [OF T(5)]]) (use k1 in \<open>auto simp: kept_def\<close>)
  have km2: "be_km e2 = be_km e" using T(4) km1 by (simp add: engine_same_def)
  have sl: "slot_ok (be_em e) ?kl" by (rule placed_slot [OF p nz])
  then have sl2: "slot_ok (be_em e2) ?kl" "slot_bytes (be_em e2) ?kl = slot_bytes (be_em e) ?kl" using k2 by (auto simp: kept_def)
  have st2: "stored e2 = stored e"
    using contents_kept [OF kept_mono [OF k2]] eng_slots [OF ok] km2 by (auto simp: stored_def)
  have ap: "apart kl' ?kl" if "km_lookup (be_km e) k' = Some kl'" for k' kl'
    using p that ranI [of "km_lookup (be_km e)" k' kl'] by (auto simp: placed_def apart_def)
  let ?lba = "dl_offset (pl_loc p) + HEADER_SIZE64 + ucast (pl_offset p)"
  let ?km = "km_put (be_km e) key ?kl ?lba"
  let ?e4 = "e2\<lparr>be_km := ?km\<rparr>"
  let ?e5 = "case old of None \<Rightarrow> ?e4 | Some ol \<Rightarrow> on_em (release_dead ol) ?e4"
  have F: "finish_put now key val old p e = Some (0, ?e5)"
    using T(1) no_checkpoint(1) [OF T(2) room_less [OF T(3)]] km2 by (simp add: finish_put_def Let_def sz_def [symmetric] slot_of_def [symmetric])
  have st4: "store_ok ds (be_em e2) ?km (share old)"
    using key_put_ok [of ds "be_em e2" "be_km e" ?kl key ?lba] T(2) sl2(1) ap km2 old by (simp add: eng_ok_def)
  have stored4: "stored ?e4 = (stored e)(key \<mapsto> slot_bytes (be_em e) ?kl)"
    using contents_put [of "be_em e2" "be_km e" key ?kl ?lba] sl2(2) st2 km2 by (simp add: stored_def)
  have fin: "store_ok ds (be_em ?e5) ?km (\<lambda>_. 0) \<and> em_dev (be_em ?e5) = em_dev (be_em e2) \<and> be_km ?e5 = ?km \<and>
      be_journal ?e5 = be_journal e2 \<and> be_initialized ?e5 = be_initialized e2 \<and> stored ?e5 = stored ?e4 \<and>
      grown 0 e2 ?e5"
  proof (cases old)
    case None
    then show ?thesis using st4 by (simp add: share_None grown_def)
  next
    case (Some ol)
    have "slot_ok (be_em e) ol" using eng_slots [OF ok] old Some ranI [of "km_lookup (be_km e)" key ol] by auto
    then have "slot_ok (be_em e2) ol" using k2 by (auto simp: kept_def)
    note R = release_dead_ok [OF st4 [unfolded Some] this]
    then show ?thesis using Some contents_kept [OF R(2)] by (simp add: on_em_def stored_def grown_def)
  qed
  show ?thesis
  proof (intro exI [of _ ?e5] exI [of _ tid] exI [of _ ?dead] conjI)
    show "finish_put now key val old p e = Some (0, ?e5)" by (rule F)
    show "eng_ok ds (\<lambda>_. 0) ?e5 (L @ [(tid, stamped tid ?recs, False)])"
      by (rule eng_em [OF T(2)]) (use fin in \<open>simp_all add: jkept_dev\<close>)
    show "\<forall>rec \<in> set ?dead. jr_op rec = OP_MARK_DEAD" by (cases old) (simp_all add: dead_record_def new_record_def)
    show "stored ?e5 = (stored e)(key \<mapsto> slot_bytes (be_em e) ?kl)" using fin stored4 by simp
    show "km_lookup (be_km ?e5) key = Some ?kl" using fin by (simp add: km_lookup_put)
    show "room ds n ?e5" using T(3) room_same fin by blast
    have "grown 0 e e2" using T(4,6) by (simp add: grown_def engine_same_def on_em_def)
    then show "grown 0 e ?e5" using grown_trans [of 0 e e2 0] fin by simp
  qed
qed

text \<open>The records a successful \<open>put\<close> leaves in the journal.\<close>

definition put_logged :: "bytes \<Rightarrow> KeyLocation \<Rightarrow> txn list \<Rightarrow> bool" where
  "put_logged key kl new \<longleftrightarrow> (\<exists>pre tid recs. extents_only pre \<and> (\<forall>rec \<in> set recs. jr_op rec = OP_MARK_DEAD) \<and> new = pre @ [(tid, stamped tid (recs @ [put_record key kl]), False)])"

lemma put_ok:
  assumes ok: "eng_ok ds (\<lambda>_. 0) e L" and room: "room ds (3 * txn_cost key + n) e" and fit: "put_fits e val" "length key < 2 ^ 32"
  shows "\<exists>r e' new. put now key val e = Some (r, e') \<and> eng_ok ds (\<lambda>_. 0) e' (L @ new) \<and> room ds n e' \<and> grown 2 e e' \<and>
    (\<forall>p e1. place val e = Some (Inr p, e1) \<longrightarrow> r = 0) \<and>
    (r = 0 \<and> stored e' = (stored e)(key \<mapsto> val) \<and> (\<exists>kl. put_logged key kl new \<and> km_lookup (be_km e') key = Some kl) \<or>
     r \<in> {- ENOSPC, - EIO} \<and> stored e' = stored e)"
proof -
  let ?sz = "ucast (value_size val) :: u32"
  have len: "val \<noteq> []" "length val < 2 ^ 31" using fit(1) by (simp_all add: put_fits_def)
  have nz: "?sz \<noteq> 0" using value_len(2) [OF len(2)] len(1) by (metis length_0_conv unat_0)
  have ini: "be_initialized e" using ok by (simp add: eng_ok_def)
  have ck: "checkpoint_if is_near_full e = Some e" using no_checkpoint(2) [OF ok room_less [OF room]] by simp
  have rm: "room ds (2 * txn_cost key + (txn_cost key + n)) e" using room by simp
  from place_ok [OF ok rm fit(1)] obtain r e1 pre where P: "place val e = Some (r, e1)" "outcome ds ?sz r e1 (L @ pre)"
    "extents_only pre" "room ds (txn_cost key + n) e1" "moved 2 e e1" by blast
  have s1: "stored e1 = stored e" by (rule moved_stored [OF P(5)])
  have km1: "be_km e1 = be_km e" using P(5) by (simp add: moved_def engine_same_def)
  show ?thesis
  proof (cases r)
    case (Inl c)
    then have "put now key val e = Some (c, e1)" using ini ck P(1) by (simp add: put_def)
    moreover have "c \<in> {- ENOSPC, - EIO}" "eng_ok ds (\<lambda>_. 0) e1 (L @ pre)" using P(2) Inl by (simp_all add: outcome_def)
    moreover have "place val e \<noteq> Some (Inr p, e2)" for p e2 using P(1) Inl by simp
    moreover have "room ds n e1" using room_less [OF P(4)] by simp
    ultimately show ?thesis using s1 moved_grown [OF P(5)]
      by (intro exI [of _ c] exI [of _ e1] exI [of _ pre]) blast
  next
    case (Inr p)
    then have o: "eng_ok ds ((\<lambda>_. 0)(pl_extent_id p := unat ?sz)) e1 (L @ pre)" "placed ?sz p e1"
      using P(2) by (simp_all add: outcome_def)
    from write_value_ok [OF o len] obtain e2 where W: "write_value p val e1 = Some (0, e2)"
      "eng_ok ds ((\<lambda>_. 0)(pl_extent_id p := unat ?sz)) e2 (L @ pre)" "moved 0 e1 e2" "placed ?sz p e2" "be_journal e2 = be_journal e1"
      "slot_bytes (be_em e2) (slot_of p ?sz) = val" by blast
    have rm2: "room ds (txn_cost key + n) e2" using P(4) by (simp add: room_same [OF W(5)])
    have km2: "be_km e2 = be_km e" using W(3) km1 by (simp add: moved_def engine_same_def)
    from finish_put_ok [OF W(2,4) nz fit(2) rm2 refl, of now] obtain e' tid recs where
      F: "finish_put now key val (km_lookup (be_km e) key) p e2 = Some (0, e')"
      "eng_ok ds (\<lambda>_. 0) e' ((L @ pre) @ [(tid, stamped tid (recs @ [put_record key (slot_of p ?sz)]), False)])"
      "stored e' = (stored e2)(key \<mapsto> val)" "km_lookup (be_km e') key = Some (slot_of p ?sz)" "room ds n e'" "grown 0 e2 e'"
      "\<forall>rec \<in> set recs. jr_op rec = OP_MARK_DEAD"
      using W(6) km2 by auto
    have "put now key val e = Some (0, e')" using ini ck P(1) Inr W(1) F(1) by (simp add: put_def)
    moreover have "stored e' = (stored e)(key \<mapsto> val)" using F(3) moved_stored [OF W(3)] s1 by simp
    moreover have "grown 2 e e'" using grown_trans [OF grown_trans [OF moved_grown [OF P(5)] moved_grown [OF W(3)]] F(6)] by simp
    moreover have "put_logged key (slot_of p ?sz) (pre @ [(tid, stamped tid (recs @ [put_record key (slot_of p ?sz)]), False)])"
      using P(3) F(7) unfolding put_logged_def by blast
    ultimately show ?thesis using F(2,4,5)
      by (intro exI [of _ 0] exI [of _ e'] exI [of _ "pre @ [(tid, stamped tid (recs @ [put_record key (slot_of p ?sz)]), False)]"]) auto
  qed
qed


section \<open>Reading and deleting\<close>

lemma touched_moved:
  assumes ok: "eng_ok ds pend e L" and t: "touched (be_em e) em'"
    and em': "em_next_extent_id em' = em_next_extent_id (be_em e)" "em_block_size em' = em_block_size (be_em e)"
  shows "eng_ok ds pend (e\<lparr>be_em := em'\<rparr>) L" "moved 0 e (e\<lparr>be_em := em'\<rparr>)"
proof -
  have st: "store_ok ds (be_em e) (be_km e) pend" using ok by (simp add: eng_ok_def)
  show "eng_ok ds pend (e\<lparr>be_em := em'\<rparr>) L"
    by (rule eng_em [OF ok]) (use touched_ok [OF st t] in \<open>simp_all add: jkept_dev\<close>)
  have "kept (ran (km_lookup (be_km e))) (be_em e) em'"
    using kept_mono [OF touched_ok(2) [OF st t]] eng_slots [OF ok] by blast
  then show "moved 0 e (e\<lparr>be_em := em'\<rparr>)" using em' by (simp add: moved_def engine_same_def)
qed

lemma io_ref_sel [simp]:
  "em_next_extent_id (io_ref_inc k em) = em_next_extent_id em" "em_block_size (io_ref_inc k em) = em_block_size em"
  "em_next_extent_id (io_ref_dec k em) = em_next_extent_id em" "em_block_size (io_ref_dec k em) = em_block_size em"
  "em_dev (io_ref_inc k em) = em_dev em" "em_dev (record_io k io now em) = em_dev em"
  by (simp_all add: io_ref_inc_def io_ref_dec_def record_io_def set_entry_def Let_def split: option.split)

lemma same_device: "em_dev em t = Some d \<Longrightarrow> add_block_device t d em = em"
  by (simp add: add_block_device_def map_upd_triv)

text \<open>Reading a slot.\<close>

lemma tier_read_slot:
  assumes inv: "em_inv em G" and g: "geom em" and sl: "slot_ok em kl" and x: "em_lookup em (kl_extent_id kl) = Some x"
  shows "tier_read (dl_tier (ee_location x)) (dl_offset (ee_location x) + HEADER_SIZE64 + ucast (kl_offset kl))
    (ucast (kl_length kl)) em = Some (int (unat (kl_length kl)), slot_bytes em kl, em)"
proof -
  from slot_facts [OF inv g sl] x obtain d where d: "em_dev em (dl_tier (ee_location x)) = Some d" "healthy d"
    "named_tier (dl_tier (ee_location x))" "entry_ok x" "unat (kl_offset kl) + unat (kl_length kl) \<le> unat (ee_used_bytes x)"
    "slot_addr (ee_location x) kl + unat (kl_length kl) \<le> unat (dl_offset (ee_location x)) + unat (dl_length (ee_location x))"
    "unat (dl_offset (ee_location x)) + unat (dl_length (ee_location x)) \<le> unat (bd_size d)"
    "slot_bytes em kl = bytes_at d (slot_addr (ee_location x) kl) (unat (kl_length kl))" by (metis option.inject)
  have bs: "unat (bd_size d) < 2 ^ 63" using d(2) by (simp add: healthy_def)
  let ?off = "dl_offset (ee_location x) + HEADER_SIZE64 + ucast (kl_offset kl)"
  have adr: "unat ?off = slot_addr (ee_location x) kl"
    using d(6,7) bs by (subst unat_add3) (simp_all add: slot_addr_def HEADER_SIZE_def)
  have dt: "device_for (dl_tier (ee_location x)) = dl_tier (ee_location x)" using d(3) by (auto simp: device_for_def named_tier_def)
  have "unat (kl_length kl) < 2 ^ 31" using used_small [OF g x] d(5) by simp
  then have "dev_read ?off (ucast (kl_length kl)) True d = (int (unat (kl_length kl)), slot_bytes em kl, d)"
    using dev_read_healthy [OF d(2), of ?off "ucast (kl_length kl)" True] adr d(6,7,8) by simp
  then show ?thesis using d(1) dt same_device [OF d(1)] by (simp add: tier_read_def)
qed

lemma get_ok:
  assumes ok: "eng_ok ds (\<lambda>_. 0) e L"
  shows "\<exists>r v e'. get now key e = Some (r, v, e') \<and> eng_ok ds (\<lambda>_. 0) e' L \<and> moved 0 e e' \<and> be_journal e' = be_journal e \<and>
    (r, v) = (case stored e key of None \<Rightarrow> (- ENOENT, []) | Some val \<Rightarrow> (0, val))"
proof (cases "km_lookup (be_km e) key")
  case None
  have "be_initialized e" using ok by (simp add: eng_ok_def)
  then have "get now key e = Some (- ENOENT, [], e)" using None by (simp add: get_def)
  moreover have "stored e key = None" using None by (simp add: stored_def contents_def)
  ultimately show ?thesis using ok moved_refl [OF ok] by auto
next
  case (Some kl)
  let ?k = "kl_extent_id kl" and ?em1 = "record_io (kl_extent_id kl) READ now (be_em e)"
  let ?em2 = "io_ref_inc ?k ?em1"
  let ?e1 = "e\<lparr>be_em := ?em1\<rparr>" and ?e2 = "e\<lparr>be_em := ?em2\<rparr>" and ?e3 = "e\<lparr>be_em := io_ref_dec ?k ?em2\<rparr>"
  have T1: "eng_ok ds (\<lambda>_. 0) ?e1 L" "moved 0 e ?e1" using touched_moved [OF ok touched_ops(1)] by simp_all
  have T2: "eng_ok ds (\<lambda>_. 0) ?e2 L" "moved 0 ?e1 ?e2" using touched_moved [OF T1(1), of ?em2] touched_ops(2) by simp_all
  have T3: "eng_ok ds (\<lambda>_. 0) ?e3 L" "moved 0 ?e2 ?e3" using touched_moved [OF T2(1), of "io_ref_dec ?k ?em2"] touched_ops(3) by simp_all
  have m2: "moved 0 e ?e2" using moved_trans [OF T1(2) T2(2)] by simp
  then have mv: "moved 0 e ?e3" using moved_trans [OF _ T3(2)] by fastforce
  have sl: "slot_ok (be_em e) kl" using eng_slots [OF ok] Some by (auto simp: ran_def)
  then obtain x where x: "em_lookup (be_em e) ?k = Some x" by (auto simp: slot_ok_def)
  have "kl \<in> ran (km_lookup (be_km e))" using Some by (auto simp: ran_def)
  then have sl2: "slot_ok ?em2 kl" "slot_bytes ?em2 kl = slot_bytes (be_em e) kl" using m2 by (auto simp: moved_def kept_def)
  obtain x' where x': "em_lookup ?em2 ?k = Some x'" "ee_location x' = ee_location x"
    using x by (auto simp: io_ref_inc_def record_io_def Let_def)
  have "em_inv ?em2 [journal_loc ds]" "geom ?em2" using T2(1) by (simp_all add: eng_ok_def store_ok_def)
  note R = tier_read_slot [OF this sl2(1) x'(1)]
  have ini: "be_initialized e" using ok by (simp add: eng_ok_def)
  have "get now key e = Some (0, slot_bytes (be_em e) kl, ?e3)"
    using Some ini x x'(2) R sl2(2) by (simp add: get_def get_location_def Let_def)
  moreover have "stored e key = Some (slot_bytes (be_em e) kl)" using Some by (simp add: stored_def contents_def)
  ultimately show ?thesis using T3(1) mv by auto
qed

lemma del_ok:
  assumes ok: "eng_ok ds (\<lambda>_. 0) e L" and room: "room ds (txn_cost key + n) e" and key: "length key < 2 ^ 32"
  shows "\<exists>r e' new. del key e = Some (r, e') \<and> eng_ok ds (\<lambda>_. 0) e' (L @ new) \<and> room ds n e' \<and> grown 0 e e' \<and>
    r = (if stored e key = None then - ENOENT else 0) \<and> stored e' = (stored e)(key := None) \<and>
    (r = 0 \<longrightarrow> (\<exists>tid ol. new = [(tid, stamped tid [del_record key, dead_record ol], False)]))"
proof (cases "km_lookup (be_km e) key")
  case None
  have "be_initialized e" using ok by (simp add: eng_ok_def)
  then have "del key e = Some (- ENOENT, e)" using None by (simp add: del_def)
  moreover have "stored e key = None" using None by (simp add: stored_def contents_def)
  ultimately show ?thesis using ok room_less [OF room] moved_grown [OF moved_refl [OF ok]]
    by (intro exI [of _ "- ENOENT"] exI [of _ e] exI [of _ "[]"]) (auto simp: errno_defs)
next
  case (Some ol)
  let ?recs = "[del_record key, dead_record ol]"
  have ini: "be_initialized e" using ok by (simp add: eng_ok_def)
  have rec: "\<forall>rec \<in> set ?recs. storable rec \<and> data_op rec"
    using key by (simp add: storable_def data_op_def del_record_def dead_record_def new_record_def default_DiskLocation_def named_tier_def)
  from txn_step [OF ok rec txn_costs(4) room] obtain e1 tid where T: "on_journal (run_txn ?recs) e = Some (0, e1)"
    "eng_ok ds (\<lambda>_. 0) e1 (L @ [(tid, stamped tid ?recs, False)])" "room ds n e1" "engine_same e e1"
    "kept {kl. slot_ok (be_em e) kl} (be_em e) (be_em e1)" "em_next_extent_id (be_em e1) = em_next_extent_id (be_em e)" by auto
  let ?e2 = "e1\<lparr>be_km := km_erase (be_km e1) key\<rparr>"
  let ?e3 = "on_em (release_dead ol) ?e2"
  have km: "be_km e1 = be_km e" using T(4) by (simp add: engine_same_def)
  have ol: "slot_ok (be_em e1) ol" using eng_slots [OF T(2)] Some km by (auto simp: ran_def)
  have "store_ok ds (be_em e1) (be_km e1) (\<lambda>_. 0)" using T(2) by (simp add: eng_ok_def)
  from key_erase_ok [OF this, of key] have st: "store_ok ds (be_em e1) (km_erase (be_km e1) key) (share (Some ol))"
    using Some km by simp
  note R = release_dead_ok [OF st ol]
  have D: "del key e = Some (0, ?e3)" using Some ini T(1) by (simp add: del_def)
  moreover have "eng_ok ds (\<lambda>_. 0) ?e3 (L @ [(tid, stamped tid ?recs, False)])"
    by (rule eng_em [OF T(2)]) (simp_all add: on_em_def R(1,3) jkept_dev)
  moreover have "room ds n ?e3" using T(3) room_same [of ?e3 e1] by (simp add: on_em_def)
  moreover have "grown 0 e ?e3" using T(4,6) by (simp add: grown_def engine_same_def on_em_def)
  moreover have "stored e1 = stored e"
    using contents_kept [OF kept_mono [OF T(5)]] eng_slots [OF ok] km by (auto simp: stored_def)
  then have "stored ?e3 = (stored e)(key := None)"
    using contents_kept [OF R(2)] contents_erase [of "be_em e1" "be_km e1" key] by (simp add: stored_def on_em_def)
  moreover have "stored e key \<noteq> None" using Some by (simp add: stored_def contents_def)
  ultimately show ?thesis by (intro exI [of _ 0] exI [of _ ?e3] exI [of _ "[(tid, stamped tid ?recs, False)]"]) auto
qed

end
