(* ===== verification/Kv_Spec.thy ===== *)
theory Kv_Spec
  imports Prelude
begin

text \<open>
  What a key-value store promises, as a locale: an abstraction to a map, and the effect of each call on it. A store may
  run out of resources, so its invariant carries a budget of calls. A call of \<open>put\<close> may fail, and then changes
  nothing. The lemmas of the locale are about whole histories of calls.
\<close>

section \<open>Histories\<close>

text \<open>A call with its clock, and what it returns: the code and, for \<open>get\<close>, the value.\<close>

datatype kv_op = Put u32 bytes bytes | Get u32 bytes | Del bytes

fun run_ops ::
  "(u32 \<Rightarrow> bytes \<Rightarrow> bytes \<Rightarrow> 's \<Rightarrow> (int \<times> 's) option) \<Rightarrow> (u32 \<Rightarrow> bytes \<Rightarrow> 's \<Rightarrow> (int \<times> bytes \<times> 's) option) \<Rightarrow>
   (bytes \<Rightarrow> 's \<Rightarrow> (int \<times> 's) option) \<Rightarrow> kv_op list \<Rightarrow> 's \<Rightarrow> ((int \<times> bytes) list \<times> 's) option"
where
  "run_ops p g d [] s = Some ([], s)"
| "run_ops p g d (Put now k v # ops) s =
     (case p now k v s of
        None \<Rightarrow> None
      | Some (r, s') \<Rightarrow> map_option (\<lambda>(rs, s''). ((r, []) # rs, s'')) (run_ops p g d ops s'))"
| "run_ops p g d (Get now k # ops) s =
     (case g now k s of
        None \<Rightarrow> None
      | Some (r, v, s') \<Rightarrow> map_option (\<lambda>(rs, s''). ((r, v) # rs, s'')) (run_ops p g d ops s'))"
| "run_ops p g d (Del k # ops) s =
     (case d k s of
        None \<Rightarrow> None
      | Some (r, s') \<Rightarrow> map_option (\<lambda>(rs, s''). ((r, []) # rs, s'')) (run_ops p g d ops s'))"

text \<open>\<open>explains m ops rs m'\<close>: a map that starts as \<open>m\<close> answers the calls with \<open>rs\<close> and ends as \<open>m'\<close>.\<close>

fun explains :: "(bytes \<rightharpoonup> bytes) \<Rightarrow> kv_op list \<Rightarrow> (int \<times> bytes) list \<Rightarrow> (bytes \<rightharpoonup> bytes) \<Rightarrow> bool" where
  "explains m [] rs m' \<longleftrightarrow> rs = [] \<and> m' = m"
| "explains m (Put now k v # ops) rs m' \<longleftrightarrow>
     (\<exists>r rs'. rs = (r, []) # rs' \<and> (r = 0 \<and> explains (m(k \<mapsto> v)) ops rs' m' \<or> r < 0 \<and> explains m ops rs' m'))"
| "explains m (Get now k # ops) rs m' \<longleftrightarrow>
     (\<exists>rs'. rs = (case m k of None \<Rightarrow> (- ENOENT, []) | Some v \<Rightarrow> (0, v)) # rs' \<and> explains m ops rs' m')"
| "explains m (Del k # ops) rs m' \<longleftrightarrow>
     (\<exists>rs'. rs = (if m k = None then - ENOENT else 0, []) # rs' \<and> explains (m(k := None)) ops rs' m')"

text \<open>The calls that may change a key.\<close>

fun writes :: "bytes \<Rightarrow> kv_op \<Rightarrow> bool" where
  "writes k (Put now k' v) \<longleftrightarrow> k' = k"
| "writes k (Get now k') \<longleftrightarrow> False"
| "writes k (Del k') \<longleftrightarrow> k' = k"

lemma explains_other: "explains m ops rs m' \<Longrightarrow> \<forall>x \<in> set ops. \<not> writes k x \<Longrightarrow> m' k = m k"
  by (induction m ops rs m' rule: explains.induct) auto

section \<open>The contract\<close>

locale kv_store =
  fixes ok :: "nat \<Rightarrow> 's \<Rightarrow> bool"
    and valid_key :: "bytes \<Rightarrow> bool"
    and valid_value :: "bytes \<Rightarrow> bool"
    and kput :: "u32 \<Rightarrow> bytes \<Rightarrow> bytes \<Rightarrow> 's \<Rightarrow> (int \<times> 's) option"
    and kget :: "u32 \<Rightarrow> bytes \<Rightarrow> 's \<Rightarrow> (int \<times> bytes \<times> 's) option"
    and kdel :: "bytes \<Rightarrow> 's \<Rightarrow> (int \<times> 's) option"
    and abs :: "'s \<Rightarrow> bytes \<rightharpoonup> bytes"
  assumes put_law: "ok (Suc n) s \<Longrightarrow> valid_key k \<Longrightarrow> valid_value v \<Longrightarrow>
      \<exists>r s'. kput now k v s = Some (r, s') \<and> ok n s' \<and> (r = 0 \<and> abs s' = (abs s)(k \<mapsto> v) \<or> r < 0 \<and> abs s' = abs s)"
    and get_law: "ok (Suc n) s \<Longrightarrow> \<exists>r v s'. kget now k s = Some (r, v, s') \<and> ok n s' \<and> abs s' = abs s \<and>
      (r, v) = (case abs s k of None \<Rightarrow> (- ENOENT, []) | Some v \<Rightarrow> (0, v))"
    and del_law: "ok (Suc n) s \<Longrightarrow> valid_key k \<Longrightarrow> \<exists>r s'. kdel k s = Some (r, s') \<and> ok n s' \<and>
      r = (if abs s k = None then - ENOENT else 0) \<and> abs s' = (abs s)(k := None)"
begin

definition valid_op :: "kv_op \<Rightarrow> bool" where
  "valid_op x = (case x of Put now k v \<Rightarrow> valid_key k \<and> valid_value v | Get now k \<Rightarrow> True | Del k \<Rightarrow> valid_key k)"

lemma history_explained:
  assumes "ok (length ops + n) s" "\<forall>x \<in> set ops. valid_op x"
  shows "\<exists>rs s'. run_ops kput kget kdel ops s = Some (rs, s') \<and> ok n s' \<and> explains (abs s) ops rs (abs s')"
  using assms
proof (induction ops arbitrary: s)
  case (Cons x ops)
  show ?case
  proof (cases x)
    case (Put now k v)
    then have v: "valid_key k" "valid_value v" using Cons.prems(2) by (auto simp: valid_op_def)
    from put_law [OF _ v] Cons.prems(1) obtain r s1 where p: "kput now k v s = Some (r, s1)" "ok (length ops + n) s1"
      "r = 0 \<and> abs s1 = (abs s)(k \<mapsto> v) \<or> r < 0 \<and> abs s1 = abs s" by fastforce
    obtain rs s' where "run_ops kput kget kdel ops s1 = Some (rs, s')" "ok n s'" "explains (abs s1) ops rs (abs s')"
      using Cons.IH [OF p(2)] Cons.prems(2) by auto
    then show ?thesis using p(1,3) Put by (auto simp del: fun_upd_apply)
  next
    case (Get now k)
    from get_law Cons.prems(1) obtain r v s1 where g: "kget now k s = Some (r, v, s1)" "ok (length ops + n) s1" "abs s1 = abs s"
      "(r, v) = (case abs s k of None \<Rightarrow> (- ENOENT, []) | Some v \<Rightarrow> (0, v))" by fastforce
    obtain rs s' where "run_ops kput kget kdel ops s1 = Some (rs, s')" "ok n s'" "explains (abs s1) ops rs (abs s')"
      using Cons.IH [OF g(2)] Cons.prems(2) by auto
    then show ?thesis using g(1,3,4) Get by auto
  next
    case (Del k)
    then have v: "valid_key k" using Cons.prems(2) by (auto simp: valid_op_def)
    from del_law [OF _ v] Cons.prems(1) obtain r s1 where d: "kdel k s = Some (r, s1)" "ok (length ops + n) s1"
      "r = (if abs s k = None then - ENOENT else 0)" "abs s1 = (abs s)(k := None)" by fastforce
    obtain rs s' where "run_ops kput kget kdel ops s1 = Some (rs, s')" "ok n s'" "explains (abs s1) ops rs (abs s')"
      using Cons.IH [OF d(2)] Cons.prems(2) by auto
    then show ?thesis using d(1,3,4) Del by (auto simp del: fun_upd_apply)
  qed
qed simp

text \<open>A value that was stored is read back until the key is written again.\<close>

lemma read_your_write:
  assumes ok: "ok (Suc (length ops + Suc n)) s" and put: "kput now k v s = Some (0, s1)" and v: "valid_key k" "valid_value v"
    and ops: "\<forall>x \<in> set ops. valid_op x \<and> \<not> writes k x"
  shows "\<exists>rs s2 s3. run_ops kput kget kdel ops s1 = Some (rs, s2) \<and> kget later k s2 = Some (0, v, s3) \<and> ok n s3"
proof -
  from put_law [OF ok v, of now] put have s1: "ok (length ops + Suc n) s1" "abs s1 = (abs s)(k \<mapsto> v)" by auto
  from history_explained [OF s1(1)] ops obtain rs s2 where R: "run_ops kput kget kdel ops s1 = Some (rs, s2)" "ok (Suc n) s2"
    "explains (abs s1) ops rs (abs s2)" by auto
  have "abs s2 k = Some v" using explains_other [OF R(3)] ops s1(2) by simp
  then show ?thesis using get_law [OF R(2), of later k] R(1) by auto
qed

end

end
