(* ===== verification/Engine_Space.thy ===== *)
theory Engine_Space
  imports Engine_Correct
begin

text \<open>
  When a \<open>put\<close> succeeds: the allocator serves a request that a free run of the FAST device can hold in one extent
  (\<open>allocate_one\<close>), so \<open>put\<close> finds a place (\<open>place_fits\<close>) and returns 0 (\<open>put_succeeds\<close>).
\<close>

section \<open>The allocator\<close>

text \<open>A free run lies in one segment.\<close>

lemma run_in_segment:
  assumes t: "tree_ok D t" and run: "{x ..< x + n} \<subseteq> cover t" and n: "0 < n"
  shows "\<exists>r \<in> set t. {x ..< x + n} \<subseteq> seg_space r"
proof -
  have "x \<in> cover t" using run n by auto
  then obtain r where r: "r \<in> set t" "unat (rs_start r) \<le> x" "x < unat (rs_end r)" by (auto simp: mem_cover)
  obtain p q where pq: "t = p @ r # q" using r(1) by (meson split_list)
  have o: "\<forall>y \<in> set q. rs_end r < rs_start y" "\<forall>y \<in> set p. rs_end y < rs_start r" "rs_start r < rs_end r"
    using t pq by (auto simp: tree_ok_append tree_ok_Cons)
  have "unat (rs_end r) \<notin> cover t" using o pq by (fastforce simp: mem_cover word_nat simp del: cover_simps)
  then have "unat (rs_end r) \<notin> {x ..< x + n}" using run by blast
  then have "x + n \<le> unat (rs_end r)" using r(3) by auto
  then show ?thesis using r by (auto simp: seg_space_def)
qed

lemma run_max_seg:
  assumes inv: "avl_inv st" and run: "{x ..< x + unat n} \<subseteq> free_space st" and n: "n \<noteq> 0"
  shows "n \<le> max_seg st"
proof -
  have t: "tree_ok (unat (av_device_size st)) (av_range_tree st)" using inv by (simp add: avl_inv_def)
  obtain r where r: "r \<in> set (av_range_tree st)" "{x ..< x + unat n} \<subseteq> seg_space r"
    using run_in_segment [OF t run [unfolded free_space_def]] n by (auto simp: unat_gt_0)
  have lt: "rs_start r < rs_end r" using t r(1) by (auto simp: tree_ok_def)
  have "unat n \<le> seg_len r" using card_mono [OF _ r(2)] by (simp add: seg_space_def seg_len_def)
  then have "n \<le> rs_length r" using rs_length_unat [OF lt] by (simp add: word_nat)
  then show ?thesis using last_size_max(1) [OF inv r(1)] by (rule order_trans)
qed

lemma allocate_single_exact:
  assumes inv: "avl_inv st" and k: "k < 64" and al: "aligned_set (2 ^ k) (free_space st)"
    and sz: "sz0 \<noteq> 0" "sz0 \<le> max_seg st" and a: "allocate_single sz0 (2 ^ k) st = Some (res, st')"
  shows "\<exists>off. res = Some (off, sz0)"
proof -
  have unit: "isp2 (2 ^ k)" by (rule isp2_exp [OF k])
  show ?thesis
    using inv unit sz(1)
  proof (cases rule: allocate_single_alt)
    case 1
    then show ?thesis using sz(2) by simp
  next
    case (2 sz by_size)
    have z: "sz = sz0" using 2(1) sz(2) by (simp add: leD)
    obtain start len st1 where s: "alloc_search by_size sz (2 ^ k) st = ((start, len), st1)"
      by (metis surj_pair)
    note F = alloc_search_found [OF inv unit 2(2) s]
    have m: "max_seg st1 = max_seg st"
      using s by (auto simp: alloc_search_def Let_def max_seg_def split: prod.splits if_splits)
    have fit: "pick_block_fits st1 sz (2 ^ k) \<noteq> NO_BLOCK"
      using pick_block_fits_aligned [OF F(1), of k sz] F(3) al 2(2,4) m by simp
    have f: "fits_loop st1 sz (2 ^ k) = (pick_block_fits st1 sz (2 ^ k), sz)"
      using fit by (simp add: fits_loop.simps [of st1 sz] Let_def)
    have "start \<noteq> NO_BLOCK \<and> len = sz"
      using s fit f by (auto simp: alloc_search_def Let_def split: prod.splits if_splits)
    then show ?thesis using a 2(6) s z by auto
  qed
qed

lemma allocate_one:
  assumes inv: "avl_inv st" and j: "av_block_size st = 2 ^ j" "j < 32" and al: "aligned_set (2 ^ j) (free_space st)"
    and w: "w \<noteq> 0" "unat w < 2 ^ 31" "w mod 2 ^ j = 0" and run: "{x ..< x + unat w} \<subseteq> free_space st"
  shows "\<exists>off st'. avl_allocate w (2 ^ j) w st = Some (int (unat w), [\<lparr>pe_offset = off, pe_length = ucast w\<rparr>], st') \<and>
    free_space st' = free_space st - {unat off ..< unat off + unat w} \<and> 2 ^ j dvd unat off"
proof -
  have k: "j < 64" using j(2) by simp
  have unit: "isp2 (2 ^ j)" by (rule isp2_exp [OF k])
  have m: "max_alloc_of w w (2 ^ j) = w" using w(1,2) by (simp add: max_alloc_of_def Let_def word_nat)
  obtain res st1 where s: "allocate_single w (2 ^ j) st = Some (res, st1)" "single_post w (2 ^ j) st res st1"
    using allocate_single_ok [OF inv unit w(1)] w(2) by auto
  obtain off where off: "res = Some (off, w)"
    using allocate_single_exact [OF inv k al w(1) run_max_seg [OF inv run w(1)] s(1)] by blast
  have L: "allocate_loop w (2 ^ j) w 0 [] st = Some (w, [\<lparr>pe_offset = off, pe_length = ucast w\<rparr>], st1)"
    using s(1) off w(1) by (simp add: allocate_loop.simps [of w _ w 0] allocate_loop.simps [of w _ w w] word_gt_0)
  have "sint w = int (unat w)" using w(2) by (intro sint_small) simp
  then have "avl_allocate w (2 ^ j) w st = Some (int (unat w), [\<lparr>pe_offset = off, pe_length = ucast w\<rparr>], st1)"
    using avl_allocate_alt [OF unit w(3) j(1), of w w "[\<lparr>pe_offset = off, pe_length = ucast w\<rparr>]" st1] L m w(1) by simp
  moreover have "free_space st1 = free_space st - {unat off ..< unat off + unat w}" "unat (2 ^ j :: u64) dvd unat off"
    using s(2) off by (simp_all add: single_post_def)
  moreover have "unat (2 ^ j :: u64) = 2 ^ j" using k by simp
  ultimately show ?thesis by auto
qed


section \<open>Space for an extent\<close>

text \<open>The free space of the FAST device consists of whole blocks and has a run of \<open>n\<close> bytes.\<close>

definition fast_run :: "nat \<Rightarrow> BtierEngine \<Rightarrow> bool" where
  "fast_run n e \<longleftrightarrow> (\<exists>a x. em_alloc (be_em e) FAST = Some a \<and>
     aligned_set (unat (em_block_size (be_em e))) (free_space a) \<and> {x ..< x + n} \<subseteq> free_space a)"

text \<open>The only change of the allocators is that FAST gave away one extent of \<open>n\<close> bytes, or none.\<close>

definition took :: "nat \<Rightarrow> BtierEngine \<Rightarrow> BtierEngine \<Rightarrow> bool" where
  "took n e e' \<longleftrightarrow> em_alloc (be_em e') = em_alloc (be_em e) \<or> (\<exists>a a' off. em_alloc (be_em e) FAST = Some a \<and>
     em_alloc (be_em e') = (em_alloc (be_em e))(FAST \<mapsto> a') \<and> free_space a' = free_space a - {off ..< off + n} \<and>
     unat (em_block_size (be_em e)) dvd off \<and> unat (em_block_size (be_em e)) dvd n)"

lemma run_left:
  fixes F :: "nat set"
  assumes "{x ..< x + (2 * m + n)} \<subseteq> F"
  shows "\<exists>y. {y ..< y + m} \<subseteq> F - {off ..< off + n}"
proof (cases "x + m \<le> off")
  case True
  then show ?thesis using assms by (intro exI [of _ x]) auto
next
  case False
  then show ?thesis using assms by (intro exI [of _ "x + m + n"]) auto
qed

lemma fast_run_took:
  assumes run: "fast_run (2 * m + n) e" and t: "took n e e'" and bs: "em_block_size (be_em e') = em_block_size (be_em e)"
    "0 < unat (em_block_size (be_em e))"
  shows "fast_run m e'"
proof -
  let ?B = "unat (em_block_size (be_em e))"
  obtain a x where a: "em_alloc (be_em e) FAST = Some a" "aligned_set ?B (free_space a)" "{x ..< x + (2 * m + n)} \<subseteq> free_space a"
    using run by (auto simp: fast_run_def)
  from t show ?thesis unfolding took_def
  proof
    assume "em_alloc (be_em e') = em_alloc (be_em e)"
    moreover have "{x ..< x + m} \<subseteq> free_space a" using a(3) by auto
    ultimately show ?thesis using a(1,2) bs(1) by (auto simp: fast_run_def)
  next
    assume "\<exists>a a' off. em_alloc (be_em e) FAST = Some a \<and> em_alloc (be_em e') = (em_alloc (be_em e))(FAST \<mapsto> a') \<and>
      free_space a' = free_space a - {off ..< off + n} \<and> ?B dvd off \<and> ?B dvd n"
    then obtain a' off where a': "em_alloc (be_em e') FAST = Some a'" "free_space a' = free_space a - {off ..< off + n}"
      "?B dvd off" "?B dvd n" using a(1) by auto
    have "aligned_set ?B (free_space a')" unfolding a'(2)
      by (rule aligned_Diff [OF bs(2) a(2) aligned_ivl [OF bs(2) a'(3)]]) (use a'(3,4) in simp)
    then show ?thesis using run_left [OF a(3), of off] a'(1,2) bs(1) by (auto simp: fast_run_def)
  qed
qed

lemma alloc_space_run:
  assumes inv: "em_inv em G" and g: "geom em" and sz: "0 < unat sz" "unat sz + unat (em_block_size em) \<le> 2 ^ 31"
    and a: "em_alloc em FAST = Some a" "aligned_set (unat (em_block_size em)) (free_space a)"
      "{x ..< x + unat (round_up_to sz (em_block_size em))} \<subseteq> free_space a"
  defines "w \<equiv> round_up_to sz (em_block_size em)"
  shows "\<exists>off a'. alloc_space FAST sz em = Some (Space \<lparr>dl_offset = off, dl_length = ucast w, dl_tier = FAST\<rparr>, add_allocator FAST a' em) \<and>
    free_space a' = free_space a - {unat off ..< unat off + unat w} \<and> unat (em_block_size em) dvd unat off \<and>
    unat (em_block_size em) dvd unat w \<and> unat sz \<le> unat w \<and> unat w < 2 ^ 31"
proof -
  let ?u = "em_block_size em"
  obtain j where j: "?u = 2 ^ j" "12 \<le> j" "j < 32" using g by (auto simp: geom_def)
  have uu: "unat ?u = 2 ^ j" using j by simp
  have u0: "0 < ?u" using j(1,3) by (simp add: word_neq_0_conv [symmetric] del: word_neq_0_conv)
  have "named_tier FAST" by (simp add: named_tier_def)
  then have blk: "av_block_size a = 2 ^ j" using g a(1) j(1) unfolding geom_def by force
  have av: "avl_inv a" using inv a(1) by (auto simp: em_inv_def owns_all_def avl.owns_def avl_ready_def)
  have "unat sz + unat ?u \<le> 2 ^ 64" using sz(2) by simp
  note R = round_up_to_correct [OF u0 this, folded w_def]
  have w: "w \<noteq> 0" "unat w < 2 ^ 31" "w mod 2 ^ j = 0"
    using R(1,2) sz round_up_to_mod [of ?u sz] inv j(1) by (auto simp: w_def em_inv_def)
  from allocate_one [OF av blk j(3) _ w, of x] a(2,3) uu obtain off a' where A:
    "avl_allocate w (2 ^ j) w a = Some (int (unat w), [\<lparr>pe_offset = off, pe_length = ucast w\<rparr>], a')"
    "free_space a' = free_space a - {unat off ..< unat off + unat w}" "2 ^ j dvd unat off" by (auto simp: w_def)
  have "sint w = int (unat w)" using w(2) by (intro sint_small) simp
  then have "alloc_space FAST sz em = Some (Space \<lparr>dl_offset = off, dl_length = ucast w, dl_tier = FAST\<rparr>, add_allocator FAST a' em)"
    using A(1) a(1) w(1) j(1) w_def [unfolded j(1), symmetric] by (simp add: alloc_space_def Let_def)
  then show ?thesis using A(2,3) uu R(1,3) w(2) by auto
qed


section \<open>Finding a place\<close>

lemma alloc_kept:
  "on_journal f e = Some (r, e') \<Longrightarrow> em_alloc (be_em e') = em_alloc (be_em e)"
  "em_alloc (snd (register_extent l em)) = em_alloc em" "em_alloc (snd (append_slot k n em)) = em_alloc em"
  "reserve k n e = (off, e'') \<Longrightarrow> em_alloc (be_em e'') = em_alloc (be_em e)"
proof -
  show "em_alloc (be_em e') = em_alloc (be_em e)" if "on_journal f e = Some (r, e')"
    using that by (auto simp: on_journal_def add_block_device_def Let_def split: option.splits prod.splits)
  show "em_alloc (snd (register_extent l em)) = em_alloc em"
    by (simp add: register_extent_def Let_def write_extent_header_def dev_put_def set_entry_def split: option.split)
  show a: "em_alloc (snd (append_slot k n em)) = em_alloc em" for k n em
    by (simp add: append_slot_def Let_def mark_dirty_def update_free_list_def set_entry_def split: option.split)
  show "em_alloc (be_em e'') = em_alloc (be_em e)" if "reserve k n e = (off, e'')"
    using that a [of k n "be_em e"] by (auto simp: reserve_def split: prod.splits)
qed

lemma fresh_extent_run:
  assumes ok: "eng_ok ds (\<lambda>_. 0) e L" and room: "room ds (txn_cost key + n) e"
    and sz: "0 < unat sz" "unat sz + unat (em_block_size (be_em e)) \<le> 2 ^ 31"
    and nw: "unat (em_next_extent_id (be_em e)) + 1 < 2 ^ 64"
    and run: "fast_run (unat (round_up_to sz (em_block_size (be_em e)))) e"
  shows "\<exists>eid l e'. fresh_extent sz e = Some (Inr (eid, l), e') \<and> em_lookup (be_em e') eid = Some (new_ExtentEntry l) \<and>
    unat sz \<le> unat (dl_length l) \<and> unat (dl_length l) < 2 ^ 31 \<and> took (unat (round_up_to sz (em_block_size (be_em e)))) e e'"
proof -
  let ?em = "be_em e"
  let ?w = "round_up_to sz (em_block_size ?em)"
  have inv: "em_inv ?em [journal_loc ds]" "geom ?em" using ok by (simp_all add: eng_ok_def store_ok_def)
  obtain a x where a: "em_alloc ?em FAST = Some a" "aligned_set (unat (em_block_size ?em)) (free_space a)"
    "{x ..< x + unat ?w} \<subseteq> free_space a" using run by (auto simp: fast_run_def)
  from alloc_space_run [OF inv sz a] obtain off a' where A:
    "alloc_space FAST sz ?em = Some (Space \<lparr>dl_offset = off, dl_length = ucast ?w, dl_tier = FAST\<rparr>, add_allocator FAST a' ?em)"
    "free_space a' = free_space a - {unat off ..< unat off + unat ?w}" "unat (em_block_size ?em) dvd unat off"
    "unat (em_block_size ?em) dvd unat ?w" "unat sz \<le> unat ?w" "unat ?w < 2 ^ 31" by blast
  let ?l = "\<lparr>dl_offset = off, dl_length = ucast ?w, dl_tier = FAST\<rparr> :: DiskLocation" and ?em1 = "add_allocator FAST a' ?em"
  obtain eid em2 where r: "register_extent ?l ?em1 = ((eid, ?l), em2)" by (simp add: register_extent_def Let_def)
  then have al: "allocate_extent FAST sz ?em = Some (Some (eid, ?l), em2)" using A(1) by (simp add: allocate_extent_def)
  from fresh_extent_ok [OF ok room sz nw] al obtain e' where F: "fresh_extent sz e = Some (Inr (eid, ?l), e')"
    "em_lookup (be_em e') eid = Some (new_ExtentEntry ?l)" by auto
  have "em_alloc (be_em e') = em_alloc em2"
    using F(1) al by (auto simp: fresh_extent_def split: option.splits if_splits dest!: alloc_kept(1))
  also have "em_alloc em2 = (em_alloc ?em)(FAST \<mapsto> a')"
    using alloc_kept(2) [of ?l ?em1] r by (simp add: add_allocator_def)
  finally have "took (unat ?w) e e'" using a(1) A(2-4) by (auto simp: took_def)
  moreover have "unat (ucast ?w :: u32) = unat ?w" using A(6) by (simp add: unat_ucast_64_32)
  ultimately show ?thesis using F A(5,6) by (intro exI [of _ eid] exI [of _ ?l] exI [of _ e']) simp
qed

lemma reserve_new:
  assumes l: "em_lookup (be_em e) eid = Some (new_ExtentEntry l)" "4096 + unat sz \<le> unat (dl_length l)"
  shows "\<exists>e'. reserve eid sz e = (0, e')"
proof -
  have h: "unat (HEADER_SIZE :: u32) = 4096" by (simp add: HEADER_SIZE_def)
  then have "HEADER_SIZE \<le> dl_length l" using l(2) by (simp add: word_le_nat_alt)
  then have "unat (ee_capacity (new_ExtentEntry l)) = unat (dl_length l) - 4096"
    using h by (simp add: ee_capacity_def new_ExtentEntry_def unat_sub)
  then have "\<not> ee_used_bytes (new_ExtentEntry l) + sz > ee_capacity (new_ExtentEntry l)"
    using l(2) by (simp add: word_less_nat_alt new_ExtentEntry_def)
  moreover have "state (ee_raw (new_ExtentEntry l)) = ACTIVE" by (simp add: new_ExtentEntry_def state_def ACTIVE_def)
  moreover have "ee_used_bytes (new_ExtentEntry l) = 0" by (simp add: new_ExtentEntry_def)
  ultimately show ?thesis using l(1) by (simp add: reserve_def append_slot_def Let_def)
qed

lemma place_fresh_run:
  assumes ok: "eng_ok ds (\<lambda>_. 0) e L" and room: "room ds (txn_cost key + n) e"
    and xs: "4096 + unat sz \<le> unat xs" "unat xs + unat (em_block_size (be_em e)) \<le> 2 ^ 31"
    and nw: "unat (em_next_extent_id (be_em e)) + 1 < 2 ^ 64"
    and run: "fast_run (unat (round_up_to xs (em_block_size (be_em e)))) e"
  shows "\<exists>eid l e1 e'. fresh_extent xs e = Some (Inr (eid, l), e1) \<and> reserve eid sz e1 = (0, e') \<and>
    took (unat (round_up_to xs (em_block_size (be_em e)))) e e'"
proof -
  have "0 < unat xs" using xs(1) by simp
  from fresh_extent_run [OF ok room this xs(2) nw run] obtain eid l e1 where F: "fresh_extent xs e = Some (Inr (eid, l), e1)"
    "em_lookup (be_em e1) eid = Some (new_ExtentEntry l)" "unat xs \<le> unat (dl_length l)"
    "took (unat (round_up_to xs (em_block_size (be_em e)))) e e1" by blast
  obtain e2 where R: "reserve eid sz e1 = (0, e2)" using reserve_new [OF F(2)] F(3) xs(1) le_trans by blast
  then have "took (unat (round_up_to xs (em_block_size (be_em e)))) e e2" using F(4) alloc_kept(4) [OF R] by (simp add: took_def)
  then show ?thesis using F(1) R by blast
qed

text \<open>The bytes of FAST the extent of a value takes; a small value has to fit an extent.\<close>

definition extent_bytes :: "BtierEngine \<Rightarrow> bytes \<Rightarrow> nat" where
  "extent_bytes e val = unat (round_up_to (if value_size val \<ge> cfg_large_value_threshold (be_cfg e) then value_size val + HEADER_SIZE64
     else cfg_extent_size (be_cfg e)) (em_block_size (be_em e)))"

definition has_space :: "BtierEngine \<Rightarrow> bytes \<Rightarrow> bool" where
  "has_space e val \<longleftrightarrow> fast_run (extent_bytes e val) e \<and>
     (value_size val \<ge> cfg_large_value_threshold (be_cfg e) \<or> 4096 + length val \<le> unat (cfg_extent_size (be_cfg e)))"

lemma find_extent_location:
  assumes "find_extent_with_space em t n \<noteq> NO_EXTENT"
  shows "\<exists>l. get_location em (find_extent_with_space em t n) = Some l"
proof -
  obtain p where p: "find (\<lambda>p. extent_active em (snd p)) (os_lower_bound (n, 0) (em_free_lists em t)) = Some p"
    using assms by (auto simp: find_extent_with_space_def split: option.splits)
  then have "extent_active em (snd p)" by (auto simp: find_Some_iff)
  then show ?thesis using p by (auto simp: find_extent_with_space_def extent_active_def get_location_def split: option.splits)
qed

lemma place_small_run:
  assumes ok: "eng_ok ds (\<lambda>_. 0) e L" and room: "room ds (txn_cost key + n) e"
    and xs: "4096 + unat sz \<le> unat (cfg_extent_size (be_cfg e))" "unat (cfg_extent_size (be_cfg e)) + unat (em_block_size (be_em e)) \<le> 2 ^ 31"
    and nw: "unat (em_next_extent_id (be_em e)) + 1 < 2 ^ 64"
    and run: "fast_run (unat (round_up_to (cfg_extent_size (be_cfg e)) (em_block_size (be_em e)))) e"
  shows "\<exists>p e'. place_small sz e = Some (Inr p, e') \<and>
    took (unat (round_up_to (cfg_extent_size (be_cfg e)) (em_block_size (be_em e)))) e e'"
proof -
  let ?t = "find_extent_with_space (be_em e) FAST sz"
  from place_fresh_run [OF ok room xs nw run] obtain eid l e1 e' where F: "fresh_extent (cfg_extent_size (be_cfg e)) e = Some (Inr (eid, l), e1)"
    "reserve eid sz e1 = (0, e')" "took (unat (round_up_to (cfg_extent_size (be_cfg e)) (em_block_size (be_em e)))) e e'" by blast
  have z: "0 \<noteq> NO_SLOT" by (simp add: NO_SLOT_def)
  show ?thesis
  proof (cases "?t = NO_EXTENT")
    case True
    then show ?thesis using F z by (simp add: place_small_def)
  next
    case False
    obtain l2 where l2: "get_location (be_em e) ?t = Some l2" using find_extent_location [OF False] by blast
    obtain off e2 where v: "reserve ?t sz e = (off, e2)" by fastforce
    show ?thesis
    proof (cases "off = NO_SLOT")
      case True
      then have "e2 = e" using reserve_fails [OF ok] v by simp
      then show ?thesis using False l2 v True F z by (simp add: place_small_def place_fresh_def)
    next
      case ns: False
      then show ?thesis using False l2 v alloc_kept(4) [OF v] by (simp add: place_small_def took_def)
    qed
  qed
qed

lemma place_run:
  assumes ok: "eng_ok ds (\<lambda>_. 0) e L" and room: "room ds (txn_cost key + n) e" and fit: "put_fits e val" and sp: "has_space e val"
  shows "\<exists>p e'. place val e = Some (Inr p, e') \<and> took (extent_bytes e val) e e'"
proof -
  have len: "length val < 2 ^ 31" "length val + 4096 < 2 ^ 32" using fit by (simp_all add: put_fits_def)
  note v = value_len [OF len(1)]
  have nw: "unat (em_next_extent_id (be_em e)) + 1 < 2 ^ 64" using fit by (simp add: put_fits_def)
  show ?thesis
  proof (cases "value_size val \<ge> cfg_large_value_threshold (be_cfg e)")
    case True
    have u: "unat (value_size val + HEADER_SIZE64) = length val + 4096"
      using len v by (subst unat_add_nowrap) (simp_all add: HEADER_SIZE_def)
    have x: "4096 + unat (ucast (value_size val) :: u32) \<le> unat (value_size val + HEADER_SIZE64)"
      "unat (value_size val + HEADER_SIZE64) + unat (em_block_size (be_em e)) \<le> 2 ^ 31" using u v fit by (simp_all add: put_fits_def)
    have "fast_run (unat (round_up_to (value_size val + HEADER_SIZE64) (em_block_size (be_em e)))) e"
      using sp True by (simp add: has_space_def extent_bytes_def)
    from place_fresh_run [OF ok room x nw this] True show ?thesis
      by (auto simp: place_def place_fresh_def extent_bytes_def NO_SLOT_def)
  next
    case False
    have x: "4096 + unat (ucast (value_size val) :: u32) \<le> unat (cfg_extent_size (be_cfg e))"
      "unat (cfg_extent_size (be_cfg e)) + unat (em_block_size (be_em e)) \<le> 2 ^ 31"
      using sp False v fit by (simp_all add: has_space_def put_fits_def)
    have "fast_run (unat (round_up_to (cfg_extent_size (be_cfg e)) (em_block_size (be_em e)))) e"
      using sp False by (simp add: has_space_def extent_bytes_def)
    from place_small_run [OF ok room x nw this] False show ?thesis by (simp add: place_def extent_bytes_def)
  qed
qed

section \<open>Putting\<close>

lemma write_value_alloc: "write_value p val e = Some (r, e') \<Longrightarrow> em_alloc (be_em e') = em_alloc (be_em e)"
  by (auto simp: write_value_def tier_write_def give_up_def on_em_def add_block_device_def mark_dead_slot_def em_free_def Let_def
      add_deferred_free_def mark_dirty_def update_free_list_def set_entry_def split: option.splits if_splits prod.splits)

lemma finish_put_alloc: "finish_put now key val old p e = Some (r, e') \<Longrightarrow> em_alloc (be_em e') = em_alloc (be_em e)"
proof -
  have g: "em_alloc (be_em (give_up p n e1)) = em_alloc (be_em e1)" "em_alloc (release_dead kl em) = em_alloc em"
    "em_alloc (record_io k io t em) = em_alloc em" for n e1 kl em k io t
    by (simp_all add: give_up_def on_em_def release_dead_def mark_dead_slot_def em_free_def record_io_def Let_def
        add_deferred_free_def mark_dirty_def update_free_list_def set_entry_def split: option.split)
  have c: "checkpoint_if P e1 = Some e2 \<Longrightarrow> em_alloc (be_em e2) = em_alloc (be_em e1)" for P e1 e2
    by (auto simp: checkpoint_if_def split: option.splits if_splits dest: alloc_kept(1))
  assume "finish_put now key val old p e = Some (r, e')"
  then show ?thesis
    by (auto simp: finish_put_def Let_def g on_em_def split: option.splits if_splits prod.splits dest!: alloc_kept(1) c)
qed

lemma put_succeeds:
  assumes ok: "eng_ok ds (\<lambda>_. 0) e L" and room: "room ds (3 * txn_cost key + n) e" and fit: "put_fits e val" "length key < 2 ^ 32"
    and sp: "has_space e val" and put: "put now key val e = Some (r, e')"
  shows "r = 0" "took (extent_bytes e val) e e'"
proof -
  have zero: "place val e = Some (Inr p, e1) \<Longrightarrow> r = 0" for p e1 using put_ok [OF ok room fit, of now] put by auto
  have "room ds (txn_cost key + (2 * txn_cost key + n)) e" using room by simp
  from place_run [OF ok this fit(1) sp] obtain p e1 where p: "place val e = Some (Inr p, e1)" "took (extent_bytes e val) e e1" by blast
  show "r = 0" by (rule zero [OF p(1)])
  have ck: "checkpoint_if is_near_full e = Some e" using no_checkpoint(2) [OF ok room_less [OF room]] by simp
  have "be_initialized e" using ok by (simp add: eng_ok_def)
  then have "em_alloc (be_em e') = em_alloc (be_em e1)"
    using put p(1) ck by (auto simp: put_def split: option.splits if_splits prod.splits dest!: write_value_alloc finish_put_alloc)
  then show "took (extent_bytes e val) e e'" using p(2) by (simp add: took_def)
qed

text \<open>\<open>del\<close> leaves the allocators alone.\<close>

lemma del_alloc: "del key e = Some (r, e') \<Longrightarrow> em_alloc (be_em e') = em_alloc (be_em e)"
proof -
  have g: "em_alloc (release_dead kl em) = em_alloc em" for kl em
    by (simp add: release_dead_def mark_dead_slot_def em_free_def Let_def
        add_deferred_free_def mark_dirty_def update_free_list_def set_entry_def split: option.split)
  assume "del key e = Some (r, e')"
  then show ?thesis by (auto simp: del_def on_em_def g split: option.splits if_splits prod.splits dest!: alloc_kept(1))
qed

end
