(* ===== verification/Engine_Refines.thy ===== *)
theory Engine_Refines
  imports Engine_Space Kv_Spec
begin

text \<open>
  The engine as a key-value store: \<open>ready\<close> is the invariant of \<open>Engine_Correct\<close> with a budget of calls, and the contract
  \<open>kv_store\<close> is interpreted on it. \<open>init\<close> establishes it on empty devices.
\<close>

section \<open>The engine as a key-value store\<close>

definition call_cost :: "nat \<Rightarrow> nat" where
  "call_cost M = 3 * (4096 + 128 + M)"

text \<open>An engine on healthy devices with a journal and extent ids for \<open>n\<close> more calls, on keys of up to \<open>M\<close> and values of up
  to \<open>V\<close> bytes.\<close>

definition ready :: "u64 \<Rightarrow> nat \<Rightarrow> nat \<Rightarrow> nat \<Rightarrow> BtierEngine \<Rightarrow> bool" where
  "ready ds M V n e \<longleftrightarrow> (\<exists>L. eng_ok ds (\<lambda>_. 0) e L) \<and> room ds (n * call_cost M) e \<and> M < 2 ^ 32 \<and>
     V + 4096 + unat (em_block_size (be_em e)) \<le> 2 ^ 31 \<and>
     0 < unat (cfg_extent_size (be_cfg e)) \<and> unat (cfg_extent_size (be_cfg e)) + unat (em_block_size (be_em e)) \<le> 2 ^ 31 \<and>
     unat (em_next_extent_id (be_em e)) + 2 * n < 2 ^ 64"

lemma ready_step:
  assumes "ready ds M V (Suc n) e" "eng_ok ds (\<lambda>_. 0) e' L" "room ds (n * call_cost M) e'" "grown k e e'" "k \<le> 2"
  shows "ready ds M V n e'"
  using assms unfolding ready_def grown_def by fastforce

lemma ready_room:
  assumes "ready ds M V (Suc n) e"
  shows "room ds (n * call_cost M) e" "length key \<le> M \<Longrightarrow> room ds (3 * txn_cost key + n * call_cost M) e"
    "length key \<le> M \<Longrightarrow> room ds (txn_cost key + n * call_cost M) e"
  using assms by (auto simp: ready_def txn_cost_def call_cost_def elim!: room_less)

interpretation be: kv_store "ready ds M V" "\<lambda>k. length k \<le> M" "\<lambda>v. v \<noteq> [] \<and> length v \<le> V" put get del stored
  for ds M V
proof (unfold_locales, goal_cases)
  case (1 n s k v now)
  then obtain L where ok: "eng_ok ds (\<lambda>_. 0) s L" by (auto simp: ready_def)
  have fit: "put_fits s v" "length k < 2 ^ 32" using 1 by (auto simp: ready_def put_fits_def)
  from put_ok [OF ok ready_room(2) [OF 1(1,2)] fit, of now] obtain r e' new where P: "put now k v s = Some (r, e')"
    "eng_ok ds (\<lambda>_. 0) e' (L @ new)" "room ds (n * call_cost M) e'" "grown 2 s e'"
    "r = 0 \<and> stored e' = (stored s)(k \<mapsto> v) \<or> r \<in> {- ENOSPC, - EIO} \<and> stored e' = stored s" by blast
  have "r \<in> {- ENOSPC, - EIO} \<Longrightarrow> r < 0" by (auto simp: errno_defs)
  then show ?case using P ready_step [OF 1(1) P(2-4)] by auto
next
  case (2 n s now k)
  then obtain L where ok: "eng_ok ds (\<lambda>_. 0) s L" by (auto simp: ready_def)
  from get_ok [OF ok, of now k] obtain r v e' where G: "get now k s = Some (r, v, e')" "eng_ok ds (\<lambda>_. 0) e' L" "moved 0 s e'"
    "be_journal e' = be_journal s" "(r, v) = (case stored s k of None \<Rightarrow> (- ENOENT, []) | Some val \<Rightarrow> (0, val))" by blast
  have "room ds (n * call_cost M) e'" using ready_room(1) [OF 2] room_same G(4) by blast
  then show ?case using G(1,5) ready_step [OF 2 G(2) _ moved_grown [OF G(3)]] moved_stored [OF G(3)] by auto
next
  case (3 n s k)
  then obtain L where ok: "eng_ok ds (\<lambda>_. 0) s L" by (auto simp: ready_def)
  have "length k < 2 ^ 32" using 3 by (auto simp: ready_def)
  from del_ok [OF ok ready_room(3) [OF 3] this] obtain r e' new where D: "del k s = Some (r, e')" "eng_ok ds (\<lambda>_. 0) e' (L @ new)"
    "room ds (n * call_cost M) e'" "grown 0 s e'" "r = (if stored s k = None then - ENOENT else 0)"
    "stored e' = (stored s)(k := None)" by blast
  then show ?case using ready_step [OF 3(1) D(2-4)] by auto
qed

section \<open>Start\<close>

lemma new_Journal_blank:
  assumes h: "healthy d" and ds: "4096 < unat ds" "unat ds \<le> unat (bd_size d)" "unat ds < 2 ^ 31" "4096 dvd unat ds"
    and blank: "sb_magic (sb_parse (bytes_at d 0 4096)) \<noteq> SB_MAGIC"
  shows "\<exists>j d'. new_Journal ds pad d = (j, d') \<and> jlog_ok ds j d' [] \<and> j_active_txns j = [] \<and> j_write_offset j = 0 \<and>
    bd_size d' = bd_size d"
proof -
  let ?j = "new_Impl ds pad" and ?sb = "zero_sb\<lparr>sb_magic := SB_MAGIC\<rparr>"
  have rd: "dev_read 0 4096 False d = (4096, bytes_at d 0 4096, d)"
    using dev_read_healthy [OF h, of 0 4096 False] ds by simp
  let ?j1 = "?j\<lparr>j_superblock := ?sb, j_write_offset := 0\<rparr>" and ?d1 = "wrote 0 (sb_image ?sb) False d"
  have pad: "length (sb_pad ?sb) = 4064" by (simp add: zero_sb_def)
  have w: "write_superblock (?j1, d) = (0, ?j1, ?d1)" using write_superblock_ok [OF h, of ?j1] pad ds by simp
  have n: "new_Journal ds pad d = (?j1, ?d1)" using blank by (simp add: new_Journal_def read_superblock_def rd w)
  have h1: "healthy ?d1" using pad ds by (intro healthy_wrote [OF h]) simp
  have "bytes_at ?d1 0 4096 = sb_image ?sb" using bytes_at_wrote(1) [of 0 "sb_image ?sb" False d] pad by simp
  then have "disk_ok ds ?sb ?d1 []" using h1 pad ds by (simp add: disk_ok_def) (simp add: zero_sb_def bytes_at_def)
  then have "jlog_ok ds ?j1 ?d1 []"
    using ds(1) by (simp add: jlog_ok_def impl_ok_def new_Impl_def zero_sb_def kSuperblockSize_def word_less_nat_alt)
  then show ?thesis using n by (simp add: new_Impl_def)
qed

text \<open>An allocator that was just filled.\<close>

lemma fresh_allocator:
  assumes "0 < unat D" "unat D < 2 ^ 63"
  shows "\<exists>a. avl_init_add_free 0 D (new_AvlAllocator D B 0 junk) = Some a \<and> avl_inv a \<and> free_space a = {..< unat D} \<and>
    av_device_size a = D \<and> av_block_size a = B"
proof -
  let ?a = "new_AvlAllocator D B 0 junk"
  have i: "avl_inv ?a" using assms by (auto intro!: avl_inv_empty simp: new_AvlAllocator_def)
  have D: "D \<noteq> 0" using assms by auto
  have f: "free_space ?a = {}" by (simp add: new_AvlAllocator_def free_space_def)
  have ds: "av_device_size ?a = D" "av_block_size ?a = B" by (simp_all add: new_AvlAllocator_def)
  show ?thesis
    using add_to_tree_ok [OF i D, of 0] f ds assms D
    by (auto simp: avl_init_add_free_def avl_frame_def)
qed


lemma lessThan_diff: "{..< b} - {0 ..< a} = {a ..< b}" for a b :: nat
  by auto

lemma reserved_allocator:
  assumes a: "avl_inv a" "free_space a = {..< unat D}" "av_device_size a = D" and ds: "0 < unat ds" "unat ds \<le> unat D"
  shows "\<exists>a'. avl_init_rm_free 0 ds a = Some a' \<and> avl_inv a' \<and> free_space a' = {unat ds ..< unat D} \<and>
    av_device_size a' = D \<and> av_block_size a' = av_block_size a"
proof -
  have z: "ds \<noteq> 0" "ds \<le> D" using ds by (auto simp: word_le_nat_alt)
  have "unat D < 2 ^ 64" by simp
  then have nw: "unat (0 :: u64) + unat ds < 2 ^ 64" using ds(2) by simp
  obtain b a' where R: "remove_from_tree 0 ds a = Some (b, a')" "b \<longleftrightarrow> {unat (0 :: u64) ..< unat (0 :: u64) + unat ds} \<subseteq> free_space a"
    "avl_inv a'" "avl_frame a a'"
    "free_space a' = (if b then free_space a - {unat (0 :: u64) ..< unat (0 :: u64) + unat ds} else free_space a)"
    using remove_from_tree_ok [OF a(1) z(1) nw] by blast
  have "{unat (0 :: u64) ..< unat (0 :: u64) + unat ds} \<subseteq> free_space a" unfolding a(2) using ds(2) by auto
  then have "free_space a' = {..< unat D} - {0 ..< unat ds}" using R(2,5) a(2) by simp
  then have "free_space a' = {unat ds ..< unat D}" unfolding lessThan_diff .
  moreover have "avl_init_rm_free 0 ds a = Some a'" using R(1) a(3) z by (simp add: avl_init_rm_free_def)
  moreover have "av_device_size a' = D" "av_block_size a' = av_block_size a" using R(4) a(3) by (simp_all add: avl_frame_def)
  ultimately show ?thesis using R(3) by blast
qed

lemma init_ok:
  assumes cfg: "cfg_block_size cfg = 2 ^ i" "12 \<le> i" "i < 32" "0 < unat (cfg_extent_size cfg)"
      "unat (cfg_extent_size cfg) + 2 ^ i \<le> 2 ^ 31" "V + 4096 + 2 ^ i \<le> 2 ^ 31" "M < 2 ^ 32"
    and dev: "healthy fast" "healthy slow" "0 < unat (bd_size slow)" "sb_magic (sb_parse (bytes_at fast 0 4096)) \<noteq> SB_MAGIC"
    and ds: "ds = journal_region cfg (bd_size fast)" "4096 dvd unat ds" "16384 + 2 * (n * call_cost M) \<le> unat ds" "unat ds < 2 ^ 31"
      "2 * n + 1 < 2 ^ 64"
  shows "\<exists>e'. be_init cfg (Inr fast) (Inr slow) pad junk e = Some (0, e') \<and> ready ds M V n e' \<and> stored e' = Map.empty \<and>
    eng_ok ds (\<lambda>_. 0) e' [(0, [], True)] \<and> be_cfg e' = cfg \<and> em_block_size (be_em e') = cfg_block_size cfg \<and>
    (\<exists>a. em_alloc (be_em e') FAST = Some a \<and> free_space a = {unat ds ..< unat (bd_size fast)})"
proof -
  let ?F = "bd_size fast" and ?S = "bd_size slow" and ?B = "cfg_block_size cfg"
  have le: "unat ds \<le> unat ?F" using ds(1) by (auto simp: journal_region_def word_less_nat_alt unat_div not_less)
  have szs: "0 < unat ?F" "unat ?F < 2 ^ 63" "unat ?S < 2 ^ 63" using le ds(3) dev by (simp_all add: healthy_def)
  obtain aF where aF: "avl_init_add_free 0 ?F (new_AvlAllocator ?F ?B 0 junk) = Some aF" "avl_inv aF" "free_space aF = {..< unat ?F}"
    "av_device_size aF = ?F" "av_block_size aF = ?B" using fresh_allocator [OF szs(1,2)] by blast
  obtain aS where aS: "avl_init_add_free 0 ?S (new_AvlAllocator ?S ?B 0 junk) = Some aS" "avl_inv aS" "free_space aS = {..< unat ?S}"
    "av_device_size aS = ?S" "av_block_size aS = ?B" using fresh_allocator [OF dev(3) szs(3)] by blast
  obtain a' where a': "avl_init_rm_free 0 ds aF = Some a'" "avl_inv a'" "free_space a' = {unat ds ..< unat ?F}"
    "av_device_size a' = ?F" "av_block_size a' = ?B" using reserved_allocator [OF aF(2-4) _ le] ds(3) aF(5) by auto
  obtain j d where J: "new_Journal ds pad fast = (j, d)" "jlog_ok ds j d []" "j_active_txns j = []" "j_write_offset j = 0" "bd_size d = ?F"
    using new_Journal_blank [OF dev(1) _ le ds(4,2) dev(4)] ds(3) by fastforce
  have "at_sb (j_superblock j) j = j" using J(2) by (simp add: jlog_ok_def at_sb_def)
  then have rc: "journal_recover (j, d) = Some ([], j, d)"
    using recover_ok [of ds "j_superblock j" d "[]" j] J(2) by (simp add: jlog_ok_def replayed_def)
  have fr: "length (frame (0, [], True)) = 4096"
    by (simp add: frame_def pad_len_def txn_bytes_def txn_body_def serialize_record_def begin_record_def commit_record_def
        new_record_def op_defs)
  obtain j' d' where C: "journal_checkpoint [] (j, d) = (0, j', d')" "jlog_ok ds j' d' [(0, [], True)]" "j_active_txns j' = []"
    "bd_size d' = ?F" "unat (j_write_offset j') = 4096" "sb_checkpoint_offset (j_superblock j') = 0"
    using checkpoint_ok [OF J(2), of "[]"] J(3,4,5) fr ds(3) by (auto simp: txn_ok_def)
  let ?em = "\<lparr>em_block_size = ?B, em_extent_size = cfg_extent_size cfg, em_entries = [], em_next_extent_id = 1,
    em_alloc = [FAST \<mapsto> a', SLOW \<mapsto> aS], em_dev = [FAST \<mapsto> d', SLOW \<mapsto> slow], em_free_lists = (\<lambda>_. []), em_deferred_free = [],
    em_seqno = 0, em_dirty_headers = []\<rparr>"
  let ?e = "e\<lparr>be_cfg := cfg, be_em := ?em, be_km := empty_KeyMap, be_journal := Some j', be_se := new_ScoringEngine cfg,
    be_me := Some (me_start new_MigrationEngine), be_initialized := True\<rparr>"
  have I: "be_init cfg (Inr fast) (Inr slow) pad junk e = Some (0, ?e)"
    using aF(1) aS(1) a'(1) J(1) rc C(1) ds(1) [symmetric]
    by (simp add: be_init_def new_ExtentMap_def add_allocator_def add_block_device_def init_free_space_def init_free_tier_def
        new_AvlAllocator_def on_journal_def Let_def fun_upd_twist)
  have "em_inv ?em [journal_loc ds]"
  proof -
    have lr: "fst (loc_range (journal_loc ds)) = 0" "unat (snd (loc_range (journal_loc ds))) = unat ds"
      using ds(4) by (simp_all add: loc_range_def journal_loc_def unat_ucast_64_32)
    have "snd (loc_range (journal_loc ds)) \<noteq> 0" using lr(2) ds(3) by (metis unat_0 not_numeral_le_zero add_is_0 le_zero_eq zero_neq_numeral)
    moreover have "{0 ..< unat ds} \<inter> {unat ds ..< unat ?F} = {}" by auto
    ultimately have "regions {unat ds ..< unat ?F} (unat ?F) [loc_range (journal_loc ds)]"
      using lr le by (simp add: regions_Cons range_space_def)
    then have "avl.owns a' [loc_range (journal_loc ds)]"
      using a'(2-5) cfg(1,3) by (auto simp: avl.owns_def avl_ready_def)
    moreover have "avl.owns aS []" using aS(2-5) cfg(1,3) by (auto simp: avl.owns_def avl_ready_def)
    moreover have "isp2 ?B" using isp2_exp [of i] cfg(1,3) by simp
    ultimately show ?thesis by (simp add: em_inv_def owns_all_def held_def em_locs_def ranges_def journal_loc_def)
  qed
  moreover have "geom ?em"
    using cfg(1-3) a'(4,5) aS(4,5) C(2,4) dev(2) by (auto simp: geom_def named_tier_def em_lookup_def jlog_ok_def disk_ok_def)
  moreover have "keys_ok ?em empty_KeyMap (\<lambda>_. 0)"
    using km_inv_empty by (simp add: keys_ok_def km_lookup_def empty_KeyMap_def em_lookup_def)
  ultimately have ok: "eng_ok ds (\<lambda>_. 0) ?e [(0, [], True)]" using C(2,3) by (simp add: eng_ok_def store_ok_def)
  moreover have "room ds (n * call_cost M) ?e" using C(5,6) ds(3) by (simp add: room_def)
  moreover have "unat ?B = 2 ^ i" using cfg(1,3) by simp
  ultimately have "ready ds M V n ?e" using cfg(4-7) ds(5) by (auto simp: ready_def)
  moreover have "stored ?e = Map.empty" by (simp add: stored_def contents_def km_lookup_def empty_KeyMap_def fun_eq_iff)
  ultimately show ?thesis using I ok a'(3) by (intro exI [of _ ?e]) simp
qed


section \<open>Properties\<close>

text \<open>C12: starting on empty devices: \<open>init\<close> formats the journal, gives the rest of the devices to the allocators, and
  returns 0 with an engine that stores nothing and has resources for \<open>n\<close> calls.\<close>

theorem init_starts_empty:
  assumes "cfg_block_size cfg = 2 ^ i" "12 \<le> i" "i < 32" "0 < unat (cfg_extent_size cfg)"
      "unat (cfg_extent_size cfg) + 2 ^ i \<le> 2 ^ 31" "V + 4096 + 2 ^ i \<le> 2 ^ 31" "M < 2 ^ 32"
    and "healthy fast" "healthy slow" "0 < unat (bd_size slow)" "sb_magic (sb_parse (bytes_at fast 0 4096)) \<noteq> SB_MAGIC"
    and "ds = journal_region cfg (bd_size fast)" "4096 dvd unat ds" "16384 + 2 * (n * call_cost M) \<le> unat ds" "unat ds < 2 ^ 31"
      "2 * n + 1 < 2 ^ 64"
  shows "\<exists>e'. be_init cfg (Inr fast) (Inr slow) pad junk e = Some (0, e') \<and> ready ds M V n e' \<and> stored e' = Map.empty"
  using init_ok [OF assms] by blast

definition demo_disk :: BlockDevice where
  "demo_disk = \<lparr>bd_fd_direct = True, bd_fd_buffered = True, bd_size = 0x1000000, bd_block_size = 4096,
     bd_io_since_flush = False, bd_data = (\<lambda>_. 0), bd_len = 0x1000000, bd_junk = (\<lambda>_. 0xAA), bd_script = []\<rparr>"

definition demo_cfg :: BtierConfig where
  "demo_cfg = (default_BtierConfig exact_fpu)\<lparr>cfg_journal_size := 0x100000\<rparr>"

definition no_engine :: BtierEngine where
  "no_engine = \<lparr>be_cfg = demo_cfg, be_em = new_ExtentMap demo_cfg, be_km = empty_KeyMap, be_journal = None,
     be_se = new_ScoringEngine demo_cfg, be_me = None, be_initialized = False\<rparr>"

lemma demo_disk_ok: "healthy demo_disk" "sb_magic (sb_parse (bytes_at demo_disk 0 4096)) \<noteq> SB_MAGIC"
proof -
  have "(4096 :: u64) = 2 ^ 12" by simp
  then show "healthy demo_disk" by (auto simp: healthy_def demo_disk_def intro: exI [of _ 12])
  have "bytes_at demo_disk 0 4096 = replicate 4096 0" by (simp add: bytes_at_def demo_disk_def map_replicate_const)
  then show "sb_magic (sb_parse (bytes_at demo_disk 0 4096)) \<noteq> SB_MAGIC" by (simp add: sb_parse_def le_value_zeros SB_MAGIC_def)
qed

lemma demo_cfg_ok:
  "cfg_block_size demo_cfg = 2 ^ 12" "unat (cfg_extent_size demo_cfg) = 0x400000"
  "journal_region demo_cfg (bd_size demo_disk) = 0x100000"
  by (simp_all add: demo_cfg_def default_BtierConfig_def journal_region_def demo_disk_def)

theorem init_starts_empty_witness:
  "\<exists>e'. be_init demo_cfg (Inr demo_disk) (Inr demo_disk) [] 0 no_engine = Some (0, e') \<and> ready 0x100000 8 1000 20 e' \<and> stored e' = Map.empty"
proof (rule init_starts_empty [of demo_cfg 12])
  show "0 < unat (bd_size demo_disk)" by (simp add: demo_disk_def)
qed (simp_all add: demo_cfg_ok demo_disk_ok call_cost_def)

text \<open>The engine that \<open>init\<close> starts there: its FAST device has 15 MB in one run.\<close>

lemma demo_start:
  obtains e where "be_init demo_cfg (Inr demo_disk) (Inr demo_disk) [] 0 no_engine = Some (0, e)" "ready 0x100000 8 1000 20 e"
    "stored e = Map.empty" "eng_ok 0x100000 (\<lambda>_. 0) e [(0, [], True)]" "be_cfg e = demo_cfg" "em_block_size (be_em e) = 4096"
    "fast_run 0xF00000 e"
proof -
  have "\<exists>e'. be_init demo_cfg (Inr demo_disk) (Inr demo_disk) [] 0 no_engine = Some (0, e') \<and> ready 0x100000 8 1000 20 e' \<and>
    stored e' = Map.empty \<and> eng_ok 0x100000 (\<lambda>_. 0) e' [(0, [], True)] \<and> be_cfg e' = demo_cfg \<and>
    em_block_size (be_em e') = cfg_block_size demo_cfg \<and>
    (\<exists>a. em_alloc (be_em e') FAST = Some a \<and> free_space a = {unat (0x100000 :: u64) ..< unat (bd_size demo_disk)})"
  proof (rule init_ok [of demo_cfg 12])
    show "0 < unat (bd_size demo_disk)" by (simp add: demo_disk_def)
  qed (simp_all add: demo_cfg_ok demo_disk_ok call_cost_def)
  then obtain e a where e: "be_init demo_cfg (Inr demo_disk) (Inr demo_disk) [] 0 no_engine = Some (0, e)"
    "ready 0x100000 8 1000 20 e" "stored e = Map.empty" "eng_ok 0x100000 (\<lambda>_. 0) e [(0, [], True)]" "be_cfg e = demo_cfg"
    "em_block_size (be_em e) = 4096" "em_alloc (be_em e) FAST = Some a" "free_space a = {0x100000 ..< 0x1000000}"
    by (auto simp: demo_cfg_ok demo_disk_def)
  have "aligned_set 4096 {0x100000 ..< 0x1000000}" by (rule aligned_ivl) simp_all
  then have "fast_run 0xF00000 e" using e(6-8) by (auto simp: fast_run_def intro!: exI [of _ "0x100000"])
  then show thesis using that e by blast
qed

lemma fast_run_less: "fast_run n e \<Longrightarrow> m \<le> n \<Longrightarrow> fast_run m e"
  unfolding fast_run_def by (elim exE conjE, intro exI conjI) (assumption | force)+

lemma demo_extent:
  assumes "be_cfg e = demo_cfg" "em_block_size (be_em e) = 4096" "length v < 1000"
  shows "extent_bytes e v = 0x400000" "fast_run 0x400000 e \<Longrightarrow> has_space e v"
proof -
  have "unat (value_size v) = length v" using assms(3) by (intro value_len) simp
  then have "\<not> cfg_large_value_threshold demo_cfg \<le> value_size v"
    using assms(3) by (simp add: demo_cfg_def default_BtierConfig_def word_le_nat_alt)
  then show x: "extent_bytes e v = 0x400000"
    using assms(1,2) by (simp add: extent_bytes_def demo_cfg_def default_BtierConfig_def round_up_to_def Let_def)
  show "fast_run 0x400000 e \<Longrightarrow> has_space e v"
    using x assms by (simp add: has_space_def demo_cfg_ok)
qed

text \<open>A \<open>put\<close> on an engine that is ready and has the space returns 0.\<close>

lemma ready_put:
  assumes r: "ready ds M V (Suc n) e" and kv: "length k \<le> M" "v \<noteq> []" "length v \<le> V" and sp: "has_space e v"
    and p: "put now k v e = Some (r, e')"
  shows "r = 0" "took (extent_bytes e v) e e'"
proof -
  obtain L where ok: "eng_ok ds (\<lambda>_. 0) e L" using r by (auto simp: ready_def)
  have fit: "put_fits e v" "length k < 2 ^ 32" using r kv by (auto simp: ready_def put_fits_def)
  show "r = 0" "took (extent_bytes e v) e e'" by (rule put_succeeds [OF ok ready_room(2) [OF r kv(1)] fit sp p])+
qed

text \<open>
  Why values are not empty here: \<open>del\<close> frees an extent when no live byte is left in it, although a key with an empty value may
  still point to it. The next \<open>get\<close> of that key does not find the extent.
\<close>

lemma empty_value_lost:
  assumes "be_initialized e" "km_lookup (be_km e) a = Some ka" "kl_length ka = 0" "km_lookup (be_km e) b = Some kb" "a \<noteq> b"
    "kl_extent_id ka = kl_extent_id kb" "em_lookup (be_em e) (kl_extent_id kb) = Some x" "ee_live_bytes x = kl_length kb"
    "on_journal (run_txn [del_record b, dead_record kb]) e = Some (0, e1)"
  shows "\<exists>e'. del b e = Some (0, e') \<and> get now a e' = Some (- ENOENT, [], e')"
proof -
  let ?x = "kl_extent_id kb"
  have same: "be_km e1 = be_km e" "be_initialized e1" "em_entries (be_em e1) = em_entries (be_em e)"
    using assms(1,9) by (auto simp: on_journal_def add_block_device_def Let_def split: option.splits prod.splits)
  have x: "em_lookup (be_em e1) ?x = Some x" using assms(7) same(3) by (simp add: em_lookup_def)
  let ?em = "mark_dead_slot ?x (kl_length kb) (be_em e1)"
  have m: "\<exists>x'. em_lookup ?em ?x = Some x' \<and> ee_live_bytes x' = 0" using x assms(8) by (simp add: mark_dead_slot_def Let_def)
  then have z: "get_live_bytes ?em ?x = 0" by (auto simp: get_live_bytes_def)
  have g: "em_lookup (em_free ?x em) ?x = None" for em
    by (simp add: em_free_def Let_def em_lookup_def add_deferred_free_def map_of_delete split: option.split)
  let ?e = "on_em (release_dead kb) (e1\<lparr>be_km := km_erase (be_km e1) b\<rparr>)"
  have "del b e = Some (0, ?e)" using assms(1,4,9) by (simp add: del_def)
  moreover have "get now a ?e = Some (- ENOENT, [], ?e)"
    using same assms(2,5,6) z g by (simp add: get_def on_em_def km_lookup_erase get_location_def release_dead_def Let_def)
  ultimately show ?thesis by blast
qed

text \<open>C1: the engine is a map from keys to values. Every sequence of \<open>put\<close>, \<open>get\<close> and \<open>del\<close> calls that fits the resources,
  with keys of up to \<open>M\<close> bytes and values of 1 to \<open>V\<close> bytes, runs to its end, and the results are those of a map that
  starts as the contents of the engine: a \<open>put\<close> stores its value or fails and changes nothing, a \<open>get\<close> returns the value
  stored last or \<open>-ENOENT\<close>, a \<open>del\<close> removes the key. Empty values are left out because the engine loses them
  (\<open>empty_value_lost\<close>).\<close>

theorem engine_refines_map:
  assumes "ready ds M V (length ops + n) e"
    and "\<forall>x \<in> set ops. case x of Put now k v \<Rightarrow> length k \<le> M \<and> v \<noteq> [] \<and> length v \<le> V | Get now k \<Rightarrow> True | Del k \<Rightarrow> length k \<le> M"
  shows "\<exists>rs e'. run_ops put get del ops e = Some (rs, e') \<and> ready ds M V n e' \<and> explains (stored e) ops rs (stored e')"
  by (rule be.history_explained [OF assms(1)]) (use assms(2) in \<open>simp add: be.valid_op_def\<close>)

theorem engine_refines_map_witness:
  "\<exists>e e'. be_init demo_cfg (Inr demo_disk) (Inr demo_disk) [] 0 no_engine = Some (0, e) \<and>
     run_ops put get del [Put 1 [7] [1, 2], Get 2 [7], Del [7], Get 3 [7]] e = Some ([(0, []), (0, [1, 2]), (0, []), (- ENOENT, [])], e')"
proof -
  let ?ops = "[Put 1 [7] [1, 2], Get 2 [7], Del [7], Get 3 [7]]"
  obtain e where e: "be_init demo_cfg (Inr demo_disk) (Inr demo_disk) [] 0 no_engine = Some (0, e)" "ready 0x100000 8 1000 20 e"
    "stored e = Map.empty" "be_cfg e = demo_cfg" "em_block_size (be_em e) = 4096" "fast_run 0xF00000 e" by (rule demo_start)
  have sp: "has_space e [1, 2]" using demo_extent(2) [OF e(4,5)] fast_run_less [OF e(6)] by simp
  have "ready 0x100000 8 1000 (length ?ops + 16) e" "ready 0x100000 8 1000 (Suc 19) e" using e(2) by simp_all
  note r = this
  from engine_refines_map [OF r(1)] obtain rs e' where
    R: "run_ops put get del ?ops e = Some (rs, e')" "explains Map.empty ?ops rs (stored e')" unfolding e(3) by auto
  moreover have "put 1 [7] [1, 2] e = Some (r', e1) \<Longrightarrow> r' = 0" for r' e1
    using ready_put(1) [OF r(2) _ _ _ sp, of "[7]" 1] by simp
  ultimately have "rs = [(0, []), (0, [1, 2]), (0, []), (- ENOENT, [])]" by (fastforce split: option.splits)
  then show ?thesis using e(1) R(1) by blast
qed

text \<open>C2: a value is stored and read back. \<open>put\<close> of a non-empty value returns 0 whenever the free space of FAST, made of whole
  blocks, has a run for the extent of the value (and a value below the threshold fits an extent); and after a \<open>put\<close> that
  returned 0, and any calls that do not write the same key, \<open>get\<close> returns 0 and the value.\<close>

theorem put_then_get:
  assumes ok: "ready ds M V (Suc (length ops + Suc n)) e" and v: "length k \<le> M" "v \<noteq> [] \<and> length v \<le> V"
    and ops: "\<forall>x \<in> set ops. (case x of Put now k v \<Rightarrow> length k \<le> M \<and> v \<noteq> [] \<and> length v \<le> V | Get now k \<Rightarrow> True | Del k \<Rightarrow> length k \<le> M) \<and>
      \<not> writes k x"
  shows "\<exists>r e1. put now k v e = Some (r, e1) \<and> (has_space e v \<longrightarrow> r = 0) \<and> (r = 0 \<longrightarrow> (\<exists>rs e2 e3. run_ops put get del ops e1 = Some (rs, e2) \<and>
    get later k e2 = Some (0, v, e3) \<and> ready ds M V n e3))"
proof -
  obtain r e1 where p: "put now k v e = Some (r, e1)" using be.put_law [OF ok v] by blast
  have sp: "has_space e v \<longrightarrow> r = 0" using ready_put(1) [OF ok v(1) _ _ _ p] v(2) by blast
  show ?thesis
  proof (cases "r = 0")
    case True
    from be.read_your_write [OF ok p [unfolded True] v, of later] ops show ?thesis using p sp True by (simp add: be.valid_op_def)
  qed (use p sp in auto)
qed

theorem put_then_get_witness:
  "\<exists>e e1 rs e2 e3. be_init demo_cfg (Inr demo_disk) (Inr demo_disk) [] 0 no_engine = Some (0, e) \<and>
     put 1 [7] [1, 2] e = Some (0, e1) \<and> run_ops put get del [Put 2 [8] [9]] e1 = Some (rs, e2) \<and>
     get 3 [7] e2 = Some (0, [1, 2], e3)"
proof -
  obtain e where e: "be_init demo_cfg (Inr demo_disk) (Inr demo_disk) [] 0 no_engine = Some (0, e)" "ready 0x100000 8 1000 20 e"
    "be_cfg e = demo_cfg" "em_block_size (be_em e) = 4096" "fast_run 0xF00000 e" by (rule demo_start)
  have sp: "has_space e [1, 2]" using demo_extent(2) [OF e(3,4)] fast_run_less [OF e(5)] by simp
  have "ready 0x100000 8 1000 (Suc (length [Put 2 [8] [9]] + Suc 17)) e" using e(2) by simp
  from put_then_get [OF this, of "[7]" "[1, 2]" 1 3] sp obtain e1 where "put 1 [7] [1, 2] e = Some (0, e1)"
    "\<exists>rs e2 e3. run_ops put get del [Put 2 [8] [9]] e1 = Some (rs, e2) \<and>
      get 3 [7] e2 = Some (0, [1, 2], e3) \<and> ready 0x100000 8 1000 17 e3" by (auto simp del: run_ops.simps)
  then show ?thesis using e(1) by blast
qed

end
