(* ===== verification/Engine_Restart.thy ===== *)
theory Engine_Restart
  imports Engine_Refines
begin

text \<open>
  Restarting the engine on the devices of an earlier run (\<open>restarted\<close>): \<open>init\<close> reads the journal and \<open>recover_internal\<close>
  rebuilds the maps. The key map after recovery holds at most what replaying the records gives (\<open>recovered_lookup\<close>), and
  deletions are replayed after all puts.
\<close>

section \<open>Restart\<close>

text \<open>\<open>init\<close> of a new engine on the devices of another one, as after a crash of the process.\<close>

definition restarted :: "BtierConfig \<Rightarrow> bytes \<Rightarrow> u64 \<Rightarrow> BtierEngine \<Rightarrow> (int \<times> BtierEngine) option" where
  "restarted cfg pad junk e =
     (case (em_dev (be_em e) FAST, em_dev (be_em e) SLOW) of
        (Some d, Some s) \<Rightarrow> be_init cfg (Inr d) (Inr s) pad junk
          \<lparr>be_cfg = cfg, be_em = new_ExtentMap cfg, be_km = empty_KeyMap, be_journal = None, be_se = new_ScoringEngine cfg,
           be_me = None, be_initialized = False\<rparr>
      | _ \<Rightarrow> None)"

lemma any_allocator: "unat D < 2 ^ 63 \<Longrightarrow> \<exists>a. avl_init_add_free 0 D (new_AvlAllocator D B 0 junk) = Some a"
proof (cases "D = 0")
  case False
  then have "0 < unat D" by (simp add: unat_gt_0)
  moreover assume "unat D < 2 ^ 63"
  ultimately show ?thesis using fresh_allocator [of D B junk] by blast
qed (simp add: avl_init_add_free_def)

definition started :: "BtierConfig \<Rightarrow> BtierEngine \<Rightarrow> BtierEngine" where
  "started cfg e = e\<lparr>be_se := new_ScoringEngine cfg, be_me := Some (me_start new_MigrationEngine), be_initialized := True\<rparr>"

lemma recover_alt:
  "recover_internal recs e =
     (let em3 = replay_frees recs (replay_dead recs (replay_extents recs (be_em e)));
          km = replay_dels recs (replay_puts recs (be_km e));
          em4 = restore_extents km (snapshot em3) em3
      in map_option (\<lambda>em5. let p = fold verify_header (snapshot em5) (km, em5)
                            in (0, e\<lparr>be_km := fst p, be_em := clear_deferred_free (snd p)\<rparr>))
           (mark_allocated (snapshot em4) em4))"
  by (simp add: recover_internal_def Let_def split_def)

lemma recover_zero: "recover_internal recs e = Some (r, e') \<Longrightarrow> r = 0"
  by (auto simp: recover_alt Let_def)

lemma init_recovers:
  assumes j: "jlog_ok ds j d L" and cfg: "cfg_journal_size cfg = ds" and slow: "healthy slow" and ne: "replayed L \<noteq> []"
  shows "\<exists>e1. be_km e1 = empty_KeyMap \<and> em_entries (be_em e1) = [] \<and>
    be_init cfg (Inr d) (Inr slow) pad junk e = map_option (\<lambda>(r, e2). (0, started cfg e2)) (recover_internal (replayed L) e1)"
proof -
  let ?F = "bd_size d" and ?S = "bd_size slow" and ?B = "cfg_block_size cfg" and ?sb = "j_superblock j"
  have k: "disk_ok ds ?sb d L" using j by (simp add: jlog_ok_def)
  then have D: "healthy d" "unat ds \<le> unat ?F" "4096 < unat ds" by (simp_all add: disk_ok_def)
  have reg: "journal_region cfg ?F = ds" using D(2) cfg by (auto simp: journal_region_def word_less_nat_alt)
  have sz: "0 < unat ?F" "unat ?F < 2 ^ 63" "unat ?S < 2 ^ 63" using D slow by (simp_all add: healthy_def)
  obtain aF where aF: "avl_init_add_free 0 ?F (new_AvlAllocator ?F ?B 0 junk) = Some aF" "avl_inv aF" "free_space aF = {..< unat ?F}"
    "av_device_size aF = ?F" "av_block_size aF = ?B" using fresh_allocator [OF sz(1,2)] by blast
  obtain aS where aS: "avl_init_add_free 0 ?S (new_AvlAllocator ?S ?B 0 junk) = Some aS" using any_allocator [OF sz(3)] by blast
  obtain a' where a': "avl_init_rm_free 0 ds aF = Some a'" using reserved_allocator [OF aF(2-4) _ D(2)] D(3) by auto
  have "new_Journal ds pad d = (at_sb ?sb (new_Impl ds pad), d)"
    by (simp add: new_Journal_def read_superblock_ok [OF k])
  moreover have "impl_ok ds (at_sb ?sb (new_Impl ds pad))"
    using k by (auto simp: impl_ok_def at_sb_def new_Impl_def kSuperblockSize_def disk_ok_def word_less_nat_alt)
  ultimately obtain j' where J: "new_Journal ds pad d = (at_sb ?sb (new_Impl ds pad), d)"
    "journal_recover (at_sb ?sb (new_Impl ds pad), d) = Some (replayed L, j', d)" using recover_ok [OF k] by blast
  let ?em = "\<lparr>em_block_size = ?B, em_extent_size = cfg_extent_size cfg, em_entries = [], em_next_extent_id = 1,
    em_alloc = [FAST \<mapsto> a', SLOW \<mapsto> aS], em_dev = [FAST \<mapsto> d, SLOW \<mapsto> slow], em_free_lists = (\<lambda>_. []), em_deferred_free = [],
    em_seqno = 0, em_dirty_headers = []\<rparr>"
  let ?e1 = "e\<lparr>be_cfg := cfg, be_em := ?em, be_km := empty_KeyMap, be_journal := Some j'\<rparr>"
  have "be_init cfg (Inr d) (Inr slow) pad junk e = map_option (\<lambda>(r, e2). (0, started cfg e2)) (recover_internal (replayed L) ?e1)"
    using aF(1) aS a' J reg ne
    by (cases "recover_internal (replayed L) ?e1") (auto dest: recover_zero simp: started_def
        be_init_def new_ExtentMap_def add_allocator_def add_block_device_def init_free_space_def init_free_tier_def
        new_AvlAllocator_def Let_def fun_upd_twist)
  then show ?thesis by (intro exI [of _ ?e1]) simp
qed

section \<open>The recovered key map\<close>

definition deleted :: "bytes \<Rightarrow> JournalRecord list \<Rightarrow> bool" where
  "deleted key recs \<longleftrightarrow> (\<exists>rec \<in> set recs. jr_op rec = OP_KEY_DEL \<and> jr_key rec = key)"

lemma deleted_append [simp]: "deleted key (xs @ ys) \<longleftrightarrow> deleted key xs \<or> deleted key ys"
  by (auto simp: deleted_def)

lemma lookup_replay_dels:
  "km_lookup (replay_dels recs km) key = (if deleted key recs then None else km_lookup km key)"
  unfolding replay_dels_def deleted_def by (induction recs arbitrary: km) (auto simp: km_lookup_erase)

lemma lookup_replay_puts:
  "km_lookup (replay_puts recs km) key \<noteq> None \<Longrightarrow> km_lookup km key \<noteq> None \<or> (\<exists>rec \<in> set recs. jr_op rec = OP_KEY_PUT \<and> jr_key rec = key)"
  unfolding replay_puts_def by (induction recs arbitrary: km) (force simp: km_lookup_put split: if_splits)+

lemma replay_inv: "km_inv km \<Longrightarrow> km_inv (replay_puts recs km)" "km_inv km \<Longrightarrow> km_inv (replay_dels recs km)"
proof -
  show "km_inv km \<Longrightarrow> km_inv (replay_puts recs km)"
    unfolding replay_puts_def by (induction recs arbitrary: km) (simp_all add: km_inv_put)
  show "km_inv km \<Longrightarrow> km_inv (replay_dels recs km)"
    unfolding replay_dels_def by (induction recs arbitrary: km) (simp_all add: km_inv_erase)
qed

text \<open>Checking the headers only removes keys.\<close>

lemma erase_all_none: "km_lookup km key = None \<Longrightarrow> km_lookup (foldl km_erase km ks) key = None"
  by (induction ks arbitrary: km) (simp_all add: km_lookup_erase)

lemma verify_none:
  "km_lookup (fst p) key = None \<Longrightarrow> km_lookup (fst (fold verify_header snaps p)) key = None"
proof (induction snaps arbitrary: p)
  case (Cons s snaps)
  have "km_lookup (fst (verify_header s p)) key = None"
    using Cons.prems by (cases p) (auto simp: verify_header_def Let_def erase_all_none split: option.split prod.split)
  then show ?case using Cons.IH by simp
qed simp

lemma recovered_lookup:
  assumes "recover_internal recs e = Some (r, e')" "km_lookup (replay_dels recs (replay_puts recs (be_km e))) key = None"
  shows "km_lookup (be_km e') key = None"
proof -
  obtain em5 where "be_km e' = fst (fold verify_header (snapshot em5) (replay_dels recs (replay_puts recs (be_km e)), em5))"
    using assms(1) by (auto simp: recover_alt Let_def)
  then show ?thesis
    using verify_none [of "(replay_dels recs (replay_puts recs (be_km e)), em5)" key "snapshot em5"] assms(2) by simp
qed

text \<open>When no key is left, every extent is freed and the recovery succeeds.\<close>

lemma entries_free: "em_entries (em_free k em) = AList.delete k (em_entries em)"
proof (cases "em_lookup em k")
  case None
  then have "k \<notin> fst ` set (em_entries em)" by (simp add: em_lookup_def map_of_eq_None_iff)
  then show ?thesis using None by (simp add: em_free_def delete_id)
qed (simp add: em_free_def Let_def add_deferred_free_def)

lemma restore_empty:
  assumes "\<And>eid. total_live km eid = 0" "fst ` set (em_entries em) \<subseteq> se_extent_id ` set snaps"
  shows "em_entries (restore_extents km snaps em) = []"
  using assms(2)
proof (induction snaps arbitrary: em)
  case (Cons s snaps)
  let ?em = "em_free (se_extent_id s) em"
  have "fst ` set (em_entries ?em) \<subseteq> se_extent_id ` set snaps"
    using Cons.prems by (auto simp: entries_free AList.delete_eq)
  from Cons.IH [OF this] show ?case using assms(1) by (simp add: restore_extents_def Let_def)
qed (simp add: restore_extents_def)

lemma recover_empty:
  assumes inv: "km_inv (be_km e)" and none: "\<And>key. km_lookup (replay_dels recs (replay_puts recs (be_km e))) key = None"
  shows "\<exists>e'. recover_internal recs e = Some (0, e')"
proof -
  let ?km = "replay_dels recs (replay_puts recs (be_km e))"
  have "km_inv ?km" using replay_inv inv by blast
  then have "keys_in_extent ?km eid = []" for eid
    using keys_in_extent_iff [of ?km _ eid] none by (fastforce simp: km_owner_def neq_Nil_conv)
  then have live: "total_live ?km eid = 0" for eid by (simp add: total_live_def)
  let ?em = "replay_frees recs (replay_dead recs (replay_extents recs (be_em e)))"
  have "fst ` set (em_entries ?em) \<subseteq> se_extent_id ` set (snapshot ?em)" by (force simp: snapshot_def)
  from restore_empty [OF live this] show ?thesis
    by (simp add: recover_alt Let_def snapshot_def)
qed


section \<open>The recovered extents\<close>

lemma lookup_free: "em_lookup (em_free k em) = (em_lookup em)(k := None)"
  by (simp add: em_lookup_def entries_free fun_eq_iff AList.delete_conv')

lemma lookup_restored:
  assumes "distinct (map se_extent_id snaps)"
  shows "em_lookup (restore_extents km snaps em) eid =
    (if eid \<in> se_extent_id ` set snaps
     then if total_live km eid = 0 then None
       else map_option (\<lambda>x. x\<lparr>ee_used_bytes := total_live km eid, ee_live_bytes := total_live km eid\<rparr>) (em_lookup em eid)
     else em_lookup em eid)"
  using assms
proof (induction snaps arbitrary: em)
  case (Cons s snaps)
  let ?k = "se_extent_id s" and ?n = "total_live km (se_extent_id s)"
  let ?em = "if ?n = 0 then em_free ?k em else restore_extent_state ?k ?n ?n em"
  have "em_lookup ?em = (em_lookup em)(?k := if ?n = 0 then None
      else map_option (\<lambda>x. x\<lparr>ee_used_bytes := ?n, ee_live_bytes := ?n\<rparr>) (em_lookup em ?k))"
    by (auto simp: entries_free AList.delete_conv' restore_extent_state_def Let_def em_lookup_def mark_dirty_def
        update_free_list_def set_entry_def update_conv' fun_eq_iff split: option.split)
  moreover have "restore_extents km (s # snaps) em = restore_extents km snaps ?em" by (simp add: restore_extents_def Let_def)
  ultimately show ?case using Cons by (auto simp: image_iff)
qed (simp add: restore_extents_def)

lemma lookup_mark_allocated: "mark_allocated snaps em = Some em' \<Longrightarrow> em_lookup em' = em_lookup em"
proof (induction snaps em rule: mark_allocated.induct)
  case (2 s snaps em)
  obtain t a a' where "mark_allocated snaps (add_allocator t a' em) = Some em'" "em_alloc em t = Some a"
    "t = (if dl_tier (se_location s) = FAST then FAST else SLOW)"
    "avl_init_rm_free (dl_offset (se_location s)) (ucast (dl_length (se_location s))) a = Some a'"
    using "2.prems" by (auto simp: Let_def split: option.splits bind_splits)
  then show ?case using "2.IH" by (auto simp: add_allocator_def em_lookup_def)
qed simp

lemma lookup_verified:
  "em_lookup (snd (fold verify_header snaps p)) eid = Some x \<Longrightarrow> em_lookup (snd p) eid = Some x"
proof (induction snaps arbitrary: p)
  case (Cons s snaps)
  have f: "em_lookup (em_free k em) eid = Some x \<Longrightarrow> em_lookup em eid = Some x" for k em
    by (simp add: lookup_free split: if_splits)
  obtain km em where p: "p = (km, em)" by fastforce
  have v: "em_lookup (snd (verify_header s p)) eid = Some x \<Longrightarrow> em_lookup (snd p) eid = Some x"
    unfolding p verify_header_def Let_def prod.case
    by (simp split: option.splits prod.splits if_split_asm) (auto dest!: f)
  from Cons.IH [of "verify_header s p"] Cons.prems have "em_lookup (snd (verify_header s p)) eid = Some x" by simp
  then show ?case by (rule v)
qed simp

text \<open>
  Recovery takes the live bytes of an extent for its used bytes. When a slot before the last one is dead, the next slot
  that is handed out overlaps a live one: the value of another key is written over.
\<close>

lemma recovered_used:
  assumes r: "recover_internal recs e = Some (r, e')" and d: "distinct (map fst (em_entries (be_em e)))"
    and x: "em_lookup (be_em e') eid = Some x"
  shows "ee_used_bytes x = total_live (replay_dels recs (replay_puts recs (be_km e))) eid"
proof -
  let ?km = "replay_dels recs (replay_puts recs (be_km e))"
  let ?em = "replay_frees recs (replay_dead recs (replay_extents recs (be_em e)))"
  let ?em4 = "restore_extents ?km (snapshot ?em) ?em"
  obtain em5 where m: "mark_allocated (snapshot ?em4) ?em4 = Some em5"
    "be_em e' = clear_deferred_free (snd (fold verify_header (snapshot em5) (?km, em5)))"
    using r by (auto simp: recover_alt Let_def)
  have "em_lookup (snd (fold verify_header (snapshot em5) (?km, em5))) eid = Some x"
    using x m(2) by (simp add: clear_deferred_free_def em_lookup_def)
  then have "em_lookup em5 eid = Some x" using lookup_verified [of "snapshot em5" "(?km, em5)" eid x] by simp
  then have x4: "em_lookup ?em4 eid = Some x" using lookup_mark_allocated [OF m(1)] by simp
  have fold: "distinct (map fst (em_entries (fold g recs em)))"
    if "\<And>rec em. distinct (map fst (em_entries em)) \<Longrightarrow> distinct (map fst (em_entries (g rec em)))"
      "distinct (map fst (em_entries em))" for g em
    using that by (induction recs arbitrary: em) simp_all
  have c: "distinct (map fst (em_entries em)) \<Longrightarrow> distinct (map fst (em_entries (create_entry_from_journal k l em)))" for k l em
    by (simp add: create_entry_from_journal_def Let_def set_entry_def distinct_update)
  have m: "distinct (map fst (em_entries em)) \<Longrightarrow> distinct (map fst (em_entries (mark_dead_slot k n em)))" for k n em
    by (simp add: mark_dead_slot_def Let_def set_entry_def mark_dirty_def update_free_list_def distinct_update split: option.split)
  have f: "distinct (map fst (em_entries em)) \<Longrightarrow> distinct (map fst (em_entries (em_free k em)))" for k em
    by (simp add: entries_free distinct_delete)
  have "distinct (map fst (em_entries (replay_extents recs (be_em e))))"
    unfolding replay_extents_def by (rule fold [OF _ d]) (simp add: c)
  then have "distinct (map fst (em_entries (replay_dead recs (replay_extents recs (be_em e)))))"
    unfolding replay_dead_def by (rule fold [rotated]) (simp add: m)
  then have "distinct (map fst (em_entries ?em))"
    unfolding replay_frees_def by (rule fold [rotated]) (simp add: f)
  then have s: "distinct (map se_extent_id (snapshot ?em))" "se_extent_id ` set (snapshot ?em) = fst ` set (em_entries ?em)"
    by (simp_all add: snapshot_def comp_def case_prod_beta image_image)
  show ?thesis
  proof (cases "eid \<in> fst ` set (em_entries ?em)")
    case True
    then show ?thesis using x4 s by (auto simp: lookup_restored [OF s(1)] split: if_splits)
  next
    case False
    then have "em_lookup ?em eid = None" by (simp add: em_lookup_def map_of_eq_None_iff)
    then show ?thesis using x4 s False by (simp add: lookup_restored [OF s(1)])
  qed
qed

lemma recovered_slot_overlaps:
  assumes "recover_internal recs e = Some (r, e')" "distinct (map fst (em_entries (be_em e)))"
    and "append_slot (kl_extent_id kl) sz (be_em e') = (off, em')" "off \<noteq> NO_SLOT"
    and "unat (total_live (replay_dels recs (replay_puts recs (be_km e))) (kl_extent_id kl)) < unat (kl_offset kl) + unat (kl_length kl)"
  shows "unat off < unat (kl_offset kl) + unat (kl_length kl)"
proof -
  obtain x where "em_lookup (be_em e') (kl_extent_id kl) = Some x" "off = ee_used_bytes x"
    using assms(3,4) by (auto simp: append_slot_def Let_def split: option.splits if_splits)
  then show ?thesis using recovered_used [OF assms(1,2)] assms(5) by simp
qed

section \<open>Restarting\<close>

lemma restart_total:
  assumes ok: "eng_ok ds pend e L" and cfg: "cfg_journal_size cfg = ds" and ne: "replayed L \<noteq> []"
    and del: "\<And>rec. rec \<in> set (replayed L) \<Longrightarrow> jr_op rec = OP_KEY_PUT \<Longrightarrow> deleted (jr_key rec) (replayed L)"
  shows "\<exists>e'. restarted cfg pad junk e = Some (0, e')"
proof -
  obtain j d where d: "em_dev (be_em e) FAST = Some d" "jlog_ok ds j d L" using ok by (auto simp: eng_ok_def)
  have "geom (be_em e)" using ok by (simp add: eng_ok_def store_ok_def)
  then obtain s where s: "em_dev (be_em e) SLOW = Some s" "healthy s" unfolding geom_def named_tier_def by blast
  let ?e = "\<lparr>be_cfg = cfg, be_em = new_ExtentMap cfg, be_km = empty_KeyMap, be_journal = None, be_se = new_ScoringEngine cfg,
           be_me = None, be_initialized = False\<rparr>"
  from init_recovers [OF d(2) cfg s(2) ne, of pad junk ?e] obtain e1 where e1: "be_km e1 = empty_KeyMap"
    "be_init cfg (Inr d) (Inr s) pad junk ?e = map_option (\<lambda>(r, e2). (0, started cfg e2)) (recover_internal (replayed L) e1)" by blast
  have "km_lookup empty_KeyMap key = None" for key by (simp add: km_lookup_def empty_KeyMap_def)
  then have "km_lookup (replay_dels (replayed L) (replay_puts (replayed L) empty_KeyMap)) key = None" for key
    using lookup_replay_puts [of "replayed L" empty_KeyMap key] del unfolding lookup_replay_dels by (metis (full_types))
  then obtain e2 where "recover_internal (replayed L) e1 = Some (0, e2)"
    using recover_empty [of e1 "replayed L"] e1(1) km_inv_empty by auto
  then show ?thesis using d(1) s(1) e1(2) by (simp add: restarted_def)
qed

lemma restart_deleted:
  assumes ok: "eng_ok ds pend e L" and cfg: "cfg_journal_size cfg = ds" and del: "deleted key (replayed L)"
    and r: "restarted cfg pad junk e = Some (r, e')"
  shows "r = 0" "get t key e' = Some (- ENOENT, [], e')"
proof -
  obtain j d where d: "em_dev (be_em e) FAST = Some d" "jlog_ok ds j d L" using ok by (auto simp: eng_ok_def)
  have "geom (be_em e)" using ok by (simp add: eng_ok_def store_ok_def)
  then obtain s where s: "em_dev (be_em e) SLOW = Some s" "healthy s" unfolding geom_def named_tier_def by blast
  have ne: "replayed L \<noteq> []" using del by (auto simp: deleted_def)
  let ?e = "\<lparr>be_cfg = cfg, be_em = new_ExtentMap cfg, be_km = empty_KeyMap, be_journal = None, be_se = new_ScoringEngine cfg,
           be_me = None, be_initialized = False\<rparr>"
  obtain e1 where "be_init cfg (Inr d) (Inr s) pad junk ?e = map_option (\<lambda>(r, e2). (0, started cfg e2)) (recover_internal (replayed L) e1)"
    using init_recovers [OF d(2) cfg s(2) ne, of pad junk ?e] by blast
  then have "map_option (\<lambda>(r, e2). (0, started cfg e2)) (recover_internal (replayed L) e1) = Some (r, e')"
    using r d(1) s(1) by (simp add: restarted_def)
  then obtain r2 e2 where e1: "recover_internal (replayed L) e1 = Some (r2, e2)" "r = 0" "e' = started cfg e2" by auto
  have "km_lookup (replay_dels (replayed L) (replay_puts (replayed L) (be_km e1))) key = None"
    using del by (simp add: lookup_replay_dels)
  then have "km_lookup (be_km e2) key = None" by (rule recovered_lookup [OF e1(1)])
  then show "r = 0" "get t key e' = Some (- ENOENT, [], e')" using e1(2,3) by (simp_all add: started_def get_def)
qed

text \<open>The keys a \<open>put\<close> and a \<open>del\<close> leave in the journal.\<close>

lemma put_logged_keys:
  assumes "put_logged key kl new" "rec \<in> set (replayed new)" "jr_op rec = OP_KEY_PUT"
  shows "jr_key rec = key"
proof -
  obtain pre tid recs where n: "extents_only pre" "\<forall>rec \<in> set recs. jr_op rec = OP_MARK_DEAD"
    "new = pre @ [(tid, stamped tid (recs @ [put_record key kl]), False)]" using assms(1) by (auto simp: put_logged_def)
  have "\<forall>rec \<in> set (replayed pre). jr_op rec = OP_EXTENT_NEW" using n(1) by (auto simp: extents_only_def replayed_def)
  then show ?thesis
    using assms(2,3) n(2,3) by (auto simp: replayed_def stamped_def op_defs put_record_def new_record_def view_fields)
qed

lemma del_logged_keys:
  assumes "new = [(tid, stamped tid [del_record key, dead_record ol], False)]"
  shows "deleted key (replayed new)" "rec \<in> set (replayed new) \<Longrightarrow> jr_op rec \<noteq> OP_KEY_PUT"
  using assms by (auto simp: deleted_def replayed_def stamped_def del_record_def dead_record_def new_record_def view_fields op_defs)

section \<open>Properties\<close>

text \<open>C3: a key that is put again after a deletion is lost by a restart. When the journal holds a deletion of the key, \<open>put\<close>
  returns 0 as always (given space) and \<open>get\<close> reads the value back, but \<open>recover_internal\<close> replays all deletions after all
  puts: a restart on the devices, by \<open>init\<close>, returns 0 and \<open>get\<close> answers \<open>-ENOENT\<close>. (\<open>room\<close>: no checkpoint is due yet.)\<close>

theorem put_after_del_lost:
  assumes ok: "eng_ok ds (\<lambda>_. 0) e L" and room: "room ds (3 * txn_cost key) e" and fit: "put_fits e val" "length key < 2 ^ 32"
    and del: "deleted key (replayed L)" and cfg: "cfg_journal_size cfg = ds"
  shows "\<exists>r e'. put now key val e = Some (r, e') \<and> (has_space e val \<longrightarrow> r = 0) \<and>
    (r = 0 \<longrightarrow> (\<exists>e2. get t key e' = Some (0, val, e2))) \<and>
    (\<forall>r2 e2. restarted cfg pad junk e' = Some (r2, e2) \<longrightarrow> r2 = 0 \<and> get t key e2 = Some (- ENOENT, [], e2))"
proof -
  have rm: "room ds (3 * txn_cost key + 0) e" using room by simp
  from put_ok [OF ok rm fit, of now] obtain r e' new where P: "put now key val e = Some (r, e')" "eng_ok ds (\<lambda>_. 0) e' (L @ new)"
    "r = 0 \<and> stored e' = (stored e)(key \<mapsto> val) \<or> r \<in> {- ENOSPC, - EIO}" by blast
  have "has_space e val \<longrightarrow> r = 0" using put_succeeds(1) [OF ok rm fit _ P(1)] by blast
  moreover have "\<exists>e2. get t key e' = Some (0, val, e2)" if "r = 0"
    using get_ok [OF P(2), of t key] P(3) that by (auto simp: errno_defs)
  moreover have "deleted key (replayed (L @ new))" using del by (simp add: replayed_def)
  note restart_deleted [OF P(2) cfg this]
  ultimately show ?thesis using P(1) by blast
qed

theorem put_after_del_lost_witness:
  "\<exists>e e1 e2 e3 e4 e5. be_init demo_cfg (Inr demo_disk) (Inr demo_disk) [] 0 no_engine = Some (0, e) \<and>
     put 1 [7] [1, 2] e = Some (0, e1) \<and> del [7] e1 = Some (0, e2) \<and> put 2 [7] [3] e2 = Some (0, e3) \<and>
     get 3 [7] e3 = Some (0, [3], e4) \<and> restarted demo_cfg [] 0 e3 = Some (0, e5) \<and> get 3 [7] e5 = Some (- ENOENT, [], e5)"
proof -
  obtain e where e: "be_init demo_cfg (Inr demo_disk) (Inr demo_disk) [] 0 no_engine = Some (0, e)" "ready 0x100000 8 1000 20 e"
    "eng_ok 0x100000 (\<lambda>_. 0) e [(0, [], True)]" "be_cfg e = demo_cfg" "em_block_size (be_em e) = 4096" "fast_run 0xF00000 e"
    by (rule demo_start)
  let ?n = "3 * txn_cost [7]" and ?k = "[7] :: bytes"
  have rm: "room 0x100000 (?n + (txn_cost ?k + (?n + 0))) e"
    using e(2) by (auto simp: ready_def txn_cost_def call_cost_def elim!: room_less)
  have nx: "unat (em_next_extent_id (be_em e)) + 8 < 2 ^ 64" using e(2) by (simp add: ready_def)
  have fits: "put_fits e' v" if "be_cfg e' = demo_cfg" "em_block_size (be_em e') = 4096" "v \<noteq> []" "length v < 1000"
    "unat (em_next_extent_id (be_em e')) + 2 < 2 ^ 64" for e' v using that by (simp add: put_fits_def demo_cfg_ok)
  have f0: "put_fits e [1, 2]" "length ?k < 2 ^ 32" using fits [OF e(4,5)] nx by simp_all
  have s0: "has_space e [1, 2]" using demo_extent(2) [OF e(4,5)] fast_run_less [OF e(6)] by simp
  from put_ok [OF e(3) rm f0, of 1] obtain r e1 new1 where p1: "put 1 ?k [1, 2] e = Some (r, e1)" "eng_ok 0x100000 (\<lambda>_. 0) e1 ([(0, [], True)] @ new1)"
    "room 0x100000 (txn_cost ?k + (?n + 0)) e1" "grown 2 e e1" "r = 0 \<and> stored e1 = (stored e)(?k \<mapsto> [1, 2]) \<and> (\<exists>kl. put_logged ?k kl new1) \<or> r \<noteq> 0"
    by (auto simp: errno_defs)
  note S1 = put_succeeds [OF e(3) rm f0 s0 p1(1)]
  have run1: "fast_run 0x400000 e1"
    by (rule fast_run_took [OF _ S1(2)]) (use p1(4) e(5) demo_extent(1) [OF e(4,5)] fast_run_less [OF e(6)] in \<open>simp_all add: grown_def\<close>)
  from del_ok [OF p1(2,3) f0(2)] obtain r2 e2 new2 where d: "del ?k e1 = Some (r2, e2)"
    "eng_ok 0x100000 (\<lambda>_. 0) e2 (([(0, [], True)] @ new1) @ new2)" "room 0x100000 (?n + 0) e2" "grown 0 e1 e2"
    "r2 = (if stored e1 ?k = None then - ENOENT else 0)"
    "r2 = 0 \<longrightarrow> (\<exists>tid ol. new2 = [(tid, stamped tid [del_record ?k, dead_record ol], False)])" by blast
  have r2: "r2 = 0" using d(5) p1(5) S1(1) by simp
  obtain tid ol where n2: "new2 = [(tid, stamped tid [del_record ?k, dead_record ol], False)]" using d(6) r2 by blast
  have c2: "be_cfg e2 = demo_cfg" "em_block_size (be_em e2) = 4096" "unat (em_next_extent_id (be_em e2)) + 2 < 2 ^ 64"
    using p1(4) d(4) e(4,5) nx by (simp_all add: grown_def)
  have run2: "fast_run 0x400000 e2" using run1 del_alloc [OF d(1)] d(4) by (simp add: fast_run_def grown_def)
  have s2: "has_space e2 [3]" using demo_extent(2) [OF c2(1,2)] run2 by simp
  have f2: "put_fits e2 [3]" using fits [OF c2(1,2)] c2(3) by simp
  let ?L = "([(0, [], True)] @ new1) @ new2"
  have del: "deleted ?k (replayed ?L)" using del_logged_keys(1) [OF n2] by (simp add: replayed_def)
  have rm2: "room 0x100000 (3 * txn_cost ?k) e2" using d(3) by simp
  have cfg: "cfg_journal_size demo_cfg = 0x100000" by (simp add: demo_cfg_def)
  from put_after_del_lost [OF d(2) rm2 f2 f0(2) del cfg, of 2 3 "[]" 0] s2 obtain e3 where T: "put 2 ?k [3] e2 = Some (0, e3)"
    "\<exists>e4. get 3 ?k e3 = Some (0, [3], e4)"
    "\<forall>r2 e2. restarted demo_cfg [] 0 e3 = Some (r2, e2) \<longrightarrow> r2 = 0 \<and> get 3 ?k e2 = Some (- ENOENT, [], e2)" by auto
  from put_ok [OF d(2,3) f2 f0(2), of 2] T(1) obtain new3 kl where p3: "eng_ok 0x100000 (\<lambda>_. 0) e3 (?L @ new3)" "put_logged ?k kl new3"
    by (auto simp: errno_defs)
  obtain kl1 where l1: "put_logged ?k kl1 new1" using p1(5) S1(1) by blast
  have "\<exists>e5. restarted demo_cfg [] 0 e3 = Some (0, e5)"
  proof (rule restart_total [OF p3(1) cfg])
    have app: "replayed (?L @ new3) = replayed ?L @ replayed new3" by (simp only: replayed_def map_append concat_append)
    have l: "replayed ?L = replayed new1 @ replayed new2" by (simp add: replayed_def)
    have "replayed ?L \<noteq> []" using del by (auto simp: deleted_def)
    then show "replayed (?L @ new3) \<noteq> []" unfolding app by (simp only: append_is_Nil_conv) simp
    fix rec assume "rec \<in> set (replayed (?L @ new3))" and o: "jr_op rec = OP_KEY_PUT"
    then consider "rec \<in> set (replayed new1)" | "rec \<in> set (replayed new2)" | "rec \<in> set (replayed new3)"
      unfolding app l by (simp only: set_append Un_iff) blast
    then have "jr_key rec = ?k"
      using o by cases (rule put_logged_keys [OF l1], assumption+, use del_logged_keys(2) [OF n2] in blast,
        rule put_logged_keys [OF p3(2)], assumption+)
    then show "deleted (jr_key rec) (replayed (?L @ new3))" using del unfolding app by (simp only: deleted_append simp_thms)
  qed
  then show ?thesis using e(1) p1(1) S1(1) d(1) r2 T by blast
qed

end
