(* ===== verification/Config_Json.thy ===== *)
theory Config_Json
  imports Btier_Config "HOL-Library.AList" "HOL-Library.Monad_Syntax"
begin

text \<open>
  \<open>btier/config.cc\<close>: the JSON parser, the writer, and \<open>load\<close> and \<open>save\<close> of the configuration. Texts are byte strings; the
  position of the parser is the rest of the text. The parser calls itself once for every nested value and loops
  over the members of an object or array; the fuel of its model bounds how deep the calls and rounds nest. \<open>std::stod\<close>,
  the output of a number and the conversions between number types are written out from the standard.
\<close>

section \<open>Values\<close>

text \<open>\<open>JsonValue\<close>, of which only the part that belongs to the type is used. The members of an object are a map.\<close>

datatype json =
    JNull
  | JBool bool
  | JNumber real
  | JString bytes
  | JObject "(bytes \<times> json) list"
  | JArray "json list"

definition as_number :: "json \<Rightarrow> real \<Rightarrow> real" where
  "as_number v x = (case v of JNumber n \<Rightarrow> n | _ \<Rightarrow> x)"

definition as_string :: "json \<Rightarrow> bytes" where
  "as_string v = (case v of JString s \<Rightarrow> s | _ \<Rightarrow> [])"

definition is_object :: "json \<Rightarrow> bool" where
  "is_object v = (case v of JObject _ \<Rightarrow> True | _ \<Rightarrow> False)"

definition json_get :: "json \<Rightarrow> bytes \<Rightarrow> json option" where
  "json_get v key = (case v of JObject ms \<Rightarrow> map_of ms key | _ \<Rightarrow> None)"

text \<open>The bytes of a literal.\<close>

definition str :: "string \<Rightarrow> bytes" where
  "str s = map of_char s"

abbreviation chr :: "string \<Rightarrow> u8" where
  "chr s \<equiv> of_char (hd s)"

section \<open>Numbers\<close>

definition is_digit :: "u8 \<Rightarrow> bool" where
  "is_digit c \<longleftrightarrow> 48 \<le> c \<and> c \<le> 57"

definition dec_value :: "bytes \<Rightarrow> nat" where
  "dec_value ds = foldl (\<lambda>n c. 10 * n + unat (c - 48)) 0 ds"

definition split_sign :: "bytes \<Rightarrow> bool \<times> bytes" where
  "split_sign s = (case s of [] \<Rightarrow> (False, []) | c # t \<Rightarrow> if c = chr ''-'' then (True, t) else if c = chr ''+'' then (False, t) else (False, s))"

text \<open>The exponent of a number: what is no exponent ends the number.\<close>

definition exponent :: "bytes \<Rightarrow> int" where
  "exponent s =
     (case s of
        [] \<Rightarrow> 0
      | c # t \<Rightarrow>
          if c = chr ''e'' \<or> c = chr ''E''
          then (let (neg, u) = split_sign t; ds = takeWhile is_digit u
                in if neg then - int (dec_value ds) else int (dec_value ds))
          else 0)"

text \<open>The exact value of the longest prefix that is a number.\<close>

definition number_value :: "bytes \<Rightarrow> real option" where
  "number_value s =
     (let (neg, s1) = split_sign s;
          ip = takeWhile is_digit s1;
          s2 = dropWhile is_digit s1;
          (fr, s3) = (case s2 of
                        [] \<Rightarrow> ([], [])
                      | c # t \<Rightarrow> if c = chr ''.'' then (takeWhile is_digit t, dropWhile is_digit t) else ([], s2))
      in if ip = [] \<and> fr = [] then None
         else let x = of_nat (dec_value (ip @ fr)) * 10 powi (exponent s3 - int (length fr))
              in Some (if neg then - x else x))"

text \<open>
  \<open>std::stod\<close>: \<open>None\<close> for the exceptions \<open>invalid_argument\<close> and \<open>out_of_range\<close>, which \<open>strtod\<close> reports for a value that
  rounds beyond the largest \<open>double\<close> and for an inexact one below the smallest normal \<open>double\<close>.
\<close>

definition stod :: "fpu \<Rightarrow> bytes \<Rightarrow> real option" where
  "stod fp s =
     (case number_value s of
        None \<Rightarrow> None
      | Some x \<Rightarrow>
          if 2 ^ 1024 - 2 ^ 970 \<le> \<bar>x\<bar> \<or> \<bar>x\<bar> * 2 ^ 1022 < 1 \<and> double fp x \<noteq> x then None else Some (double fp x))"

section \<open>Parser\<close>

text \<open>What a parsing function comes to: the model is out of fuel, \<open>false\<close>, or \<open>true\<close> with the value and the rest.\<close>

datatype parse = Running | Bad | Good json bytes

definition is_ws :: "u8 \<Rightarrow> bool" where
  "is_ws c \<longleftrightarrow> c = 32 \<or> c = 9 \<or> c = 10 \<or> c = 13"

definition skip_ws :: "bytes \<Rightarrow> bytes" where
  "skip_ws p = dropWhile is_ws p"

definition unescape :: "u8 \<Rightarrow> u8" where
  "unescape e = (if e = chr ''n'' then 10 else if e = chr ''t'' then 9 else if e = chr ''r'' then 13
     else if e = chr ''b'' then 8 else if e = chr ''f'' then 12 else e)"

fun string_loop :: "bytes \<Rightarrow> bytes \<Rightarrow> (bytes \<times> bytes) option" where
  "string_loop s [] = None"
| "string_loop s (c # p) =
     (if c = 34 then Some (s, p)
      else if c = 92 then (case p of [] \<Rightarrow> None | e # q \<Rightarrow> string_loop (s @ [unescape e]) q)
      else string_loop (s @ [c]) p)"

definition parse_string :: "bytes \<Rightarrow> (bytes \<times> bytes) option" where
  "parse_string p = string_loop [] (drop 1 p)"

definition prefix_of :: "bytes \<Rightarrow> bytes \<Rightarrow> bool" where
  "prefix_of w p \<longleftrightarrow> take (length w) p = w"

definition parse_bool :: "bytes \<Rightarrow> parse" where
  "parse_bool p =
     (if prefix_of (str ''true'') p then Good (JBool True) (drop 4 p)
      else if prefix_of (str ''false'') p then Good (JBool False) (drop 5 p)
      else Bad)"

definition parse_null :: "bytes \<Rightarrow> parse" where
  "parse_null p = (if prefix_of (str ''null'') p then Good JNull (drop 4 p) else Bad)"

definition is_num_char :: "u8 \<Rightarrow> bool" where
  "is_num_char c \<longleftrightarrow> is_digit c \<or> c = chr ''.'' \<or> c = chr ''e'' \<or> c = chr ''E'' \<or> c = chr ''+'' \<or> c = chr ''-''"

definition parse_number :: "fpu \<Rightarrow> bytes \<Rightarrow> parse" where
  "parse_number fp p =
     (let num_str = takeWhile is_num_char p
      in if num_str = [] then Bad
         else case stod fp num_str of None \<Rightarrow> Bad | Some x \<Rightarrow> Good (JNumber x) (dropWhile is_num_char p))"

fun parse_value :: "fpu \<Rightarrow> nat \<Rightarrow> bytes \<Rightarrow> parse"
and parse_members :: "fpu \<Rightarrow> nat \<Rightarrow> (bytes \<times> json) list \<Rightarrow> bytes \<Rightarrow> parse"
and parse_elements :: "fpu \<Rightarrow> nat \<Rightarrow> json list \<Rightarrow> bytes \<Rightarrow> parse"
where
  "parse_value fp 0 p = Running"
| "parse_value fp (Suc n) p =
     (case skip_ws p of
        [] \<Rightarrow> Bad
      | c # q \<Rightarrow>
          if c = chr ''{''
          then (case skip_ws q of
                  [] \<Rightarrow> parse_members fp n [] []
                | d # r \<Rightarrow> if d = chr ''}'' then Good (JObject []) r else parse_members fp n [] (d # r))
          else if c = chr ''[''
          then (case skip_ws q of
                  [] \<Rightarrow> parse_elements fp n [] []
                | d # r \<Rightarrow> if d = chr '']'' then Good (JArray []) r else parse_elements fp n [] (d # r))
          else if c = 34
          then (case parse_string (c # q) of None \<Rightarrow> Bad | Some (s, r) \<Rightarrow> Good (JString s) r)
          else if c = chr ''t'' \<or> c = chr ''f'' then parse_bool (c # q)
          else if c = chr ''n'' then parse_null (c # q)
          else parse_number fp (c # q))"
| "parse_members fp 0 ms p = Running"
| "parse_members fp (Suc n) ms p =
     (case skip_ws p of
        [] \<Rightarrow> Bad
      | c # q \<Rightarrow>
          if c \<noteq> 34 then Bad
          else case parse_string (c # q) of
                 None \<Rightarrow> Bad
               | Some (key, r) \<Rightarrow>
                   (case skip_ws r of
                      [] \<Rightarrow> Bad
                    | d # t \<Rightarrow>
                        if d \<noteq> chr '':'' then Bad
                        else case parse_value fp n t of
                               Good v u \<Rightarrow>
                                 (case skip_ws u of
                                    [] \<Rightarrow> Bad
                                  | e # w \<Rightarrow>
                                      if e = chr '','' then parse_members fp n (AList.update key v ms) w
                                      else if e = chr ''}'' then Good (JObject (AList.update key v ms)) w
                                      else Bad)
                             | x \<Rightarrow> x))"
| "parse_elements fp 0 vs p = Running"
| "parse_elements fp (Suc n) vs p =
     (case parse_value fp n p of
        Good v u \<Rightarrow>
          (case skip_ws u of
             [] \<Rightarrow> Bad
           | e # w \<Rightarrow>
               if e = chr '','' then parse_elements fp n (vs @ [v]) w
               else if e = chr '']'' then Good (JArray (vs @ [v])) w
               else Bad)
      | x \<Rightarrow> x)"

text \<open>\<open>JsonParser::parse\<close>: text behind the first value is not looked at.\<close>

definition json_parse :: "fpu \<Rightarrow> nat \<Rightarrow> bytes \<Rightarrow> parse" where
  "json_parse fp n text = (case skip_ws text of [] \<Rightarrow> Bad | c # q \<Rightarrow> parse_value fp n (c # q))"

section \<open>Loading\<close>

text \<open>Conversion of a \<open>double\<close> to an unsigned integer: \<open>None\<close> where the language leaves it undefined.\<close>

definition to_unsigned :: "nat \<Rightarrow> real \<Rightarrow> int option" where
  "to_unsigned w x = (if - 1 < x \<and> x < 2 ^ w then Some (if x < 0 then 0 else \<lfloor>x\<rfloor>) else None)"

definition to_u64 :: "real \<Rightarrow> u64 option" where
  "to_u64 x = map_option word_of_int (to_unsigned 64 x)"

definition to_u32 :: "real \<Rightarrow> u32 option" where
  "to_u32 x = map_option word_of_int (to_unsigned 32 x)"

text \<open>\<open>if (auto *v = root.get(key)) ...\<close>\<close>

definition on_key :: "json \<Rightarrow> string \<Rightarrow> (json \<Rightarrow> 'c \<Rightarrow> 'c option) \<Rightarrow> 'c \<Rightarrow> 'c option" where
  "on_key obj key f c = (case json_get obj (str key) of None \<Rightarrow> Some c | Some v \<Rightarrow> f v c)"

definition load_weights :: "fpu \<Rightarrow> json \<Rightarrow> WeightSet \<Rightarrow> WeightSet option" where
  "load_weights fp ws w0 =
     (if \<not> is_object ws then Some w0
      else do {
        w1 \<leftarrow> on_key ws ''w_recency'' (\<lambda>v w. Some (w\<lparr>w_recency := single fp (as_number v (w_recency w))\<rparr>)) w0;
        w2 \<leftarrow> on_key ws ''w_frequency'' (\<lambda>v w. Some (w\<lparr>w_frequency := single fp (as_number v (w_frequency w))\<rparr>)) w1;
        w3 \<leftarrow> on_key ws ''w_randomness'' (\<lambda>v w. Some (w\<lparr>w_randomness := single fp (as_number v (w_randomness w))\<rparr>)) w2;
        on_key ws ''w_write_penalty'' (\<lambda>v w. Some (w\<lparr>w_write_penalty := single fp (as_number v (w_write_penalty w))\<rparr>)) w3
      })"

definition number_u64 :: "fpu \<Rightarrow> json \<Rightarrow> u64 \<Rightarrow> u64 option" where
  "number_u64 fp v x = to_u64 (as_number v (double fp (of_nat (unat x))))"

definition number_u32 :: "fpu \<Rightarrow> json \<Rightarrow> u32 \<Rightarrow> u32 option" where
  "number_u32 fp v x = to_u32 (as_number v (double fp (of_nat (unat x))))"

definition load_root :: "fpu \<Rightarrow> json \<Rightarrow> BtierConfig \<Rightarrow> BtierConfig option" where
  "load_root fp obj c0 = do {
     c \<leftarrow> on_key obj ''fast_dev_path'' (\<lambda>v c. Some (c\<lparr>cfg_fast_dev_path := as_string v\<rparr>)) c0;
     c \<leftarrow> on_key obj ''slow_dev_path'' (\<lambda>v c. Some (c\<lparr>cfg_slow_dev_path := as_string v\<rparr>)) c;
     c \<leftarrow> on_key obj ''extent_size''
       (\<lambda>v c. map_option (\<lambda>x. c\<lparr>cfg_extent_size := x\<rparr>) (number_u64 fp v (cfg_extent_size c))) c;
     c \<leftarrow> on_key obj ''block_size''
       (\<lambda>v c. map_option (\<lambda>x. c\<lparr>cfg_block_size := x\<rparr>) (number_u64 fp v (cfg_block_size c))) c;
     c \<leftarrow> on_key obj ''large_value_threshold''
       (\<lambda>v c. map_option (\<lambda>x. c\<lparr>cfg_large_value_threshold := x\<rparr>) (number_u64 fp v (cfg_large_value_threshold c))) c;
     c \<leftarrow> on_key obj ''low_watermark'' (\<lambda>v c. Some (c\<lparr>cfg_low_watermark := as_number v (cfg_low_watermark c)\<rparr>)) c;
     c \<leftarrow> on_key obj ''high_watermark'' (\<lambda>v c. Some (c\<lparr>cfg_high_watermark := as_number v (cfg_high_watermark c)\<rparr>)) c;
     c \<leftarrow> on_key obj ''scan_interval_ms''
       (\<lambda>v c. map_option (\<lambda>x. c\<lparr>cfg_scan_interval_ms := x\<rparr>) (number_u32 fp v (cfg_scan_interval_ms c))) c;
     c \<leftarrow> on_key obj ''max_migrations_per_cycle''
       (\<lambda>v c. map_option (\<lambda>x. c\<lparr>cfg_max_migrations_per_cycle := x\<rparr>) (number_u32 fp v (cfg_max_migrations_per_cycle c))) c;
     c \<leftarrow> on_key obj ''max_compactions_per_cycle''
       (\<lambda>v c. map_option (\<lambda>x. c\<lparr>cfg_max_compactions_per_cycle := x\<rparr>) (number_u32 fp v (cfg_max_compactions_per_cycle c))) c;
     c \<leftarrow> on_key obj ''promote_threshold''
       (\<lambda>v c. Some (c\<lparr>cfg_promote_threshold := single fp (as_number v (cfg_promote_threshold c))\<rparr>)) c;
     c \<leftarrow> on_key obj ''demote_threshold''
       (\<lambda>v c. Some (c\<lparr>cfg_demote_threshold := single fp (as_number v (cfg_demote_threshold c))\<rparr>)) c;
     c \<leftarrow> on_key obj ''compaction_dead_ratio''
       (\<lambda>v c. Some (c\<lparr>cfg_compaction_dead_ratio := as_number v (cfg_compaction_dead_ratio c)\<rparr>)) c;
     c \<leftarrow> on_key obj ''compaction_usage_ratio''
       (\<lambda>v c. Some (c\<lparr>cfg_compaction_usage_ratio := as_number v (cfg_compaction_usage_ratio c)\<rparr>)) c;
     c \<leftarrow> on_key obj ''cool_interval_sec''
       (\<lambda>v c. map_option (\<lambda>x. c\<lparr>cfg_cool_interval_sec := x\<rparr>) (number_u32 fp v (cfg_cool_interval_sec c))) c;
     c \<leftarrow> on_key obj ''sequential_threshold''
       (\<lambda>v c. map_option (\<lambda>x. c\<lparr>cfg_sequential_threshold := x\<rparr>) (number_u64 fp v (cfg_sequential_threshold c))) c;
     c \<leftarrow> on_key obj ''journal_size''
       (\<lambda>v c. map_option (\<lambda>x. c\<lparr>cfg_journal_size := x\<rparr>) (number_u64 fp v (cfg_journal_size c))) c;
     on_key obj ''base_weights''
       (\<lambda>v c. map_option (\<lambda>w. c\<lparr>cfg_base_weights := w\<rparr>) (load_weights fp v (cfg_base_weights c))) c
   }"

text \<open>\<open>BtierConfig::load\<close> of a file with the given text, or of one that cannot be opened. The fuel is that of \<open>json_fuel\<close>.\<close>

definition json_fuel :: "bytes \<Rightarrow> nat" where
  "json_fuel text = 2 * length text + 1"

definition load :: "fpu \<Rightarrow> bytes option \<Rightarrow> BtierConfig option" where
  "load fp file =
     (case file of
        None \<Rightarrow> Some (default_BtierConfig fp)
      | Some text \<Rightarrow>
          (case json_parse fp (json_fuel text) text of
             Good obj rest \<Rightarrow>
               if is_object obj then load_root fp obj (default_BtierConfig fp) else Some (default_BtierConfig fp)
           | _ \<Rightarrow> Some (default_BtierConfig fp)))"

section \<open>Writing\<close>

fun esc_chars :: "bytes \<Rightarrow> bytes" where
  "esc_chars [] = []"
| "esc_chars (c # s) =
     (if c = 34 then [92, 34] else if c = 92 then [92, 92] else if c = 10 then [92, chr ''n'']
      else if c = 9 then [92, chr ''t''] else if c = 13 then [92, chr ''r''] else [c]) @ esc_chars s"

definition esc_json :: "bytes \<Rightarrow> bytes" where
  "esc_json s = [34] @ esc_chars s @ [34]"

text \<open>The output of an unsigned integer, most significant digit first.\<close>

fun put_nat :: "nat \<Rightarrow> bytes" where
  "put_nat n = (if n < 10 then [48 + of_nat n] else put_nat (n div 10) @ [48 + of_nat (n mod 10)])"

text \<open>
  The output of a \<open>double\<close> by a stream with its default format, that of \<open>%g\<close> with six significant digits: the decimal
  exponent, the digits rounded to nearest (ties to even), and trailing zeros dropped.
\<close>

definition round_even :: "real \<Rightarrow> int" where
  "round_even x = (let n = \<lfloor>x\<rfloor>; d = x - of_int n
     in if d < 1 / 2 then n else if 1 / 2 < d then n + 1 else if even n then n else n + 1)"

definition six_digits :: "real \<Rightarrow> nat \<times> int" where
  "six_digits x =
     (let e = \<lfloor>log 10 x\<rfloor>; m = nat (round_even (x * 10 powi (5 - e)))
      in if m = 10 ^ 6 then (10 ^ 5, e + 1) else (m, e))"

definition strip_zeros :: "bytes \<Rightarrow> bytes" where
  "strip_zeros ds = rev (dropWhile (\<lambda>c. c = 48) (rev ds))"

definition with_point :: "bytes \<Rightarrow> bytes \<Rightarrow> bytes" where
  "with_point ip fr = (let f = strip_zeros fr in if f = [] then ip else ip @ [chr ''.''] @ f)"

definition put_positive :: "real \<Rightarrow> bytes" where
  "put_positive x =
     (let (m, e) = six_digits x; ds = put_nat m
      in if e < - 4 \<or> 6 \<le> e
         then with_point (take 1 ds) (drop 1 ds) @ [chr ''e'', if e < 0 then chr ''-'' else chr ''+''] @
              (let k = put_nat (nat \<bar>e\<bar>) in if length k < 2 then 48 # k else k)
         else if e < 0 then with_point [48] (replicate (nat (- e) - 1) 48 @ ds)
         else with_point (take (nat e + 1) ds) (drop (nat e + 1) ds))"

definition put_real :: "real \<Rightarrow> bytes" where
  "put_real x = (if x = 0 then [48] else if x < 0 then chr ''-'' # put_positive (- x) else put_positive x)"

text \<open>\<open>write_kv\<close>, for a value that is already text.\<close>

definition write_kv :: "string \<Rightarrow> bytes \<Rightarrow> bool \<Rightarrow> bytes" where
  "write_kv key val final =
     str ''    '' @ esc_json (str key) @ str '': '' @ val @ (if final then [] else str '','') @ [10]"

definition put_u64 :: "u64 \<Rightarrow> bytes" where "put_u64 x = put_nat (unat x)"
definition put_u32 :: "u32 \<Rightarrow> bytes" where "put_u32 x = put_nat (unat x)"

definition weight_line :: "string \<Rightarrow> real \<Rightarrow> bool \<Rightarrow> bytes" where
  "weight_line key val final =
     str ''        '' @ [34] @ str key @ [34] @ str '': '' @ put_real val @ (if final then [] else str '','') @ [10]"

definition save_text :: "BtierConfig \<Rightarrow> bytes" where
  "save_text c =
     str ''{'' @ [10] @
     write_kv ''fast_dev_path'' (esc_json (cfg_fast_dev_path c)) False @
     write_kv ''slow_dev_path'' (esc_json (cfg_slow_dev_path c)) False @
     write_kv ''extent_size'' (put_u64 (cfg_extent_size c)) False @
     write_kv ''block_size'' (put_u64 (cfg_block_size c)) False @
     write_kv ''large_value_threshold'' (put_u64 (cfg_large_value_threshold c)) False @
     str ''    '' @ [34] @ str ''base_weights'' @ [34] @ str '': {'' @ [10] @
     weight_line ''w_recency'' (w_recency (cfg_base_weights c)) False @
     weight_line ''w_frequency'' (w_frequency (cfg_base_weights c)) False @
     weight_line ''w_randomness'' (w_randomness (cfg_base_weights c)) False @
     weight_line ''w_write_penalty'' (w_write_penalty (cfg_base_weights c)) True @
     str ''    },'' @ [10] @
     write_kv ''low_watermark'' (put_real (cfg_low_watermark c)) False @
     write_kv ''high_watermark'' (put_real (cfg_high_watermark c)) False @
     write_kv ''scan_interval_ms'' (put_u32 (cfg_scan_interval_ms c)) False @
     write_kv ''max_migrations_per_cycle'' (put_u32 (cfg_max_migrations_per_cycle c)) False @
     write_kv ''max_compactions_per_cycle'' (put_u32 (cfg_max_compactions_per_cycle c)) False @
     write_kv ''promote_threshold'' (put_real (cfg_promote_threshold c)) False @
     write_kv ''demote_threshold'' (put_real (cfg_demote_threshold c)) False @
     write_kv ''compaction_dead_ratio'' (put_real (cfg_compaction_dead_ratio c)) False @
     write_kv ''compaction_usage_ratio'' (put_real (cfg_compaction_usage_ratio c)) False @
     write_kv ''cool_interval_sec'' (put_u32 (cfg_cool_interval_sec c)) False @
     write_kv ''sequential_threshold'' (put_u64 (cfg_sequential_threshold c)) False @
     write_kv ''journal_size'' (put_u64 (cfg_journal_size c)) True @
     str ''}'' @ [10]"

text \<open>\<open>save\<close>: the error of \<open>open\<close>, and whether the stream is good after the flush, are arguments; the result comes with the
  text of the file.\<close>

definition save :: "int option \<Rightarrow> bool \<Rightarrow> BtierConfig \<Rightarrow> int \<times> bytes option" where
  "save open_errno good c =
     (case open_errno of
        Some e \<Rightarrow> (- e, None)
      | None \<Rightarrow> (if good then 0 else - EIO, Some (save_text c)))"

end
