(* ===== verification/Config_Correct.thy ===== *)
theory Config_Correct
  imports Config_Json
begin

text \<open>
  The configuration file. The parser of \<open>Config_Json\<close> needs no more fuel than \<open>json_fuel\<close>, strings and numbers are read back as
  they were written (\<open>prints\<close>), and so is the whole file, line by line (\<open>reads_line\<close>, \<open>reads_object\<close>).
\<close>

section \<open>Strings\<close>

lemma string_loop_esc: "string_loop s (esc_chars t @ 34 # p) = Some (s @ t, p)"
  by (induction t arbitrary: s) (simp_all add: unescape_def)

lemma string_loop_less: "string_loop s p = Some (t, q) \<Longrightarrow> length q < length p"
  by (induction s p rule: string_loop.induct) (auto split: if_splits list.splits dest: less_SucI)

lemma parse_string_less: "parse_string (c # p) = Some (t, q) \<Longrightarrow> length q < length p"
  by (simp add: parse_string_def string_loop_less)

lemma skip_ws_le: "length (skip_ws p) \<le> length p"
  by (simp add: skip_ws_def length_dropWhile_le)

lemma skip_ws_Cons_less: "skip_ws p = c # q \<Longrightarrow> length q < length p"
  using skip_ws_le [of p] by simp

section \<open>Termination\<close>

text \<open>A value that was read is not empty.\<close>

lemma parse_number_less: "parse_number fp p = Good v q \<Longrightarrow> length q < length p"
proof -
  assume g: "parse_number fp p = Good v q"
  then have ne: "takeWhile is_num_char p \<noteq> []" and q: "q = dropWhile is_num_char p"
    by (auto simp: parse_number_def Let_def split: if_splits option.splits)
  have "length p = length (takeWhile is_num_char p) + length (dropWhile is_num_char p)"
    by (metis length_append takeWhile_dropWhile_id)
  then show ?thesis using ne q by simp
qed

lemma parse_word_less:
  "parse_bool p = Good v q \<Longrightarrow> length q < length p" "parse_null p = Good v q \<Longrightarrow> length q < length p"
  by (auto simp: parse_bool_def parse_null_def prefix_of_def str_def split: if_splits) (cases p; simp)+

lemma parse_less:
  "parse_value fp n p = Good v q \<Longrightarrow> length q < length p"
  "parse_members fp n ms p = Good v q \<Longrightarrow> length q < length p"
  "parse_elements fp n vs p = Good v q \<Longrightarrow> length q < length p"
proof (induction n arbitrary: p ms vs v q)
  case (Suc n)
  { case 1
    then show ?case using skip_ws_Cons_less [of p]
      by (auto split: list.splits if_splits option.splits dest!: Suc.IH parse_string_less parse_number_less parse_word_less skip_ws_Cons_less) }
  { case 2
    then show ?case
      by (auto split: list.splits if_splits option.splits parse.splits dest!: Suc.IH parse_string_less skip_ws_Cons_less) }
  { case 3
    then show ?case
      by (auto split: list.splits if_splits option.splits parse.splits dest!: Suc.IH parse_string_less skip_ws_Cons_less) }
qed simp_all


text \<open>Every call gets a text that is shorter, or the same text as the loop around it: twice the length is enough fuel.\<close>

lemma parse_enough:
  "2 * length p < n \<Longrightarrow> parse_value fp n p \<noteq> Running"
  "2 * length p < n \<Longrightarrow> parse_members fp n ms p \<noteq> Running"
  "2 * length p + 1 < n \<Longrightarrow> parse_elements fp n vs p \<noteq> Running"
proof (induction n arbitrary: p ms vs)
  case (Suc n)
  have num: "parse_number fp x \<noteq> Running" for x by (simp add: parse_number_def Let_def split: option.split)
  have word: "parse_bool x \<noteq> Running" "parse_null x \<noteq> Running" for x by (simp_all add: parse_bool_def parse_null_def)
  { case 1
    have in1: "length q < length p" if "skip_ws p = c # q" for c q using skip_ws_Cons_less that .
    have in2: "2 * length (skip_ws q) + 1 < n" if "skip_ws p = c # q" for c q
      using 1 in1 [OF that] skip_ws_le [of q] by simp
    show ?case
    proof (cases "skip_ws p")
      case (Cons c q)
      have "parse_members fp n [] r \<noteq> Running" "parse_elements fp n [] r \<noteq> Running" if "skip_ws q = r" for r
        using Suc.IH(2) [of r] Suc.IH(3) [of r] in2 [OF Cons] that by simp_all
      then show ?thesis using Cons num word by (auto split: list.split option.split)
    qed simp }
  { case 2
    show ?case
    proof (cases "skip_ws p")
      case (Cons c q)
      have "parse_value fp n t \<noteq> Running" if "parse_string (c # q) = Some (k, r)" "skip_ws r = d # t" for k r d t
        using Suc.IH(1) [of t] 2 skip_ws_Cons_less [OF Cons] parse_string_less [OF that(1)] skip_ws_Cons_less [OF that(2)] by simp
      moreover have "parse_members fp n ms' w \<noteq> Running" if "parse_string (c # q) = Some (k, r)" "skip_ws r = d # t"
        "parse_value fp n t = Good v u" "skip_ws u = e # w" for k r d t v u e w ms'
        using Suc.IH(2) [of w] 2 skip_ws_Cons_less [OF Cons] parse_string_less [OF that(1)] skip_ws_Cons_less [OF that(2)]
          parse_less(1) [OF that(3)] skip_ws_Cons_less [OF that(4)] by simp
      ultimately show ?thesis using Cons by (auto split: list.split option.split parse.split)
    qed simp }
  { case 3
    have "parse_value fp n p \<noteq> Running" using Suc.IH(1) [of p] 3 by simp
    moreover have "parse_elements fp n vs' w \<noteq> Running" if "parse_value fp n p = Good v u" "skip_ws u = e # w" for v u e w vs'
      using Suc.IH(3) [of w] 3 parse_less(1) [OF that(1)] skip_ws_Cons_less [OF that(2)] by simp
    ultimately show ?case by (auto split: list.split parse.split) }
qed simp_all

text \<open>More fuel does not change a result.\<close>

lemma parse_more:
  "parse_value fp n p \<noteq> Running \<Longrightarrow> parse_value fp (Suc n) p = parse_value fp n p"
  "parse_members fp n ms p \<noteq> Running \<Longrightarrow> parse_members fp (Suc n) ms p = parse_members fp n ms p"
  "parse_elements fp n vs p \<noteq> Running \<Longrightarrow> parse_elements fp (Suc n) vs p = parse_elements fp n vs p"
proof (induction n arbitrary: p ms vs)
  case (Suc n)
  define V where "V = parse_value fp (Suc n)"
  define M where "M = parse_members fp (Suc n)"
  define E where "E = parse_elements fp (Suc n)"
  have ih: "\<And>p. parse_value fp n p \<noteq> Running \<Longrightarrow> V p = parse_value fp n p"
    "\<And>ms p. parse_members fp n ms p \<noteq> Running \<Longrightarrow> M ms p = parse_members fp n ms p"
    "\<And>vs p. parse_elements fp n vs p \<noteq> Running \<Longrightarrow> E vs p = parse_elements fp n vs p"
    unfolding V_def M_def E_def by (fact Suc.IH)+
  note step = parse_value.simps(2) [of fp "Suc n", folded V_def M_def E_def]
    parse_members.simps(2) [of fp "Suc n", folded V_def M_def E_def]
    parse_elements.simps(2) [of fp "Suc n", folded V_def M_def E_def]
    parse_value.simps(2) [of fp n] parse_members.simps(2) [of fp n] parse_elements.simps(2) [of fp n]
  { case 1
    then show ?case
      by (simp only: step(1,4)) (auto simp: ih split: list.splits if_splits) }
  { case 2
    then show ?case
      by (simp only: step(2,5)) (auto simp: ih split: list.splits if_splits option.splits parse.splits) }
  { case 3
    then show ?case
      by (simp only: step(3,6)) (auto simp: ih split: list.splits if_splits parse.splits) }
qed simp_all

text \<open>
  The calls of the parsing functions on a text: the functions below follow the parser branch by branch and add one for every
  call (a round of the loop over members or elements is a call here).
\<close>

fun calls_value :: "fpu \<Rightarrow> nat \<Rightarrow> bytes \<Rightarrow> nat"
and calls_members :: "fpu \<Rightarrow> nat \<Rightarrow> bytes \<Rightarrow> nat"
and calls_elements :: "fpu \<Rightarrow> nat \<Rightarrow> bytes \<Rightarrow> nat"
where
  "calls_value fp 0 p = 1"
| "calls_value fp (Suc n) p = 1 +
     (case skip_ws p of
        [] \<Rightarrow> 0
      | c # q \<Rightarrow>
          if c = chr ''{''
          then (case skip_ws q of
                  [] \<Rightarrow> calls_members fp n []
                | d # r \<Rightarrow> if d = chr ''}'' then 0 else calls_members fp n (d # r))
          else if c = chr ''[''
          then (case skip_ws q of
                  [] \<Rightarrow> calls_elements fp n []
                | d # r \<Rightarrow> if d = chr '']'' then 0 else calls_elements fp n (d # r))
          else 0)"
| "calls_members fp 0 p = 1"
| "calls_members fp (Suc n) p = 1 +
     (case skip_ws p of
        [] \<Rightarrow> 0
      | c # q \<Rightarrow>
          if c \<noteq> 34 then 0
          else case parse_string (c # q) of
                 None \<Rightarrow> 0
               | Some (key, r) \<Rightarrow>
                   (case skip_ws r of
                      [] \<Rightarrow> 0
                    | d # t \<Rightarrow>
                        if d \<noteq> chr '':'' then 0
                        else calls_value fp n t +
                          (case parse_value fp n t of
                             Good v u \<Rightarrow> (case skip_ws u of [] \<Rightarrow> 0 | e # w \<Rightarrow> if e = chr '','' then calls_members fp n w else 0)
                           | _ \<Rightarrow> 0)))"
| "calls_elements fp 0 p = 1"
| "calls_elements fp (Suc n) p = 1 + calls_value fp n p +
     (case parse_value fp n p of
        Good v u \<Rightarrow> (case skip_ws u of [] \<Rightarrow> 0 | e # w \<Rightarrow> if e = chr '','' then calls_elements fp n w else 0)
      | _ \<Rightarrow> 0)"

text \<open>A value that was read took at most one call per byte; any text takes at most two per byte, and one or two more.\<close>

lemma calls_read:
  "parse_value fp n p = Good v q \<Longrightarrow> calls_value fp n p + length q \<le> length p"
  "parse_members fp n ms p = Good v q \<Longrightarrow> calls_members fp n p + length q \<le> length p"
  "parse_elements fp n vs p = Good v q \<Longrightarrow> calls_elements fp n p + length q \<le> length p"
proof (induction n arbitrary: p ms vs v q)
  case (Suc n)
  have ws: "length t < length s" if "skip_ws s = c # t" for s c t using skip_ws_Cons_less [OF that] .
  { case 1
    then obtain c s where p: "skip_ws p = c # s" by (auto split: list.splits)
    show ?case
    proof (cases "c = chr ''{'' \<or> c = chr ''[''")
      case True
      have "length (skip_ws s) < length p" using ws [OF p] skip_ws_le [of s] by simp
      then obtain m where l: "length p = Suc (length (skip_ws s) + m)" using less_imp_Suc_add by auto
      show ?thesis
        using 1 p True l Suc.IH(2) [of "[]" "skip_ws s" v q] Suc.IH(3) [of "[]" "skip_ws s" v q]
        by (auto split: list.splits if_splits)
    next
      case False
      then have "calls_value fp (Suc n) p = 1" using p by simp
      then show ?thesis using parse_less(1) [OF 1] by simp
    qed }
  { case 2
    then obtain c s key r d t v2 u e w where P: "skip_ws p = c # s" "parse_string (c # s) = Some (key, r)" "skip_ws r = d # t"
      "parse_value fp n t = Good v2 u" "skip_ws u = e # w" "c = 34" "d = chr '':''"
      "e = chr '','' \<and> parse_members fp n (AList.update key v2 ms) w = Good v q \<or> e \<noteq> chr '','' \<and> q = w"
      by (auto split: list.splits if_splits option.splits parse.splits)
    have "length t + 2 < length p" using ws [OF P(1)] ws [OF P(3)] parse_string_less [OF P(2)] by simp
    then show ?case using P Suc.IH(1) [OF P(4)] ws [OF P(5)] Suc.IH(2) [of "AList.update key v2 ms" w v q] by auto }
  { case 3
    then obtain v2 u e w where P: "parse_value fp n p = Good v2 u" "skip_ws u = e # w"
      "e = chr '','' \<and> parse_elements fp n (vs @ [v2]) w = Good v q \<or> e \<noteq> chr '','' \<and> q = w"
      by (auto split: list.splits if_splits parse.splits)
    then show ?case using Suc.IH(1) [OF P(1)] ws [OF P(2)] Suc.IH(3) [of "vs @ [v2]" w v q] by auto }
qed simp_all

lemma calls_linear:
  "calls_value fp n p \<le> 2 * length p + 1" "calls_members fp n p \<le> 2 * length p + 1" "calls_elements fp n p \<le> 2 * length p + 2"
proof (induction n arbitrary: p)
  case (Suc n)
  have ws: "length t < length s" if "skip_ws s = c # t" for s c t using skip_ws_Cons_less [OF that] .
  { case 1
    show ?case
    proof (cases "skip_ws p")
      case (Cons c s)
      have "length (skip_ws s) < length p" using ws [OF Cons] skip_ws_le [of s] by simp
      then obtain m where "length p = Suc (length (skip_ws s) + m)" using less_imp_Suc_add by auto
      then show ?thesis using Cons Suc.IH(2,3) [of "skip_ws s"] by (auto split: list.split)
    qed simp }
  { case 2
    let ?next = "\<lambda>t. case parse_value fp n t of
        Good v u \<Rightarrow> (case skip_ws u of [] \<Rightarrow> 0 | e # w \<Rightarrow> if e = chr '','' then calls_members fp n w else 0) | _ \<Rightarrow> 0"
    have "calls_value fp n t + ?next t \<le> 2 * length t + 1" for t
    proof (cases "parse_value fp n t")
      case (Good v u)
      have "calls_members fp n w \<le> 2 * length u" if "skip_ws u = e # w" for e w using ws [OF that] Suc.IH(2) [of w] by simp
      then show ?thesis using Good calls_read(1) [OF Good] by (fastforce split: list.split)
    qed (use Suc.IH(1) [of t] in simp_all)
    then have x: "Suc (calls_value fp n t + ?next t) \<le> 2 * length p + 1" if "length t < length p" for t
    proof -
      have "calls_value fp n t + ?next t \<le> 2 * length t + 1" by fact
      then show ?thesis using that by linarith
    qed
    have "length t < length p" if "skip_ws p = c # s" "parse_string (c # s) = Some (key, r)" "skip_ws r = d # t" for c s key r d t
      using ws [OF that(1)] ws [OF that(3)] parse_string_less [OF that(2)] by simp
    then show ?case using x by (auto split: list.split option.split) }
  { case 3
    show ?case
    proof (cases "parse_value fp n p")
      case (Good v u)
      have "calls_elements fp n w \<le> 2 * length u" if "skip_ws u = e # w" for e w using ws [OF that] Suc.IH(3) [of w] by simp
      then show ?thesis using Good calls_read(1) [OF Good] by (fastforce split: list.split)
    qed (use Suc.IH(1) [of p] in simp_all) }
qed simp_all

definition json_calls :: "fpu \<Rightarrow> nat \<Rightarrow> bytes \<Rightarrow> nat" where
  "json_calls fp n text = (case skip_ws text of [] \<Rightarrow> 0 | c # q \<Rightarrow> calls_value fp n (c # q))"

lemma json_calls_linear: "json_calls fp n text \<le> 2 * length text + 1"
  using calls_linear(1) [of fp n "skip_ws text"] skip_ws_le [of "text"] by (auto simp: json_calls_def split: list.split simp del: calls_value.simps)


section \<open>Decimal numbers\<close>

lemma dec_value_Nil [simp]: "dec_value [] = 0"
  by (simp add: dec_value_def)

lemma dec_value_snoc [simp]: "dec_value (ds @ [c]) = 10 * dec_value ds + unat (c - 48)"
  by (simp add: dec_value_def)

lemma dec_value_append: "dec_value (xs @ ys) = dec_value xs * 10 ^ length ys + dec_value ys"
  by (induction ys rule: rev_induct) (simp_all add: algebra_simps flip: append_assoc)

definition all_digits :: "bytes \<Rightarrow> bool" where
  "all_digits ds \<longleftrightarrow> (\<forall>c \<in> set ds. is_digit c)"

lemma unat_digit: "n < 10 \<Longrightarrow> unat (48 + of_nat n - 48 :: u8) = n"
  by (simp add: unat_of_nat)

lemma is_digit_of_nat: "n < 10 \<Longrightarrow> is_digit (48 + of_nat n)"
proof -
  assume "n < 10"
  then have "n = 0 \<or> n = 1 \<or> n = 2 \<or> n = 3 \<or> n = 4 \<or> n = 5 \<or> n = 6 \<or> n = 7 \<or> n = 8 \<or> n = 9" by auto
  then show ?thesis by (auto simp: is_digit_def)
qed

declare put_nat.simps [simp del]

lemma put_nat_digits: "all_digits (put_nat n)" "dec_value (put_nat n) = n" "put_nat n \<noteq> []"
proof (induction n rule: put_nat.induct)
  case (1 n)
  { case 1
    then show ?case using "1.IH" is_digit_of_nat [of n] is_digit_of_nat [of "n mod 10"]
      by (subst put_nat.simps) (auto simp: all_digits_def) }
  { case 2
    have "dec_value [48 + of_nat n] = n" if "n < 10" using dec_value_snoc [of "[]" "48 + of_nat n"] unat_digit [OF that] by simp
    then show ?case using "1.IH" unat_digit [of "n mod 10"] by (subst put_nat.simps) auto }
  { case 3
    then show ?case by (subst put_nat.simps) auto }
qed

lemma length_put_nat: "10 ^ k \<le> n \<Longrightarrow> n < 10 ^ Suc k \<Longrightarrow> length (put_nat n) = Suc k"
proof (induction k arbitrary: n)
  case 0
  then show ?case by (subst put_nat.simps) auto
next
  case (Suc k)
  have "(10 :: nat) \<le> 10 ^ Suc k" by simp
  then have "\<not> n < 10" using Suc.prems(1) by linarith
  moreover have "10 ^ k \<le> n div 10" "n div 10 < 10 ^ Suc k" using Suc.prems by (simp_all add: div_less_mono less_mult_imp_div_less less_eq_div_iff_mult_less_eq mult.commute)
  ultimately show ?case using Suc.IH by (subst put_nat.simps) simp
qed

text \<open>Trailing zeros of a fraction do not count.\<close>

lemma strip_zeros_snoc: "strip_zeros (ds @ [48]) = strip_zeros ds"
  by (simp add: strip_zeros_def)

lemma strip_zeros_id: "c \<noteq> 48 \<Longrightarrow> strip_zeros (ds @ [c]) = ds @ [c]"
  by (simp add: strip_zeros_def)

lemma strip_value:
  "real (dec_value (ip @ strip_zeros fr)) * 10 powi (k - int (length (strip_zeros fr))) =
   real (dec_value (ip @ fr)) * 10 powi (k - int (length fr))"
proof (induction fr rule: rev_induct)
  case Nil
  then show ?case by (simp add: strip_zeros_def)
next
  case (snoc c fr)
  show ?case
  proof (cases "c = 48")
    case True
    have "(10 :: real) powi (k - int (length fr)) = 10 * 10 powi (k - int (length (fr @ [c])))"
      using power_int_add [of "10 :: real" 1 "k - int (length (fr @ [c]))"] by simp
    then show ?thesis using snoc True dec_value_snoc [of "ip @ fr" c] by (simp add: strip_zeros_snoc)
  next
    case False
    then show ?thesis by (simp add: strip_zeros_id)
  qed
qed

lemma strip_subset: "set (strip_zeros ds) \<subseteq> set ds"
  unfolding strip_zeros_def by (auto dest: set_dropWhileD)


section \<open>Printed numbers\<close>

lemma takeWhile_digits:
  assumes "all_digits ds" "s = [] \<or> \<not> is_digit (hd s)"
  shows "takeWhile is_digit (ds @ s) = ds" "dropWhile is_digit (ds @ s) = s"
  using assms by (induction ds) (cases s; auto simp: all_digits_def)+

lemma takeWhile_all_digits: "all_digits ds \<Longrightarrow> takeWhile is_digit ds = ds"
  using takeWhile_digits(1) [of ds "[]"] by simp

lemma split_sign_digit: "is_digit c \<Longrightarrow> split_sign (c # s) = (False, c # s)"
  by (auto simp: split_sign_def is_digit_def)

text \<open>The exponent part of a printed number.\<close>

definition exp_part :: "bytes \<Rightarrow> bool" where
  "exp_part ex \<longleftrightarrow> ex = [] \<or> (\<exists>g ds. ex = chr ''e'' # g # ds \<and> (g = chr ''-'' \<or> g = chr ''+'') \<and> all_digits ds)"

lemma number_value_point:
  assumes ip: "all_digits ip" "ip \<noteq> []" and fr: "all_digits fr" and ex: "exp_part ex"
  shows "number_value (with_point ip fr @ ex) = Some (real (dec_value (ip @ fr)) * 10 powi (exponent ex - int (length fr)))"
proof -
  let ?f = "strip_zeros fr"
  have f: "all_digits ?f" using fr strip_subset by (auto simp: all_digits_def)
  have nd: "ex = [] \<or> \<not> is_digit (hd ex)" using ex by (auto simp: exp_part_def is_digit_def)
  obtain c i where c: "ip = c # i" "is_digit c" using ip by (cases ip) (auto simp: all_digits_def)
  have sp: "split_sign (ip @ y) = (False, ip @ y)" for y using split_sign_digit c by simp
  show ?thesis
  proof (cases "?f = []")
    case True
    have fr2: "(case ex of [] \<Rightarrow> ([], []) | c # t \<Rightarrow> if c = chr ''.'' then (takeWhile is_digit t, dropWhile is_digit t) else ([], ex)) = ([], ex)"
      using ex by (auto simp: exp_part_def)
    have "number_value (ip @ ex) = Some (real (dec_value ip) * 10 powi (exponent ex))"
      unfolding number_value_def Let_def sp split takeWhile_digits [OF ip(1) nd] fr2 using ip(2) by simp
    then show ?thesis using strip_value [of ip fr "exponent ex"] True by (simp add: with_point_def)
  next
    case False
    have pt: "\<not> is_digit (chr ''.'')" by (simp add: is_digit_def)
    then have nd2: "chr ''.'' # ?f @ ex = [] \<or> \<not> is_digit (hd (chr ''.'' # ?f @ ex))" by simp
    have "number_value (ip @ chr ''.'' # ?f @ ex) = Some (real (dec_value (ip @ ?f)) * 10 powi (exponent ex - int (length ?f)))"
      unfolding number_value_def Let_def sp split takeWhile_digits [OF ip(1) nd2]
      using ip(2) takeWhile_digits [OF f nd] by simp
    then show ?thesis using strip_value [of ip fr "exponent ex"] False by (simp add: with_point_def)
  qed
qed

text \<open>What a positive number is printed as.\<close>

definition printed_positive :: "real \<Rightarrow> real" where
  "printed_positive x = (let (m, e) = six_digits x in real m * 10 powi (e - 5))"

definition printed :: "real \<Rightarrow> real" where
  "printed x = (if x = 0 then 0 else if x < 0 then - printed_positive (- x) else printed_positive x)"

lemma round_even_bounds: "\<bar>of_int (round_even y) - y\<bar> \<le> 1 / 2" "of_int n \<le> y \<Longrightarrow> n \<le> round_even y"
proof -
  have f: "of_int \<lfloor>y\<rfloor> \<le> y" "y < of_int \<lfloor>y\<rfloor> + 1" by linarith+
  then show "\<bar>of_int (round_even y) - y\<bar> \<le> 1 / 2" by (auto simp: round_even_def Let_def)
  have "\<lfloor>y\<rfloor> \<le> round_even y" by (simp add: round_even_def Let_def)
  moreover assume "of_int n \<le> y"
  then have "n \<le> \<lfloor>y\<rfloor>" by linarith
  ultimately show "n \<le> round_even y" by simp
qed

lemma decimal_exponent:
  assumes "0 < x"
  shows "10 powi \<lfloor>log 10 x\<rfloor> \<le> x" "x < 10 * 10 powi \<lfloor>log 10 x\<rfloor>"
proof -
  let ?e = "\<lfloor>log 10 x\<rfloor>"
  have p: "(10 :: real) powr (of_int k) = 10 powi k" for k by (simp add: powr_real_of_int')
  have x: "10 powr (log 10 x) = x" using assms by simp
  have "10 powr (of_int ?e) \<le> 10 powr (log 10 x)" by (intro powr_mono) linarith+
  then show "10 powi ?e \<le> x" using p x by simp
  have "10 powr (log 10 x) < 10 powr (1 + of_int ?e)" by (intro powr_less_mono) linarith+
  then show "x < 10 * 10 powi ?e" using p x by (simp add: powr_add)
qed

lemma six_digits_ok:
  assumes x: "0 < x" and m: "six_digits x = (m, e)"
  shows "10 ^ 5 \<le> m" "m < 10 ^ 6" "\<bar>real m * 10 powi (e - 5) - x\<bar> \<le> x / 200000"
proof -
  let ?e = "\<lfloor>log 10 x\<rfloor>"
  let ?y = "x * 10 powi (5 - ?e)"
  let ?r = "round_even ?y"
  note E = decimal_exponent [OF x]
  have pos: "(0 :: real) < 10 powi k" for k by simp
  have inv: "(10 :: real) powi (5 - ?e) * 10 powi (?e - 5) = 1"
    using power_int_add [of "10 :: real" "5 - ?e" "?e - 5"] by simp
  have "(10 :: real) powi ?e * 10 powi (5 - ?e) = 10 powi 5" using power_int_add [of "10 :: real" ?e "5 - ?e"] by simp
  then have e5: "(10 :: real) powi ?e * 10 powi (5 - ?e) = 100000" by simp
  have lo: "100000 \<le> ?y" using mult_right_mono [OF E(1), of "10 powi (5 - ?e)"] e5 by simp
  have "?y < 10 * 10 powi ?e * 10 powi (5 - ?e)" by (rule mult_strict_right_mono [OF E(2) pos])
  also have "\<dots> = 1000000" using e5 by (simp only: mult.assoc)
  finally have hi: "?y < 1000000" .
  have rb: "\<bar>of_int ?r - ?y\<bar> \<le> 1 / 2" "100000 \<le> ?r" using round_even_bounds(1) [of ?y] round_even_bounds(2) [where n = 100000 and y = ?y] lo by simp_all
  have r6: "?r \<le> 1000000" using rb(1) hi by linarith
  have err: "\<bar>real (nat ?r) * 10 powi (?e - 5) - x\<bar> \<le> x / 200000"
  proof -
    have xy: "x = ?y * 10 powi (?e - 5)" using inv by (simp add: mult.assoc)
    have "real (nat ?r) * 10 powi (?e - 5) - ?y * 10 powi (?e - 5) = (of_int ?r - ?y) * 10 powi (?e - 5)"
      using rb(2) by (simp only: left_diff_distrib of_nat_nat)
    then have "\<bar>real (nat ?r) * 10 powi (?e - 5) - x\<bar> = \<bar>(of_int ?r - ?y) * 10 powi (?e - 5)\<bar>" using xy by simp
    also have "\<dots> = \<bar>of_int ?r - ?y\<bar> * 10 powi (?e - 5)" using pos [of "?e - 5"] by (simp only: abs_mult abs_of_pos)
    also have "\<dots> \<le> 1 / 2 * 10 powi (?e - 5)" using rb(1) pos [of "?e - 5"] by (intro mult_right_mono) simp_all
    also have "\<dots> \<le> x / 200000"
    proof -
      have "(100000 :: real) * 10 powi (?e - 5) \<le> ?y * 10 powi (?e - 5)" using lo pos [of "?e - 5"] by (intro mult_right_mono) simp_all
      then show ?thesis using xy by simp
    qed
    finally show ?thesis .
  qed
  have "10 ^ 5 \<le> m \<and> m < 10 ^ 6 \<and> \<bar>real m * 10 powi (e - 5) - x\<bar> \<le> x / 200000"
  proof (cases "nat ?r = 10 ^ 6")
    case True
    then have me: "m = 100000" "e = ?e + 1" using m by (simp_all add: six_digits_def Let_def)
    have "(10 :: real) powi (?e + 1 - 5) = 10 * 10 powi (?e - 5)" using power_int_add [of "10 :: real" 1 "?e - 5"] by (simp add: algebra_simps)
    then show ?thesis using me err True by simp
  next
    case False
    then have me: "m = nat ?r" "e = ?e" using m by (auto simp: six_digits_def Let_def)
    then show ?thesis using err rb(2) r6 False by auto
  qed
  then show "10 ^ 5 \<le> m" "m < 10 ^ 6" "\<bar>real m * 10 powi (e - 5) - x\<bar> \<le> x / 200000" by blast+
qed


lemma all_digits_simps [simp]:
  "all_digits []" "all_digits (c # ds) \<longleftrightarrow> is_digit c \<and> all_digits ds" "all_digits (xs @ ys) \<longleftrightarrow> all_digits xs \<and> all_digits ys"
  "is_digit 48"
  by (auto simp: all_digits_def is_digit_def)

lemma all_digits_sub: "all_digits ds \<Longrightarrow> all_digits (take k ds)" "all_digits ds \<Longrightarrow> all_digits (drop k ds)"
  by (auto simp: all_digits_def dest: in_set_takeD in_set_dropD)

lemma dec_value_zeros: "dec_value (replicate k 48 @ ds) = dec_value ds"
proof -
  have "dec_value (replicate k 48) = 0" 
  proof (induction k)
    case (Suc k)
    have "replicate (Suc k) 48 = replicate k 48 @ [48 :: u8]" by (simp add: replicate_append_same)
    then show ?case using Suc by (simp del: replicate.simps)
  qed simp
  then show ?thesis by (simp add: dec_value_append)
qed

lemma put_positive_ok:
  assumes x: "0 < x"
  shows "number_value (put_positive x) = Some (printed_positive x)"
    "\<exists>c t. put_positive x = c # t \<and> is_digit c" "\<forall>c \<in> set (put_positive x). is_num_char c"
proof -
  obtain m e where me: "six_digits x = (m, e)" by force
  note S = six_digits_ok [OF x me]
  let ?ds = "put_nat m"
  have ds: "all_digits ?ds" "dec_value ?ds = m" "length ?ds = 6"
    using put_nat_digits [of m] length_put_nat [of 5 m] S(1,2) by simp_all
  have pr: "printed_positive x = real m * 10 powi (e - 5)" by (simp add: printed_positive_def me)
  obtain ip fr ex where P: "put_positive x = with_point ip fr @ ex" "all_digits ip" "ip \<noteq> []" "all_digits fr" "exp_part ex"
    "dec_value (ip @ fr) = m" "exponent ex - int (length fr) = e - 5"
  proof -
    consider (exp) "e < - 4 \<or> 6 \<le> e" | (neg) "- 4 \<le> e" "e < 0" | (pos) "0 \<le> e" "e < 6" by linarith
    then show thesis
    proof cases
      case exp
      let ?k = "put_nat (nat \<bar>e\<bar>)"
      define k2 where "k2 = (if length ?k < 2 then 48 # ?k else ?k)"
      let ?ex = "[chr ''e'', if e < 0 then chr ''-'' else chr ''+''] @ k2"
      have k: "all_digits k2" "dec_value k2 = nat \<bar>e\<bar>"
        using put_nat_digits [of "nat \<bar>e\<bar>"] dec_value_zeros [of 1 ?k] by (simp_all add: k2_def)
      have ex: "exponent ?ex = e" using k by (simp add: exponent_def split_sign_def Let_def takeWhile_all_digits)
      show thesis
      proof (rule that)
        show "put_positive x = with_point (take 1 ?ds) (drop 1 ?ds) @ ?ex" using exp by (auto simp: put_positive_def me Let_def k2_def)
        show "all_digits (take 1 ?ds)" "all_digits (drop 1 ?ds)" using ds(1) all_digits_sub by blast+
        show "take 1 ?ds \<noteq> []" using ds(3) by auto
        show "exp_part ?ex" using k by (auto simp: exp_part_def)
        show "dec_value (take 1 ?ds @ drop 1 ?ds) = m" using ds(2) by simp
        show "exponent ?ex - int (length (drop 1 ?ds)) = e - 5" using ex ds(3) by simp
      qed
    next
      case neg
      let ?fr = "replicate (nat (- e) - 1) 48 @ ?ds"
      show thesis
      proof (rule that)
        show "put_positive x = with_point [48] ?fr @ []" using neg by (simp add: put_positive_def me Let_def)
        show "all_digits [48]" "[48 :: u8] \<noteq> []" "exp_part []" by (simp_all add: exp_part_def)
        show "all_digits ?fr" using ds(1) by (auto simp: all_digits_def is_digit_def)
        show "dec_value ([48] @ ?fr) = m" using ds(2) dec_value_zeros [of "Suc (nat (- e) - 1)" ?ds] by simp
        show "exponent [] - int (length ?fr) = e - 5" using ds(3) neg by (simp add: exponent_def)
      qed
    next
      case pos
      show thesis
      proof (rule that)
        show "put_positive x = with_point (take (nat e + 1) ?ds) (drop (nat e + 1) ?ds) @ []"
          using pos by (simp add: put_positive_def me Let_def)
        show "all_digits (take (nat e + 1) ?ds)" "all_digits (drop (nat e + 1) ?ds)" using ds(1) all_digits_sub by blast+
        show "take (nat e + 1) ?ds \<noteq> []" using ds(3) by auto
        show "exp_part []" by (simp add: exp_part_def)
        show "dec_value (take (nat e + 1) ?ds @ drop (nat e + 1) ?ds) = m" using ds(2) by simp
        show "exponent [] - int (length (drop (nat e + 1) ?ds)) = e - 5" using ds(3) pos by (simp add: exponent_def)
      qed
    qed
  qed
  show "number_value (put_positive x) = Some (printed_positive x)"
    using number_value_point [OF P(2-5)] P(1,6,7) pr by simp
  obtain c i where c: "ip = c # i" "is_digit c" using P(2,3) by (cases ip) auto
  then show "\<exists>c t. put_positive x = c # t \<and> is_digit c" using P(1) by (auto simp: with_point_def Let_def)
  have "\<forall>c \<in> set ip \<union> set fr \<union> set ex. is_num_char c"
    using P(2,4,5) by (auto simp: all_digits_def exp_part_def is_num_char_def)
  then show "\<forall>c \<in> set (put_positive x). is_num_char c"
    using P(1) strip_subset [of fr] by (auto simp: with_point_def Let_def is_num_char_def)
qed

lemma number_value_neg: "is_digit c \<Longrightarrow> number_value (c # t) = Some x \<Longrightarrow> number_value (chr ''-'' # c # t) = Some (- x)"
  by (auto simp: number_value_def split_sign_digit Let_def split: prod.splits if_splits) (auto simp: split_sign_def split: prod.splits if_splits)

lemma put_real_ok:
  shows "number_value (put_real x) = Some (printed x)" "\<forall>c \<in> set (put_real x). is_num_char c" "put_real x \<noteq> []"
    "\<exists>c t. put_real x = c # t \<and> (is_digit c \<or> c = chr ''-'')"
proof -
  have z: "number_value [48] = Some 0"
    using number_value_point [of "[48]" "[]" "[]"] dec_value_snoc [of "[]" 48]
    by (simp add: exp_part_def with_point_def strip_zeros_def)
  have m: "is_num_char (chr ''-'')" "is_num_char 48" by (simp_all add: is_num_char_def is_digit_def)
  consider "x = 0" | "x < 0" | "0 < x" by linarith
  then show "number_value (put_real x) = Some (printed x)" "\<forall>c \<in> set (put_real x). is_num_char c" "put_real x \<noteq> []"
    "\<exists>c t. put_real x = c # t \<and> (is_digit c \<or> c = chr ''-'')"
    using z m put_positive_ok [of x] put_positive_ok [of "- x"] number_value_neg
    by (cases; auto simp: put_real_def printed_def)+
qed

lemma printed_error: "\<bar>printed x - x\<bar> \<le> \<bar>x\<bar> / 200000"
proof -
  have "\<bar>printed_positive y - y\<bar> \<le> y / 200000" if "0 < y" for y
    using six_digits_ok(3) [OF that] by (auto simp: printed_positive_def split: prod.split)
  from this [of x] this [of "- x"] show ?thesis
    by (cases "x < 0"; cases "x = 0") (simp_all add: printed_def abs_minus_commute [of "- printed_positive (- x)" x] add.commute)
qed


section \<open>Reading what was written\<close>

text \<open>A \<open>double\<close> holds integers up to \<open>2 ^ 53\<close>.\<close>

definition exact_ints :: "fpu \<Rightarrow> bool" where
  "exact_ints fp \<longleftrightarrow> (\<forall>n::nat. n \<le> 2 ^ 53 \<longrightarrow> double fp (real n) = real n)"

text \<open>A number far from overflow and underflow.\<close>

definition ordinary :: "real \<Rightarrow> bool" where
  "ordinary x \<longleftrightarrow> x = 0 \<or> 1 \<le> \<bar>x\<bar> * 10 ^ 300 \<and> \<bar>x\<bar> \<le> 10 ^ 300"

text \<open>The limits of \<open>stod\<close>.\<close>

lemma stod_limits:
  obtains T S :: real where "T = 2 ^ 1024 - 2 ^ 970" "S = 2 ^ 1022" "2 * 10 ^ 300 < T" "2 * 10 ^ 300 \<le> S" "2 ^ 64 < T" "1 \<le> S"
proof (rule that [OF refl refl])
  show "2 * 10 ^ 300 < (2 ^ 1024 - 2 ^ 970 :: real)" "2 * 10 ^ 300 \<le> (2 ^ 1022 :: real)"
    "2 ^ 64 < (2 ^ 1024 - 2 ^ 970 :: real)" "1 \<le> (2 ^ 1022 :: real)" by simp_all
qed

lemma stod_in_range:
  assumes "number_value s = Some x" "x = 0 \<and> double fp 0 = 0 \<or> \<bar>x\<bar> \<le> 2 * 10 ^ 300 \<and> 1 \<le> \<bar>x\<bar> * (2 * 10 ^ 300)"
  shows "stod fp s = Some (double fp x)"
proof -
  obtain T S :: real where L: "T = 2 ^ 1024 - 2 ^ 970" "S = 2 ^ 1022" "2 * 10 ^ 300 < T" "2 * 10 ^ 300 \<le> S" "2 ^ 64 < T" "1 \<le> S"
    by (rule stod_limits)
  define B :: real where "B = 2 * 10 ^ 300"
  have B: "B < T" "B \<le> S" using L by (simp_all only: B_def)
  have T: "0 < T" using L(5) by (rule less_trans [rotated]) simp
  have "\<not> (T \<le> \<bar>x\<bar> \<or> \<bar>x\<bar> * S < 1 \<and> double fp x \<noteq> x)"
  proof (cases "x = 0 \<and> double fp 0 = 0")
    case True
    then show ?thesis using T by simp
  next
    case False
    then have o: "\<bar>x\<bar> \<le> B" "1 \<le> \<bar>x\<bar> * B" using assms(2) by (auto simp only: B_def)
    have "\<bar>x\<bar> * B \<le> \<bar>x\<bar> * S" using B(2) by (intro mult_left_mono) simp_all
    then show ?thesis using o B(1) by linarith
  qed
  then show ?thesis unfolding stod_def assms(1) option.case L(1,2) [symmetric] by (rule if_not_P)
qed

lemma stod_printed:
  assumes "exact_ints fp" "ordinary x"
  shows "stod fp (put_real x) = Some (double fp (printed x))"
proof (rule stod_in_range [OF put_real_ok(1)])
  define B :: real where "B = 10 ^ 300"
  have "double fp 0 = 0" using assms(1) by (auto simp: exact_ints_def dest: spec [of _ 0])
  moreover have "\<bar>printed x\<bar> \<le> 2 * B \<and> 1 \<le> \<bar>printed x\<bar> * (2 * B)" if "1 \<le> \<bar>x\<bar> * B" "\<bar>x\<bar> \<le> B"
  proof -
    have e: "\<bar>printed x\<bar> \<le> 2 * \<bar>x\<bar>" "\<bar>x\<bar> \<le> 2 * \<bar>printed x\<bar>" using printed_error [of x] by linarith+
    have "0 \<le> B" using that(2) by linarith
    then have "\<bar>x\<bar> * B \<le> 2 * \<bar>printed x\<bar> * B" using e(2) by (intro mult_right_mono)
    then show ?thesis using e(1) that by simp
  qed
  ultimately show "printed x = 0 \<and> double fp 0 = 0 \<or> \<bar>printed x\<bar> \<le> 2 * 10 ^ 300 \<and> 1 \<le> \<bar>printed x\<bar> * (2 * 10 ^ 300)"
    using assms(2) unfolding ordinary_def B_def [symmetric] by (auto simp: printed_def)
qed

lemma put_nat_value: "number_value (put_nat n) = Some (real n)"
proof -
  note d = put_nat_digits [of n]
  show ?thesis using number_value_point [OF d(1,3), of "[]" "[]"] d(2)
    by (simp add: exp_part_def with_point_def strip_zeros_def exponent_def)
qed

lemma stod_nat:
  assumes "exact_ints fp" "n < 2 ^ 64"
  shows "stod fp (put_nat n) = Some (double fp (real n))"
proof (rule stod_in_range [OF put_nat_value])
  define B :: real where "B = 10 ^ 300"
  have B: "2 ^ 64 \<le> B" by (simp add: B_def)
  have d: "double fp 0 = 0" using assms(1) by (auto simp: exact_ints_def dest: spec [of _ 0])
  have "real n < real (2 ^ 64)" using assms(2) by (simp only: of_nat_less_iff)
  then have n: "real n < 2 ^ 64" by simp
  have "real n \<le> 2 * B \<and> 1 \<le> real n * (2 * B)" if "n \<noteq> 0"
  proof -
    have "1 * 1 \<le> real n * (2 * B)" using that B by (intro mult_mono) simp_all
    then show ?thesis using n B by simp
  qed
  then show "real n = 0 \<and> double fp 0 = 0 \<or> \<bar>real n\<bar> \<le> 2 * 10 ^ 300 \<and> 1 \<le> \<bar>real n\<bar> * (2 * 10 ^ 300)"
    unfolding B_def [symmetric] using d by (cases "n = 0") simp_all
qed

definition reads :: "fpu \<Rightarrow> bytes \<Rightarrow> json \<Rightarrow> bytes \<Rightarrow> bool" where
  "reads fp p v q \<longleftrightarrow> (\<exists>n. parse_value fp n p = Good v q)"

definition reads_members :: "fpu \<Rightarrow> (bytes \<times> json) list \<Rightarrow> bytes \<Rightarrow> json \<Rightarrow> bytes \<Rightarrow> bool" where
  "reads_members fp ms p v q \<longleftrightarrow> (\<exists>n. parse_members fp n ms p = Good v q)"

text \<open>A text that is read back as a value wherever a member of an object may stand.\<close>

definition prints :: "fpu \<Rightarrow> bytes \<Rightarrow> json \<Rightarrow> bool" where
  "prints fp vt v \<longleftrightarrow> (\<forall>c rest. c = 44 \<or> c = 10 \<longrightarrow> reads fp (32 # vt @ c # rest) v (c # rest))"

lemma parse_mono:
  "parse_value fp n p = Good v q \<Longrightarrow> n \<le> m \<Longrightarrow> parse_value fp m p = Good v q"
  "parse_members fp n ms p = Good v q \<Longrightarrow> n \<le> m \<Longrightarrow> parse_members fp m ms p = Good v q"
proof -
  show "parse_value fp m p = Good v q" if "parse_value fp n p = Good v q" "n \<le> m"
    using that(2) by (induction rule: dec_induct) (simp_all only: that(1) parse_more parse.distinct simp_thms)
  show "parse_members fp m ms p = Good v q" if "parse_members fp n ms p = Good v q" "n \<le> m"
    using that(2) by (induction rule: dec_induct) (simp_all only: that(1) parse_more parse.distinct simp_thms)
qed

lemma skip_ws_simps [simp]:
  "skip_ws (c # p) = (if is_ws c then skip_ws p else c # p)" "skip_ws [] = []"
  by (simp_all add: skip_ws_def)

lemma skip_ws_spaces: "\<forall>c \<in> set w. is_ws c \<Longrightarrow> skip_ws (w @ p) = skip_ws p"
  by (induction w) simp_all

lemma is_ws_simps [simp]: "is_ws 32" "is_ws 9" "is_ws 10" "is_ws 13" "\<not> is_ws 34" "\<not> is_ws 44" "\<not> is_ws 58" "\<not> is_ws 123" "\<not> is_ws 125"
  by (simp_all add: is_ws_def)

lemma parse_members_skip: "parse_members fp n ms (skip_ws p) = parse_members fp n ms p"
proof -
  have "skip_ws (skip_ws p) = skip_ws p" by (simp add: skip_ws_def)
  then show ?thesis by (cases n) simp_all
qed

lemma parse_string_esc: "parse_string (34 # esc_chars t @ 34 # p) = Some (t, p)"
  using string_loop_esc [of "[]" t p] by (simp add: parse_string_def)

lemma prints_string: "prints fp (esc_json t) (JString t)"
proof -
  have "parse_value fp (Suc 0) (32 # esc_json t @ r) = Good (JString t) r" for r
    by (simp add: esc_json_def parse_string_esc)
  then show ?thesis unfolding prints_def reads_def by blast
qed

lemma prints_number:
  assumes s: "\<forall>c \<in> set s. is_num_char c" "\<exists>c t. s = c # t \<and> (is_digit c \<or> c = chr ''-'')" and x: "stod fp s = Some x"
  shows "prints fp s (JNumber x)"
proof -
  obtain c t where c: "s = c # t" "is_digit c \<or> c = chr ''-''" using s(2) by blast
  then have nc: "\<not> is_ws c" "c \<noteq> 123" "c \<noteq> 91" "c \<noteq> 34" "c \<noteq> 116" "c \<noteq> 102" "c \<noteq> 110" by (auto simp: is_ws_def is_digit_def)
  have "parse_value fp (Suc 0) (32 # s @ d # r) = Good (JNumber x) (d # r)" if d: "d = 44 \<or> d = 10" for d r
  proof -
    have nd: "\<not> is_num_char d" using d by (auto simp: is_num_char_def is_digit_def)
    have "takeWhile is_num_char (s @ d # r) = s" "dropWhile is_num_char (s @ d # r) = d # r"
      using s(1) nd by (simp_all add: takeWhile_append dropWhile_append)
    then have "parse_number fp (s @ d # r) = Good (JNumber x) (d # r)" using x c by (simp add: parse_number_def)
    then show ?thesis using c(1) nc by simp
  qed
  then show ?thesis unfolding prints_def reads_def by blast
qed

lemma prints_real: "exact_ints fp \<Longrightarrow> ordinary x \<Longrightarrow> prints fp (put_real x) (JNumber (double fp (printed x)))"
  by (intro prints_number put_real_ok stod_printed)

lemma prints_nat:
  assumes "exact_ints fp" "n < 2 ^ 64"
  shows "prints fp (put_nat n) (JNumber (double fp (real n)))"
proof (rule prints_number [OF _ _ stod_nat [OF assms]])
  note d = put_nat_digits [of n]
  show "\<forall>c \<in> set (put_nat n). is_num_char c" using d(1) by (auto simp: all_digits_def is_num_char_def)
  show "\<exists>c t. put_nat n = c # t \<and> (is_digit c \<or> c = chr ''-'')" using d(1,3) by (cases "put_nat n") (auto simp: all_digits_def)
qed


section \<open>Objects\<close>

lemma reads_line:
  assumes v: "prints fp vt v" and r: "reads_members fp (AList.update (str key) v ms) rest x q"
  shows "reads_members fp ms (write_kv key vt False @ rest) x q"
proof -
  obtain n where n: "parse_members fp n (AList.update (str key) v ms) rest = Good x q" using r by (auto simp: reads_members_def)
  obtain m where m: "parse_value fp m (32 # vt @ 44 # 10 # rest) = Good v (44 # 10 # rest)" using v by (auto simp: prints_def reads_def)
  let ?k = "max m n"
  have "parse_members fp ?k (AList.update (str key) v ms) (skip_ws rest) = Good x q"
    using parse_mono(2) [OF n, of ?k] by (simp add: parse_members_skip)
  then have "parse_members fp ?k (AList.update (str key) v ms) (10 # rest) = Good x q"
    using parse_members_skip [of fp ?k _ "10 # rest"] by simp
  moreover have "parse_value fp ?k (32 # vt @ 44 # 10 # rest) = Good v (44 # 10 # rest)" using parse_mono(1) [OF m] by simp
  ultimately have "parse_members fp (Suc ?k) ms (write_kv key vt False @ rest) = Good x q"
    by (simp add: write_kv_def str_def esc_json_def parse_string_esc)
  then show ?thesis by (auto simp: reads_members_def simp del: parse_members.simps)
qed

lemma reads_last_line:
  assumes v: "prints fp vt v" and w: "\<forall>c \<in> set w. is_ws c"
  shows "reads_members fp ms (write_kv key vt True @ w @ 125 # q) (JObject (AList.update (str key) v ms)) q"
proof -
  obtain m where m: "parse_value fp m (32 # vt @ 10 # w @ 125 # q) = Good v (10 # w @ 125 # q)" using v by (auto simp: prints_def reads_def)
  have "skip_ws (w @ 125 # q) = 125 # q" using skip_ws_spaces [OF w] by simp
  then have "parse_members fp (Suc m) ms (write_kv key vt True @ w @ 125 # q) = Good (JObject (AList.update (str key) v ms)) q"
    using m by (simp add: write_kv_def str_def esc_json_def parse_string_esc)
  then show ?thesis by (auto simp: reads_members_def simp del: parse_members.simps)
qed

lemma reads_spaces: "\<forall>c \<in> set w. is_ws c \<Longrightarrow> reads_members fp ms (w @ p) x q = reads_members fp ms p x q"
  unfolding reads_members_def by (metis parse_members_skip skip_ws_spaces)

lemma reads_object:
  assumes "reads_members fp [] p v q" "skip_ws p = 34 # t"
  shows "reads fp (32 # 123 # 10 # p) v q" "reads fp (123 # 10 # p) v q"
proof -
  obtain n where "parse_members fp n [] p = Good v q" using assms(1) by (auto simp: reads_members_def)
  then have "parse_members fp n [] (34 # t) = Good v q" using parse_members_skip [of fp n "[]" p] assms(2) by simp
  then have "parse_value fp (Suc n) (32 # 123 # 10 # p) = Good v q" "parse_value fp (Suc n) (123 # 10 # p) = Good v q"
    using assms(2) by simp_all
  then show "reads fp (32 # 123 # 10 # p) v q" "reads fp (123 # 10 # p) v q" by (auto simp: reads_def simp del: parse_value.simps)
qed

text \<open>One line of each kind.\<close>

lemma spaces_ok: "\<forall>c \<in> set (str ''    ''). is_ws c"
  by (simp add: str_def)

lemma prints_words:
  "exact_ints fp \<Longrightarrow> prints fp (put_u64 y) (JNumber (double fp (real (unat y))))"
  "exact_ints fp \<Longrightarrow> prints fp (put_u32 z) (JNumber (double fp (real (unat z))))"
proof -
  have "unat z < 2 ^ 64" by (rule less_trans [OF unat_lt_u32]) simp
  then show "exact_ints fp \<Longrightarrow> prints fp (put_u32 z) (JNumber (double fp (real (unat z))))"
    unfolding put_u32_def by (rule prints_nat [rotated])
  show "exact_ints fp \<Longrightarrow> prints fp (put_u64 y) (JNumber (double fp (real (unat y))))"
    unfolding put_u64_def by (erule prints_nat) (use unat_lt_u64 [of y] in simp)
qed

lemmas member_lines = reads_line [OF prints_string] reads_line [OF prints_real] reads_line [OF prints_words(1)]
  reads_line [OF prints_words(2)]

lemmas last_lines = reads_last_line [OF prints_real spaces_ok]
  reads_last_line [OF prints_words(1), where w = "[]", simplified append_Nil list.set ball_empty simp_thms]

lemma reads_indented: "reads_members fp ms p x q \<Longrightarrow> reads_members fp ms (str ''    '' @ p) x q"
  using reads_spaces [OF spaces_ok] by simp

text \<open>The members of the saved text, last one first.\<close>

definition saved_weights :: "fpu \<Rightarrow> WeightSet \<Rightarrow> json" where
  "saved_weights fp w = JObject (AList.update (str ''w_write_penalty'') (JNumber (double fp (printed (w_write_penalty w))))
     (AList.update (str ''w_randomness'') (JNumber (double fp (printed (w_randomness w))))
     (AList.update (str ''w_frequency'') (JNumber (double fp (printed (w_frequency w))))
     (AList.update (str ''w_recency'') (JNumber (double fp (printed (w_recency w)))) []))))"

lemma weight_line_kv:
  "weight_line ''w_recency'' x b = str ''    '' @ write_kv ''w_recency'' (put_real x) b"
  "weight_line ''w_frequency'' x b = str ''    '' @ write_kv ''w_frequency'' (put_real x) b"
  "weight_line ''w_randomness'' x b = str ''    '' @ write_kv ''w_randomness'' (put_real x) b"
  "weight_line ''w_write_penalty'' x b = str ''    '' @ write_kv ''w_write_penalty'' (put_real x) b"
  by (simp_all add: weight_line_def write_kv_def str_def esc_json_def)

definition weights_text :: "WeightSet \<Rightarrow> bytes" where
  "weights_text w = str ''{'' @ [10] @ weight_line ''w_recency'' (w_recency w) False @ weight_line ''w_frequency'' (w_frequency w) False @
     weight_line ''w_randomness'' (w_randomness w) False @ weight_line ''w_write_penalty'' (w_write_penalty w) True @ str ''    }''"

lemma prints_weights:
  assumes "exact_ints fp" "ordinary (w_recency w)" "ordinary (w_frequency w)" "ordinary (w_randomness w)" "ordinary (w_write_penalty w)"
  shows "prints fp (weights_text w) (saved_weights fp w)"
  unfolding prints_def
proof (intro allI impI)
  fix c :: u8 and rest :: bytes
  let ?p = "weight_line ''w_recency'' (w_recency w) False @ weight_line ''w_frequency'' (w_frequency w) False @
     weight_line ''w_randomness'' (w_randomness w) False @ weight_line ''w_write_penalty'' (w_write_penalty w) True @ str ''    '' @ 125 # c # rest"
  note P = prints_real [OF assms(1)]
  have "reads_members fp [] ?p (saved_weights fp w) (c # rest)"
    unfolding weight_line_kv saved_weights_def append_assoc
    by (intro reads_indented member_lines last_lines assms)
  moreover have "skip_ws ?p = 34 # drop 9 ?p" by (simp add: weight_line_def str_def)
  ultimately have "reads fp (32 # 123 # 10 # ?p) (saved_weights fp w) (c # rest)" by (rule reads_object(1))
  then show "reads fp (32 # weights_text w @ c # rest) (saved_weights fp w) (c # rest)" by (simp add: weights_text_def str_def)
qed


section \<open>The whole file\<close>

lemma weights_line: "str ''    '' @ [34] @ str ''base_weights'' @ [34] @ str '': {'' @ [10] @
     weight_line ''w_recency'' (w_recency w) False @ weight_line ''w_frequency'' (w_frequency w) False @
     weight_line ''w_randomness'' (w_randomness w) False @ weight_line ''w_write_penalty'' (w_write_penalty w) True @
     str ''    },'' @ [10] @ p = write_kv ''base_weights'' (weights_text w) False @ p"
  by (simp add: write_kv_def weights_text_def str_def esc_json_def)

definition saved_json :: "fpu \<Rightarrow> BtierConfig \<Rightarrow> json" where
  "saved_json fp c = (let r = (\<lambda>x. JNumber (double fp (printed x))); l = (\<lambda>x :: u64. JNumber (double fp (real (unat x))));
       i = (\<lambda>x :: u32. JNumber (double fp (real (unat x)))); u = (\<lambda>k v ms. AList.update (str k) v ms)
     in JObject (u ''journal_size'' (l (cfg_journal_size c)) (u ''sequential_threshold'' (l (cfg_sequential_threshold c))
       (u ''cool_interval_sec'' (i (cfg_cool_interval_sec c)) (u ''compaction_usage_ratio'' (r (cfg_compaction_usage_ratio c))
       (u ''compaction_dead_ratio'' (r (cfg_compaction_dead_ratio c)) (u ''demote_threshold'' (r (cfg_demote_threshold c))
       (u ''promote_threshold'' (r (cfg_promote_threshold c)) (u ''max_compactions_per_cycle'' (i (cfg_max_compactions_per_cycle c))
       (u ''max_migrations_per_cycle'' (i (cfg_max_migrations_per_cycle c)) (u ''scan_interval_ms'' (i (cfg_scan_interval_ms c))
       (u ''high_watermark'' (r (cfg_high_watermark c)) (u ''low_watermark'' (r (cfg_low_watermark c))
       (u ''base_weights'' (saved_weights fp (cfg_base_weights c))
       (u ''large_value_threshold'' (l (cfg_large_value_threshold c)) (u ''block_size'' (l (cfg_block_size c))
       (u ''extent_size'' (l (cfg_extent_size c)) (u ''slow_dev_path'' (JString (cfg_slow_dev_path c))
       (u ''fast_dev_path'' (JString (cfg_fast_dev_path c)) [])))))))))))))))))))"

definition ordinary_config :: "BtierConfig \<Rightarrow> bool" where
  "ordinary_config c \<longleftrightarrow> (\<forall>x \<in> set [w_recency (cfg_base_weights c), w_frequency (cfg_base_weights c), w_randomness (cfg_base_weights c),
     w_write_penalty (cfg_base_weights c), cfg_low_watermark c, cfg_high_watermark c, cfg_promote_threshold c, cfg_demote_threshold c,
     cfg_compaction_dead_ratio c, cfg_compaction_usage_ratio c]. ordinary x) \<and>
   (\<forall>n \<in> set [cfg_extent_size c, cfg_block_size c, cfg_large_value_threshold c, cfg_sequential_threshold c, cfg_journal_size c].
     unat n \<le> 2 ^ 53)"

lemma reads_saved:
  assumes fp: "exact_ints fp" and c: "ordinary_config c"
  shows "reads fp (save_text c) (saved_json fp c) [10]"
proof -
  have o: "ordinary (w_recency (cfg_base_weights c))" "ordinary (w_frequency (cfg_base_weights c))"
    "ordinary (w_randomness (cfg_base_weights c))" "ordinary (w_write_penalty (cfg_base_weights c))"
    "ordinary (cfg_low_watermark c)" "ordinary (cfg_high_watermark c)" "ordinary (cfg_promote_threshold c)"
    "ordinary (cfg_demote_threshold c)" "ordinary (cfg_compaction_dead_ratio c)" "ordinary (cfg_compaction_usage_ratio c)"
    using c by (simp_all add: ordinary_config_def)
  let ?p = "drop 2 (save_text c)"
  have p: "save_text c = 123 # 10 # ?p" by (simp add: save_text_def str_def)
  have m: "reads_members fp [] (drop 2 (save_text c)) (saved_json fp c) [10]"
  proof -
    have d: "drop 2 (str ''{'' @ [10] @ y) = y" for y by (simp add: str_def)
    have e: "str ''}'' @ [10] = 125 # [10]" by (simp add: str_def)
    show ?thesis unfolding save_text_def d e saved_json_def Let_def weights_line
      by (intro member_lines last_lines reads_line [OF prints_weights] fp o TrueI)
  qed
  have "skip_ws ?p = 34 # drop 5 ?p" by (simp add: save_text_def write_kv_def str_def esc_json_def)
  from reads_object(2) [OF m this] show ?thesis by (subst p)
qed

lemma parse_reads:
  assumes "reads fp text v q" "text = c # t" "\<not> is_ws c"
  shows "json_parse fp (json_fuel text) text = Good v q"
proof -
  obtain n where n: "parse_value fp n text = Good v q" using assms(1) by (auto simp: reads_def)
  have "parse_value fp (json_fuel text) text \<noteq> Running" by (rule parse_enough(1)) (simp add: json_fuel_def)
  moreover have "parse_value fp (max n (json_fuel text)) text = Good v q" by (rule parse_mono(1) [OF n]) simp
  moreover have "parse_value fp m text = parse_value fp k text" if "parse_value fp k text \<noteq> Running" "k \<le> m" for k m
    using that(2)
  proof (induction rule: dec_induct)
    case (step i)
    then show ?case using parse_more(1) [of fp i] that(1) by metis
  qed (rule refl)
  ultimately have "parse_value fp (json_fuel text) text = Good v q" by (metis max.cobounded2)
  then show ?thesis using assms(2,3) by (simp add: json_parse_def del: parse_value.simps)
qed

lemma str_inj [simp]: "str s = str t \<longleftrightarrow> s = t"
proof -
  have "inj (of_char :: char \<Rightarrow> u8)"
  proof (rule injI)
    fix a b :: char
    assume "(of_char a :: u8) = of_char b"
    then have "unat (of_char a :: u8) = unat (of_char b :: u8)" by simp
    moreover have "unat (of_char x :: u8) = of_char x" for x
      by (cases x) (simp add: of_char_def)
    ultimately show "a = b" by simp
  qed
  then show ?thesis by (auto simp: str_def inj_map_eq_map)
qed


lemma get_saved:
  "json_get (saved_json fp c) (str k) =
    [''fast_dev_path'' \<mapsto> JString (cfg_fast_dev_path c), ''slow_dev_path'' \<mapsto> JString (cfg_slow_dev_path c),
     ''extent_size'' \<mapsto> JNumber (double fp (real (unat (cfg_extent_size c)))),
     ''block_size'' \<mapsto> JNumber (double fp (real (unat (cfg_block_size c)))),
     ''large_value_threshold'' \<mapsto> JNumber (double fp (real (unat (cfg_large_value_threshold c)))),
     ''base_weights'' \<mapsto> saved_weights fp (cfg_base_weights c),
     ''low_watermark'' \<mapsto> JNumber (double fp (printed (cfg_low_watermark c))),
     ''high_watermark'' \<mapsto> JNumber (double fp (printed (cfg_high_watermark c))),
     ''scan_interval_ms'' \<mapsto> JNumber (double fp (real (unat (cfg_scan_interval_ms c)))),
     ''max_migrations_per_cycle'' \<mapsto> JNumber (double fp (real (unat (cfg_max_migrations_per_cycle c)))),
     ''max_compactions_per_cycle'' \<mapsto> JNumber (double fp (real (unat (cfg_max_compactions_per_cycle c)))),
     ''promote_threshold'' \<mapsto> JNumber (double fp (printed (cfg_promote_threshold c))),
     ''demote_threshold'' \<mapsto> JNumber (double fp (printed (cfg_demote_threshold c))),
     ''compaction_dead_ratio'' \<mapsto> JNumber (double fp (printed (cfg_compaction_dead_ratio c))),
     ''compaction_usage_ratio'' \<mapsto> JNumber (double fp (printed (cfg_compaction_usage_ratio c))),
     ''cool_interval_sec'' \<mapsto> JNumber (double fp (real (unat (cfg_cool_interval_sec c)))),
     ''sequential_threshold'' \<mapsto> JNumber (double fp (real (unat (cfg_sequential_threshold c)))),
     ''journal_size'' \<mapsto> JNumber (double fp (real (unat (cfg_journal_size c))))] k"
  unfolding json_get_def saved_json_def Let_def json.case map_of_update_eq fun_upd_apply str_inj map_of.simps(1) by (rule refl)

lemma get_saved_weights:
  "json_get (saved_weights fp w) (str k) =
    [''w_recency'' \<mapsto> JNumber (double fp (printed (w_recency w))), ''w_frequency'' \<mapsto> JNumber (double fp (printed (w_frequency w))),
     ''w_randomness'' \<mapsto> JNumber (double fp (printed (w_randomness w))), ''w_write_penalty'' \<mapsto> JNumber (double fp (printed (w_write_penalty w)))] k"
  unfolding json_get_def saved_weights_def json.case map_of_update_eq fun_upd_apply str_inj map_of.simps(1) by (rule refl)

lemma to_words:
  "exact_ints fp \<Longrightarrow> unat x \<le> 2 ^ 53 \<Longrightarrow> number_u64 fp (JNumber (double fp (real (unat x)))) y = Some x"
  "exact_ints fp \<Longrightarrow> number_u32 fp (JNumber (double fp (real (unat z)))) y2 = Some z"
proof -
  have f: "\<not> real n < 0" "- 1 < real n" for n by (simp_all add: less_le_trans [of _ 0])
  have r: "real n < 2 ^ w" if "n < 2 ^ w" for n w using that by (metis of_nat_less_iff of_nat_numeral of_nat_power)
  have u: "unat x < 2 ^ 64" "unat z < 2 ^ 32" by simp_all
  have w: "word_of_int (int (unat v)) = v" for v :: "'a::len word" by (simp flip: uint_nat)
  show "exact_ints fp \<Longrightarrow> unat x \<le> 2 ^ 53 \<Longrightarrow> number_u64 fp (JNumber (double fp (real (unat x)))) y = Some x"
    using f(2) r [OF u(1)] w [of x]
    by (simp add: number_u64_def as_number_def exact_ints_def to_u64_def to_unsigned_def del: unsigned_less of_nat_unat)
  have "unat z \<le> 2 ^ 53" by (rule order.trans [OF less_imp_le [OF u(2)]]) simp
  then show "exact_ints fp \<Longrightarrow> number_u32 fp (JNumber (double fp (real (unat z)))) y2 = Some z"
    using f(2) r [OF u(2)] w [of z]
    by (simp add: number_u32_def as_number_def exact_ints_def to_u32_def to_unsigned_def del: unsigned_less of_nat_unat)
qed

text \<open>What comes back of a configuration: the numbers with six significant digits.\<close>

definition reread :: "fpu \<Rightarrow> BtierConfig \<Rightarrow> BtierConfig" where
  "reread fp c = c
     \<lparr>cfg_base_weights :=
        \<lparr>w_recency = single fp (double fp (printed (w_recency (cfg_base_weights c)))),
         w_frequency = single fp (double fp (printed (w_frequency (cfg_base_weights c)))),
         w_randomness = single fp (double fp (printed (w_randomness (cfg_base_weights c)))),
         w_write_penalty = single fp (double fp (printed (w_write_penalty (cfg_base_weights c))))\<rparr>,
      cfg_low_watermark := double fp (printed (cfg_low_watermark c)),
      cfg_high_watermark := double fp (printed (cfg_high_watermark c)),
      cfg_promote_threshold := single fp (double fp (printed (cfg_promote_threshold c))),
      cfg_demote_threshold := single fp (double fp (printed (cfg_demote_threshold c))),
      cfg_compaction_dead_ratio := double fp (printed (cfg_compaction_dead_ratio c)),
      cfg_compaction_usage_ratio := double fp (printed (cfg_compaction_usage_ratio c))\<rparr>"

lemma load_saved_weights:
  "load_weights fp (saved_weights fp w) w0 = Some
     \<lparr>w_recency = single fp (double fp (printed (w_recency w))), w_frequency = single fp (double fp (printed (w_frequency w))),
      w_randomness = single fp (double fp (printed (w_randomness w))),
      w_write_penalty = single fp (double fp (printed (w_write_penalty w)))\<rparr>"
proof -
  have "is_object (saved_weights fp w)" by (simp add: is_object_def saved_weights_def)
  then show ?thesis by (simp add: load_weights_def on_key_def get_saved_weights as_number_def)
qed

lemma load_saved:
  assumes "exact_ints fp" "ordinary_config c"
  shows "load_root fp (saved_json fp c) d = Some (reread fp c)"
proof -
  have n: "unat (cfg_extent_size c) \<le> 2 ^ 53" "unat (cfg_block_size c) \<le> 2 ^ 53" "unat (cfg_large_value_threshold c) \<le> 2 ^ 53"
    "unat (cfg_sequential_threshold c) \<le> 2 ^ 53" "unat (cfg_journal_size c) \<le> 2 ^ 53"
    using assms(2) by (simp_all add: ordinary_config_def)
  note w = to_words(1) [OF assms(1) n(1)] to_words(1) [OF assms(1) n(2)] to_words(1) [OF assms(1) n(3)]
    to_words(1) [OF assms(1) n(4)] to_words(1) [OF assms(1) n(5)] to_words(2) [OF assms(1)]
  show ?thesis
    by (simp add: load_root_def on_key_def get_saved w as_number_def as_string_def load_saved_weights reread_def del: of_nat_unat)
qed


lemma json_fuel_enough: "json_fuel txt \<le> n \<Longrightarrow> json_parse fp n txt = json_parse fp (json_fuel txt) txt \<and> json_parse fp n txt \<noteq> Running"
proof -
  assume n: "json_fuel txt \<le> n"
  have r: "parse_value fp (json_fuel txt) txt \<noteq> Running" by (rule parse_enough(1)) (simp add: json_fuel_def)
  from n have "parse_value fp n txt = parse_value fp (json_fuel txt) txt"
  proof (induction rule: dec_induct)
    case (step i)
    then show ?case using r parse_more(1) [of fp i] by metis
  qed (rule refl)
  moreover have "parse_value fp k (skip_ws txt) = parse_value fp k txt" for k
    by (cases k) (simp_all add: skip_ws_def)
  ultimately show ?thesis using r
    by (simp add: json_parse_def del: parse_value.simps split: list.split) metis
qed

section \<open>Properties\<close>

text \<open>C29: the parser terminates on every text, after a number of calls linear in its length. The fuel of the model bounds the
  nesting of its calls: with twice the length of the text plus one, or more, it does not run out and the result does not
  depend on it. The calls themselves, rounds of the loops over members and elements included (\<open>json_calls\<close>), are at most as
  many, whatever the fuel.\<close>

theorem json_parser_terminates:
  assumes "json_fuel txt \<le> n"
  shows "json_parse fp n txt = json_parse fp (json_fuel txt) txt \<and> json_parse fp n txt \<noteq> Running \<and>
    json_calls fp n txt \<le> json_fuel txt"
  using json_fuel_enough [OF assms, of fp] json_calls_linear [of fp n "txt"] unfolding json_fuel_def by blast

theorem json_parser_terminates_witness:
  "json_parse exact_fpu 100 (str ''{[[[['') = json_parse exact_fpu 11 (str ''{[[[['') \<and> json_parse exact_fpu 100 (str ''{[[[['') \<noteq> Running \<and>
     json_calls exact_fpu 100 (str ''{[[[['') \<le> 11"
proof -
  have "json_fuel (str ''{[[[['') = 11" by (simp add: json_fuel_def str_def)
  then show ?thesis using json_parser_terminates [of "str ''{[[[[''" 100 exact_fpu] by auto
qed

text \<open>Strings survive writing and reading: every byte string, with quotes, backslashes and control characters, is parsed
  back from its escaped form, and the parser stops right behind it.\<close>

theorem json_string_round_trip: "parse_string (esc_json s @ p) = Some (s, p)"
  using parse_string_esc [of s p] by (simp add: esc_json_def)

text \<open>C30: \<open>load\<close> after \<open>save\<close>: paths and integers come back unchanged (64-bit integers up to \<open>2 ^ 53\<close>, since they pass
  through a \<open>double\<close>), and a floating-point field comes back as the rounding of a number that differs from it by at most
  1/200000 of its size, since the stream prints six significant digits.\<close>

theorem config_save_load:
  assumes "exact_ints fp" "ordinary_config c"
  shows "load fp (Some (save_text c)) = Some (reread fp c) \<and> (\<forall>x. \<bar>printed x - x\<bar> \<le> \<bar>x\<bar> / 200000)"
proof -
  obtain t where t: "save_text c = 123 # t" by (simp add: save_text_def str_def)
  have "\<not> is_ws 123" by simp
  from parse_reads [OF reads_saved [OF assms] t this] load_saved [OF assms] printed_error
  show ?thesis by (simp add: load_def is_object_def saved_json_def Let_def)
qed

theorem config_save_load_witness:
  "load exact_fpu (Some (save_text (default_BtierConfig exact_fpu))) = Some (reread exact_fpu (default_BtierConfig exact_fpu))"
proof -
  have "exact_ints exact_fpu" by (simp add: exact_ints_def exact_fpu_def)
  moreover have "ordinary_config (default_BtierConfig exact_fpu)"
    by (simp add: ordinary_config_def ordinary_def default_BtierConfig_def default_WeightSet_def exact_fpu_def)
  ultimately show ?thesis using config_save_load by blast
qed

end
