(* ===== verification/Bitmap_Allocator.thy ===== *)
theory Bitmap_Allocator
  imports Allocator_Spec "HOL-Library.Monad_Syntax"
begin

text \<open>
  The hierarchical bitmap allocator of \<open>blk/bitmap_allocator.h\<close> and \<open>blk/bitmap_allocator.cc\<close>. Level 0 has a
  bit per allocation unit, set when the unit is free; an entry of level 1 summarises 512 units in two bits
  (full, partial, free); a bit of level 2 says whether one of 256 level 1 entries has free space.

  Byte addresses and lengths are 64-bit words. A position counts units, entries or bits of a vector, it is a
  \<open>nat\<close>: the code indexes a vector with each of them, so it stays far below the 64-bit range. The result
  \<open>None\<close> stands for a failed \<open>cxxlab_assert\<close> and for what C++ leaves undefined: an index outside a
  vector, a shift by a negative amount or by the width of the operand.
\<close>

section \<open>Utilities\<close>

text \<open>\<open>bits_per_slotset\<close> and \<open>L1_ENTRIES_PER_SLOT\<close> are 512 and 32.\<close>

definition all_slot_set :: u64 where "all_slot_set = - 1"
definition all_slot_clear :: u64 where "all_slot_clear = 0"

text \<open>\<open>__builtin_ctzll\<close>, for an argument other than 0.\<close>

definition ctz64 :: "u64 \<Rightarrow> nat" where
  "ctz64 m = length (takeWhile (\<lambda>i. \<not> bit m i) [0..<64])"

text \<open>The result \<open>-1\<close> is \<open>None\<close>.\<close>

definition find_next_set_bit :: "u64 \<Rightarrow> nat \<Rightarrow> nat option" where
  "find_next_set_bit val start =
     (if start \<ge> 64 then None
      else let m = drop_bit start val in if m \<noteq> 0 then Some (ctz64 m + start) else None)"

lemma bit_u64_lt: "bit (w::u64) i \<Longrightarrow> i < 64"
  using bit_imp_le_length [of w i] by simp

lemma takeWhile_shorter: "\<exists>x \<in> set xs. \<not> P x \<Longrightarrow> length (takeWhile P xs) < length xs"
  by (induction xs) auto

lemma ctz64_props:
  assumes "m \<noteq> 0"
  shows "ctz64 m < 64" "bit m (ctz64 m)" "i < ctz64 m \<Longrightarrow> \<not> bit m i"
proof -
  obtain j where j: "bit m j" using assms by (auto simp: bit_eq_iff)
  then have "j < 64" by (rule bit_u64_lt)
  then have mem: "j \<in> set [0..<64]" by simp
  let ?t = "takeWhile (\<lambda>i. \<not> bit m i) [0..<64]"
  have "\<exists>x \<in> set [0..<64]. \<not> \<not> bit m x" using mem j by blast
  then have lt: "length ?t < length [0..<64]" by (rule takeWhile_shorter)
  show l: "ctz64 m < 64" using lt by (simp add: ctz64_def)
  show "bit m (ctz64 m)"
    using nth_length_takeWhile [OF lt] l by (simp add: ctz64_def)
  show "\<not> bit m i" if h: "i < ctz64 m"
    using takeWhile_nth [of i "\<lambda>i. \<not> bit m i" "[0..<64]"] set_takeWhileD [of "?t ! i" "\<lambda>i. \<not> bit m i" "[0..<64]"]
      h l nth_mem [of i ?t] by (simp add: ctz64_def)
qed

lemma find_next_set_bit_Some:
  "find_next_set_bit w s = Some b \<longleftrightarrow> s \<le> b \<and> b < 64 \<and> bit w b \<and> (\<forall>i. s \<le> i \<and> i < b \<longrightarrow> \<not> bit w i)"
proof (cases "s \<ge> 64 \<or> drop_bit s w = 0")
  case True
  then have "\<not> bit w b" if "s \<le> b" "b < 64" for b
  proof (cases "s \<ge> 64")
    case False
    with True have "\<not> bit (drop_bit s w) (b - s)" by simp
    then show ?thesis using that by (simp add: bit_drop_bit_eq)
  qed (use that in simp)
  with True show ?thesis by (auto simp: find_next_set_bit_def)
next
  case False
  let ?c = "ctz64 (drop_bit s w)"
  note c = ctz64_props [of "drop_bit s w"]
  have e: "find_next_set_bit w s = Some (?c + s)" using False by (simp add: find_next_set_bit_def)
  have b: "bit w (?c + s)" using c(2) False by (simp add: bit_drop_bit_eq add.commute)
  then have lt: "?c + s < 64" by (rule bit_u64_lt)
  have no: "\<not> bit w i" if "s \<le> i" "i < ?c + s" for i
    using c(3) [of "i - s"] that False by (simp add: bit_drop_bit_eq)
  show ?thesis
  proof
    assume "find_next_set_bit w s = Some b"
    then show "s \<le> b \<and> b < 64 \<and> bit w b \<and> (\<forall>i. s \<le> i \<and> i < b \<longrightarrow> \<not> bit w i)"
      using e b lt no by auto
  next
    assume r: "s \<le> b \<and> b < 64 \<and> bit w b \<and> (\<forall>i. s \<le> i \<and> i < b \<longrightarrow> \<not> bit w i)"
    then have "\<not> b < ?c + s" "\<not> ?c + s < b" using no b by auto
    then show "find_next_set_bit w s = Some b" using e by simp
  qed
qed

lemma find_next_set_bit_None:
  "find_next_set_bit w s = None \<longleftrightarrow> (\<forall>i. s \<le> i \<longrightarrow> \<not> bit w i)"
proof
  assume n: "find_next_set_bit w s = None"
  show "\<forall>i. s \<le> i \<longrightarrow> \<not> bit w i"
  proof (intro allI impI notI)
    fix i assume i: "s \<le> i" "bit w i"
    from i(2) have "i < 64" by (rule bit_u64_lt)
    let ?P = "\<lambda>j. s \<le> j \<and> bit w j"
    have "?P i" using i by simp
    then have "?P (LEAST j. ?P j)" "(LEAST j. ?P j) \<le> i" by (rule LeastI, rule Least_le)
    moreover have "\<not> bit w j" if "s \<le> j" "j < (LEAST j. ?P j)" for j
      using not_less_Least [OF that(2)] that(1) by simp
    ultimately have "find_next_set_bit w s = Some (LEAST j. ?P j)"
      using \<open>i < 64\<close> by (simp add: find_next_set_bit_Some)
    with n show False by simp
  qed
next
  assume "\<forall>i. s \<le> i \<longrightarrow> \<not> bit w i"
  then show "find_next_set_bit w s = None"
    by (metis find_next_set_bit_Some not_None_eq)
qed

lemma find_next_set_bit_self: "find_next_set_bit w s = Some s \<longleftrightarrow> s < 64 \<and> bit w s"
  by (auto simp: find_next_set_bit_Some)

definition count_1s :: "u64 \<Rightarrow> nat" where
  "count_1s val = length (filter (bit val) [0..<64])"

text \<open>\<open>align_down\<close> and \<open>round_up\<close> on positions, for the powers of two 64 and 512.\<close>

definition pos_down :: "nat \<Rightarrow> nat \<Rightarrow> nat" where "pos_down p a = p - p mod a"
definition pos_up :: "nat \<Rightarrow> nat \<Rightarrow> nat" where "pos_up p a = (p + (a - 1)) div a * a"

text \<open>Access to a \<open>slot_vector_t\<close>.\<close>

definition slot_get :: "u64 list \<Rightarrow> nat \<Rightarrow> u64 option" where
  "slot_get v i = (if i < length v then Some (v ! i) else None)"

definition slot_upd :: "(u64 \<Rightarrow> u64) \<Rightarrow> nat \<Rightarrow> u64 list \<Rightarrow> u64 list option" where
  "slot_upd f i v = (if i < length v then Some (v[i := f (v ! i)]) else None)"

text \<open>\<open>w |= slot_t(1) << k\<close> and \<open>w &= ~(slot_t(1) << k)\<close>\<close>

definition bit_on :: "nat \<Rightarrow> u64 \<Rightarrow> u64" where "bit_on k w = w OR push_bit k 1"
definition bit_off :: "nat \<Rightarrow> u64 \<Rightarrow> u64" where "bit_off k w = w AND NOT (push_bit k 1)"

text \<open>A counting loop whose body may end the process.\<close>

primrec for_each :: "('i \<Rightarrow> 's \<Rightarrow> 's option) \<Rightarrow> 'i list \<Rightarrow> 's \<Rightarrow> 's option" where
  "for_each f [] s = Some s"
| "for_each f (i # is) s = Option.bind (f i s) (for_each f is)"

section \<open>Levels 0 and 1\<close>

definition L1_ENTRY_FULL :: u64 where "L1_ENTRY_FULL = 0"
definition L1_ENTRY_PARTIAL :: u64 where "L1_ENTRY_PARTIAL = 1"
definition L1_ENTRY_FREE :: u64 where "L1_ENTRY_FREE = 3"

text \<open>\<open>(slot >> (off * L1_ENTRY_WIDTH)) & L1_ENTRY_MASK\<close>\<close>

definition l1_field :: "u64 \<Rightarrow> nat \<Rightarrow> u64" where
  "l1_field w off = drop_bit (off * 2) w AND 3"

definition l1_put :: "nat \<Rightarrow> u64 \<Rightarrow> u64 \<Rightarrow> u64" where
  "l1_put off nxt w = (w AND NOT (push_bit (off * 2) 3)) OR push_bit (off * 2) nxt"

record AllocatorLevel01 =
  ba_l0 :: "u64 list"
  ba_l1 :: "u64 list"
  ba_l0_granularity :: u64
  ba_l1_granularity :: u64
  ba_partial_l1_count :: u64
  ba_unalloc_l1_count :: u64

subsection \<open>Marking\<close>

text \<open>
  \<open>_mark_alloc_l0\<close> and \<open>_mark_free_l0\<close> have the same three loops: bits up to a word boundary, whole words,
  the bits that remain.
\<close>

function mark_bits_head :: "(nat \<Rightarrow> u64 \<Rightarrow> u64) \<Rightarrow> nat \<Rightarrow> nat \<Rightarrow> u64 list \<Rightarrow> (nat \<times> u64 list) option" where
  "mark_bits_head f p e v =
     (if p < e \<and> p mod 64 \<noteq> 0
      then Option.bind (slot_upd (f (p mod 64)) (p div 64) v) (mark_bits_head f (p + 1) e)
      else Some (p, v))"
  by pat_completeness auto
termination by (relation "measure (\<lambda>(_, p, e, _). e - p)") auto

function mark_words :: "u64 \<Rightarrow> nat \<Rightarrow> nat \<Rightarrow> u64 list \<Rightarrow> (nat \<times> u64 list) option" where
  "mark_words w p e v =
     (if p + 64 \<le> e
      then Option.bind (slot_upd (\<lambda>_. w) (p div 64) v) (mark_words w (p + 64) e)
      else Some (p, v))"
  by pat_completeness auto
termination by (relation "measure (\<lambda>(_, p, e, _). e - p)") auto

function mark_bits_tail :: "(nat \<Rightarrow> u64 \<Rightarrow> u64) \<Rightarrow> nat \<Rightarrow> nat \<Rightarrow> u64 list \<Rightarrow> u64 list option" where
  "mark_bits_tail f p e v =
     (if p < e then Option.bind (slot_upd (f (p mod 64)) (p div 64) v) (mark_bits_tail f (p + 1) e)
      else Some v)"
  by pat_completeness auto
termination by (relation "measure (\<lambda>(_, p, e, _). e - p)") auto

declare mark_bits_head.simps [simp del] mark_words.simps [simp del] mark_bits_tail.simps [simp del]

definition mark_vec :: "(nat \<Rightarrow> u64 \<Rightarrow> u64) \<Rightarrow> u64 \<Rightarrow> nat \<Rightarrow> nat \<Rightarrow> u64 list \<Rightarrow> u64 list option" where
  "mark_vec f w s e v = do {
     (p, v) \<leftarrow> mark_bits_head f s e v;
     (p, v) \<leftarrow> mark_words w p e v;
     mark_bits_tail f p e v }"

definition mark_alloc_l0 :: "nat \<Rightarrow> nat \<Rightarrow> AllocatorLevel01 \<Rightarrow> AllocatorLevel01 option" where
  "mark_alloc_l0 s e lv =
     map_option (\<lambda>v. lv\<lparr>ba_l0 := v\<rparr>) (mark_vec bit_off all_slot_clear s e (ba_l0 lv))"

definition mark_free_l0 :: "nat \<Rightarrow> nat \<Rightarrow> AllocatorLevel01 \<Rightarrow> AllocatorLevel01 option" where
  "mark_free_l0 s e lv =
     map_option (\<lambda>v. lv\<lparr>ba_l0 := v\<rparr>) (mark_vec bit_on all_slot_set s e (ba_l0 lv))"

text \<open>
  The body of the loop of \<open>_mark_l1_on_l0\<close>: entry \<open>e\<close> is recomputed from its eight words of level 0; the two
  counters follow.
\<close>

definition slotset :: "u64 list \<Rightarrow> nat \<Rightarrow> u64 list option" where
  "slotset v e = (if e * 8 + 8 \<le> length v then Some (take 8 (drop (e * 8) v)) else None)"

definition l1_summary :: "u64 list \<Rightarrow> u64" where
  "l1_summary ws =
     (let agg_and = foldl (AND) all_slot_set ws; agg_or = foldl (OR) all_slot_clear ws
      in if agg_or = all_slot_clear then L1_ENTRY_FULL
         else if agg_and = all_slot_set then L1_ENTRY_FREE
         else L1_ENTRY_PARTIAL)"

definition mark_l1_entry :: "nat \<Rightarrow> AllocatorLevel01 \<Rightarrow> AllocatorLevel01 option" where
  "mark_l1_entry e lv = do {
     ws \<leftarrow> slotset (ba_l0 lv) e;
     w \<leftarrow> slot_get (ba_l1 lv) (e div 32);
     let old = l1_field w (e mod 32);
     let nxt = l1_summary ws;
     if old = nxt then Some lv
     else Some (lv
       \<lparr>ba_partial_l1_count := ba_partial_l1_count lv - (if old = L1_ENTRY_PARTIAL then 1 else 0)
           + (if nxt = L1_ENTRY_PARTIAL then 1 else 0),
        ba_unalloc_l1_count := ba_unalloc_l1_count lv - (if old = L1_ENTRY_FREE then 1 else 0)
           + (if nxt = L1_ENTRY_FREE then 1 else 0),
        ba_l1 := (ba_l1 lv)[e div 32 := l1_put (e mod 32) nxt w]\<rparr>) }"

definition mark_l1_on_l0 :: "nat \<Rightarrow> nat \<Rightarrow> AllocatorLevel01 \<Rightarrow> AllocatorLevel01 option" where
  "mark_l1_on_l0 s e = for_each mark_l1_entry [pos_down s 512 div 512 ..< pos_up e 512 div 512]"

definition mark_alloc_l1_l0 :: "nat \<Rightarrow> nat \<Rightarrow> AllocatorLevel01 \<Rightarrow> AllocatorLevel01 option" where
  "mark_alloc_l1_l0 s e lv =
     Option.bind (mark_alloc_l0 s e lv) (mark_l1_on_l0 (pos_down s 512) (pos_up e 512))"

definition mark_free_l1_l0 :: "nat \<Rightarrow> nat \<Rightarrow> AllocatorLevel01 \<Rightarrow> AllocatorLevel01 option" where
  "mark_free_l1_l0 s e lv =
     Option.bind (mark_free_l0 s e lv) (mark_l1_on_l0 (pos_down s 512) (pos_up e 512))"

text \<open>The units that a byte range touches.\<close>

definition unit_from :: "u64 \<Rightarrow> u64 \<Rightarrow> nat" where
  "unit_from g off = unat (off div g)"

definition unit_to :: "u64 \<Rightarrow> u64 \<Rightarrow> u64 \<Rightarrow> nat" where
  "unit_to g off len = unat (p2roundup (off + len) g div g)"

definition free_l1 :: "u64 \<Rightarrow> u64 \<Rightarrow> AllocatorLevel01 \<Rightarrow> (u64 \<times> AllocatorLevel01) option" where
  "free_l1 off len lv =
     map_option (Pair len)
       (mark_free_l1_l0 (unit_from (ba_l0_granularity lv) off) (unit_to (ba_l0_granularity lv) off len) lv)"

text \<open>\<open>_init\<close>. The code divides by \<open>alloc_unit\<close>.\<close>

definition init_l1 :: "u64 \<Rightarrow> u64 \<Rightarrow> bool \<Rightarrow> AllocatorLevel01 option" where
  "init_l1 cap au as_free =
     (if au = 0 \<or> au * 512 = 0 then None
      else let l1g = au * 512;
               aligned = p2roundup cap (l1g * 8 * 32);
               fill = (if as_free then all_slot_set else all_slot_clear);
               lv = \<lparr>ba_l0 = replicate (unat (aligned div au div 64)) fill,
                     ba_l1 = replicate (unat (aligned div l1g div 32)) fill,
                     ba_l0_granularity = au, ba_l1_granularity = l1g,
                     ba_partial_l1_count = 0, ba_unalloc_l1_count = 0\<rparr>
           in do {
             lv \<leftarrow> (if as_free then Some lv
                    else mark_alloc_l1_l0 (unat (p2roundup cap au div au)) (unat (aligned div au)) lv);
             Some (lv\<lparr>ba_partial_l1_count := 0,
                      ba_unalloc_l1_count := (if as_free then of_nat (length (ba_l1 lv) * 32 * 8) else 0)\<rparr>) })"

subsection \<open>Queries\<close>

fun slots_clear :: "u64 list \<Rightarrow> nat \<Rightarrow> nat \<Rightarrow> bool option" where
  "slots_clear v i 0 = Some True"
| "slots_clear v i (Suc n) =
     (case slot_get v i of None \<Rightarrow> None
      | Some w \<Rightarrow> if w \<noteq> 0 then Some False else slots_clear v (i + 1) n)"

definition is_slot_fully_allocated :: "nat \<Rightarrow> AllocatorLevel01 \<Rightarrow> bool option" where
  "is_slot_fully_allocated idx lv = slots_clear (ba_l0 lv) (idx * 8) 8"

text \<open>\<open>_is_empty_l1\<close> over \<open>n\<close> entries from \<open>i\<close> on\<close>

fun is_empty_l1 :: "nat \<Rightarrow> nat \<Rightarrow> AllocatorLevel01 \<Rightarrow> bool option" where
  "is_empty_l1 i 0 lv = Some True"
| "is_empty_l1 i (Suc n) lv =
     (case is_slot_fully_allocated i lv of None \<Rightarrow> None
      | Some b \<Rightarrow> if b then is_empty_l1 (i + 1) n lv else Some False)"

function is_empty_l0 :: "nat \<Rightarrow> nat \<Rightarrow> AllocatorLevel01 \<Rightarrow> bool option" where
  "is_empty_l0 p e lv =
     (if p < e
      then (case slot_get (ba_l0 lv) (p div 64) of None \<Rightarrow> None
            | Some w \<Rightarrow>
                if p mod 64 = 0 \<and> p + 64 \<le> e
                then (if w \<noteq> 0 then Some False else is_empty_l0 (p + 64) e lv)
                else (if w AND push_bit (p mod 64) 1 \<noteq> 0 then Some False else is_empty_l0 (p + 1) e lv))
      else Some True)"
  by pat_completeness auto
termination by (relation "measure (\<lambda>(p, e, _). e - p)") auto

declare is_empty_l0.simps [simp del]

subsection \<open>Allocating\<close>

text \<open>
  \<open>_fragment_and_emplace\<close>. Lengths are cut to 32 bits where they are stored; the assertion of the loop guards
  only the extents it appends. The state is the total handed out so far and the extents.
\<close>

type_synonym emplaced = "u64 \<times> pextent list"

function emplace_loop :: "u64 \<Rightarrow> u64 \<Rightarrow> u64 \<Rightarrow> emplaced \<Rightarrow> emplaced option" where
  "emplace_loop mx off len (allocated, res) =
     (if len > 0
      then let chunk = (if mx > 0 \<and> len > mx then mx else len)
           in if chunk \<le> 0xFFFFFFFF
              then emplace_loop mx (off + chunk) (len - chunk)
                     (allocated + chunk, res @ [\<lparr>pe_offset = off, pe_length = ucast chunk\<rparr>])
              else None
      else Some (allocated, res))"
  by pat_completeness auto
termination
proof (relation "measure (\<lambda>(_, _, len, _). unat len)")
  fix mx off len allocated chunk :: u64 and res :: "pextent list"
  assume a: "len > 0" "chunk = (if mx > 0 \<and> len > mx then mx else len)"
  then have "chunk \<le> len" "0 < chunk" by auto
  then have "unat (len - chunk) < unat len"
    by (metis diff_less less_le_trans unat_gt_0 unat_sub_le word_gt_0 word_le_nat_alt)
  then show "((mx, off + chunk, len - chunk, allocated + chunk,
        res @ [\<lparr>pe_offset = off, pe_length = ucast chunk\<rparr>]), (mx, off, len, allocated, res))
      \<in> measure (\<lambda>(_, _, len, _). unat len)" by simp
qed simp

declare emplace_loop.simps [simp del]

definition fragment_and_emplace :: "u64 \<Rightarrow> u64 \<Rightarrow> u64 \<Rightarrow> emplaced \<Rightarrow> emplaced option" where
  "fragment_and_emplace mx off len = (\<lambda>(allocated, res).
     if res \<noteq> [] \<and> pe_offset (last res) + ucast (pe_length (last res)) = off
     then let b = last res; merged = ucast (pe_length b) + len
          in if mx = 0 \<or> merged \<le> mx
             then Some (allocated + len, butlast res @ [b\<lparr>pe_length := ucast merged\<rparr>])
             else if ucast (pe_length b) < mx
             then let grow = mx - ucast (pe_length b)
                  in emplace_loop mx (off + grow) (len - grow)
                       (allocated + grow, butlast res @ [b\<lparr>pe_length := pe_length b + ucast grow\<rparr>])
             else emplace_loop mx off len (allocated, res)
     else emplace_loop mx off len (allocated, res))"

text \<open>The inner loop of \<open>_allocate_l0\<close>: the end of the run of free units, at most \<open>k\<close> further on.\<close>

fun run_end_from :: "u64 list \<Rightarrow> nat \<Rightarrow> nat \<Rightarrow> nat option" where
  "run_end_from v p 0 = Some p"
| "run_end_from v p (Suc k) =
     (case slot_get v (p div 64) of None \<Rightarrow> None
      | Some w \<Rightarrow> if find_next_set_bit w (p mod 64) = Some (p mod 64) then run_end_from v (p + 1) k
                 else Some p)"

lemma run_end_from_ge: "run_end_from v p k = Some q \<Longrightarrow> p \<le> q"
  by (induction v p k rule: run_end_from.induct) (fastforce split: option.splits if_splits)+

lemma run_end_from_le: "run_end_from v p k = Some q \<Longrightarrow> q \<le> p + k"
  by (induction v p k rule: run_end_from.induct) (fastforce split: option.splits if_splits)+

lemma run_step:
  assumes "slot_get v (p div 64) = Some w" "find_next_set_bit w (p mod 64) = Some b"
    "run_end_from v (p div 64 * 64 + b) need = Some q" "0 < need"
  shows "p < p div 64 * 64 + b + min (q - (p div 64 * 64 + b)) need"
proof -
  have b: "p mod 64 \<le> b" "b < 64" "bit w b" using assms(2) by (auto simp: find_next_set_bit_Some)
  have d: "(p div 64 * 64 + b) div 64 = p div 64" "(p div 64 * 64 + b) mod 64 = b" using b by simp_all
  obtain k where k: "need = Suc k" using assms(4) gr0_implies_Suc by blast
  have "run_end_from v (p div 64 * 64 + b + 1) k = Some q"
    using assms(1,3) b by (simp add: k d find_next_set_bit_self)
  then have "p div 64 * 64 + b + 1 \<le> q" by (rule run_end_from_ge)
  moreover have "p \<le> p div 64 * 64 + b" using b(1) by (metis add_left_mono div_mult_mod_eq)
  ultimately show ?thesis using assms(4) by linarith
qed

text \<open>
  \<open>_allocate_l0\<close>. The result \<open>need ? -ENOSPC : 0\<close> is not used by its caller; the position grows with every
  round because the run that starts at a set bit is not empty.
\<close>

function allocate_l0_loop ::
  "u64 \<Rightarrow> nat \<Rightarrow> nat \<Rightarrow> nat \<Rightarrow> emplaced \<Rightarrow> AllocatorLevel01 \<Rightarrow> (int \<times> emplaced \<times> AllocatorLevel01) option"
where
  "allocate_l0_loop mx p e need em lv =
     (if p < e \<and> need > 0
      then (case slot_get (ba_l0 lv) (p div 64) of None \<Rightarrow> None
            | Some w \<Rightarrow>
                (case (if w = all_slot_clear then None else find_next_set_bit w (p mod 64)) of
                   None \<Rightarrow> allocate_l0_loop mx (p + (64 - p mod 64)) e need em lv
                 | Some b \<Rightarrow>
                     let run_start = p div 64 * 64 + b
                     in (case run_end_from (ba_l0 lv) run_start need of None \<Rightarrow> None
                         | Some run_end \<Rightarrow>
                             let units = min (run_end - run_start) need
                             in (case fragment_and_emplace mx (of_nat run_start * ba_l0_granularity lv)
                                        (of_nat units * ba_l0_granularity lv) em of None \<Rightarrow> None
                                 | Some em' \<Rightarrow>
                                     (case mark_alloc_l0 run_start (run_start + units) lv of None \<Rightarrow> None
                                      | Some lv' \<Rightarrow>
                                          allocate_l0_loop mx (run_start + units) e (need - units) em' lv')))))
      else Some (if need > 0 then - ENOSPC else 0, em, lv))"
  by pat_completeness auto

termination
proof (relation "measure (\<lambda>(_, p, e, _). e - p)", goal_cases)
  case (2 mx p e need em lv w)
  have "p mod 64 < 64" by simp
  with 2 show ?case by (simp del: mod_less_divisor) linarith
next
  case (3 mx p e need em lv w b run_start q units em' lv')
  then have "p < run_start + units" using run_step [of "ba_l0 lv" p w b need q] by (auto split: if_splits)
  with 3(1) show ?case by (simp del: of_nat_add) linarith
qed simp

declare allocate_l0_loop.simps [simp del]

definition allocate_l0 ::
  "u64 \<Rightarrow> u64 \<Rightarrow> nat \<Rightarrow> nat \<Rightarrow> emplaced \<Rightarrow> AllocatorLevel01 \<Rightarrow> (int \<times> emplaced \<times> AllocatorLevel01) option"
where
  "allocate_l0 len mx s e em lv = allocate_l0_loop mx s e (unat (len div ba_l0_granularity lv)) em lv"

text \<open>
  \<open>_allocate_l1\<close> over \<open>n\<close> entries from \<open>p\<close> on (its parameter \<open>min_length\<close> is not used). An entry that is
  taken only in part is not recomputed.
\<close>

fun allocate_l1 ::
  "u64 \<Rightarrow> u64 \<Rightarrow> nat \<Rightarrow> nat \<Rightarrow> emplaced \<Rightarrow> AllocatorLevel01 \<Rightarrow> (int \<times> emplaced \<times> AllocatorLevel01) option"
where
  "allocate_l1 len mx p 0 em lv = Some (if fst em \<ge> len then 0 else - ENOSPC, em, lv)"
| "allocate_l1 len mx p (Suc n) em lv =
     (case slot_get (ba_l1 lv) (p div 32) of
        None \<Rightarrow> Some (if fst em \<ge> len then 0 else - ENOSPC, em, lv)
      | Some w \<Rightarrow>
          let ent = l1_field w (p mod 32); rem = len - fst em
          in if ent = L1_ENTRY_FULL then allocate_l1 len mx (p + 1) n em lv
             else if rem = 0 then Some (0, em, lv)
             else if ent = L1_ENTRY_FREE \<and> rem \<ge> 512 * ba_l0_granularity lv
             then do {
               em \<leftarrow> fragment_and_emplace mx (of_nat (p * 512) * ba_l0_granularity lv)
                       (512 * ba_l0_granularity lv) em;
               lv \<leftarrow> mark_alloc_l1_l0 (p * 512) (p * 512 + 512) lv;
               allocate_l1 len mx (p + 1) n em lv }
             else do {
               (_, em, lv) \<leftarrow> allocate_l0 rem mx (p * 512) (p * 512 + 512) em lv;
               allocate_l1 len mx (p + 1) n em lv })"

subsection \<open>Claiming a run of free units next to a position\<close>

text \<open>
  \<open>_claim_free_to_left_l0\<close>. The code's \<open>pos\<close> may become \<open>-1\<close>, the model has \<open>q = pos + 1\<close>. The loop
  over one word returns whether it met a unit in use.
\<close>

function claim_left_bits :: "nat \<Rightarrow> nat \<Rightarrow> u64 list \<Rightarrow> bool \<times> nat \<times> u64 list" where
  "claim_left_bits pe q v =
     (if q > pe
      then let i = (q - 1) div 64; k = (q - 1) mod 64
           in if \<not> bit (v ! i) k then (True, q, v)
              else claim_left_bits pe (q - 1) (v[i := bit_off k (v ! i)])
      else (False, q, v))"
  by pat_completeness auto
termination by (relation "measure (\<lambda>(pe, q, _). q - pe)") auto

fun claim_left_words :: "nat \<Rightarrow> nat \<Rightarrow> u64 list \<Rightarrow> nat \<times> nat \<times> u64 list" where
  "claim_left_words 0 q v = (0, q, v)"
| "claim_left_words (Suc i) q v =
     (if v ! i = all_slot_set then claim_left_words i (q - 64) (v[i := all_slot_clear])
      else (Suc i, q, v))"

definition claim_free_to_left_l0 :: "nat \<Rightarrow> u64 list \<Rightarrow> (nat \<times> u64 list) option" where
  "claim_free_to_left_l0 start v =
     (if start = 0 \<or> (start - 1) div 64 \<ge> length v then None
      else case claim_left_bits (pos_down (start - 1) 64) start v of
             (True, q, v) \<Rightarrow> Some (q, v)
           | (False, q, v) \<Rightarrow>
               (case claim_left_words ((start - 1) div 64) q v of (i, q, v) \<Rightarrow>
                  if i > 0 \<and> v ! (i - 1) \<noteq> all_slot_set \<and> v ! (i - 1) \<noteq> all_slot_clear
                  then Some (snd (claim_left_bits (pos_down (q - 1) 64) q v))
                  else Some (q, v)))"

text \<open>\<open>_claim_free_to_right_l0\<close>\<close>

function claim_right_bits :: "nat \<Rightarrow> nat \<Rightarrow> u64 list \<Rightarrow> bool \<times> nat \<times> u64 list" where
  "claim_right_bits pe p v =
     (if p < pe
      then let i = p div 64; k = p mod 64
           in if \<not> bit (v ! i) k then (True, p, v)
              else claim_right_bits pe (p + 1) (v[i := bit_off k (v ! i)])
      else (False, p, v))"
  by pat_completeness auto
termination by (relation "measure (\<lambda>(pe, p, _). pe - p)") auto

function claim_right_words :: "nat \<Rightarrow> nat \<Rightarrow> u64 list \<Rightarrow> nat \<times> nat \<times> u64 list" where
  "claim_right_words i p v =
     (if i < length v \<and> v ! i = all_slot_set
      then claim_right_words (i + 1) (p + 64) (v[i := all_slot_clear])
      else (i, p, v))"
  by pat_completeness auto
termination by (relation "measure (\<lambda>(i, _, v). length v - i)") auto

declare claim_left_bits.simps [simp del] claim_right_bits.simps [simp del] claim_right_words.simps [simp del]

definition claim_free_to_right_l0 :: "nat \<Rightarrow> u64 list \<Rightarrow> nat \<times> u64 list" where
  "claim_free_to_right_l0 start v =
     (if start div 64 \<ge> length v then (start, v)
      else case claim_right_bits (pos_up (start + 1) 64) start v of
             (True, p, v) \<Rightarrow> (p, v)
           | (False, p, v) \<Rightarrow>
               (case claim_right_words (start div 64 + 1) p v of (i, p, v) \<Rightarrow>
                  if i < length v \<and> v ! i \<noteq> all_slot_set \<and> v ! i \<noteq> all_slot_clear
                  then snd (claim_right_bits (pos_up (p + 1) 64) p v)
                  else (p, v)))"

definition claim_free_to_left_l1 :: "u64 \<Rightarrow> AllocatorLevel01 \<Rightarrow> (u64 \<times> AllocatorLevel01) option" where
  "claim_free_to_left_l1 offs lv =
     (let e = unit_from (ba_l0_granularity lv) offs in do {
        (s, v) \<leftarrow> claim_free_to_left_l0 e (ba_l0 lv);
        if s < e
        then map_option (Pair (ba_l0_granularity lv * of_nat (e - s)))
               (mark_l1_on_l0 (pos_down s 512) (pos_up e 512) (lv\<lparr>ba_l0 := v\<rparr>))
        else Some (0, lv\<lparr>ba_l0 := v\<rparr>) })"

definition claim_free_to_right_l1 :: "u64 \<Rightarrow> AllocatorLevel01 \<Rightarrow> (u64 \<times> AllocatorLevel01) option" where
  "claim_free_to_right_l1 offs lv =
     (let s = unit_from (ba_l0_granularity lv) offs; (e, v) = claim_free_to_right_l0 s (ba_l0 lv)
      in if s < e
         then map_option (Pair (ba_l0_granularity lv * of_nat (e - s)))
                (mark_l1_on_l0 (pos_down s 512) (pos_up e 512) (lv\<lparr>ba_l0 := v\<rparr>))
         else Some (0, lv\<lparr>ba_l0 := v\<rparr>))"

subsection \<open>Statistics\<close>

type_synonym bins = "(nat \<times> nat) list"

text \<open>\<open>++bins_overall[cbits(free_seq) - 1]\<close>\<close>

definition bin_count :: "u64 \<Rightarrow> bins \<Rightarrow> bins" where
  "bin_count free_seq b =
     (let k = cbits free_seq - 1
      in om_set k ((case map_of b k of None \<Rightarrow> 0 | Some n \<Rightarrow> n) + 1) b)"

text \<open>
  The \<open>do ... while (pos < bits_per_slot)\<close> loop on one word. When no set bit is left, \<open>pos1\<close> is \<open>-1\<close> and
  \<open>pos = pos1 + 1\<close> starts the word again.
\<close>

partial_function (option) stats_slot :: "u64 \<Rightarrow> nat \<Rightarrow> u64 \<Rightarrow> bins \<Rightarrow> (u64 \<times> bins) option" where
  "stats_slot w pos free_seq b =
     (let pos1 = find_next_set_bit w pos;
          (free_seq', b', pos') =
            (if pos1 = Some pos then (free_seq + 1, b, pos + 1)
             else (if pos1 = None then 0 else 1,
                   if free_seq \<noteq> 0 then bin_count free_seq b else b,
                   case pos1 of None \<Rightarrow> 0 | Some q \<Rightarrow> q + 1))
      in if pos' < 64 then stats_slot w pos' free_seq' b' else Some (free_seq', b'))"

definition stats_step :: "u64 \<Rightarrow> u64 \<times> bins \<Rightarrow> (u64 \<times> bins) option" where
  "stats_step w = (\<lambda>(free_seq, b).
     if w = all_slot_set then Some (free_seq + 64, b)
     else if w \<noteq> all_slot_clear then stats_slot w 0 free_seq b
     else if free_seq \<noteq> 0 then Some (0, bin_count free_seq b)
     else Some (free_seq, b))"

definition collect_stats :: "AllocatorLevel01 \<Rightarrow> bins \<Rightarrow> bins option" where
  "collect_stats lv b = do {
     (free_seq, b) \<leftarrow> for_each stats_step (ba_l0 lv) (0, b);
     Some (if free_seq \<noteq> 0 then bin_count free_seq b else b) }"

section \<open>Level 2\<close>

record AllocatorLevel02 =
  bl_l1 :: AllocatorLevel01
  bl_l2_granularity :: u64
  bl_available :: u64
  bl_last_pos :: nat
  bl_l2 :: "u64 list"

definition mark_l2 :: "(nat \<Rightarrow> u64 \<Rightarrow> u64) \<Rightarrow> nat \<Rightarrow> nat \<Rightarrow> u64 list \<Rightarrow> u64 list option" where
  "mark_l2 f s e = for_each (\<lambda>p. slot_upd (f (p mod 64)) (p div 64)) [s..<e]"

definition mark_l2_free :: "nat \<Rightarrow> nat \<Rightarrow> AllocatorLevel02 \<Rightarrow> AllocatorLevel02 option" where
  "mark_l2_free s e st = map_option (\<lambda>v. st\<lparr>bl_l2 := v\<rparr>) (mark_l2 bit_on s e (bl_l2 st))"

definition mark_l2_allocated :: "nat \<Rightarrow> nat \<Rightarrow> AllocatorLevel02 \<Rightarrow> AllocatorLevel02 option" where
  "mark_l2_allocated s e st = map_option (\<lambda>v. st\<lparr>bl_l2 := v\<rparr>) (mark_l2 bit_off s e (bl_l2 st))"

text \<open>The search of \<open>_mark_l2_on_l1\<close> for an entry that is not full, over \<open>n\<close> entries from \<open>i\<close> on.\<close>

fun some_l1_free :: "u64 list \<Rightarrow> nat \<Rightarrow> nat \<Rightarrow> bool option" where
  "some_l1_free v i 0 = Some False"
| "some_l1_free v i (Suc n) =
     (case slot_get v (i div 32) of None \<Rightarrow> None
      | Some w \<Rightarrow> if l1_field w (i mod 32) \<noteq> 0 then Some True else some_l1_free v (i + 1) n)"

definition mark_l2_on_l1 :: "nat \<Rightarrow> nat \<Rightarrow> AllocatorLevel02 \<Rightarrow> AllocatorLevel02 option" where
  "mark_l2_on_l1 s e = for_each (\<lambda>p st. do {
       free \<leftarrow> some_l1_free (ba_l1 (bl_l1 st)) (p * 256) 256;
       v \<leftarrow> slot_upd ((if free then bit_on else bit_off) (p mod 64)) (p div 64) (bl_l2 st);
       Some (st\<lparr>bl_l2 := v\<rparr>) }) [s..<e]"

definition init_l2 :: "u64 \<Rightarrow> u64 \<Rightarrow> bool \<Rightarrow> AllocatorLevel02 option" where
  "init_l2 cap au as_free = do {
     lv \<leftarrow> init_l1 cap au as_free;
     let l2g = ba_l1_granularity lv * 32 * 8;
     let aligned = p2roundup cap (l2g * 64);
     if l2g = 0 then None
     else let st = \<lparr>bl_l1 = lv, bl_l2_granularity = l2g, bl_available = 0, bl_last_pos = 0,
                    bl_l2 = replicate (unat (aligned div l2g div 64))
                              (if as_free then all_slot_set else all_slot_clear)\<rparr>
          in if as_free then Some (st\<lparr>bl_available := p2align cap au\<rparr>)
             else mark_l2_allocated (unat (p2roundup cap l2g div l2g)) (unat (aligned div l2g)) st }"

definition bm_mark_free :: "u64 \<Rightarrow> u64 \<Rightarrow> AllocatorLevel02 \<Rightarrow> AllocatorLevel02 option" where
  "bm_mark_free off len st = do {
     (_, lv) \<leftarrow> free_l1 off len (bl_l1 st);
     let g = bl_l2_granularity st;
     st \<leftarrow> mark_l2_free (unat (off div g)) (unat (p2roundup (off + len) g div g)) (st\<lparr>bl_l1 := lv\<rparr>);
     Some (st\<lparr>bl_available := bl_available st + len\<rparr>) }"

definition bm_mark_allocated :: "u64 \<Rightarrow> u64 \<Rightarrow> AllocatorLevel02 \<Rightarrow> AllocatorLevel02 option" where
  "bm_mark_allocated off len st = do {
     let g0 = ba_l0_granularity (bl_l1 st);
     lv \<leftarrow> mark_alloc_l1_l0 (unit_from g0 off) (unit_to g0 off len) (bl_l1 st);
     let g = bl_l2_granularity st;
     st \<leftarrow> mark_l2_allocated (unat (off div g)) (unat (p2roundup (off + len) g div g)) (st\<lparr>bl_l1 := lv\<rparr>);
     if bl_available st \<ge> len then Some (st\<lparr>bl_available := bl_available st - len\<rparr>) else None }"

definition free_l2 :: "(u64 \<times> u64) list \<Rightarrow> AllocatorLevel02 \<Rightarrow> AllocatorLevel02 option" where
  "free_l2 rr st = do {
     (released, st) \<leftarrow> for_each (\<lambda>(off, len) (released, st). do {
         (n, lv) \<leftarrow> free_l1 off len (bl_l1 st);
         let g = bl_l2_granularity st;
         st \<leftarrow> mark_l2_free (unat (off div g)) (unat (p2roundup (off + len) g div g)) (st\<lparr>bl_l1 := lv\<rparr>);
         Some (released + n, st) }) rr (0, st);
     Some (st\<lparr>bl_available := bl_available st + released\<rparr>) }"

subsection \<open>Allocating\<close>

text \<open>
  The innermost loop of \<open>_allocate_l2\<close>, over the bits of one word of level 2. The bit counts from the start of
  the word, \<open>scan_end\<close> from the start of the vector. The result says whether the function returned.
\<close>

function l2_bit_loop ::
  "u64 \<Rightarrow> u64 \<Rightarrow> u64 \<Rightarrow> nat \<Rightarrow> nat \<Rightarrow> nat option \<Rightarrow> emplaced \<Rightarrow> AllocatorLevel02 \<Rightarrow>
   (bool \<times> emplaced \<times> AllocatorLevel02) option"
where
  "l2_bit_loop want mx val i scan_end None em st = Some (False, em, st)"
| "l2_bit_loop want mx val i scan_end (Some b) em st =
     (if \<not> b < scan_end then Some (False, em, st)
      else case allocate_l1 want mx ((i * 64 + b) * 256) 256 em (bl_l1 st) of
             None \<Rightarrow> None
           | Some (_, em', lv) \<Rightarrow>
      (case is_empty_l1 ((i * 64 + b) * 256) 256 lv of
             None \<Rightarrow> None
           | Some none_left \<Rightarrow>
      if none_left \<and> b \<ge> 64 then None
      else let st' = st\<lparr>bl_l1 := lv,
                       bl_l2 := (if none_left then (bl_l2 st)[i := bit_off b (bl_l2 st ! i)] else bl_l2 st)\<rparr>
           in if fst em' \<ge> want
              then Some (True, em', st'\<lparr>bl_last_pos := i * 64 + b, bl_available := bl_available st' - fst em'\<rparr>)
              else l2_bit_loop want mx val i scan_end
                     (if val = all_slot_set then (if b + 1 < scan_end then Some (b + 1) else None)
                      else find_next_set_bit (bl_l2 st' ! i) (b + 1)) em' st'))"
  by pat_completeness auto
termination
proof (relation "measure (\<lambda>(_, _, _, _, scan_end, bo, _). case bo of None \<Rightarrow> 0 | Some b \<Rightarrow> Suc (scan_end - b))",
    goal_cases)
  case (2 want mx val i scan_end b em st)
  then show ?case
    by (auto split: option.splits simp: find_next_set_bit_Some)
qed simp

declare l2_bit_loop.simps [simp del]

function l2_word_loop ::
  "u64 \<Rightarrow> u64 \<Rightarrow> nat \<Rightarrow> nat \<Rightarrow> emplaced \<Rightarrow> AllocatorLevel02 \<Rightarrow> (bool \<times> emplaced \<times> AllocatorLevel02) option"
where
  "l2_word_loop want mx idx stop em st =
     (if idx < stop
      then (case slot_get (bl_l2 st) (idx div 64) of
              None \<Rightarrow> None
            | Some val \<Rightarrow>
                if val = all_slot_clear then l2_word_loop want mx (idx + 64) stop em st
                else let scan_end = min (idx div 64 * 64 + 64) stop;
                         b = (if val = all_slot_set then Some 0 else find_next_set_bit val (idx mod 64))
                     in (case l2_bit_loop want mx val (idx div 64) scan_end b em st of
                           None \<Rightarrow> None
                         | Some (fin, em', st') \<Rightarrow>
                             if fin then Some (True, em', st')
                             else l2_word_loop want mx scan_end stop em' st'))
      else Some (False, em, st))"
  by pat_completeness auto
termination
proof (relation "measure (\<lambda>(_, _, idx, stop, _). stop - idx)", goal_cases)
  case (3 want mx idx e em st val scan_end b r fin y em' st')
  have "idx mod 64 < 64" "idx = idx div 64 * 64 + idx mod 64" by simp_all
  then have "idx < idx div 64 * 64 + 64" by linarith
  with 3 show ?case by auto
qed auto

declare l2_word_loop.simps [simp del]

definition allocate_l2 ::
  "u64 \<Rightarrow> u64 \<Rightarrow> u64 \<Rightarrow> int \<Rightarrow> emplaced \<Rightarrow> AllocatorLevel02 \<Rightarrow> (int \<times> emplaced \<times> AllocatorLevel02) option"
where
  "allocate_l2 want min_length max_length hint em st =
     (let m = (if max_length = 0 then 0xFFFFFFFF else max_length);
          m = p2align m min_length;
          mx = (if m < min_length then min_length else m);
          size = length (bl_l2 st) * 64;
          pos = (if hint > 0 then unat (p2align (of_int hint div bl_l2_granularity st) 64) else 0);
          pos = (if pos \<ge> size then 0 else pos)
      in do {
        (fin, em, st) \<leftarrow> l2_word_loop want mx pos size em st;
        if fin then Some (0, em, st)
        else do {
          (fin, em, st) \<leftarrow> l2_word_loop want mx 0 pos em st;
          if fin then Some (0, em, st)
          else Some (if fst em > 0 then 0 else - ENOSPC, em,
                     if fst em > 0 then st\<lparr>bl_available := bl_available st - fst em\<rparr> else st) } })"

subsection \<open>Enumerating\<close>

function word_run_end :: "u64 \<Rightarrow> nat \<Rightarrow> nat" where
  "word_run_end w b = (if b < 64 \<and> bit w b then word_run_end w (b + 1) else b)"
  by pat_completeness auto
termination by (relation "measure (\<lambda>(_, b). 64 - b)") auto

declare word_run_end.simps [simp del]

lemma word_run_end_ge: "b \<le> word_run_end w b"
proof (induction w b rule: word_run_end.induct)
  case (1 w b)
  then show ?case by (subst word_run_end.simps) auto
qed

function slot_runs :: "u64 \<Rightarrow> nat \<Rightarrow> (nat \<times> nat) list" where
  "slot_runs w b =
     (case find_next_set_bit w b of
        None \<Rightarrow> []
      | Some rs \<Rightarrow> let e = word_run_end w (rs + 1) in (rs, e - rs) # slot_runs w e)"
  by pat_completeness auto
termination
proof (relation "measure (\<lambda>(_, b). 64 - b)", goal_cases)
  case (2 w b rs e)
  then have "b \<le> rs" "rs < 64" by (auto simp: find_next_set_bit_Some)
  with 2 word_run_end_ge [of "rs + 1" w] show ?case by simp
qed simp

declare slot_runs.simps [simp del]

text \<open>The calls of \<open>notify\<close> made by \<open>foreach_internal\<close>, in order.\<close>

definition entry_notify :: "AllocatorLevel01 \<Rightarrow> nat \<Rightarrow> (u64 \<times> u64) list option" where
  "entry_notify lv e = do {
     val \<leftarrow> slot_get (ba_l1 lv) (e div 32);
     let ent = l1_field val (e mod 32);
     if ent = L1_ENTRY_FULL then Some []
     else if ent = L1_ENTRY_FREE then Some [(of_nat e * ba_l1_granularity lv, ba_l1_granularity lv)]
     else for_each (\<lambda>s out. do {
            w \<leftarrow> slot_get (ba_l0 lv) (e * 8 + s);
            Some (out @ map (\<lambda>(rs, n). (of_nat (e * 512 + s * 64 + rs) * ba_l0_granularity lv,
                                        of_nat n * ba_l0_granularity lv)) (slot_runs w 0)) }) [0..<8] [] }"

definition foreach_internal :: "AllocatorLevel02 \<Rightarrow> (u64 \<times> u64) list option" where
  "foreach_internal st =
     (let lv = bl_l1 st
      in for_each (\<lambda>e out. map_option ((@) out) (entry_notify lv e)) [0 ..< length (ba_l1 lv) * 32] [])"

section \<open>\<open>BitmapAllocator\<close>\<close>

definition new_BitmapAllocator :: "u64 \<Rightarrow> u64 \<Rightarrow> AllocatorLevel02 option" where
  "new_BitmapAllocator cap au = init_l2 cap au False"

definition bitmap_allocate ::
  "u64 \<Rightarrow> u64 \<Rightarrow> u64 \<Rightarrow> int \<Rightarrow> pextent list \<Rightarrow> AllocatorLevel02 \<Rightarrow> (int \<times> pextent list \<times> AllocatorLevel02) option"
where
  "bitmap_allocate want unit mx hint extents st =
     (if isp2 unit \<and> want mod unit = 0 \<and> unit \<ge> ba_l0_granularity (bl_l1 st)
      then do {
        (r, (allocated, extents), st) \<leftarrow> allocate_l2 want unit mx hint (0, extents) st;
        Some (if r = 0 \<and> allocated > 0 then sint allocated else - ENOSPC, extents, st) }
      else None)"

definition bitmap_release :: "(u64 \<times> u64) list \<Rightarrow> AllocatorLevel02 \<Rightarrow> AllocatorLevel02 option" where
  "bitmap_release = free_l2"

definition bitmap_get_free :: "AllocatorLevel02 \<Rightarrow> u64" where
  "bitmap_get_free st = bl_available st"

text \<open>The operands of the quotient \<open>get_fragmentation\<close> returns as a \<open>double\<close>; no operands for \<open>0.0\<close>.\<close>

definition bitmap_fragmentation :: "AllocatorLevel02 \<Rightarrow> (u64 \<times> u64) option" where
  "bitmap_fragmentation st =
     (let total = ba_unalloc_l1_count (bl_l1 st) + ba_partial_l1_count (bl_l1 st)
      in if total = 0 then None else Some (ba_partial_l1_count (bl_l1 st), total))"

definition bitmap_dump :: "AllocatorLevel02 \<Rightarrow> bins option" where
  "bitmap_dump st = collect_stats (bl_l1 st) []"

definition bitmap_foreach :: "AllocatorLevel02 \<Rightarrow> (u64 \<times> u64) list option" where
  "bitmap_foreach st = foreach_internal st"

text \<open>The aligned range inside \<open>[off, off + len)\<close>, as both calls compute it.\<close>

definition inner_range :: "u64 \<Rightarrow> u64 \<Rightarrow> u64 \<Rightarrow> u64 \<times> u64" where
  "inner_range g off len = (let o' = p2roundup off g in (o', p2align (off + len - o') g))"

definition bitmap_init_add_free :: "u64 \<Rightarrow> u64 \<Rightarrow> AllocatorLevel02 \<Rightarrow> AllocatorLevel02 option" where
  "bitmap_init_add_free off len st =
     (if len = 0 then Some st
      else case inner_range (ba_l0_granularity (bl_l1 st)) off len of (o', l') \<Rightarrow>
             if l' = 0 then Some st else bm_mark_free o' l' st)"

definition bitmap_init_rm_free :: "u64 \<Rightarrow> u64 \<Rightarrow> AllocatorLevel02 \<Rightarrow> AllocatorLevel02 option" where
  "bitmap_init_rm_free off len st =
     (if len = 0 then Some st
      else case inner_range (ba_l0_granularity (bl_l1 st)) off len of (o', l') \<Rightarrow>
             if l' = 0 then Some st else bm_mark_allocated o' l' st)"

definition bitmap_shutdown :: "AllocatorLevel02 \<Rightarrow> AllocatorLevel02" where
  "bitmap_shutdown st = st\<lparr>bl_last_pos := 0, bl_available := 0\<rparr>"

definition claim_free_to_left :: "u64 \<Rightarrow> AllocatorLevel02 \<Rightarrow> (u64 \<times> AllocatorLevel02) option" where
  "claim_free_to_left off st = do {
     (n, lv) \<leftarrow> claim_free_to_left_l1 off (bl_l1 st);
     let g = bl_l2_granularity st;
     if bl_available st \<ge> n
     then map_option (Pair n)
            (mark_l2_on_l1 (unat ((off - n) div g)) (unat (p2roundup off g div g))
               (st\<lparr>bl_l1 := lv, bl_available := bl_available st - n\<rparr>))
     else None }"

definition claim_free_to_right :: "u64 \<Rightarrow> AllocatorLevel02 \<Rightarrow> (u64 \<times> AllocatorLevel02) option" where
  "claim_free_to_right off st = do {
     (n, lv) \<leftarrow> claim_free_to_right_l1 off (bl_l1 st);
     let g = bl_l2_granularity st;
     if bl_available st \<ge> n
     then map_option (Pair n)
            (mark_l2_on_l1 (unat (off div g)) (unat (p2roundup (off + n) g div g))
               (st\<lparr>bl_l1 := lv, bl_available := bl_available st - n\<rparr>))
     else None }"

end
