(* ===== verification/Bitmap_Correct.thy ===== *)
theory Bitmap_Correct
  imports Bitmap_Allocator
begin

text \<open>
  What the operations of the bitmap allocator do to the set of free units.
\<close>

section \<open>The units of level 0\<close>

definition unit_free :: "u64 list \<Rightarrow> nat \<Rightarrow> bool" where
  "unit_free v u \<longleftrightarrow> u div 64 < length v \<and> bit (v ! (u div 64)) (u mod 64)"

lemma unit_free_lt: "unit_free v u \<Longrightarrow> u < 64 * length v"
  by (simp add: unit_free_def) (metis div_less_iff_less_mult mult.commute zero_less_numeral)

lemma unit_index: "u < 64 * n \<longleftrightarrow> u div 64 < (n::nat)"
  by (simp add: div_less_iff_less_mult mult.commute)

lemma same_unit: "(u::nat) div 64 = p div 64 \<and> u mod 64 = p mod 64 \<longleftrightarrow> u = p"
  by (metis div_mult_mod_eq)

lemma bit_bit_on: "k < 64 \<Longrightarrow> bit (bit_on k w) j \<longleftrightarrow> bit w j \<or> j = k"
  by (auto simp: bit_on_def bit_simps)

lemma bit_bit_off: "k < 64 \<Longrightarrow> bit (bit_off k w) j \<longleftrightarrow> bit w j \<and> j \<noteq> k"
  by (auto simp: bit_off_def bit_simps dest: bit_u64_lt)

text \<open>A pair of a bit operation and a whole word that set the units they touch to \<open>b\<close>.\<close>

definition marks :: "bool \<Rightarrow> (nat \<Rightarrow> u64 \<Rightarrow> u64) \<Rightarrow> u64 \<Rightarrow> bool" where
  "marks b f w \<longleftrightarrow> (\<forall>k < 64. \<forall>x j. bit (f k x) j \<longleftrightarrow> (if j = k then b else bit x j)) \<and>
                 (\<forall>j < 64. bit w j \<longleftrightarrow> b)"

lemma marks_on: "marks True bit_on all_slot_set"
  by (auto simp: marks_def bit_bit_on all_slot_set_def)

lemma marks_off: "marks False bit_off all_slot_clear"
  by (auto simp: marks_def bit_bit_off all_slot_clear_def)

definition set_units :: "bool \<Rightarrow> nat \<Rightarrow> nat \<Rightarrow> u64 list \<Rightarrow> u64 list \<Rightarrow> bool" where
  "set_units b s e v v' \<longleftrightarrow> length v' = length v \<and>
     (\<forall>u. unit_free v' u \<longleftrightarrow> (if s \<le> u \<and> u < e then b else unit_free v u))"

lemma set_units_empty: "e \<le> s \<Longrightarrow> set_units b s e v v"
  by (auto simp: set_units_def)

lemma set_units_trans:
  "set_units b s m v v' \<Longrightarrow> set_units b m e v' v'' \<Longrightarrow> s \<le> m \<Longrightarrow> m \<le> e \<Longrightarrow> set_units b s e v v''"
  unfolding set_units_def by (metis linorder_not_le order_trans)

lemma upd_bit_units:
  assumes "marks b f w" "p div 64 < length v"
  shows "set_units b p (p + 1) v (v[p div 64 := f (p mod 64) (v ! (p div 64))])"
  unfolding set_units_def
proof (intro conjI allI)
  fix u
  have m: "bit (f (p mod 64) x) j \<longleftrightarrow> (if j = p mod 64 then b else bit x j)" for x j
    using assms(1) by (simp add: marks_def)
  show "unit_free (v[p div 64 := f (p mod 64) (v ! (p div 64))]) u
      \<longleftrightarrow> (if p \<le> u \<and> u < p + 1 then b else unit_free v u)"
  proof (cases "u div 64 = p div 64")
    case True
    then have "u mod 64 = p mod 64 \<longleftrightarrow> u = p" using same_unit [of u p] by blast
    with True assms(2) show ?thesis by (auto simp: unit_free_def m)
  next
    case False
    then have "u \<noteq> p" by auto
    with False show ?thesis by (auto simp: unit_free_def)
  qed
qed simp

lemma upd_word_units:
  assumes "marks b f w" "p mod 64 = 0" "p div 64 < length v"
  shows "set_units b p (p + 64) v (v[p div 64 := w])"
  unfolding set_units_def
proof (intro conjI allI)
  fix u
  have d: "u div 64 = p div 64 \<longleftrightarrow> p \<le> u \<and> u < p + 64"
  proof -
    obtain q where q: "p = 64 * q" using assms(2) by (metis mod_eq_0_iff_dvd dvd_def)
    have "u div 64 = q \<longleftrightarrow> 64 * q \<le> u \<and> u < 64 * q + 64"
      by (auto intro: div_nat_eqI)
    then show ?thesis by (simp add: q)
  qed
  have "bit w (u mod 64) \<longleftrightarrow> b" using assms(1) by (simp add: marks_def)
  then show "unit_free (v[p div 64 := w]) u \<longleftrightarrow> (if p \<le> u \<and> u < p + 64 then b else unit_free v u)"
    using d assms(3) by (cases "u div 64 = p div 64") (auto simp: unit_free_def)
qed simp

lemma mark_bits_head_units:
  assumes "marks b f w" "e \<le> 64 * length v" "s \<le> e"
  shows "\<exists>p v'. mark_bits_head f s e v = Some (p, v') \<and> set_units b s p v v' \<and> s \<le> p \<and> p \<le> e \<and>
           (p < e \<longrightarrow> p mod 64 = 0)"
  using assms
proof (induction f s e v rule: mark_bits_head.induct)
  case (1 f p e v)
  show ?case
  proof (cases "p < e \<and> p mod 64 \<noteq> 0")
    case True
    then have i: "p div 64 < length v" using "1.prems"(2) unit_index [of p "length v"] by linarith
    let ?v = "v[p div 64 := f (p mod 64) (v ! (p div 64))]"
    have s: "slot_upd (f (p mod 64)) (p div 64) v = Some ?v" using i by (simp add: slot_upd_def)
    from "1.IH" [OF True s] "1.prems" True
    obtain q v' where q: "mark_bits_head f (p + 1) e ?v = Some (q, v')" "set_units b (p + 1) q ?v v'"
      "p + 1 \<le> q" "q \<le> e" "q < e \<longrightarrow> q mod 64 = 0" by auto
    have "mark_bits_head f p e v = Some (q, v')"
      using True q(1) by (subst mark_bits_head.simps) (simp add: s)
    moreover have "set_units b p q v v'"
      by (rule set_units_trans [OF upd_bit_units [OF "1.prems"(1) i] q(2)]) (use q in auto)
    ultimately show ?thesis using q by (intro exI [of _ q] exI [of _ v']) simp
  next
    case False
    then show ?thesis using "1.prems"
      by (subst mark_bits_head.simps) (auto simp: set_units_empty)
  qed
qed

lemma mark_words_units:
  assumes "marks b f w" "e \<le> 64 * length v" "s \<le> e" "s < e \<longrightarrow> s mod 64 = 0"
  shows "\<exists>p v'. mark_words w s e v = Some (p, v') \<and> set_units b s p v v' \<and> s \<le> p \<and> p \<le> e"
  using assms
proof (induction w s e v rule: mark_words.induct)
  case (1 w p e v)
  show ?case
  proof (cases "p + 64 \<le> e")
    case True
    then have i: "p div 64 < length v" using "1.prems"(2) unit_index [of p "length v"] by linarith
    have al: "p mod 64 = 0" using "1.prems"(4) True by simp
    let ?v = "v[p div 64 := w]"
    have s: "slot_upd (\<lambda>_. w) (p div 64) v = Some ?v" using i by (simp add: slot_upd_def)
    from "1.IH" [OF True s] "1.prems" True al
    obtain q v' where q: "mark_words w (p + 64) e ?v = Some (q, v')" "set_units b (p + 64) q ?v v'"
      "p + 64 \<le> q" "q \<le> e" by auto
    have "mark_words w p e v = Some (q, v')"
      using True q(1) by (subst mark_words.simps) (simp add: s)
    moreover have "set_units b p q v v'"
      by (rule set_units_trans [OF upd_word_units [OF "1.prems"(1) al i] q(2)]) (use q in auto)
    ultimately show ?thesis using q by (intro exI [of _ q] exI [of _ v']) simp
  next
    case False
    then show ?thesis using "1.prems" by (subst mark_words.simps) (auto simp: set_units_empty)
  qed
qed

lemma mark_bits_tail_units:
  assumes "marks b f w" "e \<le> 64 * length v" "s \<le> e"
  shows "\<exists>v'. mark_bits_tail f s e v = Some v' \<and> set_units b s e v v'"
  using assms
proof (induction f s e v rule: mark_bits_tail.induct)
  case (1 f p e v)
  show ?case
  proof (cases "p < e")
    case True
    then have i: "p div 64 < length v" using "1.prems"(2) unit_index [of p "length v"] by linarith
    let ?v = "v[p div 64 := f (p mod 64) (v ! (p div 64))]"
    have s: "slot_upd (f (p mod 64)) (p div 64) v = Some ?v" using i by (simp add: slot_upd_def)
    from "1.IH" [OF True s] "1.prems" True
    obtain v' where q: "mark_bits_tail f (p + 1) e ?v = Some v'" "set_units b (p + 1) e ?v v'" by auto
    have "mark_bits_tail f p e v = Some v'"
      using True q(1) by (subst mark_bits_tail.simps) (simp add: s)
    moreover have "set_units b p e v v'"
      by (rule set_units_trans [OF upd_bit_units [OF "1.prems"(1) i] q(2)]) (use True in auto)
    ultimately show ?thesis by blast
  next
    case False
    then show ?thesis using "1.prems" by (subst mark_bits_tail.simps) (auto simp: set_units_empty)
  qed
qed

lemma mark_vec_units:
  assumes "marks b f w" "e \<le> 64 * length v" "s \<le> e"
  shows "\<exists>v'. mark_vec f w s e v = Some v' \<and> set_units b s e v v'"
proof -
  from mark_bits_head_units [OF assms] obtain p v1 where
    p: "mark_bits_head f s e v = Some (p, v1)" "set_units b s p v v1" "s \<le> p" "p \<le> e" "p < e \<longrightarrow> p mod 64 = 0"
    by (elim exE conjE) (rule that)
  have l1: "e \<le> 64 * length v1" using assms(2) p(2) by (simp add: set_units_def)
  from mark_words_units [OF assms(1) l1 p(4,5)] obtain q v2 where
    q: "mark_words w p e v1 = Some (q, v2)" "set_units b p q v1 v2" "p \<le> q" "q \<le> e" by blast
  have l2: "e \<le> 64 * length v2" using l1 q(2) by (simp add: set_units_def)
  from mark_bits_tail_units [OF assms(1) l2 q(4)] obtain v3 where
    t: "mark_bits_tail f q e v2 = Some v3" "set_units b q e v2 v3" by blast
  have "mark_vec f w s e v = Some v3" by (simp add: mark_vec_def p(1) q(1) t(1))
  moreover have "set_units b s e v v3"
    by (rule set_units_trans [OF set_units_trans [OF p(2) q(2)] t(2)]) (use p q in auto)
  ultimately show ?thesis by blast
qed

lemma mark_vec_none: "e \<le> s \<Longrightarrow> mark_vec f w s e v = Some v"
  by (simp add: mark_vec_def mark_bits_head.simps mark_words.simps mark_bits_tail.simps)


section \<open>The entries of level 1\<close>

definition l1_value :: "u64 list \<Rightarrow> nat \<Rightarrow> u64" where
  "l1_value v e = l1_field (v ! (e div 32)) (e mod 32)"

definition entry_units :: "nat \<Rightarrow> nat set" where
  "entry_units e = {512 * e ..< 512 * e + 512}"

text \<open>What the entry of a slot set should say about it.\<close>

definition summary_of :: "u64 list \<Rightarrow> nat \<Rightarrow> u64" where
  "summary_of v e =
     (if \<forall>u \<in> entry_units e. \<not> unit_free v u then L1_ENTRY_FULL
      else if \<forall>u \<in> entry_units e. unit_free v u then L1_ENTRY_FREE
      else L1_ENTRY_PARTIAL)"

lemmas l1_entry_defs = L1_ENTRY_FULL_def L1_ENTRY_PARTIAL_def L1_ENTRY_FREE_def

lemma bit_three: "bit (3::u64) j \<longleftrightarrow> j < 2"
proof -
  have "(3::u64) = mask 2" by (simp add: mask_eq_exp_minus_1)
  then have "bit (3::u64) j \<longleftrightarrow> bit (mask 2 :: u64) j" by (rule arg_cong)
  then show ?thesis by (simp only: bit_mask_iff possible_bit_word) auto
qed

lemma bit_l1_field: "bit (l1_field w k) j \<longleftrightarrow> j < 2 \<and> bit w (k * 2 + j)"
  by (simp only: l1_field_def bit_and_iff bit_three bit_drop_bit_eq comp_apply) auto

lemma l1_field_put:
  assumes "k < 32" "k' < 32" "n AND 3 = n"
  shows "l1_field (l1_put k n w) k' = (if k' = k then n else l1_field w k')"
proof (rule bit_word_eqI)
  fix j assume "j < LENGTH(64)"
  have n: "bit n i \<Longrightarrow> i < 2" for i using assms(3) bit_three by (metis bit_and_iff)
  show "bit (l1_field (l1_put k n w) k') j \<longleftrightarrow> bit (if k' = k then n else l1_field w k') j"
  proof (cases "j < 2")
    case True
    with assms have lt: "k' * 2 + j < 64" by simp
    have b: "bit (l1_put k n w) i \<longleftrightarrow> (if k * 2 \<le> i \<and> i < k * 2 + 2 then bit n (i - k * 2) else bit w i)"
      if h: "i < 64" for i
      using h n [of "i - k * 2"]
      by (simp only: l1_put_def bit_or_iff bit_and_iff bit_not_iff bit_push_bit_iff bit_three possible_bit_word) auto
    have "k * 2 \<le> k' * 2 + j \<and> k' * 2 + j < k * 2 + 2 \<longleftrightarrow> k' = k" using True by linarith
    then show ?thesis using b [OF lt] True by (auto simp: bit_l1_field)
  next
    case False
    then show ?thesis using n [of j] by (auto simp: bit_l1_field)
  qed
qed

lemma bit_foldl_or: "bit (foldl (OR) a ws) j \<longleftrightarrow> bit a j \<or> (\<exists>w \<in> set ws. bit w j)" for a :: u64
  by (induction ws arbitrary: a) (auto simp: bit_or_iff)

lemma bit_foldl_and: "bit (foldl (AND) a ws) j \<longleftrightarrow> bit a j \<and> (\<forall>w \<in> set ws. bit w j)" for a :: u64
  by (induction ws arbitrary: a) (auto simp: bit_and_iff)

lemma entry_units_iff: "u \<in> entry_units e \<longleftrightarrow> u div 512 = e"
  by (auto simp: entry_units_def intro: div_nat_eqI)

lemma entry_unit_word:
  assumes "i < 8" "j < 64"
  shows "e * 512 + i * 64 + j \<in> entry_units e" "(e * 512 + i * 64 + j) div 64 = e * 8 + i"
    "(e * 512 + i * 64 + j) mod 64 = j"
proof -
  have e: "e * 512 + i * 64 + j = j + 64 * (e * 8 + i)" by (simp add: algebra_simps)
  show "(e * 512 + i * 64 + j) div 64 = e * 8 + i" "(e * 512 + i * 64 + j) mod 64 = j"
    unfolding e div_mult_self2 [OF zero_neq_numeral [symmetric]] mod_mult_self2 using assms(2) by simp_all
  show "e * 512 + i * 64 + j \<in> entry_units e" using assms by (simp add: entry_units_def)
qed

lemma entry_unit_split:
  assumes "u \<in> entry_units e"
  obtains i where "i < 8" "u div 64 = e * 8 + i" "u = e * 512 + i * 64 + u mod 64"
proof (rule that [of "u div 64 - e * 8"])
  have "512 * e \<le> u" "u < 512 * e + 512" using assms by (auto simp: entry_units_def)
  moreover have "u = 64 * (u div 64) + u mod 64" "u mod 64 < 64" by simp_all
  ultimately have "8 * e \<le> u div 64" "u div 64 < 8 * e + 8" by linarith+
  then show "u div 64 - e * 8 < 8" "u div 64 = e * 8 + (u div 64 - e * 8)" by simp_all
  then have "u div 64 * 64 = e * 512 + (u div 64 - e * 8) * 64" by (simp add: algebra_simps)
  then show "u = e * 512 + (u div 64 - e * 8) * 64 + u mod 64" by (metis div_mult_mod_eq)
qed

lemma slotset_words:
  assumes "slotset v e = Some ws" "j < 64"
  shows "(\<exists>w \<in> set ws. bit w j) \<longleftrightarrow> (\<exists>i < 8. unit_free v (e * 512 + i * 64 + j))" (is ?A)
    and "(\<forall>w \<in> set ws. bit w j) \<longleftrightarrow> (\<forall>i < 8. unit_free v (e * 512 + i * 64 + j))" (is ?B)
proof -
  have l: "e * 8 + 8 \<le> length v" and ws: "ws = take 8 (drop (e * 8) v)"
    using assms by (auto simp: slotset_def split: if_splits)
  have s: "set ws = (\<lambda>i. v ! (e * 8 + i)) ` {..<8}"
  proof (intro set_eqI iffI)
    fix w assume "w \<in> (\<lambda>i. v ! (e * 8 + i)) ` {..<8}"
    then obtain i where i: "i < 8" "w = v ! (e * 8 + i)" by auto
    then have "w = ws ! i" "i < length ws" using l by (simp_all add: ws)
    then show "w \<in> set ws" by (metis nth_mem)
  qed (use l in \<open>auto simp: ws in_set_conv_nth\<close>)
  have f: "unit_free v (e * 512 + i * 64 + j) \<longleftrightarrow> bit (v ! (e * 8 + i)) j" if "i < 8" for i
    using entry_unit_word [OF that assms(2), of e] l that by (simp add: unit_free_def)
  show ?A ?B by (auto simp: s f)
qed

lemma l1_summary_eq:
  assumes "slotset v e = Some ws"
  shows "l1_summary ws = summary_of v e"
proof -
  have all: "(\<forall>u \<in> entry_units e. P u) \<longleftrightarrow> (\<forall>j < 64. \<forall>i < 8. P (e * 512 + i * 64 + j))" for P
  proof (intro iffI ballI allI impI)
    fix u assume h: "\<forall>j < 64. \<forall>i < 8. P (e * 512 + i * 64 + j)" and "u \<in> entry_units e"
    then obtain i where "i < 8" "u = e * 512 + i * 64 + u mod 64" by (metis entry_unit_split)
    with h show "P u" by (metis mod_less_divisor zero_less_numeral)
  qed (simp add: entry_unit_word(1))
  have "foldl (OR) all_slot_clear ws = 0 \<longleftrightarrow> (\<forall>j < 64. \<not> (\<exists>w \<in> set ws. bit w j))"
    by (auto simp: bit_eq_iff bit_foldl_or all_slot_clear_def dest: bit_u64_lt)
  also have "\<dots> \<longleftrightarrow> (\<forall>u \<in> entry_units e. \<not> unit_free v u)"
    by (auto simp: all slotset_words [OF assms])
  finally have o: "foldl (OR) all_slot_clear ws = all_slot_clear \<longleftrightarrow> (\<forall>u \<in> entry_units e. \<not> unit_free v u)"
    by (simp add: all_slot_clear_def)
  have "foldl (AND) all_slot_set ws = all_slot_set \<longleftrightarrow> (\<forall>j < 64. \<forall>w \<in> set ws. bit w j)"
    by (auto simp: bit_eq_iff bit_foldl_and all_slot_set_def)
  also have "\<dots> \<longleftrightarrow> (\<forall>u \<in> entry_units e. unit_free v u)"
    by (auto simp: all slotset_words [OF assms])
  finally show ?thesis using o by (simp add: l1_summary_def summary_of_def Let_def)
qed


text \<open>
  The shape of levels 0 and 1 when they cover \<open>N\<close> groups of 256 entries, and the counters. The three
  codes are the only values of an entry.
\<close>

definition l1_count :: "u64 \<Rightarrow> u64 list \<Rightarrow> u64" where
  "l1_count c v = of_nat (card {e. e < 32 * length v \<and> l1_value v e = c})"

definition l1_shape :: "nat \<Rightarrow> AllocatorLevel01 \<Rightarrow> bool" where
  "l1_shape N lv \<longleftrightarrow> length (ba_l0 lv) = 2048 * N \<and> length (ba_l1 lv) = 8 * N"

definition l1_counted :: "AllocatorLevel01 \<Rightarrow> bool" where
  "l1_counted lv \<longleftrightarrow> ba_partial_l1_count lv = l1_count L1_ENTRY_PARTIAL (ba_l1 lv) \<and>
     ba_unalloc_l1_count lv = l1_count L1_ENTRY_FREE (ba_l1 lv) \<and>
     (\<forall>e < 32 * length (ba_l1 lv). l1_value (ba_l1 lv) e \<in> {L1_ENTRY_FULL, L1_ENTRY_PARTIAL, L1_ENTRY_FREE})"

text \<open>\<open>lv'\<close> is \<open>lv\<close> with the entries in \<open>A\<close> recomputed.\<close>

definition refreshed :: "nat set \<Rightarrow> AllocatorLevel01 \<Rightarrow> AllocatorLevel01 \<Rightarrow> bool" where
  "refreshed A lv lv' \<longleftrightarrow> ba_l0 lv' = ba_l0 lv \<and> length (ba_l1 lv') = length (ba_l1 lv) \<and>
     ba_l0_granularity lv' = ba_l0_granularity lv \<and> ba_l1_granularity lv' = ba_l1_granularity lv \<and>
     (\<forall>e < 32 * length (ba_l1 lv). l1_value (ba_l1 lv') e =
        (if e \<in> A then summary_of (ba_l0 lv) e else l1_value (ba_l1 lv) e)) \<and>
     (l1_counted lv \<longrightarrow> l1_counted lv')"

lemma refreshed_none [simp]: "refreshed {} lv lv"
  by (simp add: refreshed_def)

lemma refreshed_trans: "refreshed A lv lv' \<Longrightarrow> refreshed B lv' lv'' \<Longrightarrow> refreshed (A \<union> B) lv lv''"
  by (auto simp: refreshed_def)

lemma card_update_word:
  assumes "finite A" "e \<in> A"
  shows "(of_nat (card {x \<in> A. (g(e := n)) x = c}) :: u64) =
    of_nat (card {x \<in> A. g x = c}) - (if g e = c then 1 else 0) + (if n = c then 1 else 0)"
proof -
  have *: "of_nat (card {x \<in> A. f x = c}) =
      (if f e = c then 1 else 0) + (of_nat (card {x \<in> A - {e}. f x = c}) :: u64)" for f :: "'a \<Rightarrow> 'b"
  proof -
    have "{x \<in> A. f x = c} = (if f e = c then {e} else {}) \<union> {x \<in> A - {e}. f x = c}"
      using assms(2) by auto
    then have "card {x \<in> A. f x = c} = (if f e = c then 1 else 0) + card {x \<in> A - {e}. f x = c}"
      using assms(1) by (auto simp: card_insert_if)
    then show ?thesis by simp
  qed
  have "{x \<in> A - {e}. (g(e := n)) x = c} = {x \<in> A - {e}. g x = c}" by auto
  then show ?thesis using * [of g] * [of "g(e := n)"] by simp
qed

lemma summary_values: "summary_of v e \<in> {L1_ENTRY_FULL, L1_ENTRY_PARTIAL, L1_ENTRY_FREE}"
  by (simp add: summary_of_def)

lemma l1_value_put:
  assumes "e < 32 * length v" "x < 32 * length v" "n AND 3 = n"
  shows "l1_value (v[e div 32 := l1_put (e mod 32) n (v ! (e div 32))]) x = (if x = e then n else l1_value v x)"
proof (cases "x div 32 = e div 32")
  case True
  then have "x mod 32 = e mod 32 \<longleftrightarrow> x = e" by (metis div_mult_mod_eq)
  moreover have "e div 32 < length v" using assms(1) by (simp add: div_less_iff_less_mult mult.commute)
  ultimately show ?thesis using True assms(3) by (simp add: l1_value_def l1_field_put)
qed (auto simp: l1_value_def)

lemma mark_l1_entry_ok:
  assumes "l1_shape N lv" "e < 256 * N"
  shows "\<exists>lv'. mark_l1_entry e lv = Some lv' \<and> refreshed {e} lv lv'"
proof -
  let ?v = "ba_l1 lv" let ?n = "summary_of (ba_l0 lv) e"
  have e: "e < 32 * length ?v" "e div 32 < length ?v" and l0: "e * 8 + 8 \<le> length (ba_l0 lv)"
    using assms by (auto simp: l1_shape_def div_less_iff_less_mult)
  obtain ws where ws: "slotset (ba_l0 lv) e = Some ws" using l0 by (simp add: slotset_def)
  have s: "l1_summary ws = ?n" by (rule l1_summary_eq [OF ws])
  have old: "l1_field (?v ! (e div 32)) (e mod 32) = l1_value ?v e" by (simp add: l1_value_def)
  have n3: "?n AND 3 = ?n" by (auto simp: summary_of_def l1_entry_defs)
  show ?thesis
  proof (cases "l1_value ?v e = ?n")
    case True
    then have "mark_l1_entry e lv = Some lv"
      using e ws by (simp add: mark_l1_entry_def slot_get_def old s)
    moreover have "refreshed {e} lv lv" using True by (simp add: refreshed_def)
    ultimately show ?thesis by blast
  next
    case False
    let ?v' = "?v[e div 32 := l1_put (e mod 32) ?n (?v ! (e div 32))]"
    let ?lv = "lv\<lparr>ba_partial_l1_count := ba_partial_l1_count lv - (if l1_value ?v e = L1_ENTRY_PARTIAL then 1 else 0)
           + (if ?n = L1_ENTRY_PARTIAL then 1 else 0),
        ba_unalloc_l1_count := ba_unalloc_l1_count lv - (if l1_value ?v e = L1_ENTRY_FREE then 1 else 0)
           + (if ?n = L1_ENTRY_FREE then 1 else 0),
        ba_l1 := ?v'\<rparr>"
    have m: "mark_l1_entry e lv = Some ?lv"
      using e ws False by (simp add: mark_l1_entry_def slot_get_def old s Let_def)
    have val: "l1_value ?v' x = ((l1_value ?v)(e := ?n)) x" if "x < 32 * length ?v" for x
      using l1_value_put [OF e(1) that n3] by simp
    have "l1_count c ?v' = l1_count c ?v - (if l1_value ?v e = c then 1 else 0) + (if ?n = c then 1 else 0)" for c
    proof -
      have "{x. x < 32 * length ?v' \<and> l1_value ?v' x = c} = {x \<in> {..< 32 * length ?v}. ((l1_value ?v)(e := ?n)) x = c}"
        using val by auto
      moreover have "{x. x < 32 * length ?v \<and> l1_value ?v x = c} = {x \<in> {..< 32 * length ?v}. l1_value ?v x = c}"
        by auto
      ultimately show ?thesis
        using card_update_word [of "{..< 32 * length ?v}" e "l1_value ?v" ?n c] e(1) by (simp add: l1_count_def)
    qed
    then have "l1_counted ?lv" if "l1_counted lv"
      using that val summary_values [of "ba_l0 lv" e] by (auto simp: l1_counted_def)
    then have "refreshed {e} lv ?lv" using val by (simp add: refreshed_def)
    with m show ?thesis by blast
  qed
qed

lemma refreshed_shape: "refreshed A lv lv' \<Longrightarrow> l1_shape N lv' \<longleftrightarrow> l1_shape N lv"
  by (simp add: refreshed_def l1_shape_def)

lemma for_each_refresh:
  assumes "l1_shape N lv" "\<forall>e \<in> set es. e < 256 * N"
  shows "\<exists>lv'. for_each mark_l1_entry es lv = Some lv' \<and> refreshed (set es) lv lv'"
  using assms
proof (induction es arbitrary: lv)
  case (Cons e es)
  then obtain lv1 where 1: "mark_l1_entry e lv = Some lv1" "refreshed {e} lv lv1"
    using mark_l1_entry_ok by fastforce
  from Cons.IH [of lv1] Cons.prems refreshed_shape [OF 1(2)] obtain lv2 where
    2: "for_each mark_l1_entry es lv1 = Some lv2" "refreshed (set es) lv1 lv2" by auto
  from refreshed_trans [OF 1(2) 2(2)] 1 2 show ?case by simp
qed simp

text \<open>The entries that the units from \<open>s\<close> to \<open>e\<close> belong to.\<close>

definition entries_of :: "nat \<Rightarrow> nat \<Rightarrow> nat set" where
  "entries_of s e = {s div 512 ..< (e + 511) div 512}"

lemma mark_l1_on_l0_ok:
  assumes "l1_shape N lv" "e \<le> 131072 * N"
  shows "\<exists>lv'. mark_l1_on_l0 s e lv = Some lv' \<and> refreshed (entries_of s e) lv lv'"
proof -
  have "pos_down s 512 div 512 = s div 512" "pos_up e 512 div 512 = (e + 511) div 512"
    by (simp_all add: pos_down_def pos_up_def minus_mod_eq_mult_div)
  moreover have "(e + 511) div 512 \<le> 256 * N" using assms(2) by simp
  ultimately show ?thesis
    using for_each_refresh [OF assms(1), of "[s div 512 ..< (e + 511) div 512]"]
    by (auto simp: mark_l1_on_l0_def entries_of_def)
qed

lemma entries_of_rounded: "entries_of (pos_down s 512) (pos_up e 512) = entries_of s e"
proof -
  have "(x * 512 + 511) div 512 = x" for x :: nat by simp
  then show ?thesis by (simp add: entries_of_def pos_down_def pos_up_def minus_mod_eq_mult_div)
qed


section \<open>Marking on both levels\<close>

text \<open>Level 1 says the truth about the entries in \<open>A\<close>.\<close>

definition l1_exact_on :: "nat set \<Rightarrow> AllocatorLevel01 \<Rightarrow> bool" where
  "l1_exact_on A lv \<longleftrightarrow> (\<forall>e \<in> A. e < 32 * length (ba_l1 lv) \<longrightarrow> l1_value (ba_l1 lv) e = summary_of (ba_l0 lv) e)"

text \<open>
  \<open>lv'\<close> is \<open>lv\<close> with the units from \<open>s\<close> to \<open>e\<close> set to \<open>b\<close> and their entries recomputed.
\<close>

definition remarked :: "bool \<Rightarrow> nat \<Rightarrow> nat \<Rightarrow> AllocatorLevel01 \<Rightarrow> AllocatorLevel01 \<Rightarrow> bool" where
  "remarked b s e lv lv' \<longleftrightarrow> set_units b s e (ba_l0 lv) (ba_l0 lv') \<and>
     length (ba_l1 lv') = length (ba_l1 lv) \<and>
     ba_l0_granularity lv' = ba_l0_granularity lv \<and> ba_l1_granularity lv' = ba_l1_granularity lv \<and>
     (\<forall>x < 32 * length (ba_l1 lv). l1_value (ba_l1 lv') x =
        (if x \<in> entries_of s e then summary_of (ba_l0 lv') x else l1_value (ba_l1 lv) x)) \<and>
     (l1_counted lv \<longrightarrow> l1_counted lv')"

lemma remarked_from_refresh:
  assumes "l1_shape N lv" "set_units b s e (ba_l0 lv) v" "e \<le> 131072 * N"
  shows "\<exists>lv'. mark_l1_on_l0 (pos_down s 512) (pos_up e 512) (lv\<lparr>ba_l0 := v\<rparr>) = Some lv' \<and> remarked b s e lv lv'"
proof -
  have sh: "l1_shape N (lv\<lparr>ba_l0 := v\<rparr>)" using assms(1,2) by (simp add: l1_shape_def set_units_def)
  have "(e + 511) div 512 \<le> 256 * N" using assms(3) by simp
  then have "pos_up e 512 \<le> 131072 * N" by (simp add: pos_up_def)
  from mark_l1_on_l0_ok [OF sh this, of "pos_down s 512"] obtain lv' where
    "mark_l1_on_l0 (pos_down s 512) (pos_up e 512) (lv\<lparr>ba_l0 := v\<rparr>) = Some lv'"
    "refreshed (entries_of s e) (lv\<lparr>ba_l0 := v\<rparr>) lv'" by (auto simp: entries_of_rounded)
  then show ?thesis using assms(2) by (auto simp: refreshed_def remarked_def l1_counted_def)
qed

lemma mark_alloc_l1_l0_ok:
  assumes "l1_shape N lv" "s \<le> e" "e \<le> 131072 * N"
  shows "\<exists>lv'. mark_alloc_l1_l0 s e lv = Some lv' \<and> remarked False s e lv lv'"
proof -
  have "e \<le> 64 * length (ba_l0 lv)" using assms(1,3) by (simp add: l1_shape_def)
  from mark_vec_units [OF marks_off this assms(2)] obtain v where
    v: "mark_vec bit_off all_slot_clear s e (ba_l0 lv) = Some v" "set_units False s e (ba_l0 lv) v" by blast
  from remarked_from_refresh [OF assms(1) v(2) assms(3)] v(1) show ?thesis
    by (simp add: mark_alloc_l1_l0_def mark_alloc_l0_def)
qed

lemma mark_free_l1_l0_ok:
  assumes "l1_shape N lv" "s \<le> e" "e \<le> 131072 * N"
  shows "\<exists>lv'. mark_free_l1_l0 s e lv = Some lv' \<and> remarked True s e lv lv'"
proof -
  have "e \<le> 64 * length (ba_l0 lv)" using assms(1,3) by (simp add: l1_shape_def)
  from mark_vec_units [OF marks_on this assms(2)] obtain v where
    v: "mark_vec bit_on all_slot_set s e (ba_l0 lv) = Some v" "set_units True s e (ba_l0 lv) v" by blast
  from remarked_from_refresh [OF assms(1) v(2) assms(3)] v(1) show ?thesis
    by (simp add: mark_free_l1_l0_def mark_free_l0_def)
qed

lemma remarked_shape: "remarked b s e lv lv' \<Longrightarrow> l1_shape N lv' \<longleftrightarrow> l1_shape N lv"
  by (simp add: remarked_def set_units_def l1_shape_def)

lemma summary_of_cong:
  "(\<And>u. u \<in> entry_units e \<Longrightarrow> unit_free v u \<longleftrightarrow> unit_free v' u) \<Longrightarrow> summary_of v e = summary_of v' e"
  by (simp add: summary_of_def)

lemma outside_entries:
  assumes "u \<in> entry_units x" "x \<notin> entries_of s e" "s \<le> u" "u < e"
  shows False
proof -
  have u: "u div 512 = x" using assms(1) by (simp add: entry_units_iff)
  have "s div 512 \<le> x" using div_le_mono [OF assms(3), of 512] u by simp
  moreover have "x < (e + 511) div 512"
  proof -
    have "512 * x \<le> u" using u by (metis times_div_less_eq_dividend)
    then have "512 * x + 512 \<le> e + 511" using assms(4) by linarith
    then show ?thesis by (simp add: less_eq_div_iff_mult_less_eq Suc_le_eq [symmetric])
  qed
  ultimately show False using assms(2) by (simp add: entries_of_def)
qed

lemma remarked_exact:
  assumes "remarked b s e lv lv'" "l1_exact_on A lv"
  shows "l1_exact_on A lv'"
  unfolding l1_exact_on_def
proof (intro ballI impI)
  fix x assume x: "x \<in> A" "x < 32 * length (ba_l1 lv')"
  show "l1_value (ba_l1 lv') x = summary_of (ba_l0 lv') x"
  proof (cases "x \<in> entries_of s e")
    case False
    have "summary_of (ba_l0 lv') x = summary_of (ba_l0 lv) x"
      by (rule summary_of_cong) (use outside_entries [OF _ False] assms(1) in \<open>auto simp: remarked_def set_units_def\<close>)
    then show ?thesis using assms x False by (simp add: remarked_def l1_exact_on_def)
  qed (use assms(1) x in \<open>simp add: remarked_def\<close>)
qed

section \<open>The whole allocator\<close>

text \<open>
  The geometry for units of \<open>2 ^ k\<close> bytes when level 0 covers \<open>N\<close> groups of 131072 units (a bit of
  level 2 each), and the free space as a set of addresses.
\<close>

definition bitmap_ok :: "nat \<Rightarrow> nat \<Rightarrow> AllocatorLevel02 \<Rightarrow> bool" where
  "bitmap_ok k N st \<longleftrightarrow> k < 41 \<and> 0 < N \<and> (N + 1) * 2 ^ (k + 17) \<le> 2 ^ 64 \<and>
     ba_l0_granularity (bl_l1 st) = 2 ^ k \<and> ba_l1_granularity (bl_l1 st) = 2 ^ (k + 9) \<and>
     bl_l2_granularity st = 2 ^ (k + 17) \<and>
     l1_shape N (bl_l1 st) \<and> l1_counted (bl_l1 st) \<and>
     length (bl_l2 st) = (N + 63) div 64 \<and> (\<forall>b. unit_free (bl_l2 st) b \<longrightarrow> b < N)"

definition free_units :: "AllocatorLevel02 \<Rightarrow> nat set" where
  "free_units st = {u. unit_free (ba_l0 (bl_l1 st)) u}"

definition unit_space :: "nat \<Rightarrow> nat set \<Rightarrow> nat set" where
  "unit_space k U = {b. b div 2 ^ k \<in> U}"

lemma free_units_bound: "bitmap_ok k N st \<Longrightarrow> u \<in> free_units st \<Longrightarrow> u < 131072 * N"
  using unit_free_lt by (fastforce simp: free_units_def bitmap_ok_def l1_shape_def)

lemma for_each_units:
  assumes "marks b f w" "\<forall>p \<in> set ps. p div 64 < length v"
  shows "\<exists>v'. for_each (\<lambda>p. slot_upd (f (p mod 64)) (p div 64)) ps v = Some v' \<and> length v' = length v \<and>
           (\<forall>u. unit_free v' u \<longleftrightarrow> (if u \<in> set ps then b else unit_free v u))"
  using assms(2)
proof (induction ps arbitrary: v)
  case (Cons p ps)
  let ?v = "v[p div 64 := f (p mod 64) (v ! (p div 64))]"
  have p: "p div 64 < length v" using Cons.prems by simp
  note u = upd_bit_units [OF assms(1) p]
  from Cons.IH [of ?v] Cons.prems obtain v' where
    v': "for_each (\<lambda>p. slot_upd (f (p mod 64)) (p div 64)) ps ?v = Some v'" "length v' = length v"
    "\<forall>u. unit_free v' u \<longleftrightarrow> (if u \<in> set ps then b else unit_free ?v u)" by auto
  have "\<forall>u. unit_free v' u \<longleftrightarrow> (if u \<in> set (p # ps) then b else unit_free v u)"
    using v'(3) u by (auto simp: set_units_def)
  moreover have "slot_upd (f (p mod 64)) (p div 64) v = Some ?v" using p by (simp add: slot_upd_def)
  ultimately show ?case using v'(1,2) by simp
qed simp

lemma mark_l2_units:
  assumes "marks b f w" "e \<le> 64 * length v"
  shows "\<exists>v'. mark_l2 f s e v = Some v' \<and> set_units b s e v v'"
proof -
  have "\<forall>p \<in> set [s..<e]. p div 64 < length v" using assms(2) unit_index by fastforce
  from for_each_units [OF assms(1) this] show ?thesis
    by (auto simp: mark_l2_def set_units_def)
qed

lemma unat_div_exp: "j < 64 \<Longrightarrow> unat ((x::u64) div 2 ^ j) = unat x div 2 ^ j"
  by (simp add: unat_div)

lemma unat_roundup_div:
  assumes "j < 64" "unat x + 2 ^ j \<le> 2 ^ 64"
  shows "unat (p2roundup x (2 ^ j) div 2 ^ j) = (unat x + (2 ^ j - 1)) div 2 ^ j"
proof -
  let ?r = "unat (p2roundup x (2 ^ j))"
  note b = p2roundup_bounds [OF assms]
  obtain q where q: "?r = 2 ^ j * q" using b(3) by (elim dvdE)
  have "(unat x + (2 ^ j - 1)) div 2 ^ j = q"
  proof (rule div_nat_eqI)
    have "0 < (2::nat) ^ j" by simp
    then show "2 ^ j * q \<le> unat x + (2 ^ j - 1)" using b(2) unfolding q by linarith
    show "unat x + (2 ^ j - 1) < 2 ^ j * Suc q" using b(1) \<open>0 < 2 ^ j\<close> unfolding q mult_Suc_right by linarith
  qed
  moreover have "?r div 2 ^ j = q" by (simp add: q)
  ultimately show ?thesis using assms(1) by (simp add: unat_div_exp)
qed

lemma bitmap_ok_remarked:
  assumes "bitmap_ok k N st" "remarked b s e (bl_l1 st) lv" "length v = length (bl_l2 st)"
    "\<And>x. unit_free v x \<Longrightarrow> unit_free (bl_l2 st) x \<or> x < N"
  shows "bitmap_ok k N (st\<lparr>bl_l1 := lv, bl_l2 := v, bl_available := a, bl_last_pos := p\<rparr>)"
  using assms remarked_shape [OF assms(2)] by (auto simp: bitmap_ok_def remarked_def)

text \<open>An aligned range of addresses, in units and in bits of level 2.\<close>

definition aligned_range :: "nat \<Rightarrow> nat \<Rightarrow> u64 \<Rightarrow> u64 \<Rightarrow> bool" where
  "aligned_range k N off len \<longleftrightarrow> 2 ^ k dvd unat off \<and> 2 ^ k dvd unat len \<and>
     unat off + unat len \<le> N * 2 ^ (k + 17)"

definition units_of :: "nat \<Rightarrow> u64 \<Rightarrow> u64 \<Rightarrow> nat set" where
  "units_of k off len = {unat off div 2 ^ k ..< (unat off + unat len) div 2 ^ k}"

lemma aligned_range_units:
  assumes "bitmap_ok k N st" "aligned_range k N off len"
  defines "g \<equiv> ba_l0_granularity (bl_l1 st)"
  shows "unit_from g off = unat off div 2 ^ k" "unit_to g off len = (unat off + unat len) div 2 ^ k"
    "unat off div 2 ^ k \<le> (unat off + unat len) div 2 ^ k"
    "(unat off + unat len) div 2 ^ k \<le> 131072 * N"
    "unat (off div bl_l2_granularity st) = unat off div 2 ^ (k + 17)"
    "unat (p2roundup (off + len) (bl_l2_granularity st) div bl_l2_granularity st) \<le> N"
    "unat (off + len) = unat off + unat len"
proof -
  have ok: "k < 41" "(N + 1) * 2 ^ (k + 17) \<le> 2 ^ 64" "g = 2 ^ k" "bl_l2_granularity st = 2 ^ (k + 17)"
    using assms(1) by (simp_all add: bitmap_ok_def g_def)
  have le: "unat off + unat len \<le> N * 2 ^ (k + 17)" using assms(2) by (simp add: aligned_range_def)
  have p: "(0::nat) < 2 ^ (k + 17)" by simp
  have lt: "unat off + unat len + 2 ^ (k + 17) \<le> 2 ^ 64"
    using le ok(2) unfolding add_mult_distrib mult_1 by linarith
  then have "unat off + unat len < 2 ^ 64" using p by linarith
  then show sum: "unat (off + len) = unat off + unat len" by (intro unat_add_nowrap) simp
  show "unit_from g off = unat off div 2 ^ k" using ok by (simp add: unit_from_def unat_div_exp)
  have d: "2 ^ k dvd unat (off + len)" using assms(2) unfolding sum by (simp add: aligned_range_def)
  show "unit_to g off len = (unat off + unat len) div 2 ^ k"
    unfolding unit_to_def ok(3) p2roundup_exact [OF d] using ok(1) sum by (simp add: unat_div_exp)
  show "unat off div 2 ^ k \<le> (unat off + unat len) div 2 ^ k" by (simp add: div_le_mono)
  have "(unat off + unat len) div 2 ^ k \<le> N * 2 ^ (k + 17) div 2 ^ k" using le by (rule div_le_mono)
  also have "\<dots> = 131072 * N" by (simp add: power_add mult.assoc)
  finally show "(unat off + unat len) div 2 ^ k \<le> 131072 * N" .
  show "unat (off div bl_l2_granularity st) = unat off div 2 ^ (k + 17)"
    unfolding ok(4) by (rule unat_div_exp) (use ok(1) in simp)
  have "unat (p2roundup (off + len) (2 ^ (k + 17)) div 2 ^ (k + 17)) =
      (unat off + unat len + (2 ^ (k + 17) - 1)) div 2 ^ (k + 17)"
    using unat_roundup_div [of "k + 17" "off + len"] lt sum ok(1) by simp
  also have "\<dots> \<le> N"
  proof -
    have "unat off + unat len + (2 ^ (k + 17) - 1) < Suc N * 2 ^ (k + 17)"
      using le p unfolding mult_Suc by linarith
    then show ?thesis by (simp add: div_less_iff_less_mult less_Suc_eq_le [symmetric])
  qed
  finally show "unat (p2roundup (off + len) (bl_l2_granularity st) div bl_l2_granularity st) \<le> N"
    by (simp add: ok(4))
qed

lemma l2_bits_room: "(N::nat) \<le> 64 * ((N + 63) div 64)"
  by linarith

text \<open>What \<open>_free_l1\<close> and \<open>_mark_l2_free\<close> do together on an aligned range.\<close>

lemma free_range_ok:
  assumes "bitmap_ok k N st" "aligned_range k N off len"
  defines "g \<equiv> bl_l2_granularity st"
  shows "\<exists>lv st'. free_l1 off len (bl_l1 st) = Some (len, lv) \<and>
     mark_l2_free (unat (off div g)) (unat (p2roundup (off + len) g div g)) (st\<lparr>bl_l1 := lv\<rparr>) = Some st' \<and>
     bitmap_ok k N st' \<and> free_units st' = free_units st \<union> units_of k off len \<and>
     bl_available st' = bl_available st \<and>
     (\<forall>A. l1_exact_on A (bl_l1 st) \<longrightarrow> l1_exact_on A (bl_l1 st')) \<and>
     (\<forall>b. unit_free (bl_l2 st') b \<longleftrightarrow> (unat off div 2 ^ (k + 17) \<le> b \<and> b < unat (p2roundup (off + len) g div g)) \<or>
        unit_free (bl_l2 st) b)"
proof -
  note u = aligned_range_units [OF assms(1,2)]
  have sh: "l1_shape N (bl_l1 st)" and l2: "length (bl_l2 st) = (N + 63) div 64"
    "\<forall>b. unit_free (bl_l2 st) b \<longrightarrow> b < N"
    using assms(1) by (simp_all add: bitmap_ok_def)
  from mark_free_l1_l0_ok [OF sh u(3,4)] obtain lv where
    lv: "mark_free_l1_l0 (unat off div 2 ^ k) ((unat off + unat len) div 2 ^ k) (bl_l1 st) = Some lv"
      "remarked True (unat off div 2 ^ k) ((unat off + unat len) div 2 ^ k) (bl_l1 st) lv" by blast
  let ?e = "unat (p2roundup (off + len) g div g)"
  have e: "?e \<le> N" using u(6) by (simp add: g_def)
  have "?e \<le> 64 * length (bl_l2 st)" using e l2_bits_room [of N] l2(1) by simp
  from mark_l2_units [OF marks_on this, of "unat (off div g)"] obtain v where
    v: "mark_l2 bit_on (unat (off div g)) ?e (bl_l2 st) = Some v"
      "set_units True (unat (off div g)) ?e (bl_l2 st) v" by blast
  let ?st = "st\<lparr>bl_l1 := lv, bl_l2 := v\<rparr>"
  have "bitmap_ok k N (st\<lparr>bl_l1 := lv, bl_l2 := v, bl_available := bl_available st, bl_last_pos := bl_last_pos st\<rparr>)"
    by (rule bitmap_ok_remarked [OF assms(1) lv(2)]) (use v(2) e in \<open>auto simp: set_units_def\<close>)
  then have ok: "bitmap_ok k N ?st" by simp
  have "free_units ?st = free_units st \<union> units_of k off len"
    using lv(2) by (auto simp: free_units_def remarked_def set_units_def units_of_def)
  moreover have "free_l1 off len (bl_l1 st) = Some (len, lv)"
    using lv(1) u(1,2) by (simp add: free_l1_def)
  moreover have "mark_l2_free (unat (off div g)) ?e (st\<lparr>bl_l1 := lv\<rparr>) = Some ?st"
    using v(1) by (simp add: mark_l2_free_def)
  moreover have "\<forall>b. unit_free v b \<longleftrightarrow> (unat off div 2 ^ (k + 17) \<le> b \<and> b < ?e) \<or> unit_free (bl_l2 st) b"
    using v(2) u(5) by (auto simp: set_units_def g_def)
  ultimately show ?thesis
    using ok remarked_exact [OF lv(2)] by (intro exI [of _ lv] exI [of _ ?st]) simp
qed

lemma mark_free_ok:
  assumes "bitmap_ok k N st" "aligned_range k N off len"
  shows "\<exists>st'. bm_mark_free off len st = Some st' \<and> bitmap_ok k N st' \<and>
     free_units st' = free_units st \<union> units_of k off len \<and> bl_available st' = bl_available st + len \<and>
     (\<forall>A. l1_exact_on A (bl_l1 st) \<longrightarrow> l1_exact_on A (bl_l1 st')) \<and>
     (\<forall>b. unit_free (bl_l2 st') b \<longleftrightarrow> (unat off div 2 ^ (k + 17) \<le> b \<and>
        b < unat (p2roundup (off + len) (2 ^ (k + 17)) div 2 ^ (k + 17))) \<or> unit_free (bl_l2 st) b)"
proof -
  have g: "bl_l2_granularity st = 2 ^ (k + 17)" using assms(1) by (simp add: bitmap_ok_def)
  from free_range_ok [OF assms] obtain lv st' where
    s: "free_l1 off len (bl_l1 st) = Some (len, lv)"
      "mark_l2_free (unat (off div 2 ^ (k + 17))) (unat (p2roundup (off + len) (2 ^ (k + 17)) div 2 ^ (k + 17)))
         (st\<lparr>bl_l1 := lv\<rparr>) = Some st'" "bitmap_ok k N st'"
      "free_units st' = free_units st \<union> units_of k off len" "bl_available st' = bl_available st"
      "\<forall>A. l1_exact_on A (bl_l1 st) \<longrightarrow> l1_exact_on A (bl_l1 st')"
      "\<forall>b. unit_free (bl_l2 st') b \<longleftrightarrow> (unat off div 2 ^ (k + 17) \<le> b \<and>
        b < unat (p2roundup (off + len) (2 ^ (k + 17)) div 2 ^ (k + 17))) \<or> unit_free (bl_l2 st) b"
    by (auto simp: g)
  let ?st = "st'\<lparr>bl_available := bl_available st + len\<rparr>"
  have "bm_mark_free off len st = Some ?st" using s(1,2,5) by (simp add: bm_mark_free_def g Let_def)
  then show ?thesis using s(3-7) by (intro exI [of _ ?st]) (simp add: bitmap_ok_def free_units_def)
qed

lemma mark_allocated_ok:
  assumes "bitmap_ok k N st" "aligned_range k N off len" "len \<le> bl_available st"
  shows "\<exists>st'. bm_mark_allocated off len st = Some st' \<and> bitmap_ok k N st' \<and>
     free_units st' = free_units st - units_of k off len \<and> bl_available st' = bl_available st - len \<and>
     (\<forall>A. l1_exact_on A (bl_l1 st) \<longrightarrow> l1_exact_on A (bl_l1 st')) \<and>
     (\<forall>b. unit_free (bl_l2 st') b \<longleftrightarrow> unit_free (bl_l2 st) b \<and> \<not> (unat off div 2 ^ (k + 17) \<le> b \<and>
        b < unat (p2roundup (off + len) (2 ^ (k + 17)) div 2 ^ (k + 17))))"
proof -
  note u = aligned_range_units [OF assms(1,2)]
  have sh: "l1_shape N (bl_l1 st)" and l2: "length (bl_l2 st) = (N + 63) div 64"
    "\<forall>b. unit_free (bl_l2 st) b \<longrightarrow> b < N" and g: "bl_l2_granularity st = 2 ^ (k + 17)"
    using assms(1) by (simp_all add: bitmap_ok_def)
  from mark_alloc_l1_l0_ok [OF sh u(3,4)] obtain lv where
    lv: "mark_alloc_l1_l0 (unat off div 2 ^ k) ((unat off + unat len) div 2 ^ k) (bl_l1 st) = Some lv"
      "remarked False (unat off div 2 ^ k) ((unat off + unat len) div 2 ^ k) (bl_l1 st) lv" by blast
  let ?e = "unat (p2roundup (off + len) (2 ^ (k + 17)) div 2 ^ (k + 17))"
  have e: "?e \<le> N" using u(6) by (simp only: g)
  have "?e \<le> 64 * length (bl_l2 st)" using e l2_bits_room [of N] l2(1) by linarith
  from mark_l2_units [OF marks_off this, of "unat (off div 2 ^ (k + 17))"] obtain v where
    v: "mark_l2 bit_off (unat (off div 2 ^ (k + 17))) ?e (bl_l2 st) = Some v"
      "set_units False (unat (off div 2 ^ (k + 17))) ?e (bl_l2 st) v" by blast
  let ?st = "st\<lparr>bl_l1 := lv, bl_l2 := v, bl_available := bl_available st - len\<rparr>"
  have "bitmap_ok k N (st\<lparr>bl_l1 := lv, bl_l2 := v, bl_available := bl_available st - len, bl_last_pos := bl_last_pos st\<rparr>)"
    by (rule bitmap_ok_remarked [OF assms(1) lv(2)]) (use v(2) l2(2) in \<open>auto simp: set_units_def split: if_splits\<close>)
  then have ok: "bitmap_ok k N ?st" by simp
  have "free_units ?st = free_units st - units_of k off len"
    using lv(2) by (auto simp: free_units_def remarked_def set_units_def units_of_def)
  moreover have "bm_mark_allocated off len st = Some ?st"
    unfolding bm_mark_allocated_def Let_def u(1,2) lv(1) g
    using v(1) assms(3) by (simp add: mark_l2_allocated_def)
  moreover have "\<forall>b. unit_free v b \<longleftrightarrow> unit_free (bl_l2 st) b \<and> \<not> (unat off div 2 ^ (k + 17) \<le> b \<and> b < ?e)"
    using v(2) u(5) unfolding g by (auto simp: set_units_def)
  ultimately show ?thesis
    using ok remarked_exact [OF lv(2)] by (intro exI [of _ ?st]) simp
qed

section \<open>The range the two \<open>init\<close> calls work on\<close>

definition units_inside :: "nat \<Rightarrow> u64 \<Rightarrow> u64 \<Rightarrow> nat set" where
  "units_inside k off len = {u. unat off \<le> u * 2 ^ k \<and> (u + 1) * 2 ^ k \<le> unat off + unat len}"

lemma inner_range_units:
  assumes "bitmap_ok k N st" "unat off + unat len \<le> N * 2 ^ (k + 17)"
    "unat (p2roundup off (2 ^ k)) \<le> unat off + unat len" "inner_range (2 ^ k) off len = (o', l')"
  shows "aligned_range k N o' l'" "units_of k o' l' = units_inside k off len" "l' \<le> len"
proof -
  have ok: "k < 41" "(N + 1) * 2 ^ (k + 17) \<le> 2 ^ 64" using assms(1) by (simp_all add: bitmap_ok_def)
  have kk: "(2::nat) ^ k \<le> 2 ^ (k + 17)" by (rule power_increasing) simp_all
  have bound: "unat off + unat len + 2 ^ k \<le> 2 ^ 64"
    using assms(2) ok(2) kk unfolding add_mult_distrib mult_1 by linarith
  have p: "(0::nat) < 2 ^ k" by simp
  let ?e = "unat off + unat len"
  have "?e < 2 ^ 64" using bound p by linarith
  then have sum: "unat (off + len) = ?e" by (intro unat_add_nowrap) simp
  have o': "o' = p2roundup off (2 ^ k)" and l': "l' = p2align (off + len - o') (2 ^ k)"
    using assms(4) by (auto simp: inner_range_def Let_def)
  have k64: "k < 64" using ok(1) by simp
  have "unat off + 2 ^ k \<le> 2 ^ 64" using bound by linarith
  note r = p2roundup_bounds [OF k64 this, folded o']
  have le: "unat o' \<le> ?e" using assms(3) o' by simp
  then have "o' \<le> off + len" by (simp add: word_le_nat_alt sum)
  then have d: "unat (off + len - o') = ?e - unat o'" by (simp add: unat_sub_le sum)
  have l: "unat l' = (?e - unat o') - (?e - unat o') mod 2 ^ k" unfolding l' unat_p2align d ..
  have dl: "2 ^ k dvd unat l'" unfolding l by (rule dvd_minus_mod)
  have "unat o' + unat l' \<le> ?e" using l le by simp
  then show "aligned_range k N o' l'" using assms(2) r(3) dl by (simp add: aligned_range_def)
  show "l' \<le> len" using l le r(1) by (simp add: word_le_nat_alt)
  obtain q where q: "unat o' = 2 ^ k * q" using r(3) by (elim dvdE)
  obtain m where m: "unat l' = 2 ^ k * m" using dl by (elim dvdE)
  have "(?e - unat o') mod 2 ^ k < 2 ^ k" "(?e - unat o') mod 2 ^ k \<le> ?e - unat o'" by simp_all
  then have "?e < unat o' + unat l' + 2 ^ k" using l le by linarith
  then have top: "2 ^ k * (q + m) \<le> ?e" "?e < 2 ^ k * (q + m + 1)"
    using \<open>unat o' + unat l' \<le> ?e\<close> unfolding q m by (simp_all only: add_mult_distrib2 mult_1_right)
  have "units_of k o' l' = {q ..< q + m}"
    unfolding units_of_def q m by (simp add: add_mult_distrib2 [symmetric])
  also have "\<dots> = units_inside k off len"
  proof (intro set_eqI iffI)
    fix u assume "u \<in> {q ..< q + m}"
    then have "2 ^ k * q \<le> 2 ^ k * u" "2 ^ k * (u + 1) \<le> 2 ^ k * (q + m)"
      by (auto simp del: mult_Suc_right intro!: mult_le_mono2)
    then have "unat off \<le> 2 ^ k * u" "2 ^ k * (u + 1) \<le> ?e" using r(1) top(1) unfolding q by linarith+
    then show "u \<in> units_inside k off len" by (simp add: units_inside_def mult.commute)
  next
    fix u assume "u \<in> units_inside k off len"
    then have u: "unat off \<le> u * 2 ^ k" "(u + 1) * 2 ^ k \<le> ?e" by (auto simp: units_inside_def)
    have "2 ^ k * (u + 1) = u * 2 ^ k + 2 ^ k" by simp
    then have "2 ^ k * q < 2 ^ k * (u + 1)" using r(2) u(1) unfolding q by linarith
    moreover have "2 ^ k * (u + 1) \<le> ?e" using u(2) by (simp only: mult.commute)
    then have "2 ^ k * (u + 1) < 2 ^ k * (q + m + 1)" using top(2) by (rule le_less_trans)
    ultimately have "q < u + 1" "u + 1 < q + m + 1" by (simp_all only: nat_mult_less_cancel_disj)
    then show "u \<in> {q ..< q + m}" by simp
  qed
  finally show "units_of k o' l' = units_inside k off len" .
qed

lemma init_add_free_ok:
  assumes "bitmap_ok k N st" "unat off + unat len \<le> N * 2 ^ (k + 17)"
    "unat (p2roundup off (2 ^ k)) \<le> unat off + unat len"
  shows "\<exists>st'. bitmap_init_add_free off len st = Some st' \<and> bitmap_ok k N st' \<and>
     free_units st' = free_units st \<union> units_inside k off len \<and>
     (\<forall>A. l1_exact_on A (bl_l1 st) \<longrightarrow> l1_exact_on A (bl_l1 st'))"
proof -
  obtain o' l' where i: "inner_range (2 ^ k) off len = (o', l')" by fastforce
  note r = inner_range_units [OF assms i]
  have g: "ba_l0_granularity (bl_l1 st) = 2 ^ k" using assms(1) by (simp add: bitmap_ok_def)
  show ?thesis
  proof (cases "len = 0 \<or> l' = 0")
    case True
    then have "l' = 0" using r(3) by auto
    then have "units_inside k off len = {}" using r(2) by (simp add: units_of_def)
    then show ?thesis using assms(1) i g True \<open>l' = 0\<close> by (auto simp: bitmap_init_add_free_def)
  next
    case False
    then have "bitmap_init_add_free off len st = bm_mark_free o' l' st"
      by (simp add: bitmap_init_add_free_def g i)
    then show ?thesis using mark_free_ok [OF assms(1) r(1)] r(2) by auto
  qed
qed

section \<open>A new allocator\<close>

lemma unit_free_replicate_0 [simp]: "\<not> unit_free (replicate n all_slot_clear) u"
  by (auto simp: unit_free_def all_slot_clear_def)

lemma l1_value_replicate_0: "e < 32 * n \<Longrightarrow> l1_value (replicate n 0) e = 0"
  by (simp add: l1_value_def l1_field_def div_less_iff_less_mult mult.commute)

lemma summary_of_none: "(\<And>u. \<not> unit_free v u) \<Longrightarrow> summary_of v e = L1_ENTRY_FULL"
  by (simp add: summary_of_def)

lemma l1_count_none:
  "\<forall>e < 32 * length v. l1_value v e = L1_ENTRY_FULL \<Longrightarrow> c \<noteq> L1_ENTRY_FULL \<Longrightarrow> l1_count c v = 0"
proof -
  assume "\<forall>e < 32 * length v. l1_value v e = L1_ENTRY_FULL" "c \<noteq> L1_ENTRY_FULL"
  then have "{e. e < 32 * length v \<and> l1_value v e = c} = {}" by auto
  then show "l1_count c v = 0" unfolding l1_count_def by (metis card.empty semiring_1_class.of_nat_0)
qed

lemma unat_roundup_exact:
  assumes "j < 64" "unat x + 2 ^ j \<le> 2 ^ 64"
  shows "unat (p2roundup x (2 ^ j)) = (unat x + (2 ^ j - 1)) div 2 ^ j * 2 ^ j"
  using dvd_div_mult_self [OF p2roundup_bounds(3) [OF assms]]
  unfolding unat_roundup_div [OF assms, symmetric] unat_div_exp [OF assms(1)] by (rule sym)

lemma exp_mult_word: "(2::u64) ^ a * 2 ^ b = 2 ^ (a + b)"
  by (simp add: power_add)

lemma exp_nonzero: "j < 64 \<Longrightarrow> (2::u64) ^ j \<noteq> 0"
  using unat_exp_u64 [of j] by (metis power_not_zero unat_0 zero_neq_numeral)

definition groups_of :: "nat \<Rightarrow> u64 \<Rightarrow> nat" where
  "groups_of k cap = (unat cap + (2 ^ (k + 17) - 1)) div 2 ^ (k + 17)"

lemma init_l1_ok:
  assumes "k < 41" "unat cap + 2 ^ (k + 23) \<le> 2 ^ 64"
  shows "\<exists>lv. init_l1 cap (2 ^ k) False = Some lv \<and> l1_shape (groups_of k cap) lv \<and> l1_counted lv \<and>
    ba_l0_granularity lv = 2 ^ k \<and> ba_l1_granularity lv = 2 ^ (k + 9) \<and>
    (\<forall>u. \<not> unit_free (ba_l0 lv) u) \<and> l1_exact_on UNIV lv"
proof -
  let ?N = "groups_of k cap" let ?al = "p2roundup cap (2 ^ (k + 17))"
  have kk: "(2::nat) ^ (k + 17) \<le> 2 ^ (k + 23)" "(2::nat) ^ k \<le> 2 ^ (k + 23)" by (rule power_increasing; simp)+
  have b: "unat cap + 2 ^ (k + 17) \<le> 2 ^ 64" "unat cap + 2 ^ k \<le> 2 ^ 64" using assms(2) kk by linarith+
  have al: "unat ?al = ?N * 2 ^ (k + 17)"
    using unat_roundup_exact [OF _ b(1)] assms(1) by (simp add: groups_of_def)
  have w: "(2::u64) ^ k * 512 = 2 ^ (k + 9)" "(2::u64) ^ (k + 9) * 8 * 32 = 2 ^ (k + 17)"
    by (simp_all add: power_add)
  have nz: "(2::u64) ^ k \<noteq> 0" "(2::u64) ^ (k + 9) \<noteq> 0"
    using assms(1) exp_nonzero [of k] exp_nonzero [of "k + 9"] by simp_all
  have "(2::nat) ^ (k + 17) = 2 ^ k * 131072" "(2::nat) ^ (k + 17) = 2 ^ (k + 9) * 256" by (simp_all add: power_add)
  then have quot: "unat (?al div 2 ^ k) = ?N * 131072" "unat (?al div 2 ^ k div 64) = ?N * 2048"
    "unat (?al div 2 ^ (k + 9) div 32) = ?N * 8"
    using assms(1) al by (simp_all add: unat_div unat_exp_u64 mult.assoc [symmetric] div_mult2_eq [symmetric])
  let ?lv = "\<lparr>ba_l0 = replicate (?N * 2048) all_slot_clear, ba_l1 = replicate (?N * 8) all_slot_clear,
    ba_l0_granularity = 2 ^ k, ba_l1_granularity = 2 ^ (k + 9), ba_partial_l1_count = 0, ba_unalloc_l1_count = 0\<rparr>"
  let ?s = "unat (p2roundup cap (2 ^ k) div 2 ^ k)"
  have sh: "l1_shape ?N ?lv" by (simp add: l1_shape_def)
  have s: "?s \<le> ?N * 131072"
  proof -
    have "?s = (unat cap + (2 ^ k - 1)) div 2 ^ k" by (rule unat_roundup_div) (use assms(1) b in auto)
    also have "\<dots> \<le> (?N * 131072 * 2 ^ k + (2 ^ k - 1)) div 2 ^ k"
    proof (rule div_le_mono)
      have "unat cap \<le> unat ?al" using p2roundup_bounds(1) [OF _ b(1)] assms(1) by simp
      also have "\<dots> = ?N * 131072 * 2 ^ k" unfolding al by (simp add: power_add)
      finally show "unat cap + (2 ^ k - 1) \<le> ?N * 131072 * 2 ^ k + (2 ^ k - 1)" by (rule add_right_mono)
    qed
    also have "\<dots> = ?N * 131072"
    proof (rule div_nat_eqI)
      have p: "(0::nat) < 2 ^ k" by simp
      show "2 ^ k * (?N * 131072) \<le> ?N * 131072 * 2 ^ k + (2 ^ k - 1)"
        unfolding mult.commute [of "2 ^ k" "?N * 131072"] by (rule le_add1)
      show "?N * 131072 * 2 ^ k + (2 ^ k - 1) < 2 ^ k * Suc (?N * 131072)"
        using p unfolding mult_Suc_right mult.commute [of "2 ^ k" "?N * 131072"] by linarith
    qed
    finally show ?thesis .
  qed
  have e: "?N * 131072 \<le> 131072 * ?N" by simp
  from mark_alloc_l1_l0_ok [OF sh s e] obtain lv where
    lv: "mark_alloc_l1_l0 ?s (?N * 131072) ?lv = Some lv" "remarked False ?s (?N * 131072) ?lv lv" by blast
  let ?r = "lv\<lparr>ba_partial_l1_count := 0, ba_unalloc_l1_count := 0\<rparr>"
  have "init_l1 cap (2 ^ k) False = Some ?r"
    unfolding init_l1_def Let_def w using lv(1) nz by (simp add: quot)
  moreover have none: "\<not> unit_free (ba_l0 lv) u" for u
    using lv(2) by (simp add: remarked_def set_units_def)
  have len: "length (ba_l1 lv) = 8 * ?N" "length (ba_l0 lv) = 2048 * ?N"
    using lv(2) by (simp_all add: remarked_def set_units_def)
  have full: "\<forall>x < 32 * length (ba_l1 lv). l1_value (ba_l1 lv) x = L1_ENTRY_FULL"
  proof (intro allI impI)
    fix x assume "x < 32 * length (ba_l1 lv)"
    then have "x < 32 * (?N * 8)" using len by simp
    then show "l1_value (ba_l1 lv) x = L1_ENTRY_FULL"
      using lv(2) l1_value_replicate_0 [of x "?N * 8"]
      by (auto simp: remarked_def summary_of_none none L1_ENTRY_FULL_def all_slot_clear_def)
  qed
  moreover have "l1_counted ?r"
    using full l1_count_none [OF full] by (simp add: l1_counted_def l1_entry_defs)
  moreover have "l1_exact_on UNIV ?r" using full none by (simp add: l1_exact_on_def summary_of_none)
  ultimately show ?thesis using len lv(2) by (intro exI [of _ ?r]) (simp add: l1_shape_def remarked_def none)
qed

lemma groups_rounded: "(unat cap + (2 ^ (k + 23) - 1)) div 2 ^ (k + 23) = (groups_of k cap + 63) div 64"
proof -
  let ?g = "(2::nat) ^ (k + 17)"
  have "(groups_of k cap + 63) div 64 = (unat cap + (?g - 1) + 63 * ?g) div ?g div 64"
    by (simp add: groups_of_def)
  also have "\<dots> = (unat cap + (?g - 1) + 63 * ?g) div (?g * 64)" by (rule div_mult2_eq [symmetric])
  also have "unat cap + (?g - 1) + 63 * ?g = unat cap + (?g * 64 - 1)"
  proof -
    have "0 < ?g" by simp
    then show ?thesis by linarith
  qed
  also have "?g * 64 = 2 ^ (k + 23)" by (simp add: power_add)
  finally show ?thesis by simp
qed

lemma new_BitmapAllocator_ok:
  assumes "k < 41" "unat cap + 2 ^ (k + 23) \<le> 2 ^ 64" "cap \<noteq> 0"
  shows "\<exists>st. new_BitmapAllocator cap (2 ^ k) = Some st \<and> bitmap_ok k (groups_of k cap) st \<and>
    free_units st = {} \<and> bl_available st = 0 \<and> l1_exact_on UNIV (bl_l1 st) \<and>
    (\<forall>b. \<not> unit_free (bl_l2 st) b)"
proof -
  let ?N = "groups_of k cap"
  from init_l1_ok [OF assms(1,2)] obtain lv where lv: "init_l1 cap (2 ^ k) False = Some lv" "l1_shape ?N lv"
    "l1_counted lv" "ba_l0_granularity lv = 2 ^ k" "ba_l1_granularity lv = 2 ^ (k + 9)"
    "\<forall>u. \<not> unit_free (ba_l0 lv) u" "l1_exact_on UNIV lv" by blast
  have kk: "(2::nat) ^ (k + 17) \<le> 2 ^ (k + 23)" by (rule power_increasing) simp_all
  have b: "unat cap + 2 ^ (k + 17) \<le> 2 ^ 64" using assms(2) kk by linarith
  have w: "(2::u64) ^ (k + 9) * 32 * 8 = 2 ^ (k + 17)" "(2::u64) ^ (k + 17) * 64 = 2 ^ (k + 23)"
    by (simp_all add: power_add)
  have k64: "k + 23 < 64" "k + 17 < 64" using assms(1) by simp_all
  let ?al = "p2roundup cap (2 ^ (k + 23))"
  have al: "unat ?al = (?N + 63) div 64 * 2 ^ (k + 23)"
    unfolding unat_roundup_exact [OF k64(1) assms(2)] groups_rounded ..
  have "(2::nat) ^ (k + 23) = 64 * 2 ^ (k + 17)" by (simp add: power_add)
  then have quot: "unat (?al div 2 ^ (k + 17)) = (?N + 63) div 64 * 64"
    "unat (?al div 2 ^ (k + 17) div 64) = (?N + 63) div 64"
    unfolding unat_div [of _ 64] unat_div_exp [OF k64(2)] al by simp_all
  have N: "unat (p2roundup cap (2 ^ (k + 17)) div 2 ^ (k + 17)) = ?N"
    using unat_roundup_div [OF k64(2) b] by (simp add: groups_of_def)
  let ?v = "replicate ((?N + 63) div 64) all_slot_clear"
  have "(?N + 63) div 64 * 64 \<le> 64 * length ?v" by simp
  from mark_l2_units [OF marks_off this, of ?N] obtain v where
    v: "mark_l2 bit_off ?N ((?N + 63) div 64 * 64) ?v = Some v" "set_units False ?N ((?N + 63) div 64 * 64) ?v v"
    by blast
  let ?st = "\<lparr>bl_l1 = lv, bl_l2_granularity = 2 ^ (k + 17), bl_available = 0, bl_last_pos = 0, bl_l2 = v\<rparr>"
  have "new_BitmapAllocator cap (2 ^ k) = Some ?st"
    unfolding new_BitmapAllocator_def init_l2_def lv(1) bind.bind_lunit Let_def lv(5) w
    using exp_nonzero [OF k64(2)] v(1) by (simp add: N quot mark_l2_allocated_def)
  moreover have "0 < ?N"
  proof -
    have "0 < unat cap" using assms(3) by (simp add: unat_gt_0)
    then have "2 ^ (k + 17) \<le> unat cap + (2 ^ (k + 17) - 1)" by linarith
    then show ?thesis unfolding groups_of_def by (simp only: div_greater_zero_iff zero_less_power zero_less_numeral)
  qed
  moreover have "(?N + 1) * 2 ^ (k + 17) \<le> 2 ^ 64"
  proof -
    have e: "unat (p2roundup cap (2 ^ (k + 17))) = ?N * 2 ^ (k + 17)"
      using unat_roundup_exact [OF k64(2) b] by (simp add: groups_of_def)
    have "?N * 2 ^ (k + 17) < 2 ^ 64" unfolding e [symmetric] by simp
    moreover have "(2::nat) ^ 64 = 2 ^ (64 - (k + 17)) * 2 ^ (k + 17)"
      using k64(2) by (simp only: power_add [symmetric]) simp
    ultimately have "?N * 2 ^ (k + 17) < 2 ^ (64 - (k + 17)) * 2 ^ (k + 17)" by (simp only:)
    then have "?N < 2 ^ (64 - (k + 17))" by (rule mult_less_cancel2 [THEN iffD1, THEN conjunct2])
    then have "(?N + 1) * 2 ^ (k + 17) \<le> 2 ^ (64 - (k + 17)) * 2 ^ (k + 17)" by (intro mult_le_mono1) simp
    then show ?thesis using \<open>2 ^ 64 = 2 ^ (64 - (k + 17)) * 2 ^ (k + 17)\<close> by simp
  qed
  moreover have "\<not> unit_free v b" for b using v(2) by (simp add: set_units_def)
  ultimately show ?thesis using lv v(2) assms(1)
    by (intro exI [of _ ?st]) (simp add: bitmap_ok_def free_units_def set_units_def)
qed

end
