(* ===== verification/Bitmap_Allocate.thy ===== *)
theory Bitmap_Allocate
  imports Bitmap_Correct
begin

text \<open>
  Allocation from the bitmap: what is handed out, when level 1 is believed although it is stale, and the space
  that level 2 hides.
\<close>

section \<open>Extents taken from a set of addresses\<close>

lemma carve_append: "carve F (es @ es') F'' \<longleftrightarrow> (\<exists>F'. carve F es F' \<and> carve F' es' F'')"
  by (induction es arbitrary: F) auto

definition block :: "u64 \<Rightarrow> u64 \<Rightarrow> nat set" where
  "block off len = {unat off ..< unat off + unat len}"

text \<open>The extents \<open>snd em\<close> were taken out of \<open>F0\<close>, which left \<open>F\<close>.\<close>

definition taken :: "nat set \<Rightarrow> emplaced \<Rightarrow> nat set \<Rightarrow> bool" where
  "taken F0 em F \<longleftrightarrow> carve F0 (snd em) F \<and> (\<forall>e \<in> set (snd em). pe_length e \<noteq> 0) \<and>
     (\<Sum>e \<leftarrow> snd em. unat (pe_length e)) = unat (fst em)"

lemma block_split: "n \<le> len \<Longrightarrow> unat off + unat len < 2 ^ 64 \<Longrightarrow>
  unat (off + n) = unat off + unat n \<and> unat (len - n) = unat len - unat n"
  for off n len :: u64
proof -
  assume n: "n \<le> len" and "unat off + unat len < 2 ^ 64"
  moreover have "unat n \<le> unat len" using n by (simp add: word_le_nat_alt)
  ultimately have "unat off + unat n < 2 ^ LENGTH(64)" by simp
  then have "unat (off + n) = unat off + unat n" by (rule unat_add_nowrap)
  then show ?thesis using n by (simp add: unat_sub_le)
qed

lemma u32_of_small: "unat (x::u64) < 2 ^ 32 \<Longrightarrow> unat (ucast x :: u32) = unat x"
  by (simp add: unat_ucast_64_32)

lemma taken_append:
  assumes "taken F0 (al, res) F" "block off n \<subseteq> F" "n \<noteq> 0" "unat al + unat n < 2 ^ 32"
  shows "taken F0 (al + n, res @ [\<lparr>pe_offset = off, pe_length = ucast n\<rparr>]) (F - block off n)"
proof -
  have u: "unat (ucast n :: u32) = unat n" using assms(4) by (intro u32_of_small) simp
  have "unat al + unat n < 2 ^ LENGTH(64)" using assms(4) by (rule less_trans) simp
  then have s: "unat (al + n) = unat al + unat n" by (rule unat_add_nowrap)
  have z: "(ucast n :: u32) \<noteq> 0" using u assms(3) by (metis unat_0 unat_gt_0 less_numeral_extra(3))
  show ?thesis using assms(1,2) u s z
    by (auto simp: taken_def carve_append extent_space_def block_def)
qed

lemma emplace_loop_taken:
  assumes "taken F0 em F" "block off len \<subseteq> F" "mx \<noteq> 0" "unat (fst em) + unat len < 2 ^ 32"
    "unat off + unat len < 2 ^ 64"
  shows "\<exists>em'. emplace_loop mx off len em = Some em' \<and> taken F0 em' (F - block off len) \<and>
           unat (fst em') = unat (fst em) + unat len"
  using assms
proof (induction mx off len em arbitrary: F rule: emplace_loop.induct)
  case (1 mx off len al res)
  show ?case
  proof (cases "len = 0")
    case True
    then show ?thesis using "1.prems"(1) by (subst emplace_loop.simps) (simp add: block_def)
  next
    case False
    define c where "c = (if mx > 0 \<and> len > mx then mx else len)"
    have c: "c \<le> len" "c \<noteq> 0" using False "1.prems"(3) by (auto simp: c_def)
    then have cn: "unat c \<le> unat len" by (simp add: word_le_nat_alt)
    note b = block_split [OF c(1) "1.prems"(5)]
    have "unat c < 2 ^ 32" using cn "1.prems"(4) by simp
    then have c32: "c \<le> 0xFFFFFFFF" by (simp add: word_le_nat_alt)
    have sub: "block off c \<subseteq> F" "block (off + c) (len - c) \<subseteq> F - block off c"
      using "1.prems"(2) b cn by (auto simp: block_def)
    have alc: "unat al + unat c < 2 ^ 32" using cn "1.prems"(4) by simp
    note t = taken_append [OF "1.prems"(1) sub(1) c(2) alc]
    have "unat al + unat c < 2 ^ LENGTH(64)" using alc by (rule less_trans) simp
    then have s: "unat (al + c) = unat al + unat c" by (rule unat_add_nowrap)
    have "len > 0" using False by (simp add: word_gt_0)
    from "1.IH" [OF this c_def c32 t sub(2) "1.prems"(3)] b s cn "1.prems"(4,5)
    obtain em' where em': "emplace_loop mx (off + c) (len - c)
        (al + c, res @ [\<lparr>pe_offset = off, pe_length = ucast c\<rparr>]) = Some em'"
      "taken F0 em' (F - block off c - block (off + c) (len - c))" "unat (fst em') = unat al + unat len"
      by auto
    have "block off c \<union> block (off + c) (len - c) = block off len" using b cn by (auto simp: block_def)
    then have "F - block off c - block (off + c) (len - c) = F - block off len" by auto
    moreover have "emplace_loop mx off len (al, res) = Some em'"
      using em'(1) c32 \<open>len > 0\<close> by (subst emplace_loop.simps) (simp add: c_def [symmetric] Let_def)
    ultimately show ?thesis using em' by auto
  qed
qed

lemma taken_grow:
  assumes "taken F0 (al, ini @ [b]) F" "block off n \<subseteq> F" "unat al + unat n < 2 ^ 32" "F0 \<subseteq> {..< 2 ^ 64 - 1}"
    "pe_offset b + ucast (pe_length b) = off" "unat l = unat (pe_length b) + unat n"
  shows "taken F0 (al + n, ini @ [b\<lparr>pe_length := l\<rparr>]) (F - block off n)"
proof -
  have "unat al + unat n < 2 ^ LENGTH(64)" using assms(3) by (rule less_trans) simp
  then have s: "unat (al + n) = unat al + unat n" by (rule unat_add_nowrap)
  obtain F1 where F1: "carve F0 ini F1" "extent_space b \<subseteq> F1" "F = F1 - extent_space b"
    using assms(1) by (auto simp: taken_def carve_append)
  have nz: "0 < unat (pe_length b)" using assms(1) by (simp add: taken_def unat_gt_0)
  then have "unat (pe_offset b) + unat (pe_length b) - 1 \<in> extent_space b"
    by (simp add: extent_space_def)
  then have "unat (pe_offset b) + unat (pe_length b) - 1 < 2 ^ 64 - 1"
    using F1(2) carve_space [OF F1(1)] assms(4) by blast
  then have "unat (pe_offset b) + unat (ucast (pe_length b) :: u64) < 2 ^ LENGTH(64)" using nz by simp
  then have off: "unat off = unat (pe_offset b) + unat (pe_length b)"
    using assms(5) by (metis unat_add_nowrap unat_ucast_32_64)
  have "extent_space (b\<lparr>pe_length := l\<rparr>) = extent_space b \<union> block off n"
    by (auto simp: extent_space_def block_def off assms(6))
  moreover have "F1 - (extent_space b \<union> block off n) = F - block off n" using F1(3) by auto
  moreover have "block off n \<subseteq> F1" using assms(2) F1(3) by auto
  moreover have "l \<noteq> 0" using nz assms(6) by (metis add_is_0 less_numeral_extra(3) unat_0)
  ultimately show ?thesis using assms(1,6) F1 s
    by (auto simp: taken_def carve_append)
qed

lemma fragment_taken:
  assumes "taken F0 em F" "block off len \<subseteq> F" "mx \<noteq> 0" "unat (fst em) + unat len < 2 ^ 32"
    "unat off + unat len < 2 ^ 64" "F0 \<subseteq> {..< 2 ^ 64 - 1}"
  shows "\<exists>em'. fragment_and_emplace mx off len em = Some em' \<and> taken F0 em' (F - block off len) \<and>
           unat (fst em') = unat (fst em) + unat len"
proof -
  obtain al res where em: "em = (al, res)" by (cases em)
  have al: "unat al + unat len < 2 ^ LENGTH(64)" using assms(4) unfolding em fst_conv by (rule less_trans) simp
  show ?thesis
  proof (cases "res \<noteq> [] \<and> pe_offset (last res) + ucast (pe_length (last res)) = off")
    case False
    then have "fragment_and_emplace mx off len em = emplace_loop mx off len em"
      by (auto simp: fragment_and_emplace_def em)
    then show ?thesis using emplace_loop_taken [OF assms(1-5)] by simp
  next
    case True
    define b where "b = last res"
    define ini where "ini = butlast res"
    have res: "res = ini @ [b]" using True by (simp add: b_def ini_def)
    have adj: "pe_offset b + ucast (pe_length b) = off" using True by (simp add: b_def)
    have bl: "unat (pe_length b) \<le> unat al" using assms(1) by (auto simp: taken_def em res)
    have t: "taken F0 (al, ini @ [b]) F" using assms(1) by (simp add: em res)
    let ?m = "ucast (pe_length b) + len :: u64"
    have m: "unat ?m = unat (pe_length b) + unat len" using bl al by (subst unat_add_nowrap) simp_all
    have m32: "unat ?m < 2 ^ 32" using m bl assms(4) em by simp
    show ?thesis
    proof (cases "?m \<le> mx")
      case True
      have l: "unat (ucast ?m :: u32) = unat (pe_length b) + unat len" using u32_of_small [OF m32] m by simp
      have "fragment_and_emplace mx off len em = Some (al + len, ini @ [b\<lparr>pe_length := ucast ?m\<rparr>])"
        using True adj by (simp add: fragment_and_emplace_def em res)
      then show ?thesis
        using taken_grow [OF t assms(2) _ assms(6) adj l] assms(4) unat_add_nowrap [OF al] by (simp add: em)
    next
      case False
      show ?thesis
      proof (cases "ucast (pe_length b) < mx")
        case lt: False
        have "fragment_and_emplace mx off len em = emplace_loop mx off len em"
          using False lt assms(3) by (auto simp: fragment_and_emplace_def em res)
        then show ?thesis using emplace_loop_taken [OF assms(1-5)] by simp
      next
        case lt: True
        define g where "g = mx - ucast (pe_length b)"
        have "unat (pe_length b) \<le> unat mx" using lt by (simp add: word_less_nat_alt)
        then have gu: "unat g = unat mx - unat (pe_length b)"
          unfolding g_def using lt by (simp add: unat_sub_le)
        have "unat mx < unat ?m" using False by (simp add: word_le_nat_alt)
        then have gl: "unat g \<le> unat len" using gu m by linarith
        then have gle: "g \<le> len" by (simp add: word_le_nat_alt)
        have g32: "unat g < 2 ^ 32" using gl assms(4) by simp
        have "unat (pe_length b + ucast g :: u32) = unat (pe_length b) + unat (ucast g :: u32)"
          using bl gl assms(4) u32_of_small [OF g32] by (intro unat_add_nowrap) (simp add: em)
        then have l: "unat (pe_length b + ucast g :: u32) = unat (pe_length b) + unat g"
          using u32_of_small [OF g32] by simp
        note bs = block_split [OF gle assms(5)]
        have sub: "block off g \<subseteq> F" "block (off + g) (len - g) \<subseteq> F - block off g"
          using assms(2) bs gl by (auto simp: block_def)
        have alg: "unat al + unat g < 2 ^ 32" using gl assms(4) by (simp add: em)
        note t' = taken_grow [OF t sub(1) alg assms(6) adj l]
        have "unat al + unat g < 2 ^ LENGTH(64)" using alg by (rule less_trans) simp
        then have s: "unat (al + g) = unat al + unat g" by (rule unat_add_nowrap)
        from emplace_loop_taken [OF t' sub(2) assms(3)] s bs gl assms(4,5)
        obtain em' where em': "emplace_loop mx (off + g) (len - g)
            (al + g, ini @ [b\<lparr>pe_length := pe_length b + ucast g\<rparr>]) = Some em'"
          "taken F0 em' (F - block off g - block (off + g) (len - g))" "unat (fst em') = unat al + unat len"
          by (auto simp: em)
        have "block off g \<union> block (off + g) (len - g) = block off len" using bs gl by (auto simp: block_def)
        then have "F - block off g - block (off + g) (len - g) = F - block off len" by auto
        moreover have "fragment_and_emplace mx off len em = Some em'"
          using False lt assms(3) adj em'(1) by (simp add: fragment_and_emplace_def em res g_def Let_def)
        ultimately show ?thesis using em' by (auto simp: em)
      qed
    qed
  qed
qed

section \<open>Taking units of level 0\<close>

lemma run_end_from_ok:
  assumes "p < 64 * length v" "\<not> unit_free v (64 * length v - 1)"
  shows "\<exists>q. run_end_from v p n = Some q \<and> p \<le> q \<and> q \<le> p + n \<and> q < 64 * length v \<and>
           (\<forall>u. p \<le> u \<and> u < q \<longrightarrow> unit_free v u)"
  using assms(1)
proof (induction n arbitrary: p)
  case (Suc n)
  have i: "p div 64 < length v" using Suc.prems unit_index [of p "length v"] by blast
  have f: "find_next_set_bit (v ! (p div 64)) (p mod 64) = Some (p mod 64) \<longleftrightarrow> unit_free v p"
    using i by (simp add: find_next_set_bit_self unit_free_def)
  show ?case
  proof (cases "unit_free v p")
    case True
    then have "p \<noteq> 64 * length v - 1" using assms(2) by blast
    then have "p + 1 < 64 * length v" using Suc.prems by linarith
    from Suc.IH [OF this] obtain q where q: "run_end_from v (p + 1) n = Some q" "p + 1 \<le> q" "q \<le> p + 1 + n"
      "q < 64 * length v" "\<forall>u. p + 1 \<le> u \<and> u < q \<longrightarrow> unit_free v u" by blast
    have "run_end_from v p (Suc n) = Some q" using q(1) True i f by (simp add: slot_get_def)
    moreover have "\<forall>u. p \<le> u \<and> u < q \<longrightarrow> unit_free v u"
      using q(5) True by (metis Suc_eq_plus1 Suc_leI le_neq_implies_less)
    ultimately show ?thesis using q by auto
  next
    case False
    then have "run_end_from v p (Suc n) = Some p" using i f by (simp add: slot_get_def)
    then show ?thesis using Suc.prems by auto
  qed
qed auto

definition space_of :: "nat \<Rightarrow> u64 list \<Rightarrow> nat set" where
  "space_of k v = unit_space k {u. unit_free v u}"

lemma unit_space_range: "unit_space k {s..<e} = {s * 2 ^ k ..< e * 2 ^ k}"
  by (auto simp: unit_space_def less_eq_div_iff_mult_less_eq div_less_iff_less_mult)

lemma space_of_marked:
  assumes "set_units False s e v v'"
  shows "space_of k v' = space_of k v - {s * 2 ^ k ..< e * 2 ^ k}"
  using assms unfolding unit_space_range [symmetric]
  by (auto simp: space_of_def unit_space_def set_units_def)

text \<open>
  The state of an allocation: \<open>em\<close> was taken out of the space \<open>F0\<close> and level 0 has the rest. The last unit of
  level 0 is in use, so no run of free units reaches the end of the vector.
\<close>

definition handing :: "nat \<Rightarrow> nat \<Rightarrow> nat set \<Rightarrow> emplaced \<Rightarrow> AllocatorLevel01 \<Rightarrow> bool" where
  "handing k N F0 em lv \<longleftrightarrow> k < 41 \<and> (N + 1) * 2 ^ (k + 17) \<le> 2 ^ 64 \<and> l1_shape N lv \<and>
     ba_l0_granularity lv = 2 ^ k \<and> \<not> unit_free (ba_l0 lv) (131072 * N - 1) \<and>
     F0 \<subseteq> {..< N * 2 ^ (k + 17)} \<and> taken F0 em (space_of k (ba_l0 lv))"

definition l0_shrunk :: "AllocatorLevel01 \<Rightarrow> AllocatorLevel01 \<Rightarrow> bool" where
  "l0_shrunk lv lv' \<longleftrightarrow> lv' = lv\<lparr>ba_l0 := ba_l0 lv'\<rparr> \<and> length (ba_l0 lv') = length (ba_l0 lv)"

lemma l0_shrunk_refl [simp]: "l0_shrunk lv lv"
  by (simp add: l0_shrunk_def)

lemma l0_shrunk_trans: "l0_shrunk lv lv' \<Longrightarrow> l0_shrunk lv' lv'' \<Longrightarrow> l0_shrunk lv lv''"
  by (cases lv; cases lv'; cases lv'') (auto simp: l0_shrunk_def)

lemma unit_bytes:
  assumes "k < 41" "(N + 1) * 2 ^ (k + 17) \<le> 2 ^ 64" "u \<le> 131072 * N"
  shows "unat (of_nat u * (2::u64) ^ k) = u * 2 ^ k" "u * 2 ^ k < 2 ^ 64"
    "u * 2 ^ k \<le> N * 2 ^ (k + 17)"
proof -
  have "u * 2 ^ k \<le> 131072 * N * 2 ^ k" using assms(3) by (rule mult_le_mono1)
  also have "\<dots> = N * 2 ^ (k + 17)" by (simp add: power_add)
  finally show le: "u * 2 ^ k \<le> N * 2 ^ (k + 17)" .
  have "(0::nat) < 2 ^ (k + 17)" by simp
  then show lt: "u * 2 ^ k < 2 ^ 64" using le assms(2) unfolding add_mult_distrib mult_1 by linarith
  have "u \<le> u * 2 ^ k" by simp
  then have "u < 2 ^ 64" using lt by (rule le_less_trans)
  then have "unat (of_nat u :: u64) = u" by (simp add: unat_of_nat)
  then have "unat (of_nat u :: u64) * unat ((2::u64) ^ k) < 2 ^ LENGTH(64)" using lt assms(1) by simp
  then show "unat (of_nat u * (2::u64) ^ k) = u * 2 ^ k"
    using \<open>unat (of_nat u :: u64) = u\<close> assms(1) by (subst unat_mult_lem [THEN iffD1]) simp_all
qed

lemma handing_bound: "handing k N F0 em lv \<Longrightarrow> F0 \<subseteq> {..< 2 ^ 64 - 1}"
proof -
  assume h: "handing k N F0 em lv"
  have "(2::nat) ^ 0 < 2 ^ (k + 17)" by (rule power_strict_increasing) simp_all
  then have "N * 2 ^ (k + 17) \<le> 2 ^ 64 - 1" using h unfolding handing_def add_mult_distrib mult_1 by linarith
  then show ?thesis using h by (auto simp: handing_def)
qed

text \<open>One run: its block is emplaced and its units are marked.\<close>

lemma take_run:
  assumes h: "handing k N F0 em lv" and r: "s < q" "q \<le> 131072 * N" "\<forall>u. s \<le> u \<and> u < q \<longrightarrow> unit_free (ba_l0 lv) u"
    and mx: "mx \<noteq> 0" and lim: "unat (fst em) + (q - s) * 2 ^ k < 2 ^ 32"
  shows "\<exists>em' lv'. fragment_and_emplace mx (of_nat s * ba_l0_granularity lv)
        (of_nat (q - s) * ba_l0_granularity lv) em = Some em' \<and> mark_alloc_l0 s q lv = Some lv' \<and>
      handing k N F0 em' lv' \<and> l0_shrunk lv lv' \<and> unat (fst em') = unat (fst em) + (q - s) * 2 ^ k"
proof -
  note H = h [unfolded handing_def]
  have g: "ba_l0_granularity lv = 2 ^ k" using H by simp
  have s: "s \<le> 131072 * N" "q - s \<le> 131072 * N" using r by simp_all
  note bs = unit_bytes [of k N] and sb = unit_bytes [of k N s] and nb = unit_bytes [of k N "q - s"]
  have so: "unat (of_nat s * (2::u64) ^ k) = s * 2 ^ k" "unat (of_nat (q - s) * (2::u64) ^ k) = (q - s) * 2 ^ k"
    using sb(1) nb(1) H s by blast+
  have e: "s * 2 ^ k + (q - s) * 2 ^ k = q * 2 ^ k" using r(1) by (simp add: add_mult_distrib [symmetric])
  have q: "q * 2 ^ k < 2 ^ 64" using bs(2) [of q] H r(2) by blast
  let ?b = "block (of_nat s * (2::u64) ^ k) (of_nat (q - s) * (2::u64) ^ k)"
  have b: "?b = {s * 2 ^ k ..< q * 2 ^ k}" unfolding block_def so e ..
  have sub: "?b \<subseteq> space_of k (ba_l0 lv)"
    using r(3) unfolding b unit_space_range [symmetric] by (auto simp: space_of_def unit_space_def)
  from fragment_taken [of F0 em "space_of k (ba_l0 lv)", OF _ sub mx _ _ handing_bound [OF h]] H so e q lim
  obtain em' where em': "fragment_and_emplace mx (of_nat s * 2 ^ k) (of_nat (q - s) * 2 ^ k) em = Some em'"
    "taken F0 em' (space_of k (ba_l0 lv) - ?b)" "unat (fst em') = unat (fst em) + (q - s) * 2 ^ k"
    by auto
  have "q \<le> 64 * length (ba_l0 lv)" using H r(2) by (simp add: l1_shape_def)
  from mark_vec_units [OF marks_off this, of s] r(1) obtain v where
    v: "mark_vec bit_off all_slot_clear s q (ba_l0 lv) = Some v" "set_units False s q (ba_l0 lv) v" by auto
  let ?lv = "lv\<lparr>ba_l0 := v\<rparr>"
  have "handing k N F0 em' ?lv"
    using H em'(2) v(2) unfolding handing_def b space_of_marked [OF v(2), symmetric]
    by (auto simp: l1_shape_def set_units_def b space_of_marked [OF v(2), of k, symmetric])
  moreover have "mark_alloc_l0 s q lv = Some ?lv" using v(1) by (simp add: mark_alloc_l0_def)
  moreover have "l0_shrunk lv ?lv" using v(2) by (simp add: l0_shrunk_def set_units_def)
  ultimately show ?thesis using em'(1,3) g by (intro exI [of _ em'] exI [of _ ?lv]) simp
qed

lemma l0_shrunk_units: "l0_shrunk lv lv' \<Longrightarrow> length (ba_l0 lv') = length (ba_l0 lv) \<and> ba_l1 lv' = ba_l1 lv"
  by (auto simp: l0_shrunk_def) (metis AllocatorLevel01.select_convs(2) AllocatorLevel01.update_convs(1)
    AllocatorLevel01.surjective)

lemma allocate_l0_loop_ok:
  assumes "handing k N F0 em lv" "e \<le> 131072 * N" "mx \<noteq> 0" "unat (fst em) + need * 2 ^ k < 2 ^ 32"
  shows "\<exists>r em' lv'. allocate_l0_loop mx p e need em lv = Some (r, em', lv') \<and> handing k N F0 em' lv' \<and>
           l0_shrunk lv lv' \<and> unat (fst em') \<le> unat (fst em) + need * 2 ^ k"
  using assms
proof (induction mx p e need em lv rule: allocate_l0_loop.induct)
  case (1 mx p e need em lv)
  show ?case
  proof (cases "p < e \<and> need > 0")
    case False
    then have "allocate_l0_loop mx p e need em lv = Some (if need > 0 then - ENOSPC else 0, em, lv)"
      by (subst allocate_l0_loop.simps) (simp only: if_False)
    then show ?thesis using "1.prems"(1) l0_shrunk_refl le_add1 by blast
  next
    case go: True
    note H = "1.prems"(1) [unfolded handing_def]
    have len: "64 * length (ba_l0 lv) = 131072 * N" using H by (simp add: l1_shape_def)
    have i: "p div 64 < length (ba_l0 lv)" using go "1.prems"(2) unit_index [of p "length (ba_l0 lv)"] len by linarith
    let ?w = "ba_l0 lv ! (p div 64)"
    have g: "slot_get (ba_l0 lv) (p div 64) = Some ?w" using i by (simp add: slot_get_def)
    show ?thesis
    proof (cases "if ?w = all_slot_clear then None else find_next_set_bit ?w (p mod 64)")
      case None
      have "allocate_l0_loop mx p e need em lv = allocate_l0_loop mx (p + (64 - p mod 64)) e need em lv"
        using go by (subst allocate_l0_loop.simps) (simp only: g None option.case if_True simp_thms)
      then show ?thesis using "1.IH"(1) [OF go g None "1.prems"] by simp
    next
      case (Some b)
      then have b: "p mod 64 \<le> b" "b < 64" "bit ?w b"
        by (auto simp: find_next_set_bit_Some split: if_splits)
      define s where "s = p div 64 * 64 + b"
      have sd: "s div 64 = p div 64" "s mod 64 = b" using b(2) by (simp_all add: s_def)
      have sf: "unit_free (ba_l0 lv) s" using i b(3) by (simp add: unit_free_def sd)
      then have s64: "s < 64 * length (ba_l0 lv)" by (rule unit_free_lt)
      have lst: "\<not> unit_free (ba_l0 lv) (64 * length (ba_l0 lv) - 1)" using H len by simp
      from run_end_from_ok [OF s64 lst, of need] obtain q where
        q: "run_end_from (ba_l0 lv) s need = Some q" "s \<le> q" "q \<le> s + need" "q < 64 * length (ba_l0 lv)"
          "\<forall>u. s \<le> u \<and> u < q \<longrightarrow> unit_free (ba_l0 lv) u" by blast
      have fb: "find_next_set_bit ?w (p mod 64) = Some b" using Some by (auto split: if_splits)
      have "p < s + min (q - s) need"
        using run_step [OF g fb q(1) [unfolded s_def]] go by (simp add: s_def)
      moreover have un: "min (q - s) need = q - s" using q(3) by simp
      ultimately have pq: "p < s + (q - s)" by simp
      have sq: "s < q"
      proof (rule ccontr)
        assume "\<not> s < q"
        then have "q = s" using q(2) by simp
        moreover obtain n where "need = Suc n" using go gr0_implies_Suc by blast
        ultimately have "run_end_from (ba_l0 lv) (s + 1) n = Some s"
          using q(1) i b by (simp add: slot_get_def sd find_next_set_bit_self)
        then show False using run_end_from_ge by fastforce
      qed
      have units: "q - s \<le> need" using q(3) by simp
      then have ub: "(q - s) * 2 ^ k \<le> need * 2 ^ k" by (rule mult_le_mono1)
      then have lim: "unat (fst em) + (q - s) * 2 ^ k < 2 ^ 32" using "1.prems"(4) by linarith
      have ql: "q \<le> 131072 * N" using q(4) len by simp
      from take_run [OF "1.prems"(1) sq ql q(5) "1.prems"(3) lim] obtain em1 lv1 where
        t: "fragment_and_emplace mx (of_nat s * ba_l0_granularity lv) (of_nat (q - s) * ba_l0_granularity lv) em = Some em1"
          "mark_alloc_l0 s q lv = Some lv1" "handing k N F0 em1 lv1" "l0_shrunk lv lv1"
          "unat (fst em1) = unat (fst em) + (q - s) * 2 ^ k" by blast
      have sqq: "s + (q - s) = q" using sq by simp
      have left: "(q - s) * 2 ^ k + (need - (q - s)) * 2 ^ k = need * 2 ^ k"
        using units by (simp add: add_mult_distrib [symmetric])
      have lim1: "unat (fst em1) + (need - (q - s)) * 2 ^ k < 2 ^ 32" using t(5) left "1.prems"(4) by linarith
      have step: "allocate_l0_loop mx p e need em lv = allocate_l0_loop mx q e (need - (q - s)) em1 lv1"
        using go by (subst allocate_l0_loop.simps)
          (simp only: g Some option.case if_True simp_thms Let_def s_def [symmetric] q(1) un t(1) sqq t(2))
      have t2: "mark_alloc_l0 s (s + (q - s)) lv = Some lv1" using t(2) sqq by simp
      from "1.IH"(2) [OF go g Some s_def q(1) un [symmetric] t(1) t2] t(3) "1.prems"(2,3) lim1
      obtain r em' lv' where IH: "allocate_l0_loop mx q e (need - (q - s)) em1 lv1 = Some (r, em', lv')"
        "handing k N F0 em' lv'" "l0_shrunk lv1 lv'" "unat (fst em') \<le> unat (fst em1) + (need - (q - s)) * 2 ^ k"
        by (auto simp: sqq)
      show ?thesis
        unfolding step using IH l0_shrunk_trans [OF t(4) IH(3)] t(5) left by auto
    qed
  qed
qed

section \<open>Levels 1 and 2\<close>

lemma unat_entry_bytes: "k < 41 \<Longrightarrow> unat (512 * 2 ^ k :: u64) = 512 * 2 ^ k"
proof -
  assume k: "k < 41"
  have "(512::u64) * 2 ^ k = 2 ^ (k + 9)" by (simp add: power_add)
  moreover have "unat ((2::u64) ^ (k + 9)) = 2 ^ (k + 9)" using k by (intro unat_exp_u64) simp
  moreover have "(2::nat) ^ (k + 9) = 512 * 2 ^ k" by (simp add: power_add)
  ultimately show ?thesis by (simp only:)
qed

lemma allocate_l1_small:
  assumes "handing k N F0 em lv" "mx \<noteq> 0" "unat (fst em) \<le> unat len" "unat len < 512 * 2 ^ k" "unat len < 2 ^ 32"
  shows "\<exists>r em' lv'. allocate_l1 len mx p n em lv = Some (r, em', lv') \<and> handing k N F0 em' lv' \<and>
           l0_shrunk lv lv' \<and> unat (fst em') \<le> unat len"
  using assms
proof (induction len mx p n em lv rule: allocate_l1.induct)
  case (1 len mx p em lv)
  then show ?case by (cases em) auto
next
  case (2 len mx p n em lv)
  note H = "2.prems"(1) [unfolded handing_def]
  show ?case
  proof (cases "slot_get (ba_l1 lv) (p div 32)")
    case None
    then show ?thesis using "2.prems" by (cases em) auto
  next
    case (Some w)
    then have "p div 32 < 8 * N" using H by (auto simp: slot_get_def l1_shape_def split: if_splits)
    then have p: "p * 512 + 512 \<le> 131072 * N" by linarith
    have g: "ba_l0_granularity lv = 2 ^ k" using H by simp
    have k: "k < 41" using H by simp
    define rem where "rem = len - fst em"
    have "fst em \<le> len" using "2.prems"(3) by (simp add: word_le_nat_alt)
    then have ru: "unat rem = unat len - unat (fst em)" by (simp add: rem_def unat_sub_le)
    have small: "\<not> rem \<ge> 512 * ba_l0_granularity lv"
      using ru "2.prems"(4) by (simp add: g word_le_nat_alt unat_entry_bytes [OF k])
    show ?thesis
    proof (cases "l1_field w (p mod 32) = L1_ENTRY_FULL")
      case True
      then have "allocate_l1 len mx p (Suc n) em lv = allocate_l1 len mx (p + 1) n em lv"
        by (simp add: Some Let_def)
      then show ?thesis using "2.IH"(1) [OF Some refl refl True "2.prems"] by simp
    next
      case ent: False
      show ?thesis
      proof (cases "rem = 0")
        case True
        then have "allocate_l1 len mx p (Suc n) em lv = Some (0, em, lv)"
          using ent by (simp add: Some Let_def rem_def)
        then show ?thesis using "2.prems"(1,3) l0_shrunk_refl by blast
      next
        case False
        have need: "unat (fst em) + unat (rem div 2 ^ k) * 2 ^ k \<le> unat len"
        proof -
          have "unat (rem div 2 ^ k) * 2 ^ k \<le> unat rem" using k by (simp add: unat_div_exp)
          then show ?thesis using ru "2.prems"(3) by linarith
        qed
        then have "unat (fst em) + unat (rem div 2 ^ k) * 2 ^ k < 2 ^ 32" using "2.prems"(5) by (rule le_less_trans)
        from allocate_l0_loop_ok [OF "2.prems"(1) p "2.prems"(2) this, of "p * 512"] obtain r1 em1 lv1 where
          a: "allocate_l0_loop mx (p * 512) (p * 512 + 512) (unat (rem div 2 ^ k)) em lv = Some (r1, em1, lv1)"
            "handing k N F0 em1 lv1" "l0_shrunk lv lv1"
            "unat (fst em1) \<le> unat (fst em) + unat (rem div 2 ^ k) * 2 ^ k" by blast
        have a1: "allocate_l0 rem mx (p * 512) (p * 512 + 512) em lv = Some (r1, em1, lv1)"
          using a(1) by (simp add: allocate_l0_def g)
        have a4: "unat (fst em1) \<le> unat len" using a(4) need by (rule le_trans)
        have "allocate_l1 len mx p (Suc n) em lv = allocate_l1 len mx (p + 1) n em1 lv1"
          using ent False small a1
          by (simp only: allocate_l1.simps Some Let_def option.case rem_def [symmetric] if_False simp_thms
              bind.bind_lunit prod.case)
        moreover have "\<not> (l1_field w (p mod 32) = L1_ENTRY_FREE \<and> 512 * ba_l0_granularity lv \<le> rem)"
          using small by blast
        from "2.IH"(3) [OF Some refl rem_def ent False this a1 refl refl a(2) "2.prems"(2) a4 "2.prems"(4,5)]
        obtain r em' lv' where "allocate_l1 len mx (p + 1) n em1 lv1 = Some (r, em', lv')" "handing k N F0 em' lv'"
          "l0_shrunk lv1 lv'" "unat (fst em') \<le> unat len"
          by blast
        ultimately show ?thesis using l0_shrunk_trans [OF a(3)] by auto
      qed
    qed
  qed
qed

lemma slots_clear_ok: "i + n \<le> length v \<Longrightarrow> slots_clear v i n = Some (\<forall>j. i \<le> j \<and> j < i + n \<longrightarrow> v ! j = 0)"
proof (induction v i n rule: slots_clear.induct)
  case (2 v i n)
  have "(\<forall>j. i \<le> j \<and> j < i + Suc n \<longrightarrow> v ! j = 0) \<longleftrightarrow> v ! i = 0 \<and> (\<forall>j. i + 1 \<le> j \<and> j < i + 1 + n \<longrightarrow> v ! j = 0)"
  proof (intro iffI conjI allI impI)
    fix j assume h: "v ! i = 0 \<and> (\<forall>j. i + 1 \<le> j \<and> j < i + 1 + n \<longrightarrow> v ! j = 0)" "i \<le> j \<and> j < i + Suc n"
    then show "v ! j = 0" by (cases "j = i") auto
  qed auto
  then show ?case using 2 by (auto simp: slot_get_def)
qed auto

lemma is_empty_l1_ok:
  "(i + n) * 8 \<le> length (ba_l0 lv) \<Longrightarrow> \<exists>b. is_empty_l1 i n lv = Some b"
proof (induction i n lv rule: is_empty_l1.induct)
  case (2 i n lv)
  have "i * 8 + 8 \<le> length (ba_l0 lv)" using "2.prems" by simp
  then show ?case using 2 by (auto simp: is_slot_fully_allocated_def slots_clear_ok)
qed auto

lemma bitmap_ok_shrunk:
  assumes "bitmap_ok k N st" "l0_shrunk (bl_l1 st) lv" "length v = length (bl_l2 st)"
    "\<And>x. unit_free v x \<Longrightarrow> unit_free (bl_l2 st) x"
  shows "bitmap_ok k N (st\<lparr>bl_l1 := lv, bl_l2 := v, bl_available := a, bl_last_pos := p\<rparr>)"
proof -
  obtain l where lv: "lv = (bl_l1 st)\<lparr>ba_l0 := l\<rparr>" "length l = length (ba_l0 (bl_l1 st))"
    using assms(2) by (auto simp: l0_shrunk_def)
  show ?thesis using assms(1,3,4) by (auto simp: bitmap_ok_def lv l1_shape_def l1_counted_def)
qed

text \<open>
  A state during a small allocation, from a state \<open>st0\<close> whose level 2 is one word: what is wanted is less
  than an entry of level 1.
\<close>

definition small_alloc :: "nat \<Rightarrow> nat \<Rightarrow> u64 \<Rightarrow> AllocatorLevel02 \<Rightarrow> emplaced \<Rightarrow> AllocatorLevel02 \<Rightarrow> bool" where
  "small_alloc k N want st0 em st \<longleftrightarrow> bitmap_ok k N st \<and> length (bl_l2 st) = 1 \<and>
     handing k N (space_of k (ba_l0 (bl_l1 st0))) em (bl_l1 st) \<and> l0_shrunk (bl_l1 st0) (bl_l1 st) \<and>
     unat (fst em) \<le> unat want \<and> unat want < 512 * 2 ^ k \<and> unat want < 2 ^ 32"

lemma small_alloc_groups: "small_alloc k N want st0 em st \<Longrightarrow> N \<le> 64"
proof -
  assume "small_alloc k N want st0 em st"
  then have "(N + 63) div 64 = 1" unfolding small_alloc_def bitmap_ok_def by metis
  then show "N \<le> 64" by linarith
qed

lemma l2_bit_step:
  assumes "b < scan_end" "allocate_l1 want mx ((i * 64 + b) * 256) 256 em (bl_l1 st) = Some (r, em', lv)"
    "is_empty_l1 ((i * 64 + b) * 256) 256 lv = Some eb" "\<not> (eb \<and> 64 \<le> b)"
    "st' = st\<lparr>bl_l1 := lv, bl_l2 := (if eb then (bl_l2 st)[i := bit_off b (bl_l2 st ! i)] else bl_l2 st)\<rparr>"
  shows "l2_bit_loop want mx val i scan_end (Some b) em st =
    (if fst em' \<ge> want
     then Some (True, em', st'\<lparr>bl_last_pos := i * 64 + b, bl_available := bl_available st' - fst em'\<rparr>)
     else l2_bit_loop want mx val i scan_end
            (if val = all_slot_set then (if b + 1 < scan_end then Some (b + 1) else None)
             else find_next_set_bit (bl_l2 st' ! i) (b + 1)) em' st')"
  using assms(1,4) unfolding assms(5)
  by (subst l2_bit_loop.simps) (simp only: assms(2,3) option.case prod.case not_not if_False simp_thms Let_def)

lemma l2_bit_loop_small:
  assumes "small_alloc k N want st0 em st" "mx \<noteq> 0" "i = 0" "scan_end \<le> 64" "val = all_slot_set \<Longrightarrow> 64 \<le> N"
    "\<And>b. bo = Some b \<Longrightarrow> b < N"
  shows "\<exists>fin em' st'. l2_bit_loop want mx val i scan_end bo em st = Some (fin, em', st') \<and>
     small_alloc k N want st0 em' st' \<and>
     bl_available st' = (if fin then bl_available st - fst em' else bl_available st)"
  using assms
proof (induction want mx val i scan_end bo em st rule: l2_bit_loop.induct)
  case (1 want mx val i scan_end em st)
  then show ?case by (intro exI [of _ False] exI [of _ em] exI [of _ st]) (simp add: l2_bit_loop.simps)
next
  case (2 want mx val i scan_end b em st)
  note P = "2.prems"(1) [unfolded small_alloc_def]
  show ?case
  proof (cases "b < scan_end")
    case False
    then have "l2_bit_loop want mx val i scan_end (Some b) em st = Some (False, em, st)"
      by (simp add: l2_bit_loop.simps)
    then show ?thesis using "2.prems"(1) by (intro exI [of _ False] exI [of _ em] exI [of _ st]) simp
  next
    case go: True
    have bN: "b < N" using "2.prems"(6) by simp
    have b64: "b < 64" using go "2.prems"(4) by simp
    let ?p = "(i * 64 + b) * 256"
    from P have hd: "handing k N (space_of k (ba_l0 (bl_l1 st0))) em (bl_l1 st)" by simp
    from allocate_l1_small [OF hd "2.prems"(2), of want ?p 256] P obtain r1 em1 lv1 where
      a: "allocate_l1 want mx ?p 256 em (bl_l1 st) = Some (r1, em1, lv1)"
        "handing k N (space_of k (ba_l0 (bl_l1 st0))) em1 lv1" "l0_shrunk (bl_l1 st) lv1"
        "unat (fst em1) \<le> unat want" by auto
    have "length (ba_l0 lv1) = 2048 * N" using a(2) by (simp add: handing_def l1_shape_def)
    then have "(?p + 256) * 8 \<le> length (ba_l0 lv1)" using bN "2.prems"(3) by simp
    from is_empty_l1_ok [OF this] obtain em_b where e: "is_empty_l1 ?p 256 lv1 = Some em_b" by blast
    define v where "v = (if em_b then (bl_l2 st)[i := bit_off b (bl_l2 st ! i)] else bl_l2 st)"
    define st1 where "st1 = st\<lparr>bl_l1 := lv1, bl_l2 := v\<rparr>"
    have l2: "length (bl_l2 st) = 1" using P by simp
    have vlen: "length v = length (bl_l2 st)" by (simp add: v_def)
    have vfree: "unit_free v x \<Longrightarrow> unit_free (bl_l2 st) x" for x
      using l2 b64 "2.prems"(3) by (auto simp: v_def unit_free_def bit_bit_off split: if_splits)
    have okg: "bitmap_ok k N (st\<lparr>bl_l1 := lv1, bl_l2 := v, bl_available := x, bl_last_pos := y\<rparr>)" for x y
      using P by (intro bitmap_ok_shrunk [OF _ a(3) vlen vfree]) simp_all
    have ok: "bitmap_ok k N st1" "bitmap_ok k N (st1\<lparr>bl_last_pos := y, bl_available := x\<rparr>)" for x y
      using okg [where x = "bl_available st" and y = "bl_last_pos st"] okg by (simp_all add: st1_def bitmap_ok_def)
    have sh: "l0_shrunk (bl_l1 st0) lv1" using P a(3) l0_shrunk_trans by blast
    have sm: "small_alloc k N want st0 em1 st1"
      using P ok(1) a(2,4) sh vlen by (simp add: small_alloc_def st1_def)
    have nb: "\<not> (em_b \<and> 64 \<le> b)" using b64 by simp
    note step0 = l2_bit_step [OF go a(1) e nb st1_def [unfolded v_def], of val]
    show ?thesis
    proof (cases "fst em1 \<ge> want")
      case True
      have "l2_bit_loop want mx val i scan_end (Some b) em st =
          Some (True, em1, st1\<lparr>bl_last_pos := i * 64 + b, bl_available := bl_available st - fst em1\<rparr>)"
        using step0 True by (simp add: st1_def)
      moreover have "small_alloc k N want st0 em1
          (st1\<lparr>bl_last_pos := i * 64 + b, bl_available := bl_available st - fst em1\<rparr>)"
        using sm ok(2) by (simp add: small_alloc_def)
      ultimately show ?thesis
        by (intro exI [of _ True] exI [of _ em1] exI [of _ "st1\<lparr>bl_last_pos := i * 64 + b,
          bl_available := bl_available st - fst em1\<rparr>"]) simp
    next
      case False
      define nx where "nx = (if val = all_slot_set then (if b + 1 < scan_end then Some (b + 1) else None)
                      else find_next_set_bit (bl_l2 st1 ! i) (b + 1))"
      have step: "l2_bit_loop want mx val i scan_end (Some b) em st = l2_bit_loop want mx val i scan_end nx em1 st1"
        using step0 False by (simp add: nx_def)
      have nxN: "c < N" if "nx = Some c" for c
      proof (cases "val = all_slot_set")
        case True
        then show ?thesis using that "2.prems"(4,5) by (auto simp: nx_def split: if_splits)
      next
        case False
        then have "c < 64" "bit (bl_l2 st1 ! i) c" using that by (auto simp: nx_def find_next_set_bit_Some)
        then have "unit_free (bl_l2 st1) c"
          using l2 vlen "2.prems"(3) by (simp add: unit_free_def st1_def)
        then show ?thesis using ok(1) by (simp add: bitmap_ok_def)
      qed
      have "\<exists>fin em' st'. l2_bit_loop want mx val i scan_end nx em1 st1 = Some (fin, em', st') \<and>
         small_alloc k N want st0 em' st' \<and>
         bl_available st' = (if fin then bl_available st1 - fst em' else bl_available st1)"
        unfolding nx_def
        by (rule "2.IH" [OF _ a(1) refl refl e nb st1_def [unfolded v_def] False])
          (use go sm "2.prems" nxN in \<open>auto simp: nx_def st1_def v_def\<close>)
      moreover have "bl_available st1 = bl_available st" by (simp add: st1_def)
      ultimately show ?thesis unfolding step by (simp only:)
    qed
  qed
qed

lemma l2_word_loop_small:
  assumes "small_alloc k N want st0 em st" "mx \<noteq> 0"
  shows "\<exists>fin em' st'. l2_word_loop want mx 0 64 em st = Some (fin, em', st') \<and>
     small_alloc k N want st0 em' st' \<and>
     bl_available st' = (if fin then bl_available st - fst em' else bl_available st)"
proof -
  note P = assms(1) [unfolded small_alloc_def]
  have l2: "length (bl_l2 st) = 1" using P by simp
  let ?w = "bl_l2 st ! 0"
  have g: "slot_get (bl_l2 st) 0 = Some ?w" using l2 by (simp add: slot_get_def)
  have stop: "l2_word_loop want mx 64 64 em' st' = Some (False, em', st')" for em' st'
    by (simp add: l2_word_loop.simps)
  have bits: "b < N" if "b < 64" "bit ?w b" for b
    using that l2 P by (auto simp: bitmap_ok_def unit_free_def)
  show ?thesis
  proof (cases "?w = all_slot_clear")
    case True
    then have "l2_word_loop want mx 0 64 em st = Some (False, em, st)"
      by (subst l2_word_loop.simps) (simp add: g stop)
    then show ?thesis using assms(1) by (intro exI [of _ False] exI [of _ em] exI [of _ st]) simp
  next
    case False
    define b0 where "b0 = (if ?w = all_slot_set then Some 0 else find_next_set_bit ?w 0)"
    have N: "?w = all_slot_set \<Longrightarrow> 64 \<le> N" using bits [of 63] by (simp add: all_slot_set_def)
    have b0N: "b < N" if "b0 = Some b" for b
    proof (cases "?w = all_slot_set")
      case True
      then show ?thesis using that N by (simp add: b0_def)
    next
      case False
      then show ?thesis using that bits by (auto simp: b0_def find_next_set_bit_Some)
    qed
    from l2_bit_loop_small [OF assms refl order_refl N b0N] obtain fin em' st' where
      b: "l2_bit_loop want mx ?w 0 64 b0 em st = Some (fin, em', st')" "small_alloc k N want st0 em' st'"
        "bl_available st' = (if fin then bl_available st - fst em' else bl_available st)" by blast
    have "l2_word_loop want mx 0 64 em st = Some (fin, em', st')"
      using b(1) by (subst l2_word_loop.simps)
        (simp only: div_0 mod_0 mult_0 add_0 g option.case False if_False Let_def b0_def [symmetric] min.idem
          prod.case stop zero_less_numeral if_True split: if_split, auto)
    then show ?thesis using b(2,3) by blast
  qed
qed

lemma p2align_multiple: "64 dvd unat (p2align x 64)"
proof -
  have "unat (p2align x (2 ^ 6)) = unat x - unat x mod 2 ^ 6" by (rule unat_p2align)
  then show ?thesis by (simp add: dvd_minus_mod)
qed

lemma allocate_l2_small:
  assumes "small_alloc k N want st0 em st" "min_length \<noteq> 0"
  shows "\<exists>r em' st'. allocate_l2 want min_length mx hint em st = Some (r, em', st') \<and>
     (fst em' > 0 \<longrightarrow> r = 0) \<and> small_alloc k N want st0 em' st' \<and>
     bl_available st' = bl_available st - fst em'"
proof -
  define m where "m = p2align (if mx = 0 then 0xFFFFFFFF else mx) min_length"
  define mx' where "mx' = (if m < min_length then min_length else m)"
  have mx': "mx' \<noteq> 0" using assms(2) by (auto simp: mx'_def word_gt_0)
  have len: "length (bl_l2 st) * 64 = 64" using assms(1) by (simp add: small_alloc_def)
  define p0 where "p0 = (if hint > 0 then unat (p2align (of_int hint div bl_l2_granularity st) 64) else 0)"
  have "64 dvd p0" by (simp add: p0_def p2align_multiple)
  then have "p0 \<ge> 64 \<or> p0 = 0" using dvd_imp_le by fastforce
  then have pos: "(if p0 \<ge> 64 then 0 else p0) = 0" by auto
  have stop: "l2_word_loop want mx' 0 0 em' st' = Some (False, em', st')" for em' st'
    by (simp add: l2_word_loop.simps)
  from l2_word_loop_small [OF assms(1) mx'] obtain fin em' st' where
    w: "l2_word_loop want mx' 0 64 em st = Some (fin, em', st')" "small_alloc k N want st0 em' st'"
      "bl_available st' = (if fin then bl_available st - fst em' else bl_available st)" by blast
  have e: "allocate_l2 want min_length mx hint em st =
    (if fin then Some (0, em', st')
     else Some (if fst em' > 0 then 0 else - ENOSPC, em',
                if fst em' > 0 then st'\<lparr>bl_available := bl_available st' - fst em'\<rparr> else st'))"
    unfolding allocate_l2_def Let_def len m_def [symmetric] mx'_def [symmetric] p0_def [symmetric] pos
    by (simp add: w(1) stop)
  show ?thesis
  proof (cases fin)
    case True
    then show ?thesis using e w(2,3) by simp
  next
    case False
    show ?thesis
    proof (cases "fst em' > 0")
      case True
      have "small_alloc k N want st0 em' (st'\<lparr>bl_available := bl_available st' - fst em'\<rparr>)"
        using w(2) by (simp add: small_alloc_def bitmap_ok_def)
      then show ?thesis using e w(3) True \<open>\<not> fin\<close>
        by (intro exI [of _ 0] exI [of _ em'] exI [of _ "st'\<lparr>bl_available := bl_available st' - fst em'\<rparr>"]) simp
    next
      case nz: False
      then have "fst em' = 0" by (simp add: word_gt_0)
      then show ?thesis using e w(2,3) False by auto
    qed
  qed
qed

definition bitmap_space :: "nat \<Rightarrow> AllocatorLevel02 \<Rightarrow> nat set" where
  "bitmap_space k st = unit_space k (free_units st)"

lemma bitmap_space_of: "bitmap_space k st = space_of k (ba_l0 (bl_l1 st))"
  by (simp add: bitmap_space_def space_of_def free_units_def)

lemma bitmap_space_bound: "bitmap_ok k N st \<Longrightarrow> bitmap_space k st \<subseteq> {..< N * 2 ^ (k + 17)}"
proof
  fix b assume ok: "bitmap_ok k N st" and "b \<in> bitmap_space k st"
  then have "b div 2 ^ k < 131072 * N" using free_units_bound by (auto simp: bitmap_space_def unit_space_def)
  then have "b < 131072 * N * 2 ^ k" by (simp add: div_less_iff_less_mult)
  also have "131072 * N * 2 ^ k = N * 2 ^ (k + 17)" by (simp add: power_add)
  finally show "b \<in> {..< N * 2 ^ (k + 17)}" by simp
qed

text \<open>
  The scan for a run of free units does not look where level 0 ends: when all units from \<open>p\<close> to the end are free and
  more are wanted, it reads the word behind the last one.
\<close>

lemma run_scan_past_end:
  assumes "\<And>u. p \<le> u \<Longrightarrow> u < 64 * length v \<Longrightarrow> unit_free v u" "p \<le> 64 * length v" "64 * length v < p + need"
  shows "run_end_from v p need = None"
  using assms
proof (induction v p need rule: run_end_from.induct)
  case (2 v p n)
  show ?case
  proof (cases "p < 64 * length v")
    case True
    then have "p div 64 < length v" "bit (v ! (p div 64)) (p mod 64)" using 2(2) [of p] by (auto simp: unit_free_def)
    then have "run_end_from v p (Suc n) = run_end_from v (p + 1) n" by (simp add: slot_get_def find_next_set_bit_self)
    also have "\<dots> = None" by (rule "2.IH") (use 2 True \<open>p div 64 < length v\<close> \<open>bit (v ! (p div 64)) (p mod 64)\<close> in \<open>auto simp: slot_get_def find_next_set_bit_self\<close>)
    finally show ?thesis .
  next
    case False
    then have "p div 64 = length v" using 2(3) by simp
    then show ?thesis by (simp add: slot_get_def)
  qed
qed simp

text \<open>
  C17: on a bitmap whose last unit is in use (otherwise \<open>run_scan_past_end\<close> applies), an allocation of less than one entry of
  level 1 (512 units and 4 GiB) on a device that one word of level 2 covers returns, and it is sound whatever the levels above
  say: the extents were free, are disjoint and are exactly what level 0 loses, their sum is returned and deducted, the
  entries of level 1 are not touched (and so go stale), and the allocator stays well formed.
\<close>

theorem bitmap_small_allocation_sound:
  assumes "bitmap_ok k N st" "length (bl_l2 st) = 1" "131072 * N - 1 \<notin> free_units st"
    and "isp2 unit" "want mod unit = 0" "2 ^ k \<le> unit" "want < 512 * 2 ^ k" "want < 2 ^ 32"
  shows "\<exists>r es st'. bitmap_allocate want unit mx hint [] st = Some (r, es, st') \<and> bitmap_ok k N st' \<and>
    carve (bitmap_space k st) es (bitmap_space k st') \<and> (\<forall>e \<in> set es. pe_length e \<noteq> 0) \<and>
    (\<Sum>e \<leftarrow> es. unat (pe_length e)) \<le> unat want \<and>
    r = (if es = [] then - ENOSPC else int (\<Sum>e \<leftarrow> es. unat (pe_length e))) \<and>
    bl_available st' = bl_available st - of_nat (\<Sum>e \<leftarrow> es. unat (pe_length e)) \<and>
    ba_l1 (bl_l1 st') = ba_l1 (bl_l1 st)"
proof -
  note B = assms(1) [unfolded bitmap_ok_def]
  have k: "k < 41" and g: "ba_l0_granularity (bl_l1 st) = 2 ^ k" using B by simp_all
  have "unat want < unat (512 * 2 ^ k :: u64)" using assms(7) by (simp add: word_less_nat_alt)
  then have w: "unat want < 512 * 2 ^ k" unfolding unat_entry_bytes [OF k] .
  have "unat want < unat (2 ^ 32 :: u64)" using assms(8) by (simp only: word_less_nat_alt)
  then have w32: "unat want < 2 ^ 32" by simp
  have "taken (bitmap_space k st) (0, []) (bitmap_space k st)" by (simp add: taken_def)
  then have "handing k N (bitmap_space k st) (0, []) (bl_l1 st)"
    using B assms(3) bitmap_space_bound [OF assms(1)]
    by (simp add: handing_def bitmap_space_of free_units_def)
  then have "small_alloc k N want st (0, []) st"
    using assms(1,2) w w32 by (simp add: small_alloc_def bitmap_space_of)
  moreover have "unit \<noteq> 0" using assms(4) by (auto simp: isp2_def)
  ultimately obtain r0 em' st' where
    a: "allocate_l2 want unit mx hint (0, []) st = Some (r0, em', st')" "fst em' > 0 \<longrightarrow> r0 = 0"
      "small_alloc k N want st em' st'" "bl_available st' = bl_available st - fst em'"
    using allocate_l2_small by blast
  obtain al es where em': "em' = (al, es)" by (cases em')
  have t: "taken (bitmap_space k st) (al, es) (bitmap_space k st')" "unat al \<le> unat want"
    using a(3) by (simp_all add: small_alloc_def handing_def bitmap_space_of em')
  then have sum: "(\<Sum>e \<leftarrow> es. unat (pe_length e)) = unat al" by (simp add: taken_def)
  have "bitmap_allocate want unit mx hint [] st = Some (if al > 0 then sint al else - ENOSPC, es, st')"
    using assms(4-6) g a(1,2) by (auto simp: bitmap_allocate_def em')
  moreover have "al > 0 \<longleftrightarrow> es \<noteq> []"
  proof (cases es)
    case Nil
    then show ?thesis using sum by (simp add: unat_0_iff)
  next
    case (Cons e es')
    then have "0 < unat (pe_length e)" using t(1) by (simp add: taken_def unat_gt_0)
    then have "0 < unat al" using sum Cons by simp
    then show ?thesis using Cons by (simp add: unat_gt_0 word_gt_0)
  qed
  moreover have "sint al = int (unat al)"
  proof -
    have "unat al < 2 ^ 63" using t(2) w32 by simp
    then show ?thesis by (rule sint_small)
  qed
  moreover have "ba_l1 (bl_l1 st') = ba_l1 (bl_l1 st)"
    using a(3) l0_shrunk_units by (simp add: small_alloc_def)
  ultimately show ?thesis using t sum a(3,4)
    by (intro exI [of _ "if al > 0 then sint al else - ENOSPC"] exI [of _ es] exI [of _ st'])
      (simp add: taken_def em' small_alloc_def)
qed

end
