(* ===== verification/Bitmap_Faults.thy ===== *)
theory Bitmap_Faults
  imports Bitmap_Allocate
begin

text \<open>
  Where the levels of the bitmap disagree: an entry of level 1 that is stale is handed out a second time, and
  \<open>init_rm_free\<close> hides the rest of a group from every later allocation.
\<close>

section \<open>Allocating from the first group\<close>

lemma allocate_l1_done: "fst em = len \<Longrightarrow> \<exists>r. allocate_l1 len mx p n em lv = Some (r, em, lv)"
  by (induction len mx p n em lv rule: allocate_l1.induct) (auto split: option.splits simp: Let_def)

lemma l2_first_bit:
  assumes "length (bl_l2 st) = 1" "bit (bl_l2 st ! 0) 0"
    "allocate_l1 want mx 0 256 em (bl_l1 st) = Some (r, em', lv)" "is_empty_l1 0 256 lv = Some eb" "want \<le> fst em'"
  shows "\<exists>v. l2_word_loop want mx 0 64 em st = Some (True, em',
      st\<lparr>bl_l1 := lv, bl_l2 := v, bl_last_pos := 0, bl_available := bl_available st - fst em'\<rparr>) \<and>
      (\<not> eb \<longrightarrow> v = bl_l2 st)"
proof -
  let ?w = "bl_l2 st ! 0"
  have g: "slot_get (bl_l2 st) 0 = Some ?w" using assms(1) by (simp add: slot_get_def)
  have nz: "?w \<noteq> all_slot_clear" using assms(2) by (auto simp: all_slot_clear_def)
  have b0: "(if ?w = all_slot_set then Some 0 else find_next_set_bit ?w 0) = Some 0"
    using assms(2) by (simp add: find_next_set_bit_self)
  define v where "v = (if eb then (bl_l2 st)[0 := bit_off 0 ?w] else bl_l2 st)"
  have a: "allocate_l1 want mx ((0 * 64 + 0) * 256) 256 em (bl_l1 st) = Some (r, em', lv)"
    "is_empty_l1 ((0 * 64 + 0) * 256) 256 lv = Some eb" using assms(3,4) by simp_all
  have l: "l2_bit_loop want mx ?w 0 64 (Some 0) em st = Some (True, em',
      st\<lparr>bl_l1 := lv, bl_l2 := v, bl_last_pos := 0, bl_available := bl_available st - fst em'\<rparr>)"
    by (subst l2_bit_step [OF _ a _ refl]) (use assms(5) in \<open>simp_all add: v_def\<close>)
  have "l2_word_loop want mx 0 64 em st = Some (True, em',
      st\<lparr>bl_l1 := lv, bl_l2 := v, bl_last_pos := 0, bl_available := bl_available st - fst em'\<rparr>)"
    by (subst l2_word_loop.simps)
      (simp only: div_0 mod_0 mult_0 add_0 g option.case nz if_False Let_def b0 min.idem
        l prod.case zero_less_numeral if_True)
  then show ?thesis by (auto simp: v_def)
qed

lemma allocate_l2_first:
  assumes "length (bl_l2 st) = 1" "l2_word_loop want (if p2align (if mx = 0 then 0xFFFFFFFF else mx) m < m then m
      else p2align (if mx = 0 then 0xFFFFFFFF else mx) m) 0 64 em st = Some (True, em', st')"
  shows "allocate_l2 want m mx 0 em st = Some (0, em', st')"
  using assms by (simp add: allocate_l2_def Let_def)

lemma emplace_one:
  assumes "len \<noteq> 0" "len \<le> mx" "len \<le> 0xFFFFFFFF"
  shows "fragment_and_emplace mx off len (0, []) = Some (len, [\<lparr>pe_offset = off, pe_length = ucast len\<rparr>])"
proof -
  have z: "emplace_loop mx (off + len) 0 em = Some em" for em
    by (cases em) (simp add: emplace_loop.simps)
  have c: "(if mx > 0 \<and> len > mx then mx else len) = len" using assms(2) by auto
  have "emplace_loop mx off len (0, []) = Some (len, [\<lparr>pe_offset = off, pe_length = ucast len\<rparr>])"
    by (subst emplace_loop.simps, simp only: Let_def c) (simp add: z assms word_gt_0)
  then show ?thesis by (simp add: fragment_and_emplace_def)
qed

lemma l1_value_first: "length v > 0 \<Longrightarrow> slot_get v 0 = Some (v ! 0) \<and> l1_field (v ! 0) 0 = l1_value v 0"
  by (simp add: slot_get_def l1_value_def)

text \<open>One unit from the front of an entry that is not full: level 1 is left as it was.\<close>

lemma allocate_l1_front:
  assumes "bitmap_ok k N st" "unit_free (ba_l0 (bl_l1 st)) 0" "l1_value (ba_l1 (bl_l1 st)) 0 \<noteq> L1_ENTRY_FULL"
    "2 ^ k \<le> mx" "k < 32"
  shows "\<exists>r lv. allocate_l1 (2 ^ k) mx 0 256 (0, []) (bl_l1 st) =
      Some (r, (2 ^ k, [\<lparr>pe_offset = 0, pe_length = ucast ((2::u64) ^ k)\<rparr>]), lv) \<and>
      set_units False 0 1 (ba_l0 (bl_l1 st)) (ba_l0 lv) \<and> l0_shrunk (bl_l1 st) lv"
proof -
  let ?lv = "bl_l1 st" let ?v = "ba_l0 ?lv"
  let ?em = "(2 ^ k, [\<lparr>pe_offset = 0, pe_length = ucast ((2::u64) ^ k)\<rparr>]) :: emplaced"
  note B = assms(1) [unfolded bitmap_ok_def]
  have len: "0 < length ?v" "0 < length (ba_l1 ?lv)" using B by (simp_all add: l1_shape_def)
  have g: "ba_l0_granularity ?lv = 2 ^ k" using B by simp
  have w: "bit (?v ! 0) 0" using assms(2) by (simp add: unit_free_def)
  then have wnz: "?v ! 0 \<noteq> all_slot_clear" by (auto simp: all_slot_clear_def)
  have kne: "(2::u64) ^ k \<noteq> 0" using B by (intro exp_nonzero) simp
  let ?lv' = "?lv\<lparr>ba_l0 := ?v[0 := bit_off 0 (?v ! 0)]\<rparr>"
  have m: "mark_alloc_l0 0 1 ?lv = Some ?lv'"
    using len by (simp add: mark_alloc_l0_def mark_vec_def mark_bits_head.simps mark_words.simps
        mark_bits_tail.simps slot_upd_def)
  have uk: "unat ((2::u64) ^ k) = 2 ^ k" using B by (intro unat_exp_u64) simp
  have one: "unat ((2::u64) ^ k div 2 ^ k) = 1" unfolding unat_div uk by simp
  have run: "run_end_from ?v 0 1 = Some 1"
    using len w by (simp add: slot_get_def find_next_set_bit_self)
  have "(2::nat) ^ k < 2 ^ 32" using assms(5) by (intro power_strict_increasing) simp_all
  then have c32: "(2::u64) ^ k \<le> 0xFFFFFFFF" using uk by (simp add: word_le_nat_alt)
  note em = emplace_one [OF kne assms(4) c32, of 0]
  have fnd: "find_next_set_bit (?v ! 0) 0 = Some 0" using w by (simp add: find_next_set_bit_self)
  have sg: "slot_get ?v 0 = Some (?v ! 0)" using len by (simp add: slot_get_def)
  have stop: "allocate_l0_loop mx 1 512 0 ?em ?lv' = Some (0, ?em, ?lv')"
    by (simp add: allocate_l0_loop.simps)
  have l0: "allocate_l0_loop mx 0 512 1 (0, []) ?lv = Some (0, ?em, ?lv')"
    by (subst allocate_l0_loop.simps)
      (simp add: sg wnz fnd run [unfolded One_nat_def] g em m [unfolded One_nat_def] stop [unfolded One_nat_def])
  have small: "\<not> 512 * (2::u64) ^ k \<le> 2 ^ k"
  proof -
    have "unat (512 * 2 ^ k :: u64) = 512 * 2 ^ k" using B by (intro unat_entry_bytes) simp
    then show ?thesis using uk by (simp add: word_le_nat_alt)
  qed
  obtain r where r: "allocate_l1 (2 ^ k) mx (0 + 1) 255 ?em ?lv' = Some (r, ?em, ?lv')"
    using allocate_l1_done [of ?em "2 ^ k" mx "0 + 1" 255 ?lv'] by (auto simp only: fst_conv)
  have n: "(256::nat) = Suc 255" by simp
  have "allocate_l1 (2 ^ k) mx 0 (Suc 255) (0, []) ?lv = Some (r, ?em, ?lv')"
    using assms(3) l1_value_first [OF len(2)] kne small
    by (simp only: allocate_l1.simps div_0 mod_0 Let_def option.case g fst_conv diff_0_right simp_thms if_False
        mult_0 add_0 allocate_l0_def one l0 bind.bind_lunit prod.case r [unfolded add_0])
  moreover have "set_units False 0 1 ?v (ba_l0 ?lv')"
    using upd_bit_units [OF marks_off, of 0 ?v] len by simp
  ultimately show ?thesis unfolding n by (intro exI [of _ r] exI [of _ ?lv']) (simp add: l0_shrunk_def)
qed

text \<open>An entry marked free is taken as a whole when it is wanted as a whole.\<close>

lemma allocate_l1_whole:
  assumes "bitmap_ok k N st" "l1_value (ba_l1 (bl_l1 st)) 0 = L1_ENTRY_FREE" "512 * 2 ^ k \<le> mx" "k < 23"
  shows "\<exists>r lv. allocate_l1 (512 * 2 ^ k) mx 0 256 (0, []) (bl_l1 st) =
      Some (r, (512 * 2 ^ k, [\<lparr>pe_offset = 0, pe_length = ucast (512 * (2::u64) ^ k)\<rparr>]), lv) \<and>
      remarked False 0 512 (bl_l1 st) lv"
proof -
  let ?lv = "bl_l1 st" let ?n = "512 * (2::u64) ^ k"
  let ?em = "(?n, [\<lparr>pe_offset = 0, pe_length = ucast ?n\<rparr>]) :: emplaced"
  note B = assms(1) [unfolded bitmap_ok_def]
  have len: "0 < length (ba_l1 ?lv)" using B by (simp add: l1_shape_def)
  have g: "ba_l0_granularity ?lv = 2 ^ k" using B by simp
  have un: "unat ?n = 512 * 2 ^ k" using B by (intro unat_entry_bytes) simp
  then have nz: "?n \<noteq> 0" by (metis mult_eq_0_iff power_not_zero unat_0 zero_neq_numeral)
  have "(2::nat) ^ k * 2 ^ 9 < 2 ^ 32"
    unfolding power_add [symmetric] using assms(4) by (intro power_strict_increasing) simp_all
  then have c32: "?n \<le> 0xFFFFFFFF" using un by (simp add: word_le_nat_alt)
  note em = emplace_one [OF nz assms(3) c32, of 0]
  have sh: "l1_shape N ?lv" "512 \<le> 131072 * N" using B by simp_all
  from mark_alloc_l1_l0_ok [OF sh(1) _ sh(2), of 0] obtain lv where
    m: "mark_alloc_l1_l0 0 512 ?lv = Some lv" "remarked False 0 512 ?lv lv" by auto
  obtain r where r: "allocate_l1 ?n mx (0 + 1) 255 ?em lv = Some (r, ?em, lv)"
    using allocate_l1_done [of ?em ?n mx "0 + 1" 255 lv] by (auto simp only: fst_conv)
  have n: "(256::nat) = Suc 255" by simp
  have ent: "l1_value (ba_l1 ?lv) 0 = L1_ENTRY_FREE" "L1_ENTRY_FREE \<noteq> L1_ENTRY_FULL"
    using assms(2) by (simp_all add: l1_entry_defs)
  have "allocate_l1 ?n mx 0 (Suc 255) (0, []) ?lv = Some (r, ?em, lv)"
    using l1_value_first [OF len] nz ent
    by (simp only: allocate_l1.simps div_0 mod_0 Let_def option.case g fst_conv diff_0_right simp_thms if_False
        if_True mult_0 add_0 semiring_1_class.of_nat_0 mult_zero_left em m(1) bind.bind_lunit prod.case r [unfolded add_0] order_refl)
  then show ?thesis unfolding n using m(2) by blast
qed

lemma default_max:
  assumes "k < 23"
  shows "512 * 2 ^ k \<le> p2align 0xFFFFFFFF (2 ^ k)" "2 ^ k \<le> p2align 0xFFFFFFFF (2 ^ k)"
    "\<not> p2align 0xFFFFFFFF (2 ^ k) < 2 ^ k"
proof -
  have u: "unat (p2align 0xFFFFFFFF (2 ^ k)) = 4294967295 - 4294967295 mod 2 ^ k"
    by (simp add: unat_p2align)
  have k: "(2::nat) ^ k \<le> 2 ^ 22" using assms by (intro power_increasing) simp_all
  moreover have "(4294967295::nat) mod 2 ^ k < 2 ^ k" by simp
  ultimately have b: "512 * 2 ^ k \<le> unat (p2align 0xFFFFFFFF (2 ^ k))" "2 ^ k \<le> unat (p2align 0xFFFFFFFF (2 ^ k))"
    unfolding u by (simp_all, linarith+)
  have w: "unat (512 * 2 ^ k :: u64) = 512 * 2 ^ k" "unat ((2::u64) ^ k) = 2 ^ k"
    using assms by (intro unat_entry_bytes unat_exp_u64; simp)+
  show "512 * 2 ^ k \<le> p2align 0xFFFFFFFF (2 ^ k)" using b w by (simp only: word_le_nat_alt)
  show le: "2 ^ k \<le> p2align 0xFFFFFFFF (2 ^ k)" using b w by (simp only: word_le_nat_alt)
  then show "\<not> p2align 0xFFFFFFFF (2 ^ k) < 2 ^ k" by simp
qed

lemma slots_clear_first: "slot_get v i = Some w \<Longrightarrow> w \<noteq> 0 \<Longrightarrow> slots_clear v i (Suc n) = Some False"
  by simp

lemma is_empty_first:
  assumes "unit_free (ba_l0 lv) 1"
  shows "is_empty_l1 0 256 lv = Some False"
proof -
  have w: "0 < length (ba_l0 lv)" "bit (ba_l0 lv ! 0) 1" using assms by (simp_all add: unit_free_def)
  then have "slot_get (ba_l0 lv) 0 = Some (ba_l0 lv ! 0)" "ba_l0 lv ! 0 \<noteq> 0" by (auto simp: slot_get_def)
  from slots_clear_first [OF this, of 7] have "is_slot_fully_allocated 0 lv = Some False"
    by (simp add: is_slot_fully_allocated_def)
  then have "is_empty_l1 0 (Suc 255) lv = Some False" by (simp only: is_empty_l1.simps option.case if_False)
  then show ?thesis by simp
qed

text \<open>
  C33: the bitmap hands out space that is in use. After one unit was taken from an entry that was free as a whole,
  level 1 still calls the entry free, and a request for 512 units gets the entry with that unit in it.
\<close>

theorem bitmap_allocates_twice:
  assumes "bitmap_ok k N st" "length (bl_l2 st) = 1" "k < 23" "{..<512} \<subseteq> free_units st"
    "l1_exact_on {0} (bl_l1 st)" "unit_free (bl_l2 st) 0"
  shows "\<exists>st1 st2. bitmap_allocate (2 ^ k) (2 ^ k) 0 0 [] st =
      Some (2 ^ k, [\<lparr>pe_offset = 0, pe_length = ucast ((2::u64) ^ k)\<rparr>], st1) \<and>
    bitmap_allocate (512 * 2 ^ k) (2 ^ k) 0 0 [] st1 =
      Some (512 * 2 ^ k, [\<lparr>pe_offset = 0, pe_length = ucast (512 * (2::u64) ^ k)\<rparr>], st2)"
proof -
  note B = assms(1) [unfolded bitmap_ok_def]
  let ?lv = "bl_l1 st"
  have g: "ba_l0_granularity ?lv = 2 ^ k" using B by simp
  have fr: "unit_free (ba_l0 ?lv) u" if "u < 512" for u using assms(4) that by (auto simp: free_units_def)
  have "entry_units 0 = {..<512}" by (auto simp: entry_units_def)
  then have "summary_of (ba_l0 ?lv) 0 = L1_ENTRY_FREE"
    using fr fr [of 0] by (auto simp: summary_of_def dest: spec [of _ 0])
  moreover have "0 < 32 * length (ba_l1 ?lv)" using B by (simp add: l1_shape_def)
  ultimately have ent: "l1_value (ba_l1 ?lv) 0 = L1_ENTRY_FREE" using assms(5) by (simp add: l1_exact_on_def)
  then have nf: "l1_value (ba_l1 ?lv) 0 \<noteq> L1_ENTRY_FULL" by (simp add: l1_entry_defs)
  let ?mx = "p2align 0xFFFFFFFF (2 ^ k)"
  note dm = default_max [OF assms(3)]
  have k32: "k < 32" using assms(3) by simp
  from allocate_l1_front [OF assms(1) fr nf dm(2) k32] obtain r1 lv1 where
    a1: "allocate_l1 (2 ^ k) ?mx 0 256 (0, []) ?lv =
      Some (r1, (2 ^ k, [\<lparr>pe_offset = 0, pe_length = ucast ((2::u64) ^ k)\<rparr>]), lv1)"
      "set_units False 0 1 (ba_l0 ?lv) (ba_l0 lv1)" "l0_shrunk ?lv lv1" by auto
  have bit0: "bit (bl_l2 st ! 0) 0" using assms(6) by (simp add: unit_free_def)
  have "unit_free (ba_l0 lv1) 1" using a1(2) fr [of 1] by (simp add: set_units_def)
  note e1 = is_empty_first [OF this]
  let ?em1 = "(2 ^ k, [\<lparr>pe_offset = 0, pe_length = ucast ((2::u64) ^ k)\<rparr>]) :: emplaced"
  define st1 where "st1 = st\<lparr>bl_l1 := lv1, bl_l2 := bl_l2 st, bl_last_pos := 0, bl_available := bl_available st - 2 ^ k\<rparr>"
  have w1: "l2_word_loop (2 ^ k) ?mx 0 64 (0, []) st = Some (True, ?em1, st1)"
    using l2_first_bit [OF assms(2) bit0 a1(1) e1] by (auto simp: st1_def)
  have l1: "allocate_l2 (2 ^ k) (2 ^ k) 0 0 (0, []) st = Some (0, ?em1, st1)"
    by (rule allocate_l2_first [OF assms(2)]) (simp add: dm w1)
  have un: "unat ((2::u64) ^ k) = 2 ^ k" "unat (512 * 2 ^ k :: u64) = 512 * 2 ^ k"
    using assms(3) by (intro unat_entry_bytes unat_exp_u64; simp)+
  have kk: "(2::nat) ^ k \<le> 2 ^ 22" using assms(3) by (intro power_increasing) simp_all
  have sn: "sint ((2::u64) ^ k) = 2 ^ k" "sint (512 * 2 ^ k :: u64) = 512 * 2 ^ k"
    using kk un by (simp_all add: sint_small)
  have pos: "(0::u64) < 2 ^ k" "(0::u64) < 512 * 2 ^ k" using un by (simp_all add: word_less_nat_alt)
  have p2: "isp2 (2 ^ k)" using assms(3) by (intro isp2_exp) simp
  have ok1: "bitmap_ok k N st1"
    unfolding st1_def using bitmap_ok_shrunk [OF assms(1) a1(3), where v = "bl_l2 st" and a = "bl_available st - 2 ^ k" and p = 0]
    by (simp add: bitmap_ok_def)
  have b1: "bitmap_allocate (2 ^ k) (2 ^ k) 0 0 [] st =
      Some (2 ^ k, [\<lparr>pe_offset = 0, pe_length = ucast ((2::u64) ^ k)\<rparr>], st1)"
    using pos sn p2 by (simp add: bitmap_allocate_def g l1)
  have ent1: "l1_value (ba_l1 (bl_l1 st1)) 0 = L1_ENTRY_FREE"
    using ent l0_shrunk_units [OF a1(3)] by (simp add: st1_def)
  from allocate_l1_whole [OF ok1 ent1 dm(1) assms(3)] obtain r2 lv2 where
    a2: "allocate_l1 (512 * 2 ^ k) ?mx 0 256 (0, []) (bl_l1 st1) =
      Some (r2, (512 * 2 ^ k, [\<lparr>pe_offset = 0, pe_length = ucast (512 * (2::u64) ^ k)\<rparr>]), lv2)"
      "remarked False 0 512 (bl_l1 st1) lv2" by auto
  have "length (ba_l0 lv2) = 2048 * N"
    using a2(2) ok1 by (simp add: remarked_def set_units_def bitmap_ok_def l1_shape_def)
  then have "(0 + 256) * 8 \<le> length (ba_l0 lv2)" using B by simp
  from is_empty_l1_ok [OF this] obtain eb where e2: "is_empty_l1 0 256 lv2 = Some eb" by blast
  have st1: "length (bl_l2 st1) = 1" "bit (bl_l2 st1 ! 0) 0" "ba_l0_granularity (bl_l1 st1) = 2 ^ k"
  proof -
    show "length (bl_l2 st1) = 1" "bit (bl_l2 st1 ! 0) 0" using assms(2) bit0 by (simp_all add: st1_def)
    show "ba_l0_granularity (bl_l1 st1) = 2 ^ k" using ok1 unfolding bitmap_ok_def by blast
  qed
  from l2_first_bit [OF st1(1,2) a2(1) e2] obtain st2 where
    w2: "l2_word_loop (512 * 2 ^ k) ?mx 0 64 (0, []) st1 =
      Some (True, (512 * 2 ^ k, [\<lparr>pe_offset = 0, pe_length = ucast (512 * (2::u64) ^ k)\<rparr>]), st2)" by auto
  have l2: "allocate_l2 (512 * 2 ^ k) (2 ^ k) 0 0 (0, []) st1 =
      Some (0, (512 * 2 ^ k, [\<lparr>pe_offset = 0, pe_length = ucast (512 * (2::u64) ^ k)\<rparr>]), st2)"
    by (rule allocate_l2_first [OF st1(1)]) (simp add: dm w2)
  have "unat ((512 * 2 ^ k :: u64) mod 2 ^ k) = 0" unfolding unat_mod un by simp
  then have "(512 * 2 ^ k :: u64) mod 2 ^ k = 0" by (simp only: unat_0_iff)
  then have "bitmap_allocate (512 * 2 ^ k) (2 ^ k) 0 0 [] st1 =
      Some (512 * 2 ^ k, [\<lparr>pe_offset = 0, pe_length = ucast (512 * (2::u64) ^ k)\<rparr>], st2)"
    using pos sn p2 by (simp add: bitmap_allocate_def st1(3) l2)
  with b1 show ?thesis by blast
qed

section \<open>Space hidden by \<open>init_rm_free\<close>\<close>

lemma slot_clear: "(\<And>b. \<not> unit_free v b) \<Longrightarrow> i < length v \<Longrightarrow> v ! i = all_slot_clear"
proof (rule bit_word_eqI)
  fix n assume h: "\<And>b. \<not> unit_free v b" "i < length v" "n < LENGTH(64)"
  then have "\<not> unit_free v (64 * i + n)" by blast
  then show "bit (v ! i) n \<longleftrightarrow> bit all_slot_clear n"
    using h(2,3) by (simp add: unit_free_def all_slot_clear_def div_add1_eq)
qed

lemma l2_word_loop_clear:
  assumes "\<And>b. \<not> unit_free (bl_l2 st) b" "stop \<le> 64 * length (bl_l2 st)"
  shows "l2_word_loop want mx idx stop em st = Some (False, em, st)"
proof (induction "stop - idx" arbitrary: idx rule: less_induct)
  case less
  show ?case
  proof (cases "idx < stop")
    case True
    then have i: "idx div 64 < length (bl_l2 st)" using assms(2) unit_index [of idx "length (bl_l2 st)"] by linarith
    have g: "slot_get (bl_l2 st) (idx div 64) = Some all_slot_clear"
      using slot_clear [OF assms(1) i] i by (simp add: slot_get_def)
    have "l2_word_loop want mx (idx + 64) stop em st = Some (False, em, st)"
      by (rule less) (use True in linarith)
    then show ?thesis using True by (subst l2_word_loop.simps) (simp only: g option.case if_True refl)
  qed (simp add: l2_word_loop.simps)
qed

lemma allocate_l2_clear:
  assumes "\<And>b. \<not> unit_free (bl_l2 st) b" "fst em = 0"
  shows "allocate_l2 want m mx hint em st = Some (- ENOSPC, em, st)"
proof -
  define size where "size = length (bl_l2 st) * 64"
  have clear: "l2_word_loop want x i e em st = Some (False, em, st)" if "e \<le> size" for x i e
    by (rule l2_word_loop_clear [OF assms(1)]) (use that in \<open>simp add: size_def\<close>)
  have le: "(if p \<ge> size then 0 else p) \<le> size" for p :: nat by simp
  show ?thesis
    unfolding allocate_l2_def Let_def size_def [symmetric]
    by (simp only: clear [OF order_refl] clear [OF le] bind.bind_lunit prod.case if_False assms(2) less_irrefl)
qed

lemma inner_range_aligned:
  assumes "bitmap_ok k N st" "aligned_range k N off len"
  shows "inner_range (2 ^ k) off len = (off, len)"
proof -
  have d: "2 ^ k dvd unat off" "2 ^ k dvd unat len" using assms(2) by (simp_all add: aligned_range_def)
  have "unat (p2align len (2 ^ k)) = unat len" using d(2) by (simp add: unat_p2align)
  then have "p2align len (2 ^ k) = len" by (metis of_nat_unat ucast_id)
  then show ?thesis by (simp add: inner_range_def Let_def p2roundup_exact [OF d(1)])
qed

text \<open>
  C34: \<open>init_rm_free\<close> of a range that begins in the first and ends in the last group of 131072 units, on a device of one group
  any range at all, hides everything that is still free: level 0 and the counter keep it, but level 2 says that nothing is
  left and every allocation fails with \<open>-ENOSPC\<close>. (A range that touches fewer groups hides the free units of those it touches.)
\<close>

theorem bitmap_rm_free_hides_space:
  assumes "bitmap_ok k N st" "aligned_range k N off len" "len \<noteq> 0" "len \<le> bl_available st"
    and "unat off < 2 ^ (k + 17)" "(N - 1) * 2 ^ (k + 17) < unat off + unat len"
    and "isp2 unit" "want mod unit = 0" "2 ^ k \<le> unit"
  shows "\<exists>st'. bitmap_init_rm_free off len st = Some st' \<and> bitmap_ok k N st' \<and>
    free_units st' = free_units st - units_of k off len \<and> bitmap_get_free st' = bitmap_get_free st - len \<and>
    bitmap_allocate want unit mx hint [] st' = Some (- ENOSPC, [], st')"
proof -
  have g: "ba_l0_granularity (bl_l1 st) = 2 ^ k" using assms(1) by (simp add: bitmap_ok_def)
  from mark_allocated_ok [OF assms(1,2,4)] obtain st' where
    st': "bm_mark_allocated off len st = Some st'" "bitmap_ok k N st'" "free_units st' = free_units st - units_of k off len"
      "bl_available st' = bl_available st - len"
      "\<forall>b. unit_free (bl_l2 st') b \<longleftrightarrow> unit_free (bl_l2 st) b \<and> \<not> (unat off div 2 ^ (k + 17) \<le> b \<and>
        b < unat (p2roundup (off + len) (2 ^ (k + 17)) div 2 ^ (k + 17)))" by blast
  have r: "bitmap_init_rm_free off len st = Some st'"
    using assms(3) st'(1) by (simp add: bitmap_init_rm_free_def g inner_range_aligned [OF assms(1,2)])
  have none: "\<not> unit_free (bl_l2 st') b" for b
  proof
    assume f: "unit_free (bl_l2 st') b"
    then have b: "b < N" using st'(2) by (simp add: bitmap_ok_def)
    have k: "k < 41" using assms(1) by (simp add: bitmap_ok_def)
    have e: "unat off + unat len \<le> N * 2 ^ (k + 17)" using assms(2) by (simp add: aligned_range_def)
    have lo: "unat off div 2 ^ (k + 17) = 0" using assms(5) by simp
    have "b < unat (p2roundup (off + len) (2 ^ (k + 17)) div 2 ^ (k + 17))"
    proof -
      let ?G = "(2::nat) ^ (k + 17)"
      have "(N + 1) * ?G \<le> (2::nat) ^ 64" using assms(1) by (simp add: bitmap_ok_def)
      then have s: "unat (off + len) = unat off + unat len" "unat (off + len) + ?G \<le> 2 ^ 64"
        using aligned_range_units(7) [OF assms(1,2)] e by (simp_all add: add_mult_distrib)
      have u: "unat (p2roundup (off + len) (2 ^ (k + 17)) div 2 ^ (k + 17)) = (unat off + unat len + (?G - 1)) div ?G"
        using unat_roundup_div [OF _ s(2)] k s(1) by simp
      have "b * ?G \<le> (N - 1) * ?G" using b by (intro mult_le_mono1) simp
      moreover have "0 < ?G" by simp
      ultimately have "b * ?G + ?G \<le> unat off + unat len + (?G - 1)" using assms(6) by linarith
      then have "(b + 1) * ?G \<le> unat off + unat len + (?G - 1)" by (simp only: add_mult_distrib mult_1)
      then have "b + 1 \<le> (unat off + unat len + (?G - 1)) div ?G"
        by (simp add: less_eq_div_iff_mult_less_eq)
      then show ?thesis unfolding u by simp
    qed
    then show False using f st'(5) lo by simp
  qed
  have "allocate_l2 want unit mx hint (0, []) st' = Some (- ENOSPC, (0, []), st')"
    by (rule allocate_l2_clear [OF none]) simp
  moreover have "ba_l0_granularity (bl_l1 st') = 2 ^ k" using st'(2) by (simp add: bitmap_ok_def)
  ultimately have "bitmap_allocate want unit mx hint [] st' = Some (- ENOSPC, [], st')"
    using assms(7-9) by (simp add: bitmap_allocate_def)
  then show ?thesis using r st'(2-4) by (intro exI [of _ st']) (simp add: bitmap_get_free_def)
qed

end
