(* ===== verification/Bitmap_Stats.thy ===== *)
theory Bitmap_Stats
  imports Bitmap_Faults
begin

text \<open>
  When the statistics of the bitmap end, what the allocator's calls keep of its shape, and the concrete
  instances of the bitmap's theorems.
\<close>

section \<open>Statistics\<close>

lemma stats_slot_ends:
  assumes "bit w 63" "pos < 64"
  shows "\<exists>r. stats_slot w pos fs b = Some r"
  using assms(2)
proof (induction "64 - pos" arbitrary: pos fs b rule: less_induct)
  case less
  have "find_next_set_bit w pos \<noteq> None" using assms(1) less.prems
    by (auto simp: find_next_set_bit_None intro!: exI [of _ 63])
  then obtain q where q: "find_next_set_bit w pos = Some q" "pos \<le> q" "q < 64"
    by (auto simp: find_next_set_bit_Some)
  have step: "stats_slot w pos fs b =
    (let fs' = (if q = pos then fs + 1 else 1);
         b' = (if q = pos then b else if fs \<noteq> 0 then bin_count fs b else b)
     in if q + 1 < 64 then stats_slot w (q + 1) fs' b' else Some (fs', b'))"
    by (subst stats_slot.simps) (simp add: q(1) Let_def)
  show ?case
  proof (cases "q + 1 < 64")
    case True
    then show ?thesis using less.hyps [of "q + 1"] q(2) less.prems unfolding step Let_def by simp
  qed (simp add: step Let_def)
qed

lemma stats_slot_bit_63:
  assumes "stats_slot w pos fs b = Some r"
  shows "pos < 64 \<longrightarrow> bit w 63"
proof (rule stats_slot.raw_induct [where P = "\<lambda>w pos fs b r. pos < 64 \<longrightarrow> bit w 63", OF _ assms], goal_cases)
  case (1 f w pos fs b r)
  show ?case
  proof
    assume "pos < 64"
    show "bit w 63"
    proof (rule ccontr)
      assume n: "\<not> bit w 63"
      have lt: "q + 1 < 64" if "find_next_set_bit w pos = Some q" for q
      proof -
        have "q < 64" "bit w q" using that by (simp_all add: find_next_set_bit_Some)
        then have "q \<noteq> 63" using n by metis
        then show ?thesis using \<open>q < 64\<close> by simp
      qed
      have "\<exists>p fs' b'. p < 64 \<and> f w p fs' b' = Some r"
      proof (cases "find_next_set_bit w pos")
        case None
        then show ?thesis using "1"(2) by (intro exI [of _ 0]) (auto simp: Let_def)
      next
        case (Some q)
        then have "q + 1 < 64" by (rule lt)
        then show ?thesis using "1"(2) Some by (intro exI [of _ "q + 1"]) (auto simp: Let_def split: if_splits)
      qed
      then show False using "1"(1) n by blast
    qed
  qed
qed

lemma stats_step_ends: "(\<exists>r. stats_step w s = Some r) \<longleftrightarrow> w = all_slot_set \<or> w = all_slot_clear \<or> bit w 63"
proof -
  obtain fs b where s: "s = (fs, b)" by (cases s)
  show ?thesis
    using stats_slot_ends [of w 0 fs b] stats_slot_bit_63 [of w 0 fs b]
    by (auto simp: stats_step_def s)
qed

lemma for_each_ends:
  assumes "\<And>x s. (\<exists>r. f x s = Some r) \<longleftrightarrow> P x"
  shows "(\<exists>r. for_each f xs s = Some r) \<longleftrightarrow> (\<forall>x \<in> set xs. P x)"
proof (induction xs arbitrary: s)
  case (Cons x xs)
  then show ?case using assms [of x s] by (cases "f x s") auto
qed simp

text \<open>
  C35: \<open>dump\<close> returns if and only if every word of level 0 is full, empty or has its highest unit free; on any
  other word the search that finds no further set bit starts the word again, for ever.
\<close>

theorem bitmap_dump_returns_iff:
  "(\<exists>bins. bitmap_dump st = Some bins) \<longleftrightarrow>
    (\<forall>w \<in> set (ba_l0 (bl_l1 st)). w = all_slot_set \<or> w = all_slot_clear \<or> bit w 63)"
proof -
  have "(\<exists>bins. bitmap_dump st = Some bins) \<longleftrightarrow> (\<exists>r. for_each stats_step (ba_l0 (bl_l1 st)) (0, []) = Some r)"
    by (cases "for_each stats_step (ba_l0 (bl_l1 st)) (0, [])") (auto simp: bitmap_dump_def collect_stats_def)
  then show ?thesis using for_each_ends [OF stats_step_ends] by simp
qed

section \<open>A concrete allocator\<close>

text \<open>Two thousand and forty-eight units of 4 KiB, all free.\<close>

definition demo_bitmap :: AllocatorLevel02 where
  "demo_bitmap = the (Option.bind (new_BitmapAllocator 8388608 4096) (bitmap_init_add_free 0 8388608))"

lemma demo_bitmap_ok:
  "bitmap_ok 12 1 demo_bitmap" "free_units demo_bitmap = {..<2048}" "length (bl_l2 demo_bitmap) = 1"
  "bl_available demo_bitmap = 8388608" "l1_exact_on UNIV (bl_l1 demo_bitmap)" "unit_free (bl_l2 demo_bitmap) 0"
proof -
  have n: "groups_of 12 8388608 = 1" by (simp add: groups_of_def)
  from new_BitmapAllocator_ok [of 12 8388608] obtain st0 where st0: "new_BitmapAllocator 8388608 4096 = Some st0"
    "bitmap_ok 12 1 st0" "free_units st0 = {}" "bl_available st0 = 0" "l1_exact_on UNIV (bl_l1 st0)" 
    by (auto simp: n)
  have al: "aligned_range 12 1 0 8388608" by (simp add: aligned_range_def)
  have g: "ba_l0_granularity (bl_l1 st0) = 2 ^ 12" using st0(2) by (simp add: bitmap_ok_def)
  have i: "bitmap_init_add_free 0 8388608 st0 = bm_mark_free 0 8388608 st0"
    using inner_range_aligned [OF st0(2) al] by (simp add: bitmap_init_add_free_def g)
  from mark_free_ok [OF st0(2) al] obtain st1 where st1: "bm_mark_free 0 8388608 st0 = Some st1" "bitmap_ok 12 1 st1"
    "free_units st1 = free_units st0 \<union> units_of 12 0 8388608" "bl_available st1 = bl_available st0 + 8388608"
    "\<forall>A. l1_exact_on A (bl_l1 st0) \<longrightarrow> l1_exact_on A (bl_l1 st1)"
    "\<forall>b. unit_free (bl_l2 st1) b \<longleftrightarrow> (unat (0::u64) div 2 ^ (12 + 17) \<le> b \<and>
        b < unat (p2roundup (0 + 8388608) (2 ^ (12 + 17)) div 2 ^ (12 + 17))) \<or> unit_free (bl_l2 st0) b" by blast
  have d: "demo_bitmap = st1" by (simp add: demo_bitmap_def st0(1) i st1(1))
  have "unat (p2roundup 8388608 (2 ^ (12 + 17)) div 2 ^ (12 + 17)) = (unat (8388608::u64) + (2 ^ (12 + 17) - 1)) div 2 ^ (12 + 17)"
    by (rule unat_roundup_div) simp_all
  then have "unit_free (bl_l2 st1) 0" using st1(6) by simp
  then show "bitmap_ok 12 1 demo_bitmap" "free_units demo_bitmap = {..<2048}" "length (bl_l2 demo_bitmap) = 1"
    "bl_available demo_bitmap = 8388608" "l1_exact_on UNIV (bl_l1 demo_bitmap)" "unit_free (bl_l2 demo_bitmap) 0"
    using st1 st0 by (auto simp: d units_of_def bitmap_ok_def)
qed

text \<open>A request for two units is served from the first ones.\<close>

theorem bitmap_small_allocation_sound_witness:
  "\<exists>r es st'. bitmap_allocate 8192 4096 0 0 [] demo_bitmap = Some (r, es, st') \<and>
    carve (bitmap_space 12 demo_bitmap) es (bitmap_space 12 st') \<and> (\<Sum>e \<leftarrow> es. unat (pe_length e)) \<le> 8192"
  using bitmap_small_allocation_sound [OF demo_bitmap_ok(1,3), of 4096 8192 0 0] isp2_exp [of 12]
  by (auto simp: demo_bitmap_ok(2))

theorem bitmap_allocates_twice_witness:
  "\<exists>st1 st2. bitmap_allocate 4096 4096 0 0 [] demo_bitmap =
      Some (4096, [\<lparr>pe_offset = 0, pe_length = 4096\<rparr>], st1) \<and>
    bitmap_allocate 2097152 4096 0 0 [] st1 = Some (2097152, [\<lparr>pe_offset = 0, pe_length = 2097152\<rparr>], st2)"
  using bitmap_allocates_twice [OF demo_bitmap_ok(1,3) _ _ _ demo_bitmap_ok(6)] demo_bitmap_ok(5)
  by (auto simp: demo_bitmap_ok(2) l1_exact_on_def)

theorem bitmap_rm_free_hides_space_witness:
  "\<exists>st'. bitmap_init_rm_free 0 4096 demo_bitmap = Some st' \<and> free_units st' = {1..<2048} \<and>
    bitmap_get_free st' = 8384512 \<and> bitmap_allocate 4096 4096 0 0 [] st' = Some (- ENOSPC, [], st')"
proof -
  have "aligned_range 12 1 0 4096" by (simp add: aligned_range_def)
  moreover have "{..<2048} - units_of 12 0 4096 = {1..<2048}" by (auto simp: units_of_def)
  ultimately show ?thesis
    using bitmap_rm_free_hides_space [OF demo_bitmap_ok(1), of 0 4096 4096 4096 0 0] isp2_exp [of 12]
    by (auto simp: demo_bitmap_ok(2,4) bitmap_get_free_def)
qed

text \<open>One free unit at the start of a word is enough for \<open>dump\<close> never to return; at its end it does no harm.\<close>

definition one_word :: "u64 \<Rightarrow> AllocatorLevel02" where
  "one_word w = \<lparr>bl_l1 = \<lparr>ba_l0 = [w], ba_l1 = [1], ba_l0_granularity = 4096, ba_l1_granularity = 2097152,
       ba_partial_l1_count = 1, ba_unalloc_l1_count = 0\<rparr>,
     bl_l2_granularity = 536870912, bl_available = 4096, bl_last_pos = 0, bl_l2 = [1]\<rparr>"

theorem bitmap_dump_returns_iff_witness:
  "bitmap_dump (one_word 1) = None \<and> bitmap_dump (one_word (push_bit 63 1)) \<noteq> None"
proof -
  have b: "\<not> bit (1::u64) 63" "bit (push_bit 63 1::u64) 63" by (simp_all only: bit_1_iff bit_push_bit_iff) simp_all
  show ?thesis
    using bitmap_dump_returns_iff [of "one_word 1"] bitmap_dump_returns_iff [of "one_word (push_bit 63 1)"] b
    by (simp add: one_word_def all_slot_set_def all_slot_clear_def)
qed

end
