(* ===== verification/Bitmap_Type.thy ===== *)
theory Bitmap_Type
  imports Bitmap_Stats
begin

text \<open>
  Every call keeps the shape of the bitmap: the sizes of the three levels, the granularities, the codes of
  level 1 and the two counters.
\<close>

section \<open>Calls on levels 0 and 1\<close>

definition l1_kept :: "AllocatorLevel01 \<Rightarrow> AllocatorLevel01 \<Rightarrow> bool" where
  "l1_kept lv lv' \<longleftrightarrow> length (ba_l0 lv') = length (ba_l0 lv) \<and> length (ba_l1 lv') = length (ba_l1 lv) \<and>
     ba_l0_granularity lv' = ba_l0_granularity lv \<and> ba_l1_granularity lv' = ba_l1_granularity lv \<and>
     (l1_counted lv \<longrightarrow> l1_counted lv')"

lemma l1_kept_refl [simp, intro]: "l1_kept lv lv"
  by (simp add: l1_kept_def)

lemma l1_kept_trans [trans]: "l1_kept a b \<Longrightarrow> l1_kept b c \<Longrightarrow> l1_kept a c"
  by (simp add: l1_kept_def)

lemma l1_kept_l0: "length v = length (ba_l0 lv) \<Longrightarrow> l1_kept lv (lv\<lparr>ba_l0 := v\<rparr>)"
  by (simp add: l1_kept_def l1_counted_def)

lemma l1_kept_shape: "l1_kept lv lv' \<Longrightarrow> l1_shape N lv' \<longleftrightarrow> l1_shape N lv"
  by (simp add: l1_kept_def l1_shape_def)

lemma refreshed_kept: "refreshed A lv lv' \<Longrightarrow> l1_kept lv lv'"
  by (simp add: refreshed_def l1_kept_def)

lemma mark_l1_entry_kept:
  assumes "l1_shape N lv" "mark_l1_entry e lv = Some lv'"
  shows "l1_kept lv lv'"
proof -
  have "e * 8 + 8 \<le> length (ba_l0 lv)"
    using assms(2) by (auto simp: mark_l1_entry_def slotset_def split: if_splits)
  then have "e < 256 * N" using assms(1) by (simp add: l1_shape_def)
  from mark_l1_entry_ok [OF assms(1) this] assms(2) show ?thesis by (auto intro: refreshed_kept)
qed

lemma for_each_kept:
  assumes "l1_shape N lv" "for_each mark_l1_entry es lv = Some lv'"
  shows "l1_kept lv lv'"
  using assms
proof (induction es arbitrary: lv)
  case (Cons e es)
  then obtain lv1 where 1: "mark_l1_entry e lv = Some lv1" "for_each mark_l1_entry es lv1 = Some lv'"
    by (auto split: Option.bind_splits)
  have k: "l1_kept lv lv1" by (rule mark_l1_entry_kept [OF Cons.prems(1) 1(1)])
  then have "l1_kept lv1 lv'" using Cons.IH [OF _ 1(2)] Cons.prems(1) l1_kept_shape by blast
  with k show ?case by (rule l1_kept_trans)
qed simp

lemma mark_l1_on_l0_kept: "l1_shape N lv \<Longrightarrow> mark_l1_on_l0 s e lv = Some lv' \<Longrightarrow> l1_kept lv lv'"
  unfolding mark_l1_on_l0_def by (rule for_each_kept)

lemma slot_upd_length: "slot_upd f i v = Some v' \<Longrightarrow> length v' = length v"
  by (auto simp: slot_upd_def split: if_splits)

lemma mark_bits_head_length: "mark_bits_head f p e v = Some (q, v') \<Longrightarrow> length v' = length v"
proof (induction f p e v rule: mark_bits_head.induct)
  case (1 f p e v)
  then show ?case
    by (subst (asm) (2) mark_bits_head.simps) (fastforce split: if_splits Option.bind_splits dest: slot_upd_length)
qed

lemma mark_words_length: "mark_words w p e v = Some (q, v') \<Longrightarrow> length v' = length v"
proof (induction w p e v rule: mark_words.induct)
  case (1 w p e v)
  then show ?case
    by (subst (asm) (2) mark_words.simps) (fastforce split: if_splits Option.bind_splits dest: slot_upd_length)
qed

lemma mark_bits_tail_length: "mark_bits_tail f p e v = Some v' \<Longrightarrow> length v' = length v"
proof (induction f p e v rule: mark_bits_tail.induct)
  case (1 f p e v)
  then show ?case
    by (subst (asm) (2) mark_bits_tail.simps) (fastforce split: if_splits Option.bind_splits dest: slot_upd_length)
qed

lemma mark_alloc_l0_kept: "mark_alloc_l0 s e lv = Some lv' \<Longrightarrow> l1_kept lv lv'"
  by (auto simp: mark_alloc_l0_def mark_vec_def split: Option.bind_splits prod.splits intro!: l1_kept_l0
      dest!: mark_bits_head_length mark_words_length mark_bits_tail_length)

lemma mark_alloc_l1_l0_kept: "l1_shape N lv \<Longrightarrow> mark_alloc_l1_l0 s e lv = Some lv' \<Longrightarrow> l1_kept lv lv'"
  unfolding mark_alloc_l1_l0_def bind_eq_Some_conv
  using mark_alloc_l0_kept mark_l1_on_l0_kept l1_kept_shape l1_kept_trans by blast

lemma allocate_l0_loop_kept: "allocate_l0_loop mx p e need em lv = Some (r, em', lv') \<Longrightarrow> l1_kept lv lv'"
proof (induction mx p e need em lv rule: allocate_l0_loop.induct)
  case (1 mx p e need em lv)
  show ?case
  proof (cases "p < e \<and> need > 0")
    case False
    then show ?thesis using "1.prems" by (subst (asm) allocate_l0_loop.simps) (simp split: if_splits)
  next
    case go: True
    obtain w where w: "slot_get (ba_l0 lv) (p div 64) = Some w"
      using "1.prems" go by (subst (asm) allocate_l0_loop.simps) (auto split: option.splits)
    show ?thesis
    proof (cases "if w = all_slot_clear then None else find_next_set_bit w (p mod 64)")
      case None
      have "allocate_l0_loop mx (p + (64 - p mod 64)) e need em lv = Some (r, em', lv')"
        using "1.prems" go by (subst (asm) allocate_l0_loop.simps) (simp only: w None option.case if_True simp_thms)
      then show ?thesis by (rule "1.IH"(1) [OF go w None])
    next
      case (Some b)
      have n: "(case run_end_from (ba_l0 lv) (p div 64 * 64 + b) need of None \<Rightarrow> None
        | Some run_end \<Rightarrow>
            (case fragment_and_emplace mx (of_nat (p div 64 * 64 + b) * ba_l0_granularity lv)
                (of_nat (min (run_end - (p div 64 * 64 + b)) need) * ba_l0_granularity lv) em of None \<Rightarrow> None
             | Some em' \<Rightarrow>
                (case mark_alloc_l0 (p div 64 * 64 + b) (p div 64 * 64 + b + min (run_end - (p div 64 * 64 + b)) need) lv of
                   None \<Rightarrow> None
                 | Some lv' \<Rightarrow> allocate_l0_loop mx (p div 64 * 64 + b + min (run_end - (p div 64 * 64 + b)) need) e
                     (need - min (run_end - (p div 64 * 64 + b)) need) em' lv'))) = Some (r, em', lv')"
        using "1.prems" go by (subst (asm) allocate_l0_loop.simps) (simp only: w Some option.case if_True simp_thms Let_def)
      obtain q where q: "run_end_from (ba_l0 lv) (p div 64 * 64 + b) need = Some q"
        using n by (auto split: option.splits)
      obtain em1 where em1: "fragment_and_emplace mx (of_nat (p div 64 * 64 + b) * ba_l0_granularity lv)
          (of_nat (min (q - (p div 64 * 64 + b)) need) * ba_l0_granularity lv) em = Some em1"
        using n unfolding q option.case by (auto split: option.splits)
      obtain lv1 where lv1: "mark_alloc_l0 (p div 64 * 64 + b) (p div 64 * 64 + b + min (q - (p div 64 * 64 + b)) need) lv = Some lv1"
        using n unfolding q option.case em1 by (auto split: option.splits)
      have "l1_kept lv1 lv'"
        by (rule "1.IH"(2) [OF go w Some refl q refl em1 lv1]) (use n in \<open>simp only: q option.case em1 lv1\<close>)
      with mark_alloc_l0_kept [OF lv1] show ?thesis by (rule l1_kept_trans)
    qed
  qed
qed

lemma allocate_l1_kept:
  "l1_shape N lv \<Longrightarrow> allocate_l1 len mx p n em lv = Some (r, em', lv') \<Longrightarrow> l1_kept lv lv'"
proof (induction len mx p n em lv rule: allocate_l1.induct)
  case (2 len mx p n em lv)
  show ?case
  proof (cases "slot_get (ba_l1 lv) (p div 32)")
    case None
    then show ?thesis using "2.prems"(2) by simp
  next
    case (Some w)
    note IH = "2.IH" [OF Some refl refl]
    show ?thesis
    proof (cases "l1_field w (p mod 32) = L1_ENTRY_FULL \<or> len - fst em = 0")
      case True
      then show ?thesis using "2.prems" IH(1) Some by (auto simp: Let_def split: if_splits)
    next
      case False
      then have f: "l1_field w (p mod 32) \<noteq> L1_ENTRY_FULL" "len - fst em \<noteq> 0" by simp_all
      show ?thesis
      proof (cases "l1_field w (p mod 32) = L1_ENTRY_FREE \<and> len - fst em \<ge> 512 * ba_l0_granularity lv")
        case True
        then obtain em1 lv1 where s: "fragment_and_emplace mx (of_nat (p * 512) * ba_l0_granularity lv)
              (512 * ba_l0_granularity lv) em = Some em1"
          "mark_alloc_l1_l0 (p * 512) (p * 512 + 512) lv = Some lv1"
          "allocate_l1 len mx (p + 1) n em1 lv1 = Some (r, em', lv')"
          using "2.prems"(2) f Some by (auto simp: Let_def bind_eq_Some_conv)
        have k: "l1_kept lv lv1" by (rule mark_alloc_l1_l0_kept [OF "2.prems"(1) s(2)])
        have "l1_kept lv1 lv'"
          using IH(2) [OF f True s(1,2) _ s(3)] "2.prems"(1) l1_kept_shape [OF k] by blast
        with k show ?thesis by (rule l1_kept_trans)
      next
        case n: False
        then obtain r1 em1 lv1 where s: "allocate_l0 (len - fst em) mx (p * 512) (p * 512 + 512) em lv = Some (r1, em1, lv1)"
          "allocate_l1 len mx (p + 1) n em1 lv1 = Some (r, em', lv')"
          using "2.prems"(2) f Some by (auto simp: Let_def bind_eq_Some_conv)
        have k: "l1_kept lv lv1" using s(1) allocate_l0_loop_kept by (auto simp: allocate_l0_def)
        have "l1_kept lv1 lv'"
          using IH(3) [OF f n s(1) refl refl _ s(2)] "2.prems"(1) l1_kept_shape [OF k] by blast
        with k show ?thesis by (rule l1_kept_trans)
      qed
    qed
  qed
qed auto

subsection \<open>Claiming\<close>

lemma claim_left_bits_length: "length (snd (snd (claim_left_bits pe q v))) = length v"
  by (induction pe q v rule: claim_left_bits.induct) (subst claim_left_bits.simps, simp add: Let_def)

lemma claim_right_bits_length: "length (snd (snd (claim_right_bits pe p v))) = length v"
  by (induction pe p v rule: claim_right_bits.induct) (subst claim_right_bits.simps, simp add: Let_def)

lemma claim_left_words_length: "length (snd (snd (claim_left_words i q v))) = length v"
  by (induction i q v rule: claim_left_words.induct) auto

lemma claim_right_words_length: "length (snd (snd (claim_right_words i p v))) = length v"
  by (induction i p v rule: claim_right_words.induct) (subst claim_right_words.simps, simp)

lemma claim_free_to_left_l0_length: "claim_free_to_left_l0 s v = Some (q, v') \<Longrightarrow> length v' = length v"
  using claim_left_bits_length claim_left_words_length
  by (auto simp: claim_free_to_left_l0_def split: if_splits prod.splits bool.splits) (metis snd_conv)+

lemma claim_free_to_right_l0_length: "claim_free_to_right_l0 s v = (q, v') \<Longrightarrow> length v' = length v"
  using claim_right_bits_length claim_right_words_length
  by (auto simp: claim_free_to_right_l0_def split: if_splits prod.splits bool.splits) (metis snd_conv)+

lemma claim_free_to_left_l1_kept:
  assumes "l1_shape N lv" "claim_free_to_left_l1 off lv = Some (n, lv')"
  shows "l1_kept lv lv'"
proof -
  obtain q v where c: "claim_free_to_left_l0 (unit_from (ba_l0_granularity lv) off) (ba_l0 lv) = Some (q, v)"
    using assms(2) by (auto simp: claim_free_to_left_l1_def Let_def bind_eq_Some_conv)
  note k = l1_kept_l0 [OF claim_free_to_left_l0_length [OF c]]
  have sh: "l1_shape N (lv\<lparr>ba_l0 := v\<rparr>)" using k assms(1) l1_kept_shape by blast
  show ?thesis
    using assms(2) c k l1_kept_trans [OF k mark_l1_on_l0_kept [OF sh]]
    by (auto simp: claim_free_to_left_l1_def Let_def split: if_splits)
qed

lemma claim_free_to_right_l1_kept:
  assumes "l1_shape N lv" "claim_free_to_right_l1 off lv = Some (n, lv')"
  shows "l1_kept lv lv'"
proof -
  obtain q v where c: "claim_free_to_right_l0 (unit_from (ba_l0_granularity lv) off) (ba_l0 lv) = (q, v)"
    by fastforce
  note k = l1_kept_l0 [OF claim_free_to_right_l0_length [OF c]]
  have sh: "l1_shape N (lv\<lparr>ba_l0 := v\<rparr>)" using k assms(1) l1_kept_shape by blast
  show ?thesis
    using assms(2) c k l1_kept_trans [OF k mark_l1_on_l0_kept [OF sh]]
    by (auto simp: claim_free_to_right_l1_def Let_def split: if_splits)
qed

section \<open>Level 2\<close>

lemma bitmap_ok_kept:
  assumes "bitmap_ok k N st" "l1_kept (bl_l1 st) lv" "length v = length (bl_l2 st)"
    "\<And>x. unit_free v x \<Longrightarrow> unit_free (bl_l2 st) x \<or> x < N"
  shows "bitmap_ok k N (st\<lparr>bl_l1 := lv, bl_l2 := v, bl_available := a, bl_last_pos := p\<rparr>)"
  using assms l1_kept_shape [OF assms(2)] by (auto simp: bitmap_ok_def l1_kept_def)

lemma bitmap_ok_counters [simp]:
  "bitmap_ok k N (st\<lparr>bl_available := a\<rparr>) \<longleftrightarrow> bitmap_ok k N st"
  "bitmap_ok k N (st\<lparr>bl_last_pos := p\<rparr>) \<longleftrightarrow> bitmap_ok k N st"
  by (simp_all add: bitmap_ok_def)

lemma bitmap_ok_cleared:
  assumes "bitmap_ok k N st" "l1_kept (bl_l1 st) lv" "b < 64"
  shows "bitmap_ok k N (st\<lparr>bl_l1 := lv, bl_l2 := (bl_l2 st)[i := bit_off b (bl_l2 st ! i)]\<rparr>)"
    "bitmap_ok k N (st\<lparr>bl_l1 := lv, bl_l2 := bl_l2 st\<rparr>)"
proof -
  have "unit_free ((bl_l2 st)[i := bit_off b (bl_l2 st ! i)]) x \<Longrightarrow> unit_free (bl_l2 st) x" for x
    using assms(3) by (cases "i = x div 64") (auto simp: unit_free_def bit_bit_off)
  then show "bitmap_ok k N (st\<lparr>bl_l1 := lv, bl_l2 := (bl_l2 st)[i := bit_off b (bl_l2 st ! i)]\<rparr>)"
    using bitmap_ok_kept [OF assms(1,2), where v = "(bl_l2 st)[i := bit_off b (bl_l2 st ! i)]" and a = "bl_available st"
      and p = "bl_last_pos st"]
    by simp
  show "bitmap_ok k N (st\<lparr>bl_l1 := lv, bl_l2 := bl_l2 st\<rparr>)"
    using bitmap_ok_kept [OF assms(1,2), where v = "bl_l2 st" and a = "bl_available st" and p = "bl_last_pos st"] by simp
qed

lemma l2_bit_loop_kept:
  "bitmap_ok k N st \<Longrightarrow> l2_bit_loop want mx val i scan_end bo em st = Some (fin, em', st') \<Longrightarrow> bitmap_ok k N st'"
proof (induction want mx val i scan_end bo em st rule: l2_bit_loop.induct)
  case (2 want mx val i scan_end b em st)
  show ?case
  proof (cases "b < scan_end")
    case False
    then show ?thesis using "2.prems" by (simp add: l2_bit_loop.simps)
  next
    case True
    note eq = "2.prems"(2) [unfolded l2_bit_loop.simps(2) [of want mx val i scan_end b em st]]
    obtain r em1 lv1 where a: "allocate_l1 want mx ((i * 64 + b) * 256) 256 em (bl_l1 st) = Some (r, em1, lv1)"
      using eq True by (auto split: option.splits)
    obtain eb where e: "is_empty_l1 ((i * 64 + b) * 256) 256 lv1 = Some eb"
      using eq True a by (auto split: option.splits)
    have nb: "\<not> (eb \<and> 64 \<le> b)"
      using eq True a e by (auto split: if_splits)
    define st1 where
      "st1 = st\<lparr>bl_l1 := lv1, bl_l2 := (if eb then (bl_l2 st)[i := bit_off b (bl_l2 st ! i)] else bl_l2 st)\<rparr>"
    have "l1_shape N (bl_l1 st)" using "2.prems"(1) by (simp add: bitmap_ok_def)
    note kp = allocate_l1_kept [OF this a]
    have ok: "bitmap_ok k N st1"
      using bitmap_ok_cleared(1) [OF "2.prems"(1) kp, of b i] bitmap_ok_cleared(2) [OF "2.prems"(1) kp, of 0] nb
      by (auto simp: st1_def)
    note step = l2_bit_step [OF True a e nb st1_def, of val]
    show ?thesis
    proof (cases "fst em1 \<ge> want")
      case True
      then show ?thesis using "2.prems"(2) ok unfolding step by auto
    next
      case f: False
      show ?thesis
        by (rule "2.IH" [OF _ a refl refl e nb st1_def f ok]) (use True "2.prems"(2) f in \<open>simp_all add: step\<close>)
    qed
  qed
qed (simp add: l2_bit_loop.simps)

lemma l2_word_loop_kept:
  "bitmap_ok k N st \<Longrightarrow> l2_word_loop want mx idx stop em st = Some (fin, em', st') \<Longrightarrow> bitmap_ok k N st'"
proof (induction want mx idx stop em st rule: l2_word_loop.induct)
  case (1 want mx idx stop em st)
  show ?case
  proof (cases "idx < stop")
    case False
    then show ?thesis using "1.prems" by (simp add: l2_word_loop.simps)
  next
    case go: True
    note eq = "1.prems"(2) [unfolded l2_word_loop.simps [of want mx idx stop em st]]
    obtain val where v: "slot_get (bl_l2 st) (idx div 64) = Some val"
      using eq go by (auto split: option.splits)
    show ?thesis
    proof (cases "val = all_slot_clear")
      case True
      then show ?thesis using "1.IH"(1) [OF go v True "1.prems"(1)] eq go v by (simp add: if_P)
    next
      case nz: False
      let ?b = "if val = all_slot_set then Some 0 else find_next_set_bit val (idx mod 64)"
      obtain f1 em1 st1 where l: "l2_bit_loop want mx val (idx div 64) (min (idx div 64 * 64 + 64) stop) ?b em st
          = Some (f1, em1, st1)"
        using eq go nz v by (auto simp: Let_def split: option.splits)
      have ok: "bitmap_ok k N st1" by (rule l2_bit_loop_kept [OF "1.prems"(1) l])
      have "(if f1 then Some (True, em1, st1)
          else l2_word_loop want mx (min (idx div 64 * 64 + 64) stop) stop em1 st1) = Some (fin, em', st')"
        using eq by (simp only: go if_True v option.case nz if_False Let_def l prod.case)
      then show ?thesis
        using ok "1.IH"(2) [OF go v nz refl refl l refl refl _ ok] by (auto split: if_splits)
    qed
  qed
qed

lemma allocate_l2_kept:
  "bitmap_ok k N st \<Longrightarrow> allocate_l2 want m mx hint em st = Some (r, em', st') \<Longrightarrow> bitmap_ok k N st'"
proof -
  assume ok: "bitmap_ok k N st" and a: "allocate_l2 want m mx hint em st = Some (r, em', st')"
  obtain x pos size where "Option.bind (l2_word_loop want x pos size em st) (\<lambda>(fin, em, st).
      if fin then Some (0, em, st)
      else Option.bind (l2_word_loop want x 0 pos em st) (\<lambda>(fin, em, st).
        if fin then Some (0, em, st)
        else Some (if fst em > 0 then 0 else - ENOSPC, em,
                   if fst em > 0 then st\<lparr>bl_available := bl_available st - fst em\<rparr> else st))) = Some (r, em', st')"
    using a unfolding allocate_l2_def Let_def by blast
  note e = this
  obtain f1 em1 st1 where 1: "l2_word_loop want x pos size em st = Some (f1, em1, st1)"
    using e by (cases "l2_word_loop want x pos size em st") auto
  have ok1: "bitmap_ok k N st1" by (rule l2_word_loop_kept [OF ok 1])
  show "bitmap_ok k N st'"
  proof (cases f1)
    case True
    then show ?thesis using e ok1 by (simp add: 1)
  next
    case False
    obtain f2 em2 st2 where 2: "l2_word_loop want x 0 pos em1 st1 = Some (f2, em2, st2)"
      using e False by (cases "l2_word_loop want x 0 pos em1 st1") (auto simp: 1)
    have "bitmap_ok k N st2" by (rule l2_word_loop_kept [OF ok1 2])
    then show ?thesis using e False by (auto simp: 1 2 split: if_splits)
  qed
qed

lemma bitmap_allocate_kept:
  "bitmap_ok k N st \<Longrightarrow> bitmap_allocate want unit mx hint es st = Some (r, es', st') \<Longrightarrow> bitmap_ok k N st'"
  by (auto simp: bitmap_allocate_def bind_eq_Some_conv split: if_splits dest: allocate_l2_kept)

lemma some_l1_free_bound: "some_l1_free v i n = Some True \<Longrightarrow> i < 32 * length v"
proof (induction v i n rule: some_l1_free.induct)
  case (2 v i n)
  then show ?case
    by (auto simp: slot_get_def div_less_iff_less_mult mult.commute split: if_splits option.splits)
qed simp

lemma slot_upd_unit: "slot_upd (f (p mod 64)) (p div 64) v = Some v' \<Longrightarrow> marks b f w \<Longrightarrow> set_units b p (p + 1) v v'"
  using upd_bit_units by (auto simp: slot_upd_def split: if_splits)

lemma mark_l2_on_l1_kept:
  "bitmap_ok k N st \<Longrightarrow> mark_l2_on_l1 a e st = Some st' \<Longrightarrow> bitmap_ok k N st'"
  unfolding mark_l2_on_l1_def
proof (induction "e - a" arbitrary: a st)
  case (Suc n)
  let ?f = "\<lambda>p st. Option.bind (some_l1_free (ba_l1 (bl_l1 st)) (p * 256) 256) (\<lambda>free.
      Option.bind (slot_upd ((if free then bit_on else bit_off) (p mod 64)) (p div 64) (bl_l2 st)) (\<lambda>v.
        Some (st\<lparr>bl_l2 := v\<rparr>)))"
  define s where "s = a"
  have ih: "n = e - (s + 1)" "a < e" using Suc.hyps(2) by (simp_all add: s_def)
  have "[a..<e] = s # [s + 1..<e]" using ih(2) by (simp add: upt_conv_Cons s_def)
  then obtain st1 where 1: "?f s st = Some st1" "for_each ?f [s + 1..<e] st1 = Some st'"
    using Suc.prems(2) by (auto simp: bind_eq_Some_conv)
  then obtain free v where fv: "some_l1_free (ba_l1 (bl_l1 st)) (s * 256) 256 = Some free"
    "slot_upd ((if free then bit_on else bit_off) (s mod 64)) (s div 64) (bl_l2 st) = Some v" "st1 = st\<lparr>bl_l2 := v\<rparr>"
    by (auto simp: bind_eq_Some_conv)
  have mk: "marks free (if free then bit_on else bit_off) (if free then all_slot_set else all_slot_clear)"
    using marks_on marks_off by (cases free) simp_all
  have sN: "s < N" if free
    using some_l1_free_bound [of "ba_l1 (bl_l1 st)" "s * 256" 256] fv(1) that Suc.prems(1)
    by (auto simp: bitmap_ok_def l1_shape_def)
  have "bitmap_ok k N (st\<lparr>bl_l1 := bl_l1 st, bl_l2 := v, bl_available := bl_available st, bl_last_pos := bl_last_pos st\<rparr>)"
    by (rule bitmap_ok_kept [OF Suc.prems(1)])
      (use slot_upd_unit [OF fv(2) mk] sN in \<open>auto simp: set_units_def split: if_splits\<close>)
  then have "bitmap_ok k N st1" by (simp add: fv(3))
  from Suc.hyps(1) [OF ih(1) this] 1(2) show ?case by simp
qed simp

lemma claim_free_to_left_kept:
  assumes "bitmap_ok k N st" "claim_free_to_left off st = Some (n, st')"
  shows "bitmap_ok k N st'"
proof -
  obtain m lv where c: "claim_free_to_left_l1 off (bl_l1 st) = Some (m, lv)"
    using assms(2) by (auto simp: claim_free_to_left_def bind_eq_Some_conv)
  have "l1_shape N (bl_l1 st)" using assms(1) by (simp add: bitmap_ok_def)
  note kp = claim_free_to_left_l1_kept [OF this c]
  have ok: "bitmap_ok k N (st\<lparr>bl_l1 := lv, bl_available := a\<rparr>)" for a
    using bitmap_ok_kept [OF assms(1) kp, where v = "bl_l2 st" and a = a and p = "bl_last_pos st"] by simp
  then show ?thesis
    using assms(2) c by (auto simp: claim_free_to_left_def Let_def split: if_splits dest: mark_l2_on_l1_kept [OF ok])
qed

lemma claim_free_to_right_kept:
  assumes "bitmap_ok k N st" "claim_free_to_right off st = Some (n, st')"
  shows "bitmap_ok k N st'"
proof -
  obtain m lv where c: "claim_free_to_right_l1 off (bl_l1 st) = Some (m, lv)"
    using assms(2) by (auto simp: claim_free_to_right_def bind_eq_Some_conv)
  have "l1_shape N (bl_l1 st)" using assms(1) by (simp add: bitmap_ok_def)
  note kp = claim_free_to_right_l1_kept [OF this c]
  have ok: "bitmap_ok k N (st\<lparr>bl_l1 := lv, bl_available := a\<rparr>)" for a
    using bitmap_ok_kept [OF assms(1) kp, where v = "bl_l2 st" and a = a and p = "bl_last_pos st"] by simp
  then show ?thesis
    using assms(2) c by (auto simp: claim_free_to_right_def Let_def split: if_splits dest: mark_l2_on_l1_kept [OF ok])
qed

lemma free_l2_kept:
  assumes "bitmap_ok k N st" "\<forall>p \<in> set rr. aligned_range k N (fst p) (snd p)"
  shows "\<exists>st'. free_l2 rr st = Some st' \<and> bitmap_ok k N st' \<and>
    free_units st' = free_units st \<union> (\<Union>p \<in> set rr. units_of k (fst p) (snd p))"
proof -
  let ?body = "\<lambda>(off, len) (released, st). do {
         (n, lv) \<leftarrow> free_l1 off len (bl_l1 st);
         let g = bl_l2_granularity st;
         st \<leftarrow> mark_l2_free (unat (off div g)) (unat (p2roundup (off + len) g div g)) (st\<lparr>bl_l1 := lv\<rparr>);
         Some (released + n, st) }"
  have "\<exists>rel' st'. for_each ?body rr (rel, st) = Some (rel', st') \<and> bitmap_ok k N st' \<and>
      free_units st' = free_units st \<union> (\<Union>p \<in> set rr. units_of k (fst p) (snd p))" for rel
    using assms
  proof (induction rr arbitrary: st rel)
    case (Cons p rr)
    obtain off len where p: "p = (off, len)" by (cases p)
    have al: "aligned_range k N off len" using Cons.prems(2) p by simp
    from free_range_ok [OF Cons.prems(1) al] obtain lv st1 where
      1: "free_l1 off len (bl_l1 st) = Some (len, lv)"
        "mark_l2_free (unat (off div bl_l2_granularity st))
           (unat (p2roundup (off + len) (bl_l2_granularity st) div bl_l2_granularity st)) (st\<lparr>bl_l1 := lv\<rparr>) = Some st1"
        "bitmap_ok k N st1" "free_units st1 = free_units st \<union> units_of k off len" by blast
    from Cons.IH [OF 1(3), of "rel + len"] Cons.prems(2) obtain rel' st' where
      2: "for_each ?body rr (rel + len, st1) = Some (rel', st')" "bitmap_ok k N st'"
        "free_units st' = free_units st1 \<union> (\<Union>p \<in> set rr. units_of k (fst p) (snd p))" by auto
    have "for_each ?body (p # rr) (rel, st) = Some (rel', st')"
      using 1(1,2) 2(1) by (simp add: p Let_def)
    then show ?case using 2(2,3) 1(4) p by (intro exI [of _ rel'] exI [of _ st']) auto
  qed auto
  from this [of 0] obtain rel' st' where
    r: "for_each ?body rr (0, st) = Some (rel', st')" "bitmap_ok k N st'"
      "free_units st' = free_units st \<union> (\<Union>p \<in> set rr. units_of k (fst p) (snd p))" by blast
  then have "free_l2 rr st = Some (st'\<lparr>bl_available := bl_available st' + rel'\<rparr>)"
    by (simp add: free_l2_def)
  then show ?thesis using r(2,3) by (simp add: free_units_def)
qed

section \<open>Every call\<close>

datatype bm_op =
    Bm_add_free u64 u64
  | Bm_rm_free u64 u64
  | Bm_allocate u64 u64 u64 int
  | Bm_release "(u64 \<times> u64) list"
  | Bm_claim_left u64
  | Bm_claim_right u64
  | Bm_shutdown

fun bm_step :: "bm_op \<Rightarrow> AllocatorLevel02 \<Rightarrow> AllocatorLevel02 option" where
  "bm_step (Bm_add_free off len) st = bitmap_init_add_free off len st"
| "bm_step (Bm_rm_free off len) st = bitmap_init_rm_free off len st"
| "bm_step (Bm_allocate want unit mx hint) st =
     map_option (\<lambda>(_, _, st'). st') (bitmap_allocate want unit mx hint [] st)"
| "bm_step (Bm_release rr) st = bitmap_release rr st"
| "bm_step (Bm_claim_left off) st = map_option snd (claim_free_to_left off st)"
| "bm_step (Bm_claim_right off) st = map_option snd (claim_free_to_right off st)"
| "bm_step Bm_shutdown st = Some (bitmap_shutdown st)"

text \<open>The ranges a call names are whole units of the space level 0 covers.\<close>

fun bm_args_ok :: "nat \<Rightarrow> nat \<Rightarrow> bm_op \<Rightarrow> bool" where
  "bm_args_ok k N (Bm_add_free off len) \<longleftrightarrow> aligned_range k N off len"
| "bm_args_ok k N (Bm_rm_free off len) \<longleftrightarrow> aligned_range k N off len"
| "bm_args_ok k N (Bm_release rr) \<longleftrightarrow> (\<forall>p \<in> set rr. aligned_range k N (fst p) (snd p))"
| "bm_args_ok k N _ \<longleftrightarrow> True"

fun bm_run :: "bm_op list \<Rightarrow> AllocatorLevel02 \<Rightarrow> AllocatorLevel02 option" where
  "bm_run [] st = Some st"
| "bm_run (op # ops) st = Option.bind (bm_step op st) (bm_run ops)"

lemma bm_step_ok:
  assumes "bitmap_ok k N st" "bm_args_ok k N op" "bm_step op st = Some st'"
  shows "bitmap_ok k N st'"
proof -
  have g: "ba_l0_granularity (bl_l1 st) = 2 ^ k" using assms(1) by (simp add: bitmap_ok_def)
  show ?thesis
  proof (cases op)
    case (Bm_add_free off len)
    then have al: "aligned_range k N off len" using assms(2) by simp
    show ?thesis
      using assms(1,3) mark_free_ok [OF assms(1) al] Bm_add_free
      by (auto simp: bitmap_init_add_free_def g inner_range_aligned [OF assms(1) al] split: if_splits)
  next
    case (Bm_rm_free off len)
    then have al: "aligned_range k N off len" using assms(2) by simp
    show ?thesis
    proof (cases "len = 0")
      case True
      then show ?thesis using assms(1,3) Bm_rm_free by (simp add: bitmap_init_rm_free_def)
    next
      case False
      then have m: "bm_mark_allocated off len st = Some st'"
        using assms(3) Bm_rm_free by (simp add: bitmap_init_rm_free_def g inner_range_aligned [OF assms(1) al])
      then have "len \<le> bl_available st"
        by (auto simp: bm_mark_allocated_def Let_def bind_eq_Some_conv mark_l2_allocated_def split: if_splits)
      from mark_allocated_ok [OF assms(1) al this] m show ?thesis by auto
    qed
  next
    case (Bm_release rr)
    then show ?thesis using free_l2_kept [OF assms(1), of rr] assms(2,3) by (auto simp: bitmap_release_def)
  next
    case Bm_shutdown
    then show ?thesis using assms(1,3) by (auto simp: bitmap_shutdown_def)
  qed (use assms(1,3) in \<open>auto intro: bitmap_allocate_kept claim_free_to_left_kept claim_free_to_right_kept\<close>)
qed

text \<open>
  The calls that can leave the bitmap or fail an assertion: taking out more than the counter of free bytes holds, allocations, and
  the two claims. The theory \<open>Bitmap_Allocate\<close> shows a case in which an allocation does.
\<close>

fun may_fail :: "AllocatorLevel02 \<Rightarrow> bm_op \<Rightarrow> bool" where
  "may_fail st (Bm_rm_free off len) \<longleftrightarrow> bl_available st < len"
| "may_fail st (Bm_allocate want unit mx hint) \<longleftrightarrow> True"
| "may_fail st (Bm_claim_left off) \<longleftrightarrow> True"
| "may_fail st (Bm_claim_right off) \<longleftrightarrow> True"
| "may_fail st _ \<longleftrightarrow> False"

lemma bm_step_total:
  assumes "bitmap_ok k N st" "bm_args_ok k N op" "\<not> may_fail st op"
  shows "bm_step op st \<noteq> None"
proof -
  have g: "ba_l0_granularity (bl_l1 st) = 2 ^ k" using assms(1) by (simp add: bitmap_ok_def)
  show ?thesis
  proof (cases op)
    case (Bm_add_free off len)
    then have al: "aligned_range k N off len" using assms(2) by simp
    show ?thesis using mark_free_ok [OF assms(1) al] Bm_add_free
      by (auto simp: bitmap_init_add_free_def g inner_range_aligned [OF assms(1) al])
  next
    case (Bm_rm_free off len)
    then have al: "aligned_range k N off len" "len \<le> bl_available st" using assms(2,3) by (simp_all add: not_less)
    show ?thesis using mark_allocated_ok [OF assms(1) al] Bm_rm_free
      by (auto simp: bitmap_init_rm_free_def g inner_range_aligned [OF assms(1) al(1)])
  next
    case (Bm_release rr)
    then show ?thesis using free_l2_kept [OF assms(1), of rr] assms(2) by (auto simp: bitmap_release_def)
  qed (use assms(3) in simp_all)
qed

text \<open>
  C32: whatever calls are made on a new allocator, with ranges of whole units inside the device, the bitmap stays well formed
  after every call that returns: the three levels keep their sizes, level 1 holds only its three codes and the two counters
  behind \<open>get_fragmentation\<close> count them exactly. And the first call that does not return, for an index or a shift out of
  range or an assertion, is never \<open>init_add_free\<close>, \<open>release\<close>, \<open>shutdown\<close> or an \<open>init_rm_free\<close> of at most the free
  bytes: these are always in range.
\<close>

theorem bitmap_calls_well_formed:
  assumes "k < 41" "unat cap + 2 ^ (k + 23) \<le> 2 ^ 64" "cap \<noteq> 0"
    and "\<forall>op \<in> set ops. bm_args_ok k (groups_of k cap) op"
  shows "\<exists>st n st'. new_BitmapAllocator cap (2 ^ k) = Some st \<and> bm_run (take n ops) st = Some st' \<and>
    bitmap_ok k (groups_of k cap) st' \<and> (n = length ops \<or> n < length ops \<and> may_fail st' (ops ! n) \<and> bm_step (ops ! n) st' = None)"
proof -
  obtain st where st: "new_BitmapAllocator cap (2 ^ k) = Some st" "bitmap_ok k (groups_of k cap) st"
    using new_BitmapAllocator_ok [OF assms(1-3)] by auto
  have "\<exists>n st'. bm_run (take n ops) st = Some st' \<and> bitmap_ok k (groups_of k cap) st' \<and>
      (n = length ops \<or> n < length ops \<and> may_fail st' (ops ! n) \<and> bm_step (ops ! n) st' = None)"
    using st(2) assms(4)
  proof (induction ops arbitrary: st)
    case (Cons op ops)
    show ?case
    proof (cases "bm_step op st")
      case None
      then have "may_fail st op" using bm_step_total [OF Cons.prems(1), of op] Cons.prems(2) by (cases "may_fail st op") simp_all
      then show ?thesis using None Cons.prems(1) by (intro exI [of _ 0] exI [of _ st]) simp
    next
      case (Some st1)
      then have "bitmap_ok k (groups_of k cap) st1" using bm_step_ok [OF Cons.prems(1) _ Some] Cons.prems(2) by simp
      from Cons.IH [OF this] Cons.prems(2) obtain n st' where "bm_run (take n ops) st1 = Some st'" "bitmap_ok k (groups_of k cap) st'"
        "n = length ops \<or> n < length ops \<and> may_fail st' (ops ! n) \<and> bm_step (ops ! n) st' = None" by auto
      then show ?thesis using Some by (intro exI [of _ "Suc n"] exI [of _ st']) simp
    qed
  qed simp
  then show ?thesis using st(1) by blast
qed

theorem bitmap_calls_well_formed_witness:
  "\<exists>st st'. new_BitmapAllocator 8388608 4096 = Some st \<and>
    bm_run [Bm_add_free 0 8388608, Bm_release [(0, 4096)], Bm_shutdown] st = Some st' \<and> bitmap_ok 12 1 st'"
proof -
  let ?ops = "[Bm_add_free 0 8388608, Bm_release [(0, 4096)], Bm_shutdown]"
  have n: "groups_of 12 8388608 = 1" by (simp add: groups_of_def)
  have "\<forall>op \<in> set ?ops. bm_args_ok 12 1 op" by (simp add: aligned_range_def)
  then obtain st m st' where w: "new_BitmapAllocator 8388608 (2 ^ 12) = Some st" "bm_run (take m ?ops) st = Some st'" "bitmap_ok 12 1 st'"
    "m = length ?ops \<or> m < length ?ops \<and> may_fail st' (?ops ! m)"
    using bitmap_calls_well_formed [of 12 8388608 ?ops] unfolding n by auto
  have "m < 3 \<Longrightarrow> m = 0 \<or> m = 1 \<or> m = 2" by linarith
  then have "m = 3" using w(4) by auto
  then show ?thesis using w(1-3) by auto
qed

end
