(* ===== verification/Denc.thy ===== *)
theory Denc
  imports Prelude
begin

text \<open>
  The encodings of \<open>common/denc.h\<close> that the sources use: integers in little-endian order, strings and buffers
  behind a 32-bit length, vectors behind a 32-bit count, and the versioned envelope of \<open>DENC_START\<close> and
  \<open>DENC_FINISH\<close>. An encoder returns the bytes it appends. A decoder reads from the bytes left and returns the value and
  the bytes that follow, or the exception it throws.
\<close>

datatype denc_error = End_Of_Buffer | Malformed_Input

type_synonym 'a decoder = "bytes \<Rightarrow> denc_error + 'a \<times> bytes"

definition dec_return :: "'a \<Rightarrow> 'a decoder" where
  "dec_return x p = Inr (x, p)"

definition dec_bind :: "'a decoder \<Rightarrow> ('a \<Rightarrow> 'b decoder) \<Rightarrow> 'b decoder" where
  "dec_bind d f p = (case d p of Inl e \<Rightarrow> Inl e | Inr (x, q) \<Rightarrow> f x q)"

text \<open>\<open>get_pos_add(n)\<close> throws when fewer bytes are left.\<close>

definition dec_raw :: "nat \<Rightarrow> bytes decoder" where
  "dec_raw n p = (if n \<le> length p then Inr (take n p, drop n p) else Inl End_Of_Buffer)"

section \<open>Integers\<close>

definition enc_u8 :: "u8 \<Rightarrow> bytes" where "enc_u8 v = [v]"
definition enc_u32 :: "u32 \<Rightarrow> bytes" where "enc_u32 v = le_bytes 4 v"
definition enc_u64 :: "u64 \<Rightarrow> bytes" where "enc_u64 v = le_bytes 8 v"

definition dec_u8 :: "u8 decoder" where
  "dec_u8 = dec_bind (dec_raw 1) (\<lambda>b. dec_return (le_value b))"

definition dec_u32 :: "u32 decoder" where
  "dec_u32 = dec_bind (dec_raw 4) (\<lambda>b. dec_return (le_value b))"

definition dec_u64 :: "u64 decoder" where
  "dec_u64 = dec_bind (dec_raw 8) (\<lambda>b. dec_return (le_value b))"

section \<open>Strings, buffers and vectors\<close>

definition enc_string :: "bytes \<Rightarrow> bytes" where
  "enc_string s = enc_u32 (of_nat (length s)) @ s"

definition dec_string :: "bytes decoder" where
  "dec_string = dec_bind dec_u32 (\<lambda>len. dec_raw (unat len))"

text \<open>A \<open>bufferlist\<close> has the same image.\<close>

definition enc_list :: "bytes \<Rightarrow> bytes" where "enc_list = enc_string"
definition dec_list :: "bytes decoder" where "dec_list = dec_string"

definition enc_vector :: "('a \<Rightarrow> bytes) \<Rightarrow> 'a list \<Rightarrow> bytes" where
  "enc_vector f xs = enc_u32 (of_nat (length xs)) @ concat (map f xs)"

fun dec_many :: "'a decoder \<Rightarrow> nat \<Rightarrow> 'a list decoder" where
  "dec_many d 0 = dec_return []"
| "dec_many d (Suc n) = dec_bind d (\<lambda>x. dec_bind (dec_many d n) (\<lambda>xs. dec_return (x # xs)))"

definition dec_vector :: "'a decoder \<Rightarrow> 'a list decoder" where
  "dec_vector d = dec_bind dec_u32 (\<lambda>n. dec_many d (unat n))"

section \<open>The envelope\<close>

text \<open>
  Version, compatible version and length, then the members. A decoder that read past the announced length throws,
  one that read less skips the rest.
\<close>

definition enc_struct :: "u8 \<Rightarrow> u8 \<Rightarrow> bytes \<Rightarrow> bytes" where
  "enc_struct v cv body = enc_u8 v @ enc_u8 cv @ enc_u32 (of_nat (length body)) @ body"

definition dec_struct :: "'a decoder \<Rightarrow> 'a decoder" where
  "dec_struct d =
     dec_bind dec_u8 (\<lambda>struct_v. dec_bind dec_u8 (\<lambda>struct_compat. dec_bind dec_u32 (\<lambda>struct_len start.
       case d start of
         Inl e \<Rightarrow> Inl e
       | Inr (x, pos) \<Rightarrow>
           let consumed = length start - length pos
           in if consumed > unat struct_len then Inl Malformed_Input
              else dec_bind (dec_raw (unat struct_len - consumed)) (\<lambda>_. dec_return x) pos)))"

section \<open>Decoders read back what encoders wrote\<close>

named_theorems dec_simps

lemmas dec_bind_eq [dec_simps] = dec_bind_def

lemma dec_return_apply [dec_simps]: "dec_return x p = Inr (x, p)"
  by (simp add: dec_return_def)

lemma dec_raw_append [dec_simps]: "length s = n \<Longrightarrow> dec_raw n (s @ p) = Inr (s, p)"
  by (simp add: dec_raw_def)

lemma dec_u8_append [dec_simps]: "dec_u8 (enc_u8 v @ p) = Inr (v, p)" "dec_u8 (v # p) = Inr (v, p)"
proof -
  have "dec_raw 1 (v # p) = Inr ([v], p)" by (simp add: dec_raw_def)
  then show "dec_u8 (enc_u8 v @ p) = Inr (v, p)" "dec_u8 (v # p) = Inr (v, p)"
    by (simp_all add: dec_u8_def enc_u8_def dec_simps)
qed

lemma dec_u32_append [dec_simps]: "dec_u32 (enc_u32 v @ p) = Inr (v, p)"
  by (simp add: dec_u32_def enc_u32_def dec_bind_def dec_raw_def dec_return_def)

lemma dec_u64_append [dec_simps]: "dec_u64 (enc_u64 v @ p) = Inr (v, p)"
  by (simp add: dec_u64_def enc_u64_def dec_bind_def dec_raw_def dec_return_def)

lemma dec_string_append [dec_simps]:
  "length s < 2 ^ 32 \<Longrightarrow> dec_string (enc_string s @ p) = Inr (s, p)"
  by (simp add: dec_string_def enc_string_def dec_simps unat_of_nat)

lemma dec_list_append [dec_simps]: "length s < 2 ^ 32 \<Longrightarrow> dec_list (enc_list s @ p) = Inr (s, p)"
  by (simp add: dec_list_def enc_list_def dec_simps)

lemma dec_many_append:
  assumes "\<And>x p. x \<in> set xs \<Longrightarrow> d (f x @ p) = Inr (g x, p)"
  shows "dec_many d (length xs) (concat (map f xs) @ p) = Inr (map g xs, p)"
  using assms
proof (induction xs)
  case (Cons x xs)
  have "d (f x @ concat (map f xs) @ p) = Inr (g x, concat (map f xs) @ p)" using Cons.prems by simp
  then show ?case using Cons by (simp add: dec_bind_def dec_return_def)
qed (simp add: dec_return_def)

lemma dec_vector_append:
  assumes "length xs < 2 ^ 32" "\<And>x p. x \<in> set xs \<Longrightarrow> d (f x @ p) = Inr (g x, p)"
  shows "dec_vector d (enc_vector f xs @ p) = Inr (map g xs, p)"
  using dec_many_append [of xs d f g p] assms
  by (simp add: dec_vector_def enc_vector_def dec_simps unat_of_nat)

lemma dec_struct_append:
  assumes "length body < 2 ^ 32" "d (body @ p) = Inr (x, p)"
  shows "dec_struct d (enc_struct v c body @ p) = Inr (x, p)"
proof -
  have "dec_raw 0 p = Inr ([], p)" by (simp add: dec_raw_def)
  then show ?thesis
    using assms
    by (simp add: dec_struct_def enc_struct_def dec_simps unat_of_nat)
qed

lemma length_enc [simp]:
  "length (enc_u8 a) = 1" "length (enc_u32 b) = 4" "length (enc_u64 c) = 8"
  "length (enc_string s) = 4 + length s" "length (enc_list s) = 4 + length s"
  "length (enc_struct v w body) = 6 + length body"
  by (simp_all add: enc_u8_def enc_u32_def enc_u64_def enc_string_def enc_list_def enc_struct_def)

end
