(* ===== verification/Bluefs_Types.thy ===== *)
theory Bluefs_Types
  imports Denc
begin

text \<open>
  The on-disk types of BlueFS (\<open>bluestore/bluefs_types.h\<close>, \<open>.cc\<close>): extents, file nodes with their index of
  extents, deltas of a file node, the superblock and journal transactions, with their encodings.
\<close>

section \<open>Extents and file nodes\<close>

record bluefs_extent =
  bx_offset :: u64
  bx_length :: u32
  bx_bdev :: u8

definition bx_len :: "bluefs_extent \<Rightarrow> u64" where
  "bx_len e = ucast (bx_length e)"

definition bx_end :: "bluefs_extent \<Rightarrow> u64" where
  "bx_end e = bx_offset e + bx_len e"

record bluefs_fnode_delta =
  fd_ino :: u64
  fd_size :: u64
  fd_mtime :: u64
  fd_offset :: u64
  fd_extents :: "bluefs_extent list"

record bluefs_fnode =
  fn_ino :: u64
  fn_size :: u64
  fn_mtime :: u64
  fn_unused :: u8
  fn_extents :: "bluefs_extent list"
  fn_extents_index :: "u64 list"
  fn_allocated :: u64
  fn_allocated_committed :: u64

definition new_fnode :: "u64 \<Rightarrow> u64 \<Rightarrow> u64 \<Rightarrow> bluefs_fnode" where
  "new_fnode ino sz mtime = \<lparr>fn_ino = ino, fn_size = sz, fn_mtime = mtime, fn_unused = 0, fn_extents = [],
     fn_extents_index = [], fn_allocated = 0, fn_allocated_committed = 0\<rparr>"

text \<open>The loop of \<open>recalc_allocated\<close>: the index of the extents from \<open>allocated\<close> on, and the total.\<close>

fun index_from :: "u64 \<Rightarrow> bluefs_extent list \<Rightarrow> u64 list \<times> u64" where
  "index_from allocated [] = ([], allocated)"
| "index_from allocated (e # es) =
     (let (is, total) = index_from (allocated + bx_len e) es in (allocated # is, total))"

definition recalc_allocated :: "bluefs_fnode \<Rightarrow> bluefs_fnode" where
  "recalc_allocated f =
     (let (is, total) = index_from 0 (fn_extents f)
      in f\<lparr>fn_extents_index := is, fn_allocated := total, fn_allocated_committed := total\<rparr>)"

definition reset_delta :: "bluefs_fnode \<Rightarrow> bluefs_fnode" where
  "reset_delta f = f\<lparr>fn_allocated_committed := fn_allocated f\<rparr>"

text \<open>An extent is merged into the last one when it continues it.\<close>

definition continues :: "bluefs_extent \<Rightarrow> bluefs_extent \<Rightarrow> bool" where
  "continues l e \<longleftrightarrow> bx_end l = bx_offset e \<and> bx_bdev l = bx_bdev e \<and> bx_len l + bx_len e < 0xffffffff"

definition append_extent :: "bluefs_extent \<Rightarrow> bluefs_fnode \<Rightarrow> bluefs_fnode" where
  "append_extent e f =
     (let f' = (if fn_extents f \<noteq> [] \<and> continues (last (fn_extents f)) e
                then f\<lparr>fn_extents := butlast (fn_extents f) @
                         [last (fn_extents f)\<lparr>bx_length := bx_length (last (fn_extents f)) + bx_length e\<rparr>]\<rparr>
                else f\<lparr>fn_extents_index := fn_extents_index f @ [fn_allocated f],
                       fn_extents := fn_extents f @ [e]\<rparr>)
      in f'\<lparr>fn_allocated := fn_allocated f + bx_len e\<rparr>)"

definition claim_extents :: "bluefs_extent list \<Rightarrow> bluefs_fnode \<Rightarrow> bluefs_fnode" where
  "claim_extents es f = fold append_extent es f"

definition clone_extents :: "bluefs_fnode \<Rightarrow> bluefs_fnode \<Rightarrow> bluefs_fnode" where
  "clone_extents other f = fold append_extent (fn_extents other) f"

text \<open>
  The copy constructor takes over \<open>allocated\<close> and then appends the extents, which adds to it. Assignment is the
  member-wise one of the compiler, the identity of the model.
\<close>

definition copy_fnode :: "bluefs_fnode \<Rightarrow> bluefs_fnode" where
  "copy_fnode other = clone_extents other
     ((new_fnode (fn_ino other) (fn_size other) (fn_mtime other))
        \<lparr>fn_allocated := fn_allocated other, fn_allocated_committed := fn_allocated_committed other\<rparr>)"

text \<open>On an empty node, \<open>begin()\<close> may not be dereferenced.\<close>

definition pop_front_extent :: "bluefs_fnode \<Rightarrow> bluefs_fnode option" where
  "pop_front_extent f =
     (case (fn_extents f, fn_extents_index f) of
        (e # es, _ # is) \<Rightarrow>
          Some (f\<lparr>fn_allocated := fn_allocated f - bx_len e, fn_extents_index := map (\<lambda>i. i - bx_len e) is, fn_extents := es\<rparr>)
      | _ \<Rightarrow> None)"

definition swap_extents :: "bluefs_fnode \<Rightarrow> bluefs_fnode \<Rightarrow> bluefs_fnode \<times> bluefs_fnode" where
  "swap_extents f other =
     (f\<lparr>fn_extents := fn_extents other, fn_extents_index := fn_extents_index other, fn_allocated := fn_allocated other,
        fn_allocated_committed := fn_allocated_committed other\<rparr>,
      other\<lparr>fn_extents := fn_extents f, fn_extents_index := fn_extents_index f, fn_allocated := fn_allocated f,
        fn_allocated_committed := fn_allocated_committed f\<rparr>)"

definition swap_fnode :: "bluefs_fnode \<Rightarrow> bluefs_fnode \<Rightarrow> bluefs_fnode \<times> bluefs_fnode" where
  "swap_fnode f other =
     swap_extents (f\<lparr>fn_ino := fn_ino other, fn_size := fn_size other, fn_mtime := fn_mtime other\<rparr>)
       (other\<lparr>fn_ino := fn_ino f, fn_size := fn_size f, fn_mtime := fn_mtime f\<rparr>)"

definition clear_extents :: "bluefs_fnode \<Rightarrow> bluefs_fnode" where
  "clear_extents f = f\<lparr>fn_extents_index := [], fn_extents := [], fn_allocated := 0, fn_allocated_committed := 0\<rparr>"

text \<open>
  \<open>seek\<close>: the position of the extent that holds offset \<open>off\<close> and the offset inside it, or \<open>end()\<close>. On the index,
  which ascends, \<open>upper_bound\<close> is the end of the prefix of entries not above \<open>off\<close>.
\<close>

definition fn_seek :: "u64 \<Rightarrow> bluefs_fnode \<Rightarrow> (nat \<times> u64) option" where
  "fn_seek off f =
     (if fn_extents f = [] \<or> off \<ge> fn_allocated f then None
      else case length (takeWhile (\<lambda>i. i \<le> off) (fn_extents_index f)) of
             0 \<Rightarrow> None
           | Suc idx \<Rightarrow> Some (idx, off - fn_extents_index f ! idx))"

text \<open>The extents behind the committed ones; an extent that was committed in part is cut.\<close>

fun delta_extents :: "u64 \<Rightarrow> u64 \<Rightarrow> bluefs_extent list \<Rightarrow> bluefs_extent list" where
  "delta_extents committed pos [] = []"
| "delta_extents committed pos (e # es) =
     (if pos + bx_len e \<le> committed then delta_extents committed (pos + bx_len e) es
      else (let skip = (if pos < committed then committed - pos else 0)
            in if skip = 0 then e
               else \<lparr>bx_offset = bx_offset e + skip, bx_length = ucast (bx_len e - skip), bx_bdev = bx_bdev e\<rparr>)
           # delta_extents committed (pos + bx_len e) es)"

definition make_delta :: "bluefs_fnode \<Rightarrow> bluefs_fnode_delta" where
  "make_delta f = \<lparr>fd_ino = fn_ino f, fd_size = fn_size f, fd_mtime = fn_mtime f, fd_offset = fn_allocated_committed f,
     fd_extents = delta_extents (fn_allocated_committed f) 0 (fn_extents f)\<rparr>"

section \<open>Encodings\<close>

definition enc_extent :: "bluefs_extent \<Rightarrow> bytes" where
  "enc_extent e = enc_struct 1 1 (enc_u64 (bx_offset e) @ enc_u32 (bx_length e) @ enc_u8 (bx_bdev e))"

definition dec_extent :: "bluefs_extent decoder" where
  "dec_extent = dec_struct (dec_bind dec_u64 (\<lambda>off. dec_bind dec_u32 (\<lambda>len. dec_bind dec_u8 (\<lambda>b.
     dec_return \<lparr>bx_offset = off, bx_length = len, bx_bdev = b\<rparr>))))"

definition enc_delta :: "bluefs_fnode_delta \<Rightarrow> bytes" where
  "enc_delta d = enc_struct 1 1 (enc_u64 (fd_ino d) @ enc_u64 (fd_size d) @ enc_u64 (fd_mtime d) @ enc_u64 (fd_offset d) @
     enc_vector enc_extent (fd_extents d))"

definition dec_delta :: "bluefs_fnode_delta decoder" where
  "dec_delta = dec_struct (dec_bind dec_u64 (\<lambda>ino. dec_bind dec_u64 (\<lambda>sz. dec_bind dec_u64 (\<lambda>mt. dec_bind dec_u64 (\<lambda>off.
     dec_bind (dec_vector dec_extent) (\<lambda>es.
       dec_return \<lparr>fd_ino = ino, fd_size = sz, fd_mtime = mt, fd_offset = off, fd_extents = es\<rparr>))))))"

text \<open>Decoding a file node recomputes its index and takes what it holds as committed.\<close>

definition enc_fnode :: "bluefs_fnode \<Rightarrow> bytes" where
  "enc_fnode f = enc_struct 1 1 (enc_u64 (fn_ino f) @ enc_u64 (fn_size f) @ enc_u64 (fn_mtime f) @ enc_u8 (fn_unused f) @
     enc_vector enc_extent (fn_extents f))"

definition dec_fnode :: "bluefs_fnode decoder" where
  "dec_fnode = dec_bind (dec_struct (dec_bind dec_u64 (\<lambda>ino. dec_bind dec_u64 (\<lambda>sz. dec_bind dec_u64 (\<lambda>mt. dec_bind dec_u8 (\<lambda>u.
     dec_bind (dec_vector dec_extent) (\<lambda>es.
       dec_return ((new_fnode ino sz mt)\<lparr>fn_unused := u, fn_extents := es\<rparr>))))))))
     (\<lambda>f. dec_return (recalc_allocated f))"

text \<open>\<open>uuid_d\<close> (\<open>common/uuid.h\<close>) is its sixteen bytes; \<open>generate\<close> draws them from the kernel.\<close>

type_synonym uuid = bytes

definition zero_uuid :: uuid where "zero_uuid = replicate 16 0"

definition stamp_uuid :: "bytes \<Rightarrow> uuid" where
  "stamp_uuid rnd = rnd[6 := (rnd ! 6 AND 0x0f) OR 0x40, 8 := (rnd ! 8 AND 0x3f) OR 0x80]"

definition enc_uuid :: "uuid \<Rightarrow> bytes" where
  "enc_uuid u = enc_struct 1 1 u"

definition dec_uuid :: "uuid decoder" where
  "dec_uuid = dec_struct (dec_raw 16)"

record bluefs_super =
  su_uuid :: uuid
  su_osd_uuid :: uuid
  su_version :: u64
  su_block_size :: u32
  su_log_fnode :: bluefs_fnode

definition new_super :: bluefs_super where
  "new_super = \<lparr>su_uuid = zero_uuid, su_osd_uuid = zero_uuid, su_version = 0, su_block_size = 4096, su_log_fnode = new_fnode 0 0 0\<rparr>"

definition block_mask :: "bluefs_super \<Rightarrow> u64" where
  "block_mask s = NOT (ucast (su_block_size s) - 1)"

definition enc_super :: "bluefs_super \<Rightarrow> bytes" where
  "enc_super s = enc_struct 1 1 (enc_uuid (su_uuid s) @ enc_uuid (su_osd_uuid s) @ enc_u64 (su_version s) @
     enc_u32 (su_block_size s) @ enc_fnode (su_log_fnode s))"

definition dec_super :: "bluefs_super decoder" where
  "dec_super = dec_struct (dec_bind dec_uuid (\<lambda>u. dec_bind dec_uuid (\<lambda>o'. dec_bind dec_u64 (\<lambda>ver. dec_bind dec_u32 (\<lambda>bs.
     dec_bind dec_fnode (\<lambda>f.
       dec_return \<lparr>su_uuid = u, su_osd_uuid = o', su_version = ver, su_block_size = bs, su_log_fnode = f\<rparr>))))))"

section \<open>Transactions\<close>

definition OP_INIT :: u8 where "OP_INIT = 2"
definition OP_DIR_LINK :: u8 where "OP_DIR_LINK = 5"
definition OP_DIR_UNLINK :: u8 where "OP_DIR_UNLINK = 6"
definition OP_DIR_CREATE :: u8 where "OP_DIR_CREATE = 7"
definition OP_DIR_REMOVE :: u8 where "OP_DIR_REMOVE = 8"
definition OP_FILE_UPDATE :: u8 where "OP_FILE_UPDATE = 9"
definition OP_FILE_REMOVE :: u8 where "OP_FILE_REMOVE = 10"
definition OP_JUMP :: u8 where "OP_JUMP = 11"
definition OP_JUMP_SEQ :: u8 where "OP_JUMP_SEQ = 12"
definition OP_FILE_UPDATE_INC :: u8 where "OP_FILE_UPDATE_INC = 13"

lemmas op_code_defs = OP_INIT_def OP_DIR_LINK_def OP_DIR_UNLINK_def OP_DIR_CREATE_def OP_DIR_REMOVE_def OP_FILE_UPDATE_def
  OP_FILE_REMOVE_def OP_JUMP_def OP_JUMP_SEQ_def OP_FILE_UPDATE_INC_def

record bluefs_transaction =
  tx_uuid :: uuid
  tx_seq :: u64
  tx_op_bl :: bytes

definition new_transaction :: bluefs_transaction where
  "new_transaction = \<lparr>tx_uuid = zero_uuid, tx_seq = 0, tx_op_bl = []\<rparr>"

definition tx_append :: "bytes \<Rightarrow> bluefs_transaction \<Rightarrow> bluefs_transaction" where
  "tx_append b t = t\<lparr>tx_op_bl := tx_op_bl t @ b\<rparr>"

definition op_init :: "bluefs_transaction \<Rightarrow> bluefs_transaction" where
  "op_init = tx_append (enc_u8 OP_INIT)"

definition op_dir_create :: "bytes \<Rightarrow> bluefs_transaction \<Rightarrow> bluefs_transaction" where
  "op_dir_create dir = tx_append (enc_u8 OP_DIR_CREATE @ enc_string dir)"

definition op_dir_remove :: "bytes \<Rightarrow> bluefs_transaction \<Rightarrow> bluefs_transaction" where
  "op_dir_remove dir = tx_append (enc_u8 OP_DIR_REMOVE @ enc_string dir)"

definition op_dir_link :: "bytes \<Rightarrow> bytes \<Rightarrow> u64 \<Rightarrow> bluefs_transaction \<Rightarrow> bluefs_transaction" where
  "op_dir_link dir file ino = tx_append (enc_u8 OP_DIR_LINK @ enc_string dir @ enc_string file @ enc_u64 ino)"

definition op_dir_unlink :: "bytes \<Rightarrow> bytes \<Rightarrow> bluefs_transaction \<Rightarrow> bluefs_transaction" where
  "op_dir_unlink dir file = tx_append (enc_u8 OP_DIR_UNLINK @ enc_string dir @ enc_string file)"

text \<open>The two updates also reset the delta of the file node.\<close>

definition op_file_update :: "bluefs_fnode \<Rightarrow> bluefs_transaction \<Rightarrow> bluefs_fnode \<times> bluefs_transaction" where
  "op_file_update f t = (reset_delta f, tx_append (enc_u8 OP_FILE_UPDATE @ enc_fnode f) t)"

definition op_file_update_inc :: "bluefs_fnode \<Rightarrow> bluefs_transaction \<Rightarrow> bluefs_fnode \<times> bluefs_transaction" where
  "op_file_update_inc f t = (reset_delta f, tx_append (enc_u8 OP_FILE_UPDATE_INC @ enc_delta (make_delta f)) t)"

definition op_file_remove :: "u64 \<Rightarrow> bluefs_transaction \<Rightarrow> bluefs_transaction" where
  "op_file_remove ino = tx_append (enc_u8 OP_FILE_REMOVE @ enc_u64 ino)"

definition op_jump :: "u64 \<Rightarrow> u64 \<Rightarrow> bluefs_transaction \<Rightarrow> bluefs_transaction" where
  "op_jump next_seq off = tx_append (enc_u8 OP_JUMP @ enc_u64 next_seq @ enc_u64 off)"

definition op_jump_seq :: "u64 \<Rightarrow> bluefs_transaction \<Rightarrow> bluefs_transaction" where
  "op_jump_seq next_seq = tx_append (enc_u8 OP_JUMP_SEQ @ enc_u64 next_seq)"

definition claim_ops :: "bluefs_transaction \<Rightarrow> bluefs_transaction \<Rightarrow> bluefs_transaction \<times> bluefs_transaction" where
  "claim_ops t from = (tx_append (tx_op_bl from) t, from\<lparr>tx_op_bl := []\<rparr>)"

definition enc_transaction :: "bluefs_transaction \<Rightarrow> bytes" where
  "enc_transaction t = enc_struct 1 1 (enc_uuid (tx_uuid t) @ enc_u64 (tx_seq t) @ enc_list (tx_op_bl t))"

definition dec_transaction :: "bluefs_transaction decoder" where
  "dec_transaction = dec_struct (dec_bind dec_uuid (\<lambda>u. dec_bind dec_u64 (\<lambda>s. dec_bind dec_list (\<lambda>b.
     dec_return \<lparr>tx_uuid = u, tx_seq = s, tx_op_bl = b\<rparr>))))"

end
