(* ===== verification/Volume_Selector.thy ===== *)
theory Volume_Selector
  imports Bluefs_Types Btier_Config
begin

text \<open>
  The volume selectors of BlueFS (\<open>bluestore/bluefs_volume_selector.cc\<close>): which device a file prefers, and the usage
  that \<open>RocksDBBlueFSVolumeSelector\<close> keeps per device and level. A hint is the value of its pointer. An index outside
  an array, which is undefined, is the result \<open>None\<close>.
\<close>

section \<open>Constants\<close>

definition MAX_BDEV :: nat where "MAX_BDEV = 3"
definition BDEV_WAL :: nat where "BDEV_WAL = 0"
definition BDEV_DB :: nat where "BDEV_DB = 1"
definition BDEV_SLOW :: nat where "BDEV_SLOW = 2"

lemmas bdev_defs = MAX_BDEV_def BDEV_WAL_def BDEV_DB_def BDEV_SLOW_def

definition RDB_LEVEL_FIRST :: nat where "RDB_LEVEL_FIRST = 1"
definition RDB_LEVEL_LOG :: nat where "RDB_LEVEL_LOG = 1"
definition RDB_LEVEL_WAL :: nat where "RDB_LEVEL_WAL = 2"
definition RDB_LEVEL_DB :: nat where "RDB_LEVEL_DB = 3"
definition RDB_LEVEL_SLOW :: nat where "RDB_LEVEL_SLOW = 4"
definition RDB_LEVEL_MAX :: nat where "RDB_LEVEL_MAX = 5"
definition LEVELS :: nat where "LEVELS = 5"

lemmas rdb_defs = RDB_LEVEL_FIRST_def RDB_LEVEL_LOG_def RDB_LEVEL_WAL_def RDB_LEVEL_DB_def RDB_LEVEL_SLOW_def
  RDB_LEVEL_MAX_def LEVELS_def

section \<open>State\<close>

record original_selector =
  os_wal_total :: u64
  os_db_total :: u64
  os_slow_total :: u64

text \<open>
  Rows of \<open>rs_usage\<close> are devices, columns levels; the extra row holds sizes per level, the extra column totals per
  device.
\<close>

record rocksdb_selector =
  rs_usage :: "u64 list list"
  rs_max_usage :: "u64 list list"
  rs_per_level_files :: "u64 list"
  rs_l_totals :: "u64 list"
  rs_db_avail4slow :: u64
  rs_level0_size :: u64
  rs_level_base :: u64
  rs_level_multiplier :: u64

datatype VolumeSelector =
    OriginalVolumeSelector original_selector
  | FitToFastVolumeSelector original_selector
  | RocksDBBlueFSVolumeSelector rocksdb_selector

definition new_original :: "u64 \<Rightarrow> u64 \<Rightarrow> u64 \<Rightarrow> VolumeSelector" where
  "new_original wal db slow = OriginalVolumeSelector \<lparr>os_wal_total = wal, os_db_total = db, os_slow_total = slow\<rparr>"

definition new_fit_to_fast :: "u64 \<Rightarrow> u64 \<Rightarrow> u64 \<Rightarrow> VolumeSelector" where
  "new_fit_to_fast wal db slow = FitToFastVolumeSelector \<lparr>os_wal_total = wal, os_db_total = db, os_slow_total = slow\<rparr>"

text \<open>The loop of the constructor grows levels until they pass the size of the DB device; it may not end.\<close>

partial_function (option) level_growth :: "u64 \<Rightarrow> u64 \<Rightarrow> u64 \<Rightarrow> u64 \<Rightarrow> u64 \<Rightarrow> u64 option" where
  "level_growth db_total multiplier prev_levels cur_level cur_threshold =
     (let next_level = cur_level * multiplier; next_threshold = prev_levels + cur_level + next_level
      in if db_total \<le> next_threshold then Some cur_threshold
         else level_growth db_total multiplier (prev_levels + cur_level) next_level next_threshold)"

text \<open>A \<open>double\<close> cast to \<open>uint64_t\<close>, for values in range.\<close>

definition double_to_u64 :: "real \<Rightarrow> u64" where
  "double_to_u64 x = of_int \<lfloor>x\<rfloor>"

definition new_rocksdb ::
  "fpu \<Rightarrow> u64 \<Rightarrow> u64 \<Rightarrow> u64 \<Rightarrow> u64 \<Rightarrow> u64 \<Rightarrow> u64 \<Rightarrow> real \<Rightarrow> u64 \<Rightarrow> bool \<Rightarrow> VolumeSelector option" where
  "new_rocksdb fp wal db slow level0 base multiplier factor reserved use_db_extra =
     (let s = \<lparr>rs_usage = replicate (MAX_BDEV + 1) (replicate LEVELS 0), rs_max_usage = replicate (MAX_BDEV + 1) (replicate LEVELS 0),
               rs_per_level_files = replicate LEVELS 0, rs_l_totals = [0, wal, db, slow], rs_db_avail4slow = 0,
               rs_level0_size = 0, rs_level_base = 0, rs_level_multiplier = 0\<rparr>
      in if \<not> use_db_extra then Some (RocksDBBlueFSVolumeSelector s)
         else if reserved = 0
         then map_option (\<lambda>t. let t' = double_to_u64 (double fp (double fp (real (unat t)) * factor))
                in RocksDBBlueFSVolumeSelector (s\<lparr>rs_level0_size := level0, rs_level_base := base, rs_level_multiplier := multiplier,
                     rs_db_avail4slow := (if t' < db then db - t' else 0)\<rparr>))
              (level_growth db multiplier level0 base (level0 + base))
         else Some (RocksDBBlueFSVolumeSelector (s\<lparr>rs_db_avail4slow := (if reserved < db then db - reserved else 0)\<rparr>)))"

section \<open>Hints\<close>

text \<open>The names end in \<open>.slow\<close> and \<open>.wal\<close>; names of up to five characters are not looked at.\<close>

definition dot_slow :: bytes where "dot_slow = [0x2e, 0x73, 0x6c, 0x6f, 0x77]"
definition dot_wal :: bytes where "dot_wal = [0x2e, 0x77, 0x61, 0x6c]"

definition ends_with :: "bytes \<Rightarrow> bytes \<Rightarrow> bool" where
  "ends_with dirname suffix \<longleftrightarrow> length dirname > 5 \<and> drop (length dirname - length suffix) dirname = suffix"

fun vs_hint_for_log :: "VolumeSelector \<Rightarrow> u64" where
  "vs_hint_for_log (RocksDBBlueFSVolumeSelector s) = of_nat RDB_LEVEL_LOG"
| "vs_hint_for_log _ = of_nat BDEV_WAL"

definition original_hint :: "original_selector \<Rightarrow> bytes \<Rightarrow> u64" where
  "original_hint s dirname =
     (if ends_with dirname dot_slow \<and> os_slow_total s > 0 then of_nat BDEV_SLOW
      else if ends_with dirname dot_wal \<and> os_wal_total s > 0 then of_nat BDEV_WAL
      else of_nat BDEV_DB)"

fun vs_hint_by_dir :: "VolumeSelector \<Rightarrow> bytes \<Rightarrow> u64" where
  "vs_hint_by_dir (RocksDBBlueFSVolumeSelector s) dirname =
     (if ends_with dirname dot_slow then of_nat RDB_LEVEL_SLOW
      else if ends_with dirname dot_wal then of_nat RDB_LEVEL_WAL
      else of_nat RDB_LEVEL_DB)"
| "vs_hint_by_dir (OriginalVolumeSelector s) dirname = original_hint s dirname"
| "vs_hint_by_dir (FitToFastVolumeSelector s) dirname = original_hint s dirname"

definition hint_to_level :: "u64 \<Rightarrow> u8" where
  "hint_to_level hint = ucast hint"

section \<open>Usage\<close>

definition cell :: "u64 list list \<Rightarrow> nat \<Rightarrow> nat \<Rightarrow> u64" where
  "cell m i j = m ! i ! j"

definition set_cell :: "nat \<Rightarrow> nat \<Rightarrow> u64 \<Rightarrow> u64 list list \<Rightarrow> u64 list list" where
  "set_cell i j v m = m[i := (m ! i)[j := v]]"

text \<open>\<open>update_max\<close>; without other threads the exchange of its loop succeeds once.\<close>

definition update_max :: "nat \<Rightarrow> nat \<Rightarrow> rocksdb_selector \<Rightarrow> rocksdb_selector" where
  "update_max b l s =
     (let v = cell (rs_usage s) b l
      in if v > cell (rs_max_usage s) b l then s\<lparr>rs_max_usage := set_cell b l v (rs_max_usage s)\<rparr> else s)"

definition add_cell :: "nat \<Rightarrow> nat \<Rightarrow> u64 \<Rightarrow> rocksdb_selector \<Rightarrow> rocksdb_selector" where
  "add_cell b l n s = s\<lparr>rs_usage := set_cell b l (cell (rs_usage s) b l + n) (rs_usage s)\<rparr>"

text \<open>The position of a hint in a row.\<close>

definition hint_pos :: "u64 \<Rightarrow> nat" where
  "hint_pos hint = unat (hint - of_nat RDB_LEVEL_FIRST)"

definition rocks_add_extent :: "u64 \<Rightarrow> bluefs_extent \<Rightarrow> rocksdb_selector \<Rightarrow> rocksdb_selector option" where
  "rocks_add_extent hint e s =
     (if hint = 0 then Some s
      else let pos = hint_pos hint; b = unat (bx_bdev e)
           in if pos < LEVELS \<and> b \<le> MAX_BDEV
              then Some (update_max b (LEVELS - 1) (add_cell b (LEVELS - 1) (bx_len e)
                     (update_max b pos (add_cell b pos (bx_len e) s))))
              else None)"

definition rocks_sub_extent :: "u64 \<Rightarrow> bluefs_extent \<Rightarrow> rocksdb_selector \<Rightarrow> rocksdb_selector option" where
  "rocks_sub_extent hint e s =
     (if hint = 0 then Some s
      else let pos = hint_pos hint; b = unat (bx_bdev e)
           in if pos < LEVELS \<and> b \<le> MAX_BDEV
              then Some (add_cell b (LEVELS - 1) (- bx_len e) (add_cell b pos (- bx_len e) s))
              else None)"

definition count_files :: "nat \<Rightarrow> u64 \<Rightarrow> rocksdb_selector \<Rightarrow> rocksdb_selector" where
  "count_files pos n s =
     (let f = rs_per_level_files s; f1 = f[pos := f ! pos + n]
      in s\<lparr>rs_per_level_files := f1[LEVELS - 1 := f1 ! (LEVELS - 1) + n]\<rparr>)"

definition rocks_add_size :: "u64 \<Rightarrow> u64 \<Rightarrow> bool \<Rightarrow> rocksdb_selector \<Rightarrow> rocksdb_selector option" where
  "rocks_add_size hint fsize upd_files s =
     (if hint = 0 then Some s
      else let pos = hint_pos hint
           in if pos < LEVELS
              then Some ((if upd_files then count_files pos 1 else id) (update_max MAX_BDEV pos (add_cell MAX_BDEV pos fsize s)))
              else None)"

definition rocks_sub_size :: "u64 \<Rightarrow> u64 \<Rightarrow> bool \<Rightarrow> rocksdb_selector \<Rightarrow> rocksdb_selector option" where
  "rocks_sub_size hint fsize upd_files s =
     (if hint = 0 then Some s
      else let pos = hint_pos hint
           in if pos < LEVELS
              then Some ((if upd_files then count_files pos (- 1) else id) (add_cell MAX_BDEV pos (- fsize) s))
              else None)"

text \<open>The virtual functions: the two simple selectors track nothing.\<close>

fun on_rocksdb :: "(rocksdb_selector \<Rightarrow> rocksdb_selector option) \<Rightarrow> VolumeSelector \<Rightarrow> VolumeSelector option" where
  "on_rocksdb f (RocksDBBlueFSVolumeSelector s) = map_option RocksDBBlueFSVolumeSelector (f s)"
| "on_rocksdb f v = Some v"

definition vs_add_extent :: "u64 \<Rightarrow> bluefs_extent \<Rightarrow> VolumeSelector \<Rightarrow> VolumeSelector option" where
  "vs_add_extent hint e = on_rocksdb (rocks_add_extent hint e)"

definition vs_sub_extent :: "u64 \<Rightarrow> bluefs_extent \<Rightarrow> VolumeSelector \<Rightarrow> VolumeSelector option" where
  "vs_sub_extent hint e = on_rocksdb (rocks_sub_extent hint e)"

definition vs_add_size :: "u64 \<Rightarrow> u64 \<Rightarrow> bool \<Rightarrow> VolumeSelector \<Rightarrow> VolumeSelector option" where
  "vs_add_size hint fsize upd = on_rocksdb (rocks_add_size hint fsize upd)"

definition vs_sub_size :: "u64 \<Rightarrow> u64 \<Rightarrow> bool \<Rightarrow> VolumeSelector \<Rightarrow> VolumeSelector option" where
  "vs_sub_size hint fsize upd = on_rocksdb (rocks_sub_size hint fsize upd)"

fun add_extents :: "u64 \<Rightarrow> bluefs_extent list \<Rightarrow> VolumeSelector \<Rightarrow> VolumeSelector option" where
  "add_extents hint [] v = Some v"
| "add_extents hint (e # es) v = Option.bind (vs_add_extent hint e v) (add_extents hint es)"

fun sub_extents :: "u64 \<Rightarrow> bluefs_extent list \<Rightarrow> VolumeSelector \<Rightarrow> VolumeSelector option" where
  "sub_extents hint [] v = Some v"
| "sub_extents hint (e # es) v = Option.bind (vs_sub_extent hint e v) (sub_extents hint es)"

definition vs_add_fnode :: "u64 \<Rightarrow> bluefs_fnode \<Rightarrow> VolumeSelector \<Rightarrow> VolumeSelector option" where
  "vs_add_fnode hint f v = Option.bind (add_extents hint (fn_extents f) v) (vs_add_size hint (fn_size f) True)"

definition vs_sub_fnode :: "u64 \<Rightarrow> bluefs_fnode \<Rightarrow> VolumeSelector \<Rightarrow> VolumeSelector option" where
  "vs_sub_fnode hint f v = Option.bind (sub_extents hint (fn_extents f) v) (vs_sub_size hint (fn_size f) True)"

section \<open>Choice of a device\<close>

text \<open>SLOW data may use the part of the DB device that was never needed by the other levels.\<close>

definition db_room_for_slow :: "rocksdb_selector \<Rightarrow> bool" where
  "db_room_for_slow s \<longleftrightarrow>
     rs_db_avail4slow s > 0 \<and>
     (let max_db_use = cell (rs_max_usage s) BDEV_DB (RDB_LEVEL_LOG - RDB_LEVEL_FIRST) +
            cell (rs_max_usage s) BDEV_DB (RDB_LEVEL_WAL - RDB_LEVEL_FIRST) +
            cell (rs_max_usage s) BDEV_DB (RDB_LEVEL_DB - RDB_LEVEL_FIRST) +
            cell (rs_max_usage s) BDEV_SLOW (RDB_LEVEL_DB - RDB_LEVEL_FIRST);
          db_total = rs_l_totals s ! (RDB_LEVEL_DB - RDB_LEVEL_FIRST);
          avail = min (rs_db_avail4slow s) (if max_db_use < db_total then db_total - max_db_use else 0)
      in avail > cell (rs_usage s) BDEV_DB (RDB_LEVEL_SLOW - RDB_LEVEL_FIRST))"

fun vs_select_prefer_bdev :: "VolumeSelector \<Rightarrow> u64 \<Rightarrow> u8" where
  "vs_select_prefer_bdev (RocksDBBlueFSVolumeSelector s) h =
     (let level = unat (hint_to_level h)
      in if level = RDB_LEVEL_SLOW then of_nat (if db_room_for_slow s then BDEV_DB else BDEV_SLOW)
         else if level = RDB_LEVEL_LOG \<or> level = RDB_LEVEL_WAL then of_nat BDEV_WAL
         else of_nat BDEV_DB)"
| "vs_select_prefer_bdev _ h = ucast h"

fun vs_get_paths :: "VolumeSelector \<Rightarrow> bytes \<Rightarrow> (bytes \<times> u64) list" where
  "vs_get_paths (OriginalVolumeSelector s) base =
     [(base, os_db_total s), (base @ dot_slow, if os_slow_total s \<noteq> 0 then os_slow_total s else os_db_total s)]"
| "vs_get_paths (FitToFastVolumeSelector s) base = [(base, 1)]"
| "vs_get_paths (RocksDBBlueFSVolumeSelector s) base =
     (let db = rs_l_totals s ! (RDB_LEVEL_DB - RDB_LEVEL_FIRST); slow = rs_l_totals s ! (RDB_LEVEL_SLOW - RDB_LEVEL_FIRST)
      in [(base, db), (base @ dot_slow, if slow = 0 then db else slow)])"

definition original_avail :: "original_selector \<Rightarrow> nat \<Rightarrow> u64" where
  "original_avail s b = (if b = BDEV_WAL then os_wal_total s else if b = BDEV_DB then os_db_total s
     else if b = BDEV_SLOW then os_slow_total s else 0)"

fun vs_avail_by_bdev :: "VolumeSelector \<Rightarrow> nat \<Rightarrow> u64" where
  "vs_avail_by_bdev (RocksDBBlueFSVolumeSelector s) b =
     (if b \<ge> MAX_BDEV then 0
      else let total = rs_l_totals s ! (Suc b); used = cell (rs_usage s) b (LEVELS - 1)
           in if total > used then total - used else 0)"
| "vs_avail_by_bdev (OriginalVolumeSelector s) b = original_avail s b"
| "vs_avail_by_bdev (FitToFastVolumeSelector s) b = original_avail s b"

definition rocks_level_usage :: "rocksdb_selector \<Rightarrow> nat \<Rightarrow> nat \<Rightarrow> u64" where
  "rocks_level_usage s level b = cell (rs_usage s) b (level - RDB_LEVEL_FIRST)"

end
