(* ===== verification/Bluefs.thy ===== *)
theory Bluefs
  imports Volume_Selector Block_Device Avl_Allocator Interval_Set Crc32 "HOL-Library.List_Lexorder"
begin

text \<open>
  BlueFS (\<open>bluestore/bluefs.cc\<close>): state, devices, space, superblock, file writers and the log. A \<open>shared_ptr<File>\<close> is a
  position in the list \<open>bf_files\<close>, which only grows; directories have one owner and are values. A writer or
  reader is a value that the operations take and return. Locks and I/O contexts do nothing without other threads and
  asynchronous requests: of a context only its presence is kept. A null pointer or an index outside a vector that is used, a failed
  assertion and an exception that leaves the function are the result \<open>None\<close>.
\<close>

section \<open>State\<close>

record BlueFSConfig =
  bc_wal_device_path :: bytes
  bc_db_device_path :: bytes
  bc_slow_device_path :: bytes
  bc_alloc_size :: u64
  bc_shared_alloc_size :: u64
  bc_max_log_runway :: u64
  bc_min_log_runway :: u64
  bc_min_flush_size :: u64
  bc_buffered_io :: bool
  bc_sync_write :: bool
  bc_log_compact_min_size :: u64
  bc_log_compact_min_ratio :: real
  bc_max_prefetch :: u64

definition default_BlueFSConfig :: BlueFSConfig where
  "default_BlueFSConfig = \<lparr>bc_wal_device_path = [], bc_db_device_path = [], bc_slow_device_path = [],
     bc_alloc_size = 1048576, bc_shared_alloc_size = 1048576, bc_max_log_runway = 4194304, bc_min_log_runway = 1048576,
     bc_min_flush_size = 524288, bc_buffered_io = False, bc_sync_write = False,
     bc_log_compact_min_size = 16777216, bc_log_compact_min_ratio = 2, bc_max_prefetch = 1048576\<rparr>"

record File =
  fl_fnode :: bluefs_fnode
  fl_dirty_seq :: u64
  fl_refs :: int
  fl_locked :: bool
  fl_deleted :: bool
  fl_is_dirty :: bool
  fl_hint :: u64
  fl_num_readers :: int
  fl_num_writers :: int

definition new_File :: "u64 \<Rightarrow> File" where
  "new_File ino = \<lparr>fl_fnode = new_fnode ino 0 0, fl_dirty_seq = 0, fl_refs = 0, fl_locked = False, fl_deleted = False,
     fl_is_dirty = False, fl_hint = 0, fl_num_readers = 0, fl_num_writers = 0\<rparr>"

text \<open>\<open>fw_iocv\<close>: which contexts of the writer exist.\<close>

record FileWriter =
  fw_file :: nat
  fw_pos :: u64
  fw_buffer :: bytes
  fw_tail_block :: bytes
  fw_iocv :: "bool list"
  fw_dirty_devs :: "bool list"

definition fw_append :: "bytes \<Rightarrow> FileWriter \<Rightarrow> FileWriter" where
  "fw_append b w = w\<lparr>fw_buffer := fw_buffer w @ b\<rparr>"

definition fw_buffer_length :: "FileWriter \<Rightarrow> u64" where
  "fw_buffer_length w = of_nat (length (fw_buffer w))"

definition fw_effective_write_pos :: "FileWriter \<Rightarrow> u64" where
  "fw_effective_write_pos w = fw_pos w + fw_buffer_length w"

text \<open>
  The allocator of a shared context is the entry of \<open>bf_alloc\<close> at \<open>bf_shared_alloc_id\<close>; \<open>bf_bluefs_used\<close> is its
  counter. \<open>bf_file_map\<close> is a hash table; its order here is the order of insertion.
\<close>

record BlueFS =
  bf_cfg :: BlueFSConfig
  bf_bdev :: "BlockDevice option list"
  bf_block_reserved :: "u64 list"
  bf_alloc :: "AvlAllocator option list"
  bf_alloc_size :: "u64 list"
  bf_shared_alloc_id :: "nat option"
  bf_bluefs_used :: u64
  bf_super :: bluefs_super
  bf_vselector :: "VolumeSelector option"
  bf_dir_map :: "(bytes \<times> (bytes \<times> nat) list) list"
  bf_file_map :: "(u64 \<times> nat) list"
  bf_ino_last :: u64
  bf_log_seq_live :: u64
  bf_log_writer :: "FileWriter option"
  bf_log_t :: bluefs_transaction
  bf_seq_stable :: u64
  bf_dirty_seq_live :: u64
  bf_dirty_files :: "(u64 \<times> nat list) list"
  bf_pending_release :: "(u64 \<times> u64) list list"
  bf_log_is_compacting :: bool
  bf_files :: "File list"

definition new_BlueFS :: "BlueFSConfig \<Rightarrow> BlueFS" where
  "new_BlueFS cfg = \<lparr>bf_cfg = cfg, bf_bdev = replicate MAX_BDEV None, bf_block_reserved = replicate MAX_BDEV 0,
     bf_alloc = replicate MAX_BDEV None, bf_alloc_size = replicate MAX_BDEV 0, bf_shared_alloc_id = None,
     bf_bluefs_used = 0, bf_super = new_super, bf_vselector = None, bf_dir_map = [], bf_file_map = [], bf_ino_last = 0,
     bf_log_seq_live = 1, bf_log_writer = None, bf_log_t = new_transaction, bf_seq_stable = 0, bf_dirty_seq_live = 1,
     bf_dirty_files = [], bf_pending_release = replicate MAX_BDEV [], bf_log_is_compacting = False, bf_files = []\<rparr>"

text \<open>Access to the file objects.\<close>

definition the_file :: "nat \<Rightarrow> BlueFS \<Rightarrow> File" where
  "the_file r st = bf_files st ! r"

definition the_fnode :: "nat \<Rightarrow> BlueFS \<Rightarrow> bluefs_fnode" where
  "the_fnode r st = fl_fnode (the_file r st)"

definition upd_file :: "nat \<Rightarrow> (File \<Rightarrow> File) \<Rightarrow> BlueFS \<Rightarrow> BlueFS" where
  "upd_file r g st = st\<lparr>bf_files := (bf_files st)[r := g (the_file r st)]\<rparr>"

definition upd_fnode :: "nat \<Rightarrow> (bluefs_fnode \<Rightarrow> bluefs_fnode) \<Rightarrow> BlueFS \<Rightarrow> BlueFS" where
  "upd_fnode r g = upd_file r (\<lambda>f. f\<lparr>fl_fnode := g (fl_fnode f)\<rparr>)"

definition make_file :: "u64 \<Rightarrow> BlueFS \<Rightarrow> nat \<times> BlueFS" where
  "make_file ino st = (length (bf_files st), st\<lparr>bf_files := bf_files st @ [new_File ino]\<rparr>)"

text \<open>Calls on the volume selector: \<open>vselector_->f()\<close>, and the same behind \<open>if (vselector_)\<close>.\<close>

definition with_vs :: "(VolumeSelector \<Rightarrow> VolumeSelector option) \<Rightarrow> BlueFS \<Rightarrow> BlueFS option" where
  "with_vs g st = (case bf_vselector st of None \<Rightarrow> None | Some v \<Rightarrow> map_option (\<lambda>v'. st\<lparr>bf_vselector := Some v'\<rparr>) (g v))"

definition if_vs :: "(VolumeSelector \<Rightarrow> VolumeSelector option) \<Rightarrow> BlueFS \<Rightarrow> BlueFS option" where
  "if_vs g st = (if bf_vselector st = None then Some st else with_vs g st)"

section \<open>Devices and space\<close>

text \<open>
  The outcome of creating and opening the device is an argument, and so is what discarding all blocks does to it.
\<close>

definition bf_add_block_device ::
  "nat \<Rightarrow> int + BlockDevice \<Rightarrow> (BlockDevice \<Rightarrow> BlockDevice) option \<Rightarrow> u64 \<Rightarrow> (AvlAllocator option \<times> u64) option \<Rightarrow> BlueFS \<Rightarrow> int \<times> BlueFS" where
  "bf_add_block_device dv opened trim reserved shared st =
     (if dv \<ge> length (bf_bdev st) \<or> bf_bdev st ! dv \<noteq> None then (- EBUSY, st)
      else if shared \<noteq> None \<and> bf_shared_alloc_id st \<noteq> None then (- EBUSY, st)
      else case opened of
        Inl r \<Rightarrow> (r, st)
      | Inr b \<Rightarrow>
          if reserved > bd_size b then (- EINVAL, st)
          else let st1 = st\<lparr>bf_block_reserved := (bf_block_reserved st)[dv := reserved],
                            bf_bdev := (bf_bdev st)[dv := Some (case trim of None \<Rightarrow> b | Some discard \<Rightarrow> discard b)]\<rparr>
               in (0, case shared of
                        None \<Rightarrow> st1
                      | Some (a, used) \<Rightarrow> st1\<lparr>bf_alloc := (bf_alloc st1)[dv := a], bf_shared_alloc_id := Some dv,
                                              bf_bluefs_used := used\<rparr>))"

definition is_shared_alloc :: "nat \<Rightarrow> BlueFS \<Rightarrow> bool" where
  "is_shared_alloc dv st \<longleftrightarrow> bf_shared_alloc_id st = Some dv"

definition has_bdev :: "nat \<Rightarrow> BlueFS \<Rightarrow> bool" where
  "has_bdev dv st \<longleftrightarrow> dv < length (bf_bdev st) \<and> bf_bdev st ! dv \<noteq> None"

definition bf_get_block_device_size :: "nat \<Rightarrow> BlueFS \<Rightarrow> u64" where
  "bf_get_block_device_size dv st = (if has_bdev dv st then bd_size (the (bf_bdev st ! dv)) else 0)"

definition bf_get_total :: "nat \<Rightarrow> BlueFS \<Rightarrow> u64" where
  "bf_get_total dv st =
     (if \<not> has_bdev dv st then 0
      else let sz = bf_get_block_device_size dv st
           in if bf_block_reserved st ! dv \<ge> sz then 0 else sz - bf_block_reserved st ! dv)"

definition bf_get_free :: "nat \<Rightarrow> BlueFS \<Rightarrow> u64" where
  "bf_get_free dv st =
     (if \<not> has_bdev dv st then 0
      else if is_shared_alloc dv st
      then let total = bf_get_total dv st; used = bf_bluefs_used st in if total > used then total - used else 0
      else case bf_alloc st ! dv of None \<Rightarrow> 0 | Some a \<Rightarrow> avl_get_free a)"

definition bf_get_used_id :: "nat \<Rightarrow> BlueFS \<Rightarrow> u64" where
  "bf_get_used_id dv st =
     (if \<not> has_bdev dv st then 0
      else if is_shared_alloc dv st then bf_bluefs_used st
      else case bf_alloc st ! dv of None \<Rightarrow> 0 | Some a \<Rightarrow> bf_get_total dv st - avl_get_free a)"

definition bf_get_used :: "BlueFS \<Rightarrow> u64" where
  "bf_get_used st = (\<Sum>dv \<leftarrow> filter (\<lambda>dv. has_bdev dv st) [0 ..< MAX_BDEV]. bf_get_used_id dv st)"

definition SUPER_OFFSET :: u64 where "SUPER_OFFSET = 4096"
definition SUPER_LENGTH :: nat where "SUPER_LENGTH = 4096"
definition BLUEFS_LOG_INITIAL :: u64 where "BLUEFS_LOG_INITIAL = 4 * 1048576"

text \<open>One device of \<open>_init_alloc\<close>; \<open>junk\<close> is the undefined value of the allocator's \<open>end()\<close>.\<close>

definition init_alloc_one :: "u64 \<Rightarrow> nat \<Rightarrow> BlueFS \<Rightarrow> BlueFS option" where
  "init_alloc_one junk dv st =
     (if \<not> has_bdev dv st \<or> is_shared_alloc dv st then Some st
      else let a = new_AvlAllocator (bd_size (the (bf_bdev st ! dv))) (bc_alloc_size (bf_cfg st)) 0 junk;
               total = bf_get_total dv st;
               skip = (if dv = BDEV_DB then max (bf_block_reserved st ! dv) (SUPER_OFFSET + of_nat SUPER_LENGTH)
                       else bf_block_reserved st ! dv)
           in map_option (\<lambda>a'. st\<lparr>bf_alloc := (bf_alloc st)[dv := Some a']\<rparr>)
                (if total > skip then avl_init_add_free skip (total - skip) a else Some a))"

fun init_alloc_ids :: "u64 \<Rightarrow> nat list \<Rightarrow> BlueFS \<Rightarrow> BlueFS option" where
  "init_alloc_ids junk [] st = Some st"
| "init_alloc_ids junk (dv # dvs) st = Option.bind (init_alloc_one junk dv st) (init_alloc_ids junk dvs)"

definition bf_init_alloc :: "u64 \<Rightarrow> BlueFS \<Rightarrow> BlueFS option" where
  "bf_init_alloc junk st = init_alloc_ids junk [0 ..< length (bf_bdev st)] st"

definition bf_stop_alloc :: "BlueFS \<Rightarrow> BlueFS" where
  "bf_stop_alloc st = st\<lparr>bf_alloc := map (\<lambda>dv. if is_shared_alloc dv st then bf_alloc st ! dv else None)
     [0 ..< length (bf_alloc st)]\<rparr>"

text \<open>\<open>_allocate\<close> tries the devices from the preferred one on.\<close>

definition to_extents :: "nat \<Rightarrow> pextent list \<Rightarrow> bluefs_extent list" where
  "to_extents dv es = map (\<lambda>e. \<lparr>bx_offset = pe_offset e, bx_length = pe_length e, bx_bdev = of_nat dv\<rparr>) es"

fun allocate_on :: "nat list \<Rightarrow> u64 \<Rightarrow> u64 \<Rightarrow> bluefs_fnode \<Rightarrow> u64 option \<Rightarrow> BlueFS \<Rightarrow> (int \<times> bluefs_fnode \<times> u64 option \<times> BlueFS) option" where
  "allocate_on [] need unit node hint st = Some (- ENOSPC, node, hint, st)"
| "allocate_on (dv # dvs) need unit node hint st =
     (if \<not> has_bdev dv st \<or> (is_shared_alloc dv st \<and> bf_alloc st ! dv = None)
      then allocate_on dvs need unit node hint st
      else case bf_alloc st ! dv of
        None \<Rightarrow> None
      | Some a \<Rightarrow>
          case avl_allocate need unit 0 a of
            None \<Rightarrow> None
          | Some (alloc_len, extents, a') \<Rightarrow>
              let st1 = st\<lparr>bf_alloc := (bf_alloc st)[dv := Some a']\<rparr>
              in if alloc_len \<le> 0 then allocate_on dvs need unit node hint st1
                 else Some (0, claim_extents (to_extents dv extents) node,
                        map_option (\<lambda>_. pe_offset (last extents) + ucast (pe_length (last extents))) hint,
                        if is_shared_alloc dv st then st1\<lparr>bf_bluefs_used := bf_bluefs_used st1 + of_int alloc_len\<rparr> else st1))"

definition bf_allocate :: "u8 \<Rightarrow> u64 \<Rightarrow> u64 \<Rightarrow> bluefs_fnode \<Rightarrow> u64 option \<Rightarrow> BlueFS \<Rightarrow> (int \<times> bluefs_fnode \<times> u64 option \<times> BlueFS) option" where
  "bf_allocate prefer_bdev len alloc_unit node hint st =
     (if alloc_unit = 0 \<and> unat prefer_bdev \<ge> length (bf_alloc_size st) then None
      else let unit = (if alloc_unit \<noteq> 0 then alloc_unit
                       else if bf_alloc_size st ! unat prefer_bdev \<noteq> 0 then bf_alloc_size st ! unat prefer_bdev
                       else bc_alloc_size (bf_cfg st))
           in allocate_on [unat prefer_bdev ..< length (bf_bdev st)] (p2roundup len unit) unit node hint st)"

text \<open>\<open>_allocate\<close> on the node of a file object.\<close>

definition allocate_file :: "u8 \<Rightarrow> u64 \<Rightarrow> u64 \<Rightarrow> nat \<Rightarrow> BlueFS \<Rightarrow> (int \<times> BlueFS) option" where
  "allocate_file prefer_bdev len alloc_unit r st =
     map_option (\<lambda>(res, node, _, st'). (res, upd_fnode r (\<lambda>_. node) st'))
       (bf_allocate prefer_bdev len alloc_unit (the_fnode r st) None st)"

section \<open>Superblock\<close>

text \<open>The copy \<open>tmp\<close> is made by the copy constructor.\<close>

definition super_image :: "bluefs_super \<Rightarrow> bytes" where
  "super_image s = (let bl = enc_super s in bl @ enc_u32 (calc_crc32 (Some bl) (length bl) (- 1)))"

definition bf_write_super :: "nat \<Rightarrow> BlueFS \<Rightarrow> int \<times> BlueFS" where
  "bf_write_super dev st =
     (if \<not> has_bdev dev st then (- ENODEV, st)
      else let tmp = (bf_super st)\<lparr>su_log_fnode := copy_fnode (su_log_fnode (bf_super st)), su_version := su_version (bf_super st) + 1\<rparr>;
               bl = super_image tmp
           in if length bl > SUPER_LENGTH then (- EIO, st)
              else let (r, d) = dev_write SUPER_OFFSET (bl @ replicate (SUPER_LENGTH - length bl) 0) False (the (bf_bdev st ! dev));
                       st1 = st\<lparr>bf_bdev := (bf_bdev st)[dev := Some d]\<rparr>
                   in if r < 0 then (r, st1)
                      else (0, st1\<lparr>bf_super := (bf_super st)\<lparr>su_version := su_version tmp\<rparr>\<rparr>))"

text \<open>
  The superblock is decoded in place: it is there also when the checksum is wrong. What a decoder stored before it
  threw is not tracked, the old superblock stays. Only \<open>malformed_input\<close> is caught.
\<close>

definition decode_super :: "bytes \<Rightarrow> BlueFS \<Rightarrow> (int \<times> BlueFS) option" where
  "decode_super bl st =
     (case dec_super bl of
        Inl End_Of_Buffer \<Rightarrow> None
      | Inl Malformed_Input \<Rightarrow> Some (- EIO, st)
      | Inr (s, p) \<Rightarrow>
          let st1 = st\<lparr>bf_super := s\<rparr>; t = take (length bl - length p) bl
          in case dec_u32 p of
               Inl _ \<Rightarrow> None
             | Inr (expected_crc, _) \<Rightarrow> Some (if calc_crc32 (Some t) (length t) (- 1) \<noteq> expected_crc then - EIO else 0, st1))"

definition bf_open_super :: "BlueFS \<Rightarrow> (int \<times> BlueFS) option" where
  "bf_open_super st =
     (if \<not> has_bdev BDEV_DB st then Some (- ENODEV, st)
      else let (r, bl, d) = dev_read SUPER_OFFSET (of_nat SUPER_LENGTH) False (the (bf_bdev st ! BDEV_DB));
               st1 = st\<lparr>bf_bdev := (bf_bdev st)[BDEV_DB := Some d]\<rparr>
           in if r < 0 then Some (r, st1) else decode_super bl st1)"

section \<open>Writers\<close>

definition bf_get_file :: "u64 \<Rightarrow> BlueFS \<Rightarrow> nat \<times> BlueFS" where
  "bf_get_file ino st =
     (case map_of (bf_file_map st) ino of
        Some r \<Rightarrow> (r, st)
      | None \<Rightarrow> let (r, st1) = make_file ino st in (r, st1\<lparr>bf_file_map := AList.update ino r (bf_file_map st1)\<rparr>))"

definition bf_create_writer :: "nat \<Rightarrow> BlueFS \<Rightarrow> FileWriter \<times> BlueFS" where
  "bf_create_writer r st =
     (\<lparr>fw_file = r, fw_pos = fn_size (the_fnode r st), fw_buffer = [], fw_tail_block = [],
       fw_iocv = map (\<lambda>dv. has_bdev dv st) [0 ..< MAX_BDEV], fw_dirty_devs = replicate MAX_BDEV False\<rparr>,
      upd_file r (\<lambda>f. f\<lparr>fl_num_writers := fl_num_writers f + 1\<rparr>) st)"

text \<open>\<open>_drain_writer\<close> and \<open>delete\<close>: of a closed writer only the count of the file is left.\<close>

definition bf_close_writer_raw :: "FileWriter \<Rightarrow> BlueFS \<Rightarrow> BlueFS" where
  "bf_close_writer_raw w = upd_file (fw_file w) (\<lambda>f. f\<lparr>fl_num_writers := fl_num_writers f - 1\<rparr>)"

text \<open>\<open>_flush_bdev\<close> ignores the result of \<open>flush\<close>.\<close>

definition flush_one :: "nat \<Rightarrow> FileWriter \<times> BlueFS \<Rightarrow> FileWriter \<times> BlueFS" where
  "flush_one dv ws =
     (let (w, st) = ws
      in if fw_dirty_devs w ! dv \<and> fw_iocv w ! dv
         then (w\<lparr>fw_dirty_devs := (fw_dirty_devs w)[dv := False]\<rparr>,
               if has_bdev dv st
               then st\<lparr>bf_bdev := (bf_bdev st)[dv := Some (snd (dev_flush (the (bf_bdev st ! dv))))]\<rparr> else st)
         else (w, st))"

definition bf_flush_bdev :: "FileWriter \<Rightarrow> BlueFS \<Rightarrow> FileWriter \<times> BlueFS" where
  "bf_flush_bdev w st = fold flush_one [0 ..< MAX_BDEV] (w, st)"

definition bf_flush_special :: "FileWriter \<Rightarrow> FileWriter" where
  "bf_flush_special w =
     w\<lparr>fw_dirty_devs := map (\<lambda>dv. fw_dirty_devs w ! dv \<and> \<not> fw_iocv w ! dv) [0 ..< MAX_BDEV]\<rparr>"

text \<open>\<open>FileWriter::flush_buffer\<close>, which no other function calls.\<close>

definition fw_flush_buffer :: "u64 \<Rightarrow> FileWriter \<Rightarrow> bytes \<times> FileWriter" where
  "fw_flush_buffer bmask w =
     (let bl = fw_tail_block w @ fw_buffer w; tail = unat (of_nat (length bl) AND NOT bmask)
      in (take (length bl - tail) bl, w\<lparr>fw_buffer := [], fw_tail_block := drop (length bl - tail) bl\<rparr>))"

text \<open>
  The loop of \<open>_flush_data\<close> and \<open>_flush_log_data\<close>: the buffer goes to the extents from the one that was sought. It
  ends, without an error, also when the extents end first.
\<close>

fun write_extents ::
  "bool \<Rightarrow> bluefs_extent list \<Rightarrow> u64 \<Rightarrow> bytes \<Rightarrow> BlockDevice option list \<Rightarrow> bool list \<Rightarrow> (int \<times> BlockDevice option list \<times> bool list) option" where
  "write_extents buffered [] x_off bl devs dirty = Some (0, devs, dirty)"
| "write_extents buffered (e # es) x_off bl devs dirty =
     (if bl = [] then Some (0, devs, dirty)
      else let x_len = min (unat (bx_len e - x_off)) (length bl); b = unat (bx_bdev e)
           in if b \<ge> length devs then None
              else case devs ! b of
                None \<Rightarrow> None
              | Some d \<Rightarrow>
                  let (r, d') = dev_write (bx_offset e + x_off) (take x_len bl) buffered d
                  in if r < 0 then Some (r, devs[b := Some d'], dirty)
                     else write_extents buffered es 0 (drop x_len bl) (devs[b := Some d']) (dirty[b := True]))"

definition bf_flush_data :: "FileWriter \<Rightarrow> u64 \<Rightarrow> u64 \<Rightarrow> bool \<Rightarrow> BlueFS \<Rightarrow> (int \<times> FileWriter \<times> BlueFS) option" where
  "bf_flush_data w offset len buffered st =
     (if len = 0 then Some (0, w, st)
      else let node = the_fnode (fw_file w) st
           in case fn_seek offset node of
                None \<Rightarrow> Some (- ENOENT, w, st)
              | Some (i, x_off) \<Rightarrow>
                  case write_extents buffered (drop i (fn_extents node)) x_off (fw_buffer w) (bf_bdev st) (fw_dirty_devs w) of
                    None \<Rightarrow> None
                  | Some (r, devs, dirty) \<Rightarrow>
                      let w1 = w\<lparr>fw_dirty_devs := dirty\<rparr>; st1 = st\<lparr>bf_bdev := devs\<rparr>
                      in if r < 0 then Some (r, w1, st1)
                         else let w2 = w1\<lparr>fw_pos := fw_pos w + len\<rparr>
                              in Some (0, w2, upd_fnode (fw_file w) (\<lambda>n. n\<lparr>fn_size := max (fn_size n) (fw_pos w2)\<rparr>) st1))"

text \<open>\<open>_flush_range_F\<close>: first the space for the range, then its size, then the data.\<close>

definition grow_space :: "nat \<Rightarrow> u64 \<Rightarrow> BlueFS \<Rightarrow> (int \<times> BlueFS) option" where
  "grow_space r need st =
     (let allocated = fn_allocated (the_fnode r st)
      in if allocated < need
         then case bf_vselector st of
                None \<Rightarrow> None
              | Some v \<Rightarrow>
                  Option.bind (allocate_file (vs_select_prefer_bdev v (fl_hint (the_file r st))) (need - allocated) 0 r st)
                    (\<lambda>(res, st1). Some (res, if res < 0 then st1 else upd_file r (\<lambda>f. f\<lparr>fl_is_dirty := True\<rparr>) st1))
         else Some (0, st))"

definition grow_size :: "nat \<Rightarrow> u64 \<Rightarrow> BlueFS \<Rightarrow> BlueFS option" where
  "grow_size r need st =
     (let sz = fn_size (the_fnode r st); hint = fl_hint (the_file r st)
      in if sz < need
         then map_option (upd_file r (\<lambda>f. f\<lparr>fl_fnode := (fl_fnode f)\<lparr>fn_size := need\<rparr>, fl_is_dirty := True\<rparr>))
                (if hint \<noteq> 0 then if_vs (vs_add_size hint (need - sz) False) st else Some st)
         else Some st)"

definition bf_flush_range_F :: "FileWriter \<Rightarrow> u64 \<Rightarrow> u64 \<Rightarrow> BlueFS \<Rightarrow> (int \<times> FileWriter \<times> BlueFS) option" where
  "bf_flush_range_F w offset0 len0 st =
     (if fl_deleted (the_file (fw_file w) st) \<or> offset0 + len0 \<le> fw_pos w then Some (0, w, st)
      else let len = (if offset0 < fw_pos w then len0 - (fw_pos w - offset0) else len0);
               offset = (if offset0 < fw_pos w then fw_pos w else offset0)
           in Option.bind (grow_space (fw_file w) (offset + len) st) (\<lambda>(r, st1).
                if r < 0 then Some (r, w, st1)
                else Option.bind (grow_size (fw_file w) (offset + len) st1) (\<lambda>st2.
                  bf_flush_data w offset len (bc_buffered_io (bf_cfg st2)) st2)))"

definition bf_flush_F :: "FileWriter \<Rightarrow> bool \<Rightarrow> BlueFS \<Rightarrow> (int \<times> FileWriter \<times> BlueFS) option" where
  "bf_flush_F w force st =
     (let len = fw_buffer_length w
      in if len = 0 \<or> (\<not> force \<and> len < bc_min_flush_size (bf_cfg st)) then Some (0, w, st)
         else map_option (\<lambda>(r, w1, st1). (r, if r = 0 then w1\<lparr>fw_buffer := []\<rparr> else w1, st1))
                (bf_flush_range_F w (fw_pos w) len st))"

definition bf_flush :: "FileWriter \<Rightarrow> bool \<Rightarrow> BlueFS \<Rightarrow> (int \<times> FileWriter \<times> BlueFS) option" where
  "bf_flush = bf_flush_F"

definition bf_append_try_flush :: "FileWriter \<Rightarrow> bytes \<Rightarrow> BlueFS \<Rightarrow> (int \<times> FileWriter \<times> BlueFS) option" where
  "bf_append_try_flush w buf st =
     (let w1 = fw_append buf w
      in if fw_buffer_length w1 \<ge> bc_min_flush_size (bf_cfg st) then bf_flush_F w1 False st else Some (0, w1, st))"

definition bf_flush_range :: "FileWriter \<Rightarrow> u64 \<Rightarrow> u64 \<Rightarrow> BlueFS \<Rightarrow> (FileWriter \<times> BlueFS) option" where
  "bf_flush_range w offset len st = map_option snd (bf_flush_range_F w offset len st)"

text \<open>After a successful \<open>close_writer\<close> the writer is gone.\<close>

definition bf_close_writer :: "FileWriter \<Rightarrow> BlueFS \<Rightarrow> (int \<times> FileWriter option \<times> BlueFS) option" where
  "bf_close_writer w st =
     map_option (\<lambda>(r, w1, st1).
         if r < 0 then (r, Some w1, st1)
         else let (w2, st2) = bf_flush_bdev w1 st1 in (0, None, bf_close_writer_raw w2 st2))
       (bf_flush_F w True st)"

section \<open>Log\<close>

text \<open>\<open>p2roundup\<close> at the width of \<open>bufferlist::length\<close>, and the zeros that fill a transaction up to whole blocks.\<close>

definition roundup32 :: "u32 \<Rightarrow> u32 \<Rightarrow> u32" where
  "roundup32 x align = - ((- x) AND (- align))"

definition pad_blocks :: "u32 \<Rightarrow> bytes \<Rightarrow> bytes" where
  "pad_blocks block_size bl =
     (let n = of_nat (length bl) in bl @ replicate (unat (roundup32 n block_size - n)) 0)"

definition bf_flush_log_data :: "bytes \<Rightarrow> BlueFS \<Rightarrow> (int \<times> BlueFS) option" where
  "bf_flush_log_data bl st =
     (case bf_log_writer st of
        None \<Rightarrow> None
      | Some w \<Rightarrow>
          let node = the_fnode (fw_file w) st;
              (es, x_off) = (case fn_seek (fw_pos w) node of None \<Rightarrow> ([], 0) | Some (i, x) \<Rightarrow> (drop i (fn_extents node), x))
          in case write_extents False es x_off bl (bf_bdev st) (fw_dirty_devs w) of
               None \<Rightarrow> None
             | Some (r, devs, dirty) \<Rightarrow>
                 let st1 = st\<lparr>bf_bdev := devs\<rparr>
                 in if r < 0 then Some (r, st1\<lparr>bf_log_writer := Some (w\<lparr>fw_dirty_devs := dirty\<rparr>)\<rparr>)
                    else let pos = fw_pos w + of_nat (length bl)
                         in Some (0, upd_fnode (fw_file w) (\<lambda>n. if pos > fn_size n then n\<lparr>fn_size := pos\<rparr> else n)
                              (st1\<lparr>bf_log_writer := Some (w\<lparr>fw_dirty_devs := dirty, fw_pos := pos\<rparr>)\<rparr>)))"

text \<open>The log writer's \<open>_flush_bdev\<close>, and \<open>buffer.clear()\<close>.\<close>

definition flush_log_bdev :: "BlueFS \<Rightarrow> BlueFS" where
  "flush_log_bdev st =
     (case bf_log_writer st of
        None \<Rightarrow> st
      | Some w \<Rightarrow> let (w', st') = bf_flush_bdev w st in st'\<lparr>bf_log_writer := Some w'\<rparr>)"

definition clear_log_buffer :: "BlueFS \<Rightarrow> BlueFS" where
  "clear_log_buffer st = st\<lparr>bf_log_writer := map_option (\<lambda>w. w\<lparr>fw_buffer := []\<rparr>) (bf_log_writer st)\<rparr>"

text \<open>Logging the delta or the whole of a file node also resets the delta.\<close>

definition log_update_inc :: "nat \<Rightarrow> BlueFS \<Rightarrow> BlueFS" where
  "log_update_inc r st =
     (let (n, t) = op_file_update_inc (the_fnode r st) (bf_log_t st) in upd_fnode r (\<lambda>_. n) (st\<lparr>bf_log_t := t\<rparr>))"

definition log_update :: "nat \<Rightarrow> BlueFS \<Rightarrow> BlueFS" where
  "log_update r st =
     (let (n, t) = op_file_update (the_fnode r st) (bf_log_t st) in upd_fnode r (\<lambda>_. n) (st\<lparr>bf_log_t := t\<rparr>))"

definition bf_signal_dirty_to_log :: "FileWriter \<Rightarrow> BlueFS \<Rightarrow> BlueFS" where
  "bf_signal_dirty_to_log w st =
     (let r = fw_file w; ds = fl_dirty_seq (the_file r st); live = bf_dirty_seq_live st;
          st1 = (if ds \<le> bf_seq_stable st \<or> ds = 0
                 then upd_file r (\<lambda>f. f\<lparr>fl_dirty_seq := live\<rparr>)
                        (st\<lparr>bf_dirty_files := om_set live ((case map_of (bf_dirty_files st) live of None \<Rightarrow> [] | Some rs \<Rightarrow> rs) @ [r])
                              (bf_dirty_files st)\<rparr>)
                 else st)
      in upd_file r (\<lambda>f. f\<lparr>fl_is_dirty := False\<rparr>) st1)"

definition bf_consume_dirty :: "u64 \<Rightarrow> BlueFS \<Rightarrow> BlueFS" where
  "bf_consume_dirty seq st =
     (case map_of (bf_dirty_files st) seq of None \<Rightarrow> st | Some rs \<Rightarrow> fold log_update_inc rs st)"

definition bf_maybe_extend_log :: "BlueFS \<Rightarrow> (int \<times> BlueFS) option" where
  "bf_maybe_extend_log st =
     (case bf_log_writer st of
        None \<Rightarrow> None
      | Some w \<Rightarrow>
          let cfg = bf_cfg st
          in if fw_pos w + bc_min_log_runway cfg < fn_allocated (the_fnode (fw_file w) st) then Some (0, st)
             else case bf_vselector st of
               None \<Rightarrow> None
             | Some v \<Rightarrow>
                 Option.bind (allocate_file (vs_select_prefer_bdev v (vs_hint_for_log v))
                     (p2roundup (max (bc_min_log_runway cfg) (bc_max_log_runway cfg)) (bc_alloc_size cfg)) (bc_alloc_size cfg) (fw_file w) st)
                   (\<lambda>(r, st1). Some (if r < 0 then (r, st1) else (0, log_update_inc (fw_file w) st1))))"

text \<open>Space of a shared allocator is not given back to it, only counted.\<close>

fun release_pending :: "nat list \<Rightarrow> BlueFS \<Rightarrow> BlueFS option" where
  "release_pending [] st = Some st"
| "release_pending (i # is) st =
     (let pending = bf_pending_release st ! i; cleared = st\<lparr>bf_pending_release := (bf_pending_release st)[i := []]\<rparr>
      in if pending = [] then release_pending is st
         else if is_shared_alloc i st
         then release_pending is (cleared\<lparr>bf_bluefs_used := bf_bluefs_used st - (\<Sum>p \<leftarrow> pending. snd p)\<rparr>)
         else case bf_alloc st ! i of
           None \<Rightarrow> release_pending is cleared
         | Some a \<Rightarrow>
             Option.bind (avl_release (release_set (map (\<lambda>(off, len). \<lparr>pe_offset = off, pe_length = ucast len\<rparr>) pending)) a)
               (\<lambda>a'. release_pending is (cleared\<lparr>bf_alloc := (bf_alloc st)[i := Some a']\<rparr>)))"

text \<open>What \<open>_flush_and_sync_log\<close> does once the transaction is on the device.\<close>

definition settle_dirty :: "u64 \<Rightarrow> BlueFS \<Rightarrow> BlueFS" where
  "settle_dirty seq st =
     (let st1 = st\<lparr>bf_seq_stable := seq\<rparr>
      in case map_of (bf_dirty_files st) seq of
           None \<Rightarrow> st1
         | Some rs \<Rightarrow> (fold (\<lambda>r. upd_file r (\<lambda>f. f\<lparr>fl_dirty_seq := 0\<rparr>)) rs st1)\<lparr>bf_dirty_files := om_erase seq (bf_dirty_files st)\<rparr>)"

definition write_transaction :: "u64 \<Rightarrow> BlueFS \<Rightarrow> (int \<times> BlueFS) option" where
  "write_transaction seq st =
     (let t = \<lparr>tx_uuid = su_uuid (bf_super st), tx_seq = seq, tx_op_bl = tx_op_bl (bf_log_t st)\<rparr>;
          st1 = st\<lparr>bf_log_t := (bf_log_t st)\<lparr>tx_op_bl := [], tx_seq := bf_log_seq_live st\<rparr>\<rparr>
      in bf_flush_log_data (pad_blocks (su_block_size (bf_super st)) (enc_transaction t)) st1)"

definition bf_flush_and_sync_log :: "u64 \<Rightarrow> BlueFS \<Rightarrow> (int \<times> BlueFS) option" where
  "bf_flush_and_sync_log want_seq st =
     (if want_seq \<noteq> 0 \<and> want_seq \<le> bf_seq_stable st then Some (0, st)
      else if want_seq \<noteq> 0 \<and> \<not> want_seq \<le> bf_dirty_seq_live st then None
      else let seq = bf_log_seq_live st;
               st1 = st\<lparr>bf_log_seq_live := seq + 1, bf_dirty_seq_live := seq + 1\<rparr>
           in Option.bind (bf_maybe_extend_log (bf_consume_dirty seq st1)) (\<lambda>(r, st2).
                if r < 0 then Some (r, st2)
                else Option.bind (write_transaction seq st2) (\<lambda>(r, st3).
                  if r < 0 then Some (r, st3)
                  else map_option (Pair 0)
                    (release_pending [0 ..< length (bf_pending_release st3)]
                      (settle_dirty seq (clear_log_buffer (flush_log_bdev st3)))))))"

definition bf_fsync :: "FileWriter \<Rightarrow> BlueFS \<Rightarrow> (int \<times> FileWriter \<times> BlueFS) option" where
  "bf_fsync w st =
     Option.bind (bf_flush_F w True st) (\<lambda>(r, w1, st1).
       if r < 0 then Some (r, w1, st1)
       else let (w2, st2) = bf_flush_bdev w1 st1;
                st3 = (if fl_is_dirty (the_file (fw_file w2) st2)
                       then upd_file (fw_file w2) (\<lambda>f. f\<lparr>fl_is_dirty := False\<rparr>) (bf_signal_dirty_to_log w2 st2)
                       else st2);
                old_dirty_seq = fl_dirty_seq (the_file (fw_file w2) st3)
            in if bf_seq_stable st3 < old_dirty_seq
               then map_option (\<lambda>(r, st4). (if r < 0 then r else 0, w2, st4)) (bf_flush_and_sync_log old_dirty_seq st3)
               else Some (0, w2, st3))"

end
