(* ===== verification/Bluefs_Types_Correct.thy ===== *)
theory Bluefs_Types_Correct
  imports Bluefs_Types
begin

text \<open>
  File nodes: \<open>fnode_ok\<close> ties the extents to their index and total, \<open>seek\<close> is exact on such nodes, and a delta
  replayed on the committed part of a node gives the node back. Encodings are read back as written.
\<close>

section \<open>Well-formed file nodes\<close>

definition ext_total :: "bluefs_extent list \<Rightarrow> nat" where
  "ext_total es = (\<Sum>e \<leftarrow> es. unat (bx_length e))"

definition bx_ok :: "bluefs_extent \<Rightarrow> bool" where
  "bx_ok e \<longleftrightarrow> bx_length e \<noteq> 0 \<and> bx_len e < 0xffffffff"

text \<open>Neighbours that could be merged are merged.\<close>

definition bxs_ok :: "bluefs_extent list \<Rightarrow> bool" where
  "bxs_ok es \<longleftrightarrow> (\<forall>e \<in> set es. bx_ok e) \<and> ext_total es < 2 ^ 63 \<and> successively (\<lambda>a b. \<not> continues a b) es"

definition fnode_ok :: "bluefs_fnode \<Rightarrow> bool" where
  "fnode_ok f \<longleftrightarrow> bxs_ok (fn_extents f) \<and> index_from 0 (fn_extents f) = (fn_extents_index f, fn_allocated f) \<and>
     fn_allocated_committed f \<le> fn_allocated f"

lemma unat_bx_len [simp]: "unat (bx_len e) = unat (bx_length e)"
  by (simp add: bx_len_def)

lemma ext_total_simps [simp]:
  "ext_total [] = 0" "ext_total (e # es) = unat (bx_length e) + ext_total es"
  "ext_total (as @ bs) = ext_total as + ext_total bs"
  by (simp_all add: ext_total_def)

lemma index_from_append:
  "index_from a (es @ [e]) = (fst (index_from a es) @ [snd (index_from a es)], snd (index_from a es) + bx_len e)"
  by (induction a es rule: index_from.induct) (simp_all add: Let_def case_prod_unfold)

lemma length_index_from [simp]: "length (fst (index_from a es)) = length es"
  by (induction a es rule: index_from.induct) (simp_all add: Let_def case_prod_unfold)

lemma index_from_total:
  "unat a + ext_total es < 2 ^ 64 \<Longrightarrow> unat (snd (index_from a es)) = unat a + ext_total es"
proof (induction a es rule: index_from.induct)
  case (2 a e es)
  have "unat (a + bx_len e) = unat a + unat (bx_length e)"
    using 2(2) unat_add_nowrap [of a "bx_len e"] by simp
  then show ?case using 2 by (simp add: Let_def case_prod_unfold)
qed simp

lemma index_from_nth:
  "unat a + ext_total es < 2 ^ 64 \<Longrightarrow> i < length es \<Longrightarrow>
   unat (fst (index_from a es) ! i) = unat a + ext_total (take i es)"
proof (induction a es arbitrary: i rule: index_from.induct)
  case (2 a e es)
  have "unat (a + bx_len e) = unat a + unat (bx_length e)"
    using 2(2) unat_add_nowrap [of a "bx_len e"] by simp
  then show ?case using 2 by (cases i) (simp_all add: Let_def case_prod_unfold)
qed simp

lemma fnode_total: "fnode_ok f \<Longrightarrow> unat (fn_allocated f) = ext_total (fn_extents f)"
  using index_from_total [of 0 "fn_extents f"] by (simp add: fnode_ok_def bxs_ok_def)

lemma fnode_index:
  assumes "fnode_ok f"
  shows "length (fn_extents_index f) = length (fn_extents f)"
    "i < length (fn_extents f) \<Longrightarrow> unat (fn_extents_index f ! i) = ext_total (take i (fn_extents f))"
proof -
  have i: "index_from 0 (fn_extents f) = (fn_extents_index f, fn_allocated f)" and t: "ext_total (fn_extents f) < 2 ^ 63"
    using assms by (simp_all add: fnode_ok_def bxs_ok_def)
  show "length (fn_extents_index f) = length (fn_extents f)" using length_index_from [of 0 "fn_extents f"] by (simp add: i)
  show "i < length (fn_extents f) \<Longrightarrow> unat (fn_extents_index f ! i) = ext_total (take i (fn_extents f))"
    using index_from_nth [of 0 "fn_extents f" i] t by (simp add: i)
qed

section \<open>Seeking\<close>

lemma takeWhile_upto:
  assumes "k \<le> length xs" "\<forall>i < k. P (xs ! i)" "k < length xs \<Longrightarrow> \<not> P (xs ! k)"
  shows "length (takeWhile P xs) = k"
proof -
  have "takeWhile P (take k xs @ drop k xs) = take k xs @ takeWhile P (drop k xs)"
    using assms(1,2) by (intro takeWhile_append2) (auto simp: in_set_conv_nth)
  moreover have "takeWhile P (drop k xs) = []"
    using assms(3) by (cases "k < length xs") (auto simp: Cons_nth_drop_Suc [symmetric])
  ultimately show ?thesis using assms(1) by simp
qed

lemma ext_total_take: "i \<le> j \<Longrightarrow> ext_total (take i es) \<le> ext_total (take j es)"
  using take_add [of i "j - i" es] by simp

text \<open>The extent that holds a byte.\<close>

lemma extent_at:
  assumes "n < ext_total es"
  shows "\<exists>i < length es. ext_total (take i es) \<le> n \<and> n < ext_total (take (Suc i) es)"
  using assms
proof (induction es arbitrary: n)
  case (Cons e es)
  show ?case
  proof (cases "n < unat (bx_length e)")
    case True
    then show ?thesis by (intro exI [of _ 0]) simp
  next
    case False
    then have "n - unat (bx_length e) < ext_total es" using Cons.prems by simp
    from Cons.IH [OF this] obtain i where "i < length es" "ext_total (take i es) \<le> n - unat (bx_length e)"
      "n - unat (bx_length e) < ext_total (take (Suc i) es)" by blast
    then show ?thesis using False by (intro exI [of _ "Suc i"]) (simp, linarith)
  qed
qed simp

text \<open>
  \<open>seek\<close> is exact: below the allocated size it returns the extent that holds the byte and the offset inside
  that extent, and from there on \<open>end()\<close>.
\<close>

lemma fnode_seek_exact:
  assumes "fnode_ok f"
  shows "case fn_seek off f of
      None \<Rightarrow> fn_allocated f \<le> off
    | Some (i, x) \<Rightarrow> off < fn_allocated f \<and> i < length (fn_extents f) \<and> unat x < unat (bx_length (fn_extents f ! i)) \<and>
        unat off = ext_total (take i (fn_extents f)) + unat x"
proof (cases "off < fn_allocated f")
  case False
  then have "fn_seek off f = None" by (simp add: fn_seek_def not_less)
  then show ?thesis using False by simp
next
  case True
  then have "unat off < ext_total (fn_extents f)" using fnode_total [OF assms] by (simp add: word_less_nat_alt)
  from extent_at [OF this] obtain i where i: "i < length (fn_extents f)" "ext_total (take i (fn_extents f)) \<le> unat off"
    "unat off < ext_total (take (Suc i) (fn_extents f))" by blast
  note I = fnode_index [OF assms]
  have ix: "fn_extents_index f ! j \<le> off \<longleftrightarrow> j \<le> i" if "j < length (fn_extents f)" for j
  proof -
    have "ext_total (take j (fn_extents f)) \<le> unat off \<longleftrightarrow> j \<le> i"
    proof (cases "j \<le> i")
      case le: True
      then show ?thesis using ext_total_take [OF le, of "fn_extents f"] i(2) by simp
    next
      case gt: False
      then show ?thesis using ext_total_take [of "Suc i" j "fn_extents f"] i(3) by simp
    qed
    then show ?thesis using I(2) [OF that] by (simp add: word_le_nat_alt)
  qed
  have k: "length (takeWhile (\<lambda>j. j \<le> off) (fn_extents_index f)) = Suc i"
    by (rule takeWhile_upto) (use i(1) I(1) ix in auto)
  let ?x = "off - fn_extents_index f ! i"
  have "unat ?x = unat off - ext_total (take i (fn_extents f))"
    using I(2) [OF i(1)] ix [OF i(1)] by (simp add: unat_sub_le)
  then have x: "unat off = ext_total (take i (fn_extents f)) + unat ?x" using i(2) by simp
  have "ext_total (take (Suc i) (fn_extents f)) = ext_total (take i (fn_extents f)) + unat (bx_length (fn_extents f ! i))"
    using i(1) by (simp add: take_Suc_conv_app_nth)
  then have "unat ?x < unat (bx_length (fn_extents f ! i))" using x i(3) by simp
  moreover have "fn_seek off f = Some (i, ?x)" using True i(1) k by (auto simp: fn_seek_def)
  ultimately show ?thesis using True i(1) x by simp
qed

section \<open>Appending\<close>

text \<open>Appending what is not a continuation, and growing the last extent.\<close>

lemma append_new:
  "fn_extents f = [] \<or> \<not> continues (last (fn_extents f)) e \<Longrightarrow>
   append_extent e f = f\<lparr>fn_extents_index := fn_extents_index f @ [fn_allocated f], fn_extents := fn_extents f @ [e],
     fn_allocated := fn_allocated f + bx_len e\<rparr>"
  by (auto simp: append_extent_def)

lemma append_merge:
  "fn_extents f = es @ [l] \<Longrightarrow> continues l e \<Longrightarrow>
   append_extent e f = f\<lparr>fn_extents := es @ [l\<lparr>bx_length := bx_length l + bx_length e\<rparr>], fn_allocated := fn_allocated f + bx_len e\<rparr>"
  by (simp add: append_extent_def)

lemma append_index:
  assumes "index_from 0 (fn_extents f) = (fn_extents_index f, fn_allocated f)"
  shows "index_from 0 (fn_extents (append_extent e f)) = (fn_extents_index (append_extent e f), fn_allocated (append_extent e f))"
proof (cases "fn_extents f \<noteq> [] \<and> continues (last (fn_extents f)) e")
  case False
  then show ?thesis using assms by (subst (1 2 3) append_new) (auto simp: index_from_append)
next
  case True
  then obtain es l where l: "fn_extents f = es @ [l]" by (metis append_butlast_last_id)
  with True have c: "continues l e" by simp
  have "unat (bx_len l) + unat (bx_len e) < 8589934592" using unat_lt_u32 [of "bx_length l"] unat_lt_u32 [of "bx_length e"]
    unfolding unat_bx_len by linarith
  then have "unat (bx_len l + bx_len e) = unat (bx_length l) + unat (bx_length e)"
    by (subst unat_add_nowrap) simp_all
  then have "unat (bx_length l) + unat (bx_length e) < 2 ^ 32"
    using c by (simp add: continues_def word_less_nat_alt)
  then have "bx_len (l\<lparr>bx_length := bx_length l + bx_length e\<rparr>) = bx_len l + bx_len e"
    using \<open>unat (bx_len l + bx_len e) = _\<close> by (simp add: word_unat_eq_iff unat_add_nowrap)
  then show ?thesis
    using assms unfolding append_merge [OF l c] l by (simp add: index_from_append algebra_simps)
qed

lemma claim_index:
  "index_from 0 (fn_extents f) = (fn_extents_index f, fn_allocated f) \<Longrightarrow>
   index_from 0 (fn_extents (claim_extents es f)) = (fn_extents_index (claim_extents es f), fn_allocated (claim_extents es f))"
  unfolding claim_extents_def by (induction es arbitrary: f) (simp_all add: append_index)

lemma append_frame [simp]:
  "fn_ino (append_extent e f) = fn_ino f" "fn_size (append_extent e f) = fn_size f" "fn_mtime (append_extent e f) = fn_mtime f"
  "fn_unused (append_extent e f) = fn_unused f" "fn_allocated_committed (append_extent e f) = fn_allocated_committed f"
  by (simp_all add: append_extent_def)

lemma claim_frame [simp]:
  "fn_ino (claim_extents es f) = fn_ino f" "fn_size (claim_extents es f) = fn_size f" "fn_mtime (claim_extents es f) = fn_mtime f"
  "fn_unused (claim_extents es f) = fn_unused f" "fn_allocated_committed (claim_extents es f) = fn_allocated_committed f"
  unfolding claim_extents_def by (induction es arbitrary: f) simp_all

lemma claim_simps [simp]: "claim_extents [] f = f" "claim_extents (e # es) f = claim_extents es (append_extent e f)"
  by (simp_all add: claim_extents_def)

text \<open>A chain of extents that do not continue one another is appended as it is.\<close>

lemma claim_chain:
  assumes "successively (\<lambda>a b. \<not> continues a b) (fn_extents f @ es)"
  shows "fn_extents (claim_extents es f) = fn_extents f @ es"
  using assms
proof (induction es arbitrary: f)
  case (Cons e es)
  have "fn_extents f = [] \<or> \<not> continues (last (fn_extents f)) e"
    using Cons.prems by (auto simp: successively_append_iff)
  then have a: "fn_extents (append_extent e f) = fn_extents f @ [e]" by (simp add: append_new)
  show ?case using Cons.IH [of "append_extent e f"] Cons.prems by (simp add: a)
qed simp

section \<open>Deltas\<close>

text \<open>The first \<open>n\<close> bytes of a list of extents: what a node holds whose first \<open>n\<close> bytes were logged.\<close>

fun cut_extents :: "nat \<Rightarrow> bluefs_extent list \<Rightarrow> bluefs_extent list" where
  "cut_extents n [] = []"
| "cut_extents n (e # es) =
     (if n = 0 then []
      else if unat (bx_length e) \<le> n then e # cut_extents (n - unat (bx_length e)) es
      else [e\<lparr>bx_length := of_nat n\<rparr>])"

lemma cut_extents_0 [simp]: "cut_extents 0 es = []"
  by (cases es) simp_all

lemma cut_extents_all: "\<forall>e \<in> set es. bx_ok e \<Longrightarrow> cut_extents (ext_total es) es = es"
  by (induction es) (auto simp: bx_ok_def unat_gt_0)

lemma ext_total_cut: "n \<le> ext_total es \<Longrightarrow> ext_total (cut_extents n es) = n"
proof (induction n es rule: cut_extents.induct)
  case (2 n e es)
  show ?case
  proof (cases "unat (bx_length e) \<le> n")
    case False
    then have "n < 2 ^ 32" using less_trans [of n "unat (bx_length e)" 4294967296] by simp
    then show ?thesis using False by (simp add: unat_of_nat)
  qed (use 2 in auto)
qed simp

lemma delta_extents_new:
  "committed \<le> pos \<Longrightarrow> unat pos + ext_total es < 2 ^ 64 \<Longrightarrow> \<forall>e \<in> set es. bx_ok e \<Longrightarrow>
   delta_extents committed pos es = es"
proof (induction committed pos es rule: delta_extents.induct)
  case (2 committed pos e es)
  have p: "unat (pos + bx_len e) = unat pos + unat (bx_length e)"
    using 2(4) unat_add_nowrap [of pos "bx_len e"] by simp
  have "0 < unat (bx_length e)" using 2(5) by (simp add: bx_ok_def unat_gt_0)
  then have "committed < pos + bx_len e" using 2(3) p by (simp add: word_less_nat_alt word_le_nat_alt)
  then show ?case using 2 p by (auto simp: not_le)
qed simp

lemma cut_then_delta:
  assumes "pos \<le> committed" "unat pos + ext_total es < 2 ^ 63" "\<forall>e \<in> set es. bx_ok e"
    and "successively (\<lambda>a b. \<not> continues a b) (pre @ es)"
    and "fn_extents f = pre @ cut_extents (unat committed - unat pos) es"
  shows "fn_extents (claim_extents (delta_extents committed pos es) f) = pre @ es"
  using assms
proof (induction es arbitrary: pos pre f)
  case (Cons e es)
  let ?n = "unat committed - unat pos"
  have len: "0 < unat (bx_length e)" "bx_len e < 0xffffffff" using Cons.prems(3) by (simp_all add: bx_ok_def unat_gt_0)
  have p: "unat (pos + bx_len e) = unat pos + unat (bx_length e)"
    using Cons.prems(2) unat_add_nowrap [of pos "bx_len e"] by simp
  have n: "unat (committed - pos) = ?n" using Cons.prems(1) by (simp add: unat_sub_le)
  have rest: "delta_extents committed (pos + bx_len e) es = es" if "committed \<le> pos + bx_len e"
    using that p Cons.prems(2,3) by (intro delta_extents_new) auto
  consider (whole) "unat (bx_length e) \<le> ?n" | (none) "?n = 0" | (part) "0 < ?n" "?n < unat (bx_length e)" by linarith
  then show ?case
  proof cases
    case whole
    then have le: "pos + bx_len e \<le> committed" using p Cons.prems(1) by (simp add: word_le_nat_alt)
    have "fn_extents f = (pre @ [e]) @ cut_extents (unat committed - unat (pos + bx_len e)) es"
      using Cons.prems(5) whole len(1) p by simp
    from Cons.IH [OF le _ _ _ this] show ?thesis using Cons.prems(2-4) p le by simp
  next
    case none
    then have c: "committed = pos" using Cons.prems(1) by (simp add: word_le_nat_alt word_unat_eq_iff)
    have gt: "\<not> pos + bx_len e \<le> pos" using p len(1) by (simp add: word_le_nat_alt)
    then have "delta_extents committed pos (e # es) = e # es" using rest c by (simp add: not_le less_imp_le)
    then show ?thesis using claim_chain [of f "e # es"] Cons.prems(4,5) none by (simp del: claim_simps)
  next
    case part
    then have gt: "\<not> pos + bx_len e \<le> committed" "pos < committed" using p Cons.prems(1) by (auto simp: word_le_nat_alt word_less_nat_alt)
    let ?l = "e\<lparr>bx_length := of_nat ?n\<rparr>"
    let ?e = "\<lparr>bx_offset = bx_offset e + (committed - pos), bx_length = ucast (bx_len e - (committed - pos)), bx_bdev = bx_bdev e\<rparr>"
    have n32: "?n < 2 ^ 32" using less_trans [OF part(2) unat_lt_u32] by simp
    have l: "bx_len ?l = committed - pos" using n n32 by (simp add: bx_len_def word_unat_eq_iff unat_of_nat)
    have le: "committed - pos \<le> bx_len e" using n part(2) by (simp add: word_le_nat_alt)
    have r: "unat (bx_len e - (committed - pos)) = unat (bx_length e) - ?n" using n unat_sub_le [OF le] by simp
    then have e: "bx_len ?e = bx_len e - (committed - pos)"
      by (simp add: bx_len_def word_unat_eq_iff unat_ucast_64_32) (simp add: less_imp_diff_less)
    have d: "delta_extents committed pos (e # es) = ?e # es"
      using gt rest n part(1) by (auto simp: not_le less_imp_le Let_def)
    have f: "fn_extents f = pre @ [?l]" using Cons.prems(5) part by simp
    have "continues ?l ?e" unfolding continues_def l e using len(2) l by (simp add: bx_end_def)
    then have "fn_extents (append_extent ?e f) = pre @ [e\<lparr>bx_length := of_nat ?n + ucast (bx_len e - (committed - pos))\<rparr>]"
      using append_merge [OF f] by simp
    moreover have "of_nat ?n + ucast (bx_len e - (committed - pos)) = bx_length e"
    proof -
      have "unat (of_nat ?n :: u32) = ?n" "unat (ucast (bx_len e - (committed - pos)) :: u32) = unat (bx_length e) - ?n"
        using n32 r by (simp_all add: unat_of_nat unat_ucast_64_32 less_imp_diff_less)
      then show ?thesis using part(2) by (simp add: word_unat_eq_iff unat_add_nowrap)
    qed
    ultimately have "fn_extents (append_extent ?e f) = pre @ [e]" by simp
    then show ?thesis unfolding d using claim_chain [of "append_extent ?e f" es] Cons.prems(4) by simp
  qed
qed simp

text \<open>
  C36: logging a delta and replaying it gives the node back. On a node that holds exactly the extents that were
  committed, the delta starts at the allocated size that replay asserts, and claiming its extents restores the
  extents, their index and the allocated size.
\<close>

theorem fnode_delta_replay:
  assumes "fnode_ok f" "fn_extents f0 = cut_extents (unat (fn_allocated_committed f)) (fn_extents f)"
    and "index_from 0 (fn_extents f0) = (fn_extents_index f0, fn_allocated f0)"
  shows "fd_offset (make_delta f) = fn_allocated f0 \<and>
    (let f1 = claim_extents (fd_extents (make_delta f)) f0
     in fn_extents f1 = fn_extents f \<and> fn_extents_index f1 = fn_extents_index f \<and> fn_allocated f1 = fn_allocated f)"
proof -
  have f: "bxs_ok (fn_extents f)" "index_from 0 (fn_extents f) = (fn_extents_index f, fn_allocated f)"
    "fn_allocated_committed f \<le> fn_allocated f" using assms(1) by (simp_all add: fnode_ok_def)
  then have t: "unat (fn_allocated_committed f) \<le> ext_total (fn_extents f)" "ext_total (fn_extents f) < 2 ^ 63"
    using fnode_total [OF assms(1)] by (simp_all add: bxs_ok_def word_le_nat_alt)
  have "unat (fn_allocated f0) = unat (fn_allocated_committed f)"
    using index_from_total [of 0 "fn_extents f0"] assms(2,3) ext_total_cut [OF t(1)] t by simp
  then have off: "fd_offset (make_delta f) = fn_allocated f0" by (simp add: make_delta_def word_unat_eq_iff)
  have e: "fn_extents (claim_extents (fd_extents (make_delta f)) f0) = fn_extents f"
    using cut_then_delta [of 0 "fn_allocated_committed f" "fn_extents f" "[]" f0] f t assms(2)
    by (simp add: make_delta_def bxs_ok_def)
  then show ?thesis using off claim_index [OF assms(3), of "fd_extents (make_delta f)"] f(2) by (simp add: Let_def)
qed

section \<open>Copies\<close>

text \<open>The index of a chain of extents appended from a total on.\<close>

lemma index_from_shift:
  "index_from a es = (map ((+) a) (fst (index_from 0 es)), a + snd (index_from 0 es))"
proof (induction es arbitrary: a)
  case (Cons e es)
  show ?case using Cons.IH [of "a + bx_len e"] Cons.IH [of "bx_len e"]
    by (simp add: Let_def case_prod_unfold comp_def add.assoc)
qed simp

lemma claim_fresh:
  assumes "successively (\<lambda>a b. \<not> continues a b) (fn_extents f @ es)"
  shows "claim_extents es f = f\<lparr>fn_extents := fn_extents f @ es,
    fn_extents_index := fn_extents_index f @ fst (index_from (fn_allocated f) es), fn_allocated := snd (index_from (fn_allocated f) es)\<rparr>"
  using assms
proof (induction es arbitrary: f)
  case (Cons e es)
  have "fn_extents f = [] \<or> \<not> continues (last (fn_extents f)) e"
    using Cons.prems by (auto simp: successively_append_iff)
  note a = append_new [OF this]
  show ?case using Cons.IH [of "append_extent e f"] Cons.prems by (simp add: a Let_def case_prod_unfold)
qed simp

lemma seek_found:
  "fnode_ok f \<Longrightarrow> off < fn_allocated f \<Longrightarrow> fn_seek off f \<noteq> None"
  by (rule notI) (drule fnode_seek_exact [of f off], simp add: not_le)

lemma copy_fnode_eq:
  assumes "fnode_ok f"
  shows "fn_extents (copy_fnode f) = fn_extents f" "fn_allocated (copy_fnode f) = 2 * fn_allocated f"
    "fn_extents_index (copy_fnode f) = map ((+) (fn_allocated f)) (fn_extents_index f)"
proof -
  note ok = assms [unfolded fnode_ok_def bxs_ok_def]
  let ?g = "(new_fnode (fn_ino f) (fn_size f) (fn_mtime f))\<lparr>fn_allocated := fn_allocated f, fn_allocated_committed := fn_allocated_committed f\<rparr>"
  have c: "copy_fnode f = claim_extents (fn_extents f) ?g"
    by (simp add: copy_fnode_def clone_extents_def claim_extents_def)
  have s: "successively (\<lambda>a b. \<not> continues a b) (fn_extents ?g @ fn_extents f)" using ok by (simp add: new_fnode_def)
  note F = claim_fresh [OF s, folded c]
  show "fn_extents (copy_fnode f) = fn_extents f" by (simp add: F new_fnode_def)
  show "fn_allocated (copy_fnode f) = 2 * fn_allocated f"
    "fn_extents_index (copy_fnode f) = map ((+) (fn_allocated f)) (fn_extents_index f)"
    using ok by (simp_all add: F new_fnode_def index_from_shift [of "fn_allocated f"])
qed

text \<open>
  C37: the copy constructor of a file node does not copy it. It counts every extent twice, and on the copy, whose
  index is shifted by the allocated size, \<open>seek\<close> does not find any of the bytes the node holds.
\<close>

theorem fnode_copy_broken:
  assumes "fnode_ok f" "off < fn_allocated f"
  shows "fn_extents (copy_fnode f) = fn_extents f \<and> fn_allocated (copy_fnode f) = 2 * fn_allocated f \<and>
    fn_seek off f \<noteq> None \<and> fn_seek off (copy_fnode f) = None"
proof -
  note C = copy_fnode_eq [OF assms(1)]
  have "fn_extents f \<noteq> []" using assms by (auto simp: fnode_ok_def)
  then obtain i js where i: "fn_extents_index f = i # js"
    using fnode_index(1) [OF assms(1)] by (cases "fn_extents_index f") auto
  have "i = 0" using assms(1) i by (cases "fn_extents f") (auto simp: fnode_ok_def Let_def case_prod_unfold)
  have "\<not> fn_allocated f \<le> off" using assms(2) by simp
  then have "takeWhile (\<lambda>j. j \<le> off) (fn_extents_index (copy_fnode f)) = []" by (simp only: C i \<open>i = 0\<close>) simp
  then have "fn_seek off (copy_fnode f) = None" by (simp add: fn_seek_def)
  then show ?thesis using C seek_found [OF assms] by simp
qed

definition sample_fnode :: bluefs_fnode where
  "sample_fnode = claim_extents [\<lparr>bx_offset = 0x10000, bx_length = 0x2000, bx_bdev = 0\<rparr>, \<lparr>bx_offset = 0x40000, bx_length = 0x3000, bx_bdev = 1\<rparr>]
     ((new_fnode 7 0x4321 0)\<lparr>fn_allocated_committed := 0x3000\<rparr>)"

lemma sample_fnode_eq:
  "sample_fnode = \<lparr>fn_ino = 7, fn_size = 0x4321, fn_mtime = 0, fn_unused = 0,
     fn_extents = [\<lparr>bx_offset = 0x10000, bx_length = 0x2000, bx_bdev = 0\<rparr>, \<lparr>bx_offset = 0x40000, bx_length = 0x3000, bx_bdev = 1\<rparr>],
     fn_extents_index = [0, 0x2000], fn_allocated = 0x5000, fn_allocated_committed = 0x3000\<rparr>"
  by (simp add: sample_fnode_def new_fnode_def append_extent_def continues_def bx_end_def bx_len_def)

lemma sample_fnode_ok: "fnode_ok sample_fnode"
  by (simp add: sample_fnode_eq fnode_ok_def bxs_ok_def bx_ok_def continues_def bx_end_def bx_len_def)

definition sample_committed :: bluefs_fnode where
  "sample_committed = claim_extents [\<lparr>bx_offset = 0x10000, bx_length = 0x2000, bx_bdev = 0\<rparr>, \<lparr>bx_offset = 0x40000, bx_length = 0x1000, bx_bdev = 1\<rparr>]
     (new_fnode 7 0x2000 0)"

lemma sample_committed_eq:
  "fn_extents sample_committed = cut_extents (unat (fn_allocated_committed sample_fnode)) (fn_extents sample_fnode)"
  "index_from 0 (fn_extents sample_committed) = (fn_extents_index sample_committed, fn_allocated sample_committed)"
  by (simp_all add: sample_committed_def sample_fnode_eq new_fnode_def append_extent_def continues_def bx_end_def bx_len_def)

text \<open>Witnesses: of the second extent of the sample, 0x1000 bytes were committed.\<close>

theorem fnode_delta_replay_witness:
  "fd_offset (make_delta sample_fnode) = 0x3000 \<and>
   fn_extents (claim_extents (fd_extents (make_delta sample_fnode)) sample_committed) = fn_extents sample_fnode"
  using fnode_delta_replay [OF sample_fnode_ok sample_committed_eq] by (simp add: Let_def) (simp add: make_delta_def sample_fnode_eq)

theorem fnode_copy_broken_witness:
  "fn_allocated (copy_fnode sample_fnode) = 2 * 0x5000 \<and> fn_seek 0x2100 (copy_fnode sample_fnode) = None"
  using fnode_copy_broken [OF sample_fnode_ok, of "0x2100"] by (simp add: sample_fnode_eq)

section \<open>Encodings\<close>

lemma dec_extent_append [dec_simps]: "dec_extent (enc_extent e @ p) = Inr (e, p)"
  unfolding dec_extent_def enc_extent_def by (rule dec_struct_append) (simp_all add: dec_simps)

lemma length_enc_extent [simp]: "length (enc_extent e) = 19"
  by (simp add: enc_extent_def)

lemma length_enc_vector [simp]: "length (enc_vector enc_extent es) = 4 + 19 * length es"
  by (induction es) (simp_all add: enc_vector_def)

lemma dec_extents_append [dec_simps]:
  "length es < 2 ^ 27 \<Longrightarrow> dec_vector dec_extent (enc_vector enc_extent es @ p) = Inr (es, p)"
  using dec_vector_append [of es dec_extent enc_extent "\<lambda>e. e" p] by (simp add: dec_extent_append)

lemma dec_delta_append [dec_simps]:
  assumes "length (fd_extents d) < 2 ^ 27"
  shows "dec_delta (enc_delta d @ p) = Inr (d, p)"
  unfolding dec_delta_def enc_delta_def by (rule dec_struct_append) (use assms in \<open>simp_all add: dec_simps\<close>)

lemma dec_fnode_append:
  assumes "length (fn_extents f) < 2 ^ 27"
  shows "dec_fnode (enc_fnode f @ p) = Inr (recalc_allocated f, p)"
proof -
  let ?g = "(new_fnode (fn_ino f) (fn_size f) (fn_mtime f))\<lparr>fn_unused := fn_unused f, fn_extents := fn_extents f\<rparr>"
  have "recalc_allocated ?g = recalc_allocated f"
    by (simp add: recalc_allocated_def new_fnode_def Let_def case_prod_unfold)
  then show ?thesis
    unfolding dec_fnode_def enc_fnode_def
    by (subst dec_bind_def, subst dec_struct_append [where x = ?g]) (use assms in \<open>simp_all add: dec_simps\<close>)
qed

lemma recalc_fnode_ok:
  "fnode_ok f \<Longrightarrow> recalc_allocated f = reset_delta f"
  by (simp add: fnode_ok_def recalc_allocated_def reset_delta_def)

lemma dec_uuid_append [dec_simps]: "length u = 16 \<Longrightarrow> dec_uuid (enc_uuid u @ p) = Inr (u, p)"
  unfolding dec_uuid_def enc_uuid_def by (rule dec_struct_append) (simp_all add: dec_simps)

lemma length_enc_types [simp]:
  "length (enc_uuid u) = 6 + length u" "length (enc_fnode f) = 35 + 19 * length (fn_extents f)"
  "length (enc_delta d) = 42 + 19 * length (fd_extents d)"
  by (simp_all add: enc_uuid_def enc_fnode_def enc_delta_def)

lemma dec_transaction_append [dec_simps]:
  assumes "length (tx_uuid t) = 16" "length (tx_op_bl t) < 2 ^ 31"
  shows "dec_transaction (enc_transaction t @ p) = Inr (t, p)"
  unfolding dec_transaction_def enc_transaction_def
  by (rule dec_struct_append) (use assms in \<open>simp_all add: dec_simps\<close>)

lemma dec_super_append:
  assumes "length (su_uuid s) = 16" "length (su_osd_uuid s) = 16" "length (fn_extents (su_log_fnode s)) < 2 ^ 26"
  shows "dec_super (enc_super s @ p) = Inr (s\<lparr>su_log_fnode := recalc_allocated (su_log_fnode s)\<rparr>, p)"
  unfolding dec_super_def enc_super_def
  by (rule dec_struct_append) (use assms in \<open>simp_all add: dec_simps dec_fnode_append\<close>)

end
