(* ===== verification/Bluefs_Mount.thy ===== *)
theory Bluefs_Mount
  imports Bluefs
begin

text \<open>
  The replay of the BlueFS log, and \<open>mkfs\<close>, \<open>mount\<close> and \<open>umount\<close>. The loop over the operations of a transaction ends
  because each one consumes its code; the loops over the log may not end, and are then the result \<open>None\<close>, as a
  failed assertion and an exception that nobody catches are.
\<close>

section \<open>Decoders do not grow their input\<close>

definition shrinks :: "'a decoder \<Rightarrow> bool" where
  "shrinks d \<longleftrightarrow> (\<forall>p x q. d p = Inr (x, q) \<longrightarrow> length q \<le> length p)"

lemma shrinks_return [intro, simp]: "shrinks (dec_return x)"
  by (auto simp: shrinks_def dec_return_def)

lemma shrinks_bind [intro]:
  assumes "shrinks d" "\<And>x. shrinks (f x)"
  shows "shrinks (dec_bind d f)"
proof -
  have "length q' \<le> length p" if a: "d p = Inr (x, q)" "f x q = Inr (y, q')" for p x q y q'
  proof -
    have "length q \<le> length p" using assms(1) a(1) unfolding shrinks_def by blast
    moreover have "length q' \<le> length q" using assms(2) [of x] a(2) unfolding shrinks_def by blast
    ultimately show ?thesis by simp
  qed
  then show ?thesis unfolding shrinks_def dec_bind_def by (auto split: sum.splits)
qed

lemma shrinks_raw [intro, simp]: "shrinks (dec_raw n)"
  by (auto simp: shrinks_def dec_raw_def split: if_splits)

lemma shrinks_basic [intro, simp]:
  "shrinks dec_u8" "shrinks dec_u32" "shrinks dec_u64" "shrinks dec_string"
  unfolding dec_u8_def dec_u32_def dec_u64_def dec_string_def by auto

lemma shrinks_many [intro]: "shrinks d \<Longrightarrow> shrinks (dec_many d n)"
  by (induction n) auto

lemma shrinks_vector [intro]: "shrinks d \<Longrightarrow> shrinks (dec_vector d)"
  unfolding dec_vector_def by auto

lemma shrinks_struct [intro]:
  assumes "shrinks d"
  shows "shrinks (dec_struct d)"
proof -
  have "shrinks (\<lambda>start. case d start of Inl e \<Rightarrow> Inl e
      | Inr (x, pos) \<Rightarrow> let consumed = length start - length pos
          in if consumed > unat (n :: u32) then Inl Malformed_Input
             else dec_bind (dec_raw (unat n - consumed)) (\<lambda>_. dec_return x) pos)" for n
    unfolding shrinks_def
  proof (intro allI impI)
    fix p x q
    assume a: "(case d p of Inl e \<Rightarrow> Inl e
      | Inr (x, pos) \<Rightarrow> let consumed = length p - length pos
          in if consumed > unat n then Inl Malformed_Input
             else dec_bind (dec_raw (unat n - consumed)) (\<lambda>_. dec_return x) pos) = Inr (x, q)"
    then obtain y pos where d: "d p = Inr (y, pos)" by (auto split: sum.splits)
    then have "length pos \<le> length p" using assms unfolding shrinks_def by blast
    moreover have "q = drop (unat n - (length p - length pos)) pos"
      using a unfolding d by (simp add: Let_def dec_bind_def dec_raw_def dec_return_def split: if_splits)
    then have "length q \<le> length pos" by simp
    ultimately show "length q \<le> length p" by simp
  qed
  then show ?thesis unfolding dec_struct_def by (intro shrinks_bind) auto
qed

lemma shrinks_types [intro, simp]: "shrinks dec_extent" "shrinks dec_delta" "shrinks dec_fnode"
  unfolding dec_extent_def dec_delta_def dec_fnode_def
  by (intro shrinks_struct shrinks_bind shrinks_vector shrinks_basic shrinks_return)+

section \<open>The operations of a transaction\<close>

definition apply_dir_create :: "bytes \<Rightarrow> BlueFS \<Rightarrow> BlueFS" where
  "apply_dir_create dirname st = st\<lparr>bf_dir_map := om_set dirname [] (bf_dir_map st)\<rparr>"

definition apply_dir_remove :: "bytes \<Rightarrow> BlueFS \<Rightarrow> BlueFS" where
  "apply_dir_remove dirname st = st\<lparr>bf_dir_map := om_erase dirname (bf_dir_map st)\<rparr>"

definition set_entry_of :: "bytes \<Rightarrow> bytes \<Rightarrow> nat \<Rightarrow> BlueFS \<Rightarrow> BlueFS" where
  "set_entry_of dirname filename r st =
     (case map_of (bf_dir_map st) dirname of
        None \<Rightarrow> st
      | Some dir \<Rightarrow> st\<lparr>bf_dir_map := om_set dirname (om_set filename r dir) (bf_dir_map st)\<rparr>)"

definition erase_entry_of :: "bytes \<Rightarrow> bytes \<Rightarrow> BlueFS \<Rightarrow> BlueFS" where
  "erase_entry_of dirname filename st =
     (case map_of (bf_dir_map st) dirname of
        None \<Rightarrow> st
      | Some dir \<Rightarrow> st\<lparr>bf_dir_map := om_set dirname (om_erase filename dir) (bf_dir_map st)\<rparr>)"

definition lookup_entry :: "bytes \<Rightarrow> bytes \<Rightarrow> BlueFS \<Rightarrow> nat option" where
  "lookup_entry dirname filename st = Option.bind (map_of (bf_dir_map st) dirname) (\<lambda>dir. map_of dir filename)"

definition bump_ino :: "u64 \<Rightarrow> BlueFS \<Rightarrow> BlueFS" where
  "bump_ino ino st = (if ino > bf_ino_last st then st\<lparr>bf_ino_last := ino\<rparr> else st)"

text \<open>Without a volume selector the code calls it all the same.\<close>

definition apply_dir_link :: "bytes \<Rightarrow> bytes \<Rightarrow> u64 \<Rightarrow> BlueFS \<Rightarrow> BlueFS option" where
  "apply_dir_link dirname filename ino st =
     (let (r, st1) = bf_get_file ino st; file = the_file r st1
      in case bf_vselector st1 of
           None \<Rightarrow> None
         | Some v \<Rightarrow>
             let hint = vs_hint_by_dir v dirname
             in map_option (\<lambda>v'. bump_ino ino
                    (upd_file r (\<lambda>f. f\<lparr>fl_hint := hint, fl_refs := fl_refs f + 1\<rparr>)
                      (set_entry_of dirname filename r (st1\<lparr>bf_vselector := Some v'\<rparr>))))
                  (Option.bind (vs_sub_fnode (fl_hint file) (fl_fnode file) v) (vs_add_fnode hint (fl_fnode file))))"

definition apply_dir_unlink :: "bytes \<Rightarrow> bytes \<Rightarrow> BlueFS \<Rightarrow> BlueFS option" where
  "apply_dir_unlink dirname filename st =
     (case lookup_entry dirname filename st of
        None \<Rightarrow> Some st
      | Some r \<Rightarrow>
          if \<not> fl_refs (the_file r st) > 0 then None
          else Some (erase_entry_of dirname filename (upd_file r (\<lambda>f. f\<lparr>fl_refs := fl_refs f - 1\<rparr>) st)))"

definition apply_file_update :: "bluefs_fnode \<Rightarrow> BlueFS \<Rightarrow> BlueFS option" where
  "apply_file_update n st =
     (let (r, st1) = bf_get_file (fn_ino n) st; hint = fl_hint (the_file r st1)
      in Option.bind (if hint \<noteq> 0 then if_vs (vs_sub_fnode hint (the_fnode r st1)) st1 else Some st1) (\<lambda>st2.
           let st3 = upd_fnode r (\<lambda>_. n) st2
           in map_option (bump_ino (fn_ino n)) (if hint \<noteq> 0 then if_vs (vs_add_fnode hint n) st3 else Some st3)))"

definition apply_file_update_inc :: "bluefs_fnode_delta \<Rightarrow> BlueFS \<Rightarrow> BlueFS option" where
  "apply_file_update_inc delta st =
     (let (r, st1) = bf_get_file (fd_ino delta) st
      in if fd_offset delta \<noteq> fn_allocated (the_fnode r st1) then None
         else Some (bump_ino (fd_ino delta)
                (upd_fnode r (\<lambda>n. claim_extents (fd_extents delta) (n\<lparr>fn_mtime := fd_mtime delta, fn_size := fd_size delta\<rparr>)) st1)))"

definition apply_file_remove :: "u64 \<Rightarrow> BlueFS \<Rightarrow> BlueFS" where
  "apply_file_remove ino st =
     (case map_of (bf_file_map st) ino of
        None \<Rightarrow> st
      | Some r \<Rightarrow> if fl_refs (the_file r st) > 0 then upd_file r (\<lambda>f. f\<lparr>fl_deleted := True\<rparr>) st
                  else st\<lparr>bf_file_map := AList.delete ino (bf_file_map st)\<rparr>)"

text \<open>One operation: the log sequence and the bytes left, a jump, or the error the replay returns.\<close>

datatype op_result = Go_On u64 bytes BlueFS | Jump u64 u64 BlueFS | Stop int BlueFS

definition arg :: "'a decoder \<Rightarrow> bytes \<Rightarrow> ('a \<Rightarrow> bytes \<Rightarrow> 'b option) \<Rightarrow> 'b option" where
  "arg d p k = (case d p of Inl _ \<Rightarrow> None | Inr (x, q) \<Rightarrow> k x q)"

definition replay_op :: "nat \<Rightarrow> u64 \<Rightarrow> bytes \<Rightarrow> BlueFS \<Rightarrow> op_result option" where
  "replay_op lf log_seq p0 st = arg dec_u8 p0 (\<lambda>op p.
     if op = OP_INIT then Some (Go_On log_seq p st)
     else if op = OP_JUMP then arg dec_u64 p (\<lambda>next_seq p. arg dec_u64 p (\<lambda>offset p.
       Some (if next_seq \<le> log_seq \<or> offset \<ge> fn_size (the_fnode lf st) then Stop (- EIO) st
             else Jump (next_seq - 1) offset st)))
     else if op = OP_JUMP_SEQ then arg dec_u64 p (\<lambda>next_seq p.
       Some (if next_seq \<le> log_seq then Stop (- EIO) st else Go_On (next_seq - 1) p st))
     else if op = OP_DIR_CREATE then arg dec_string p (\<lambda>dirname p. Some (Go_On log_seq p (apply_dir_create dirname st)))
     else if op = OP_DIR_REMOVE then arg dec_string p (\<lambda>dirname p. Some (Go_On log_seq p (apply_dir_remove dirname st)))
     else if op = OP_DIR_LINK then arg dec_string p (\<lambda>dirname p. arg dec_string p (\<lambda>filename p. arg dec_u64 p (\<lambda>ino p.
       map_option (Go_On log_seq p) (apply_dir_link dirname filename ino st))))
     else if op = OP_DIR_UNLINK then arg dec_string p (\<lambda>dirname p. arg dec_string p (\<lambda>filename p.
       map_option (Go_On log_seq p) (apply_dir_unlink dirname filename st)))
     else if op = OP_FILE_UPDATE then arg dec_fnode p (\<lambda>n p. map_option (Go_On log_seq p) (apply_file_update n st))
     else if op = OP_FILE_UPDATE_INC then arg dec_delta p (\<lambda>d p. map_option (Go_On log_seq p) (apply_file_update_inc d st))
     else if op = OP_FILE_REMOVE then arg dec_u64 p (\<lambda>ino p. Some (Go_On log_seq p (apply_file_remove ino st)))
     else Some (Stop (- EIO) st))"

definition consumes :: "nat \<Rightarrow> op_result option \<Rightarrow> bool" where
  "consumes n res \<longleftrightarrow> (\<forall>s q st. res = Some (Go_On s q st) \<longrightarrow> length q \<le> n)"

lemma consumes_arg:
  "shrinks d \<Longrightarrow> length p \<le> n \<Longrightarrow> (\<And>x q. length q \<le> n \<Longrightarrow> consumes n (k x q)) \<Longrightarrow> consumes n (arg d p k)"
  unfolding shrinks_def arg_def by (auto simp: consumes_def split: sum.splits) (meson order_trans)

lemma consumes_leaf:
  "length q \<le> n \<Longrightarrow> consumes n (Some (Go_On s q st))" "consumes n (Some (Jump s off st))" "consumes n (Some (Stop r st))"
  "length q \<le> n \<Longrightarrow> consumes n (map_option (Go_On s q) x)" "consumes n None"
  unfolding consumes_def by (simp_all, blast?)

lemma consumes_if: "consumes n x \<Longrightarrow> consumes n y \<Longrightarrow> consumes n (if c then x else y)"
  "consumes n (Some u) \<Longrightarrow> consumes n (Some v) \<Longrightarrow> consumes n (Some (if c then u else v))"
  by simp_all

lemma arg_u8: "arg dec_u8 (b # p) k = k b p"
  by (simp add: arg_def dec_simps)

lemma replay_op_shrinks:
  assumes "replay_op lf log_seq p st = Some (Go_On s q st')"
  shows "length q < length p"
proof -
  obtain b p' where p: "p = b # p'"
    using assms by (cases p) (simp_all add: replay_op_def arg_def dec_u8_def dec_bind_def dec_raw_def)
  have "consumes (length p') (replay_op lf log_seq p st)"
    unfolding replay_op_def p arg_u8
    by (intro consumes_if consumes_arg consumes_leaf shrinks_basic shrinks_types order_refl)
  then show ?thesis using assms p unfolding consumes_def by fastforce
qed

function replay_ops :: "nat \<Rightarrow> u64 \<Rightarrow> bytes \<Rightarrow> BlueFS \<Rightarrow> op_result option" where
  "replay_ops lf log_seq p st =
     (if p = [] then Some (Go_On log_seq [] st)
      else case replay_op lf log_seq p st of
             None \<Rightarrow> None
           | Some (Go_On log_seq' q st') \<Rightarrow> replay_ops lf log_seq' q st'
           | Some res \<Rightarrow> Some res)"
  by pat_completeness auto
termination
  by (relation "measure (\<lambda>(_, _, p, _). length p)") (auto dest: replay_op_shrinks)

declare replay_ops.simps [simp del]

section \<open>Reading the log\<close>

definition read_dev :: "bluefs_extent \<Rightarrow> u64 \<Rightarrow> u64 \<Rightarrow> bool \<Rightarrow> BlueFS \<Rightarrow> (int \<times> bytes \<times> BlueFS) option" where
  "read_dev e off len buffered st =
     (let b = unat (bx_bdev e)
      in if \<not> has_bdev b st then None
         else let (r, bl, d) = dev_read off len buffered (the (bf_bdev st ! b))
              in Some (r, bl, st\<lparr>bf_bdev := (bf_bdev st)[b := Some d]\<rparr>))"

text \<open>The blocks behind the first one of a transaction.\<close>

partial_function (option) read_more :: "nat \<Rightarrow> u64 \<Rightarrow> u64 \<Rightarrow> u64 \<Rightarrow> bytes \<Rightarrow> BlueFS \<Rightarrow> (int \<times> bytes \<times> BlueFS) option" where
  "read_more lf bs pos left bl st =
     (if left = 0 then Some (0, bl, st)
      else let node = the_fnode lf st; r_off = pos + of_nat (length bl); r_len = min bs (fn_size node - r_off)
           in case fn_seek r_off node of
                None \<Rightarrow> Some (0, bl, st)
              | Some (i, x_off) \<Rightarrow>
                  let e = fn_extents node ! i
                  in Option.bind (read_dev e (bx_offset e + x_off) (min (bx_len e - x_off) r_len) False st)
                       (\<lambda>(r, more_bl, st1).
                          if r < 0 then Some (r, bl, st1)
                          else read_more lf bs pos (left - p2roundup r_len bs) (bl @ more_bl) st1))"

datatype log_result = Continue u64 u64 bool BlueFS | Break u64 u64 BlueFS | Return int BlueFS

text \<open>An unusable transaction is an error at the start of the log and its end later on.\<close>

definition end_of_log :: "u64 \<Rightarrow> u64 \<Rightarrow> bool \<Rightarrow> BlueFS \<Rightarrow> log_result" where
  "end_of_log log_seq pos seen_recs st = (if seen_recs then Break log_seq pos st else Return (- EIO) st)"

definition replay_transaction :: "nat \<Rightarrow> u64 \<Rightarrow> u64 \<Rightarrow> bytes \<Rightarrow> u64 \<Rightarrow> u64 \<Rightarrow> bool \<Rightarrow> BlueFS \<Rightarrow> log_result option" where
  "replay_transaction lf bs raw_tx_size bl log_seq pos seen_recs st =
     (case dec_transaction bl of
        Inl End_Of_Buffer \<Rightarrow> None
      | Inl Malformed_Input \<Rightarrow> Some (end_of_log log_seq pos seen_recs st)
      | Inr (t, _) \<Rightarrow>
          if tx_uuid t \<noteq> su_uuid (bf_super st) then Some (end_of_log log_seq pos seen_recs st)
          else if tx_seq t \<noteq> log_seq + 1
          then Some (if tx_seq t = log_seq then Break log_seq pos st else Return (- EIO) st)
          else map_option (\<lambda>res. case res of
                 Go_On s _ st' \<Rightarrow> Continue (s + 1) (pos + p2roundup raw_tx_size bs) True st'
               | Jump s off st' \<Rightarrow> Continue s off True st'
               | Stop r st' \<Rightarrow> Return r st') (replay_ops lf log_seq (tx_op_bl t) st))"

definition replay_block :: "nat \<Rightarrow> u64 \<Rightarrow> u64 \<Rightarrow> u64 \<Rightarrow> bool \<Rightarrow> BlueFS \<Rightarrow> log_result option" where
  "replay_block lf bs log_seq pos seen_recs st =
     (let node = the_fnode lf st; read_len = min bs (fn_size node - pos)
      in case fn_seek pos node of
           None \<Rightarrow> Some (Break log_seq pos st)
         | Some (i, x_off) \<Rightarrow>
             let e = fn_extents node ! i
             in Option.bind (read_dev e (bx_offset e + x_off) (min (bx_len e - x_off) read_len) False st) (\<lambda>(r, bl, st1).
                  if r < 0 then Some (Return r st1)
                  else if bl = [] then Some (Break log_seq pos st1)
                  else arg (dec_bind dec_u8 (\<lambda>_. dec_bind dec_u8 (\<lambda>_. dec_u32))) bl (\<lambda>sl _.
                    let raw_tx_size = ucast sl + 6; need = p2roundup raw_tx_size bs
                    in Option.bind (if need > of_nat (length bl) then read_more lf bs pos (need - of_nat (length bl)) bl st1
                                    else Some (0, bl, st1)) (\<lambda>(r, bl2, st2).
                         if r < 0 then Some (Return r st2)
                         else replay_transaction lf bs raw_tx_size bl2 log_seq pos seen_recs st2))))"

partial_function (option) replay_loop :: "nat \<Rightarrow> u64 \<Rightarrow> u64 \<Rightarrow> u64 \<Rightarrow> bool \<Rightarrow> BlueFS \<Rightarrow> log_result option" where
  "replay_loop lf bs log_seq pos seen_recs st =
     (if \<not> pos < fn_size (the_fnode lf st) then Some (Break log_seq pos st)
      else case replay_block lf bs log_seq pos seen_recs st of
             None \<Rightarrow> None
           | Some (Continue log_seq' pos' seen' st') \<Rightarrow> replay_loop lf bs log_seq' pos' seen' st'
           | Some res \<Rightarrow> Some res)"

text \<open>Files without links are dropped once the log was replayed.\<close>

definition drop_orphans :: "BlueFS \<Rightarrow> BlueFS" where
  "drop_orphans st = st\<lparr>bf_file_map := filter (\<lambda>(ino, r). \<not> (ino > 1 \<and> fl_refs (the_file r st) \<le> 0)) (bf_file_map st)\<rparr>"

definition bf_replay :: "BlueFS \<Rightarrow> (int \<times> BlueFS) option" where
  "bf_replay st =
     (let (lf, st1) = bf_get_file 1 st
      in if fn_extents (the_fnode lf st1) = [] then Some (0, st1)
         else map_option (\<lambda>res. case res of
             Return r st2 \<Rightarrow> (r, st2)
           | Break log_seq pos st2 \<Rightarrow>
               (0, drop_orphans (upd_fnode lf (\<lambda>n. n\<lparr>fn_size := pos\<rparr>)
                     (st2\<lparr>bf_log_seq_live := log_seq + 1, bf_dirty_seq_live := log_seq + 1, bf_seq_stable := log_seq\<rparr>)))
           | Continue _ _ _ st2 \<Rightarrow> (0, st2))
           (replay_loop lf (ucast (su_block_size (bf_super st1))) 0 0 False st1))"

section \<open>mkfs, mount and umount\<close>

definition default_selector :: "BlueFS \<Rightarrow> BlueFS" where
  "default_selector st =
     (if bf_vselector st \<noteq> None then st
      else st\<lparr>bf_vselector := Some (new_original (bf_get_total BDEV_WAL st) (bf_get_total BDEV_DB st) (bf_get_total BDEV_SLOW st))\<rparr>)"

text \<open>\<open>rnd\<close> is what the kernel supplies for the identifier. The result of writing the first transaction is not looked at.\<close>

definition bf_mkfs :: "u64 \<Rightarrow> bytes \<Rightarrow> u64 \<Rightarrow> BlueFS \<Rightarrow> (int \<times> BlueFS) option" where
  "bf_mkfs junk rnd bluefs_alloc_size st0 =
     Option.bind (bf_init_alloc junk (default_selector st0)) (\<lambda>st1.
       let st2 = st1\<lparr>bf_super := (bf_super st1)\<lparr>su_uuid := stamp_uuid rnd, su_block_size := 4096, su_osd_uuid := zero_uuid\<rparr>\<rparr>;
           v = the (bf_vselector st2); hint = vs_hint_for_log v;
           (lf, st3) = make_file 1 st2;
           st4 = upd_file lf (\<lambda>f. f\<lparr>fl_hint := hint\<rparr>) st3
       in Option.bind (allocate_file (vs_select_prefer_bdev v hint) BLUEFS_LOG_INITIAL bluefs_alloc_size lf st4) (\<lambda>(r, st5).
            if r < 0 then Some (r, st5)
            else Option.bind (with_vs (vs_add_fnode hint (the_fnode lf st5)) st5) (\<lambda>st6.
              let (w, st7) = bf_create_writer lf st6;
                  t = (op_init ((bf_log_t st7)\<lparr>tx_uuid := su_uuid (bf_super st7)\<rparr>))\<lparr>tx_seq := 1\<rparr>;
                  st8 = st7\<lparr>bf_log_writer := Some w, bf_log_t := t\<rparr>
              in Option.bind (bf_flush_log_data (pad_blocks (su_block_size (bf_super st8)) (enc_transaction t)) st8) (\<lambda>(_, st9).
                   let st10 = clear_log_buffer (flush_log_bdev st9);
                       (r, st11) = bf_write_super BDEV_DB (st10\<lparr>bf_super := (bf_super st10)\<lparr>su_log_fnode := the_fnode lf st10\<rparr>\<rparr>)
                   in Some (if r < 0 then (r, st11)
                            else let st12 = (if has_bdev BDEV_DB st11
                                   then st11\<lparr>bf_bdev := (bf_bdev st11)[BDEV_DB := Some (snd (dev_flush (the (bf_bdev st11 ! BDEV_DB))))]\<rparr>
                                   else st11)
                                 in (0, (case bf_log_writer st12 of None \<Rightarrow> st12 | Some w \<Rightarrow> bf_close_writer_raw w st12)
                                          \<lparr>bf_log_writer := None\<rparr>))))))"

text \<open>The space of every file that is left is taken out of the allocators.\<close>

fun claim_space :: "bluefs_extent list \<Rightarrow> BlueFS \<Rightarrow> BlueFS option" where
  "claim_space [] st = Some st"
| "claim_space (e # es) st =
     (let b = unat (bx_bdev e)
      in if is_shared_alloc b st then claim_space es (st\<lparr>bf_bluefs_used := bf_bluefs_used st + bx_len e\<rparr>)
         else if b \<ge> length (bf_alloc st) then None
         else case bf_alloc st ! b of
           None \<Rightarrow> claim_space es st
         | Some a \<Rightarrow> Option.bind (avl_init_rm_free (bx_offset e) (bx_len e) a)
             (\<lambda>a'. claim_space es (st\<lparr>bf_alloc := (bf_alloc st)[b := Some a']\<rparr>)))"

fun claim_files :: "nat list \<Rightarrow> BlueFS \<Rightarrow> BlueFS option" where
  "claim_files [] st = Some st"
| "claim_files (r # rs) st =
     Option.bind (claim_space (fn_extents (the_fnode r st)) st) (\<lambda>st1.
       Option.bind (if_vs (vs_add_fnode (fl_hint (the_file r st1)) (the_fnode r st1)) st1) (claim_files rs))"

definition bf_mount :: "u64 \<Rightarrow> BlueFS \<Rightarrow> (int \<times> BlueFS) option" where
  "bf_mount junk st0 =
     Option.bind (bf_open_super st0) (\<lambda>(r, st1).
       if r < 0 then Some (r, st1)
       else Option.bind (bf_init_alloc junk (default_selector st1)) (\<lambda>st2.
         let (lf, st3) = make_file 1 st2;
             st4 = upd_file lf (\<lambda>f. f\<lparr>fl_fnode := su_log_fnode (bf_super st3), fl_hint := vs_hint_for_log (the (bf_vselector st3))\<rparr>) st3;
             st5 = st4\<lparr>bf_file_map := AList.update 1 lf (bf_file_map st4), bf_ino_last := 1\<rparr>
         in Option.bind (bf_replay st5) (\<lambda>(r, st6).
              if r < 0 then Some (r, st6)
              else Option.bind (claim_files (map snd (bf_file_map st6)) st6) (\<lambda>st7.
                let (r1, st8) = bf_get_file 1 st7; (w, st9) = bf_create_writer r1 st8
                in Some (0, upd_fnode lf reset_delta
                     (st9\<lparr>bf_log_writer := Some (w\<lparr>fw_pos := fn_size (the_fnode lf st9)\<rparr>)\<rparr>))))))"

text \<open>
  The results of flushing and of writing the superblock are not looked at. \<open>pending_release\<close> and the number of the last
  file are kept.
\<close>

definition bf_umount :: "BlueFS \<Rightarrow> BlueFS option" where
  "bf_umount st0 =
     map_option (\<lambda>st1. (bf_stop_alloc (st1\<lparr>bf_vselector := None\<rparr>))
         \<lparr>bf_file_map := [], bf_dir_map := [], bf_dirty_files := [], bf_seq_stable := 0, bf_dirty_seq_live := 1,
          bf_log_t := new_transaction, bf_super := new_super, bf_log_seq_live := 1\<rparr>)
       (if bf_log_writer st0 = None then Some st0
        else map_option (\<lambda>(_, st1).
               let st2 = flush_log_bdev st1;
                   (r, st3) = bf_get_file 1 st2;
                   (_, st4) = bf_write_super BDEV_DB (st3\<lparr>bf_super := (bf_super st3)\<lparr>su_log_fnode := the_fnode r st3\<rparr>\<rparr>)
               in (case bf_log_writer st4 of None \<Rightarrow> st4 | Some w \<Rightarrow> bf_close_writer_raw w st4)\<lparr>bf_log_writer := None\<rparr>)
             (bf_flush_and_sync_log 0 st0))"

end
