(* ===== verification/Bluefs_Files.thy ===== *)
theory Bluefs_Files
  imports Bluefs_Mount
begin

text \<open>
  The calls of BlueFS on directories and files: names, reading, truncation, synchronisation, compaction of the log, locks and
  what the RocksDB environment asks for.
\<close>

section \<open>Directories\<close>

definition bf_mkdir :: "bytes \<Rightarrow> BlueFS \<Rightarrow> int \<times> BlueFS" where
  "bf_mkdir dirname st =
     (if map_of (bf_dir_map st) dirname \<noteq> None then (- EEXIST, st)
      else (0, st\<lparr>bf_dir_map := om_set dirname [] (bf_dir_map st), bf_log_t := op_dir_create dirname (bf_log_t st)\<rparr>))"

definition bf_rmdir :: "bytes \<Rightarrow> BlueFS \<Rightarrow> int \<times> BlueFS" where
  "bf_rmdir dirname st =
     (case map_of (bf_dir_map st) dirname of
        None \<Rightarrow> (- ENOENT, st)
      | Some dir \<Rightarrow>
          if dir \<noteq> [] then (- ENOTEMPTY, st)
          else (0, st\<lparr>bf_dir_map := om_erase dirname (bf_dir_map st), bf_log_t := op_dir_remove dirname (bf_log_t st)\<rparr>))"

definition bf_dir_exists :: "bytes \<Rightarrow> BlueFS \<Rightarrow> bool" where
  "bf_dir_exists dirname st \<longleftrightarrow> map_of (bf_dir_map st) dirname \<noteq> None"

text \<open>Slashes at the end of the name are cut off; the empty name lists the directories.\<close>

definition strip_slashes :: "bytes \<Rightarrow> bytes" where
  "strip_slashes dirname = rev (dropWhile (\<lambda>c. c = 0x2f) (rev dirname))"

definition bf_readdir :: "bytes \<Rightarrow> BlueFS \<Rightarrow> int \<times> bytes list" where
  "bf_readdir dirname st =
     (let d = strip_slashes dirname
      in if d = [] then (0, map fst (bf_dir_map st))
         else case map_of (bf_dir_map st) d of None \<Rightarrow> (- ENOENT, []) | Some dir \<Rightarrow> (0, map fst dir))"

text \<open>A directory or an entry that is missing is \<open>-ENOENT\<close>; otherwise the file, its size and its time.\<close>

definition bf_stat :: "bytes \<Rightarrow> bytes \<Rightarrow> BlueFS \<Rightarrow> int \<times> (u64 \<times> u64) option" where
  "bf_stat dirname filename st =
     (case lookup_entry dirname filename st of
        None \<Rightarrow> (- ENOENT, None)
      | Some r \<Rightarrow> (0, Some (fn_size (the_fnode r st), fn_mtime (the_fnode r st))))"

section \<open>Links\<close>

text \<open>\<open>std::map::insert\<close> keeps an entry that is there.\<close>

definition pr_insert :: "bluefs_extent \<Rightarrow> BlueFS \<Rightarrow> BlueFS option" where
  "pr_insert e st =
     (let b = unat (bx_bdev e); m = bf_pending_release st ! b
      in if b \<ge> length (bf_pending_release st) then None
         else Some (st\<lparr>bf_pending_release := (bf_pending_release st)[b :=
                (if map_of m (bx_offset e) \<noteq> None then m else om_set (bx_offset e) (bx_len e) m)]\<rparr>))"

fun add_pending :: "bluefs_extent list \<Rightarrow> BlueFS \<Rightarrow> BlueFS option" where
  "add_pending [] st = Some st"
| "add_pending (e # es) st = Option.bind (pr_insert e st) (add_pending es)"

text \<open>A file that goes is no longer logged.\<close>

definition retract_dirty :: "nat \<Rightarrow> BlueFS \<Rightarrow> BlueFS" where
  "retract_dirty r st =
     (let ds = fl_dirty_seq (the_file r st)
      in if ds > bf_seq_stable st
         then upd_file r (\<lambda>f. f\<lparr>fl_dirty_seq := bf_seq_stable st\<rparr>)
                (case map_of (bf_dirty_files st) ds of
                   None \<Rightarrow> st
                 | Some rs \<Rightarrow>
                     let v = filter (\<lambda>x. x \<noteq> r) rs
                     in st\<lparr>bf_dirty_files := (if v = [] then om_erase ds (bf_dirty_files st) else om_set ds v (bf_dirty_files st))\<rparr>)
         else st)"

definition bf_drop_link :: "nat \<Rightarrow> BlueFS \<Rightarrow> BlueFS option" where
  "bf_drop_link r st =
     (let st1 = upd_file r (\<lambda>f. f\<lparr>fl_refs := fl_refs f - 1\<rparr>) st
      in if fl_refs (the_file r st1) \<noteq> 0 then Some st1
         else let ino = fn_ino (the_fnode r st1)
              in Option.bind (if_vs (vs_sub_fnode (fl_hint (the_file r st1)) (the_fnode r st1)) st1) (\<lambda>st2.
                   map_option (retract_dirty r)
                     (add_pending (fn_extents (the_fnode r st2))
                       (upd_file r (\<lambda>f. f\<lparr>fl_deleted := True\<rparr>)
                         (st2\<lparr>bf_log_t := op_file_remove ino (bf_log_t st2), bf_file_map := AList.delete ino (bf_file_map st2)\<rparr>)))))"

definition bf_unlink :: "bytes \<Rightarrow> bytes \<Rightarrow> BlueFS \<Rightarrow> (int \<times> BlueFS) option" where
  "bf_unlink dirname filename st =
     (case lookup_entry dirname filename st of
        None \<Rightarrow> Some (- ENOENT, st)
      | Some r \<Rightarrow>
          let st1 = erase_entry_of dirname filename st
          in map_option (Pair 0) (bf_drop_link r (st1\<lparr>bf_log_t := op_dir_unlink dirname filename (bf_log_t st1)\<rparr>)))"

definition bf_rename :: "bytes \<Rightarrow> bytes \<Rightarrow> bytes \<Rightarrow> bytes \<Rightarrow> BlueFS \<Rightarrow> int \<times> BlueFS" where
  "bf_rename old_dirname old_filename new_dirname new_filename st =
     (case lookup_entry old_dirname old_filename st of
        None \<Rightarrow> (- ENOENT, st)
      | Some r \<Rightarrow>
          if map_of (bf_dir_map st) new_dirname = None then (- ENOENT, st)
          else let target = lookup_entry new_dirname new_filename st;
                   t1 = (if target \<noteq> None \<and> target \<noteq> Some r then op_dir_unlink new_dirname new_filename (bf_log_t st) else bf_log_t st);
                   st1 = erase_entry_of old_dirname old_filename (set_entry_of new_dirname new_filename r st);
                   t2 = op_dir_link new_dirname new_filename (fn_ino (the_fnode r st1)) t1
               in (0, st1\<lparr>bf_log_t := op_dir_unlink old_dirname old_filename t2\<rparr>))"

section \<open>Opening files\<close>

definition log_link :: "bytes \<Rightarrow> bytes \<Rightarrow> nat \<Rightarrow> BlueFS \<Rightarrow> BlueFS" where
  "log_link dirname filename r st = st\<lparr>bf_log_t := op_dir_link dirname filename (fn_ino (the_fnode r st)) (bf_log_t st)\<rparr>"

text \<open>A new file with the next number, linked from one entry.\<close>

definition new_linked_file :: "bytes \<Rightarrow> bytes \<Rightarrow> u64 \<Rightarrow> BlueFS \<Rightarrow> nat \<times> BlueFS" where
  "new_linked_file dirname filename hint st =
     (let ino = bf_ino_last st + 1; (r, st1) = make_file 0 (st\<lparr>bf_ino_last := ino\<rparr>);
          st2 = upd_file r (\<lambda>f. f\<lparr>fl_fnode := (fl_fnode f)\<lparr>fn_ino := ino\<rparr>, fl_hint := hint, fl_refs := fl_refs f + 1\<rparr>) st1
      in (r, set_entry_of dirname filename r (st2\<lparr>bf_file_map := AList.update ino r (bf_file_map st2)\<rparr>)))"

definition open_create :: "bytes \<Rightarrow> bytes \<Rightarrow> BlueFS \<Rightarrow> (FileWriter \<times> BlueFS) option" where
  "open_create dirname filename st =
     (case bf_vselector st of
        None \<Rightarrow> None
      | Some v \<Rightarrow>
          let (r, st1) = new_linked_file dirname filename (vs_hint_by_dir v dirname) st;
              st2 = upd_fnode r (\<lambda>n. n\<lparr>fn_mtime := 0\<rparr>) st1
          in Some (bf_create_writer r (log_link dirname filename r (log_update r st2))))"

definition open_existing :: "nat \<Rightarrow> bool \<Rightarrow> BlueFS \<Rightarrow> (FileWriter \<times> BlueFS) option" where
  "open_existing r overwrite st =
     (let old = (if overwrite then [] else fn_extents (the_fnode r st))
      in Option.bind (if overwrite then Some st
                      else map_option (upd_fnode r (\<lambda>n. clear_extents (n\<lparr>fn_size := 0\<rparr>)))
                             (with_vs (vs_sub_fnode (fl_hint (the_file r st)) (the_fnode r st)) st)) (\<lambda>st1.
           map_option (bf_create_writer r) (add_pending old (log_update r (upd_fnode r (\<lambda>n. n\<lparr>fn_mtime := 0\<rparr>) st1)))))"

definition bf_open_for_write :: "bytes \<Rightarrow> bytes \<Rightarrow> bool \<Rightarrow> BlueFS \<Rightarrow> (int \<times> FileWriter option \<times> BlueFS) option" where
  "bf_open_for_write dirname filename overwrite st =
     (case map_of (bf_dir_map st) dirname of
        None \<Rightarrow> Some (- ENOENT, None, st)
      | Some dir \<Rightarrow>
          case map_of dir filename of
            None \<Rightarrow> if overwrite then Some (- ENOENT, None, st)
                    else map_option (\<lambda>(w, st1). (0, Some w, st1)) (open_create dirname filename st)
          | Some r \<Rightarrow> map_option (\<lambda>(w, st1). (0, Some w, st1)) (open_existing r overwrite st))"

section \<open>Reading\<close>

record FileReader =
  fr_file :: nat
  fr_bl_off :: u64
  fr_bl :: bytes
  fr_pos :: u64
  fr_max_prefetch :: u64
  fr_random :: bool
  fr_ignore_eof :: bool

definition fr_buf_end :: "FileReader \<Rightarrow> u64" where
  "fr_buf_end h = fr_bl_off h + of_nat (length (fr_bl h))"

definition fr_buf_remaining :: "u64 \<Rightarrow> FileReader \<Rightarrow> u64" where
  "fr_buf_remaining p h = (if p \<ge> fr_bl_off h \<and> p < fr_buf_end h then fr_buf_end h - p else 0)"

definition fr_skip :: "u64 \<Rightarrow> FileReader \<Rightarrow> FileReader" where
  "fr_skip n h = h\<lparr>fr_pos := fr_pos h + n\<rparr>"

definition fr_invalidate_cache :: "u64 \<Rightarrow> FileReader \<Rightarrow> FileReader" where
  "fr_invalidate_cache offset h =
     (if offset \<ge> fr_bl_off h \<and> offset < fr_buf_end h then h\<lparr>fr_bl := [], fr_bl_off := 0\<rparr> else h)"

definition bf_open_for_read :: "bytes \<Rightarrow> bytes \<Rightarrow> bool \<Rightarrow> BlueFS \<Rightarrow> int \<times> FileReader option \<times> BlueFS" where
  "bf_open_for_read dirname filename random st =
     (case lookup_entry dirname filename st of
        None \<Rightarrow> (- ENOENT, None, st)
      | Some r \<Rightarrow>
          (0, Some \<lparr>fr_file = r, fr_bl_off = 0, fr_bl = [], fr_pos = 0,
                    fr_max_prefetch = (if random then 4096 else bc_max_prefetch (bf_cfg st)), fr_random = random, fr_ignore_eof = False\<rparr>,
           upd_file r (\<lambda>f. f\<lparr>fl_num_readers := fl_num_readers f + 1\<rparr>) st))"

definition bf_close_reader :: "FileReader \<Rightarrow> BlueFS \<Rightarrow> BlueFS" where
  "bf_close_reader h = upd_file (fr_file h) (\<lambda>f. f\<lparr>fl_num_readers := fl_num_readers f - 1\<rparr>)"

text \<open>The length that is left in the file.\<close>

definition clip_len :: "FileReader \<Rightarrow> u64 \<Rightarrow> u64 \<Rightarrow> BlueFS \<Rightarrow> u64" where
  "clip_len h off len st =
     (let sz = fn_size (the_fnode (fr_file h) st)
      in if \<not> fr_ignore_eof h \<and> off + len > sz then (if off > sz then 0 else sz - off) else len)"

definition use_buffered :: "FileReader \<Rightarrow> BlueFS \<Rightarrow> bool" where
  "use_buffered h st \<longleftrightarrow> fn_ino (the_fnode (fr_file h) st) \<noteq> 1 \<and> bc_buffered_io (bf_cfg st)"

text \<open>A miss fills the buffer from the block of \<open>off\<close> on: how much is read.\<close>

definition fill_len :: "FileReader \<Rightarrow> u64 \<Rightarrow> u64 \<Rightarrow> u64 \<Rightarrow> u64 \<Rightarrow> BlueFS \<Rightarrow> u64" where
  "fill_len h off len bl_off room st =
     (let bs = ucast (su_block_size (bf_super st)); off_align = off AND NOT (block_mask (bf_super st));
          want = max (p2roundup (len + off_align) bs) (fr_max_prefetch h);
          l = min (min room want) (2 ^ 30);
          eof_offset = p2roundup (fn_size (the_fnode (fr_file h) st)) bs
      in if \<not> fr_ignore_eof h \<and> bl_off + l > eof_offset then eof_offset - bl_off else l)"

text \<open>\<open>acc\<close> is what was copied out so far. The loop need not end.\<close>

partial_function (option) bf_read_loop ::
  "FileReader \<Rightarrow> u64 \<Rightarrow> u64 \<Rightarrow> bytes \<Rightarrow> BlueFS \<Rightarrow> (int \<times> bytes \<times> FileReader \<times> BlueFS) option" where
  "bf_read_loop h off len acc st =
     (if len = 0 then Some (int (length acc), acc, h, st)
      else if off < fr_bl_off h \<or> off \<ge> fr_buf_end h
      then let bl_off = off AND block_mask (bf_super st); h1 = h\<lparr>fr_bl := [], fr_bl_off := bl_off\<rparr>; node = the_fnode (fr_file h) st
           in case fn_seek bl_off node of
                None \<Rightarrow> Some (int (length acc), acc, h1, st)
              | Some (i, x_off) \<Rightarrow>
                  let e = fn_extents node ! i
                  in Option.bind (read_dev e (bx_offset e + x_off) (fill_len h off len bl_off (bx_len e - x_off) st) (use_buffered h st) st)
                       (\<lambda>(r, bl, st1). if r < 0 then Some (r, acc, h1, st1) else bf_read_loop (h1\<lparr>fr_bl := bl\<rparr>) off len acc st1)
      else let r = min len (fr_buf_remaining off h);
               part = take (unat r) (drop (unat (off - fr_bl_off h)) (fr_bl h))
           in bf_read_loop (fr_skip r h) (off + r) (len - r) (acc @ part) st)"

definition bf_read :: "FileReader \<Rightarrow> u64 \<Rightarrow> u64 \<Rightarrow> BlueFS \<Rightarrow> (int \<times> bytes \<times> FileReader \<times> BlueFS) option" where
  "bf_read h off len st = bf_read_loop h off (clip_len h off len st) [] st"

text \<open>
  \<open>KernelDevice::read_random\<close> returns the count of one \<open>pread\<close>; the bytes of the caller's buffer behind it stay as
  they were.
\<close>

definition dev_read_random :: "u64 \<Rightarrow> u64 \<Rightarrow> bool \<Rightarrow> BlockDevice \<Rightarrow> int \<times> bytes \<times> BlockDevice" where
  "dev_read_random off len buffered d =
     (if len = 0 \<or> off + len < off then (- EINVAL, [], d)
      else if \<not> (if buffered then bd_fd_buffered d else bd_fd_direct d) then (- EBADF, [], d)
      else case next_sys d of
             (Fail e, d') \<Rightarrow> (- int e, [], d')
           | (s, d') \<Rightarrow>
               let avail = min (unat len) (bd_len d - unat off); n = (case s of Short k \<Rightarrow> min k avail | _ \<Rightarrow> avail)
               in (as_int n, bytes_at d (unat off) n @ map (bd_junk d) [n ..< unat len], d'))"

text \<open>Whatever the count, the loop goes on behind the range it asked for.\<close>

partial_function (option) bf_read_random_loop ::
  "FileReader \<Rightarrow> u64 \<Rightarrow> u64 \<Rightarrow> bytes \<Rightarrow> BlueFS \<Rightarrow> (int \<times> bytes \<times> BlueFS) option" where
  "bf_read_random_loop h off len acc st =
     (if len = 0 then Some (int (length acc), acc, st)
      else let node = the_fnode (fr_file h) st
           in case fn_seek off node of
                None \<Rightarrow> Some (int (length acc), acc, st)
              | Some (i, x_off) \<Rightarrow>
                  let e = fn_extents node ! i; l = min (min (bx_len e - x_off) len) (2 ^ 30); b = unat (bx_bdev e)
                  in if \<not> has_bdev b st then None
                     else let (r, bl, d) = dev_read_random (bx_offset e + x_off) l (use_buffered h st) (the (bf_bdev st ! b));
                              st1 = st\<lparr>bf_bdev := (bf_bdev st)[b := Some d]\<rparr>
                          in if r < 0 then Some (r, acc, st1)
                             else bf_read_random_loop h (off + l) (len - l) (acc @ bl) st1)"

definition bf_read_random :: "FileReader \<Rightarrow> u64 \<Rightarrow> u64 \<Rightarrow> BlueFS \<Rightarrow> (int \<times> bytes \<times> BlueFS) option" where
  "bf_read_random h off len st = bf_read_random_loop h off (clip_len h off len st) [] st"

end
