(* ===== verification/Bluefs_Sync.thy ===== *)
theory Bluefs_Sync
  imports Bluefs_Files
begin

text \<open>
  Truncation, preallocation, synchronisation, compaction of the log, file locks and the destructor of BlueFS.
\<close>

section \<open>Truncation and preallocation\<close>

text \<open>The loop of \<open>truncate\<close>: what is kept is appended to the node, the rest is to be freed.\<close>

fun truncate_extents :: "u64 \<Rightarrow> u64 \<Rightarrow> bluefs_extent list \<Rightarrow> bluefs_fnode \<Rightarrow> bluefs_fnode \<times> bluefs_extent list" where
  "truncate_extents offset pos [] n = (n, [])"
| "truncate_extents offset pos (e # es) n =
     (if pos < offset
      then let keep = min (bx_len e) (offset - pos);
               n1 = append_extent (e\<lparr>bx_length := ucast keep\<rparr>) n;
               rest = (if keep < bx_len e
                       then [e\<lparr>bx_offset := bx_offset e + keep, bx_length := ucast (bx_len e - keep)\<rparr>] else []);
               (n2, to_free) = truncate_extents offset (pos + bx_len e) es n1
           in (n2, rest @ to_free)
      else let (n2, to_free) = truncate_extents offset (pos + bx_len e) es n in (n2, e # to_free))"

definition truncate_fnode :: "u64 \<Rightarrow> bluefs_fnode \<Rightarrow> bluefs_fnode \<times> bluefs_extent list" where
  "truncate_fnode offset n =
     (let (n1, to_free) = truncate_extents offset 0 (fn_extents n) (n\<lparr>fn_extents := [], fn_extents_index := [], fn_allocated := 0\<rparr>)
      in (n1\<lparr>fn_size := offset\<rparr>, to_free))"

definition truncate_file :: "nat \<Rightarrow> u64 \<Rightarrow> BlueFS \<Rightarrow> BlueFS option" where
  "truncate_file r offset st =
     Option.bind (if_vs (vs_sub_fnode (fl_hint (the_file r st)) (the_fnode r st)) st) (\<lambda>st1.
       let (n, to_free) = truncate_fnode offset (the_fnode r st1);
           st2 = upd_file r (\<lambda>f. f\<lparr>fl_fnode := n, fl_is_dirty := True\<rparr>) st1
       in Option.bind (if_vs (vs_add_fnode (fl_hint (the_file r st2)) n) st2) (\<lambda>st3.
            map_option (log_update r) (add_pending to_free st3)))"

definition bf_truncate :: "FileWriter \<Rightarrow> u64 \<Rightarrow> BlueFS \<Rightarrow> (int \<times> FileWriter \<times> BlueFS) option" where
  "bf_truncate w offset st =
     (let r = fw_file w; n = the_fnode r st
      in if fl_deleted (the_file r st) then Some (0, w, st)
         else if fn_ino n \<le> 1 \<or> offset > fn_size n then Some (- EINVAL, w, st)
         else if offset = fn_size n then Some (0, w, st)
         else Option.bind (if fw_buffer_length w \<noteq> 0 then bf_flush_F w True st else Some (0, w, st)) (\<lambda>(res, w1, st1).
                if res < 0 then Some (res, w1, st1)
                else let (w2, st2) = bf_flush_bdev w1 st1
                     in map_option (\<lambda>st3. (0, w2, st3)) (truncate_file r offset st2)))"

definition bf_preallocate :: "nat \<Rightarrow> u64 \<Rightarrow> u64 \<Rightarrow> BlueFS \<Rightarrow> (int \<times> BlueFS) option" where
  "bf_preallocate r off len st =
     (let n = the_fnode r st
      in if fl_deleted (the_file r st) then Some (0, st)
         else if \<not> fn_ino n > 1 then None
         else if off + len > fn_allocated n
         then case bf_vselector st of
                None \<Rightarrow> None
              | Some v \<Rightarrow>
                  map_option (\<lambda>(res, st1). if res < 0 then (res, st1) else (0, log_update_inc r st1))
                    (allocate_file (vs_select_prefer_bdev v (fl_hint (the_file r st))) (off + len - fn_allocated n) 0 r st)
         else Some (0, st))"

section \<open>Compaction of the log\<close>

text \<open>\<open>sizeof\<close> of a file node and of a delta where pointers have eight bytes.\<close>

definition sizeof_fnode :: nat where "sizeof_fnode = 96"
definition sizeof_delta :: nat where "sizeof_delta = 56"

definition bf_estimate_log_size :: "BlueFS \<Rightarrow> u64" where
  "bf_estimate_log_size st =
     (let files = of_nat (length (bf_file_map st)); dirs = of_nat (length (bf_dir_map st))
      in p2roundup (4096 * 2 + files * of_nat (1 + sizeof_fnode + sizeof_delta) + dirs * (1 + 40) + files * (1 + 40 + 12) + 24)
           (ucast (su_block_size (bf_super st))))"

definition bf_should_compact :: "fpu \<Rightarrow> BlueFS \<Rightarrow> bool \<times> BlueFS" where
  "bf_should_compact fp st =
     (if bf_log_is_compacting st then (False, st)
      else let (lf, st1) = bf_get_file 1 st; current = fn_size (the_fnode lf st1); expected = bf_estimate_log_size st1
           in (\<not> current < bc_log_compact_min_size (bf_cfg st1) \<and>
               \<not> double fp (double fp (real (unat current)) / double fp (real (unat expected))) < bc_log_compact_min_ratio (bf_cfg st1),
               st1))"

text \<open>The metadata as one transaction; writing out a file node resets its delta.\<close>

definition dump_dir :: "(bytes \<times> (bytes \<times> nat) list) \<Rightarrow> BlueFS \<Rightarrow> bluefs_transaction \<Rightarrow> bluefs_transaction" where
  "dump_dir d st t =
     fold (\<lambda>(fname, r) t. if fn_ino (the_fnode r st) = 1 then t else op_dir_link (fst d) fname (fn_ino (the_fnode r st)) t)
       (snd d) (op_dir_create (fst d) t)"

definition dump_file :: "u64 \<times> nat \<Rightarrow> BlueFS \<times> bluefs_transaction \<Rightarrow> BlueFS \<times> bluefs_transaction" where
  "dump_file p stt =
     (let (ino, r) = p; (st, t) = stt
      in if ino = 1 then (st, t)
         else let (n, t') = op_file_update (the_fnode r st) t in (upd_fnode r (\<lambda>_. n) st, t'))"

definition bf_dump_metadata :: "BlueFS \<Rightarrow> bluefs_transaction \<Rightarrow> BlueFS \<times> bluefs_transaction" where
  "bf_dump_metadata st t =
     fold dump_file (bf_file_map st) (st, fold (\<lambda>d. dump_dir d st) (bf_dir_map st) (t\<lparr>tx_uuid := su_uuid (bf_super st)\<rparr>))"

definition flush_db :: "BlueFS \<Rightarrow> BlueFS" where
  "flush_db st =
     (if has_bdev BDEV_DB st
      then st\<lparr>bf_bdev := (bf_bdev st)[BDEV_DB := Some (snd (dev_flush (the (bf_bdev st ! BDEV_DB))))]\<rparr> else st)"

text \<open>A writer on the new log, at position 0, writes the compacted transaction.\<close>

definition rewrite_log :: "nat \<Rightarrow> bytes \<Rightarrow> BlueFS \<Rightarrow> (int \<times> BlueFS) option" where
  "rewrite_log lf bl st =
     (let st1 = (case bf_log_writer st of None \<Rightarrow> st | Some w \<Rightarrow> bf_close_writer_raw w st);
          (w, st2) = bf_create_writer lf st1;
          w1 = w\<lparr>fw_pos := 0, fw_buffer := bl\<rparr>
      in map_option (\<lambda>(r, w2, st3).
             if r < 0 then (r, st3\<lparr>bf_log_writer := Some (w2\<lparr>fw_buffer := []\<rparr>)\<rparr>)
             else let (w3, st4) = bf_flush_bdev (w2\<lparr>fw_buffer := []\<rparr>) st3 in (r, st4\<lparr>bf_log_writer := Some w3\<rparr>))
           (bf_flush_data w1 0 (of_nat (length bl)) False (upd_fnode lf (\<lambda>n. n\<lparr>fn_size := 0\<rparr>) st2)))"

text \<open>The new superblock is written before the space of the old log is freed.\<close>

definition publish_log :: "nat \<Rightarrow> bluefs_fnode \<Rightarrow> BlueFS \<Rightarrow> (int \<times> BlueFS) option" where
  "publish_log lf old_fnode st =
     (let (r, st1) = bf_write_super BDEV_DB (st\<lparr>bf_super := (bf_super st)\<lparr>su_log_fnode := the_fnode lf st\<rparr>\<rparr>)
      in if r < 0 then Some (r, st1)
         else map_option (\<lambda>st2. (0, st2\<lparr>bf_log_t := new_transaction\<lparr>tx_uuid := su_uuid (bf_super st2), tx_seq := bf_log_seq_live st2\<rparr>\<rparr>))
                (add_pending (fn_extents old_fnode) (flush_db st1)))"

definition compact_log_body :: "BlueFS \<Rightarrow> (int \<times> BlueFS) option" where
  "compact_log_body st =
     (let (lf, st1) = bf_get_file 1 st; log_hint = fl_hint (the_file lf st1)
      in case bf_vselector st1 of
           None \<Rightarrow> None
         | Some v \<Rightarrow>
             let prefer = vs_select_prefer_bdev v (vs_hint_for_log v);
                 old_fnode = copy_fnode (the_fnode lf st1);
                 (st2, t) = bf_dump_metadata st1 (new_transaction\<lparr>tx_seq := 1\<rparr>);
                 bl = pad_blocks (su_block_size (bf_super st2)) (enc_transaction (op_jump_seq (bf_log_seq_live st) t))
             in Option.bind (if log_hint \<noteq> 0
                    then with_vs (\<lambda>v. Option.bind (vs_sub_fnode log_hint old_fnode v) (vs_sub_size log_hint (fn_size old_fnode) True)) st2
                    else Some st2) (\<lambda>st3.
                  Option.bind (allocate_file prefer (of_nat (length bl)) (bc_alloc_size (bf_cfg st3)) lf
                      (upd_fnode lf clear_extents st3)) (\<lambda>(r, st4).
                    if r < 0 then Some (r, upd_fnode lf (\<lambda>_. old_fnode) st4)
                    else Option.bind (if log_hint \<noteq> 0
                        then with_vs (\<lambda>v. Option.bind (vs_add_fnode log_hint (the_fnode lf st4) v)
                               (vs_add_size log_hint (fn_size (the_fnode lf st4)) True)) st4
                        else Some st4) (\<lambda>st5.
                      Option.bind (rewrite_log lf bl st5) (\<lambda>(r, st6).
                        if r < 0 then Some (r, st6) else publish_log lf old_fnode st6)))))"

text \<open>The flag is set before \<open>_should_compact\<close> is asked, which looks at it.\<close>

definition bf_compact_log_async :: "fpu \<Rightarrow> BlueFS \<Rightarrow> (int \<times> BlueFS) option" where
  "bf_compact_log_async fp st =
     (if bf_log_is_compacting st then Some (0, st)
      else let (should, st1) = bf_should_compact fp (st\<lparr>bf_log_is_compacting := True\<rparr>)
           in if \<not> should then Some (0, st1\<lparr>bf_log_is_compacting := False\<rparr>)
              else map_option (\<lambda>(r, st2). (r, st2\<lparr>bf_log_is_compacting := False\<rparr>)) (compact_log_body st1))"

definition bf_compact_log :: "fpu \<Rightarrow> BlueFS \<Rightarrow> (int \<times> BlueFS) option" where
  "bf_compact_log = bf_compact_log_async"

definition bf_maybe_compact_log :: "fpu \<Rightarrow> BlueFS \<Rightarrow> BlueFS option" where
  "bf_maybe_compact_log fp st =
     (let (should, st1) = bf_should_compact fp st
      in if should then map_option snd (bf_compact_log_async fp st1) else Some st1)"

definition bf_sync_metadata :: "fpu \<Rightarrow> bool \<Rightarrow> BlueFS \<Rightarrow> (int \<times> BlueFS) option" where
  "bf_sync_metadata fp avoid_compact st =
     Option.bind (bf_flush_and_sync_log 0 st) (\<lambda>(r, st1).
       if r < 0 then Some (r, st1)
       else let (lf, st2) = bf_get_file 1 st1;
                (r, st3) = bf_write_super BDEV_DB (st2\<lparr>bf_super := (bf_super st2)\<lparr>su_log_fnode := the_fnode lf st2\<rparr>\<rparr>)
            in if r < 0 then Some (r, st3)
               else if avoid_compact then Some (0, flush_db st3)
               else map_option (Pair 0) (bf_maybe_compact_log fp (flush_db st3)))"

section \<open>Locks, cache and shutdown\<close>

text \<open>A lock is the file it locks. A missing file is created, but not logged.\<close>

definition bf_lock_file :: "bytes \<Rightarrow> bytes \<Rightarrow> BlueFS \<Rightarrow> int \<times> nat option \<times> BlueFS" where
  "bf_lock_file dirname filename st =
     (case map_of (bf_dir_map st) dirname of
        None \<Rightarrow> (- ENOENT, None, st)
      | Some dir \<Rightarrow>
          let (r, st1) = (case map_of dir filename of None \<Rightarrow> new_linked_file dirname filename 0 st | Some r \<Rightarrow> (r, st))
          in if fl_locked (the_file r st1) then (- ENOLCK, None, st1)
             else (0, Some r, upd_file r (\<lambda>f. f\<lparr>fl_locked := True\<rparr>) st1))"

definition bf_unlock_file :: "nat \<Rightarrow> BlueFS \<Rightarrow> (int \<times> BlueFS) option" where
  "bf_unlock_file r st =
     (if \<not> fl_locked (the_file r st) then None else Some (0, upd_file r (\<lambda>f. f\<lparr>fl_locked := False\<rparr>) st))"

text \<open>The ranges the kernel is told to drop from its cache: device, offset, length.\<close>

fun advise :: "bluefs_extent list \<Rightarrow> u64 \<Rightarrow> u64 \<Rightarrow> (u8 \<times> u64 \<times> u64) list" where
  "advise [] x_off len = []"
| "advise (e # es) x_off len =
     (if len = 0 then []
      else let x_len = min (bx_len e - x_off) len in (bx_bdev e, bx_offset e + x_off, x_len) # advise es 0 (len - x_len))"

definition bf_invalidate_cache :: "nat \<Rightarrow> u64 \<Rightarrow> u64 \<Rightarrow> BlueFS \<Rightarrow> (u8 \<times> u64 \<times> u64) list" where
  "bf_invalidate_cache r offset len st =
     (let m = block_mask (bf_super st); delta = offset AND NOT m;
          (offset1, len1) = (if delta \<noteq> 0 then (offset AND m, round_up_to (len + delta) (ucast (su_block_size (bf_super st))))
                             else (offset, len))
      in case fn_seek offset1 (the_fnode r st) of
           None \<Rightarrow> []
         | Some (i, x_off) \<Rightarrow> advise (drop i (fn_extents (the_fnode r st))) x_off len1)"

definition bf_destroy :: "BlueFS \<Rightarrow> BlockDevice option list option" where
  "bf_destroy st = map_option (\<lambda>st1. map (map_option dev_close) (bf_bdev st1)) (bf_umount st)"

end
