(* ===== verification/Bluefs_Names.thy ===== *)
theory Bluefs_Names
  imports Bluefs_Types_Correct Bluefs_Sync
begin

text \<open>
  Properties of the names of BlueFS: what rename does to the directories, what a failed write of the log leaves behind, and why
  the log is never compacted.
\<close>

section \<open>Directories\<close>

lemma lookup_simps [simp]:
  "lookup_entry d f (st\<lparr>bf_log_t := t\<rparr>) = lookup_entry d f st"
  "lookup_entry d f (st\<lparr>bf_files := fs\<rparr>) = lookup_entry d f st"
  by (simp_all add: lookup_entry_def)

lemma lookup_set_entry:
  "map_of (bf_dir_map st) d \<noteq> None \<Longrightarrow>
   lookup_entry d' f' (set_entry_of d f r st) = (if d' = d \<and> f' = f then Some r else lookup_entry d' f' st)"
  by (auto simp: lookup_entry_def set_entry_of_def map_of_om_set)

lemma lookup_erase_entry:
  "lookup_entry d' f' (erase_entry_of d f st) = (if d' = d \<and> f' = f then None else lookup_entry d' f' st)"
  by (cases "map_of (bf_dir_map st) d") (auto simp: lookup_entry_def erase_entry_of_def map_of_om_set map_of_om_erase)

lemma entry_files [simp]:
  "bf_files (set_entry_of d f r st) = bf_files st" "bf_files (erase_entry_of d f st) = bf_files st"
  "bf_file_map (set_entry_of d f r st) = bf_file_map st" "bf_file_map (erase_entry_of d f st) = bf_file_map st"
  "bf_log_t (set_entry_of d f r st) = bf_log_t st" "bf_log_t (erase_entry_of d f st) = bf_log_t st"
  by (simp_all add: set_entry_of_def erase_entry_of_def split: option.splits)

text \<open>
  C38: renaming moves the entry: the new name leads to the file, the old one is gone, all others are as before. When both
  names are the same the entry is gone. No file object is touched: a file that the new name led to before keeps its
  link count, its number and its space.
\<close>

theorem rename_exact:
  assumes "lookup_entry d0 f0 st = Some r" "map_of (bf_dir_map st) d1 \<noteq> None"
  shows "fst (bf_rename d0 f0 d1 f1 st) = 0 \<and>
    (\<forall>d f. lookup_entry d f (snd (bf_rename d0 f0 d1 f1 st)) =
       (if d = d0 \<and> f = f0 then None else if d = d1 \<and> f = f1 then Some r else lookup_entry d f st)) \<and>
    bf_files (snd (bf_rename d0 f0 d1 f1 st)) = bf_files st \<and> bf_file_map (snd (bf_rename d0 f0 d1 f1 st)) = bf_file_map st"
  using assms by (auto simp: bf_rename_def Let_def lookup_erase_entry lookup_set_entry)

definition two_files :: BlueFS where
  "two_files = (new_BlueFS default_BlueFSConfig)\<lparr>bf_dir_map := [([100], [([97], 0), ([98], 1)])],
     bf_file_map := [(2, 0), (3, 1)], bf_files := [(new_File 2)\<lparr>fl_refs := 1\<rparr>, (new_File 3)\<lparr>fl_refs := 1\<rparr>]\<rparr>"

theorem rename_exact_witness:
  "lookup_entry [100] [97] (snd (bf_rename [100] [97] [100] [97] two_files)) = None \<and>
   lookup_entry [100] [98] (snd (bf_rename [100] [97] [100] [97] two_files)) = Some 1"
proof -
  have "lookup_entry [100] [97] two_files = Some 0" "map_of (bf_dir_map two_files) [100] \<noteq> None"
    "lookup_entry [100] [98] two_files = Some 1"
    by (simp_all add: two_files_def lookup_entry_def)
  with rename_exact [OF this(1,2), of "[97]"] show ?thesis by simp
qed

section \<open>Failed log writes\<close>

lemma log_update_seqs [simp]:
  "bf_log_seq_live (log_update_inc r st) = bf_log_seq_live st"
  "bf_log_seq_live (upd_file r g st) = bf_log_seq_live st" "bf_log_seq_live (upd_fnode r h st) = bf_log_seq_live st"
  by (simp_all add: log_update_inc_def upd_fnode_def upd_file_def case_prod_unfold Let_def)

lemma fold_update_seq [simp]: "bf_log_seq_live (fold log_update_inc rs st) = bf_log_seq_live st"
  by (induction rs arbitrary: st) simp_all

lemma consume_seq [simp]: "bf_log_seq_live (bf_consume_dirty s st) = bf_log_seq_live st"
  by (simp add: bf_consume_dirty_def split: option.splits)

lemma allocate_on_seq:
  "allocate_on ds need unit node hint st = Some (r, n, h, st') \<Longrightarrow> bf_log_seq_live st' = bf_log_seq_live st"
proof (induction ds arbitrary: st)
  case (Cons dv dvs)
  show ?case
  proof (cases "\<not> has_bdev dv st \<or> (is_shared_alloc dv st \<and> bf_alloc st ! dv = None)")
    case True
    then show ?thesis using Cons by simp
  next
    case False
    then obtain a len es a' where a: "bf_alloc st ! dv = Some a" "avl_allocate need unit 0 a = Some (len, es, a')"
      using Cons.prems by (auto split: option.splits)
    show ?thesis
    proof (cases "len \<le> 0")
      case True
      then have "allocate_on dvs need unit node hint (st\<lparr>bf_alloc := (bf_alloc st)[dv := Some a']\<rparr>) = Some (r, n, h, st')"
        using Cons.prems False a by (simp add: Let_def)
      then show ?thesis using Cons.IH by fastforce
    next
      case pos: False
      then show ?thesis using Cons.prems False a by (auto simp: Let_def)
    qed
  qed
qed simp

lemma allocate_file_seq: "allocate_file p len u r st = Some (res, st') \<Longrightarrow> bf_log_seq_live st' = bf_log_seq_live st"
  by (auto simp: allocate_file_def bf_allocate_def Let_def dest: allocate_on_seq split: if_splits)

lemma extend_seq: "bf_maybe_extend_log st = Some (res, st') \<Longrightarrow> bf_log_seq_live st' = bf_log_seq_live st"
  by (auto simp: bf_maybe_extend_log_def Let_def bind_eq_Some_conv dest!: allocate_file_seq
      split: option.splits if_splits prod.splits)

lemma log_data_seq: "bf_flush_log_data bl st = Some (res, st') \<Longrightarrow> bf_log_seq_live st' = bf_log_seq_live st"
  by (auto simp: bf_flush_log_data_def Let_def split: option.splits if_splits prod.splits)

lemma failed_flush_seq:
  assumes "bf_flush_and_sync_log 0 st = Some (r, st1)" "r < 0"
  shows "bf_log_seq_live st1 = bf_log_seq_live st + 1"
  using assms
  by (auto simp: bf_flush_and_sync_log_def Let_def bind_eq_Some_conv write_transaction_def
      dest!: extend_seq log_data_seq split: if_splits prod.splits)

text \<open>
  C40: a flush of the log that fails uses up its sequence number. The next transaction carries the number after it, and a replay
  that has read everything up to the transaction before the failed one ends with \<open>-EIO\<close> when it meets it: the file
  system no longer mounts.
\<close>

theorem failed_flush_breaks_log:
  assumes "bf_flush_and_sync_log 0 st = Some (r, st1)" "r < 0"
    and "tx_seq t = bf_log_seq_live st1" "tx_uuid t = su_uuid (bf_super st2)" "length (tx_uuid t) = 16" "length (tx_op_bl t) < 2 ^ 31"
  shows "replay_transaction lf bs raw (enc_transaction t @ rest) (bf_log_seq_live st - 1) pos seen st2 = Some (Return (- EIO) st2)"
proof -
  have "tx_seq t = bf_log_seq_live st + 1" using failed_flush_seq [OF assms(1,2)] assms(3) by simp
  then have "tx_seq t \<noteq> bf_log_seq_live st - 1 + 1" "tx_seq t \<noteq> bf_log_seq_live st - 1"
    by (simp_all add: diff_eq_eq)
  then show ?thesis
    using dec_transaction_append [OF assms(5,6), of rest] assms(4) by (simp add: replay_transaction_def)
qed

text \<open>A file system whose log lies on a device that rejects every write.\<close>

definition broken_dev :: BlockDevice where
  "broken_dev = (demo_dev [])\<lparr>bd_size := 0\<rparr>"

definition broken_fs :: BlueFS where
  "broken_fs = (new_BlueFS (default_BlueFSConfig\<lparr>bc_min_log_runway := 0\<rparr>))\<lparr>bf_bdev := [None, Some broken_dev, None],
     bf_file_map := [(1, 0)],
     bf_files := [(new_File 1)\<lparr>fl_fnode := append_extent \<lparr>bx_offset = 0x10000, bx_length = 0x10000, bx_bdev = 1\<rparr> (new_fnode 1 0 0)\<rparr>],
     bf_log_writer := Some \<lparr>fw_file = 0, fw_pos = 0, fw_buffer = [], fw_tail_block = [], fw_iocv = [False, True, False],
       fw_dirty_devs = [False, False, False]\<rparr>\<rparr>"

lemma broken_write: "dev_write 0x10000 bl False broken_dev = (- EINVAL, broken_dev)"
proof -
  have "\<not> is_valid_io broken_dev 0x10000 len" for len
    by (simp add: is_valid_io_def broken_dev_def not_less)
  then show ?thesis by (simp add: dev_write_def)
qed

lemma pad_blocks_nonempty: "bl \<noteq> [] \<Longrightarrow> pad_blocks b bl \<noteq> []"
  by (simp add: pad_blocks_def Let_def)

lemma broken_log_write:
  "bl \<noteq> [] \<Longrightarrow> write_extents False [\<lparr>bx_offset = 0x10000, bx_length = 0x10000, bx_bdev = 1\<rparr>] 0 bl [None, Some broken_dev, None] ds =
     Some (- EINVAL, [None, Some broken_dev, None], ds)"
  by (simp add: broken_write errno_defs)

lemma broken_fs_sel:
  "bf_log_seq_live broken_fs = 1" "bf_dirty_files broken_fs = []" "su_block_size (bf_super broken_fs) = 4096"
  "bc_min_log_runway (bf_cfg broken_fs) = 0" "bf_seq_stable broken_fs = 0" "bf_bdev broken_fs = [None, Some broken_dev, None]"
  "bf_log_writer broken_fs = Some \<lparr>fw_file = 0, fw_pos = 0, fw_buffer = [], fw_tail_block = [], fw_iocv = [False, True, False],
       fw_dirty_devs = [False, False, False]\<rparr>"
  "the_fnode 0 broken_fs = append_extent \<lparr>bx_offset = 0x10000, bx_length = 0x10000, bx_bdev = 1\<rparr> (new_fnode 1 0 0)"
  by (simp_all add: broken_fs_def new_BlueFS_def new_super_def the_fnode_def the_file_def new_File_def)

lemma broken_node:
  "append_extent \<lparr>bx_offset = 0x10000, bx_length = 0x10000, bx_bdev = 1\<rparr> (new_fnode 1 0 0) =
   (new_fnode 1 0 0)\<lparr>fn_extents := [\<lparr>bx_offset = 0x10000, bx_length = 0x10000, bx_bdev = 1\<rparr>], fn_extents_index := [0], fn_allocated := 0x10000\<rparr>"
  by (simp add: append_extent_def new_fnode_def bx_len_def)

lemma the_fnode_upd [simp]:
  "the_fnode r (st\<lparr>bf_log_seq_live := a\<rparr>) = the_fnode r st" "the_fnode r (st\<lparr>bf_dirty_seq_live := b\<rparr>) = the_fnode r st"
  "the_fnode r (st\<lparr>bf_log_t := t\<rparr>) = the_fnode r st"
  by (simp_all add: the_fnode_def the_file_def)

lemma broken_flush: "\<exists>st1. bf_flush_and_sync_log 0 broken_fs = Some (- EINVAL, st1)"
proof -
  let ?st1 = "broken_fs\<lparr>bf_log_seq_live := 2, bf_dirty_seq_live := 2\<rparr>"
  have c: "bf_consume_dirty 1 ?st1 = ?st1" by (simp add: bf_consume_dirty_def broken_fs_sel)
  have e: "bf_maybe_extend_log ?st1 = Some (0, ?st1)"
    by (simp add: bf_maybe_extend_log_def broken_fs_sel broken_node Let_def)
  have f: "\<exists>st2. bf_flush_log_data bl (?st1\<lparr>bf_log_t := t\<rparr>) = Some (- EINVAL, st2)" if "bl \<noteq> []" for bl t
    using broken_log_write [OF that]
    by (simp add: bf_flush_log_data_def broken_fs_sel broken_node fn_seek_def errno_defs)
  have "pad_blocks 4096 (enc_transaction t) \<noteq> []" for t
    by (intro pad_blocks_nonempty) (simp add: enc_transaction_def enc_struct_def enc_u8_def)
  from f [OF this] obtain st2 where w: "write_transaction 1 ?st1 = Some (- EINVAL, st2)"
    unfolding write_transaction_def Let_def by (simp add: broken_fs_sel del: fun_upd_apply) blast
  show ?thesis
    by (simp add: bf_flush_and_sync_log_def broken_fs_sel c e w) (simp add: errno_defs)
qed

theorem failed_flush_breaks_log_witness:
  "\<exists>r st1. bf_flush_and_sync_log 0 broken_fs = Some (r, st1) \<and> r < 0 \<and>
     replay_transaction 0 4096 0 (enc_transaction \<lparr>tx_uuid = zero_uuid, tx_seq = bf_log_seq_live st1, tx_op_bl = []\<rparr> @ []) 0 4096 True broken_fs =
       Some (Return (- EIO) broken_fs)"
proof -
  obtain st1 where f: "bf_flush_and_sync_log 0 broken_fs = Some (- EINVAL, st1)" using broken_flush by blast
  have "(- EINVAL) < 0" by (simp add: errno_defs)
  moreover have "su_uuid (bf_super broken_fs) = zero_uuid" by (simp add: broken_fs_def new_BlueFS_def new_super_def)
  ultimately show ?thesis
    using f failed_flush_breaks_log [OF f, of "\<lparr>tx_uuid = zero_uuid, tx_seq = bf_log_seq_live st1, tx_op_bl = []\<rparr>" broken_fs 0 4096 0 "[]" 4096 True]
    by (simp add: zero_uuid_def broken_fs_sel)
qed

section \<open>Compaction\<close>

text \<open>
  The log is never compacted. \<open>_compact_log_async\<close> sets the flag \<open>log_is_compacting_\<close> and then asks
  \<open>_should_compact\<close>, which says no whenever the flag is set: \<open>compact_log\<close> returns success and changes nothing, and the compaction
  at the end of \<open>sync_metadata\<close> writes to no device.
\<close>

theorem log_never_compacted:
  "bf_compact_log fp st = Some (0, st) \<and>
   (\<exists>st'. bf_maybe_compact_log fp st = Some st' \<and> bf_bdev st' = bf_bdev st \<and> bf_super st' = bf_super st \<and> bf_log_t st' = bf_log_t st)"
proof -
  have c: "bf_compact_log_async fp s = Some (0, s)" for s
    by (cases "bf_log_is_compacting s") (simp_all add: bf_compact_log_async_def bf_should_compact_def)
  have "bf_bdev (snd (bf_should_compact fp st)) = bf_bdev st \<and> bf_super (snd (bf_should_compact fp st)) = bf_super st \<and>
      bf_log_t (snd (bf_should_compact fp st)) = bf_log_t st"
    by (simp add: bf_should_compact_def bf_get_file_def make_file_def Let_def split: option.splits)
  then show ?thesis by (simp add: c bf_compact_log_def bf_maybe_compact_log_def case_prod_unfold Let_def)
qed

end
