(* ===== verification/Bluefs_Journal.thy ===== *)
theory Bluefs_Journal
  imports Bluefs_Names
begin

text \<open>
  The journal of BlueFS tells the names. \<open>apply_ops\<close> runs the operations of a transaction as the replay does; the bytes
  that the calls on names log decode to operations that lead a replayed file system to the same directories.
\<close>

section \<open>Operations and their encoding\<close>

datatype fs_op = Op_init | Op_create bytes | Op_remove bytes | Op_link bytes bytes u64 | Op_unlink bytes bytes
  | Op_update bluefs_fnode | Op_file_remove u64

fun enc_op :: "fs_op \<Rightarrow> bytes" where
  "enc_op Op_init = enc_u8 OP_INIT"
| "enc_op (Op_create d) = enc_u8 OP_DIR_CREATE @ enc_string d"
| "enc_op (Op_remove d) = enc_u8 OP_DIR_REMOVE @ enc_string d"
| "enc_op (Op_link d f ino) = enc_u8 OP_DIR_LINK @ enc_string d @ enc_string f @ enc_u64 ino"
| "enc_op (Op_unlink d f) = enc_u8 OP_DIR_UNLINK @ enc_string d @ enc_string f"
| "enc_op (Op_update n) = enc_u8 OP_FILE_UPDATE @ enc_fnode n"
| "enc_op (Op_file_remove ino) = enc_u8 OP_FILE_REMOVE @ enc_u64 ino"

fun op_fits :: "fs_op \<Rightarrow> bool" where
  "op_fits (Op_create d) = (length d < 2 ^ 32)"
| "op_fits (Op_remove d) = (length d < 2 ^ 32)"
| "op_fits (Op_link d f ino) = (length d < 2 ^ 32 \<and> length f < 2 ^ 32)"
| "op_fits (Op_unlink d f) = (length d < 2 ^ 32 \<and> length f < 2 ^ 32)"
| "op_fits (Op_update n) = (length (fn_extents n) < 2 ^ 27)"
| "op_fits _ = True"

fun apply_op :: "fs_op \<Rightarrow> BlueFS \<Rightarrow> BlueFS option" where
  "apply_op Op_init st = Some st"
| "apply_op (Op_create d) st = Some (apply_dir_create d st)"
| "apply_op (Op_remove d) st = Some (apply_dir_remove d st)"
| "apply_op (Op_link d f ino) st = apply_dir_link d f ino st"
| "apply_op (Op_unlink d f) st = apply_dir_unlink d f st"
| "apply_op (Op_update n) st = apply_file_update (recalc_allocated n) st"
| "apply_op (Op_file_remove ino) st = Some (apply_file_remove ino st)"

fun apply_ops :: "fs_op list \<Rightarrow> BlueFS \<Rightarrow> BlueFS option" where
  "apply_ops [] st = Some st"
| "apply_ops (op # ops) st = Option.bind (apply_op op st) (apply_ops ops)"

lemma apply_ops_append: "apply_ops (xs @ ys) st = Option.bind (apply_ops xs st) (apply_ops ys)"
  by (induction xs st rule: apply_ops.induct) (auto split: bind_splits)

lemma arg_dec:
  "arg dec_u8 (enc_u8 b @ p) k = k b p" "length s < 2 ^ 32 \<Longrightarrow> arg dec_string (enc_string s @ p) k2 = k2 s p"
  "arg dec_u64 (enc_u64 v @ p) k3 = k3 v p"
  "length (fn_extents n) < 2 ^ 27 \<Longrightarrow> arg dec_fnode (enc_fnode n @ p) k4 = k4 (recalc_allocated n) p"
  by (simp_all add: arg_def dec_simps dec_fnode_append)

lemma replay_op_enc:
  "op_fits op \<Longrightarrow> replay_op lf s (enc_op op @ p) st = map_option (Go_On s p) (apply_op op st)"
  by (cases op) (simp_all add: replay_op_def arg_dec op_code_defs)

lemma enc_op_nonempty: "enc_op op \<noteq> []"
  by (cases op) (simp_all add: enc_u8_def)

text \<open>The loop over the operations of a transaction runs what was logged, in order.\<close>

lemma replay_ops_enc:
  "\<forall>op \<in> set ops. op_fits op \<Longrightarrow>
   replay_ops lf s (concat (map enc_op ops)) st = map_option (Go_On s []) (apply_ops ops st)"
proof (induction ops arbitrary: st)
  case Nil
  then show ?case by (simp add: replay_ops.simps)
next
  case (Cons op ops)
  have "replay_ops lf s (enc_op op @ concat (map enc_op ops)) st =
      (case apply_op op st of None \<Rightarrow> None | Some st' \<Rightarrow> replay_ops lf s (concat (map enc_op ops)) st')"
    using Cons.prems enc_op_nonempty [of op] by (subst replay_ops.simps) (auto simp: replay_op_enc split: option.splits)
  then show ?case using Cons by (auto split: option.splits)
qed

section \<open>The names of a file system\<close>

text \<open>Directories and the numbers of the files their entries lead to.\<close>

definition names :: "BlueFS \<Rightarrow> bytes \<Rightarrow> (bytes \<Rightarrow> u64 option) option" where
  "names st = (\<lambda>d. map_option (\<lambda>dir f. map_option (\<lambda>r. fn_ino (the_fnode r st)) (map_of dir f)) (map_of (bf_dir_map st) d))"

definition set_name :: "bytes \<Rightarrow> bytes \<Rightarrow> u64 option \<Rightarrow> (bytes \<Rightarrow> (bytes \<Rightarrow> u64 option) option) \<Rightarrow> bytes \<Rightarrow> (bytes \<Rightarrow> u64 option) option" where
  "set_name d f x N = (case N d of None \<Rightarrow> N | Some dir \<Rightarrow> N(d \<mapsto> dir(f := x)))"

text \<open>Entries lead to file objects that exist.\<close>

definition entries_ok :: "BlueFS \<Rightarrow> bool" where
  "entries_ok st \<longleftrightarrow> (\<forall>d f r. lookup_entry d f st = Some r \<longrightarrow> r < length (bf_files st))"

text \<open>The entries that lead to an object.\<close>

definition links :: "nat \<Rightarrow> BlueFS \<Rightarrow> (bytes \<times> bytes) set" where
  "links r st = {(d, f). lookup_entry d f st = Some r}"

text \<open>
  What holds of a file system that is being replayed: numbers lead to objects with that number, and no object has more
  entries than links. The selector is one of the two that track nothing.
\<close>

definition plain_selector :: "BlueFS \<Rightarrow> bool" where
  "plain_selector st \<longleftrightarrow> (\<exists>s. bf_vselector st = Some (OriginalVolumeSelector s) \<or> bf_vselector st = Some (FitToFastVolumeSelector s))"

definition replay_ok :: "BlueFS \<Rightarrow> bool" where
  "replay_ok st \<longleftrightarrow> plain_selector st \<and> entries_ok st \<and>
     (\<forall>ino r. map_of (bf_file_map st) ino = Some r \<longrightarrow> r < length (bf_files st) \<and> fn_ino (the_fnode r st) = ino) \<and>
     (\<forall>r < length (bf_files st). int (card (links r st)) \<le> fl_refs (the_file r st))"

lemma finite_links [simp]: "finite (links r st)"
proof (rule finite_subset)
  let ?D = "dom (map_of (bf_dir_map st))"
  show "links r st \<subseteq> (SIGMA d : ?D. dom (map_of (the (map_of (bf_dir_map st) d))))"
    by (auto simp: links_def lookup_entry_def bind_eq_Some_conv)
  show "finite (SIGMA d : ?D. dom (map_of (the (map_of (bf_dir_map st) d))))"
    by (intro finite_SigmaI finite_dom_map_of)
qed

lemma names_lookup: "names st d = Some m \<Longrightarrow> m f = map_option (\<lambda>r. fn_ino (the_fnode r st)) (lookup_entry d f st)"
  by (auto simp: names_def lookup_entry_def)

text \<open>Two states with the same directories and the same numbers have the same names.\<close>

lemma names_cong:
  assumes "bf_dir_map st' = bf_dir_map st"
    and "\<And>d f r. lookup_entry d f st = Some r \<Longrightarrow> fn_ino (the_fnode r st') = fn_ino (the_fnode r st)"
  shows "names st' = names st"
proof
  fix d
  show "names st' d = names st d"
  proof (cases "map_of (bf_dir_map st) d")
    case None
    then show ?thesis using assms(1) by (simp add: names_def)
  next
    case (Some dir)
    have "map_option (\<lambda>r. fn_ino (the_fnode r st')) (map_of dir f) = map_option (\<lambda>r. fn_ino (the_fnode r st)) (map_of dir f)" for f
      using assms(2) [of d f] Some by (cases "map_of dir f") (auto simp: lookup_entry_def)
    then show ?thesis using assms(1) Some by (simp add: names_def)
  qed
qed

lemma the_fnode_frame [simp]:
  "the_fnode r (st\<lparr>bf_dir_map := m\<rparr>) = the_fnode r st" "the_fnode r (st\<lparr>bf_vselector := v\<rparr>) = the_fnode r st"
  "the_fnode r (st\<lparr>bf_file_map := fm\<rparr>) = the_fnode r st" "the_fnode r (st\<lparr>bf_ino_last := i\<rparr>) = the_fnode r st"
  "the_file r (st\<lparr>bf_dir_map := m\<rparr>) = the_file r st" "the_file r (st\<lparr>bf_vselector := v\<rparr>) = the_file r st"
  "the_file r (st\<lparr>bf_file_map := fm\<rparr>) = the_file r st" "the_file r (st\<lparr>bf_ino_last := i\<rparr>) = the_file r st"
  by (simp_all add: the_fnode_def the_file_def)

lemma the_fnode_entry [simp]:
  "the_fnode r (set_entry_of d f x st) = the_fnode r st" "the_fnode r (erase_entry_of d f st) = the_fnode r st"
  "the_file r (set_entry_of d f x st) = the_file r st" "the_file r (erase_entry_of d f st) = the_file r st"
  by (simp_all add: the_fnode_def the_file_def)

lemma names_set_entry:
  "names (set_entry_of d f r st) = set_name d f (Some (fn_ino (the_fnode r st))) (names st)"
  by (cases "map_of (bf_dir_map st) d") (auto simp: names_def set_entry_of_def set_name_def map_of_om_set fun_eq_iff)

lemma names_erase_entry: "names (erase_entry_of d f st) = set_name d f None (names st)"
  by (cases "map_of (bf_dir_map st) d")
    (auto simp: names_def erase_entry_of_def set_name_def map_of_om_set map_of_om_erase fun_eq_iff)

lemma names_create: "names (st\<lparr>bf_dir_map := om_set d [] (bf_dir_map st)\<rparr>) = (names st)(d \<mapsto> (\<lambda>_. None))"
  by (auto simp: names_def map_of_om_set fun_eq_iff)

lemma names_remove: "names (st\<lparr>bf_dir_map := om_erase d (bf_dir_map st)\<rparr>) = (names st)(d := None)"
  by (auto simp: names_def map_of_om_erase fun_eq_iff)

lemma set_name_same:
  assumes "\<And>m. N d = Some m \<Longrightarrow> m f = None"
  shows "set_name d f None N = N"
proof (cases "N d")
  case (Some m)
  then have "m(f := None) = m" using assms by (simp add: fun_upd_idem)
  then show ?thesis using Some by (simp add: set_name_def fun_upd_idem)
qed (simp add: set_name_def)

section \<open>File objects\<close>

lemma the_file_upd: "the_file r (upd_file x g st) = (if r = x \<and> x < length (bf_files st) then g (the_file r st) else the_file r st)"
  by (cases "x < length (bf_files st)") (auto simp: the_file_def upd_file_def nth_list_update list_update_beyond not_less)

lemma upd_file_frame [simp]:
  "bf_dir_map (upd_file x g st) = bf_dir_map st" "bf_file_map (upd_file x g st) = bf_file_map st"
  "bf_vselector (upd_file x g st) = bf_vselector st" "length (bf_files (upd_file x g st)) = length (bf_files st)"
  "bf_log_t (upd_file x g st) = bf_log_t st"
  by (simp_all add: upd_file_def)

lemma lookup_dir_map: "bf_dir_map st' = bf_dir_map st \<Longrightarrow> lookup_entry d f st' = lookup_entry d f st"
  by (simp add: lookup_entry_def)

lemma links_dir_map: "bf_dir_map st' = bf_dir_map st \<Longrightarrow> links r st' = links r st"
  by (simp add: links_def lookup_entry_def)

lemma links_set_entry: "links r (set_entry_of d f x st) \<subseteq> (if r = x then insert (d, f) (links r st) else links r st)"
proof (cases "map_of (bf_dir_map st) d")
  case None
  then have "set_entry_of d f x st = st" by (simp add: set_entry_of_def)
  then show ?thesis by auto
next
  case (Some dir)
  then show ?thesis by (auto simp: links_def lookup_set_entry)
qed

lemma links_erase_entry: "links r (erase_entry_of d f st) = links r st - {(d, f)}"
  by (auto simp: links_def lookup_erase_entry)

text \<open>Making the object of a number.\<close>

lemma get_file_ok:
  assumes "replay_ok st" "bf_get_file ino st = (r, st')"
  shows "replay_ok st'" "names st' = names st" "r < length (bf_files st')" "fn_ino (the_fnode r st') = ino"
    "bf_vselector st' = bf_vselector st" "bf_dir_map st' = bf_dir_map st"
proof -
  have "replay_ok st' \<and> names st' = names st \<and> r < length (bf_files st') \<and> fn_ino (the_fnode r st') = ino \<and>
      bf_vselector st' = bf_vselector st \<and> bf_dir_map st' = bf_dir_map st"
  proof (cases "map_of (bf_file_map st) ino")
    case (Some x)
    then show ?thesis using assms by (auto simp: bf_get_file_def replay_ok_def)
  next
    case None
    let ?n = "length (bf_files st)"
    have st': "r = ?n" "bf_files st' = bf_files st @ [new_File ino]" "bf_file_map st' = AList.update ino ?n (bf_file_map st)"
      "bf_vselector st' = bf_vselector st" "bf_dir_map st' = bf_dir_map st"
      using assms(2) None by (auto simp: bf_get_file_def make_file_def Let_def)
    have f: "the_file x st' = (if x < ?n then the_file x st else new_File ino)" if "x \<le> ?n" for x
      using that by (auto simp: the_file_def st' nth_append)
    have e: "x < ?n" if "lookup_entry d f st = Some x" for d f x
      using assms(1) that by (auto simp: replay_ok_def entries_ok_def)
    have "links ?n st' = {}" using e by (auto simp: links_def lookup_dir_map [OF st'(5)])
    then have "\<forall>x < length (bf_files st'). int (card (links x st')) \<le> fl_refs (the_file x st')"
      using assms(1) f by (auto simp: replay_ok_def links_dir_map [OF st'(5)] st'(2) new_File_def less_Suc_eq)
    moreover have "names st' = names st"
    proof (intro names_cong st'(5))
      fix d g x
      assume "lookup_entry d g st = Some x"
      from e [OF this] show "fn_ino (the_fnode x st') = fn_ino (the_fnode x st)" using f [of x] by (simp add: the_fnode_def)
    qed
    moreover have "fn_ino (the_fnode x st') = i \<and> x < length (bf_files st')" if "map_of (bf_file_map st') i = Some x" for i x
    proof (cases "i = ino")
      case True
      then have "x = ?n" using that by (simp add: st'(3))
      then show ?thesis using f [of ?n] True by (simp add: the_fnode_def new_File_def new_fnode_def st'(2))
    next
      case False
      then have "map_of (bf_file_map st) i = Some x" using that by (simp add: st'(3))
      then have "x < ?n" "fn_ino (the_fnode x st) = i" using assms(1) by (simp_all add: replay_ok_def)
      then show ?thesis using f [of x] by (simp add: the_fnode_def st'(2))
    qed
    moreover have "entries_ok st'"
      using e by (auto simp: entries_ok_def lookup_dir_map [OF st'(5)] st'(2) less_Suc_eq)
    moreover have "fn_ino (the_fnode r st') = ino" using f [of ?n] st'(1) by (simp add: the_fnode_def new_File_def new_fnode_def)
    ultimately show ?thesis using assms(1) st' by (auto simp: replay_ok_def plain_selector_def)
  qed
  then show "replay_ok st'" "names st' = names st" "r < length (bf_files st')" "fn_ino (the_fnode r st') = ino"
    "bf_vselector st' = bf_vselector st" "bf_dir_map st' = bf_dir_map st" by simp_all
qed

text \<open>The simple selectors accept every call and do not change.\<close>

lemma plain_vs:
  assumes "bf_vselector st = Some v" "plain_selector st"
  shows "vs_sub_fnode h n v = Some v" "vs_add_fnode h n v = Some v"
proof -
  obtain s where v: "v = OriginalVolumeSelector s \<or> v = FitToFastVolumeSelector s"
    using assms by (auto simp: plain_selector_def)
  then have "sub_extents h es v = Some v" "add_extents h es v = Some v" for es
    by (induction es) (auto simp: vs_sub_extent_def vs_add_extent_def)
  then show "vs_sub_fnode h n v = Some v" "vs_add_fnode h n v = Some v"
    using v by (auto simp: vs_sub_fnode_def vs_add_fnode_def vs_sub_size_def vs_add_size_def)
qed

lemma if_vs_plain: "plain_selector st \<Longrightarrow> if_vs (vs_sub_fnode h n) st = Some st \<and> if_vs (vs_add_fnode h n) st = Some st"
  by (cases "bf_vselector st") (auto simp: if_vs_def with_vs_def plain_vs)

lemma bump_ino_frame [simp]:
  "bf_dir_map (bump_ino i st) = bf_dir_map st" "bf_files (bump_ino i st) = bf_files st"
  "bf_file_map (bump_ino i st) = bf_file_map st" "bf_vselector (bump_ino i st) = bf_vselector st"
  by (simp_all add: bump_ino_def)

lemma replay_ok_frame:
  assumes "bf_dir_map st' = bf_dir_map st" "bf_files st' = bf_files st" "bf_vselector st' = bf_vselector st"
    "bf_file_map st' = bf_file_map st" "replay_ok st"
  shows "replay_ok st'" "names st' = names st"
proof -
  have f: "the_file r st' = the_file r st" "the_fnode r st' = the_fnode r st" for r
    using assms(2) by (simp_all add: the_file_def the_fnode_def)
  show "replay_ok st'"
    using assms by (simp add: replay_ok_def plain_selector_def entries_ok_def f lookup_dir_map [OF assms(1)] links_dir_map [OF assms(1)])
  show "names st' = names st" using assms(1) f by (intro names_cong) simp_all
qed

section \<open>What a replayed operation does to the names\<close>

fun name_op :: "fs_op \<Rightarrow> (bytes \<Rightarrow> (bytes \<Rightarrow> u64 option) option) \<Rightarrow> bytes \<Rightarrow> (bytes \<Rightarrow> u64 option) option" where
  "name_op (Op_create d) N = N(d \<mapsto> (\<lambda>_. None))"
| "name_op (Op_remove d) N = N(d := None)"
| "name_op (Op_link d f ino) N = set_name d f (Some ino) N"
| "name_op (Op_unlink d f) N = set_name d f None N"
| "name_op _ N = N"

lemma replay_ok_dirs:
  assumes "replay_ok st" "bf_files st' = bf_files st" "bf_vselector st' = bf_vselector st" "bf_file_map st' = bf_file_map st"
    and "\<And>d f r. lookup_entry d f st' = Some r \<Longrightarrow> lookup_entry d f st = Some r"
  shows "replay_ok st'"
proof -
  have f: "the_file r st' = the_file r st" "the_fnode r st' = the_fnode r st" for r
    using assms(2) by (simp_all add: the_file_def the_fnode_def)
  have "links r st' \<subseteq> links r st" for r using assms(5) by (auto simp: links_def)
  then have c: "card (links r st') \<le> card (links r st)" for r by (intro card_mono) simp_all
  have "int (card (links r st')) \<le> fl_refs (the_file r st')" if "r < length (bf_files st)" for r
    using assms(1) c [of r] that f by (fastforce simp: replay_ok_def)
  moreover have "entries_ok st'"
    unfolding entries_ok_def
  proof (intro allI impI)
    fix d f r
    assume "lookup_entry d f st' = Some r"
    from assms(5) [OF this] show "r < length (bf_files st')"
      using assms(1,2) unfolding replay_ok_def entries_ok_def by metis
  qed
  ultimately show ?thesis using assms(1-4) f by (simp add: replay_ok_def plain_selector_def)
qed

lemma apply_create_ok:
  assumes "replay_ok st"
  shows "replay_ok (apply_dir_create d st)" "names (apply_dir_create d st) = name_op (Op_create d) (names st)"
proof -
  show "replay_ok (apply_dir_create d st)"
    by (rule replay_ok_dirs [OF assms]) (auto simp: apply_dir_create_def lookup_entry_def map_of_om_set bind_eq_Some_conv split: if_splits)
  show "names (apply_dir_create d st) = name_op (Op_create d) (names st)" by (simp add: apply_dir_create_def names_create)
qed

lemma apply_remove_ok:
  assumes "replay_ok st"
  shows "replay_ok (apply_dir_remove d st)" "names (apply_dir_remove d st) = name_op (Op_remove d) (names st)"
proof -
  show "replay_ok (apply_dir_remove d st)"
    by (rule replay_ok_dirs [OF assms]) (auto simp: apply_dir_remove_def lookup_entry_def map_of_om_erase bind_eq_Some_conv split: if_splits)
  show "names (apply_dir_remove d st) = name_op (Op_remove d) (names st)" by (simp add: apply_dir_remove_def names_remove)
qed

text \<open>A link counts one more, an unlink one less, and the entries follow.\<close>

lemma set_entry_ok:
  assumes "replay_ok st" "r < length (bf_files st)"
  shows "replay_ok (upd_file r (\<lambda>f. f\<lparr>fl_hint := h, fl_refs := fl_refs f + 1\<rparr>) (set_entry_of d f r st))"
proof -
  let ?st = "upd_file r (\<lambda>f. f\<lparr>fl_hint := h, fl_refs := fl_refs f + 1\<rparr>) (set_entry_of d f r st)"
  have l: "links x ?st = links x (set_entry_of d f r st)" for x by (rule links_dir_map) simp
  have n: "the_fnode x ?st = the_fnode x st" for x by (simp add: the_fnode_def the_file_upd)
  have "int (card (links x ?st)) \<le> fl_refs (the_file x ?st)" if x: "x < length (bf_files st)" for x
  proof (cases "x = r")
    case True
    have "card (links r ?st) \<le> card (insert (d, f) (links r st))"
      using links_set_entry [of r d f r st] by (intro card_mono) (simp_all add: l)
    also have "\<dots> \<le> card (links r st) + 1" by (simp add: card_insert_if)
    finally have "int (card (links r ?st)) \<le> int (card (links r st)) + 1" by simp
    moreover have "int (card (links r st)) \<le> fl_refs (the_file r st)" using assms by (simp add: replay_ok_def)
    ultimately show ?thesis using assms(2) True by (simp add: the_file_upd)
  next
    case False
    have "card (links x ?st) \<le> card (links x st)"
      using links_set_entry [of x d f r st] False by (intro card_mono) (simp_all add: l)
    moreover have "int (card (links x st)) \<le> fl_refs (the_file x st)" using assms(1) x by (simp add: replay_ok_def)
    ultimately show ?thesis using False by (simp add: the_file_upd)
  qed
  moreover have "entries_ok ?st"
  proof (cases "map_of (bf_dir_map st) d")
    case None
    then have "set_entry_of d f r st = st" by (simp add: set_entry_of_def)
    then show ?thesis using assms(1) by (auto simp: replay_ok_def entries_ok_def lookup_entry_def)
  next
    case (Some dir)
    then have "lookup_entry d' f' ?st = (if d' = d \<and> f' = f then Some r else lookup_entry d' f' st)" for d' f'
      using lookup_set_entry [of st d d' f' f r] lookup_dir_map [of ?st "set_entry_of d f r st" d' f'] by simp
    then show ?thesis using assms by (auto simp: replay_ok_def entries_ok_def)
  qed
  moreover have "bf_vselector (set_entry_of d f r st) = bf_vselector st" by (simp add: set_entry_of_def split: option.splits)
  ultimately show ?thesis using assms(1) n by (auto simp: replay_ok_def plain_selector_def)
qed

lemma apply_link_ok:
  assumes "replay_ok st"
  shows "\<exists>st'. apply_dir_link d f ino st = Some st' \<and> replay_ok st' \<and> names st' = name_op (Op_link d f ino) (names st)"
proof -
  obtain r st1 where g: "bf_get_file ino st = (r, st1)" by (metis surj_pair)
  note G = get_file_ok [OF assms g]
  have p: "plain_selector st1" using G(1) by (simp add: replay_ok_def)
  then obtain v where v: "bf_vselector st1 = Some v" by (auto simp: plain_selector_def)
  let ?h = "vs_hint_by_dir v d"
  let ?st2 = "upd_file r (\<lambda>f. f\<lparr>fl_hint := ?h, fl_refs := fl_refs f + 1\<rparr>) (set_entry_of d f r st1)"
  have same: "st1\<lparr>bf_vselector := Some v\<rparr> = st1" using v by simp
  then have a: "apply_dir_link d f ino st = Some (bump_ino ino ?st2)"
    using g v p by (simp add: apply_dir_link_def plain_vs same)
  have ok: "replay_ok ?st2" by (rule set_entry_ok [OF G(1,3)])
  have "names ?st2 = names (set_entry_of d f r st1)" by (rule names_cong) (simp_all add: the_fnode_def the_file_upd)
  then have "names ?st2 = name_op (Op_link d f ino) (names st)" using G(2,4) by (simp add: names_set_entry)
  then show ?thesis using a ok replay_ok_frame [of "bump_ino ino ?st2" ?st2] by simp
qed

lemma apply_unlink_ok:
  assumes "replay_ok st"
  shows "\<exists>st'. apply_dir_unlink d f st = Some st' \<and> replay_ok st' \<and> names st' = name_op (Op_unlink d f) (names st)"
proof (cases "lookup_entry d f st")
  case None
  then have "m f = None" if "names st d = Some m" for m using names_lookup [OF that, of f] by simp
  then have "set_name d f None (names st) = names st" by (rule set_name_same)
  then show ?thesis using None assms by (simp add: apply_dir_unlink_def)
next
  case (Some r)
  let ?st1 = "upd_file r (\<lambda>f. f\<lparr>fl_refs := fl_refs f - 1\<rparr>) st"
  let ?st2 = "erase_entry_of d f ?st1"
  have r: "r < length (bf_files st)" using assms Some by (auto simp: replay_ok_def entries_ok_def)
  have in_l: "(d, f) \<in> links r st" using Some by (simp add: links_def)
  then have pos: "0 < card (links r st)" by (metis card_gt_0_iff empty_iff finite_links)
  moreover have refs: "int (card (links x st)) \<le> fl_refs (the_file x st)" if "x < length (bf_files st)" for x
    using assms that by (simp add: replay_ok_def)
  ultimately have "0 < fl_refs (the_file r st)" using refs [OF r] by linarith
  then have a: "apply_dir_unlink d f st = Some ?st2" using Some by (simp add: apply_dir_unlink_def)
  have l: "links x ?st2 = links x st - {(d, f)}" for x using links_dir_map [of ?st1 st] by (simp add: links_erase_entry)
  have "int (card (links x ?st2)) \<le> fl_refs (the_file x ?st2)" if x: "x < length (bf_files st)" for x
  proof (cases "x = r")
    case True
    have "card (links r ?st2) = card (links r st) - 1" using in_l by (simp add: l)
    then show ?thesis using True refs [OF r] pos r by (simp add: the_file_upd of_nat_diff)
  next
    case False
    have "card (links x ?st2) \<le> card (links x st)" by (intro card_mono) (auto simp: l)
    then show ?thesis using False refs [OF x] by (simp add: the_file_upd)
  qed
  moreover have "lookup_entry d' f' ?st2 = (if d' = d \<and> f' = f then None else lookup_entry d' f' st)" for d' f'
    using lookup_dir_map [of ?st1 st d' f'] by (simp add: lookup_erase_entry)
  then have "entries_ok ?st2" using assms by (auto simp: replay_ok_def entries_ok_def)
  moreover have n: "the_fnode x ?st1 = the_fnode x st" for x by (simp add: the_fnode_def the_file_upd)
  moreover have "bf_vselector (erase_entry_of d f ?st1) = bf_vselector st" by (simp add: erase_entry_of_def split: option.splits)
  ultimately have ok: "replay_ok ?st2" using assms by (auto simp: replay_ok_def plain_selector_def)
  have "names ?st1 = names st" by (rule names_cong) (simp_all add: n)
  then have "names ?st2 = name_op (Op_unlink d f) (names st)" by (simp add: names_erase_entry)
  then show ?thesis using a ok by blast
qed

text \<open>Changing an object without touching its number and its links.\<close>

lemma upd_file_ok:
  assumes "replay_ok st" "\<And>f. fl_refs (g f) = fl_refs f" "fn_ino (fl_fnode (g (the_file r st))) = fn_ino (the_fnode r st)"
  shows "replay_ok (upd_file r g st)" "names (upd_file r g st) = names st"
proof -
  have n: "fn_ino (the_fnode x (upd_file r g st)) = fn_ino (the_fnode x st)" for x
    using assms(3) by (simp add: the_fnode_def the_file_upd)
  have f: "fl_refs (the_file x (upd_file r g st)) = fl_refs (the_file x st)" for x using assms(2) by (simp add: the_file_upd)
  show "replay_ok (upd_file r g st)"
    using assms(1) n f by (auto simp: replay_ok_def plain_selector_def entries_ok_def lookup_dir_map [of "upd_file r g st" st]
        links_dir_map [of "upd_file r g st" st])
  show "names (upd_file r g st) = names st" using n by (intro names_cong) simp_all
qed

lemma apply_update_ok:
  assumes "replay_ok st"
  shows "\<exists>st'. apply_file_update n st = Some st' \<and> replay_ok st' \<and> names st' = names st"
proof -
  obtain r st1 where g: "bf_get_file (fn_ino n) st = (r, st1)" by (metis surj_pair)
  note G = get_file_ok [OF assms g]
  let ?st2 = "upd_fnode r (\<lambda>_. n) st1"
  have p: "plain_selector st1" "plain_selector ?st2"
    using G(1) by (simp_all add: replay_ok_def plain_selector_def upd_fnode_def)
  have u: "replay_ok ?st2" "names ?st2 = names st1"
    unfolding upd_fnode_def using G(1,4) by (rule_tac [!] upd_file_ok) simp_all
  have "apply_file_update n st = Some (bump_ino (fn_ino n) ?st2)"
    using g if_vs_plain [OF p(1)] if_vs_plain [OF p(2)] by (simp add: apply_file_update_def Let_def)
  then show ?thesis using u G(2) replay_ok_frame [of "bump_ino (fn_ino n) ?st2" ?st2] by simp
qed

lemma apply_file_remove_ok:
  assumes "replay_ok st"
  shows "replay_ok (apply_file_remove ino st)" "names (apply_file_remove ino st) = names st"
proof -
  have "replay_ok (apply_file_remove ino st) \<and> names (apply_file_remove ino st) = names st"
  proof (cases "map_of (bf_file_map st) ino")
    case (Some r)
    let ?st1 = "st\<lparr>bf_file_map := AList.delete ino (bf_file_map st)\<rparr>"
    have d: "bf_dir_map ?st1 = bf_dir_map st" by simp
    have "replay_ok ?st1"
      using assms by (simp add: replay_ok_def plain_selector_def entries_ok_def lookup_dir_map [OF d] links_dir_map [OF d])
    moreover have "names ?st1 = names st" by (rule names_cong) simp_all
    ultimately show ?thesis
      using Some assms upd_file_ok [OF assms, of "\<lambda>f. f\<lparr>fl_deleted := True\<rparr>" r] by (simp add: apply_file_remove_def the_fnode_def)
  qed (use assms in \<open>simp add: apply_file_remove_def\<close>)
  then show "replay_ok (apply_file_remove ino st)" "names (apply_file_remove ino st) = names st" by simp_all
qed

lemma apply_op_ok:
  assumes "replay_ok st"
  shows "\<exists>st'. apply_op op st = Some st' \<and> replay_ok st' \<and> names st' = name_op op (names st)"
  using assms
  by (cases op) (simp_all add: apply_create_ok apply_remove_ok apply_link_ok apply_unlink_ok apply_update_ok
      apply_file_remove_ok del: name_op.simps(1-4))

lemma apply_ops_ok:
  "replay_ok st \<Longrightarrow> \<exists>st'. apply_ops ops st = Some st' \<and> replay_ok st' \<and> names st' = fold name_op ops (names st)"
proof (induction ops arbitrary: st)
  case (Cons op ops)
  from apply_op_ok [OF Cons.prems, of op] obtain st1 where s: "apply_op op st = Some st1" "replay_ok st1"
    "names st1 = name_op op (names st)" by blast
  from Cons.IH [OF s(2)] show ?case using s(1,3) by simp
qed simp

section \<open>What the calls log\<close>

text \<open>Steps that change neither the directories nor the numbers nor the transaction.\<close>

definition log_quiet :: "BlueFS \<Rightarrow> BlueFS \<Rightarrow> bool" where
  "log_quiet st st' \<longleftrightarrow> bf_dir_map st' = bf_dir_map st \<and> length (bf_files st') = length (bf_files st) \<and> bf_log_t st' = bf_log_t st \<and>
     (\<forall>r. fn_ino (the_fnode r st') = fn_ino (the_fnode r st))"

lemma log_quiet_refl [simp, intro]: "log_quiet st st"
  by (simp add: log_quiet_def)

lemma log_quiet_trans: "log_quiet a b \<Longrightarrow> log_quiet b c \<Longrightarrow> log_quiet a c"
  by (simp add: log_quiet_def)

lemma log_quiet_upds [simp, intro]:
  "log_quiet st (st\<lparr>bf_vselector := v\<rparr>)" "log_quiet st (st\<lparr>bf_pending_release := p\<rparr>)" "log_quiet st (st\<lparr>bf_dirty_files := q\<rparr>)"
  "log_quiet st (st\<lparr>bf_file_map := fm\<rparr>)"
  by (simp_all add: log_quiet_def the_fnode_def the_file_def)

lemma log_quiet_upd_file [intro]:
  "(\<And>f. fn_ino (fl_fnode (g f)) = fn_ino (fl_fnode f)) \<Longrightarrow> log_quiet st (upd_file r g st)"
  by (simp add: log_quiet_def the_fnode_def the_file_upd)

lemma log_quiet_vs:
  "with_vs g st = Some st' \<Longrightarrow> log_quiet st st'" "if_vs g st = Some st' \<Longrightarrow> log_quiet st st'"
  by (auto simp: with_vs_def if_vs_def split: option.splits if_splits)

lemma log_quiet_pending: "add_pending es st = Some st' \<Longrightarrow> log_quiet st st'"
proof (induction es arbitrary: st)
  case (Cons e es)
  then obtain st1 where s: "pr_insert e st = Some st1" "add_pending es st1 = Some st'" by (auto simp: bind_eq_Some_conv)
  then have "log_quiet st st1" by (auto simp: pr_insert_def Let_def split: if_splits)
  then show ?case using Cons.IH [OF s(2)] by (rule log_quiet_trans)
qed simp

lemma log_quiet_retract: "log_quiet st (retract_dirty r st)"
proof (cases "fl_dirty_seq (the_file r st) > bf_seq_stable st")
  case True
  then show ?thesis
    unfolding retract_dirty_def Let_def
    by (auto intro: log_quiet_trans [OF _ log_quiet_upd_file] split: option.splits)
next
  case False
  then show ?thesis by (simp add: retract_dirty_def Let_def)
qed

text \<open>\<open>logs ops st st'\<close>: the operations were appended to the transaction, and they account for the change of the names.\<close>

definition logs :: "fs_op list \<Rightarrow> BlueFS \<Rightarrow> BlueFS \<Rightarrow> bool" where
  "logs ops st st' \<longleftrightarrow> tx_op_bl (bf_log_t st') = tx_op_bl (bf_log_t st) @ concat (map enc_op ops) \<and>
     names st' = fold name_op ops (names st) \<and> entries_ok st' \<and> (\<forall>op \<in> set ops. op_fits op)"

lemma logs_refl [simp]: "entries_ok st \<Longrightarrow> logs [] st st"
  by (simp add: logs_def)

lemma logs_trans: "logs xs a b \<Longrightarrow> logs ys b c \<Longrightarrow> logs (xs @ ys) a c"
  by (auto simp: logs_def)

lemma log_quiet_logs: "log_quiet st st' \<Longrightarrow> entries_ok st \<Longrightarrow> logs [] st st'"
  unfolding log_quiet_def logs_def entries_ok_def using names_cong [of st' st] lookup_dir_map [of st' st] by simp

lemma log_op:
  assumes "entries_ok st" "op_fits op" "tx_op_bl t = tx_op_bl (bf_log_t st) @ enc_op op" "name_op op (names st) = names st"
  shows "logs [op] st (st\<lparr>bf_log_t := t\<rparr>)"
proof -
  have "names (st\<lparr>bf_log_t := t\<rparr>) = names st" by (rule names_cong) simp_all
  then show ?thesis using assms by (simp add: logs_def entries_ok_def)
qed

lemma entries_ok_upds:
  "entries_ok st \<Longrightarrow> entries_ok (erase_entry_of d f st)"
  "entries_ok st \<Longrightarrow> r < length (bf_files st) \<Longrightarrow> entries_ok (set_entry_of d f r st)"
proof -
  show "entries_ok st \<Longrightarrow> entries_ok (erase_entry_of d f st)" by (simp add: entries_ok_def lookup_erase_entry)
  assume a: "entries_ok st" "r < length (bf_files st)"
  show "entries_ok (set_entry_of d f r st)"
  proof (cases "map_of (bf_dir_map st) d")
    case None
    then show ?thesis using a by (simp add: set_entry_of_def)
  qed (use a in \<open>simp add: entries_ok_def lookup_set_entry\<close>)
qed

lemma names_log_t [simp]: "names (st\<lparr>bf_log_t := t\<rparr>) = names st"
  by (rule names_cong) simp_all

lemma entries_ok_log_t [simp]: "entries_ok (st\<lparr>bf_log_t := t\<rparr>) = entries_ok st"
  by (simp add: entries_ok_def)

lemma mkdir_logs:
  assumes "entries_ok st" "length d < 2 ^ 32"
  shows "\<exists>ops. logs ops st (snd (bf_mkdir d st))"
proof (cases "map_of (bf_dir_map st) d")
  case None
  let ?st' = "snd (bf_mkdir d st)"
  have s: "?st' = (st\<lparr>bf_dir_map := om_set d [] (bf_dir_map st)\<rparr>)\<lparr>bf_log_t := op_dir_create d (bf_log_t st)\<rparr>"
    using None by (simp add: bf_mkdir_def)
  have "lookup_entry d' f ?st' = lookup_entry d' f st" for d' f
    using None by (simp add: s lookup_entry_def map_of_om_set)
  then have "entries_ok ?st'" using assms(1) by (simp add: entries_ok_def s)
  then show ?thesis
    using assms(2) None by (intro exI [of _ "[Op_create d]"]) (simp add: logs_def s names_create op_dir_create_def tx_append_def)
next
  case (Some dir)
  then show ?thesis using assms(1) by (auto simp: bf_mkdir_def intro: exI [of _ "[]"])
qed

lemma rmdir_logs:
  assumes "entries_ok st" "length d < 2 ^ 32"
  shows "\<exists>ops. logs ops st (snd (bf_rmdir d st))"
proof (cases "map_of (bf_dir_map st) d = Some []")
  case True
  let ?st' = "snd (bf_rmdir d st)"
  have s: "?st' = (st\<lparr>bf_dir_map := om_erase d (bf_dir_map st)\<rparr>)\<lparr>bf_log_t := op_dir_remove d (bf_log_t st)\<rparr>"
    using True by (simp add: bf_rmdir_def)
  have "lookup_entry d' f ?st' = Some r \<Longrightarrow> lookup_entry d' f st = Some r" for d' f r
    by (auto simp: s lookup_entry_def map_of_om_erase bind_eq_Some_conv split: if_splits)
  then have "entries_ok ?st'"
    unfolding entries_ok_def
  proof (intro allI impI)
    fix d' f r
    assume "\<And>d' f r. lookup_entry d' f ?st' = Some r \<Longrightarrow> lookup_entry d' f st = Some r" "lookup_entry d' f ?st' = Some r"
    then have "r < length (bf_files st)" using assms(1) unfolding entries_ok_def by blast
    then show "r < length (bf_files ?st')" by (simp add: s)
  qed
  then show ?thesis
    using assms(2) by (intro exI [of _ "[Op_remove d]"]) (simp add: logs_def s names_remove op_dir_remove_def tx_append_def)
next
  case False
  then show ?thesis using assms(1) by (auto simp: bf_rmdir_def intro: exI [of _ "[]"] split: option.splits)
qed

text \<open>A step of the directories with the operation that tells it.\<close>

lemma unlink_step:
  assumes "entries_ok st" "length d < 2 ^ 32" "length f < 2 ^ 32"
  shows "logs [Op_unlink d f] st ((erase_entry_of d f st)\<lparr>bf_log_t := op_dir_unlink d f (bf_log_t st)\<rparr>)"
  using assms entries_ok_upds(1) by (simp add: logs_def names_erase_entry op_dir_unlink_def tx_append_def)

lemma drop_link_logs:
  assumes "bf_drop_link r st = Some st'" "entries_ok st"
  shows "\<exists>ops. logs ops st st'"
proof -
  let ?st1 = "upd_file r (\<lambda>f. f\<lparr>fl_refs := fl_refs f - 1\<rparr>) st"
  have q1: "log_quiet st ?st1" by (rule log_quiet_upd_file) simp
  show ?thesis
  proof (cases "fl_refs (the_file r ?st1) = 0")
    case False
    then have "st' = ?st1" using assms(1) by (simp add: bf_drop_link_def Let_def)
    then show ?thesis using log_quiet_logs [OF q1 assms(2)] by blast
  next
    case True
    let ?ino = "fn_ino (the_fnode r ?st1)"
    obtain st2 where st2: "if_vs (vs_sub_fnode (fl_hint (the_file r ?st1)) (the_fnode r ?st1)) ?st1 = Some st2"
      using assms(1) True by (auto simp: bf_drop_link_def Let_def bind_eq_Some_conv)
    let ?log = "st2\<lparr>bf_log_t := op_file_remove ?ino (bf_log_t st2)\<rparr>"
    let ?st3 = "upd_file r (\<lambda>f. f\<lparr>fl_deleted := True\<rparr>) (?log\<lparr>bf_file_map := AList.delete ?ino (bf_file_map st2)\<rparr>)"
    have "st2\<lparr>bf_log_t := op_file_remove ?ino (bf_log_t st2), bf_file_map := AList.delete ?ino (bf_file_map st2)\<rparr> =
        ?log\<lparr>bf_file_map := AList.delete ?ino (bf_file_map st2)\<rparr>" by simp
    then obtain st4 where st4: "add_pending (fn_extents (the_fnode r st2)) ?st3 = Some st4" "st' = retract_dirty r st4"
      using assms(1) True st2 by (auto simp: bf_drop_link_def Let_def)
    have a: "logs [] st st2" using log_quiet_logs [OF log_quiet_trans [OF q1 log_quiet_vs(2) [OF st2]] assms(2)] .
    then have e2: "entries_ok st2" by (simp add: logs_def)
    have b: "logs [Op_file_remove ?ino] st2 ?log"
      by (rule log_op [OF e2]) (simp_all add: op_file_remove_def tx_append_def)
    then have e3: "entries_ok ?log" by (simp add: logs_def)
    have "log_quiet ?log ?st3" by (rule log_quiet_trans [OF _ log_quiet_upd_file]) (simp_all add: log_quiet_upds(4))
    then have "log_quiet ?log st'" using log_quiet_trans log_quiet_pending [OF st4(1)] log_quiet_retract [of st4 r] st4(2) by blast
    then have "logs [] ?log st'" using e3 by (rule log_quiet_logs)
    from logs_trans [OF logs_trans [OF a b] this] show ?thesis by blast
  qed
qed

lemma unlink_logs:
  assumes "bf_unlink d f st = Some (x, st')" "entries_ok st" "length d < 2 ^ 32" "length f < 2 ^ 32"
  shows "\<exists>ops. logs ops st st'"
proof (cases "lookup_entry d f st")
  case None
  then show ?thesis using assms(1,2) by (auto simp: bf_unlink_def intro: exI [of _ "[]"])
next
  case (Some r)
  let ?st1 = "(erase_entry_of d f st)\<lparr>bf_log_t := op_dir_unlink d f (bf_log_t st)\<rparr>"
  have "bf_drop_link r ?st1 = Some st'" using assms(1) Some by (auto simp: bf_unlink_def Let_def)
  moreover have l: "logs [Op_unlink d f] st ?st1" by (rule unlink_step [OF assms(2-4)])
  ultimately show ?thesis using drop_link_logs logs_trans [OF l] by (metis logs_def)
qed

lemma link_step:
  assumes "entries_ok st" "length d < 2 ^ 32" "length f < 2 ^ 32" "r < length (bf_files st)" "ino = fn_ino (the_fnode r st)"
  shows "logs [Op_link d f ino] st ((set_entry_of d f r st)\<lparr>bf_log_t := op_dir_link d f ino (bf_log_t st)\<rparr>)"
  using assms entries_ok_upds(2) by (simp add: logs_def names_set_entry op_dir_link_def tx_append_def)

lemma set_entry_log_t: "set_entry_of d f r (st\<lparr>bf_log_t := t\<rparr>) = (set_entry_of d f r st)\<lparr>bf_log_t := t\<rparr>"
  "erase_entry_of d f (st\<lparr>bf_log_t := t\<rparr>) = (erase_entry_of d f st)\<lparr>bf_log_t := t\<rparr>"
  by (simp_all add: set_entry_of_def erase_entry_of_def split: option.splits)

lemma rename_logs:
  assumes "entries_ok st" "length d0 < 2 ^ 32" "length f0 < 2 ^ 32" "length d1 < 2 ^ 32" "length f1 < 2 ^ 32"
  shows "\<exists>ops. logs ops st (snd (bf_rename d0 f0 d1 f1 st))"
proof (cases "lookup_entry d0 f0 st")
  case None
  then show ?thesis using assms(1) by (auto simp: bf_rename_def intro: exI [of _ "[]"])
next
  case (Some r)
  have r: "r < length (bf_files st)" using Some assms(1) by (auto simp: entries_ok_def)
  let ?t0 = "lookup_entry d1 f1 st"
  let ?pre = "if ?t0 \<noteq> None \<and> ?t0 \<noteq> Some r then [Op_unlink d1 f1] else []"
  let ?ino = "fn_ino (the_fnode r st)"
  let ?ops = "?pre @ [Op_link d1 f1 ?ino, Op_unlink d0 f0]"
  show ?thesis
  proof (cases "map_of (bf_dir_map st) d1")
    case None
    then show ?thesis using assms(1) Some by (auto simp: bf_rename_def intro: exI [of _ "[]"])
  next
    case (Some dir)
    let ?st' = "snd (bf_rename d0 f0 d1 f1 st)"
    let ?st1 = "erase_entry_of d0 f0 (set_entry_of d1 f1 r st)"
    let ?t = "op_dir_unlink d0 f0 (op_dir_link d1 f1 ?ino (if ?t0 \<noteq> None \<and> ?t0 \<noteq> Some r then op_dir_unlink d1 f1 (bf_log_t st) else bf_log_t st))"
    have st': "?st' = ?st1\<lparr>bf_log_t := ?t\<rparr>"
      using \<open>lookup_entry d0 f0 st = Some r\<close> Some by (simp add: bf_rename_def Let_def)
    have t: "tx_op_bl ?t = tx_op_bl (bf_log_t st) @ concat (map enc_op ?ops)"
      by (simp add: op_dir_unlink_def op_dir_link_def tx_append_def)
    have "set_name d f x (set_name d f y N) = set_name d f x N" for d f x y N
      by (auto simp: set_name_def fun_eq_iff split: option.splits)
    then have n: "names ?st1 = fold name_op ?ops (names st)" by (simp add: names_erase_entry names_set_entry)
    have "entries_ok ?st1" by (intro entries_ok_upds assms(1) r)
    moreover have "\<forall>op \<in> set ?ops. op_fits op" using assms(2-5) by simp
    ultimately have "logs ?ops st ?st'" unfolding logs_def st' using t n by simp
    then show ?thesis by blast
  qed
qed

lemma log_update_quiet:
  "log_quiet (st\<lparr>bf_log_t := snd (op_file_update (the_fnode r st) (bf_log_t st))\<rparr>) (log_update r st)"
proof -
  let ?st1 = "st\<lparr>bf_log_t := snd (op_file_update (the_fnode r st) (bf_log_t st))\<rparr>"
  have s: "log_update r st = upd_fnode r (\<lambda>_. reset_delta (the_fnode r st)) ?st1"
    by (simp add: log_update_def op_file_update_def)
  show ?thesis
    unfolding s log_quiet_def upd_fnode_def by (simp add: the_fnode_def the_file_upd reset_delta_def) (simp add: the_file_def)
qed

lemma log_update_logs:
  assumes "entries_ok st" "length (fn_extents (the_fnode r st)) < 2 ^ 27"
  shows "logs [Op_update (the_fnode r st)] st (log_update r st)"
proof -
  let ?st1 = "st\<lparr>bf_log_t := snd (op_file_update (the_fnode r st) (bf_log_t st))\<rparr>"
  have l: "logs [Op_update (the_fnode r st)] st ?st1"
    by (rule log_op [OF assms(1)]) (use assms(2) in \<open>simp_all add: op_file_update_def tx_append_def\<close>)
  have "logs [] ?st1 (log_update r st)" using log_update_quiet l by (intro log_quiet_logs) (simp_all add: logs_def)
  from logs_trans [OF l this] show ?thesis by simp
qed

lemma log_quiet_writer: "bf_create_writer r st = (w, st') \<Longrightarrow> log_quiet st st'"
  by (auto simp: bf_create_writer_def)

lemma open_existing_logs:
  assumes "open_existing r overwrite st = Some (w, st')" "entries_ok st" "length (fn_extents (the_fnode r st)) < 2 ^ 27"
  shows "\<exists>ops. logs ops st st'"
proof -
  let ?old = "if overwrite then [] else fn_extents (the_fnode r st)"
  obtain st1 where st1: "(if overwrite then Some st
      else map_option (upd_fnode r (\<lambda>n. clear_extents (n\<lparr>fn_size := 0\<rparr>)))
             (with_vs (vs_sub_fnode (fl_hint (the_file r st)) (the_fnode r st)) st)) = Some st1"
    and st2: "map_option (bf_create_writer r) (add_pending ?old (log_update r (upd_fnode r (\<lambda>n. n\<lparr>fn_mtime := 0\<rparr>) st1))) = Some (w, st')"
    using assms(1) by (auto simp: open_existing_def Let_def bind_eq_Some_conv)
  let ?st2 = "upd_fnode r (\<lambda>n. n\<lparr>fn_mtime := 0\<rparr>) st1"
  have q1: "log_quiet st st1 \<and> length (fn_extents (the_fnode r st1)) < 2 ^ 27"
  proof (cases overwrite)
    case True
    then show ?thesis using st1 assms(3) by simp
  next
    case False
    then obtain v where v: "with_vs (vs_sub_fnode (fl_hint (the_file r st)) (the_fnode r st)) st = Some v"
      "st1 = upd_fnode r (\<lambda>n. clear_extents (n\<lparr>fn_size := 0\<rparr>)) v" using st1 by auto
    have "the_fnode r v = the_fnode r st" using v(1) by (auto simp: with_vs_def split: option.splits)
    then have "length (fn_extents (the_fnode r st1)) < 2 ^ 27"
      using assms(3) v(2) by (simp add: upd_fnode_def the_fnode_def the_file_upd clear_extents_def)
    moreover have "log_quiet v st1" unfolding v(2) upd_fnode_def by (rule log_quiet_upd_file) (simp add: clear_extents_def)
    ultimately show ?thesis using log_quiet_trans [OF log_quiet_vs(1) [OF v(1)]] by simp
  qed
  have "log_quiet st1 ?st2" unfolding upd_fnode_def by (rule log_quiet_upd_file) simp
  then have a: "logs [] st ?st2" using q1 log_quiet_trans assms(2) by (blast intro: log_quiet_logs)
  have "length (fn_extents (the_fnode r ?st2)) < 2 ^ 27"
    using q1 by (simp add: upd_fnode_def the_fnode_def the_file_upd)
  then have b: "logs [Op_update (the_fnode r ?st2)] ?st2 (log_update r ?st2)"
    using a by (intro log_update_logs) (simp_all add: logs_def)
  obtain st3 where st3: "add_pending ?old (log_update r ?st2) = Some st3" "bf_create_writer r st3 = (w, st')" using st2 by auto
  have "log_quiet (log_update r ?st2) st'" using log_quiet_trans log_quiet_pending [OF st3(1)] log_quiet_writer [OF st3(2)] by blast
  then have "logs [] (log_update r ?st2) st'" using b by (intro log_quiet_logs) (simp_all add: logs_def)
  from logs_trans [OF logs_trans [OF a b] this] show ?thesis by blast
qed

text \<open>A new object, not yet in a directory.\<close>

lemma make_file_quiet:
  assumes "entries_ok st" "make_file i st = (r, st1)"
  shows "entries_ok st1" "names st1 = names st" "r = length (bf_files st)" "length (bf_files st1) = Suc (length (bf_files st))"
    "bf_log_t st1 = bf_log_t st" "the_file r st1 = new_File i"
proof -
  have st1: "r = length (bf_files st)" "bf_files st1 = bf_files st @ [new_File i]" "bf_dir_map st1 = bf_dir_map st"
    "bf_log_t st1 = bf_log_t st" using assms(2) by (auto simp: make_file_def)
  have e: "x < length (bf_files st)" if "lookup_entry d f st = Some x" for d f x using assms(1) that by (auto simp: entries_ok_def)
  show "entries_ok st1" using e by (auto simp: entries_ok_def lookup_dir_map [OF st1(3)] st1(2) less_Suc_eq)
  show "names st1 = names st"
  proof (rule names_cong [OF st1(3)])
    fix d f x
    assume "lookup_entry d f st = Some x"
    from e [OF this] show "fn_ino (the_fnode x st1) = fn_ino (the_fnode x st)" by (simp add: the_fnode_def the_file_def st1(2) nth_append)
  qed
  show "r = length (bf_files st)" "length (bf_files st1) = Suc (length (bf_files st))" "bf_log_t st1 = bf_log_t st"
    "the_file r st1 = new_File i" using st1 by (simp_all add: the_file_def)
qed

lemma new_linked_file_names:
  assumes "entries_ok st" "new_linked_file d f hint st = (r, st1)"
  shows "entries_ok st1" "names st1 = set_name d f (Some (bf_ino_last st + 1)) (names st)" "bf_log_t st1 = bf_log_t st"
    "r < length (bf_files st1)" "the_fnode r st1 = new_fnode (bf_ino_last st + 1) 0 0"
proof -
  let ?ino = "bf_ino_last st + 1"
  let ?st0 = "st\<lparr>bf_ino_last := ?ino\<rparr>"
  let ?g = "\<lambda>f. f\<lparr>fl_fnode := (fl_fnode f)\<lparr>fn_ino := ?ino\<rparr>, fl_hint := hint, fl_refs := fl_refs f + 1\<rparr>"
  obtain st2 where m: "make_file 0 ?st0 = (r, st2)" using assms(2) by (auto simp: new_linked_file_def Let_def split: prod.splits)
  have st1: "st1 = set_entry_of d f r ((upd_file r ?g st2)\<lparr>bf_file_map := AList.update ?ino r (bf_file_map st2)\<rparr>)"
    using assms(2) m by (simp add: new_linked_file_def Let_def)
  have e0: "entries_ok ?st0" "names ?st0 = names st"
    using assms(1) by (auto simp: entries_ok_def lookup_entry_def intro: names_cong)
  note M = make_file_quiet [OF e0(1) m]
  let ?st3 = "(upd_file r ?g st2)\<lparr>bf_file_map := AList.update ?ino r (bf_file_map st2)\<rparr>"
  have lt: "r < length (bf_files st2)" using M(3,4) by simp
  have old: "x \<noteq> r" if "lookup_entry d' f' st2 = Some x" for d' f' x
  proof -
    have "lookup_entry d' f' st2 = lookup_entry d' f' st" using m by (auto simp: make_file_def lookup_entry_def)
    then have "x < length (bf_files st)" using that assms(1) by (auto simp: entries_ok_def)
    then show ?thesis using M(3) by simp
  qed
  have d: "bf_dir_map ?st3 = bf_dir_map st2" by simp
  have e3: "entries_ok ?st3" using M(1) by (simp add: entries_ok_def lookup_dir_map [OF d])
  have n3: "names ?st3 = names st2"
    by (rule names_cong [OF d]) (use old in \<open>simp add: the_fnode_def the_file_upd\<close>)
  have r3: "the_fnode r ?st3 = new_fnode ?ino 0 0"
    using lt M(6) by (simp add: the_fnode_def the_file_upd new_File_def new_fnode_def)
  show "entries_ok st1" unfolding st1 by (rule entries_ok_upds(2) [OF e3]) (simp add: lt)
  show "names st1 = set_name d f (Some ?ino) (names st)"
    unfolding st1 names_set_entry n3 M(2) e0(2) r3 by (simp add: new_fnode_def)
  show "bf_log_t st1 = bf_log_t st" "r < length (bf_files st1)" using M(5) lt by (simp_all add: st1)
  show "the_fnode r st1 = new_fnode ?ino 0 0" using r3 by (simp add: st1)
qed

lemma open_create_logs:
  assumes "open_create d f st = Some (w, st')" "entries_ok st" "length d < 2 ^ 32" "length f < 2 ^ 32"
  shows "\<exists>n. logs [Op_update n, Op_link d f (bf_ino_last st + 1)] st st'"
proof -
  obtain v where v: "bf_vselector st = Some v" using assms(1) by (cases "bf_vselector st") (auto simp: open_create_def)
  obtain r st1 where n: "new_linked_file d f (vs_hint_by_dir v d) st = (r, st1)" by (metis surj_pair)
  note N = new_linked_file_names [OF assms(2) n]
  let ?ino = "bf_ino_last st + 1"
  let ?st2 = "upd_fnode r (\<lambda>n. n\<lparr>fn_mtime := 0\<rparr>) st1"
  let ?st3 = "log_update r ?st2"
  let ?st4 = "log_link d f r ?st3"
  have w: "bf_create_writer r ?st4 = (w, st')" using assms(1) v n by (simp add: open_create_def)
  have q: "log_quiet st1 ?st2" unfolding upd_fnode_def by (rule log_quiet_upd_file) simp
  have f2: "the_fnode r ?st2 = new_fnode ?ino 0 0"
    using N(4,5) by (simp add: upd_fnode_def the_fnode_def the_file_upd new_fnode_def)
  have l2: "logs [] st1 ?st2" by (rule log_quiet_logs [OF q N(1)])
  have l3: "logs [Op_update (the_fnode r ?st2)] ?st2 ?st3"
    using l2 by (intro log_update_logs) (simp_all add: logs_def f2 new_fnode_def)
  have i3: "fn_ino (the_fnode r ?st3) = ?ino"
    using log_update_quiet [where st = ?st2 and r = r] f2 by (simp add: log_quiet_def new_fnode_def)
  have "logs [] ?st4 st'" using log_quiet_writer [OF w] l3 by (intro log_quiet_logs) (simp_all add: logs_def log_link_def)
  then have "logs [Op_update (the_fnode r ?st2), Op_link d f ?ino] st st'"
    using l2 l3 N(2,3) i3 assms(3,4) by (simp add: logs_def log_link_def op_dir_link_def tx_append_def)
  then show ?thesis by blast
qed

section \<open>Replaying the transaction\<close>

text \<open>The calls that change the names.\<close>

definition fits :: "bytes \<Rightarrow> bool" where
  "fits s \<longleftrightarrow> length s < 2 ^ 32"

inductive name_call :: "BlueFS \<Rightarrow> BlueFS \<Rightarrow> bool" where
  mkdir: "bf_mkdir d st = (x, st') \<Longrightarrow> fits d \<Longrightarrow> name_call st st'"
| rmdir: "bf_rmdir d st = (x, st') \<Longrightarrow> fits d \<Longrightarrow> name_call st st'"
| rename: "bf_rename d0 f0 d1 f1 st = (x, st') \<Longrightarrow> fits d0 \<Longrightarrow> fits f0 \<Longrightarrow> fits d1 \<Longrightarrow> fits f1 \<Longrightarrow> name_call st st'"
| unlink: "bf_unlink d f st = Some (x, st') \<Longrightarrow> fits d \<Longrightarrow> fits f \<Longrightarrow> name_call st st'"
| open_for_write: "bf_open_for_write d f overwrite st = Some (x, w, st') \<Longrightarrow> fits d \<Longrightarrow> fits f \<Longrightarrow>
    (\<forall>r. lookup_entry d f st = Some r \<longrightarrow> length (fn_extents (the_fnode r st)) < 2 ^ 27) \<Longrightarrow> name_call st st'"
| lock: "bf_lock_file d f st = (x, l, st') \<Longrightarrow> map_of (bf_dir_map st) d = None \<or> lookup_entry d f st \<noteq> None \<Longrightarrow> name_call st st'"
| unlock: "bf_unlock_file r st = Some (x, st') \<Longrightarrow> name_call st st'"

lemma locked_quiet: "log_quiet st (upd_file r (\<lambda>f. f\<lparr>fl_locked := b\<rparr>) st)"
  by (cases "r < length (bf_files st)") (auto simp: log_quiet_def upd_file_def the_fnode_def the_file_def nth_list_update list_update_beyond)

lemma name_call_logs:
  assumes "name_call st st'" "entries_ok st"
  shows "\<exists>ops. logs ops st st'"
  using assms
proof (cases rule: name_call.cases)
  case (open_for_write d f overwrite x w)
  show ?thesis
  proof (cases "lookup_entry d f st")
    case None
    show ?thesis
    proof (cases "map_of (bf_dir_map st) d = None \<or> overwrite")
      case True
      then have "st' = st" using open_for_write(1) None by (auto simp: bf_open_for_write_def lookup_entry_def split: option.splits)
      then show ?thesis using assms(2) by (auto intro: exI [of _ "[]"])
    next
      case False
      then obtain w' where "open_create d f st = Some (w', st')"
        using open_for_write(1) None by (auto simp: bf_open_for_write_def lookup_entry_def split: option.splits)
      from open_create_logs [OF this assms(2)] show ?thesis using open_for_write(2,3) unfolding fits_def by blast
    qed
  next
    case (Some r)
    then have "\<exists>w. open_existing r overwrite st = Some (w, st')"
      using open_for_write(1) by (auto simp: bf_open_for_write_def lookup_entry_def bind_eq_Some_conv split: option.splits)
    then show ?thesis using open_existing_logs open_for_write(4) Some assms(2) by blast
  qed
next
  case (mkdir d x)
  then show ?thesis using mkdir_logs [OF assms(2), of d] by (simp add: fits_def)
next
  case (rmdir d x)
  then show ?thesis using rmdir_logs [OF assms(2), of d] by (simp add: fits_def)
next
  case (rename d0 f0 d1 f1 x)
  then show ?thesis using rename_logs [OF assms(2), of d0 f0 d1 f1] by (simp add: fits_def)
next
  case (unlink d f x)
  then show ?thesis using unlink_logs [OF unlink(1) assms(2)] by (simp add: fits_def)
next
  case (lock d f x l)
  then have "st' = st \<or> (\<exists>r. st' = upd_file r (\<lambda>f. f\<lparr>fl_locked := True\<rparr>) st)"
    by (auto simp: bf_lock_file_def lookup_entry_def split: option.splits if_splits prod.splits)
  then show ?thesis using log_quiet_logs [OF locked_quiet assms(2)] assms(2) by (auto intro: exI [of _ "[]"])
next
  case (unlock r x)
  then show ?thesis using log_quiet_logs [OF locked_quiet assms(2)] by (auto simp: bf_unlock_file_def split: if_splits)
qed

lemma name_calls_logs:
  assumes "name_call\<^sup>*\<^sup>* st st'" "entries_ok st"
  shows "\<exists>ops. logs ops st st'"
  using assms
proof (induction rule: rtranclp_induct)
  case base
  then show ?case by (auto intro: exI [of _ "[]"])
next
  case (step a b)
  then obtain ops where l: "logs ops st a" by blast
  then have "entries_ok a" by (simp add: logs_def)
  from name_call_logs [OF step(2) this] l show ?case using logs_trans by blast
qed

text \<open>
  C14: the transaction under construction tells the names. Whatever directories are made and removed, whatever files are opened
  for writing, renamed and removed and whatever existing files are locked and unlocked since the last flush of the
  log, replaying the logged operations on a file system with the names of that time ends, fails no assertion and leads to the
  names of now. Locking a file that does not exist is the one call on names that is left out: it makes the file and
  logs nothing (\<open>lock_file_not_logged\<close>).
\<close>

theorem journal_tells_names:
  assumes "name_call\<^sup>*\<^sup>* st0 st" "entries_ok st0" "tx_op_bl (bf_log_t st0) = []" "replay_ok b" "names b = names st0"
  shows "\<exists>b'. replay_ops lf s (tx_op_bl (bf_log_t st)) b = Some (Go_On s [] b') \<and> replay_ok b' \<and> names b' = names st"
proof -
  obtain ops where l: "logs ops st0 st" using name_calls_logs [OF assms(1,2)] by blast
  then have o: "tx_op_bl (bf_log_t st) = concat (map enc_op ops)" "\<forall>op \<in> set ops. op_fits op"
    "names st = fold name_op ops (names st0)" using assms(3) by (simp_all add: logs_def)
  from apply_ops_ok [OF assms(4), of ops] obtain b' where b: "apply_ops ops b = Some b'" "replay_ok b'"
    "names b' = fold name_op ops (names b)" by blast
  then show ?thesis using replay_ops_enc [OF o(2)] o assms(5) by simp
qed

text \<open>
  \<open>lock_file\<close> of a file that does not exist makes the file and its entry but logs nothing. After any calls on names, and once
  the log is replayed, the directory is as it was before the lock: the file is gone.
\<close>

theorem lock_file_not_logged:
  assumes "name_call\<^sup>*\<^sup>* st0 st" "entries_ok st0" "tx_op_bl (bf_log_t st0) = []" "replay_ok b" "names b = names st0"
    and "map_of (bf_dir_map st) d \<noteq> None" "lookup_entry d f st = None"
  shows "\<exists>r st' b'. bf_lock_file d f st = (0, Some r, st') \<and> lookup_entry d f st' = Some r \<and>
    replay_ops lf s (tx_op_bl (bf_log_t st')) b = Some (Go_On s [] b') \<and> names b' = names st \<and> lookup_entry d f b' = None"
proof -
  obtain ops where l: "logs ops st0 st" using name_calls_logs [OF assms(1,2)] by blast
  then have o: "tx_op_bl (bf_log_t st) = concat (map enc_op ops)" "\<forall>op \<in> set ops. op_fits op"
    "names st = fold name_op ops (names st0)" using assms(3) by (simp_all add: logs_def)
  from apply_ops_ok [OF assms(4), of ops] obtain b' where b: "apply_ops ops b = Some b'"
    "names b' = fold name_op ops (names b)" by blast
  then have R: "replay_ops lf s (tx_op_bl (bf_log_t st)) b = Some (Go_On s [] b')" "names b' = names st"
    using replay_ops_enc [OF o(2)] o assms(5) by simp_all
  obtain dir where d: "map_of (bf_dir_map st) d = Some dir" "map_of dir f = None"
    using assms(6,7) by (auto simp: lookup_entry_def)
  obtain r st1 where n: "new_linked_file d f 0 st = (r, st1)" by fastforce
  then have N: "bf_log_t st1 = bf_log_t st" "lookup_entry d f st1 = Some r" "\<not> fl_locked (the_file r st1)"
    using d by (auto simp: new_linked_file_def make_file_def new_File_def upd_file_def set_entry_of_def Let_def lookup_entry_def the_file_def map_of_om_set)
  let ?st' = "upd_file r (\<lambda>f. f\<lparr>fl_locked := True\<rparr>) st1"
  have "bf_lock_file d f st = (0, Some r, ?st')" using d n N(3) by (simp add: bf_lock_file_def)
  moreover have "bf_log_t ?st' = bf_log_t st" "lookup_entry d f ?st' = Some r" using N by (simp_all add: upd_file_def lookup_entry_def)
  moreover have "lookup_entry d f b' = None"
  proof -
    have "names b' d = names st d" by (simp add: R(2))
    then show ?thesis using d by (auto simp: names_def lookup_entry_def dest!: fun_cong [of _ _ f] split: option.splits)
  qed
  ultimately show ?thesis using R by (intro exI [of _ r] exI [of _ ?st'] exI [of _ b']) simp
qed

text \<open>Witness: a directory is made and a file is created in it, on an empty file system.\<close>

definition fresh_fs :: BlueFS where
  "fresh_fs = (new_BlueFS default_BlueFSConfig)\<lparr>bf_vselector := Some (new_original 0 0 0), bf_ino_last := 1\<rparr>"

theorem journal_tells_names_witness:
  "\<exists>st b'. name_call\<^sup>*\<^sup>* fresh_fs st \<and> names st [100] = Some ((\<lambda>_. None)([97] \<mapsto> 2)) \<and>
     replay_ops 0 0 (tx_op_bl (bf_log_t st)) fresh_fs = Some (Go_On 0 [] b') \<and> names b' = names st"
proof -
  let ?st1 = "snd (bf_mkdir [100] fresh_fs)"
  have st1: "?st1 = fresh_fs\<lparr>bf_dir_map := [([100], [])], bf_log_t := op_dir_create [100] new_transaction\<rparr>"
    by (simp add: bf_mkdir_def fresh_fs_def new_BlueFS_def)
  have c1: "name_call fresh_fs ?st1" by (rule name_call.mkdir [of "[100]" _ "fst (bf_mkdir [100] fresh_fs)"]) (simp_all add: fits_def)
  have "bf_vselector ?st1 = Some (new_original 0 0 0)" unfolding st1 by (simp add: fresh_fs_def)
  then obtain w st2 where o: "open_create [100] [97] ?st1 = Some (w, st2)"
    by (cases "open_create [100] [97] ?st1") (auto simp: open_create_def split_def Let_def)
  have "map_of (bf_dir_map ?st1) [100] = Some []" by (simp add: st1)
  then have "bf_open_for_write [100] [97] False ?st1 = Some (0, Some w, st2)" using o by (simp add: bf_open_for_write_def)
  then have c2: "name_call ?st1 st2"
    by (rule name_call.open_for_write) (simp_all add: fits_def st1 lookup_entry_def)
  have c: "name_call\<^sup>*\<^sup>* fresh_fs st2" using c1 c2 by (meson rtranclp.rtrancl_into_rtrancl rtranclp.rtrancl_refl)
  have e: "entries_ok fresh_fs" "tx_op_bl (bf_log_t fresh_fs) = []" "replay_ok fresh_fs"
    by (auto simp: entries_ok_def replay_ok_def plain_selector_def lookup_entry_def fresh_fs_def new_BlueFS_def new_transaction_def new_original_def)
  from journal_tells_names [OF c e refl, of 0 0] obtain b' where
    b: "replay_ops 0 0 (tx_op_bl (bf_log_t st2)) fresh_fs = Some (Go_On 0 [] b')" "names b' = names st2" by blast
  have "entries_ok ?st1" by (simp add: entries_ok_def lookup_entry_def st1)
  from open_create_logs [OF o this] obtain n where "logs [Op_update n, Op_link [100] [97] (bf_ino_last ?st1 + 1)] ?st1 st2" by auto
  moreover have "bf_ino_last ?st1 + 1 = 2" unfolding st1 by (simp add: fresh_fs_def)
  ultimately have "names st2 = set_name [100] [97] (Some 2) (names ?st1)" by (simp add: logs_def)
  moreover have "names ?st1 [100] = Some (\<lambda>_. None)" by (simp add: names_def st1)
  ultimately have "names st2 [100] = Some ((\<lambda>_. None)([97] \<mapsto> 2))" by (simp add: set_name_def)
  then show ?thesis using c b by blast
qed

theorem lock_file_not_logged_witness:
  "\<exists>r st' b'. bf_lock_file [100] [76] (snd (bf_mkdir [100] fresh_fs)) = (0, Some r, st') \<and> lookup_entry [100] [76] st' = Some r \<and>
     replay_ops 0 0 (tx_op_bl (bf_log_t st')) fresh_fs = Some (Go_On 0 [] b') \<and> lookup_entry [100] [76] b' = None"
proof -
  let ?st1 = "snd (bf_mkdir [100] fresh_fs)"
  have st1: "?st1 = fresh_fs\<lparr>bf_dir_map := [([100], [])], bf_log_t := op_dir_create [100] new_transaction\<rparr>"
    by (simp add: bf_mkdir_def fresh_fs_def new_BlueFS_def)
  have "name_call fresh_fs ?st1" by (rule name_call.mkdir [of "[100]" _ "fst (bf_mkdir [100] fresh_fs)"]) (simp_all add: fits_def)
  then have c: "name_call\<^sup>*\<^sup>* fresh_fs ?st1" by blast
  have e: "entries_ok fresh_fs" "tx_op_bl (bf_log_t fresh_fs) = []" "replay_ok fresh_fs"
    by (auto simp: entries_ok_def replay_ok_def plain_selector_def lookup_entry_def fresh_fs_def new_BlueFS_def new_transaction_def new_original_def)
  have d: "map_of (bf_dir_map ?st1) [100] \<noteq> None" "lookup_entry [100] [76] ?st1 = None" by (simp_all add: st1 lookup_entry_def)
  from lock_file_not_logged [OF c e refl d, of 0 0] show ?thesis by blast
qed

end
