(* ===== verification/Bluefs_Data.thy ===== *)
theory Bluefs_Data
  imports Bluefs_Journal
begin

text \<open>
  The data of files. \<open>file_data\<close> is what the extents of a file hold on the devices; flushing a writer puts its buffer into
  it, reading takes it out again. A flush that runs out of extents reports success all the same.
\<close>

section \<open>Space of a file\<close>

definition ext_data :: "BlockDevice option list \<Rightarrow> bluefs_extent \<Rightarrow> bytes" where
  "ext_data devs e = bytes_at (the (devs ! unat (bx_bdev e))) (unat (bx_offset e)) (unat (bx_length e))"

definition file_data :: "BlockDevice option list \<Rightarrow> bluefs_extent list \<Rightarrow> bytes" where
  "file_data devs es = concat (map (ext_data devs) es)"

text \<open>Extents on different devices or on different ranges of one device.\<close>

definition bx_apart :: "bluefs_extent \<Rightarrow> bluefs_extent \<Rightarrow> bool" where
  "bx_apart a b \<longleftrightarrow> bx_bdev a = bx_bdev b \<longrightarrow>
     unat (bx_offset a) + unat (bx_length a) \<le> unat (bx_offset b) \<or> unat (bx_offset b) + unat (bx_length b) \<le> unat (bx_offset a)"

text \<open>An extent inside an open device whose system calls succeed.\<close>

definition bx_placed :: "BlockDevice option list \<Rightarrow> bluefs_extent \<Rightarrow> bool" where
  "bx_placed devs e \<longleftrightarrow> unat (bx_bdev e) < length devs \<and>
     (\<exists>d. devs ! unat (bx_bdev e) = Some d \<and> healthy d \<and> unat (bx_offset e) + unat (bx_length e) \<le> unat (bd_size d))"

definition space_ok :: "BlockDevice option list \<Rightarrow> bluefs_extent list \<Rightarrow> bool" where
  "space_ok devs es \<longleftrightarrow> (\<forall>e \<in> set es. bx_placed devs e) \<and> sorted_wrt bx_apart es"

lemma bx_apart_sym: "bx_apart a b = bx_apart b a"
  by (auto simp: bx_apart_def)

lemma length_ext_data [simp]: "length (ext_data devs e) = unat (bx_length e)"
  by (simp add: ext_data_def)

lemma length_file_data [simp]: "length (file_data devs es) = ext_total es"
  by (induction es) (simp_all add: file_data_def)

lemma file_data_simps [simp]:
  "file_data devs [] = []" "file_data devs (e # es) = ext_data devs e @ file_data devs es"
  "file_data devs (xs @ ys) = file_data devs xs @ file_data devs ys"
  by (simp_all add: file_data_def)

section \<open>Writing\<close>

text \<open>A write inside an extent changes the data of this extent and of no other.\<close>

definition wrote_to :: "bluefs_extent \<Rightarrow> nat \<Rightarrow> bytes \<Rightarrow> BlockDevice option list \<Rightarrow> BlockDevice option list" where
  "wrote_to e x bs devs =
     devs[unat (bx_bdev e) := Some (wrote (unat (bx_offset e) + x) bs True (the (devs ! unat (bx_bdev e))))]"

lemma length_wrote_to [simp]: "length (wrote_to e x bs devs) = length devs"
  by (simp add: wrote_to_def)

lemma wrote_to_same:
  assumes "bx_placed devs e" "x + length bs \<le> unat (bx_length e)"
  shows "ext_data (wrote_to e x bs devs) e = take x (ext_data devs e) @ bs @ drop (x + length bs) (ext_data devs e)"
proof -
  let ?d = "the (devs ! unat (bx_bdev e))" and ?o = "unat (bx_offset e)"
  let ?d' = "wrote (?o + x) bs True ?d"
  have len: "unat (bx_length e) = x + (length bs + (unat (bx_length e) - x - length bs))" using assms(2) by simp
  have split: "bytes_at dd ?o (unat (bx_length e)) = bytes_at dd ?o x @ bytes_at dd (?o + x) (length bs) @
      bytes_at dd (?o + x + length bs) (unat (bx_length e) - x - length bs)" for dd
    by (subst len) (simp only: bytes_at_append)
  have "ext_data (wrote_to e x bs devs) e = bytes_at ?d' ?o (unat (bx_length e))"
    using assms(1) by (simp add: ext_data_def wrote_to_def bx_placed_def)
  also have "\<dots> = bytes_at ?d ?o x @ bs @ bytes_at ?d (?o + x + length bs) (unat (bx_length e) - x - length bs)"
    unfolding split by (simp add: bytes_at_wrote)
  finally show ?thesis unfolding ext_data_def split by simp
qed

lemma wrote_to_other:
  assumes "bx_apart e' e" "bx_placed devs e" "x + length bs \<le> unat (bx_length e)"
  shows "ext_data (wrote_to e x bs devs) e' = ext_data devs e'"
proof (cases "bx_bdev e' = bx_bdev e")
  case True
  then show ?thesis
    using assms by (auto simp: ext_data_def wrote_to_def bx_placed_def bx_apart_def bytes_at_wrote(2))
next
  case False
  then have "unat (bx_bdev e') \<noteq> unat (bx_bdev e)" by (simp add: word_unat_eq_iff)
  then show ?thesis by (simp add: ext_data_def wrote_to_def)
qed

lemma bx_placed_wrote_to:
  assumes "bx_placed devs e" "x + length bs \<le> unat (bx_length e)"
  shows "bx_placed (wrote_to e x bs devs) e' = bx_placed devs e'"
proof -
  obtain d where d: "unat (bx_bdev e) < length devs" "devs ! unat (bx_bdev e) = Some d" "healthy d"
    "unat (bx_offset e) + unat (bx_length e) \<le> unat (bd_size d)" using assms(1) by (auto simp: bx_placed_def)
  have "healthy (wrote (unat (bx_offset e) + x) bs True d)" using d assms(2) by (intro healthy_wrote) simp_all
  then show ?thesis using d by (auto simp: bx_placed_def wrote_to_def nth_list_update)
qed

text \<open>One step of the loop, buffered or aligned.\<close>

definition page_aligned :: "bluefs_extent \<Rightarrow> bool" where
  "page_aligned e \<longleftrightarrow> 4096 dvd unat (bx_offset e) \<and> 4096 dvd unat (bx_length e)"

lemma write_step:
  assumes "bx_placed devs e" "unat x + length bs \<le> unat (bx_length e)" "length bs < 2 ^ 31"
    and "buffered \<or> (page_aligned e \<and> 4096 dvd unat x \<and> 4096 dvd length bs)"
  shows "dev_write (bx_offset e + x) bs buffered (the (devs ! unat (bx_bdev e))) =
    (int (length bs), the (wrote_to e (unat x) bs devs ! unat (bx_bdev e)))"
proof -
  obtain d where d: "unat (bx_bdev e) < length devs" "devs ! unat (bx_bdev e) = Some d" "healthy d"
    "unat (bx_offset e) + unat (bx_length e) \<le> unat (bd_size d)" using assms(1) by (auto simp: bx_placed_def)
  have "unat (bd_size d) < 2 ^ 63" using d(3) by (simp add: healthy_def)
  then have o: "unat (bx_offset e + x) = unat (bx_offset e) + unat x"
    using d(4) assms(2) by (intro unat_add_nowrap) simp
  have "buffered \<or> 4096 dvd unat (bx_offset e + x) \<and> 4096 dvd length bs"
    using assms(4) unfolding o page_aligned_def by auto
  then have "dev_write (bx_offset e + x) bs buffered d = (int (length bs), wrote (unat (bx_offset e + x)) bs True d)"
    using d assms(2,3) o by (intro dev_write_healthy) simp_all
  then show ?thesis using d o by (simp add: wrote_to_def)
qed

lemma write_extents_ok:
  assumes "space_ok devs es" "es \<noteq> [] \<Longrightarrow> unat x \<le> unat (bx_length (hd es))" "length bl < 2 ^ 31"
    and "buffered \<or> ((\<forall>e \<in> set es. page_aligned e) \<and> 4096 dvd unat x \<and> 4096 dvd length bl)"
  shows "\<exists>devs' dirty'. write_extents buffered es x bl devs dirty = Some (0, devs', dirty') \<and> length devs' = length devs \<and>
    (let m = min (length bl) (ext_total es - unat x) in es \<noteq> [] \<longrightarrow>
       file_data devs' es = take (unat x) (file_data devs es) @ take m bl @ drop (unat x + m) (file_data devs es)) \<and>
    (\<forall>e'. (\<forall>e \<in> set es. bx_apart e' e) \<longrightarrow> ext_data devs' e' = ext_data devs e') \<and>
    (\<forall>e'. bx_placed devs' e' = bx_placed devs e')"
  using assms
proof (induction es arbitrary: x bl devs dirty)
  case (Cons e es)
  show ?case
  proof (cases "bl = []")
    case True
    then show ?thesis by (simp add: Let_def del: file_data_simps)
  next
    case False
    let ?L = "unat (bx_length e)" and ?b = "unat (bx_bdev e)"
    have p: "bx_placed devs e" and sp: "space_ok devs es" and ap: "\<forall>e' \<in> set es. bx_apart e e'"
      using Cons.prems(1) by (simp_all add: space_ok_def)
    have x: "unat x \<le> ?L" using Cons.prems(2) by simp
    then have xw: "x \<le> bx_len e" by (simp add: word_le_nat_alt)
    define k where "k = min (?L - unat x) (length bl)"
    have room: "unat (bx_len e - x) = ?L - unat x" using unat_sub_le [OF xw] by simp
    have k: "unat x + k \<le> ?L" "k \<le> length bl" using x by (auto simp: k_def)
    have lk: "length (take k bl) = k" using k(2) by simp
    have al: "buffered \<or> (page_aligned e \<and> 4096 dvd unat x \<and> 4096 dvd k)"
      using Cons.prems(4) by (auto simp: k_def min_def page_aligned_def dvd_diff_nat)
    let ?devs1 = "wrote_to e (unat x) (take k bl) devs"
    have d1: "the (?devs1 ! ?b) = wrote (unat (bx_offset e) + unat x) (take k bl) True (the (devs ! ?b))"
      using p by (simp add: wrote_to_def bx_placed_def)
    have w: "dev_write (bx_offset e + x) (take k bl) buffered (the (devs ! ?b)) = (int k, the (?devs1 ! ?b))"
      using write_step [OF p, of x "take k bl" buffered] k al Cons.prems(3) lk by simp
    have u: "devs[?b := Some (the (?devs1 ! ?b))] = ?devs1" unfolding d1 by (simp add: wrote_to_def)
    obtain d where d: "?b < length devs" "devs ! ?b = Some d" using p by (auto simp: bx_placed_def)
    have step: "write_extents buffered (e # es) x bl devs dirty =
        write_extents buffered es 0 (drop k bl) ?devs1 (dirty[?b := True])"
      using False d w u by (simp add: room k_def [symmetric])
    have keep: "ext_data ?devs1 e' = ext_data devs e'" if "bx_apart e' e" for e'
      using wrote_to_other [OF that p, of "unat x" "take k bl"] k lk by simp
    have fd: "file_data ?devs1 es = file_data devs es"
      using ap keep by (auto simp: file_data_def bx_apart_sym intro!: arg_cong [where f = concat])
    have pl: "bx_placed ?devs1 e' = bx_placed devs e'" for e'
      using bx_placed_wrote_to [OF p, of "unat x" "take k bl"] k lk by simp
    have sp1: "space_ok ?devs1 es" using sp by (simp add: space_ok_def pl)
    have "\<exists>devs' dirty'. write_extents buffered es 0 (drop k bl) ?devs1 (dirty[?b := True]) = Some (0, devs', dirty') \<and>
        length devs' = length ?devs1 \<and>
        (let m = min (length (drop k bl)) (ext_total es - unat (0::u64)) in es \<noteq> [] \<longrightarrow>
           file_data devs' es = take (unat (0::u64)) (file_data ?devs1 es) @ take m (drop k bl) @ drop (unat (0::u64) + m) (file_data ?devs1 es)) \<and>
        (\<forall>e'. (\<forall>e \<in> set es. bx_apart e' e) \<longrightarrow> ext_data devs' e' = ext_data ?devs1 e') \<and> (\<forall>e'. bx_placed devs' e' = bx_placed ?devs1 e')"
      by (rule Cons.IH [OF sp1]) (use Cons.prems(3,4) al in \<open>auto simp: dvd_diff_nat\<close>)
    then obtain devs' dirty' where I: "write_extents buffered es 0 (drop k bl) ?devs1 (dirty[?b := True]) = Some (0, devs', dirty')"
      "length devs' = length devs" "\<forall>e'. (\<forall>e \<in> set es. bx_apart e' e) \<longrightarrow> ext_data devs' e' = ext_data ?devs1 e'"
      "\<forall>e'. bx_placed devs' e' = bx_placed devs e'"
      "es \<noteq> [] \<Longrightarrow> file_data devs' es = take (min (length bl - k) (ext_total es)) (drop k bl) @
         drop (min (length bl - k) (ext_total es)) (file_data devs es)"
      by (auto simp: Let_def fd pl)
    have e: "ext_data devs' e = take (unat x) (ext_data devs e) @ take k bl @ drop (unat x + k) (ext_data devs e)"
      using I(3) ap wrote_to_same [OF p, of "unat x" "take k bl"] k lk by simp
    have es: "file_data devs' es = take (min (length bl - k) (ext_total es)) (drop k bl) @
         drop (min (length bl - k) (ext_total es)) (file_data devs es)"
      using I(5) by (cases es) simp_all
    let ?m = "min (length bl) (?L + ext_total es - unat x)"
    have "file_data devs' (e # es) = take (unat x) (file_data devs (e # es)) @ take ?m bl @ drop (unat x + ?m) (file_data devs (e # es))"
    proof (cases "length bl \<le> ?L - unat x")
      case True
      then have "k = length bl" "?m = length bl" by (simp_all add: k_def)
      then show ?thesis using e es x True by simp
    next
      case big: False
      then have kL: "k = ?L - unat x" "unat x + k = ?L" using x by (simp_all add: k_def)
      let ?m2 = "min (length bl - k) (ext_total es)"
      have m: "?m = k + ?m2" using big x kL by simp
      have "take ?m bl = take k bl @ take ?m2 (drop k bl)" unfolding m by (simp add: take_add)
      moreover have "drop (unat x + ?m) (ext_data devs e @ file_data devs es) = drop ?m2 (file_data devs es)"
        unfolding m using kL by simp
      ultimately show ?thesis using e es kL x by simp
    qed
    moreover have "\<forall>e'. (\<forall>e'' \<in> set (e # es). bx_apart e' e'') \<longrightarrow> ext_data devs' e' = ext_data devs e'"
      using I(3) keep by simp
    ultimately show ?thesis unfolding step using I(1,2,4) by (simp add: Let_def)
  qed
qed simp

section \<open>Flushing\<close>

text \<open>A file whose node is well formed and whose extents are in place.\<close>

definition file_ok :: "nat \<Rightarrow> BlueFS \<Rightarrow> bool" where
  "file_ok r st \<longleftrightarrow> r < length (bf_files st) \<and> fnode_ok (the_fnode r st) \<and> space_ok (bf_bdev st) (fn_extents (the_fnode r st))"

abbreviation data_of :: "nat \<Rightarrow> BlueFS \<Rightarrow> bytes" where
  "data_of r st \<equiv> file_data (bf_bdev st) (fn_extents (the_fnode r st))"

lemma sorted_bx_apart:
  "sorted_wrt bx_apart (xs @ ys) \<Longrightarrow> a \<in> set xs \<Longrightarrow> b \<in> set ys \<Longrightarrow> bx_apart a b"
  by (simp add: sorted_wrt_append)

lemma seek_split:
  assumes "fnode_ok n" "fn_seek off n = Some (i, x)"
  shows "i < length (fn_extents n)" "unat x < unat (bx_length (fn_extents n ! i))"
    "unat off = ext_total (take i (fn_extents n)) + unat x" "off < fn_allocated n"
  using fnode_seek_exact [OF assms(1), of off] assms(2) by simp_all

text \<open>Writing around the page cache takes whole pages: extents, position and buffer.\<close>

definition whole_pages :: "bluefs_fnode \<Rightarrow> u64 \<Rightarrow> bytes \<Rightarrow> bool" where
  "whole_pages n off bl \<longleftrightarrow> (\<forall>e \<in> set (fn_extents n). page_aligned e) \<and> 4096 dvd unat off \<and> 4096 dvd length bl"

lemma page_aligned_total: "\<forall>e \<in> set es. page_aligned e \<Longrightarrow> 4096 dvd ext_total es"
  by (induction es) (simp_all add: page_aligned_def)

lemma whole_pages_seek:
  assumes "fnode_ok n" "fn_seek off n = Some (i, x)" "\<forall>e \<in> set (fn_extents n). page_aligned e"
  shows "4096 dvd unat off \<longleftrightarrow> 4096 dvd unat x"
proof -
  have "4096 dvd ext_total (take i (fn_extents n))" using assms(3) by (intro page_aligned_total) (blast dest: in_set_takeD)
  then show ?thesis unfolding seek_split(3) [OF assms(1,2)] by (rule dvd_add_right_iff)
qed

lemma flush_data_ok:
  assumes "file_ok r st" "fw_file w = r" "len \<noteq> 0" "offset < fn_allocated (the_fnode r st)" "length (fw_buffer w) < 2 ^ 31"
    and mode: "buffered \<or> whole_pages (the_fnode r st) offset (fw_buffer w)"
  shows "\<exists>w' st'. bf_flush_data w offset len buffered st = Some (0, w', st') \<and> fw_pos w' = fw_pos w + len \<and> fw_buffer w' = fw_buffer w \<and>
    file_ok r st' \<and> the_fnode r st' = (the_fnode r st)\<lparr>fn_size := max (fn_size (the_fnode r st)) (fw_pos w + len)\<rparr> \<and>
    (let m = min (length (fw_buffer w)) (unat (fn_allocated (the_fnode r st)) - unat offset); D = data_of r st
     in data_of r st' = take (unat offset) D @ take m (fw_buffer w) @ drop (unat offset + m) D) \<and> bf_cfg st' = bf_cfg st"
proof -
  let ?n = "the_fnode r st" and ?bl = "fw_buffer w"
  have ok: "fnode_ok ?n" "space_ok (bf_bdev st) (fn_extents ?n)" "r < length (bf_files st)" using assms(1) by (simp_all add: file_ok_def)
  obtain i x where s: "fn_seek offset ?n = Some (i, x)" using seek_found [OF ok(1) assms(4)] by auto
  note S = seek_split [OF ok(1) s]
  let ?pre = "take i (fn_extents ?n)" and ?es = "drop i (fn_extents ?n)"
  have all: "fn_extents ?n = ?pre @ ?es" by simp
  have sp: "space_ok (bf_bdev st) ?es" "sorted_wrt bx_apart (?pre @ ?es)"
    using ok(2) by (simp_all add: space_ok_def sorted_wrt_drop in_set_dropD del: append_take_drop_id) (simp add: append_take_drop_id)
  have hd: "?es \<noteq> []" "hd ?es = fn_extents ?n ! i" using S(1) by (simp_all add: hd_drop_conv_nth)
  have al: "buffered \<or> ((\<forall>e \<in> set ?es. page_aligned e) \<and> 4096 dvd unat x \<and> 4096 dvd length ?bl)"
    using mode whole_pages_seek [OF ok(1) s] by (auto simp: whole_pages_def dest: in_set_dropD)
  from write_extents_ok [OF sp(1) _ assms(5) al, of "fw_dirty_devs w"] obtain devs' dirty' where
    W: "write_extents buffered ?es x ?bl (bf_bdev st) (fw_dirty_devs w) = Some (0, devs', dirty')" "length devs' = length (bf_bdev st)"
      "\<forall>e'. (\<forall>e \<in> set ?es. bx_apart e' e) \<longrightarrow> ext_data devs' e' = ext_data (bf_bdev st) e'"
      "\<forall>e'. bx_placed devs' e' = bx_placed (bf_bdev st) e'"
      "let m = min (length ?bl) (ext_total ?es - unat x)
       in file_data devs' ?es = take (unat x) (file_data (bf_bdev st) ?es) @ take m ?bl @ drop (unat x + m) (file_data (bf_bdev st) ?es)"
    using hd S(2) by auto
  let ?w' = "w\<lparr>fw_dirty_devs := dirty', fw_pos := fw_pos w + len\<rparr>"
  let ?st' = "upd_fnode r (\<lambda>n. n\<lparr>fn_size := max (fn_size n) (fw_pos w + len)\<rparr>) (st\<lparr>bf_bdev := devs'\<rparr>)"
  have f: "bf_flush_data w offset len buffered st = Some (0, ?w', ?st')"
    using assms(2,3) s W(1) by (simp add: bf_flush_data_def)
  have n': "the_fnode r ?st' = ?n\<lparr>fn_size := max (fn_size ?n) (fw_pos w + len)\<rparr>"
    using ok(3) by (simp add: upd_fnode_def the_fnode_def the_file_upd) (simp add: the_file_def)
  have dev: "bf_bdev ?st' = devs'" by (simp add: upd_fnode_def upd_file_def)
  have pre: "file_data devs' ?pre = file_data (bf_bdev st) ?pre"
  proof -
    have "ext_data devs' e = ext_data (bf_bdev st) e" if "e \<in> set ?pre" for e
      using W(3) sorted_bx_apart [OF sp(2) that] by blast
    then show ?thesis by (simp add: file_data_def cong: map_cong)
  qed
  let ?m = "min (length ?bl) (ext_total ?es - unat x)"
  have tot: "ext_total ?pre + ext_total ?es = unat (fn_allocated ?n)"
    using fnode_total [OF ok(1)] all by (metis ext_total_simps(3))
  have m: "ext_total ?es - unat x = unat (fn_allocated ?n) - unat offset" using tot S(3) by simp
  have D: "data_of r st = file_data (bf_bdev st) ?pre @ file_data (bf_bdev st) ?es"
    by (metis all file_data_simps(3))
  have D': "data_of r ?st' = file_data devs' ?pre @ file_data devs' ?es"
    unfolding dev n' by simp (metis all file_data_simps(3))
  have "data_of r ?st' = take (unat offset) (data_of r st) @ take ?m ?bl @ drop (unat offset + ?m) (data_of r st)"
    unfolding D' D pre using W(5) S(3) by (simp add: Let_def)
  moreover have "file_ok r ?st'"
    using ok W(2,4) unfolding file_ok_def dev n'
    by (simp add: fnode_ok_def space_ok_def upd_fnode_def)
  moreover have "bf_cfg ?st' = bf_cfg st" by (simp add: upd_fnode_def upd_file_def)
  ultimately show ?thesis using f n' m by (intro exI [of _ ?w'] exI [of _ ?st']) (simp add: Let_def)
qed

section \<open>Reading\<close>

lemma read_random_healthy:
  assumes "healthy d" "unat off + unat len \<le> unat (bd_size d)" "len \<noteq> 0" "unat len < 2 ^ 31"
  shows "dev_read_random off len buffered d = (int (unat len), bytes_at d (unat off) (unat len), d)"
proof -
  have "unat (bd_size d) < 2 ^ 63" using assms(1) by (simp add: healthy_def)
  then have "unat (off + len) = unat off + unat len" using assms(2) by (intro unat_add_nowrap) simp
  then have "\<not> off + len < off" by (simp add: word_less_nat_alt)
  moreover have "min (unat len) (bd_len d - unat off) = unat len" using assms(1,2) by (simp add: healthy_def)
  ultimately show ?thesis using assms(1,3,4) by (auto simp: dev_read_random_def healthy_def next_sys_def as_int_small)
qed

lemma ext_data_part:
  assumes "x + l \<le> unat (bx_length e)"
  shows "take l (drop x (ext_data devs e)) = bytes_at (the (devs ! unat (bx_bdev e))) (unat (bx_offset e) + x) l"
proof -
  let ?d = "the (devs ! unat (bx_bdev e))" and ?o = "unat (bx_offset e)"
  have "unat (bx_length e) = x + (l + (unat (bx_length e) - x - l))" using assms by simp
  then have "ext_data devs e = bytes_at ?d ?o x @ bytes_at ?d (?o + x) l @ bytes_at ?d (?o + x + l) (unat (bx_length e) - x - l)"
    unfolding ext_data_def by (metis bytes_at_append)
  then show ?thesis by simp
qed

lemma take_part:
  "l \<le> n \<Longrightarrow> take l (drop a D) @ take (n - l) (drop (a + l) D) = take n (drop a D)"
  by (metis add.commute drop_drop le_add_diff_inverse take_add)

lemma read_random_loop_ok:
  assumes "file_ok r st" "fr_file h = r"
  shows "unat off + unat len < 2 ^ 64 \<Longrightarrow>
    bf_read_random_loop h off len acc st =
      (let part = take (unat len) (drop (unat off) (data_of r st)) in Some (int (length acc + length part), acc @ part, st))"
proof (induction "unat len" arbitrary: off len acc rule: less_induct)
  case less
  let ?n = "the_fnode r st" and ?D = "data_of r st"
  have ok: "fnode_ok ?n" "space_ok (bf_bdev st) (fn_extents ?n)" using assms(1) by (simp_all add: file_ok_def)
  have total: "length ?D = unat (fn_allocated ?n)" using fnode_total [OF ok(1)] by simp
  show ?case
  proof (cases "len = 0 \<or> \<not> off < fn_allocated ?n")
    case True
    then have "take (unat len) (drop (unat off) ?D) = []" using total by (auto simp: word_less_nat_alt)
    moreover have "len \<noteq> 0 \<Longrightarrow> fn_seek off ?n = None" using True by (simp add: fn_seek_def not_less)
    ultimately show ?thesis using assms(2) by (subst bf_read_random_loop.simps) (auto simp: Let_def)
  next
    case False
    then obtain i x where s: "fn_seek off ?n = Some (i, x)" using seek_found [OF ok(1), of off] by auto
    note S = seek_split [OF ok(1) s]
    let ?e = "fn_extents ?n ! i"
    define l where "l = min (min (bx_len ?e - x) len) (2 ^ 30)"
    have p: "bx_placed (bf_bdev st) ?e" using ok(2) S(1) by (simp add: space_ok_def)
    then obtain d where d: "unat (bx_bdev ?e) < length (bf_bdev st)" "bf_bdev st ! unat (bx_bdev ?e) = Some d" "healthy d"
      "unat (bx_offset ?e) + unat (bx_length ?e) \<le> unat (bd_size d)" by (auto simp: bx_placed_def)
    have xw: "x \<le> bx_len ?e" using S(2) by (simp add: word_le_nat_alt)
    have room: "unat (bx_len ?e - x) = unat (bx_length ?e) - unat x" using unat_sub_le [OF xw] by simp
    have "unat l = min (min (unat (bx_length ?e) - unat x) (unat len)) (2 ^ 30)"
      by (simp add: l_def min_def word_le_nat_alt room)
    moreover have "0 < unat len" using False by (simp add: unat_gt_0)
    ultimately have l: "0 < unat l" "unat l \<le> unat len" "unat x + unat l \<le> unat (bx_length ?e)" "unat l < 2 ^ 31"
      using S(2) by auto
    have "unat (bd_size d) < 2 ^ 63" using d(3) by (simp add: healthy_def)
    then have o: "unat (bx_offset ?e + x) = unat (bx_offset ?e) + unat x" using d(4) S(2) by (intro unat_add_nowrap) simp
    have rd: "dev_read_random (bx_offset ?e + x) l bf d = (int (unat l), bytes_at d (unat (bx_offset ?e) + unat x) (unat l), d)" for bf
      using read_random_healthy [OF d(3), of "bx_offset ?e + x" l bf] l d(4) o by (auto simp: unat_gt_0)
    have split: "?D = file_data (bf_bdev st) (take i (fn_extents ?n)) @ ext_data (bf_bdev st) ?e @
        file_data (bf_bdev st) (drop (Suc i) (fn_extents ?n))"
      using id_take_nth_drop [OF S(1)] by (metis file_data_simps(2,3))
    have part: "take (unat l) (drop (unat off) ?D) = bytes_at d (unat (bx_offset ?e) + unat x) (unat l)"
      unfolding split using S(3) l(3) ext_data_part [OF l(3), of "bf_bdev st"] d(2) by simp
    have same: "st\<lparr>bf_bdev := (bf_bdev st)[unat (bx_bdev ?e) := Some d]\<rparr> = st"
      using d(2) by (metis BlueFS.surjective BlueFS.update_convs(2) list_update_id)
    have oo: "unat (off + l) = unat off + unat l" "unat (len - l) = unat len - unat l"
      using less.prems l(2) by (auto intro!: unat_add_nowrap unat_sub_le simp: word_le_nat_alt)
    have "bf_read_random_loop h off len acc st =
        bf_read_random_loop h (off + l) (len - l) (acc @ bytes_at d (unat (bx_offset ?e) + unat x) (unat l)) st"
    proof -
      have b: "has_bdev (unat (bx_bdev ?e)) st" using d(1,2) by (simp add: has_bdev_def)
      have nz: "len \<noteq> 0" using False by simp
      have neg: "\<not> int (unat l) < 0" by simp
      show ?thesis
        by (subst bf_read_random_loop.simps)
          (simp only: assms(2) nz s option.case prod.case Let_def l_def [symmetric] b not_True_eq_False if_False d(2) option.sel rd same neg)
    qed
    also have "\<dots> = (let part = take (unat (len - l)) (drop (unat (off + l)) ?D)
        in Some (int (length (acc @ bytes_at d (unat (bx_offset ?e) + unat x) (unat l)) + length part),
             (acc @ bytes_at d (unat (bx_offset ?e) + unat x) (unat l)) @ part, st))"
      by (rule less.hyps) (use oo l less.prems in simp_all)
    also have "\<dots> = (let part = take (unat len) (drop (unat off) ?D) in Some (int (length acc + length part), acc @ part, st))"
    proof -
      have "bytes_at d (unat (bx_offset ?e) + unat x) (unat l) @ take (unat len - unat l) (drop (unat off + unat l) ?D) =
          take (unat len) (drop (unat off) ?D)"
        using take_part [OF l(2), of "unat off" ?D] part by simp
      then show ?thesis unfolding oo Let_def
        by (metis (no_types, lifting) append.assoc length_append add.assoc)
    qed
    finally show ?thesis .
  qed
qed

text \<open>Outside the page cache a device takes whole blocks only.\<close>

lemma direct_write_refused:
  assumes "bd_block_size d = 4096" "\<not> 4096 dvd unat off \<or> \<not> 4096 dvd length bl" "length bl < 2 ^ 31"
  shows "dev_write off bl False d = (- EINVAL, d)"
proof -
  have m: "(x AND 4095 = 0) = (4096 dvd unat x)" for x :: u64
  proof -
    have "x AND 4095 = take_bit 12 x" by (simp add: take_bit_eq_mask mask_eq_exp_minus_1)
    moreover have "unat (take_bit 12 x) = unat x mod 4096" by (simp only: unsigned_take_bit_eq) (simp add: take_bit_eq_mod)
    ultimately show ?thesis by (metis dvd_eq_mod_eq_0 unat_0_iff)
  qed
  have "unat (of_nat (length bl) :: u64) = length bl" using assms(3) by (simp add: unat_of_nat)
  then have "\<not> is_valid_io d off (of_nat (length bl))" using assms(1,2) m [of off] m [of "of_nat (length bl)"] by (auto simp: is_valid_io_def)
  then show ?thesis by (simp add: dev_write_def)
qed

lemma write_extents_refused:
  assumes "bx_placed devs e" "page_aligned e" "bd_block_size (the (devs ! unat (bx_bdev e))) = 4096" "unat x < unat (bx_length e)"
    and "bl \<noteq> []" "length bl < 2 ^ 31" "\<not> 4096 dvd unat x \<or> length bl < 4096"
  shows "write_extents False (e # es) x bl devs dirty = Some (- EINVAL, devs, dirty)"
proof -
  let ?b = "unat (bx_bdev e)"
  obtain d where d: "?b < length devs" "devs ! ?b = Some d" "healthy d" "unat (bx_offset e) + unat (bx_length e) \<le> unat (bd_size d)"
    using assms(1) by (auto simp: bx_placed_def)
  have "x \<le> bx_len e" using assms(4) by (simp add: word_le_nat_alt)
  then have room: "unat (bx_len e - x) = unat (bx_length e) - unat x" using unat_sub_le [of x "bx_len e"] by simp
  let ?k = "min (unat (bx_length e) - unat x) (length bl)"
  have "unat (bd_size d) < 2 ^ 63" using d(3) by (simp add: healthy_def)
  then have o: "unat (bx_offset e + x) = unat (bx_offset e) + unat x" using d(4) assms(4) by (intro unat_add_nowrap) simp
  have "\<not> 4096 dvd unat (bx_offset e + x) \<or> \<not> 4096 dvd length (take ?k bl)"
  proof (cases "4096 dvd unat x")
    case True
    then have "4096 dvd unat (bx_length e) - unat x" using assms(2) by (simp add: page_aligned_def dvd_diff_nat)
    then have "4096 \<le> unat (bx_length e) - unat x" using assms(4) by (intro dvd_imp_le) simp_all
    then have "length (take ?k bl) = length bl" using assms(7) True by simp
    then show ?thesis using assms(5,7) True by (auto dest: dvd_imp_le)
  next
    case False
    then show ?thesis using assms(2) unfolding o page_aligned_def by (simp add: dvd_add_right_iff)
  qed
  then have "dev_write (bx_offset e + x) (take ?k bl) False d = (- EINVAL, d)"
    using d(2) assms(3,6) by (intro direct_write_refused) simp_all
  moreover have "devs[?b := Some d] = devs" using d(2) by (metis list_update_id)
  ultimately show ?thesis using d assms(5) by (simp add: room errno_defs)
qed

text \<open>Growing the size of a file leaves its data alone.\<close>

lemma grow_size_ok:
  assumes "file_ok r st" "fl_hint (the_file r st) = 0 \<or> plain_selector st"
  shows "\<exists>st1. grow_size r need st = Some st1 \<and> file_ok r st1 \<and> bf_bdev st1 = bf_bdev st \<and> bf_cfg st1 = bf_cfg st \<and>
    the_fnode r st1 = (the_fnode r st)\<lparr>fn_size := max (fn_size (the_fnode r st)) need\<rparr>"
proof (cases "fn_size (the_fnode r st) < need")
  case False
  then have "grow_size r need st = Some st" by (simp add: grow_size_def Let_def)
  then show ?thesis using False assms(1) by (intro exI [of _ st]) (simp add: max_def)
next
  case True
  let ?hint = "fl_hint (the_file r st)"
  let ?g = "\<lambda>f. f\<lparr>fl_fnode := (fl_fnode f)\<lparr>fn_size := need\<rparr>, fl_is_dirty := True\<rparr>"
  have "if_vs (vs_add_size ?hint k False) st = Some st" if "plain_selector st" for k
    using that by (auto simp: plain_selector_def if_vs_def with_vs_def vs_add_size_def)
  then have g: "grow_size r need st = Some (upd_file r ?g st)"
    using True assms(2) by (auto simp: grow_size_def Let_def)
  have r: "r < length (bf_files st)" using assms(1) by (simp add: file_ok_def)
  then have n: "the_fnode r (upd_file r ?g st) = (the_fnode r st)\<lparr>fn_size := need\<rparr>"
    by (simp add: the_fnode_def the_file_upd)
  have d: "bf_bdev (upd_file r ?g st) = bf_bdev st" "bf_cfg (upd_file r ?g st) = bf_cfg st" by (simp_all add: upd_file_def)
  have "file_ok r (upd_file r ?g st)" using assms(1) r unfolding file_ok_def n d by (simp add: fnode_ok_def)
  then show ?thesis using g n d True by (simp add: max_def less_imp_le)
qed

lemma clip_inside:
  assumes "fr_file h = r" "off + len \<le> fn_size (the_fnode r st)"
  shows "clip_len h off len st = len"
  using assms by (simp add: clip_len_def Let_def leD)

text \<open>
  C15: what a writer flushed is read back. On a file with space for it, flushing puts the buffer at the position of the writer, leaves
  every other byte of the file as it was, empties the buffer, and a read of the same range returns these bytes. This
  holds in buffered mode, and in direct mode (\<open>buffered_io = false\<close>, the default) when the extents, the position and the
  length of the buffer are multiples of 4096; see \<open>direct_flush_refused\<close> for the other buffers.
\<close>

theorem flushed_data_read_back:
  assumes "file_ok r st" "fw_file w = r" "\<not> fl_deleted (the_file r st)"
    "bc_buffered_io (bf_cfg st) \<or> whole_pages (the_fnode r st) (fw_pos w) (fw_buffer w)"
    and "fl_hint (the_file r st) = 0 \<or> plain_selector st" "fw_buffer w \<noteq> []" "length (fw_buffer w) < 2 ^ 31"
    and "unat (fw_pos w) + length (fw_buffer w) \<le> unat (fn_allocated (the_fnode r st))"
  shows "\<exists>w' st'. bf_flush_F w True st = Some (0, w', st') \<and> fw_buffer w' = [] \<and> fw_pos w' = fw_effective_write_pos w \<and>
    data_of r st' = take (unat (fw_pos w)) (data_of r st) @ fw_buffer w @ drop (unat (fw_pos w) + length (fw_buffer w)) (data_of r st) \<and>
    (\<forall>h. fr_file h = r \<longrightarrow>
       bf_read_random h (fw_pos w) (fw_buffer_length w) st' = Some (int (length (fw_buffer w)), fw_buffer w, st'))"
proof -
  let ?bl = "fw_buffer w" and ?pos = "fw_pos w" and ?n = "the_fnode r st"
  let ?len = "of_nat (length ?bl) :: u64"
  have len: "unat ?len = length ?bl" using assms(7) by (simp add: unat_of_nat)
  have "unat ?pos + unat ?len < 2 ^ 64" using le_less_trans [OF assms(8) unat_lt_u64] by (simp add: len)
  then have pos: "unat (?pos + ?len) = unat ?pos + length ?bl" using unat_add_nowrap [of ?pos ?len] by (simp add: len)
  have fit: "\<not> fn_allocated ?n < ?pos + ?len" using assms(8) by (simp add: word_less_nat_alt pos)
  have nz: "?len \<noteq> 0" using assms(6) len by (metis length_0_conv unat_0)
  have gt: "\<not> ?pos + ?len \<le> ?pos" using assms(6) by (simp add: word_le_nat_alt pos)
  from grow_size_ok [OF assms(1,5), of "?pos + ?len"] obtain st1 where
    st1: "grow_size r (?pos + ?len) st = Some st1" "file_ok r st1" "bf_bdev st1 = bf_bdev st" "bf_cfg st1 = bf_cfg st"
      "the_fnode r st1 = ?n\<lparr>fn_size := max (fn_size ?n) (?pos + ?len)\<rparr>" by blast
  have "0 < length ?bl" using assms(6) by simp
  then have "unat ?pos < unat (fn_allocated ?n)" using assms(8) by linarith
  then have lt: "?pos < fn_allocated (the_fnode r st1)" using st1(5) by (simp add: word_less_nat_alt)
  let ?b = "bc_buffered_io (bf_cfg st)"
  have "?b \<or> whole_pages (the_fnode r st1) ?pos ?bl" using assms(4) st1(5) by (simp add: whole_pages_def)
  from flush_data_ok [OF st1(2) assms(2) nz lt assms(7) this] obtain w' st' where
    f: "bf_flush_data w ?pos ?len ?b st1 = Some (0, w', st')" "fw_pos w' = ?pos + ?len" "fw_buffer w' = ?bl" "file_ok r st'"
      "the_fnode r st' = (the_fnode r st1)\<lparr>fn_size := max (fn_size (the_fnode r st1)) (?pos + ?len)\<rparr>"
      "let m = min (length ?bl) (unat (fn_allocated (the_fnode r st1)) - unat ?pos); D = data_of r st1
       in data_of r st' = take (unat ?pos) D @ take m ?bl @ drop (unat ?pos + m) D" by auto
  have "min (length ?bl) (unat (fn_allocated ?n) - unat ?pos) = length ?bl" using assms(8) by simp
  then have data: "data_of r st' = take (unat ?pos) (data_of r st) @ ?bl @ drop (unat ?pos + length ?bl) (data_of r st)"
    using f(6) st1(3,5) by (simp add: Let_def)
  have tot: "length (data_of r st) = unat (fn_allocated ?n)"
    using assms(1) fnode_total [of ?n] by (simp add: file_ok_def)
  have fl: "bf_flush_F w True st = Some (0, w'\<lparr>fw_buffer := []\<rparr>, st')"
    using assms(2,3) nz gt fit st1(1,4) f(1)
    by (simp add: bf_flush_F_def fw_buffer_length_def bf_flush_range_F_def grow_space_def Let_def del: of_nat_eq_0_iff)
  have rd: "bf_read_random h ?pos ?len st' = Some (int (length ?bl), ?bl, st')" if "fr_file h = r" for h
  proof -
    have "clip_len h ?pos ?len st' = ?len" by (rule clip_inside [OF that]) (simp add: f(5))
    moreover have "take (length ?bl) (drop (unat ?pos) (data_of r st')) = ?bl" unfolding data using tot assms(8) by simp
    moreover have "unat ?pos + unat ?len < 2 ^ 64" using le_less_trans [OF assms(8) unat_lt_u64] by (simp add: len)
    ultimately show ?thesis
      using read_random_loop_ok [OF f(4) that, of ?pos ?len "[]"] by (simp add: bf_read_random_def len Let_def)
  qed
  show ?thesis
    using fl f(2) data rd
    by (intro exI [of _ "w'\<lparr>fw_buffer := []\<rparr>"] exI [of _ st']) (simp add: fw_effective_write_pos_def fw_buffer_length_def)
qed

text \<open>
  In direct mode, which is the default, a flush of less than 4096 bytes, or at a position that is no multiple of 4096, is refused
  with \<open>-EINVAL\<close> by the device (blocks of 4096 bytes, extents of whole pages): no byte of any device changes and the buffer
  stays, but the size of the file has been raised over bytes that were never written.
\<close>

theorem direct_flush_refused:
  assumes "file_ok r st" "fw_file w = r" "\<not> fl_deleted (the_file r st)" "\<not> bc_buffered_io (bf_cfg st)"
    and "\<forall>e \<in> set (fn_extents (the_fnode r st)). page_aligned e \<and> bd_block_size (the (bf_bdev st ! unat (bx_bdev e))) = 4096"
    and "fl_hint (the_file r st) = 0 \<or> plain_selector st" "fw_buffer w \<noteq> []" "length (fw_buffer w) < 2 ^ 31"
    and "unat (fw_pos w) + length (fw_buffer w) \<le> unat (fn_allocated (the_fnode r st))"
    and "\<not> 4096 dvd unat (fw_pos w) \<or> length (fw_buffer w) < 4096"
  shows "\<exists>st'. bf_flush_F w True st = Some (- EINVAL, w, st') \<and> bf_bdev st' = bf_bdev st \<and>
    fn_size (the_fnode r st') = max (fn_size (the_fnode r st)) (fw_effective_write_pos w)"
proof -
  let ?bl = "fw_buffer w" and ?pos = "fw_pos w" and ?n = "the_fnode r st"
  let ?len = "of_nat (length ?bl) :: u64"
  have len: "unat ?len = length ?bl" using assms(8) by (simp add: unat_of_nat)
  have "unat ?pos + unat ?len < 2 ^ 64" using le_less_trans [OF assms(9) unat_lt_u64] by (simp add: len)
  then have pos: "unat (?pos + ?len) = unat ?pos + length ?bl" using unat_add_nowrap [of ?pos ?len] by (simp add: len)
  have fit: "\<not> fn_allocated ?n < ?pos + ?len" using assms(9) by (simp add: word_less_nat_alt pos)
  have nz: "?len \<noteq> 0" using assms(7) len by (metis length_0_conv unat_0)
  have gt: "\<not> ?pos + ?len \<le> ?pos" using assms(7) by (simp add: word_le_nat_alt pos)
  from grow_size_ok [OF assms(1,6), of "?pos + ?len"] obtain st1 where
    st1: "grow_size r (?pos + ?len) st = Some st1" "file_ok r st1" "bf_bdev st1 = bf_bdev st" "bf_cfg st1 = bf_cfg st"
      "the_fnode r st1 = ?n\<lparr>fn_size := max (fn_size ?n) (?pos + ?len)\<rparr>" by blast
  have ok: "fnode_ok (the_fnode r st1)" "space_ok (bf_bdev st1) (fn_extents (the_fnode r st1))" using st1(2) by (simp_all add: file_ok_def)
  have "0 < length ?bl" using assms(7) by simp
  then have "unat ?pos < unat (fn_allocated ?n)" using assms(9) by linarith
  then have lt: "?pos < fn_allocated (the_fnode r st1)" using st1(5) by (simp add: word_less_nat_alt)
  then obtain i x where s: "fn_seek ?pos (the_fnode r st1) = Some (i, x)" using seek_found [OF ok(1), of ?pos] by auto
  note S = seek_split [OF ok(1) s]
  let ?es = "fn_extents (the_fnode r st1)"
  have e: "?es ! i \<in> set ?es" "drop i ?es = ?es ! i # drop (Suc i) ?es" using S(1) by (simp_all add: Cons_nth_drop_Suc)
  have al: "\<forall>e \<in> set ?es. page_aligned e \<and> bd_block_size (the (bf_bdev st1 ! unat (bx_bdev e))) = 4096" using assms(5) st1(3,5) by simp
  have "4096 dvd unat ?pos \<longleftrightarrow> 4096 dvd unat x" by (rule whole_pages_seek [OF ok(1) s]) (use al in blast)
  then have "write_extents False (drop i ?es) x ?bl (bf_bdev st1) (fw_dirty_devs w) = Some (- EINVAL, bf_bdev st1, fw_dirty_devs w)"
    unfolding e(2) using ok(2) e(1) al S(2) assms(7,8,10) by (intro write_extents_refused) (auto simp: space_ok_def)
  then have "bf_flush_data w ?pos ?len False st1 = Some (- EINVAL, w, st1)"
    using assms(2) nz s by (simp add: bf_flush_data_def errno_defs)
  then have "bf_flush_F w True st = Some (- EINVAL, w, st1)"
    using assms(2-4) nz gt fit st1(1,4)
    by (simp add: bf_flush_F_def fw_buffer_length_def bf_flush_range_F_def grow_space_def Let_def errno_defs del: of_nat_eq_0_iff)
  then show ?thesis using st1(3,5) by (simp add: fw_effective_write_pos_def fw_buffer_length_def)
qed

text \<open>A file of two separate extents of 4096 bytes, and a writer at its end or across the border of the extents.\<close>

definition two_extents :: bluefs_fnode where
  "two_extents = (new_fnode 2 0 0)\<lparr>fn_extents := [\<lparr>bx_offset = 0x2000, bx_length = 0x1000, bx_bdev = 1\<rparr>,
     \<lparr>bx_offset = 0x8000, bx_length = 0x1000, bx_bdev = 1\<rparr>], fn_extents_index := [0, 0x1000], fn_allocated := 0x2000\<rparr>"

definition data_fs :: BlueFS where
  "data_fs = (new_BlueFS (default_BlueFSConfig\<lparr>bc_buffered_io := True\<rparr>))\<lparr>bf_bdev := [None, Some (demo_dev []), None],
     bf_files := [(new_File 2)\<lparr>fl_fnode := two_extents\<rparr>]\<rparr>"

definition data_writer :: "u64 \<Rightarrow> FileWriter" where
  "data_writer pos = \<lparr>fw_file = 0, fw_pos = pos, fw_buffer = [1, 2, 3, 4], fw_tail_block = [], fw_iocv = [False, True, False],
     fw_dirty_devs = [False, False, False]\<rparr>"

definition data_reader :: FileReader where
  "data_reader = \<lparr>fr_file = 0, fr_bl_off = 0, fr_bl = [], fr_pos = 0, fr_max_prefetch = 4096, fr_random = True, fr_ignore_eof = False\<rparr>"

lemma data_fs_file [simp]: "the_file 0 data_fs = (new_File 2)\<lparr>fl_fnode := two_extents\<rparr>" "the_fnode 0 data_fs = two_extents"
  by (simp_all add: data_fs_def the_file_def the_fnode_def)

lemma data_fs_ok: "file_ok 0 data_fs"
proof -
  have "fnode_ok two_extents"
    by (simp add: two_extents_def new_fnode_def fnode_ok_def bxs_ok_def bx_ok_def continues_def bx_end_def bx_len_def)
  moreover have "healthy (demo_dev [])" by (simp add: healthy_def demo_dev_def exI [of _ 12])
  moreover have "bd_size (demo_dev []) = 65536" by (simp add: demo_dev_def)
  ultimately show ?thesis
    unfolding file_ok_def data_fs_file by (simp add: data_fs_def two_extents_def new_fnode_def space_ok_def bx_placed_def bx_apart_def)
qed

theorem flushed_data_read_back_witness:
  "\<exists>w' st'. bf_flush_F (data_writer 0xFFE) True data_fs = Some (0, w', st') \<and> fw_pos w' = 0x1002 \<and>
     bf_read_random data_reader 0xFFE 4 st' = Some (4, [1, 2, 3, 4], st')"
proof -
  have a: "fw_file (data_writer 0xFFE) = 0" "\<not> fl_deleted (the_file 0 data_fs)" "bc_buffered_io (bf_cfg data_fs) \<or> whole_pages (the_fnode 0 data_fs) (fw_pos (data_writer 0xFFE)) (fw_buffer (data_writer 0xFFE))"
    "fl_hint (the_file 0 data_fs) = 0 \<or> plain_selector data_fs" "fw_buffer (data_writer 0xFFE) \<noteq> []"
    "length (fw_buffer (data_writer 0xFFE)) < 2 ^ 31"
    "unat (fw_pos (data_writer 0xFFE)) + length (fw_buffer (data_writer 0xFFE)) \<le> unat (fn_allocated (the_fnode 0 data_fs))"
    unfolding data_fs_file by (simp_all add: data_writer_def data_fs_def new_File_def two_extents_def new_fnode_def new_BlueFS_def)
  have e: "fw_buffer (data_writer 0xFFE) = [1, 2, 3, 4]" "fw_pos (data_writer 0xFFE) = 0xFFE" "fw_buffer_length (data_writer 0xFFE) = 4"
    "fw_effective_write_pos (data_writer 0xFFE) = 0x1002"
    by (simp_all add: data_writer_def fw_effective_write_pos_def fw_buffer_length_def)
  from flushed_data_read_back [OF data_fs_ok a, unfolded e] show ?thesis by (fastforce simp: data_reader_def)
qed

text \<open>The same file in direct mode.\<close>

definition direct_fs :: BlueFS where
  "direct_fs = data_fs\<lparr>bf_cfg := default_BlueFSConfig\<rparr>"

theorem direct_flush_refused_witness:
  "\<exists>st'. bf_flush_F (data_writer 0) True direct_fs = Some (- EINVAL, data_writer 0, st') \<and> bf_bdev st' = bf_bdev direct_fs \<and>
     fn_size (the_fnode 0 st') = 4"
proof -
  have d: "the_file 0 direct_fs = (new_File 2)\<lparr>fl_fnode := two_extents\<rparr>" "the_fnode 0 direct_fs = two_extents"
    "bf_bdev direct_fs = bf_bdev data_fs" "bf_files direct_fs = bf_files data_fs"
    using data_fs_file by (simp_all add: direct_fs_def the_file_def the_fnode_def)
  have ok: "file_ok 0 direct_fs" using data_fs_ok unfolding file_ok_def d data_fs_file by simp
  have a: "fw_file (data_writer 0) = 0" "\<not> fl_deleted (the_file 0 direct_fs)" "\<not> bc_buffered_io (bf_cfg direct_fs)"
    "\<forall>e \<in> set (fn_extents (the_fnode 0 direct_fs)). page_aligned e \<and> bd_block_size (the (bf_bdev direct_fs ! unat (bx_bdev e))) = 4096"
    "fl_hint (the_file 0 direct_fs) = 0 \<or> plain_selector direct_fs" "fw_buffer (data_writer 0) \<noteq> []"
    "length (fw_buffer (data_writer 0)) < 2 ^ 31"
    "unat (fw_pos (data_writer 0)) + length (fw_buffer (data_writer 0)) \<le> unat (fn_allocated (the_fnode 0 direct_fs))"
    "\<not> 4096 dvd unat (fw_pos (data_writer 0)) \<or> length (fw_buffer (data_writer 0)) < 4096"
    unfolding d by (simp_all add: data_writer_def data_fs_def direct_fs_def new_File_def two_extents_def new_fnode_def
      default_BlueFSConfig_def page_aligned_def demo_dev_def)
  have e: "fw_effective_write_pos (data_writer 0) = 4" by (simp add: data_writer_def fw_effective_write_pos_def fw_buffer_length_def)
  have "max (fn_size (the_fnode 0 direct_fs)) 4 = 4" unfolding d by (simp add: two_extents_def new_fnode_def)
  with direct_flush_refused [OF ok a, unfolded e] show ?thesis by simp
qed

text \<open>
  C39: when the space of a file ends before the buffer does, which happens when the allocator had less than was asked for, the
  flush still returns 0 and moves the position over the whole buffer; but only the bytes up to the end of the space are
  stored, and a read of the range returns these.
\<close>

theorem flush_past_space_reports_success:
  assumes "file_ok r st" "fw_file w = r" "length (fw_buffer w) < 2 ^ 31" "fw_pos w < fn_allocated (the_fnode r st)"
    and "unat (fn_allocated (the_fnode r st)) < unat (fw_pos w) + length (fw_buffer w)"
  shows "\<exists>w' st'. bf_flush_data w (fw_pos w) (fw_buffer_length w) True st = Some (0, w', st') \<and> fw_pos w' = fw_effective_write_pos w \<and>
    (\<forall>h. fr_file h = r \<longrightarrow>
       (let m = unat (fn_allocated (the_fnode r st)) - unat (fw_pos w)
        in bf_read_random h (fw_pos w) (fw_buffer_length w) st' = Some (int m, take m (fw_buffer w), st') \<and> m < length (fw_buffer w)))"
proof -
  let ?bl = "fw_buffer w" and ?pos = "fw_pos w" and ?n = "the_fnode r st"
  let ?len = "of_nat (length ?bl) :: u64"
  have ok: "fnode_ok ?n" using assms(1) by (simp add: file_ok_def)
  have tot: "length (data_of r st) = unat (fn_allocated ?n)" using fnode_total [OF ok] by simp
  have small: "unat (fn_allocated ?n) < 2 ^ 63" using fnode_total [OF ok] ok by (simp add: fnode_ok_def bxs_ok_def)
  have len: "unat ?len = length ?bl" using assms(3) by (simp add: unat_of_nat)
  have pa: "unat ?pos < unat (fn_allocated ?n)" using assms(4) by (simp add: word_less_nat_alt)
  have nz: "?len \<noteq> 0" using assms(5) pa len by (metis add.right_neutral not_less_iff_gr_or_eq unat_0)
  from flush_data_ok [OF assms(1,2) nz assms(4,3), of True] obtain w' st' where
    f: "bf_flush_data w ?pos ?len True st = Some (0, w', st')" "fw_pos w' = ?pos + ?len" "file_ok r st'"
      "the_fnode r st' = ?n\<lparr>fn_size := max (fn_size ?n) (?pos + ?len)\<rparr>"
      "let m = min (length ?bl) (unat (fn_allocated ?n) - unat ?pos); D = data_of r st
       in data_of r st' = take (unat ?pos) D @ take m ?bl @ drop (unat ?pos + m) D" by auto
  let ?m = "unat (fn_allocated ?n) - unat ?pos"
  have m: "min (length ?bl) ?m = ?m" "?m < length ?bl" "unat ?pos + ?m = length (data_of r st)" using assms(5) pa tot by simp_all
  have data: "data_of r st' = take (unat ?pos) (data_of r st) @ take ?m ?bl" using f(5) m by (simp add: Let_def)
  have rd: "bf_read_random h ?pos ?len st' = Some (int ?m, take ?m ?bl, st')" if "fr_file h = r" for h
  proof -
    have "clip_len h ?pos ?len st' = ?len" by (rule clip_inside [OF that]) (simp add: f(4))
    moreover have "take (length ?bl) (drop (unat ?pos) (data_of r st')) = take ?m ?bl"
      unfolding data using tot pa m(2) by simp
    moreover have "unat ?pos + unat ?len < 2 ^ 64" using small pa assms(3) by (simp add: len)
    ultimately show ?thesis
      using read_random_loop_ok [OF f(3) that, of ?pos ?len "[]"] m(2) by (simp add: bf_read_random_def len Let_def)
  qed
  show ?thesis
    using f(1,2) rd m(2)
    by (intro exI [of _ w'] exI [of _ st']) (simp add: fw_effective_write_pos_def fw_buffer_length_def Let_def)
qed

theorem flush_past_space_reports_success_witness:
  "\<exists>w' st'. bf_flush_data (data_writer 0x1FFE) 0x1FFE 4 True data_fs = Some (0, w', st') \<and> fw_pos w' = 0x2002 \<and>
     bf_read_random data_reader 0x1FFE 4 st' = Some (2, [1, 2], st')"
proof -
  have a: "fw_file (data_writer 0x1FFE) = 0" "length (fw_buffer (data_writer 0x1FFE)) < 2 ^ 31"
    "fw_pos (data_writer 0x1FFE) < fn_allocated (the_fnode 0 data_fs)"
    "unat (fn_allocated (the_fnode 0 data_fs)) < unat (fw_pos (data_writer 0x1FFE)) + length (fw_buffer (data_writer 0x1FFE))"
    unfolding data_fs_file by (simp_all add: data_writer_def two_extents_def new_fnode_def)
  have e: "fw_buffer (data_writer 0x1FFE) = [1, 2, 3, 4]" "fw_pos (data_writer 0x1FFE) = 0x1FFE"
    "fw_buffer_length (data_writer 0x1FFE) = 4" "fw_effective_write_pos (data_writer 0x1FFE) = 0x2002"
    "unat (fn_allocated (the_fnode 0 data_fs)) - unat (0x1FFE :: u64) = 2"
    unfolding data_fs_file by (simp_all add: data_writer_def fw_effective_write_pos_def fw_buffer_length_def two_extents_def new_fnode_def)
  have t: "take 2 [1, 2, 3, 4 :: u8] = [1, 2]" by simp
  from flush_past_space_reports_success [OF data_fs_ok a, unfolded e Let_def t] show ?thesis by (fastforce simp: data_reader_def)
qed

end
