(* ===== verification/Mem_Db.thy ===== *)
theory Mem_Db
  imports Prelude "HOL-Library.List_Lexorder"
begin

text \<open>
  The in-memory key-value database of \<open>kv/mem/mem_db.cc\<close>, the merge operators of \<open>kv/merge_op\<close> and the
  prefix iterator of \<open>kv/key_value_db.cc\<close> that works on it. Keys are compared as \<open>std::string\<close> compares
  them: bytewise, as unsigned numbers, a proper prefix first, which is the lexicographic order of lists.
\<close>

section \<open>Merge operators\<close>

record MergeOperator =
  mo_name :: string
  mo_merge_nonexistent :: "bytes \<Rightarrow> bytes"
  mo_merge :: "bytes \<Rightarrow> bytes \<Rightarrow> bytes"

definition xor_merge :: "bytes \<Rightarrow> bytes \<Rightarrow> bytes" where
  "xor_merge ldata rdata = map2 (XOR) ldata rdata"

definition XorMergeOperator :: MergeOperator where
  "XorMergeOperator = \<lparr>mo_name = ''xor'', mo_merge_nonexistent = (\<lambda>rdata. rdata), mo_merge = xor_merge\<rparr>"

text \<open>The sum is that of the machine; the source leaves the overflow of \<open>int64_t\<close> undefined.\<close>

definition int64_at :: "bytes \<Rightarrow> nat \<Rightarrow> u64" where
  "int64_at bs i = le_value (take 8 (drop (8 * i) bs))"

definition int64_array_merge :: "bytes \<Rightarrow> bytes \<Rightarrow> bytes" where
  "int64_array_merge ldata rdata =
     (let count = min (length ldata) (length rdata) div 8
      in concat (map (\<lambda>i. le_bytes 8 (int64_at ldata i + int64_at rdata i)) [0..<count]))"

definition Int64ArrayMergeOperator :: MergeOperator where
  "Int64ArrayMergeOperator =
     \<lparr>mo_name = ''int64_array'', mo_merge_nonexistent = (\<lambda>rdata. rdata), mo_merge = int64_array_merge\<rparr>"

section \<open>Transactions\<close>

datatype db_op =
    SET bytes bytes bytes
  | RMKEY bytes bytes
  | RMKEY_BY_PREFIX bytes
  | RM_RANGE_KEYS bytes bytes bytes
  | MERGE bytes bytes bytes

type_synonym db_txn = "db_op list"

definition txn_set :: "bytes \<Rightarrow> bytes \<Rightarrow> bytes \<Rightarrow> db_txn \<Rightarrow> db_txn" where
  "txn_set prefix k bl t = t @ [SET prefix k bl]"

definition txn_rmkey :: "bytes \<Rightarrow> bytes \<Rightarrow> db_txn \<Rightarrow> db_txn" where
  "txn_rmkey prefix k t = t @ [RMKEY prefix k]"

definition txn_rmkeys_by_prefix :: "bytes \<Rightarrow> db_txn \<Rightarrow> db_txn" where
  "txn_rmkeys_by_prefix prefix t = t @ [RMKEY_BY_PREFIX prefix]"

definition txn_rm_range_keys :: "bytes \<Rightarrow> bytes \<Rightarrow> bytes \<Rightarrow> db_txn \<Rightarrow> db_txn" where
  "txn_rm_range_keys prefix start end t = t @ [RM_RANGE_KEYS prefix start end]"

definition txn_merge :: "bytes \<Rightarrow> bytes \<Rightarrow> bytes \<Rightarrow> db_txn \<Rightarrow> db_txn" where
  "txn_merge prefix k v t = t @ [MERGE prefix k v]"

section \<open>The database\<close>

record MemDB =
  md_db :: "(bytes \<times> bytes) list"
  md_seqno :: u64
  md_merge_ops :: "(bytes \<times> MergeOperator) list"

definition new_MemDB :: MemDB where
  "new_MemDB = \<lparr>md_db = [], md_seqno = 0, md_merge_ops = []\<rparr>"

definition set_merge_operator :: "bytes \<Rightarrow> MergeOperator \<Rightarrow> MemDB \<Rightarrow> int \<times> MemDB" where
  "set_merge_operator prefix mop db = (0, db\<lparr>md_merge_ops := md_merge_ops db @ [(prefix, mop)]\<rparr>)"

definition md_close :: "MemDB \<Rightarrow> MemDB" where
  "md_close db = db\<lparr>md_db := []\<rparr>"

definition encode_key :: "bytes \<Rightarrow> bytes \<Rightarrow> bytes" where
  "encode_key prefix key = prefix @ [0] @ key"

definition decode_key :: "bytes \<Rightarrow> bytes \<times> bytes" where
  "decode_key full_key =
     (if 0 \<in> set full_key
      then (takeWhile (\<lambda>c. c \<noteq> 0) full_key, drop 1 (dropWhile (\<lambda>c. c \<noteq> 0) full_key))
      else (full_key, []))"

definition md_touch :: "(bytes \<times> bytes) list \<Rightarrow> MemDB \<Rightarrow> MemDB" where
  "md_touch m db = db\<lparr>md_db := m, md_seqno := md_seqno db + 1\<rparr>"

definition set_key :: "bytes \<Rightarrow> bytes \<Rightarrow> MemDB \<Rightarrow> MemDB" where
  "set_key full_key bl db = md_touch (om_set full_key bl (md_db db)) db"

definition rmkey :: "bytes \<Rightarrow> MemDB \<Rightarrow> MemDB" where
  "rmkey full_key db = md_touch (om_erase full_key (md_db db)) db"

text \<open>The entries before \<open>lower_bound(s)\<close> stay, the loop erases from there while its condition holds.\<close>

definition erase_while :: "bytes \<Rightarrow> (bytes \<Rightarrow> bool) \<Rightarrow> (bytes \<times> bytes) list \<Rightarrow> (bytes \<times> bytes) list" where
  "erase_while s cond m =
     takeWhile (\<lambda>p. fst p < s) m @ dropWhile (\<lambda>p. cond (fst p)) (dropWhile (\<lambda>p. fst p < s) m)"

definition rmkeys_by_prefix :: "bytes \<Rightarrow> MemDB \<Rightarrow> MemDB" where
  "rmkeys_by_prefix prefix db =
     (let start = encode_key prefix []
      in md_touch (erase_while start (\<lambda>k. take (length start) k = start) (md_db db)) db)"

definition rm_range_keys :: "bytes \<Rightarrow> bytes \<Rightarrow> bytes \<Rightarrow> MemDB \<Rightarrow> MemDB" where
  "rm_range_keys prefix start end db =
     (let s = encode_key prefix start; e = encode_key prefix end
      in md_touch (erase_while s (\<lambda>k. k < e) (md_db db)) db)"

definition find_merge_op :: "bytes \<Rightarrow> MemDB \<Rightarrow> MergeOperator option" where
  "find_merge_op prefix db = map_option snd (find (\<lambda>p. fst p = prefix) (md_merge_ops db))"

definition md_merge :: "bytes \<Rightarrow> bytes \<Rightarrow> bytes \<Rightarrow> MemDB \<Rightarrow> int \<times> MemDB" where
  "md_merge prefix full_key rdata db =
     (case find_merge_op prefix db of
        None \<Rightarrow> (- ENOENT, db)
      | Some mop \<Rightarrow>
          let new_value = (case map_of (md_db db) full_key of
                             None \<Rightarrow> mo_merge_nonexistent mop rdata
                           | Some ldata \<Rightarrow> mo_merge mop ldata rdata)
          in (0, set_key full_key new_value db))"

definition run_op :: "db_op \<Rightarrow> MemDB \<Rightarrow> int \<times> MemDB" where
  "run_op op db =
     (case op of
        SET prefix k v \<Rightarrow> (0, set_key (encode_key prefix k) v db)
      | RMKEY prefix k \<Rightarrow> (0, rmkey (encode_key prefix k) db)
      | RMKEY_BY_PREFIX prefix \<Rightarrow> (0, rmkeys_by_prefix prefix db)
      | RM_RANGE_KEYS prefix s e \<Rightarrow> (0, rm_range_keys prefix s e db)
      | MERGE prefix k v \<Rightarrow> md_merge prefix (encode_key prefix k) v db)"

fun submit_transaction :: "db_txn \<Rightarrow> MemDB \<Rightarrow> int \<times> MemDB" where
  "submit_transaction [] db = (0, db)"
| "submit_transaction (op # t) db =
     (let (r, db1) = run_op op db in if r \<noteq> 0 then (r, db1) else submit_transaction t db1)"

text \<open>\<open>get\<close> with a set of keys adds the values found to \<open>*out\<close>.\<close>

fun md_get :: "bytes \<Rightarrow> bytes list \<Rightarrow> (bytes \<times> bytes) list \<Rightarrow> MemDB \<Rightarrow> int \<times> (bytes \<times> bytes) list" where
  "md_get prefix [] out db = (0, out)"
| "md_get prefix (k # ks) out db =
     md_get prefix ks (case map_of (md_db db) (encode_key prefix k) of
                         None \<Rightarrow> out
                       | Some v \<Rightarrow> om_set k v out) db"

definition md_get1 :: "bytes \<Rightarrow> bytes \<Rightarrow> bytes \<Rightarrow> MemDB \<Rightarrow> int \<times> bytes" where
  "md_get1 prefix key out db =
     (let (r, result) = md_get prefix [key] [] db
      in if r \<noteq> 0 then (r, out)
         else case map_of result key of None \<Rightarrow> (- ENOENT, out) | Some v \<Rightarrow> (0, v))"

definition get_estimated_size :: "MemDB \<Rightarrow> u64" where
  "get_estimated_size db = foldl (\<lambda>total (k, v). total + (of_nat (length k) + of_nat (length v))) 0 (md_db db)"

section \<open>Iterators\<close>

text \<open>
  \<open>MDBWholeSpaceIteratorImpl\<close>: a copy of the entries, taken again by the seeking operations when the
  database has changed. \<open>wi_pos\<close> is negative when the iterator is not valid.
\<close>

record WholeSpaceIterator =
  wi_items :: "(bytes \<times> bytes) list"
  wi_seqno :: u64
  wi_pos :: int

definition get_wholespace_iterator :: "MemDB \<Rightarrow> WholeSpaceIterator" where
  "get_wholespace_iterator db = \<lparr>wi_items = md_db db, wi_seqno = md_seqno db, wi_pos = - 1\<rparr>"

definition in_items :: "int \<Rightarrow> (bytes \<times> bytes) list \<Rightarrow> int" where
  "in_items idx items = (if idx \<ge> int (length items) then - 1 else idx)"

definition items_lower_bound :: "bytes \<Rightarrow> (bytes \<times> bytes) list \<Rightarrow> int" where
  "items_lower_bound key items = in_items (int (length (takeWhile (\<lambda>p. fst p < key) items))) items"

definition wi_refresh :: "MemDB \<Rightarrow> WholeSpaceIterator \<Rightarrow> WholeSpaceIterator" where
  "wi_refresh db it =
     (if md_seqno db = wi_seqno it then it
      else let current_key = (if wi_pos it \<ge> 0 \<and> wi_pos it < int (length (wi_items it))
                              then fst (wi_items it ! nat (wi_pos it)) else [])
           in \<lparr>wi_items = md_db db, wi_seqno = md_seqno db,
               wi_pos = (if current_key \<noteq> [] then items_lower_bound current_key (md_db db) else wi_pos it)\<rparr>)"

definition wi_seek_to_first :: "MemDB \<Rightarrow> WholeSpaceIterator \<Rightarrow> WholeSpaceIterator" where
  "wi_seek_to_first db it = (let it1 = wi_refresh db it in it1\<lparr>wi_pos := (if wi_items it1 = [] then - 1 else 0)\<rparr>)"

definition wi_seek_to_last :: "MemDB \<Rightarrow> WholeSpaceIterator \<Rightarrow> WholeSpaceIterator" where
  "wi_seek_to_last db it =
     (let it1 = wi_refresh db it
      in it1\<lparr>wi_pos := (if wi_items it1 = [] then - 1 else int (length (wi_items it1)) - 1)\<rparr>)"

definition wi_lower_bound :: "MemDB \<Rightarrow> bytes \<Rightarrow> WholeSpaceIterator \<Rightarrow> WholeSpaceIterator" where
  "wi_lower_bound db to it = (let it1 = wi_refresh db it in it1\<lparr>wi_pos := items_lower_bound to (wi_items it1)\<rparr>)"

definition wi_upper_bound :: "MemDB \<Rightarrow> bytes \<Rightarrow> WholeSpaceIterator \<Rightarrow> WholeSpaceIterator" where
  "wi_upper_bound db after it =
     (let it1 = wi_refresh db it
      in it1\<lparr>wi_pos := in_items (int (length (takeWhile (\<lambda>p. fst p \<le> after) (wi_items it1)))) (wi_items it1)\<rparr>)"

definition wi_valid :: "WholeSpaceIterator \<Rightarrow> bool" where
  "wi_valid it \<longleftrightarrow> wi_pos it \<ge> 0 \<and> wi_pos it < int (length (wi_items it))"

definition wi_next :: "WholeSpaceIterator \<Rightarrow> WholeSpaceIterator" where
  "wi_next it = (if wi_pos it \<ge> 0 then it\<lparr>wi_pos := in_items (wi_pos it + 1) (wi_items it)\<rparr> else it)"

definition wi_prev :: "WholeSpaceIterator \<Rightarrow> WholeSpaceIterator" where
  "wi_prev it = (if wi_pos it > 0 then it\<lparr>wi_pos := wi_pos it - 1\<rparr>
                 else if wi_pos it = 0 then it\<lparr>wi_pos := - 1\<rparr> else it)"

text \<open>The accessors are called on valid iterators.\<close>

definition wi_key :: "WholeSpaceIterator \<Rightarrow> bytes" where
  "wi_key it = fst (wi_items it ! nat (wi_pos it))"

definition wi_value :: "WholeSpaceIterator \<Rightarrow> bytes" where
  "wi_value it = snd (wi_items it ! nat (wi_pos it))"

definition raw_key :: "WholeSpaceIterator \<Rightarrow> bytes \<times> bytes" where
  "raw_key it = decode_key (wi_key it)"

definition raw_key_is_prefixed :: "bytes \<Rightarrow> WholeSpaceIterator \<Rightarrow> bool" where
  "raw_key_is_prefixed prefix it \<longleftrightarrow> fst (raw_key it) = prefix"

text \<open>
  \<open>PrefixIteratorImpl\<close>; \<open>pi_upper\<close> is \<open>upper_bound_\<close> when \<open>upper_bound_set_\<close>. The two seek bounds it hands
  to the wrapped iterator are read by the RocksDB iterator only.
\<close>

record PrefixIterator =
  pi_w_iter :: WholeSpaceIterator
  pi_prefix :: bytes
  pi_upper :: "bytes option"

record IteratorBounds =
  ib_lower_bound :: "bytes option"
  ib_upper_bound :: "bytes option"

definition no_bounds :: IteratorBounds where
  "no_bounds = \<lparr>ib_lower_bound = None, ib_upper_bound = None\<rparr>"

definition new_PrefixIterator :: "MemDB \<Rightarrow> WholeSpaceIterator \<Rightarrow> bytes \<Rightarrow> IteratorBounds \<Rightarrow> PrefixIterator" where
  "new_PrefixIterator db w_iter prefix bounds =
     \<lparr>pi_w_iter = (case ib_lower_bound bounds of
                     None \<Rightarrow> w_iter
                   | Some lb \<Rightarrow> wi_lower_bound db (encode_key prefix [] @ lb) w_iter),
      pi_prefix = prefix,
      pi_upper = ib_upper_bound bounds\<rparr>"

definition get_iterator :: "bytes \<Rightarrow> IteratorBounds \<Rightarrow> MemDB \<Rightarrow> PrefixIterator" where
  "get_iterator prefix bounds db = new_PrefixIterator db (get_wholespace_iterator db) prefix bounds"

definition on_wi :: "(WholeSpaceIterator \<Rightarrow> WholeSpaceIterator) \<Rightarrow> PrefixIterator \<Rightarrow> PrefixIterator" where
  "on_wi f it = it\<lparr>pi_w_iter := f (pi_w_iter it)\<rparr>"

definition pi_seek_to_first :: "MemDB \<Rightarrow> PrefixIterator \<Rightarrow> PrefixIterator" where
  "pi_seek_to_first db it = on_wi (wi_lower_bound db (encode_key (pi_prefix it) [])) it"

function back_to_prefix :: "bytes \<Rightarrow> WholeSpaceIterator \<Rightarrow> WholeSpaceIterator" where
  "back_to_prefix prefix w =
     (if wi_valid w \<and> \<not> raw_key_is_prefixed prefix w then back_to_prefix prefix (wi_prev w) else w)"
  by pat_completeness auto

termination
  by (relation "measure (\<lambda>(p, w). nat (wi_pos w + 1))") (auto simp: wi_valid_def wi_prev_def)

declare back_to_prefix.simps [simp del]

definition pi_seek_to_last :: "MemDB \<Rightarrow> PrefixIterator \<Rightarrow> PrefixIterator" where
  "pi_seek_to_last db it = on_wi (\<lambda>w. back_to_prefix (pi_prefix it) (wi_seek_to_last db w)) it"

definition pi_lower_bound :: "MemDB \<Rightarrow> bytes \<Rightarrow> PrefixIterator \<Rightarrow> PrefixIterator" where
  "pi_lower_bound db to it = on_wi (wi_lower_bound db (encode_key (pi_prefix it) to)) it"

definition pi_upper_bound :: "MemDB \<Rightarrow> bytes \<Rightarrow> PrefixIterator \<Rightarrow> PrefixIterator" where
  "pi_upper_bound db after it =
     (let w = wi_lower_bound db (encode_key (pi_prefix it) after) (pi_w_iter it)
      in it\<lparr>pi_upper := Some after,
            pi_w_iter := (if wi_valid w \<and> snd (raw_key w) = after then wi_next w else w)\<rparr>)"

definition pi_valid :: "PrefixIterator \<Rightarrow> bool" where
  "pi_valid it \<longleftrightarrow> wi_valid (pi_w_iter it) \<and> raw_key_is_prefixed (pi_prefix it) (pi_w_iter it) \<and>
     (case pi_upper it of None \<Rightarrow> True | Some ub \<Rightarrow> snd (raw_key (pi_w_iter it)) < ub)"

definition pi_next :: "PrefixIterator \<Rightarrow> int \<times> PrefixIterator" where
  "pi_next it = (if \<not> wi_valid (pi_w_iter it) then (- EINVAL, it) else (0, on_wi wi_next it))"

definition pi_prev :: "PrefixIterator \<Rightarrow> int \<times> PrefixIterator" where
  "pi_prev it = (if \<not> wi_valid (pi_w_iter it) then (- EINVAL, it) else (0, on_wi wi_prev it))"

definition pi_key :: "PrefixIterator \<Rightarrow> bytes" where
  "pi_key it = snd (raw_key (pi_w_iter it))"

definition pi_value :: "PrefixIterator \<Rightarrow> bytes" where
  "pi_value it = wi_value (pi_w_iter it)"

end
