(* ===== verification/Freelist.thy ===== *)
theory Freelist
  imports Mem_Db Config_Json
begin

text \<open>
  \<open>BitmapFreelistManager\<close> of \<open>bluestore/bitmap_freelist_manager.cc\<close>: which blocks of a device are in use, as a
  bitmap cut into rows of \<open>blocks_per_key_\<close> bits that are values of a key-value database. A change is
  merged into a transaction as a mask that the XOR merge operator applies.
\<close>

section \<open>Keys and bits\<close>

definition key_encode_u64 :: "u64 \<Rightarrow> bytes" where
  "key_encode_u64 val = map (\<lambda>s. ucast (drop_bit s val)) [56, 48, 40, 32, 24, 16, 8, 0]"

definition key_decode_u64 :: "bytes \<Rightarrow> u64" where
  "key_decode_u64 p =
     push_bit 56 (ucast (p ! 0)) OR push_bit 48 (ucast (p ! 1)) OR push_bit 40 (ucast (p ! 2)) OR
     push_bit 32 (ucast (p ! 3)) OR push_bit 24 (ucast (p ! 4)) OR push_bit 16 (ucast (p ! 5)) OR
     push_bit 8 (ucast (p ! 6)) OR ucast (p ! 7)"

text \<open>\<open>p[i >> 3] & (1u << (i & 7))\<close>\<close>

definition bit_at :: "bytes \<Rightarrow> nat \<Rightarrow> bool" where
  "bit_at bl i \<longleftrightarrow> bit (bl ! (i div 8)) (i mod 8)"

text \<open>The two searches; their loops count \<open>start\<close> up to the number of bits.\<close>

definition get_next_clear_bit :: "bytes \<Rightarrow> int \<Rightarrow> int" where
  "get_next_clear_bit bl start =
     (case find (\<lambda>i. \<not> bit_at bl i) [nat start ..< 8 * length bl] of None \<Rightarrow> - 1 | Some i \<Rightarrow> int i)"

definition get_next_set_bit :: "bytes \<Rightarrow> int \<Rightarrow> int" where
  "get_next_set_bit bl start =
     (case find (bit_at bl) [nat start ..< 8 * length bl] of None \<Rightarrow> - 1 | Some i \<Rightarrow> int i)"

definition is_power_of_2 :: "u64 \<Rightarrow> bool" where
  "is_power_of_2 v \<longleftrightarrow> v \<noteq> 0 \<and> v AND (v - 1) = 0"

section \<open>State\<close>

record FreelistManager =
  fm_meta_prefix :: bytes
  fm_bitmap_prefix :: bytes
  fm_size :: u64
  fm_bytes_per_block :: u64
  fm_blocks_per_key :: u64
  fm_bytes_per_key :: u64
  fm_blocks :: u64
  fm_block_mask :: u64
  fm_key_mask :: u64
  fm_all_set_bl :: bytes
  fm_null_manager :: bool
  fm_enumerate_p :: "PrefixIterator option"
  fm_enumerate_offset :: u64
  fm_enumerate_bl :: bytes
  fm_enumerate_bl_pos :: int

definition new_FreelistManager :: "bytes \<Rightarrow> bytes \<Rightarrow> FreelistManager" where
  "new_FreelistManager meta_prefix bitmap_prefix =
     \<lparr>fm_meta_prefix = meta_prefix, fm_bitmap_prefix = bitmap_prefix, fm_size = 0, fm_bytes_per_block = 0,
      fm_blocks_per_key = 128, fm_bytes_per_key = 0, fm_blocks = 0, fm_block_mask = 0, fm_key_mask = 0,
      fm_all_set_bl = [], fm_null_manager = False, fm_enumerate_p = None, fm_enumerate_offset = 0,
      fm_enumerate_bl = [], fm_enumerate_bl_pos = 0\<rparr>"

definition set_null_manager :: "FreelistManager \<Rightarrow> FreelistManager" where
  "set_null_manager fm = fm\<lparr>fm_null_manager := True\<rparr>"

text \<open>The length of \<open>bufferptr(blocks_per_key_ >> 3)\<close>, an \<open>unsigned\<close>.\<close>

definition row_bytes :: "FreelistManager \<Rightarrow> nat" where
  "row_bytes fm = unat (ucast (drop_bit 3 (fm_blocks_per_key fm)) :: u32)"

definition init_misc :: "FreelistManager \<Rightarrow> FreelistManager" where
  "init_misc fm =
     (let per_key = fm_bytes_per_block fm * fm_blocks_per_key fm
      in fm\<lparr>fm_all_set_bl := replicate (row_bytes fm) 255,
            fm_block_mask := NOT (fm_bytes_per_block fm - 1),
            fm_bytes_per_key := per_key,
            fm_key_mask := NOT (per_key - 1)\<rparr>)"

definition size_2_block_count :: "FreelistManager \<Rightarrow> u64 \<Rightarrow> u64" where
  "size_2_block_count fm target =
     (let target_blocks = target div fm_bytes_per_block fm; per_key = fm_blocks_per_key fm
      in if target_blocks div per_key * per_key \<noteq> target_blocks
         then (target_blocks div per_key + 1) * per_key
         else target_blocks)"

section \<open>Changes\<close>

text \<open>\<open>p[i >> 3] ^= 1ull << (i & 7)\<close> for a run of bits; the index is checked by \<open>bufferptr\<close>.\<close>

fun flip_bits :: "nat list \<Rightarrow> bytes \<Rightarrow> bytes option" where
  "flip_bits [] p = Some p"
| "flip_bits (i # is) p =
     (if i div 8 < length p
      then flip_bits is (p[i div 8 := p ! (i div 8) XOR push_bit (i mod 8) 1])
      else None)"

definition merge_mask :: "FreelistManager \<Rightarrow> u64 \<Rightarrow> nat list \<Rightarrow> db_txn \<Rightarrow> db_txn option" where
  "merge_mask fm key is txn =
     (case flip_bits is (replicate (row_bytes fm) 0) of
        None \<Rightarrow> None
      | Some p \<Rightarrow> Some (txn_merge (fm_bitmap_prefix fm) (key_encode_u64 key) p txn))"

partial_function (option) xor_middle ::
    "FreelistManager \<Rightarrow> u64 \<Rightarrow> u64 \<Rightarrow> db_txn \<Rightarrow> (u64 \<times> db_txn) option" where
  "xor_middle fm first_key last_key txn =
     (if first_key < last_key
      then xor_middle fm (first_key + fm_bytes_per_key fm) last_key
             (txn_merge (fm_bitmap_prefix fm) (key_encode_u64 first_key) (fm_all_set_bl fm) txn)
      else Some (first_key, txn))"

text \<open>The position of an address in its row, as an \<open>unsigned\<close>.\<close>

definition row_pos :: "FreelistManager \<Rightarrow> u64 \<Rightarrow> nat" where
  "row_pos fm a = unat (ucast ((a AND NOT (fm_key_mask fm)) div fm_bytes_per_block fm) :: u32)"

definition fm_xor :: "FreelistManager \<Rightarrow> u64 \<Rightarrow> u64 \<Rightarrow> db_txn \<Rightarrow> db_txn option" where
  "fm_xor fm offset len txn =
     (if offset AND fm_block_mask fm \<noteq> offset \<or> len AND fm_block_mask fm \<noteq> len \<or> fm_bytes_per_block fm = 0
      then None
      else
        let first_key = offset AND fm_key_mask fm;
            last_key = (offset + len - 1) AND fm_key_mask fm;
            s = row_pos fm offset;
            e = row_pos fm (offset + len - 1)
        in if first_key = last_key
           then merge_mask fm first_key [s ..< e + 1] txn
           else
             case merge_mask fm first_key [s ..< unat (ucast (fm_blocks_per_key fm) :: u32)] txn of
               None \<Rightarrow> None
             | Some txn1 \<Rightarrow>
                 (case xor_middle fm (first_key + fm_bytes_per_key fm) last_key txn1 of
                    None \<Rightarrow> None
                  | Some (k, txn2) \<Rightarrow> if k \<noteq> last_key then None else merge_mask fm k [0 ..< e + 1] txn2))"

definition fm_allocate :: "FreelistManager \<Rightarrow> u64 \<Rightarrow> u64 \<Rightarrow> db_txn \<Rightarrow> db_txn option" where
  "fm_allocate fm offset len txn = (if \<not> fm_null_manager fm then fm_xor fm offset len txn else Some txn)"

definition fm_release :: "FreelistManager \<Rightarrow> u64 \<Rightarrow> u64 \<Rightarrow> db_txn \<Rightarrow> db_txn option" where
  "fm_release fm offset len txn = (if \<not> fm_null_manager fm then fm_xor fm offset len txn else Some txn)"

definition set_meta :: "FreelistManager \<Rightarrow> string \<Rightarrow> u64 \<Rightarrow> db_txn \<Rightarrow> db_txn" where
  "set_meta fm key v txn = txn_set (fm_meta_prefix fm) (str key) (le_bytes 8 v) txn"

text \<open>\<open>create\<close>: the result, which is always 0, the manager and the transaction.\<close>

definition fm_create :: "u64 \<Rightarrow> u64 \<Rightarrow> db_txn \<Rightarrow> FreelistManager \<Rightarrow> (int \<times> FreelistManager \<times> db_txn) option" where
  "fm_create new_size granularity txn fm0 =
     (if \<not> is_power_of_2 granularity then None
      else
        let fm1 = init_misc (fm0\<lparr>fm_bytes_per_block := granularity,
                                  fm_size := new_size AND NOT (granularity - 1),
                                  fm_blocks_per_key := 128\<rparr>);
            fm = fm1\<lparr>fm_blocks := size_2_block_count fm1 (fm_size fm1)\<rparr>;
            tail = fm_blocks fm * fm_bytes_per_block fm
        in case (if tail > fm_size fm then fm_xor fm (fm_size fm) (tail - fm_size fm) txn else Some txn) of
             None \<Rightarrow> None
           | Some txn1 \<Rightarrow>
               (case fm_xor fm 0 (fm_bytes_per_block fm) txn1 of
                  None \<Rightarrow> None
                | Some txn2 \<Rightarrow>
                    Some (0, fm,
                      set_meta fm ''size'' (fm_size fm)
                        (set_meta fm ''blocks'' (fm_blocks fm)
                          (set_meta fm ''blocks_per_key'' (fm_blocks_per_key fm)
                            (set_meta fm ''bytes_per_block'' (fm_bytes_per_block fm) txn2))))))"

section \<open>Loading\<close>

text \<open>\<open>std::stoull\<close>; \<open>None\<close> for its exceptions.\<close>

definition is_space_char :: "u8 \<Rightarrow> bool" where
  "is_space_char c \<longleftrightarrow> c = 32 \<or> 9 \<le> c \<and> c \<le> 13"

definition stoull :: "bytes \<Rightarrow> u64 option" where
  "stoull val =
     (let (neg, s) = split_sign (dropWhile is_space_char val); ds = takeWhile is_digit s
      in if ds = [] \<or> dec_value ds \<ge> 2 ^ 64 then None
         else Some (if neg then - of_nat (dec_value ds) else of_nat (dec_value ds)))"

text \<open>A function from a name to its result and the text it stores, or no function.\<close>

type_synonym cfg_reader = "(string \<Rightarrow> int \<times> bytes) option"

fun read_entries ::
    "(string \<Rightarrow> int \<times> bytes) \<Rightarrow> (string \<times> (u64 \<Rightarrow> FreelistManager \<Rightarrow> FreelistManager)) list \<Rightarrow> FreelistManager \<Rightarrow>
     (int \<times> FreelistManager) option" where
  "read_entries reader [] fm = Some (0, fm)"
| "read_entries reader ((key, store) # es) fm =
     (let (r, val) = reader key
      in if r \<noteq> 0 then Some (r, fm)
         else case stoull val of None \<Rightarrow> None | Some v \<Rightarrow> read_entries reader es (store v fm))"

definition read_cfg :: "cfg_reader \<Rightarrow> FreelistManager \<Rightarrow> (int \<times> FreelistManager) option" where
  "read_cfg cfg fm =
     (case cfg of
        None \<Rightarrow> Some (- 1, fm)
      | Some reader \<Rightarrow>
          read_entries reader
            [(''bfm_size'', \<lambda>v fm. fm\<lparr>fm_size := v\<rparr>),
             (''bfm_blocks'', \<lambda>v fm. fm\<lparr>fm_blocks := v\<rparr>),
             (''bfm_bytes_per_block'', \<lambda>v fm. fm\<lparr>fm_bytes_per_block := v\<rparr>),
             (''bfm_blocks_per_key'', \<lambda>v fm. fm\<lparr>fm_blocks_per_key := v\<rparr>)] fm)"

text \<open>One round of the loop of \<open>_load_from_db\<close>; the length of a known entry is asserted.\<close>

definition load_entry :: "bytes \<Rightarrow> bytes \<Rightarrow> FreelistManager \<Rightarrow> FreelistManager option" where
  "load_entry k bl fm =
     (if k \<in> {str ''bytes_per_block'', str ''blocks'', str ''size'', str ''blocks_per_key''} \<and> length bl \<noteq> 8 then None
      else if k = str ''bytes_per_block'' then Some (fm\<lparr>fm_bytes_per_block := le_value bl\<rparr>)
      else if k = str ''blocks'' then Some (fm\<lparr>fm_blocks := le_value bl\<rparr>)
      else if k = str ''size'' then Some (fm\<lparr>fm_size := le_value bl\<rparr>)
      else if k = str ''blocks_per_key'' then Some (fm\<lparr>fm_blocks_per_key := le_value bl\<rparr>)
      else Some fm)"

text \<open>What is left for an iterator to step over.\<close>

definition steps_left :: "PrefixIterator \<Rightarrow> nat" where
  "steps_left it = (if wi_valid (pi_w_iter it) then nat (int (length (wi_items (pi_w_iter it))) - wi_pos (pi_w_iter it)) else 0)"

lemma steps_left_next: "wi_valid (pi_w_iter it) \<Longrightarrow> steps_left (snd (pi_next it)) < steps_left it"
  by (auto simp: steps_left_def pi_next_def on_wi_def wi_next_def wi_valid_def in_items_def)

lemma steps_left_valid: "pi_valid (snd (pi_next it)) \<Longrightarrow> steps_left (snd (pi_next it)) < steps_left it"
  using steps_left_next [of it] by (cases "wi_valid (pi_w_iter it)") (auto simp: pi_next_def pi_valid_def)

function load_loop :: "PrefixIterator \<Rightarrow> FreelistManager \<Rightarrow> FreelistManager option" where
  "load_loop it fm =
     (if pi_valid it
      then case load_entry (pi_key it) (pi_value it) fm of
             None \<Rightarrow> None
           | Some fm' \<Rightarrow> load_loop (snd (pi_next it)) fm'
      else Some fm)"
  by pat_completeness auto

termination
  by (relation "measure (\<lambda>(it, fm). steps_left it)") (auto simp: pi_valid_def intro: steps_left_next)

declare load_loop.simps [simp del]

definition load_from_db :: "MemDB \<Rightarrow> FreelistManager \<Rightarrow> FreelistManager option" where
  "load_from_db db fm = load_loop (pi_lower_bound db [] (get_iterator (fm_meta_prefix fm) no_bounds db)) fm"

definition fm_init :: "MemDB \<Rightarrow> cfg_reader \<Rightarrow> FreelistManager \<Rightarrow> (int \<times> FreelistManager) option" where
  "fm_init db cfg fm =
     (case read_cfg cfg fm of
        None \<Rightarrow> None
      | Some (r, fm1) \<Rightarrow>
          (case (if r \<noteq> 0 then load_from_db db fm1 else Some fm1) of
             None \<Rightarrow> None
           | Some fm2 \<Rightarrow> Some (0, init_misc fm2)))"

text \<open>\<open>get_meta\<close>, for a manager that was created or initialised.\<close>

definition get_meta :: "u64 \<Rightarrow> FreelistManager \<Rightarrow> (string \<times> bytes) list" where
  "get_meta target fm =
     (if target = 0
      then [(''bfm_blocks'', put_u64 (fm_blocks fm)), (''bfm_size'', put_u64 (fm_size fm))]
      else let aligned = target AND NOT (fm_bytes_per_block fm - 1)
           in [(''bfm_blocks'', put_u64 (size_2_block_count fm aligned)), (''bfm_size'', put_u64 aligned)]) @
     [(''bfm_bytes_per_block'', put_u64 (fm_bytes_per_block fm)),
      (''bfm_blocks_per_key'', put_u64 (fm_blocks_per_key fm))]"

section \<open>Enumeration\<close>

definition get_offset :: "u64 \<Rightarrow> u64 \<Rightarrow> int \<Rightarrow> u64" where
  "get_offset bytes_per_block key_off b = key_off + of_int b * bytes_per_block"

definition enumerate_reset :: "FreelistManager \<Rightarrow> FreelistManager" where
  "enumerate_reset fm = fm\<lparr>fm_enumerate_offset := 0, fm_enumerate_bl_pos := 0, fm_enumerate_bl := [],
                           fm_enumerate_p := None\<rparr>"

text \<open>The iterator, \<open>enumerate_offset_\<close>, \<open>enumerate_bl_\<close> and \<open>enumerate_bl_pos_\<close> while they are being moved.\<close>

type_synonym fm_cursor = "PrefixIterator \<times> u64 \<times> bytes \<times> int"

text \<open>The first loop looks for a free block, the second for the end of the free range.\<close>

function enum_clear :: "FreelistManager \<Rightarrow> fm_cursor \<Rightarrow> u64 \<times> fm_cursor" where
  "enum_clear fm (it, off, bl, pos) =
     (let pos1 = get_next_clear_bit bl pos
      in if pos1 \<ge> 0 then (get_offset (fm_bytes_per_block fm) off pos1, (it, off, bl, pos1))
         else let it1 = snd (pi_next it); next_off = off + fm_bytes_per_key fm
              in if \<not> pi_valid it1
                 then (get_offset (fm_bytes_per_block fm) next_off 0, (it1, next_off, [], 0))
                 else let off1 = key_decode_u64 (pi_key it1); bl1 = pi_value it1
                      in if off1 > next_off then (next_off, (it1, off1, bl1, 0))
                         else enum_clear fm (it1, off1, bl1, 0))"
  by pat_completeness auto

termination
  by (relation "measure (\<lambda>(fm, it, off, bl, pos). steps_left it)") (auto intro: steps_left_valid)

declare enum_clear.simps [simp del]

function enum_set :: "FreelistManager \<Rightarrow> fm_cursor \<Rightarrow> u64 option \<times> fm_cursor" where
  "enum_set fm (it, off, bl, pos) =
     (let pos1 = get_next_set_bit bl pos
      in if pos1 \<ge> 0
         then (Some (min (fm_blocks fm * fm_bytes_per_block fm) (get_offset (fm_bytes_per_block fm) off pos1)),
               (it, off, bl, pos1))
         else let it1 = snd (pi_next it)
              in if \<not> pi_valid it1 then (None, (it1, off, [], 0))
                 else enum_set fm (it1, key_decode_u64 (pi_key it1), pi_value it1, 0))"
  by pat_completeness auto

termination
  by (relation "measure (\<lambda>(fm, it, off, bl, pos). steps_left it)") (auto intro: steps_left_valid)

declare enum_set.simps [simp del]

definition put_cursor :: "fm_cursor \<Rightarrow> FreelistManager \<Rightarrow> FreelistManager" where
  "put_cursor c fm = (case c of (it, off, bl, pos) \<Rightarrow>
     fm\<lparr>fm_enumerate_p := Some it, fm_enumerate_offset := off, fm_enumerate_bl := bl, fm_enumerate_bl_pos := pos\<rparr>)"

text \<open>The cursor of a call: taken from the database by the first one, whose assertions it must pass.\<close>

definition enum_start :: "MemDB \<Rightarrow> FreelistManager \<Rightarrow> fm_cursor option" where
  "enum_start db fm =
     (if fm_enumerate_offset fm = 0 \<and> fm_enumerate_bl_pos fm = 0
      then let it = pi_lower_bound db [] (get_iterator (fm_bitmap_prefix fm) no_bounds db)
           in if \<not> pi_valid it then None
              else let off = key_decode_u64 (pi_key it); bl = pi_value it
                   in if off \<noteq> 0 \<or> get_next_set_bit bl 0 \<noteq> 0 then None else Some (it, off, bl, 0)
      else case fm_enumerate_p fm of
             None \<Rightarrow> None
           | Some it \<Rightarrow> Some (it, fm_enumerate_offset fm, fm_enumerate_bl fm, fm_enumerate_bl_pos fm))"

text \<open>
  \<open>enumerate_next\<close>: the result, \<open>*offset\<close> and \<open>*length\<close>, whose values before the call are the argument \<open>out\<close>,
  and the manager.
\<close>

definition enumerate_next ::
    "MemDB \<Rightarrow> u64 \<times> u64 \<Rightarrow> FreelistManager \<Rightarrow> (bool \<times> (u64 \<times> u64) \<times> FreelistManager) option" where
  "enumerate_next db out fm =
     (case enum_start db fm of
        None \<Rightarrow> None
      | Some c \<Rightarrow>
          let fm0 = put_cursor c fm in
          if fm_enumerate_offset fm0 \<ge> fm_size fm then Some (False, out, fm0)
          else
            let (offset, c1) = enum_clear fm c;
                (found, c2) = (if pi_valid (fst c1) then enum_set fm c1 else (None, c1));
                fm2 = put_cursor c2 fm
            in case found of
                 Some end \<Rightarrow> Some (True, (offset, end - offset), fm2)
               | None \<Rightarrow>
                   if fm_enumerate_offset fm2 < fm_size fm
                   then Some (True, (offset, fm_blocks fm * fm_bytes_per_block fm - offset),
                              fm2\<lparr>fm_enumerate_offset := fm_size fm,
                                  fm_enumerate_bl_pos := sint (ucast (fm_blocks_per_key fm) :: 32 word)\<rparr>)
                   else Some (False, (offset, snd out), fm2))"

end
