(* ===== verification/Mem_Db_Correct.thy ===== *)
theory Mem_Db_Correct
  imports Mem_Db
begin

text \<open>
  What the in-memory database stores, as a map of maps: \<open>content db p k\<close> is the value of key \<open>k\<close> in the key
  space \<open>p\<close>. The single ordered map of encoded keys implements it for prefixes without a null
  byte, and the prefix iterator runs through one key space in key order.
\<close>

section \<open>Lexicographic order\<close>

lemma append_less_append [simp]: "u @ a < u @ b \<longleftrightarrow> a < b" for u a b :: "'a::order list"
  by (induction u) auto

lemma append_le_append [simp]: "u @ a \<le> u @ b \<longleftrightarrow> a \<le> b" for u a b :: "'a::order list"
  by (induction u) auto

lemma between_same_prefix:
  fixes u :: "'a::linorder list"
  assumes "u @ a \<le> x" "x \<le> u @ b"
  shows "take (length u) x = u"
  using assms
proof (induction u arbitrary: x)
  case (Cons c u)
  then show ?case by (cases x) (auto simp: Cons_le_Cons)
qed simp

lemma prefix_le: "take (length u) x = u \<Longrightarrow> u \<le> x" for u x :: "'a::linorder list"
  by (metis append_Nil2 append_le_append append_take_drop_id Nil_le_Cons le_Nil linear)

section \<open>Encoded keys\<close>

definition nul_free :: "bytes \<Rightarrow> bool" where
  "nul_free p \<longleftrightarrow> 0 \<notin> set p"

lemma nul_free_split:
  "nul_free p \<Longrightarrow> takeWhile (\<lambda>c. c \<noteq> 0) (p @ 0 # k) = p \<and> dropWhile (\<lambda>c. c \<noteq> 0) (p @ 0 # k) = 0 # k"
  by (induction p) (auto simp: nul_free_def)

lemma decode_encode [simp]: "nul_free p \<Longrightarrow> decode_key (encode_key p k) = (p, k)"
  using nul_free_split [of p k] by (simp add: decode_key_def encode_key_def)

lemma encode_key_inj [simp]:
  "nul_free p \<Longrightarrow> nul_free q \<Longrightarrow> encode_key p k = encode_key q l \<longleftrightarrow> p = q \<and> k = l"
  by (metis decode_encode prod.inject)

lemma encode_key_less [simp]: "encode_key p k < encode_key p l \<longleftrightarrow> k < l"
  by (simp add: encode_key_def)

lemma encode_key_le [simp]: "encode_key p k \<le> encode_key p l \<longleftrightarrow> k \<le> l"
  by (simp add: encode_key_def)

lemma take_encode_key:
  assumes "nul_free p" "nul_free q"
  shows "take (length (encode_key p [])) (encode_key q k) = encode_key p [] \<longleftrightarrow> p = q"
proof
  assume a: "take (length (encode_key p [])) (encode_key q k) = encode_key p []"
  then obtain r where "encode_key q k = encode_key p [] @ r" by (metis append_take_drop_id)
  then have "encode_key q k = encode_key p r" by (simp add: encode_key_def)
  with assms show "p = q" by simp
qed (simp add: encode_key_def)

lemma encode_key_between:
  assumes "nul_free p" "nul_free q" "encode_key p s \<le> encode_key q k" "encode_key q k \<le> encode_key p e"
  shows "q = p"
proof -
  have "take (length (encode_key p [])) (encode_key q k) = encode_key p []"
    by (rule between_same_prefix [where a = s and b = e]) (use assms(3,4) in \<open>simp_all add: encode_key_def\<close>)
  then show ?thesis using take_encode_key [OF assms(1,2)] by simp
qed

section \<open>Contents\<close>

definition md_ok :: "MemDB \<Rightarrow> bool" where
  "md_ok db \<longleftrightarrow> om_ok (md_db db)"

definition content :: "MemDB \<Rightarrow> bytes \<Rightarrow> bytes \<Rightarrow> bytes option" where
  "content db p k = map_of (md_db db) (encode_key p k)"

lemma md_touch_sel [simp]:
  "md_db (md_touch m db) = m" "md_merge_ops (md_touch m db) = md_merge_ops db"
  by (simp_all add: md_touch_def)

lemma om_ok_Cons: "om_ok (p # m) \<longleftrightarrow> (\<forall>x \<in> set m. fst p < fst x) \<and> om_ok m"
  by (auto simp: om_ok_def)

lemma om_ok_sublist: "om_ok (a @ b @ c) \<Longrightarrow> om_ok (a @ c)"
  by (auto simp: om_ok_def sorted_wrt_append)

lemma erase_while_split: "\<exists>b. m = takeWhile P m @ b @ dropWhile Q (dropWhile P m)"
proof -
  have "m = takeWhile P m @ takeWhile Q (dropWhile P m) @ dropWhile Q (dropWhile P m)"
    by (simp add: takeWhile_dropWhile_id)
  then show ?thesis by blast
qed

lemma om_ok_erase_while: "om_ok m \<Longrightarrow> om_ok (erase_while s c m)"
  unfolding erase_while_def using erase_while_split om_ok_sublist by metis

lemma map_of_dropWhile_down:
  assumes "om_ok m" "\<And>k k'. k' \<in> fst ` set m \<Longrightarrow> k' \<le> k \<Longrightarrow> c k \<Longrightarrow> c k'"
  shows "map_of (dropWhile (\<lambda>p. c (fst p)) m) k = (if c k then None else map_of m k)"
  using assms
proof (induction m)
  case (Cons p m)
  show ?case
  proof (cases "c (fst p)")
    case True
    with Cons show ?thesis by (auto simp: om_ok_Cons)
  next
    case False
    have "map_of (p # m) k = None" if "c k"
    proof -
      from that False Cons.prems(2) [of "fst p" k] have "k < fst p" by fastforce
      then show ?thesis using Cons.prems(1) by (auto simp: om_ok_Cons map_of_eq_None_iff)
    qed
    with False show ?thesis by auto
  qed
qed simp

lemma om_ok_dropWhile: "om_ok m \<Longrightarrow> x \<in> fst ` set (dropWhile (\<lambda>p. fst p < s) m) \<Longrightarrow> s \<le> x"
proof (induction m)
  case (Cons p m)
  show ?case
  proof (cases "fst p < s")
    case False
    with Cons.prems have "x \<in> fst ` set (p # m)" by simp
    then have "fst p \<le> x" using Cons.prems(1) by (auto simp: om_ok_Cons)
    with False show ?thesis by (simp add: not_less)
  qed (use Cons in \<open>simp add: om_ok_Cons\<close>)
qed simp

lemma map_of_erase_while:
  assumes ok: "om_ok m" and down: "\<And>k k'. s \<le> k' \<Longrightarrow> k' \<le> k \<Longrightarrow> c k \<Longrightarrow> c k'"
  shows "map_of (erase_while s c m) k = (if s \<le> k \<and> c k then None else map_of m k)"
proof -
  let ?a = "takeWhile (\<lambda>p. fst p < s) m" and ?b = "dropWhile (\<lambda>p. fst p < s) m"
  have split: "m = ?a @ ?b" by simp
  have a: "x < s" if "x \<in> fst ` set ?a" for x using that by (auto dest: set_takeWhileD)
  have okb: "om_ok ?b" using ok by (metis append_Nil om_ok_sublist split)
  have b: "s \<le> x" if "x \<in> fst ` set ?b" for x using om_ok_dropWhile [OF ok that] .
  have "map_of (dropWhile (\<lambda>p. c (fst p)) ?b) k = (if c k then None else map_of ?b k)"
    using map_of_dropWhile_down [OF okb] b down by blast
  moreover have "map_of ?a k = None" if "s \<le> k" using a [of k] that leD by (auto simp only: map_of_eq_None_iff)
  moreover have "map_of ?b k = None" if "\<not> s \<le> k" using b [of k] that by (auto simp only: map_of_eq_None_iff)
  moreover have "map_of m k = (map_of ?b ++ map_of ?a) k" by (metis map_of_append split)
  ultimately show ?thesis
    by (auto simp: erase_while_def map_add_def split: option.splits)
qed

lemma content_set_key [simp]:
  "nul_free p \<Longrightarrow> nul_free q \<Longrightarrow>
   content (set_key (encode_key p k) v db) q l = (if q = p \<and> l = k then Some v else content db q l)"
  by (auto simp: content_def set_key_def map_of_om_set)

lemma content_rmkey:
  "nul_free p \<Longrightarrow> nul_free q \<Longrightarrow>
   content (rmkey (encode_key p k) db) q l = (if q = p \<and> l = k then None else content db q l)"
  by (auto simp: content_def rmkey_def map_of_om_erase)

lemma content_rmkeys_by_prefix:
  assumes "md_ok db" "nul_free p" "nul_free q"
  shows "content (rmkeys_by_prefix p db) q l = (if q = p then None else content db q l)"
proof -
  let ?u = "encode_key p []"
  have "map_of (erase_while ?u (\<lambda>k. take (length ?u) k = ?u) (md_db db)) (encode_key q l) =
        (if ?u \<le> encode_key q l \<and> take (length ?u) (encode_key q l) = ?u then None else content db q l)"
  proof (subst map_of_erase_while)
    fix k k' :: bytes
    assume a: "?u \<le> k'" "k' \<le> k" "take (length ?u) k = ?u"
    then have "k = ?u @ drop (length ?u) k" by (metis append_take_drop_id)
    with a show "take (length ?u) k' = ?u"
      using between_same_prefix [of ?u "[]" k' "drop (length ?u) k"] by simp
  qed (use assms in \<open>simp_all add: md_ok_def content_def\<close>)
  then show ?thesis
    using assms take_encode_key [of p q l] prefix_le [of ?u "encode_key q l"]
    by (auto simp: rmkeys_by_prefix_def content_def Let_def)
qed

lemma content_rm_range_keys:
  assumes "md_ok db" "nul_free p" "nul_free q"
  shows "content (rm_range_keys p s e db) q l =
    (if q = p \<and> s \<le> l \<and> l < e then None else content db q l)"
proof -
  have "map_of (erase_while (encode_key p s) (\<lambda>k. k < encode_key p e) (md_db db)) (encode_key q l) =
        (if encode_key p s \<le> encode_key q l \<and> encode_key q l < encode_key p e then None else content db q l)"
    by (subst map_of_erase_while) (use assms in \<open>auto simp: md_ok_def content_def\<close>)
  moreover have "q = p" if "encode_key p s \<le> encode_key q l" "encode_key q l < encode_key p e"
    using encode_key_between assms(2,3) that by (meson order.strict_implies_order)
  ultimately show ?thesis by (auto simp: rm_range_keys_def content_def Let_def)
qed

section \<open>Refinement of a map of maps\<close>

type_synonym key_spaces = "bytes \<Rightarrow> bytes \<Rightarrow> bytes option"

definition upd :: "bytes \<Rightarrow> bytes \<Rightarrow> bytes option \<Rightarrow> key_spaces \<Rightarrow> key_spaces" where
  "upd p k v m = m(p := (m p)(k := v))"

text \<open>One operation and one transaction on the abstract level; \<open>mops\<close> are the registered merge operators.\<close>

fun spec_op :: "(bytes \<Rightarrow> MergeOperator option) \<Rightarrow> db_op \<Rightarrow> key_spaces \<Rightarrow> int \<times> key_spaces" where
  "spec_op mops (SET p k v) m = (0, upd p k (Some v) m)"
| "spec_op mops (RMKEY p k) m = (0, upd p k None m)"
| "spec_op mops (RMKEY_BY_PREFIX p) m = (0, m(p := \<lambda>_. None))"
| "spec_op mops (RM_RANGE_KEYS p s e) m = (0, m(p := \<lambda>k. if s \<le> k \<and> k < e then None else m p k))"
| "spec_op mops (MERGE p k v) m =
     (case mops p of
        None \<Rightarrow> (- ENOENT, m)
      | Some mop \<Rightarrow> (0, upd p k (Some (case m p k of None \<Rightarrow> mo_merge_nonexistent mop v
                                                   | Some l \<Rightarrow> mo_merge mop l v)) m))"

fun spec_txn :: "(bytes \<Rightarrow> MergeOperator option) \<Rightarrow> db_txn \<Rightarrow> key_spaces \<Rightarrow> int \<times> key_spaces" where
  "spec_txn mops [] m = (0, m)"
| "spec_txn mops (op # t) m =
     (let (r, m1) = spec_op mops op m in if r \<noteq> 0 then (r, m1) else spec_txn mops t m1)"

fun op_prefix :: "db_op \<Rightarrow> bytes" where
  "op_prefix (SET p k v) = p"
| "op_prefix (RMKEY p k) = p"
| "op_prefix (RMKEY_BY_PREFIX p) = p"
| "op_prefix (RM_RANGE_KEYS p s e) = p"
| "op_prefix (MERGE p k v) = p"

definition shows_as :: "MemDB \<Rightarrow> key_spaces \<Rightarrow> bool" where
  "shows_as db m \<longleftrightarrow> md_ok db \<and> (\<forall>q l. nul_free q \<longrightarrow> content db q l = m q l)"

lemma md_ok_set_key [simp]: "md_ok db \<Longrightarrow> md_ok (set_key k v db)"
  by (simp add: md_ok_def set_key_def om_ok_set)

lemma set_key_ops [simp]: "md_merge_ops (set_key k v db) = md_merge_ops db"
  by (simp add: set_key_def)

lemma md_ok_removals [simp]:
  "md_ok db \<Longrightarrow> md_ok (rmkey k db)" "md_ok db \<Longrightarrow> md_ok (rmkeys_by_prefix p db)"
  "md_ok db \<Longrightarrow> md_ok (rm_range_keys p s e db)"
  by (simp_all add: md_ok_def rmkey_def rmkeys_by_prefix_def rm_range_keys_def om_ok_erase om_ok_erase_while Let_def)

lemma removals_ops [simp]:
  "md_merge_ops (rmkey k db) = md_merge_ops db" "md_merge_ops (rmkeys_by_prefix p db) = md_merge_ops db"
  "md_merge_ops (rm_range_keys p s e db) = md_merge_ops db"
  by (simp_all add: rmkey_def rmkeys_by_prefix_def rm_range_keys_def Let_def)

lemma run_op_refines:
  assumes "shows_as db m" "nul_free (op_prefix op)" "run_op op db = (r, db')"
    "spec_op (\<lambda>p. find_merge_op p db) op m = (r', m')"
  shows "r = r' \<and> shows_as db' m' \<and> md_merge_ops db' = md_merge_ops db"
proof (cases op)
  case (RMKEY p k)
  with assms show ?thesis by (auto simp: run_op_def shows_as_def content_rmkey upd_def)
next
  case (RMKEY_BY_PREFIX p)
  with assms show ?thesis by (auto simp: run_op_def shows_as_def content_rmkeys_by_prefix)
next
  case (RM_RANGE_KEYS p s e)
  with assms show ?thesis by (auto simp: run_op_def shows_as_def content_rm_range_keys)
next
  case (MERGE p k v)
  have "map_of (md_db db) (encode_key p k) = m p k"
    using assms(1,2) MERGE by (simp add: shows_as_def content_def)
  with assms MERGE show ?thesis
    by (auto simp: run_op_def shows_as_def md_merge_def upd_def Let_def split: option.splits)
qed (use assms in \<open>auto simp: run_op_def shows_as_def upd_def\<close>)

lemma find_merge_op_cong: "md_merge_ops db' = md_merge_ops db \<Longrightarrow> find_merge_op p db' = find_merge_op p db"
  by (simp add: find_merge_op_def)

lemma submit_refines:
  assumes "shows_as db m" "\<forall>op \<in> set t. nul_free (op_prefix op)" "submit_transaction t db = (r, db')"
    "spec_txn (\<lambda>p. find_merge_op p db) t m = (r', m')"
  shows "r = r' \<and> shows_as db' m' \<and> md_merge_ops db' = md_merge_ops db"
  using assms
proof (induction t arbitrary: db m)
  case (Cons op t)
  obtain r1 db1 where o: "run_op op db = (r1, db1)" by (cases "run_op op db")
  obtain r2 m1 where s: "spec_op (\<lambda>p. find_merge_op p db) op m = (r2, m1)"
    by (cases "spec_op (\<lambda>p. find_merge_op p db) op m")
  from run_op_refines [OF Cons.prems(1) _ o s] Cons.prems(2)
  have R: "r1 = r2" "shows_as db1 m1" "md_merge_ops db1 = md_merge_ops db" by auto
  have f: "(\<lambda>p. find_merge_op p db1) = (\<lambda>p. find_merge_op p db)"
    using find_merge_op_cong [OF R(3)] by blast
  show ?case
  proof (cases "r1 = 0")
    case True
    then show ?thesis using Cons.IH [OF R(2)] Cons.prems o s R(1,3) f by simp
  next
    case False
    then show ?thesis using Cons.prems o s R by simp
  qed
qed simp

text \<open>A history of transactions, with the result of each.\<close>

fun run_txns :: "db_txn list \<Rightarrow> MemDB \<Rightarrow> int list \<times> MemDB" where
  "run_txns [] db = ([], db)"
| "run_txns (t # ts) db =
     (let (r, db1) = submit_transaction t db; (rs, db2) = run_txns ts db1 in (r # rs, db2))"

fun spec_txns :: "(bytes \<Rightarrow> MergeOperator option) \<Rightarrow> db_txn list \<Rightarrow> key_spaces \<Rightarrow> int list \<times> key_spaces" where
  "spec_txns mops [] m = ([], m)"
| "spec_txns mops (t # ts) m =
     (let (r, m1) = spec_txn mops t m; (rs, m2) = spec_txns mops ts m1 in (r # rs, m2))"

lemma run_txns_refines:
  assumes "shows_as db m" "\<forall>t \<in> set ts. \<forall>op \<in> set t. nul_free (op_prefix op)"
  shows "fst (run_txns ts db) = fst (spec_txns (\<lambda>p. find_merge_op p db) ts m) \<and>
         shows_as (snd (run_txns ts db)) (snd (spec_txns (\<lambda>p. find_merge_op p db) ts m))"
  using assms
proof (induction ts arbitrary: db m)
  case (Cons t ts)
  obtain r1 db1 where o: "submit_transaction t db = (r1, db1)" by (cases "submit_transaction t db")
  obtain r2 m1 where s: "spec_txn (\<lambda>p. find_merge_op p db) t m = (r2, m1)"
    by (cases "spec_txn (\<lambda>p. find_merge_op p db) t m")
  from submit_refines [OF Cons.prems(1) _ o s] Cons.prems(2)
  have R: "r1 = r2" "shows_as db1 m1" "md_merge_ops db1 = md_merge_ops db" by auto
  have f: "(\<lambda>p. find_merge_op p db1) = (\<lambda>p. find_merge_op p db)"
    using find_merge_op_cong [OF R(3)] by blast
  show ?case using Cons.IH [OF R(2)] Cons.prems(2) o s R(1) f by (auto simp: case_prod_unfold Let_def)
qed simp

lemma md_get1_content:
  "md_get1 p k out db = (case content db p k of None \<Rightarrow> (- ENOENT, out) | Some v \<Rightarrow> (0, v))"
  by (auto simp: md_get1_def content_def split: option.splits)

section \<open>Iteration\<close>

text \<open>What a prefix iterator still produces, the current entry first.\<close>

definition in_upper :: "bytes option \<Rightarrow> bytes \<Rightarrow> bool" where
  "in_upper ub k = (case ub of None \<Rightarrow> True | Some u \<Rightarrow> k < u)"

definition wi_rest :: "WholeSpaceIterator \<Rightarrow> (bytes \<times> bytes) list" where
  "wi_rest w = (if wi_pos w < 0 then [] else drop (nat (wi_pos w)) (wi_items w))"

definition row_of :: "bytes \<times> bytes \<Rightarrow> bytes \<times> bytes" where
  "row_of p = (snd (decode_key (fst p)), snd p)"

definition shown :: "PrefixIterator \<Rightarrow> bytes \<times> bytes \<Rightarrow> bool" where
  "shown it p \<longleftrightarrow> fst (decode_key (fst p)) = pi_prefix it \<and> in_upper (pi_upper it) (snd (decode_key (fst p)))"

definition pi_rows :: "PrefixIterator \<Rightarrow> (bytes \<times> bytes) list" where
  "pi_rows it = map row_of (takeWhile (shown it) (wi_rest (pi_w_iter it)))"

lemma wi_valid_rest: "wi_valid w \<longleftrightarrow> wi_rest w \<noteq> []"
  by (auto simp: wi_valid_def wi_rest_def nat_less_iff)

lemma wi_rest_current:
  assumes "wi_valid w"
  shows "wi_rest w = wi_items w ! nat (wi_pos w) # wi_rest (wi_next w)"
proof -
  from assms have p: "0 \<le> wi_pos w" "nat (wi_pos w) < length (wi_items w)" by (auto simp: wi_valid_def)
  then have "wi_rest w = wi_items w ! nat (wi_pos w) # drop (Suc (nat (wi_pos w))) (wi_items w)"
    by (simp add: wi_rest_def Cons_nth_drop_Suc)
  moreover have "wi_rest (wi_next w) = drop (Suc (nat (wi_pos w))) (wi_items w)"
    using p by (auto simp: wi_rest_def wi_next_def in_items_def nat_add_distrib)
  ultimately show ?thesis by simp
qed

lemma pi_valid_rows: "pi_valid it \<longleftrightarrow> pi_rows it \<noteq> []"
proof (cases "wi_valid (pi_w_iter it)")
  case True
  from wi_rest_current [OF this] True show ?thesis
    by (auto simp: pi_rows_def pi_valid_def shown_def raw_key_is_prefixed_def raw_key_def wi_key_def in_upper_def
        split: option.splits)
next
  case False
  then have "wi_rest (pi_w_iter it) = []" using wi_valid_rest by blast
  with False show ?thesis by (simp add: pi_rows_def pi_valid_def)
qed

lemma pi_rows_current:
  assumes "pi_valid it"
  shows "pi_rows it = (pi_key it, pi_value it) # pi_rows (snd (pi_next it))"
proof -
  from assms have v: "wi_valid (pi_w_iter it)" by (simp add: pi_valid_def)
  let ?c = "wi_items (pi_w_iter it) ! nat (wi_pos (pi_w_iter it))"
  have r: "wi_rest (pi_w_iter it) = ?c # wi_rest (wi_next (pi_w_iter it))"
    by (rule wi_rest_current [OF v])
  have "shown it ?c"
    using assms by (auto simp: shown_def pi_valid_def raw_key_is_prefixed_def raw_key_def wi_key_def in_upper_def
        split: option.splits)
  moreover have "shown (snd (pi_next it)) = shown it"
    using v by (simp add: fun_eq_iff shown_def pi_next_def on_wi_def)
  ultimately show ?thesis using v
    by (simp add: pi_rows_def r pi_key_def pi_value_def raw_key_def wi_key_def wi_value_def row_of_def
        pi_next_def on_wi_def)
qed

lemma pi_next_rows: "pi_rows it \<noteq> [] \<Longrightarrow> pi_rows (snd (pi_next it)) = tl (pi_rows it)"
  using pi_rows_current pi_valid_rows by (metis list.sel(3))

text \<open>The entries read by stepping an iterator until it is not valid.\<close>

fun pi_scan :: "nat \<Rightarrow> PrefixIterator \<Rightarrow> (bytes \<times> bytes) list" where
  "pi_scan 0 it = []"
| "pi_scan (Suc n) it = (if pi_valid it then (pi_key it, pi_value it) # pi_scan n (snd (pi_next it)) else [])"

lemma pi_scan_rows: "pi_scan n it = take n (pi_rows it)"
proof (induction n arbitrary: it)
  case (Suc n)
  show ?case
  proof (cases "pi_valid it")
    case True
    then show ?thesis using Suc.IH pi_rows_current [OF True] by simp
  qed (simp add: pi_valid_rows)
qed simp

lemma takeWhile_convex:
  assumes "om_ok m" "\<And>x y. x \<in> set m \<Longrightarrow> y \<in> set m \<Longrightarrow> fst x < fst y \<Longrightarrow> P y \<Longrightarrow> P x"
  shows "takeWhile P m = filter P m"
  using assms
proof (induction m)
  case (Cons p m)
  show ?case
  proof (cases "P p")
    case True
    with Cons show ?thesis by (auto simp: om_ok_Cons)
  next
    case False
    then have "\<not> P y" if "y \<in> set m" for y using Cons.prems that by (fastforce simp: om_ok_Cons)
    with False show ?thesis by (simp add: filter_empty_conv)
  qed
qed simp

lemma decode_key_eq:
  assumes "decode_key x = (p, k)" "nul_free p" "encode_key p to \<le> x"
  shows "x = encode_key p k"
proof (cases "0 \<in> set x")
  case True
  then obtain a b where "x = a @ 0 # b" "0 \<notin> set a" by (metis split_list_first)
  then have "x = encode_key a b" "nul_free a" by (auto simp: encode_key_def nul_free_def)
  with assms(1) show ?thesis by simp
next
  case False
  with assms have "encode_key p to \<le> p" by (simp add: decode_key_def)
  then have "p @ [0] @ to \<le> p @ []" by (simp add: encode_key_def)
  then have "[0] @ to \<le> []" by (simp only: append_le_append)
  then show ?thesis by simp
qed

lemma om_map_of: "om_ok m \<Longrightarrow> map_of m k = Some v \<longleftrightarrow> (k, v) \<in> set m"
  by (rule map_of_eq_Some_iff) (simp add: om_ok_def strict_sorted_iff)

lemma dropWhile_filter: "om_ok m \<Longrightarrow> dropWhile (\<lambda>p. fst p < s) m = filter (\<lambda>p. s \<le> fst p) m"
proof (induction m)
  case (Cons p m)
  show ?case
  proof (cases "fst p < s")
    case True
    with Cons show ?thesis by (simp add: om_ok_Cons not_le)
  next
    case False
    with Cons.prems have "s \<le> fst x" if "x \<in> set m" for x
      using that by (auto simp: om_ok_Cons not_less intro: order_trans less_imp_le)
    with False show ?thesis by (simp add: filter_id_conv)
  qed
qed simp

lemma om_ok_filter: "om_ok m \<Longrightarrow> om_ok (filter P m)"
  by (induction m) (auto simp: om_ok_Cons)

text \<open>An iterator whose copy of the entries is current whenever it takes itself to be.\<close>

definition coherent :: "MemDB \<Rightarrow> WholeSpaceIterator \<Rightarrow> bool" where
  "coherent db w \<longleftrightarrow> (wi_seqno w = md_seqno db \<longrightarrow> wi_items w = md_db db)"

lemma wi_lower_bound_rest:
  assumes "coherent db w"
  shows "wi_rest (wi_lower_bound db to w) = dropWhile (\<lambda>p. fst p < to) (md_db db)"
proof -
  have "wi_items (wi_refresh db w) = md_db db"
    using assms by (auto simp: wi_refresh_def coherent_def Let_def)
  then show ?thesis
    by (auto simp: wi_lower_bound_def Let_def wi_rest_def items_lower_bound_def in_items_def
        dropWhile_eq_drop)
qed

lemma get_iterator_coherent: "coherent db (pi_w_iter (get_iterator p b db))"
  by (auto simp: get_iterator_def new_PrefixIterator_def get_wholespace_iterator_def coherent_def
      wi_lower_bound_def wi_refresh_def Let_def split: option.splits)

lemma get_iterator_sel [simp]:
  "pi_prefix (get_iterator p b db) = p" "pi_upper (get_iterator p b db) = ib_upper_bound b"
  by (simp_all add: get_iterator_def new_PrefixIterator_def)

lemma pi_lower_bound_rows:
  fixes to :: bytes and it :: PrefixIterator
  assumes ok: "md_ok db" and nf: "nul_free (pi_prefix it)" and co: "coherent db (pi_w_iter it)"
  defines "rows \<equiv> pi_rows (pi_lower_bound db to it)"
  shows "om_ok rows"
    "(k, v) \<in> set rows \<longleftrightarrow> to \<le> k \<and> in_upper (pi_upper it) k \<and> content db (pi_prefix it) k = Some v"
proof -
  let ?p = "pi_prefix it" and ?s = "encode_key (pi_prefix it) to"
  let ?m = "filter (\<lambda>x. ?s \<le> fst x) (md_db db)"
  have om: "om_ok (md_db db)" using ok by (simp add: md_ok_def)
  have sh: "shown (pi_lower_bound db to it) = shown it"
    by (simp add: fun_eq_iff shown_def pi_lower_bound_def on_wi_def)
  have key: "\<exists>l. fst x = encode_key ?p l \<and> to \<le> l \<and> in_upper (pi_upper it) l \<and> row_of x = (l, snd x)"
    if xm: "x \<in> set ?m" "shown it x" for x
  proof -
    obtain l where l: "decode_key (fst x) = (?p, l)" using xm(2) by (cases "decode_key (fst x)") (auto simp: shown_def)
    with decode_key_eq [OF l nf, of to] xm show ?thesis by (auto simp: shown_def row_of_def)
  qed
  have "takeWhile (shown it) ?m = filter (shown it) ?m"
  proof (rule takeWhile_convex [OF om_ok_filter [OF om]])
    fix x y assume x: "x \<in> set ?m" "y \<in> set ?m" "fst x < fst y" "shown it y"
    from key [OF x(2,4)] obtain l where l: "fst y = encode_key ?p l" "in_upper (pi_upper it) l" by blast
    have "take (length (?p @ [0])) (fst x) = ?p @ [0]"
      by (rule between_same_prefix [where a = to and b = l])
        (use x(1,3) l(1) in \<open>auto simp: encode_key_def\<close>)
    then obtain r where r: "fst x = encode_key ?p r" by (metis append_take_drop_id append_assoc encode_key_def)
    with x(3) l have "r < l" by simp
    with l(2) nf r show "shown it x" by (auto simp: shown_def in_upper_def split: option.splits)
  qed
  then have rows: "rows = map row_of (filter (shown it) ?m)"
    using wi_lower_bound_rest [OF co, of ?s]
    by (simp add: rows_def pi_rows_def sh dropWhile_filter [OF om]) (simp add: pi_lower_bound_def on_wi_def)
  have "sorted_wrt (\<lambda>x y. fst (row_of x) < fst (row_of y)) (filter (shown it) ?m)"
  proof (rule sorted_wrt_mono_rel [where P = "\<lambda>x y. fst x < fst y"])
    fix x y assume "x \<in> set (filter (shown it) ?m)" "y \<in> set (filter (shown it) ?m)" "fst x < fst y"
    then show "fst (row_of x) < fst (row_of y)" using key [of x] key [of y] by auto
  qed (use om_ok_filter [OF om_ok_filter [OF om]] in \<open>simp add: om_ok_def sorted_wrt_map\<close>)
  then show "om_ok rows" by (simp add: rows om_ok_def sorted_wrt_map)
  have "(k, v) \<in> set rows \<longleftrightarrow> (\<exists>x \<in> set ?m. shown it x \<and> row_of x = (k, v))"
    by (simp add: rows image_iff) metis
  also have "\<dots> \<longleftrightarrow> to \<le> k \<and> in_upper (pi_upper it) k \<and> (encode_key ?p k, v) \<in> set (md_db db)"
  proof
    assume "\<exists>x \<in> set ?m. shown it x \<and> row_of x = (k, v)"
    then obtain x where "x \<in> set ?m" "shown it x" "row_of x = (k, v)" by blast
    with key [of x] show "to \<le> k \<and> in_upper (pi_upper it) k \<and> (encode_key ?p k, v) \<in> set (md_db db)"
      by (cases x) auto
  next
    assume "to \<le> k \<and> in_upper (pi_upper it) k \<and> (encode_key ?p k, v) \<in> set (md_db db)"
    then show "\<exists>x \<in> set ?m. shown it x \<and> row_of x = (k, v)"
      using nf by (intro bexI [of _ "(encode_key ?p k, v)"]) (auto simp: shown_def row_of_def)
  qed
  finally show "(k, v) \<in> set rows \<longleftrightarrow> to \<le> k \<and> in_upper (pi_upper it) k \<and> content db ?p k = Some v"
    by (simp add: content_def om_map_of [OF om])
qed

text \<open>A seek past a key never leaves the iterator valid: it also sets the upper bound to that key.\<close>

lemma upper_bound_not_valid:
  assumes "md_ok db" "nul_free (pi_prefix it)" "coherent db (pi_w_iter it)"
  shows "\<not> pi_valid (pi_upper_bound db after it)"
proof
  let ?s = "encode_key (pi_prefix it) after" and ?w' = "pi_w_iter (pi_upper_bound db after it)"
  assume v: "pi_valid (pi_upper_bound db after it)"
  let ?w = "wi_lower_bound db ?s (pi_w_iter it)"
  have om: "om_ok (md_db db)" using assms(1) by (simp add: md_ok_def)
  have w': "?w' = ?w \<or> wi_valid ?w \<and> ?w' = wi_next ?w" by (simp add: pi_upper_bound_def Let_def)
  have "set (wi_rest ?w') \<subseteq> set (wi_rest ?w)" using w' wi_rest_current [of ?w] by auto
  also have "\<dots> = {x \<in> set (md_db db). ?s \<le> fst x}"
    by (simp add: wi_lower_bound_rest [OF assms(3)] dropWhile_filter [OF om])
  finally have sub: "set (wi_rest ?w') \<subseteq> {x \<in> set (md_db db). ?s \<le> fst x}" .
  have v': "wi_valid ?w'" "raw_key_is_prefixed (pi_prefix it) ?w'" "snd (raw_key ?w') < after"
    using v by (auto simp: pi_valid_def pi_upper_bound_def Let_def)
  define x where "x = wi_key ?w'"
  have "?s \<le> x" using sub wi_rest_current [OF v'(1)] by (auto simp: wi_key_def x_def)
  moreover have "decode_key x = (pi_prefix it, snd (decode_key x))"
    using v'(2) by (auto simp: x_def raw_key_is_prefixed_def raw_key_def prod_eq_iff)
  ultimately have "x = encode_key (pi_prefix it) (snd (decode_key x))"
    using decode_key_eq assms(2) by blast
  with \<open>?s \<le> x\<close> have "after \<le> snd (decode_key x)" by (metis encode_key_le)
  with v'(3) show False by (simp add: x_def raw_key_def)
qed

section \<open>Properties\<close>

text \<open>C16: After any sequence of transactions whose prefixes hold no null byte, every result and every point read is
  that of a two-level map on which the operations act one after the other: a range removal and a prefix removal take
  exactly the keys of their own key space, and a transaction stops at the first merge without an operator.\<close>

theorem memdb_refines_map:
  assumes "md_ok db" "\<forall>t \<in> set ts. \<forall>op \<in> set t. nul_free (op_prefix op)" "nul_free p"
  shows "fst (run_txns ts db) = fst (spec_txns (\<lambda>q. find_merge_op q db) ts (content db)) \<and>
    md_ok (snd (run_txns ts db)) \<and>
    md_get1 p k out (snd (run_txns ts db)) =
      (case snd (spec_txns (\<lambda>q. find_merge_op q db) ts (content db)) p k of
         None \<Rightarrow> (- ENOENT, out)
       | Some v \<Rightarrow> (0, v))"
proof -
  have "shows_as db (content db)" using assms(1) by (simp add: shows_as_def)
  from run_txns_refines [OF this assms(2)] assms(3) show ?thesis
    by (simp add: shows_as_def md_get1_content split: option.splits)
qed

definition demo_db :: MemDB where
  "demo_db = snd (set_merge_operator [98] XorMergeOperator new_MemDB)"

lemma memdb_refines_map_witness:
  "fst (run_txns [[SET [97] [0] [1], MERGE [98] [7] [3], SET [97] [5] [2]], [RM_RANGE_KEYS [97] [0] [5], MERGE [97] [1] [1]]] demo_db)
     = [0, - ENOENT] \<and>
   md_get1 [97] [5] [] (snd (run_txns [[SET [97] [0] [1], MERGE [98] [7] [3], SET [97] [5] [2]],
     [RM_RANGE_KEYS [97] [0] [5], MERGE [97] [1] [1]]] demo_db)) = (0, [2])"
  using memdb_refines_map [of demo_db "[[SET [97] [0] [1], MERGE [98] [7] [3], SET [97] [5] [2]],
    [RM_RANGE_KEYS [97] [0] [5], MERGE [97] [1] [1]]]" "[97]" "[5]" "[]"]
  by (simp add: demo_db_def set_merge_operator_def new_MemDB_def md_ok_def om_ok_def nul_free_def upd_def
      find_merge_op_def errno_defs content_def)

text \<open>C31: Seeking with \<open>lower_bound(to)\<close> and stepping with \<open>next\<close> while the iterator is valid reads the keys of the prefix from \<open>to\<close>
  on, below the upper bound the iterator was made with, each once and in ascending order, with their values. The lower bound
  the iterator was made with has no part in it: against the design document (\<open>docs/design/keyvalue-db.md\<close>, 1.3 and 4.1), the
  in-memory iterator ignores the bound it is handed, and a seek to a smaller \<open>to\<close> returns the rows below it.\<close>

theorem prefix_scan_exact:
  fixes to :: bytes and b :: IteratorBounds
  assumes "md_ok db" "nul_free p" "length (md_db db) \<le> n"
  defines "rows \<equiv> pi_scan n (pi_lower_bound db to (get_iterator p b db))"
  shows "sorted_wrt (<) (map fst rows) \<and>
    (\<forall>k v. (k, v) \<in> set rows \<longleftrightarrow> to \<le> k \<and> in_upper (ib_upper_bound b) k \<and> content db p k = Some v)"
proof -
  let ?it = "pi_lower_bound db to (get_iterator p b db)"
  have "length (wi_rest (pi_w_iter ?it)) \<le> length (md_db db)"
    using length_dropWhile_le by (simp add: pi_lower_bound_def on_wi_def wi_lower_bound_rest [OF get_iterator_coherent])
  then have "length (pi_rows ?it) \<le> n"
    using assms(3) length_takeWhile_le [of "shown ?it" "wi_rest (pi_w_iter ?it)"] by (simp add: pi_rows_def)
  then have "rows = pi_rows ?it" by (simp add: rows_def pi_scan_rows)
  with pi_lower_bound_rows [OF assms(1) _ get_iterator_coherent [of db p b], where to = to] assms(2)
  show ?thesis by (simp add: om_ok_def)
qed

text \<open>The row of key 5 is read by an iterator with the lower bound 9.\<close>

lemma prefix_scan_exact_witness:
  "([5], [2]) \<in> set (pi_scan 2 (pi_lower_bound (snd (run_op (SET [97] [5] [2]) demo_db)) [3]
     (get_iterator [97] (no_bounds\<lparr>ib_lower_bound := Some [9]\<rparr>) (snd (run_op (SET [97] [5] [2]) demo_db)))))"
proof -
  let ?db = "snd (run_op (SET [97] [5] [2]) demo_db)"
  have "md_ok ?db" "length (md_db ?db) \<le> 2" "content ?db [97] [5] = Some [2]"
    by (simp_all add: run_op_def demo_db_def set_merge_operator_def new_MemDB_def md_ok_def om_ok_def set_key_def
        content_def)
  then show ?thesis
    using prefix_scan_exact [of ?db "[97]" 2 "[3]" "no_bounds\<lparr>ib_lower_bound := Some [9]\<rparr>"]
    by (simp add: nul_free_def no_bounds_def in_upper_def)
qed

end
