(* ===== verification/Freelist_Correct.thy ===== *)
theory Freelist_Correct
  imports Freelist Mem_Db_Correct Intarith
begin

text \<open>
  What a change of the freelist does: keys keep the order of the addresses, a mask flips exactly the bits of its run,
  \<open>_xor\<close> produces one mask per row it touches, and committing the transaction flips exactly the blocks of the range.
  The database is seen through the interface \<open>xor_store\<close>.
\<close>

section \<open>Keys\<close>

lemma length_key_encode [simp]: "length (key_encode_u64 v) = 8"
  by (simp add: key_encode_u64_def)

lemma key_encode_rev: "key_encode_u64 v = rev (le_bytes 8 v)"
  by (simp add: key_encode_u64_def le_bytes_def upt_rec)

lemma key_decode_le_value: "key_decode_u64 [a, b, c, d, e, f, g, h] = le_value [h, g, f, e, d, c, b, a]"
proof -
  have "push_bit m (push_bit n x) = push_bit (m + n) x" for m n and x :: u64
    by (simp add: push_bit_push_bit)
  then show ?thesis
    unfolding key_decode_u64_def le_value.simps push_bit_or push_bit_of_0
    by (simp add: push_bit_push_bit ac_simps del: push_bit_numeral)
qed

lemma key_decode_encode [simp]: "key_decode_u64 (key_encode_u64 v) = v"
proof -
  have "key_decode_u64 (key_encode_u64 v) = le_value (rev (key_encode_u64 v))"
    by (simp add: key_encode_u64_def key_decode_le_value del: le_value.simps)
  then show ?thesis by (simp add: key_encode_rev)
qed

definition be_nat :: "bytes \<Rightarrow> nat" where
  "be_nat bs = foldl (\<lambda>n b. 256 * n + unat b) 0 bs"

lemma unat_key_byte: "unat (ucast (drop_bit s (v::u64)) :: u8) = unat v div 2 ^ s mod 256"
proof -
  have "unat (drop_bit s v) = unat v div 2 ^ s"
    by (subst unsigned_drop_bit_eq) (simp add: drop_bit_eq_div take_bit_nat_eq_self)
  then show ?thesis
    by (simp only: unsigned_ucast_eq take_bit_eq_mod) simp
qed

lemma be_nat_key_encode: "be_nat (key_encode_u64 v) = unat v"
proof -
  have h: "256 * (x div 2 ^ (s + 8)) + x div 2 ^ s mod 256 = x div 2 ^ s" for x s :: nat
    using mult_div_mod_eq [of 256 "x div 2 ^ s"] by (simp add: power_add div_mult2_eq)
  have z: "unat v div 2 ^ 64 = 0" by simp
  show ?thesis
    using h [of "unat v" 0] h [of "unat v" 8] h [of "unat v" 16] h [of "unat v" 24] h [of "unat v" 32]
      h [of "unat v" 40] h [of "unat v" 48] h [of "unat v" 56] z
    using unat_key_byte [of 0 v]
    by (simp add: be_nat_def key_encode_u64_def unat_key_byte)
qed

lemma foldl_be: "foldl (\<lambda>n b. 256 * n + unat b) a (bs :: bytes) = a * 256 ^ length bs + be_nat bs"
proof (induction bs arbitrary: a)
  case (Cons b bs)
  from Cons [of "256 * a + unat b"] Cons [of "unat b"] show ?case by (simp add: be_nat_def algebra_simps)
qed (simp add: be_nat_def)

lemma be_nat_Cons: "be_nat (b # bs) = unat b * 256 ^ length bs + be_nat bs"
  using foldl_be [of "unat b" bs] by (simp add: be_nat_def)

lemma be_nat_less: "be_nat bs < 256 ^ length bs"
proof (induction bs)
  case (Cons b bs)
  have "Suc (unat b) \<le> 256" using unsigned_less [of b, where ?'a = nat] by simp
  then have "Suc (unat b) * 256 ^ length bs \<le> 256 * 256 ^ length bs" by (rule mult_le_mono1)
  then have "unat b * 256 ^ length bs + 256 ^ length bs \<le> 256 ^ length (b # bs)" by simp
  with Cons show ?case by (simp only: be_nat_Cons)
qed (simp add: be_nat_def)

lemma be_nat_mono: "length xs = length ys \<Longrightarrow> xs < ys \<Longrightarrow> be_nat xs < be_nat ys"
proof (induction xs ys rule: list_induct2)
  case (Cons x xs y ys)
  show ?case
  proof (cases "x < y")
    case True
    then have "Suc (unat x) * 256 ^ length xs \<le> unat y * 256 ^ length xs"
      by (intro mult_le_mono1) (simp add: word_less_nat_alt Suc_le_eq)
    with be_nat_less [of xs] Cons.hyps show ?thesis by (simp add: be_nat_Cons)
  next
    case False
    with Cons show ?thesis by (simp add: be_nat_Cons)
  qed
qed simp

lemma key_encode_less [simp]: "key_encode_u64 a < key_encode_u64 b \<longleftrightarrow> a < b"
proof -
  have m: "a < b" if "key_encode_u64 a < key_encode_u64 b" for a b
    using be_nat_mono [OF _ that] by (simp add: be_nat_key_encode word_less_nat_alt)
  then show ?thesis
    by (metis key_decode_encode less_asym' linorder_neqE)
qed

lemma key_encode_eq [simp]: "key_encode_u64 a = key_encode_u64 b \<longleftrightarrow> a = b"
  by (metis key_decode_encode)

section \<open>Bits\<close>

lemma bit_at_xor_merge:
  assumes "length a = length b" "i < 8 * length a"
  shows "bit_at (xor_merge a b) i \<longleftrightarrow> bit_at a i \<noteq> bit_at b i"
proof -
  have "i div 8 < length a" using assms(2) by (simp add: less_mult_imp_div_less mult.commute)
  with assms(1) show ?thesis by (simp add: bit_at_def xor_merge_def bit_xor_iff)
qed

lemma length_xor_merge [simp]: "length (xor_merge a b) = min (length a) (length b)"
  by (simp add: xor_merge_def)

lemma bit_at_flip:
  assumes "i < 8 * length p" "x < 8 * length p"
  shows "bit_at (p[i div 8 := p ! (i div 8) XOR push_bit (i mod 8) 1]) x \<longleftrightarrow> bit_at p x \<noteq> (x = i)"
proof (cases "x div 8 = i div 8")
  case True
  have "i div 8 < length p" using assms(1) by (simp add: less_mult_imp_div_less mult.commute)
  moreover have "bit (push_bit (i mod 8) (1::u8)) (x mod 8) \<longleftrightarrow> x mod 8 = i mod 8"
    by (simp add: bit_exp_iff possible_bit_def eq_commute)
  moreover have "x mod 8 = i mod 8 \<longleftrightarrow> x = i" using True by (metis mult_div_mod_eq)
  ultimately show ?thesis using True by (simp add: bit_at_def bit_xor_iff)
qed (auto simp: bit_at_def)

lemma flip_bits_exact:
  assumes "distinct is" "\<forall>i \<in> set is. i < 8 * length p"
  shows "\<exists>p'. flip_bits is p = Some p' \<and> length p' = length p \<and>
    (\<forall>x < 8 * length p. bit_at p' x \<longleftrightarrow> bit_at p x \<noteq> (x \<in> set is))"
  using assms
proof (induction "is" arbitrary: p)
  case (Cons i "is")
  let ?q = "p[i div 8 := p ! (i div 8) XOR push_bit (i mod 8) 1]"
  have i: "i < 8 * length p" "i div 8 < length p" using Cons.prems(2) by (auto simp: less_mult_imp_div_less mult.commute)
  obtain p' where "flip_bits is ?q = Some p'" "length p' = length p"
    "\<forall>x < 8 * length p. bit_at p' x \<longleftrightarrow> bit_at ?q x \<noteq> (x \<in> set is)"
    using Cons.IH [of ?q] Cons.prems by auto
  then show ?case using bit_at_flip [OF i(1)] Cons.prems(1) i(2) by auto
qed simp

lemma bit_at_ones: "i < 8 * n \<Longrightarrow> bit_at (replicate n 255) i"
proof -
  assume "i < 8 * n"
  then have "i div 8 < n" by (simp add: less_mult_imp_div_less mult.commute)
  moreover have "bit (255::u8) (i mod 8)"
  proof -
    have "(255::u8) = mask 8" by (simp add: mask_eq_exp_minus_1)
    then show ?thesis by (simp only: bit_mask_iff) (simp add: possible_bit_def)
  qed
  ultimately show ?thesis by (simp add: bit_at_def)
qed

lemma bit_at_zeros: "i < 8 * n \<Longrightarrow> \<not> bit_at (replicate n 0) i"
  by (simp add: bit_at_def less_mult_imp_div_less mult.commute)

section \<open>Geometry\<close>

text \<open>
  A manager that was created or initialised: blocks of \<open>2 ^ j\<close> bytes, rows of 128 blocks, a bitmap of whole rows
  that ends below \<open>2 ^ 64\<close>.
\<close>

definition fm_geom :: "FreelistManager \<Rightarrow> nat \<Rightarrow> bool" where
  "fm_geom fm j \<longleftrightarrow>
     fm_bytes_per_block fm = 2 ^ j \<and> j + 7 < 64 \<and> fm_blocks_per_key fm = 128 \<and>
     init_misc fm = fm \<and> \<not> fm_null_manager fm \<and>
     128 dvd unat (fm_blocks fm) \<and> unat (fm_blocks fm) * 2 ^ j < 2 ^ 64"

definition row_key :: "FreelistManager \<Rightarrow> nat \<Rightarrow> bytes" where
  "row_key fm i = key_encode_u64 (of_nat i * fm_bytes_per_key fm)"

lemma unat_and_mask:
  "unat (x AND NOT (2 ^ k - 1)) = unat (x::u64) - unat x mod 2 ^ k"
  "unat (x AND NOT (NOT (2 ^ k - 1))) = unat x mod 2 ^ k"
proof -
  have n: "NOT (2 ^ k - 1 :: u64) = - (2 ^ k)" by (simp add: minus_eq_not_minus_1)
  have m: "unat (take_bit k x) = unat x mod 2 ^ k"
    by (simp add: unsigned_take_bit_eq take_bit_eq_mod [of k "unat x"])
  show "unat (x AND NOT (2 ^ k - 1)) = unat x - unat x mod 2 ^ k"
    by (simp only: n and_minus_exp) (simp add: unat_sub take_bit_le_self m)
  show "unat (x AND NOT (NOT (2 ^ k - 1))) = unat x mod 2 ^ k"
    by (simp add: mask_eq_exp_minus_1 [symmetric] take_bit_eq_mask [symmetric] m)
qed

lemma geom_misc:
  assumes "fm_geom fm j"
  shows "fm_bytes_per_key fm = 2 ^ (j + 7)" "fm_block_mask fm = NOT (2 ^ j - 1)"
    "fm_key_mask fm = NOT (2 ^ (j + 7) - 1)" "fm_all_set_bl fm = replicate 16 255" "row_bytes fm = 16"
    "fm_bytes_per_block fm \<noteq> 0"
proof -
  have b: "fm_bytes_per_block fm = 2 ^ j" "fm_blocks_per_key fm = 128" "init_misc fm = fm" "j + 7 < 64"
    using assms by (auto simp: fm_geom_def)
  have r: "row_bytes fm = 16" by (simp add: row_bytes_def b)
  have i: "fm_all_set_bl fm = replicate (row_bytes fm) 255" "fm_block_mask fm = NOT (fm_bytes_per_block fm - 1)"
    "fm_bytes_per_key fm = fm_bytes_per_block fm * fm_blocks_per_key fm"
    "fm_key_mask fm = NOT (fm_bytes_per_block fm * fm_blocks_per_key fm - 1)"
    using arg_cong [OF b(3), of fm_all_set_bl] arg_cong [OF b(3), of fm_block_mask]
      arg_cong [OF b(3), of fm_bytes_per_key] arg_cong [OF b(3), of fm_key_mask]
    by (simp_all add: init_misc_def Let_def row_bytes_def)
  have e: "(2::u64) ^ j * 128 = 2 ^ (j + 7)" by (simp add: power_add)
  show "fm_bytes_per_key fm = 2 ^ (j + 7)" "fm_block_mask fm = NOT (2 ^ j - 1)"
    "fm_key_mask fm = NOT (2 ^ (j + 7) - 1)" "fm_all_set_bl fm = replicate 16 255" "row_bytes fm = 16"
    using i r b(1,2) e by simp_all
  show "fm_bytes_per_block fm \<noteq> 0" using b(1,4) unat_exp_u64 [of j] by (auto simp: unat_eq_0)
qed

text \<open>The address of a block, and the key of the row it is in.\<close>

definition addr :: "nat \<Rightarrow> nat \<Rightarrow> u64" where
  "addr j b = of_nat (b * 2 ^ j)"

lemma unat_addr: "b * 2 ^ j < 2 ^ 64 \<Longrightarrow> unat (addr j b) = b * 2 ^ j"
  unfolding addr_def by (subst unsigned_of_nat) (simp add: take_bit_nat_eq_self)

lemma addr_unat: "unat x = b * 2 ^ j \<Longrightarrow> x = addr j b"
  by (metis addr_def of_nat_unat ucast_id)

lemma addr_row: "addr j (i * 128) = of_nat i * 2 ^ (j + 7)"
  by (simp add: addr_def power_add)

lemma row_key_addr: "fm_geom fm j \<Longrightarrow> row_key fm i = key_encode_u64 (addr j (i * 128))"
  by (simp add: row_key_def geom_misc addr_row)

lemma addr_add: "addr j a + addr j b = addr j (a + b)"
  by (simp add: addr_def distrib_right)

lemma addr_less: "a * 2 ^ j < 2 ^ 64 \<Longrightarrow> b * 2 ^ j < 2 ^ 64 \<Longrightarrow> addr j a < addr j b \<longleftrightarrow> a < b"
  by (simp add: word_less_nat_alt unat_addr)

lemma row_of_addr:
  assumes "fm_geom fm j" "b * 2 ^ j < 2 ^ 64" "unat x = b * 2 ^ j + r" "r < 2 ^ j"
  shows "x AND fm_key_mask fm = addr j (b div 128 * 128)" "row_pos fm x = b mod 128"
proof -
  have m: "unat x mod 2 ^ (j + 7) = (b mod 128) * 2 ^ j + r"
  proof -
    have "b mod 128 * 2 ^ j \<le> 127 * 2 ^ j" by (intro mult_le_mono1) simp
    then have "b mod 128 * 2 ^ j + r < 128 * 2 ^ j" using assms(4) by linarith
    then have lt: "b mod 128 * 2 ^ j + r < 2 ^ (j + 7)" by (simp add: power_add)
    have "unat x = (b div 128) * 2 ^ (j + 7) + (b mod 128 * 2 ^ j + r)"
    proof -
      have "b * 2 ^ j = b div 128 * 128 * 2 ^ j + b mod 128 * 2 ^ j"
        by (metis distrib_right div_mult_mod_eq)
      moreover have "(2::nat) ^ (j + 7) = 128 * 2 ^ j" by (simp add: power_add)
      ultimately show ?thesis using assms(3) by simp
    qed
    then show ?thesis using lt by simp
  qed
  have "b * 2 ^ j - (b mod 128) * 2 ^ j = b div 128 * 128 * 2 ^ j"
    by (metis diff_mult_distrib minus_mod_eq_div_mult)
  then have "unat (x AND fm_key_mask fm) = b div 128 * 128 * 2 ^ j"
    using m assms(3) by (simp add: geom_misc [OF assms(1)] unat_and_mask)
  then show "x AND fm_key_mask fm = addr j (b div 128 * 128)" by (rule addr_unat)
  have bpb: "fm_bytes_per_block fm = 2 ^ j" "j < 64" using assms(1) by (auto simp: fm_geom_def)
  have "unat ((x AND NOT (fm_key_mask fm)) div fm_bytes_per_block fm) = ((b mod 128) * 2 ^ j + r) div 2 ^ j"
    by (simp only: unat_div geom_misc(3) [OF assms(1)] unat_and_mask m bpb unat_exp_u64)
  also have "\<dots> = b mod 128" using assms(4) by simp
  finally show "row_pos fm x = b mod 128"
    by (simp add: row_pos_def unat_ucast_64_32)
qed

section \<open>The transaction of a change\<close>

definition row_masks :: "FreelistManager \<Rightarrow> (nat \<Rightarrow> bytes) \<Rightarrow> nat list \<Rightarrow> db_txn" where
  "row_masks fm m is = map (\<lambda>i. MERGE (fm_bitmap_prefix fm) (row_key fm i) (m i)) is"

text \<open>The mask of a row holds the bits of the blocks \<open>o\<close> to \<open>o + l\<close>.\<close>

definition masks_run :: "nat \<Rightarrow> nat \<Rightarrow> nat \<Rightarrow> bytes \<Rightarrow> bool" where
  "masks_run a b i m \<longleftrightarrow> length m = 16 \<and> (\<forall>x < 128. bit_at m x \<longleftrightarrow> a \<le> 128 * i + x \<and> 128 * i + x < b)"

lemma merge_mask_run:
  assumes g: "fm_geom fm j" and r: "s \<le> e" "e \<le> 128"
  shows "\<exists>m. merge_mask fm (addr j (i * 128)) [s ..< e] txn = Some (txn @ row_masks fm (\<lambda>_. m) [i]) \<and>
    length m = 16 \<and> (\<forall>x < 128. bit_at m x \<longleftrightarrow> s \<le> x \<and> x < e)"
proof -
  have "\<exists>p'. flip_bits [s ..< e] (replicate 16 0) = Some p' \<and> length p' = length (replicate 16 (0::u8)) \<and>
    (\<forall>x < 8 * length (replicate 16 (0::u8)). bit_at p' x \<longleftrightarrow> bit_at (replicate 16 0) x \<noteq> (x \<in> set [s ..< e]))"
    by (rule flip_bits_exact) (use r in auto)
  then show ?thesis
    by (auto simp: merge_mask_def geom_misc [OF g] txn_merge_def row_masks_def row_key_addr [OF g] bit_at_zeros)
qed

lemma xor_middle_rows:
  assumes g: "fm_geom fm j" and r: "i \<le> n" "n * 128 * 2 ^ j < 2 ^ 64"
  shows "xor_middle fm (addr j (i * 128)) (addr j (n * 128)) txn =
    Some (addr j (n * 128), txn @ row_masks fm (\<lambda>_. replicate 16 255) [i ..< n])"
  using r
proof (induction "n - i" arbitrary: i txn)
  case 0
  then show ?case by (subst xor_middle.simps) (simp add: row_masks_def)
next
  case (Suc d)
  then have lt: "i < n" by simp
  have "i * 128 * 2 ^ j \<le> n * 128 * 2 ^ j" using lt by (intro mult_le_mono1) simp
  from addr_less [OF le_less_trans [OF this Suc.prems(2)] Suc.prems(2)]
  have "addr j (i * 128) < addr j (n * 128)" using lt by simp
  moreover have "addr j (i * 128) + fm_bytes_per_key fm = addr j (Suc i * 128)"
  proof -
    have "fm_bytes_per_key fm = addr j 128" by (simp add: geom_misc [OF g] addr_def power_add)
    then show ?thesis by (simp add: addr_add add.commute)
  qed
  moreover have "d = n - Suc i" "Suc i \<le> n" using Suc.hyps(2) by simp_all
  moreover note Suc.hyps(1) [of "Suc i" "txn_merge (fm_bitmap_prefix fm) (key_encode_u64 (addr j (i * 128))) (fm_all_set_bl fm) txn"]
  ultimately show ?case using Suc.prems(2) lt
    by (subst xor_middle.simps)
       (simp add: txn_merge_def geom_misc [OF g] row_masks_def row_key_addr [OF g] upt_conv_Cons)
qed

lemma run_arith:
  fixes b l p q u v x :: nat
  assumes "b = 128 * p + u" "b + l - 1 = 128 * q + v" "0 < l" "u < 128" "v < 128"
  shows "p = q \<Longrightarrow> (u \<le> x \<and> x < v + 1) \<longleftrightarrow> (b \<le> 128 * p + x \<and> 128 * p + x < b + l)"
    "p < q \<Longrightarrow> x < 128 \<Longrightarrow> u \<le> x \<longleftrightarrow> (b \<le> 128 * p + x \<and> 128 * p + x < b + l)"
    "p < q \<Longrightarrow> x \<le> v \<longleftrightarrow> (b \<le> 128 * q + x \<and> 128 * q + x < b + l)"
    "p < i \<Longrightarrow> i < q \<Longrightarrow> x < 128 \<Longrightarrow> b \<le> 128 * i + x \<and> 128 * i + x < b + l"
  using assms by linarith+

lemma fm_xor_masks:
  assumes g: "fm_geom fm j" and l: "0 < l" "(b + l) * 2 ^ j < 2 ^ 64"
  shows "\<exists>m. fm_xor fm (addr j b) (addr j l) txn =
      Some (txn @ row_masks fm m [b div 128 ..< Suc ((b + l - 1) div 128)]) \<and>
    (\<forall>i \<in> {b div 128 .. (b + l - 1) div 128}. masks_run b (b + l) i (m i))"
proof -
  let ?p = "b div 128" and ?q = "(b + l - 1) div 128"
  have b: "b * 2 ^ j < 2 ^ 64" "l * 2 ^ j < 2 ^ 64" "(b + l - 1) * 2 ^ j < 2 ^ 64"
    using l(2) by (auto simp: distrib_right diff_mult_distrib)
  have last: "unat (addr j b + addr j l - 1) = (b + l - 1) * 2 ^ j + (2 ^ j - 1)"
  proof -
    have "unat (addr j (b + l) - 1) = (b + l) * 2 ^ j - 1"
      using l unat_addr [OF l(2)] by (subst unat_sub_le) (auto simp: word_le_nat_alt)
    also have "\<dots> = (b + l - 1) * 2 ^ j + (2 ^ j - 1)"
    proof -
      have "(b + l) * 2 ^ j = (b + l - 1) * 2 ^ j + 2 ^ j" using l(1) by (metis Suc_diff_1 add_gr_0 mult_Suc add.commute)
      then show ?thesis by simp
    qed
    finally show ?thesis by (simp add: addr_add)
  qed
  have align: "addr j c AND fm_block_mask fm = addr j c" if "c * 2 ^ j < 2 ^ 64" for c
    by (rule addr_unat) (simp add: geom_misc [OF g] unat_and_mask unat_addr [OF that])
  note first_row = row_of_addr [OF g b(1), of "addr j b" 0]
  note last_row = row_of_addr [OF g b(3) last]
  have keys: "addr j b AND fm_key_mask fm = addr j (?p * 128)" "row_pos fm (addr j b) = b mod 128"
    "(addr j b + addr j l - 1) AND fm_key_mask fm = addr j (?q * 128)" "row_pos fm (addr j b + addr j l - 1) = (b + l - 1) mod 128"
    using first_row last_row unat_addr [OF b(1)] by simp_all
  have pq: "?p \<le> ?q" using l(1) by (intro div_le_mono) simp
  have qb: "?q * 128 * 2 ^ j < 2 ^ 64"
    by (rule le_less_trans [OF mult_le_mono1 b(3)]) simp
  have bp: "fm_blocks_per_key fm = 128" using g by (simp add: fm_geom_def)
  have dm: "b = 128 * ?p + b mod 128" "b + l - 1 = 128 * ?q + (b + l - 1) mod 128" by simp_all
  have u: "b mod 128 < 128" "(b + l - 1) mod 128 < 128" by simp_all
  note run = run_arith [OF dm l(1) u]
  have e: "(b + l - 1) mod 128 + 1 \<le> 128" using mod_less_divisor [of 128 "b + l - 1"] by linarith
  show ?thesis
  proof (cases "?p = ?q")
    case True
    have "b mod 128 \<le> (b + l - 1) mod 128 + 1" using True dm l(1) by linarith
    from merge_mask_run [OF g this e, of ?p txn] obtain m where
      m: "merge_mask fm (addr j (?p * 128)) [b mod 128 ..< (b + l - 1) mod 128 + 1] txn = Some (txn @ row_masks fm (\<lambda>_. m) [?p])"
      "length m = 16" "\<forall>x < 128. bit_at m x \<longleftrightarrow> b mod 128 \<le> x \<and> x < (b + l - 1) mod 128 + 1"
      by blast
    have "masks_run b (b + l) ?p m"
      unfolding masks_run_def using m(2,3) run(1) [OF True] by blast
    then show ?thesis using m(1) True keys
      by (intro exI [of _ "\<lambda>_. m"]) (simp add: fm_xor_def align [OF b(1)] align [OF b(2)] geom_misc(6) [OF g] Let_def)
  next
    case False
    with pq have lt: "?p < ?q" by simp
    have sp: "addr j (?p * 128) \<noteq> addr j (?q * 128)"
    proof -
      have "?p * 128 * 2 ^ j < ?q * 128 * 2 ^ j" using lt by simp
      with addr_less [OF less_trans [OF this qb] qb] lt show ?thesis by simp
    qed
    obtain m1 where m1: "merge_mask fm (addr j (?p * 128)) [b mod 128 ..< 128] txn = Some (txn @ row_masks fm (\<lambda>_. m1) [?p])"
      "length m1 = 16" "\<forall>x < 128. bit_at m1 x \<longleftrightarrow> b mod 128 \<le> x"
      using merge_mask_run [OF g, of "b mod 128" 128 ?p txn] by auto
    define txn1 where "txn1 = txn @ row_masks fm (\<lambda>_. m1) [?p]"
    define txn2 where "txn2 = txn1 @ row_masks fm (\<lambda>_. replicate 16 255) [Suc ?p ..< ?q]"
    have mid: "xor_middle fm (addr j (?p * 128) + fm_bytes_per_key fm) (addr j (?q * 128)) txn1 = Some (addr j (?q * 128), txn2)"
    proof -
      have "fm_bytes_per_key fm = addr j 128" by (simp add: geom_misc [OF g] addr_def power_add)
      then have "addr j (?p * 128) + fm_bytes_per_key fm = addr j (Suc ?p * 128)" by (simp add: addr_add add.commute)
      with xor_middle_rows [OF g, of "Suc ?p" ?q txn1] lt qb show ?thesis by (simp add: txn2_def)
    qed
    obtain m2 where m2: "merge_mask fm (addr j (?q * 128)) [0 ..< (b + l - 1) mod 128 + 1] txn2 = Some (txn2 @ row_masks fm (\<lambda>_. m2) [?q])"
      "length m2 = 16" "\<forall>x < 128. bit_at m2 x \<longleftrightarrow> x \<le> (b + l - 1) mod 128"
      using merge_mask_run [OF g _ e, of 0 ?q txn2] by (auto simp: less_Suc_eq_le simp del: upt_Suc)
    let ?m = "\<lambda>i. if i = ?p then m1 else if i = ?q then m2 else replicate 16 255"
    have "[?p ..< Suc ?q] = ?p # [Suc ?p ..< ?q] @ [?q]" using lt by (simp add: upt_conv_Cons)
    then have "txn2 @ row_masks fm (\<lambda>_. m2) [?q] = txn @ row_masks fm ?m [?p ..< Suc ?q]"
      using lt by (simp add: txn2_def txn1_def row_masks_def)
    moreover have "masks_run b (b + l) i (?m i)" if i: "i \<in> {?p .. ?q}" for i
    proof -
      consider "i = ?p" | "i = ?q" | "?p < i" "i < ?q" using i by force
      then show ?thesis
      proof cases
        case 1
        with m1(2,3) run(2) [OF lt] show ?thesis unfolding masks_run_def by auto
      next
        case 2
        with m2(2,3) run(3) [OF lt] lt show ?thesis unfolding masks_run_def by auto
      next
        case 3
        with run(4) [of i] show ?thesis using bit_at_ones [of _ 16] by (simp add: masks_run_def)
      qed
    qed
    moreover have "fm_xor fm (addr j b) (addr j l) txn = Some (txn2 @ row_masks fm (\<lambda>_. m2) [?q])"
      using m1(1) m2(1) mid sp keys
      by (simp add: fm_xor_def align [OF b(1)] align [OF b(2)] geom_misc(6) [OF g] Let_def bp txn1_def)
    ultimately show ?thesis by (intro exI [of _ ?m]) simp
  qed
qed

section \<open>The database under the bitmap\<close>

text \<open>
  What the manager relies on: a merge into a key space with the XOR operator combines the stored row, if there is
  one, with the mask, and touches no other key. \<open>ready p db\<close> says that key space \<open>p\<close> has the operator.
\<close>

locale xor_store =
  fixes submit :: "db_txn \<Rightarrow> 'db \<Rightarrow> int \<times> 'db"
    and rows :: "'db \<Rightarrow> bytes \<Rightarrow> bytes \<Rightarrow> bytes option"
    and ready :: "bytes \<Rightarrow> 'db \<Rightarrow> bool"
  assumes submit_nil: "submit [] db = (0, db)"
    and submit_merge: "ready p db \<Longrightarrow> \<exists>db'. submit (MERGE p k m # t) db = submit t db' \<and> ready p db' \<and>
      (\<forall>q l. nul_free q \<longrightarrow> rows db' q l = (if q = p \<and> l = k
         then Some (case rows db p k of None \<Rightarrow> m | Some v \<Rightarrow> xor_merge v m) else rows db q l))"
    and ready_prefix: "ready p db \<Longrightarrow> nul_free p"
begin

lemma submit_masks:
  assumes "ready p db" "distinct (map key is)"
  shows "\<exists>db'. submit (map (\<lambda>i. MERGE p (key i) (m i)) is) db = (0, db') \<and> ready p db' \<and>
    (\<forall>q l. nul_free q \<longrightarrow> q \<noteq> p \<or> l \<notin> key ` set is \<longrightarrow> rows db' q l = rows db q l) \<and>
    (\<forall>i \<in> set is. rows db' p (key i) =
       Some (case rows db p (key i) of None \<Rightarrow> m i | Some v \<Rightarrow> xor_merge v (m i)))"
  using assms
proof (induction "is" arbitrary: db)
  case Nil
  then show ?case by (simp add: submit_nil)
next
  case (Cons i "is")
  obtain db1 where db1: "submit (MERGE p (key i) (m i) # map (\<lambda>i. MERGE p (key i) (m i)) is) db =
      submit (map (\<lambda>i. MERGE p (key i) (m i)) is) db1" "ready p db1"
    "\<forall>q l. nul_free q \<longrightarrow> rows db1 q l = (if q = p \<and> l = key i
         then Some (case rows db p (key i) of None \<Rightarrow> m i | Some v \<Rightarrow> xor_merge v (m i)) else rows db q l)"
    using submit_merge [OF Cons.prems(1)] by blast
  obtain db2 where db2: "submit (map (\<lambda>i. MERGE p (key i) (m i)) is) db1 = (0, db2)" "ready p db2"
    "\<forall>q l. nul_free q \<longrightarrow> q \<noteq> p \<or> l \<notin> key ` set is \<longrightarrow> rows db2 q l = rows db1 q l"
    "\<forall>i \<in> set is. rows db2 p (key i) =
       Some (case rows db1 p (key i) of None \<Rightarrow> m i | Some v \<Rightarrow> xor_merge v (m i))"
    using Cons.IH [OF db1(2)] Cons.prems(2) by auto
  have nf: "nul_free p" by (rule ready_prefix [OF Cons.prems(1)])
  have i: "key i \<notin> key ` set is" using Cons.prems(2) by simp
  have ne: "key x \<noteq> key i" if "x \<in> set is" for x using i that by (metis imageI)
  have old: "rows db1 p (key x) = rows db p (key x)" if "x \<in> set is" for x
    using db1(3) nf ne [OF that] by simp
  have "rows db2 q l = rows db q l" if "nul_free q" "q \<noteq> p \<or> l \<notin> key ` set (i # is)" for q l
    using db2(3) db1(3) that by auto
  moreover have "rows db2 p (key x) = Some (case rows db p (key x) of None \<Rightarrow> m x | Some v \<Rightarrow> xor_merge v (m x))"
    if "x \<in> set (i # is)" for x
  proof (cases "x \<in> set is")
    case True
    with db2(4) old show ?thesis by simp
  next
    case False
    with that have xi: "x = i" by simp
    show ?thesis unfolding xi using db2(3) db1(3) nf i by simp
  qed
  moreover have "submit (map (\<lambda>i. MERGE p (key i) (m i)) (i # is)) db = (0, db2)"
    using db1(1) db2(1) by simp
  ultimately show ?case using db2(2) by blast
qed

end

definition xor_ready :: "bytes \<Rightarrow> MemDB \<Rightarrow> bool" where
  "xor_ready p db \<longleftrightarrow> md_ok db \<and> nul_free p \<and> find_merge_op p db = Some XorMergeOperator"

interpretation memdb: xor_store submit_transaction content xor_ready
proof unfold_locales
  fix p k m :: bytes and t and db :: MemDB
  assume r: "xor_ready p db"
  define v where "v = (case content db p k of None \<Rightarrow> m | Some l \<Rightarrow> xor_merge l m)"
  have "md_merge p (encode_key p k) m db = (0, set_key (encode_key p k) v db)"
    using r by (simp add: md_merge_def xor_ready_def XorMergeOperator_def v_def content_def Let_def split: option.splits)
  then have "submit_transaction (MERGE p k m # t) db = submit_transaction t (set_key (encode_key p k) v db)"
    by (simp add: run_op_def)
  moreover have "xor_ready p (set_key (encode_key p k) v db)"
    using r find_merge_op_cong [OF set_key_ops, of p "encode_key p k" v db] by (simp add: xor_ready_def)
  ultimately show "\<exists>db'. submit_transaction (MERGE p k m # t) db = submit_transaction t db' \<and> xor_ready p db' \<and>
      (\<forall>q l. nul_free q \<longrightarrow> content db' q l = (if q = p \<and> l = k
         then Some (case content db p k of None \<Rightarrow> m | Some v \<Rightarrow> xor_merge v m) else content db q l))"
    using r by (intro exI [of _ "set_key (encode_key p k) v db"]) (auto simp: xor_ready_def v_def)
qed (auto simp: xor_ready_def)

section \<open>Blocks in use\<close>

text \<open>A block is in use when its bit is set; a row that is not stored has no bit set.\<close>

definition used :: "MemDB \<Rightarrow> FreelistManager \<Rightarrow> nat \<Rightarrow> bool" where
  "used db fm b = (case content db (fm_bitmap_prefix fm) (row_key fm (b div 128)) of
                     None \<Rightarrow> False | Some v \<Rightarrow> bit_at v (b mod 128))"

definition bitmap_ok :: "MemDB \<Rightarrow> FreelistManager \<Rightarrow> bool" where
  "bitmap_ok db fm \<longleftrightarrow> xor_ready (fm_bitmap_prefix fm) db \<and>
     (\<forall>k v. content db (fm_bitmap_prefix fm) k = Some v \<longrightarrow>
        length v = 16 \<and> (\<exists>i. 128 * i < unat (fm_blocks fm) \<and> k = row_key fm i))"

lemma row_key_inj:
  assumes "fm_geom fm j" "i * 128 * 2 ^ j < 2 ^ 64" "i' * 128 * 2 ^ j < 2 ^ 64"
  shows "row_key fm i = row_key fm i' \<longleftrightarrow> i = i'"
proof -
  have "i = i'" if "addr j (i * 128) = addr j (i' * 128)"
  proof -
    have "i * 128 * 2 ^ j = i' * 128 * 2 ^ j"
      using arg_cong [OF that, of unat] unat_addr [OF assms(2)] unat_addr [OF assms(3)] by argo
    then show ?thesis by simp
  qed
  then show ?thesis by (simp only: row_key_addr [OF assms(1)] key_encode_eq) blast
qed

lemma submit_change:
  assumes g: "fm_geom fm j" and ok: "bitmap_ok db fm"
    and l: "0 < l" "b + l \<le> unat (fm_blocks fm)"
  shows "\<exists>ms db'. fm_xor fm (addr j b) (addr j l) txn = Some (txn @ ms) \<and> submit_transaction ms db = (0, db') \<and>
    bitmap_ok db' fm \<and>
    (\<forall>q k. nul_free q \<longrightarrow> q \<noteq> fm_bitmap_prefix fm \<longrightarrow> content db' q k = content db q k) \<and>
    (\<forall>x < unat (fm_blocks fm). used db' fm x \<longleftrightarrow> used db fm x \<noteq> (b \<le> x \<and> x < b + l))"
proof -
  let ?p = "fm_bitmap_prefix fm" and ?N = "unat (fm_blocks fm)"
  let ?is = "[b div 128 ..< Suc ((b + l - 1) div 128)]"
  have N: "?N * 2 ^ j < 2 ^ 64" "128 dvd ?N" using g by (auto simp: fm_geom_def)
  have "(b + l) * 2 ^ j < 2 ^ 64" by (rule le_less_trans [OF mult_le_mono1 N(1)]) (rule l(2))
  from fm_xor_masks [OF g l(1) this, of txn] obtain m where
    m: "fm_xor fm (addr j b) (addr j l) txn = Some (txn @ row_masks fm m ?is)"
    "\<forall>i \<in> set ?is. masks_run b (b + l) i (m i)" by (auto simp: less_Suc_eq_le simp del: upt_Suc)
  have row: "128 * i < ?N" if "i \<in> set ?is" for i using that l by auto
  have inr: "i * 128 * 2 ^ j < 2 ^ 64" if "128 * i < ?N" for i
    by (rule le_less_trans [OF mult_le_mono1 N(1)]) (use that in simp)
  have inj: "row_key fm i = row_key fm i' \<longleftrightarrow> i = i'" if "128 * i < ?N" "128 * i' < ?N" for i i'
    using row_key_inj [OF g inr inr] that by blast
  have dist: "distinct (map (row_key fm) ?is)"
    by (simp only: distinct_map distinct_upt) (use inj row in \<open>auto simp: inj_on_def simp del: upt_Suc\<close>)
  have nf: "nul_free ?p" and rdy: "xor_ready ?p db" using ok by (auto simp: bitmap_ok_def xor_ready_def)
  from memdb.submit_masks [OF rdy dist, of m] obtain db' where
    s: "submit_transaction (row_masks fm m ?is) db = (0, db')" "xor_ready ?p db'"
    "\<And>q k. nul_free q \<Longrightarrow> q \<noteq> ?p \<or> k \<notin> row_key fm ` set ?is \<Longrightarrow> content db' q k = content db q k"
    "\<And>i. i \<in> set ?is \<Longrightarrow> content db' ?p (row_key fm i) =
       Some (case content db ?p (row_key fm i) of None \<Rightarrow> m i | Some v \<Rightarrow> xor_merge v (m i))"
    unfolding row_masks_def by blast
  have len: "length v = 16" if "content db ?p k = Some v" for k v using ok that by (auto simp: bitmap_ok_def)
  have mlen: "length (m i) = 16" if "i \<in> set ?is" for i using m(2) that by (auto simp: masks_run_def)
  have "length v = 16 \<and> (\<exists>i. 128 * i < ?N \<and> k = row_key fm i)" if k: "content db' ?p k = Some v" for k v
  proof (cases "k \<in> row_key fm ` set ?is")
    case True
    then obtain i where i: "i \<in> set ?is" "k = row_key fm i" by blast
    with s(4) [OF i(1)] k len mlen [OF i(1)] row [OF i(1)] show ?thesis by (auto split: option.splits)
  next
    case False
    with s(3) [OF nf, of k] k have "content db ?p k = Some v" by simp
    with ok show ?thesis unfolding bitmap_ok_def by blast
  qed
  then have "bitmap_ok db' fm" using s(2) by (simp add: bitmap_ok_def)
  moreover have "used db' fm x \<longleftrightarrow> used db fm x \<noteq> (b \<le> x \<and> x < b + l)" if x: "x < ?N" for x
  proof (cases "x div 128 \<in> set ?is")
    case True
    have "masks_run b (b + l) (x div 128) (m (x div 128))" using m(2) True by blast
    then have "bit_at (m (x div 128)) (x mod 128) \<longleftrightarrow> b \<le> 128 * (x div 128) + x mod 128 \<and> 128 * (x div 128) + x mod 128 < b + l"
      unfolding masks_run_def by simp
    then have mb: "bit_at (m (x div 128)) (x mod 128) \<longleftrightarrow> b \<le> x \<and> x < b + l"
      by (simp only: mult_div_mod_eq)
    show ?thesis
    proof (cases "content db ?p (row_key fm (x div 128))")
      case None
      with s(4) [OF True] mb show ?thesis by (simp add: used_def)
    next
      case (Some v)
      have "bit_at (xor_merge v (m (x div 128))) (x mod 128) \<longleftrightarrow> bit_at v (x mod 128) \<noteq> bit_at (m (x div 128)) (x mod 128)"
        by (rule bit_at_xor_merge) (simp_all add: len [OF Some] mlen [OF True])
      with s(4) [OF True] mb Some show ?thesis by (simp add: used_def)
    qed
  next
    case False
    have "row_key fm (x div 128) \<notin> row_key fm ` set ?is"
    proof
      assume "row_key fm (x div 128) \<in> row_key fm ` set ?is"
      then obtain i where "i \<in> set ?is" "row_key fm (x div 128) = row_key fm i" by blast
      moreover have "128 * (x div 128) < ?N" using x by linarith
      ultimately show False using inj row False by metis
    qed
    moreover have "\<not> (b \<le> x \<and> x < b + l)"
    proof
      assume "b \<le> x \<and> x < b + l"
      then have "b div 128 \<le> x div 128" "x div 128 \<le> (b + l - 1) div 128" by (auto intro: div_le_mono)
      with False show False by simp
    qed
    ultimately show ?thesis using s(3) [OF nf] by (simp add: used_def)
  qed
  ultimately show ?thesis using m(1) s(1,3) by blast
qed

end
