(* ===== verification/Freelist_Enum.thy ===== *)
theory Freelist_Enum
  imports Freelist_Correct
begin

text \<open>
  The enumeration of the free space: what the two searches of \<open>enumerate_next\<close> find, the position of the cursor
  between two calls, and the list of ranges a client obtains, which is the list of all maximal runs of free blocks.
\<close>

section \<open>Searching a row\<close>

lemma find_upt:
  "(case find P [a ..< b] of None \<Rightarrow> \<forall>x. a \<le> x \<and> x < b \<longrightarrow> \<not> P x
    | Some x \<Rightarrow> a \<le> x \<and> x < b \<and> P x \<and> (\<forall>y. a \<le> y \<and> y < x \<longrightarrow> \<not> P y))"
proof (cases "find P [a ..< b]")
  case None
  then have "\<forall>x. a \<le> x \<and> x < b \<longrightarrow> \<not> P x" by (auto simp: find_None_iff)
  with None show ?thesis by simp
next
  case (Some x)
  then obtain i where i: "i < b - a" "P (a + i)" "x = a + i" "\<forall>k < i. \<not> P (a + k)"
    by (auto simp: find_Some_iff)
  have "\<not> P y" if "a \<le> y" "y < x" for y using i(3,4) that by (metis add_less_cancel_left le_Suc_ex)
  with i Some show ?thesis by auto
qed

lemma next_clear_bit:
  assumes "length bl = 16" "0 \<le> pos"
  obtains (found) x where "get_next_clear_bit bl pos = int x" "nat pos \<le> x" "x < 128" "\<not> bit_at bl x"
      "\<forall>y. nat pos \<le> y \<and> y < x \<longrightarrow> bit_at bl y"
  | (none) "get_next_clear_bit bl pos = - 1" "\<forall>y. nat pos \<le> y \<and> y < 128 \<longrightarrow> bit_at bl y"
  using find_upt [where P = "\<lambda>i. \<not> bit_at bl i" and a = "nat pos" and b = 128] assms
  by (auto simp: get_next_clear_bit_def split: option.splits)

lemma next_set_bit:
  assumes "length bl = 16" "0 \<le> pos"
  obtains (found) x where "get_next_set_bit bl pos = int x" "nat pos \<le> x" "x < 128" "bit_at bl x"
      "\<forall>y. nat pos \<le> y \<and> y < x \<longrightarrow> \<not> bit_at bl y"
  | (none) "get_next_set_bit bl pos = - 1" "\<forall>y. nat pos \<le> y \<and> y < 128 \<longrightarrow> \<not> bit_at bl y"
  using find_upt [where P = "bit_at bl" and a = "nat pos" and b = 128] assms
  by (auto simp: get_next_set_bit_def split: option.splits)

section \<open>The cursor\<close>

type_synonym rows = "(nat \<times> bytes) list"

definition row_entries :: "FreelistManager \<Rightarrow> rows \<Rightarrow> (bytes \<times> bytes) list" where
  "row_entries fm rs = map (\<lambda>(i, v). (row_key fm i, v)) rs"

text \<open>The set bits of rows.\<close>

definition row_used :: "rows \<Rightarrow> nat \<Rightarrow> bool" where
  "row_used rs b \<longleftrightarrow> (\<exists>v. (b div 128, v) \<in> set rs \<and> bit_at v (b mod 128))"

definition rows_ok :: "FreelistManager \<Rightarrow> rows \<Rightarrow> bool" where
  "rows_ok fm rs \<longleftrightarrow> sorted_wrt (\<lambda>a b. fst a < fst b) rs \<and>
     (\<forall>r \<in> set rs. 128 * fst r < unat (fm_blocks fm) \<and> length (snd r) = 16)"

text \<open>
  The cursor stands at block \<open>p\<close>: the iterator at the row of the cursor, the rest of the rows still to come, and
  \<open>use\<close> tells the blocks in use from \<open>p\<close> on.
\<close>

definition enum_at :: "FreelistManager \<Rightarrow> nat \<Rightarrow> (nat \<Rightarrow> bool) \<Rightarrow> fm_cursor \<Rightarrow> rows \<Rightarrow> nat \<Rightarrow> bool" where
  "enum_at fm j use c rs p \<longleftrightarrow> (case c of (it, off, bl, pos) \<Rightarrow>
     \<exists>i rest. rs = (i, bl) # rest \<and> pi_rows it = row_entries fm rs \<and> rows_ok fm rs \<and>
       off = addr j (128 * i) \<and> 0 \<le> pos \<and> pos \<le> 128 \<and> p = 128 * i + nat pos \<and>
       (\<forall>b \<ge> p. use b \<longleftrightarrow> row_used rs b))"

lemma rows_ok_Cons: "rows_ok fm ((i, v) # rs) \<longleftrightarrow>
  (\<forall>r \<in> set rs. i < fst r) \<and> 128 * i < unat (fm_blocks fm) \<and> length v = 16 \<and> rows_ok fm rs"
  by (auto simp: rows_ok_def)

lemma row_used_hd:
  assumes "rows_ok fm ((i, v) # rs)" "x < 128"
  shows "row_used ((i, v) # rs) (128 * i + x) \<longleftrightarrow> bit_at v x"
  using assms by (auto simp: row_used_def rows_ok_Cons)

lemma row_used_tl:
  assumes "rows_ok fm ((i, v) # rs)" "128 * (i + 1) \<le> b"
  shows "row_used ((i, v) # rs) b \<longleftrightarrow> row_used rs b"
proof -
  have "b div 128 \<noteq> i" using assms(2) by auto
  then show ?thesis by (auto simp: row_used_def)
qed

lemma row_used_gap:
  assumes "rows_ok fm ((i, v) # rs)" "b < 128 * i"
  shows "\<not> row_used ((i, v) # rs) b"
  using assms by (auto simp: row_used_def rows_ok_Cons)

lemma row_used_bound: "rows_ok fm rs \<Longrightarrow> fm_geom fm j \<Longrightarrow> row_used rs b \<Longrightarrow> b < unat (fm_blocks fm)"
proof -
  assume a: "rows_ok fm rs" "fm_geom fm j" "row_used rs b"
  then obtain k where "unat (fm_blocks fm) = 128 * k" by (auto simp: fm_geom_def)
  with a show ?thesis by (force simp: rows_ok_def row_used_def)
qed

lemma cursor_step:
  assumes g: "fm_geom fm j" and at: "enum_at fm j use (it, off, bl, pos) ((i, bl) # rest) p"
  defines "it1 \<equiv> snd (pi_next it)"
  shows "pi_rows it1 = row_entries fm rest" "pi_valid it1 \<longleftrightarrow> rest \<noteq> []"
    "off + fm_bytes_per_key fm = addr j (128 * (i + 1))"
    "rest = (i1, v1) # rest1 \<Longrightarrow> key_decode_u64 (pi_key it1) = addr j (128 * i1)"
    "rest = (i1, v1) # rest1 \<Longrightarrow> pi_value it1 = v1"
    "rest = (i1, v1) # rest1 \<Longrightarrow> enum_at fm j use (it1, addr j (128 * i1), v1, 0) rest (128 * i1)"
proof -
  have r: "pi_rows it = row_entries fm ((i, bl) # rest)" and ok: "rows_ok fm ((i, bl) # rest)"
    and p: "off = addr j (128 * i)" "p = 128 * i + nat pos" "pos \<le> 128" "\<forall>b \<ge> p. use b \<longleftrightarrow> row_used ((i, bl) # rest) b"
    using at by (auto simp: enum_at_def)
  show rows: "pi_rows it1 = row_entries fm rest"
    using pi_next_rows [of it] r by (simp add: it1_def row_entries_def)
  show v: "pi_valid it1 \<longleftrightarrow> rest \<noteq> []" by (simp add: pi_valid_rows rows row_entries_def)
  have "fm_bytes_per_key fm = addr j 128" by (simp add: geom_misc [OF g] addr_def power_add)
  then show "off + fm_bytes_per_key fm = addr j (128 * (i + 1))" by (simp add: p(1) addr_add add.commute)
  assume rest: "rest = (i1, v1) # rest1"
  with v have v1: "pi_valid it1" by simp
  from pi_rows_current [OF v1] rows rest have kv: "pi_key it1 = row_key fm i1" "pi_value it1 = v1"
    by (simp_all add: row_entries_def)
  then show "key_decode_u64 (pi_key it1) = addr j (128 * i1)" "pi_value it1 = v1"
    by (simp_all add: row_key_addr [OF g] mult.commute)
  have i1: "i < i1" "rows_ok fm rest" using ok rest by (auto simp: rows_ok_Cons)
  have "use b \<longleftrightarrow> row_used rest b" if "128 * i1 \<le> b" for b
    using p(2-4) row_used_tl [OF ok, of b] i1 that by simp
  with i1 rows rest show "enum_at fm j use (it1, addr j (128 * i1), v1, 0) rest (128 * i1)"
    by (simp add: enum_at_def)
qed

lemma get_offset_addr: "fm_geom fm j \<Longrightarrow> get_offset (fm_bytes_per_block fm) (addr j b) (int x) = addr j (b + x)"
  by (simp add: get_offset_def fm_geom_def addr_def distrib_right)

lemma next_off_addr: "get_offset (fm_bytes_per_block fm) a 0 = a"
  by (simp add: get_offset_def)

section \<open>The two loops\<close>

text \<open>Where the cursor is after the first loop found the free block \<open>c\<close>: inside the free range, or past the last row.\<close>

definition after_clear :: "FreelistManager \<Rightarrow> nat \<Rightarrow> (nat \<Rightarrow> bool) \<Rightarrow> nat \<Rightarrow> fm_cursor \<Rightarrow> bool" where
  "after_clear fm j use c cur \<longleftrightarrow>
     (\<exists>rs p. enum_at fm j use cur rs p \<and> c \<le> p \<and> p < unat (fm_blocks fm) \<and> (\<forall>b. c \<le> b \<and> b < p \<longrightarrow> \<not> use b)) \<or>
     (\<not> pi_valid (fst cur) \<and> fst (snd cur) = addr j c \<and> (\<forall>b \<ge> c. \<not> use b))"

lemma addr_row_less:
  assumes g: "fm_geom fm j" and i: "128 * i < unat (fm_blocks fm)" "128 * i' < unat (fm_blocks fm)"
  shows "addr j (128 * i) > addr j (128 * i') \<longleftrightarrow> i' < i"
    "addr j (128 * i) > addr j (128 * (i' + 1)) \<longleftrightarrow> i' + 1 < i"
proof -
  obtain k where k: "unat (fm_blocks fm) = 128 * k" using g by (auto simp: fm_geom_def)
  have b: "x * 2 ^ j < 2 ^ 64" if "x \<le> unat (fm_blocks fm)" for x
    by (rule le_less_trans [OF mult_le_mono1 [OF that]]) (use g in \<open>simp add: fm_geom_def\<close>)
  have m: "128 * x < 128 * i \<longleftrightarrow> x < i" for x by simp
  have c: "128 * (i' + 1) \<le> unat (fm_blocks fm)" using i(2) k by simp
  show "addr j (128 * i) > addr j (128 * i') \<longleftrightarrow> i' < i" "addr j (128 * i) > addr j (128 * (i' + 1)) \<longleftrightarrow> i' + 1 < i"
    using addr_less [OF b b, of "128 * i'" "128 * i"] addr_less [OF b [OF c] b, of "128 * i"] i
    by (simp_all only: m less_imp_le)
qed

lemma enum_clear_spec:
  assumes g: "fm_geom fm j"
  shows "enum_at fm j use (it, off, bl, pos) rs p \<Longrightarrow>
    \<exists>c cur. enum_clear fm (it, off, bl, pos) = (addr j c, cur) \<and> p \<le> c \<and> c \<le> unat (fm_blocks fm) \<and>
      \<not> use c \<and> (\<forall>b. p \<le> b \<and> b < c \<longrightarrow> use b) \<and> after_clear fm j use c cur"
proof (induction rs arbitrary: it off bl pos p)
  case Nil
  then show ?case by (simp add: enum_at_def)
next
  case (Cons r rest)
  then obtain i where r: "r = (i, bl)" by (auto simp: enum_at_def)
  note at = Cons.prems [unfolded r]
  have at': "off = addr j (128 * i)" "0 \<le> pos" "pos \<le> 128" "p = 128 * i + nat pos"
    "\<And>b. b \<ge> p \<Longrightarrow> use b \<longleftrightarrow> row_used ((i, bl) # rest) b" and ok: "rows_ok fm ((i, bl) # rest)"
    using at by (auto simp: enum_at_def)
  have ok': "128 * i < unat (fm_blocks fm)" "length bl = 16" using ok by (auto simp: rows_ok_Cons)
  have blk: "128 * (i + 1) \<le> unat (fm_blocks fm)" using g ok'(1) by (auto simp: fm_geom_def elim!: dvdE)
  have bit: "use (128 * i + x) \<longleftrightarrow> bit_at bl x" if "nat pos \<le> x" "x < 128" for x
    using at'(5) [of "128 * i + x"] at'(4) row_used_hd [OF ok that(2)] that(1) by simp
  from ok'(2) at'(2) show ?case
  proof (cases rule: next_clear_bit)
    case (found x)
    have e: "enum_clear fm (it, off, bl, pos) = (addr j (128 * i + x), (it, off, bl, int x))"
      using found(1) by (subst enum_clear.simps) (simp add: Let_def at'(1) get_offset_addr [OF g])
    have "enum_at fm j use (it, off, bl, int x) (r # rest) (128 * i + x)"
      using at found(2,3) at'(4) by (auto simp: enum_at_def r)
    moreover have "use b" if "p \<le> b" "b < 128 * i + x" for b
    proof -
      have "nat pos \<le> b - 128 * i" "b - 128 * i < x" "128 * i + (b - 128 * i) = b" using that at'(4) by auto
      with bit [of "b - 128 * i"] found(3,5) show ?thesis by auto
    qed
    moreover have "p \<le> 128 * i + x" "128 * i + x < unat (fm_blocks fm)" using at'(4) found(2,3) blk by simp_all
    moreover have "\<not> use (128 * i + x)" using bit found(2,3,4) by simp
    ultimately have "after_clear fm j use (128 * i + x) (it, off, bl, int x)"
      unfolding after_clear_def by (intro disjI1 exI [of _ "r # rest"] exI [of _ "128 * i + x"]) simp
    with e bit found(2-4) blk \<open>p \<le> 128 * i + x\<close> \<open>\<And>b. p \<le> b \<Longrightarrow> b < 128 * i + x \<Longrightarrow> use b\<close> show ?thesis
      by (intro exI [of _ "128 * i + x"] exI [of _ "(it, off, bl, int x)"]) simp
  next
    case none
    let ?it1 = "snd (pi_next it)"
    note st = cursor_step [OF g at]
    have row: "use b" if "p \<le> b" "b < 128 * (i + 1)" for b
    proof -
      have "nat pos \<le> b - 128 * i" "b - 128 * i < 128" "128 * i + (b - 128 * i) = b" using that at'(4) by auto
      with bit [of "b - 128 * i"] none(2) show ?thesis by auto
    qed
    have later: "use b \<longleftrightarrow> row_used rest b" if "128 * (i + 1) \<le> b" for b
      using at'(3-5) row_used_tl [OF ok that] that by simp
    have pc: "p \<le> 128 * (i + 1)" using at'(3,4) by simp
    show ?thesis
    proof (cases rest)
      case Nil
      with st(2) have v: "\<not> pi_valid ?it1" by simp
      then have e: "enum_clear fm (it, off, bl, pos) = (addr j (128 * (i + 1)), (?it1, addr j (128 * (i + 1)), [], 0))"
        using none(1) st(3) by (subst enum_clear.simps) (simp add: Let_def next_off_addr)
      have "\<not> use b" if "128 * (i + 1) \<le> b" for b using later [OF that] Nil by (simp add: row_used_def)
      then show ?thesis using e v pc blk row
        by (intro exI [of _ "128 * (i + 1)"] exI [of _ "(?it1, addr j (128 * (i + 1)), [], 0)"])
           (simp add: after_clear_def)
    next
      case (Cons r1 rest1)
      obtain i1 v1 where r1: "r1 = (i1, v1)" by (cases r1)
      have rest: "rest = (i1, v1) # rest1" using Cons r1 by simp
      have v: "pi_valid ?it1" using st(2) rest by simp
      have ok1: "rows_ok fm ((i1, v1) # rest1)" "i < i1" "128 * i1 < unat (fm_blocks fm)"
        using ok rest by (auto simp: rows_ok_Cons)
      note at1 = st(6) [OF rest]
      show ?thesis
      proof (cases "i + 1 < i1")
        case True
        have e: "enum_clear fm (it, off, bl, pos) = (addr j (128 * (i + 1)), (?it1, addr j (128 * i1), v1, 0))"
          using none(1) st(3) st(4,5) [OF rest] v True addr_row_less(2) [OF g ok1(3) ok'(1)]
          by (subst enum_clear.simps) (simp add: Let_def)
        have "\<not> use b" if "128 * (i + 1) \<le> b" "b < 128 * i1" for b
          using later [OF that(1)] row_used_gap [OF ok1(1) that(2)] rest by simp
        then have "after_clear fm j use (128 * (i + 1)) (?it1, addr j (128 * i1), v1, 0)" "\<not> use (128 * (i + 1))"
          unfolding after_clear_def using at1 True ok1(3) by (auto intro!: exI [of _ rest] exI [of _ "128 * i1"])
        then show ?thesis using e pc blk row
          by (intro exI [of _ "128 * (i + 1)"] exI [of _ "(?it1, addr j (128 * i1), v1, 0)"]) simp
      next
        case False
        with ok1(2) have i1: "i1 = i + 1" by simp
        have e: "enum_clear fm (it, off, bl, pos) = enum_clear fm (?it1, addr j (128 * i1), v1, 0)"
          using none(1) st(3) st(4,5) [OF rest] v False addr_row_less(2) [OF g ok1(3) ok'(1)]
          by (subst enum_clear.simps) (simp add: Let_def)
        from Cons.IH [OF at1] show ?thesis using e row pc i1 by (metis le_trans not_le)
      qed
    qed
  qed
qed

text \<open>What the second loop found from block \<open>p\<close> on: the next block in use, or that there is none.\<close>

definition after_set :: "FreelistManager \<Rightarrow> nat \<Rightarrow> (nat \<Rightarrow> bool) \<Rightarrow> nat \<Rightarrow> u64 option \<Rightarrow> fm_cursor \<Rightarrow> bool" where
  "after_set fm j use p found cur \<longleftrightarrow>
     (\<exists>e rs. found = Some (addr j e) \<and> p \<le> e \<and> e < unat (fm_blocks fm) \<and> use e \<and>
        (\<forall>b. p \<le> b \<and> b < e \<longrightarrow> \<not> use b) \<and> enum_at fm j use cur rs e) \<or>
     (found = None \<and> (\<forall>b \<ge> p. \<not> use b) \<and>
        (\<exists>i. 128 * i < unat (fm_blocks fm) \<and> fst (snd cur) = addr j (128 * i)))"

lemma after_set_mono:
  assumes "after_set fm j use p' found cur" "p \<le> p'" "\<And>b. p \<le> b \<Longrightarrow> b < p' \<Longrightarrow> \<not> use b"
  shows "after_set fm j use p found cur"
  using assms(1) unfolding after_set_def
proof (elim disjE exE conjE)
  fix e rs assume e: "found = Some (addr j e)" "p' \<le> e" "e < unat (fm_blocks fm)" "use e"
    "\<forall>b. p' \<le> b \<and> b < e \<longrightarrow> \<not> use b" "enum_at fm j use cur rs e"
  then have "\<forall>b. p \<le> b \<and> b < e \<longrightarrow> \<not> use b" using assms(3) by (metis not_le)
  with e assms(2) show "(\<exists>e rs. found = Some (addr j e) \<and> p \<le> e \<and> e < unat (fm_blocks fm) \<and> use e \<and>
      (\<forall>b. p \<le> b \<and> b < e \<longrightarrow> \<not> use b) \<and> enum_at fm j use cur rs e) \<or>
    (found = None \<and> (\<forall>b \<ge> p. \<not> use b) \<and>
      (\<exists>i. 128 * i < unat (fm_blocks fm) \<and> fst (snd cur) = addr j (128 * i)))"
    by (intro disjI1 exI [of _ e] exI [of _ rs]) simp
next
  fix i assume "found = None" "\<forall>b \<ge> p'. \<not> use b" "128 * i < unat (fm_blocks fm)" "fst (snd cur) = addr j (128 * i)"
  moreover from this have "\<forall>b \<ge> p. \<not> use b" using assms(3) by (metis not_le)
  ultimately show "(\<exists>e rs. found = Some (addr j e) \<and> p \<le> e \<and> e < unat (fm_blocks fm) \<and> use e \<and>
      (\<forall>b. p \<le> b \<and> b < e \<longrightarrow> \<not> use b) \<and> enum_at fm j use cur rs e) \<or>
    (found = None \<and> (\<forall>b \<ge> p. \<not> use b) \<and>
      (\<exists>i. 128 * i < unat (fm_blocks fm) \<and> fst (snd cur) = addr j (128 * i)))"
    by blast
qed

lemma enum_set_spec:
  assumes g: "fm_geom fm j"
  shows "enum_at fm j use (it, off, bl, pos) rs p \<Longrightarrow>
    \<exists>found cur. enum_set fm (it, off, bl, pos) = (found, cur) \<and> after_set fm j use p found cur"
proof (induction rs arbitrary: it off bl pos p)
  case Nil
  then show ?case by (simp add: enum_at_def)
next
  case (Cons r rest)
  then obtain i where r: "r = (i, bl)" by (auto simp: enum_at_def)
  note at = Cons.prems [unfolded r]
  have at': "off = addr j (128 * i)" "0 \<le> pos" "pos \<le> 128" "p = 128 * i + nat pos"
    "\<And>b. b \<ge> p \<Longrightarrow> use b \<longleftrightarrow> row_used ((i, bl) # rest) b" and ok: "rows_ok fm ((i, bl) # rest)"
    using at by (auto simp: enum_at_def)
  have ok': "128 * i < unat (fm_blocks fm)" "length bl = 16" using ok by (auto simp: rows_ok_Cons)
  have blk: "128 * (i + 1) \<le> unat (fm_blocks fm)" using g ok'(1) by (auto simp: fm_geom_def elim!: dvdE)
  have bit: "use (128 * i + x) \<longleftrightarrow> bit_at bl x" if "nat pos \<le> x" "x < 128" for x
    using at'(5) [of "128 * i + x"] at'(4) row_used_hd [OF ok that(2)] that(1) by simp
  from ok'(2) at'(2) show ?case
  proof (cases rule: next_set_bit)
    case (found x)
    let ?e = "128 * i + x" and ?c = "(it, off, bl, int x)"
    have e: "?e < unat (fm_blocks fm)" "p \<le> ?e" using at'(4) found(2,3) blk by simp_all
    have N: "unat (fm_blocks fm) * 2 ^ j < 2 ^ 64" using g by (simp add: fm_geom_def)
    have "addr j ?e < addr j (unat (fm_blocks fm))"
      using addr_less [OF le_less_trans [OF mult_le_mono1 N] N] e(1) by simp
    moreover have "fm_blocks fm * fm_bytes_per_block fm = addr j (unat (fm_blocks fm))"
      using g by (simp add: fm_geom_def addr_def)
    ultimately have "min (fm_blocks fm * fm_bytes_per_block fm) (addr j ?e) = addr j ?e"
      by (simp only: min_absorb2 less_imp_le)
    then have s: "enum_set fm (it, off, bl, pos) = (Some (addr j ?e), ?c)"
      using found(1) by (subst enum_set.simps) (simp add: Let_def at'(1) get_offset_addr [OF g])
    have c: "enum_at fm j use ?c (r # rest) ?e"
      using at found(2,3) at'(4) by (auto simp: enum_at_def r)
    have "\<not> use b" if "p \<le> b" "b < ?e" for b
    proof -
      have "nat pos \<le> b - 128 * i" "b - 128 * i < x" "128 * i + (b - 128 * i) = b" using that at'(4) by auto
      with bit [of "b - 128 * i"] found(3,5) show ?thesis by auto
    qed
    with s c e bit found(2-4) show ?thesis
      unfolding after_set_def
      by (intro exI [of _ "Some (addr j ?e)"] exI [of _ ?c] conjI disjI1 exI [of _ ?e] exI [of _ "r # rest"]) auto
  next
    case none
    let ?it1 = "snd (pi_next it)"
    note st = cursor_step [OF g at]
    have row: "\<not> use b" if "p \<le> b" "b < 128 * (i + 1)" for b
    proof -
      have "nat pos \<le> b - 128 * i" "b - 128 * i < 128" "128 * i + (b - 128 * i) = b" using that at'(4) by auto
      with bit [of "b - 128 * i"] none(2) show ?thesis by auto
    qed
    have later: "use b \<longleftrightarrow> row_used rest b" if "128 * (i + 1) \<le> b" for b
      using at'(3-5) row_used_tl [OF ok that] that by simp
    have pc: "p \<le> 128 * (i + 1)" using at'(3,4) by simp
    show ?thesis
    proof (cases rest)
      case Nil
      with st(2) have "\<not> pi_valid ?it1" by simp
      then have e: "enum_set fm (it, off, bl, pos) = (None, (?it1, off, [], 0))"
        using none(1) by (subst enum_set.simps) (simp add: Let_def)
      have "\<not> use b" if "p \<le> b" for b
        using later [of b] row [OF that] Nil by (cases "b < 128 * (i + 1)") (auto simp: row_used_def)
      with e ok'(1) at'(1) show ?thesis by (auto simp: after_set_def)
    next
      case (Cons r1 rest1)
      obtain i1 v1 where r1: "r1 = (i1, v1)" by (cases r1)
      have rest: "rest = (i1, v1) # rest1" using Cons r1 by simp
      have v: "pi_valid ?it1" using st(2) rest by simp
      have ok1: "rows_ok fm ((i1, v1) # rest1)" "i < i1" using ok rest by (auto simp: rows_ok_Cons)
      note at1 = st(6) [OF rest]
      have e: "enum_set fm (it, off, bl, pos) = enum_set fm (?it1, addr j (128 * i1), v1, 0)"
        using none(1) st(4,5) [OF rest] v by (subst enum_set.simps) (simp add: Let_def)
      have gap: "\<not> use b" if "p \<le> b" "b < 128 * i1" for b
        using later [of b] row [OF that(1)] row_used_gap [OF ok1(1) that(2)] rest
        by (cases "b < 128 * (i + 1)") auto
      have "p \<le> 128 * i1" using pc ok1(2) by simp
      with Cons.IH [OF at1] gap after_set_mono show ?thesis unfolding e by blast
    qed
  qed
qed

section \<open>A call\<close>

text \<open>
  The manager and its database: block 0 is in use, which the first call asserts, and so are the blocks that pad the last
  row beyond the size of the device.
\<close>

definition in_use :: "MemDB \<Rightarrow> FreelistManager \<Rightarrow> nat \<Rightarrow> bool" where
  "in_use db fm b \<longleftrightarrow> b < unat (fm_blocks fm) \<and> used db fm b"

definition freelist_ok :: "MemDB \<Rightarrow> FreelistManager \<Rightarrow> nat \<Rightarrow> nat \<Rightarrow> bool" where
  "freelist_ok db fm j s \<longleftrightarrow> fm_geom fm j \<and> bitmap_ok db fm \<and> in_use db fm 0 \<and>
     fm_size fm = addr j s \<and> s \<le> unat (fm_blocks fm) \<and>
     (\<forall>b. s \<le> b \<and> b < unat (fm_blocks fm) \<longrightarrow> in_use db fm b)"

lemma init_misc_fix:
  "init_misc fm = fm \<longleftrightarrow>
     fm_all_set_bl fm = replicate (row_bytes fm) 255 \<and> fm_block_mask fm = NOT (fm_bytes_per_block fm - 1) \<and>
     fm_bytes_per_key fm = fm_bytes_per_block fm * fm_blocks_per_key fm \<and>
     fm_key_mask fm = NOT (fm_bytes_per_block fm * fm_blocks_per_key fm - 1)"
  by (cases fm) (auto simp: init_misc_def Let_def row_bytes_def)

text \<open>Two managers that differ in the cursor only.\<close>

definition same_fl :: "FreelistManager \<Rightarrow> FreelistManager \<Rightarrow> bool" where
  "same_fl fm' fm \<longleftrightarrow> enumerate_reset fm' = enumerate_reset fm"

lemma same_fl_fields:
  assumes "same_fl fm' fm"
  shows "fm_bitmap_prefix fm' = fm_bitmap_prefix fm" "fm_size fm' = fm_size fm" "fm_blocks fm' = fm_blocks fm"
    "fm_bytes_per_block fm' = fm_bytes_per_block fm" "fm_blocks_per_key fm' = fm_blocks_per_key fm"
    "fm_bytes_per_key fm' = fm_bytes_per_key fm" "fm_block_mask fm' = fm_block_mask fm" "fm_key_mask fm' = fm_key_mask fm"
    "fm_all_set_bl fm' = fm_all_set_bl fm" "fm_null_manager fm' = fm_null_manager fm"
  using assms by (cases fm; cases fm'; simp add: same_fl_def enumerate_reset_def)+

lemma same_fl_cong:
  assumes "same_fl fm' fm"
  shows "fm_geom fm' j \<longleftrightarrow> fm_geom fm j" "row_key fm' = row_key fm" "used db fm' = used db fm"
    "bitmap_ok db fm' \<longleftrightarrow> bitmap_ok db fm" "in_use db fm' = in_use db fm"
    "freelist_ok db fm' j s \<longleftrightarrow> freelist_ok db fm j s" "enum_at fm' j use c rs p \<longleftrightarrow> enum_at fm j use c rs p"
proof -
  note f = same_fl_fields [OF assms]
  show g: "fm_geom fm' j \<longleftrightarrow> fm_geom fm j" by (simp add: fm_geom_def init_misc_fix row_bytes_def f)
  show k: "row_key fm' = row_key fm" by (simp add: fun_eq_iff row_key_def f)
  show u: "used db fm' = used db fm" by (simp add: fun_eq_iff used_def f k)
  show b: "bitmap_ok db fm' \<longleftrightarrow> bitmap_ok db fm" by (simp add: bitmap_ok_def f k)
  show i: "in_use db fm' = in_use db fm" by (simp add: fun_eq_iff in_use_def f u)
  show "freelist_ok db fm' j s \<longleftrightarrow> freelist_ok db fm j s" by (simp add: freelist_ok_def f g b i)
  show "enum_at fm' j use c rs p \<longleftrightarrow> enum_at fm j use c rs p"
    by (simp add: enum_at_def row_entries_def rows_ok_def f k)
qed

lemma put_cursor_sel [simp]:
  "same_fl (put_cursor c fm) fm" "fm_enumerate_p (put_cursor c fm) = Some (fst c)"
  "fm_enumerate_offset (put_cursor c fm) = fst (snd c)" "fm_enumerate_bl (put_cursor c fm) = fst (snd (snd c))"
  "fm_enumerate_bl_pos (put_cursor c fm) = snd (snd (snd c))"
  by (cases c; simp add: put_cursor_def same_fl_def enumerate_reset_def)+

text \<open>The rows an iterator of the bitmap gives.\<close>

lemma bitmap_rows:
  assumes g: "fm_geom fm j" and ok: "bitmap_ok db fm"
  obtains rs where "pi_rows (pi_lower_bound db [] (get_iterator (fm_bitmap_prefix fm) no_bounds db)) = row_entries fm rs"
    "rows_ok fm rs" "\<And>b. in_use db fm b \<longleftrightarrow> row_used rs b"
proof -
  let ?p = "fm_bitmap_prefix fm"
  let ?rows = "pi_rows (pi_lower_bound db [] (get_iterator ?p no_bounds db))"
  let ?num = "\<lambda>k. unat (key_decode_u64 k) div 2 ^ (j + 7)"
  let ?rs = "map (\<lambda>(k, v). (?num k, v)) ?rows"
  have md: "md_ok db" "nul_free ?p" using ok by (auto simp: bitmap_ok_def xor_ready_def)
  have r: "om_ok ?rows" "(k, v) \<in> set ?rows \<longleftrightarrow> content db ?p k = Some v" for k v
    using pi_lower_bound_rows [OF md(1) _ get_iterator_coherent, where to = "[]"] md(2)
    by (simp_all add: no_bounds_def in_upper_def)
  have bound: "i * 128 * 2 ^ j < 2 ^ 64" if "128 * i < unat (fm_blocks fm)" for i
  proof -
    have "i * 128 * 2 ^ j \<le> unat (fm_blocks fm) * 2 ^ j" using that by (intro mult_le_mono1) simp
    moreover have "unat (fm_blocks fm) * 2 ^ j < 2 ^ 64" using g by (simp add: fm_geom_def)
    ultimately show ?thesis by (rule le_less_trans)
  qed
  have num: "?num (row_key fm i) = i" if "128 * i < unat (fm_blocks fm)" for i
    by (simp add: row_key_addr [OF g] unat_addr [OF bound [OF that]] power_add)
  have row: "\<exists>i. 128 * i < unat (fm_blocks fm) \<and> k = row_key fm i \<and> length v = 16" if "(k, v) \<in> set ?rows" for k v
    using r(2) that ok unfolding bitmap_ok_def by blast
  have entries: "?rows = row_entries fm ?rs"
    unfolding row_entries_def map_map by (rule map_idI [symmetric]) (use row num in \<open>fastforce\<close>)
  have mono: "i < i'" if "row_key fm i < row_key fm i'" "128 * i < unat (fm_blocks fm)" "128 * i' < unat (fm_blocks fm)" for i i'
    using that addr_less [OF bound [OF that(2)] bound [OF that(3)]] by (simp add: row_key_addr [OF g])
  have "sorted_wrt (\<lambda>a b. ?num (fst a) < ?num (fst b)) ?rows"
  proof (rule sorted_wrt_mono_rel [where P = "\<lambda>a b. fst a < fst b"])
    fix x y assume x: "x \<in> set ?rows" "y \<in> set ?rows" "fst x < fst y"
    obtain i where i: "128 * i < unat (fm_blocks fm)" "fst x = row_key fm i" using row [of "fst x" "snd x"] x(1) by auto
    obtain i' where i': "128 * i' < unat (fm_blocks fm)" "fst y = row_key fm i'" using row [of "fst y" "snd y"] x(2) by auto
    show "?num (fst x) < ?num (fst y)" unfolding i(2) i'(2) num [OF i(1)] num [OF i'(1)]
      using mono x(3) i i' by simp
  qed (use r(1) in \<open>simp add: om_ok_def sorted_wrt_map\<close>)
  then have so: "sorted_wrt (\<lambda>a b. fst a < fst b) ?rs" by (simp add: sorted_wrt_map case_prod_unfold)
  have ok_rs: "rows_ok fm ?rs"
    unfolding rows_ok_def using so row num by fastforce
  have "in_use db fm b \<longleftrightarrow> row_used ?rs b" for b
  proof
    assume "in_use db fm b"
    then obtain v where v: "b < unat (fm_blocks fm)" "content db ?p (row_key fm (b div 128)) = Some v" "bit_at v (b mod 128)"
      by (auto simp: in_use_def used_def split: option.splits)
    have "128 * (b div 128) < unat (fm_blocks fm)" using v(1) by linarith
    with v(2) r(2) num have "(b div 128, v) \<in> set ?rs" by force
    with v(3) show "row_used ?rs b" unfolding row_used_def by blast
  next
    assume u: "row_used ?rs b"
    then obtain k v where kv: "(k, v) \<in> set ?rows" "?num k = b div 128" "bit_at v (b mod 128)"
      by (auto simp: row_used_def)
    from row [OF kv(1)] num kv(2) have "k = row_key fm (b div 128)" by auto
    with kv r(2) row_used_bound [OF ok_rs g u] show "in_use db fm b" by (simp add: in_use_def used_def)
  qed
  with entries ok_rs that show ?thesis by blast
qed

text \<open>Between two calls the cursor is fresh, stands at a block in use, or is past the end.\<close>

definition enum_state :: "MemDB \<Rightarrow> FreelistManager \<Rightarrow> nat \<Rightarrow> nat \<Rightarrow> bool" where
  "enum_state db fm j p \<longleftrightarrow>
     (fm_enumerate_offset fm = 0 \<and> fm_enumerate_bl_pos fm = 0 \<and> p = 0) \<or>
     (\<not> (fm_enumerate_offset fm = 0 \<and> fm_enumerate_bl_pos fm = 0) \<and>
        (\<exists>it. fm_enumerate_p fm = Some it \<and>
          ((\<exists>rs. enum_at fm j (in_use db fm) (it, fm_enumerate_offset fm, fm_enumerate_bl fm, fm_enumerate_bl_pos fm) rs p) \<or>
           (fm_enumerate_offset fm = fm_size fm \<and> (\<forall>b. p \<le> b \<and> b < unat (fm_blocks fm) \<longrightarrow> in_use db fm b)))))"

text \<open>What a call returns at block \<open>p\<close>: the next maximal free range, or that there is none.\<close>

definition next_run :: "MemDB \<Rightarrow> FreelistManager \<Rightarrow> nat \<Rightarrow> nat \<Rightarrow> bool \<times> (u64 \<times> u64) \<times> FreelistManager \<Rightarrow> bool" where
  "next_run db fm j p res \<longleftrightarrow> (case res of (r, out, fm') \<Rightarrow>
     same_fl fm' fm \<and>
     (if r then \<exists>c e. out = (addr j c, addr j (e - c)) \<and> p \<le> c \<and> c < e \<and> e \<le> unat (fm_blocks fm) \<and>
               (\<forall>b. p \<le> b \<and> b < c \<longrightarrow> in_use db fm b) \<and> (\<forall>b. c \<le> b \<and> b < e \<longrightarrow> \<not> in_use db fm b) \<and>
               (e = unat (fm_blocks fm) \<or> in_use db fm e) \<and> enum_state db fm' j e
      else \<forall>b. p \<le> b \<and> b < unat (fm_blocks fm) \<longrightarrow> in_use db fm b))"

lemma addr_diff: "a \<le> b \<Longrightarrow> addr j b - addr j a = addr j (b - a)"
  using addr_add [of j a "b - a"] by (metis add_diff_cancel_left' le_add_diff_inverse)

lemma next_runI:
  assumes "same_fl fm' fm" "p \<le> c" "c < e" "e \<le> unat (fm_blocks fm)" "enum_state db fm' j e"
    "\<And>b. p \<le> b \<Longrightarrow> b < c \<Longrightarrow> in_use db fm b" "\<And>b. c \<le> b \<Longrightarrow> b < e \<Longrightarrow> \<not> in_use db fm b"
    "e = unat (fm_blocks fm) \<or> in_use db fm e"
  shows "next_run db fm j p (True, (addr j c, addr j e - addr j c), fm')"
proof -
  have d: "addr j e - addr j c = addr j (e - c)" using assms(3) by (simp add: addr_diff)
  have "\<exists>c' e'. (addr j c, addr j e - addr j c) = (addr j c', addr j (e' - c')) \<and> p \<le> c' \<and> c' < e' \<and>
      e' \<le> unat (fm_blocks fm) \<and> (\<forall>b. p \<le> b \<and> b < c' \<longrightarrow> in_use db fm b) \<and>
      (\<forall>b. c' \<le> b \<and> b < e' \<longrightarrow> \<not> in_use db fm b) \<and> (e' = unat (fm_blocks fm) \<or> in_use db fm e') \<and>
      enum_state db fm' j e'"
    by (rule exI [of _ c], rule exI [of _ e]) (use d assms in simp)
  with assms(1) show ?thesis unfolding next_run_def by simp
qed

text \<open>A call that stands at block \<open>p\<close> of the rows.\<close>

lemma enumerate_at:
  assumes f: "freelist_ok db fm j s" and st: "enum_start db fm = Some c"
    and at: "enum_at fm j (in_use db fm) c rs p"
  shows "\<exists>res. enumerate_next db out fm = Some res \<and> next_run db fm j p res"
proof -
  let ?N = "unat (fm_blocks fm)" and ?fm0 = "put_cursor c fm"
  obtain it off bl pos where c: "c = (it, off, bl, pos)" by (cases c) auto
  obtain i rest where at': "rs = (i, bl) # rest" "off = addr j (128 * i)" "p = 128 * i + nat pos" "rows_ok fm rs"
    using at unfolding c enum_at_def by auto
  have g: "fm_geom fm j" and size: "fm_size fm = addr j s" "s \<le> ?N"
    and tail: "\<And>b. s \<le> b \<Longrightarrow> b < ?N \<Longrightarrow> in_use db fm b"
    using f by (auto simp: freelist_ok_def)
  have bnd: "b * 2 ^ j < 2 ^ 64" if "b \<le> ?N" for b
    by (rule le_less_trans [OF mult_le_mono1 [OF that]]) (use g in \<open>simp add: fm_geom_def\<close>)
  have less: "addr j a < addr j b \<longleftrightarrow> a < b" if "a \<le> ?N" "b \<le> ?N" for a b
    by (rule addr_less [OF bnd [OF that(1)] bnd [OF that(2)]])
  have i: "128 * i < ?N" using at'(1,4) by (simp add: rows_ok_Cons)
  have N: "fm_blocks fm * fm_bytes_per_block fm = addr j ?N" using g by (simp add: fm_geom_def addr_def)
  show ?thesis
  proof (cases "off \<ge> fm_size fm")
    case True
    then have "s \<le> 128 * i" using less [of "128 * i" s] i size at'(2) by (simp add: not_less [symmetric])
    then have "\<forall>b. p \<le> b \<and> b < ?N \<longrightarrow> in_use db fm b" using tail at'(3) by simp
    with True st show ?thesis by (simp add: enumerate_next_def Let_def c next_run_def)
  next
    case False
    obtain k cur where k: "enum_clear fm c = (addr j k, cur)" "p \<le> k" "k \<le> ?N" "\<not> in_use db fm k"
      "\<And>b. p \<le> b \<Longrightarrow> b < k \<Longrightarrow> in_use db fm b" "after_clear fm j (in_use db fm) k cur"
      using enum_clear_spec [OF g at [unfolded c]] unfolding c by blast
    define found where "found = (if pi_valid (fst cur) then enum_set fm cur else (None, cur))"
    obtain fo c2 where fo: "found = (fo, c2)" by (cases found)
    let ?fm2 = "put_cursor c2 fm"
    have out_res: "enumerate_next db out fm = Some (case fo of
        Some end \<Rightarrow> (True, (addr j k, end - addr j k), ?fm2)
      | None \<Rightarrow> if fst (snd c2) < fm_size fm
               then (True, (addr j k, addr j ?N - addr j k),
                     ?fm2\<lparr>fm_enumerate_offset := fm_size fm,
                          fm_enumerate_bl_pos := sint (ucast (fm_blocks_per_key fm) :: 32 word)\<rparr>)
               else (False, (addr j k, snd out), ?fm2))"
      using st False k(1) fo N unfolding found_def enumerate_next_def
      by (auto simp: Let_def c split: option.splits)
    have to_end: "next_run db fm j p (True, (addr j k, addr j ?N - addr j k),
        ?fm2\<lparr>fm_enumerate_offset := fm_size fm, fm_enumerate_bl_pos := sint (ucast (fm_blocks_per_key fm) :: 32 word)\<rparr>)"
      if "k < ?N" "\<And>b. k \<le> b \<Longrightarrow> b < ?N \<Longrightarrow> \<not> in_use db fm b"
    proof -
      let ?fm3 = "?fm2\<lparr>fm_enumerate_offset := fm_size fm, fm_enumerate_bl_pos := sint (ucast (fm_blocks_per_key fm) :: 32 word)\<rparr>"
      have same: "same_fl ?fm3 fm" by (cases c2) (simp add: same_fl_def enumerate_reset_def put_cursor_def)
      have "fm_blocks_per_key fm = 128" using g by (simp add: fm_geom_def)
      then have "enum_state db ?fm3 j ?N"
        unfolding enum_state_def using same_fl_fields [OF same] by auto
      with same that k(2,5) show ?thesis by (intro next_runI) auto
    qed
    from k(6) show ?thesis unfolding after_clear_def
    proof (elim disjE exE conjE)
      fix rs' p' assume a: "enum_at fm j (in_use db fm) cur rs' p'" "k \<le> p'" "p' < ?N"
        "\<forall>b. k \<le> b \<and> b < p' \<longrightarrow> \<not> in_use db fm b"
      obtain it' off' bl' pos' where cur: "cur = (it', off', bl', pos')" by (cases cur) auto
      have "pi_valid (fst cur)"
        using a(1) by (auto simp: cur enum_at_def pi_valid_rows row_entries_def)
      then have "enum_set fm cur = (fo, c2)" using fo by (simp add: found_def)
      with enum_set_spec [OF g a(1) [unfolded cur]] have "after_set fm j (in_use db fm) p' fo c2"
        by (auto simp: cur)
      then show ?thesis unfolding after_set_def
      proof (elim disjE exE conjE)
        fix e rs'' assume e: "fo = Some (addr j e)" "p' \<le> e" "e < ?N" "in_use db fm e"
          "\<forall>b. p' \<le> b \<and> b < e \<longrightarrow> \<not> in_use db fm b" "enum_at fm j (in_use db fm) c2 rs'' e"
        have "k \<noteq> e" using k(4) e(4) by auto
        then have ke: "k < e" using a(2) e(2) by simp
        have gap: "\<not> in_use db fm b" if "k \<le> b" "b < e" for b using a(4) e(5) that by (meson not_le)
        have nz: "\<not> (fst (snd c2) = 0 \<and> snd (snd (snd c2)) = 0)"
        proof
          assume z: "fst (snd c2) = 0 \<and> snd (snd (snd c2)) = 0"
          obtain i' where i': "fst (snd c2) = addr j (128 * i')" "e = 128 * i' + nat (snd (snd (snd c2)))" "128 * i' < ?N"
            using e(6) by (cases c2) (auto simp: enum_at_def rows_ok_Cons)
          have "addr j 0 = 0" by (simp add: addr_def)
          with z i' less [of 0 "128 * i'"] ke show False by simp
        qed
        have "enum_state db ?fm2 j e"
          unfolding enum_state_def using nz e(6) same_fl_cong [OF put_cursor_sel(1) [of c2 fm]] by (cases c2) auto
        then have "next_run db fm j p (True, (addr j k, addr j e - addr j k), ?fm2)"
          using k(2,5) ke gap e(3,4) by (intro next_runI) auto
        with out_res e(1) show ?thesis by simp
      next
        fix i' assume n: "fo = None" "\<forall>b \<ge> p'. \<not> in_use db fm b" "128 * i' < ?N" "fst (snd c2) = addr j (128 * i')"
        have "s = ?N" using n(2) a(3) tail [of "?N - 1"] size(2) by (metis Suc_diff_1 diff_less le_neq_implies_less less_Suc_eq_le less_nat_zero_code not_gr_zero zero_less_one)
        then have "fst (snd c2) < fm_size fm" using less [of "128 * i'" ?N] n(3,4) size(1) by simp
        with out_res n(1) have "enumerate_next db out fm = Some (True, (addr j k, addr j ?N - addr j k),
          ?fm2\<lparr>fm_enumerate_offset := fm_size fm, fm_enumerate_bl_pos := sint (ucast (fm_blocks_per_key fm) :: 32 word)\<rparr>)" by simp
        moreover have "\<not> in_use db fm b" if "k \<le> b" for b using a(4) n(2) that by (meson not_le)
        ultimately show ?thesis using to_end a(2,3) by auto
      qed
    next
      assume a: "\<not> pi_valid (fst cur)" "fst (snd cur) = addr j k" "\<forall>b \<ge> k. \<not> in_use db fm b"
      then have n: "fo = None" "c2 = cur" using fo by (simp_all add: found_def)
      show ?thesis
      proof (cases "k < s")
        case True
        then have "fst (snd c2) < fm_size fm" using less [of k s] k(3) size a(2) n(2) by simp
        with out_res n(1) have "enumerate_next db out fm = Some (True, (addr j k, addr j ?N - addr j k),
          ?fm2\<lparr>fm_enumerate_offset := fm_size fm, fm_enumerate_bl_pos := sint (ucast (fm_blocks_per_key fm) :: 32 word)\<rparr>)" by simp
        with to_end a(3) True size(2) show ?thesis by auto
      next
        case False
        then have "\<not> fst (snd c2) < fm_size fm" using less [of k s] k(3) size a(2) n(2) by simp
        with out_res n(1) have "enumerate_next db out fm = Some (False, (addr j k, snd out), ?fm2)" by simp
        moreover have "in_use db fm b" if "p \<le> b" "b < ?N" for b
          using that k(5) [of b] tail [of b] False by (cases "b < k") auto
        ultimately show ?thesis by (simp add: next_run_def)
      qed
    qed
  qed
qed

lemma enumerate_next_spec:
  assumes f: "freelist_ok db fm j s" and st: "enum_state db fm j p"
  shows "\<exists>res. enumerate_next db out fm = Some res \<and> next_run db fm j p res"
proof (cases "fm_enumerate_offset fm = 0 \<and> fm_enumerate_bl_pos fm = 0")
  case True
  have g: "fm_geom fm j" and ok: "bitmap_ok db fm" and u0: "in_use db fm 0" using f by (auto simp: freelist_ok_def)
  let ?it = "pi_lower_bound db [] (get_iterator (fm_bitmap_prefix fm) no_bounds db)"
  from bitmap_rows [OF g ok] obtain rs where rs: "pi_rows ?it = row_entries fm rs" "rows_ok fm rs"
    "\<And>b. in_use db fm b \<longleftrightarrow> row_used rs b" by blast
  have "row_used rs 0" using u0 rs(3) by simp
  then obtain v where v: "(0, v) \<in> set rs" "bit_at v 0" by (auto simp: row_used_def)
  then obtain i w rest where r: "rs = (i, w) # rest" by (cases rs) auto
  then have "(i, w) = (0, v)" using v(1) rs(2) by (auto simp: rows_ok_Cons)
  with r have r: "rs = (0, v) # rest" by simp
  have lv: "length v = 16" using rs(2) r by (simp add: rows_ok_Cons)
  have pv: "pi_valid ?it" using rs(1) r by (simp add: pi_valid_rows row_entries_def)
  with rs(1) r pi_rows_current have kv: "pi_key ?it = row_key fm 0" "pi_value ?it = v"
    by (auto simp: row_entries_def)
  have off: "key_decode_u64 (pi_key ?it) = 0" "addr j 0 = 0" by (simp_all add: kv row_key_def addr_def)
  have "get_next_set_bit v 0 = 0"
  proof -
    have "[nat 0 ..< 8 * length v] = 0 # [1 ..< 128]" using lv by (simp add: upt_conv_Cons)
    then show ?thesis using v(2) by (simp add: get_next_set_bit_def)
  qed
  then have "enum_start db fm = Some (?it, 0, v, 0)" using True pv kv off by (simp add: enum_start_def Let_def)
  moreover have "enum_at fm j (in_use db fm) (?it, 0, v, 0) rs 0"
    using rs r off by (simp add: enum_at_def)
  moreover have "p = 0" using st True by (auto simp: enum_state_def)
  ultimately show ?thesis using enumerate_at [OF f] by blast
next
  case False
  then obtain it where it: "fm_enumerate_p fm = Some it" using st by (auto simp: enum_state_def)
  let ?c = "(it, fm_enumerate_offset fm, fm_enumerate_bl fm, fm_enumerate_bl_pos fm)"
  have start: "enum_start db fm = Some ?c" by (simp only: enum_start_def False if_False it option.case)
  from st False it consider rs where "enum_at fm j (in_use db fm) ?c rs p"
    | "fm_enumerate_offset fm = fm_size fm" "\<forall>b. p \<le> b \<and> b < unat (fm_blocks fm) \<longrightarrow> in_use db fm b"
    by (auto simp: enum_state_def)
  then show ?thesis
  proof cases
    case 1
    then show ?thesis using enumerate_at [OF f start] by blast
  next
    case 2
    then show ?thesis using start put_cursor_sel(1) [of ?c fm]
      by (simp add: enumerate_next_def Let_def next_run_def)
  qed
qed

text \<open>The calls of a client that runs through the free ranges until there is none, at most \<open>n\<close> of them.\<close>

fun enumerate_all :: "nat \<Rightarrow> MemDB \<Rightarrow> FreelistManager \<Rightarrow> (u64 \<times> u64) list option" where
  "enumerate_all 0 db fm = None"
| "enumerate_all (Suc n) db fm =
     (case enumerate_next db (0, 0) fm of
        None \<Rightarrow> None
      | Some (r, out, fm') \<Rightarrow> if r then map_option (Cons out) (enumerate_all n db fm') else Some [])"

text \<open>Block ranges that are free, maximal and complete from block \<open>p\<close> on.\<close>

fun runs_from :: "(nat \<Rightarrow> bool) \<Rightarrow> nat \<Rightarrow> nat \<Rightarrow> (nat \<times> nat) list \<Rightarrow> bool" where
  "runs_from use n p [] \<longleftrightarrow> (\<forall>b. p \<le> b \<and> b < n \<longrightarrow> use b)"
| "runs_from use n p ((c, e) # rs) \<longleftrightarrow>
     p \<le> c \<and> c < e \<and> e \<le> n \<and> (\<forall>b. p \<le> b \<and> b < c \<longrightarrow> use b) \<and> (\<forall>b. c \<le> b \<and> b < e \<longrightarrow> \<not> use b) \<and>
     (e = n \<or> use e) \<and> runs_from use n e rs"

lemma enumerate_all_runs:
  assumes "freelist_ok db fm j s" "enum_state db fm j p" "p \<le> unat (fm_blocks fm)" "unat (fm_blocks fm) - p < n"
  shows "\<exists>rs. enumerate_all n db fm = Some (map (\<lambda>(c, e). (addr j c, addr j (e - c))) rs) \<and>
    runs_from (in_use db fm) (unat (fm_blocks fm)) p rs"
  using assms
proof (induction n arbitrary: fm p)
  case (Suc n)
  obtain r out fm' where e: "enumerate_next db (0, 0) fm = Some (r, out, fm')" and nr: "next_run db fm j p (r, out, fm')"
    using enumerate_next_spec [OF Suc.prems(1,2), of "(0, 0)"] by (metis prod_cases3)
  show ?case
  proof (cases r)
    case False
    then show ?thesis using e nr by (intro exI [of _ "[]"]) (simp add: next_run_def)
  next
    case True
    with nr obtain c d where cd: "out = (addr j c, addr j (d - c))" "p \<le> c" "c < d" "d \<le> unat (fm_blocks fm)"
      "\<forall>b. p \<le> b \<and> b < c \<longrightarrow> in_use db fm b" "\<forall>b. c \<le> b \<and> b < d \<longrightarrow> \<not> in_use db fm b"
      "d = unat (fm_blocks fm) \<or> in_use db fm d" "enum_state db fm' j d" "same_fl fm' fm"
      by (auto simp: next_run_def)
    note same = same_fl_fields [OF cd(9)] same_fl_cong [OF cd(9)]
    have "\<exists>rs. enumerate_all n db fm' = Some (map (\<lambda>(c, e). (addr j c, addr j (e - c))) rs) \<and>
      runs_from (in_use db fm') (unat (fm_blocks fm')) d rs"
      by (rule Suc.IH) (use Suc.prems cd same in auto)
    then obtain rs where "enumerate_all n db fm' = Some (map (\<lambda>(c, e). (addr j c, addr j (e - c))) rs)"
      "runs_from (in_use db fm) (unat (fm_blocks fm)) d rs" using same by auto
    then show ?thesis using e True cd by (intro exI [of _ "(c, d) # rs"]) simp
  qed
qed simp

lemma runs_from_props:
  assumes "runs_from use n p rs" "p \<le> n"
  shows "\<forall>(c, e) \<in> set rs. p \<le> c \<and> c < e \<and> e \<le> n"
    "sorted_wrt (\<lambda>(c, e) (c', e'). e < c') rs"
    "p \<le> b \<Longrightarrow> b < n \<Longrightarrow> \<not> use b \<longleftrightarrow> (\<exists>(c, e) \<in> set rs. c \<le> b \<and> b < e)"
proof -
  have all: "(\<forall>(c, e) \<in> set rs. p \<le> c \<and> c < e \<and> e \<le> n) \<and> sorted_wrt (\<lambda>(c, e) (c', e'). e < c') rs \<and>
    (\<forall>b. p \<le> b \<and> b < n \<longrightarrow> (\<not> use b \<longleftrightarrow> (\<exists>(c, e) \<in> set rs. c \<le> b \<and> b < e)))"
    using assms
  proof (induction rs arbitrary: p)
    case (Cons r rs)
    obtain c e where r: "r = (c, e)" by (cases r)
    from Cons.prems r have h: "p \<le> c" "c < e" "e \<le> n" "\<And>b. p \<le> b \<Longrightarrow> b < c \<Longrightarrow> use b"
      "\<And>b. c \<le> b \<Longrightarrow> b < e \<Longrightarrow> \<not> use b" "e = n \<or> use e" "runs_from use n e rs" by auto
    from Cons.IH [OF h(7,3)] have ih: "\<forall>(c', e') \<in> set rs. e \<le> c' \<and> c' < e' \<and> e' \<le> n"
      "sorted_wrt (\<lambda>(c, e) (c', e'). e < c') rs"
      "\<And>b. e \<le> b \<Longrightarrow> b < n \<Longrightarrow> \<not> use b \<longleftrightarrow> (\<exists>(c, e) \<in> set rs. c \<le> b \<and> b < e)" by auto
    have lt: "e < c'" if "(c', e') \<in> set rs" for c' e'
    proof -
      have c': "e \<le> c'" "c' < e'" "e' \<le> n" using ih(1) that by auto
      then have "\<not> use c'" using ih(3) [of c'] that by auto
      with c' h(6) show ?thesis by (cases "c' = e") auto
    qed
    have "p \<le> c' \<and> c' < e' \<and> e' \<le> n" if "(c', e') \<in> set (r # rs)" for c' e'
    proof (cases "(c', e') \<in> set rs")
      case True
      with ih(1) h(1,2) show ?thesis by fastforce
    qed (use that r h(1-3) in simp)
    then have "\<forall>(c', e') \<in> set (r # rs). p \<le> c' \<and> c' < e' \<and> e' \<le> n" by blast
    moreover have "sorted_wrt (\<lambda>(c, e) (c', e'). e < c') (r # rs)" using ih(2) lt r by auto
    moreover have "\<not> use b \<longleftrightarrow> (\<exists>(c, e) \<in> set (r # rs). c \<le> b \<and> b < e)" if b: "p \<le> b" "b < n" for b
    proof (cases "b < e")
      case True
      then have "\<not> (\<exists>(c, e) \<in> set rs. c \<le> b \<and> b < e)" using ih(1) by fastforce
      with True h(4,5) b(1) r show ?thesis by (cases "b < c") auto
    next
      case False
      with ih(3) [of b] b(2) r show ?thesis by auto
    qed
    ultimately show ?case by blast
  qed auto
  show "\<forall>(c, e) \<in> set rs. p \<le> c \<and> c < e \<and> e \<le> n" using all by blast
  show "sorted_wrt (\<lambda>(c, e) (c', e'). e < c') rs" using all by blast
  show "p \<le> b \<Longrightarrow> b < n \<Longrightarrow> \<not> use b \<longleftrightarrow> (\<exists>(c, e) \<in> set rs. c \<le> b \<and> b < e)" using all by blast
qed

end
