(* ===== verification/Freelist_Store.thy ===== *)
theory Freelist_Store
  imports Freelist_Enum Config_Correct
begin

text \<open>
  The freelist manager from its creation on: \<open>create\<close> writes a consistent bitmap and its geometry, \<open>init\<close> reads the geometry
  back, and the properties of allocation, release and enumeration on a database.
\<close>

declare put_nat.simps [simp del]

section \<open>Creation\<close>

lemma submit_append:
  "submit_transaction (a @ b) db =
     (let (r, db1) = submit_transaction a db in if r \<noteq> 0 then (r, db1) else submit_transaction b db1)"
  by (induction a arbitrary: db) (auto simp: Let_def split: prod.splits)

lemma size_2_blocks:
  assumes "fm_bytes_per_block fm = 2 ^ j" "fm_blocks_per_key fm = 128" "j + 7 < 64" "s * 2 ^ j + 128 * 2 ^ j \<le> 2 ^ 64"
  shows "unat (size_2_block_count fm (addr j s)) = (s + 127) div 128 * 128"
proof -
  have pow: "(2::nat) ^ j \<ge> 1" by simp
  have s: "s * 2 ^ j < 2 ^ 64" using assms(4) pow by linarith
  have s64: "s + 128 \<le> 2 ^ 64"
  proof -
    have "(s + 128) * 1 \<le> (s + 128) * 2 ^ j" by (rule mult_le_mono2) simp
    with assms(4) show ?thesis by (simp add: distrib_right)
  qed
  have d: "unat (addr j s div 2 ^ j) = s" using assms(3) by (simp add: unat_div unat_addr [OF s])
  then have a: "addr j s div 2 ^ j = of_nat s" by (metis of_nat_unat ucast_id)
  have q: "unat (of_nat s div 128 :: u64) = s div 128" using d a by (simp add: unat_div)
  have m: "unat (of_nat s div 128 * 128 :: u64) = s div 128 * 128"
  proof -
    have "s div 128 * 128 < 2 ^ 64" using s64 by linarith
    then show ?thesis using q by (simp add: unat_word_ariths(2))
  qed
  let ?w = "of_nat s :: u64"
  have unw: "unat ?w = s" using d a by simp
  have sz: "size_2_block_count fm (addr j s) = (if ?w div 128 * 128 \<noteq> ?w then (?w div 128 + 1) * 128 else ?w)"
    by (simp only: size_2_block_count_def Let_def assms(1,2) a)
  show ?thesis
  proof (cases "s div 128 * 128 = s")
    case True
    have "?w div 128 * 128 = ?w" by (rule word_unat_eq_iff [THEN iffD2]) (simp only: m unw True)
    then have "size_2_block_count fm (addr j s) = ?w" unfolding sz by (simp only: simp_thms if_False)
    moreover obtain q where "s = q * 128" using True by metis
    then have "(s + 127) div 128 * 128 = s" by simp
    ultimately show ?thesis by (simp only: unw)
  next
    case False
    then have ne: "?w div 128 * 128 \<noteq> ?w" using m unw by metis
    obtain q' r where dm: "s = q' * 128 + r" "r < 128" by (metis div_mod_decomp mod_less_divisor zero_less_numeral)
    then have dq: "s div 128 = q'" by simp
    with False dm have r0: "0 < r" by auto
    have "(s + 127) div 128 = q' + 1" by (rule div_nat_eqI) (use dm r0 in simp_all)
    then have up: "(s + 127) div 128 = s div 128 + 1" using dq by simp
    have "(s div 128 + 1) * 128 < 2 ^ 64" using dm r0 s64 dq by simp
    then have "unat ((?w div 128 + 1) * 128) = (s div 128 + 1) * 128"
      using q by (simp add: unat_word_ariths(1,2))
    moreover have "size_2_block_count fm (addr j s) = (?w div 128 + 1) * 128" unfolding sz using ne by (simp only: simp_thms if_True)
    ultimately show ?thesis by (simp only: up)
  qed
qed

text \<open>An empty database with the XOR operator for the bitmap.\<close>

definition fresh_db :: "bytes \<Rightarrow> MemDB \<Rightarrow> bool" where
  "fresh_db p db \<longleftrightarrow> md_db db = [] \<and> xor_ready p db"

lemma fresh_content: "fresh_db p db \<Longrightarrow> content db q k = None"
  by (simp add: fresh_db_def content_def)

definition meta_txn :: "FreelistManager \<Rightarrow> db_txn" where
  "meta_txn fm =
     [SET (fm_meta_prefix fm) (str ''bytes_per_block'') (le_bytes 8 (fm_bytes_per_block fm)),
      SET (fm_meta_prefix fm) (str ''blocks_per_key'') (le_bytes 8 (fm_blocks_per_key fm)),
      SET (fm_meta_prefix fm) (str ''blocks'') (le_bytes 8 (fm_blocks fm)),
      SET (fm_meta_prefix fm) (str ''size'') (le_bytes 8 (fm_size fm))]"

lemma str_meta_ne:
  "str ''bytes_per_block'' \<noteq> str ''blocks_per_key''" "str ''bytes_per_block'' \<noteq> str ''blocks''"
  "str ''bytes_per_block'' \<noteq> str ''size''" "str ''blocks_per_key'' \<noteq> str ''blocks''"
  "str ''blocks_per_key'' \<noteq> str ''size''" "str ''blocks'' \<noteq> str ''size''"
  by (simp_all add: str_def)

lemma str_meta_less:
  "str ''blocks'' < str ''blocks_per_key''" "str ''blocks_per_key'' < str ''bytes_per_block''"
  "str ''bytes_per_block'' < str ''size''"
  by (simp_all add: str_def)

definition meta_of :: "FreelistManager \<Rightarrow> bytes \<Rightarrow> bytes option" where
  "meta_of fm = [str ''blocks'' \<mapsto> le_bytes 8 (fm_blocks fm), str ''blocks_per_key'' \<mapsto> le_bytes 8 (fm_blocks_per_key fm),
     str ''bytes_per_block'' \<mapsto> le_bytes 8 (fm_bytes_per_block fm), str ''size'' \<mapsto> le_bytes 8 (fm_size fm)]"

lemma submit_meta:
  assumes "md_ok db" "nul_free (fm_meta_prefix fm)"
  shows "\<exists>db'. submit_transaction (meta_txn fm) db = (0, db') \<and> md_ok db' \<and> md_merge_ops db' = md_merge_ops db \<and>
    (\<forall>q k. nul_free q \<longrightarrow> q \<noteq> fm_meta_prefix fm \<longrightarrow> content db' q k = content db q k) \<and>
    ((\<forall>k. content db (fm_meta_prefix fm) k = None) \<longrightarrow> (\<forall>k. content db' (fm_meta_prefix fm) k = meta_of fm k))"
  using assms str_meta_ne
  by (simp add: meta_txn_def run_op_def meta_of_def)

text \<open>The geometry that \<open>create\<close> sets up.\<close>

definition created :: "bytes \<Rightarrow> bytes \<Rightarrow> nat \<Rightarrow> nat \<Rightarrow> FreelistManager" where
  "created mp bp j s = init_misc ((new_FreelistManager mp bp)\<lparr>fm_bytes_per_block := 2 ^ j, fm_size := addr j s,
     fm_blocks_per_key := 128, fm_blocks := of_nat ((s + 127) div 128 * 128)\<rparr>)"

lemma created_sel [simp]:
  "fm_meta_prefix (created mp bp j s) = mp" "fm_bitmap_prefix (created mp bp j s) = bp"
  "fm_size (created mp bp j s) = addr j s" "fm_bytes_per_block (created mp bp j s) = 2 ^ j"
  "fm_blocks_per_key (created mp bp j s) = 128" "fm_blocks (created mp bp j s) = of_nat ((s + 127) div 128 * 128)"
  "\<not> fm_null_manager (created mp bp j s)"
  by (simp_all add: created_def init_misc_def Let_def new_FreelistManager_def)

lemma init_misc_idem: "init_misc (init_misc fm) = init_misc fm"
  by (simp add: init_misc_def Let_def row_bytes_def)

lemma created_geom:
  assumes j: "j + 7 < 64" "s * 2 ^ j + 128 * 2 ^ j \<le> 2 ^ 64"
  shows "unat (fm_blocks (created mp bp j s)) = (s + 127) div 128 * 128" "fm_geom (created mp bp j s) j"
proof -
  let ?n = "(s + 127) div 128 * 128"
  have n: "?n < s + 128" by linarith
  have "?n * 2 ^ j < (s + 128) * 2 ^ j" using n by simp
  then have nb: "?n * 2 ^ j < 2 ^ 64" using j(2) by (simp only: distrib_right)
  have "?n * 1 \<le> ?n * 2 ^ j" by (rule mult_le_mono2) simp
  with nb have "?n < 2 ^ 64" by linarith
  then have un: "unat (of_nat ?n :: u64) = ?n" by (subst unsigned_of_nat) (simp add: take_bit_nat_eq_self)
  then show bl: "unat (fm_blocks (created mp bp j s)) = ?n" by simp
  have "init_misc (created mp bp j s) = created mp bp j s" unfolding created_def by (rule init_misc_idem)
  then show "fm_geom (created mp bp j s) j"
    unfolding fm_geom_def bl using j(1) nb by simp
qed

lemma fm_create_unfold:
  fixes mp bp :: bytes
  assumes "j + 7 < 64" "s * 2 ^ j + 128 * 2 ^ j \<le> 2 ^ 64" "unat new_size div 2 ^ j = s"
  defines "fm \<equiv> created mp bp j s" and "n \<equiv> (s + 127) div 128 * 128"
  shows "fm_create new_size (2 ^ j) [] (new_FreelistManager mp bp) =
    (case (if s < n then fm_xor fm (addr j s) (addr j (n - s)) [] else Some []) of
       None \<Rightarrow> None
     | Some txn1 \<Rightarrow> (case fm_xor fm 0 (addr j 1) txn1 of
         None \<Rightarrow> None
       | Some txn2 \<Rightarrow> Some (0, fm, txn2 @ meta_txn fm)))"
proof -
  let ?fm1 = "init_misc ((new_FreelistManager mp bp)\<lparr>fm_bytes_per_block := 2 ^ j, fm_size := addr j s, fm_blocks_per_key := 128\<rparr>)"
  have j64: "j < 64" using assms(1) by simp
  have p2: "\<not> is_power_of_2 (2 ^ j) \<longleftrightarrow> False" using isp2_exp [OF j64] j64 unat_exp_u64 [OF j64]
    by (simp add: is_power_of_2_def isp2_def unat_gt_0 [symmetric])
  have sz: "new_size AND NOT (2 ^ j - 1) = addr j s"
    by (rule addr_unat) (simp add: unat_and_mask assms(3) [symmetric] minus_mod_eq_div_mult)
  have fs: "fm_size ?fm1 = addr j s" by (simp add: init_misc_def Let_def)
  have bl: "size_2_block_count ?fm1 (addr j s) = of_nat n"
  proof -
    have "unat (size_2_block_count ?fm1 (addr j s)) = n" unfolding n_def
      by (rule size_2_blocks) (use assms(1,2) in \<open>simp_all add: init_misc_def Let_def\<close>)
    then show ?thesis by (metis of_nat_unat ucast_id)
  qed
  have fm: "?fm1\<lparr>fm_blocks := of_nat n\<rparr> = fm"
    by (simp add: fm_def created_def init_misc_def Let_def row_bytes_def n_def)
  have N: "fm_blocks fm * fm_bytes_per_block fm = addr j n" "fm_size fm = addr j s" "fm_bytes_per_block fm = addr j 1"
    by (simp_all add: fm_def n_def addr_def)
  have nle: "s \<le> n" "n < s + 128" unfolding n_def by linarith+
  have lt: "addr j n > addr j s \<longleftrightarrow> s < n"
  proof (rule addr_less)
    have "n * 2 ^ j < (s + 128) * 2 ^ j" using nle(2) by simp
    then show nb: "n * 2 ^ j < 2 ^ 64" using assms(2) by (simp only: distrib_right)
    show "s * 2 ^ j < 2 ^ 64" by (rule le_less_trans [OF mult_le_mono1 [OF nle(1)] nb])
  qed
  have meta: "set_meta fm ''size'' (fm_size fm) (set_meta fm ''blocks'' (fm_blocks fm)
      (set_meta fm ''blocks_per_key'' (fm_blocks_per_key fm) (set_meta fm ''bytes_per_block'' (fm_bytes_per_block fm) t)))
    = t @ meta_txn fm" for t by (simp add: set_meta_def txn_set_def meta_txn_def)
  show ?thesis
    unfolding fm_create_def Let_def p2 if_False sz fs bl fm meta
    unfolding N(1) unfolding N lt addr_diff [OF nle(1)] by (rule refl)
qed

lemma fm_create_ok:
  fixes mp bp :: bytes
  assumes j: "j + 7 < 64" "s * 2 ^ j + 128 * 2 ^ j \<le> 2 ^ 64" and s: "unat new_size div 2 ^ j = s" "0 < s"
    and db: "fresh_db bp db" "nul_free mp" "mp \<noteq> bp"
  defines "fm \<equiv> created mp bp j s"
  shows "\<exists>txn db'. fm_create new_size (2 ^ j) [] (new_FreelistManager mp bp) = Some (0, fm, txn) \<and>
    submit_transaction txn db = (0, db') \<and> freelist_ok db' fm j s \<and>
    (\<forall>b < unat (fm_blocks fm). in_use db' fm b \<longleftrightarrow> b = 0 \<or> s \<le> b) \<and>
    (\<forall>k. content db' mp k = meta_of fm k)"
proof -
  let ?n = "(s + 127) div 128 * 128"
  have n: "unat (fm_blocks fm) = ?n" and g: "fm_geom fm j" unfolding fm_def by (rule created_geom [OF j])+
  have p: "fm_meta_prefix fm = mp" "fm_bitmap_prefix fm = bp" "fm_size fm = addr j s" by (simp_all add: fm_def)
  have nle: "s \<le> ?n" by linarith
  have ok0: "bitmap_ok db fm" and none: "\<And>q k. content db q k = None"
    using db(1) fresh_content [OF db(1)] by (auto simp: bitmap_ok_def p fresh_db_def)
  have u0: "\<not> used db fm b" for b by (simp add: used_def none)
  obtain ms1 db1 where 1: "(if s < ?n then fm_xor fm (addr j s) (addr j (?n - s)) [] else Some []) = Some ms1"
    "submit_transaction ms1 db = (0, db1)" "bitmap_ok db1 fm" "\<forall>k. content db1 mp k = None"
    "\<forall>x < ?n. used db1 fm x \<longleftrightarrow> s \<le> x"
  proof (cases "s < ?n")
    case True
    then have "0 < ?n - s" "s + (?n - s) \<le> unat (fm_blocks fm)" unfolding n by simp_all
    from submit_change [OF g ok0 this, of "[]"] u0 none db(2,3) p True that show ?thesis by (auto simp: n)
  next
    case False
    then have "s = ?n" using nle by simp
    with False ok0 none u0 that show ?thesis by auto
  qed
  have "0 + 1 \<le> unat (fm_blocks fm)" using s(2) nle n by simp
  from submit_change [OF g 1(3) zero_less_one this, of ms1] obtain ms2 db2 where
    2: "fm_xor fm (addr j 0) (addr j 1) ms1 = Some (ms1 @ ms2)" "submit_transaction ms2 db1 = (0, db2)" "bitmap_ok db2 fm"
    "\<forall>k. content db2 mp k = None" "\<forall>x < ?n. used db2 fm x \<longleftrightarrow> used db1 fm x \<noteq> (x = 0)"
    using 1(4) db(2,3) p n by auto
  have "md_ok db2" "nul_free (fm_meta_prefix fm)" using 2(3) db(2) p by (auto simp: bitmap_ok_def xor_ready_def)
  from submit_meta [OF this] obtain db3 where
    3: "submit_transaction (meta_txn fm) db2 = (0, db3)" "md_ok db3" "md_merge_ops db3 = md_merge_ops db2"
    "\<forall>q k. nul_free q \<longrightarrow> q \<noteq> mp \<longrightarrow> content db3 q k = content db2 q k" "\<forall>k. content db3 mp k = meta_of fm k"
    using 2(4) p by auto
  have nb: "nul_free bp" using db(1) by (simp add: fresh_db_def xor_ready_def)
  have same: "content db3 bp = content db2 bp" using 3(4) nb db(3) by auto
  then have b3: "bitmap_ok db3 fm" "used db3 fm = used db2 fm"
    using 2(3) 3(2) find_merge_op_cong [OF 3(3)] by (auto simp: bitmap_ok_def xor_ready_def p used_def fun_eq_iff)
  have use: "in_use db3 fm b \<longleftrightarrow> b = 0 \<or> s \<le> b" if "b < ?n" for b
    using that 1(5) 2(5) b3(2) s(2) by (auto simp: in_use_def n)
  have "freelist_ok db3 fm j s"
    using g b3(1) use nle s(2) p by (auto simp: freelist_ok_def n)
  moreover have "submit_transaction (ms1 @ ms2 @ meta_txn fm) db = (0, db3)"
    by (simp add: submit_append 1(2) 2(2) 3(1))
  moreover have "fm_create new_size (2 ^ j) [] (new_FreelistManager mp bp) = Some (0, fm, ms1 @ ms2 @ meta_txn fm)"
  proof -
    have "addr j 0 = 0" by (simp add: addr_def)
    then have 20: "fm_xor fm 0 (addr j 1) ms1 = Some (ms1 @ ms2)" using 2(1) by simp
    show ?thesis unfolding fm_create_unfold [OF j s(1), of mp bp, folded fm_def] 1(1) option.case 20 by simp
  qed
  ultimately show ?thesis using use 3(5)
    by (intro exI [of _ "ms1 @ ms2 @ meta_txn fm"] exI [of _ db3]) (simp add: n)
qed

section \<open>Loading\<close>

fun load_rows :: "(bytes \<times> bytes) list \<Rightarrow> FreelistManager \<Rightarrow> FreelistManager option" where
  "load_rows [] fm = Some fm"
| "load_rows ((k, v) # rs) fm = (case load_entry k v fm of None \<Rightarrow> None | Some fm' \<Rightarrow> load_rows rs fm')"

lemma load_loop_rows: "load_loop it fm = load_rows (pi_rows it) fm"
proof (induction it fm rule: load_loop.induct)
  case (1 it fm)
  show ?case
  proof (cases "pi_valid it")
    case True
    then show ?thesis using 1 [OF True] pi_rows_current [OF True]
      by (subst load_loop.simps) (auto split: option.splits)
  next
    case False
    then show ?thesis by (subst load_loop.simps) (simp add: pi_valid_rows)
  qed
qed

lemma om_ok_unique:
  fixes a b :: "('k::linorder \<times> 'v::linorder) list"
  assumes "om_ok a" "om_ok b" "set a = set b"
  shows "a = b"
proof -
  have lex: "sorted_wrt (<) m" if "om_ok m" for m :: "('k \<times> 'v) list"
    using that unfolding om_ok_def sorted_wrt_map
    by (rule sorted_wrt_mono_rel [rotated]) (simp add: less_prod_def)
  show ?thesis using strict_sorted_equal [OF lex lex] assms by metis
qed

definition meta_rows :: "FreelistManager \<Rightarrow> (bytes \<times> bytes) list" where
  "meta_rows fm =
     [(str ''blocks'', le_bytes 8 (fm_blocks fm)), (str ''blocks_per_key'', le_bytes 8 (fm_blocks_per_key fm)),
      (str ''bytes_per_block'', le_bytes 8 (fm_bytes_per_block fm)), (str ''size'', le_bytes 8 (fm_size fm))]"

lemma meta_rows_ok: "om_ok (meta_rows fm)" "(k, v) \<in> set (meta_rows fm) \<longleftrightarrow> meta_of fm k = Some v"
  using str_meta_ne str_meta_less
  by (auto simp: meta_rows_def om_ok_def meta_of_def intro: less_trans)

lemma load_meta:
  assumes "md_ok db" "nul_free mp" "\<forall>k. content db mp k = meta_of fm k" "fm_meta_prefix fm0 = mp"
  shows "load_from_db db fm0 = Some (fm0\<lparr>fm_blocks := fm_blocks fm, fm_blocks_per_key := fm_blocks_per_key fm,
    fm_bytes_per_block := fm_bytes_per_block fm, fm_size := fm_size fm\<rparr>)"
proof -
  let ?rows = "pi_rows (pi_lower_bound db [] (get_iterator mp no_bounds db))"
  have r: "om_ok ?rows" "(k, v) \<in> set ?rows \<longleftrightarrow> content db mp k = Some v" for k v
    using pi_lower_bound_rows [OF assms(1) _ get_iterator_coherent, where to = "[]"] assms(2)
    by (simp_all add: no_bounds_def in_upper_def)
  have "?rows = meta_rows fm"
    by (rule om_ok_unique [OF r(1) meta_rows_ok(1)]) (use r(2) meta_rows_ok(2) assms(3) in auto)
  then show ?thesis using str_meta_ne
    by (simp add: load_from_db_def assms(4) load_loop_rows meta_rows_def load_entry_def)
qed

lemma stoull_put_u64: "stoull (put_u64 x) = Some x"
proof -
  note d = put_nat_digits [of "unat x"]
  obtain c t where ct: "put_u64 x = c # t" using d(3) by (cases "put_u64 x") (auto simp: put_u64_def)
  have c: "is_digit c" "\<forall>y \<in> set (put_u64 x). is_digit y" using d(1) ct by (auto simp: all_digits_def put_u64_def)
  have "\<not> is_space_char c" "c \<noteq> chr ''-''" "c \<noteq> chr ''+''"
    using c(1) by (auto simp: is_space_char_def is_digit_def word_le_nat_alt)
  then have "split_sign (dropWhile is_space_char (put_u64 x)) = (False, put_u64 x)"
    by (simp add: ct split_sign_def)
  moreover have "takeWhile is_digit (put_u64 x) = put_u64 x" using c(2) by simp
  moreover have "put_u64 x \<noteq> []" "dec_value (put_u64 x) = unat x" using d(2) ct by (simp_all add: put_u64_def)
  ultimately show ?thesis using unat_lt_u64 [of x]
    by (simp add: stoull_def Let_def takeWhile_eq_all_conv [THEN iffD2] not_le)
qed

definition meta_reader :: "(string \<times> bytes) list \<Rightarrow> cfg_reader" where
  "meta_reader m = Some (\<lambda>k. case map_of m k of None \<Rightarrow> (- ENOENT, []) | Some v \<Rightarrow> (0, v))"

lemma read_meta:
  "read_cfg (meta_reader (get_meta 0 fm)) fm0 = Some (0, fm0\<lparr>fm_size := fm_size fm, fm_blocks := fm_blocks fm,
     fm_bytes_per_block := fm_bytes_per_block fm, fm_blocks_per_key := fm_blocks_per_key fm\<rparr>)"
  by (simp add: read_cfg_def meta_reader_def get_meta_def stoull_put_u64)

section \<open>Properties\<close>

text \<open>On an empty database, \<open>create\<close> and the commit of its transaction give a consistent bitmap in which exactly block 0 and
  the padding beyond the size of the device are in use, and a manager that is initialised later, from the database or
  from the entries of \<open>get_meta\<close>, has the same geometry as the one that created it.\<close>

theorem freelist_create_init:
  assumes "j + 7 < 64" "s * 2 ^ j + 128 * 2 ^ j \<le> 2 ^ 64" "unat new_size div 2 ^ j = s" "0 < s"
    and "fresh_db bp db" "nul_free mp" "mp \<noteq> bp"
  shows "\<exists>fm txn db'. fm_create new_size (2 ^ j) [] (new_FreelistManager mp bp) = Some (0, fm, txn) \<and>
    submit_transaction txn db = (0, db') \<and> freelist_ok db' fm j s \<and>
    (\<forall>b < unat (fm_blocks fm). in_use db' fm b \<longleftrightarrow> b = 0 \<or> s \<le> b) \<and>
    fm_init db' None (new_FreelistManager mp bp) = Some (0, fm) \<and>
    fm_init db' (meta_reader (get_meta 0 fm)) (new_FreelistManager mp bp) = Some (0, fm)"
proof -
  let ?fm = "created mp bp j s" and ?new = "new_FreelistManager mp bp"
  obtain txn db' where c: "fm_create new_size (2 ^ j) [] ?new = Some (0, ?fm, txn)" "submit_transaction txn db = (0, db')"
    "freelist_ok db' ?fm j s" "\<forall>b < unat (fm_blocks ?fm). in_use db' ?fm b \<longleftrightarrow> b = 0 \<or> s \<le> b"
    "\<forall>k. content db' mp k = meta_of ?fm k"
    using fm_create_ok [OF assms] by blast
  have md: "md_ok db'" using c(3) by (auto simp: freelist_ok_def bitmap_ok_def xor_ready_def)
  have "load_from_db db' ?new = Some (?new\<lparr>fm_blocks := fm_blocks ?fm, fm_blocks_per_key := fm_blocks_per_key ?fm,
      fm_bytes_per_block := fm_bytes_per_block ?fm, fm_size := fm_size ?fm\<rparr>)"
    by (rule load_meta [OF md assms(6) c(5)]) (simp add: new_FreelistManager_def)
  then have "fm_init db' None ?new = Some (0, ?fm)"
    by (simp add: fm_init_def read_cfg_def) (simp add: created_def new_FreelistManager_def)
  moreover have "fm_init db' (meta_reader (get_meta 0 ?fm)) ?new = Some (0, ?fm)"
    by (simp add: fm_init_def read_meta) (simp add: created_def new_FreelistManager_def)
  ultimately show ?thesis using c(1-4) by blast
qed

definition demo_fl :: FreelistManager where
  "demo_fl = created [66] [98] 12 100"

definition demo_fl_db :: MemDB where
  "demo_fl_db = (case fm_create 409600 4096 [] (new_FreelistManager [66] [98]) of
                   Some (r, fm, t) \<Rightarrow> snd (submit_transaction t demo_db) | None \<Rightarrow> demo_db)"

lemma demo_fresh: "fresh_db [98] demo_db"
  by (simp add: fresh_db_def xor_ready_def demo_db_def set_merge_operator_def new_MemDB_def md_ok_def om_ok_def
      nul_free_def find_merge_op_def)

lemma demo_freelist:
  "freelist_ok demo_fl_db demo_fl 12 100" "unat (fm_blocks demo_fl) = 128"
  "b < 128 \<Longrightarrow> in_use demo_fl_db demo_fl b \<longleftrightarrow> b = 0 \<or> 100 \<le> b"
proof -
  have e: "(2::u64) ^ 12 = 4096" "unat (409600::u64) div 2 ^ 12 = 100" by simp_all
  show n: "unat (fm_blocks demo_fl) = 128" by (simp add: demo_fl_def)
  obtain txn db' where c: "fm_create 409600 (2 ^ 12) [] (new_FreelistManager [66] [98]) = Some (0, demo_fl, txn)"
    "submit_transaction txn demo_db = (0, db')" "freelist_ok db' demo_fl 12 100"
    "\<forall>b < unat (fm_blocks demo_fl). in_use db' demo_fl b \<longleftrightarrow> b = 0 \<or> 100 \<le> b"
    unfolding demo_fl_def using fm_create_ok [of 12 100 409600 "[98]" demo_db "[66]", OF _ _ e(2) _ demo_fresh]
    by (auto simp: nul_free_def)
  then have "db' = demo_fl_db" by (simp add: demo_fl_db_def)
  with c(3,4) n show "freelist_ok demo_fl_db demo_fl 12 100"
    "b < 128 \<Longrightarrow> in_use demo_fl_db demo_fl b \<longleftrightarrow> b = 0 \<or> 100 \<le> b" by auto
qed

lemma freelist_create_init_witness:
  "\<exists>fm txn db'. fm_create 409600 4096 [] (new_FreelistManager [66] [98]) = Some (0, fm, txn) \<and>
    submit_transaction txn demo_db = (0, db') \<and> in_use db' fm 0 \<and> \<not> in_use db' fm 7 \<and>
    fm_init db' None (new_FreelistManager [66] [98]) = Some (0, fm)"
proof -
  have e: "(2::u64) ^ 12 = 4096" "unat (409600::u64) div 2 ^ 12 = 100" by simp_all
  from freelist_create_init [of 12 100 409600 "[98]" demo_db "[66]", OF _ _ e(2) _ demo_fresh]
  show ?thesis by (auto simp: nul_free_def freelist_ok_def in_use_def)
qed

text \<open>C19: Allocating or releasing a range of blocks of the device and committing the transaction succeeds and flips exactly the
  blocks of the range; everything else of the bitmap and its consistency is kept.\<close>

theorem freelist_change_exact:
  assumes ok: "freelist_ok db fm j s" and l: "0 < b" "0 < l" "b + l \<le> s"
  shows "\<exists>ms db'. fm_allocate fm (addr j b) (addr j l) txn = Some (txn @ ms) \<and>
    fm_release fm (addr j b) (addr j l) txn = Some (txn @ ms) \<and>
    submit_transaction ms db = (0, db') \<and> freelist_ok db' fm j s \<and>
    (\<forall>x < unat (fm_blocks fm). in_use db' fm x \<longleftrightarrow> in_use db fm x \<noteq> (b \<le> x \<and> x < b + l))"
proof -
  have g: "fm_geom fm j" and b: "bitmap_ok db fm" and f: "in_use db fm 0" "fm_size fm = addr j s" "s \<le> unat (fm_blocks fm)"
    "\<forall>x. s \<le> x \<and> x < unat (fm_blocks fm) \<longrightarrow> in_use db fm x"
    using ok by (auto simp: freelist_ok_def)
  have "b + l \<le> unat (fm_blocks fm)" using l(3) f(3) by simp
  from submit_change [OF g b l(2) this, of txn] obtain ms db' where
    c: "fm_xor fm (addr j b) (addr j l) txn = Some (txn @ ms)" "submit_transaction ms db = (0, db')" "bitmap_ok db' fm"
    "\<forall>x < unat (fm_blocks fm). used db' fm x \<longleftrightarrow> used db fm x \<noteq> (b \<le> x \<and> x < b + l)" by blast
  have flips: "\<forall>x < unat (fm_blocks fm). in_use db' fm x \<longleftrightarrow> in_use db fm x \<noteq> (b \<le> x \<and> x < b + l)"
    using c(4) by (simp add: in_use_def)
  have "0 < unat (fm_blocks fm)" using f(1) by (simp add: in_use_def)
  then have "freelist_ok db' fm j s"
    using g c(3) f l flips by (auto simp: freelist_ok_def)
  moreover have "\<not> fm_null_manager fm" using g by (simp add: fm_geom_def)
  ultimately show ?thesis using c(1,2) flips
    by (intro exI [of _ ms] exI [of _ db']) (simp add: fm_allocate_def fm_release_def)
qed

lemma freelist_change_exact_witness:
  "\<exists>ms db'. fm_allocate demo_fl (addr 12 3) (addr 12 4) [] = Some ms \<and> submit_transaction ms demo_fl_db = (0, db') \<and>
    in_use db' demo_fl 6 \<and> \<not> in_use db' demo_fl 7"
proof -
  obtain ms db' where "fm_allocate demo_fl (addr 12 3) (addr 12 4) [] = Some ms" "submit_transaction ms demo_fl_db = (0, db')"
    "\<forall>x < 128. in_use db' demo_fl x \<longleftrightarrow> in_use demo_fl_db demo_fl x \<noteq> (3 \<le> x \<and> x < 7)"
    using freelist_change_exact [OF demo_freelist(1), of 3 4 "[]"] demo_freelist(2) by auto
  then show ?thesis using demo_freelist(3) by (intro exI [of _ ms] exI [of _ db']) simp
qed

text \<open>C18: A client that resets the enumeration and calls \<open>enumerate_next\<close> until it returns false gets, in ascending order, ranges of
  whole blocks that cover exactly the blocks not in use, each as long as possible, after at most one call more than there
  are blocks.\<close>

theorem freelist_enumerates_free:
  assumes ok: "freelist_ok db fm j s" and n: "unat (fm_blocks fm) < n"
  shows "\<exists>ranges. enumerate_all n db (enumerate_reset fm) = Some ranges \<and>
    (\<forall>b < unat (fm_blocks fm). \<not> in_use db fm b \<longleftrightarrow>
       (\<exists>(offset, len) \<in> set ranges. unat offset \<le> b * 2 ^ j \<and> b * 2 ^ j < unat offset + unat len)) \<and>
    (\<forall>(offset, len) \<in> set ranges. 0 < unat len \<and> 2 ^ j dvd unat offset \<and> 2 ^ j dvd unat len) \<and>
    sorted_wrt (\<lambda>(offset, len) (offset', len'). unat offset + unat len < unat offset') ranges"
proof -
  let ?N = "unat (fm_blocks fm)" and ?fm = "enumerate_reset fm"
  have same: "same_fl ?fm fm" by (simp add: same_fl_def enumerate_reset_def)
  note cong = same_fl_fields [OF same] same_fl_cong [OF same]
  have "enum_state db ?fm j 0" by (simp add: enum_state_def enumerate_reset_def)
  from enumerate_all_runs [OF _ this, of s n] ok n obtain rs where
    rs: "enumerate_all n db ?fm = Some (map (\<lambda>(c, e). (addr j c, addr j (e - c))) rs)" "runs_from (in_use db fm) ?N 0 rs"
    by (auto simp: cong)
  note props = runs_from_props [OF rs(2)]
  have bnd: "x * 2 ^ j < 2 ^ 64" if "x \<le> ?N" for x
    by (rule le_less_trans [OF mult_le_mono1 [OF that]]) (use ok in \<open>simp add: freelist_ok_def fm_geom_def\<close>)
  have un: "unat (addr j c) = c * 2 ^ j" "unat (addr j (e - c)) = (e - c) * 2 ^ j" "c < e" if "(c, e) \<in> set rs" for c e
  proof -
    have "c < e \<and> e \<le> ?N" using props(1) that by auto
    moreover from this have "e - c \<le> ?N" by linarith
    ultimately show "unat (addr j c) = c * 2 ^ j" "unat (addr j (e - c)) = (e - c) * 2 ^ j" "c < e"
      using unat_addr [OF bnd, of c] unat_addr [OF bnd, of "e - c"] by simp_all
  qed
  have sum: "c * 2 ^ j + (e - c) * 2 ^ j = e * 2 ^ j" if "c < e" for c e :: nat
    using that by (simp add: diff_mult_distrib)
  let ?out = "\<lambda>(c, e). (addr j c, addr j (e - c))"
  have "\<not> in_use db fm b \<longleftrightarrow> (\<exists>(offset, len) \<in> set (map ?out rs). unat offset \<le> b * 2 ^ j \<and> b * 2 ^ j < unat offset + unat len)"
    if b: "b < ?N" for b
  proof -
    have "(\<exists>(offset, len) \<in> set (map ?out rs). unat offset \<le> b * 2 ^ j \<and> b * 2 ^ j < unat offset + unat len) \<longleftrightarrow>
        (\<exists>(c, e) \<in> set rs. unat (addr j c) \<le> b * 2 ^ j \<and> b * 2 ^ j < unat (addr j c) + unat (addr j (e - c)))"
      by (auto simp: case_prod_unfold)
    also have "\<dots> \<longleftrightarrow> (\<exists>(c, e) \<in> set rs. c \<le> b \<and> b < e)"
      by (rule bex_cong [OF refl]) (auto simp: un sum)
    finally show ?thesis using props(3) [of b] b by simp
  qed
  moreover have "0 < unat len \<and> 2 ^ j dvd unat offset \<and> 2 ^ j dvd unat len" if ol: "(offset, len) \<in> set (map ?out rs)" for offset len
  proof -
    obtain c e where ce: "(c, e) \<in> set rs" "offset = addr j c" "len = addr j (e - c)" using ol by auto
    with un [OF ce(1)] show ?thesis by simp
  qed
  moreover have "sorted_wrt (\<lambda>(offset, len) (offset', len'). unat offset + unat len < unat offset') (map ?out rs)"
    unfolding sorted_wrt_map
  proof (rule sorted_wrt_mono_rel [OF _ props(2)])
    fix x y assume x: "x \<in> set rs" "y \<in> set rs" "(\<lambda>(c, e) (c', e'). e < c') x y"
    obtain c e c' e' where xy: "x = (c, e)" "y = (c', e')" by (metis prod.exhaust)
    show "(\<lambda>(offset, len) (offset', len'). unat offset + unat len < unat offset') (?out x) (?out y)"
      using un [OF x(1) [unfolded xy]] un [OF x(2) [unfolded xy]] x(3) unfolding xy by (simp add: sum)
  qed simp
  ultimately show ?thesis using rs(1) by (intro exI [of _ "map ?out rs"]) blast
qed

lemma freelist_enumerates_free_witness:
  "\<exists>ranges. enumerate_all 129 demo_fl_db (enumerate_reset demo_fl) = Some ranges \<and>
    (\<exists>(offset, len) \<in> set ranges. unat offset \<le> 7 * 4096 \<and> 7 * 4096 < unat offset + unat len)"
  using freelist_enumerates_free [OF demo_freelist(1), of 129] demo_freelist(2) demo_freelist(3) [of 7] by auto

end
