(* ===== verification/Migration_Correct.thy ===== *)
theory Migration_Correct
  imports Engine_Refines
begin

text \<open>
  Moving an extent between tiers keeps what the engine stores, as long as the destination is on the tier it was
  asked from and is long enough.
\<close>

section \<open>Pieces\<close>

lemma bytes_at_slice:
  assumes "i + n \<le> m"
  shows "bytes_at d (a + i) n = take n (drop i (bytes_at d a m))"
proof -
  have "bytes_at d a m = bytes_at d a i @ bytes_at d (a + i) n @ bytes_at d (a + i + n) (m - (i + n))"
    using bytes_at_append [of d a i "m - i"] bytes_at_append [of d "a + i" n "m - (i + n)"] assms
    by (simp add: add.assoc)
  then show ?thesis by simp
qed

text \<open>Raw space depends on the allocators only.\<close>

lemma alloc_space_frame:
  assumes "em_alloc em1 = em_alloc em" "em_block_size em1 = em_block_size em"
  shows "alloc_space t sz em1 = map_option (\<lambda>(r, em'). (r, em1\<lparr>em_alloc := em_alloc em'\<rparr>)) (alloc_space t sz em)"
  using assms
  by (cases "em_alloc em t")
    (auto simp: alloc_space_def Let_def add_allocator_def option.map_comp comp_def case_prod_unfold intro!: option.map_cong0)

lemma allocate_raw_frame:
  assumes "em_alloc em1 = em_alloc em" "em_block_size em1 = em_block_size em"
  shows "map_option fst (allocate_raw t sz em1) = map_option fst (allocate_raw t sz em)"
proof (cases "alloc_space t sz em")
  case None
  then show ?thesis using alloc_space_frame [OF assms, of t sz] by (simp add: allocate_raw_def)
next
  case (Some p)
  obtain s em' where p: "p = (s, em')" by (cases p)
  have 1: "alloc_space t sz em1 = Some (s, em1\<lparr>em_alloc := em_alloc em'\<rparr>)"
    using Some p alloc_space_frame [OF assms, of t sz] by simp
  have bs: "em_block_size (em1\<lparr>em_alloc := em_alloc em'\<rparr>) = em_block_size em'"
    using Some p assms(2) by (auto simp: alloc_space_def Let_def add_allocator_def split: option.splits)
  have "alloc_space SLOW sz (em1\<lparr>em_alloc := em_alloc em'\<rparr>) =
      map_option (\<lambda>(r, e). (r, em1\<lparr>em_alloc := em_alloc em', em_alloc := em_alloc e\<rparr>)) (alloc_space SLOW sz em')"
    by (rule alloc_space_frame) (use bs in simp_all)
  then show ?thesis
    using Some p 1 by (cases s) (auto simp: allocate_raw_def allocate_raw_slow_def option.map_comp comp_def case_prod_unfold)
qed

lemma allocate_raw_total: "em_inv em G \<Longrightarrow> \<exists>r em'. allocate_raw t sz em = Some (r, em')"
proof -
  assume inv: "em_inv em G"
  from alloc_space_total [OF inv] obtain s em1 where s: "alloc_space t sz em = Some (s, em1)" by blast
  show ?thesis
  proof (cases s)
    case Too_Little
    then have "em_inv em1 G" using em_inv_alloc_space(1) [OF inv s] by simp
    from alloc_space_total [OF this] obtain s2 em2 where "alloc_space SLOW sz em1 = Some (s2, em2)" by blast
    then show ?thesis using s Too_Little by (simp add: allocate_raw_def allocate_raw_slow_def)
  qed (use s in \<open>simp_all add: allocate_raw_def\<close>)
qed

text \<open>A destination on the tier asked for comes from that tier's allocator.\<close>

lemma allocate_raw_geom:
  assumes inv: "em_inv em G" and g: "geom em" and t: "named_tier t" and sz: "unat sz + unat (em_block_size em) \<le> 2 ^ 31"
    and nz: "0 < unat sz" and a: "allocate_raw t sz em = Some (r, em')"
  shows "geom em'" "em_dev em' = em_dev em" "em_lookup em' = em_lookup em" "em_block_size em' = em_block_size em"
    "r = Some l \<Longrightarrow> named_tier (dl_tier l) \<and> 4096 \<le> unat (dl_length l) \<and> unat (dl_length l) < 2 ^ 31 \<and>
       4096 dvd unat (dl_offset l)"
proof -
  obtain s em1 where s: "alloc_space t sz em = Some (s, em1)" using a by (auto simp: allocate_raw_def split: option.splits)
  note A = alloc_space_geom [OF inv g t sz nz s]
  note I = em_inv_alloc_space [OF inv s]
  have "geom em' \<and> em_dev em' = em_dev em \<and> em_lookup em' = em_lookup em \<and> em_block_size em' = em_block_size em \<and>
    (\<forall>l. r = Some l \<longrightarrow> named_tier (dl_tier l) \<and> 4096 \<le> unat (dl_length l) \<and> unat (dl_length l) < 2 ^ 31 \<and>
       4096 dvd unat (dl_offset l))"
  proof (cases s)
    case (Space l)
    then show ?thesis using a s A I(2) t by (auto simp: allocate_raw_def)
  next
    case Too_Little
    then have i1: "em_inv em1 G" using I(1) by simp
    show ?thesis
    proof (cases "t = FAST")
      case True
      then obtain s2 where s2: "alloc_space SLOW sz em1 = Some (s2, em')" "r = (case s2 of Space l \<Rightarrow> Some l | _ \<Rightarrow> None)"
        using a s Too_Little by (auto simp: allocate_raw_def allocate_raw_slow_def)
      have sz1: "unat sz + unat (em_block_size em1) \<le> 2 ^ 31" using sz A(4) by simp
      have sl: "named_tier SLOW" by (simp add: named_tier_def)
      note B = alloc_space_geom [OF i1 A(1) sl sz1 nz s2(1)]
      show ?thesis using B A s2(2) em_inv_alloc_space(2) [OF i1 s2(1)] sl by (cases s2) auto
    qed (use a s Too_Little A in \<open>auto simp: allocate_raw_def\<close>)
  next
    case No_Allocator
    then show ?thesis using a s A by (auto simp: allocate_raw_def)
  qed
  then show "geom em'" "em_dev em' = em_dev em" "em_lookup em' = em_lookup em" "em_block_size em' = em_block_size em"
    "r = Some l \<Longrightarrow> named_tier (dl_tier l) \<and> 4096 \<le> unat (dl_length l) \<and> unat (dl_length l) < 2 ^ 31 \<and>
       4096 dvd unat (dl_offset l)" by auto
qed

text \<open>Rewriting the metrics word of an extent.\<close>

lemma raw_update_ok:
  assumes ok: "store_ok ds em km pend" and e: "em_lookup em k = Some e"
  shows "store_ok ds (set_entry k (e\<lparr>ee_raw := w\<rparr>) em) km pend"
    "kept (ran (km_lookup km)) em (set_entry k (e\<lparr>ee_raw := w\<rparr>) em)"
proof -
  let ?em = "set_entry k (e\<lparr>ee_raw := w\<rparr>) em"
  have o: "em_inv em [journal_loc ds]" "geom em" "keys_ok em km pend" using ok by (simp_all add: store_ok_def)
  have ent: "entry_ok (e\<lparr>ee_raw := w\<rparr>)" using o(2) e by (auto simp: geom_def entry_ok_def)
  note U = entry_update [OF o(2) keys_ok_slots [OF o(3)] e _ _ ent, of ?em]
  show kp: "kept (ran (km_lookup km)) em ?em" using U(2) by simp
  have "keys_ok ?em km (pend(k := pend k))"
    by (rule live_update [OF o(3) e _ kp, where e' = "e\<lparr>ee_raw := w\<rparr>"])
      (use keys_ok_live [OF o(3) e] in simp_all)
  moreover have "em_inv ?em [journal_loc ds]" by (rule em_inv_quiet [OF o(1) quiet_set_entry [OF e]]) simp
  ultimately show "store_ok ds ?em km pend" using U(1) by (simp add: store_ok_def)
qed

lemma abort_ok:
  assumes "store_ok ds em km pend"
  shows "store_ok ds (abort_migration h em) km pend \<and> kept (ran (km_lookup km)) em (abort_migration h em)"
proof (cases "em_lookup em (mh_extent_id h)")
  case None
  then show ?thesis using assms keys_ok_slots by (auto simp: abort_migration_def kept_def store_ok_def)
next
  case (Some e)
  then show ?thesis using assms raw_update_ok [OF assms Some] keys_ok_slots
    by (auto simp: abort_migration_def kept_def store_ok_def Let_def)
qed


text \<open>Writing to space that was handed out and is not yet an extent.\<close>

lemma raw_write_ok:
  assumes inv: "em_inv em (l # G)" and g: "geom em" and K: "keys_ok em km pend" and l: "named_tier (dl_tier l)"
      "unat (dl_length l) < 2 ^ 31"
    and d: "length bl \<le> unat (dl_length l)" "0 < length bl"
  shows "\<exists>d em'. tier_write (dl_tier l) (dl_offset l) bl em = Some (int (length bl), em') \<and>
    em' = add_block_device (dl_tier l) d em \<and> bytes_at d (unat (dl_offset l)) (length bl) = bl \<and>
    em_inv em' (l # G) \<and> geom em' \<and> keys_ok em' km pend \<and> kept (ran (km_lookup km)) em em' \<and>
    (\<forall>k e. em_lookup em k = Some e \<longrightarrow> (\<exists>d0 d1. em_dev em (dl_tier (ee_location e)) = Some d0 \<and>
       em_dev em' (dl_tier (ee_location e)) = Some d1 \<and>
       bytes_at d1 (unat (dl_offset (ee_location e))) (unat (dl_length (ee_location e))) =
       bytes_at d0 (unat (dl_offset (ee_location e))) (unat (dl_length (ee_location e)))))"
proof -
  let ?t = "dl_tier l" and ?o = "unat (dl_offset l)"
  obtain a d where ad: "em_alloc em ?t = Some a" "em_dev em ?t = Some d" "healthy d" "av_device_size a = bd_size d"
    using g l(1) unfolding geom_def by blast
  have "avl.owns a (ranges ?t (held em @ l # G))" using inv ad(1) unfolding em_inv_def owns_all_def by blast
  then have own: "avl.owns a (loc_range l # ranges ?t (held em @ G))" by (rule owns_mset) (simp add: ranges_Cons)
  then have b: "?o + unat (dl_length l) \<le> unat (bd_size d)"
    using ad(4) by (simp add: avl.owns_def regions_Cons loc_range_def)
  let ?d = "wrote ?o bl True d" let ?em = "add_block_device ?t ?d em"
  have far: "unat (dl_offset (ee_location e)) + unat (dl_length (ee_location e)) \<le> ?o \<or>
      ?o + length bl \<le> unat (dl_offset (ee_location e))"
    if e: "em_lookup em k = Some e" "dl_tier (ee_location e) = ?t" for k e
  proof -
    have "loc_range (ee_location e) \<in> set (ranges ?t (held em @ G))"
      using loc_in_em_locs [OF e(1)] e(2) in_ranges by (simp add: held_def)
    then have dis: "range_space (loc_range l) \<inter> range_space (loc_range (ee_location e)) = {}"
      using own by (simp add: avl.owns_def regions_Cons)
    have "entry_ok e" using g e(1) by (auto simp: geom_def)
    then have "0 < unat (dl_length (ee_location e))" by (simp add: entry_ok_def)
    with dis have "{?o ..< ?o + unat (dl_length l)} \<inter> {unat (dl_offset (ee_location e)) ..<
        unat (dl_offset (ee_location e)) + unat (dl_length (ee_location e))} = {}"
      by (simp add: range_space_def loc_range_def)
    from disjoint_ranges [OF this order.refl order.refl, of "length bl"] show ?thesis using d \<open>0 < unat (dl_length (ee_location e))\<close> by simp
  qed
  have fit: "?o + length bl \<le> unat (bd_size d)" "length bl < 2 ^ 31" using b assms(6-) l(2) by linarith+
  have w: "dev_write (dl_offset l) bl True d = (int (length bl), ?d)"
    using dev_write_healthy [OF ad(3) fit] by simp
  have dt: "device_for ?t = ?t" using l(1) by (auto simp: device_for_def named_tier_def)
  have "tier_write ?t (dl_offset l) bl em = Some (int (length bl), ?em)"
    using ad(2) w dt by (simp add: tier_write_def)
  moreover have hd: "healthy ?d" using ad(3) fit(1) by (rule healthy_wrote)
  moreover have "bytes_at ?d ?o (length bl) = bl" by (rule bytes_at_wrote(1))
  moreover have "em_inv ?em (l # G)" using em_inv_quiet [OF inv, of ?em] by (simp add: add_block_device_def)
  moreover have "geom ?em" using g l(1) ad hd unfolding geom_def by auto
  moreover have "kept (ran (km_lookup km)) em ?em"
  proof (rule write_kept [OF inv g keys_ok_slots [OF K] ad(2), of _ ?d ?o "length bl"])
    show "em_dev ?em = (em_dev em)(?t \<mapsto> ?d)" "em_lookup ?em = em_lookup em" by simp_all
    show "bytes_at ?d b n = bytes_at d b n" if "b + n \<le> ?o \<or> ?o + length bl \<le> b" for b n
      using that by (rule bytes_at_wrote(2))
  next
    fix kl e assume k: "kl \<in> ran (km_lookup km)" and e: "em_lookup em (kl_extent_id kl) = Some e" "dl_tier (ee_location e) = ?t"
    have sk: "slot_ok em kl" using keys_ok_slots [OF K] k by blast
    obtain e0 where "em_lookup em (kl_extent_id kl) = Some e0" "slot_addr (ee_location e0) kl + unat (kl_length kl) \<le>
       unat (dl_offset (ee_location e0)) + unat (dl_length (ee_location e0))" using slot_facts [OF inv g sk] by metis
    then have s: "slot_addr (ee_location e) kl + unat (kl_length kl) \<le> unat (dl_offset (ee_location e)) + unat (dl_length (ee_location e))"
      using e(1) by simp
    have "unat (dl_offset (ee_location e)) \<le> slot_addr (ee_location e) kl" by (simp add: slot_addr_def)
    then show "slot_addr (ee_location e) kl + unat (kl_length kl) \<le> ?o \<or> ?o + length bl \<le> slot_addr (ee_location e) kl"
      using s far [OF e] by linarith
  qed
  moreover have "keys_ok ?em km pend" using K by (simp add: keys_ok_def slot_ok_def)
  moreover have "\<exists>d0 d1. em_dev em (dl_tier (ee_location e)) = Some d0 \<and> em_dev ?em (dl_tier (ee_location e)) = Some d1 \<and>
      bytes_at d1 (unat (dl_offset (ee_location e))) (unat (dl_length (ee_location e))) =
      bytes_at d0 (unat (dl_offset (ee_location e))) (unat (dl_length (ee_location e)))"
    if e: "em_lookup em k = Some e" for k e
  proof (cases "dl_tier (ee_location e) = ?t")
    case True
    show ?thesis using bytes_at_wrote(2) [OF far [OF e True]] ad(2) True by (intro exI [of _ d] exI [of _ ?d]) simp
  next
    case False
    have "named_tier (dl_tier (ee_location e))" using g e by (auto simp: geom_def)
    then show ?thesis using g False by (fastforce simp: geom_def)
  qed
  ultimately show ?thesis by blast
qed

text \<open>The commit: the extent changes its place, and its bytes are there already.\<close>

lemma commit_move_ok:
  assumes inv: "em_inv em (l # [journal_loc ds])" and g: "geom em" and K: "keys_ok em km pend"
    and h: "em_lookup em (mh_extent_id h) = Some x" "generation (ee_raw x) = mh_gen_before h"
    and l: "named_tier (dl_tier l)" "unat (dl_length l) < 2 ^ 31" "unat (dl_length (ee_location x)) \<le> unat (dl_length l)"
    and dd: "em_dev em (dl_tier (ee_location x)) = Some d" "em_dev em (dl_tier l) = Some d'"
      "bytes_at d' (unat (dl_offset l)) (unat (dl_length (ee_location x))) =
         bytes_at d (unat (dl_offset (ee_location x))) (unat (dl_length (ee_location x)))"
  shows "\<exists>em'. commit_migration h l em = (True, em') \<and> store_ok ds em' km pend \<and> kept (ran (km_lookup km)) em em' \<and>
    get_location em' (mh_extent_id h) = Some l"
proof -
  let ?k = "mh_extent_id h"
  define x' where "x' = x\<lparr>ee_location := l, ee_raw := pack (access_count (ee_raw x)) (write_count (ee_raw x))
    (randomness (ee_raw x)) ACTIVE (mh_gen_before h + 1)\<rparr>"
  define em' where "em' = mark_dirty ?k (add_deferred_free (ee_location x) (set_entry ?k x' em))"
  have c: "commit_migration h l em = (True, em')" using h by (simp add: commit_migration_def em'_def x'_def Let_def)
  have s: "em_lookup em' = (em_lookup em)(?k \<mapsto> x')" "em_dev em' = em_dev em" "em_alloc em' = em_alloc em"
    "em_block_size em' = em_block_size em" by (simp_all add: em'_def)
  have x: "ee_location x' = l" "ee_used_bytes x' = ee_used_bytes x" "ee_live_bytes x' = ee_live_bytes x"
    by (simp_all add: x'_def)
  have ex: "entry_ok x" using g h(1) by (auto simp: geom_def)
  then have ex': "entry_ok x'" using l(3) by (auto simp: entry_ok_def x)
  have "geom em'" using g s ex' l(1,2) x(1) unfolding geom_def by auto
  moreover have "em_inv em' [journal_loc ds]" using em_inv_commit [OF inv _ c] by simp
  moreover have kp: "kept (ran (km_lookup km)) em em'"
    unfolding kept_def
  proof
    fix kl assume "kl \<in> ran (km_lookup km)"
    then have sl: "slot_ok em kl" using keys_ok_slots [OF K] by blast
    show "slot_ok em' kl \<and> slot_bytes em' kl = slot_bytes em kl"
    proof (cases "kl_extent_id kl = ?k")
      case False
      then have "em_lookup em' (kl_extent_id kl) = em_lookup em (kl_extent_id kl)" using s(1) by simp
      then show ?thesis using sl unfolding slot_ok_def slot_bytes_def s(2) by simp
    next
      case True
      let ?i = "4096 + unat (kl_offset kl)" and ?n = "unat (kl_length kl)" and ?m = "unat (dl_length (ee_location x))"
      have u: "unat (kl_offset kl) + ?n \<le> unat (ee_used_bytes x)" using sl True h(1) by (auto simp: slot_ok_def)
      then have im: "?i + ?n \<le> ?m" using ex by (simp add: entry_ok_def)
      have "slot_bytes em' kl = bytes_at d' (unat (dl_offset l) + ?i) ?n"
        using True s dd(2) x(1) by (simp add: slot_bytes_def slot_addr_def add.assoc)
      also have "\<dots> = bytes_at d (unat (dl_offset (ee_location x)) + ?i) ?n"
        unfolding bytes_at_slice [OF im] dd(3) ..
      also have "\<dots> = slot_bytes em kl"
        using True h(1) dd(1) by (simp add: slot_bytes_def slot_addr_def add.assoc)
      finally show ?thesis using sl True s(1) h(1) x(2) by (auto simp: slot_ok_def)
    qed
  qed
  moreover have "keys_ok em' km (pend(?k := pend ?k))"
    by (rule live_update [OF K h(1) s(1) kp]) (use keys_ok_live [OF K h(1)] x(3) in simp)
  moreover have "get_location em' ?k = Some l" using s(1) x(1) by (simp add: get_location_def)
  ultimately show ?thesis using c by (intro exI [of _ em']) (simp add: store_ok_def)
qed


section \<open>Migration between tiers\<close>

text \<open>The destination \<open>allocate_raw\<close> would return is on the tier asked for and not shorter than the source.\<close>

definition fair_destination :: "tier \<Rightarrow> ExtentEntry \<Rightarrow> ExtentMap \<Rightarrow> bool" where
  "fair_destination to x em \<longleftrightarrow> (\<forall>l em'. allocate_raw to (ucast (dl_length (ee_location x))) em = Some (Some l, em') \<longrightarrow>
     dl_tier l = to \<and> unat (dl_length (ee_location x)) \<le> unat (dl_length l))"

text \<open>Claiming the extent, and reading all of it.\<close>

lemma begin_ok:
  assumes "store_ok ds em km pend" "em_lookup em eid = Some x" "state (ee_raw x) = ACTIVE"
  shows "\<exists>h em1 x1. begin_migration eid em = (Some h, em1) \<and> store_ok ds em1 km pend \<and>
    kept (ran (km_lookup km)) em em1 \<and> em_lookup em1 eid = Some x1 \<and> ee_location x1 = ee_location x \<and>
    generation (ee_raw x1) = mh_gen_before h \<and> mh_extent_id h = eid \<and> mh_src_loc h = ee_location x \<and>
    em_alloc em1 = em_alloc em \<and> em_block_size em1 = em_block_size em"
proof -
  define w where "w = pack (access_count (ee_raw x)) (write_count (ee_raw x)) (randomness (ee_raw x)) MIGRATING (generation (ee_raw x))"
  define h where "h = \<lparr>mh_extent_id = eid, mh_src_loc = ee_location x, mh_gen_before = generation (ee_raw x)\<rparr>"
  have "begin_migration eid em = (Some h, set_entry eid (x\<lparr>ee_raw := w\<rparr>) em)"
    using assms(2,3) by (simp add: begin_migration_def Let_def h_def w_def)
  then show ?thesis
    using raw_update_ok [OF assms(1,2), of w]
    by (intro exI [of _ h] exI [of _ "set_entry eid (x\<lparr>ee_raw := w\<rparr>) em"] exI [of _ "x\<lparr>ee_raw := w\<rparr>"])
      (simp add: h_def w_def generation_pack_same)
qed

lemma read_extent_ok:
  assumes "em_inv em G" "geom em" "em_lookup em eid = Some x"
  shows "\<exists>d. em_dev em (dl_tier (ee_location x)) = Some d \<and>
    tier_read (dl_tier (ee_location x)) (dl_offset (ee_location x)) (ucast (dl_length (ee_location x))) em =
      Some (int (unat (dl_length (ee_location x))),
        bytes_at d (unat (dl_offset (ee_location x))) (unat (dl_length (ee_location x))), em)"
proof -
  let ?t = "dl_tier (ee_location x)" and ?sz = "ucast (dl_length (ee_location x)) :: u64"
  have nt: "named_tier ?t" "unat (dl_length (ee_location x)) < 2 ^ 31" using assms(2,3) by (auto simp: geom_def)
  then obtain a d where d: "em_dev em ?t = Some d" "healthy d" "em_alloc em ?t = Some a" "av_device_size a = bd_size d"
    using assms(2) unfolding geom_def by blast
  have fit: "unat (dl_offset (ee_location x)) + unat ?sz \<le> unat (bd_size d)"
    using extent_bound [OF assms(1,3)] d(3,4) by simp
  have "device_for ?t = ?t" using nt(1) by (auto simp: device_for_def named_tier_def)
  then show ?thesis
    using d(1) same_device [OF d(1)] dev_read_healthy [OF d(2) fit] nt(2) by (simp add: tier_read_def)
qed

text \<open>With a fair destination at hand, the copy is written and committed.\<close>

lemma copy_ok:
  assumes inv: "em_inv em (l # [journal_loc ds])" and g: "geom em" and K: "keys_ok em km pend"
    and x: "em_lookup em (mh_extent_id h) = Some x" "generation (ee_raw x) = mh_gen_before h"
      "em_dev em (dl_tier (ee_location x)) = Some d"
    and l: "named_tier (dl_tier l)" "unat (dl_length l) < 2 ^ 31" "unat (dl_length (ee_location x)) \<le> unat (dl_length l)"
    and dat: "dat = bytes_at d (unat (dl_offset (ee_location x))) (unat (dl_length (ee_location x)))"
  shows "\<exists>em4 em5. tier_write (dl_tier l) (dl_offset l) dat em = Some (int (length dat), em4) \<and>
    commit_migration h l em4 = (True, em5) \<and> store_ok ds em5 km pend \<and> kept (ran (km_lookup km)) em em5 \<and>
    get_location em5 (mh_extent_id h) = Some l"
proof -
  let ?r = "\<lambda>d. bytes_at d (unat (dl_offset (ee_location x))) (unat (dl_length (ee_location x)))"
  have "entry_ok x" using g x(1) by (auto simp: geom_def)
  then have dl: "length dat \<le> unat (dl_length l)" "0 < length dat" using l(3) by (simp_all add: dat entry_ok_def)
  from raw_write_ok [OF inv g K l(1,2) dl] obtain d' em4 where
    wr: "tier_write (dl_tier l) (dl_offset l) dat em = Some (int (length dat), em4)"
      "em4 = add_block_device (dl_tier l) d' em" "bytes_at d' (unat (dl_offset l)) (length dat) = dat"
      "em_inv em4 (l # [journal_loc ds])" "geom em4" "keys_ok em4 km pend" "kept (ran (km_lookup km)) em em4" and
    old: "\<exists>d0 d1. em_dev em (dl_tier (ee_location x)) = Some d0 \<and> em_dev em4 (dl_tier (ee_location x)) = Some d1 \<and>
      ?r d1 = ?r d0" using x(1) by blast
  then obtain d1 where d1: "em_dev em4 (dl_tier (ee_location x)) = Some d1" "?r d1 = ?r d" using x(3) by auto
  have lk: "em_lookup em4 (mh_extent_id h) = Some x" using wr(2) x(1) by simp
  have dd: "em_dev em4 (dl_tier l) = Some d'"
      "bytes_at d' (unat (dl_offset l)) (unat (dl_length (ee_location x))) = ?r d1"
    using wr(2,3) d1(2) by (simp_all add: dat)
  from commit_move_ok [OF wr(4,5,6) lk x(2) l d1(1) dd] wr(1) kept_trans [OF wr(7)] show ?thesis by blast
qed

text \<open>
  C6: migrating an extent keeps everything the engine stores. From any good state, for an extent on the tier
  \<open>from\<close>, when the destination is on the tier asked for and is not a shorter fragment, \<open>migrate_tier\<close> does not
  fail an assertion; it commits exactly when the extent is active and there is room, the extent then being on the
  tier \<open>to\<close>, and otherwise leaves the extent where it was. In every case the state stays good and every key
  reads as before.
\<close>

theorem migration_keeps_contents:
  assumes "store_ok ds em km pend" "em_lookup em eid = Some x" "dl_tier (ee_location x) = from" "named_tier to"
    and "unat (dl_length (ee_location x)) + unat (em_block_size em) \<le> 2 ^ 31" "fair_destination to x em"
  shows "\<exists>res me' em'. migrate_tier eid from to (me, em) = Some (res, me', em') \<and>
    store_ok ds em' km pend \<and> contents em' km = contents em km \<and>
    (res = COMMITTED \<longleftrightarrow> state (ee_raw x) = ACTIVE \<and>
       (\<exists>l em1. allocate_raw to (ucast (dl_length (ee_location x))) em = Some (Some l, em1))) \<and>
    (\<exists>l. get_location em' eid = Some l \<and> (if res = COMMITTED then dl_tier l = to else l = ee_location x))"
proof (cases "state (ee_raw x) = ACTIVE")
  case False
  then have "migrate_tier eid from to (me, em) = Some (INTERRUPTED, me, em)"
    using assms(2) by (simp add: migrate_tier_def begin_migration_def Let_def)
  then show ?thesis using assms(1,2) False by (simp add: get_location_def)
next
  case act: True
  let ?K = "ran (km_lookup km)" and ?sz = "ucast (dl_length (ee_location x)) :: u64"
  from begin_ok [OF assms(1,2) act] obtain h em1 x1 where
    b: "begin_migration eid em = (Some h, em1)" and ok1: "store_ok ds em1 km pend" and k1: "kept ?K em em1"
    and x1: "em_lookup em1 eid = Some x1" "ee_location x1 = ee_location x" "generation (ee_raw x1) = mh_gen_before h"
    and h: "mh_extent_id h = eid" "mh_src_loc h = ee_location x"
    and s1: "em_alloc em1 = em_alloc em" "em_block_size em1 = em_block_size em" by blast
  have o1: "em_inv em1 [journal_loc ds]" "geom em1" "keys_ok em1 km pend" using ok1 by (simp_all add: store_ok_def)
  from read_extent_ok [OF o1(1,2) x1(1)] obtain d dat where d: "em_dev em1 from = Some d"
    "dat = bytes_at d (unat (dl_offset (ee_location x))) (unat (dl_length (ee_location x)))"
    "tier_read from (dl_offset (ee_location x)) ?sz em1 = Some (int (unat (dl_length (ee_location x))), dat, em1)"
    using x1(2) assms(3) by auto
  obtain r em2 where ar: "allocate_raw to ?sz em1 = Some (r, em2)" using allocate_raw_total [OF o1(1)] by blast
  have fr: "map_option fst (allocate_raw to ?sz em) = Some r" using allocate_raw_frame [OF s1, of to ?sz] ar by simp
  have "entry_ok x1" using o1(2) x1(1) by (auto simp: geom_def)
  then have sz: "unat ?sz + unat (em_block_size em1) \<le> 2 ^ 31" "0 < unat ?sz"
    using assms(5) s1(2) x1(2) by (auto simp: entry_ok_def)
  note G = allocate_raw_geom [OF o1(1,2) assms(4) sz ar]
  have K2: "keys_ok em2 km pend" using o1(3) G(3) by (simp add: keys_ok_def slot_ok_def)
  have k2: "kept ?K em em2"
    by (rule kept_trans [OF k1 kept_same_entries [OF keys_ok_slots [OF o1(3)] G(2)]]) (use G(3) in auto)
  note step = migrate_tier_def b h d(3) ar
  show ?thesis
  proof (cases r)
    case None
    have "em_inv em2 [journal_loc ds]" using em_inv_allocate_raw [OF o1(1) ar] None by simp
    then have ok2: "store_ok ds em2 km pend" using G(1) K2 by (simp add: store_ok_def)
    have "migrate_tier eid from to (me, em) = Some (FAILED, me, abort_migration h em2)" using None by (simp add: step)
    moreover have "contents (abort_migration h em2) km = contents em km"
      using kept_trans [OF k2] abort_ok [OF ok2, of h] by (intro contents_kept) blast
    moreover have "get_location (abort_migration h em2) eid = Some (ee_location x)"
      using G(3) x1 h(1) by (auto simp: abort_migration_def get_location_def Let_def)
    ultimately show ?thesis using abort_ok [OF ok2, of h] fr None by auto
  next
    case (Some l)
    obtain em0 where a0: "allocate_raw to ?sz em = Some (Some l, em0)" using fr Some by auto
    then have l: "dl_tier l = to" "unat (dl_length (ee_location x1)) \<le> unat (dl_length l)"
      using assms(6) x1(2) by (auto simp: fair_destination_def)
    have "em_inv em2 (l # [journal_loc ds])" using em_inv_allocate_raw [OF o1(1) ar] Some by simp
    from copy_ok [OF this G(1) K2, of h x1 d dat] obtain em4 em5 where
      c: "tier_write to (dl_offset l) dat em2 = Some (int (length dat), em4)" "commit_migration h l em4 = (True, em5)"
        "store_ok ds em5 km pend" "kept ?K em2 em5" "get_location em5 eid = Some l"
      using G(2,3,5) Some x1 h(1) d(1,2) l assms(3,4) by auto
    then have "\<exists>me'. migrate_tier eid from to (me, em) = Some (COMMITTED, me', em5)"
      using Some by (simp add: step)
    moreover have "contents em5 km = contents em km" using kept_trans [OF k2 c(4)] by (rule contents_kept)
    ultimately show ?thesis using c(3,5) act a0 l(1) by (intro exI [of _ COMMITTED]) auto
  qed
qed

section \<open>An instance\<close>

text \<open>A FAST tier without free space, a SLOW tier with 64 KB of it, and one extent that holds one key.\<close>

definition demo_full :: AvlAllocator where
  "demo_full = new_AvlAllocator 0x1000000 4096 0 0"

definition demo_room :: AvlAllocator where
  "demo_room = (new_AvlAllocator 0x1000000 4096 0 0)
     \<lparr>av_range_tree := [seg 0x10000 0x20000], av_range_size_tree := [seg 0x10000 0x20000], av_num_free := 0x10000\<rparr>"

definition demo_cold :: ExtentEntry where
  "demo_cold = (new_ExtentEntry demo_loc)\<lparr>ee_used_bytes := 5, ee_live_bytes := 5\<rparr>"

definition demo_tiers :: ExtentMap where
  "demo_tiers = \<lparr>em_block_size = 4096, em_extent_size = 0x400000, em_entries = [(1, demo_cold)],
     em_next_extent_id = 2, em_alloc = [FAST \<mapsto> demo_full, SLOW \<mapsto> demo_room],
     em_dev = [FAST \<mapsto> demo_disk, SLOW \<mapsto> demo_disk], em_free_lists = (\<lambda>_. []),
     em_deferred_free = [], em_seqno = 0, em_dirty_headers = []\<rparr>"

definition demo_keys :: KeyMap where
  "demo_keys = km_put empty_KeyMap [1] \<lparr>kl_extent_id = 1, kl_offset = 0, kl_length = 5\<rparr> 0"

lemma demo_room_allocate:
  "\<exists>a. avl_allocate 0x4000 0x1000 0x4000 demo_room = Some (0x4000, [\<lparr>pe_offset = 0x10000, pe_length = 0x4000\<rparr>], a)"
proof -
  have "pick_block_fits demo_room 0x4000 0x1000 = 0x10000"
    by (simp add: pick_block_fits_def demo_room_def rs_key_def rs_length_def max_search_count_def p2roundup_def Let_def less_prod_def)
  then have f: "fits_loop demo_room 0x4000 0x1000 = (0x10000, 0x4000)"
    by (subst fits_loop.simps) (simp add: NO_BLOCK_def)
  obtain b where r: "remove_from_tree 0x10000 0x4000 demo_room = Some (True, b)"
    by (simp add: remove_from_tree_def demo_room_def tree_lower_bound_def rs_before_def process_range_removal_def
       range_size_tree_rm_def rs_length_def new_AvlAllocator_def range_size_tree_try_insert_def try_insert_range_def Let_def)
  have s: "allocate_single 0x4000 0x1000 demo_room = Some (Some (0x10000, 0x4000), b)"
    using f r by (simp add: allocate_single_def demo_room_def new_AvlAllocator_def rs_length_def range_size_alloc_threshold_def Let_def NO_BLOCK_def)
  have i: "isp2 (0x1000 :: u64)" by (simp add: isp2_def)
  have "allocate_loop 0x4000 0x1000 0x4000 0 [] demo_room = Some (0x4000, [\<lparr>pe_offset = 0x10000, pe_length = 0x4000\<rparr>], b)"
    by (subst allocate_loop.simps, simp add: s, subst allocate_loop.simps, simp)
  then show ?thesis using i by (simp add: avl_allocate_def avl_allocate_inner_def Let_def)
qed

lemma demo_tiers_allocate:
  "\<exists>em. allocate_raw SLOW 0x4000 demo_tiers = Some (Some \<lparr>dl_offset = 0x10000, dl_length = 0x4000, dl_tier = SLOW\<rparr>, em)"
proof -
  obtain a where a: "avl_allocate 0x4000 0x1000 0x4000 demo_room = Some (0x4000, [\<lparr>pe_offset = 0x10000, pe_length = 0x4000\<rparr>], a)"
    using demo_room_allocate by blast
  then show ?thesis
    by (simp add: allocate_raw_def alloc_space_def demo_tiers_def round_up_to_def Let_def)
qed

lemma demo_tiers_inv: "store_ok 0x1000 demo_tiers demo_keys (\<lambda>_. 0)"
proof -
  have b: "(4096 :: u64) = 2 ^ 12" by simp
  have lk: "em_lookup demo_tiers = [1 \<mapsto> demo_cold]" by (simp add: em_lookup_def demo_tiers_def fun_eq_iff)
  have "avl_inv demo_full" "free_space demo_full = {}" "avl_inv demo_room" "free_space demo_room = {0x10000 ..< 0x20000}"
    by (simp_all add: demo_full_def demo_room_def new_AvlAllocator_def avl_inv_def tree_ok_def size_ok_def seg_len_def free_space_def)
  moreover have s: "av_block_size demo_full = 2 ^ 12" "av_block_size demo_room = 2 ^ 12" "(12 :: nat) < 32"
    by (simp_all add: demo_full_def demo_room_def new_AvlAllocator_def)
  ultimately have "avl_ready demo_full" "avl_ready demo_room" and f: "free_space demo_full = {}" "free_space demo_room = {0x10000 ..< 0x20000}"
    using s unfolding avl_ready_def by (blast, blast, simp_all)
  have H: "ranges FAST (held demo_tiers) = [(0x10000, 0x4000)]" "ranges FAST [journal_loc 0x1000] = [(0, 0x1000)]"
    "ranges SLOW (held demo_tiers) = []" "ranges SLOW [journal_loc 0x1000] = []"
    by (simp_all add: demo_tiers_def ranges_def held_def em_locs_def demo_cold_def new_ExtentEntry_def demo_loc_def journal_loc_def loc_range_def)
  have c: "av_device_size demo_full = 0x1000000" "av_device_size demo_room = 0x1000000"
    by (simp_all add: demo_full_def demo_room_def new_AvlAllocator_def)
  have "owns_all demo_tiers [journal_loc 0x1000]"
  proof -
    have "avl.owns a (ranges t (held demo_tiers @ [journal_loc 0x1000]))" if "em_alloc demo_tiers t = Some a" for t a
    proof -
      have "t = FAST \<and> a = demo_full \<or> t = SLOW \<and> a = demo_room" using that by (auto simp: demo_tiers_def split: if_splits)
      then show ?thesis
        using \<open>avl_ready demo_full\<close> \<open>avl_ready demo_room\<close> f c by (auto simp: H avl.owns_def regions_Cons range_space_def)
    qed
    then show ?thesis by (simp add: owns_all_def)
  qed
  then have "em_inv demo_tiers [journal_loc 0x1000]"
    by (simp add: em_inv_def demo_tiers_def isp2_def)
  moreover have "geom demo_tiers"
    unfolding geom_def lk
  proof (intro conjI allI impI)
    show "\<exists>j. em_block_size demo_tiers = 2 ^ j \<and> 12 \<le> j \<and> j < 32"
      by (intro exI [of _ 12]) (simp add: demo_tiers_def)
    show "\<exists>a d. em_alloc demo_tiers t = Some a \<and> em_dev demo_tiers t = Some d \<and> healthy d \<and>
        av_device_size a = bd_size d \<and> av_block_size a = em_block_size demo_tiers" if "named_tier t" for t
      using that demo_disk_ok(1) c s(1,2) by (auto simp: demo_tiers_def named_tier_def demo_disk_def)
  qed (auto simp: demo_cold_def new_ExtentEntry_def demo_loc_def entry_ok_def named_tier_def split: if_splits)
  moreover have "keys_ok demo_tiers demo_keys (\<lambda>_. 0)"
  proof -
    have L: "km_lookup demo_keys = [[1] \<mapsto> \<lparr>kl_extent_id = 1, kl_offset = 0, kl_length = 5\<rparr>]"
      by (simp add: demo_keys_def km_lookup_put fun_eq_iff) (simp add: empty_KeyMap_def km_lookup_def)
    have "keys_in_extent demo_keys 1 = [[1]]"
      by (simp add: demo_keys_def km_put_def empty_KeyMap_def keys_in_extent_def ri_insert_def Let_def)
    then have "keys_len demo_keys 1 = 5" by (simp add: keys_len_def lookup_or_default_def L)
    then show ?thesis
      unfolding keys_ok_def lk L
      by (auto simp: demo_keys_def km_inv_put km_inv_empty slot_ok_def lk demo_cold_def split: if_splits)
  qed
  ultimately show ?thesis by (simp add: store_ok_def)
qed

theorem migration_keeps_contents_witness:
  "\<forall>me. \<exists>me' em'. migrate_tier 1 FAST SLOW (me, demo_tiers) = Some (COMMITTED, me', em') \<and>
    contents em' demo_keys = contents demo_tiers demo_keys \<and> (\<exists>l. get_location em' 1 = Some l \<and> dl_tier l = SLOW)"
proof -
  have e: "em_lookup demo_tiers 1 = Some demo_cold" by (simp add: em_lookup_def demo_tiers_def)
  have c: "dl_tier (ee_location demo_cold) = FAST" "unat (dl_length (ee_location demo_cold)) = 0x4000"
    "(ucast (dl_length (ee_location demo_cold)) :: u64) = 0x4000" "em_block_size demo_tiers = 4096" "state (ee_raw demo_cold) = ACTIVE"
    by (simp_all add: demo_cold_def new_ExtentEntry_def demo_loc_def demo_tiers_def state_def ACTIVE_def)
  obtain em where a: "allocate_raw SLOW 0x4000 demo_tiers = Some (Some \<lparr>dl_offset = 0x10000, dl_length = 0x4000, dl_tier = SLOW\<rparr>, em)"
    using demo_tiers_allocate by blast
  have f: "fair_destination SLOW demo_cold demo_tiers" using a c by (simp add: fair_destination_def)
  show ?thesis
  proof
    fix me
    show "\<exists>me' em'. migrate_tier 1 FAST SLOW (me, demo_tiers) = Some (COMMITTED, me', em') \<and>
      contents em' demo_keys = contents demo_tiers demo_keys \<and> (\<exists>l. get_location em' 1 = Some l \<and> dl_tier l = SLOW)"
    using migration_keeps_contents [OF demo_tiers_inv e c(1) _ _ f, of me] a c by (auto simp: named_tier_def)
  qed
qed

end
