(* ===== verification/Spec2Isabelle.thy ===== *)
theory Spec2Isabelle
  imports Prelude Intarith Crc32 Btier_Types Key_Map Allocator_Spec Interval_Set Avl_Allocator
    Avl_Correct Block_Device Journal Journal_Correct Btier_Config Extent_Map Extent_Correct
    Scoring_Engine Migration_Engine Btier_Engine Engine_Store Engine_Correct Kv_Spec Engine_Space
    Engine_Refines Engine_Restart Config_Json Config_Correct Bitmap_Allocate Bitmap_Allocator
    Bitmap_Correct Bitmap_Faults Bitmap_Stats Bitmap_Type Bluefs Bluefs_Data Bluefs_Files
    Bluefs_Journal Bluefs_Mount Bluefs_Names Bluefs_Sync Bluefs_Types Bluefs_Types_Correct Denc
    Freelist Freelist_Correct Freelist_Enum Freelist_Store Mem_Db Mem_Db_Correct Migration_Correct
    Volume_Selector
begin

text \<open>
  Verification of the tiered key-value storage engine of this repository (directory \<open>btier\<close>), of
  the block layer it stands on (\<open>blk\<close>) and of the key-value and freelist layer beside it (\<open>kv\<close>,
  \<open>bluestore\<close>). The names of definitions are those of the C++ sources; a prefix tells homonyms
  apart (\<open>em_\<close> extent map, \<open>km_\<close> key map, \<open>be_\<close> engine, \<open>me_\<close> migration engine, \<open>av_\<close> and \<open>avl_\<close> AVL
  allocator, \<open>dev_\<close> block device, \<open>is_\<close> interval set).

  How the program fits together. \<open>BtierEngine\<close> (\<open>btier/btier.cc\<close>) stores values in extents of two
  devices, FAST and SLOW. It owns the journal on the FAST device, the key map from keys to
  locations inside extents, and the extent map, which owns one AVL allocator per tier. A put picks
  a place, writes the bytes, logs the change in one journal transaction and only then updates the
  key map. A restart reads the journal back and rebuilds the two maps and the allocators. The
  migration engine moves whole extents between the tiers by their score and compacts extents with
  dead space; it shares the extent map and the key map with the foreground calls.

  Reading conventions. Machine integers are words of the width of the source and wrap around as
  in C++ for unsigned types. \<open>std::string\<close> and \<open>bufferlist\<close> are byte lists; \<open>std::map\<close> is its list
  of entries in key order; a \<open>std::unordered_map\<close> is an association list. An operation that
  changes its object takes and returns the record of that object. Results that the source returns
  through an \<open>int\<close> are kept as \<open>int\<close>, errors as the negated \<open>errno\<close> number. An assertion that can
  fail makes the operation an option, \<open>None\<close> being the abort. Locks are left out: every public
  operation of the sources holds its lock from start to end, so the operations of one object are
  atomic, and the migration engine is modelled at the granularity of its calls into the maps.

  Theories, bottom up.

\<^item> \<open>Prelude\<close>: byte and word lemmas, little-endian images, ordered maps, \<open>errno\<close> numbers.
\<^item> \<open>Intarith\<close> (\<open>common/intarith.h\<close>): alignment and rounding; \<open>Crc32\<close> (\<open>common/crc32.cc\<close>): the table, the
  software routine and \<open>calc_crc32\<close>; shown equal to the bitwise definition, to chain over
  concatenation and to detect every single-byte error.
\<^item> \<open>Btier_Types\<close> (\<open>btier/btier_types.h\<close>): tiers, locations, the packed metrics word, the extent header
  with its checksum; both encodings are shown to round-trip.
\<^item> \<open>Key_Map\<close> (\<open>btier/key_map.cc\<close>): the key map with its reverse index. It is refined by an abstract map
  (locale \<open>key_index\<close>, interpreted on \<open>put\<close> and on the single step of \<open>batch_update\<close>).
\<^item> \<open>Allocator_Spec\<close> (\<open>blk/allocator.h\<close>, \<open>.cc\<close>): the contract of an allocator as the locale
  \<open>space_allocator\<close>; \<open>Interval_Set\<close> (\<open>blk/extent_types.h\<close>): insert and erase of the interval set used by
  release, with the one branch where insert loses addresses.
\<^item> \<open>Avl_Allocator\<close>, \<open>Avl_Correct\<close> (\<open>blk/avl_allocator.cc\<close>): the allocator with its two trees as sorted
  lists, the cursor search and the best-fit search. \<open>avl_inv\<close> ties the two trees, the counter and the
  represented free space; the contract is interpreted as \<open>avl\<close>. \<open>avl_reach\<close> is the step relation of
  the public operations.
\<^item> \<open>Block_Device\<close> (\<open>blk/block_device.cc\<close>, \<open>blk/kernel_device.cc\<close>): synchronous read, write, flush and
  close. The kernel is a script of outcomes (complete, short count, error) consumed one per system
  call, so every theorem about a device speaks of every behaviour of the kernel.
\<^item> \<open>Journal\<close>, \<open>Journal_Correct\<close> (\<open>btier/journal.cc\<close>): serialisation of records, superblock,
  transactions, checkpoint, recovery scan. \<open>disk_ok\<close> states what the bytes on the device mean;
  \<open>replayed\<close> is the list of records a restart would see, and the theorems say how each operation
  changes it, also when the device fails.
\<^item> \<open>Btier_Config\<close>, \<open>Config_Json\<close>, \<open>Config_Correct\<close> (\<open>btier/config.cc\<close>, \<open>.h\<close>): the configuration record,
  the JSON parser with its recursion made explicit, the writer with the six significant digits of a
  C++ stream, load and save.
\<^item> \<open>Extent_Map\<close>, \<open>Extent_Correct\<close> (\<open>btier/extent_map.cc\<close>): extents, slots, deferred free,
  migration handles. \<open>em_inv\<close> states that all extents, all deferred locations and the allocators'
  free space are disjoint; \<open>em_step\<close> is the step relation of the calls of the engine.
\<^item> \<open>Scoring_Engine\<close> (\<open>btier/scoring_engine.cc\<close>): \<open>score\<close> and \<open>adapt_weights\<close> over an abstract rounding
  function of the float formats; \<open>Migration_Engine\<close> (\<open>btier/migration_engine.cc\<close>): \<open>migrate_tier\<close>,
  \<open>compact\<close>, the cycle and the task queue.
\<^item> \<open>Btier_Engine\<close> (\<open>btier/btier.cc\<close>): init, recovery, put, get, del, sync, shutdown, statistics.
  \<open>Engine_Store\<close> defines the slots of the device that hold values (\<open>store_ok\<close>) and how every
  operation of the extent map and the journal keeps them; \<open>Engine_Correct\<close> proves the steps of put
  and del against it (\<open>eng_ok\<close>); \<open>Kv_Spec\<close> is the abstract key-value store, as a locale
  \<open>kv_store\<close> over any engine, with the theorems about histories of calls; \<open>Engine_Space\<close> shows when a
  put finds space and returns 0; \<open>Engine_Refines\<close> interprets the store on \<open>put\<close>, \<open>get\<close> and \<open>del\<close> (for
  values that are not empty); \<open>Engine_Restart\<close> is about \<open>init\<close> on the devices of an earlier run.
\<^item> \<open>Mem_Db\<close>, \<open>Mem_Db_Correct\<close> (\<open>kv/mem/mem_db.cc\<close>, \<open>kv/key_value_db.cc\<close>, \<open>kv/merge_op\<close>): the in-memory database, its
  transactions, merge operators and iterators. The one ordered map of encoded keys is shown to implement a map per
  prefix, and a prefix iterator to read exactly the keys of its prefix.
\<^item> \<open>Freelist\<close>, \<open>Freelist_Correct\<close>, \<open>Freelist_Enum\<close>, \<open>Freelist_Store\<close> (\<open>bluestore/bitmap_freelist_manager.cc\<close>): the
  free list kept as XOR masks in the database: creation, loading, changes and enumeration.
\<^item> \<open>Bitmap_Allocator\<close> (\<open>blk/bitmap_allocator.h\<close>, \<open>.cc\<close>): the three levels of the bitmap allocator.
  \<open>Bitmap_Correct\<close> and \<open>Bitmap_Allocate\<close> show what an allocation hands out, \<open>Bitmap_Type\<close> that no index leaves a level,
  \<open>Bitmap_Faults\<close> and \<open>Bitmap_Stats\<close> the calls that go wrong.
\<^item> \<open>Migration_Correct\<close>: a migration of an extent keeps what every key reads.
\<^item> \<open>Denc\<close> (\<open>common/denc.h\<close>): encoders and decoders with their exceptions; each decoder is shown to read back what
  the encoder wrote. \<open>Bluefs_Types\<close>, \<open>Bluefs_Types_Correct\<close> (\<open>bluestore/bluefs_types.h\<close>, \<open>.cc\<close>): file nodes with the index of
  their extents, deltas, superblock and transactions; \<open>fnode_ok\<close> ties extents, index and total.
\<^item> \<open>Volume_Selector\<close> (\<open>bluestore/bluefs_volume_selector.cc\<close>): hints, usage accounting and the choice of a device.
\<^item> \<open>Bluefs\<close> (\<open>bluestore/bluefs.cc\<close>, \<open>.h\<close>): the file system: devices, space, superblock, file writers and the log;
  \<open>Bluefs_Mount\<close>: replay of the log, mkfs, mount, umount; \<open>Bluefs_Files\<close>: names and reading; \<open>Bluefs_Sync\<close>: truncation, synchronisation,
  compaction, locks. A file object is a position in a list, so aliases between directories, writers and
  the dirty list are kept. \<open>Bluefs_Names\<close>: what rename does, what a failed flush leaves behind, why the log is never
  compacted. \<open>Bluefs_Journal\<close>: the logged operations lead a replay to the current names, under every sequence of calls
  on names except \<open>lock_file\<close> of a new name, which logs nothing (\<open>lock_file_not_logged\<close>). \<open>Bluefs_Data\<close>: \<open>file_data\<close> is what the extents of a file hold; a flush puts the buffer into it (in buffered mode, or
  when it covers whole pages: \<open>direct_flush_refused\<close> shows the other case), a read takes it out, and a buffer larger than the space of the file is lost in part although the flush returns 0.

  Bounds and fuel. The only fuel is in the JSON parser: it bounds the nesting of calls and loop
  rounds. \<open>json_parser_terminates\<close> shows that twice the length of the text plus one is enough, and that the calls and
  rounds themselves (\<open>json_calls\<close>) are no more than that; \<open>load\<close> runs with this fuel.
  The loops of BlueFS over the log and over a file that is read need not end, nor need the growth of levels in the
  constructor of the RocksDB volume selector; they are partial functions whose value is \<open>None\<close> then.
  All other loops are structural or carry a termination proof. The theorems about puts assume
  room in the journal (no checkpoint is due, no wrap-around), values that are not empty and 64-bit offsets that do not
  wrap, which the named predicates \<open>ready\<close>, \<open>room\<close> and \<open>put_fits\<close> spell out, and \<open>has_space\<close> where a put is to succeed; each has
  a witness on an engine that \<open>init\<close> started. The theorems about the journal are for frames that fit before its end;
  \<open>failed_commit_overwrites_oldest\<close> and \<open>full_journal_lost\<close> are about the end.
  The rounding of floating-point numbers and the numbers a device driver reports are parameters,
  constrained only by \<open>fpu_ok\<close>.

  Not modelled. Buffers (\<open>common/buffer.cc\<close>) are byte lists here. The RocksDB store and environment
  forward to a library that is not part of the repository. Asynchronous I/O, logging, formatting, assertions and the
  observer have no effect on the modelled state beyond the abort of an assertion. The hybrid allocator and the base64 armour are left out.
\<close>

end
